(* ===== verification/Js_Prelude.thy ===== *)
theory Js_Prelude
  imports Main "HOL-Library.Word" "HOL-Library.AList"
begin

unbundle bit_operations_syntax

text \<open>
  Shared vocabulary of the development: the errors the code throws and the error monad in
  which it is modelled, the fragment of JavaScript's number semantics it relies on
  (ToInt32, conversion of a BigInt to a Number, BigInt conversion, radix printing and
  parsing), Node buffers as lists of bytes, and big-endian bit lists with the lemmas on
  them that every component uses.
\<close>

section \<open>Errors\<close>

text \<open>
  One constructor per kind of exception of the modelled files. JavaScript errors carry a
  message; the constructor stands for the throw site(s) that raise it.
\<close>

datatype js_error =
    LengthOutOfBounds      \<comment> \<open>BitString constructor: negative length\<close>
  | IndexOutOfBounds       \<comment> \<open>BitString.at\<close>
  | OffsetOutOfBounds      \<comment> \<open>BitString.substring, subbuffer\<close>
  | SkipOutOfBounds        \<comment> \<open>BitReader.skip\<close>
  | BitBuilderOverflow
  | BuilderNotAligned      \<comment> \<open>BitBuilder.buffer on a partial byte\<close>
  | InvalidBitLength       \<comment> \<open>negative or unsafe number of bits\<close>
  | ValueNotZero           \<comment> \<open>zero-width write of a non-zero value\<close>
  | ValueOutOfRange
  | ValueNegative
  | NotAnInteger           \<comment> \<open>RangeError of BigInt on a non-integral Number\<close>
  | SyntaxErr              \<comment> \<open>SyntaxError of BigInt on a malformed string\<close>
  | InvalidAddress
  | UnsupportedAddress
  | InvalidPadding         \<comment> \<open>loadPaddedBits with a number of bits that is no whole byte\<close>
  | TooManyReferences
  | NoMoreReferences
  | InvalidRefCount
  | BitsOverflow
  | ExoticParse            \<comment> \<open>beginParse of an exotic cell\<close>
  | InvalidExotic          \<comment> \<open>a malformed exotic cell\<close>
  | InvalidLevel           \<comment> \<open>sanity checks of the hash computation\<close>
  | BufferLength           \<comment> \<open>storeBuffer with a wrong byte count\<close>
  | SliceNotEmpty
  | InvalidString
  | Inconsistency          \<comment> \<open>'Internal inconsistency' of the dictionary builder\<close>
  | NoSerializer
  | EmptyDirect            \<comment> \<open>storeDirect of an empty dictionary\<close>
  | InvalidKey
  | InvalidMagic
  | InvalidCrc
  | InvalidBoc
  | NotADag
  | InternalError
  | InvalidAlphabet        \<comment> \<open>base32: a character outside the alphabet\<close>
  | InvalidNumber
  | MissingKey             \<comment> \<open>a proof for a key that the dictionary does not have\<close>
  | InvalidSize            \<comment> \<open>a buffer or bit string of the wrong size as a dictionary value\<close>
  | EndOfTuple             \<comment> \<open>'EOF' of the tuple reader\<close>
  | WrongItem              \<comment> \<open>a tuple item of another type than the one read\<close>
  | InvalidData            \<comment> \<open>an unknown tag, opcode or kind\<close>
  | TypeErr                \<comment> \<open>TypeError: property of undefined\<close>
  | TooManyMessages        \<comment> \<open>a transfer of more than four messages\<close>
  | ManyRoots              \<comment> \<open>fromBase64 of a bag without exactly one root\<close>
  | InvalidAmount
  | KeyMismatch            \<comment> \<open>the public key does not belong to the private key\<close>
  | Expired                \<comment> \<open>'the confirmation timeout has expired'\<close>
  | NewAddressError | SignTxError | CalcTxHashError \<comment> \<open>rejections of the wallet\<close>
  | OutOfFuel              \<comment> \<open>no error of the code: a bound of the model, shown never to be reached\<close>

type_synonym 'a res = "js_error + 'a"

section \<open>The error monad\<close>

text \<open>
  A throwing computation is a value of the sum type, \<open>Inl\<close> for the exception. An exception
  abandons the objects the code was mutating, so only the error is kept. \<open>foldE\<close> is a
  \<open>for\<close> loop over a list of items whose body may throw.
\<close>

named_theorems js_simps \<open>evaluation rules of the JavaScript fragment\<close>
named_theorems wf_intros \<open>well-formedness is preserved\<close>

definition bindE :: "'e + 'a \<Rightarrow> ('a \<Rightarrow> 'e + 'b) \<Rightarrow> 'e + 'b" where
  "bindE m f = (case m of Inl e \<Rightarrow> Inl e | Inr x \<Rightarrow> f x)"

lemma bindE_simps [simp]:
  "bindE (Inl e) f = Inl e"
  "bindE (Inr x) f = f x"
  by (simp_all add: bindE_def)

lemma bindE_cong [fundef_cong]:
  assumes "m = m'" and "\<And>x. m' = Inr x \<Longrightarrow> f x = f' x"
  shows "bindE m f = bindE m' f'"
  using assms by (cases m') (auto simp: bindE_def)

lemma bindE_eq_Inr: "bindE m f = Inr y \<longleftrightarrow> (\<exists>x. m = Inr x \<and> f x = Inr y)"
  by (cases m) auto

lemma bindE_eq_Inl: "bindE m f = Inl e \<longleftrightarrow> m = Inl e \<or> (\<exists>x. m = Inr x \<and> f x = Inl e)"
  by (cases m) auto

lemma bindE_InrE [elim!]:
  assumes "bindE m f = Inr y"
  obtains x where "m = Inr x" "f x = Inr y"
  using assms by (auto simp: bindE_eq_Inr)

lemma bindE_assoc: "bindE (bindE m f) g = bindE m (\<lambda>x. bindE (f x) g)"
  by (cases m) simp_all

fun foldE :: "('x \<Rightarrow> 's \<Rightarrow> 'e + 's) \<Rightarrow> 'x list \<Rightarrow> 's \<Rightarrow> 'e + 's" where
  "foldE f [] s = Inr s"
| "foldE f (x # xs) s = bindE (f x s) (foldE f xs)"

lemma foldE_append: "foldE f (xs @ ys) s = bindE (foldE f xs s) (foldE f ys)"
  by (induction xs arbitrary: s) (auto simp: bindE_assoc intro!: bindE_cong)

lemma foldE_cong [fundef_cong]:
  assumes "xs = ys" and "s = t" and "\<And>x u. x \<in> set ys \<Longrightarrow> f x u = g x u"
  shows "foldE f xs s = foldE g ys t"
proof -
  have "(\<And>x u. x \<in> set ys \<Longrightarrow> f x u = g x u) \<Longrightarrow> foldE f ys t = foldE g ys t" for ys t
    by (induction ys arbitrary: t) (auto intro!: bindE_cong)
  then show ?thesis using assms by blast
qed

text \<open>An invariant of the body is an invariant of the loop.\<close>

lemma foldE_invariant:
  assumes "foldE f xs s = Inr t" and "P s"
    and "\<And>x u v. x \<in> set xs \<Longrightarrow> P u \<Longrightarrow> f x u = Inr v \<Longrightarrow> P v"
  shows "P t"
  using assms
proof (induction xs arbitrary: s)
  case Nil
  then show ?case by simp
next
  case (Cons x xs)
  then obtain u where u: "f x s = Inr u" "foldE f xs u = Inr t" by auto
  with Cons.prems have "P u" by auto
  with u Cons.prems Cons.IH show ?case by (meson list.set_intros(2))
qed

fun mapE :: "('x \<Rightarrow> 'e + 'y) \<Rightarrow> 'x list \<Rightarrow> 'e + 'y list" where
  "mapE f [] = Inr []"
| "mapE f (x # xs) = bindE (f x) (\<lambda>y. bindE (mapE f xs) (\<lambda>ys. Inr (y # ys)))"

lemma mapE_cong [fundef_cong]:
  assumes "xs = ys" and "\<And>x. x \<in> set ys \<Longrightarrow> f x = g x"
  shows "mapE f xs = mapE g ys"
proof -
  have "(\<And>x. x \<in> set ys \<Longrightarrow> f x = g x) \<Longrightarrow> mapE f ys = mapE g ys" for ys
    by (induction ys) (auto intro!: bindE_cong)
  then show ?thesis using assms by blast
qed

lemma mapE_length: "mapE f xs = Inr ys \<Longrightarrow> length ys = length xs"
  by (induction xs arbitrary: ys) auto

lemma mapE_Inr: "(\<And>x. x \<in> set xs \<Longrightarrow> f x = Inr (g x)) \<Longrightarrow> mapE f xs = Inr (map g xs)"
  by (induction xs) auto

section \<open>Numbers\<close>

text \<open>
  A BigInt is an \<open>int\<close>. A Number that the modelled code uses as an integer is an \<open>int\<close>
  too; the two places where a Number is not its mathematical value are written out:
  \<open>to_int32\<close> is the ToInt32 conversion of the operands of \<open>>>\<close>, \<open>|\<close> and \<open>&\<close>, and
  \<open>to_number\<close> is \<open>Number(b)\<close> for a BigInt \<open>b\<close>: the nearest double, 53 significant bits,
  ties to even (values of \<open>2 ^ 1024\<close> and more become Infinity in JavaScript, which no cell
  of at most 1023 bits can produce).
\<close>

definition to_int32 :: "int \<Rightarrow> int" where
  "to_int32 x = (x + 2 ^ 31) mod 2 ^ 32 - 2 ^ 31"

lemma to_int32_id: "- (2 ^ 31) \<le> x \<Longrightarrow> x < 2 ^ 31 \<Longrightarrow> to_int32 x = x"
  by (simp add: to_int32_def)

definition shr3 :: "int \<Rightarrow> int" where \<comment> \<open>\<open>x >> 3\<close>\<close>
  "shr3 x = to_int32 x div 8"

definition js_rem :: "int \<Rightarrow> int \<Rightarrow> int" where \<comment> \<open>\<open>x % m\<close>: the sign of the dividend\<close>
  "js_rem x m = sgn x * (\<bar>x\<bar> mod \<bar>m\<bar>)"

lemma js_rem_nonneg: "0 \<le> x \<Longrightarrow> 0 \<le> m \<Longrightarrow> js_rem x m = x mod m"
  by (cases "x = 0") (auto simp: js_rem_def)

text \<open>The bitwise operators of Numbers: both operands are converted to 32-bit integers first.\<close>

definition js_and :: "int \<Rightarrow> int \<Rightarrow> int" where
  "js_and a b = to_int32 a AND to_int32 b"

definition js_or :: "int \<Rightarrow> int \<Rightarrow> int" where
  "js_or a b = to_int32 a OR to_int32 b"

definition js_shr :: "int \<Rightarrow> nat \<Rightarrow> int" where
  "js_shr a k = drop_bit k (to_int32 a)"

definition js_shl :: "int \<Rightarrow> nat \<Rightarrow> int" where
  "js_shl a k = to_int32 (push_bit k (to_int32 a))"

text \<open>\<open>Math.ceil(x / 8)\<close>: division by a power of two is exact on Numbers.\<close>

definition ceil8 :: "int \<Rightarrow> int" where
  "ceil8 x = - ((- x) div 8)"

lemma ceil8_mult8 [simp]: "ceil8 (8 * x) = x"
  by (simp add: ceil8_def)

lemma ceil8_bounds: "x \<le> 8 * ceil8 x" "8 * ceil8 x < x + 8"
  by (simp_all add: ceil8_def)

lemma ceil8_nonneg: "0 \<le> x \<Longrightarrow> 0 \<le> ceil8 x"
  using ceil8_bounds [of x] by linarith

fun bit_length :: "nat \<Rightarrow> nat" where
  "bit_length n = (if n = 0 then 0 else Suc (bit_length (n div 2)))"

declare bit_length.simps [simp del]

lemma bit_length_0 [simp]: "bit_length 0 = 0"
  by (simp add: bit_length.simps)

lemma bit_length_upper: "n < 2 ^ bit_length n"
proof (induction n rule: bit_length.induct)
  case (1 n)
  show ?case
  proof (cases "n = 0")
    case False
    with 1 have "n div 2 < 2 ^ bit_length (n div 2)" by simp
    then have "n < 2 * 2 ^ bit_length (n div 2)" by linarith
    with False show ?thesis by (simp add: bit_length.simps [of n])
  qed simp
qed

lemma bit_length_le: "n < 2 ^ k \<Longrightarrow> bit_length n \<le> k"
proof (induction n arbitrary: k rule: bit_length.induct)
  case (1 n)
  show ?case
  proof (cases "n = 0")
    case False
    then obtain j where j: "k = Suc j" using 1(2) by (cases k) auto
    then have "n div 2 < 2 ^ j" using 1(2) by auto
    with 1(1) False have "bit_length (n div 2) \<le> j" by blast
    with False j show ?thesis by (simp add: bit_length.simps [of n])
  qed simp
qed

lemma bit_length_pos: "0 < n \<Longrightarrow> 0 < bit_length n"
  by (simp add: bit_length.simps)

lemma bit_length_lower: "0 < n \<Longrightarrow> 2 ^ (bit_length n - 1) \<le> n"
proof (induction n rule: bit_length.induct)
  case (1 n)
  show ?case
  proof (cases "n div 2 = 0")
    case True
    with 1(2) show ?thesis by (simp add: bit_length.simps [of n])
  next
    case False
    with 1 have IH: "2 ^ (bit_length (n div 2) - 1) \<le> n div 2" by simp
    from False have "0 < bit_length (n div 2)" by (simp add: bit_length_pos)
    then have "2 ^ bit_length (n div 2) = 2 * (2::nat) ^ (bit_length (n div 2) - 1)"
      by (cases "bit_length (n div 2)") auto
    with IH have "2 ^ bit_length (n div 2) \<le> n" by linarith
    with 1(2) show ?thesis by (simp add: bit_length.simps [of n])
  qed
qed

definition to_number :: "int \<Rightarrow> int" where
  "to_number n =
     (let a = nat \<bar>n\<bar>; k = bit_length a
      in if k \<le> 53 then n
         else let m = 2 ^ (k - 53); q = a div m; r = a mod m;
                  q' = (if 2 * r > m \<or> (2 * r = m \<and> odd q) then Suc q else q)
              in sgn n * int (q' * m))"

lemma to_number_id: "\<bar>n\<bar> < 2 ^ 53 \<Longrightarrow> to_number n = n"
proof -
  assume a: "\<bar>n\<bar> < 2 ^ 53"
  then have "nat \<bar>n\<bar> < 2 ^ 53" by (simp add: nat_less_iff)
  then have "bit_length (nat \<bar>n\<bar>) \<le> 53" by (rule bit_length_le)
  then show ?thesis by (simp add: to_number_def Let_def)
qed

definition is_safe_integer :: "int \<Rightarrow> bool" where
  "is_safe_integer x \<longleftrightarrow> \<bar>x\<bar> \<le> 2 ^ 53 - 1"

text \<open>
  A parameter of type \<open>bigint | number\<close>: a BigInt, an integral Number, or a Number that is
  no integer (a fraction, NaN, Infinity), on which \<open>BigInt(value)\<close> throws.
\<close>

datatype jsval = Big int | Num int | NonInt

fun to_bigint :: "jsval \<Rightarrow> int res" where
  "to_bigint (Big x) = Inr x"
| "to_bigint (Num x) = Inr x"
| "to_bigint NonInt = Inl NotAnInteger"

section \<open>Buffers\<close>

text \<open>
  A Node \<open>Buffer\<close> is a list of bytes. Reading out of range gives \<open>undefined\<close>, which
  bitwise operators read as 0; writing out of range is ignored; a stored value is reduced
  modulo 256. \<open>subarray\<close> clamps its bounds, negative ones counting from the end.
\<close>

type_synonym byte = "8 word"
type_synonym buffer = "byte list"

definition buf_get :: "buffer \<Rightarrow> int \<Rightarrow> byte" where
  "buf_get b i = (if 0 \<le> i \<and> i < int (length b) then b ! nat i else 0)"

definition buf_set :: "buffer \<Rightarrow> int \<Rightarrow> int \<Rightarrow> buffer" where
  "buf_set b i v = (if 0 \<le> i \<and> i < int (length b) then b[nat i := word_of_int v] else b)"

definition buf_or :: "buffer \<Rightarrow> int \<Rightarrow> int \<Rightarrow> buffer" where \<comment> \<open>\<open>b[i] |= v\<close>\<close>
  "buf_or b i v = buf_set b i (uint (buf_get b i) OR v)"

definition buf_index :: "buffer \<Rightarrow> int \<Rightarrow> nat" where
  "buf_index b i =
     (if i < 0 then nat (max 0 (int (length b) + i)) else min (nat i) (length b))"

definition buf_subarray :: "buffer \<Rightarrow> int \<Rightarrow> int \<Rightarrow> buffer" where
  "buf_subarray b s e = (let i = buf_index b s; j = buf_index b e in take (j - i) (drop i b))"

definition buf_copy :: "buffer \<Rightarrow> buffer \<Rightarrow> nat \<Rightarrow> buffer" where
  \<comment> \<open>\<open>src.copy(dst, at)\<close>: as many bytes as fit\<close>
  "buf_copy src dst at =
     take at dst @ take (length dst - at) src @ drop (at + length src) dst"

definition buf_alloc :: "nat \<Rightarrow> buffer" where
  "buf_alloc n = replicate n 0"

text \<open>\<open>xs[i] = v\<close> on an array without holes: the model stores at most one past the end.\<close>

definition arr_put :: "'a list \<Rightarrow> nat \<Rightarrow> 'a \<Rightarrow> 'a list" where
  "arr_put xs i v = (if i < length xs then xs[i := v] else xs @ [v])"

lemma length_buf_set [simp]: "length (buf_set b i v) = length b"
  by (simp add: buf_set_def)

lemma length_buf_or [simp]: "length (buf_or b i v) = length b"
  by (simp add: buf_or_def)

lemma length_buf_alloc [simp]: "length (buf_alloc n) = n"
  by (simp add: buf_alloc_def)

lemma buf_set_at: "i < length b \<Longrightarrow> buf_set b (int i) v = b[i := word_of_int v]"
  by (simp add: buf_set_def)

lemma buf_or_at:
  "i < length b \<Longrightarrow> buf_or b (int i) v = b[i := (b ! i) OR word_of_int v]"
  by (auto simp: buf_or_def buf_set_def buf_get_def bit_simps
      intro!: arg_cong [where f = "\<lambda>w. b[i := w]"] bit_word_eqI)

lemma buf_or_outside: "length b \<le> i \<Longrightarrow> buf_or b (int i) v = b"
  by (simp add: buf_or_def buf_set_def)

lemma buf_subarray_inside:
  "i \<le> j \<Longrightarrow> j \<le> length b \<Longrightarrow> buf_subarray b (int i) (int j) = take (j - i) (drop i b)"
  by (simp add: buf_subarray_def buf_index_def)

lemma length_buf_copy:
  "at + length src \<le> length dst \<Longrightarrow> length (buf_copy src dst at) = length dst"
  by (simp add: buf_copy_def)

section \<open>Big-endian bit lists\<close>

text \<open>
  \<open>bits_be n v\<close> is the \<open>n\<close>-bit big-endian (two's complement when \<open>v\<close> is negative)
  representation of \<open>v\<close>, \<open>val_be\<close> the value of a bit list: the reference against which
  the byte-wise writers and the readers are verified.
\<close>

definition bits_be :: "nat \<Rightarrow> int \<Rightarrow> bool list" where
  "bits_be n v = map (\<lambda>i. bit v (n - 1 - i)) [0..<n]"

definition val_be :: "bool list \<Rightarrow> int" where
  "val_be bs = foldl (\<lambda>a b. 2 * a + of_bool b) 0 bs"

lemma length_bits_be [simp]: "length (bits_be n v) = n"
  by (simp add: bits_be_def)

lemma nth_bits_be [simp]: "i < n \<Longrightarrow> bits_be n v ! i = bit v (n - 1 - i)"
  by (simp add: bits_be_def)

lemma bits_be_0 [simp]: "bits_be 0 v = []"
  by (simp add: bits_be_def)

lemma val_be_Nil [simp]: "val_be [] = 0"
  by (simp add: val_be_def)

lemma val_be_snoc [simp]: "val_be (bs @ [b]) = 2 * val_be bs + of_bool b"
  by (simp add: val_be_def)

lemma val_be_append: "val_be (xs @ ys) = val_be xs * 2 ^ length ys + val_be ys"
proof (induction ys rule: rev_induct)
  case (snoc y ys)
  have "val_be (xs @ ys @ [y]) = 2 * val_be (xs @ ys) + of_bool y"
    using val_be_snoc [of "xs @ ys" y] by simp
  with snoc show ?case by (simp add: algebra_simps)
qed simp

lemma val_be_Cons: "val_be (b # bs) = of_bool b * 2 ^ length bs + val_be bs"
  using val_be_append [of "[b]" bs] by (simp add: val_be_def)

lemma val_be_nonneg [simp]: "0 \<le> val_be bs"
  by (induction bs rule: rev_induct) auto

lemma val_be_less: "val_be bs < 2 ^ length bs"
proof (induction bs rule: rev_induct)
  case (snoc b bs)
  then have "2 * val_be bs + 1 < 2 * 2 ^ length bs" by linarith
  then show ?case by (cases b) auto
qed simp

lemma bits_be_Suc: "bits_be (Suc n) v = bits_be n (v div 2) @ [odd v]"
  by (rule nth_equalityI)
     (auto simp: nth_append bit_Suc [symmetric] Suc_diff_Suc less_Suc_eq bit_0)

lemma val_be_bits_be: "val_be (bits_be n v) = v mod 2 ^ n"
proof (induction n arbitrary: v)
  case (Suc n)
  have "v mod 2 ^ Suc n = 2 * (v div 2 mod 2 ^ n) + v mod 2"
    by (simp add: zmod_zmult2_eq)
  with Suc show ?case by (simp add: bits_be_Suc mod2_eq_if)
qed simp

lemma val_be_bits_be_id: "0 \<le> v \<Longrightarrow> v < 2 ^ n \<Longrightarrow> val_be (bits_be n v) = v"
  by (simp add: val_be_bits_be)

lemma bits_be_val_be: "bits_be (length bs) (val_be bs) = bs"
  by (induction bs rule: rev_induct) (auto simp: bits_be_Suc)

lemma bits_be_add: "bits_be (m + n) v = bits_be m (v div 2 ^ n) @ bits_be n v"
  by (rule nth_equalityI)
     (auto simp: nth_append drop_bit_eq_div [symmetric] bit_drop_bit_eq intro!: arg_cong [where f = "bit v"])

lemma bits_be_inj:
  assumes "bits_be n v = bits_be n w" "0 \<le> v" "v < 2 ^ n" "0 \<le> w" "w < 2 ^ n"
  shows "v = w"
  using assms by (metis val_be_bits_be_id)

lemma bits_be_mod: "bits_be n (v mod 2 ^ n) = bits_be n v"
  by (rule nth_equalityI) (auto simp: take_bit_eq_mod [symmetric] bit_take_bit_iff)

text \<open>The bits of a byte and of a buffer, most significant first.\<close>

definition byte_bits :: "byte \<Rightarrow> bool list" where
  "byte_bits w = bits_be 8 (uint w)"

definition buf_bits :: "buffer \<Rightarrow> bool list" where
  "buf_bits b = concat (map byte_bits b)"

lemma length_byte_bits [simp]: "length (byte_bits w) = 8"
  by (simp add: byte_bits_def)

lemma nth_byte_bits: "i < 8 \<Longrightarrow> byte_bits w ! i = bit w (7 - i)"
  by (auto simp: byte_bits_def bit_uint_iff)

lemma length_buf_bits [simp]: "length (buf_bits b) = 8 * length b"
  by (induction b) (auto simp: buf_bits_def)

lemma buf_bits_simps [simp]:
  "buf_bits [] = []"
  "buf_bits (w # b) = byte_bits w @ buf_bits b"
  "buf_bits (b @ c) = buf_bits b @ buf_bits c"
  by (simp_all add: buf_bits_def)

lemma nth_buf_bits: "i < 8 * length b \<Longrightarrow> buf_bits b ! i = bit (b ! (i div 8)) (7 - i mod 8)"
proof (induction b arbitrary: i)
  case (Cons w b)
  show ?case
  proof (cases "i < 8")
    case True
    then show ?thesis by (simp add: nth_append nth_byte_bits)
  next
    case False
    then obtain j where j: "i = j + 8" by (metis add.commute le_Suc_ex not_less)
    then have "i div 8 = Suc (j div 8)" "i mod 8 = j mod 8" by simp_all
    with Cons j show ?thesis by (simp add: nth_append)
  qed
qed simp

lemma word_of_val_byte_bits: "word_of_int (val_be (byte_bits w)) = w"
  by (rule bit_word_eqI)
     (simp add: byte_bits_def val_be_bits_be take_bit_eq_mod [symmetric] bit_simps del: power_numeral)

lemma byte_bits_inj: "byte_bits v = byte_bits w \<Longrightarrow> v = w"
  by (metis word_of_val_byte_bits)

lemma buf_bits_inj: "buf_bits a = buf_bits b \<Longrightarrow> a = b"
proof (induction a arbitrary: b)
  case Nil
  then show ?case by (cases b) (auto dest: arg_cong [where f = length])
next
  case (Cons v a)
  then obtain w c where b: "b = w # c"
    by (cases b) (auto dest: arg_cong [where f = length])
  with Cons.prems have "byte_bits v = byte_bits w" "buf_bits a = buf_bits c"
    by (auto simp: append_eq_append_conv)
  with Cons.IH b show ?case by (auto dest: byte_bits_inj)
qed

lemma buf_bits_replicate_0: "buf_bits (replicate n 0) = replicate (8 * n) False"
  by (rule nth_equalityI) (auto simp: nth_buf_bits)

text \<open>The bytes of a bit list whose length is a multiple of 8.\<close>

definition bytes_of_bits :: "bool list \<Rightarrow> buffer" where
  "bytes_of_bits bs =
     map (\<lambda>i. word_of_int (val_be (take 8 (drop (8 * i) bs)))) [0..<length bs div 8]"

lemma length_bytes_of_bits [simp]: "length (bytes_of_bits bs) = length bs div 8"
  by (simp add: bytes_of_bits_def)

lemma take_drop_buf_bits:
  "i < length b \<Longrightarrow> take 8 (drop (8 * i) (buf_bits b)) = byte_bits (b ! i)"
proof (induction b arbitrary: i)
  case (Cons w b)
  then show ?case by (cases i) simp_all
qed simp

lemma bytes_of_bits_buf_bits [simp]: "bytes_of_bits (buf_bits b) = b"
  by (rule nth_equalityI)
     (auto simp: bytes_of_bits_def take_drop_buf_bits word_of_val_byte_bits)

section \<open>Printing and parsing numbers\<close>

text \<open>
  \<open>toString(radix)\<close> of an integer and the inverse used by the code, \<open>BigInt('0b' + s)\<close>,
  which throws unless \<open>s\<close> is a non-empty string of binary digits.
\<close>

definition digit_char :: "nat \<Rightarrow> char" where
  "digit_char d = char_of (if d < 10 then 48 + d else 87 + d)"

fun nat_radix :: "nat \<Rightarrow> nat \<Rightarrow> string" where
  "nat_radix r n =
     (if r < 2 \<or> n < r then [digit_char n]
      else nat_radix r (n div r) @ [digit_char (n mod r)])"

declare nat_radix.simps [simp del]

definition to_string_radix :: "nat \<Rightarrow> int \<Rightarrow> string" where
  "to_string_radix r v =
     (if v < 0 then CHR ''-'' # nat_radix r (nat (- v)) else nat_radix r (nat v))"

definition bin_digit :: "bool \<Rightarrow> char" where
  "bin_digit b = (if b then CHR ''1'' else CHR ''0'')"

definition parse_bin :: "string \<Rightarrow> int res" where
  "parse_bin s =
     (if s = [] \<or> \<not> set s \<subseteq> {CHR ''0'', CHR ''1''} then Inl SyntaxErr
      else Inr (val_be (map (\<lambda>c. c = CHR ''1'') s)))"

lemma nat_radix_2: "nat_radix 2 n = map bin_digit (if n = 0 then [False] else bits_be (bit_length n) (int n))"
proof (induction n rule: bit_length.induct)
  case (1 n)
  have d: "digit_char 0 = CHR ''0''" "digit_char (Suc 0) = CHR ''1''"
    by (simp_all add: digit_char_def char_of_def bit_0)
  show ?case
  proof (cases "n < 2")
    case True
    then consider "n = 0" | "n = Suc 0" by linarith
    then show ?thesis
      by cases (auto simp: nat_radix.simps bit_length.simps bits_be_def bin_digit_def d)
  next
    case False
    then have "bits_be (bit_length n) (int n) = bits_be (bit_length (n div 2)) (int (n div 2)) @ [odd n]"
      by (simp add: bit_length.simps [of n] bits_be_Suc zdiv_int)
    with 1 False show ?thesis
      by (auto simp: nat_radix.simps [of 2 n] d bin_digit_def mod2_eq_if d [simplified])
  qed
qed

text \<open>\<open>v.toString(2).length\<close> of a positive number is its bit length.\<close>

lemma length_to_string_2: "0 < v \<Longrightarrow> length (to_string_radix 2 v) = bit_length (nat v)"
  by (simp add: to_string_radix_def nat_radix_2)

lemma to_string_2_zero: "to_string_radix 2 0 = ''0''"
  by (simp add: to_string_radix_def nat_radix_2 bin_digit_def)

lemma bin_digit_inv [simp]: "(bin_digit b = CHR ''1'') = b" "bin_digit b \<noteq> CHR ''0'' \<longleftrightarrow> b"
  by (simp_all add: bin_digit_def)

lemma bin_digit_inj [simp]: "bin_digit a = bin_digit b \<longleftrightarrow> a = b"
  by (simp add: bin_digit_def)

lemma parse_bin_digits:
  "bs \<noteq> [] \<Longrightarrow> parse_bin (map bin_digit bs) = Inr (val_be bs)"
  by (auto simp: parse_bin_def comp_def)

end
