(* ===== verification/Bit_String.thy ===== *)
theory Bit_String
  imports Js_Prelude
begin

text \<open>
  \<open>BitString\<close> (ton-core/boc/BitString.ts): a run of bits inside a buffer, given by an offset
  and a length in bits. The abstraction is \<open>bs_bits\<close>, the list of bits it denotes; every
  operation is characterised by it. \<open>wf_bs\<close> says that the run lies inside the buffer and
  that bit positions fit the 32-bit conversion of \<open>>> 3\<close>.
\<close>

section \<open>Model\<close>

record bit_string =
  bs_data :: buffer
  bs_offset :: int
  bs_length :: nat

definition new_BitString :: "buffer \<Rightarrow> int \<Rightarrow> int \<Rightarrow> bit_string res" where
  "new_BitString data offset len =
     (if len < 0 then Inl LengthOutOfBounds
      else Inr \<lparr>bs_data = data, bs_offset = offset, bs_length = nat len\<rparr>)"

definition BitString_EMPTY :: bit_string where
  "BitString_EMPTY = \<lparr>bs_data = [], bs_offset = 0, bs_length = 0\<rparr>"

text \<open>The read behind the bounds checks of \<open>at\<close>: \<open>(data[byteIndex] & (1 << bitIndex)) !== 0\<close>.\<close>

definition BitString_bit :: "bit_string \<Rightarrow> int \<Rightarrow> bool" where
  "BitString_bit s index =
     (let byteIndex = shr3 (bs_offset s + index);
          bitIndex = 7 - js_rem (bs_offset s + index) 8
      in bit (buf_get (bs_data s) byteIndex) (nat bitIndex))"

definition BitString_at :: "bit_string \<Rightarrow> int \<Rightarrow> bool res" where
  "BitString_at s index =
     (if index \<ge> int (bs_length s) then Inl IndexOutOfBounds
      else if index < 0 then Inl IndexOutOfBounds
      else Inr (BitString_bit s index))"

definition BitString_substring :: "bit_string \<Rightarrow> int \<Rightarrow> int \<Rightarrow> bit_string res" where
  "BitString_substring s offset len =
     (if offset > int (bs_length s) then Inl OffsetOutOfBounds
      else if offset < 0 then Inl OffsetOutOfBounds
      else if len = 0 then Inr BitString_EMPTY
      else if offset + len > int (bs_length s) then Inl OffsetOutOfBounds
      else new_BitString (bs_data s) (bs_offset s + offset) len)"

text \<open>\<open>subbuffer\<close> returns \<open>null\<close> (here \<open>None\<close>) when the run is not byte-aligned.\<close>

definition BitString_subbuffer :: "bit_string \<Rightarrow> int \<Rightarrow> int \<Rightarrow> buffer option res" where
  "BitString_subbuffer s offset len =
     (if offset > int (bs_length s) then Inl OffsetOutOfBounds
      else if offset < 0 then Inl OffsetOutOfBounds
      else if offset + len > int (bs_length s) then Inl OffsetOutOfBounds
      else if js_rem len 8 \<noteq> 0 then Inr None
      else if js_rem (bs_offset s + offset) 8 \<noteq> 0 then Inr None
      else let start = shr3 (bs_offset s + offset); end' = start + shr3 len
           in Inr (Some (buf_subarray (bs_data s) start end')))"

definition BitString_equals :: "bit_string \<Rightarrow> bit_string \<Rightarrow> bool" where
  "BitString_equals a b =
     (if bs_length a \<noteq> bs_length b then False
      else list_all (\<lambda>i. BitString_at a (int i) = BitString_at b (int i)) [0..<bs_length a])"

section \<open>Abstraction\<close>

definition bs_bits :: "bit_string \<Rightarrow> bool list" where
  "bs_bits s = map (\<lambda>i. BitString_bit s (int i)) [0..<bs_length s]"

definition wf_bs :: "bit_string \<Rightarrow> bool" where
  "wf_bs s \<longleftrightarrow> 0 \<le> bs_offset s \<and>
     bs_offset s + int (bs_length s) \<le> 8 * int (length (bs_data s)) \<and>
     8 * int (length (bs_data s)) < 2 ^ 31"

lemma length_bs_bits [simp]: "length (bs_bits s) = bs_length s"
  by (simp add: bs_bits_def)

lemma nth_bs_bits: "i < bs_length s \<Longrightarrow> bs_bits s ! i = BitString_bit s (int i)"
  by (simp add: bs_bits_def)

lemma bs_bits_EMPTY [simp]: "bs_bits BitString_EMPTY = []"
  by (simp add: bs_bits_def BitString_EMPTY_def)

lemma wf_bs_EMPTY [simp]: "wf_bs BitString_EMPTY"
  by (simp add: wf_bs_def BitString_EMPTY_def)

lemma BitString_at_nth:
  "BitString_at s (int i) = (if i < bs_length s then Inr (bs_bits s ! i) else Inl IndexOutOfBounds)"
  by (simp add: BitString_at_def nth_bs_bits)

lemma BitString_at_outside:
  "index < 0 \<or> int (bs_length s) \<le> index \<Longrightarrow> BitString_at s index = Inl IndexOutOfBounds"
  by (auto simp: BitString_at_def)

lemma BitString_equals_iff: "BitString_equals a b \<longleftrightarrow> bs_bits a = bs_bits b"
  by (auto simp: BitString_equals_def list_all_iff BitString_at_nth list_eq_iff_nth_eq)

text \<open>A substring denotes the corresponding slice of the bit list.\<close>

lemma BitString_substring_ok:
  assumes "i + n \<le> bs_length s"
  shows "\<exists>t. BitString_substring s (int i) (int n) = Inr t \<and>
           bs_bits t = take n (drop i (bs_bits s)) \<and> (wf_bs s \<longrightarrow> wf_bs t)"
proof (cases "n = 0")
  case True
  with assms show ?thesis by (simp add: BitString_substring_def)
next
  case False
  let ?t = "\<lparr>bs_data = bs_data s, bs_offset = bs_offset s + int i, bs_length = n\<rparr>"
  have "BitString_substring s (int i) (int n) = Inr ?t"
    using assms False by (simp add: BitString_substring_def new_BitString_def)
  moreover have "bs_bits ?t = take n (drop i (bs_bits s))"
    using assms by (intro nth_equalityI) (auto simp: nth_bs_bits BitString_bit_def algebra_simps)
  moreover have "wf_bs s \<Longrightarrow> wf_bs ?t"
    using assms by (simp add: wf_bs_def)
  ultimately show ?thesis by blast
qed

text \<open>Outside the run a substring is refused, except that an empty one is always granted.\<close>

lemma BitString_substring_error:
  assumes "offset < 0 \<or> int (bs_length s) < offset \<or> (len \<noteq> 0 \<and> int (bs_length s) < offset + len)"
  shows "BitString_substring s offset len = Inl OffsetOutOfBounds"
  using assms by (auto simp: BitString_substring_def)

section \<open>Bits of the underlying buffer\<close>

lemma wf_bs_position:
  assumes "wf_bs s" "i < bs_length s"
  shows "BitString_bit s (int i) = buf_bits (bs_data s) ! (nat (bs_offset s) + i)"
proof -
  let ?p = "bs_offset s + int i"
  have p: "0 \<le> ?p" "?p < 8 * int (length (bs_data s))" "?p < 2 ^ 31"
    using assms by (auto simp: wf_bs_def)
  have n: "nat (bs_offset s) + i = nat ?p" using assms by (simp add: wf_bs_def nat_add_distrib)
  have "shr3 ?p = ?p div 8" "js_rem ?p 8 = ?p mod 8"
    using p by (simp_all add: shr3_def to_int32_id js_rem_nonneg)
  moreover have "?p div 8 < int (length (bs_data s))" "0 \<le> ?p div 8"
    using p by (simp_all add: div_less_iff_less_mult)
  ultimately have "BitString_bit s (int i) = bit (bs_data s ! nat (?p div 8)) (nat (7 - ?p mod 8))"
    by (simp add: BitString_bit_def Let_def buf_get_def)
  also have "\<dots> = buf_bits (bs_data s) ! nat ?p"
    using p by (subst nth_buf_bits) (auto simp: nat_div_distrib nat_mod_distrib nat_diff_distrib)
  finally show ?thesis by (simp add: n)
qed

lemma bs_bits_wf:
  "wf_bs s \<Longrightarrow> bs_bits s = take (bs_length s) (drop (nat (bs_offset s)) (buf_bits (bs_data s)))"
  by (rule nth_equalityI) (auto simp: nth_bs_bits wf_bs_position wf_bs_def)

lemma bs_bits_whole:
  "8 * length b < 2 ^ 31 \<Longrightarrow>
     bs_bits \<lparr>bs_data = b, bs_offset = 0, bs_length = 8 * length b\<rparr> = buf_bits b"
  by (subst bs_bits_wf) (auto simp: wf_bs_def)

lemma drop_buf_bits: "drop (8 * i) (buf_bits b) = buf_bits (drop i b)"
  by (induction b arbitrary: i) (simp_all add: drop_Cons split: nat.split)

lemma take_buf_bits: "take (8 * i) (buf_bits b) = buf_bits (take i b)"
  by (induction b arbitrary: i) (simp_all add: take_Cons split: nat.split)

text \<open>
  The fast path of the reader: where \<open>subbuffer\<close> returns a buffer, its bits are the
  requested slice; where the run is not aligned it returns \<open>null\<close>, never a wrong buffer.
\<close>

lemma BitString_subbuffer_ok:
  assumes "wf_bs s" and "i + 8 * n \<le> bs_length s"
  shows "BitString_subbuffer s (int i) (int (8 * n)) =
     Inr (if (bs_offset s + int i) mod 8 = 0
          then Some (bytes_of_bits (take (8 * n) (drop i (bs_bits s)))) else None)"
proof -
  let ?p = "bs_offset s + int i"
  have p: "0 \<le> ?p" "?p + 8 * int n \<le> 8 * int (length (bs_data s))" "?p < 2 ^ 31"
    "8 * int n < 2 ^ 31"
    using assms by (auto simp: wf_bs_def)
  have sub: "buf_subarray (bs_data s) (?p div 8) (?p div 8 + int n) =
      bytes_of_bits (take (8 * n) (drop i (bs_bits s)))" if a: "?p mod 8 = 0"
  proof -
    define k where "k = nat (?p div 8)"
    have ik: "int k = ?p div 8" using p by (simp add: k_def)
    have pk8: "?p = 8 * int k" unfolding ik using a by presburger
    moreover have "k + n \<le> length (bs_data s)" using pk8 p by linarith
    ultimately have pk: "?p = 8 * int k" "k + n \<le> length (bs_data s)" by blast+
    have "nat ?p = nat (bs_offset s) + i" using assms by (simp add: wf_bs_def nat_add_distrib)
    then have off: "nat (bs_offset s) + i = 8 * k" using pk by simp
    have "take (8 * n) (drop i (bs_bits s)) = take (8 * n) (drop (8 * k) (buf_bits (bs_data s)))"
      using assms off by (simp add: bs_bits_wf drop_take min_def add.commute)
    also have "\<dots> = buf_bits (take n (drop k (bs_data s)))"
      by (simp add: drop_buf_bits take_buf_bits)
    finally have "bytes_of_bits (take (8 * n) (drop i (bs_bits s))) = take n (drop k (bs_data s))"
      by simp
    moreover have "buf_subarray (bs_data s) (int k) (int (k + n)) = take n (drop k (bs_data s))"
      using pk buf_subarray_inside [of k "k + n" "bs_data s"] by simp
    ultimately show ?thesis using pk by simp
  qed
  show ?thesis
    using assms p sub
    by (auto simp: BitString_subbuffer_def shr3_def to_int32_id js_rem_nonneg)
qed

end
