(* ===== verification/Bit_Builder.thy ===== *)
theory Bit_Builder
  imports Bit_String
begin

text \<open>
  \<open>BitBuilder\<close> (ton-core/boc/BitBuilder.ts), with the two address classes whose fields it
  writes. The builder packs bits into a preallocated buffer; \<open>writeUint\<close> works byte by byte
  with shifts. \<open>wf_bb\<close> says that the written bits fit and that every bit behind them is
  zero; \<open>bb_bits\<close> is the list of bits written so far. Each write is shown to append
  exactly the reference encoding of its value.
\<close>

section \<open>Address values\<close>

record address =
  workChain :: int
  addr_hash :: buffer

record external_address =
  ext_value :: int
  ext_bits :: int

datatype any_address = Internal address | External external_address

definition new_Address :: "int \<Rightarrow> buffer \<Rightarrow> address res" where
  "new_Address wc hash =
     (if length hash \<noteq> 32 then Inl InvalidAddress
      else Inr \<lparr>workChain = wc, addr_hash = hash\<rparr>)"

definition new_ExternalAddress :: "int \<Rightarrow> int \<Rightarrow> external_address" where
  "new_ExternalAddress value bits = \<lparr>ext_value = value, ext_bits = bits\<rparr>"

definition Address_equals :: "address \<Rightarrow> address \<Rightarrow> bool" where
  "Address_equals a src =
     (if workChain src \<noteq> workChain a then False else addr_hash src = addr_hash a)"

section \<open>Model of the builder\<close>

record bit_builder =
  bb_buffer :: buffer
  bb_length :: nat

definition new_BitBuilder :: "nat \<Rightarrow> bit_builder" where
  "new_BitBuilder sz = \<lparr>bb_buffer = buf_alloc (nat (ceil8 (int sz))), bb_length = 0\<rparr>"

text \<open>The argument of \<open>writeBit\<close>: a boolean, or a number that counts as 1 when positive.\<close>

datatype bitval = BitBool bool | BitNum int

fun bitval_set :: "bitval \<Rightarrow> bool" where
  "bitval_set (BitBool b) = b"
| "bitval_set (BitNum x) = (x > 0)"

definition BitBuilder_writeBit :: "bitval \<Rightarrow> bit_builder \<Rightarrow> bit_builder res" where
  "BitBuilder_writeBit value b =
     (let n = bb_length b
      in if n > length (bb_buffer b) * 8 then Inl BitBuilderOverflow
         else Inr (b\<lparr>bb_buffer := (if bitval_set value
                          then buf_or (bb_buffer b) (to_int32 (int n div 8)) (2 ^ (7 - n mod 8))
                          else bb_buffer b),
                     bb_length := n + 1\<rparr>))"

definition BitBuilder_writeBits :: "bit_string \<Rightarrow> bit_builder \<Rightarrow> bit_builder res" where
  "BitBuilder_writeBits src b =
     foldE (\<lambda>i b. bindE (BitString_at src (int i)) (\<lambda>v. BitBuilder_writeBit (BitBool v) b))
       [0..<bs_length src] b"

text \<open>
  \<open>writeUint\<close>: the first, possibly partial, byte is ORed in (\<open>writeUint_head\<close>), then the
  \<open>while (bits > 0)\<close> loop stores whole bytes and a last partial one (\<open>writeUint_loop\<close>).
\<close>

definition writeUint_head :: "int \<Rightarrow> int \<Rightarrow> bit_builder \<Rightarrow> bit_builder" where
  "writeUint_head v bits b =
     (let tillByte = 8 - bb_length b mod 8; bidx = int (bb_length b div 8)
      in if tillByte > 0
         then if bits < int tillByte
              then b\<lparr>bb_buffer := buf_or (bb_buffer b) bidx (push_bit (nat (int tillByte - bits)) v),
                     bb_length := bb_length b + nat bits\<rparr>
              else b\<lparr>bb_buffer := buf_or (bb_buffer b) bidx (drop_bit (nat (bits - int tillByte)) v),
                     bb_length := bb_length b + tillByte\<rparr>
         else b)"

function writeUint_loop :: "int \<Rightarrow> int \<Rightarrow> bit_builder \<Rightarrow> bit_builder" where
  "writeUint_loop v bits b =
     (if bits > 0
      then if bits \<ge> 8
           then writeUint_loop v (bits - 8)
                  (b\<lparr>bb_buffer := buf_set (bb_buffer b) (int (bb_length b div 8))
                                   (drop_bit (nat (bits - 8)) v AND 255),
                     bb_length := bb_length b + 8\<rparr>)
           else b\<lparr>bb_buffer := buf_set (bb_buffer b) (int (bb_length b div 8))
                                   (push_bit (nat (8 - bits)) v AND 255),
                  bb_length := bb_length b + nat bits\<rparr>
      else b)"
  by pat_completeness auto
termination
  by (relation "measure (\<lambda>(v, bits, b). nat bits)") auto

declare writeUint_loop.simps [simp del]

definition BitBuilder_writeUint :: "jsval \<Rightarrow> int \<Rightarrow> bit_builder \<Rightarrow> bit_builder res" where
  "BitBuilder_writeUint value bits b =
     (if bits < 0 \<or> \<not> is_safe_integer bits then Inl InvalidBitLength
      else bindE (to_bigint value) (\<lambda>v.
        if bits = 0 then (if v \<noteq> 0 then Inl ValueNotZero else Inr b)
        else if v < 0 \<or> v \<ge> 2 ^ nat bits then Inl ValueOutOfRange
        else if int (bb_length b) + bits > int (length (bb_buffer b)) * 8
        then Inl BitBuilderOverflow
        else let tillByte = 8 - bb_length b mod 8
             in Inr (writeUint_loop v (bits - int tillByte) (writeUint_head v bits b))))"

definition BitBuilder_writeBuffer :: "buffer \<Rightarrow> bit_builder \<Rightarrow> bit_builder res" where
  "BitBuilder_writeBuffer src b =
     (if bb_length b mod 8 = 0
      then if bb_length b + length src * 8 > length (bb_buffer b) * 8 then Inl BitBuilderOverflow
           else Inr (b\<lparr>bb_buffer := buf_copy src (bb_buffer b) (bb_length b div 8),
                       bb_length := bb_length b + length src * 8\<rparr>)
      else foldE (\<lambda>w b. BitBuilder_writeUint (Num (uint w)) 8 b) src b)"

definition BitBuilder_writeInt :: "jsval \<Rightarrow> int \<Rightarrow> bit_builder \<Rightarrow> bit_builder res" where
  "BitBuilder_writeInt value bits b =
     bindE (to_bigint value) (\<lambda>v.
       if bits < 0 \<or> \<not> is_safe_integer bits then Inl InvalidBitLength
       else if bits = 0 then (if value \<noteq> Big 0 then Inl ValueNotZero else Inr b)
       else if bits = 1
       then (if value \<noteq> Big (- 1) \<and> value \<noteq> Big 0 then Inl ValueNotZero
             else BitBuilder_writeBit (BitBool (value = Big (- 1))) b)
       else let vBits = 2 ^ nat (bits - 1)
            in if v < - vBits \<or> v \<ge> vBits then Inl ValueOutOfRange
               else if v < 0
               then bindE (BitBuilder_writeBit (BitBool True) b)
                      (BitBuilder_writeUint (Big (vBits + v)) (bits - 1))
               else bindE (BitBuilder_writeBit (BitBool False) b)
                      (BitBuilder_writeUint (Big v) (bits - 1)))"

definition BitBuilder_writeVarUint :: "jsval \<Rightarrow> int \<Rightarrow> bit_builder \<Rightarrow> bit_builder res" where
  "BitBuilder_writeVarUint value bits b =
     bindE (to_bigint value) (\<lambda>v.
       if bits < 0 \<or> \<not> is_safe_integer bits then Inl InvalidBitLength
       else if v < 0 then Inl ValueNegative
       else if v = 0 then BitBuilder_writeUint (Num 0) bits b
       else let sizeBytes = ceil8 (int (length (to_string_radix 2 v))); sizeBits = sizeBytes * 8
            in bindE (BitBuilder_writeUint (Num sizeBytes) bits b)
                 (BitBuilder_writeUint (Big v) sizeBits))"

definition BitBuilder_writeVarInt :: "jsval \<Rightarrow> int \<Rightarrow> bit_builder \<Rightarrow> bit_builder res" where
  "BitBuilder_writeVarInt value bits b =
     bindE (to_bigint value) (\<lambda>v.
       if bits < 0 \<or> \<not> is_safe_integer bits then Inl InvalidBitLength
       else if v = 0 then BitBuilder_writeUint (Num 0) bits b
       else let v2 = (if v > 0 then v else - v);
                sizeBytes = 1 + ceil8 (int (length (to_string_radix 2 v2)));
                sizeBits = sizeBytes * 8
            in bindE (BitBuilder_writeUint (Num sizeBytes) bits b)
                 (BitBuilder_writeInt (Big v) sizeBits))"

definition BitBuilder_writeCoins :: "jsval \<Rightarrow> bit_builder \<Rightarrow> bit_builder res" where
  "BitBuilder_writeCoins amount = BitBuilder_writeVarUint amount 4"

fun BitBuilder_writeAddress :: "any_address option \<Rightarrow> bit_builder \<Rightarrow> bit_builder res" where
  "BitBuilder_writeAddress None b = BitBuilder_writeUint (Num 0) 2 b"
| "BitBuilder_writeAddress (Some (Internal a)) b =
     bindE (BitBuilder_writeUint (Num 2) 2 b) (\<lambda>b.
     bindE (BitBuilder_writeUint (Num 0) 1 b) (\<lambda>b.
     bindE (BitBuilder_writeInt (Num (workChain a)) 8 b) (\<lambda>b.
     BitBuilder_writeBuffer (addr_hash a) b)))"
| "BitBuilder_writeAddress (Some (External a)) b =
     bindE (BitBuilder_writeUint (Num 1) 2 b) (\<lambda>b.
     bindE (BitBuilder_writeUint (Num (ext_bits a)) 9 b) (\<lambda>b.
     BitBuilder_writeUint (Big (ext_value a)) (ext_bits a) b))"

definition BitBuilder_build :: "bit_builder \<Rightarrow> bit_string res" where
  "BitBuilder_build b = new_BitString (bb_buffer b) 0 (int (bb_length b))"

definition BitBuilder_getBuffer :: "bit_builder \<Rightarrow> buffer res" where
  "BitBuilder_getBuffer b =
     (if bb_length b mod 8 \<noteq> 0 then Inl BuilderNotAligned
      else Inr (buf_subarray (bb_buffer b) 0 (int (bb_length b div 8))))"

section \<open>Abstraction and invariant\<close>

definition bb_cap :: "bit_builder \<Rightarrow> nat" where
  "bb_cap b = 8 * length (bb_buffer b)"

definition bb_bits :: "bit_builder \<Rightarrow> bool list" where
  "bb_bits b = take (bb_length b) (buf_bits (bb_buffer b))"

definition wf_bb :: "bit_builder \<Rightarrow> bool" where
  "wf_bb b \<longleftrightarrow> bb_length b \<le> bb_cap b \<and> bb_cap b < 2 ^ 31 \<and>
     drop (bb_length b) (buf_bits (bb_buffer b)) = replicate (bb_cap b - bb_length b) False"

text \<open>\<open>appends b b' xs\<close>: the write from \<open>b\<close> to \<open>b'\<close> added the bits \<open>xs\<close> and nothing else.\<close>

definition appends :: "bit_builder \<Rightarrow> bit_builder \<Rightarrow> bool list \<Rightarrow> bool" where
  "appends b b' xs \<longleftrightarrow> wf_bb b' \<and> bb_cap b' = bb_cap b \<and> bb_bits b' = bb_bits b @ xs"

definition fits :: "bit_builder \<Rightarrow> nat \<Rightarrow> bool" where
  "fits b n \<longleftrightarrow> wf_bb b \<and> bb_length b + n \<le> bb_cap b"

lemma length_bb_bits: "wf_bb b \<Longrightarrow> length (bb_bits b) = bb_length b"
  by (simp add: bb_bits_def wf_bb_def bb_cap_def)

lemma appends_length: "wf_bb b \<Longrightarrow> appends b b' xs \<Longrightarrow> bb_length b' = bb_length b + length xs"
  by (metis appends_def length_append length_bb_bits)

lemma appends_refl [simp]: "wf_bb b \<Longrightarrow> appends b b []"
  by (simp add: appends_def)

lemma appends_trans: "appends a b xs \<Longrightarrow> appends b c ys \<Longrightarrow> appends a c (xs @ ys)"
  by (simp add: appends_def)

lemma appends_wf: "appends b b' xs \<Longrightarrow> wf_bb b'"
  by (simp add: appends_def)

lemma fits_mono: "fits b n \<Longrightarrow> m \<le> n \<Longrightarrow> fits b m"
  by (simp add: fits_def)

lemma fits_wf: "fits b n \<Longrightarrow> wf_bb b"
  by (simp add: fits_def)

lemma fits_appends: "fits b (length xs + n) \<Longrightarrow> appends b b' xs \<Longrightarrow> fits b' n"
  using appends_length [of b b' xs] by (auto simp: fits_def appends_def)

lemma wf_new_BitBuilder:
  assumes "sz < 2 ^ 31 - 8"
  shows "wf_bb (new_BitBuilder sz)" "bb_bits (new_BitBuilder sz) = []"
    "sz \<le> bb_cap (new_BitBuilder sz)" "bb_cap (new_BitBuilder sz) < sz + 8"
proof -
  have "8 * nat (ceil8 (int sz)) = nat (8 * ceil8 (int sz))"
    using ceil8_nonneg [of "int sz"] by (simp add: nat_mult_distrib)
  with ceil8_bounds [of "int sz"] have c: "sz \<le> 8 * nat (ceil8 (int sz))"
    "8 * nat (ceil8 (int sz)) < sz + 8" by linarith+
  with assms show "wf_bb (new_BitBuilder sz)"
    by (simp add: wf_bb_def new_BitBuilder_def bb_cap_def buf_alloc_def buf_bits_replicate_0)
  show "bb_bits (new_BitBuilder sz) = []"
    by (simp add: bb_bits_def new_BitBuilder_def)
  show "sz \<le> bb_cap (new_BitBuilder sz)" "bb_cap (new_BitBuilder sz) < sz + 8"
    using c by (simp_all add: bb_cap_def new_BitBuilder_def)
qed

section \<open>Correctness of the writers\<close>

lemma wf_bb_tail:
  assumes "wf_bb b" "bb_length b \<le> p" "p < bb_cap b"
  shows "\<not> buf_bits (bb_buffer b) ! p"
proof -
  obtain q where q: "p = bb_length b + q" using assms(2) by (metis le_Suc_ex)
  have "drop (bb_length b) (buf_bits (bb_buffer b)) ! q = replicate (bb_cap b - bb_length b) False ! q"
    using assms(1) by (simp add: wf_bb_def)
  with assms(3) q show ?thesis by (simp add: bb_cap_def)
qed

text \<open>A write is correct when it is correct bit by bit.\<close>

lemma appendsI:
  assumes "fits b (length xs)"
    and "length (bb_buffer b') = length (bb_buffer b)"
    and "bb_length b' = bb_length b + length xs"
    and "\<And>p. p < bb_cap b \<Longrightarrow> buf_bits (bb_buffer b') ! p =
           (if p < bb_length b then buf_bits (bb_buffer b) ! p
            else if p < bb_length b + length xs then xs ! (p - bb_length b) else False)"
  shows "appends b b' xs"
proof -
  have cap: "bb_cap b' = bb_cap b" using assms(2) by (simp add: bb_cap_def)
  have len: "bb_length b + length xs \<le> bb_cap b" and wf: "wf_bb b" and lim: "bb_cap b < 2 ^ 31"
    using assms(1) by (simp_all add: fits_def wf_bb_def)
  have "drop (bb_length b') (buf_bits (bb_buffer b')) = replicate (bb_cap b - bb_length b') False"
    using assms(2,3,4) by (intro nth_equalityI) (auto simp: bb_cap_def)
  then have "wf_bb b'"
    using cap len lim assms(3) by (simp add: wf_bb_def)
  moreover have "bb_bits b' = bb_bits b @ xs"
    using assms len
    by (intro nth_equalityI) (auto simp: bb_bits_def bb_cap_def nth_append)
  ultimately show ?thesis using cap by (simp add: appends_def)
qed

lemma buf_bits_update:
  assumes "i < length B" "p < 8 * length B"
  shows "buf_bits (B[i := w]) ! p = (if p div 8 = i then bit w (7 - p mod 8) else buf_bits B ! p)"
  using assms by (auto simp: nth_buf_bits nth_list_update)

lemma bit_byte_of_int: "j < 8 \<Longrightarrow> bit (word_of_int v :: byte) j = bit v j"
  by (simp add: bit_simps)

lemma to_int32_byte_index: "fits b 1 \<Longrightarrow> to_int32 (int (bb_length b) div 8) = int (bb_length b div 8)"
proof -
  assume "fits b 1"
  then have "bb_length b < 2 ^ 31" by (auto simp: fits_def wf_bb_def)
  then show ?thesis by (subst to_int32_id) (auto simp: zdiv_int)
qed

lemma writeBit_ok:
  assumes "fits b 1"
  shows "\<exists>b'. BitBuilder_writeBit v b = Inr b' \<and> appends b b' [bitval_set v]"
proof -
  let ?i = "bb_length b div 8" and ?m = "bb_length b mod 8"
  let ?b' = "b\<lparr>bb_buffer := (if bitval_set v then buf_or (bb_buffer b) (int ?i) (2 ^ (7 - ?m)) else bb_buffer b),
               bb_length := bb_length b + 1\<rparr>"
  have i: "?i < length (bb_buffer b)" and wf: "wf_bb b"
    using assms by (auto simp: fits_def bb_cap_def div_less_iff_less_mult)
  have "BitBuilder_writeBit v b = Inr ?b'"
    using assms to_int32_byte_index [OF assms]
    by (auto simp: BitBuilder_writeBit_def Let_def fits_def bb_cap_def)
  moreover have "appends b ?b' [bitval_set v]"
  proof (rule appendsI)
    fix p assume p: "p < bb_cap b"
    have pm: "p = bb_length b" if "p div 8 = ?i" "p mod 8 = ?m" for p
      using that by (metis div_mult_mod_eq)
    show "buf_bits (bb_buffer ?b') ! p =
      (if p < bb_length b then buf_bits (bb_buffer b) ! p
       else if p < bb_length b + length [bitval_set v] then [bitval_set v] ! (p - bb_length b) else False)"
    proof (cases "bitval_set v \<and> p div 8 = ?i")
      case True
      have "bit (2 ^ (7 - ?m) :: byte) (7 - p mod 8) \<longleftrightarrow> p mod 8 = ?m"
        by (auto simp: bit_exp_iff)
      with True i p wf_bb_tail [OF wf, of p] pm [of p] show ?thesis
        by (auto simp: buf_or_at buf_bits_update bb_cap_def bit_or_iff bit_byte_of_int
            nth_buf_bits [of p] less_Suc_eq)
    next
      case False
      with i p wf_bb_tail [OF wf, of p] show ?thesis
        by (auto simp: buf_or_at buf_bits_update bb_cap_def less_Suc_eq)
    qed
  qed (use assms in auto)
  ultimately show ?thesis by blast
qed

lemma bit_above: "0 \<le> v \<Longrightarrow> v < 2 ^ n \<Longrightarrow> n \<le> k \<Longrightarrow> \<not> bit (v :: int) k"
  by (metis bit_take_bit_iff not_le take_bit_int_eq_self)

text \<open>The bits of the byte stored by the first step of \<open>writeUint\<close>, position \<open>j\<close> of the byte.\<close>

lemma head_bit_partial:
  assumes "\<And>k. n \<le> k \<Longrightarrow> \<not> bit (v :: int) k" "t = 8 - m" "m < 8" "n < t" "j < 8"
  shows "bit (push_bit (t - n) v) (7 - j) \<longleftrightarrow> m \<le> j \<and> j < m + n \<and> bit v (n - 1 - (j - m))"
proof -
  have "bit (push_bit (t - n) v) (7 - j) \<longleftrightarrow> t - n \<le> 7 - j \<and> bit v (7 - j - (t - n))"
    by (simp add: bit_push_bit_iff_int)
  moreover have "\<not> bit v (7 - j - (t - n))" if "j < m" "t - n \<le> 7 - j"
    by (rule assms(1)) (use that assms in linarith)
  moreover have "7 - j - (t - n) = n - 1 - (j - m)" if "m \<le> j" "j < m + n"
    using that assms by linarith
  moreover have "t - n \<le> 7 - j \<longleftrightarrow> j < m + n" using assms by linarith
  ultimately show ?thesis by (metis not_le)
qed

lemma head_bit_full:
  assumes "\<And>k. n \<le> k \<Longrightarrow> \<not> bit (v :: int) k" "t = 8 - m" "m < 8" "t \<le> n" "j < 8"
  shows "bit (drop_bit (n - t) v) (7 - j) \<longleftrightarrow> m \<le> j \<and> bit v (n - 1 - (j - m))"
proof -
  have "bit (drop_bit (n - t) v) (7 - j) \<longleftrightarrow> bit v (n - t + (7 - j))"
    by (simp add: bit_drop_bit_eq)
  moreover have "\<not> bit v (n - t + (7 - j))" if "j < m"
    by (rule assms(1)) (use that assms in linarith)
  moreover have "n - t + (7 - j) = n - 1 - (j - m)" if "m \<le> j"
    using that assms by linarith
  ultimately show ?thesis by (metis not_le)
qed

lemma head_index:
  fixes m :: nat
  assumes "m \<le> j" "j < 8" "t = 8 - m" "t \<le> n"
  shows "j - m < t" "t - 1 - (j - m) + (n - t) = n - 1 - (j - m)"
  using assms by linarith+

text \<open>A byte ORed in at the current byte is a write of the bits it adds.\<close>

lemma appends_or:
  assumes "fits b (length xs)" "length xs + bb_length b mod 8 \<le> 8"
    and "\<And>j. j < 8 \<Longrightarrow> bit w (7 - j) \<longleftrightarrow>
           bb_length b mod 8 \<le> j \<and> j < bb_length b mod 8 + length xs \<and> xs ! (j - bb_length b mod 8)"
    and "bb_length b < bb_cap b"
  shows "appends b (b\<lparr>bb_buffer := buf_or (bb_buffer b) (int (bb_length b div 8)) w,
                     bb_length := bb_length b + length xs\<rparr>) xs"
proof (rule appendsI)
  let ?i = "bb_length b div 8" and ?m = "bb_length b mod 8"
  have i: "?i < length (bb_buffer b)" and wf: "wf_bb b"
    using assms by (auto simp: fits_def bb_cap_def div_less_iff_less_mult)
  fix p assume p: "p < bb_cap b"
  have len: "bb_length b = 8 * ?i + ?m" by simp
  show "buf_bits (bb_buffer (b\<lparr>bb_buffer := buf_or (bb_buffer b) (int ?i) w,
                     bb_length := bb_length b + length xs\<rparr>)) ! p =
      (if p < bb_length b then buf_bits (bb_buffer b) ! p
       else if p < bb_length b + length xs then xs ! (p - bb_length b) else False)"
  proof (cases "p div 8 = ?i")
    case True
    then have pp: "p = 8 * ?i + p mod 8" by (metis mult_div_mod_eq)
    then have lt: "p < bb_length b \<longleftrightarrow> p mod 8 < ?m"
      "p < bb_length b + length xs \<longleftrightarrow> p mod 8 < ?m + length xs"
      "p - bb_length b = p mod 8 - ?m"
      using len by linarith+
    have "buf_bits ((bb_buffer b)[?i := (bb_buffer b ! ?i) OR word_of_int w]) ! p =
        (buf_bits (bb_buffer b) ! p \<or> bit w (7 - p mod 8))"
      using True i p
      by (simp add: buf_bits_update bb_cap_def bit_or_iff bit_byte_of_int nth_buf_bits [of p])
    with i assms(3) [of "p mod 8"] lt wf_bb_tail [OF wf _ p] show ?thesis
      by (auto simp: buf_or_at not_less)
  next
    case False
    have "\<not> (bb_length b \<le> p \<and> p < bb_length b + length xs)"
    proof
      assume "bb_length b \<le> p \<and> p < bb_length b + length xs"
      then have "8 * ?i \<le> p" "p < 8 * ?i + 8" using len assms(2) by linarith+
      then have "p div 8 = ?i" by (simp add: div_nat_eqI)
      with False show False by simp
    qed
    with False i p wf_bb_tail [OF wf _ p] show ?thesis
      by (auto simp: buf_or_at buf_bits_update bb_cap_def)
  qed
qed (use assms in auto)

lemma writeUint_head_ok:
  assumes "fits b (nat bits)" "0 < bits" "0 \<le> v" "v < 2 ^ nat bits"
    and t: "t = 8 - bb_length b mod 8"
  shows "appends b (writeUint_head v bits b)
     (if bits < int t then bits_be (nat bits) v else bits_be t (v div 2 ^ (nat bits - t)))"
proof -
  let ?m = "bb_length b mod 8" and ?n = "nat bits"
  have high: "\<And>k. ?n \<le> k \<Longrightarrow> \<not> bit v k" using assms(3,4) bit_above by blast
  have room: "bb_length b < bb_cap b" using assms(1,2) by (auto simp: fits_def)
  show ?thesis
  proof (cases "bits < int t")
    case True
    then have n: "nat (int t - bits) = t - ?n" "?n < t" using assms(2) by linarith+
    have "appends b (b\<lparr>bb_buffer := buf_or (bb_buffer b) (int (bb_length b div 8)) (push_bit (t - ?n) v),
                       bb_length := bb_length b + length (bits_be ?n v)\<rparr>) (bits_be ?n v)"
    proof (intro appends_or)
      fix j :: nat assume j: "j < 8"
      show "bit (push_bit (t - ?n) v) (7 - j) \<longleftrightarrow>
          ?m \<le> j \<and> j < ?m + length (bits_be ?n v) \<and> bits_be ?n v ! (j - ?m)"
        unfolding head_bit_partial [OF high t mod_less_divisor n(2) j, simplified]
        by (auto simp: less_diff_conv2)
    next
      show "length (bits_be ?n v) + ?m \<le> 8" using n t by simp linarith
    qed (use assms(1) room in auto)
    with True n t show ?thesis
      by (simp add: writeUint_head_def Let_def zdiv_int)
  next
    case False
    then have n: "nat (bits - int t) = ?n - t" "t \<le> ?n" by linarith+
    have "appends b (b\<lparr>bb_buffer := buf_or (bb_buffer b) (int (bb_length b div 8)) (drop_bit (?n - t) v),
                       bb_length := bb_length b + length (bits_be t (v div 2 ^ (?n - t)))\<rparr>)
            (bits_be t (v div 2 ^ (?n - t)))"
    proof (intro appends_or)
      show "fits b (length (bits_be t (v div 2 ^ (?n - t))))"
        using assms(1) n by (auto elim: fits_mono)
      fix j :: nat assume j: "j < 8"
      have nth: "bits_be t (v div 2 ^ (?n - t)) ! (j - ?m) \<longleftrightarrow> bit v (?n - 1 - (j - ?m))" if "?m \<le> j"
      proof -
        from head_index [OF that j t n(2)] show ?thesis
          by (simp add: drop_bit_eq_div [symmetric] bit_drop_bit_eq add.commute)
      qed
      show "bit (drop_bit (?n - t) v) (7 - j) \<longleftrightarrow>
          ?m \<le> j \<and> j < ?m + length (bits_be t (v div 2 ^ (?n - t))) \<and>
          bits_be t (v div 2 ^ (?n - t)) ! (j - ?m)"
        unfolding head_bit_full [OF high t mod_less_divisor n(2) j, simplified]
        using nth j t by auto
    qed (use t room in auto)
    with False n t show ?thesis
      by (simp add: writeUint_head_def Let_def zdiv_int)
  qed
qed

text \<open>A whole or partial byte stored at an aligned position.\<close>

lemma appends_set:
  assumes "fits b (length xs)" "length xs \<le> 8" "bb_length b mod 8 = 0" "xs \<noteq> []"
    and "\<And>j. j < 8 \<Longrightarrow> bit w (7 - j) \<longleftrightarrow> j < length xs \<and> xs ! j"
  shows "appends b (b\<lparr>bb_buffer := buf_set (bb_buffer b) (int (bb_length b div 8)) w,
                     bb_length := bb_length b + length xs\<rparr>) xs"
proof -
  let ?i = "bb_length b div 8"
  have room: "bb_length b < bb_cap b" and wf: "wf_bb b"
    using assms(1,4) by (auto simp: fits_def neq_Nil_conv)
  then have i: "?i < length (bb_buffer b)" by (auto simp: bb_cap_def div_less_iff_less_mult)
  have "buf_get (bb_buffer b) (int ?i) = 0"
  proof (rule bit_word_eqI)
    fix k assume "k < LENGTH(8)"
    then have k: "k \<le> 7" by simp
    let ?p = "8 * ?i + (7 - k)"
    have "?p mod 8 = 7 - k" "?p div 8 = ?i" by simp_all
    moreover have "8 * ?i + 8 \<le> bb_cap b" using i by (simp add: bb_cap_def)
    moreover have "bb_length b = 8 * ?i" using assms(3) by auto
    ultimately have p: "bb_length b \<le> ?p" "?p < bb_cap b" "?p div 8 = ?i" "7 - ?p mod 8 = k"
      using k by linarith+
    have "buf_bits (bb_buffer b) ! ?p = bit (bb_buffer b ! ?i) k"
      using nth_buf_bits [of ?p "bb_buffer b"] p(2) unfolding p(3,4) bb_cap_def by blast
    then show "bit (buf_get (bb_buffer b) (int ?i)) k = bit (0 :: byte) k"
      using wf_bb_tail [OF wf p(1,2)] i by (simp add: buf_get_def)
  qed
  then have "buf_set (bb_buffer b) (int ?i) w = buf_or (bb_buffer b) (int ?i) w"
    by (simp add: buf_or_def)
  with appends_or [of b xs w] assms room show ?thesis by simp
qed

lemma writeUint_loop_ok:
  assumes "fits b (nat bits)" "bb_length b mod 8 = 0"
  shows "appends b (writeUint_loop v bits b) (bits_be (nat bits) v)"
  using assms
proof (induction v bits b rule: writeUint_loop.induct)
  case (1 v bits b)
  have mask: "bit (x AND 255 :: int) k \<longleftrightarrow> bit x k \<and> k < 8" for x k
    using bit_take_bit_iff [of 8 x k] by (simp add: take_bit_eq_mask mask_eq_exp_minus_1 conj_commute)
  consider "bits \<le> 0" | "0 < bits" "bits < 8" | "8 \<le> bits" by linarith
  then show ?case
  proof cases
    case 1
    then show ?thesis using "1.prems" by (simp add: writeUint_loop.simps [of v bits b] fits_wf)
  next
    case 2
    let ?n = "nat bits"
    have n: "nat (8 - bits) = 8 - ?n" "0 < ?n" "?n < 8" using 2 by linarith+
    have "appends b (b\<lparr>bb_buffer := buf_set (bb_buffer b) (int (bb_length b div 8)) (push_bit (8 - ?n) v AND 255),
                       bb_length := bb_length b + length (bits_be ?n v)\<rparr>) (bits_be ?n v)"
    proof (intro appends_set)
      fix j :: nat assume j: "j < 8"
      have "7 - j - (8 - ?n) = ?n - 1 - j" "8 - ?n \<le> 7 - j \<longleftrightarrow> j < ?n" "7 - j < 8"
        using n j by linarith+
      then show "bit (push_bit (8 - ?n) v AND 255) (7 - j) \<longleftrightarrow>
          j < length (bits_be ?n v) \<and> bits_be ?n v ! j"
        by (auto simp: mask bit_push_bit_iff_int)
    qed (use "1.prems" n in \<open>auto simp flip: length_greater_0_conv\<close>)
    with 2 n show ?thesis by (simp add: writeUint_loop.simps [of v bits b] zdiv_int)
  next
    case 3
    let ?n = "nat bits"
    let ?hi = "bits_be 8 (v div 2 ^ (?n - 8))"
    let ?b = "b\<lparr>bb_buffer := buf_set (bb_buffer b) (int (bb_length b div 8)) (drop_bit (nat (bits - 8)) v AND 255),
                bb_length := bb_length b + 8\<rparr>"
    have n: "nat (bits - 8) = ?n - 8" "8 \<le> ?n" using 3 by linarith+
    have step: "appends b ?b ?hi"
    proof -
      have "7 - j < 8" for j :: nat by linarith
      then show ?thesis
        using appends_set [of b ?hi "drop_bit (?n - 8) v AND 255"] "1.prems" n
        by (auto simp: mask bit_drop_bit_eq drop_bit_eq_div [symmetric] fits_def
            simp flip: length_greater_0_conv)
    qed
    then have "fits ?b (nat (bits - 8))"
      using fits_appends [of b ?hi "?n - 8" ?b] "1.prems"(1) n by simp
    with "1.IH" 3 "1.prems"(2)
    have "appends ?b (writeUint_loop v (bits - 8) ?b) (bits_be (?n - 8) v)"
      by (simp add: n)
    with step have "appends b (writeUint_loop v (bits - 8) ?b) (?hi @ bits_be (?n - 8) v)"
      by (rule appends_trans)
    also have "?hi @ bits_be (?n - 8) v = bits_be ?n v"
      using bits_be_add [of 8 "?n - 8" v] n by simp
    finally show ?thesis
      using 3 by (simp add: writeUint_loop.simps [of v bits b] zdiv_int)
  qed
qed

text \<open>
  The byte-wise \<open>writeUint\<close> appends exactly the big-endian bits of its value, for every
  width and at every bit position.
\<close>

lemma writeUint_ok:
  assumes "to_bigint value = Inr v" "fits b n" "0 \<le> v" "v < 2 ^ n"
  shows "\<exists>b'. BitBuilder_writeUint value (int n) b = Inr b' \<and> appends b b' (bits_be n v)"
proof (cases "n = 0")
  case True
  with assms show ?thesis
    by (auto simp: BitBuilder_writeUint_def is_safe_integer_def fits_wf)
next
  case False
  define t where "t = 8 - bb_length b mod 8"
  let ?h = "writeUint_head v (int n) b"
  have safe: "is_safe_integer (int n)" and wf: "wf_bb b"
    using assms(2) by (auto simp: is_safe_integer_def fits_def wf_bb_def)
  have res: "BitBuilder_writeUint value (int n) b = Inr (writeUint_loop v (int n - int t) ?h)"
    using assms False safe by (auto simp: BitBuilder_writeUint_def fits_def bb_cap_def t_def Let_def)
  have head: "appends b ?h (if int n < int t then bits_be n v else bits_be t (v div 2 ^ (n - t)))"
    using writeUint_head_ok [of b "int n" v t, OF _ _ _ _ t_def] assms False
    by (simp split: if_splits)
  show ?thesis
  proof (cases "n < t")
    case True
    with head res show ?thesis by (simp add: writeUint_loop.simps)
  next
    case False
    then have h: "appends b ?h (bits_be t (v div 2 ^ (n - t)))" using head by simp
    then have "fits ?h (n - t)"
      using fits_appends [of b "bits_be t (v div 2 ^ (n - t))" "n - t" ?h] assms(2) False by simp
    moreover have "bb_length ?h mod 8 = 0"
      using appends_length [OF wf h] by (simp add: t_def) presburger
    ultimately have "appends ?h (writeUint_loop v (int n - int t) ?h) (bits_be (n - t) v)"
      using writeUint_loop_ok [of ?h "int n - int t" v] False by (simp add: nat_diff_distrib)
    with h have "appends b (writeUint_loop v (int n - int t) ?h)
        (bits_be t (v div 2 ^ (n - t)) @ bits_be (n - t) v)"
      by (rule appends_trans)
    also have "bits_be t (v div 2 ^ (n - t)) @ bits_be (n - t) v = bits_be n v"
      using bits_be_add [of t "n - t" v] False by simp
    finally show ?thesis using res by blast
  qed
qed

end
