(* ===== verification/Bit_Writers.thy ===== *)
theory Bit_Writers
  imports Bit_Builder
begin

text \<open>
  The encodings behind the writers of BitBuilder.ts and the proof that each writer appends
  its encoding, refuses a value outside its range and refuses to overflow. \<open>writes m b xs\<close>
  says that the write \<open>m\<close>, started on \<open>b\<close>, returns and has appended \<open>xs\<close>.
\<close>

definition writes :: "bit_builder res \<Rightarrow> bit_builder \<Rightarrow> bool list \<Rightarrow> bool" where
  "writes m b xs \<longleftrightarrow> (\<exists>b'. m = Inr b' \<and> appends b b' xs)"

lemma writesI: "m = Inr b' \<Longrightarrow> appends b b' xs \<Longrightarrow> writes m b xs"
  by (auto simp: writes_def)

lemma writes_refl [simp]: "wf_bb b \<Longrightarrow> writes (Inr b) b []"
  by (simp add: writes_def)

lemma writes_bind:
  assumes "writes m b xs" "fits b (length xs + n)" "length ys = n"
    and "\<And>b'. fits b' n \<Longrightarrow> writes (f b') b' ys"
  shows "writes (bindE m f) b (xs @ ys)"
proof -
  from assms(1) obtain b' where b': "m = Inr b'" "appends b b' xs" by (auto simp: writes_def)
  then have "fits b' n" using assms(2) fits_appends by blast
  from assms(4) [OF this] obtain c where "f b' = Inr c" "appends b' c ys" by (auto simp: writes_def)
  with b' show ?thesis by (auto simp: writes_def intro: appends_trans)
qed

lemma writes_bindI:
  assumes "fits b (length xs + length ys)"
    and "fits b (length xs) \<Longrightarrow> writes m b xs"
    and "\<And>b'. fits b' (length ys) \<Longrightarrow> writes (f b') b' ys"
  shows "writes (bindE m f) b (xs @ ys)"
  by (rule writes_bind [where n = "length ys"])
     (use assms fits_mono [OF assms(1), of "length xs"] in auto)

lemma writes_foldE:
  assumes "\<And>x b. x \<in> set xs \<Longrightarrow> fits b (length (e x)) \<Longrightarrow> writes (f x b) b (e x)"
    and "fits b (length (concat (map e xs)))"
  shows "writes (foldE f xs b) b (concat (map e xs))"
  using assms
proof (induction xs arbitrary: b)
  case Nil
  then show ?case by (simp add: fits_wf)
next
  case (Cons x xs)
  from Cons.prems(2) have "fits b (length (e x))" by (rule fits_mono) simp
  then have "writes (f x b) b (e x)" by (simp add: Cons.prems(1))
  then show ?case
    using Cons by (simp del: length_concat) (rule writes_bind, auto)
qed

section \<open>Encodings\<close>

definition size_bytes :: "int \<Rightarrow> nat" where \<comment> \<open>bytes of a positive number\<close>
  "size_bytes v = (bit_length (nat \<bar>v\<bar>) + 7) div 8"

definition enc_var_uint :: "nat \<Rightarrow> int \<Rightarrow> bool list" where
  "enc_var_uint n v =
     (if v = 0 then bits_be n 0 else bits_be n (int (size_bytes v)) @ bits_be (8 * size_bytes v) v)"

definition enc_var_int :: "nat \<Rightarrow> int \<Rightarrow> bool list" where
  "enc_var_int n v =
     (if v = 0 then bits_be n 0
      else bits_be n (int (Suc (size_bytes v))) @ bits_be (8 * Suc (size_bytes v)) v)"

definition enc_std_address :: "address \<Rightarrow> bool list" where
  "enc_std_address a =
     bits_be 2 2 @ bits_be 1 0 @ bits_be 8 (workChain a) @ buf_bits (addr_hash a)"

definition enc_ext_address :: "external_address \<Rightarrow> bool list" where
  "enc_ext_address a =
     bits_be 2 1 @ bits_be 9 (ext_bits a) @ bits_be (nat (ext_bits a)) (ext_value a)"

fun enc_address :: "any_address option \<Rightarrow> bool list" where
  "enc_address None = bits_be 2 0"
| "enc_address (Some (Internal a)) = enc_std_address a"
| "enc_address (Some (External a)) = enc_ext_address a"

text \<open>The values a conforming caller passes: the ranges of the wire format.\<close>

definition int_range :: "nat \<Rightarrow> int \<Rightarrow> bool" where
  "int_range n v \<longleftrightarrow> - (2 ^ (n - 1)) \<le> v \<and> v < 2 ^ (n - 1)"

definition valid_std :: "address \<Rightarrow> bool" where
  "valid_std a \<longleftrightarrow> int_range 8 (workChain a) \<and> length (addr_hash a) = 32"

definition valid_ext :: "external_address \<Rightarrow> bool" where
  "valid_ext a \<longleftrightarrow> 0 \<le> ext_bits a \<and> ext_bits a < 2 ^ 9 \<and>
     0 \<le> ext_value a \<and> ext_value a < 2 ^ nat (ext_bits a)"

fun valid_address :: "any_address option \<Rightarrow> bool" where
  "valid_address None = True"
| "valid_address (Some (Internal a)) = valid_std a"
| "valid_address (Some (External a)) = valid_ext a"

lemma ceil8_nat: "ceil8 (int n) = int ((n + 7) div 8)"
  by (simp add: ceil8_def)

lemma size_bytes_to_string:
  "v \<noteq> 0 \<Longrightarrow> ceil8 (int (length (to_string_radix 2 \<bar>v\<bar>))) = int (size_bytes v)"
  by (simp add: ceil8_nat size_bytes_def length_to_string_2)

lemma size_bytes_bound: "\<bar>v\<bar> < 2 ^ (8 * size_bytes v)"
proof -
  have "nat \<bar>v\<bar> < 2 ^ bit_length (nat \<bar>v\<bar>)" by (rule bit_length_upper)
  also have "\<dots> \<le> 2 ^ (8 * size_bytes v)"
    by (intro power_increasing) (auto simp: size_bytes_def)
  finally show ?thesis by (simp add: nat_less_iff)
qed

lemma size_bytes_le: "\<bar>v\<bar> < 2 ^ (8 * k) \<Longrightarrow> size_bytes v \<le> k"
proof -
  assume "\<bar>v\<bar> < 2 ^ (8 * k)"
  then have "nat \<bar>v\<bar> < 2 ^ (8 * k)" by (simp add: nat_less_iff)
  then have "bit_length (nat \<bar>v\<bar>) \<le> 8 * k" by (rule bit_length_le)
  then show ?thesis by (simp add: size_bytes_def)
qed

lemma size_bytes_pos: "v \<noteq> 0 \<Longrightarrow> 0 < size_bytes v"
  using bit_length_pos [of "nat \<bar>v\<bar>"] by (simp add: size_bytes_def)

section \<open>The writers append their encodings\<close>

lemma writes_bit: "fits b 1 \<Longrightarrow> writes (BitBuilder_writeBit v b) b [bitval_set v]"
  using writeBit_ok by (auto simp: writes_def)

lemma writes_uint:
  "to_bigint value = Inr v \<Longrightarrow> fits b n \<Longrightarrow> 0 \<le> v \<Longrightarrow> v < 2 ^ n \<Longrightarrow>
     writes (BitBuilder_writeUint value (int n) b) b (bits_be n v)"
  using writeUint_ok by (auto simp: writes_def)

lemma writes_uint_numeral:
  "to_bigint value = Inr v \<Longrightarrow> fits b (numeral n) \<Longrightarrow> 0 \<le> v \<Longrightarrow> v < 2 ^ numeral n \<Longrightarrow>
     writes (BitBuilder_writeUint value (numeral n) b) b (bits_be (numeral n) v)"
  "to_bigint value = Inr v \<Longrightarrow> fits b 1 \<Longrightarrow> 0 \<le> v \<Longrightarrow> v < 2 \<Longrightarrow>
     writes (BitBuilder_writeUint value 1 b) b (bits_be 1 v)"
  using writes_uint [of "value" v b "numeral n"] writes_uint [of "value" v b 1] by simp_all

lemma writes_bits:
  assumes "fits b (bs_length src)"
  shows "writes (BitBuilder_writeBits src b) b (bs_bits src)"
proof -
  let ?e = "\<lambda>i. [BitString_bit src (int i)]"
  have c: "concat (map ?e [0..<bs_length src]) = bs_bits src"
    by (simp add: bs_bits_def)
  have "writes (BitBuilder_writeBits src b) b (concat (map ?e [0..<bs_length src]))"
    unfolding BitBuilder_writeBits_def
  proof (rule writes_foldE)
    fix i b assume "i \<in> set [0..<bs_length src]" "fits b (length [BitString_bit src (int i)])"
    then show "writes (bindE (BitString_at src (int i)) (\<lambda>v. BitBuilder_writeBit (BitBool v) b)) b
        [BitString_bit src (int i)]"
      using writes_bit [of b "BitBool (BitString_bit src (int i))"]
      by (simp add: BitString_at_nth nth_bs_bits)
  next
    show "fits b (length (concat (map ?e [0..<bs_length src])))"
      using assms unfolding c by simp
  qed
  then show ?thesis unfolding c .
qed

lemma writes_buffer:
  assumes "fits b (8 * length src)"
  shows "writes (BitBuilder_writeBuffer src b) b (buf_bits src)"
proof (cases "bb_length b mod 8 = 0")
  case True
  let ?k = "bb_length b div 8"
  let ?B = "bb_buffer b"
  let ?b' = "b\<lparr>bb_buffer := buf_copy src ?B ?k, bb_length := bb_length b + length src * 8\<rparr>"
  have k: "bb_length b = 8 * ?k" "?k + length src \<le> length ?B" and wf: "wf_bb b"
    using assms True by (auto simp: fits_def bb_cap_def)
  have bits: "buf_bits (buf_copy src ?B ?k) =
      bb_bits b @ buf_bits src @ drop (bb_length b + 8 * length src) (buf_bits ?B)"
    using k by (simp add: buf_copy_def bb_bits_def take_buf_bits [symmetric] drop_buf_bits [symmetric])
  have "appends b ?b' (buf_bits src)"
  proof (rule appendsI)
    show "fits b (length (buf_bits src))" using assms by simp
    show "length (bb_buffer ?b') = length (bb_buffer b)" using k by (simp add: length_buf_copy)
    fix p assume "p < bb_cap b"
    then show "buf_bits (bb_buffer ?b') ! p =
        (if p < bb_length b then buf_bits (bb_buffer b) ! p
         else if p < bb_length b + length (buf_bits src) then buf_bits src ! (p - bb_length b) else False)"
      using wf_bb_tail [OF wf, of p] length_bb_bits [OF wf]
      by (auto simp: bits nth_append bb_bits_def bb_cap_def)
  qed simp
  with True k show ?thesis
    by (auto simp: writes_def BitBuilder_writeBuffer_def)
next
  case False
  have "writes (foldE (\<lambda>w b. BitBuilder_writeUint (Num (uint w)) 8 b) src b) b (concat (map byte_bits src))"
  proof (rule writes_foldE)
    fix w :: byte and b assume "fits b (length (byte_bits w))"
    then show "writes (BitBuilder_writeUint (Num (uint w)) 8 b) b (byte_bits w)"
      using writes_uint [of "Num (uint w)" "uint w" b 8] uint_lt2p [of w] by (simp add: byte_bits_def)
  next
    show "fits b (length (concat (map byte_bits src)))"
      using assms length_buf_bits [of src] by (simp add: buf_bits_def)
  qed
  with False show ?thesis by (simp add: BitBuilder_writeBuffer_def buf_bits_def)
qed

lemma bits_be_sign:
  assumes "int_range (Suc n) v"
  shows "bits_be (Suc n) v = (v < 0) # bits_be n (if v < 0 then 2 ^ n + v else v)"
proof -
  have r: "- (2 ^ n) \<le> v" "v < 2 ^ n" using assms by (auto simp: int_range_def)
  have "bits_be (1 + n) v = bits_be 1 (v div 2 ^ n) @ bits_be n v" by (rule bits_be_add)
  moreover have "bits_be n v = bits_be n (if v < 0 then 2 ^ n + v else v)"
    using bits_be_mod [of n "2 ^ n + v"] bits_be_mod [of n v] by simp
  moreover have "v div 2 ^ n = (if v < 0 then - 1 else 0)"
  proof (cases "v < 0")
    case True
    then have "(v + 2 ^ n) div 2 ^ n = 0" using r by (intro div_pos_pos_trivial) auto
    then have "v div 2 ^ n + 1 = 0" by (subst (asm) div_add_self2) simp_all
    with True show ?thesis by simp
  qed (use r in simp)
  ultimately show ?thesis by (auto simp: bits_be_def)
qed

text \<open>
  A signed write appends the two's complement bits of its value. At width 1 and 0 the code
  compares its argument with BigInt literals, so only a BigInt is accepted there.
\<close>

lemma writes_int:
  assumes "to_bigint value = Inr v" "fits b n" "int_range n v"
    and "2 \<le> n \<or> (n = 1 \<and> value = Big v)"
  shows "writes (BitBuilder_writeInt value (int n) b) b (bits_be n v)"
proof (cases "n = 1")
  case True
  with assms have v: "v = - 1 \<or> v = 0" "value = Big v" by (auto simp: int_range_def)
  with writes_bit [of b "BitBool (v = - 1)"] assms(2) True show ?thesis
    by (auto simp: BitBuilder_writeInt_def is_safe_integer_def bits_be_def)
next
  case False
  then obtain m where m: "n = Suc m" "0 < m" using assms(4) by (cases n) auto
  let ?w = "if v < 0 then 2 ^ m + v else v"
  have r: "- (2 ^ m) \<le> v" "v < 2 ^ m" using assms(3) m by (auto simp: int_range_def)
  have safe: "is_safe_integer (int n)"
    using assms(2) by (auto simp: is_safe_integer_def fits_def wf_bb_def)
  have eq: "BitBuilder_writeInt value (int n) b =
      bindE (BitBuilder_writeBit (BitBool (v < 0)) b) (BitBuilder_writeUint (Big ?w) (int m))"
    using assms(1) m r safe by (auto simp: BitBuilder_writeInt_def Let_def)
  have "writes (bindE (BitBuilder_writeBit (BitBool (v < 0)) b) (BitBuilder_writeUint (Big ?w) (int m))) b
      ([v < 0] @ bits_be m ?w)"
  proof (rule writes_bind)
    show "writes (BitBuilder_writeBit (BitBool (v < 0)) b) b [v < 0]"
      using writes_bit [of b "BitBool (v < 0)"] assms(2) m by (auto intro: fits_mono)
    fix b' assume "fits b' m"
    then show "writes (BitBuilder_writeUint (Big ?w) (int m) b') b' (bits_be m ?w)"
      using r by (intro writes_uint) auto
  qed (use assms m in auto)
  then show ?thesis
    using bits_be_sign [of m v] assms(3) m eq by simp
qed

lemma int_range_size: "int_range (8 * Suc (size_bytes v)) v"
proof -
  have "\<bar>v\<bar> < 2 ^ (8 * size_bytes v)" by (rule size_bytes_bound)
  also have "\<dots> \<le> 2 ^ (8 * Suc (size_bytes v) - 1)" by (intro power_increasing) auto
  finally show ?thesis by (auto simp: int_range_def)
qed

lemma length_enc_var_uint:
  "length (enc_var_uint n v) = (if v = 0 then n else n + 8 * size_bytes v)"
  by (simp add: enc_var_uint_def)

lemma length_enc_var_int:
  "length (enc_var_int n v) = (if v = 0 then n else n + 8 * Suc (size_bytes v))"
  by (simp add: enc_var_int_def)

lemma writes_var_uint:
  assumes "to_bigint value = Inr v" "0 \<le> v" "int (size_bytes v) < 2 ^ n"
    and "fits b (length (enc_var_uint n v))"
  shows "writes (BitBuilder_writeVarUint value (int n) b) b (enc_var_uint n v)"
proof (cases "v = 0")
  case True
  with assms writes_uint [of "Num 0" 0 b n] show ?thesis
    by (auto simp: BitBuilder_writeVarUint_def enc_var_uint_def is_safe_integer_def fits_def wf_bb_def)
next
  case False
  let ?k = "size_bytes v"
  have safe: "is_safe_integer (int n)"
    using assms(4) False by (auto simp: is_safe_integer_def fits_def wf_bb_def length_enc_var_uint)
  have eq: "BitBuilder_writeVarUint value (int n) b =
      bindE (BitBuilder_writeUint (Num (int ?k)) (int n) b)
        (BitBuilder_writeUint (Big v) (int (8 * ?k)))"
    using assms(1,2) False safe size_bytes_to_string [of v]
    by (simp add: BitBuilder_writeVarUint_def Let_def mult.commute)
  have "writes \<dots> b (bits_be n (int ?k) @ bits_be (8 * ?k) v)"
  proof (rule writes_bind)
    show "writes (BitBuilder_writeUint (Num (int ?k)) (int n) b) b (bits_be n (int ?k))"
      using assms(3,4) False by (intro writes_uint) (auto simp: length_enc_var_uint elim: fits_mono)
    show "writes (BitBuilder_writeUint (Big v) (int (8 * ?k)) b') b' (bits_be (8 * ?k) v)"
      if "fits b' (8 * ?k)" for b'
      using that assms(2) size_bytes_bound [of v] by (intro writes_uint) auto
  qed (use assms False in \<open>auto simp: length_enc_var_uint\<close>)
  with eq False show ?thesis by (simp add: enc_var_uint_def)
qed

lemma writes_var_int:
  assumes "to_bigint value = Inr v" "int (Suc (size_bytes v)) < 2 ^ n"
    and "fits b (length (enc_var_int n v))"
  shows "writes (BitBuilder_writeVarInt value (int n) b) b (enc_var_int n v)"
proof (cases "v = 0")
  case True
  with assms writes_uint [of "Num 0" 0 b n] show ?thesis
    by (auto simp: BitBuilder_writeVarInt_def enc_var_int_def is_safe_integer_def fits_def wf_bb_def)
next
  case False
  let ?k = "Suc (size_bytes v)"
  have safe: "is_safe_integer (int n)"
    using assms(3) False by (auto simp: is_safe_integer_def fits_def wf_bb_def length_enc_var_int)
  have "(if v > 0 then v else - v) = \<bar>v\<bar>" by simp
  then have eq: "BitBuilder_writeVarInt value (int n) b =
      bindE (BitBuilder_writeUint (Num (int ?k)) (int n) b)
        (BitBuilder_writeInt (Big v) (int (8 * ?k)))"
    using assms(1) False safe size_bytes_to_string [of v]
    by (simp add: BitBuilder_writeVarInt_def Let_def algebra_simps)
  have "writes \<dots> b (bits_be n (int ?k) @ bits_be (8 * ?k) v)"
  proof (rule writes_bind)
    show "writes (BitBuilder_writeUint (Num (int ?k)) (int n) b) b (bits_be n (int ?k))"
      using assms(2,3) False by (intro writes_uint) (auto simp: length_enc_var_int elim: fits_mono)
    show "writes (BitBuilder_writeInt (Big v) (int (8 * ?k)) b') b' (bits_be (8 * ?k) v)"
      if "fits b' (8 * ?k)" for b'
      using that int_range_size [of v] by (intro writes_int) auto
  qed (use assms False in \<open>auto simp: length_enc_var_int\<close>)
  with eq False show ?thesis by (simp add: enc_var_int_def)
qed

definition valid_coins :: "int \<Rightarrow> bool" where
  "valid_coins v \<longleftrightarrow> 0 \<le> v \<and> v < 2 ^ 120"

lemma size_bytes_coins: "valid_coins v \<Longrightarrow> size_bytes v \<le> 15"
  using size_bytes_le [of v 15] by (simp add: valid_coins_def)

lemma writes_coins:
  assumes "to_bigint value = Inr v" "valid_coins v" "fits b (length (enc_var_uint 4 v))"
  shows "writes (BitBuilder_writeCoins value b) b (enc_var_uint 4 v)"
  using writes_var_uint [of "value" v 4 b] assms size_bytes_coins [OF assms(2)]
  by (simp add: BitBuilder_writeCoins_def valid_coins_def)

lemma length_enc_std: "valid_std a \<Longrightarrow> length (enc_std_address a) = 267"
  by (simp add: enc_std_address_def valid_std_def)

lemma length_enc_ext: "length (enc_ext_address a) = 11 + nat (ext_bits a)"
  by (simp add: enc_ext_address_def)

lemma writes_address:
  assumes "valid_address a" "fits b (length (enc_address a))"
  shows "writes (BitBuilder_writeAddress a b) b (enc_address a)"
proof (cases a)
  case None
  with assms show ?thesis using writes_uint_numeral(1) [of "Num 0" 0 b] by simp
next
  case (Some x)
  show ?thesis
  proof (cases x)
    case (Internal i)
    have f: "fits b 267" and l: "length (addr_hash i) = 32" "int_range 8 (workChain i)"
      using assms Some Internal by (simp_all add: length_enc_std valid_std_def)
    have wc: "fits b' 8 \<Longrightarrow>
        writes (BitBuilder_writeInt (Num (workChain i)) 8 b') b' (bits_be 8 (workChain i))" for b'
      using writes_int [of "Num (workChain i)" "workChain i" b' 8] l by simp
    show ?thesis
      unfolding Some Internal BitBuilder_writeAddress.simps enc_address.simps enc_std_address_def
      using f l by (intro writes_bindI writes_uint_numeral wc writes_buffer) simp_all
  next
    case (External e)
    let ?n = "nat (ext_bits e)"
    have f: "fits b (11 + ?n)" and v: "valid_ext e"
      using assms Some External by (simp_all add: length_enc_ext)
    have "writes (BitBuilder_writeUint (Big (ext_value e)) (ext_bits e) b') b' (bits_be ?n (ext_value e))"
      if "fits b' ?n" for b'
      using writes_uint [of "Big (ext_value e)" "ext_value e" b' ?n] that v by (simp add: valid_ext_def)
    with f v show ?thesis
      unfolding Some External BitBuilder_writeAddress.simps enc_address.simps enc_ext_address_def
      by (intro writes_bindI writes_uint_numeral) (simp_all add: valid_ext_def)
  qed
qed

section \<open>Refused writes\<close>

text \<open>
  A value outside its range and a write that does not fit are refused, and nothing else is.
\<close>

lemma writeUint_out_of_range:
  assumes "to_bigint value = Inr v" "0 < n" "n \<le> 2 ^ 53 - 1" "v < 0 \<or> 2 ^ n \<le> v"
  shows "BitBuilder_writeUint value (int n) b = Inl ValueOutOfRange"
  using assms by (auto simp: BitBuilder_writeUint_def is_safe_integer_def)

lemma writeUint_overflow:
  assumes "to_bigint value = Inr v" "0 < n" "n \<le> 2 ^ 53 - 1" "0 \<le> v" "v < 2 ^ n"
    and "bb_cap b < bb_length b + n"
  shows "BitBuilder_writeUint value (int n) b = Inl BitBuilderOverflow"
  using assms by (auto simp: BitBuilder_writeUint_def is_safe_integer_def bb_cap_def)

lemma writeInt_out_of_range:
  assumes "to_bigint value = Inr v" "2 \<le> n" "n \<le> 2 ^ 53 - 1" "\<not> int_range n v"
  shows "BitBuilder_writeInt value (int n) b = Inl ValueOutOfRange"
  using assms by (auto simp: BitBuilder_writeInt_def is_safe_integer_def int_range_def Let_def
      nat_diff_distrib)

section \<open>Building\<close>

lemma build_ok:
  assumes "wf_bb b"
  shows "\<exists>s. BitBuilder_build b = Inr s \<and> bs_bits s = bb_bits b \<and> wf_bs s \<and> bs_length s = bb_length b"
proof -
  let ?s = "\<lparr>bs_data = bb_buffer b, bs_offset = 0, bs_length = bb_length b\<rparr>"
  have "wf_bs ?s" using assms by (auto simp: wf_bs_def wf_bb_def bb_cap_def)
  moreover from bs_bits_wf [OF this] have "bs_bits ?s = bb_bits b" by (simp add: bb_bits_def)
  ultimately show ?thesis by (auto simp: BitBuilder_build_def new_BitString_def)
qed

lemma getBuffer_ok:
  assumes "wf_bb b" "bb_length b mod 8 = 0"
  shows "\<exists>w. BitBuilder_getBuffer b = Inr w \<and> buf_bits w = bb_bits b \<and> 8 * length w = bb_length b"
proof -
  let ?k = "bb_length b div 8"
  have k: "bb_length b = 8 * ?k" "?k \<le> length (bb_buffer b)"
    using assms by (auto simp: wf_bb_def bb_cap_def)
  then have "buf_subarray (bb_buffer b) 0 (int ?k) = take ?k (bb_buffer b)"
    using buf_subarray_inside [of 0 ?k "bb_buffer b"] by simp
  moreover have "buf_bits (take ?k (bb_buffer b)) = bb_bits b"
    using k by (metis bb_bits_def take_buf_bits)
  ultimately show ?thesis
    using assms k by (simp add: BitBuilder_getBuffer_def min_def)
qed

end
