(* ===== verification/Bit_Reader.thy ===== *)
theory Bit_Reader
  imports Bit_Writers
begin

text \<open>
  \<open>BitReader\<close> (ton-core/boc/BitReader.ts): a cursor over a bit string with a stack of
  checkpoints. A load returns its value and the reader with the cursor moved; a preload
  leaves the reader alone. \<open>rd_rest\<close> is the list of bits not yet read; loads are
  characterised as consuming a prefix of it, and refused when it is too short.
\<close>

section \<open>Model\<close>

record bit_reader =
  rd_bits :: bit_string
  rd_offset :: int
  rd_checkpoints :: "int list"

type_synonym 'a load = "bit_reader \<Rightarrow> ('a \<times> bit_reader) res"

definition new_BitReader :: "bit_string \<Rightarrow> int \<Rightarrow> bit_reader" where
  "new_BitReader bits offset = \<lparr>rd_bits = bits, rd_offset = offset, rd_checkpoints = []\<rparr>"

definition BitReader_remaining :: "bit_reader \<Rightarrow> int" where
  "BitReader_remaining r = int (bs_length (rd_bits r)) - rd_offset r"

definition rd_move :: "int \<Rightarrow> bit_reader \<Rightarrow> bit_reader" where \<comment> \<open>\<open>this._offset += n\<close>\<close>
  "rd_move n r = r\<lparr>rd_offset := rd_offset r + n\<rparr>"

definition BitReader_skip :: "int \<Rightarrow> bit_reader \<Rightarrow> bit_reader res" where
  "BitReader_skip bits r =
     (if bits < 0 \<or> rd_offset r + bits > int (bs_length (rd_bits r)) then Inl SkipOutOfBounds
      else Inr (rd_move bits r))"

definition BitReader_reset :: "bit_reader \<Rightarrow> bit_reader" where
  "BitReader_reset r =
     (case rd_checkpoints r of
        [] \<Rightarrow> r\<lparr>rd_offset := 0\<rparr>
      | c # cs \<Rightarrow> r\<lparr>rd_offset := last (c # cs), rd_checkpoints := butlast (c # cs)\<rparr>)"

definition BitReader_save :: "bit_reader \<Rightarrow> bit_reader" where
  "BitReader_save r = r\<lparr>rd_checkpoints := rd_checkpoints r @ [rd_offset r]\<rparr>"

definition BitReader_clone :: "bit_reader \<Rightarrow> bit_reader" where
  "BitReader_clone r = new_BitReader (rd_bits r) (rd_offset r)"

subsection \<open>The private preloads\<close>

definition BitReader_preloadUint_at :: "int \<Rightarrow> int \<Rightarrow> bit_reader \<Rightarrow> int res" where
  "BitReader_preloadUint_at bits offset r =
     (if bits = 0 then Inr 0
      else foldE (\<lambda>i res. bindE (BitString_at (rd_bits r) (offset + int i)) (\<lambda>b.
                   Inr (if b then res + push_bit (nat (bits - int i - 1)) 1 else res)))
             [0..<nat bits] 0)"

definition BitReader_preloadInt_at :: "int \<Rightarrow> int \<Rightarrow> bit_reader \<Rightarrow> int res" where
  "BitReader_preloadInt_at bits offset r =
     (if bits = 0 then Inr 0
      else bindE (BitString_at (rd_bits r) offset) (\<lambda>sign.
           bindE (foldE (\<lambda>i res. bindE (BitString_at (rd_bits r) (offset + 1 + int i)) (\<lambda>b.
                          Inr (if b then res + push_bit (nat (bits - int i - 1 - 1)) 1 else res)))
                    [0..<nat (bits - 1)] 0) (\<lambda>res.
           Inr (if sign then res - push_bit (nat (bits - 1)) 1 else res))))"

definition BitReader_preloadBuffer_at :: "int \<Rightarrow> int \<Rightarrow> bit_reader \<Rightarrow> buffer res" where
  "BitReader_preloadBuffer_at bytes offset r =
     bindE (BitString_subbuffer (rd_bits r) offset (bytes * 8)) (\<lambda>fast.
       case fast of
         Some buf \<Rightarrow> Inr buf
       | None \<Rightarrow> mapE (\<lambda>i. bindE (BitReader_preloadUint_at 8 (offset + int i * 8) r)
                            (\<lambda>v. Inr (word_of_int v))) [0..<nat bytes])"

subsection \<open>Loads and preloads\<close>

definition BitReader_preloadBit :: "bit_reader \<Rightarrow> bool res" where
  "BitReader_preloadBit r = BitString_at (rd_bits r) (rd_offset r)"

definition BitReader_loadBit :: "bool load" where
  "BitReader_loadBit r =
     bindE (BitString_at (rd_bits r) (rd_offset r)) (\<lambda>b. Inr (b, rd_move 1 r))"

definition BitReader_preloadBits :: "int \<Rightarrow> bit_reader \<Rightarrow> bit_string res" where
  "BitReader_preloadBits bits r = BitString_substring (rd_bits r) (rd_offset r) bits"

definition BitReader_loadBits :: "int \<Rightarrow> bit_string load" where
  "BitReader_loadBits bits r =
     bindE (BitString_substring (rd_bits r) (rd_offset r) bits) (\<lambda>s. Inr (s, rd_move bits r))"

definition BitReader_preloadBuffer :: "int \<Rightarrow> bit_reader \<Rightarrow> buffer res" where
  "BitReader_preloadBuffer bytes r = BitReader_preloadBuffer_at bytes (rd_offset r) r"

definition BitReader_loadBuffer :: "int \<Rightarrow> buffer load" where
  "BitReader_loadBuffer bytes r =
     bindE (BitReader_preloadBuffer_at bytes (rd_offset r) r)
       (\<lambda>buf. Inr (buf, rd_move (bytes * 8) r))"

definition BitReader_preloadUintBig :: "int \<Rightarrow> bit_reader \<Rightarrow> int res" where
  "BitReader_preloadUintBig bits r = BitReader_preloadUint_at bits (rd_offset r) r"

definition BitReader_preloadUint :: "int \<Rightarrow> bit_reader \<Rightarrow> int res" where
  "BitReader_preloadUint bits r =
     bindE (BitReader_preloadUint_at bits (rd_offset r) r) (\<lambda>v. Inr (to_number v))"

definition BitReader_loadUintBig :: "int \<Rightarrow> int load" where
  "BitReader_loadUintBig bits r =
     bindE (BitReader_preloadUintBig bits r) (\<lambda>loaded. Inr (loaded, rd_move bits r))"

definition BitReader_loadUint :: "int \<Rightarrow> int load" where
  "BitReader_loadUint bits r =
     bindE (BitReader_loadUintBig bits r) (\<lambda>(v, r). Inr (to_number v, r))"

definition BitReader_preloadIntBig :: "int \<Rightarrow> bit_reader \<Rightarrow> int res" where
  "BitReader_preloadIntBig bits r = BitReader_preloadInt_at bits (rd_offset r) r"

definition BitReader_preloadInt :: "int \<Rightarrow> bit_reader \<Rightarrow> int res" where
  "BitReader_preloadInt bits r =
     bindE (BitReader_preloadInt_at bits (rd_offset r) r) (\<lambda>v. Inr (to_number v))"

definition BitReader_loadIntBig :: "int \<Rightarrow> int load" where
  "BitReader_loadIntBig bits r =
     bindE (BitReader_preloadInt_at bits (rd_offset r) r) (\<lambda>res. Inr (res, rd_move bits r))"

definition BitReader_loadInt :: "int \<Rightarrow> int load" where
  "BitReader_loadInt bits r =
     bindE (BitReader_preloadInt_at bits (rd_offset r) r)
       (\<lambda>res. Inr (to_number res, rd_move bits r))"

definition BitReader_loadVarUintBig :: "int \<Rightarrow> int load" where
  "BitReader_loadVarUintBig bits r =
     bindE (BitReader_loadUint bits r) (\<lambda>(sz, r). BitReader_loadUintBig (sz * 8) r)"

definition BitReader_loadVarUint :: "int \<Rightarrow> int load" where
  "BitReader_loadVarUint bits r =
     bindE (BitReader_loadUint bits r) (\<lambda>(sz, r).
     bindE (BitReader_loadUintBig (sz * 8) r) (\<lambda>(v, r). Inr (to_number v, r)))"

definition BitReader_preloadVarUintBig :: "int \<Rightarrow> bit_reader \<Rightarrow> int res" where
  "BitReader_preloadVarUintBig bits r =
     bindE (BitReader_preloadUint_at bits (rd_offset r) r) (\<lambda>v.
       BitReader_preloadUint_at (to_number v * 8) (rd_offset r + bits) r)"

definition BitReader_preloadVarUint :: "int \<Rightarrow> bit_reader \<Rightarrow> int res" where
  "BitReader_preloadVarUint bits r =
     bindE (BitReader_preloadUint_at bits (rd_offset r) r) (\<lambda>v.
     bindE (BitReader_preloadUint_at (to_number v * 8) (rd_offset r + bits) r)
       (\<lambda>x. Inr (to_number x)))"

definition BitReader_loadVarIntBig :: "int \<Rightarrow> int load" where
  "BitReader_loadVarIntBig bits r =
     bindE (BitReader_loadUint bits r) (\<lambda>(sz, r). BitReader_loadIntBig (sz * 8) r)"

definition BitReader_loadVarInt :: "int \<Rightarrow> int load" where
  "BitReader_loadVarInt bits r =
     bindE (BitReader_loadUint bits r) (\<lambda>(sz, r).
     bindE (BitReader_loadIntBig (sz * 8) r) (\<lambda>(v, r). Inr (to_number v, r)))"

definition BitReader_preloadVarIntBig :: "int \<Rightarrow> bit_reader \<Rightarrow> int res" where
  "BitReader_preloadVarIntBig bits r =
     bindE (BitReader_preloadUint_at bits (rd_offset r) r) (\<lambda>v.
       BitReader_preloadInt_at (to_number v * 8) (rd_offset r + bits) r)"

definition BitReader_preloadVarInt :: "int \<Rightarrow> bit_reader \<Rightarrow> int res" where
  "BitReader_preloadVarInt bits r =
     bindE (BitReader_preloadUint_at bits (rd_offset r) r) (\<lambda>v.
     bindE (BitReader_preloadInt_at (to_number v * 8) (rd_offset r + bits) r)
       (\<lambda>x. Inr (to_number x)))"

definition BitReader_loadCoins :: "int load" where
  "BitReader_loadCoins = BitReader_loadVarUintBig 4"

definition BitReader_preloadCoins :: "bit_reader \<Rightarrow> int res" where
  "BitReader_preloadCoins = BitReader_preloadVarUintBig 4"

subsection \<open>Padded bits\<close>

text \<open>
  The \<open>while (true)\<close> loop of \<open>loadPaddedBits\<close> walks back over the zero padding to the last
  set bit. It stops at the latest when the index leaves the bit string, where \<open>at\<close> throws.
\<close>

function loadPaddedBits_loop :: "bit_reader \<Rightarrow> int \<Rightarrow> int res" where
  "loadPaddedBits_loop r len =
     bindE (BitString_at (rd_bits r) (rd_offset r + len - 1)) (\<lambda>b.
       if b then Inr (len - 1) else loadPaddedBits_loop r (len - 1))"
  by pat_completeness auto
termination
  by (relation "measure (\<lambda>(r, len). nat (rd_offset r + len))")
     (auto simp: BitString_at_def split: if_splits)

declare loadPaddedBits_loop.simps [simp del]

definition BitReader_loadPaddedBits :: "int \<Rightarrow> bit_string load" where
  "BitReader_loadPaddedBits bits r =
     (if js_rem bits 8 \<noteq> 0 then Inl InvalidPadding
      else bindE (loadPaddedBits_loop r bits) (\<lambda>len.
           bindE (BitString_substring (rd_bits r) (rd_offset r) len) (\<lambda>s.
           Inr (s, rd_move bits r))))"

subsection \<open>Addresses\<close>

definition BitReader_loadInternalAddress :: "address load" where
  "BitReader_loadInternalAddress r =
     bindE (BitReader_preloadUint_at 2 (rd_offset r) r) (\<lambda>type.
     if to_number type \<noteq> 2 then Inl InvalidAddress
     else bindE (BitReader_preloadUint_at 1 (rd_offset r + 2) r) (\<lambda>anycast.
     if anycast \<noteq> 0 then Inl InvalidAddress
     else bindE (BitReader_preloadInt_at 8 (rd_offset r + 3) r) (\<lambda>wc.
     bindE (BitReader_preloadBuffer_at 32 (rd_offset r + 11) r) (\<lambda>hash.
     bindE (new_Address (to_number wc) hash) (\<lambda>a.
     Inr (a, rd_move 267 r))))))"

definition BitReader_loadExternalAddress' :: "external_address load" where
  \<comment> \<open>the private \<open>_loadExternalAddress\<close>\<close>
  "BitReader_loadExternalAddress' r =
     bindE (BitReader_preloadUint_at 2 (rd_offset r) r) (\<lambda>type.
     if to_number type \<noteq> 1 then Inl InvalidAddress
     else bindE (BitReader_preloadUint_at 9 (rd_offset r + 2) r) (\<lambda>bits.
     bindE (BitReader_preloadUint_at (to_number bits) (rd_offset r + 11) r) (\<lambda>v.
     Inr (new_ExternalAddress v (to_number bits), rd_move (11 + to_number bits) r))))"

definition BitReader_loadAddress :: "address load" where
  "BitReader_loadAddress r =
     bindE (BitReader_preloadUint_at 2 (rd_offset r) r) (\<lambda>type.
     if to_number type = 2 then BitReader_loadInternalAddress r else Inl InvalidAddress)"

definition BitReader_loadMaybeAddress :: "address option load" where
  "BitReader_loadMaybeAddress r =
     bindE (BitReader_preloadUint_at 2 (rd_offset r) r) (\<lambda>type.
     if to_number type = 0 then Inr (None, rd_move 2 r)
     else if to_number type = 2
     then bindE (BitReader_loadInternalAddress r) (\<lambda>(a, r). Inr (Some a, r))
     else Inl InvalidAddress)"

definition BitReader_loadExternalAddress :: "external_address load" where
  "BitReader_loadExternalAddress r =
     bindE (BitReader_preloadUint_at 2 (rd_offset r) r) (\<lambda>type.
     if to_number type = 1 then BitReader_loadExternalAddress' r else Inl InvalidAddress)"

definition BitReader_loadMaybeExternalAddress :: "external_address option load" where
  "BitReader_loadMaybeExternalAddress r =
     bindE (BitReader_preloadUint_at 2 (rd_offset r) r) (\<lambda>type.
     if to_number type = 0 then Inr (None, rd_move 2 r)
     else if to_number type = 1
     then bindE (BitReader_loadExternalAddress' r) (\<lambda>(a, r). Inr (Some a, r))
     else Inl InvalidAddress)"

definition BitReader_loadAddressAny :: "any_address option load" where
  "BitReader_loadAddressAny r =
     bindE (BitReader_preloadUint_at 2 (rd_offset r) r) (\<lambda>type.
     if to_number type = 0 then Inr (None, rd_move 2 r)
     else if to_number type = 2
     then bindE (BitReader_loadInternalAddress r) (\<lambda>(a, r). Inr (Some (Internal a), r))
     else if to_number type = 1
     then bindE (BitReader_loadExternalAddress' r) (\<lambda>(a, r). Inr (Some (External a), r))
     else Inl UnsupportedAddress)"

section \<open>Abstraction\<close>

definition rd_ok :: "bit_reader \<Rightarrow> bool" where
  "rd_ok r \<longleftrightarrow> 0 \<le> rd_offset r \<and> rd_offset r \<le> int (bs_length (rd_bits r)) \<and> wf_bs (rd_bits r)"

definition rd_rest :: "bit_reader \<Rightarrow> bool list" where
  "rd_rest r = drop (nat (rd_offset r)) (bs_bits (rd_bits r))"

text \<open>\<open>reads m r x n\<close>: the load \<open>m\<close>, started on \<open>r\<close>, returns \<open>x\<close> and has consumed \<open>n\<close> bits.\<close>

definition reads :: "'a load \<Rightarrow> bit_reader \<Rightarrow> 'a \<Rightarrow> nat \<Rightarrow> bool" where
  "reads m r x n \<longleftrightarrow> m r = Inr (x, rd_move (int n) r)"

lemma rd_move_simps [simp]:
  "rd_bits (rd_move n r) = rd_bits r"
  "rd_offset (rd_move n r) = rd_offset r + n"
  "rd_checkpoints (rd_move n r) = rd_checkpoints r"
  by (simp_all add: rd_move_def)

lemma rd_move_move [simp]: "rd_move m (rd_move n r) = rd_move (n + m) r"
  by (simp add: rd_move_def)

lemma rd_move_0 [simp]: "rd_move 0 r = r"
  by (simp add: rd_move_def)

lemma length_rd_rest: "rd_ok r \<Longrightarrow> int (length (rd_rest r)) = BitReader_remaining r"
  by (simp add: rd_ok_def rd_rest_def BitReader_remaining_def of_nat_diff nat_le_iff)

lemma rd_ok_move: "rd_ok r \<Longrightarrow> n \<le> length (rd_rest r) \<Longrightarrow> rd_ok (rd_move (int n) r)"
  by (auto simp: rd_ok_def rd_rest_def)

lemma rd_rest_move: "rd_ok r \<Longrightarrow> rd_rest (rd_move (int n) r) = drop n (rd_rest r)"
  by (simp add: rd_ok_def rd_rest_def nat_add_distrib add.commute)

lemma rd_ok_new: "wf_bs s \<Longrightarrow> rd_ok (new_BitReader s 0)"
  by (simp add: rd_ok_def new_BitReader_def)

lemma rd_rest_new: "rd_rest (new_BitReader s 0) = bs_bits s"
  by (simp add: rd_rest_def new_BitReader_def)

lemma rd_at:
  assumes "rd_ok r"
  shows "BitString_at (rd_bits r) (rd_offset r + int i) =
     (if i < length (rd_rest r) then Inr (rd_rest r ! i) else Inl IndexOutOfBounds)"
proof -
  let ?p = "nat (rd_offset r) + i"
  have p: "rd_offset r + int i = int ?p" "nat (rd_offset r) \<le> bs_length (rd_bits r)"
    using assms by (auto simp: rd_ok_def)
  show ?thesis
    unfolding p(1) BitString_at_nth using p(2)
    by (auto simp: rd_rest_def less_diff_conv2 add.commute)
qed

lemma reads_bind:
  assumes "reads m r x n" "f (x, rd_move (int n) r) = g (rd_move (int n) r)"
    and "reads g (rd_move (int n) r) y k"
  shows "reads (\<lambda>r. bindE (m r) f) r y (n + k)"
  using assms by (simp add: reads_def)

section \<open>The loads read the reference values\<close>

lemma foldE_bits_val:
  assumes "\<And>i. i < n \<Longrightarrow> at i = Inr (bs ! i)" "length bs = n"
  shows "foldE (\<lambda>i res. bindE (at i) (\<lambda>b.
           Inr (if b then res + push_bit (nat (int n - int i - 1)) 1 else res))) [0..<n] a
         = Inr (a + val_be bs)"
proof -
  let ?f = "\<lambda>i res. bindE (at i) (\<lambda>b.
           Inr (if b then res + push_bit (nat (int n - int i - 1)) 1 else res))"
  have "foldE ?f [k..<n] a = Inr (a + val_be (drop k bs))" if "k \<le> n" for k a
    using that
  proof (induction "n - k" arbitrary: k a)
    case 0
    then show ?case using assms(2) by simp
  next
    case (Suc m)
    then have k: "k < n" by simp
    then have "[k..<n] = k # [Suc k..<n]" by (simp add: upt_conv_Cons)
    moreover have "drop k bs = bs ! k # drop (Suc k) bs" using k assms(2) by (simp add: Cons_nth_drop_Suc)
    moreover have "nat (int n - int k - 1) = n - Suc k" using k by linarith
    ultimately show ?case
      using Suc k assms by (simp add: val_be_Cons push_bit_eq_mult)
  qed
  from this [of 0 a] show ?thesis by simp
qed

lemma foldE_stops:
  assumes "k < n" "\<And>s. f k s = Inl e" "\<And>i s. i < k \<Longrightarrow> \<exists>t. f i s = Inr t"
  shows "foldE f [0..<n] s = Inl e"
proof -
  have "\<exists>t. foldE f [0..<k] s = Inr t" using assms(3)
  proof (induction k)
    case (Suc k)
    then obtain t where t: "foldE f [0..<k] s = Inr t" by fastforce
    from Suc.prems [of k] obtain u where "f k t = Inr u" by auto
    with t show ?case by (simp add: foldE_append)
  qed simp
  then obtain t where t: "foldE f [0..<k] s = Inr t" ..
  have "[0..<n] = [0..<k] @ k # [Suc k..<n]"
    using assms(1) upt_add_eq_append [of 0 k "n - k"] by (simp add: upt_conv_Cons)
  with t assms(2) show ?thesis by (simp add: foldE_append)
qed

lemma preloadUint_ok:
  assumes "rd_ok r" "k + n \<le> length (rd_rest r)"
  shows "BitReader_preloadUint_at (int n) (rd_offset r + int k) r =
     Inr (val_be (take n (drop k (rd_rest r))))"
proof (cases "n = 0")
  case False
  have "BitString_at (rd_bits r) (rd_offset r + int k + int i) = Inr (take n (drop k (rd_rest r)) ! i)"
    if "i < n" for i
    using rd_at [OF assms(1), of "k + i"] that assms(2) by (simp add: add.assoc)
  from foldE_bits_val [of n, OF this] assms(2) False show ?thesis
    by (simp add: BitReader_preloadUint_at_def)
qed (simp add: BitReader_preloadUint_at_def)

lemma preloadUint_short:
  assumes "rd_ok r" "length (rd_rest r) < k + n" "k \<le> length (rd_rest r)"
  shows "BitReader_preloadUint_at (int n) (rd_offset r + int k) r = Inl IndexOutOfBounds"
proof -
  let ?m = "length (rd_rest r) - k"
  have at: "BitString_at (rd_bits r) (rd_offset r + int k + int i) =
      (if i < ?m then Inr (rd_rest r ! (k + i)) else Inl IndexOutOfBounds)" for i
    using rd_at [OF assms(1), of "k + i"] assms(3) by (auto simp: add.assoc)
  have "n \<noteq> 0" "?m < n" using assms(2,3) by auto
  then show ?thesis
    by (auto simp: BitReader_preloadUint_at_def at intro!: foldE_stops [of ?m])
qed

lemma preloadInt_ok:
  assumes "rd_ok r" "k + n \<le> length (rd_rest r)" "0 < n"
    and "rd_rest r = pre @ bits_be n v @ post" "length pre = k" "int_range n v"
  shows "BitReader_preloadInt_at (int n) (rd_offset r + int k) r = Inr v"
proof -
  obtain m where m: "n = Suc m" using assms(3) by (cases n) auto
  let ?w = "if v < 0 then 2 ^ m + v else v"
  have rest: "rd_rest r = pre @ (v < 0) # bits_be m ?w @ post"
    using assms(4,6) m bits_be_sign [of m v] by simp
  have sign: "BitString_at (rd_bits r) (rd_offset r + int k) = Inr (v < 0)"
    using rd_at [OF assms(1), of k] rest by (simp flip: assms(5))
  have at: "BitString_at (rd_bits r) (rd_offset r + int k + 1 + int i) = Inr (bits_be m ?w ! i)"
    if "i < m" for i
    using rd_at [OF assms(1), of "k + 1 + i"] that assms(5)
    by (simp add: rest nth_append algebra_simps)
  have i: "nat (int n - 1) = m" "\<And>i. int n - int i - 1 - 1 = int m - int i - 1" "int n \<noteq> 0"
    using m by simp_all
  have "- (2 ^ m) \<le> v" "v < 2 ^ m" using assms(6) m by (auto simp: int_range_def)
  then show ?thesis
    unfolding BitReader_preloadInt_at_def i sign
    using foldE_bits_val [of m, OF at] i(3) by (auto simp: val_be_bits_be_id push_bit_eq_mult)
qed

end
