(* ===== verification/Bit_Codec.thy ===== *)
theory Bit_Codec
  imports Bit_Reader
begin

text \<open>
  The contract between the writers of BitBuilder.ts and the loads of BitReader.ts, stated as
  the locale \<open>bit_codec\<close> (an encoding that the writer appends and the load consumes), the
  round trips proved once from it, and its interpretations on the pairs of the code:
  bits, unsigned and signed integers, var-ints, coins, byte buffers and addresses.
\<close>

section \<open>The loads consume the encodings\<close>

lemma rd_rest_split:
  assumes "rd_ok r" "rd_rest r = xs @ ys"
  shows "rd_ok (rd_move (int (length xs)) r)" "rd_rest (rd_move (int (length xs)) r) = ys"
  using assms by (simp_all add: rd_ok_move rd_rest_move)

lemma rd_rest_bound: "rd_ok r \<Longrightarrow> length (rd_rest r) < 2 ^ 31"
  by (auto simp: rd_ok_def rd_rest_def wf_bs_def)

lemma loadBit_ok:
  assumes "rd_ok r" "rd_rest r = b # ys"
  shows "BitReader_loadBit r = Inr (b, rd_move 1 r)" "BitReader_preloadBit r = Inr b"
  using rd_at [OF assms(1), of 0] assms(2)
  by (simp_all add: BitReader_loadBit_def BitReader_preloadBit_def)

lemma loadBit_empty:
  assumes "rd_ok r" "rd_rest r = []"
  shows "BitReader_loadBit r = Inl IndexOutOfBounds"
  using rd_at [OF assms(1), of 0] assms(2) by (simp add: BitReader_loadBit_def)

lemma preloadUint_at_ok:
  assumes "rd_ok r" "rd_rest r = pre @ bits_be n v @ ys" "0 \<le> v" "v < 2 ^ n"
  shows "BitReader_preloadUint_at (int n) (rd_offset r + int (length pre)) r = Inr v"
  using preloadUint_ok [OF assms(1), of "length pre" n] assms(2-4) by (simp add: val_be_bits_be_id)

lemma loadUintBig_ok:
  assumes "rd_ok r" "rd_rest r = bits_be n v @ ys" "0 \<le> v" "v < 2 ^ n"
  shows "BitReader_loadUintBig (int n) r = Inr (v, rd_move (int n) r)"
  using preloadUint_at_ok [of r "[]"] assms
  by (simp add: BitReader_loadUintBig_def BitReader_preloadUintBig_def)

lemma loadUint_ok:
  assumes "rd_ok r" "rd_rest r = bits_be n v @ ys" "0 \<le> v" "v < 2 ^ n" "v < 2 ^ 53"
  shows "BitReader_loadUint (int n) r = Inr (v, rd_move (int n) r)"
  using loadUintBig_ok [of r n v] assms by (simp add: BitReader_loadUint_def to_number_id)

text \<open>Any \<open>n\<close> bits can be loaded, and fewer are refused.\<close>

lemma loadUintBig_total:
  assumes "rd_ok r" "n \<le> length (rd_rest r)"
  shows "BitReader_loadUintBig (int n) r = Inr (val_be (take n (rd_rest r)), rd_move (int n) r)"
  using preloadUint_ok [OF assms(1), of 0 n] assms(2)
  by (simp add: BitReader_loadUintBig_def BitReader_preloadUintBig_def)

lemma loadUintBig_short:
  assumes "rd_ok r" "length (rd_rest r) < n"
  shows "BitReader_loadUintBig (int n) r = Inl IndexOutOfBounds"
  using preloadUint_short [OF assms(1), of 0 n] assms(2)
  by (simp add: BitReader_loadUintBig_def BitReader_preloadUintBig_def)

lemma loadIntBig_ok:
  assumes "rd_ok r" "rd_rest r = bits_be n v @ ys" "0 < n" "int_range n v"
  shows "BitReader_loadIntBig (int n) r = Inr (v, rd_move (int n) r)"
  using preloadInt_ok [of r 0 n "[]" v ys] assms by (simp add: BitReader_loadIntBig_def)

lemma preloadBuffer_total:
  assumes "rd_ok r" "k + 8 * n \<le> length (rd_rest r)"
  shows "BitReader_preloadBuffer_at (int n) (rd_offset r + int k) r =
     Inr (bytes_of_bits (take (8 * n) (drop k (rd_rest r))))"
proof -
  let ?i = "nat (rd_offset r) + k"
  have p: "rd_offset r + int k = int ?i" "wf_bs (rd_bits r)" "?i + 8 * n \<le> bs_length (rd_bits r)"
    "drop k (rd_rest r) = drop ?i (bs_bits (rd_bits r))"
    using assms by (auto simp: rd_ok_def rd_rest_def add.commute)
  have sub: "BitString_subbuffer (rd_bits r) (rd_offset r + int k) (int n * 8) =
      Inr (if (bs_offset (rd_bits r) + (rd_offset r + int k)) mod 8 = 0
           then Some (bytes_of_bits (take (8 * n) (drop k (rd_rest r)))) else None)"
    using BitString_subbuffer_ok [OF p(2,3)] unfolding p(1,4) by (simp add: mult.commute)
  have slow: "mapE (\<lambda>i. bindE (BitReader_preloadUint_at 8 (rd_offset r + int k + int i * 8) r)
        (\<lambda>v. Inr (word_of_int v))) [0..<n] = Inr (bytes_of_bits (take (8 * n) (drop k (rd_rest r))))"
  proof -
    have "BitReader_preloadUint_at 8 (rd_offset r + int k + int i * 8) r =
        Inr (val_be (take 8 (drop (8 * i) (take (8 * n) (drop k (rd_rest r))))))" if "i < n" for i
      using preloadUint_ok [OF assms(1), of "k + 8 * i" 8] that assms(2)
      by (simp add: algebra_simps drop_take min_def)
    then show ?thesis
      using assms(2) by (subst mapE_Inr) (auto simp: bytes_of_bits_def)
  qed
  show ?thesis
    by (simp add: BitReader_preloadBuffer_at_def sub slow)
qed

lemma loadBuffer_ok:
  assumes "rd_ok r" "rd_rest r = buf_bits w @ ys"
  shows "BitReader_loadBuffer (int (length w)) r = Inr (w, rd_move (int (8 * length w)) r)"
  using preloadBuffer_total [OF assms(1), of 0 "length w"] assms(2)
  by (simp add: BitReader_loadBuffer_def mult.commute)

lemma loadBits_ok:
  assumes "rd_ok r" "n \<le> length (rd_rest r)"
  shows "\<exists>s. BitReader_loadBits (int n) r = Inr (s, rd_move (int n) r) \<and>
     bs_bits s = take n (rd_rest r) \<and> wf_bs s"
proof -
  have "nat (rd_offset r) + n \<le> bs_length (rd_bits r)" "int (nat (rd_offset r)) = rd_offset r"
    "wf_bs (rd_bits r)"
    using assms by (auto simp: rd_ok_def rd_rest_def)
  with BitString_substring_ok [of "nat (rd_offset r)" n "rd_bits r"]
  show ?thesis by (auto simp: BitReader_loadBits_def rd_rest_def)
qed

lemma loadVarUintBig_ok:
  assumes "rd_ok r" "rd_rest r = enc_var_uint n v @ ys" "0 \<le> v" "int (size_bytes v) < 2 ^ n"
  shows "BitReader_loadVarUintBig (int n) r = Inr (v, rd_move (int (length (enc_var_uint n v))) r)"
proof (cases "v = 0")
  case True
  with assms loadUint_ok [of r n 0 ys] show ?thesis
    by (simp add: BitReader_loadVarUintBig_def enc_var_uint_def BitReader_loadUintBig_def
        BitReader_preloadUintBig_def BitReader_preloadUint_at_def)
next
  case False
  let ?k = "size_bytes v" and ?r = "rd_move (int n) r"
  have rest: "rd_rest r = bits_be n (int ?k) @ bits_be (8 * ?k) v @ ys"
    using assms(2) False by (simp add: enc_var_uint_def)
  have "?k < 2 ^ 53" using rd_rest_bound [OF assms(1)] rest by simp
  then have "int ?k < 2 ^ 53" by (metis of_nat_less_iff of_nat_numeral of_nat_power)
  then have "BitReader_loadUint (int n) r = Inr (int ?k, ?r)"
    using loadUint_ok [OF assms(1) rest] assms(4) by simp
  moreover have "BitReader_loadUintBig (int (8 * ?k)) ?r = Inr (v, rd_move (int (8 * ?k)) ?r)"
    using rd_rest_split [OF assms(1) rest] assms(3) size_bytes_bound [of v]
    by (intro loadUintBig_ok) auto
  ultimately show ?thesis
    using False by (simp add: BitReader_loadVarUintBig_def length_enc_var_uint mult.commute)
qed

lemma loadVarIntBig_ok:
  assumes "rd_ok r" "rd_rest r = enc_var_int n v @ ys" "int (Suc (size_bytes v)) < 2 ^ n"
  shows "BitReader_loadVarIntBig (int n) r = Inr (v, rd_move (int (length (enc_var_int n v))) r)"
proof (cases "v = 0")
  case True
  with assms loadUint_ok [of r n 0 ys] show ?thesis
    by (simp add: BitReader_loadVarIntBig_def enc_var_int_def BitReader_loadIntBig_def
        BitReader_preloadInt_at_def)
next
  case False
  let ?k = "Suc (size_bytes v)" and ?r = "rd_move (int n) r"
  have rest: "rd_rest r = bits_be n (int ?k) @ bits_be (8 * ?k) v @ ys"
    using assms(2) False by (simp add: enc_var_int_def)
  have "?k < 2 ^ 53" using rd_rest_bound [OF assms(1)] rest by simp
  then have "int ?k < 2 ^ 53" by (metis of_nat_less_iff of_nat_numeral of_nat_power)
  then have "BitReader_loadUint (int n) r = Inr (int ?k, ?r)"
    using loadUint_ok [OF assms(1) rest] assms(3) by simp
  moreover have "BitReader_loadIntBig (int (8 * ?k)) ?r = Inr (v, rd_move (int (8 * ?k)) ?r)"
    using rd_rest_split [OF assms(1) rest] int_range_size [of v]
    by (intro loadIntBig_ok) auto
  ultimately show ?thesis
    using False by (simp add: BitReader_loadVarIntBig_def length_enc_var_int mult.commute)
qed

section \<open>Addresses\<close>

lemma address_type:
  assumes "rd_ok r" "rd_rest r = bits_be 2 t @ ys" "0 \<le> t" "t < 4"
  shows "BitReader_preloadUint_at 2 (rd_offset r) r = Inr t" "to_number t = t"
  using preloadUint_at_ok [of r "[]" 2 t ys] assms by (simp_all add: to_number_id)

lemma loadInternalAddress_ok:
  assumes "rd_ok r" "rd_rest r = enc_std_address a @ ys" "valid_std a"
  shows "BitReader_loadInternalAddress r = Inr (a, rd_move 267 r)"
proof -
  have v: "int_range 8 (workChain a)" "length (addr_hash a) = 32"
    using assms(3) by (simp_all add: valid_std_def)
  have rest: "rd_rest r = bits_be 2 2 @ bits_be 1 0 @ bits_be 8 (workChain a) @ buf_bits (addr_hash a) @ ys"
    using assms(2) by (simp add: enc_std_address_def)
  have any: "BitReader_preloadUint_at 1 (rd_offset r + 2) r = Inr 0"
    using preloadUint_at_ok [OF assms(1), of "bits_be 2 2" 1 0] rest by simp
  have wc: "BitReader_preloadInt_at 8 (rd_offset r + 3) r = Inr (workChain a)"
    using preloadInt_ok [OF assms(1), of 3 8 "bits_be 2 2 @ bits_be 1 0" "workChain a"] rest v by simp
  have hash: "BitReader_preloadBuffer_at 32 (rd_offset r + 11) r = Inr (addr_hash a)"
    using preloadBuffer_total [OF assms(1), of 11 32] rest v by simp
  have "to_number (workChain a) = workChain a"
    using v(1) by (intro to_number_id) (auto simp: int_range_def)
  then show ?thesis
    using address_type [OF assms(1) rest] any wc hash v
    by (simp add: BitReader_loadInternalAddress_def new_Address_def)
qed

lemma loadExternalAddress'_ok:
  assumes "rd_ok r" "rd_rest r = enc_ext_address a @ ys" "valid_ext a"
  shows "BitReader_loadExternalAddress' r = Inr (a, rd_move (11 + ext_bits a) r)"
proof -
  let ?n = "nat (ext_bits a)"
  have v: "0 \<le> ext_bits a" "ext_bits a < 512" "0 \<le> ext_value a" "ext_value a < 2 ^ ?n"
    using assms(3) by (simp_all add: valid_ext_def)
  have rest: "rd_rest r = bits_be 2 1 @ bits_be 9 (ext_bits a) @ bits_be ?n (ext_value a) @ ys"
    using assms(2) by (simp add: enc_ext_address_def)
  have "BitReader_preloadUint_at 9 (rd_offset r + 2) r = Inr (ext_bits a)"
    using preloadUint_at_ok [OF assms(1), of "bits_be 2 1" 9 "ext_bits a"] rest v by simp
  moreover have "BitReader_preloadUint_at (ext_bits a) (rd_offset r + 11) r = Inr (ext_value a)"
    using preloadUint_at_ok [OF assms(1), of "bits_be 2 1 @ bits_be 9 (ext_bits a)" ?n "ext_value a"] rest v
    by simp
  moreover have "to_number (ext_bits a) = ext_bits a" using v by (intro to_number_id) auto
  ultimately show ?thesis
    using address_type [OF assms(1) rest]
    by (simp add: BitReader_loadExternalAddress'_def new_ExternalAddress_def)
qed

lemma loadAddress_ok:
  assumes "rd_ok r" "rd_rest r = enc_std_address a @ ys" "valid_std a"
  shows "BitReader_loadAddress r = Inr (a, rd_move 267 r)"
  using loadInternalAddress_ok [OF assms] address_type [OF assms(1), of 2] assms(2)
  by (simp add: BitReader_loadAddress_def enc_std_address_def)

lemma loadAddressAny_ok:
  assumes "rd_ok r" "rd_rest r = enc_address a @ ys" "valid_address a"
  shows "BitReader_loadAddressAny r = Inr (a, rd_move (int (length (enc_address a))) r)"
proof (cases a)
  case None
  with assms address_type [OF assms(1), of 0] show ?thesis
    by (simp add: BitReader_loadAddressAny_def)
next
  case (Some x)
  show ?thesis
  proof (cases x)
    case (Internal i)
    with assms Some loadInternalAddress_ok [of r i ys] address_type [OF assms(1), of 2] length_enc_std [of i]
    show ?thesis by (simp add: BitReader_loadAddressAny_def enc_std_address_def)
  next
    case (External e)
    then have "0 \<le> ext_bits e" using assms(3) Some by (simp add: valid_ext_def)
    with External assms Some loadExternalAddress'_ok [of r e ys] address_type [OF assms(1), of 1]
    show ?thesis by (simp add: BitReader_loadAddressAny_def enc_ext_address_def)
  qed
qed

text \<open>The optional internal address: \<open>null\<close> for the two-bit empty address.\<close>

lemma loadMaybeAddress_ok:
  assumes "rd_ok r" "rd_rest r = enc_address (map_option Internal a) @ ys"
    and "\<And>x. a = Some x \<Longrightarrow> valid_std x"
  shows "BitReader_loadMaybeAddress r =
     Inr (a, rd_move (int (length (enc_address (map_option Internal a)))) r)"
proof (cases a)
  case None
  with assms address_type [OF assms(1), of 0] show ?thesis
    by (simp add: BitReader_loadMaybeAddress_def)
next
  case (Some i)
  with assms loadInternalAddress_ok [of r i ys] address_type [OF assms(1), of 2] length_enc_std [of i]
  show ?thesis by (simp add: BitReader_loadMaybeAddress_def enc_std_address_def)
qed

lemma loadMaybeExternalAddress_ok:
  assumes "rd_ok r" "rd_rest r = enc_address (map_option External a) @ ys"
    and "\<And>x. a = Some x \<Longrightarrow> valid_ext x"
  shows "BitReader_loadMaybeExternalAddress r =
     Inr (a, rd_move (int (length (enc_address (map_option External a)))) r)"
proof (cases a)
  case None
  with assms address_type [OF assms(1), of 0] show ?thesis
    by (simp add: BitReader_loadMaybeExternalAddress_def)
next
  case (Some e)
  then have "0 \<le> ext_bits e" using assms(3) by (simp add: valid_ext_def)
  with Some assms loadExternalAddress'_ok [of r e ys] address_type [OF assms(1), of 1]
  show ?thesis by (simp add: BitReader_loadMaybeExternalAddress_def enc_ext_address_def)
qed

text \<open>Any other address type is refused by \<open>loadAddress\<close>.\<close>

lemma loadAddress_type_error:
  assumes "rd_ok r" "rd_rest r = bits_be 2 t @ ys" "0 \<le> t" "t < 4" "t \<noteq> 2"
  shows "BitReader_loadAddress r = Inl InvalidAddress"
  using address_type [OF assms(1-4)] assms(5) by (simp add: BitReader_loadAddress_def)

section \<open>The contract of a codec\<close>

text \<open>Reading a sequence of values with one load.\<close>

fun get_list :: "'v load \<Rightarrow> nat \<Rightarrow> 'v list load" where
  "get_list get 0 r = Inr ([], r)"
| "get_list get (Suc n) r =
     bindE (get r) (\<lambda>(v, r). bindE (get_list get n r) (\<lambda>(vs, r). Inr (v # vs, r)))"

locale bit_codec =
  fixes put :: "'v \<Rightarrow> bit_builder \<Rightarrow> bit_builder res"
    and get :: "'v load"
    and enc :: "'v \<Rightarrow> bool list"
    and valid :: "'v \<Rightarrow> bool"
  assumes put_ok: "valid v \<Longrightarrow> fits b (length (enc v)) \<Longrightarrow> writes (put v b) b (enc v)"
    and get_ok: "valid v \<Longrightarrow> rd_ok r \<Longrightarrow> rd_rest r = enc v @ ys \<Longrightarrow> reads get r v (length (enc v))"
begin

text \<open>What was written after \<open>pre\<close> and before \<open>post\<close> is read back from its position.\<close>

lemma read_back:
  assumes "valid v" "wf_bb b" "bb_bits b = pre @ enc v @ post"
  shows "\<exists>s. BitBuilder_build b = Inr s \<and>
    get (new_BitReader s (int (length pre))) =
      Inr (v, new_BitReader s (int (length pre + length (enc v))))"
proof -
  obtain s where s: "BitBuilder_build b = Inr s" "bs_bits s = bb_bits b" "wf_bs s"
    using build_ok [OF assms(2)] by blast
  let ?r = "new_BitReader s (int (length pre))"
  have "length pre \<le> bs_length s"
    using s(2) assms(3) length_bs_bits [of s] by simp
  then have "rd_ok ?r" "rd_rest ?r = enc v @ post"
    using s assms(3) by (simp_all add: rd_ok_def rd_rest_def new_BitReader_def)
  from get_ok [OF assms(1) this] show ?thesis
    using s(1) by (simp add: reads_def rd_move_def new_BitReader_def)
qed

lemma roundtrip:
  assumes "valid v" "length (enc v) \<le> n" "n < 2 ^ 31 - 8"
  shows "\<exists>b s. put v (new_BitBuilder n) = Inr b \<and> BitBuilder_build b = Inr s \<and>
    get (new_BitReader s 0) = Inr (v, new_BitReader s (int (length (enc v))))"
proof -
  have "fits (new_BitBuilder n) (length (enc v))"
    using wf_new_BitBuilder [OF assms(3)] assms(2) by (simp add: fits_def new_BitBuilder_def)
  then obtain b where b: "put v (new_BitBuilder n) = Inr b" "appends (new_BitBuilder n) b (enc v)"
    using put_ok [OF assms(1)] by (auto simp: writes_def)
  then have "wf_bb b" "bb_bits b = [] @ enc v @ []"
    using wf_new_BitBuilder(2) [OF assms(3)] by (simp_all add: appends_def)
  from read_back [OF assms(1) this] b(1) show ?thesis by auto
qed

text \<open>A value followed by any bits determines both: the encoding is uniquely decodable.\<close>

lemma unique_decoding:
  assumes "valid v" "valid w" "rd_ok r" "rd_rest r = enc v @ xs" "rd_rest r = enc w @ ys"
  shows "v = w \<and> xs = ys"
  using get_ok [OF assms(1,3,4)] get_ok [OF assms(2,3,5)] assms(4,5)
  by (auto simp: reads_def rd_move_def dest: arg_cong [where f = rd_offset])

text \<open>A sequence of values: writing them in order and reading as many gives them back.\<close>

lemma put_list:
  assumes "\<forall>v \<in> set vs. valid v" "fits b (length (concat (map enc vs)))"
  shows "writes (foldE put vs b) b (concat (map enc vs))"
  using assms by (intro writes_foldE) (auto intro: put_ok)

lemma get_list_ok:
  assumes "\<forall>v \<in> set vs. valid v" "rd_ok r" "rd_rest r = concat (map enc vs) @ ys"
  shows "reads (get_list get (length vs)) r vs (length (concat (map enc vs)))"
  using assms
proof (induction vs arbitrary: r)
  case Nil
  then show ?case by (simp add: reads_def)
next
  case (Cons v vs)
  let ?r = "rd_move (int (length (enc v))) r"
  have v: "get r = Inr (v, ?r)"
    using get_ok [of v r] Cons.prems by (simp add: reads_def)
  have "rd_ok ?r" "rd_rest ?r = concat (map enc vs) @ ys"
    using rd_rest_split [of r "enc v"] Cons.prems by simp_all
  with Cons v show ?case by (simp add: reads_def)
qed

end

section \<open>The codecs of the code\<close>

interpretation bit_c: bit_codec "\<lambda>v. BitBuilder_writeBit (BitBool v)" BitReader_loadBit "\<lambda>v. [v]" "\<lambda>_. True"
proof unfold_locales
  fix v :: bool and b assume "fits b (length [v])"
  then show "writes (BitBuilder_writeBit (BitBool v) b) b [v]"
    using writes_bit [of b "BitBool v"] by simp
qed (simp add: reads_def loadBit_ok)

interpretation uint_c: bit_codec "\<lambda>v. BitBuilder_writeUint (Big v) (int n)" "BitReader_loadUintBig (int n)"
  "bits_be n" "\<lambda>v. 0 \<le> v \<and> v < 2 ^ n" for n
  by unfold_locales (auto simp: reads_def intro!: writes_uint loadUintBig_ok)

interpretation int_c: bit_codec "\<lambda>v. BitBuilder_writeInt (Big v) (int n)" "BitReader_loadIntBig (int n)"
  "bits_be n" "\<lambda>v. 0 < n \<and> int_range n v" for n
proof unfold_locales
  fix v b assume "0 < n \<and> int_range n v" "fits b (length (bits_be n v))"
  then show "writes (BitBuilder_writeInt (Big v) (int n) b) b (bits_be n v)"
    by (intro writes_int) auto
qed (auto simp: reads_def intro!: loadIntBig_ok)

interpretation var_uint_c: bit_codec "\<lambda>v. BitBuilder_writeVarUint (Big v) (int n)"
  "BitReader_loadVarUintBig (int n)" "enc_var_uint n" "\<lambda>v. 0 \<le> v \<and> int (size_bytes v) < 2 ^ n" for n
  by unfold_locales (auto simp: reads_def intro!: writes_var_uint loadVarUintBig_ok)

interpretation var_int_c: bit_codec "\<lambda>v. BitBuilder_writeVarInt (Big v) (int n)"
  "BitReader_loadVarIntBig (int n)" "enc_var_int n" "\<lambda>v. int (Suc (size_bytes v)) < 2 ^ n" for n
  by unfold_locales (auto simp: reads_def intro!: writes_var_int loadVarIntBig_ok)

interpretation coins_c: bit_codec "\<lambda>v. BitBuilder_writeCoins (Big v)" BitReader_loadCoins
  "enc_var_uint 4" valid_coins
proof unfold_locales
  fix v b assume "valid_coins v" "fits b (length (enc_var_uint 4 v))"
  then show "writes (BitBuilder_writeCoins (Big v) b) b (enc_var_uint 4 v)"
    by (intro writes_coins) auto
next
  fix v r ys assume v: "valid_coins v" "rd_ok r" "rd_rest r = enc_var_uint 4 v @ ys"
  then show "reads BitReader_loadCoins r v (length (enc_var_uint 4 v))"
    using var_uint_c.get_ok [of v 4 r ys] size_bytes_coins [of v]
    by (simp add: BitReader_loadCoins_def valid_coins_def)
qed

interpretation buffer_c: bit_codec BitBuilder_writeBuffer "BitReader_loadBuffer (int n)" buf_bits
  "\<lambda>w. length w = n" for n
  by unfold_locales (auto simp: reads_def loadBuffer_ok intro!: writes_buffer)

interpretation address_c: bit_codec "\<lambda>a. BitBuilder_writeAddress (Some (Internal a))"
  BitReader_loadAddress enc_std_address valid_std
proof unfold_locales
  fix a b assume "valid_std a" "fits b (length (enc_std_address a))"
  then show "writes (BitBuilder_writeAddress (Some (Internal a)) b) b (enc_std_address a)"
    using writes_address [of "Some (Internal a)" b] by simp
qed (simp add: reads_def loadAddress_ok length_enc_std)

interpretation any_address_c: bit_codec BitBuilder_writeAddress BitReader_loadAddressAny
  enc_address valid_address
  by unfold_locales (auto simp: reads_def intro!: writes_address loadAddressAny_ok)

end
