(* ===== verification/Padded_Bits.thy ===== *)
theory Padded_Bits
  imports Bit_Codec
begin

text \<open>
  The padded form of a bit string (ton-core/boc/utils/paddedBits.ts, \<open>BitString.toString\<close> and
  \<open>BitReader.loadPaddedBits\<close>): a run that does not end on a byte is completed by a single 1
  and zeros. The three ways the code undoes the padding are shown to recover the run.
\<close>

section \<open>Model\<close>

definition bitsToPaddedBuffer :: "bit_string \<Rightarrow> buffer res" where
  "bitsToPaddedBuffer bits =
     (let total = nat (ceil8 (int (bs_length bits)) * 8);
          padding = total - bs_length bits
      in bindE (BitBuilder_writeBits bits (new_BitBuilder total)) (\<lambda>b.
         bindE (foldE (\<lambda>i b. if i = 0 then BitBuilder_writeBit (BitNum 1) b
                              else BitBuilder_writeBit (BitNum 0) b) [0..<padding] b) (\<lambda>b.
         BitBuilder_getBuffer b)))"

text \<open>
  \<open>paddedBufferToBits\<close> looks for the rightmost non-zero byte; \<open>n\<close> counts the bytes still to
  be inspected, so the byte at hand is \<open>n - 1\<close>. \<open>bitPos\<close> is the position, from 1, of the
  lowest set bit of that byte.
\<close>

fun paddedBufferToBits_len :: "buffer \<Rightarrow> nat \<Rightarrow> int" where
  "paddedBufferToBits_len buff 0 = 0"
| "paddedBufferToBits_len buff (Suc i) =
     (if buff ! i \<noteq> 0
      then let testByte = uint (buff ! i);
               bitPos0 = testByte AND (- testByte);
               bitPos = (if bitPos0 AND 1 = 0 then int (bit_length (nat bitPos0)) - 1 + 1 else bitPos0);
               bitLen = (if i > 0 then int i * 8 else 0)
           in bitLen + (8 - bitPos)
      else paddedBufferToBits_len buff i)"

definition paddedBufferToBits :: "buffer \<Rightarrow> bit_string res" where
  "paddedBufferToBits buff =
     new_BitString buff 0 (paddedBufferToBits_len buff (length buff))"

subsection \<open>Hexadecimal text\<close>

definition hex_of_byte :: "byte \<Rightarrow> string" where
  "hex_of_byte w = [digit_char (unat w div 16), digit_char (unat w mod 16)]"

definition hex_of_buffer :: "buffer \<Rightarrow> string" where \<comment> \<open>\<open>buf.toString('hex')\<close>\<close>
  "hex_of_buffer b = concat (map hex_of_byte b)"

definition to_upper_char :: "char \<Rightarrow> char" where
  "to_upper_char c = (let k = of_char c :: nat in if 97 \<le> k \<and> k \<le> 122 then char_of (k - 32) else c)"

definition to_upper :: "string \<Rightarrow> string" where
  "to_upper s = map to_upper_char s"

definition BitString_toString :: "bit_string \<Rightarrow> string res" where
  "BitString_toString s =
     bindE (bitsToPaddedBuffer s) (\<lambda>padded.
       if bs_length s mod 4 = 0
       then let t = to_upper (hex_of_buffer (buf_subarray padded 0 (ceil8 (int (bs_length s)))))
            in if bs_length s mod 8 = 0 then Inr t else Inr (take (length t - 1) t)
       else let hex = to_upper (hex_of_buffer padded)
            in if bs_length s mod 8 \<le> 4 then Inr (take (length hex - 1) hex @ ''_'')
               else Inr (hex @ ''_''))"

section \<open>The padded form\<close>

definition padding :: "nat \<Rightarrow> bool list" where
  "padding n = (if n mod 8 = 0 then [] else True # replicate (7 - n mod 8) False)"

lemma length_padding: "(n + length (padding n)) mod 8 = 0" "length (padding n) < 8"
proof -
  show "(n + length (padding n)) mod 8 = 0"
    by (cases "n mod 8 = 0") (simp_all add: padding_def, presburger)
  show "length (padding n) < 8" by (auto simp: padding_def)
qed

lemma ceil8_padding: "nat (ceil8 (int n) * 8) = n + length (padding n)"
proof -
  have "nat (ceil8 (int n) * 8) = (n + 7) div 8 * 8" by (simp add: ceil8_nat nat_mult_distrib)
  also have "\<dots> = n + length (padding n)"
    using length_padding [of n] by presburger
  finally show ?thesis .
qed

lemma concat_map_singleton_upt: "concat (map (\<lambda>i. [f i]) [0..<n]) = map f [0..<n]"
  by (induction n) auto

text \<open>The buffer holds the run followed by its padding, for runs of less than 256 MB.\<close>

lemma bitsToPaddedBuffer_ok:
  assumes "bs_length s < 2 ^ 31 - 16"
  shows "\<exists>w. bitsToPaddedBuffer s = Inr w \<and> buf_bits w = bs_bits s @ padding (bs_length s)"
proof -
  let ?n = "bs_length s" and ?p = "padding (bs_length s)"
  let ?total = "?n + length ?p"
  let ?b0 = "new_BitBuilder ?total"
  let ?e = "\<lambda>i::nat. [i = 0]"
  let ?f = "\<lambda>i b. if i = 0 then BitBuilder_writeBit (BitNum 1) b else BitBuilder_writeBit (BitNum 0) b"
  have t: "?total < 2 ^ 31 - 8" using assms length_padding(2) [of ?n] by simp
  have pe: "concat (map ?e [0..<length ?p]) = ?p"
    unfolding concat_map_singleton_upt
    by (rule nth_equalityI) (auto simp: padding_def nth_Cons split: nat.split)
  have w1: "writes (BitBuilder_writeBits s ?b0) ?b0 (bs_bits s)"
    using wf_new_BitBuilder [OF t]
    by (intro writes_bits) (simp add: fits_def new_BitBuilder_def)
  have "writes (bindE (BitBuilder_writeBits s ?b0) (foldE ?f [0..<length ?p])) ?b0
      (bs_bits s @ concat (map ?e [0..<length ?p]))"
  proof (rule writes_bindI)
    show "fits ?b0 (length (bs_bits s) + length (concat (map ?e [0..<length ?p])))"
      unfolding pe using wf_new_BitBuilder [OF t] by (simp add: fits_def new_BitBuilder_def)
    show "writes (foldE ?f [0..<length ?p] b') b' (concat (map ?e [0..<length ?p]))"
      if "fits b' (length (concat (map ?e [0..<length ?p])))" for b'
      using that writes_bit [of _ "BitNum 1"] writes_bit [of _ "BitNum 0"]
      by (intro writes_foldE) auto
  qed (rule w1)
  then obtain b where b: "bindE (BitBuilder_writeBits s ?b0) (foldE ?f [0..<length ?p]) = Inr b"
    "appends ?b0 b (bs_bits s @ ?p)"
    unfolding pe by (auto simp: writes_def)
  have "bb_bits b = bs_bits s @ ?p" "wf_bb b"
    using b(2) wf_new_BitBuilder(2) [OF t] by (simp_all add: appends_def)
  moreover from this have "bb_length b mod 8 = 0"
    using length_bb_bits [of b] length_padding(1) [of ?n] by simp
  ultimately obtain w where w: "BitBuilder_getBuffer b = Inr w" "buf_bits w = bs_bits s @ ?p"
    using getBuffer_ok by metis
  have eq: "bitsToPaddedBuffer s =
      bindE (bindE (BitBuilder_writeBits s ?b0) (foldE ?f [0..<length ?p])) BitBuilder_getBuffer"
    unfolding bitsToPaddedBuffer_def Let_def ceil8_padding bindE_assoc by simp
  show ?thesis unfolding eq b(1) using w by simp
qed

lemma padding_snoc: "n mod 8 \<noteq> 0 \<Longrightarrow> padding n = True # replicate (7 - n mod 8) False"
  by (simp add: padding_def)

section \<open>Undoing the padding\<close>

text \<open>The loop of \<open>loadPaddedBits\<close> stops at the last set bit.\<close>

lemma loadPaddedBits_loop_ok:
  assumes "rd_ok r" "rd_rest r = bs @ True # replicate k False @ ys"
  shows "loadPaddedBits_loop r (int (Suc (length bs + k))) = Inr (int (length bs))"
  using assms(2)
proof (induction k arbitrary: ys)
  case 0
  then have "BitString_at (rd_bits r) (rd_offset r + int (length bs)) = Inr True"
    using rd_at [OF assms(1), of "length bs"] by (simp add: nth_append)
  then show ?case by (simp add: loadPaddedBits_loop.simps [of r])
next
  case (Suc k)
  have rest: "rd_rest r = bs @ True # replicate k False @ False # ys"
    using Suc.prems by (simp add: replicate_append_same [symmetric])
  then have "BitString_at (rd_bits r) (rd_offset r + int (Suc (length bs + k))) = Inr False"
    using rd_at [OF assms(1), of "Suc (length bs + k)"] by (simp add: nth_append)
  then have "loadPaddedBits_loop r (int (Suc (Suc (length bs + k)))) =
      loadPaddedBits_loop r (int (Suc (length bs + k)))"
    by (subst loadPaddedBits_loop.simps) (simp add: algebra_simps)
  with Suc.IH [OF rest] show ?case by simp
qed

lemma loadPaddedBits_ok:
  assumes "rd_ok r" "rd_rest r = bs @ padding (length bs) @ ys" "length bs mod 8 \<noteq> 0"
  defines "n \<equiv> length bs + length (padding (length bs))"
  shows "\<exists>s. BitReader_loadPaddedBits (int n) r = Inr (s, rd_move (int n) r) \<and>
     bs_bits s = bs \<and> wf_bs s"
proof -
  let ?k = "7 - length bs mod 8"
  have "int n mod 8 = int (n mod 8)" by (simp add: zmod_int)
  then have n: "n = Suc (length bs + ?k)" "js_rem (int n) 8 = 0"
    using length_padding(1) [of "length bs"] assms(3)
    by (simp_all add: n_def padding_def js_rem_nonneg)
  have "loadPaddedBits_loop r (int n) = Inr (int (length bs))"
    unfolding n(1) using assms(1,2,3) by (intro loadPaddedBits_loop_ok) (auto simp: padding_def)
  moreover obtain s where "BitReader_loadBits (int (length bs)) r = Inr (s, rd_move (int (length bs)) r)"
    "bs_bits s = bs" "wf_bs s"
    using loadBits_ok [OF assms(1), of "length bs"] assms(2) by auto
  ultimately show ?thesis
    using n(2) by (auto simp: BitReader_loadPaddedBits_def BitReader_loadBits_def)
qed

text \<open>The lowest set bit: \<open>x & -x\<close>.\<close>

lemma lowbit_odd: "odd (y :: int) \<Longrightarrow> y AND - y = 1"
proof (rule bit_eqI)
  fix n assume "odd y"
  then obtain z where "y = 2 * z + 1" by (auto elim: oddE)
  then have d: "y div 2 = z" "(y - 1) div 2 = z" "odd y" by auto
  have "bit (y AND - y) n \<longleftrightarrow> bit y n \<and> \<not> bit (y - 1) n"
    by (simp add: bit_and_iff bit_minus_iff)
  then show "bit (y AND - y) n = bit 1 n"
    using d by (cases n) (simp_all add: bit_0 bit_Suc bit_1_iff)
qed

lemma lowbit: "odd (y :: int) \<Longrightarrow> (y * 2 ^ k) AND - (y * 2 ^ k) = 2 ^ k"
proof -
  assume y: "odd y"
  have "(y * 2 ^ k) AND - (y * 2 ^ k) = push_bit k y AND push_bit k (- y)"
    by (simp add: push_bit_eq_mult)
  also have "\<dots> = push_bit k (y AND - y)" by (simp only: push_bit_and)
  finally show ?thesis using lowbit_odd [OF y] by (simp add: push_bit_eq_mult)
qed

lemma bit_length_power [simp]: "bit_length (2 ^ k) = Suc k"
  by (induction k) (simp_all add: bit_length.simps [of "Suc 0"] bit_length.simps [of "2 * _"])

lemma val_be_replicate_False: "val_be (bs @ replicate k False) = val_be bs * 2 ^ k"
proof (induction k)
  case (Suc k)
  have "bs @ replicate (Suc k) False = (bs @ replicate k False) @ [False]"
    by (simp add: replicate_append_same)
  then show ?case using Suc by (simp only: val_be_snoc) simp
qed simp

lemma take_Suc_byte: "i < length b \<Longrightarrow> buf_bits (take (Suc i) b) = buf_bits (take i b) @ byte_bits (b ! i)"
  by (simp add: take_Suc_conv_app_nth)

lemma paddedBufferToBits_len_ok:
  assumes "n \<le> length buff" "buf_bits (take n buff) = bs @ True # replicate k False"
  shows "paddedBufferToBits_len buff n = int (length bs)"
  using assms
proof (induction n arbitrary: k)
  case (Suc i)
  let ?w = "buff ! i" and ?xs = "bs @ True # replicate k False"
  have split: "buf_bits (take i buff) @ byte_bits ?w = ?xs"
    using Suc.prems take_Suc_byte [of i buff] by simp
  have parts: "buf_bits (take i buff) = take (8 * i) ?xs" "byte_bits ?w = drop (8 * i) ?xs"
    using Suc.prems(1) by (simp_all flip: split)
  have len: "8 * i + 8 = length bs + 1 + k"
    using arg_cong [OF split, of length] Suc.prems(1) by simp
  show ?case
  proof (cases "8 \<le> k")
    case True
    have "byte_bits ?w = byte_bits 0"
      using parts(2) len True buf_bits_replicate_0 [of 1] by (simp add: drop_Cons')
    then have "?w = 0" by (rule byte_bits_inj)
    moreover have i: "8 * i = Suc (length bs) + (k - 8)" using len True by linarith
    have "buf_bits (take i buff) = bs @ True # replicate (k - 8) False"
      unfolding parts(1) i using True by (simp add: Suc_diff_le [of 8 k, simplified] min_def take_Cons')
    ultimately show ?thesis using Suc.IH [of "k - 8"] Suc.prems(1) by simp
  next
    case False
    then have w: "byte_bits ?w = (drop (8 * i) bs @ [True]) @ replicate k False"
      using parts(2) len by simp
    have "uint ?w = val_be (byte_bits ?w)"
      using uint_lt2p [of ?w] by (simp add: byte_bits_def val_be_bits_be)
    also have "\<dots> = (2 * val_be (drop (8 * i) bs) + 1) * 2 ^ k"
      unfolding w val_be_replicate_False by simp
    finally have u: "uint ?w = (2 * val_be (drop (8 * i) bs) + 1) * 2 ^ k" .
    then have "uint ?w AND - uint ?w = 2 ^ k" by (simp only:) (rule lowbit, simp)
    moreover have "?w \<noteq> 0" using u by (auto simp: val_be_nonneg add_nonneg_eq_0_iff)
    moreover have "(2 ^ k :: int) AND 1 = (if k = 0 then 1 else 0)"
      by (auto simp: and_one_eq)
    ultimately show ?thesis
      using len by (auto simp: Let_def nat_power_eq)
  qed
qed simp

text \<open>\<open>paddedBufferToBits\<close> undoes \<open>bitsToPaddedBuffer\<close> for a run that is no whole number of bytes.\<close>

lemma paddedBufferToBits_ok:
  assumes "buf_bits w = bs @ True # replicate k False" "8 * length w < 2 ^ 31"
  shows "\<exists>s. paddedBufferToBits w = Inr s \<and> bs_bits s = bs \<and> wf_bs s"
proof -
  let ?s = "\<lparr>bs_data = w, bs_offset = 0, bs_length = length bs\<rparr>"
  have "paddedBufferToBits w = Inr ?s"
    using paddedBufferToBits_len_ok [of "length w" w bs k] assms(1)
    by (simp add: paddedBufferToBits_def new_BitString_def)
  moreover have "length bs \<le> 8 * length w"
    using arg_cong [OF assms(1), of length] by simp
  then have "wf_bs ?s" using assms(2) by (auto simp: wf_bs_def)
  moreover from bs_bits_wf [OF this] have "bs_bits ?s = bs" using assms(1) by simp
  ultimately show ?thesis by blast
qed

end
