(* ===== verification/Crc32c.thy ===== *)
theory Crc32c
  imports Js_Prelude
begin

text \<open>
  The CRC-32C checksum (ton-core/utils/crc32c.ts) of a bag of cells: eight rounds of a shift
  per byte on a 32-bit register. JavaScript keeps the register as a signed number between the
  operators; its 32 bits are the word here. The register update is a bijection, from which
  it follows that a message with a single wrong byte is always detected.
\<close>

definition crc32c_POLY :: "32 word" where
  "crc32c_POLY = 0x82f63b78"

definition crc32c_shift :: "32 word \<Rightarrow> 32 word" where
  "crc32c_shift crc = (if crc AND 1 \<noteq> 0 then drop_bit 1 crc XOR crc32c_POLY else drop_bit 1 crc)"

definition crc32c_byte :: "byte \<Rightarrow> 32 word \<Rightarrow> 32 word" where
  "crc32c_byte w crc =
     crc32c_shift (crc32c_shift (crc32c_shift (crc32c_shift
    (crc32c_shift (crc32c_shift (crc32c_shift (crc32c_shift (crc XOR ucast w))))))))"

definition crc32c_reg :: "buffer \<Rightarrow> 32 word" where
  "crc32c_reg source = fold crc32c_byte source 0xffffffff XOR 0xffffffff"

definition writeInt32LE :: "32 word \<Rightarrow> buffer" where
  "writeInt32LE v = [ucast v, ucast (drop_bit 8 v), ucast (drop_bit 16 v), ucast (drop_bit 24 v)]"

definition crc32c :: "buffer \<Rightarrow> buffer" where
  "crc32c source = writeInt32LE (crc32c_reg source)"

lemma length_crc32c [simp]: "length (crc32c source) = 4"
  by (simp add: crc32c_def writeInt32LE_def)

text \<open>The top bit of the shifted register tells which branch was taken, so the shift is injective.\<close>

lemma xor_cancel: "a XOR c = b XOR c \<Longrightarrow> a = b" for a b c :: "'a::len word"
  by (drule arg_cong [of _ _ "\<lambda>x. x XOR c"]) (simp add: xor.assoc)

lemma xor_cancel_left: "c XOR a = c XOR b \<Longrightarrow> a = b" for a b c :: "'a::len word"
  by (metis xor.commute xor_cancel)

lemma crc32c_shift_top: "bit (crc32c_shift c) 31 \<longleftrightarrow> bit c 0"
proof -
  have "bit crc32c_POLY 31" by (simp add: crc32c_POLY_def)
  moreover have "\<not> bit (drop_bit 1 c) 31"
    by (auto simp: bit_drop_bit_eq dest: bit_imp_le_length)
  moreover have "c AND 1 \<noteq> 0 \<longleftrightarrow> bit c 0" by (simp add: and_one_eq mod2_eq_if bit_0)
  ultimately show ?thesis by (simp add: crc32c_shift_def bit_xor_iff)
qed

lemma crc32c_shift_inj:
  assumes eq: "crc32c_shift c = crc32c_shift d"
  shows "c = d"
proof (rule bit_word_eqI)
  fix n
  have b0: "bit c 0 = bit d 0" using eq by (metis crc32c_shift_top)
  then have "c AND 1 = d AND 1" by (simp add: and_one_eq mod2_eq_if bit_0)
  then have "drop_bit 1 c = drop_bit 1 d"
    using eq xor_cancel [of "drop_bit 1 c" crc32c_POLY "drop_bit 1 d"]
    by (simp add: crc32c_shift_def split: if_splits)
  then have "bit c (Suc m) = bit d (Suc m)" for m
    by (metis bit_drop_bit_eq comp_apply plus_1_eq_Suc)
  with b0 show "bit c n = bit d n" by (cases n) simp_all
qed

lemma crc32c_shift_eq: "crc32c_shift c = crc32c_shift d \<longleftrightarrow> c = d"
  using crc32c_shift_inj by blast

lemma crc32c_rounds_inj:
  assumes "crc32c_byte v c = crc32c_byte w d"
  shows "c XOR ucast v = d XOR ucast w"
  using assms by (simp only: crc32c_byte_def crc32c_shift_eq)

lemma crc32c_byte_inj: "crc32c_byte w c = crc32c_byte w d \<Longrightarrow> c = d"
  by (rule xor_cancel) (rule crc32c_rounds_inj)

lemma ucast_byte_inj:
  assumes "(ucast (v :: byte) :: 32 word) = ucast w"
  shows "v = w"
proof (rule bit_word_eqI)
  fix n assume "n < LENGTH(8)"
  then show "bit v n = bit w n"
    using arg_cong [OF assms, of "\<lambda>x. bit x n"] by (simp add: bit_unsigned_iff)
qed

lemma crc32c_byte_inj_byte: "crc32c_byte v c = crc32c_byte w c \<Longrightarrow> v = w"
  by (rule ucast_byte_inj) (rule xor_cancel_left, rule crc32c_rounds_inj)

lemma crc32c_fold_inj: "fold crc32c_byte s c = fold crc32c_byte s d \<Longrightarrow> c = d"
  by (induction s arbitrary: c d) (auto dest: crc32c_byte_inj)

lemma writeInt32LE_inj: "writeInt32LE v = writeInt32LE w \<Longrightarrow> v = w"
proof (rule bit_word_eqI)
  fix n assume eq: "writeInt32LE v = writeInt32LE w" and n: "n < LENGTH(32)"
  have "bit (ucast (drop_bit (8 * k) v) :: byte) j = bit (ucast (drop_bit (8 * k) w) :: byte) j" if "k < 4" for k j
  proof -
    from that consider "k = 0" | "k = 1" | "k = 2" | "k = 3" by linarith
    then show ?thesis using eq by cases (simp_all add: writeInt32LE_def)
  qed
  from this [of "n div 8" "n mod 8"] n show "bit v n = bit w n"
    by (simp add: bit_unsigned_iff bit_drop_bit_eq less_mult_imp_div_less)
qed

text \<open>Two messages of one length that differ in one byte have different checksums.\<close>

lemma crc32c_single_byte:
  assumes "v \<noteq> w"
  shows "crc32c (xs @ v # ys) \<noteq> crc32c (xs @ w # ys)"
proof
  assume "crc32c (xs @ v # ys) = crc32c (xs @ w # ys)"
  then have "crc32c_reg (xs @ v # ys) = crc32c_reg (xs @ w # ys)"
    unfolding crc32c_def by (rule writeInt32LE_inj)
  then have "fold crc32c_byte (xs @ v # ys) 0xffffffff = fold crc32c_byte (xs @ w # ys) 0xffffffff"
    unfolding crc32c_reg_def by (rule xor_cancel)
  then have "crc32c_byte v (fold crc32c_byte xs 0xffffffff) = crc32c_byte w (fold crc32c_byte xs 0xffffffff)"
    by (auto dest: crc32c_fold_inj)
  with assms crc32c_byte_inj_byte show False by blast
qed

end
