(* ===== verification/Node_Text.thy ===== *)
theory Node_Text
  imports Padded_Bits
begin

text \<open>
  Text as JavaScript and Node treat it, as far as the modelled code uses it: base64 and
  hexadecimal forms of buffers, splitting, and the numbers read by \<open>parseInt\<close>,
  \<open>parseFloat\<close> and \<open>BigInt\<close>. Strings are lists of characters of one byte.
\<close>

section \<open>Characters\<close>

definition code_of :: "char \<Rightarrow> nat" where
  "code_of c = of_char c"

definition is_digit :: "char \<Rightarrow> bool" where
  "is_digit c \<longleftrightarrow> 48 \<le> code_of c \<and> code_of c \<le> 57"

definition js_space :: "char \<Rightarrow> bool" where
  "js_space c \<longleftrightarrow> code_of c \<in> {9, 10, 11, 12, 13, 32, 160}"

definition to_lower_char :: "char \<Rightarrow> char" where
  "to_lower_char c = (if 65 \<le> code_of c \<and> code_of c \<le> 90 then char_of (code_of c + 32) else c)"

definition to_lower :: "string \<Rightarrow> string" where
  "to_lower s = map to_lower_char s"

definition js_replace :: "char \<Rightarrow> char \<Rightarrow> string \<Rightarrow> string" where \<comment> \<open>with the global flag\<close>
  "js_replace a b s = map (\<lambda>c. if c = a then b else c) s"

fun js_split :: "char \<Rightarrow> string \<Rightarrow> string list" where
  "js_split c [] = [[]]"
| "js_split c (x # xs) =
     (if x = c then [] # js_split c xs
      else case js_split c xs of p # ps \<Rightarrow> (x # p) # ps | [] \<Rightarrow> [[x]])"

section \<open>Hexadecimal text\<close>

definition hex_val :: "char \<Rightarrow> nat option" where
  "hex_val c =
     (let k = code_of c
      in if 48 \<le> k \<and> k \<le> 57 then Some (k - 48)
         else if 97 \<le> k \<and> k \<le> 102 then Some (k - 87)
         else if 65 \<le> k \<and> k \<le> 70 then Some (k - 55) else None)"

text \<open>\<open>Buffer.from(s, 'hex')\<close>: pairs of digits up to the first that is none.\<close>

fun hex_decode :: "string \<Rightarrow> buffer" where
  "hex_decode (a # b # s) =
     (case hex_val a of None \<Rightarrow> []
      | Some x \<Rightarrow> (case hex_val b of None \<Rightarrow> [] | Some y \<Rightarrow> word_of_nat (16 * x + y) # hex_decode s))"
| "hex_decode _ = []"

section \<open>Base64\<close>

definition b64_char :: "nat \<Rightarrow> char" where
  "b64_char v =
     char_of (if v < 26 then 65 + v else if v < 52 then 71 + v else if v < 62 then v - 4
              else if v = 62 then 43 else (47::nat))"

text \<open>Both alphabets are read; a character outside them is skipped.\<close>

definition b64_val :: "char \<Rightarrow> nat option" where
  "b64_val c =
     (let k = code_of c
      in if 65 \<le> k \<and> k \<le> 90 then Some (k - 65)
         else if 97 \<le> k \<and> k \<le> 122 then Some (k - 71)
         else if 48 \<le> k \<and> k \<le> 57 then Some (k + 4)
         else if k = 43 \<or> k = 45 then Some 62
         else if k = 47 \<or> k = 95 then Some 63 else None)"

definition base64_encode :: "buffer \<Rightarrow> string" where
  "base64_encode w =
     (let n = (8 * length w + 5) div 6;
          bits = buf_bits w @ replicate (6 * n - 8 * length w) False
      in map (\<lambda>i. b64_char (nat (val_be (take 6 (drop (6 * i) bits))))) [0..<n] @
         replicate ((4 - n mod 4) mod 4) (CHR ''=''))"

definition base64_decode :: "string \<Rightarrow> buffer" where
  "base64_decode s =
     bytes_of_bits (concat (map (\<lambda>c. case b64_val c of Some v \<Rightarrow> bits_be 6 (int v) | None \<Rightarrow> []) s))"

section \<open>Numbers\<close>

definition digits_val :: "nat \<Rightarrow> string \<Rightarrow> nat" where
  "digits_val base ds = foldl (\<lambda>n d. n * base + the (hex_val d)) 0 ds"

text \<open>A sign in front of a number: whether it is negative, and the rest.\<close>

definition js_sign :: "string \<Rightarrow> bool \<times> string" where
  "js_sign s =
     (case s of [] \<Rightarrow> (False, [])
      | c # r \<Rightarrow> if c = CHR ''-'' then (True, r) else if c = CHR ''+'' then (False, r) else (False, s))"

definition js_trim :: "string \<Rightarrow> string" where
  "js_trim s = rev (dropWhile js_space (rev (dropWhile js_space s)))"

text \<open>\<open>parseInt(s)\<close>; no number (NaN) is \<open>None\<close>.\<close>

definition js_parseInt :: "string \<Rightarrow> int option" where
  "js_parseInt s =
     (case js_sign (dropWhile js_space s) of (neg, r) \<Rightarrow>
        let is_hex = (length r \<ge> 2 \<and> r ! 0 = CHR ''0'' \<and> (r ! 1 = CHR ''x'' \<or> r ! 1 = CHR ''X''));
            ds = (if is_hex then takeWhile (\<lambda>c. hex_val c \<noteq> None) (drop 2 r) else takeWhile is_digit r);
            v = int (digits_val (if is_hex then 16 else 10) ds)
        in if ds = [] then None else Some (if neg then - v else v))"

text \<open>
  \<open>BigInt(s)\<close> of a string: white space around it is dropped, the empty string is 0, a decimal
  number may have a sign and a hexadecimal one may not (the octal and binary forms are read as
  well).
\<close>

definition radix_prefix :: "string \<Rightarrow> nat option" where
  "radix_prefix s =
     (if length s < 2 \<or> s ! 0 \<noteq> CHR ''0'' then None
      else if s ! 1 = CHR ''x'' \<or> s ! 1 = CHR ''X'' then Some 16
      else if s ! 1 = CHR ''o'' \<or> s ! 1 = CHR ''O'' then Some 8
      else if s ! 1 = CHR ''b'' \<or> s ! 1 = CHR ''B'' then Some 2 else None)"

definition all_digits :: "nat \<Rightarrow> string \<Rightarrow> bool" where
  "all_digits base s \<longleftrightarrow> s \<noteq> [] \<and> list_all (\<lambda>c. case hex_val c of None \<Rightarrow> False | Some d \<Rightarrow> d < base) s"

definition js_BigInt :: "string \<Rightarrow> int res" where
  "js_BigInt str =
     (let s = js_trim str
      in if s = [] then Inr 0
         else case radix_prefix s of
           Some base \<Rightarrow> if all_digits base (drop 2 s) then Inr (int (digits_val base (drop 2 s))) else Inl SyntaxErr
         | None \<Rightarrow> (case js_sign s of (neg, r) \<Rightarrow>
             if all_digits 10 r then Inr (if neg then - int (digits_val 10 r) else int (digits_val 10 r))
             else Inl SyntaxErr))"

text \<open>
  Whether the double nearest to \<open>p / q\<close> is an integer: the quotient is rounded, half to even,
  to 53 significant bits, or to a multiple of \<open>2 ^ -1074\<close>; a value of \<open>2 ^ 1024\<close> or more is
  Infinity, which is no integer.
\<close>

definition double_is_integer :: "nat \<Rightarrow> nat \<Rightarrow> bool" where
  "double_is_integer p q =
     (if p = 0 then True
      else let k = int (bit_length p) - int (bit_length q);
               k = (if p * 2 ^ nat (- k) < q * 2 ^ nat k then k - 1 else k);
               e = max (k - 52) (- 1074);
               num = p * 2 ^ nat (- e);
               den = q * 2 ^ nat e;
               m = num div den;
               r = num mod den;
               m = (if 2 * r > den \<or> (2 * r = den \<and> odd m) then m + 1 else m)
           in if e \<ge> 0 then m * 2 ^ nat e < 2 ^ 1024 else m mod 2 ^ nat (- e) = 0)"

text \<open>\<open>Number.isInteger(parseFloat(s))\<close>.\<close>

definition js_float_isInteger :: "string \<Rightarrow> bool" where
  "js_float_isInteger s =
     (case js_sign (dropWhile js_space s) of (_, r) \<Rightarrow>
        let whole = takeWhile is_digit r;
            r = dropWhile is_digit r;
            frac = (if r \<noteq> [] \<and> hd r = CHR ''.'' then takeWhile is_digit (tl r) else []);
            r = (if r \<noteq> [] \<and> hd r = CHR ''.'' then dropWhile is_digit (tl r) else r);
            exponent = (if r \<noteq> [] \<and> (hd r = CHR ''e'' \<or> hd r = CHR ''E'')
               then case js_sign (tl r) of (neg, t) \<Rightarrow>
                      let v = int (digits_val 10 (takeWhile is_digit t)) in if neg then - v else v
               else 0);
            e = exponent - int (length frac)
        in if whole = [] \<and> frac = [] then False
           else double_is_integer (digits_val 10 (whole @ frac) * 10 ^ nat e) (10 ^ nat (- e)))"

section \<open>Facts\<close>

lemma code_of_b64:
  "v < 64 \<Longrightarrow> code_of (b64_char v) =
    (if v < 26 then 65 + v else if v < 52 then 71 + v else if v < 62 then v - 4 else if v = 62 then 43 else 47)"
  by (simp add: code_of_def b64_char_def)

lemma b64_val_char: "v < 64 \<Longrightarrow> b64_val (b64_char v) = Some v"
  by (cases "v < 26"; cases "v < 52"; cases "v < 62") (simp_all add: b64_val_def code_of_b64 Let_def, arith+)

lemma b64_val_url:
  "v < 64 \<Longrightarrow> b64_val (if b64_char v = CHR ''+'' then CHR ''-'' else if b64_char v = CHR ''/'' then CHR ''_'' else b64_char v) = Some v"
  using b64_val_char [of v] by (auto simp: b64_val_def code_of_def)

lemma base64_decode_bits:
  assumes "map b64_val s = map Some vs" "\<forall>v \<in> set vs. v < 64" "concat (map (\<lambda>v. bits_be 6 (int v)) vs) = buf_bits w @ zs"
    and "length zs < 8"
  shows "base64_decode s = w"
proof -
  have "map (\<lambda>c. case b64_val c of Some v \<Rightarrow> bits_be 6 (int v) | None \<Rightarrow> []) s =
      map (\<lambda>x. case x of Some v \<Rightarrow> bits_be 6 (int v) | None \<Rightarrow> []) (map b64_val s)" by simp
  also have "\<dots> = map (\<lambda>v. bits_be 6 (int v)) vs" unfolding assms(1) by simp
  finally have "base64_decode s = bytes_of_bits (buf_bits w @ zs)"
    unfolding base64_decode_def using assms(3) by simp
  also have "\<dots> = bytes_of_bits (buf_bits w)"
  proof -
    have "length (buf_bits w @ zs) div 8 = length w" using assms(4) by simp
    moreover have "take 8 (drop (8 * i) (buf_bits w @ zs)) = take 8 (drop (8 * i) (buf_bits w))" if "i < length w" for i
    proof -
      have "8 \<le> length (drop (8 * i) (buf_bits w))" using that by simp
      with that show ?thesis by simp
    qed
    ultimately show ?thesis unfolding bytes_of_bits_def by (auto intro!: map_cong)
  qed
  finally show ?thesis by simp
qed

lemma concat_groups:
  "length xs = k * n \<Longrightarrow> concat (map (\<lambda>i. take k (drop (k * i) xs)) [0..<n]) = xs"
proof (induction n arbitrary: xs)
  case (Suc n)
  have "map (\<lambda>i. take k (drop (k * i) xs)) [0..<Suc n] =
      take k xs # map (\<lambda>i. take k (drop (k * i) (drop k xs))) [0..<n]"
    by (simp add: upt_conv_Cons map_Suc_upt [symmetric] comp_def add.commute del: upt_Suc)
  moreover have "concat (map (\<lambda>i. take k (drop (k * i) (drop k xs))) [0..<n]) = drop k xs"
    using Suc.IH [of "drop k xs"] Suc.prems by simp
  ultimately show ?case by simp
qed simp

section \<open>Amounts as text\<close>

text \<open>
  Amounts as decimal text (ton-core/utils/convert.ts). A Number given to \<open>toNano\<close> is first
  formatted by the locale functions of the platform; that branch is not modelled, the one that
  reads the text is.
\<close>

definition toNano_bigint :: "int \<Rightarrow> int" where
  "toNano_bigint src = src * 1000000000"

fun strip_minus :: "bool \<Rightarrow> string \<Rightarrow> bool \<times> string" where \<comment> \<open>\<open>while (src.startsWith('-'))\<close>\<close>
  "strip_minus neg [] = (neg, [])"
| "strip_minus neg (c # src) = (if c = CHR ''-'' then strip_minus (\<not> neg) src else (neg, c # src))"

definition toNano :: "string \<Rightarrow> int res" where
  "toNano src =
     (let (neg, src) = strip_minus False src
      in if src = ''.'' then Inl InvalidNumber
         else let parts = js_split (CHR ''.'') src
              in if length parts > 2 then Inl InvalidNumber
                 else let whole = parts ! 0;
                          frac = (if length parts = 2 then parts ! 1 else []);
                          whole = (if whole = [] then ''0'' else whole);
                          frac = (if frac = [] then ''0'' else frac)
                      in if length frac > 9 then Inl InvalidNumber
                         else let frac = frac @ replicate (9 - length frac) (CHR ''0'')
                              in bindE (js_BigInt whole) (\<lambda>w.
                                 bindE (js_BigInt frac) (\<lambda>f.
                                 let r = w * 1000000000 + f in Inr (if neg then - r else r))))"

text \<open>The match of \<open>/^([0-9]*[1-9]|0)(0*)/\<close> on nine digits: without the zeros at the end, or \<open>0\<close>.\<close>

definition strip_zeros :: "string \<Rightarrow> string" where
  "strip_zeros s = (let t = rev (dropWhile (\<lambda>c. c = CHR ''0'') (rev s)) in if t = [] then ''0'' else t)"

definition fromNano_int :: "int \<Rightarrow> string" where
  "fromNano_int v =
     (let neg = v < 0;
          v = (if neg then - v else v);
          facStr = to_string_radix 10 (v mod 1000000000);
          facStr = replicate (9 - length facStr) (CHR ''0'') @ facStr;
          facStr = strip_zeros facStr;
          wholeStr = to_string_radix 10 (v div 1000000000);
          out = wholeStr @ (if facStr = ''0'' then [] else CHR ''.'' # facStr)
      in if neg then CHR ''-'' # out else out)"

definition fromNano :: "jsval \<Rightarrow> string res" where
  "fromNano src = bindE (to_bigint src) (\<lambda>v. Inr (fromNano_int v))"

definition fromNano_string :: "string \<Rightarrow> string res" where
  "fromNano_string src = bindE (js_BigInt src) (\<lambda>v. Inr (fromNano_int v))"

end
