(* ===== verification/Ton_Address.thy ===== *)
theory Ton_Address
  imports Node_Text
begin

text \<open>
  The text forms of addresses (ton-core/address/Address.ts, ADNLAddress.ts) and the helpers they
  use: the CRC-16 of utils/crc16.ts, bit by bit over a message followed by two zero bytes, the
  table-driven one of utils/getMethodId.ts, and base32 (utils/base32.ts).
\<close>

section \<open>Checksums\<close>

text \<open>The register has 16 bits between the rounds; the shift needs one more.\<close>

definition crc16_poly :: "32 word" where
  "crc16_poly = 0x1021"

definition crc16_bit :: "bool \<Rightarrow> 32 word \<Rightarrow> 32 word" where
  "crc16_bit b reg =
     (let reg = push_bit 1 reg + (if b then 1 else 0)
      in if reg > 0xffff then (reg AND 0xffff) XOR crc16_poly else reg)"

definition crc16_reg :: "buffer \<Rightarrow> 32 word" where
  "crc16_reg data = fold crc16_bit (buf_bits (data @ [0, 0])) 0"

definition crc16 :: "buffer \<Rightarrow> buffer" where
  "crc16 data = [ucast (drop_bit 8 (crc16_reg data)), ucast (crc16_reg data)]"

definition methodId_TABLE :: "32 word list" where
  "methodId_TABLE = [
    0x0000, 0x1021, 0x2042, 0x3063, 0x4084, 0x50a5, 0x60c6, 0x70e7, 0x8108, 0x9129, 0xa14a, 0xb16b,
    0xc18c, 0xd1ad, 0xe1ce, 0xf1ef, 0x1231, 0x0210, 0x3273, 0x2252, 0x52b5, 0x4294, 0x72f7, 0x62d6,
    0x9339, 0x8318, 0xb37b, 0xa35a, 0xd3bd, 0xc39c, 0xf3ff, 0xe3de, 0x2462, 0x3443, 0x0420, 0x1401,
    0x64e6, 0x74c7, 0x44a4, 0x5485, 0xa56a, 0xb54b, 0x8528, 0x9509, 0xe5ee, 0xf5cf, 0xc5ac, 0xd58d,
    0x3653, 0x2672, 0x1611, 0x0630, 0x76d7, 0x66f6, 0x5695, 0x46b4, 0xb75b, 0xa77a, 0x9719, 0x8738,
    0xf7df, 0xe7fe, 0xd79d, 0xc7bc, 0x48c4, 0x58e5, 0x6886, 0x78a7, 0x0840, 0x1861, 0x2802, 0x3823,
    0xc9cc, 0xd9ed, 0xe98e, 0xf9af, 0x8948, 0x9969, 0xa90a, 0xb92b, 0x5af5, 0x4ad4, 0x7ab7, 0x6a96,
    0x1a71, 0x0a50, 0x3a33, 0x2a12, 0xdbfd, 0xcbdc, 0xfbbf, 0xeb9e, 0x9b79, 0x8b58, 0xbb3b, 0xab1a,
    0x6ca6, 0x7c87, 0x4ce4, 0x5cc5, 0x2c22, 0x3c03, 0x0c60, 0x1c41, 0xedae, 0xfd8f, 0xcdec, 0xddcd,
    0xad2a, 0xbd0b, 0x8d68, 0x9d49, 0x7e97, 0x6eb6, 0x5ed5, 0x4ef4, 0x3e13, 0x2e32, 0x1e51, 0x0e70,
    0xff9f, 0xefbe, 0xdfdd, 0xcffc, 0xbf1b, 0xaf3a, 0x9f59, 0x8f78, 0x9188, 0x81a9, 0xb1ca, 0xa1eb,
    0xd10c, 0xc12d, 0xf14e, 0xe16f, 0x1080, 0x00a1, 0x30c2, 0x20e3, 0x5004, 0x4025, 0x7046, 0x6067,
    0x83b9, 0x9398, 0xa3fb, 0xb3da, 0xc33d, 0xd31c, 0xe37f, 0xf35e, 0x02b1, 0x1290, 0x22f3, 0x32d2,
    0x4235, 0x5214, 0x6277, 0x7256, 0xb5ea, 0xa5cb, 0x95a8, 0x8589, 0xf56e, 0xe54f, 0xd52c, 0xc50d,
    0x34e2, 0x24c3, 0x14a0, 0x0481, 0x7466, 0x6447, 0x5424, 0x4405, 0xa7db, 0xb7fa, 0x8799, 0x97b8,
    0xe75f, 0xf77e, 0xc71d, 0xd73c, 0x26d3, 0x36f2, 0x0691, 0x16b0, 0x6657, 0x7676, 0x4615, 0x5634,
    0xd94c, 0xc96d, 0xf90e, 0xe92f, 0x99c8, 0x89e9, 0xb98a, 0xa9ab, 0x5844, 0x4865, 0x7806, 0x6827,
    0x18c0, 0x08e1, 0x3882, 0x28a3, 0xcb7d, 0xdb5c, 0xeb3f, 0xfb1e, 0x8bf9, 0x9bd8, 0xabbb, 0xbb9a,
    0x4a75, 0x5a54, 0x6a37, 0x7a16, 0x0af1, 0x1ad0, 0x2ab3, 0x3a92, 0xfd2e, 0xed0f, 0xdd6c, 0xcd4d,
    0xbdaa, 0xad8b, 0x9de8, 0x8dc9, 0x7c26, 0x6c07, 0x5c64, 0x4c45, 0x3ca2, 0x2c83, 0x1ce0, 0x0cc1,
    0xef1f, 0xff3e, 0xcf5d, 0xdf7c, 0xaf9b, 0xbfba, 0x8fd9, 0x9ff8, 0x6e17, 0x7e36, 0x4e55, 0x5e74,
    0x2e93, 0x3eb2, 0x0ed1, 0x1ef0]"

definition methodId_crc16 :: "buffer \<Rightarrow> 32 word" where
  "methodId_crc16 data =
     fold (\<lambda>byte crc. ((methodId_TABLE ! unat ((drop_bit 8 crc XOR ucast byte) AND 0xff)) XOR push_bit 8 crc) AND 0xffff)
       data 0"

definition getMethodId :: "buffer \<Rightarrow> 32 word" where \<comment> \<open>of the UTF-8 bytes of the name\<close>
  "getMethodId name = (methodId_crc16 name AND 0xffff) OR 0x10000"

section \<open>Base32\<close>

definition base32_alphabet :: string where
  "base32_alphabet = ''abcdefghijklmnopqrstuvwxyz234567''"

fun base32_flush :: "nat \<Rightarrow> 32 word \<Rightarrow> string \<Rightarrow> nat \<times> string" where
  "base32_flush bits v output =
     (if 5 \<le> bits
      then base32_flush (bits - 5) v (output @ [base32_alphabet ! unat (drop_bit (bits - 5) v AND 31)])
      else (bits, output))"

declare base32_flush.simps [simp del]

definition base32Encode :: "buffer \<Rightarrow> string" where
  "base32Encode buffer =
     (case foldl (\<lambda>(bits, v, output) w.
              let v = push_bit 8 v OR ucast w;
                  (bits, output) = base32_flush (bits + 8) v output
              in (bits, v, output)) (0, 0, []) buffer of
        (bits, v, output) \<Rightarrow>
          if 0 < bits then output @ [base32_alphabet ! unat (push_bit (5 - bits) v AND 31)] else output)"

definition base32_readChar :: "char \<Rightarrow> 32 word res" where
  "base32_readChar c =
     (if c \<in> set base32_alphabet then Inr (word_of_nat (length (takeWhile (\<lambda>d. d \<noteq> c) base32_alphabet)))
      else Inl InvalidAlphabet)"

definition base32Decode :: "string \<Rightarrow> buffer res" where
  "base32Decode input =
     (let cleaned = to_lower input
      in bindE (foldE (\<lambda>c (bits, v, index, output).
             bindE (base32_readChar c) (\<lambda>x.
             let v = push_bit 5 v OR x; bits = bits + 5
             in if 8 \<le> bits
                then Inr (bits - 8, v, index + 1, buf_set output index (uint (drop_bit (bits - 8) v AND 255)))
                else Inr (bits, v, index, output))) cleaned
           (0 :: nat, 0, 0 :: int, buf_alloc (length cleaned * 5 div 8)))
         (\<lambda>(_, _, _, output). Inr output))"

section \<open>Addresses\<close>

definition bounceable_tag :: byte where "bounceable_tag = 0x11"
definition non_bounceable_tag :: byte where "non_bounceable_tag = 0x51"
definition test_flag :: byte where "test_flag = 0x80"

record friendly =
  fr_isTestOnly :: bool
  fr_isBounceable :: bool
  fr_workchain :: int
  fr_hashPart :: buffer

definition Address_isFriendly :: "string \<Rightarrow> bool" where
  "Address_isFriendly source \<longleftrightarrow>
     length source = 48 \<and> list_ex (\<lambda>c. b64_val c \<noteq> None) source"

definition Address_isRaw :: "string \<Rightarrow> bool" where
  "Address_isRaw source \<longleftrightarrow>
     CHR '':'' \<in> set source \<and>
     (let wc = js_split (CHR '':'') source ! 0; hash = js_split (CHR '':'') source ! 1
      in js_float_isInteger wc \<and>
         list_ex (\<lambda>c. hex_val c \<noteq> None) (to_lower hash) \<and> length hash = 64)"

text \<open>A buffer, or the bytes of a text that looks like a friendly address.\<close>

definition parseFriendlyData :: "buffer \<Rightarrow> friendly res" where
  "parseFriendlyData data =
     (if length data \<noteq> 36 then Inl InvalidAddress
      else let addr = buf_subarray data 0 34;
               crc = buf_subarray data 34 36;
               calcedCrc = crc16 addr
           in if \<not> (calcedCrc ! 0 = crc ! 0 \<and> calcedCrc ! 1 = crc ! 1) then Inl InvalidAddress
              else let tag0 = addr ! 0;
                       isTestOnly = (tag0 AND test_flag \<noteq> 0);
                       tag = (if isTestOnly then tag0 XOR test_flag else tag0)
                   in if tag \<noteq> bounceable_tag \<and> tag \<noteq> non_bounceable_tag then Inl InvalidAddress
                      else Inr \<lparr>fr_isTestOnly = isTestOnly, fr_isBounceable = (tag = bounceable_tag),
                                fr_workchain = (if addr ! 1 = 0xff then - 1 else uint (addr ! 1)),
                                fr_hashPart = buf_subarray addr 2 34\<rparr>)"

definition parseFriendlyAddress :: "string \<Rightarrow> friendly res" where
  "parseFriendlyAddress src =
     (if \<not> Address_isFriendly src then Inl InvalidAddress else parseFriendlyData (base64_decode src))"

record parsed_friendly =
  pf_isBounceable :: bool
  pf_isTestOnly :: bool
  pf_isUrlSafe :: bool
  pf_address :: address

definition Address_parseFriendly_buffer :: "buffer \<Rightarrow> (bool \<times> bool \<times> address) res" where
  "Address_parseFriendly_buffer source =
     bindE (parseFriendlyData source) (\<lambda>r.
     bindE (new_Address (fr_workchain r) (fr_hashPart r)) (\<lambda>a.
     Inr (fr_isBounceable r, fr_isTestOnly r, a)))"

definition Address_parseFriendly :: "string \<Rightarrow> parsed_friendly res" where
  "Address_parseFriendly source =
     (let addr = js_replace (CHR ''_'') (CHR ''/'') (js_replace (CHR ''-'') (CHR ''+'') source)
      in bindE (parseFriendlyAddress addr) (\<lambda>r.
         bindE (new_Address (fr_workchain r) (fr_hashPart r)) (\<lambda>a.
         Inr \<lparr>pf_isBounceable = fr_isBounceable r, pf_isTestOnly = fr_isTestOnly r,
              pf_isUrlSafe = (\<not> (CHR ''/'' \<in> set source \<or> CHR ''+'' \<in> set source)), pf_address = a\<rparr>)))"

text \<open>
  A text without a number in front of the colon makes the code build an address whose
  workchain is NaN; there is no such address here, and the model stops.
\<close>

definition Address_parseRaw :: "string \<Rightarrow> address res" where
  "Address_parseRaw source =
     (let parts = js_split (CHR '':'') source
      in if length parts < 2 then Inl TypeErr
         else bindE (case js_parseInt (parts ! 0) of Some wc \<Rightarrow> Inr wc | None \<Rightarrow> Inl NotAnInteger) (\<lambda>workChain.
              new_Address workChain (hex_decode (parts ! 1))))"

definition Address_parse :: "string \<Rightarrow> address res" where
  "Address_parse source =
     (if Address_isFriendly source then bindE (Address_parseFriendly source) (\<lambda>r. Inr (pf_address r))
      else if Address_isRaw source then Address_parseRaw source
      else Inl InvalidAddress)"

definition Address_toRawString :: "address \<Rightarrow> string" where
  "Address_toRawString a = to_string_radix 10 (workChain a) @ '':'' @ hex_of_buffer (addr_hash a)"

definition Address_toRaw :: "address \<Rightarrow> buffer" where
  "Address_toRaw a = addr_hash a @ replicate 4 (word_of_int (workChain a))"

definition Address_toStringBuffer :: "bool option \<Rightarrow> bool option \<Rightarrow> address \<Rightarrow> buffer" where
  "Address_toStringBuffer bounceable testOnly a =
     (let testOnly = (case testOnly of Some t \<Rightarrow> t | None \<Rightarrow> False);
          bounceable = (case bounceable of Some b \<Rightarrow> b | None \<Rightarrow> True);
          tag = (if bounceable then bounceable_tag else non_bounceable_tag);
          tag = (if testOnly then tag OR test_flag else tag);
          addr = [tag, word_of_int (workChain a)] @ addr_hash a
      in addr @ crc16 addr)"

definition Address_toString :: "bool option \<Rightarrow> bool option \<Rightarrow> bool option \<Rightarrow> address \<Rightarrow> string" where
  "Address_toString urlSafe bounceable testOnly a =
     (let buffer = Address_toStringBuffer bounceable testOnly a
      in if (case urlSafe of Some u \<Rightarrow> u | None \<Rightarrow> True)
         then js_replace (CHR ''/'') (CHR ''_'') (js_replace (CHR ''+'') (CHR ''-'') (base64_encode buffer))
         else base64_encode buffer)"

definition Address_normalize :: "string \<Rightarrow> string res" where
  "Address_normalize source = bindE (Address_parse source) (\<lambda>a. Inr (Address_toString None None None a))"

section \<open>ADNL addresses\<close>

record adnl_address =
  adnl_address :: buffer

definition new_ADNLAddress :: "buffer \<Rightarrow> adnl_address res" where
  "new_ADNLAddress a = (if length a \<noteq> 32 then Inl InvalidAddress else Inr \<lparr>adnl_address = a\<rparr>)"

definition ADNLAddress_parseFriendly :: "string \<Rightarrow> adnl_address res" where
  "ADNLAddress_parseFriendly src =
     (if length src \<noteq> 55 then Inl InvalidAddress
      else bindE (base32Decode (CHR ''f'' # src)) (\<lambda>decoded.
           if decoded ! 0 \<noteq> 0x2d then Inl InvalidAddress
           else if crc16 (buf_subarray decoded 0 33) \<noteq> drop 33 decoded then Inl InvalidAddress
           else new_ADNLAddress (buf_subarray decoded 1 33)))"

definition ADNLAddress_parseRaw :: "string \<Rightarrow> adnl_address res" where
  "ADNLAddress_parseRaw src = new_ADNLAddress (base64_decode src)"

definition ADNLAddress_equals :: "adnl_address \<Rightarrow> adnl_address \<Rightarrow> bool" where
  "ADNLAddress_equals a b \<longleftrightarrow> adnl_address.adnl_address a = adnl_address.adnl_address b"

definition ADNLAddress_toRaw :: "adnl_address \<Rightarrow> string" where
  "ADNLAddress_toRaw a = to_upper (hex_of_buffer (adnl_address.adnl_address a))"

definition ADNLAddress_toString :: "adnl_address \<Rightarrow> string" where
  "ADNLAddress_toString a =
     (let data = [0x2d] @ adnl_address.adnl_address a
      in tl (base32Encode (data @ crc16 data)))"

end
