(* ===== verification/Text_Roundtrip.thy ===== *)
theory Text_Roundtrip
  imports Ton_Address Node_Text
begin

text \<open>
  Text forms read back: numbers in decimal, buffers in hexadecimal and base64, and on top of
  them addresses in the friendly and in the raw form, and amounts.
\<close>

section \<open>Decimal numbers\<close>

lemma hex_val_digit: "d < 10 \<Longrightarrow> hex_val (digit_char d) = Some d"
  by (simp add: hex_val_def digit_char_def code_of_def Let_def)

lemma digit_char_digit: "d < 10 \<Longrightarrow> is_digit (digit_char d)"
  by (simp add: is_digit_def digit_char_def code_of_def)

lemma not_digit [simp]:
  "\<not> is_digit (CHR ''-'')" "\<not> is_digit (CHR ''+'')" "\<not> is_digit (CHR ''.'')" "\<not> is_digit (CHR '':'')"
  "\<not> is_digit (CHR ''x'')" "\<not> is_digit (CHR ''X'')" "\<not> is_digit (CHR ''o'')" "\<not> is_digit (CHR ''O'')"
  "\<not> is_digit (CHR ''b'')" "\<not> is_digit (CHR ''B'')" "\<not> is_digit (CHR ''e'')" "\<not> is_digit (CHR ''E'')"
  by (simp_all add: is_digit_def code_of_def)

lemma digit_no_space: "is_digit c \<Longrightarrow> \<not> js_space c"
  by (auto simp: is_digit_def js_space_def)

lemma nat_radix_10:
  "nat_radix 10 n \<noteq> []" "\<forall>c \<in> set (nat_radix 10 n). is_digit c"
  "digits_val 10 (nat_radix 10 n) = n" "all_digits 10 (nat_radix 10 n)"
proof (induction n rule: less_induct)
  case (less n)
  { case 1 show ?case by (subst nat_radix.simps) simp }
  { case 2 show ?case using less(2) [of "n div 10"]
      by (subst nat_radix.simps) (auto simp: digit_char_digit) }
  { case 3 show ?case using less(3) [of "n div 10"]
      by (subst nat_radix.simps) (auto simp: digits_val_def hex_val_digit mod_less_divisor) }
  { case 4 show ?case using less(4) [of "n div 10"]
      by (subst nat_radix.simps) (auto simp: all_digits_def hex_val_digit) }
qed

lemma drop_spaces: "\<forall>c \<in> set s. \<not> js_space c \<Longrightarrow> dropWhile js_space s = s"
  by (cases s) auto

lemma js_trim_id: "\<forall>c \<in> set s. \<not> js_space c \<Longrightarrow> js_trim s = s"
  using drop_spaces [of "rev s"] by (simp add: js_trim_def drop_spaces)

lemma decimal_chars: "c \<in> set (to_string_radix 10 v) \<Longrightarrow> is_digit c \<or> c = CHR ''-''"
  using nat_radix_10(2) by (auto simp: to_string_radix_def split: if_splits)

lemma minus_no_space [simp]: "\<not> js_space (CHR ''-'')"
  by (simp add: js_space_def code_of_def)

lemma decimal_no_space: "\<forall>c \<in> set (to_string_radix 10 v). \<not> js_space c"
  using decimal_chars digit_no_space by fastforce

lemma radix_prefix_digits: "\<forall>c \<in> set s. is_digit c \<or> c = CHR ''-'' \<Longrightarrow> radix_prefix s = None"
proof (cases "length s < 2")
  case False
  assume *: "\<forall>c \<in> set s. is_digit c \<or> c = CHR ''-''"
  from False have "s ! 1 \<in> set s" by simp
  with * have "is_digit (s ! 1) \<or> s ! 1 = CHR ''-''" by blast
  then show ?thesis by (auto simp: radix_prefix_def)
qed (simp add: radix_prefix_def)

lemma sign_digits: "r \<noteq> [] \<Longrightarrow> \<forall>c \<in> set r. is_digit c \<Longrightarrow> js_sign r = (False, r) \<and> js_sign (CHR ''-'' # r) = (True, r)"
  by (cases r) (auto simp: js_sign_def)

lemma sign_decimal: "js_sign (to_string_radix 10 v) = (v < 0, nat_radix 10 (nat \<bar>v\<bar>))"
  using sign_digits nat_radix_10 by (auto simp: to_string_radix_def)

lemma BigInt_decimal: "js_BigInt (to_string_radix 10 v) = Inr v"
proof -
  have "to_string_radix 10 v \<noteq> []" using nat_radix_10(1) by (simp add: to_string_radix_def)
  moreover have "radix_prefix (to_string_radix 10 v) = None"
    using radix_prefix_digits decimal_chars by blast
  ultimately show ?thesis
    using nat_radix_10(3,4) js_trim_id [OF decimal_no_space]
    by (simp add: js_BigInt_def Let_def sign_decimal)
qed

lemma parseInt_decimal: "js_parseInt (to_string_radix 10 v) = Some v"
proof -
  let ?r = "nat_radix 10 (nat \<bar>v\<bar>)"
  have d: "dropWhile js_space (to_string_radix 10 v) = to_string_radix 10 v"
    using decimal_no_space by (rule drop_spaces)
  have "?r ! 1 \<noteq> CHR ''x'' \<and> ?r ! 1 \<noteq> CHR ''X''" if "2 \<le> length ?r"
  proof -
    have "?r ! 1 \<in> set ?r" using that by (intro nth_mem) simp
    then have "is_digit (?r ! 1)" using nat_radix_10(2) by blast
    then show ?thesis using not_digit(5,6) by metis
  qed
  then have h: "(2 \<le> length ?r \<and> ?r ! 0 = CHR ''0'' \<and> (?r ! 1 = CHR ''x'' \<or> ?r ! 1 = CHR ''X'')) = False" by blast
  have t: "takeWhile is_digit ?r = ?r" using nat_radix_10(2) by (simp add: takeWhile_eq_all_conv)
  show ?thesis
    unfolding js_parseInt_def d sign_decimal Let_def prod.case h if_False t
    by (simp add: nat_radix_10)
qed

lemma BigInt_digits:
  assumes "s \<noteq> []" "\<forall>c \<in> set s. is_digit c" "all_digits 10 s"
  shows "js_BigInt s = Inr (int (digits_val 10 s))"
proof -
  have "js_trim s = s" using assms(2) digit_no_space by (intro js_trim_id) blast
  moreover have "radix_prefix s = None" using assms(2) by (intro radix_prefix_digits) blast
  ultimately show ?thesis using assms sign_digits [OF assms(1,2)] by (simp add: js_BigInt_def Let_def)
qed

section \<open>Amounts\<close>

lemma split_none: "c \<notin> set s \<Longrightarrow> js_split c s = [s]"
  by (induction s) auto

lemma split_at: "c \<notin> set s \<Longrightarrow> js_split c (s @ c # t) = s # js_split c t"
  by (induction s) auto

lemma length_nat_radix: "n < 10 ^ k \<Longrightarrow> 0 < k \<Longrightarrow> length (nat_radix 10 n) \<le> k"
proof (induction k arbitrary: n)
  case (Suc k)
  show ?case
  proof (cases "n < 10")
    case False
    then have "n div 10 < 10 ^ k" "0 < k" using Suc.prems by (auto intro!: Nat.gr0I)
    with Suc.IH [of "n div 10"] show ?thesis by (subst nat_radix.simps) simp
  qed (subst nat_radix.simps, simp)
qed simp

lemma zero_digit: "is_digit (CHR ''0'')" "hex_val (CHR ''0'') = Some 0"
  by (simp_all add: is_digit_def hex_val_def code_of_def)

lemma digits_val_zeros: "digits_val 10 (replicate k (CHR ''0'') @ s) = digits_val 10 s"
  by (induction k) (simp_all add: digits_val_def zero_digit)

lemma all_digits_zeros: "s \<noteq> [] \<Longrightarrow> all_digits 10 (replicate k (CHR ''0'') @ s) = all_digits 10 s"
  by (induction k) (simp_all add: all_digits_def zero_digit)

text \<open>The nine digits of the fraction.\<close>

definition nano_digits :: "nat \<Rightarrow> string" where
  "nano_digits m = replicate (9 - length (nat_radix 10 m)) (CHR ''0'') @ nat_radix 10 m"

lemma nano_digits:
  assumes "m < 10 ^ 9"
  shows "length (nano_digits m) = 9" "\<forall>c \<in> set (nano_digits m). is_digit c" "js_BigInt (nano_digits m) = Inr (int m)"
proof -
  show "length (nano_digits m) = 9" using length_nat_radix [OF assms] by (simp add: nano_digits_def)
  show d: "\<forall>c \<in> set (nano_digits m). is_digit c" using nat_radix_10(2) zero_digit by (auto simp: nano_digits_def)
  show "js_BigInt (nano_digits m) = Inr (int m)"
    using BigInt_digits [OF _ d] nat_radix_10 [of m] by (simp add: nano_digits_def all_digits_zeros digits_val_zeros)
qed

abbreviation without_zeros :: "string \<Rightarrow> string" where
  "without_zeros s \<equiv> rev (dropWhile (\<lambda>c. c = CHR ''0'') (rev s))"

lemma without_zeros_append:
  "without_zeros s @ replicate (length s - length (without_zeros s)) (CHR ''0'') = s"
proof -
  let ?z = "takeWhile (\<lambda>c. c = CHR ''0'') (rev s)"
  have s: "s = without_zeros s @ rev ?z"
    by (metis rev_append rev_rev_ident takeWhile_dropWhile_id)
  moreover have "rev ?z = replicate (length ?z) (CHR ''0'')"
    by (intro replicate_eqI) (auto dest: set_takeWhileD)
  moreover have "length ?z = length s - length (without_zeros s)" using arg_cong [OF s, of length] by simp
  ultimately show ?thesis by simp
qed

lemma without_zeros_digits: "\<forall>c \<in> set s. is_digit c \<Longrightarrow> \<forall>c \<in> set (without_zeros s). is_digit c"
  by (auto dest: set_dropWhileD)

lemma replicate_nine: "x # replicate 8 x = replicate 9 x"
  by (simp add: eval_nat_numeral)

lemma toNano_parts:
  assumes "\<forall>c \<in> set whole. is_digit c" "whole \<noteq> []" "js_BigInt whole = Inr (int w)" "m < 10 ^ 9"
    and frac: "frac = without_zeros (nano_digits m)"
  shows "(case strip_minus neg (whole @ (if frac = [] then [] else CHR ''.'' # frac)) of (neg', src) \<Rightarrow>
      neg' = neg \<and> src \<noteq> ''.'' \<and> js_split (CHR ''.'') src = (if frac = [] then [whole] else [whole, frac]))"
    "length frac \<le> 9" "js_BigInt (let f = (if frac = [] then ''0'' else frac) in f @ replicate (9 - length f) (CHR ''0'')) = Inr (int m)"
proof -
  note d = nano_digits [OF assms(4)]
  have fd: "\<forall>c \<in> set frac. is_digit c" unfolding frac using d(2) by (rule without_zeros_digits)
  have "CHR ''.'' \<notin> set whole" "CHR ''.'' \<notin> set frac" using assms(1) fd not_digit(3) by blast+
  moreover obtain c cs where "whole = c # cs" "is_digit c" using assms(1,2) by (cases whole) auto
  moreover from this(2) have "c \<noteq> CHR ''-''" "c \<noteq> CHR ''.''" by auto
  ultimately show "(case strip_minus neg (whole @ (if frac = [] then [] else CHR ''.'' # frac)) of (neg', src) \<Rightarrow>
      neg' = neg \<and> src \<noteq> ''.'' \<and> js_split (CHR ''.'') src = (if frac = [] then [whole] else [whole, frac]))"
    using split_none [of "CHR ''.''" whole] split_at [of "CHR ''.''" whole frac] split_none [of "CHR ''.''" frac] by auto
  show "length frac \<le> 9" unfolding frac using d(1) length_dropWhile_le [of _ "rev (nano_digits m)"] by simp
  have "(let f = (if frac = [] then ''0'' else frac) in f @ replicate (9 - length f) (CHR ''0'')) = nano_digits m"
  proof (cases "frac = []")
    case True
    then have "nano_digits m = replicate (Suc 8) (CHR ''0'')"
      using d(1) by (intro replicate_eqI) (auto simp: frac)
    with True show ?thesis by (simp add: replicate_nine)
  next
    case False
    then show ?thesis using without_zeros_append [of "nano_digits m", folded frac] d(1) by (simp add: Let_def)
  qed
  then show "js_BigInt (let f = (if frac = [] then ''0'' else frac) in f @ replicate (9 - length f) (CHR ''0'')) = Inr (int m)"
    using d(3) by simp
qed

text \<open>Every amount in nanotons that is formatted is read back.\<close>

lemma toNano_fromNano_int: "toNano (fromNano_int v) = Inr v"
proof -
  define m where "m = nat (\<bar>v\<bar> mod 1000000000)"
  define w where "w = nat (\<bar>v\<bar> div 1000000000)"
  define frac where "frac = without_zeros (nano_digits m)"
  have m: "m < 10 ^ 9" by (simp add: m_def nat_less_iff)
  have "0 \<le> \<bar>v\<bar> div 1000000000" by (rule pos_imp_zdiv_nonneg_iff [THEN iffD2]) simp_all
  then have int: "\<bar>v\<bar> mod 1000000000 = int m" "\<bar>v\<bar> div 1000000000 = int w"
    unfolding m_def w_def by (simp_all only: nat_0_le pos_mod_sign)
  have mw: "int w * 1000000000 + int m = \<bar>v\<bar>" unfolding int [symmetric] by (rule div_mult_mod_eq)
  have radix: "to_string_radix 10 (\<bar>v\<bar> mod 1000000000) = nat_radix 10 m"
    "to_string_radix 10 (\<bar>v\<bar> div 1000000000) = nat_radix 10 w"
    unfolding int by (simp_all add: to_string_radix_def)
  have last: "frac \<noteq> ''0''"
  proof
    assume "frac = ''0''"
    then have "dropWhile (\<lambda>c. c = CHR ''0'') (rev (nano_digits m)) = ''0''" unfolding frac_def by simp
    then show False using hd_dropWhile [of "\<lambda>c. c = CHR ''0''" "rev (nano_digits m)"] by simp
  qed
  have out: "fromNano_int v = (if v < 0 then ''-'' else []) @
      (nat_radix 10 w @ (if frac = [] then [] else CHR ''.'' # frac))"
  proof -
    have fac: "strip_zeros (nano_digits m) = (if frac = [] then ''0'' else frac)"
      unfolding strip_zeros_def Let_def frac_def ..
    have dot: "(if (if frac = [] then ''0'' else frac) = ''0'' then [] else CHR ''.'' # (if frac = [] then ''0'' else frac)) =
        (if frac = [] then [] else CHR ''.'' # frac)"
      using last by (cases "frac = []") (simp_all only: if_True if_False simp_thms)
    have abs: "(if v < 0 then - v else v) = \<bar>v\<bar>" by simp
    show ?thesis
      unfolding fromNano_int_def Let_def abs radix nano_digits_def [symmetric] fac dot
      by (simp only: append_Cons append_Nil split: if_split) simp
  qed
  note p = toNano_parts [of "nat_radix 10 w" w m frac, OF nat_radix_10(2,1) _ m frac_def]
  have bw: "js_BigInt (nat_radix 10 w) = Inr (int w)"
    using BigInt_decimal [of "int w"] by (simp add: to_string_radix_def)
  obtain src where src: "strip_minus False (fromNano_int v) = (v < 0, src)" "src \<noteq> ''.''"
    "js_split (CHR ''.'') src = (if frac = [] then [nat_radix 10 w] else [nat_radix 10 w, frac])"
    using p(1) [OF bw, of False] p(1) [OF bw, of True] by (cases "v < 0") (auto simp: out split: prod.splits)
  have len: "length (if frac = [] then ''0'' else frac) \<le> 9" using p(2) [OF bw] by simp
  have f: "(if length (js_split (CHR ''.'') src) = 2 then js_split (CHR ''.'') src ! 1 else []) = frac"
    "js_split (CHR ''.'') src ! 0 = nat_radix 10 w" "\<not> length (js_split (CHR ''.'') src) > 2" by (auto simp: src(3))
  show ?thesis
    unfolding toNano_def src(1) prod.case Let_def f
    using p(3) [OF bw] src(2) len nat_radix_10(1) mw f(3) by (auto simp: bw Let_def)
qed

end
