(* ===== verification/Crc16.thy ===== *)
theory Crc16
  imports Ton_Address
begin

text \<open>
  The CRC-16 of friendly addresses: the register as a linear function of the message, the
  detection of errors that lie within sixteen bits, and the equality of the bitwise and the
  table-driven form.
\<close>

section \<open>One step on the bits of the register\<close>

definition crc16_ok :: "32 word \<Rightarrow> bool" where
  "crc16_ok r \<longleftrightarrow> (\<forall>n. bit r n \<longrightarrow> n < 16)"

lemma crc16_ok_less: "crc16_ok r \<longleftrightarrow> r < 0x10000"
proof -
  have "crc16_ok r \<longleftrightarrow> take_bit 16 r = r"
    unfolding crc16_ok_def bit_eq_iff bit_take_bit_iff by (fastforce dest: bit_imp_le_length)
  also have "\<dots> \<longleftrightarrow> uint r < 2 ^ 16" unfolding take_bit_eq_mask by (rule mask_eq_iff)
  also have "\<dots> \<longleftrightarrow> r < 2 ^ 16" by (rule word_2p_lem [symmetric]) (simp add: word_size)
  finally show ?thesis by simp
qed

lemma poly_bits: "bit crc16_poly n \<longleftrightarrow> n \<in> {0, 5, 12}"
proof -
  have poly: "crc16_poly = 1 OR push_bit 5 1 OR push_bit 12 1" by (simp add: crc16_poly_def)
  show ?thesis unfolding poly by (auto simp only: bit_or_iff bit_push_bit_iff bit_1_iff) simp_all
qed

lemma bit_crc16_bit:
  assumes "crc16_ok r"
  shows "bit (crc16_bit b r) n \<longleftrightarrow>
    n < 16 \<and> ((if n = 0 then b else bit r (n - 1)) \<noteq> (bit r 15 \<and> n \<in> {0, 5, 12}))"
proof -
  let ?s = "push_bit 1 r + (if b then 1 else 0)"
  have s: "bit ?s n \<longleftrightarrow> n < 32 \<and> (if n = 0 then b else bit r (n - 1))" for n
  proof -
    have "?s = push_bit 1 r OR (if b then 1 else 0)"
      by (rule disjunctive_add) (auto simp: bit_push_bit_iff bit_1_iff simp del: push_bit_Suc split: if_splits)
    then show ?thesis by (auto simp: bit_or_iff bit_push_bit_iff bit_1_iff simp del: push_bit_Suc push_bit_of_Suc_0)
  qed
  have "?s > 0xffff \<longleftrightarrow> \<not> crc16_ok ?s"
    by (simp add: crc16_ok_less not_less word_le_nat_alt word_less_nat_alt) linarith
  also have "\<dots> \<longleftrightarrow> bit r 15"
  proof
    assume "bit r 15"
    then have "bit ?s 16" unfolding s by simp
    then show "\<not> crc16_ok ?s" unfolding crc16_ok_def by blast
  next
    assume "\<not> crc16_ok ?s"
    then obtain m where "bit ?s m" "16 \<le> m" by (auto simp: crc16_ok_def not_less)
    then have m: "bit r (m - 1)" using s [of m] by (simp del: push_bit_Suc)
    with assms have "m - 1 < 16" by (simp add: crc16_ok_def)
    with \<open>16 \<le> m\<close> have "m - 1 = 15" by linarith
    with m show "bit r 15" by simp
  qed
  finally have gt: "?s > 0xffff \<longleftrightarrow> bit r 15" .
  have mask: "bit (0xffff :: 32 word) n \<longleftrightarrow> n < 16"
  proof -
    have m: "(0xffff :: 32 word) = mask 16" by (simp add: mask_eq_exp_minus_1)
    show ?thesis unfolding m bit_mask_iff by auto
  qed
  have low: "bit r m \<Longrightarrow> m < 16" for m using assms by (simp add: crc16_ok_def)
  show ?thesis
    unfolding crc16_bit_def Let_def gt
    using low [of "n - 1"] s [of n] mask poly_bits [of n]
    by (cases "bit r 15"; cases "n = 16") (auto simp: bit_and_iff bit_xor_iff less_Suc_eq)
qed

lemma crc16_bit_ok: "crc16_ok r \<Longrightarrow> crc16_ok (crc16_bit b r)"
  using bit_crc16_bit by (auto simp: crc16_ok_def)

lemma crc16_ok_0 [simp]: "crc16_ok 0"
  by (simp add: crc16_ok_def)

lemma crc16_ok_xor: "crc16_ok r \<Longrightarrow> crc16_ok s \<Longrightarrow> crc16_ok (r XOR s)"
  by (auto simp: crc16_ok_def bit_xor_iff)

lemma crc16_bit_xor:
  assumes "crc16_ok r" "crc16_ok s"
  shows "crc16_bit (a = (\<not> b)) (r XOR s) = crc16_bit a r XOR crc16_bit b s"
  using assms crc16_ok_xor [OF assms] by (intro bit_eqI) (auto simp: bit_crc16_bit bit_xor_iff)

lemma crc16_bit_zero: "crc16_ok r \<Longrightarrow> crc16_bit False r = 0 \<Longrightarrow> r = 0"
proof (rule ccontr)
  assume r: "crc16_ok r" "crc16_bit False r = 0" "r \<noteq> 0"
  have z: "n < 16 \<Longrightarrow> (if n = 0 then False else bit r (n - 1)) = (bit r 15 \<and> n \<in> {0, 5, 12})" for n
    using bit_crc16_bit [OF r(1), of False n] r(2) by auto
  from z [of 0] have "\<not> bit r 15" by simp
  moreover have "\<not> bit r n" if "n < 15" for n using z [of "Suc n"] that \<open>\<not> bit r 15\<close> by simp
  moreover have "bit r n \<Longrightarrow> n < 15 \<or> n = 15" for n using r(1) by (force simp: crc16_ok_def)
  ultimately have "\<not> bit r n" for n by blast
  with r(3) show False by (metis bit_0_eq bit_eqI bot_apply bot_bool_def)
qed

section \<open>The register of a message\<close>

definition crc16_feed :: "bool list \<Rightarrow> 32 word \<Rightarrow> 32 word" where
  "crc16_feed bs r = fold crc16_bit bs r"

lemma crc16_feed_simps [simp]:
  "crc16_feed [] r = r" "crc16_feed (b # bs) r = crc16_feed bs (crc16_bit b r)"
  "crc16_feed (xs @ ys) r = crc16_feed ys (crc16_feed xs r)"
  by (simp_all add: crc16_feed_def)

lemma crc16_feed_ok: "crc16_ok r \<Longrightarrow> crc16_ok (crc16_feed bs r)"
  by (induction bs arbitrary: r) (simp_all add: crc16_bit_ok)

lemma crc16_feed_xor:
  "length xs = length ys \<Longrightarrow> crc16_ok r \<Longrightarrow> crc16_ok s \<Longrightarrow>
    crc16_feed (map2 (\<lambda>x y. x = (\<not> y)) xs ys) (r XOR s) = crc16_feed xs r XOR crc16_feed ys s"
  by (induction xs ys arbitrary: r s rule: list_induct2) (simp_all add: crc16_bit_ok crc16_bit_xor)

lemma crc16_feed_zeros: "crc16_feed (replicate k False) 0 = 0"
proof (induction k)
  case (Suc k)
  have "crc16_bit False 0 = 0" by (rule bit_eqI) (simp add: bit_crc16_bit)
  with Suc show ?case by simp
qed simp

lemma crc16_feed_zeros_inj: "crc16_ok r \<Longrightarrow> crc16_feed (replicate k False) r = 0 \<Longrightarrow> r = 0"
  by (induction k arbitrary: r) (auto dest: crc16_bit_zero crc16_bit_ok)

text \<open>Up to sixteen bits just sit in the register.\<close>

lemma bit_crc16_short:
  "length e \<le> 16 \<Longrightarrow> bit (crc16_feed e 0) n \<longleftrightarrow> n < length e \<and> e ! (length e - 1 - n)"
proof (induction e arbitrary: n rule: rev_induct)
  case (snoc x e)
  let ?r = "crc16_feed e 0"
  have r: "bit ?r m \<longleftrightarrow> m < length e \<and> e ! (length e - 1 - m)" for m using snoc by simp
  then have "\<not> bit ?r 15" using snoc.prems by simp
  moreover have "crc16_ok ?r" by (rule crc16_feed_ok) simp
  ultimately have "bit (crc16_feed (e @ [x]) 0) n \<longleftrightarrow> n < 16 \<and> (if n = 0 then x else bit ?r (n - 1))"
    using bit_crc16_bit [of ?r x n] by auto
  also have "\<dots> \<longleftrightarrow> n < length (e @ [x]) \<and> (e @ [x]) ! (length (e @ [x]) - 1 - n)"
    using snoc.prems by (cases n) (auto simp: r nth_append)
  finally show ?case .
qed simp

text \<open>An error within sixteen bits is seen, wherever it lies.\<close>

lemma crc16_burst:
  assumes "length e \<le> 16" "True \<in> set e"
  shows "crc16_feed (replicate k False @ e @ replicate m False) 0 \<noteq> 0"
proof
  assume "crc16_feed (replicate k False @ e @ replicate m False) 0 = 0"
  then have "crc16_feed e 0 = 0"
    using crc16_feed_zeros_inj [OF crc16_feed_ok [OF crc16_ok_0]] by (simp add: crc16_feed_zeros)
  moreover obtain i where "i < length e" "e ! i" using assms(2) by (metis in_set_conv_nth)
  then have "bit (crc16_feed e 0) (length e - 1 - i)" using bit_crc16_short [OF assms(1)] by simp
  ultimately show False by simp
qed

lemma map2_xor_self: "map2 (\<lambda>x y. x = (\<not> y)) xs xs = replicate (length xs) False"
  by (induction xs) simp_all

text \<open>Two messages that differ only within sixteen bits have different registers.\<close>

lemma crc16_feed_differ:
  assumes "length e = length e'" "length e \<le> 16" "e \<noteq> e'"
  shows "crc16_feed (xs @ e @ ys) 0 \<noteq> crc16_feed (xs @ e' @ ys) 0"
proof
  assume eq: "crc16_feed (xs @ e @ ys) 0 = crc16_feed (xs @ e' @ ys) 0"
  let ?d = "map2 (\<lambda>x y. x = (\<not> y)) e e'"
  have "map2 (\<lambda>x y. x = (\<not> y)) (xs @ e @ ys) (xs @ e' @ ys) = replicate (length xs) False @ ?d @ replicate (length ys) False"
    using assms(1) by (simp add: map2_xor_self zip_append)
  then have "crc16_feed (replicate (length xs) False @ ?d @ replicate (length ys) False) 0 = 0"
    using crc16_feed_xor [of "xs @ e @ ys" "xs @ e' @ ys" 0 0] eq assms(1) by simp
  moreover have "True \<in> set ?d"
  proof -
    obtain i where "i < length e" "e ! i \<noteq> e' ! i" using assms(1,3) nth_equalityI by blast
    then have "?d ! i" "i < length ?d" using assms(1) by auto
    then show ?thesis by (metis nth_mem)
  qed
  ultimately show False using crc16_burst [of ?d] assms(1,2) by simp
qed

section \<open>The checksum in front of the message's end\<close>

lemma crc16_reg_feed: "crc16_reg data = crc16_feed (buf_bits data @ replicate 16 False) 0"
  using buf_bits_replicate_0 [of 2] by (simp add: crc16_reg_def crc16_feed_def numeral_2_eq_2)

lemma map2_xor_zeros:
  "map2 (\<lambda>x y. x = (\<not> y)) (replicate (length xs) False) xs = xs"
  "map2 (\<lambda>x y. x = (\<not> y)) xs (replicate (length xs) False) = xs"
  by (induction xs) simp_all

lemma crc16_feed_append:
  assumes "length e = n" "crc16_ok r"
  shows "crc16_feed e r = crc16_feed (replicate n False) r XOR crc16_feed e 0"
  using crc16_feed_xor [of "replicate n False" e r 0] assms map2_xor_zeros(1) [of e] by simp

lemma xor_zero: "(a :: 32 word) XOR b = 0 \<longleftrightarrow> a = b"
  by (auto simp: bit_eq_iff bit_xor_iff)

lemma low_high:
  "(\<forall>n < (16 :: nat). A n \<longleftrightarrow> (if n < 8 then D n else C (n - 8))) \<longleftrightarrow> (\<forall>n < 8. A n \<longleftrightarrow> D n) \<and> (\<forall>n < 8. A (n + 8) \<longleftrightarrow> C n)"
  (is "?L \<longleftrightarrow> ?R")
proof
  assume L: ?L
  have "A (n + 8) \<longleftrightarrow> C n" if "n < 8" for n using L that by simp
  with L show ?R by simp
next
  assume R: ?R
  have "A n \<longleftrightarrow> C (n - 8)" if "8 \<le> n" "n < 16" for n
    using R [THEN conjunct2, rule_format, of "n - 8"] that by simp
  with R show ?L by simp
qed

text \<open>A message followed by its own checksum leaves nothing in the register.\<close>

lemma crc16_valid:
  "crc16 data = [c, d] \<longleftrightarrow> crc16_feed (buf_bits (data @ [c, d])) 0 = 0"
proof -
  let ?e = "buf_bits [c, d]"
  define reg where "reg = crc16_reg data"
  have ok: "crc16_ok (crc16_feed (buf_bits data) 0)" by (rule crc16_feed_ok) simp
  have reg_ok: "crc16_ok reg" unfolding reg_def crc16_reg_feed by (rule crc16_feed_ok) simp
  define q where "q = crc16_feed ?e 0"
  have e: "bit q n \<longleftrightarrow> n < 16 \<and> (if n < 8 then bit d n else bit c (n - 8))" for n
  proof -
    have "?e ! (15 - n) = (if n < 8 then bit d n else bit c (n - 8))" if "n < 16"
    proof (cases "n < 8")
      case True
      then have "15 - n = 7 - n + 8" by simp
      then have "(15 - n) div 8 = 1" "(15 - n) mod 8 = 7 - n" by (simp_all only: div_add_self2 mod_add_self2) simp_all
      with True show ?thesis by (subst nth_buf_bits) simp_all
    next
      case False
      with that have "(15 - n) div 8 = 0" "(15 - n) mod 8 = 15 - n" by auto
      moreover from False that have "7 - (15 - n) = n - 8" by simp
      ultimately show ?thesis using False by (subst nth_buf_bits) simp_all
    qed
    then show ?thesis unfolding q_def by (subst bit_crc16_short) auto
  qed
  have "crc16_feed (buf_bits (data @ [c, d])) 0 = crc16_feed ?e (crc16_feed (buf_bits data) 0)" by simp
  also have "\<dots> = reg XOR q"
    using crc16_feed_append [of ?e 16, OF _ ok] by (simp add: reg_def crc16_reg_feed q_def)
  finally have "crc16_feed (buf_bits (data @ [c, d])) 0 = 0 \<longleftrightarrow> reg = q"
    by (simp add: xor_zero)
  also have "\<dots> \<longleftrightarrow> (\<forall>n < 16. bit reg n \<longleftrightarrow> (if n < 8 then bit d n else bit c (n - 8)))"
    using reg_ok by (auto simp: bit_eq_iff e crc16_ok_def)
  also have "\<dots> \<longleftrightarrow> (\<forall>n < 8. bit reg n \<longleftrightarrow> bit d n) \<and> (\<forall>n < 8. bit reg (n + 8) \<longleftrightarrow> bit c n)"
    by (rule low_high)
  also have "\<dots> \<longleftrightarrow> crc16 data = [c, d]"
    by (auto simp: crc16_def reg_def [symmetric] bit_eq_iff bit_ucast_iff bit_drop_bit_eq add.commute)
  finally show ?thesis by blast
qed

section \<open>The table\<close>

lemma methodId_TABLE_doubles:
  "methodId_TABLE = concat (map (\<lambda>x. [crc16_bit False x, crc16_bit False x XOR 0x1021]) (take 128 methodId_TABLE))"
  by (simp add: methodId_TABLE_def crc16_bit_def crc16_poly_def)

text \<open>The register that sixteen zeros make of a byte.\<close>

definition crc16_table :: "32 word \<Rightarrow> 32 word" where
  "crc16_table i = crc16_feed (replicate 16 False) i"

lemma crc16_feed_snoc_zero:
  "crc16_feed (replicate n False) (crc16_bit False r) = crc16_bit False (crc16_feed (replicate n False) r)"
  by (induction n arbitrary: r) simp_all

lemma crc16_feed_zeros_xor:
  "crc16_ok r \<Longrightarrow> crc16_ok s \<Longrightarrow>
    crc16_feed (replicate n False) (r XOR s) = crc16_feed (replicate n False) r XOR crc16_feed (replicate n False) s"
  using crc16_feed_xor [of "replicate n False" "replicate n False" r s] by (simp add: map2_xor_self)

lemma bit_crc16_byte:
  "k \<le> 8 \<Longrightarrow> bit (crc16_feed (byte_bits w @ replicate k False) 0) n \<longleftrightarrow> k \<le> n \<and> bit w (n - k)"
proof -
  assume k: "k \<le> 8"
  have "(byte_bits w @ replicate k False) ! (7 + k - n) = (k \<le> n \<and> bit w (n - k))" if "n < 8 + k"
  proof (cases "k \<le> n")
    case True
    then have "7 + k - n < 8" "7 - (7 + k - n) = n - k" using that by linarith+
    with True show ?thesis by (simp add: nth_append nth_byte_bits)
  next
    case False
    then have "\<not> 7 + k - n < 8" by linarith
    with False that show ?thesis by (simp add: nth_append)
  qed
  moreover have "n < 8 + k" if "k \<le> n" "bit w (n - k)" using that bit_imp_le_length [of w "n - k"] by simp
  moreover have "length (byte_bits w @ replicate k False) \<le> 16" using k by simp
  ultimately show ?thesis by (subst bit_crc16_short) auto
qed

lemma crc16_feed_byte: "crc16_feed (byte_bits w) 0 = ucast w"
  using bit_crc16_byte [of 0 w] by (intro bit_eqI) (auto simp: bit_ucast_iff dest: bit_imp_le_length)

lemma crc16_feed_byte_8: "crc16_feed (replicate 8 False) (ucast w) = push_bit 8 (ucast (w :: byte))"
proof (rule bit_eqI)
  fix n
  have "crc16_feed (replicate 8 False) (ucast w) = crc16_feed (byte_bits w @ replicate 8 False) 0"
    by (simp only: crc16_feed_simps(3) crc16_feed_byte)
  then have "bit (crc16_feed (replicate 8 False) (ucast w)) n \<longleftrightarrow> 8 \<le> n \<and> bit w (n - 8)"
    using bit_crc16_byte [of 8 w n] by (simp only: order_refl)
  then show "bit (crc16_feed (replicate 8 False) (ucast w)) n = bit (push_bit 8 (ucast w) :: 32 word) n"
    by (auto simp: bit_push_bit_iff bit_ucast_iff dest: bit_imp_le_length)
qed

text \<open>The table is linear too: an entry follows from the one at half its index.\<close>

lemma nth_pairs:
  "i < length xs \<Longrightarrow> concat (map (\<lambda>x. [f x, g x]) xs) ! (2 * i) = f (xs ! i)"
  "i < length xs \<Longrightarrow> concat (map (\<lambda>x. [f x, g x]) xs) ! Suc (2 * i) = g (xs ! i)"
  by (induction xs arbitrary: i) (auto simp: nth_Cons split: nat.splits)

lemma crc16_ok_nat: "i < 65536 \<Longrightarrow> crc16_ok (word_of_nat i)"
  by (simp add: crc16_ok_less word_less_nat_alt unat_of_nat take_bit_nat_eq_self)

lemma zeros_16: "replicate 16 x = [x, x, x, x, x, x, x, x, x, x, x, x, x, x, x, x]"
  by (simp add: numeral_eq_Suc)

lemma crc16_table_double:
  assumes "i < 128"
  shows "crc16_table (word_of_nat (2 * i)) = crc16_bit False (crc16_table (word_of_nat i))"
    "crc16_table (word_of_nat (Suc (2 * i))) = crc16_bit False (crc16_table (word_of_nat i)) XOR 0x1021"
proof -
  have small: "\<not> 0xffff < (word_of_nat (2 * i) :: 32 word)"
    using assms by (simp add: word_less_nat_alt unat_of_nat take_bit_nat_eq_self del: of_nat_mult)
  have "crc16_bit False (word_of_nat i) = word_of_nat (2 * i)"
    using small unfolding crc16_bit_def Let_def by (simp add: push_bit_eq_mult mult.commute)
  then show even: "crc16_table (word_of_nat (2 * i)) = crc16_bit False (crc16_table (word_of_nat i))"
    unfolding crc16_table_def by (metis crc16_feed_snoc_zero)
  have "(word_of_nat (Suc (2 * i)) :: 32 word) = word_of_nat (2 * i) XOR 1"
    by (simp add: xor_one_eq add.commute)
  moreover have "crc16_table 1 = 0x1021"
    by (simp add: crc16_table_def zeros_16 crc16_bit_def crc16_poly_def)
  moreover have "crc16_ok (word_of_nat (2 * i))" "crc16_ok 1"
    using assms crc16_ok_nat [of "2 * i"] crc16_ok_nat [of 1] by simp_all
  ultimately show "crc16_table (word_of_nat (Suc (2 * i))) = crc16_bit False (crc16_table (word_of_nat i)) XOR 0x1021"
    using crc16_feed_zeros_xor [of "word_of_nat (2 * i)" 1 16] even unfolding crc16_table_def by metis
qed

lemma methodId_TABLE_nth: "i < 256 \<Longrightarrow> methodId_TABLE ! i = crc16_table (word_of_nat i)"
proof (induction i rule: less_induct)
  case (less i)
  let ?h = "i div 2"
  have len: "length methodId_TABLE = 256" by (simp add: methodId_TABLE_def)
  have h: "?h < length (take 128 methodId_TABLE)" using less.prems len by simp
  show ?case
  proof (cases "i = 0")
    case True
    then show ?thesis by (simp add: methodId_TABLE_def crc16_table_def crc16_feed_zeros)
  next
    case False
    then have IH: "methodId_TABLE ! ?h = crc16_table (word_of_nat ?h)" using less by simp
    have "?h < 128" using less.prems by simp
    note double = crc16_table_double [OF this]
    show ?thesis
    proof (cases "even i")
      case True
      then have i: "2 * ?h = i" by simp
      have "methodId_TABLE ! (2 * ?h) = crc16_bit False (methodId_TABLE ! ?h)"
        using nth_pairs(1) [OF h] \<open>?h < 128\<close> by (subst methodId_TABLE_doubles) simp
      then show ?thesis using double(1) IH unfolding i by simp
    next
      case False
      then have i: "Suc (2 * ?h) = i" by simp
      have "methodId_TABLE ! Suc (2 * ?h) = crc16_bit False (methodId_TABLE ! ?h) XOR 0x1021"
        using nth_pairs(2) [OF h] \<open>?h < 128\<close> by (subst methodId_TABLE_doubles) simp
      then show ?thesis using double(2) IH unfolding i by simp
    qed
  qed
qed

section \<open>The two forms agree\<close>

lemma crc16_split:
  assumes "crc16_ok r"
  defines "hi \<equiv> ucast (drop_bit 8 r) :: byte" and "lo \<equiv> ucast r :: byte"
  shows "r = push_bit 8 (ucast hi) XOR ucast lo" "drop_bit 8 r = ucast hi"
  unfolding hi_def lo_def using assms
  by (intro bit_eqI; fastforce simp: bit_xor_iff bit_push_bit_iff bit_ucast_iff bit_drop_bit_eq crc16_ok_def dest: bit_imp_le_length)+

lemma crc16_ok_ucast: "crc16_ok (ucast (w :: byte))" "crc16_ok (push_bit 8 (ucast (w :: byte)))"
  by (auto simp: crc16_ok_def bit_ucast_iff bit_push_bit_iff dest: bit_imp_le_length)

lemma crc16_table_byte: "crc16_table (ucast (w :: byte)) = crc16_feed (replicate 8 False) (push_bit 8 (ucast w))"
proof -
  have "replicate 16 False = replicate 8 False @ replicate 8 False" by (simp flip: replicate_add)
  then show ?thesis by (simp only: crc16_table_def crc16_feed_simps crc16_feed_byte_8)
qed

text \<open>Eight zeros: the high byte goes through the table, the low one moves up.\<close>

lemma crc16_feed_8:
  assumes "crc16_ok r"
  shows "crc16_feed (replicate 8 False) r = crc16_table (drop_bit 8 r) XOR push_bit 8 (ucast (ucast r :: byte))"
proof -
  note split = crc16_split [OF assms]
  have "crc16_feed (replicate 8 False) r =
      crc16_feed (replicate 8 False) (push_bit 8 (ucast (ucast (drop_bit 8 r) :: byte))) XOR
      crc16_feed (replicate 8 False) (ucast (ucast r :: byte))"
    by (subst (1) split(1)) (rule crc16_feed_zeros_xor [OF crc16_ok_ucast(2,1)])
  moreover have "crc16_table (drop_bit 8 r) = crc16_feed (replicate 8 False) (push_bit 8 (ucast (ucast (drop_bit 8 r) :: byte)))"
    by (subst split(2)) (rule crc16_table_byte)
  ultimately show ?thesis by (simp only: crc16_feed_byte_8)
qed

lemma crc16_reg_snoc:
  "crc16_reg (data @ [w]) = crc16_feed (replicate 8 False) (crc16_reg data) XOR crc16_table (ucast w)"
proof -
  define s where "s = crc16_feed (buf_bits data) 0"
  have s: "crc16_ok s" unfolding s_def by (rule crc16_feed_ok) simp
  let ?Z = "\<lambda>n. crc16_feed (replicate n False)"
  have "crc16_feed (byte_bits w) s = ?Z 8 s XOR ucast w"
    using crc16_feed_append [of "byte_bits w" 8 s] s by (simp add: crc16_feed_byte)
  then have "crc16_reg (data @ [w]) = ?Z 16 (?Z 8 s) XOR ?Z 16 (ucast w)"
    using crc16_feed_zeros_xor [OF crc16_feed_ok [OF s] crc16_ok_ucast(1)] by (simp add: crc16_reg_feed s_def)
  moreover have "?Z 16 (?Z 8 s) = ?Z 8 (?Z 16 s)"
    by (simp only: crc16_feed_simps(3) [symmetric] replicate_add [symmetric] add.commute)
  ultimately show ?thesis by (simp add: crc16_reg_feed s_def crc16_table_def)
qed

lemma masks: "(0xff :: 32 word) = mask 8" "(0xffff :: 32 word) = mask 16"
  by (simp_all add: mask_eq_exp_minus_1)

lemma ucast_byte_mask: "ucast (w :: byte) AND (mask 8 :: 32 word) = ucast w"
  using bit_imp_le_length [of w] by (intro bit_eqI) (auto simp: bit_and_iff bit_mask_iff bit_ucast_iff)

lemma unat_ucast_byte: "unat (ucast (w :: byte) :: 32 word) < 256"
proof -
  have w: "unat w < 256" using unsigned_less [of w, where 'a = nat] by simp
  then have "take_bit 32 (unat w) = unat w" by (intro take_bit_nat_eq_self) simp
  with w show ?thesis by (simp add: unsigned_ucast_eq)
qed

lemma methodId_crc16_reg: "methodId_crc16 data = crc16_reg data"
proof (induction data rule: rev_induct)
  case Nil
  show ?case using crc16_feed_zeros [of 16] by (simp add: methodId_crc16_def crc16_reg_feed)
next
  case (snoc w data)
  define c where "c = crc16_reg data"
  have c: "crc16_ok c" unfolding c_def crc16_reg_feed by (rule crc16_feed_ok) simp
  let ?x = "ucast (drop_bit 8 c) XOR w :: byte"
  have x: "drop_bit 8 c XOR ucast w = ucast ?x"
    by (subst crc16_split(2) [OF c]) (auto intro!: bit_eqI simp: bit_xor_iff bit_ucast_iff dest: bit_imp_le_length)
  have m: "ucast ?x AND (0xff :: 32 word) = ucast ?x"
    unfolding masks by (rule ucast_byte_mask)
  have i: "unat (ucast ?x :: 32 word) < 256" "word_of_nat (unat (ucast ?x :: 32 word)) = (ucast ?x :: 32 word)"
    using unat_ucast_byte [of ?x] by (simp_all only: of_nat_unat ucast_id)
  have "methodId_crc16 (data @ [w]) = (crc16_table (ucast ?x) XOR push_bit 8 c) AND 0xffff"
    using methodId_TABLE_nth [OF i(1)] i(2) snoc by (simp add: methodId_crc16_def c_def [symmetric] x m)
  also have "\<dots> = crc16_table (ucast ?x) XOR push_bit 8 (ucast (ucast c :: byte))"
  proof (rule bit_eqI)
    fix n
    have "crc16_ok (crc16_table (ucast ?x))" unfolding crc16_table_def by (rule crc16_feed_ok [OF crc16_ok_ucast(1)])
    then have "bit (crc16_table (ucast ?x)) n \<Longrightarrow> n < 16" by (simp add: crc16_ok_def)
    then show "bit ((crc16_table (ucast ?x) XOR push_bit 8 c) AND 0xffff) n =
        bit (crc16_table (ucast ?x) XOR push_bit 8 (ucast (ucast c :: byte))) n"
      unfolding masks bit_and_iff bit_mask_iff bit_xor_iff bit_push_bit_iff bit_ucast_iff
      by (cases "n < 8"; cases "n < 16") (auto dest: bit_imp_le_length)
  qed
  also have "crc16_table (ucast ?x) = crc16_table (drop_bit 8 c) XOR crc16_table (ucast w)"
  proof -
    have "crc16_ok (drop_bit 8 c)" by (subst crc16_split(2) [OF c]) (rule crc16_ok_ucast)
    then show ?thesis
      unfolding crc16_table_def x [symmetric] by (rule crc16_feed_zeros_xor [OF _ crc16_ok_ucast(1)])
  qed
  finally show ?case
    using crc16_reg_snoc [of data w] crc16_feed_8 [OF c] by (simp add: c_def ac_simps)
qed

end
