(* ===== verification/Level_Mask.thy ===== *)
theory Level_Mask
  imports Padded_Bits
begin

text \<open>
  \<open>LevelMask\<close> (ton-core/boc/cell/LevelMask.ts): the set of levels at which a cell has a hash
  of its own. The bit-counting trick of \<open>countSetBits\<close> is shown to count bits for every
  mask that a cell can carry (a byte).
\<close>

record level_mask =
  lm_mask :: int
  lm_hashIndex :: int
  lm_hashCount :: int

definition countSetBits :: "int \<Rightarrow> int" where
  "countSetBits n =
     (let n1 = n - js_and (js_shr n 1) 0x55555555;
          n2 = js_and n1 0x33333333 + js_and (js_shr n1 2) 0x33333333
      in js_shr (js_and (n2 + js_shr n2 4) 0xF0F0F0F * 0x1010101) 24)"

definition new_LevelMask :: "int \<Rightarrow> level_mask" where
  "new_LevelMask n =
     \<lparr>lm_mask = n, lm_hashIndex = countSetBits n, lm_hashCount = countSetBits n + 1\<rparr>"

definition LevelMask_value :: "level_mask \<Rightarrow> int" where
  "LevelMask_value m = lm_mask m"

definition LevelMask_level :: "level_mask \<Rightarrow> int" where
  \<comment> \<open>\<open>32 - Math.clz32(mask)\<close>: the bit length of the unsigned 32-bit mask\<close>
  "LevelMask_level m = int (bit_length (nat (lm_mask m mod 2 ^ 32)))"

definition LevelMask_hashIndex :: "level_mask \<Rightarrow> int" where
  "LevelMask_hashIndex m = lm_hashIndex m"

definition LevelMask_hashCount :: "level_mask \<Rightarrow> int" where
  "LevelMask_hashCount m = lm_hashCount m"

definition LevelMask_apply :: "level_mask \<Rightarrow> nat \<Rightarrow> level_mask" where
  "LevelMask_apply m level = new_LevelMask (js_and (lm_mask m) (js_shl 1 level - 1))"

definition LevelMask_isSignificant :: "level_mask \<Rightarrow> nat \<Rightarrow> bool" where
  "LevelMask_isSignificant m level \<longleftrightarrow>
     level = 0 \<or> js_rem (js_shr (lm_mask m) (level - 1)) 2 \<noteq> 0"

section \<open>Facts\<close>

definition popcount :: "int \<Rightarrow> nat" where
  "popcount n = length (filter (bit n) [0..<3])"

text \<open>The eight masks a cell can carry are evaluated by the kernel.\<close>

lemma less_8_cases: "k < (8::nat) \<Longrightarrow> k \<in> {0, 1, 2, 3, 4, 5, 6, 7}"
  by auto

lemma countSetBits_table:
  "list_all (\<lambda>n. countSetBits n = int (popcount n)) [0, 1, 2, 3, 4, 5, 6, 7]"
  by code_simp

lemma countSetBits_popcount:
  assumes "0 \<le> n" "n < 8"
  shows "countSetBits n = int (popcount n)"
proof -
  from assms have "n \<in> {0, 1, 2, 3, 4, 5, 6, 7}" by auto
  with countSetBits_table show ?thesis by auto
qed

definition wf_mask :: "level_mask \<Rightarrow> bool" where
  "wf_mask m \<longleftrightarrow> 0 \<le> lm_mask m \<and> lm_mask m < 8 \<and> m = new_LevelMask (lm_mask m)"

lemma wf_mask_new: "0 \<le> n \<Longrightarrow> n < 8 \<Longrightarrow> wf_mask (new_LevelMask n)"
  by (simp add: wf_mask_def new_LevelMask_def)

lemma level_table:
  "list_all (\<lambda>n. LevelMask_level (new_LevelMask n) =
     (if bit n 2 then 3 else if bit n 1 then 2 else if bit n 0 then 1 else 0)) [0, 1, 2, 3, 4, 5, 6, 7]"
  by code_simp

lemma significant_table:
  "list_all (\<lambda>n. list_all (\<lambda>l. LevelMask_isSignificant (new_LevelMask n) l = (l = 0 \<or> bit n (l - 1)))
     [0, 1, 2, 3]) [0, 1, 2, 3, 4, 5, 6, 7]"
  by code_simp

lemma apply_table:
  "list_all (\<lambda>n. list_all (\<lambda>l. js_and n (js_shl 1 l - 1) = take_bit l n) [0, 1, 2, 3])
     [0, 1, 2, 3, 4, 5, 6, 7]"
  by code_simp

lemma mask_cases:
  "0 \<le> n \<Longrightarrow> n < 8 \<Longrightarrow> n \<in> set [0, 1, 2, 3, 4, 5, 6, 7 :: int]"
  by auto

lemma level_cases: "l < 4 \<Longrightarrow> l \<in> set [0, 1, 2, 3 :: nat]"
  by auto

lemma LevelMask_level_eq:
  assumes "wf_mask m"
  shows "LevelMask_level m =
     (if bit (lm_mask m) 2 then 3 else if bit (lm_mask m) 1 then 2 else if bit (lm_mask m) 0 then 1 else 0)"
  using assms level_table mask_cases [of "lm_mask m"] unfolding wf_mask_def list_all_iff by metis

lemma LevelMask_isSignificant_eq:
  assumes "wf_mask m" "l < 4"
  shows "LevelMask_isSignificant m l \<longleftrightarrow> l = 0 \<or> bit (lm_mask m) (l - 1)"
  using assms significant_table mask_cases [of "lm_mask m"] level_cases [of l]
  unfolding wf_mask_def list_all_iff by metis

lemma LevelMask_apply_eq:
  assumes "wf_mask m" "l < 4"
  shows "LevelMask_apply m l = new_LevelMask (take_bit l (lm_mask m))"
  using assms apply_table mask_cases [of "lm_mask m"] level_cases [of l]
  unfolding wf_mask_def list_all_iff LevelMask_apply_def by metis

lemma take_bit_mask_less:
  assumes "0 \<le> n" "n < 8"
  shows "take_bit l n < (8::int)"
  using assms take_bit_int_less_eq_self_iff [of l n] by linarith

lemma wf_mask_apply: "wf_mask m \<Longrightarrow> l < 4 \<Longrightarrow> wf_mask (LevelMask_apply m l)"
  unfolding LevelMask_apply_eq by (intro wf_mask_new) (auto simp: take_bit_mask_less wf_mask_def)

lemma wf_mask_hashIndex: "wf_mask m \<Longrightarrow> lm_hashIndex m = int (popcount (lm_mask m))"
  by (metis countSetBits_popcount level_mask.select_convs(2) new_LevelMask_def wf_mask_def)

lemma wf_mask_hashCount: "wf_mask m \<Longrightarrow> lm_hashCount m = int (popcount (lm_mask m)) + 1"
  by (metis countSetBits_popcount level_mask.select_convs(3) new_LevelMask_def wf_mask_def)

lemma wf_mask_level: "wf_mask m \<Longrightarrow> 0 \<le> LevelMask_level m \<and> LevelMask_level m \<le> 3"
  by (simp add: LevelMask_level_eq)

end
