(* ===== verification/Ton_Cell.thy ===== *)
theory Ton_Cell
  imports Level_Mask
begin

text \<open>
  \<open>Cell\<close> (ton-core/boc/Cell.ts) and the computation of its hashes: the representation of a
  cell (cell/descriptor.ts), the four kinds of exotic cells (cell/exotic*.ts,
  cell/resolveExotic.ts) and the level hashes (cell/wonderCalculator.ts). A cell is immutable
  and holds its children, so it is a tree; hashes and depths are computed when it is built.
  SHA-256 is the parameter \<open>sha\<close> of the definitions (the code calls the jssha package).
\<close>

section \<open>Model\<close>

datatype cell_type = Ordinary | PrunedBranch | Library | MerkleProof | MerkleUpdate

datatype cell = Cell (cell_type: cell_type) (cell_bits: bit_string) (cell_refs: "cell list")
  (cell_mask: level_mask) (cell_hashes: "buffer list") (cell_depths: "int list")

definition Cell_isExotic :: "cell \<Rightarrow> bool" where
  "Cell_isExotic c \<longleftrightarrow> cell_type c \<noteq> Ordinary"

text \<open>The default level of \<open>hash\<close> and \<open>depth\<close> is 3.\<close>

definition Cell_hash :: "cell \<Rightarrow> nat \<Rightarrow> buffer" where
  "Cell_hash c level = cell_hashes c ! (min (length (cell_hashes c) - 1) level)"

definition Cell_depth :: "cell \<Rightarrow> nat \<Rightarrow> int" where
  "Cell_depth c level = cell_depths c ! (min (length (cell_depths c) - 1) level)"

definition Cell_level :: "cell \<Rightarrow> int" where
  "Cell_level c = LevelMask_level (cell_mask c)"

definition Cell_equals :: "cell \<Rightarrow> cell \<Rightarrow> bool" where
  "Cell_equals a b \<longleftrightarrow> Cell_hash a 3 = Cell_hash b 3"

fun Cell_toString :: "string \<Rightarrow> cell \<Rightarrow> string res" where
  "Cell_toString ident (Cell type bits refs m hs ds) =
     (let t = (if type = MerkleProof then ''p'' else if type = MerkleUpdate then ''u''
               else if type = PrunedBranch then ''p'' else ''x'')
      in bindE (BitString_toString bits) (\<lambda>str.
         foldE (\<lambda>c s. bindE (Cell_toString (ident @ '' '') c) (\<lambda>u. Inr (s @ [CHR 0x0A] @ u)))
           refs (ident @ t @ ''{'' @ str @ ''}'')))"

subsection \<open>Descriptors and representation\<close>

definition getRefsDescriptor :: "cell list \<Rightarrow> int \<Rightarrow> cell_type \<Rightarrow> int" where
  "getRefsDescriptor refs levelMask type =
     int (length refs) + (if type \<noteq> Ordinary then 1 else 0) * 8 + levelMask * 32"

definition getBitsDescriptor :: "bit_string \<Rightarrow> int" where
  "getBitsDescriptor bits =
     (let len = int (bs_length bits) in ceil8 len + len div 8)"

definition child_level :: "cell_type \<Rightarrow> nat \<Rightarrow> nat" where
  "child_level type level =
     (if type = MerkleProof \<or> type = MerkleUpdate then level + 1 else level)"

definition getRepr ::
    "bit_string \<Rightarrow> bit_string \<Rightarrow> cell list \<Rightarrow> nat \<Rightarrow> int \<Rightarrow> cell_type \<Rightarrow> buffer res" where
  "getRepr originalBits bits refs level levelMask type =
     (let bitsLen = ceil8 (int (bs_length bits));
          repr = buf_alloc (nat (2 + bitsLen + (2 + 32) * int (length refs)));
          repr = buf_set repr 0 (getRefsDescriptor refs levelMask type);
          repr = buf_set repr 1 (getBitsDescriptor originalBits)
      in bindE (bitsToPaddedBuffer bits) (\<lambda>padded.
         let repr = buf_copy padded repr 2;
             (repr, reprCursor) =
               foldl (\<lambda>(repr, cur) c.
                   let childDepth = Cell_depth c (child_level type level);
                       repr = buf_set repr cur (childDepth div 256);
                       repr = buf_set repr (cur + 1) (js_rem childDepth 256)
                   in (repr, cur + 2)) (repr, 2 + bitsLen) refs;
             (repr, reprCursor) =
               foldl (\<lambda>(repr, cur) c.
                   (buf_copy (Cell_hash c (child_level type level)) repr (nat cur), cur + 32))
                 (repr, reprCursor) refs
         in Inr repr))"

subsection \<open>Exotic cells\<close>

definition exoticLibrary :: "bit_string \<Rightarrow> cell list \<Rightarrow> unit res" where
  "exoticLibrary bits refs =
     (if bs_length bits \<noteq> 8 + 256 then Inl InvalidExotic
      else bindE (BitReader_loadUint 8 (new_BitReader bits 0)) (\<lambda>(type, _).
           if type \<noteq> 2 then Inl InvalidExotic else Inr ()))"

definition exoticMerkleProof :: "bit_string \<Rightarrow> cell list \<Rightarrow> (int \<times> buffer) res" where
  "exoticMerkleProof bits refs =
     (if bs_length bits \<noteq> 8 + 256 + 16 then Inl InvalidExotic
      else if length refs \<noteq> 1 then Inl InvalidExotic
      else bindE (BitReader_loadUint 8 (new_BitReader bits 0)) (\<lambda>(type, reader).
      if type \<noteq> 3 then Inl InvalidExotic
      else bindE (BitReader_loadBuffer 32 reader) (\<lambda>(proofHash, reader).
      bindE (BitReader_loadUint 16 reader) (\<lambda>(proofDepth, reader).
      if proofDepth \<noteq> Cell_depth (refs ! 0) 0 then Inl InvalidExotic
      else if proofHash \<noteq> Cell_hash (refs ! 0) 0 then Inl InvalidExotic
      else Inr (proofDepth, proofHash)))))"

definition exoticMerkleUpdate ::
    "bit_string \<Rightarrow> cell list \<Rightarrow> ((int \<times> buffer) \<times> (int \<times> buffer)) res" where
  "exoticMerkleUpdate bits refs =
     (if bs_length bits \<noteq> 8 + (2 * (256 + 16)) then Inl InvalidExotic
      else if length refs \<noteq> 2 then Inl InvalidExotic
      else bindE (BitReader_loadUint 8 (new_BitReader bits 0)) (\<lambda>(type, reader).
      if type \<noteq> 4 then Inl InvalidExotic
      else bindE (BitReader_loadBuffer 32 reader) (\<lambda>(proofHash1, reader).
      bindE (BitReader_loadBuffer 32 reader) (\<lambda>(proofHash2, reader).
      bindE (BitReader_loadUint 16 reader) (\<lambda>(proofDepth1, reader).
      bindE (BitReader_loadUint 16 reader) (\<lambda>(proofDepth2, reader).
      if proofDepth1 \<noteq> Cell_depth (refs ! 0) 0 then Inl InvalidExotic
      else if proofHash1 \<noteq> Cell_hash (refs ! 0) 0 then Inl InvalidExotic
      else if proofDepth2 \<noteq> Cell_depth (refs ! 1) 0 then Inl InvalidExotic
      else if proofHash2 \<noteq> Cell_hash (refs ! 1) 0 then Inl InvalidExotic
      else Inr ((proofDepth1, proofHash1), (proofDepth2, proofHash2))))))))"

text \<open>A pruned branch carries one depth and hash per level below its own.\<close>

record exotic_pruned =
  ep_mask :: int
  ep_pruned :: "(int \<times> buffer) list"

definition exoticPruned :: "bit_string \<Rightarrow> cell list \<Rightarrow> exotic_pruned res" where
  "exoticPruned bits refs =
     bindE (BitReader_loadUint 8 (new_BitReader bits 0)) (\<lambda>(type, reader).
     if type \<noteq> 1 then Inl InvalidExotic
     else if length refs \<noteq> 0 then Inl InvalidExotic
     else bindE (if bs_length bits = 280 then Inr (new_LevelMask 1, reader)
       else bindE (BitReader_loadUint 8 reader) (\<lambda>(byte, reader).
         let m = new_LevelMask byte in
         if LevelMask_level m < 1 \<or> LevelMask_level m > 3 then Inl InvalidExotic
         else let len = 8 + 8 + LevelMask_hashCount (LevelMask_apply m (nat (LevelMask_level m - 1))) * (256 + 16)
              in if int (bs_length bits) \<noteq> len then Inl InvalidExotic
                 else Inr (m, reader))) (\<lambda>(m, reader).
     bindE (get_list (BitReader_loadBuffer 32) (nat (LevelMask_level m)) reader) (\<lambda>(hashes, reader).
     bindE (get_list (BitReader_loadUint 16) (nat (LevelMask_level m)) reader) (\<lambda>(depths, reader).
     Inr \<lparr>ep_mask = LevelMask_value m, ep_pruned = zip depths hashes\<rparr>))))"

record resolved =
  rs_type :: cell_type
  rs_depths :: "int list"
  rs_hashes :: "buffer list"
  rs_mask :: level_mask

definition resolvePruned :: "bit_string \<Rightarrow> cell list \<Rightarrow> resolved res" where
  "resolvePruned bits refs =
     bindE (exoticPruned bits refs) (\<lambda>pruned.
     Inr \<lparr>rs_type = PrunedBranch, rs_depths = map fst (ep_pruned pruned),
          rs_hashes = map snd (ep_pruned pruned), rs_mask = new_LevelMask (ep_mask pruned)\<rparr>)"

definition resolveLibrary :: "bit_string \<Rightarrow> cell list \<Rightarrow> resolved res" where
  "resolveLibrary bits refs =
     bindE (exoticLibrary bits refs) (\<lambda>_.
     Inr \<lparr>rs_type = Library, rs_depths = [], rs_hashes = [], rs_mask = new_LevelMask 0\<rparr>)"

definition resolveMerkleProof :: "bit_string \<Rightarrow> cell list \<Rightarrow> resolved res" where
  "resolveMerkleProof bits refs =
     bindE (exoticMerkleProof bits refs) (\<lambda>_.
     Inr \<lparr>rs_type = MerkleProof, rs_depths = [], rs_hashes = [],
          rs_mask = new_LevelMask (js_shr (Cell_level (refs ! 0)) 1)\<rparr>)"

definition resolveMerkleUpdate :: "bit_string \<Rightarrow> cell list \<Rightarrow> resolved res" where
  "resolveMerkleUpdate bits refs =
     bindE (exoticMerkleUpdate bits refs) (\<lambda>_.
     Inr \<lparr>rs_type = MerkleUpdate, rs_depths = [], rs_hashes = [],
          rs_mask = new_LevelMask (js_shr (js_or (Cell_level (refs ! 0)) (Cell_level (refs ! 1))) 1)\<rparr>)"

definition resolveExotic :: "bit_string \<Rightarrow> cell list \<Rightarrow> resolved res" where
  "resolveExotic bits refs =
     bindE (BitReader_preloadUint 8 (new_BitReader bits 0)) (\<lambda>type.
     if type = 1 then resolvePruned bits refs
     else if type = 2 then resolveLibrary bits refs
     else if type = 3 then resolveMerkleProof bits refs
     else if type = 4 then resolveMerkleUpdate bits refs
     else Inl InvalidExotic)"

subsection \<open>Level hashes\<close>

record wonders =
  wd_mask :: level_mask
  wd_hashes :: "buffer list"
  wd_depths :: "int list"

text \<open>The level mask of a cell, with the parsed content of a pruned branch.\<close>

fun wonder_mask ::
    "cell_type \<Rightarrow> bit_string \<Rightarrow> cell list \<Rightarrow> (level_mask \<times> exotic_pruned option) res" where
  "wonder_mask Ordinary bits refs =
     Inr (new_LevelMask (foldl (\<lambda>m r. js_or m (LevelMask_value (cell_mask r))) 0 refs), None)"
| "wonder_mask PrunedBranch bits refs =
     bindE (exoticPruned bits refs) (\<lambda>pruned. Inr (new_LevelMask (ep_mask pruned), Some pruned))"
| "wonder_mask MerkleProof bits refs =
     bindE (exoticMerkleProof bits refs) (\<lambda>_.
       Inr (new_LevelMask (js_shr (LevelMask_value (cell_mask (refs ! 0))) 1), None))"
| "wonder_mask MerkleUpdate bits refs =
     bindE (exoticMerkleUpdate bits refs) (\<lambda>_.
       Inr (new_LevelMask (js_shr (js_or (LevelMask_value (cell_mask (refs ! 0)))
                                         (LevelMask_value (cell_mask (refs ! 1)))) 1), None))"
| "wonder_mask Library bits refs =
     bindE (exoticLibrary bits refs) (\<lambda>_. Inr (new_LevelMask 0, None))"

definition wonder_depth :: "cell_type \<Rightarrow> cell list \<Rightarrow> nat \<Rightarrow> int" where
  "wonder_depth type refs levelI =
     (let d = foldl (\<lambda>d c. max d (Cell_depth c (child_level type levelI))) 0 refs
      in if length refs > 0 then d + 1 else d)"

text \<open>One round of the loop over the levels: the counter \<open>hashI\<close> and the two arrays.\<close>

fun wonder_step ::
    "(buffer \<Rightarrow> buffer) \<Rightarrow> cell_type \<Rightarrow> bit_string \<Rightarrow> cell list \<Rightarrow> level_mask \<Rightarrow> int \<Rightarrow> nat
     \<Rightarrow> int \<times> buffer list \<times> int list \<Rightarrow> (int \<times> buffer list \<times> int list) res" where
  "wonder_step sha type bits refs levelMask hashIOffset levelI (hashI, hashes, depths) =
     (if \<not> LevelMask_isSignificant levelMask levelI then Inr (hashI, hashes, depths)
      else if hashI < hashIOffset then Inr (hashI + 1, hashes, depths)
      else bindE
        (if hashI = hashIOffset
         then if \<not> (levelI = 0 \<or> type = PrunedBranch) then Inl InvalidLevel else Inr bits
         else if \<not> (levelI \<noteq> 0 \<and> type \<noteq> PrunedBranch) then Inl InvalidLevel
         else new_BitString (hashes ! nat (hashI - hashIOffset - 1)) 0 256) (\<lambda>currentBits.
      bindE (getRepr bits currentBits refs levelI
               (LevelMask_value (LevelMask_apply levelMask levelI)) type) (\<lambda>repr.
      let destI = nat (hashI - hashIOffset)
      in Inr (hashI + 1, arr_put hashes destI (sha repr),
              arr_put depths destI (wonder_depth type refs levelI)))))"

definition wonderCalculator ::
    "(buffer \<Rightarrow> buffer) \<Rightarrow> cell_type \<Rightarrow> bit_string \<Rightarrow> cell list \<Rightarrow> wonders res" where
  "wonderCalculator sha type bits refs =
     bindE (wonder_mask type bits refs) (\<lambda>(levelMask, pruned).
     let hashCount = (if type = PrunedBranch then 1 else LevelMask_hashCount levelMask);
         totalHashCount = LevelMask_hashCount levelMask;
         hashIOffset = totalHashCount - hashCount
     in bindE (foldE (wonder_step sha type bits refs levelMask hashIOffset)
                 [0..<nat (LevelMask_level levelMask + 1)] (0, [], [])) (\<lambda>(hashI, hashes, depths).
     let hashIndex = (\<lambda>i. nat (LevelMask_hashIndex (LevelMask_apply levelMask i)));
         entry = (\<lambda>i. case pruned of
             Some p \<Rightarrow>
               if int (hashIndex i) \<noteq> LevelMask_hashIndex levelMask
               then (snd (ep_pruned p ! hashIndex i), fst (ep_pruned p ! hashIndex i))
               else (hashes ! 0, depths ! 0)
           | None \<Rightarrow> (hashes ! hashIndex i, depths ! hashIndex i))
     in Inr \<lparr>wd_mask = levelMask, wd_hashes = map (\<lambda>i. fst (entry i)) [0..<4],
             wd_depths = map (\<lambda>i. snd (entry i)) [0..<4]\<rparr>))"

subsection \<open>The constructor\<close>

definition new_Cell :: "(buffer \<Rightarrow> buffer) \<Rightarrow> bool \<Rightarrow> bit_string \<Rightarrow> cell list \<Rightarrow> cell res" where
  "new_Cell sha exotic bits refs =
     (if exotic
      then bindE (resolveExotic bits refs) (\<lambda>resolved.
           bindE (wonderCalculator sha (rs_type resolved) bits refs) (\<lambda>w.
           Inr (Cell (rs_type resolved) bits refs (wd_mask w) (wd_hashes w) (wd_depths w))))
      else if length refs > 4 then Inl InvalidRefCount
      else if bs_length bits > 1023 then Inl BitsOverflow
      else bindE (wonderCalculator sha Ordinary bits refs) (\<lambda>w.
           Inr (Cell Ordinary bits refs (wd_mask w) (wd_hashes w) (wd_depths w))))"

definition Cell_EMPTY :: "(buffer \<Rightarrow> buffer) \<Rightarrow> cell res" where
  "Cell_EMPTY sha = new_Cell sha False BitString_EMPTY []"

end
