(* ===== verification/Cell_Repr.thy ===== *)
theory Cell_Repr
  imports Ton_Cell
begin

text \<open>
  The representation of a cell: \<open>getRepr\<close> fills a preallocated buffer through a cursor; it
  is shown to be the concatenation of the two descriptor bytes, the padded bits, the depths
  and the hashes of the children, and to determine the bits and the children's hashes.
\<close>

section \<open>Writing at a cursor\<close>

lemma buf_set_cursor:
  "buf_set (pre @ x # rest) (int (length pre)) v = pre @ word_of_int v # rest"
  by (simp add: buf_set_def)

lemma buf_copy_cursor:
  "length src \<le> length rest \<Longrightarrow>
     buf_copy src (pre @ rest) (length pre) = (pre @ src) @ drop (length src) rest"
  by (simp add: buf_copy_def)

definition depth_bytes :: "int \<Rightarrow> buffer" where
  "depth_bytes d = [word_of_int (d div 256), word_of_int (js_rem d 256)]"

lemma depths_at_cursor:
  assumes "2 * length refs \<le> length rest"
  shows "foldl (\<lambda>(repr, cur) c. (buf_set (buf_set repr cur (D c div 256)) (cur + 1) (js_rem (D c) 256), cur + 2))
      (pre @ rest, int (length pre)) refs =
    (pre @ concat (map (depth_bytes \<circ> D) refs) @ drop (2 * length refs) rest,
     int (length pre + 2 * length refs))"
  using assms
proof (induction refs arbitrary: pre rest)
  case (Cons c refs)
  then obtain x y zs where rest: "rest = x # y # zs"
    by (cases rest; cases "tl rest") auto
  have "buf_set (buf_set (pre @ rest) (int (length pre)) (D c div 256)) (int (length pre) + 1)
      (js_rem (D c) 256) = (pre @ depth_bytes (D c)) @ zs"
    using buf_set_cursor [of "pre @ [word_of_int (D c div 256)]" y zs "js_rem (D c) 256"]
    by (simp add: rest buf_set_cursor depth_bytes_def add.commute)
  moreover have "int (length pre) + 2 = int (length (pre @ depth_bytes (D c)))"
    by (simp add: depth_bytes_def)
  ultimately show ?case
    using Cons.IH [of zs "pre @ depth_bytes (D c)"] Cons.prems rest
    by (simp add: depth_bytes_def algebra_simps)
qed simp

lemma hashes_at_cursor:
  assumes "32 * length refs \<le> length rest" "\<forall>c \<in> set refs. length (H c) = 32"
  shows "foldl (\<lambda>(repr, cur) c. (buf_copy (H c) repr (nat cur), cur + 32))
      (pre @ rest, int (length pre)) refs =
    (pre @ concat (map H refs) @ drop (32 * length refs) rest,
     int (length pre + 32 * length refs))"
  using assms
proof (induction refs arbitrary: pre rest)
  case (Cons c refs)
  have "buf_copy (H c) (pre @ rest) (length pre) = (pre @ H c) @ drop 32 rest"
    using buf_copy_cursor [of "H c" rest pre] Cons.prems by simp
  moreover have "int (length pre) + 32 = int (length (pre @ H c))"
    using Cons.prems by simp
  ultimately show ?case
    using Cons.IH [of "drop 32 rest" "pre @ H c"] Cons.prems by (simp add: algebra_simps)
qed simp

section \<open>The representation\<close>

definition padded_bytes :: "bit_string \<Rightarrow> buffer" where
  "padded_bytes s = bytes_of_bits (bs_bits s @ padding (bs_length s))"

lemma bitsToPaddedBuffer_eq:
  assumes "bs_length s < 2 ^ 31 - 16"
  shows "bitsToPaddedBuffer s = Inr (padded_bytes s)"
    and "buf_bits (padded_bytes s) = bs_bits s @ padding (bs_length s)"
proof -
  obtain w where w: "bitsToPaddedBuffer s = Inr w" "buf_bits w = bs_bits s @ padding (bs_length s)"
    using bitsToPaddedBuffer_ok [OF assms] by blast
  then have "w = padded_bytes s"
    using bytes_of_bits_buf_bits [of w] by (simp add: padded_bytes_def)
  with w show "bitsToPaddedBuffer s = Inr (padded_bytes s)"
    "buf_bits (padded_bytes s) = bs_bits s @ padding (bs_length s)" by simp_all
qed

lemma length_padded_bytes: "length (padded_bytes s) = (bs_length s + 7) div 8"
proof -
  have "int (length (padded_bytes s)) = ceil8 (int (bs_length s))"
    using ceil8_padding [of "bs_length s"] ceil8_nonneg [of "int (bs_length s)"] length_padding(1) [of "bs_length s"]
    by (simp add: padded_bytes_def)
  then show ?thesis by (simp add: ceil8_nat)
qed

definition repr_of :: "int \<Rightarrow> int \<Rightarrow> bit_string \<Rightarrow> int list \<Rightarrow> buffer list \<Rightarrow> buffer" where
  "repr_of d1 d2 bits depths hashes =
     [word_of_int d1, word_of_int d2] @ padded_bytes bits @ concat (map depth_bytes depths) @ concat hashes"

lemma getRepr_ok:
  assumes "bs_length bits < 2 ^ 31 - 16"
    and "\<forall>c \<in> set refs. length (Cell_hash c (child_level type level)) = 32"
  shows "getRepr ob bits refs level lm type =
    Inr (repr_of (getRefsDescriptor refs lm type) (getBitsDescriptor ob) bits
          (map (\<lambda>c. Cell_depth c (child_level type level)) refs)
          (map (\<lambda>c. Cell_hash c (child_level type level)) refs))"
proof -
  let ?k = "(bs_length bits + 7) div 8" and ?n = "length refs"
  let ?p = "padded_bytes bits"
  let ?D = "\<lambda>c. Cell_depth c (child_level type level)"
  let ?H = "\<lambda>c. Cell_hash c (child_level type level)"
  define d1 d2 where d: "d1 = getRefsDescriptor refs lm type" "d2 = getBitsDescriptor ob"
  have size: "nat (2 + ceil8 (int (bs_length bits)) + (2 + 32) * int ?n) = Suc (Suc (?k + 34 * ?n))"
    by (simp add: ceil8_nat nat_add_distrib)
  let ?pre0 = "[word_of_int d1, word_of_int d2] :: buffer"
  have desc: "buf_set (buf_set (buf_alloc (Suc (Suc (?k + 34 * ?n)))) 0 d1) 1 d2 =
      ?pre0 @ replicate (?k + 34 * ?n) 0"
    by (simp add: buf_alloc_def buf_set_def)
  have copy: "buf_copy ?p (?pre0 @ replicate (?k + 34 * ?n) 0) (length ?pre0) =
      (?pre0 @ ?p) @ replicate (34 * ?n) 0"
    using buf_copy_cursor [of ?p "replicate (?k + 34 * ?n) 0" ?pre0]
    by (simp add: length_padded_bytes)
  let ?pre1 = "(?pre0 @ ?p) @ concat (map (depth_bytes \<circ> ?D) refs)"
  have deps: "foldl (\<lambda>(repr, cur) c. (buf_set (buf_set repr cur (?D c div 256)) (cur + 1) (js_rem (?D c) 256), cur + 2))
      ((?pre0 @ ?p) @ replicate (34 * ?n) 0, int (length (?pre0 @ ?p))) refs =
    (?pre1 @ replicate (32 * ?n) 0, int (length ?pre1))"
    by (subst depths_at_cursor) (simp_all add: length_concat depth_bytes_def comp_def sum_list_triv)
  have hss: "foldl (\<lambda>(repr, cur) c. (buf_copy (?H c) repr (nat cur), cur + 32))
      (?pre1 @ replicate (32 * ?n) 0, int (length ?pre1)) refs =
    (?pre1 @ concat (map ?H refs), int (length ?pre1 + 32 * ?n))"
    by (subst hashes_at_cursor) (use assms(2) in simp_all)
  have c: "length ?pre0 = 2" "2 + int ?k = int (length (?pre0 @ ?p))"
    by (simp_all add: length_padded_bytes)
  have "getRepr ob bits refs level lm type = Inr (?pre1 @ concat (map ?H refs))"
    unfolding getRepr_def Let_def d [symmetric] bitsToPaddedBuffer_eq(1) [OF assms(1)] bindE_simps
    unfolding size
    unfolding ceil8_nat desc copy [unfolded c(1)]
    unfolding c(2)
    by (simp only: deps hss prod.case)
  then show ?thesis by (simp add: repr_of_def d comp_def)
qed

section \<open>The representation determines the cell\<close>

lemma strip_padding:
  assumes "xs @ True # replicate j False = ys @ True # replicate k False"
  shows "xs = ys"
proof -
  have drop: "dropWhile Not (replicate i False @ zs) = dropWhile Not zs" for zs i
    by (induction i) simp_all
  have strip: "dropWhile Not (rev (zs @ True # replicate i False)) = True # rev zs" for zs i
    by (simp add: drop)
  show ?thesis
    using arg_cong [OF assms, of "\<lambda>zs. dropWhile Not (rev zs)"] unfolding strip by simp
qed

lemma ceil_floor: "((n::nat) + 7) div 8 = n div 8 + (if n mod 8 = 0 then 0 else 1)"
  by (cases "n mod 8 = 0") (auto, presburger+)

lemma bits_descriptor:
  "getBitsDescriptor s = int ((bs_length s + 7) div 8 + bs_length s div 8)"
  by (simp add: getBitsDescriptor_def ceil8_nat Let_def zdiv_int)

lemma bits_descriptor_byte: "bs_length s \<le> 1023 \<Longrightarrow> 0 \<le> getBitsDescriptor s \<and> getBitsDescriptor s < 256"
  using div_le_mono [of "bs_length s" 1023 8] by (auto simp: bits_descriptor ceil_floor)

lemma word_of_int_inj_byte:
  assumes "(word_of_int a :: byte) = word_of_int b" "0 \<le> a" "a < 256" "0 \<le> b" "b < 256"
  shows "a = b"
  using arg_cong [OF assms(1), of uint] assms(2-5) by (simp add: uint_word_of_int)

lemma descriptor_parity:
  fixes a b :: nat
  assumes "a + (if p then 0 else 1) + a = b + (if q then 0 else 1) + b"
  shows "p = q \<and> a = b"
proof (cases p; cases q)
  assume "p" "\<not> q"
  with assms have "2 * a = 2 * b + 1" by simp
  then show ?thesis by presburger
next
  assume "\<not> p" "q"
  with assms have "2 * a + 1 = 2 * b" by simp
  then show ?thesis by presburger
qed (use assms in simp_all)

lemma padded_inj:
  assumes "bs_length s \<le> 1023" "bs_length t \<le> 1023"
    and "(word_of_int (getBitsDescriptor s) :: byte) = word_of_int (getBitsDescriptor t)"
    and "padded_bytes s @ xs = padded_bytes t @ ys"
  shows "bs_bits s = bs_bits t \<and> xs = ys"
proof -
  have "getBitsDescriptor s = getBitsDescriptor t"
    using assms(3) bits_descriptor_byte [OF assms(1)] bits_descriptor_byte [OF assms(2)]
    by (intro word_of_int_inj_byte) auto
  then have d: "(bs_length s + 7) div 8 + bs_length s div 8 = (bs_length t + 7) div 8 + bs_length t div 8"
    by (simp add: bits_descriptor)
  have n: "(bs_length s mod 8 = 0) = (bs_length t mod 8 = 0)" "bs_length s div 8 = bs_length t div 8"
    using descriptor_parity [OF d [unfolded ceil_floor]] by (simp_all only:)
  then have p: "padded_bytes s = padded_bytes t" "xs = ys"
    using assms(4) n by (simp_all add: length_padded_bytes append_eq_append_conv ceil_floor)
  then have "bs_bits s @ padding (bs_length s) = bs_bits t @ padding (bs_length t)"
    using bitsToPaddedBuffer_eq(2) [of s] bitsToPaddedBuffer_eq(2) [of t] assms(1,2) by simp
  then have e: "bs_bits s @ padding (bs_length s) = bs_bits t @ padding (bs_length t)" .
  have "bs_bits s = bs_bits t"
  proof (cases "bs_length s mod 8 = 0")
    case True
    with e n(1) show ?thesis by (simp add: padding_def)
  next
    case False
    with n(1) have "\<exists>j k. padding (bs_length s) = True # replicate j False \<and>
        padding (bs_length t) = True # replicate k False" by (simp add: padding_def)
    with e strip_padding show ?thesis by metis
  qed
  with p show ?thesis by simp
qed

lemma concat_blocks_inj:
  assumes "concat xs = concat ys" "length xs = length ys" "\<forall>x \<in> set xs. length x = k"
    "\<forall>y \<in> set ys. length y = k"
  shows "xs = ys"
  using assms(2,1,3,4)
  by (induction xs ys rule: list_induct2) (auto simp: append_eq_append_conv)

lemma repr_inj:
  assumes eq: "repr_of d1 (getBitsDescriptor s) s' ds hs = repr_of e1 (getBitsDescriptor t) t' es ks"
    and "s' = s" "t' = t" "bs_length s \<le> 1023" "bs_length t \<le> 1023"
    and "length ds = length hs" "length es = length ks" "length hs = length ks"
    and "\<forall>h \<in> set hs. length h = 32" "\<forall>h \<in> set ks. length h = 32"
  shows "bs_bits s = bs_bits t \<and> hs = ks"
proof -
  have "padded_bytes s @ concat (map depth_bytes ds) @ concat hs =
      padded_bytes t @ concat (map depth_bytes es) @ concat ks"
    and "(word_of_int (getBitsDescriptor s) :: byte) = word_of_int (getBitsDescriptor t)"
    using eq assms(2,3) by (simp_all add: repr_of_def)
  with padded_inj assms(4,5) have p: "bs_bits s = bs_bits t"
    "concat (map depth_bytes ds) @ concat hs = concat (map depth_bytes es) @ concat ks" by blast+
  have "length (concat (map depth_bytes ds)) = length (concat (map depth_bytes es))"
    using assms(6-8) by (simp add: length_concat depth_bytes_def comp_def sum_list_triv)
  with p(2) have "concat hs = concat ks" by (simp add: append_eq_append_conv)
  with assms(8-10) have "hs = ks" by (intro concat_blocks_inj [of hs ks 32]) auto
  with p show ?thesis by simp
qed

end
