(* ===== verification/Cell_Hash.thy ===== *)
theory Cell_Hash
  imports Cell_Repr
begin

text \<open>
  Every cell the constructor returns, ordinary or exotic, carries four 32-byte hashes, four
  non-negative depths and a level mask of three bits; the sanity checks of
  \<open>wonderCalculator\<close> never fire. For ordinary cells without pruned descendants the hash is
  the SHA-256 of the representation, and equal hashes mean equal trees as long as SHA-256
  does not collide on the representations at hand.
\<close>

definition cell_ok :: "cell \<Rightarrow> bool" where
  "cell_ok c \<longleftrightarrow> length (cell_hashes c) = 4 \<and> (\<forall>h \<in> set (cell_hashes c). length h = 32) \<and>
     length (cell_depths c) = 4 \<and> (\<forall>d \<in> set (cell_depths c). 0 \<le> d) \<and>
     wf_mask (cell_mask c) \<and> wf_bs (cell_bits c) \<and> bs_length (cell_bits c) \<le> 1023 \<and>
     (cell_type c \<noteq> Library \<longrightarrow> length (cell_refs c) \<le> 4)"

lemma cell_ok_hash: "cell_ok c \<Longrightarrow> length (Cell_hash c l) = 32"
  by (auto simp: cell_ok_def Cell_hash_def)

lemma cell_ok_depth: "cell_ok c \<Longrightarrow> 0 \<le> Cell_depth c l"
  by (auto simp: cell_ok_def Cell_depth_def)

section \<open>Level masks\<close>

definition sig_count :: "int \<Rightarrow> nat \<Rightarrow> nat" where
  "sig_count m n = length (filter (\<lambda>l. l = 0 \<or> bit m (l - 1)) [0..<n])"

lemma sig_count_Suc: "sig_count m (Suc n) = sig_count m n + (if n = 0 \<or> bit m (n - 1) then 1 else 0)"
  by (simp add: sig_count_def)

lemma sig_count_pos: "0 < n \<Longrightarrow> 0 < sig_count m n"
  by (induction n) (auto simp: sig_count_Suc)

lemma sig_count_0 [simp]: "sig_count m 0 = 0"
  by (simp add: sig_count_def)

lemma sig_count_table:
  "list_all (\<lambda>m. sig_count m (nat (LevelMask_level (new_LevelMask m) + 1)) = popcount m + 1 \<and>
      sig_count m (nat (LevelMask_level (new_LevelMask m))) = popcount m \<and>
      list_all (\<lambda>l. popcount (take_bit l m) \<le> popcount m) [0, 1, 2, 3]) [0, 1, 2, 3, 4, 5, 6, 7]"
  by code_simp

lemma mask_counts:
  assumes "wf_mask m"
  shows "sig_count (lm_mask m) (nat (LevelMask_level m + 1)) = popcount (lm_mask m) + 1"
    and "sig_count (lm_mask m) (nat (LevelMask_level m)) = popcount (lm_mask m)"
    and "l < 4 \<Longrightarrow> popcount (take_bit l (lm_mask m)) \<le> popcount (lm_mask m)"
proof -
  have m: "lm_mask m \<in> set [0, 1, 2, 3, 4, 5, 6, 7]" "new_LevelMask (lm_mask m) = m"
    using assms mask_cases [of "lm_mask m"] by (simp_all add: wf_mask_def)
  note t = bspec [OF sig_count_table [unfolded list_all_iff] m(1)]
  show "sig_count (lm_mask m) (nat (LevelMask_level m + 1)) = popcount (lm_mask m) + 1"
    "sig_count (lm_mask m) (nat (LevelMask_level m)) = popcount (lm_mask m)"
    using t m(2) by simp_all
  show "popcount (take_bit l (lm_mask m)) \<le> popcount (lm_mask m)" if "l < 4"
    using t level_cases [OF that] unfolding list_all_iff by blast
qed

lemma hashIndex_apply:
  assumes "wf_mask m" "l < 4"
  shows "LevelMask_hashIndex (LevelMask_apply m l) = int (popcount (take_bit l (lm_mask m)))"
  using wf_mask_hashIndex [OF wf_mask_apply [OF assms]] LevelMask_apply_eq [OF assms]
  by (simp add: LevelMask_hashIndex_def new_LevelMask_def)

section \<open>One round of the loop\<close>

lemma wonder_depth_nonneg:
  assumes "\<forall>c \<in> set refs. cell_ok c"
  shows "0 \<le> wonder_depth type refs l"
proof -
  have "0 \<le> (a::int) \<Longrightarrow> 0 \<le> foldl (\<lambda>d c. max d (Cell_depth c k)) a refs" for a k
    by (induction refs arbitrary: a) auto
  then show ?thesis by (simp add: wonder_depth_def Let_def)
qed

definition wonder_hash ::
    "(buffer \<Rightarrow> buffer) \<Rightarrow> cell_type \<Rightarrow> bit_string \<Rightarrow> cell list \<Rightarrow> level_mask \<Rightarrow> nat \<Rightarrow> bit_string \<Rightarrow> buffer" where
  "wonder_hash sha type bits refs m l currentBits =
     sha (repr_of (getRefsDescriptor refs (LevelMask_value (LevelMask_apply m l)) type)
       (getBitsDescriptor bits) currentBits
       (map (\<lambda>c. Cell_depth c (child_level type l)) refs)
       (map (\<lambda>c. Cell_hash c (child_level type l)) refs))"

lemma getRepr_hash:
  assumes "\<forall>c \<in> set refs. cell_ok c" "bs_length currentBits < 2 ^ 31 - 16"
  shows "bindE (getRepr bits currentBits refs l (LevelMask_value (LevelMask_apply m l)) type) f =
    f (repr_of (getRefsDescriptor refs (LevelMask_value (LevelMask_apply m l)) type)
       (getBitsDescriptor bits) currentBits
       (map (\<lambda>c. Cell_depth c (child_level type l)) refs)
       (map (\<lambda>c. Cell_hash c (child_level type l)) refs))"
  using assms by (subst getRepr_ok) (auto simp: cell_ok_hash)

lemma arr_put_snoc [simp]: "arr_put xs (length xs) x = xs @ [x]"
  by (simp add: arr_put_def)

text \<open>What the code relies on of SHA-256: a digest has 32 bytes.\<close>

definition sha_ok :: "(buffer \<Rightarrow> buffer) \<Rightarrow> bool" where
  "sha_ok sha \<longleftrightarrow> (\<forall>x. length (sha x) = 32)"

lemma wonder_hash_length: "sha_ok sha \<Longrightarrow> length (wonder_hash sha type bits refs m l s) = 32"
  by (simp add: wonder_hash_def sha_ok_def)

lemma wonder_loop:
  assumes sha: "sha_ok sha" and "type \<noteq> PrunedBranch" "wf_mask m" "bs_length bits < 2 ^ 31 - 16"
    and "\<forall>c \<in> set refs. cell_ok c" "n \<le> 4"
  shows "\<exists>hs ds. foldE (wonder_step sha type bits refs m 0) [0..<n] (0, [], []) =
      Inr (int (length hs), hs, ds) \<and> length hs = sig_count (lm_mask m) n \<and> length ds = length hs \<and>
      (\<forall>h \<in> set hs. length h = 32) \<and> (\<forall>d \<in> set ds. 0 \<le> d)"
  using assms(6)
proof (induction n)
  case (Suc n)
  then obtain hs ds where IH: "foldE (wonder_step sha type bits refs m 0) [0..<n] (0, [], []) =
      Inr (int (length hs), hs, ds)" "length hs = sig_count (lm_mask m) n" "length ds = length hs"
      "\<forall>h \<in> set hs. length h = 32" "\<forall>d \<in> set ds. 0 \<le> d"
    by auto
  have sig: "LevelMask_isSignificant m n \<longleftrightarrow> n = 0 \<or> bit (lm_mask m) (n - 1)"
    using LevelMask_isSignificant_eq [OF assms(3)] Suc.prems by simp
  show ?case
  proof (cases "LevelMask_isSignificant m n")
    case False
    with IH sig show ?thesis by (auto simp: foldE_append sig_count_Suc)
  next
    case True
    have first: "hs = [] \<longleftrightarrow> n = 0"
      using IH(2) sig_count_pos [of n "lm_mask m"] by (cases n) auto
    obtain s where s: "(if int (length hs) = 0
         then if \<not> (n = 0 \<or> type = PrunedBranch) then Inl InvalidLevel else Inr bits
         else if \<not> (n \<noteq> 0 \<and> type \<noteq> PrunedBranch) then Inl InvalidLevel
         else new_BitString (hs ! nat (int (length hs) - 0 - 1)) 0 256) = Inr s"
        "bs_length s < 2 ^ 31 - 16"
      using first assms(2,4) by (cases "n = 0") (auto simp: new_BitString_def)
    have "wonder_step sha type bits refs m 0 n (int (length hs), hs, ds) =
        Inr (int (length hs) + 1, hs @ [wonder_hash sha type bits refs m n s], ds @ [wonder_depth type refs n])"
      using True s IH(3) by (simp add: getRepr_hash [OF assms(5)] wonder_hash_def del: One_nat_def)
        (metis arr_put_snoc)
    with IH True sig wonder_depth_nonneg [OF assms(5)] wonder_hash_length [OF sha] show ?thesis
      by (auto simp: foldE_append sig_count_Suc)
  qed
qed simp

text \<open>For a pruned branch only the hash of its own, last level is computed.\<close>

lemma sig_count_mono: "a \<le> b \<Longrightarrow> sig_count m a \<le> sig_count m b"
  by (induction b) (auto simp: sig_count_Suc le_Suc_eq)

lemma pruned_loop:
  assumes sha: "sha_ok sha" and "wf_mask m" "bs_length bits < 2 ^ 31 - 16"
  shows "foldE (wonder_step sha PrunedBranch bits [] m (int (popcount (lm_mask m))))
      [0..<nat (LevelMask_level m + 1)] (0, [], []) =
    (let l = nat (LevelMask_level m)
     in Inr (int (popcount (lm_mask m)) + 1, [wonder_hash sha PrunedBranch bits [] m l bits], [0]))"
proof -
  let ?L = "nat (LevelMask_level m)" and ?p = "popcount (lm_mask m)"
  let ?f = "wonder_step sha PrunedBranch bits [] m (int ?p)"
  have L: "?L \<le> 3" "nat (LevelMask_level m + 1) = Suc ?L"
    using wf_mask_level [OF assms(2)] by auto
  have sig: "l < 4 \<Longrightarrow> LevelMask_isSignificant m l \<longleftrightarrow> l = 0 \<or> bit (lm_mask m) (l - 1)" for l
    using LevelMask_isSignificant_eq [OF assms(2)] .
  have "n \<le> ?L \<Longrightarrow> foldE ?f [0..<n] (0, [], []) = Inr (int (sig_count (lm_mask m) n), [], [])" for n
  proof (induction n)
    case (Suc n)
    then have "sig_count (lm_mask m) (Suc n) \<le> ?p"
      using sig_count_mono [of "Suc n" ?L "lm_mask m"] mask_counts(2) [OF assms(2)] by linarith
    then have "?f n (int (sig_count (lm_mask m) n), [], []) = Inr (int (sig_count (lm_mask m) (Suc n)), [], [])"
      using Suc.prems L sig [of n] by (cases "LevelMask_isSignificant m n") (simp_all add: sig_count_Suc)
    with Suc show ?case by (simp add: foldE_append)
  qed simp
  from this [of ?L] have loop: "foldE ?f [0..<?L] (0, [], []) = Inr (int ?p, [], [])"
    using mask_counts(2) [OF assms(2)] by simp
  have last: "LevelMask_isSignificant m ?L"
  proof -
    have "sig_count (lm_mask m) (Suc ?L) = Suc (sig_count (lm_mask m) ?L)"
      using mask_counts(1,2) [OF assms(2)] unfolding L(2) by linarith
    then have "?L = 0 \<or> bit (lm_mask m) (?L - 1)"
      unfolding sig_count_Suc by presburger
    moreover have "?L < 4" using L(1) by linarith
    ultimately show ?thesis using sig by blast
  qed
  have "?f ?L (int ?p, [], []) =
      Inr (int ?p + 1, [wonder_hash sha PrunedBranch bits [] m ?L bits], [0])"
    using last assms(3) getRepr_hash [of "[]" bits]
    by (simp add: wonder_hash_def arr_put_def wonder_depth_def)
  with loop show ?thesis unfolding L(2) by (simp add: foldE_append)
qed

section \<open>Parsing exotic cells\<close>

lemma loadBuffer_result:
  assumes "rd_ok r" "BitReader_loadBuffer (int n) r = Inr (w, r')"
  shows "length w = n \<and> r' = rd_move (int (8 * n)) r \<and> rd_ok r' \<and> 8 * n \<le> length (rd_rest r)"
proof (cases "8 * n \<le> length (rd_rest r)")
  case True
  with preloadBuffer_total [OF assms(1), of 0 n] assms rd_ok_move [OF assms(1) True]
  show ?thesis by (auto simp: BitReader_loadBuffer_def mult.commute)
next
  case False
  then have "rd_offset r + int n * 8 > int (bs_length (rd_bits r))"
    using assms(1) length_rd_rest [OF assms(1)] by (simp add: BitReader_remaining_def)
  with assms show ?thesis
    by (auto simp: BitReader_loadBuffer_def BitReader_preloadBuffer_at_def BitString_subbuffer_def
        bindE_def rd_ok_def split: sum.splits if_splits)
qed

lemma loadUintBig_result:
  assumes "rd_ok r" "BitReader_loadUintBig (int n) r = Inr (v, r')"
  shows "v = val_be (take n (rd_rest r)) \<and> r' = rd_move (int n) r \<and> rd_ok r' \<and> n \<le> length (rd_rest r)"
proof (cases "n \<le> length (rd_rest r)")
  case True
  with loadUintBig_total [OF assms(1) True] assms(2) rd_ok_move [OF assms(1) True] show ?thesis by simp
next
  case False
  with loadUintBig_short [OF assms(1), of n] assms(2) show ?thesis by simp
qed

lemma to_number_nonneg: "0 \<le> v \<Longrightarrow> 0 \<le> to_number v"
  unfolding to_number_def Let_def
  by (auto intro!: mult_nonneg_nonneg simp: sgn_if simp del: of_nat_mult of_nat_Suc)

lemma loadUint_result:
  assumes "rd_ok r" "BitReader_loadUint (int n) r = Inr (v, r')"
  shows "0 \<le> v \<and> r' = rd_move (int n) r \<and> rd_ok r' \<and> n \<le> length (rd_rest r) \<and>
    (n \<le> 53 \<longrightarrow> v = val_be (take n (rd_rest r)))"
proof -
  obtain u where u: "BitReader_loadUintBig (int n) r = Inr (u, r')" "v = to_number u"
    using assms(2) by (auto simp: BitReader_loadUint_def)
  from loadUintBig_result [OF assms(1) u(1)] have v: "u = val_be (take n (rd_rest r))"
    "r' = rd_move (int n) r \<and> rd_ok r' \<and> n \<le> length (rd_rest r)" by blast+
  have "to_number u = u" if "n \<le> 53"
  proof (rule to_number_id)
    have "u < 2 ^ length (take n (rd_rest r))" unfolding v(1) by (rule val_be_less)
    also have "\<dots> \<le> 2 ^ 53" using that by (intro power_increasing) auto
    finally show "\<bar>u\<bar> < 2 ^ 53" by (simp add: v(1))
  qed
  with u(2) v show ?thesis by (auto intro: to_number_nonneg)
qed

lemma get_list_result:
  assumes "\<And>r v r'. rd_ok r \<Longrightarrow> get r = Inr (v, r') \<Longrightarrow> P v \<and> rd_ok r'"
    and "rd_ok r" "get_list get n r = Inr (vs, r')"
  shows "length vs = n \<and> (\<forall>v \<in> set vs. P v) \<and> rd_ok r'"
  using assms(2,3)
proof (induction n arbitrary: r vs)
  case (Suc n)
  then obtain v r1 ws where *: "get r = Inr (v, r1)" "get_list get n r1 = Inr (ws, r')" "vs = v # ws"
    by auto
  with assms(1) Suc.prems(1) have "P v" "rd_ok r1" by blast+
  with * Suc.IH show ?case by auto
qed simp

text \<open>A parsed pruned branch has a mask of three bits and an entry per level of the mask.\<close>

lemma popcount_table:
  "list_all (\<lambda>m. int (popcount m) \<le> LevelMask_level (new_LevelMask m)) [0, 1, 2, 3, 4, 5, 6, 7]"
  by code_simp

lemma popcount_level: "wf_mask m \<Longrightarrow> int (popcount (lm_mask m)) \<le> LevelMask_level m"
  using popcount_table mask_cases [of "lm_mask m"] unfolding list_all_iff wf_mask_def by metis

lemma level_small_mask:
  assumes "0 \<le> v" "v < 2 ^ 8" "LevelMask_level (new_LevelMask v) \<le> 3"
  shows "v < 8"
proof -
  have "v mod 2 ^ 32 = v" using assms(1,2) by (intro mod_pos_pos_trivial) auto
  then have "bit_length (nat v) \<le> 3"
    using assms(3) by (simp add: LevelMask_level_def new_LevelMask_def)
  then have "(2::nat) ^ bit_length (nat v) \<le> 2 ^ 3" by (intro power_increasing) auto
  with bit_length_upper [of "nat v"] have "nat v < 2 ^ 3" by linarith
  then show ?thesis by simp
qed

lemma lower_table:
  "list_all (\<lambda>m. popcount (take_bit (nat (LevelMask_level (new_LevelMask m) - 1)) m) \<le> 2) [0, 1, 2, 3, 4, 5, 6, 7]"
  by code_simp

lemma lower_hashes:
  assumes "wf_mask m"
  shows "LevelMask_hashCount (LevelMask_apply m (nat (LevelMask_level m - 1))) \<le> 3"
proof -
  let ?l = "nat (LevelMask_level m - 1)"
  have l: "?l < 4" using wf_mask_level [OF assms] by linarith
  have "popcount (take_bit ?l (lm_mask m)) \<le> 2"
    using assms lower_table mask_cases [of "lm_mask m"] unfolding list_all_iff wf_mask_def by metis
  with wf_mask_hashCount [OF wf_mask_apply [OF assms l]] LevelMask_apply_eq [OF assms l]
  show ?thesis by (simp add: LevelMask_hashCount_def new_LevelMask_def)
qed

lemma exoticPruned_result:
  assumes "wf_bs bits" "exoticPruned bits refs = Inr p"
  shows "refs = [] \<and> wf_mask (new_LevelMask (ep_mask p)) \<and>
    int (length (ep_pruned p)) = LevelMask_level (new_LevelMask (ep_mask p)) \<and>
    (\<forall>(d, h) \<in> set (ep_pruned p). 0 \<le> d \<and> length h = 32) \<and> bs_length bits \<le> 1023"
proof -
  from assms(2) obtain r1 m r2 hs r3 ds r4 where *:
    "BitReader_loadUint 8 (new_BitReader bits 0) = Inr (1, r1)" "refs = []"
    "(if bs_length bits = 280 then Inr (new_LevelMask 1, r1)
       else bindE (BitReader_loadUint 8 r1) (\<lambda>(byte, reader).
         let m = new_LevelMask byte in
         if LevelMask_level m < 1 \<or> LevelMask_level m > 3 then Inl InvalidExotic
         else let len = 8 + 8 + LevelMask_hashCount (LevelMask_apply m (nat (LevelMask_level m - 1))) * (256 + 16)
              in if int (bs_length bits) \<noteq> len then Inl InvalidExotic
                 else Inr (m, reader))) = Inr (m, r2)"
    "get_list (BitReader_loadBuffer 32) (nat (LevelMask_level m)) r2 = Inr (hs, r3)"
    "get_list (BitReader_loadUint 16) (nat (LevelMask_level m)) r3 = Inr (ds, r4)"
    "p = \<lparr>ep_mask = LevelMask_value m, ep_pruned = zip ds hs\<rparr>"
    by (auto simp: exoticPruned_def split: if_splits)
  have "rd_ok r1" using loadUint_result [of "new_BitReader bits 0" 8] *(1) rd_ok_new [OF assms(1)] by auto
  have m: "wf_mask m \<and> rd_ok r2 \<and> bs_length bits \<le> 1023"
  proof (cases "bs_length bits = 280")
    case True
    with *(3) \<open>rd_ok r1\<close> show ?thesis by (auto intro: wf_mask_new)
  next
    case False
    with *(3) obtain v where v: "BitReader_loadUint 8 r1 = Inr (v, r2)" "m = new_LevelMask v"
      "LevelMask_level m \<le> 3" "int (bs_length bits) =
        8 + 8 + LevelMask_hashCount (LevelMask_apply m (nat (LevelMask_level m - 1))) * (256 + 16)"
      by (auto simp: Let_def split: if_splits)
    have "0 \<le> v" "v = val_be (take 8 (rd_rest r1))" "rd_ok r2"
      using loadUint_result [OF \<open>rd_ok r1\<close>, of 8] v(1) by auto
    moreover from this have "v < 2 ^ 8"
      using val_be_less [of "take 8 (rd_rest r1)"] power_increasing [of "length (take 8 (rd_rest r1))" 8 "2::int"]
      by simp
    ultimately have "wf_mask m" "rd_ok r2" using v level_small_mask [of v] by (auto intro: wf_mask_new)
    with v(4) lower_hashes [of m] show ?thesis by simp
  qed
  have eq: "m = new_LevelMask (ep_mask p)"
    using m *(6) by (auto simp: wf_mask_def LevelMask_value_def)
  have buf: "length w = 32 \<and> rd_ok r'" if "rd_ok r" "BitReader_loadBuffer 32 r = Inr (w, r')" for r w r'
    using loadBuffer_result [of r 32 w r'] that by auto
  have dep: "0 \<le> v \<and> rd_ok r'" if "rd_ok r" "BitReader_loadUint 16 r = Inr (v, r')" for r v r'
    using loadUint_result [of r 16 v r'] that by auto
  have hs: "length hs = nat (LevelMask_level m) \<and> (\<forall>h \<in> set hs. length h = 32) \<and> rd_ok r3"
    by (rule get_list_result [OF buf _ *(4)]) (use m in auto)
  have ds: "length ds = nat (LevelMask_level m) \<and> (\<forall>d \<in> set ds. 0 \<le> d) \<and> rd_ok r4"
    by (rule get_list_result [OF dep _ *(5)]) (use hs in auto)
  have "\<forall>(d, h) \<in> set (zip ds hs). 0 \<le> d \<and> length h = 32"
    using hs ds by (auto dest: set_zip_leftD set_zip_rightD)
  moreover have "int (length (zip ds hs)) = LevelMask_level m"
    using hs ds wf_mask_level [of m] m by simp
  ultimately show ?thesis
    unfolding eq [symmetric] using *(2,6) m by simp
qed

lemma exoticMerkleProof_refs: "exoticMerkleProof bits refs = Inr p \<Longrightarrow> length refs = 1"
  by (auto simp: exoticMerkleProof_def split: if_splits)

lemma exoticMerkleUpdate_refs: "exoticMerkleUpdate bits refs = Inr p \<Longrightarrow> length refs = 2"
  by (auto simp: exoticMerkleUpdate_def split: if_splits)

section \<open>The constructor\<close>

lemma js_or_mask:
  assumes "0 \<le> a" "a < 8" "0 \<le> b" "b < 8"
  shows "js_or a b = a OR b" "0 \<le> js_or a b" "js_or a b < 8"
  using assms OR_upper [of a 3 b] by (simp_all add: js_or_def to_int32_id)

lemma js_shr_mask:
  assumes "0 \<le> a" "a < 8"
  shows "js_shr a 1 = a div 2" "0 \<le> js_shr a 1" "js_shr a 1 < 8"
  using assms by (simp_all add: js_shr_def to_int32_id drop_bit_eq_div)

lemma cell_ok_mask: "cell_ok c \<Longrightarrow> 0 \<le> LevelMask_value (cell_mask c) \<and> LevelMask_value (cell_mask c) < 8"
  by (simp add: cell_ok_def wf_mask_def LevelMask_value_def)

lemma fold_masks:
  assumes "\<forall>c \<in> set refs. cell_ok c" "0 \<le> a" "a < 8"
  shows "0 \<le> foldl (\<lambda>m r. js_or m (LevelMask_value (cell_mask r))) a refs \<and>
    foldl (\<lambda>m r. js_or m (LevelMask_value (cell_mask r))) a refs < 8"
  using assms
  by (induction refs arbitrary: a) (auto simp: js_or_mask(2,3) cell_ok_mask)

lemma wonder_mask_result:
  assumes "\<forall>c \<in> set refs. cell_ok c" "wf_bs bits" "wonder_mask type bits refs = Inr (m, pruned)"
  shows "wf_mask m" and "type \<noteq> Ordinary \<Longrightarrow> bs_length bits \<le> 1023 \<and> (type \<noteq> Library \<longrightarrow> length refs \<le> 4)"
    and "type = PrunedBranch \<Longrightarrow> refs = [] \<and> (\<exists>p. pruned = Some p \<and>
           int (length (ep_pruned p)) = LevelMask_level m \<and>
           (\<forall>(d, h) \<in> set (ep_pruned p). 0 \<le> d \<and> length h = 32))"
    and "type \<noteq> PrunedBranch \<Longrightarrow> pruned = None"
proof -
  have r: "cell_ok (refs ! i)" if "i < length refs" for i using assms(1) that by auto
  show "wf_mask m"
  proof (cases type)
    case Ordinary
    with assms(3) fold_masks [OF assms(1), of 0] show ?thesis by (auto intro!: wf_mask_new)
  next
    case PrunedBranch
    with assms(3) exoticPruned_result [OF assms(2), of refs] show ?thesis by auto
  next
    case Library
    with assms(3) show ?thesis by (auto intro!: wf_mask_new)
  next
    case MerkleProof
    with assms(3) have "length refs = 1" "m = new_LevelMask (js_shr (LevelMask_value (cell_mask (refs ! 0))) 1)"
      by (auto dest: exoticMerkleProof_refs)
    with cell_ok_mask [OF r, of 0] js_shr_mask(2,3) show ?thesis by (auto intro!: wf_mask_new)
  next
    case MerkleUpdate
    let ?a = "LevelMask_value (cell_mask (refs ! 0))" and ?b = "LevelMask_value (cell_mask (refs ! 1))"
    from MerkleUpdate assms(3) have m: "length refs = 2" "m = new_LevelMask (js_shr (js_or ?a ?b) 1)"
      by (auto dest: exoticMerkleUpdate_refs)
    have "0 \<le> js_or ?a ?b \<and> js_or ?a ?b < 8"
      using cell_ok_mask [OF r, of 0] cell_ok_mask [OF r, of 1] m(1) by (simp add: js_or_mask(2,3))
    with m(2) js_shr_mask(2,3) show ?thesis by (auto intro!: wf_mask_new)
  qed
  show "type \<noteq> Ordinary \<Longrightarrow> bs_length bits \<le> 1023 \<and> (type \<noteq> Library \<longrightarrow> length refs \<le> 4)"
    using assms(3) exoticPruned_result [OF assms(2), of refs]
    by (cases type) (auto simp: exoticMerkleProof_def exoticMerkleUpdate_def exoticLibrary_def split: if_splits)
  show "type = PrunedBranch \<Longrightarrow> refs = [] \<and> (\<exists>p. pruned = Some p \<and>
           int (length (ep_pruned p)) = LevelMask_level m \<and>
           (\<forall>(d, h) \<in> set (ep_pruned p). 0 \<le> d \<and> length h = 32))"
    using assms(3) exoticPruned_result [OF assms(2), of refs] by auto
  show "type \<noteq> PrunedBranch \<Longrightarrow> pruned = None"
    using assms(3) by (cases type) auto
qed

definition wonders_ok :: "level_mask \<Rightarrow> wonders \<Rightarrow> bool" where
  "wonders_ok m w \<longleftrightarrow> wd_mask w = m \<and> length (wd_hashes w) = 4 \<and> (\<forall>h \<in> set (wd_hashes w). length h = 32) \<and>
     length (wd_depths w) = 4 \<and> (\<forall>d \<in> set (wd_depths w). 0 \<le> d)"

lemma hashIndex_nat:
  assumes "wf_mask m" "l < 4"
  shows "nat (LevelMask_hashIndex (LevelMask_apply m l)) = popcount (take_bit l (lm_mask m))"
  using hashIndex_apply [OF assms] by simp

text \<open>Once the content is parsed, the computation of the hashes cannot fail.\<close>

lemma wonderCalculator_plain:
  assumes sha: "sha_ok sha" and type: "type \<noteq> PrunedBranch" and refs: "\<forall>c \<in> set refs. cell_ok c"
    and bits: "bs_length bits < 2 ^ 31 - 16" and m: "wf_mask m" "wonder_mask type bits refs = Inr (m, None)"
  shows "\<exists>w. wonderCalculator sha type bits refs = Inr w \<and> wonders_ok m w"
proof -
  let ?n = "nat (LevelMask_level m + 1)"
  have "?n \<le> 4" using wf_mask_level [OF m(1)] by linarith
  from wonder_loop [OF sha type m(1) bits refs this] mask_counts(1) [OF m(1)]
  obtain hs ds where loop: "foldE (wonder_step sha type bits refs m 0) [0..<?n] (0, [], []) =
      Inr (int (length hs), hs, ds)" "length hs = popcount (lm_mask m) + 1" "length ds = length hs"
      "\<forall>h \<in> set hs. length h = 32" "\<forall>d \<in> set ds. 0 \<le> d" by auto
  let ?i = "\<lambda>i. nat (LevelMask_hashIndex (LevelMask_apply m i))"
  have i: "?i l < length hs" if "l < 4" for l
    using hashIndex_nat [OF m(1) that] mask_counts(3) [OF m(1) that] loop(2) by linarith
  let ?w = "\<lparr>wd_mask = m, wd_hashes = map (\<lambda>l. hs ! ?i l) [0..<4], wd_depths = map (\<lambda>l. ds ! ?i l) [0..<4]\<rparr>"
  have "wonderCalculator sha type bits refs = Inr ?w"
    using type loop(1) by (simp add: wonderCalculator_def m(2) del: wonder_mask.simps)
  moreover have "wonders_ok m ?w"
    using i loop(3-5) by (auto simp: wonders_ok_def)
  ultimately show ?thesis by blast
qed

lemma wonderCalculator_pruned:
  assumes sha: "sha_ok sha" and bits: "bs_length bits < 2 ^ 31 - 16"
    and m: "wf_mask m" "wonder_mask PrunedBranch bits [] = Inr (m, Some p)"
    and p: "int (length (ep_pruned p)) = LevelMask_level m" "\<forall>(d, h) \<in> set (ep_pruned p). 0 \<le> d \<and> length h = 32"
  shows "\<exists>w. wonderCalculator sha PrunedBranch bits [] = Inr w \<and> wonders_ok m w"
proof -
  let ?i = "\<lambda>i. nat (LevelMask_hashIndex (LevelMask_apply m i))"
  obtain h where loop: "foldE (wonder_step sha PrunedBranch bits [] m (int (popcount (lm_mask m))))
      [0..<nat (LevelMask_level m + 1)] (0, [], []) = Inr (int (popcount (lm_mask m)) + 1, [h], [0])"
    "length h = 32"
    using pruned_loop [OF sha m(1) bits] wonder_hash_length [OF sha] by (auto simp: Let_def)
  have off: "LevelMask_hashCount m - 1 = int (popcount (lm_mask m))"
    using wf_mask_hashCount [OF m(1)] by (simp add: LevelMask_hashCount_def)
  let ?e = "\<lambda>l. if int (?i l) \<noteq> LevelMask_hashIndex m
      then (snd (ep_pruned p ! ?i l), fst (ep_pruned p ! ?i l)) else (h, 0)"
  have e: "length (fst (?e l)) = 32 \<and> 0 \<le> snd (?e l)" if "l < 4" for l
  proof (cases "int (?i l) = LevelMask_hashIndex m")
    case True
    then show ?thesis using loop(2) by simp
  next
    case False
    have "?i l < length (ep_pruned p)"
      using hashIndex_nat [OF m(1) that] mask_counts(3) [OF m(1) that] False
        wf_mask_hashIndex [OF m(1)] popcount_level [OF m(1)] p(1) by (simp add: LevelMask_hashIndex_def)
    then have "ep_pruned p ! ?i l \<in> set (ep_pruned p)" by simp
    then have "0 \<le> fst (ep_pruned p ! ?i l) \<and> length (snd (ep_pruned p ! ?i l)) = 32"
      using p(2) by (auto simp: split_beta)
    with False show ?thesis by simp
  qed
  let ?w = "\<lparr>wd_mask = m, wd_hashes = map (\<lambda>l. fst (?e l)) [0..<4], wd_depths = map (\<lambda>l. snd (?e l)) [0..<4]\<rparr>"
  have "wonderCalculator sha PrunedBranch bits [] = Inr ?w"
    using loop(1)
    by (simp add: wonderCalculator_def m(2) off del: upt_Suc upt_rec_numeral wonder_mask.simps int_nat_eq)
  moreover have "wonders_ok m ?w"
    using e by (simp add: wonders_ok_def)
  ultimately show ?thesis by blast
qed

lemma wonderCalculator_ok:
  assumes "sha_ok sha" "\<forall>c \<in> set refs. cell_ok c" "wf_bs bits" "bs_length bits \<le> 1023"
    and "wonder_mask type bits refs = Inr (m, pruned)"
  shows "\<exists>w. wonderCalculator sha type bits refs = Inr w \<and> wonders_ok m w"
proof -
  note r = wonder_mask_result [OF assms(2,3,5)]
  have b: "bs_length bits < 2 ^ 31 - 16" using assms(4) by simp
  show ?thesis
  proof (cases "type = PrunedBranch")
    case True
    with r(3) obtain p where p: "refs = []" "pruned = Some p" "int (length (ep_pruned p)) = LevelMask_level m"
      "\<forall>(d, h) \<in> set (ep_pruned p). 0 \<le> d \<and> length h = 32" by blast
    show ?thesis
      using wonderCalculator_pruned [OF assms(1) b r(1) _ p(3,4)] assms(5) unfolding p(1,2) True by blast
  next
    case False
    from wonderCalculator_plain [OF assms(1) False assms(2) b r(1)] assms(5) r(4) [OF False]
    show ?thesis by simp
  qed
qed

lemma wonderCalculator_mask:
  assumes "wonderCalculator sha type bits refs = Inr w"
  obtains m pruned where "wonder_mask type bits refs = Inr (m, pruned)"
  using assms by (auto simp: wonderCalculator_def)

lemma resolveExotic_type: "resolveExotic bits refs = Inr r \<Longrightarrow> rs_type r \<noteq> Ordinary"
  by (auto simp: resolveExotic_def resolvePruned_def resolveLibrary_def resolveMerkleProof_def
      resolveMerkleUpdate_def split: if_splits)

lemma new_Cell_ok:
  assumes "sha_ok sha" "\<forall>c \<in> set refs. cell_ok c" "wf_bs bits" "new_Cell sha exotic bits refs = Inr c"
  shows "cell_ok c \<and> cell_bits c = bits \<and> cell_refs c = refs"
proof -
  obtain type w where w: "wonderCalculator sha type bits refs = Inr w"
    "c = Cell type bits refs (wd_mask w) (wd_hashes w) (wd_depths w)"
    "type = Ordinary \<Longrightarrow> length refs \<le> 4 \<and> bs_length bits \<le> 1023"
    using assms(4) by (auto simp: new_Cell_def dest: resolveExotic_type split: if_splits)
  obtain m pruned where m: "wonder_mask type bits refs = Inr (m, pruned)"
    using wonderCalculator_mask [OF w(1)] .
  note r = wonder_mask_result [OF assms(2,3) m]
  have b: "bs_length bits \<le> 1023" "type \<noteq> Library \<longrightarrow> length refs \<le> 4"
    using w(3) r(2) by blast+
  have "wonders_ok m w" using wonderCalculator_ok [OF assms(1-3) b(1) m] w(1) by auto
  with r(1) b w(2) assms(3) show ?thesis by (simp add: cell_ok_def wonders_ok_def)
qed

section \<open>Cells the program can build\<close>

inductive built :: "(buffer \<Rightarrow> buffer) \<Rightarrow> cell \<Rightarrow> bool" for sha where
  built_new: "\<forall>r \<in> set refs. built sha r \<Longrightarrow> wf_bs bits \<Longrightarrow>
     new_Cell sha exotic bits refs = Inr c \<Longrightarrow> built sha c"

lemma built_ok: "built sha c \<Longrightarrow> sha_ok sha \<Longrightarrow> cell_ok c"
  by (induction rule: built.induct) (use new_Cell_ok in blast)

lemma built_refs: "built sha c \<Longrightarrow> sha_ok sha \<Longrightarrow> r \<in> set (cell_refs c) \<Longrightarrow> built sha r"
  by (induction rule: built.induct) (metis new_Cell_ok built_ok)

section \<open>Ordinary cells\<close>

text \<open>
  An ordinary tree has no exotic cell below it. Its abstraction is the tree of the bit lists,
  and its hash is defined by recursion on that tree.
\<close>

inductive plain :: "(buffer \<Rightarrow> buffer) \<Rightarrow> cell \<Rightarrow> bool" for sha where
  plain_new: "\<forall>r \<in> set refs. plain sha r \<Longrightarrow> wf_bs bits \<Longrightarrow>
     new_Cell sha False bits refs = Inr c \<Longrightarrow> plain sha c"

lemma plain_built: "plain sha c \<Longrightarrow> built sha c"
proof (induction rule: plain.induct)
  case (plain_new refs bits c)
  then have "\<forall>r \<in> set refs. built sha r" by blast
  with plain_new show ?case by (auto intro: built_new)
qed

datatype tree = Tree (tree_bits: "bool list") (tree_refs: "tree list")

fun cell_tree :: "cell \<Rightarrow> tree" where
  "cell_tree (Cell t bits refs m hs ds) = Tree (bs_bits bits) (map cell_tree refs)"

definition repr_plain :: "cell \<Rightarrow> buffer" where
  "repr_plain c = repr_of (int (length (cell_refs c))) (getBitsDescriptor (cell_bits c)) (cell_bits c)
     (map (\<lambda>r. Cell_depth r 3) (cell_refs c)) (map (\<lambda>r. Cell_hash r 3) (cell_refs c))"

definition height :: "cell \<Rightarrow> int" where
  "height c = (if cell_refs c = [] then 0 else 1 + Max (set (map (\<lambda>r. Cell_depth r 3) (cell_refs c))))"

definition plain_ok :: "(buffer \<Rightarrow> buffer) \<Rightarrow> cell \<Rightarrow> bool" where
  "plain_ok sha c \<longleftrightarrow> cell_type c = Ordinary \<and> cell_mask c = new_LevelMask 0 \<and>
     cell_hashes c = replicate 4 (sha (repr_plain c)) \<and> cell_depths c = replicate 4 (height c)"

lemma plain_ok_hash:
  assumes "plain_ok sha c"
  shows "Cell_hash c l = sha (repr_plain c)" "Cell_depth c l = height c"
  using assms by (simp_all add: plain_ok_def Cell_hash_def Cell_depth_def)

lemma foldl_max:
  fixes d :: "'a \<Rightarrow> int"
  shows "foldl (\<lambda>m c. max m (d c)) a xs = Max (set (a # map d xs))"
proof (induction xs arbitrary: a)
  case (Cons x xs)
  then show ?case by (cases "xs = []") (simp_all add: max.assoc)
qed simp

lemma Max_nonneg:
  fixes d :: "'a \<Rightarrow> int"
  assumes "\<forall>x \<in> set xs. 0 \<le> d x" "xs \<noteq> []"
  shows "Max (set (0 # map d xs)) = Max (set (map d xs))"
proof -
  have "0 \<le> Max (d ` set xs)" using assms by (cases xs) (auto simp: Max_ge_iff)
  then show ?thesis using assms(2) by simp
qed

lemma wonder_depth_height:
  assumes "\<forall>r \<in> set refs. cell_ok r" "\<forall>r \<in> set refs. plain_ok sha r"
  shows "wonder_depth Ordinary refs l = (if refs = [] then 0 else 1 + Max (set (map (\<lambda>r. Cell_depth r 3) refs)))"
proof (cases "refs = []")
  case False
  have eq: "map (\<lambda>r. Cell_depth r l) refs = map (\<lambda>r. Cell_depth r 3) refs"
    using assms(2) plain_ok_hash(2) [of sha] by auto
  have "Max (set (0 # map (\<lambda>r. Cell_depth r l) refs)) = Max (set (map (\<lambda>r. Cell_depth r l) refs))"
    using assms(1) False by (intro Max_nonneg) (auto intro: cell_ok_depth)
  with False show ?thesis
    unfolding wonder_depth_def Let_def child_level_def foldl_max by (simp add: eq)
qed (simp add: wonder_depth_def)

lemma fold_masks_0:
  "\<forall>r \<in> set refs. plain_ok sha r \<Longrightarrow> foldl (\<lambda>m r. js_or m (LevelMask_value (cell_mask r))) 0 refs = 0"
  by (induction refs) (auto simp: plain_ok_def LevelMask_value_def new_LevelMask_def js_or_def to_int32_id)

lemma new_Cell_plain:
  assumes "sha_ok sha" "\<forall>r \<in> set refs. cell_ok r" "\<forall>r \<in> set refs. plain_ok sha r" "wf_bs bits"
    and "length refs \<le> 4" "bs_length bits \<le> 1023"
  shows "\<exists>c. new_Cell sha False bits refs = Inr c \<and> plain_ok sha c \<and>
    cell_bits c = bits \<and> cell_refs c = refs"
proof -
  let ?m = "new_LevelMask 0"
  have m: "wonder_mask Ordinary bits refs = Inr (?m, None)"
    using fold_masks_0 [OF assms(3)] by simp
  have wf: "wf_mask ?m" by (simp add: wf_mask_new)
  have lvl: "LevelMask_level ?m = 0" using LevelMask_level_eq [OF wf] by (simp add: new_LevelMask_def)
  have i: "nat (LevelMask_hashIndex (LevelMask_apply ?m l)) = 0" if "l < 4" for l
    using hashIndex_nat [OF wf that] by (simp add: new_LevelMask_def popcount_def)
  define c where "c = Cell Ordinary bits refs ?m [] []"
  let ?h = "sha (repr_plain c)" and ?d = "height c"
  have kids: "map (\<lambda>r. Cell_hash r 0) refs = map (\<lambda>r. Cell_hash r 3) refs"
    "map (\<lambda>r. Cell_depth r 0) refs = map (\<lambda>r. Cell_depth r 3) refs"
    using assms(3) plain_ok_hash [of sha] by auto
  have "LevelMask_value (LevelMask_apply ?m 0) = 0"
    using LevelMask_apply_eq [OF wf, of 0] by (simp add: LevelMask_value_def new_LevelMask_def)
  then have repr: "bindE (getRepr bits bits refs 0 (LevelMask_value (LevelMask_apply ?m 0)) Ordinary) f = f (repr_plain c)" for f
    using getRepr_hash [OF assms(2), of bits bits 0 ?m Ordinary f] assms(6) kids
    by (simp add: repr_plain_def c_def child_level_def getRefsDescriptor_def)
  have "wonder_depth Ordinary refs 0 = ?d"
    using wonder_depth_height [OF assms(2,3), of 0] by (simp add: height_def c_def)
  then have "wonder_step sha Ordinary bits refs ?m 0 0 (0, [], []) = Inr (1, [?h], [?d])"
    using repr by (simp add: LevelMask_isSignificant_def arr_put_def)
  moreover have "map (\<lambda>l. [?h] ! nat (LevelMask_hashIndex (LevelMask_apply ?m l))) [0..<4] = replicate 4 ?h"
    "map (\<lambda>l. [?d] ! nat (LevelMask_hashIndex (LevelMask_apply ?m l))) [0..<4] = replicate 4 ?d"
    by (rule nth_equalityI; simp add: i del: upt_rec_numeral)+
  ultimately have "wonderCalculator sha Ordinary bits refs =
      Inr \<lparr>wd_mask = ?m, wd_hashes = replicate 4 ?h, wd_depths = replicate 4 ?d\<rparr>"
    by (simp add: wonderCalculator_def m lvl del: wonder_mask.simps wonder_step.simps upt_rec_numeral)
  moreover have "repr_plain (Cell Ordinary bits refs ?m hs ds) = repr_plain c"
    "height (Cell Ordinary bits refs ?m hs ds) = height c" for hs ds
    by (simp_all add: repr_plain_def height_def c_def)
  ultimately show ?thesis
    using assms(5,6) by (simp add: new_Cell_def plain_ok_def)
qed

lemma plain_facts:
  assumes "sha_ok sha" "plain sha c"
  shows "cell_ok c \<and> plain_ok sha c \<and> (\<forall>r \<in> set (cell_refs c). plain sha r)"
  using assms(2)
proof (induction rule: plain.induct)
  case (plain_new refs bits c)
  have b: "length refs \<le> 4" "bs_length bits \<le> 1023"
    using plain_new(3) by (auto simp: new_Cell_def split: if_splits)
  from plain_new have r: "\<forall>r \<in> set refs. cell_ok r" "\<forall>r \<in> set refs. plain_ok sha r" "\<forall>r \<in> set refs. plain sha r"
    by blast+
  from new_Cell_plain [OF assms(1) r(1,2) plain_new(2) b] new_Cell_ok [OF assms(1) r(1) plain_new(2,3)]
    plain_new(3) r(3) show ?case by auto
qed

text \<open>Equal hashes of ordinary cells: equal trees, unless SHA-256 collides on one of their representations.\<close>

fun reprs :: "cell \<Rightarrow> buffer set" where
  "reprs (Cell t bits refs m hs ds) = insert (repr_plain (Cell t bits refs m hs ds)) (\<Union> (set (map reprs refs)))"

lemma reprs_simp: "reprs c = insert (repr_plain c) (\<Union>r \<in> set (cell_refs c). reprs r)"
  by (cases c) simp

lemma cell_tree_simp: "cell_tree c = Tree (bs_bits (cell_bits c)) (map cell_tree (cell_refs c))"
  by (cases c) simp

lemma cell_size_refs: "r \<in> set (cell_refs c) \<Longrightarrow> size r < size c"
  by (cases c) (auto simp: less_Suc_eq_le size_list_estimation')

lemma hash_determines_tree:
  assumes "sha_ok sha" "plain sha a" "plain sha b" "inj_on sha (reprs a \<union> reprs b)"
    and "Cell_hash a 3 = Cell_hash b 3"
  shows "cell_tree a = cell_tree b"
  using assms(2-5)
proof (induction "size a" arbitrary: a b rule: less_induct)
  case less
  note fa = plain_facts [OF assms(1) less.prems(1)] and fb = plain_facts [OF assms(1) less.prems(2)]
  have "sha (repr_plain a) = sha (repr_plain b)"
    using fa fb less.prems(4) plain_ok_hash(1) [of sha] by metis
  then have "repr_plain a = repr_plain b"
    by (rule inj_onD [OF less.prems(3)]) (simp_all add: reprs_simp [of a] reprs_simp [of b])
  then have eq: "repr_of (int (length (cell_refs a))) (getBitsDescriptor (cell_bits a)) (cell_bits a)
      (map (\<lambda>r. Cell_depth r 3) (cell_refs a)) (map (\<lambda>r. Cell_hash r 3) (cell_refs a)) =
    repr_of (int (length (cell_refs b))) (getBitsDescriptor (cell_bits b)) (cell_bits b)
      (map (\<lambda>r. Cell_depth r 3) (cell_refs b)) (map (\<lambda>r. Cell_hash r 3) (cell_refs b))"
    by (simp add: repr_plain_def)
  have len: "length (cell_refs a) \<le> 4" "length (cell_refs b) \<le> 4"
    using fa fb by (auto simp: cell_ok_def plain_ok_def)
  have "(word_of_int (int (length (cell_refs a))) :: byte) = word_of_int (int (length (cell_refs b)))"
    using eq by (simp add: repr_of_def)
  with len have n: "length (cell_refs a) = length (cell_refs b)"
    using word_of_int_inj_byte [of "int (length (cell_refs a))" "int (length (cell_refs b))"] by simp
  have ok: "\<forall>r \<in> set (cell_refs a). cell_ok r" "\<forall>r \<in> set (cell_refs b). cell_ok r"
    using fa fb plain_facts [OF assms(1)] by blast+
  have *: "bs_bits (cell_bits a) = bs_bits (cell_bits b) \<and>
      map (\<lambda>r. Cell_hash r 3) (cell_refs a) = map (\<lambda>r. Cell_hash r 3) (cell_refs b)"
    using fa fb ok n by (intro repr_inj [OF eq refl refl]) (auto simp: cell_ok_def cell_ok_hash)
  have "cell_tree (cell_refs a ! i) = cell_tree (cell_refs b ! i)" if i: "i < length (cell_refs a)" for i
  proof (rule less.hyps)
    have mem: "cell_refs a ! i \<in> set (cell_refs a)" "cell_refs b ! i \<in> set (cell_refs b)"
      using i n by auto
    show "size (cell_refs a ! i) < size a" using mem(1) by (rule cell_size_refs)
    show "plain sha (cell_refs a ! i)" "plain sha (cell_refs b ! i)" using mem fa fb by blast+
    show "inj_on sha (reprs (cell_refs a ! i) \<union> reprs (cell_refs b ! i))"
      using less.prems(3) by (rule inj_on_subset) (use mem in \<open>auto simp: reprs_simp [of a] reprs_simp [of b]\<close>)
    show "Cell_hash (cell_refs a ! i) 3 = Cell_hash (cell_refs b ! i) 3"
      using * i n by (metis nth_map)
  qed
  then have "map cell_tree (cell_refs a) = map cell_tree (cell_refs b)"
    using n by (intro nth_equalityI) simp_all
  with * show ?case by (simp add: cell_tree_simp [of a] cell_tree_simp [of b])
qed

end
