(* ===== verification/Cell_Tree.thy ===== *)
theory Cell_Tree
  imports Cell_Hash
begin

text \<open>
  Cells up to the buffers that hold their bits: \<open>xtree\<close> forgets where a bit string lies in
  its buffer and keeps all the rest. \<open>collision_free\<close> says that two different cells below a
  root never share a hash, which is what the code relies on when it identifies cells by hash.
\<close>

datatype cell_abs = XTree (xt_type: cell_type) (xt_bits: "bool list") (xt_mask: level_mask)
  (xt_hashes: "buffer list") (xt_depths: "int list") (xt_refs: "cell_abs list")

fun xtree :: "cell \<Rightarrow> cell_abs" where
  "xtree (Cell t bits refs m hs ds) = XTree t (bs_bits bits) m hs ds (map xtree refs)"

lemma xtree_simp: "xtree c = XTree (cell_type c) (bs_bits (cell_bits c)) (cell_mask c)
    (cell_hashes c) (cell_depths c) (map xtree (cell_refs c))"
  by (cases c) simp

lemma xtree_eqD:
  assumes "xtree a = xtree b"
  shows "cell_type a = cell_type b" "bs_bits (cell_bits a) = bs_bits (cell_bits b)"
    "cell_mask a = cell_mask b" "cell_hashes a = cell_hashes b" "cell_depths a = cell_depths b"
    "map xtree (cell_refs a) = map xtree (cell_refs b)" "Cell_hash a l = Cell_hash b l"
    "Cell_depth a l = Cell_depth b l" "length (cell_refs a) = length (cell_refs b)"
    "bs_length (cell_bits a) = bs_length (cell_bits b)"
proof -
  show *: "cell_type a = cell_type b" "bs_bits (cell_bits a) = bs_bits (cell_bits b)"
    "cell_mask a = cell_mask b" "cell_hashes a = cell_hashes b" "cell_depths a = cell_depths b"
    "map xtree (cell_refs a) = map xtree (cell_refs b)"
    using assms by (simp_all add: xtree_simp [of a] xtree_simp [of b])
  then show "Cell_hash a l = Cell_hash b l" "Cell_depth a l = Cell_depth b l"
    by (simp_all add: Cell_hash_def Cell_depth_def)
  show "length (cell_refs a) = length (cell_refs b)" using arg_cong [OF *(6), of length] by simp
  show "bs_length (cell_bits a) = bs_length (cell_bits b)" using arg_cong [OF *(2), of length] by simp
qed

lemma map_xtree_eqD:
  assumes "map xtree as = map xtree bs"
  shows "map (\<lambda>r. Cell_hash r l) as = map (\<lambda>r. Cell_hash r l) bs"
    "map (\<lambda>r. Cell_depth r l) as = map (\<lambda>r. Cell_depth r l) bs"
    "map cell_mask as = map cell_mask bs" "length as = length bs"
proof -
  have "list_all2 (\<lambda>a b. xtree a = xtree b) as bs"
    using assms by (simp add: list_all2_conv_all_nth list_eq_iff_nth_eq)
  then show "map (\<lambda>r. Cell_hash r l) as = map (\<lambda>r. Cell_hash r l) bs"
    "map (\<lambda>r. Cell_depth r l) as = map (\<lambda>r. Cell_depth r l) bs"
    "map cell_mask as = map cell_mask bs" "length as = length bs"
    by (induction rule: list_all2_induct) (auto dest: xtree_eqD)
qed

fun subcells :: "cell \<Rightarrow> cell set" where
  "subcells (Cell t bits refs m hs ds) =
     insert (Cell t bits refs m hs ds) (\<Union> (set (map subcells refs)))"

lemma subcells_simp: "subcells c = insert c (\<Union>r \<in> set (cell_refs c). subcells r)"
  by (cases c) simp

lemma subcells_self [simp]: "c \<in> subcells c"
  by (simp add: subcells_simp [of c])

lemma subcells_ref: "a \<in> subcells c \<Longrightarrow> r \<in> set (cell_refs a) \<Longrightarrow> r \<in> subcells c"
proof (induction c rule: measure_induct_rule [of size])
  case (less c)
  show ?case
  proof (cases "a = c")
    case True
    then show ?thesis using less.prems(2) subcells_self [of r] unfolding subcells_simp [of c] by blast
  next
    case False
    then obtain k where k: "k \<in> set (cell_refs c)" "a \<in> subcells k"
      using less.prems(1) by (auto simp: subcells_simp [of c])
    with less.IH [OF cell_size_refs] less.prems(2) have "r \<in> subcells k" by blast
    with k(1) show ?thesis unfolding subcells_simp [of c] by blast
  qed
qed

lemma subcells_trans: "b \<in> subcells c \<Longrightarrow> subcells b \<subseteq> subcells c"
proof (induction b rule: measure_induct_rule [of size])
  case (less b)
  have "subcells k \<subseteq> subcells c" if "k \<in> set (cell_refs b)" for k
    using less.IH [OF cell_size_refs [OF that]] subcells_ref [OF less.prems that] .
  then show ?case using less.prems unfolding subcells_simp [of b] by blast
qed

lemma subcells_induct [consumes 1, case_names root ref]:
  assumes "a \<in> subcells c" "P c" "\<And>b r. b \<in> subcells c \<Longrightarrow> P b \<Longrightarrow> r \<in> set (cell_refs b) \<Longrightarrow> P r"
  shows "P a"
proof -
  have "\<forall>a \<in> subcells b. P a" if "b \<in> subcells c" "P b" for b
    using that
  proof (induction b rule: measure_induct_rule [of size])
    case (less b)
    have "\<forall>a \<in> subcells k. P a" if "k \<in> set (cell_refs b)" for k
      using less.IH [OF cell_size_refs [OF that]] subcells_ref [OF less.prems(1) that]
        assms(3) [OF less.prems that] by blast
    with less.prems show ?case unfolding subcells_simp [of b] by blast
  qed
  with assms(1,2) subcells_self [of c] show ?thesis by blast
qed

definition collision_free :: "cell \<Rightarrow> bool" where
  "collision_free root \<longleftrightarrow>
     (\<forall>a \<in> subcells root. \<forall>b \<in> subcells root. Cell_hash a 3 = Cell_hash b 3 \<longrightarrow> xtree a = xtree b)"

lemma subcells_built: "a \<in> subcells c \<Longrightarrow> sha_ok sha \<Longrightarrow> built sha c \<Longrightarrow> built sha a"
  by (induction rule: subcells_induct) (auto dest: built_refs)

lemma subcells_plain: "a \<in> subcells c \<Longrightarrow> sha_ok sha \<Longrightarrow> plain sha c \<Longrightarrow> plain sha a"
  by (induction rule: subcells_induct) (use plain_facts in blast)+

text \<open>An ordinary cell is determined by its tree of bit lists.\<close>

lemma padded_bytes_bits: "bs_bits s = bs_bits t \<Longrightarrow> padded_bytes s = padded_bytes t"
  by (metis length_bs_bits padded_bytes_def)

lemma plain_xtree:
  assumes "sha_ok sha" "plain sha a" "plain sha b" "cell_tree a = cell_tree b"
  shows "xtree a = xtree b"
  using assms(2-4)
proof (induction "size a" arbitrary: a b rule: less_induct)
  case less
  note fa = plain_facts [OF assms(1) less.prems(1)] and fb = plain_facts [OF assms(1) less.prems(2)]
  have t: "bs_bits (cell_bits a) = bs_bits (cell_bits b)"
    "map cell_tree (cell_refs a) = map cell_tree (cell_refs b)"
    using less.prems(3) by (simp_all add: cell_tree_simp [of a] cell_tree_simp [of b])
  then have n: "length (cell_refs a) = length (cell_refs b)" by (metis length_map)
  have kids: "map xtree (cell_refs a) = map xtree (cell_refs b)"
  proof (rule nth_equalityI)
    fix i assume "i < length (map xtree (cell_refs a))"
    then have i: "i < length (cell_refs a)" "i < length (cell_refs b)" using n by simp_all
    have "xtree (cell_refs a ! i) = xtree (cell_refs b ! i)"
    proof (rule less.hyps)
      show "size (cell_refs a ! i) < size a" using i by (intro cell_size_refs) simp
      show "plain sha (cell_refs a ! i)" "plain sha (cell_refs b ! i)" using fa fb i by simp_all
      show "cell_tree (cell_refs a ! i) = cell_tree (cell_refs b ! i)" using t(2) i by (metis nth_map)
    qed
    with i show "map xtree (cell_refs a) ! i = map xtree (cell_refs b) ! i" by simp
  qed (simp add: n)
  have hs: "map (\<lambda>r. Cell_hash r 3) (cell_refs a) = map (\<lambda>r. Cell_hash r 3) (cell_refs b)"
    "map (\<lambda>r. Cell_depth r 3) (cell_refs a) = map (\<lambda>r. Cell_depth r 3) (cell_refs b)"
    by (rule map_xtree_eqD [OF kids])+
  have len: "bs_length (cell_bits a) = bs_length (cell_bits b)" using arg_cong [OF t(1), of length] by simp
  have "repr_plain a = repr_plain b"
    unfolding repr_plain_def repr_of_def getBitsDescriptor_def n len hs padded_bytes_bits [OF t(1)] ..
  moreover have "(cell_refs a = []) = (cell_refs b = [])" using n by auto
  then have "height a = height b" by (simp only: height_def hs(2))
  ultimately show ?case
    using fa fb kids t(1) by (simp add: xtree_simp [of a] xtree_simp [of b] plain_ok_def)
qed

lemma reprs_subcells: "a \<in> subcells c \<Longrightarrow> reprs a \<subseteq> reprs c"
proof (induction c rule: measure_induct_rule [of size])
  case (less c)
  show ?case
  proof (cases "a = c")
    case False
    then obtain k where k: "k \<in> set (cell_refs c)" "a \<in> subcells k"
      using less.prems(1) by (auto simp: subcells_simp [of c])
    with less.IH [OF cell_size_refs] have "reprs a \<subseteq> reprs k" by blast
    with k(1) show ?thesis by (auto simp: reprs_simp [of c])
  qed simp
qed

text \<open>Where SHA-256 has no collision on the representations, no two cells of an ordinary tree collide.\<close>

lemma plain_collision_free:
  assumes "sha_ok sha" "plain sha root" "inj_on sha (reprs root)"
  shows "collision_free root"
  unfolding collision_free_def
proof (intro ballI impI)
  fix a b assume a: "a \<in> subcells root" "b \<in> subcells root" "Cell_hash a 3 = Cell_hash b 3"
  have p: "plain sha a" "plain sha b" using a subcells_plain assms(1,2) by blast+
  have "inj_on sha (reprs a \<union> reprs b)"
    by (rule inj_on_subset [OF assms(3)]) (use reprs_subcells a in blast)
  with hash_determines_tree [OF assms(1) p] a(3) have "cell_tree a = cell_tree b" by blast
  then show "xtree a = xtree b" by (rule plain_xtree [OF assms(1) p])
qed

section \<open>Height\<close>

fun tree_height :: "cell_abs \<Rightarrow> nat" where
  "tree_height (XTree t bs m hs ds xs) = foldr (\<lambda>x n. max (Suc (tree_height x)) n) xs 0"

lemma foldr_max_ge: "x \<in> set xs \<Longrightarrow> Suc (f x) \<le> foldr (\<lambda>x n. max (Suc (f x)) n) xs (0::nat)"
  by (induction xs) auto

lemma height_ref: "r \<in> set (cell_refs c) \<Longrightarrow> tree_height (xtree r) < tree_height (xtree c)"
proof -
  assume "r \<in> set (cell_refs c)"
  then have "Suc (tree_height (xtree r)) \<le> foldr (\<lambda>x n. max (Suc (tree_height x)) n) (map xtree (cell_refs c)) 0"
    by (intro foldr_max_ge) simp
  then show ?thesis by (simp add: xtree_simp [of c])
qed

end
