(* ===== verification/Topo_Sort.thy ===== *)
theory Topo_Sort
  imports Cell_Tree
begin

text \<open>
  \<open>topologicalSort\<close> (ton-core/boc/cell/utils/topologicalSort.ts): the distinct cells below a
  root, numbered so that every reference points forward and the root comes first. Cells are
  identified by their hash; the hash itself stands for its hexadecimal text.
\<close>

section \<open>Model\<close>

record topo_entry =
  te_cell :: cell
  te_refs :: "buffer list"

type_synonym topo_cells = "(buffer \<times> topo_entry) list"

definition set_add :: "'a \<Rightarrow> 'a list \<Rightarrow> 'a list" where \<comment> \<open>\<open>Set.add\<close>, in insertion order\<close>
  "set_add x xs = (if x \<in> set xs then xs else xs @ [x])"

text \<open>The body of the collecting loop: pending cells, all cells by hash, cells not yet placed.\<close>

fun topo_add ::
    "cell list \<times> topo_cells \<times> buffer list \<Rightarrow> cell \<Rightarrow> cell list \<times> topo_cells \<times> buffer list" where
  "topo_add (pending, allCells, notPermCells) c =
     (let hash = Cell_hash c 3
      in if map_of allCells hash \<noteq> None then (pending, allCells, notPermCells)
         else (pending @ cell_refs c,
               AList.update hash \<lparr>te_cell = c, te_refs = map (\<lambda>v. Cell_hash v 3) (cell_refs c)\<rparr> allCells,
               set_add hash notPermCells))"

lemma topo_add_pending_size:
  "size_list size (fst (foldl topo_add (p, a, n) cs)) \<le> size_list size p + size_list size cs"
  "cs \<noteq> [] \<Longrightarrow> size_list size (fst (foldl topo_add (p, a, n) cs)) < size_list size p + size_list size cs"
proof -
  have sz: "size_list size (cell_refs c) < size c" for c :: cell by (cases c) simp
  have app: "size_list size (xs @ ys) = size_list size xs + size_list size ys" for xs ys :: "cell list"
    by (induction xs) auto
  show le: "size_list size (fst (foldl topo_add (p, a, n) cs)) \<le> size_list size p + size_list size cs" for p a n cs
  proof (induction cs arbitrary: p a n)
    case (Cons c cs)
    obtain p' a' n' where s: "topo_add (p, a, n) c = (p', a', n')" by (cases "topo_add (p, a, n) c")
    then have "size_list size p' \<le> size_list size p + size c"
      using sz [of c] by (auto simp: Let_def app split: if_splits)
    with Cons.IH [of p' a' n'] s show ?case by (simp del: topo_add.simps)
  qed simp
  show "cs \<noteq> [] \<Longrightarrow> size_list size (fst (foldl topo_add (p, a, n) cs)) < size_list size p + size_list size cs"
  proof (cases cs)
    case (Cons c ds)
    obtain p' a' n' where s: "topo_add (p, a, n) c = (p', a', n')" by (cases "topo_add (p, a, n) c")
    then have "size_list size p' \<le> size_list size p + size c"
      using sz [of c] by (auto simp: Let_def app split: if_splits)
    with le [of p' a' n' ds] s Cons show ?thesis by (simp del: topo_add.simps)
  qed simp
qed

function topo_collect :: "cell list \<Rightarrow> topo_cells \<Rightarrow> buffer list \<Rightarrow> topo_cells \<times> buffer list" where
  "topo_collect pending allCells notPermCells =
     (if pending = [] then (allCells, notPermCells)
      else case foldl topo_add ([], allCells, notPermCells) pending of
             (pending', allCells', notPermCells') \<Rightarrow> topo_collect pending' allCells' notPermCells')"
  by pat_completeness auto
termination
proof (relation "measure (\<lambda>(p, a, n). size_list size p)", goal_cases)
  case (2 pending a n p' y a' n')
  then have "foldl topo_add ([], a, n) pending = (p', a', n')" by simp
  with topo_add_pending_size(2) [of pending "[]" a n] 2(1) show ?case by simp
qed simp

declare topo_collect.simps [simp del]

text \<open>
  The depth-first placement. Its state is the path being visited (\<open>tempMark\<close>), the hashes not
  placed yet and the placed ones. The recursion is bounded by the number of hashes that are
  neither placed nor on the path; the fuel the caller gives covers it.
\<close>

type_synonym topo_state = "buffer list \<times> buffer list \<times> buffer list"

fun topo_visit :: "nat \<Rightarrow> topo_cells \<Rightarrow> buffer \<Rightarrow> topo_state \<Rightarrow> topo_state res" where
  "topo_visit 0 allCells hash s = Inl OutOfFuel"
| "topo_visit (Suc fuel) allCells hash (tempMark, notPermCells, ordered) =
     (if hash \<notin> set notPermCells then Inr (tempMark, notPermCells, ordered)
      else if hash \<in> set tempMark then Inl NotADag
      else case map_of allCells hash of
          None \<Rightarrow> Inl TypeErr
        | Some e \<Rightarrow>
            bindE (foldE (topo_visit fuel allCells) (rev (te_refs e)) (set_add hash tempMark, notPermCells, ordered))
              (\<lambda>(tempMark, notPermCells, ordered).
                 Inr (removeAll hash tempMark, removeAll hash notPermCells, ordered @ [hash])))"

fun topo_loop :: "nat \<Rightarrow> nat \<Rightarrow> topo_cells \<Rightarrow> topo_state \<Rightarrow> topo_state res" where
  "topo_loop 0 fuel allCells s = Inl OutOfFuel"
| "topo_loop (Suc rounds) fuel allCells (tempMark, notPermCells, ordered) =
     (case notPermCells of
        [] \<Rightarrow> Inr (tempMark, notPermCells, ordered)
      | h # _ \<Rightarrow> bindE (topo_visit fuel allCells h (tempMark, notPermCells, ordered))
                   (topo_loop rounds fuel allCells))"

text \<open>The position of a hash in the result: the last visited comes first.\<close>

definition topo_indexes :: "buffer list \<Rightarrow> (buffer \<times> int) list" where
  "topo_indexes ordered =
     foldl (\<lambda>m i. AList.update (ordered ! (length ordered - i - 1)) (int i) m) [] [0..<length ordered]"

definition topologicalSort :: "cell \<Rightarrow> (cell \<times> int list) list res" where
  "topologicalSort src =
     (case topo_collect [src] [] [] of (allCells, notPermCells) \<Rightarrow>
       let fuel = Suc (length notPermCells)
       in bindE (topo_loop fuel fuel allCells ([], notPermCells, [])) (\<lambda>(_, _, ordered).
          let indexes = topo_indexes ordered
          in mapE (\<lambda>ent. case map_of allCells ent of
                     None \<Rightarrow> Inl TypeErr
                   | Some e \<Rightarrow> bindE (mapE (\<lambda>v. case map_of indexes v of None \<Rightarrow> Inl TypeErr | Some i \<Rightarrow> Inr i)
                                       (te_refs e)) (\<lambda>is. Inr (te_cell e, is)))
               (rev ordered)))"

section \<open>Collecting\<close>

definition coll_inv :: "cell \<Rightarrow> cell set \<times> topo_cells \<times> buffer list \<Rightarrow> bool" where
  "coll_inv root = (\<lambda>(pending, a, n).
     (\<forall>h e. map_of a h = Some e \<longrightarrow> te_cell e \<in> subcells root \<and> Cell_hash (te_cell e) 3 = h \<and>
        te_refs e = map (\<lambda>v. Cell_hash v 3) (cell_refs (te_cell e)) \<and>
        (\<forall>r \<in> set (cell_refs (te_cell e)). Cell_hash r 3 \<in> dom (map_of a) \<or> r \<in> pending)) \<and>
     distinct n \<and> set n = dom (map_of a) \<and> pending \<subseteq> subcells root \<and>
     n \<noteq> [] \<and> hd n = Cell_hash root 3)"

lemma coll_inv_add:
  assumes "coll_inv root (set p \<union> insert c cs, a, n)" "topo_add (p, a, n) c = (p', a', n')"
  shows "coll_inv root (set p' \<union> cs, a', n')"
proof (cases "map_of a (Cell_hash c 3) = None")
  case False
  then have "p' = p" "a' = a" "n' = n" "Cell_hash c 3 \<in> dom (map_of a)"
    using assms(2) by (auto simp: Let_def)
  with assms(1) show ?thesis unfolding coll_inv_def by auto
next
  case True
  let ?h = "Cell_hash c 3"
  have eq: "p' = p @ cell_refs c" "n' = set_add ?h n"
    "map_of a' = (map_of a)(?h \<mapsto> \<lparr>te_cell = c, te_refs = map (\<lambda>v. Cell_hash v 3) (cell_refs c)\<rparr>)"
    using assms(2) True by (auto simp: Let_def update_conv')
  have c: "c \<in> subcells root" and n: "?h \<notin> set n"
    using assms(1) True by (auto simp: coll_inv_def)
  have "set (cell_refs c) \<subseteq> subcells root" using subcells_ref [OF c] by blast
  have "te_cell e \<in> subcells root \<and> Cell_hash (te_cell e) 3 = h \<and>
      te_refs e = map (\<lambda>v. Cell_hash v 3) (cell_refs (te_cell e)) \<and>
      (\<forall>r \<in> set (cell_refs (te_cell e)). Cell_hash r 3 \<in> dom (map_of a') \<or> r \<in> set p' \<union> cs)"
    if "map_of a' h = Some e" for h e
  proof (cases "h = ?h")
    case True
    with that eq(1,3) c show ?thesis by auto
  next
    case False
    then have "map_of a h = Some e" using that eq(3) by simp
    with assms(1) have "te_cell e \<in> subcells root \<and> Cell_hash (te_cell e) 3 = h \<and>
        te_refs e = map (\<lambda>v. Cell_hash v 3) (cell_refs (te_cell e)) \<and>
        (\<forall>r \<in> set (cell_refs (te_cell e)). Cell_hash r 3 \<in> dom (map_of a) \<or> r \<in> set p \<union> insert c cs)"
      unfolding coll_inv_def by blast
    then show ?thesis unfolding eq(1,3) by auto
  qed
  moreover have "distinct n' \<and> set n' = dom (map_of a') \<and> set p' \<union> cs \<subseteq> subcells root \<and>
      n' \<noteq> [] \<and> hd n' = Cell_hash root 3"
    using assms(1) eq n \<open>set (cell_refs c) \<subseteq> subcells root\<close>
    unfolding coll_inv_def by (auto simp: set_add_def)
  ultimately show ?thesis unfolding coll_inv_def by blast
qed

lemma coll_inv_fold:
  assumes "coll_inv root (set p \<union> set cs, a, n)" "foldl topo_add (p, a, n) cs = (p', a', n')"
  shows "coll_inv root (set p', a', n')"
  using assms
proof (induction cs arbitrary: p a n)
  case (Cons c cs)
  obtain p1 a1 n1 where s: "topo_add (p, a, n) c = (p1, a1, n1)" by (cases "topo_add (p, a, n) c")
  have "coll_inv root (set p1 \<union> set cs, a1, n1)"
    using coll_inv_add [OF _ s, of root "set cs"] Cons.prems(1) by simp
  with Cons.IH Cons.prems(2) s show ?case by (simp del: topo_add.simps)
qed simp

lemma coll_inv_collect:
  assumes "coll_inv root (set p, a, n)" "topo_collect p a n = (a', n')"
  shows "coll_inv root ({}, a', n')"
  using assms
proof (induction p a n rule: topo_collect.induct)
  case (1 p a n)
  show ?case
  proof (cases "p = []")
    case True
    with 1 show ?thesis by (simp add: topo_collect.simps)
  next
    case False
    obtain p1 a1 n1 where s: "foldl topo_add ([], a, n) p = (p1, a1, n1)"
      by (cases "foldl topo_add ([], a, n) p")
    have "coll_inv root (set p1, a1, n1)"
      using coll_inv_fold [OF _ s, of root] 1(2) by simp
    moreover have "topo_collect p1 a1 n1 = (a', n')"
      using 1(3) False s by (simp add: topo_collect.simps [of p a n])
    ultimately show ?thesis using 1(1) [OF False] s by simp
  qed
qed

lemma topo_collect_ok:
  assumes "topo_collect [root] [] [] = (a, n)"
  shows "coll_inv root ({}, a, n)"
proof -
  let ?h = "Cell_hash root 3"
  let ?a = "[(?h, \<lparr>te_cell = root, te_refs = map (\<lambda>v. Cell_hash v 3) (cell_refs root)\<rparr>)]"
  have "topo_collect [root] [] [] = topo_collect (cell_refs root) ?a [?h]"
    by (simp add: topo_collect.simps [of "[root]"] set_add_def Let_def)
  moreover have "coll_inv root (set (cell_refs root), ?a, [?h])"
    using subcells_ref [of root root] by (auto simp: coll_inv_def)
  ultimately show ?thesis
    using coll_inv_collect [of root "cell_refs root" ?a "[?h]" a n] assms by simp
qed

section \<open>Placing: the fuel suffices\<close>

text \<open>Without any assumption on the graph, the recursion is never cut short by the fuel.\<close>

definition fuel_ok :: "topo_state \<Rightarrow> topo_state res \<Rightarrow> bool" where
  "fuel_ok s m = (m \<noteq> Inl OutOfFuel \<and>
     (\<forall>t n q. m = Inr (t, n, q) \<longrightarrow> set t = set (fst s) \<and> set n \<subseteq> set (fst (snd s))))"

lemma fuel_ok_foldE:
  assumes "\<And>x t n q. x \<in> set xs \<Longrightarrow> card (set n - set t) < k \<Longrightarrow> fuel_ok (t, n, q) (f x (t, n, q))"
    and "card (set n - set t) < k"
  shows "fuel_ok (t, n, q) (foldE f xs (t, n, q))"
  using assms
proof (induction xs arbitrary: t n q)
  case Nil
  then show ?case by (simp add: fuel_ok_def)
next
  case (Cons x xs)
  have x: "fuel_ok (t, n, q) (f x (t, n, q))" using Cons.prems by simp
  show ?case
  proof (cases "f x (t, n, q)")
    case (Inl e)
    with x show ?thesis by (simp add: fuel_ok_def)
  next
    case (Inr s)
    obtain t1 n1 q1 where s: "s = (t1, n1, q1)" by (cases s)
    with x Inr have sub: "set t1 = set t" "set n1 \<subseteq> set n" by (auto simp: fuel_ok_def)
    then have "card (set n1 - set t1) \<le> card (set n - set t)" by (intro card_mono) auto
    with Cons.prems have "fuel_ok (t1, n1, q1) (foldE f xs (t1, n1, q1))" by (intro Cons.IH) auto
    with sub Inr s show ?thesis by (fastforce simp: fuel_ok_def)
  qed
qed

lemma topo_visit_fuel:
  "card (set n - set t) < k \<Longrightarrow> fuel_ok (t, n, q) (topo_visit k a h (t, n, q))"
proof (induction k arbitrary: h t n q)
  case (Suc k)
  show ?case
  proof (cases "h \<notin> set n \<or> h \<in> set t \<or> map_of a h = None")
    case True
    then show ?thesis by (auto simp: fuel_ok_def)
  next
    case False
    then obtain e where e: "h \<in> set n" "h \<notin> set t" "map_of a h = Some e" by auto
    have "card (set n - set (set_add h t)) < card (set n - set t)"
      using e by (intro psubset_card_mono) (auto simp: set_add_def)
    then have "fuel_ok (set_add h t, n, q) (foldE (topo_visit k a) (rev (te_refs e)) (set_add h t, n, q))"
      using Suc.prems by (intro fuel_ok_foldE [where k = k] Suc.IH) auto
    with e show ?thesis by (auto simp: fuel_ok_def set_add_def bindE_eq_Inl split: if_splits)
  qed
qed simp

section \<open>Placing: the order\<close>

definition topo_graph :: "topo_cells \<Rightarrow> (buffer \<Rightarrow> nat) \<Rightarrow> bool" where
  "topo_graph a rank \<longleftrightarrow> (\<forall>h e. map_of a h = Some e \<longrightarrow>
     (\<forall>r \<in> set (te_refs e). r \<in> dom (map_of a) \<and> rank r < rank h))"

text \<open>The placed hashes and the rest partition the cells, and what a placed cell refers to is placed before.\<close>

definition placed :: "topo_cells \<Rightarrow> buffer list \<Rightarrow> buffer list \<Rightarrow> bool" where
  "placed a n q \<longleftrightarrow> distinct q \<and> distinct n \<and> set n \<inter> set q = {} \<and> set n \<union> set q = dom (map_of a) \<and>
     (\<forall>i < length q. \<forall>e. map_of a (q ! i) = Some e \<longrightarrow> set (te_refs e) \<subseteq> set (take i q))"

lemma placed_snoc:
  assumes "placed a n q" "h \<in> set n" "map_of a h = Some e" "set (te_refs e) \<subseteq> set q"
  shows "placed a (removeAll h n) (q @ [h])"
proof -
  have "set (te_refs e') \<subseteq> set (take i (q @ [h]))"
    if "i < length (q @ [h])" "map_of a ((q @ [h]) ! i) = Some e'" for i e'
  proof (cases "i < length q")
    case True
    with that(2) assms(1) have "set (te_refs e') \<subseteq> set (take i q)"
      unfolding placed_def by (auto simp: nth_append)
    with True show ?thesis by simp
  next
    case False
    with that assms(3,4) show ?thesis by (auto simp: nth_append)
  qed
  moreover have "distinct (q @ [h]) \<and> distinct (removeAll h n) \<and> set (removeAll h n) \<inter> set (q @ [h]) = {} \<and>
      set (removeAll h n) \<union> set (q @ [h]) = dom (map_of a)"
    using assms(1,2) unfolding placed_def by (auto simp: distinct_removeAll)
  ultimately show ?thesis unfolding placed_def by blast
qed

definition visited :: "topo_cells \<Rightarrow> buffer list \<Rightarrow> topo_state \<Rightarrow> topo_state res \<Rightarrow> bool" where
  "visited a hs = (\<lambda>(t, n, q) m. \<exists>n' q'. m = Inr (t, n', q @ q') \<and> placed a n' (q @ q') \<and>
     set n' \<subseteq> set n \<and> set hs \<inter> set n' = {} \<and> set t \<inter> set n \<subseteq> set n')"

lemma visited_foldE:
  assumes "\<And>h n q. h \<in> set hs \<Longrightarrow> placed a n q \<Longrightarrow> card (set n - set t) < k \<Longrightarrow> visited a [h] (t, n, q) (f h (t, n, q))"
    and "placed a n q" "card (set n - set t) < k"
  shows "visited a hs (t, n, q) (foldE f hs (t, n, q))"
  using assms
proof (induction hs arbitrary: n q)
  case Nil
  then show ?case by (auto simp: visited_def)
next
  case (Cons h hs)
  from Cons.prems(1) [of h n q] Cons.prems(2,3) obtain n1 q1 where
    1: "f h (t, n, q) = Inr (t, n1, q @ q1)" "placed a n1 (q @ q1)" "set n1 \<subseteq> set n" "h \<notin> set n1"
    "set t \<inter> set n \<subseteq> set n1"
    by (auto simp: visited_def)
  have "card (set n1 - set t) \<le> card (set n - set t)" using 1(3) by (intro card_mono) auto
  then have "visited a hs (t, n1, q @ q1) (foldE f hs (t, n1, q @ q1))"
    using Cons.prems 1(2) by (intro Cons.IH) auto
  then obtain n2 q2 where 2: "foldE f hs (t, n1, q @ q1) = Inr (t, n2, (q @ q1) @ q2)"
    "placed a n2 ((q @ q1) @ q2)" "set n2 \<subseteq> set n1" "set hs \<inter> set n2 = {}"
    "set t \<inter> set n1 \<subseteq> set n2"
    unfolding visited_def by blast
  have "set n2 \<subseteq> set n \<and> set (h # hs) \<inter> set n2 = {} \<and> set t \<inter> set n \<subseteq> set n2"
    using 1(3-5) 2(3-5) by auto
  with 1(1) 2(1,2) show ?case by (auto simp: visited_def intro!: exI [of _ "q1 @ q2"])
qed

lemma topo_visit_ok:
  assumes g: "topo_graph a rank"
  shows "h \<in> dom (map_of a) \<Longrightarrow> placed a n q \<Longrightarrow> \<forall>t \<in> set tm. rank h < rank t \<Longrightarrow>
    card (set n - set tm) < k \<Longrightarrow>
    visited a [h] (tm, n, q) (topo_visit k a h (tm, n, q)) \<and>
    (h \<in> set n \<longrightarrow> (\<exists>n' q'. topo_visit k a h (tm, n, q) = Inr (tm, n', q' @ [h])))"
proof (induction k arbitrary: h tm n q)
  case (Suc k)
  show ?case
  proof (cases "h \<in> set n")
    case False
    with Suc.prems show ?thesis by (auto simp: visited_def)
  next
    case True
    obtain e where e: "map_of a h = Some e" using Suc.prems(1) by auto
    have h: "h \<notin> set tm" using Suc.prems(3) by blast
    let ?t = "set_add h tm"
    have t: "?t = tm @ [h]" using h by (simp add: set_add_def)
    have "card (set n - set ?t) < card (set n - set tm)"
      using True h by (intro psubset_card_mono) (auto simp: t)
    then have c: "card (set n - set ?t) < k" using Suc.prems(4) by simp
    have "visited a (rev (te_refs e)) (?t, n, q) (foldE (topo_visit k a) (rev (te_refs e)) (?t, n, q))"
    proof (rule visited_foldE [OF _ Suc.prems(2) c])
      fix r n q assume r: "r \<in> set (rev (te_refs e))" "placed a n q" "card (set n - set ?t) < k"
      with g e have "r \<in> dom (map_of a)" "rank r < rank h" unfolding topo_graph_def by auto
      moreover from this Suc.prems(3) have "\<forall>t \<in> set ?t. rank r < rank t" by (auto simp: t)
      ultimately show "visited a [r] (?t, n, q) (topo_visit k a r (?t, n, q))"
        using Suc.IH r(2,3) by blast
    qed
    then obtain n1 q1 where 1: "foldE (topo_visit k a) (rev (te_refs e)) (?t, n, q) = Inr (?t, n1, q @ q1)"
      "placed a n1 (q @ q1)" "set n1 \<subseteq> set n" "set (te_refs e) \<inter> set n1 = {}" "set ?t \<inter> set n \<subseteq> set n1"
      unfolding visited_def by auto
    have mem: "h \<in> set n1" using 1(5) True by (auto simp: t)
    have "set (te_refs e) \<subseteq> dom (map_of a)" using g e unfolding topo_graph_def by blast
    then have "set (te_refs e) \<subseteq> set (q @ q1)" using 1(2,4) unfolding placed_def by blast
    from placed_snoc [OF 1(2) mem e this] have p: "placed a (removeAll h n1) ((q @ q1) @ [h])" .
    have "removeAll h ?t = tm" using h by (simp add: t)
    then have eq: "topo_visit (Suc k) a h (tm, n, q) = Inr (tm, removeAll h n1, (q @ q1) @ [h])"
      using True h e 1(1) by simp
    have "set (removeAll h n1) \<subseteq> set n \<and> set [h] \<inter> set (removeAll h n1) = {} \<and>
        set tm \<inter> set n \<subseteq> set (removeAll h n1)"
      using 1(3,5) h by (auto simp: t)
    then have "visited a [h] (tm, n, q) (topo_visit (Suc k) a h (tm, n, q))"
      unfolding visited_def prod.case
      by (intro exI [of _ "removeAll h n1"] exI [of _ "q1 @ [h]"]) (use eq p in simp)
    with eq show ?thesis by blast
  qed
qed simp

text \<open>The outer loop places everything, and after its first round the first hash is the last placed.\<close>

lemma topo_loop_ok:
  assumes g: "topo_graph a rank"
  shows "placed a n q \<Longrightarrow> card (set n) < k \<Longrightarrow> card (set n) < m \<Longrightarrow>
    \<exists>q'. topo_loop m k a ([], n, q) = Inr ([], [], q @ q') \<and> placed a [] (q @ q')"
proof (induction m arbitrary: n q)
  case (Suc m)
  show ?case
  proof (cases n)
    case Nil
    with Suc.prems show ?thesis by (auto intro!: exI [of _ "[]"])
  next
    case (Cons h n0)
    have "h \<in> dom (map_of a)" using Suc.prems(1) Cons unfolding placed_def by auto
    with topo_visit_ok [OF g this Suc.prems(1), of "[]" k] Suc.prems(2)
    obtain n1 q1 where 1: "topo_visit k a h ([], n, q) = Inr ([], n1, q @ q1)" "placed a n1 (q @ q1)"
      "set n1 \<subseteq> set n" "h \<notin> set n1"
      by (auto simp: visited_def)
    have "card (set n1) < card (set n)" using 1(3,4) Cons by (intro psubset_card_mono) auto
    then obtain q2 where "topo_loop m k a ([], n1, q @ q1) = Inr ([], [], (q @ q1) @ q2)"
      "placed a [] ((q @ q1) @ q2)"
      using Suc.IH [OF 1(2)] Suc.prems(2,3) by auto
    with 1(1) Cons show ?thesis by (auto intro!: exI [of _ "q1 @ q2"])
  qed
qed simp

lemma coll_inv_graph:
  assumes "coll_inv root ({}, a, n)" "collision_free root"
  shows "topo_graph a (\<lambda>h. tree_height (xtree (te_cell (the (map_of a h)))))"
  unfolding topo_graph_def
proof (intro allI impI ballI)
  fix h e v assume e: "map_of a h = Some e" "v \<in> set (te_refs e)"
  have inv: "te_cell e \<in> subcells root \<and> Cell_hash (te_cell e) 3 = h \<and>
      te_refs e = map (\<lambda>v. Cell_hash v 3) (cell_refs (te_cell e)) \<and>
      (\<forall>r \<in> set (cell_refs (te_cell e)). Cell_hash r 3 \<in> dom (map_of a))"
    if "map_of a h = Some e" for h e
    using assms(1) that unfolding coll_inv_def by auto
  obtain r where r: "r \<in> set (cell_refs (te_cell e))" "v = Cell_hash r 3"
    using inv [OF e(1)] e(2) by auto
  then obtain d where d: "map_of a v = Some d" using inv [OF e(1)] by auto
  have "r \<in> subcells root" using subcells_ref inv [OF e(1)] r(1) by blast
  then have "xtree (te_cell d) = xtree r"
    using assms(2) inv [OF d] r(2) unfolding collision_free_def by metis
  then have "tree_height (xtree (te_cell d)) < tree_height (xtree (te_cell e))"
    using height_ref [OF r(1)] by simp
  then show "v \<in> dom (map_of a) \<and> tree_height (xtree (te_cell (the (map_of a v)))) <
      tree_height (xtree (te_cell (the (map_of a h))))"
    using d e(1) by auto
qed

text \<open>Every hash below the root is reached from it, so placing the root places all.\<close>

lemma topo_reach:
  assumes inv: "coll_inv root ({}, a, n)" and cf: "collision_free root"
    and root: "Cell_hash root 3 \<in> X"
    and closed: "\<And>h e. h \<in> X \<Longrightarrow> map_of a h = Some e \<Longrightarrow> set (te_refs e) \<subseteq> X"
  shows "dom (map_of a) \<subseteq> X"
proof
  fix h assume "h \<in> dom (map_of a)"
  then obtain e where e: "map_of a h = Some e" by auto
  have props: "te_cell e \<in> subcells root" "Cell_hash (te_cell e) 3 = h"
    "te_refs e = map (\<lambda>v. Cell_hash v 3) (cell_refs (te_cell e))"
    if "map_of a h = Some e" for h e
    using inv that unfolding coll_inv_def by auto
  have rootdom: "Cell_hash root 3 \<in> dom (map_of a)"
    using inv unfolding coll_inv_def by (cases n) auto
  have "Cell_hash c 3 \<in> X \<inter> dom (map_of a)" if "c \<in> subcells root" for c
    using that
  proof (induction rule: subcells_induct)
    case root
    then show ?case using root rootdom assms(3) by simp
  next
    case (ref b r)
    then obtain d where d: "map_of a (Cell_hash b 3) = Some d" by auto
    from cf props(1,2) [OF d] ref.hyps(1) have "xtree (te_cell d) = xtree b"
      unfolding collision_free_def by blast
    then have "te_refs d = map (\<lambda>v. Cell_hash v 3) (cell_refs b)"
      using props(3) [OF d] map_xtree_eqD(1) [OF xtree_eqD(6)] by metis
    then have "Cell_hash r 3 \<in> set (te_refs d)" using ref.hyps(2) by simp
    moreover have "set (te_refs d) \<subseteq> X" using closed d ref.IH by blast
    moreover have "set (te_refs d) \<subseteq> dom (map_of a)"
      using coll_inv_graph [OF inv cf] d unfolding topo_graph_def by blast
    ultimately show ?case by blast
  qed
  from this [OF props(1) [OF e]] props(2) [OF e] show "h \<in> X" by simp
qed

section \<open>The result\<close>

lemma topo_indexes_ok:
  assumes "distinct q" "i < length q"
  shows "map_of (topo_indexes q) (q ! (length q - i - 1)) = Some (int i)"
proof -
  let ?f = "\<lambda>m i. AList.update (q ! (length q - i - 1)) (int i) m"
  have "i < m \<Longrightarrow> m \<le> length q \<Longrightarrow> map_of (foldl ?f [] [0..<m]) (q ! (length q - i - 1)) = Some (int i)" for m
  proof (induction m)
    case (Suc m)
    have "q ! (length q - i - 1) = q ! (length q - m - 1) \<longleftrightarrow> i = m"
      using Suc.prems assms by (subst nth_eq_iff_index_eq) auto
    with Suc show ?case by (cases "i = m") (auto simp: update_conv')
  qed simp
  with assms(2) show ?thesis by (simp add: topo_indexes_def)
qed

text \<open>
  The contract of the sort: the root comes first, every entry is a cell below the root, no two
  entries share a hash, and each reference of a cell is the index of a later entry with the
  hash of the referenced cell.
\<close>

definition entry_ok :: "cell \<Rightarrow> (cell \<times> int list) list \<Rightarrow> nat \<Rightarrow> bool" where
  "entry_ok root es i \<longleftrightarrow>
     (let c = fst (es ! i); js = snd (es ! i)
      in c \<in> subcells root \<and> length js = length (cell_refs c) \<and>
         (\<forall>k < length js. int i < js ! k \<and> js ! k < int (length es) \<and>
            Cell_hash (fst (es ! nat (js ! k))) 3 = Cell_hash (cell_refs c ! k) 3))"

definition topo_ok :: "cell \<Rightarrow> (cell \<times> int list) list \<Rightarrow> bool" where
  "topo_ok root es \<longleftrightarrow> es \<noteq> [] \<and> Cell_hash (fst (es ! 0)) 3 = Cell_hash root 3 \<and>
     distinct (map (\<lambda>e. Cell_hash (fst e) 3) es) \<and> (\<forall>i < length es. entry_ok root es i)"

lemma disjoint_rest: "D \<subseteq> S \<Longrightarrow> N \<inter> S = {} \<Longrightarrow> N \<union> S = D \<Longrightarrow> N = {}"
  by blast

lemma topo_loop_step:
  "topo_visit k a h (t, h # n, q) = Inr s \<Longrightarrow> topo_loop (Suc m) k a (t, h # n, q) = topo_loop m k a s"
  by simp

lemma topo_loop_done: "0 < m \<Longrightarrow> topo_loop m k a (t, [], q) = Inr (t, [], q)"
  by (cases m) simp_all

lemma last_placed:
  assumes inv: "coll_inv root ({}, a, n)" and cf: "collision_free root"
  shows "\<exists>q. topo_loop (Suc (length n)) (Suc (length n)) a ([], n, []) = Inr ([], [], q @ [Cell_hash root 3]) \<and>
    placed a [] (q @ [Cell_hash root 3])"
proof -
  let ?h = "Cell_hash root 3" and ?k = "Suc (length n)"
  note g = coll_inv_graph [OF inv cf]
  have n: "n \<noteq> []" "hd n = ?h" "distinct n" "set n = dom (map_of a)"
    using inv unfolding coll_inv_def by auto
  have p0: "placed a n []" using n by (simp add: placed_def)
  have card: "card (set n) < ?k" using card_length [of n] by simp
  obtain n0 where cons: "n = ?h # n0" using n(1,2) by (cases n) auto
  have dom: "?h \<in> dom (map_of a)" using n(4) cons by auto
  obtain n1 q1 where 1: "topo_visit ?k a ?h ([], n, []) = Inr ([], n1, q1 @ [?h])" "placed a n1 (q1 @ [?h])"
    using topo_visit_ok [OF g dom p0, of "[]" ?k] card cons by (auto simp: visited_def)
  have "dom (map_of a) \<subseteq> set (q1 @ [?h])"
  proof (rule topo_reach [OF inv cf])
    fix v e assume "v \<in> set (q1 @ [?h])" "map_of a v = Some e"
    then obtain i where "i < length (q1 @ [?h])" "(q1 @ [?h]) ! i = v" by (auto simp only: in_set_conv_nth)
    with 1(2) \<open>map_of a v = Some e\<close> have "set (te_refs e) \<subseteq> set (take i (q1 @ [?h]))"
      unfolding placed_def by blast
    then show "set (te_refs e) \<subseteq> set (q1 @ [?h])" using set_take_subset by fast
  qed simp
  moreover have "set n1 \<inter> set (q1 @ [?h]) = {}" "set n1 \<union> set (q1 @ [?h]) = dom (map_of a)"
    using 1(2) unfolding placed_def by blast+
  ultimately have "set n1 = {}" by (rule disjoint_rest)
  then have nil: "n1 = []" by simp
  have "topo_visit ?k a ?h ([], ?h # n0, []) = Inr ([], [], q1 @ [?h])"
    using 1(1) by (simp only: cons [symmetric] nil)
  from topo_loop_step [OF this, of "length n"] topo_loop_done [of "length n" ?k a "[]" "q1 @ [?h]"] n(1)
  have "topo_loop ?k ?k a ([], n, []) = Inr ([], [], q1 @ [?h])"
    unfolding cons [symmetric] by (simp only: length_greater_0_conv not_False_eq_True simp_thms)
  with 1(2) nil show ?thesis by blast
qed

lemma topologicalSort_ok:
  assumes cf: "collision_free root"
  shows "\<exists>es. topologicalSort root = Inr es \<and> topo_ok root es"
proof -
  obtain a n where coll: "topo_collect [root] [] [] = (a, n)" by (cases "topo_collect [root] [] []")
  note inv = topo_collect_ok [OF coll]
  obtain q where q: "topo_loop (Suc (length n)) (Suc (length n)) a ([], n, []) = Inr ([], [], q)"
    "placed a [] q" "q \<noteq> []" "last q = Cell_hash root 3"
    using last_placed [OF inv cf] by fastforce
  have cells: "te_cell e \<in> subcells root" "Cell_hash (te_cell e) 3 = h"
    "te_refs e = map (\<lambda>v. Cell_hash v 3) (cell_refs (te_cell e))" if "map_of a h = Some e" for h e
    using inv that unfolding coll_inv_def by auto
  let ?N = "length q"
  let ?e = "\<lambda>h. the (map_of a h)" and ?ix = "\<lambda>v. the (map_of (topo_indexes q) v)"
  have e: "map_of a h = Some (?e h)" if "h \<in> set q" for h
    using q(2) that unfolding placed_def by fastforce
  have ix: "map_of (topo_indexes q) (q ! j) = Some (int (?N - 1 - j))" if "j < ?N" for j
    using topo_indexes_ok [of q "?N - 1 - j"] q(2) that unfolding placed_def by simp
  have refs: "\<exists>j < k. v = q ! j" if "k < ?N" "v \<in> set (te_refs (?e (q ! k)))" for k v
  proof -
    have "v \<in> set (take k q)" using q(2) e that unfolding placed_def by (meson nth_mem subsetD)
    then show ?thesis using that(1) by (auto simp: in_set_conv_nth)
  qed
  let ?es = "map (\<lambda>h. (te_cell (?e h), map ?ix (te_refs (?e h)))) (rev q)"
  have "mapE (\<lambda>v. case map_of (topo_indexes q) v of None \<Rightarrow> Inl TypeErr | Some i \<Rightarrow> Inr i) (te_refs (?e h)) =
      Inr (map ?ix (te_refs (?e h)))" if "h \<in> set q" for h
  proof (rule mapE_Inr)
    fix v assume "v \<in> set (te_refs (?e h))"
    moreover obtain k where "k < ?N" "h = q ! k" using \<open>h \<in> set q\<close> by (auto simp: in_set_conv_nth)
    ultimately obtain j where "j < ?N" "v = q ! j" using refs by (meson order.strict_trans)
    with ix show "(case map_of (topo_indexes q) v of None \<Rightarrow> Inl TypeErr | Some i \<Rightarrow> Inr i) = Inr (?ix v)"
      by simp
  qed
  note kids = this
  have "mapE (\<lambda>ent. case map_of a ent of None \<Rightarrow> Inl TypeErr
      | Some e \<Rightarrow> bindE (mapE (\<lambda>v. case map_of (topo_indexes q) v of None \<Rightarrow> Inl TypeErr | Some i \<Rightarrow> Inr i)
                         (te_refs e)) (\<lambda>is. Inr (te_cell e, is))) (rev q) = Inr ?es"
  proof (rule mapE_Inr)
    fix h assume "h \<in> set (rev q)"
    with e kids obtain d where "map_of a h = Some d"
      "mapE (\<lambda>v. case map_of (topo_indexes q) v of None \<Rightarrow> Inl TypeErr | Some i \<Rightarrow> Inr i) (te_refs d) =
        Inr (map ?ix (te_refs d))" by (metis option.sel set_rev)
    then show "(case map_of a h of None \<Rightarrow> Inl TypeErr
      | Some e \<Rightarrow> bindE (mapE (\<lambda>v. case map_of (topo_indexes q) v of None \<Rightarrow> Inl TypeErr | Some i \<Rightarrow> Inr i)
                         (te_refs e)) (\<lambda>is. Inr (te_cell e, is))) =
      Inr (te_cell (?e h), map ?ix (te_refs (?e h)))" by simp
  qed
  then have "topologicalSort root = Inr ?es"
    using q(1) by (simp add: topologicalSort_def coll Let_def)
  moreover have "entry_ok root ?es i" if i: "i < length ?es" for i
  proof -
    let ?k = "?N - 1 - i"
    have k: "?k < ?N" "rev q ! i = q ! ?k" using i by (simp_all add: rev_nth)
    note d = e [OF nth_mem [OF k(1)]]
    have js: "snd (?es ! i) = map ?ix (te_refs (?e (q ! ?k)))" "fst (?es ! i) = te_cell (?e (q ! ?k))"
      using i k(2) by simp_all
    have "int i < ?ix v \<and> ?ix v < int ?N \<and> Cell_hash (fst (?es ! nat (?ix v))) 3 = v"
      if v: "v \<in> set (te_refs (?e (q ! ?k)))" for v
    proof -
      obtain j where j: "j < ?k" "v = q ! j" using refs [OF k(1) v] by blast
      then have "j < ?N" using k(1) by simp
      then have "nat (int ?N - (1 + int j)) = ?N - 1 - j" "?N - Suc (?N - Suc j) = j" by linarith+
      with \<open>j < ?N\<close> j ix [of j] cells(2) [OF e [OF nth_mem [OF \<open>j < ?N\<close>]]] show ?thesis
        by (auto simp: rev_nth)
    qed
    note all = this
    let ?c = "te_cell (?e (q ! ?k))" and ?rs = "te_refs (?e (q ! ?k))"
    have rs: "?rs = map (\<lambda>v. Cell_hash v 3) (cell_refs ?c)" by (rule cells(3) [OF d])
    have "int i < map ?ix ?rs ! m \<and> map ?ix ?rs ! m < int (length ?es) \<and>
        Cell_hash (fst (?es ! nat (map ?ix ?rs ! m))) 3 = Cell_hash (cell_refs ?c ! m) 3"
      if m: "m < length (map ?ix ?rs)" for m
    proof -
      have len: "m < length ?rs" "m < length (cell_refs ?c)"
        using m arg_cong [OF rs, of length] by simp_all
      have nth: "map ?ix ?rs ! m = ?ix (?rs ! m)" by (rule nth_map [OF len(1)])
      have "?rs ! m = Cell_hash (cell_refs ?c ! m) 3"
        using arg_cong [OF rs, of "\<lambda>xs. xs ! m"] nth_map [OF len(2)] by simp
      with all [OF nth_mem [OF len(1)]] show ?thesis unfolding nth by simp
    qed
    moreover have "length (map ?ix ?rs) = length (cell_refs ?c)"
      using arg_cong [OF rs, of length] by simp
    ultimately show ?thesis
      unfolding entry_ok_def Let_def js using cells(1) [OF d] by blast
  qed
  moreover have "map (\<lambda>h. Cell_hash (te_cell (?e h)) 3) (rev q) = rev q"
    using e cells(2) by (intro map_idI) auto
  then have hashes: "map (\<lambda>e. Cell_hash (fst e) 3) ?es = rev q" by (simp add: comp_def)
  moreover have "distinct q" using q(2) unfolding placed_def by blast
  moreover have "Cell_hash (fst (?es ! 0)) 3 = Cell_hash root 3"
    using arg_cong [OF hashes, of hd] q(3,4) by (simp add: hd_map hd_rev hd_conv_nth)
  ultimately show ?thesis using q(3) unfolding topo_ok_def by auto
qed

section \<open>The sort returns\<close>

text \<open>Every round of the loop places one hash, so the rounds the sort allows are enough as well.\<close>

lemma topo_visit_removes:
  "topo_visit k a h (t, n, q) = Inr (t', n', q') \<Longrightarrow> h \<notin> set n'"
  by (cases k) (auto simp: bindE_eq_Inr split: if_splits option.splits)

lemma topo_loop_fuel:
  assumes "card (set n) < k" "card (set n) < rounds" "t = []"
  shows "topo_loop rounds k a (t, n, q) \<noteq> Inl OutOfFuel"
  using assms
proof (induction rounds arbitrary: t n q)
  case (Suc rounds)
  show ?case
  proof (cases n)
    case (Cons h hs)
    have fuel: "fuel_ok (t, n, q) (topo_visit k a h (t, n, q))"
      using Suc.prems by (intro topo_visit_fuel) simp
    show ?thesis
    proof (cases "topo_visit k a h (t, n, q)")
      case (Inl e)
      then show ?thesis using fuel Cons by (simp add: fuel_ok_def)
    next
      case (Inr s)
      obtain t' n' q' where s: "s = (t', n', q')" by (cases s)
      have sub: "set n' \<subseteq> set n" "set t' = set t" using fuel Inr s by (auto simp: fuel_ok_def)
      have "h \<notin> set n'" using topo_visit_removes Inr s by blast
      then have "set n' \<subset> set n" using sub Cons by auto
      then have "card (set n') < card (set n)" by (intro psubset_card_mono) auto
      then show ?thesis using Suc Cons Inr s sub by simp
    qed
  qed simp
qed simp

lemma mapE_neq: "(\<And>x. f x \<noteq> Inl e) \<Longrightarrow> mapE f xs \<noteq> Inl e"
  by (induction xs) (auto simp: bindE_eq_Inl)

lemma topologicalSort_fuel: "topologicalSort root \<noteq> Inl OutOfFuel"
proof -
  obtain a n where an: "topo_collect [root] [] [] = (a, n)" by (cases "topo_collect [root] [] []")
  have "card (set n) \<le> length n" by (rule card_length)
  then have loop: "topo_loop (Suc (length n)) (Suc (length n)) a ([], n, []) \<noteq> Inl OutOfFuel"
    by (intro topo_loop_fuel) simp_all
  have out: "mapE (\<lambda>ent. case map_of a ent of None \<Rightarrow> Inl TypeErr
       | Some e \<Rightarrow> bindE (mapE (\<lambda>v. case map_of is v of None \<Rightarrow> Inl TypeErr | Some i \<Rightarrow> Inr i) (te_refs e))
          (\<lambda>is. Inr (te_cell e, is))) hs \<noteq> Inl OutOfFuel" for "is" :: "(buffer \<times> int) list" and hs
  proof (rule mapE_neq)
    fix x
    have "mapE (\<lambda>v. case map_of is v of None \<Rightarrow> Inl TypeErr | Some i \<Rightarrow> Inr i) hs \<noteq> Inl OutOfFuel" for hs
      by (rule mapE_neq) (simp split: option.split)
    then show "(case map_of a x of None \<Rightarrow> Inl TypeErr
       | Some e \<Rightarrow> bindE (mapE (\<lambda>v. case map_of is v of None \<Rightarrow> Inl TypeErr | Some i \<Rightarrow> Inr i) (te_refs e))
          (\<lambda>is. Inr (te_cell e, is))) \<noteq> Inl OutOfFuel" by (simp add: bindE_eq_Inl split: option.split)
  qed
  show ?thesis
    unfolding topologicalSort_def an prod.case Let_def
    using loop out by (auto simp: bindE_eq_Inl simp del: topo_loop.simps)
qed

end
