(* ===== verification/Boc.thy ===== *)
theory Boc
  imports Topo_Sort Crc32c
begin

text \<open>
  The bag of cells (ton-core/boc/cell/serialization.ts, \<open>Cell.fromBoc\<close> and \<open>Cell.toBoc\<close>): the
  byte format in which a tree of cells is stored, with shared cells stored once. The three
  layouts the parser accepts are told apart by their magic number; the writer produces the
  last one.
\<close>

section \<open>Model\<close>

definition bitsForNumber :: "jsval \<Rightarrow> string \<Rightarrow> int res" where
  "bitsForNumber src mode =
     bindE (to_bigint src) (\<lambda>v.
     if mode = ''int''
     then if v = 0 \<or> v = - 1 then Inr 1
          else let v2 = (if v > 0 then v else - v)
               in Inr (int (length (to_string_radix 2 v2)) + 1)
     else if mode = ''uint''
     then if v < 0 then Inl ValueNegative else Inr (int (length (to_string_radix 2 v)))
     else Inl InvalidNumber)"

subsection \<open>Cells\<close>

definition getHashesCountFromMask :: "int \<Rightarrow> int" where
  "getHashesCountFromMask m =
     fst (foldl (\<lambda>(n, m) _. (n + js_and m 1, js_shr m 1)) (0, m) [0..<3]) + 1"

definition getHashesCount :: "int \<Rightarrow> int" where
  "getHashesCount levelMask = getHashesCountFromMask (js_and levelMask 7)"

text \<open>A cell as it is read: its references are still indexes.\<close>

record raw_cell =
  rc_bits :: bit_string
  rc_refs :: "int list"
  rc_exotic :: bool

definition readCell :: "int \<Rightarrow> raw_cell load" where
  "readCell sizeBytes reader =
     bindE (BitReader_loadUint 8 reader) (\<lambda>(d1, reader).
     let refsCount = js_rem d1 8;
         exotic = (js_and d1 8 \<noteq> 0)
     in bindE (BitReader_loadUint 8 reader) (\<lambda>(d2, reader).
     let dataBytesize = - ((- d2) div 2);
         paddingAdded = (js_rem d2 2 \<noteq> 0);
         levelMask = js_shr d1 5;
         hasHashes = (js_and d1 16 \<noteq> 0);
         hash_bytes = 32;
         hashesSize = (if hasHashes then getHashesCount levelMask * hash_bytes else 0);
         depthSize = (if hasHashes then getHashesCount levelMask * 2 else 0)
     in bindE (BitReader_skip (hashesSize * 8) reader) (\<lambda>reader.
     bindE (BitReader_skip (depthSize * 8) reader) (\<lambda>reader.
     bindE (if dataBytesize > 0
            then if paddingAdded then BitReader_loadPaddedBits (dataBytesize * 8) reader
                 else BitReader_loadBits (dataBytesize * 8) reader
            else Inr (BitString_EMPTY, reader)) (\<lambda>(bits, reader).
     bindE (get_list (BitReader_loadUint (sizeBytes * 8)) (nat refsCount) reader) (\<lambda>(refs, reader).
     Inr (\<lparr>rc_bits = bits, rc_refs = refs, rc_exotic = exotic\<rparr>, reader)))))))"

definition calcCellSize :: "cell \<Rightarrow> int \<Rightarrow> int" where
  "calcCellSize c sizeBytes =
     2 + ceil8 (int (bs_length (cell_bits c))) + int (length (cell_refs c)) * sizeBytes"

subsection \<open>The three layouts\<close>

record boc =
  bc_size :: int
  bc_offBytes :: int
  bc_cells :: int
  bc_roots :: int
  bc_absent :: int
  bc_totalCellSize :: int
  bc_index :: "buffer option"
  bc_cellData :: buffer
  bc_root :: "int list"

definition parseBoc_indexed :: "boc load" where \<comment> \<open>magic 68ff65f3\<close>
  "parseBoc_indexed reader =
     bindE (BitReader_loadUint 8 reader) (\<lambda>(sz, reader).
     bindE (BitReader_loadUint 8 reader) (\<lambda>(offBytes, reader).
     bindE (BitReader_loadUint (sz * 8) reader) (\<lambda>(cells, reader).
     bindE (BitReader_loadUint (sz * 8) reader) (\<lambda>(roots, reader).
     bindE (BitReader_loadUint (sz * 8) reader) (\<lambda>(absent, reader).
     bindE (BitReader_loadUint (offBytes * 8) reader) (\<lambda>(totalCellSize, reader).
     bindE (BitReader_loadBuffer (cells * offBytes) reader) (\<lambda>(index, reader).
     bindE (BitReader_loadBuffer totalCellSize reader) (\<lambda>(cellData, reader).
     Inr (\<lparr>bc_size = sz, bc_offBytes = offBytes, bc_cells = cells, bc_roots = roots, bc_absent = absent,
           bc_totalCellSize = totalCellSize, bc_index = Some index, bc_cellData = cellData, bc_root = [0]\<rparr>,
          reader)))))))))"

definition check_crc :: "buffer \<Rightarrow> bit_reader \<Rightarrow> unit res" where
  "check_crc src reader =
     bindE (BitReader_loadBuffer 4 reader) (\<lambda>(crc32, reader).
     if crc32c (buf_subarray src 0 (int (length src) - 4)) \<noteq> crc32 then Inl InvalidCrc else Inr ())"

definition parseBoc_generic :: "buffer \<Rightarrow> bit_reader \<Rightarrow> boc res" where \<comment> \<open>magic b5ee9c72\<close>
  "parseBoc_generic src reader =
     bindE (BitReader_loadUint 1 reader) (\<lambda>(hasIdx, reader).
     bindE (BitReader_loadUint 1 reader) (\<lambda>(hasCrc32c, reader).
     bindE (BitReader_loadUint 1 reader) (\<lambda>(hasCacheBits, reader).
     bindE (BitReader_loadUint 2 reader) (\<lambda>(flags, reader).
     bindE (BitReader_loadUint 3 reader) (\<lambda>(sz, reader).
     bindE (BitReader_loadUint 8 reader) (\<lambda>(offBytes, reader).
     bindE (BitReader_loadUint (sz * 8) reader) (\<lambda>(cells, reader).
     bindE (BitReader_loadUint (sz * 8) reader) (\<lambda>(roots, reader).
     bindE (BitReader_loadUint (sz * 8) reader) (\<lambda>(absent, reader).
     bindE (BitReader_loadUint (offBytes * 8) reader) (\<lambda>(totalCellSize, reader).
     bindE (get_list (BitReader_loadUint (sz * 8)) (nat roots) reader) (\<lambda>(root, reader).
     bindE (if hasIdx \<noteq> 0
            then bindE (BitReader_loadBuffer (cells * offBytes) reader) (\<lambda>(i, reader). Inr (Some i, reader))
            else Inr (None, reader)) (\<lambda>(index, reader).
     bindE (BitReader_loadBuffer totalCellSize reader) (\<lambda>(cellData, reader).
     bindE (if hasCrc32c \<noteq> 0 then check_crc src reader else Inr ()) (\<lambda>_.
     Inr \<lparr>bc_size = sz, bc_offBytes = offBytes, bc_cells = cells, bc_roots = roots, bc_absent = absent,
          bc_totalCellSize = totalCellSize, bc_index = index, bc_cellData = cellData, bc_root = root\<rparr>))))))))))))))"

definition parseBoc :: "buffer \<Rightarrow> boc res" where
  "parseBoc src =
     bindE (new_BitString src 0 (int (length src) * 8)) (\<lambda>s.
     bindE (BitReader_loadUint 32 (new_BitReader s 0)) (\<lambda>(magic, reader).
     if magic = 0x68ff65f3 then bindE (parseBoc_indexed reader) (\<lambda>(b, reader). Inr b)
     else if magic = 0xacc3a728
     then bindE (parseBoc_indexed reader) (\<lambda>(b, reader).
          bindE (check_crc src reader) (\<lambda>_. Inr b))
     else if magic = 0xb5ee9c72 then parseBoc_generic src reader
     else Inl InvalidMagic))"

subsection \<open>Reading a bag\<close>

text \<open>
  The cells are built from the last to the first. \<open>results\<close> holds those built so far; an index
  outside the array is \<open>undefined\<close>, whose property access throws.
\<close>

definition boc_result :: "cell option list \<Rightarrow> int \<Rightarrow> cell res" where
  "boc_result results r =
     (if r < 0 \<or> int (length results) \<le> r then Inl TypeErr
      else case results ! nat r of None \<Rightarrow> Inl InvalidBoc | Some c \<Rightarrow> Inr c)"

definition boc_build ::
    "(buffer \<Rightarrow> buffer) \<Rightarrow> raw_cell list \<Rightarrow> nat \<Rightarrow> cell option list \<Rightarrow> cell option list res" where
  "boc_build sha cells i results =
     (if results ! i \<noteq> None then Inl InternalError
      else bindE (mapE (boc_result results) (rc_refs (cells ! i))) (\<lambda>refs.
           bindE (new_Cell sha (rc_exotic (cells ! i)) (rc_bits (cells ! i)) refs) (\<lambda>c.
           Inr (results[i := Some c]))))"

definition deserializeBoc :: "(buffer \<Rightarrow> buffer) \<Rightarrow> buffer \<Rightarrow> cell list res" where
  "deserializeBoc sha src =
     bindE (parseBoc src) (\<lambda>boc.
     bindE (new_BitString (bc_cellData boc) 0 (int (length (bc_cellData boc)) * 8)) (\<lambda>s.
     bindE (get_list (readCell (bc_size boc)) (nat (bc_cells boc)) (new_BitReader s 0)) (\<lambda>(cells, _).
     bindE (foldE (boc_build sha cells) (rev [0..<length cells]) (replicate (length cells) None)) (\<lambda>results.
     mapE (boc_result results) (bc_root boc)))))"

subsection \<open>Writing a bag\<close>

definition writeCellToBuilder :: "cell \<Rightarrow> int list \<Rightarrow> int \<Rightarrow> bit_builder \<Rightarrow> bit_builder res" where
  "writeCellToBuilder c refs sizeBytes to =
     (let d1 = getRefsDescriptor (cell_refs c) (LevelMask_value (cell_mask c)) (cell_type c);
          d2 = getBitsDescriptor (cell_bits c)
      in bindE (BitBuilder_writeUint (Num d1) 8 to) (\<lambda>to.
         bindE (BitBuilder_writeUint (Num d2) 8 to) (\<lambda>to.
         bindE (bitsToPaddedBuffer (cell_bits c)) (\<lambda>padded.
         bindE (BitBuilder_writeBuffer padded to) (\<lambda>to.
         foldE (\<lambda>r to. BitBuilder_writeUint (Num r) (sizeBytes * 8) to) refs to)))))"

text \<open>The running total of the sizes of the cells, and the list of its values.\<close>

definition boc_index :: "(cell \<times> int list) list \<Rightarrow> int \<Rightarrow> int \<times> int list" where
  "boc_index allCells sizeBytes =
     foldl (\<lambda>(totalCellSize, index) c.
         let total = totalCellSize + calcCellSize (fst c) sizeBytes in (total, index @ [total]))
       (0, []) allCells"

definition serializeBoc :: "cell \<Rightarrow> bool \<Rightarrow> bool \<Rightarrow> buffer res" where
  "serializeBoc root has_idx has_crc32c =
     bindE (topologicalSort root) (\<lambda>allCells.
     let cellsNum = int (length allCells);
         has_cache_bits = False;
         flags = 0
     in bindE (bitsForNumber (Num cellsNum) ''uint'') (\<lambda>n.
     let sizeBytes = max (ceil8 n) 1;
         (totalCellSize, index) = boc_index allCells sizeBytes
     in bindE (bitsForNumber (Num totalCellSize) ''uint'') (\<lambda>n.
     let offsetBytes = max (ceil8 n) 1;
         totalSize = (4 + 1 + 1 + 3 * sizeBytes + offsetBytes + 1 * sizeBytes +
           (if has_idx then cellsNum * offsetBytes else 0) + totalCellSize + (if has_crc32c then 4 else 0)) * 8
     in bindE (BitBuilder_writeUint (Num 0xb5ee9c72) 32 (new_BitBuilder (nat totalSize))) (\<lambda>b.
     bindE (BitBuilder_writeBit (BitBool has_idx) b) (\<lambda>b.
     bindE (BitBuilder_writeBit (BitBool has_crc32c) b) (\<lambda>b.
     bindE (BitBuilder_writeBit (BitBool has_cache_bits) b) (\<lambda>b.
     bindE (BitBuilder_writeUint (Num flags) 2 b) (\<lambda>b.
     bindE (BitBuilder_writeUint (Num sizeBytes) 3 b) (\<lambda>b.
     bindE (BitBuilder_writeUint (Num offsetBytes) 8 b) (\<lambda>b.
     bindE (BitBuilder_writeUint (Num cellsNum) (sizeBytes * 8) b) (\<lambda>b.
     bindE (BitBuilder_writeUint (Num 1) (sizeBytes * 8) b) (\<lambda>b.
     bindE (BitBuilder_writeUint (Num 0) (sizeBytes * 8) b) (\<lambda>b.
     bindE (BitBuilder_writeUint (Num totalCellSize) (offsetBytes * 8) b) (\<lambda>b.
     bindE (BitBuilder_writeUint (Num 0) (sizeBytes * 8) b) (\<lambda>b.
     bindE (if has_idx then foldE (\<lambda>i b. BitBuilder_writeUint (Num i) (offsetBytes * 8) b) index b
            else Inr b) (\<lambda>b.
     bindE (foldE (\<lambda>(c, refs) b. writeCellToBuilder c refs sizeBytes b) allCells b) (\<lambda>b.
     bindE (if has_crc32c
            then bindE (BitBuilder_getBuffer b) (\<lambda>buf. BitBuilder_writeBuffer (crc32c buf) b)
            else Inr b) (\<lambda>b.
     bindE (BitBuilder_getBuffer b) (\<lambda>res.
     if int (length res) \<noteq> totalSize div 8 then Inl InternalError else Inr res)))))))))))))))))))"

subsection \<open>The methods of \<open>Cell\<close>\<close>

definition Cell_fromBoc :: "(buffer \<Rightarrow> buffer) \<Rightarrow> buffer \<Rightarrow> cell list res" where
  "Cell_fromBoc sha src = deserializeBoc sha src"

definition Cell_toBoc :: "bool option \<Rightarrow> bool option \<Rightarrow> cell \<Rightarrow> buffer res" where
  "Cell_toBoc idx crc32 c =
     serializeBoc c (case idx of Some i \<Rightarrow> i | None \<Rightarrow> False) (case crc32 of Some x \<Rightarrow> x | None \<Rightarrow> True)"

end
