(* ===== verification/Cell_Congruence.thy ===== *)
theory Cell_Congruence
  imports Cell_Tree
begin

text \<open>
  The constructor of \<open>Cell\<close> looks only at the bits of its bit string and at the trees of its
  references: arguments that agree on them give cells with the same tree. A cell rebuilt from
  its serialised form is therefore the cell that was serialised.
\<close>

section \<open>Readers with the same rest\<close>

definition same_rest :: "bit_reader \<Rightarrow> bit_reader \<Rightarrow> bool" where
  "same_rest r s \<longleftrightarrow> rd_ok r \<and> rd_ok s \<and> rd_rest r = rd_rest s"

text \<open>\<open>tracks get\<close>: a load that succeeds on a reader succeeds alike on every reader with the same rest.\<close>

definition tracks :: "'a load \<Rightarrow> bool" where
  "tracks get \<longleftrightarrow> (\<forall>r s v r'. same_rest r s \<longrightarrow> get r = Inr (v, r') \<longrightarrow>
     (\<exists>s'. get s = Inr (v, s') \<and> same_rest r' s'))"

lemma tracksD: "tracks get \<Longrightarrow> same_rest r s \<Longrightarrow> get r = Inr (v, r') \<Longrightarrow> \<exists>s'. get s = Inr (v, s') \<and> same_rest r' s'"
  unfolding tracks_def by blast

lemma same_rest_new: "wf_bs a \<Longrightarrow> wf_bs b \<Longrightarrow> bs_bits a = bs_bits b \<Longrightarrow>
    same_rest (new_BitReader a 0) (new_BitReader b 0)"
  by (simp add: same_rest_def rd_ok_new rd_rest_new)

lemma same_rest_move:
  "same_rest r s \<Longrightarrow> n \<le> length (rd_rest r) \<Longrightarrow> same_rest (rd_move (int n) r) (rd_move (int n) s)"
  by (simp add: same_rest_def rd_ok_move rd_rest_move)

lemma tracks_loadUint: "tracks (BitReader_loadUint (int n))"
proof (unfold tracks_def, intro allI impI)
  fix r s v r' assume *: "same_rest r s" "BitReader_loadUint (int n) r = Inr (v, r')"
  then have ok: "rd_ok r" "rd_ok s" "rd_rest s = rd_rest r" by (auto simp: same_rest_def)
  obtain u where u: "BitReader_loadUintBig (int n) r = Inr (u, r')" "v = to_number u"
    using *(2) by (auto simp: BitReader_loadUint_def)
  from loadUintBig_result [OF ok(1) u(1)]
  have "u = val_be (take n (rd_rest r))" "r' = rd_move (int n) r" "n \<le> length (rd_rest r)" by blast+
  with loadUintBig_total [OF ok(2), of n] u(2) ok(3) same_rest_move [OF *(1), of n]
  show "\<exists>s'. BitReader_loadUint (int n) s = Inr (v, s') \<and> same_rest r' s'"
    by (simp add: BitReader_loadUint_def)
qed

lemma tracks_loadBuffer: "tracks (BitReader_loadBuffer (int n))"
proof (unfold tracks_def, intro allI impI)
  fix r s w r' assume *: "same_rest r s" "BitReader_loadBuffer (int n) r = Inr (w, r')"
  then have ok: "rd_ok r" "rd_ok s" "rd_rest s = rd_rest r" by (auto simp: same_rest_def)
  from loadBuffer_result [OF ok(1) *(2)]
  have r: "r' = rd_move (int (8 * n)) r" "8 * n \<le> length (rd_rest r)" by blast+
  then have "w = bytes_of_bits (take (8 * n) (rd_rest r))"
    using preloadBuffer_total [OF ok(1), of 0 n] *(2) by (auto simp: BitReader_loadBuffer_def)
  with preloadBuffer_total [OF ok(2), of 0 n] r ok(3) same_rest_move [OF *(1) r(2)]
  show "\<exists>s'. BitReader_loadBuffer (int n) s = Inr (w, s') \<and> same_rest r' s'"
    by (simp add: BitReader_loadBuffer_def mult.commute)
qed

lemma tracks_numeral:
  "tracks (BitReader_loadUint (numeral k))" "tracks (BitReader_loadBuffer (numeral k))"
  using tracks_loadUint [of "numeral k"] tracks_loadBuffer [of "numeral k"] by simp_all

lemma tracks_get_list:
  assumes "tracks get"
  shows "tracks (get_list get n)"
proof -
  have "same_rest r s \<Longrightarrow> get_list get n r = Inr (vs, r') \<Longrightarrow> \<exists>s'. get_list get n s = Inr (vs, s') \<and> same_rest r' s'"
    for r s vs r'
  proof (induction n arbitrary: r s vs)
    case (Suc n)
    then obtain v r1 ws where *: "get r = Inr (v, r1)" "get_list get n r1 = Inr (ws, r')" "vs = v # ws" by auto
    obtain s1 where "get s = Inr (v, s1)" "same_rest r1 s1" using tracksD [OF assms Suc.prems(1) *(1)] by blast
    with Suc.IH [of r1 s1 ws] * show ?case by auto
  qed simp
  then show ?thesis unfolding tracks_def by blast
qed

section \<open>Exotic cells\<close>

lemma exoticPruned_cong:
  assumes "wf_bs a" "wf_bs b" "bs_bits a = bs_bits b" "exoticPruned a [] = Inr p"
  shows "exoticPruned b [] = Inr p"
proof -
  have len: "bs_length b = bs_length a" using arg_cong [OF assms(3), of length] by simp
  note r0 = same_rest_new [OF assms(1-3)]
  obtain r1 m r2 hs r3 ds r4 where *:
    "BitReader_loadUint 8 (new_BitReader a 0) = Inr (1, r1)"
    "(if bs_length a = 280 then Inr (new_LevelMask 1, r1)
       else bindE (BitReader_loadUint 8 r1) (\<lambda>(byte, reader).
         let m = new_LevelMask byte in
         if LevelMask_level m < 1 \<or> LevelMask_level m > 3 then Inl InvalidExotic
         else let len = 8 + 8 + LevelMask_hashCount (LevelMask_apply m (nat (LevelMask_level m - 1))) * (256 + 16)
              in if int (bs_length a) \<noteq> len then Inl InvalidExotic
                 else Inr (m, reader))) = Inr (m, r2)"
    "get_list (BitReader_loadBuffer 32) (nat (LevelMask_level m)) r2 = Inr (hs, r3)"
    "get_list (BitReader_loadUint 16) (nat (LevelMask_level m)) r3 = Inr (ds, r4)"
    "p = \<lparr>ep_mask = LevelMask_value m, ep_pruned = zip ds hs\<rparr>"
    using assms(4) by (auto simp: exoticPruned_def split: if_splits)
  obtain s1 where s1: "BitReader_loadUint 8 (new_BitReader b 0) = Inr (1, s1)" "same_rest r1 s1"
    using tracksD [OF tracks_numeral(1) r0 *(1)] by blast
  obtain s2 where s2: "(if bs_length b = 280 then Inr (new_LevelMask 1, s1)
       else bindE (BitReader_loadUint 8 s1) (\<lambda>(byte, reader).
         let m = new_LevelMask byte in
         if LevelMask_level m < 1 \<or> LevelMask_level m > 3 then Inl InvalidExotic
         else let len = 8 + 8 + LevelMask_hashCount (LevelMask_apply m (nat (LevelMask_level m - 1))) * (256 + 16)
              in if int (bs_length b) \<noteq> len then Inl InvalidExotic
                 else Inr (m, reader))) = Inr (m, s2)" "same_rest r2 s2"
  proof (cases "bs_length a = 280")
    case True
    with *(2) s1(2) that [of s1] len show ?thesis by simp
  next
    case False
    then obtain u where u: "BitReader_loadUint 8 r1 = Inr (u, r2)" using *(2)
      by (auto simp: Let_def split: if_splits)
    obtain s2 where "BitReader_loadUint 8 s1 = Inr (u, s2)" "same_rest r2 s2"
      using tracksD [OF tracks_numeral(1) s1(2) u] by blast
    with False *(2) u that [of s2] len show ?thesis by (auto simp: Let_def split: if_splits)
  qed
  obtain s3 where s3: "get_list (BitReader_loadBuffer 32) (nat (LevelMask_level m)) s2 = Inr (hs, s3)" "same_rest r3 s3"
    using tracksD [OF tracks_get_list [OF tracks_numeral(2)] s2(2) *(3)] by blast
  obtain s4 where s4: "get_list (BitReader_loadUint 16) (nat (LevelMask_level m)) s3 = Inr (ds, s4)"
    using tracksD [OF tracks_get_list [OF tracks_numeral(1)] s3(2) *(4)] by blast
  from s1(1) s2(1) s3(1) s4 *(5) show ?thesis by (simp add: exoticPruned_def)
qed

lemma exoticLibrary_cong:
  assumes "wf_bs a" "wf_bs b" "bs_bits a = bs_bits b" "exoticLibrary a rs = Inr p"
  shows "exoticLibrary b ss = Inr p"
proof -
  have len: "bs_length b = bs_length a" using arg_cong [OF assms(3), of length] by simp
  from assms(4) obtain r where "BitReader_loadUint 8 (new_BitReader a 0) = Inr (2, r)" "bs_length a = 264"
    by (auto simp: exoticLibrary_def split: if_splits)
  with tracksD [OF tracks_numeral(1) same_rest_new [OF assms(1-3)]] len show ?thesis
    by (force simp: exoticLibrary_def)
qed

lemma nth_xtree:
  assumes "map xtree rs = map xtree ss" "i < length rs"
  shows "Cell_depth (rs ! i) l = Cell_depth (ss ! i) l" "Cell_hash (rs ! i) l = Cell_hash (ss ! i) l"
    "cell_mask (rs ! i) = cell_mask (ss ! i)"
proof -
  have "i < length ss" using assms(2) map_xtree_eqD(4) [OF assms(1)] by simp
  then have "xtree (rs ! i) = xtree (ss ! i)"
    using arg_cong [OF assms(1), of "\<lambda>xs. xs ! i"] assms(2) by simp
  from xtree_eqD [OF this] show "Cell_depth (rs ! i) l = Cell_depth (ss ! i) l"
    "Cell_hash (rs ! i) l = Cell_hash (ss ! i) l" "cell_mask (rs ! i) = cell_mask (ss ! i)" by simp_all
qed

lemma exoticMerkleProof_cong:
  assumes "wf_bs a" "wf_bs b" "bs_bits a = bs_bits b" "map xtree rs = map xtree ss"
    and "exoticMerkleProof a rs = Inr p"
  shows "exoticMerkleProof b ss = Inr p"
proof -
  have len: "bs_length b = bs_length a" "length ss = length rs"
    using arg_cong [OF assms(3), of length] map_xtree_eqD(4) [OF assms(4)] by simp_all
  obtain r1 h r2 d r3 where *: "bs_length a = 280" "length rs = 1"
    "BitReader_loadUint 8 (new_BitReader a 0) = Inr (3, r1)" "BitReader_loadBuffer 32 r1 = Inr (h, r2)"
    "BitReader_loadUint 16 r2 = Inr (d, r3)" "d = Cell_depth (rs ! 0) 0" "h = Cell_hash (rs ! 0) 0" "p = (d, h)"
    using assms(5) by (auto simp: exoticMerkleProof_def split: if_splits)
  obtain s1 where s1: "BitReader_loadUint 8 (new_BitReader b 0) = Inr (3, s1)" "same_rest r1 s1"
    using tracksD [OF tracks_numeral(1) same_rest_new [OF assms(1-3)] *(3)] by blast
  obtain s2 where s2: "BitReader_loadBuffer 32 s1 = Inr (h, s2)" "same_rest r2 s2"
    using tracksD [OF tracks_numeral(2) s1(2) *(4)] by blast
  obtain s3 where s3: "BitReader_loadUint 16 s2 = Inr (d, s3)"
    using tracksD [OF tracks_numeral(1) s2(2) *(5)] by blast
  from *(1,2,6-8) s1(1) s2(1) s3 len nth_xtree(1,2) [OF assms(4), of 0 0] show ?thesis
    by (simp add: exoticMerkleProof_def)
qed

lemma exoticMerkleUpdate_cong:
  assumes "wf_bs a" "wf_bs b" "bs_bits a = bs_bits b" "map xtree rs = map xtree ss"
    and "exoticMerkleUpdate a rs = Inr p"
  shows "exoticMerkleUpdate b ss = Inr p"
proof -
  have len: "bs_length b = bs_length a" "length ss = length rs"
    using arg_cong [OF assms(3), of length] map_xtree_eqD(4) [OF assms(4)] by simp_all
  obtain r1 h r2 k r3 d r4 e r5 where *: "bs_length a = 552" "length rs = 2"
    "BitReader_loadUint 8 (new_BitReader a 0) = Inr (4, r1)" "BitReader_loadBuffer 32 r1 = Inr (h, r2)"
    "BitReader_loadBuffer 32 r2 = Inr (k, r3)" "BitReader_loadUint 16 r3 = Inr (d, r4)"
    "BitReader_loadUint 16 r4 = Inr (e, r5)" "d = Cell_depth (rs ! 0) 0" "h = Cell_hash (rs ! 0) 0"
    "e = Cell_depth (rs ! 1) 0" "k = Cell_hash (rs ! 1) 0" "p = ((d, h), (e, k))"
    using assms(5) by (auto simp: exoticMerkleUpdate_def split: if_splits)
  obtain s1 where s1: "BitReader_loadUint 8 (new_BitReader b 0) = Inr (4, s1)" "same_rest r1 s1"
    using tracksD [OF tracks_numeral(1) same_rest_new [OF assms(1-3)] *(3)] by blast
  obtain s2 where s2: "BitReader_loadBuffer 32 s1 = Inr (h, s2)" "same_rest r2 s2"
    using tracksD [OF tracks_numeral(2) s1(2) *(4)] by blast
  obtain s3 where s3: "BitReader_loadBuffer 32 s2 = Inr (k, s3)" "same_rest r3 s3"
    using tracksD [OF tracks_numeral(2) s2(2) *(5)] by blast
  obtain s4 where s4: "BitReader_loadUint 16 s3 = Inr (d, s4)" "same_rest r4 s4"
    using tracksD [OF tracks_numeral(1) s3(2) *(6)] by blast
  obtain s5 where s5: "BitReader_loadUint 16 s4 = Inr (e, s5)"
    using tracksD [OF tracks_numeral(1) s4(2) *(7)] by blast
  from *(1,2,8-12) s1(1) s2(1) s3(1) s4(1) s5 len nth_xtree(1,2) [OF assms(4), of 0 0] nth_xtree(1,2) [OF assms(4), of 1 0]
  show ?thesis by (simp add: exoticMerkleUpdate_def)
qed

lemma preloadUint_same: "same_rest r s \<Longrightarrow> BitReader_preloadUint (int n) r = BitReader_preloadUint (int n) s"
proof -
  assume "same_rest r s"
  then have ok: "rd_ok r" "rd_ok s" "rd_rest s = rd_rest r" by (auto simp: same_rest_def)
  show ?thesis
  proof (cases "n \<le> length (rd_rest r)")
    case True
    with preloadUint_ok [OF ok(1), of 0 n] preloadUint_ok [OF ok(2), of 0 n] ok(3) show ?thesis
      by (simp add: BitReader_preloadUint_def)
  next
    case False
    with preloadUint_short [OF ok(1), of 0 n] preloadUint_short [OF ok(2), of 0 n] ok(3) show ?thesis
      by (simp add: BitReader_preloadUint_def)
  qed
qed

lemma resolveExotic_cong:
  assumes "wf_bs a" "wf_bs b" "bs_bits a = bs_bits b" "map xtree rs = map xtree ss"
    and "resolveExotic a rs = Inr r"
  shows "resolveExotic b ss = Inr r"
proof -
  have pre: "BitReader_preloadUint 8 (new_BitReader b 0) = BitReader_preloadUint 8 (new_BitReader a 0)"
    using preloadUint_same [OF same_rest_new [OF assms(1-3)], of 8] by simp
  have len: "length ss = length rs" using map_xtree_eqD(4) [OF assms(4)] by simp
  have lvl: "Cell_level (rs ! i) = Cell_level (ss ! i)" if "i < length rs" for i
    using nth_xtree(3) [OF assms(4) that] by (simp add: Cell_level_def)
  obtain t where t: "BitReader_preloadUint 8 (new_BitReader a 0) = Inr t"
    using assms(5) by (auto simp: resolveExotic_def)
  with assms(5) consider
      (pruned) "t = 1" "resolvePruned a rs = Inr r" | (lib) "t = 2" "resolveLibrary a rs = Inr r"
    | (merkle) "t = 3" "resolveMerkleProof a rs = Inr r" | (update) "t = 4" "resolveMerkleUpdate a rs = Inr r"
    by (auto simp: resolveExotic_def split: if_splits)
  then show ?thesis
  proof cases
    case pruned
    then obtain p where p: "exoticPruned a rs = Inr p" by (auto simp: resolvePruned_def)
    with exoticPruned_result [OF assms(1)] have "rs = []" by blast
    moreover from this have "ss = []" using len by simp
    ultimately have "exoticPruned b ss = Inr p" using exoticPruned_cong [OF assms(1-3)] p by blast
    with pruned p t pre show ?thesis by (simp add: resolveExotic_def resolvePruned_def)
  next
    case lib
    then have "exoticLibrary a rs = Inr ()" by (auto simp: resolveLibrary_def)
    from exoticLibrary_cong [OF assms(1-3) this] lib \<open>exoticLibrary a rs = Inr ()\<close> t pre show ?thesis
      by (simp add: resolveExotic_def resolveLibrary_def)
  next
    case merkle
    then obtain p where p: "exoticMerkleProof a rs = Inr p" by (auto simp: resolveMerkleProof_def)
    from exoticMerkleProof_cong [OF assms(1-4) p] exoticMerkleProof_refs [OF p] merkle p t pre lvl [of 0]
    show ?thesis by (simp add: resolveExotic_def resolveMerkleProof_def)
  next
    case update
    then obtain p where p: "exoticMerkleUpdate a rs = Inr p" by (auto simp: resolveMerkleUpdate_def)
    from exoticMerkleUpdate_cong [OF assms(1-4) p] exoticMerkleUpdate_refs [OF p] update p t pre
      lvl [of 0] lvl [of 1]
    show ?thesis by (simp add: resolveExotic_def resolveMerkleUpdate_def)
  qed
qed

section \<open>Hashes\<close>

lemma wonder_mask_cong:
  assumes "wf_bs a" "wf_bs b" "bs_bits a = bs_bits b" "map xtree rs = map xtree ss"
    and "wonder_mask type a rs = Inr w"
  shows "wonder_mask type b ss = Inr w"
proof (cases type)
  case Ordinary
  have "foldl (\<lambda>m r. js_or m (LevelMask_value (cell_mask r))) x xs =
      foldl (\<lambda>m k. js_or m (LevelMask_value k)) x (map cell_mask xs)" for x xs
    by (induction xs arbitrary: x) simp_all
  with Ordinary assms(5) map_xtree_eqD(3) [OF assms(4)] show ?thesis by simp
next
  case PrunedBranch
  with assms(5) obtain p where p: "exoticPruned a rs = Inr p" "w = (new_LevelMask (ep_mask p), Some p)" by auto
  with exoticPruned_result [OF assms(1)] have "rs = []" by blast
  with exoticPruned_cong [OF assms(1-3)] p map_xtree_eqD(4) [OF assms(4)] PrunedBranch show ?thesis by simp
next
  case Library
  with assms(5) have "exoticLibrary a rs = Inr ()" by auto
  from exoticLibrary_cong [OF assms(1-3) this] this assms(5) Library show ?thesis by simp
next
  case MerkleProof
  with assms(5) obtain p where p: "exoticMerkleProof a rs = Inr p" by auto
  from exoticMerkleProof_cong [OF assms(1-4) p] exoticMerkleProof_refs [OF p] nth_xtree(3) [OF assms(4), of 0]
    MerkleProof assms(5) p show ?thesis by simp
next
  case MerkleUpdate
  with assms(5) obtain p where p: "exoticMerkleUpdate a rs = Inr p" by auto
  from exoticMerkleUpdate_cong [OF assms(1-4) p] exoticMerkleUpdate_refs [OF p] nth_xtree(3) [OF assms(4), of 0]
    nth_xtree(3) [OF assms(4), of 1] MerkleUpdate assms(5) p show ?thesis by simp
qed

lemma getRepr_cong:
  assumes "bs_length ob = bs_length ob'" "bs_bits a = bs_bits b" "bs_length a < 2 ^ 31 - 16"
    and "map xtree rs = map xtree ss" "\<forall>c \<in> set rs. cell_ok c" "\<forall>c \<in> set ss. cell_ok c"
  shows "getRepr ob a rs l m type = getRepr ob' b ss l m type"
proof -
  have len: "bs_length b = bs_length a" using arg_cong [OF assms(2), of length] by simp
  note x = map_xtree_eqD [OF assms(4)]
  have d: "getRefsDescriptor rs m type = getRefsDescriptor ss m type" "getBitsDescriptor ob = getBitsDescriptor ob'"
    using x(4) assms(1) by (simp_all add: getRefsDescriptor_def getBitsDescriptor_def)
  show ?thesis
    using getRepr_ok [of a rs type l ob m] getRepr_ok [of b ss type l ob' m] assms(3,5,6) len
    by (simp add: cell_ok_hash d repr_of_def padded_bytes_bits [OF assms(2)] x(1,2))
qed

lemma wonder_depth_cong: "map xtree rs = map xtree ss \<Longrightarrow> wonder_depth type rs l = wonder_depth type ss l"
proof -
  assume x: "map xtree rs = map xtree ss"
  have "foldl (\<lambda>d c. max d (Cell_depth c k)) x xs = foldl (\<lambda>d e. max d e) x (map (\<lambda>c. Cell_depth c k) xs)"
    for x xs k by (induction xs arbitrary: x) simp_all
  then have "foldl (\<lambda>d c. max d (Cell_depth c k)) 0 rs = foldl (\<lambda>d c. max d (Cell_depth c k)) 0 ss" for k
    by (simp only: map_xtree_eqD(2) [OF x])
  then show ?thesis unfolding wonder_depth_def by (simp only: map_xtree_eqD(4) [OF x])
qed

lemma wonder_step_cong:
  assumes "bs_bits a = bs_bits b" "bs_length a < 2 ^ 31 - 16"
    and "map xtree rs = map xtree ss" "\<forall>c \<in> set rs. cell_ok c" "\<forall>c \<in> set ss. cell_ok c"
  shows "wonder_step sha type a rs m off l s = wonder_step sha type b ss m off l s"
proof -
  have len: "bs_length a = bs_length b" using arg_cong [OF assms(1), of length] by simp
  obtain hi hs ds where s: "s = (hi, hs, ds)" by (cases s)
  have own: "getRepr a a rs l k type = getRepr b b ss l k type" for k
    by (rule getRepr_cong [OF len assms])
  have other: "getRepr a c rs l k type = getRepr b c ss l k type" if "bs_length c < 2 ^ 31 - 16" for c k
    by (rule getRepr_cong [OF len refl that assms(3-5)])
  have c: "bs_length c < 2 ^ 31 - 16" if "new_BitString w 0 256 = Inr c" for w c
    using that by (auto simp: new_BitString_def)
  show ?thesis
  proof (cases "LevelMask_isSignificant m l \<and> \<not> hi < off")
    case False
    then show ?thesis by (auto simp: s)
  next
    case True
    show ?thesis
    proof (cases "hi = off")
      case True
      with \<open>LevelMask_isSignificant m l \<and> \<not> hi < off\<close> own wonder_depth_cong [OF assms(3)] show ?thesis
        by (auto simp: s)
    next
      case neq: False
      show ?thesis
      proof (cases "new_BitString (hs ! nat (hi - off - 1)) 0 256")
        case (Inl e)
        with True neq show ?thesis by (auto simp: s)
      next
        case (Inr d)
        with True neq other [OF c [OF Inr]] wonder_depth_cong [OF assms(3)] show ?thesis by (auto simp: s)
      qed
    qed
  qed
qed

lemma wonderCalculator_cong:
  assumes "wf_bs a" "wf_bs b" "bs_bits a = bs_bits b" "bs_length a < 2 ^ 31 - 16"
    and "map xtree rs = map xtree ss" "\<forall>c \<in> set rs. cell_ok c" "\<forall>c \<in> set ss. cell_ok c"
    and "wonderCalculator sha type a rs = Inr w"
  shows "wonderCalculator sha type b ss = Inr w"
proof -
  obtain m where "wonder_mask type a rs = Inr m" using assms(8) by (auto simp: wonderCalculator_def)
  moreover from wonder_mask_cong [OF assms(1-3,5) this] have "wonder_mask type b ss = Inr m" .
  moreover have "wonder_step sha type a rs = wonder_step sha type b ss"
    by (intro ext wonder_step_cong [OF assms(3-7)])
  ultimately show ?thesis using assms(8) unfolding wonderCalculator_def by (simp only:)
qed

text \<open>Rebuilding a cell from equal bits and equal references gives an equal cell.\<close>

lemma new_Cell_cong:
  assumes "sha_ok sha" "wf_bs a" "wf_bs b" "bs_bits a = bs_bits b"
    and "map xtree rs = map xtree ss" "\<forall>c \<in> set rs. cell_ok c" "\<forall>c \<in> set ss. cell_ok c"
    and "new_Cell sha exotic a rs = Inr c"
  shows "\<exists>d. new_Cell sha exotic b ss = Inr d \<and> xtree d = xtree c \<and> cell_ok d"
proof -
  have ok: "cell_ok c" "cell_bits c = a" "cell_refs c = rs"
    using new_Cell_ok [OF assms(1,6,2,8)] by blast+
  then have len: "bs_length a < 2 ^ 31 - 16" "bs_length a = bs_length b"
    using arg_cong [OF assms(4), of length] by (simp_all add: cell_ok_def)
  note wonder = wonderCalculator_cong [OF assms(2-4) len(1) assms(5-7)]
  obtain type w where w: "wonderCalculator sha type a rs = Inr w"
    "c = Cell type a rs (wd_mask w) (wd_hashes w) (wd_depths w)"
    "exotic \<longrightarrow> (\<exists>r. resolveExotic a rs = Inr r \<and> rs_type r = type)" "\<not> exotic \<longrightarrow> type = Ordinary \<and>
      length rs \<le> 4 \<and> bs_length a \<le> 1023"
    using assms(8) by (auto simp: new_Cell_def split: if_splits)
  let ?d = "Cell type b ss (wd_mask w) (wd_hashes w) (wd_depths w)"
  have "new_Cell sha exotic b ss = Inr ?d"
    using wonder [OF w(1)] w(3,4) resolveExotic_cong [OF assms(2-5)] len(2) map_xtree_eqD(4) [OF assms(5)]
    by (cases exotic) (auto simp: new_Cell_def)
  moreover from new_Cell_ok [OF assms(1,7,3) this] have "cell_ok ?d" by blast
  ultimately show ?thesis using w(2) assms(4,5) by auto
qed

end
