(* ===== verification/Boc_Cells.thy ===== *)
theory Boc_Cells
  imports Boc Cell_Congruence
begin

text \<open>
  The encoding of one cell of a bag: what \<open>writeCellToBuilder\<close> appends and what \<open>readCell\<close>
  makes of it, alone and in sequence.
\<close>

section \<open>Whole bytes\<close>

lemma buf_bits_bytes_of_bits: "length xs mod 8 = 0 \<Longrightarrow> buf_bits (bytes_of_bits xs) = xs"
proof -
  have "length xs = 8 * n \<Longrightarrow> \<exists>w. xs = buf_bits w" for n
  proof (induction n arbitrary: xs)
    case 0
    then have "xs = buf_bits []" by simp
    then show ?case by blast
  next
    case (Suc n)
    then have "length (drop 8 xs) = 8 * n" "length (take 8 xs) = 8" by simp_all
    with Suc.IH obtain w where w: "drop 8 xs = buf_bits w" by blast
    have "byte_bits (word_of_int (val_be (take 8 xs))) = take 8 xs"
    proof -
      have "val_be (take 8 xs) < 2 ^ 8" using val_be_less [of "take 8 xs"] \<open>length (take 8 xs) = 8\<close> by simp
      then have "uint (word_of_int (val_be (take 8 xs)) :: byte) = val_be (take 8 xs)"
        by (simp add: uint_word_of_int)
      then show ?thesis using bits_be_val_be [of "take 8 xs"] \<open>length (take 8 xs) = 8\<close>
        by (simp add: byte_bits_def)
    qed
    with w have "xs = buf_bits (word_of_int (val_be (take 8 xs)) # w)"
      using append_take_drop_id [of 8 xs] by simp
    then show ?case by blast
  qed
  moreover assume "length xs mod 8 = 0"
  then obtain n where "length xs = 8 * n" by (auto simp: mod_eq_0_iff_dvd elim: dvdE)
  ultimately obtain w where "xs = buf_bits w" by blast
  then show ?thesis by simp
qed

definition nbytes :: "int \<Rightarrow> nat" where
  "nbytes v = max 1 (size_bytes v)"

lemma bitsForNumber_uint:
  assumes "0 \<le> v"
  shows "\<exists>k. bitsForNumber (Num v) ''uint'' = Inr k \<and> max (ceil8 k) 1 = int (nbytes v)"
proof (cases "v = 0")
  case True
  then show ?thesis
    by (simp add: bitsForNumber_def to_string_2_zero ceil8_def nbytes_def size_bytes_def)
next
  case False
  with assms size_bytes_to_string [of v] show ?thesis
    by (simp add: bitsForNumber_def nbytes_def)
qed

lemma nbytes_bound: "0 \<le> v \<Longrightarrow> v < 2 ^ (8 * nbytes v)"
proof -
  assume "0 \<le> v"
  then have "v < 2 ^ (8 * size_bytes v)" using size_bytes_bound [of v] by simp
  also have "\<dots> \<le> 2 ^ (8 * nbytes v)" by (intro power_increasing) (auto simp: nbytes_def)
  finally show ?thesis .
qed

lemma nbytes_le: "0 \<le> v \<Longrightarrow> v < 2 ^ (8 * k) \<Longrightarrow> 0 < k \<Longrightarrow> nbytes v \<le> k"
  using size_bytes_le [of v k] by (simp add: nbytes_def)

lemma nbytes_pos: "0 < nbytes v"
  by (simp add: nbytes_def)

section \<open>The encoding of a cell\<close>

definition cell_d1 :: "cell \<Rightarrow> int" where
  "cell_d1 c = getRefsDescriptor (cell_refs c) (LevelMask_value (cell_mask c)) (cell_type c)"

definition enc_cell :: "nat \<Rightarrow> cell \<times> int list \<Rightarrow> bool list" where
  "enc_cell sz e = bits_be 8 (cell_d1 (fst e)) @ bits_be 8 (getBitsDescriptor (cell_bits (fst e))) @
     buf_bits (padded_bytes (cell_bits (fst e))) @ concat (map (bits_be (8 * sz)) (snd e))"

text \<open>Cells that the format can hold, with as many indexes as references.\<close>

definition raw_ok :: "nat \<Rightarrow> cell \<times> int list \<Rightarrow> bool" where
  "raw_ok sz e \<longleftrightarrow> cell_ok (fst e) \<and> length (cell_refs (fst e)) \<le> 4 \<and>
     length (snd e) = length (cell_refs (fst e)) \<and> (\<forall>j \<in> set (snd e). 0 \<le> j \<and> j < 2 ^ (8 * sz))"

lemma cell_d1_bound:
  assumes "raw_ok sz e"
  shows "0 \<le> cell_d1 (fst e)" "cell_d1 (fst e) < 2 ^ 8"
  using assms cell_ok_mask [of "fst e"] by (auto simp: raw_ok_def cell_d1_def getRefsDescriptor_def)

lemma writeCell_ok:
  assumes "raw_ok sz e" "fits b (length (enc_cell sz e))"
  shows "writes (writeCellToBuilder (fst e) (snd e) (int sz) b) b (enc_cell sz e)"
proof -
  let ?bits = "cell_bits (fst e)"
  have len: "bs_length ?bits \<le> 1023" using assms(1) by (auto simp: raw_ok_def cell_ok_def)
  then have d2: "0 \<le> getBitsDescriptor ?bits" "getBitsDescriptor ?bits < 2 ^ 8"
    using bits_descriptor_byte by simp_all
  have padded: "bitsToPaddedBuffer ?bits = Inr (padded_bytes ?bits)"
    using len by (intro bitsToPaddedBuffer_eq) simp
  have refs: "writes (foldE (\<lambda>r. BitBuilder_writeUint (Num r) (int sz * 8)) (snd e) b) b
      (concat (map (bits_be (8 * sz)) (snd e)))"
    if "fits b (length (concat (map (bits_be (8 * sz)) (snd e))))" for b
  proof (rule writes_foldE [OF _ that])
    fix r b assume "r \<in> set (snd e)" "fits b (length (bits_be (8 * sz) r))"
    then show "writes (BitBuilder_writeUint (Num r) (int sz * 8) b) b (bits_be (8 * sz) r)"
      using assms(1) writes_uint [of "Num r" r b "8 * sz"] by (auto simp: raw_ok_def mult.commute)
  qed
  show ?thesis
    unfolding writeCellToBuilder_def Let_def enc_cell_def cell_d1_def [symmetric] padded bindE_simps
  proof (intro writes_bindI)
    show "fits b (length (bits_be 8 (cell_d1 (fst e))) + length (bits_be 8 (getBitsDescriptor ?bits) @
        buf_bits (padded_bytes ?bits) @ concat (map (bits_be (8 * sz)) (snd e))))"
      using assms(2) by (simp add: enc_cell_def)
  qed (use cell_d1_bound [OF assms(1)] d2 refs in \<open>auto intro: writes_uint_numeral writes_buffer\<close>)
qed

section \<open>Reading a cell\<close>

lemma loadUint_next:
  assumes "rd_ok r" "rd_rest r = bits_be n v @ ys" "0 \<le> v" "v < 2 ^ n" "n \<le> 53"
  shows "BitReader_loadUint (int n) r = Inr (v, rd_move (int n) r)"
    "rd_ok (rd_move (int n) r)" "rd_rest (rd_move (int n) r) = ys"
proof -
  have "(2::int) ^ n \<le> 2 ^ 53" using assms(5) by (intro power_increasing) auto
  then show "BitReader_loadUint (int n) r = Inr (v, rd_move (int n) r)"
    using assms by (intro loadUint_ok) auto
  show "rd_ok (rd_move (int n) r)" "rd_rest (rd_move (int n) r) = ys"
    using rd_rest_split [OF assms(1,2)] by simp_all
qed

lemma loadUint_list:
  assumes "rd_ok r" "rd_rest r = concat (map (bits_be n) vs) @ ys" "\<forall>v \<in> set vs. 0 \<le> v \<and> v < 2 ^ n" "n \<le> 53"
  shows "get_list (BitReader_loadUint (int n)) (length vs) r = Inr (vs, rd_move (int (n * length vs)) r)"
  using assms(1-3)
proof (induction vs arbitrary: r)
  case (Cons v vs)
  have "BitReader_loadUint (int n) r = Inr (v, rd_move (int n) r)" "rd_ok (rd_move (int n) r)"
    "rd_rest (rd_move (int n) r) = concat (map (bits_be n) vs) @ ys"
    using loadUint_next [OF Cons.prems(1), of n v] Cons.prems(2,3) assms(4) by simp_all
  with Cons.IH Cons.prems(3) show ?case by (simp add: algebra_simps)
qed simp

lemma d1_table:
  "list_all (\<lambda>n. list_all (\<lambda>e. list_all (\<lambda>m. js_rem (n + e * 8 + m * 32) 8 = n \<and>
      (js_and (n + e * 8 + m * 32) 8 \<noteq> 0) = (e = 1) \<and> js_and (n + e * 8 + m * 32) 16 = 0)
    [0, 1, 2, 3, 4, 5, 6, 7]) [0, 1]) [0, 1, 2, 3, 4]"
  by code_simp

lemma d1_fields:
  assumes "raw_ok sz e"
  shows "js_rem (cell_d1 (fst e)) 8 = int (length (cell_refs (fst e)))"
    "js_and (cell_d1 (fst e)) 8 \<noteq> 0 \<longleftrightarrow> cell_type (fst e) \<noteq> Ordinary" "js_and (cell_d1 (fst e)) 16 = 0"
proof -
  let ?c = "fst e"
  let ?n = "int (length (cell_refs ?c))" and ?e = "if cell_type ?c \<noteq> Ordinary then 1 else 0 :: int"
    and ?m = "LevelMask_value (cell_mask ?c)"
  have "length (cell_refs ?c) \<le> 4" using assms by (simp add: raw_ok_def)
  then have "?n = 0 \<or> ?n = 1 \<or> ?n = 2 \<or> ?n = 3 \<or> ?n = 4" by linarith
  then have "?n \<in> set [0, 1, 2, 3, 4]" by auto
  moreover have "?e \<in> set [0, 1]" "?m \<in> set [0, 1, 2, 3, 4, 5, 6, 7]"
    using assms cell_ok_mask [of ?c] mask_cases [of ?m] by (auto simp: raw_ok_def)
  ultimately have *: "js_rem (?n + ?e * 8 + ?m * 32) 8 = ?n \<and>
      (js_and (?n + ?e * 8 + ?m * 32) 8 \<noteq> 0) = (?e = 1) \<and> js_and (?n + ?e * 8 + ?m * 32) 16 = 0"
    using d1_table unfolding list_all_iff by blast
  have "cell_d1 ?c = ?n + ?e * 8 + ?m * 32" by (simp add: cell_d1_def getRefsDescriptor_def)
  with * show "js_rem (cell_d1 ?c) 8 = ?n" "js_and (cell_d1 ?c) 8 \<noteq> 0 \<longleftrightarrow> cell_type ?c \<noteq> Ordinary"
    "js_and (cell_d1 ?c) 16 = 0" by (simp_all split: if_splits)
qed

lemma half_up: "- ((- (a + (if p then 0 else 1) + a)) div 2) = (a::int) + (if p then 0 else 1)"
  by (cases p; simp; presburger)

lemma of_nat_if: "int (if p then 0 else 1) = (if p then 0 else 1)"
  by simp

lemma d2_fields:
  assumes "n = bs_length s"
  shows "- ((- getBitsDescriptor s) div 2) = int ((n + 7) div 8)"
    "js_rem (getBitsDescriptor s) 2 \<noteq> 0 \<longleftrightarrow> n mod 8 \<noteq> 0"
proof -
  have d: "getBitsDescriptor s = int ((n + 7) div 8) + int (n div 8)"
    using assms by (simp add: bits_descriptor)
  have f: "(n + 7) div 8 = n div 8 + (if n mod 8 = 0 then 0 else 1)" by (rule ceil_floor)
  show "- ((- getBitsDescriptor s) div 2) = int ((n + 7) div 8)"
    unfolding d f by (simp only: of_nat_add half_up of_nat_if)
  show "js_rem (getBitsDescriptor s) 2 \<noteq> 0 \<longleftrightarrow> n mod 8 \<noteq> 0"
    unfolding d f by (simp add: js_rem_nonneg)
qed

lemma bits_read:
  assumes "rd_ok r" "rd_rest r = bs_bits s @ padding (bs_length s) @ ys" "k = (bs_length s + 7) div 8"
  shows "\<exists>t. (if 0 < int k
       then if bs_length s mod 8 \<noteq> 0 then BitReader_loadPaddedBits (int k * 8) r
            else BitReader_loadBits (int k * 8) r
       else Inr (BitString_EMPTY, r)) = Inr (t, rd_move (int (8 * k)) r) \<and> bs_bits t = bs_bits s \<and> wf_bs t"
proof -
  have len: "8 * k = bs_length s + length (padding (bs_length s))"
    using length_padded_bytes [of s] ceil8_padding [of "bs_length s"] assms(3) by (simp add: ceil8_nat nat_mult_distrib)
  show ?thesis
  proof (cases "bs_length s mod 8 = 0")
    case True
    then have p: "padding (bs_length s) = []" by (simp add: padding_def)
    show ?thesis
    proof (cases "bs_length s = 0")
      case True
      then have "bs_bits s = []" by (metis length_0_conv length_bs_bits)
      with True show ?thesis using assms(3) wf_bs_EMPTY bs_bits_EMPTY by simp
    next
      case False
      then have "0 < k" using len p by simp
      moreover have "bs_length s \<le> length (rd_rest r)" using assms(2) by simp
      from loadBits_ok [OF assms(1) this] obtain t where
        "BitReader_loadBits (int (bs_length s)) r = Inr (t, rd_move (int (bs_length s)) r)"
        "bs_bits t = take (bs_length s) (rd_rest r)" "wf_bs t" by blast
      moreover have eq: "int k * 8 = int (bs_length s)" "int (8 * k) = int (bs_length s)" using len p by simp_all
      ultimately show ?thesis unfolding eq using True assms(2) by simp
    qed
  next
    case False
    then have "0 < k" using assms(3) by (cases "bs_length s") auto
    have "length (bs_bits s) mod 8 \<noteq> 0" using False by simp
    from loadPaddedBits_ok [OF assms(1) _ this, of ys] assms(2) obtain t where
      "BitReader_loadPaddedBits (int (8 * k)) r = Inr (t, rd_move (int (8 * k)) r)" "bs_bits t = bs_bits s" "wf_bs t"
      unfolding len by auto
    with \<open>0 < k\<close> False show ?thesis by (simp add: mult.commute)
  qed
qed

definition raw_matches :: "cell \<times> int list \<Rightarrow> raw_cell \<Rightarrow> bool" where
  "raw_matches e x \<longleftrightarrow> bs_bits (rc_bits x) = bs_bits (cell_bits (fst e)) \<and> wf_bs (rc_bits x) \<and>
     rc_refs x = snd e \<and> rc_exotic x = (cell_type (fst e) \<noteq> Ordinary)"

lemma readCell_ok:
  assumes "raw_ok sz e" "8 * sz \<le> 53" "rd_ok r" "rd_rest r = enc_cell sz e @ ys"
  shows "\<exists>x. readCell (int sz) r = Inr (x, rd_move (int (length (enc_cell sz e))) r) \<and> raw_matches e x"
proof -
  let ?c = "fst e" and ?s = "cell_bits (fst e)"
  let ?k = "(bs_length ?s + 7) div 8" and ?refs = "concat (map (bits_be (8 * sz)) (snd e))"
  have len: "bs_length ?s \<le> 1023" using assms(1) by (auto simp: raw_ok_def cell_ok_def)
  have padded: "buf_bits (padded_bytes ?s) = bs_bits ?s @ padding (bs_length ?s)"
    using len by (intro bitsToPaddedBuffer_eq) simp
  let ?r1 = "rd_move 8 r" and ?r2 = "rd_move 16 r"
  have 1: "BitReader_loadUint 8 r = Inr (cell_d1 ?c, ?r1)" "rd_ok ?r1"
    "rd_rest ?r1 = bits_be 8 (getBitsDescriptor ?s) @ buf_bits (padded_bytes ?s) @ ?refs @ ys"
    using loadUint_next [OF assms(3), of 8 "cell_d1 ?c"] assms(4) cell_d1_bound [OF assms(1)]
    by (simp_all add: enc_cell_def)
  have 2: "BitReader_loadUint 8 ?r1 = Inr (getBitsDescriptor ?s, ?r2)" "rd_ok ?r2"
    "rd_rest ?r2 = bs_bits ?s @ padding (bs_length ?s) @ ?refs @ ys"
    using loadUint_next [OF 1(2), of 8 "getBitsDescriptor ?s"] 1(3) bits_descriptor_byte [OF len] padded
    by simp_all
  have skip: "BitReader_skip 0 ?r2 = Inr ?r2" using 2(2) by (simp add: BitReader_skip_def rd_ok_def)
  obtain t where t: "(if 0 < int ?k
       then if bs_length ?s mod 8 \<noteq> 0 then BitReader_loadPaddedBits (int ?k * 8) ?r2
            else BitReader_loadBits (int ?k * 8) ?r2
       else Inr (BitString_EMPTY, ?r2)) = Inr (t, rd_move (int (8 * ?k)) ?r2)" "bs_bits t = bs_bits ?s" "wf_bs t"
    using bits_read [OF 2(2,3) refl] by blast
  let ?r3 = "rd_move (int (8 * ?k)) ?r2"
  have pl: "length (bs_bits ?s @ padding (bs_length ?s)) = 8 * ?k"
    using arg_cong [OF padded, of length] length_padded_bytes [of ?s] by simp
  from rd_rest_split [OF 2(2), of "bs_bits ?s @ padding (bs_length ?s)" "?refs @ ys"] 2(3)
  have 3: "rd_ok ?r3" "rd_rest ?r3 = ?refs @ ys" unfolding pl by simp_all
  have 4: "get_list (BitReader_loadUint (int sz * 8)) (length (snd e)) ?r3 =
      Inr (snd e, rd_move (int (8 * sz * length (snd e))) ?r3)"
    using loadUint_list [OF 3] assms(1,2) by (simp add: raw_ok_def mult.commute)
  have n: "nat (js_rem (cell_d1 ?c) 8) = length (snd e)"
    using d1_fields(1) [OF assms(1)] assms(1) by (simp add: raw_ok_def)
  have refs_len: "length ?refs = 8 * sz * length (snd e)" by (induction "snd e") (simp_all add: length_concat comp_def sum_list_triv)
  have total: "length (enc_cell sz e) = 16 + 8 * ?k + 8 * sz * length (snd e)"
    using refs_len length_padded_bytes [of ?s] by (simp add: enc_cell_def)
  have fin: "rd_move (int (8 * sz * length (snd e))) ?r3 = rd_move (int (length (enc_cell sz e))) r"
    unfolding total by simp
  have "readCell (int sz) r = Inr (\<lparr>rc_bits = t, rc_refs = snd e, rc_exotic = (cell_type ?c \<noteq> Ordinary)\<rparr>,
      rd_move (int (length (enc_cell sz e))) r)"
    unfolding readCell_def 1(1) bindE_simps prod.case Let_def 2(1) d1_fields(3) [OF assms(1)] n
      d2_fields [OF refl] d1_fields(2) [OF assms(1)]
    by (simp only: simp_thms if_False mult_zero_left skip bindE_simps t(1) prod.case 4 fin)
  with t(2,3) show ?thesis by (simp add: raw_matches_def)
qed

end
