(* ===== verification/Address_Roundtrip.thy ===== *)
theory Address_Roundtrip
  imports Text_Roundtrip Crc16 Boc_Cells
begin

text \<open>
  Addresses read back from their text forms, and the errors that the checksum of the friendly
  form detects.
\<close>

section \<open>Base64 of thirty-six bytes\<close>

definition six_bits :: "bool list \<Rightarrow> nat \<Rightarrow> nat list" where
  "six_bits bs n = map (\<lambda>i. nat (val_be (take 6 (drop (6 * i) bs)))) [0..<n]"

lemma six_bits:
  assumes "length bs = 6 * n"
  shows "length (six_bits bs n) = n" "\<forall>v \<in> set (six_bits bs n). v < 64"
    "concat (map (\<lambda>v. bits_be 6 (int v)) (six_bits bs n)) = bs"
proof -
  have g: "length (take 6 (drop (6 * i) bs)) = 6" if "i < n" for i using that assms by simp
  show "length (six_bits bs n) = n" by (simp add: six_bits_def)
  show "\<forall>v \<in> set (six_bits bs n). v < 64"
  proof
    fix v assume "v \<in> set (six_bits bs n)"
    then obtain i where "i < n" "v = nat (val_be (take 6 (drop (6 * i) bs)))" by (auto simp: six_bits_def)
    with val_be_less [of "take 6 (drop (6 * i) bs)"] g show "v < 64" by (simp add: nat_less_iff)
  qed
  have "bits_be 6 (int (nat (val_be (take 6 (drop (6 * i) bs))))) = take 6 (drop (6 * i) bs)" if "i < n" for i
    using bits_be_val_be [of "take 6 (drop (6 * i) bs)"] g [OF that] by simp
  then have "map (\<lambda>v. bits_be 6 (int v)) (six_bits bs n) = map (\<lambda>i. take 6 (drop (6 * i) bs)) [0..<n]"
    by (simp add: six_bits_def comp_def)
  then show "concat (map (\<lambda>v. bits_be 6 (int v)) (six_bits bs n)) = bs" using concat_groups assms by simp
qed

lemma base64_encode_36:
  assumes "length w = 36"
  shows "base64_encode w = map b64_char (six_bits (buf_bits w) 48)"
  using assms by (simp add: base64_encode_def six_bits_def Let_def)

lemma base64_decode_vals:
  assumes "length w = 36" "map b64_val s = map Some (six_bits (buf_bits w) 48)"
  shows "base64_decode s = w"
  using six_bits [of "buf_bits w" 48] assms
  by (intro base64_decode_bits [of s "six_bits (buf_bits w) 48" w "[]"]) simp_all

text \<open>The characters that differ between the two alphabets have the same values.\<close>

lemma b64_val_swap:
  "b64_val (CHR ''-'') = b64_val (CHR ''+'')" "b64_val (CHR ''_'') = b64_val (CHR ''/'')"
  by (simp_all add: b64_val_def code_of_def)

lemma b64_val_replace:
  "b64_val a = b64_val b \<Longrightarrow> map b64_val (js_replace a b s) = map b64_val s"
  by (simp add: js_replace_def)

lemma base64_vals:
  assumes "length w = 36"
  shows "map b64_val (base64_encode w) = map Some (six_bits (buf_bits w) 48)"
proof -
  have "b64_val (b64_char v) = Some v" if "v \<in> set (six_bits (buf_bits w) 48)" for v
    using that six_bits(2) [of "buf_bits w" 48] assms by (intro b64_val_char) simp
  then show ?thesis unfolding base64_encode_36 [OF assms] by simp
qed

lemma friendly_text:
  assumes "length w = 36" "map b64_val s = map Some (six_bits (buf_bits w) 48)"
  shows "Address_isFriendly s" "base64_decode s = w"
proof -
  have len: "length s = 48"
    using arg_cong [OF assms(2), of length] six_bits(1) [of "buf_bits w" 48] assms(1) by simp
  have "b64_val (hd s) \<noteq> None" using assms(2) len by (cases s) auto
  then show "Address_isFriendly s" using len by (cases s) (auto simp: Address_isFriendly_def)
qed (rule base64_decode_vals [OF assms])

section \<open>The friendly form\<close>

definition friendly_ok :: "address \<Rightarrow> bool" where
  "friendly_ok a \<longleftrightarrow> length (addr_hash a) = 32 \<and> (workChain a = - 1 \<or> 0 \<le> workChain a \<and> workChain a < 255)"

abbreviation flag :: "bool \<Rightarrow> bool option \<Rightarrow> bool" where
  "flag d b \<equiv> (case b of Some x \<Rightarrow> x | None \<Rightarrow> d)"

lemma length_toStringBuffer: "length (addr_hash a) = 32 \<Longrightarrow> length (Address_toStringBuffer b t a) = 36"
  by (simp add: Address_toStringBuffer_def crc16_def Let_def)

lemma workchain_byte:
  assumes "wc = - 1 \<or> 0 \<le> wc \<and> wc < 255"
  shows "(if (word_of_int wc :: byte) = 0xff then - 1 else uint (word_of_int wc :: byte)) = wc"
proof (cases "wc = - 1")
  case False
  with assms have wc: "0 \<le> wc" "wc < 255" by auto
  then have u: "uint (word_of_int wc :: byte) = wc" by (simp add: uint_word_of_int)
  then have "(word_of_int wc :: byte) \<noteq> 0xff" using wc by auto
  with u show ?thesis by simp
qed simp

text \<open>The parser behind the check of the checksum.\<close>

lemma parseFriendlyData_valid:
  assumes "length hash = 32" "crc16 (tag0 # wc # hash) = [c, d]"
  shows "parseFriendlyData (tag0 # wc # hash @ [c, d]) =
    (let isTestOnly = (tag0 AND test_flag \<noteq> 0); tag = (if isTestOnly then tag0 XOR test_flag else tag0)
     in if tag \<noteq> bounceable_tag \<and> tag \<noteq> non_bounceable_tag then Inl InvalidAddress
        else Inr \<lparr>fr_isTestOnly = isTestOnly, fr_isBounceable = (tag = bounceable_tag),
               fr_workchain = (if wc = 0xff then - 1 else uint wc), fr_hashPart = hash\<rparr>)"
proof -
  let ?addr = "tag0 # wc # hash"
  have "buf_subarray (?addr @ [c, d]) 0 34 = ?addr" "buf_subarray (?addr @ [c, d]) 34 36 = [c, d]"
    "buf_subarray ?addr 2 34 = hash"
    using buf_subarray_inside [of 0 34 "?addr @ [c, d]"] buf_subarray_inside [of 34 36 "?addr @ [c, d]"]
      buf_subarray_inside [of 2 34 ?addr] assms(1) by simp_all
  then show ?thesis using assms by (simp add: parseFriendlyData_def Let_def)
qed

definition friendly_tag :: "bool \<Rightarrow> bool \<Rightarrow> byte" where
  "friendly_tag bounceable testOnly =
     (let tag = (if bounceable then bounceable_tag else non_bounceable_tag)
      in if testOnly then tag OR test_flag else tag)"

lemma friendly_tag:
  "(friendly_tag b t AND test_flag \<noteq> 0) = t"
  "(if t then friendly_tag b t XOR test_flag else friendly_tag b t) = (if b then bounceable_tag else non_bounceable_tag)"
  "bounceable_tag \<noteq> non_bounceable_tag"
  by (simp_all add: friendly_tag_def bounceable_tag_def non_bounceable_tag_def test_flag_def)

lemma parseFriendlyData_buffer:
  assumes "friendly_ok a"
  shows "parseFriendlyData (Address_toStringBuffer b t a) =
    Inr \<lparr>fr_isTestOnly = flag False t, fr_isBounceable = flag True b, fr_workchain = workChain a,
      fr_hashPart = addr_hash a\<rparr>"
proof -
  let ?tag = "friendly_tag (flag True b) (flag False t)" and ?wc = "word_of_int (workChain a) :: byte"
  obtain c d where crc: "crc16 (?tag # ?wc # addr_hash a) = [c, d]" by (simp add: crc16_def)
  have "Address_toStringBuffer b t a = ?tag # ?wc # addr_hash a @ [c, d]"
    using crc by (simp add: Address_toStringBuffer_def friendly_tag_def Let_def)
  moreover have "length (addr_hash a) = 32" using assms by (simp add: friendly_ok_def)
  ultimately show ?thesis
    using friendly_tag(1) [of "flag True b" "flag False t"] friendly_tag(2) [of "flag False t" "flag True b"]
      friendly_tag(3) workchain_byte [of "workChain a"] assms
    by (simp add: parseFriendlyData_valid [OF _ crc] Let_def friendly_ok_def)
qed

lemma toString_vals:
  assumes "length (addr_hash a) = 32"
  shows "map b64_val (Address_toString u b t a) = map Some (six_bits (buf_bits (Address_toStringBuffer b t a)) 48)"
  using base64_vals [OF length_toStringBuffer [OF assms], of b t]
  by (simp add: Address_toString_def Let_def b64_val_replace b64_val_swap split: option.split)

lemma parseFriendly_toString:
  assumes "friendly_ok a"
  shows "\<exists>r. Address_parseFriendly (Address_toString u b t a) = Inr r \<and> pf_address r = a \<and>
    pf_isBounceable r = flag True b \<and> pf_isTestOnly r = flag False t \<and> (flag True u \<longrightarrow> pf_isUrlSafe r)"
proof -
  let ?s = "Address_toString u b t a"
  let ?r = "js_replace (CHR ''_'') (CHR ''/'') (js_replace (CHR ''-'') (CHR ''+'') ?s)"
  have hash: "length (addr_hash a) = 32" using assms by (simp add: friendly_ok_def)
  note w = length_toStringBuffer [OF hash, of b t]
  have "map b64_val ?r = map Some (six_bits (buf_bits (Address_toStringBuffer b t a)) 48)"
    using toString_vals [OF hash] by (simp add: b64_val_replace b64_val_swap)
  note f = friendly_text [OF w this]
  have "parseFriendlyAddress ?r = Inr \<lparr>fr_isTestOnly = flag False t, fr_isBounceable = flag True b,
      fr_workchain = workChain a, fr_hashPart = addr_hash a\<rparr>"
    using f parseFriendlyData_buffer [OF assms] by (simp add: parseFriendlyAddress_def)
  moreover have "\<not> (CHR ''/'' \<in> set ?s \<or> CHR ''+'' \<in> set ?s)" if "flag True u"
    using that by (auto simp: Address_toString_def Let_def js_replace_def split: if_splits)
  ultimately show ?thesis
    using hash by (simp add: Address_parseFriendly_def new_Address_def Let_def)
qed

lemma Address_parse_toString:
  assumes "friendly_ok a"
  shows "Address_parse (Address_toString u b t a) = Inr a"
proof -
  have hash: "length (addr_hash a) = 32" using assms by (simp add: friendly_ok_def)
  have "Address_isFriendly (Address_toString u b t a)"
    by (rule friendly_text(1) [OF length_toStringBuffer [OF hash] toString_vals [OF hash]])
  moreover obtain r where "Address_parseFriendly (Address_toString u b t a) = Inr r" "pf_address r = a"
    using parseFriendly_toString [OF assms, of u b t] by blast
  ultimately show ?thesis by (simp add: Address_parse_def)
qed

text \<open>The workchain has one byte: what differs by 256 has the same text.\<close>

lemma toString_workchain_collision:
  "Address_toString u b t \<lparr>workChain = wc + 256, addr_hash = h\<rparr> = Address_toString u b t \<lparr>workChain = wc, addr_hash = h\<rparr>"
proof -
  have "(word_of_int (wc + 256) :: byte) = word_of_int wc" by (simp add: word_of_int_eq_iff take_bit_eq_mod)
  then show ?thesis unfolding Address_toString_def Address_toStringBuffer_def by (simp only: address.simps)
qed

section \<open>A mistyped character\<close>

lemma parseFriendlyData_checksum:
  assumes "parseFriendlyData w = Inr r"
  shows "crc16_feed (buf_bits w) 0 = 0"
proof -
  have len: "length w = 36" using assms by (auto simp: parseFriendlyData_def split: if_splits)
  define addr where "addr = take 34 w"
  have sub: "buf_subarray w 0 34 = addr" "buf_subarray w 34 36 = drop 34 w"
    using buf_subarray_inside [of 0 34 w] buf_subarray_inside [of 34 36 w] len by (simp_all add: addr_def)
  have "length (drop 34 w) = Suc (Suc 0)" using len by simp
  then obtain c d where cd: "drop 34 w = [c, d]" by (auto simp only: length_Suc_conv length_0_conv)
  have "crc16 addr ! 0 = [c, d] ! 0 \<and> crc16 addr ! 1 = [c, d] ! 1"
    using assms len sub cd by (auto simp: parseFriendlyData_def Let_def split: if_splits)
  then have "crc16 addr = [c, d]" by (simp add: crc16_def)
  moreover have "addr @ [c, d] = w" using cd append_take_drop_id [of 34 w] by (simp add: addr_def)
  ultimately show ?thesis using crc16_valid [of addr c d] by simp
qed

lemma base64_decode_cong: "map b64_val s = map b64_val t \<Longrightarrow> base64_decode s = base64_decode t"
proof -
  assume *: "map b64_val s = map b64_val t"
  have "map (\<lambda>c. case b64_val c of Some v \<Rightarrow> bits_be 6 (int v) | None \<Rightarrow> []) s =
      map (\<lambda>x. case x of Some v \<Rightarrow> bits_be 6 (int v) | None \<Rightarrow> []) (map b64_val s)" for s by simp
  then show ?thesis by (simp only: base64_decode_def *)
qed

abbreviation text_bits :: "string \<Rightarrow> bool list" where
  "text_bits s \<equiv> concat (map (\<lambda>c. case b64_val c of Some v \<Rightarrow> bits_be 6 (int v) | None \<Rightarrow> []) s)"

lemma length_text_bits: "\<forall>c \<in> set s. b64_val c \<noteq> None \<Longrightarrow> length (text_bits s) = 6 * length s"
  by (induction s) auto

lemma b64_val_less: "b64_val c = Some v \<Longrightarrow> v < 64"
  by (auto simp: b64_val_def Let_def split: if_splits)

lemma typo_detected:
  assumes "length s = 48" "\<forall>c \<in> set s. b64_val c \<noteq> None" "i < 48"
    and "b64_val c = Some y" "b64_val (s ! i) \<noteq> Some y"
    and "parseFriendlyData (base64_decode s) = Inr r"
  shows "parseFriendlyData (base64_decode (s[i := c])) = Inl InvalidAddress"
proof (rule ccontr)
  let ?t = "s[i := c]"
  obtain x where x: "b64_val (s ! i) = Some x" using assms(1-3) by fastforce
  have all: "\<forall>d \<in> set ?t. b64_val d \<noteq> None" using assms(2,4) set_update_subset_insert [of s i c] by auto
  have bits: "buf_bits (base64_decode s) = text_bits s" "buf_bits (base64_decode ?t) = text_bits ?t"
    unfolding base64_decode_def
    using length_text_bits [OF assms(2)] length_text_bits [OF all] assms(1)
    by (simp_all add: buf_bits_bytes_of_bits)
  assume "parseFriendlyData (base64_decode ?t) \<noteq> Inl InvalidAddress"
  then obtain r' where "parseFriendlyData (base64_decode ?t) = Inr r'"
    by (auto simp: parseFriendlyData_def Let_def split: if_splits)
  then have "crc16_feed (text_bits s) 0 = crc16_feed (text_bits ?t) 0"
    using parseFriendlyData_checksum assms(6) bits by metis
  moreover have "text_bits s = text_bits (take i s) @ bits_be 6 (int x) @ text_bits (drop (Suc i) s)"
    using id_take_nth_drop [of i s] assms(1,3) x by (metis (no_types, lifting) concat.simps(2) concat_append list.simps(9) map_append option.simps(5))
  moreover have "text_bits ?t = text_bits (take i s) @ bits_be 6 (int y) @ text_bits (drop (Suc i) s)"
    using upd_conv_take_nth_drop [of i s c] assms(1,3,4) by simp
  moreover have "bits_be 6 (int x) \<noteq> bits_be 6 (int y)"
    using bits_be_inj [of 6 "int x" "int y"] b64_val_less [OF x] b64_val_less [OF assms(4)] assms(5) x by auto
  ultimately show False
    using crc16_feed_differ [of "bits_be 6 (int x)" "bits_be 6 (int y)" "text_bits (take i s)" "text_bits (drop (Suc i) s)"]
    by simp
qed

lemma parse_friendly_cases:
  assumes "length s = 48" "b64_val (hd s) \<noteq> None"
  shows "Address_parse s = bindE (parseFriendlyData (base64_decode s)) (\<lambda>r. new_Address (fr_workchain r) (fr_hashPart r))"
proof -
  let ?r = "js_replace (CHR ''_'') (CHR ''/'') (js_replace (CHR ''-'') (CHR ''+'') s)"
  have friendly: "Address_isFriendly t" if "map b64_val t = map b64_val s" for t
  proof -
    have "length t = 48" using arg_cong [OF that, of length] assms(1) by simp
    moreover have "b64_val (hd t) \<noteq> None" using that assms by (cases t; cases s) auto
    ultimately show ?thesis by (cases t) (auto simp: Address_isFriendly_def)
  qed
  have r: "map b64_val ?r = map b64_val s" by (simp add: b64_val_replace b64_val_swap)
  then have "parseFriendlyAddress ?r = parseFriendlyData (base64_decode s)"
    using friendly [OF r] base64_decode_cong [OF r] by (simp add: parseFriendlyAddress_def)
  then show ?thesis
    using friendly [OF refl] by (simp add: Address_parse_def Address_parseFriendly_def Let_def bindE_def split: sum.splits)
qed

lemma Address_typo_detected:
  assumes "length s = 48" "\<forall>c \<in> set s. b64_val c \<noteq> None" "Address_parse s = Inr a"
    and "i < 48" "b64_val c = Some y" "b64_val (s ! i) \<noteq> Some y"
  shows "Address_parse (s[i := c]) = Inl InvalidAddress"
proof -
  have h: "b64_val (hd s) \<noteq> None" "b64_val (hd (s[i := c])) \<noteq> None"
    using assms(1,2,5) by (cases s; cases i; simp)+
  obtain r where "parseFriendlyData (base64_decode s) = Inr r"
    using assms(3) parse_friendly_cases [OF assms(1) h(1)] by auto
  from typo_detected [OF assms(1,2,4,5,6) this] show ?thesis
    using parse_friendly_cases [of "s[i := c]"] h(2) assms(1) by simp
qed

section \<open>The raw form\<close>

lemma hex_val_char: "d < 16 \<Longrightarrow> hex_val (digit_char d) = Some d"
  by (cases "d < 10") (auto simp: hex_val_def digit_char_def code_of_def Let_def)

lemma hex_decode_encode: "hex_decode (hex_of_buffer w) = w"
proof (induction w)
  case (Cons b w)
  have "unat b div 16 < 16" "unat b mod 16 < 16" using unsigned_less [of b, where 'a = nat] by simp_all
  with Cons show ?case
    by (simp add: hex_of_buffer_def hex_of_byte_def hex_val_char)
qed (simp add: hex_of_buffer_def)

lemma length_hex: "length (hex_of_buffer w) = 2 * length w"
  by (induction w) (simp_all add: hex_of_buffer_def hex_of_byte_def)

lemma hex_digits: "c \<in> set (hex_of_buffer w) \<Longrightarrow> \<exists>d < 16. c = digit_char d"
proof (induction w)
  case (Cons b w)
  have "unat b div 16 < 16" "unat b mod 16 < 16" using unsigned_less [of b, where 'a = nat] by simp_all
  moreover have "c = digit_char (unat b div 16) \<or> c = digit_char (unat b mod 16) \<or> c \<in> set (hex_of_buffer w)"
    using Cons.prems by (auto simp: hex_of_buffer_def hex_of_byte_def)
  ultimately show ?case using Cons.IH by blast
qed (simp add: hex_of_buffer_def)

lemma hex_char_facts:
  assumes "d < 16"
  shows "digit_char d \<noteq> CHR '':''" "hex_val (to_lower_char (digit_char d)) \<noteq> None"
proof -
  have "code_of (digit_char d) = (if d < 10 then 48 + d else 87 + d)"
    using assms by (simp add: code_of_def digit_char_def)
  moreover have "code_of (CHR '':'') = 58" by (simp add: code_of_def)
  ultimately show "digit_char d \<noteq> CHR '':''" "hex_val (to_lower_char (digit_char d)) \<noteq> None"
    using assms by (auto simp: to_lower_char_def hex_val_char split: if_splits)
qed

lemma double_is_integer_nat: "n < 2 ^ 53 \<Longrightarrow> double_is_integer n 1"
proof (cases "n = 0")
  case False
  assume n: "n < 2 ^ 53"
  define k where "k = int (bit_length n) - int (bit_length 1)"
  define l where "l = (if n * 2 ^ nat (- k) < 1 * 2 ^ nat k then k - 1 else k)"
  have one: "bit_length (Suc 0) = 1" by (simp add: bit_length.simps)
  have "bit_length n \<le> 53" using n by (rule bit_length_le)
  then have "k \<le> 52" by (simp add: k_def one)
  then have e: "max (l - 52) (- 1074) \<le> 0" by (simp add: l_def)
  define e where "e = max (l - 52) (- 1074)"
  have m: "n * 2 ^ nat (- e) div (1 * 2 ^ nat e) = n * 2 ^ nat (- e)" "n * 2 ^ nat (- e) mod (1 * 2 ^ nat e) = 0"
    using e by (simp_all add: e_def)
  have "(if 0 \<le> e then n * 2 ^ nat (- e) * 2 ^ nat e < 2 ^ 1024 else n * 2 ^ nat (- e) mod 2 ^ nat (- e) = 0)"
  proof (cases "0 \<le> e")
    case True
    then have "e = 0" using e by (simp add: e_def)
    moreover have "n < 2 ^ 1024" using n by (rule less_le_trans) (rule power_increasing, simp_all)
    ultimately show ?thesis by simp
  qed simp
  moreover have "(1 * 2 ^ nat e < 2 * (0 :: nat) \<or> (2 * 0 = 1 * (2 :: nat) ^ nat e \<and> odd (n * 2 ^ nat (- e)))) = False"
    by simp
  ultimately show ?thesis
    unfolding double_is_integer_def Let_def k_def [symmetric] l_def [symmetric] e_def [symmetric] m
    using False by (simp only: if_False)
qed (simp add: double_is_integer_def)

lemma float_decimal:
  assumes "\<bar>v\<bar> < 2 ^ 53"
  shows "js_float_isInteger (to_string_radix 10 v)"
proof -
  let ?r = "nat_radix 10 (nat \<bar>v\<bar>)"
  have d: "dropWhile js_space (to_string_radix 10 v) = to_string_radix 10 v"
    using decimal_no_space by (rule drop_spaces)
  have t: "takeWhile is_digit ?r = ?r" "dropWhile is_digit ?r = []"
    using nat_radix_10(2) by (simp_all add: takeWhile_eq_all_conv dropWhile_eq_Nil_conv)
  have "nat \<bar>v\<bar> < 2 ^ 53" using assms by (simp add: nat_less_iff)
  then have "double_is_integer (nat \<bar>v\<bar>) 1" by (rule double_is_integer_nat)
  then show ?thesis
    using nat_radix_10(1,3) unfolding js_float_isInteger_def d sign_decimal prod.case Let_def t by simp
qed

lemma Address_parse_toRawString:
  assumes "length (addr_hash a) = 32" "\<bar>workChain a\<bar> < 2 ^ 53"
  shows "Address_parse (Address_toRawString a) = Inr a"
proof -
  let ?wc = "to_string_radix 10 (workChain a)" and ?h = "hex_of_buffer (addr_hash a)"
  have src: "Address_toRawString a = ?wc @ CHR '':'' # ?h" by (simp add: Address_toRawString_def)
  have h: "length ?h = 64" "CHR '':'' \<notin> set ?h" using assms(1) length_hex hex_digits hex_char_facts(1) by fastforce+
  have "CHR '':'' \<notin> set ?wc" using decimal_chars by fastforce
  then have parts: "js_split (CHR '':'') (Address_toRawString a) = [?wc, ?h]"
    using split_at split_none h(2) by (simp add: src)
  have "\<not> Address_isFriendly (Address_toRawString a)" using h(1) by (simp add: Address_isFriendly_def src)
  moreover have "Address_isRaw (Address_toRawString a)"
  proof -
    have "hd ?h \<in> set ?h" using h(1) by (cases ?h) auto
    then obtain d where "d < 16" "hd ?h = digit_char d" using hex_digits by blast
    then have "hex_val (to_lower_char (hd ?h)) \<noteq> None" using hex_char_facts(2) by simp
    then have "list_ex (\<lambda>c. hex_val c \<noteq> None) (to_lower ?h)" using h(1) by (cases ?h) (auto simp: to_lower_def)
    then show ?thesis
      using float_decimal [OF assms(2)] h(1) unfolding Address_isRaw_def parts by (simp add: src)
  qed
  ultimately show ?thesis
    using assms(1) by (simp add: Address_parse_def Address_parseRaw_def Let_def parts parseInt_decimal hex_decode_encode new_Address_def)
qed

end
