(* ===== verification/Properties_Bits.thy ===== *)
theory Properties_Bits
  imports Padded_Bits Crc32c Address_Roundtrip
begin

text \<open>
  The properties of the bit layer (BitString, BitBuilder, BitReader, padded bits, CRC-32C),
  with their witnesses.
\<close>

lemma new_builder_fits: "n \<le> sz \<Longrightarrow> sz < 2 ^ 31 - 8 \<Longrightarrow> fits (new_BitBuilder sz) n"
  using wf_new_BitBuilder [of sz] by (simp add: fits_def new_BitBuilder_def)

section \<open>Writing\<close>

text \<open>
  C34: \<open>BitBuilder.writeUint\<close> refines appending to a list of bits: for every width, value in
  range and (unaligned) position it returns, and the buffer then holds the old bits followed
  by the big-endian bits of the value and nothing else.
\<close>

theorem writeUint_refines_append:
  assumes "to_bigint value = Inr v" "0 \<le> v" "v < 2 ^ n"
    and "wf_bb b" "bb_length b + n \<le> bb_cap b"
  shows "\<exists>b'. BitBuilder_writeUint value (int n) b = Inr b' \<and> wf_bb b' \<and> bb_cap b' = bb_cap b \<and>
    bb_bits b' = bb_bits b @ bits_be n v"
  using writeUint_ok [of "value" v b n] assms by (auto simp: fits_def appends_def)

theorem writeUint_refines_append_witness:
  "\<exists>b'. BitBuilder_writeUint (Big 1000) (int 11) (new_BitBuilder 16) = Inr b' \<and> wf_bb b' \<and>
    bb_cap b' = bb_cap (new_BitBuilder 16) \<and> bb_bits b' = bb_bits (new_BitBuilder 16) @ bits_be 11 1000"
  by (rule writeUint_refines_append) (use new_builder_fits [of 11 16] in \<open>auto simp: fits_def\<close>)

text \<open>
  \<open>BitBuilder.writeUint\<close> with a safe positive width succeeds exactly when the value is in
  range and the bits fit the buffer; otherwise it throws and names the reason, the range
  being checked first.
\<close>

theorem writeUint_errors:
  assumes "to_bigint value = Inr v" "0 < n" "n \<le> 2 ^ 53 - 1" "wf_bb b"
  shows "if \<not> (0 \<le> v \<and> v < 2 ^ n) then BitBuilder_writeUint value (int n) b = Inl ValueOutOfRange
    else if bb_cap b < bb_length b + n then BitBuilder_writeUint value (int n) b = Inl BitBuilderOverflow
    else \<exists>b'. BitBuilder_writeUint value (int n) b = Inr b'"
proof -
  have r: "BitBuilder_writeUint value (int n) b = Inl ValueOutOfRange" if "\<not> (0 \<le> v \<and> v < 2 ^ n)"
    using writeUint_out_of_range [OF assms(1-3)] that by force
  have o: "BitBuilder_writeUint value (int n) b = Inl BitBuilderOverflow"
    if "0 \<le> v \<and> v < 2 ^ n \<and> bb_cap b < bb_length b + n"
    using writeUint_overflow [OF assms(1-3)] that by blast
  have s: "\<exists>b'. BitBuilder_writeUint value (int n) b = Inr b'"
    if "0 \<le> v \<and> v < 2 ^ n \<and> bb_length b + n \<le> bb_cap b"
    using writeUint_ok [OF assms(1), of b n] that assms(4) by (auto simp: fits_def)
  show ?thesis using r o s by auto
qed

theorem writeUint_errors_witness:
  "BitBuilder_writeUint (Num 4) (int 2) (new_BitBuilder 8) = Inl ValueOutOfRange \<and>
   BitBuilder_writeUint (Num 4) (int 9) (new_BitBuilder 8) = Inl BitBuilderOverflow"
proof -
  have "wf_bb (new_BitBuilder 8)" using wf_new_BitBuilder [of 8] by simp
  then show ?thesis
    using writeUint_errors [of "Num 4" 4 2 "new_BitBuilder 8"]
      writeUint_errors [of "Num 4" 4 9 "new_BitBuilder 8"]
    by (simp add: new_BitBuilder_def bb_cap_def ceil8_def)
qed

text \<open>
  C35: the overflow check of \<open>BitBuilder.writeBit\<close> admits one bit too many: on a full builder
  a bit is accepted, the length moves past the capacity and the bit is lost.
\<close>

theorem writeBit_past_the_end:
  assumes "wf_bb b" "bb_length b = bb_cap b"
  shows "BitBuilder_writeBit v b = Inr (b\<lparr>bb_length := bb_length b + 1\<rparr>)"
proof -
  have "to_int32 (int (bb_length b) div 8) = int (bb_length b) div 8"
    using assms by (intro to_int32_id) (auto simp: wf_bb_def)
  then show ?thesis
    using assms(2) buf_or_outside [of "bb_buffer b" "length (bb_buffer b)"]
    by (auto simp: BitBuilder_writeBit_def bb_cap_def Let_def)
qed

theorem writeBit_past_the_end_witness:
  "BitBuilder_writeBit (BitBool True) (new_BitBuilder 0) = Inr (new_BitBuilder 0\<lparr>bb_length := 1\<rparr>)"
  using writeBit_past_the_end [of "new_BitBuilder 0" "BitBool True"] wf_new_BitBuilder [of 0]
  by (simp add: new_BitBuilder_def bb_cap_def ceil8_def)

text \<open>
  \<open>BitBuilder.writeInt\<close> appends the two's complement bits of every value of its range,
  for widths of at least two bits, whether the value is a Number or a BigInt.
\<close>

theorem writeInt_refines_append:
  assumes "to_bigint value = Inr v" "2 \<le> n" "- (2 ^ (n - 1)) \<le> v" "v < 2 ^ (n - 1)"
    and "wf_bb b" "bb_length b + n \<le> bb_cap b"
  shows "\<exists>b'. BitBuilder_writeInt value (int n) b = Inr b' \<and> wf_bb b' \<and> bb_cap b' = bb_cap b \<and>
    bb_bits b' = bb_bits b @ bits_be n v"
  using writes_int [of "value" v b n] assms
  by (auto simp: fits_def appends_def writes_def int_range_def)

theorem writeInt_refines_append_witness:
  "\<exists>b'. BitBuilder_writeInt (Num (- 5)) (int 12) (new_BitBuilder 16) = Inr b' \<and> wf_bb b' \<and>
    bb_cap b' = bb_cap (new_BitBuilder 16) \<and> bb_bits b' = bb_bits (new_BitBuilder 16) @ bits_be 12 (- 5)"
  by (rule writeInt_refines_append) (use new_builder_fits [of 12 16] in \<open>auto simp: fits_def\<close>)

text \<open>
  At width one \<open>BitBuilder.writeInt\<close> compares its argument with BigInt literals, so the
  two values of a one-bit integer are refused when they are given as Numbers and accepted
  when they are given as BigInts.
\<close>

theorem writeInt_one_bit_number:
  "v \<in> {0, - 1} \<longrightarrow> BitBuilder_writeInt (Num v) 1 b = Inl ValueNotZero \<and>
     BitBuilder_writeInt (Big v) 1 b = BitBuilder_writeBit (BitBool (v = - 1)) b"
  by (auto simp: BitBuilder_writeInt_def is_safe_integer_def)

theorem writeInt_one_bit_number_witness:
  "BitBuilder_writeInt (Num (- 1)) 1 (new_BitBuilder 8) = Inl ValueNotZero"
  using writeInt_one_bit_number [of "- 1" "new_BitBuilder 8"] by simp

section \<open>Reading back\<close>

text \<open>
  every address the format knows (none, internal, external) written by \<open>writeAddress\<close> is
  read back by \<open>loadAddressAny\<close>, which consumes exactly the bits written.
\<close>

theorem address_roundtrip:
  assumes "valid_address a" "length (enc_address a) \<le> n" "n < 2 ^ 31 - 8"
  shows "\<exists>b s. BitBuilder_writeAddress a (new_BitBuilder n) = Inr b \<and> BitBuilder_build b = Inr s \<and>
    BitReader_loadAddressAny (new_BitReader s 0) = Inr (a, new_BitReader s (int (bb_length b)))"
proof -
  obtain b s where *: "BitBuilder_writeAddress a (new_BitBuilder n) = Inr b" "BitBuilder_build b = Inr s"
    "BitReader_loadAddressAny (new_BitReader s 0) = Inr (a, new_BitReader s (int (length (enc_address a))))"
    using any_address_c.roundtrip [OF assms] by blast
  have "writes (BitBuilder_writeAddress a (new_BitBuilder n)) (new_BitBuilder n) (enc_address a)"
    using assms new_builder_fits by (intro writes_address) auto
  then have "bb_length b = length (enc_address a)"
    using *(1) appends_length [OF wf_new_BitBuilder(1) [OF assms(3)]]
    by (auto simp: writes_def new_BitBuilder_def)
  with * show ?thesis by simp
qed

theorem address_roundtrip_witness:
  "\<exists>b s. BitBuilder_writeAddress (Some (Internal \<lparr>workChain = - 1, addr_hash = replicate 32 7\<rparr>)) (new_BitBuilder 267) = Inr b \<and>
    BitBuilder_build b = Inr s \<and>
    BitReader_loadAddressAny (new_BitReader s 0) =
      Inr (Some (Internal \<lparr>workChain = - 1, addr_hash = replicate 32 7\<rparr>), new_BitReader s (int (bb_length b)))"
  by (rule address_roundtrip) (simp_all add: valid_std_def int_range_def enc_std_address_def)

text \<open>
  the variable-length signed integers (\<open>writeVarInt\<close>, \<open>loadVarIntBig\<close>) round-trip for
  every value whose byte count fits the length field, with exactly that many bits consumed.
\<close>

theorem var_int_roundtrip:
  assumes "int (Suc (size_bytes v)) < 2 ^ k" "length (enc_var_int k v) \<le> n" "n < 2 ^ 31 - 8"
  shows "\<exists>b s. BitBuilder_writeVarInt (Big v) (int k) (new_BitBuilder n) = Inr b \<and> BitBuilder_build b = Inr s \<and>
    BitReader_loadVarIntBig (int k) (new_BitReader s 0) = Inr (v, new_BitReader s (int (length (enc_var_int k v))))"
  using var_int_c.roundtrip [of v k n] assms by simp

theorem var_int_roundtrip_witness:
  "\<exists>b s. BitBuilder_writeVarInt (Big (- 300)) (int 4) (new_BitBuilder 64) = Inr b \<and> BitBuilder_build b = Inr s \<and>
    BitReader_loadVarIntBig (int 4) (new_BitReader s 0) = Inr (- 300, new_BitReader s (int (length (enc_var_int 4 (- 300)))))"
proof (rule var_int_roundtrip)
  have "size_bytes (- 300) \<le> 2" by (rule size_bytes_le) simp
  then show "int (Suc (size_bytes (- 300))) < 2 ^ 4" "length (enc_var_int 4 (- 300)) \<le> 64"
    by (simp_all add: length_enc_var_int)
qed simp

text \<open>
  A sequence of signed integers written one after the other is read back in order, from
  whatever position it starts at and whatever follows.
\<close>

theorem int_sequence_roundtrip:
  assumes "0 < n" "\<forall>v \<in> set vs. int_range n v" "fits b (n * length vs)"
  shows "\<exists>b' s. foldE (\<lambda>v. BitBuilder_writeInt (Big v) (int n)) vs b = Inr b' \<and> BitBuilder_build b' = Inr s \<and>
    get_list (BitReader_loadIntBig (int n)) (length vs) (new_BitReader s (int (bb_length b))) =
      Inr (vs, new_BitReader s (int (bb_length b + n * length vs)))"
proof -
  have len: "length (concat (map (bits_be n) vs)) = n * length vs"
    by (induction vs) simp_all
  have wf: "wf_bb b" using assms(3) by (rule fits_wf)
  obtain b' where b': "foldE (\<lambda>v. BitBuilder_writeInt (Big v) (int n)) vs b = Inr b'"
    "appends b b' (concat (map (bits_be n) vs))"
    using int_c.put_list [of vs n b] assms len by (auto simp: writes_def)
  then have bits: "wf_bb b'" "bb_bits b' = bb_bits b @ concat (map (bits_be n) vs)"
    by (simp_all add: appends_def)
  obtain s where s: "BitBuilder_build b' = Inr s" "bs_bits s = bb_bits b'" "wf_bs s" "bs_length s = bb_length b'"
    using build_ok [OF bits(1)] by blast
  let ?r = "new_BitReader s (int (bb_length b))"
  have "bb_length b \<le> bs_length s" using s(4) appends_length [OF wf b'(2)] by simp
  then have "rd_ok ?r" "rd_rest ?r = concat (map (bits_be n) vs) @ []"
    using s(2,3) bits(2) length_bb_bits [OF wf] by (simp_all add: rd_ok_def rd_rest_def new_BitReader_def)
  from int_c.get_list_ok [OF _ this] assms(1,2) len b'(1) s(1) show ?thesis
    by (simp add: reads_def rd_move_def new_BitReader_def)
qed

theorem int_sequence_roundtrip_witness:
  "\<exists>b' s. foldE (\<lambda>v. BitBuilder_writeInt (Big v) (int 5)) [3, - 16, 15 :: int] (new_BitBuilder 20) = Inr b' \<and>
    BitBuilder_build b' = Inr s \<and>
    get_list (BitReader_loadIntBig (int 5)) (length [3, - 16, 15 :: int]) (new_BitReader s (int (bb_length (new_BitBuilder 20)))) =
      Inr ([3, - 16, 15 :: int], new_BitReader s (int (bb_length (new_BitBuilder 20) + 5 * length [3, - 16, 15 :: int])))"
  by (rule int_sequence_roundtrip) (use new_builder_fits [of 15 20] in \<open>auto simp: int_range_def\<close>)

text \<open>
  a load never reads past the end: \<open>loadUintBig\<close> of \<open>n\<close> bits returns the value of the next
  \<open>n\<close> bits when they are there and throws otherwise.
\<close>

theorem loadUintBig_bounds:
  assumes "wf_bs s" "p \<le> bs_length s"
  shows "BitReader_loadUintBig (int n) (new_BitReader s (int p)) =
    (if p + n \<le> bs_length s
     then Inr (val_be (take n (drop p (bs_bits s))), new_BitReader s (int (p + n)))
     else Inl IndexOutOfBounds)"
proof -
  let ?r = "new_BitReader s (int p)"
  have "rd_ok ?r" "rd_rest ?r = drop p (bs_bits s)"
    using assms by (simp_all add: rd_ok_def rd_rest_def new_BitReader_def)
  then show ?thesis
    using loadUintBig_total [of ?r n] loadUintBig_short [of ?r n] assms(2)
    by (auto simp: rd_move_def new_BitReader_def)
qed

theorem loadUintBig_bounds_witness:
  "BitReader_loadUintBig (int 9) (new_BitReader \<lparr>bs_data = [0xab], bs_offset = 0, bs_length = 8\<rparr> (int 4)) =
     Inl IndexOutOfBounds"
  using loadUintBig_bounds [of "\<lparr>bs_data = [0xab], bs_offset = 0, bs_length = 8\<rparr>" 4 9]
  by (simp add: wf_bs_def)

text \<open>
  the fast path of \<open>BitReader.loadBuffer\<close> (a view of the underlying buffer when the
  position is byte-aligned) returns the bytes that the bit-by-bit path returns.
\<close>

theorem preloadBuffer_paths_agree:
  assumes "wf_bs s" "p + 8 * n \<le> bs_length s"
  shows "BitReader_preloadBuffer_at (int n) (int p) (new_BitReader s 0) =
    mapE (\<lambda>i. bindE (BitReader_preloadUint_at 8 (int p + int i * 8) (new_BitReader s 0))
      (\<lambda>v. Inr (word_of_int v))) [0..<n]"
proof -
  let ?r = "new_BitReader s 0"
  have r: "rd_ok ?r" "rd_rest ?r = bs_bits s" "rd_offset ?r = 0"
    using assms(1) rd_ok_new rd_rest_new by (simp_all add: new_BitReader_def)
  have "mapE (\<lambda>i. bindE (BitReader_preloadUint_at 8 (int p + int i * 8) ?r)
      (\<lambda>v. Inr (word_of_int v))) [0..<n] =
    Inr (map (\<lambda>i. word_of_int (val_be (take 8 (drop (p + 8 * i) (bs_bits s))))) [0..<n])"
  proof (rule mapE_Inr)
    fix i assume "i \<in> set [0..<n]"
    then have "BitReader_preloadUint_at (int 8) (rd_offset ?r + int (p + 8 * i)) ?r =
        Inr (val_be (take 8 (drop (p + 8 * i) (bs_bits s))))"
      using preloadUint_ok [OF r(1), of "p + 8 * i" 8] assms(2) r(2) by simp
    then show "bindE (BitReader_preloadUint_at 8 (int p + int i * 8) ?r) (\<lambda>v. Inr (word_of_int v)) =
        Inr (word_of_int (val_be (take 8 (drop (p + 8 * i) (bs_bits s)))))"
      using r(3) by (simp add: algebra_simps)
  qed
  also have "map (\<lambda>i. word_of_int (val_be (take 8 (drop (p + 8 * i) (bs_bits s))))) [0..<n] =
      bytes_of_bits (take (8 * n) (drop p (bs_bits s)))"
  proof -
    have "length (take (8 * n) (drop p (bs_bits s))) div 8 = n" using assms(2) by simp
    moreover have "take 8 (drop (8 * i) (take (8 * n) (drop p (bs_bits s)))) =
        take 8 (drop (p + 8 * i) (bs_bits s))" if "i < n" for i
      using that by (simp add: drop_take add.commute)
    ultimately show ?thesis by (simp add: bytes_of_bits_def)
  qed
  finally show ?thesis
    using preloadBuffer_total [OF r(1), of p n] assms(2) r(2,3) by simp
qed

theorem preloadBuffer_paths_agree_witness:
  "BitReader_preloadBuffer_at (int 1) (int 3) (new_BitReader \<lparr>bs_data = [0xab, 0xcd], bs_offset = 0, bs_length = 16\<rparr> 0) =
    mapE (\<lambda>i. bindE (BitReader_preloadUint_at 8 (int 3 + int i * 8)
        (new_BitReader \<lparr>bs_data = [0xab, 0xcd], bs_offset = 0, bs_length = 16\<rparr> 0))
      (\<lambda>v. Inr (word_of_int v))) [0..<1]"
  by (rule preloadBuffer_paths_agree) (simp_all add: wf_bs_def)

text \<open>
  padding a bit string and reading it back with \<open>loadPaddedBits\<close> gives the same bits, for
  every length that is no whole number of bytes, and consumes the padding.
\<close>

theorem padded_bits_roundtrip:
  assumes "bs_length s mod 8 \<noteq> 0" "bs_length s < 2 ^ 31 - 16"
  shows "\<exists>w t r. bitsToPaddedBuffer s = Inr w \<and>
    BitReader_loadPaddedBits (int (8 * length w))
      (new_BitReader \<lparr>bs_data = w, bs_offset = 0, bs_length = 8 * length w\<rparr> 0) = Inr (t, r) \<and>
    BitString_equals t s \<and> BitReader_remaining r = 0"
proof -
  obtain w where w: "bitsToPaddedBuffer s = Inr w" "buf_bits w = bs_bits s @ padding (bs_length s)"
    using bitsToPaddedBuffer_ok [OF assms(2)] by blast
  have len: "8 * length w = bs_length s + length (padding (bs_length s))"
    using arg_cong [OF w(2), of length] by simp
  let ?s = "\<lparr>bs_data = w, bs_offset = 0, bs_length = 8 * length w\<rparr>" and ?r = "new_BitReader \<lparr>bs_data = w, bs_offset = 0, bs_length = 8 * length w\<rparr> 0"
  have small: "8 * length w < 2 ^ 31" using len length_padding(2) [of "bs_length s"] assms(2) by simp
  then have "wf_bs ?s" by (auto simp: wf_bs_def)
  then have r: "rd_ok ?r" "rd_rest ?r = bs_bits s @ padding (length (bs_bits s)) @ []"
    using rd_ok_new rd_rest_new bs_bits_whole [OF small] w(2) by simp_all
  have eq: "length (bs_bits s) + length (padding (length (bs_bits s))) = 8 * length w" using len by simp
  from loadPaddedBits_ok [OF r] assms(1) show ?thesis
    unfolding eq using w(1)
    by (auto simp: BitString_equals_iff BitReader_remaining_def new_BitReader_def rd_move_def)
qed

theorem padded_bits_roundtrip_witness:
  "\<exists>w t r. bitsToPaddedBuffer \<lparr>bs_data = [0xf0, 0x50], bs_offset = 2, bs_length = 11\<rparr> = Inr w \<and>
    BitReader_loadPaddedBits (int (8 * length w))
      (new_BitReader \<lparr>bs_data = w, bs_offset = 0, bs_length = 8 * length w\<rparr> 0) = Inr (t, r) \<and>
    BitString_equals t \<lparr>bs_data = [0xf0, 0x50], bs_offset = 2, bs_length = 11\<rparr> \<and> BitReader_remaining r = 0"
  by (rule padded_bits_roundtrip) simp_all

text \<open>
  \<open>paddedBufferToBits\<close>, which finds the end of a run by the lowest set bit of its last
  non-zero byte, is the inverse of \<open>bitsToPaddedBuffer\<close> on runs that are no whole number of bytes.
\<close>

theorem paddedBufferToBits_inverse:
  assumes "bs_length s mod 8 \<noteq> 0" "bs_length s < 2 ^ 31 - 16"
  shows "\<exists>t. bindE (bitsToPaddedBuffer s) paddedBufferToBits = Inr t \<and> BitString_equals t s"
proof -
  obtain w where w: "bitsToPaddedBuffer s = Inr w" "buf_bits w = bs_bits s @ padding (bs_length s)"
    using bitsToPaddedBuffer_ok [OF assms(2)] by blast
  have "8 * length w < 2 ^ 31"
    using arg_cong [OF w(2), of length] length_padding(2) [of "bs_length s"] assms(2) by simp
  with paddedBufferToBits_ok [of w "bs_bits s" "7 - bs_length s mod 8"] w padding_snoc [OF assms(1)]
  show ?thesis by (auto simp: BitString_equals_iff)
qed

theorem paddedBufferToBits_inverse_witness:
  "\<exists>t. bindE (bitsToPaddedBuffer \<lparr>bs_data = [0xf0, 0x50], bs_offset = 2, bs_length = 11\<rparr>) paddedBufferToBits = Inr t \<and>
    BitString_equals t \<lparr>bs_data = [0xf0, 0x50], bs_offset = 2, bs_length = 11\<rparr>"
  by (rule paddedBufferToBits_inverse) simp_all

section \<open>Checksum\<close>

text \<open>the CRC-32C of a bag of cells changes whenever a single byte of the message does.\<close>

theorem crc32c_detects_byte:
  "crc32c (xs @ [v] @ ys) = crc32c (xs @ [w] @ ys) \<longleftrightarrow> v = w"
  using crc32c_single_byte [of v w xs ys] by auto

section \<open>Text forms\<close>

text \<open>
  The properties of the text forms: addresses in the friendly and the raw form, the checksums,
  and amounts.
\<close>

section \<open>Addresses\<close>

text \<open>
  C23: the friendly text of an address with the workchain -1 or 0 to 254, in either alphabet and
  with any flags, is parsed to the address and its flags.
\<close>

theorem friendly_address_roundtrip:
  assumes "length (addr_hash a) = 32" "workChain a = - 1 \<or> 0 \<le> workChain a \<and> workChain a < 255"
  shows "Address_parse (Address_toString urlSafe bounceable testOnly a) = Inr a \<and>
    (\<exists>r. Address_parseFriendly (Address_toString urlSafe bounceable testOnly a) = Inr r \<and> pf_address r = a \<and>
      pf_isBounceable r = (case bounceable of Some b \<Rightarrow> b | None \<Rightarrow> True) \<and>
      pf_isTestOnly r = (case testOnly of Some t \<Rightarrow> t | None \<Rightarrow> False))"
  using Address_parse_toString [of a urlSafe bounceable testOnly] parseFriendly_toString [of a urlSafe bounceable testOnly]
    assms by (auto simp: friendly_ok_def)

theorem friendly_address_roundtrip_witness:
  "Address_parse (Address_toString (Some False) None (Some True) \<lparr>workChain = - 1, addr_hash = replicate 32 171\<rparr>) =
    Inr \<lparr>workChain = - 1, addr_hash = replicate 32 171\<rparr>"
  using friendly_address_roundtrip [of "\<lparr>workChain = - 1, addr_hash = replicate 32 171\<rparr>" "Some False" None "Some True"]
  by simp

text \<open>
  C24: a friendly address in which one character is replaced by another one of the alphabet is
  refused: the CRC-16 sees every error that lies within sixteen bits.
\<close>

theorem mistyped_address_refused:
  assumes "length s = 48" "\<forall>c \<in> set s. b64_val c \<noteq> None" "Address_parse s = Inr a"
    and "i < 48" "b64_val c = Some y" "b64_val (s ! i) \<noteq> Some y"
  shows "Address_parse (s[i := c]) = Inl InvalidAddress"
  using assms by (rule Address_typo_detected)

theorem mistyped_address_refused_witness:
  "\<exists>s. Address_parse s = Inr \<lparr>workChain = 0, addr_hash = replicate 32 0\<rparr> \<and>
    (Address_parse (s[7 := CHR ''A'']) = Inl InvalidAddress \<or> Address_parse (s[7 := CHR ''B'']) = Inl InvalidAddress)"
proof -
  let ?a = "\<lparr>workChain = 0, addr_hash = replicate 32 0\<rparr>"
  define s where "s = Address_toString None None None ?a"
  have ok: "friendly_ok ?a" by (simp add: friendly_ok_def)
  have parse: "Address_parse s = Inr ?a" unfolding s_def by (rule Address_parse_toString [OF ok])
  let ?w = "Address_toStringBuffer None None ?a"
  have w: "length ?w = 36" by (rule length_toStringBuffer) simp
  have vals: "map b64_val s = map Some (six_bits (buf_bits ?w) 48)"
    unfolding s_def by (rule toString_vals) simp
  have len: "length s = 48" using arg_cong [OF vals, of length] six_bits(1) [of "buf_bits ?w" 48] w by simp
  have all: "\<forall>c \<in> set s. b64_val c \<noteq> None"
  proof
    fix c assume "c \<in> set s"
    then have "b64_val c \<in> set (map b64_val s)" by simp
    then show "b64_val c \<noteq> None" unfolding vals by auto
  qed
  have b: "b64_val (CHR ''A'') = Some 0" "b64_val (CHR ''B'') = Some 1" by (simp_all add: b64_val_def code_of_def)
  show ?thesis
  proof (cases "b64_val (s ! 7) = Some 0")
    case True
    then show ?thesis
      using mistyped_address_refused [OF len all parse, of 7 "CHR ''B''" 1] b parse by auto
  next
    case False
    then show ?thesis
      using mistyped_address_refused [OF len all parse, of 7 "CHR ''A''" 0] b parse by auto
  qed
qed

text \<open>
  the raw text of an address is parsed to the address, for every workchain that a double
  holds exactly.
\<close>

theorem raw_address_roundtrip:
  assumes "length (addr_hash a) = 32" "\<bar>workChain a\<bar> < 2 ^ 53"
  shows "Address_parse (Address_toRawString a) = Inr a"
  using assms by (rule Address_parse_toRawString)

theorem raw_address_roundtrip_witness:
  "Address_parse (Address_toRawString \<lparr>workChain = - 2, addr_hash = replicate 32 171\<rparr>) =
    Inr \<lparr>workChain = - 2, addr_hash = replicate 32 171\<rparr>"
  using raw_address_roundtrip [of "\<lparr>workChain = - 2, addr_hash = replicate 32 171\<rparr>"] by simp

text \<open>
  the friendly form keeps only the low byte of the workchain, so addresses whose workchains
  differ by 256 have the same text and one of them is not read back.
\<close>

theorem friendly_address_loses_workchain:
  "Address_toString urlSafe bounceable testOnly \<lparr>workChain = wc + 256, addr_hash = h\<rparr> =
   Address_toString urlSafe bounceable testOnly \<lparr>workChain = wc, addr_hash = h\<rparr>"
  by (rule toString_workchain_collision)

section \<open>Checksums and amounts\<close>

text \<open>
  the table-driven CRC-16 behind \<open>getMethodId\<close> is the bitwise one of the addresses, and a
  message followed by its checksum leaves zero in the register.
\<close>

theorem method_id_crc16:
  "getMethodId name = (crc16_reg name AND 0xffff) OR 0x10000 \<and>
    (crc16 name = [c, d] \<longleftrightarrow> fold crc16_bit (buf_bits (name @ [c, d])) 0 = 0)"
  using crc16_valid [of name c d] by (simp add: getMethodId_def methodId_crc16_reg crc16_feed_def)

text \<open>every amount that \<open>fromNano\<close> formats is read back by \<open>toNano\<close>.\<close>

theorem nano_roundtrip:
  "bindE (fromNano (Big v)) toNano = Inr v \<and> bindE (fromNano (Num v)) toNano = Inr v"
  by (simp add: fromNano_def toNano_fromNano_int)

end
