(* ===== verification/Cell_Slice.thy ===== *)
theory Cell_Slice
  imports Cell_Hash
begin

text \<open>
  \<open>Slice\<close> (ton-core/boc/Slice.ts) and \<open>Builder\<close> (ton-core/boc/Builder.ts): a cursor over the
  bits and references of a cell, and the writer that builds a cell. Both wrap the bit-level
  reader and builder and add a list of references; an operation that only concerns bits is
  the lifted bit-level operation.
\<close>

section \<open>Slices\<close>

record slice =
  sl_reader :: bit_reader
  sl_refs :: "cell list"
  sl_refsOffset :: nat

type_synonym 'a sload = "slice \<Rightarrow> ('a \<times> slice) res"

definition new_Slice :: "bit_reader \<Rightarrow> cell list \<Rightarrow> slice" where
  "new_Slice reader refs =
     \<lparr>sl_reader = BitReader_clone reader, sl_refs = refs, sl_refsOffset = 0\<rparr>"

definition Cell_beginParse :: "cell \<Rightarrow> bool \<Rightarrow> slice res" where
  "Cell_beginParse c allowExotic =
     (if Cell_isExotic c \<and> \<not> allowExotic then Inl ExoticParse
      else Inr (new_Slice (new_BitReader (cell_bits c) 0) (cell_refs c)))"

definition Cell_asSlice :: "cell \<Rightarrow> slice res" where
  "Cell_asSlice c = Cell_beginParse c False"

definition Slice_remainingBits :: "slice \<Rightarrow> int" where
  "Slice_remainingBits s = BitReader_remaining (sl_reader s)"

definition Slice_offsetBits :: "slice \<Rightarrow> int" where
  "Slice_offsetBits s = rd_offset (sl_reader s)"

definition Slice_remainingRefs :: "slice \<Rightarrow> int" where
  "Slice_remainingRefs s = int (length (sl_refs s)) - int (sl_refsOffset s)"

definition Slice_offsetRefs :: "slice \<Rightarrow> int" where
  "Slice_offsetRefs s = int (sl_refsOffset s)"

text \<open>A load of the wrapped reader, and a preload.\<close>

definition lift_load :: "'a load \<Rightarrow> 'a sload" where
  "lift_load f s = bindE (f (sl_reader s)) (\<lambda>(v, r). Inr (v, s\<lparr>sl_reader := r\<rparr>))"

definition lift_preload :: "(bit_reader \<Rightarrow> 'a res) \<Rightarrow> slice \<Rightarrow> 'a res" where
  "lift_preload f s = f (sl_reader s)"

definition Slice_skip :: "int \<Rightarrow> slice \<Rightarrow> slice res" where
  "Slice_skip bits s = bindE (BitReader_skip bits (sl_reader s)) (\<lambda>r. Inr (s\<lparr>sl_reader := r\<rparr>))"

text \<open>An optional value is preceded by a bit that says whether it is there.\<close>

definition load_maybe :: "'a sload \<Rightarrow> 'a option sload" where
  "load_maybe f s =
     bindE (lift_load BitReader_loadBit s) (\<lambda>(b, s).
       if b then bindE (f s) (\<lambda>(v, s). Inr (Some v, s)) else Inr (None, s))"

definition Slice_loadBit :: "bool sload" where "Slice_loadBit = lift_load BitReader_loadBit"
definition Slice_preloadBit :: "slice \<Rightarrow> bool res" where "Slice_preloadBit = lift_preload BitReader_preloadBit"
definition Slice_loadBoolean :: "bool sload" where "Slice_loadBoolean = Slice_loadBit"
definition Slice_loadMaybeBoolean :: "bool option sload" where "Slice_loadMaybeBoolean = load_maybe Slice_loadBoolean"
definition Slice_loadBits :: "int \<Rightarrow> bit_string sload" where "Slice_loadBits n = lift_load (BitReader_loadBits n)"
definition Slice_preloadBits :: "int \<Rightarrow> slice \<Rightarrow> bit_string res" where
  "Slice_preloadBits n = lift_preload (BitReader_preloadBits n)"
definition Slice_loadUint :: "int \<Rightarrow> int sload" where "Slice_loadUint n = lift_load (BitReader_loadUint n)"
definition Slice_loadUintBig :: "int \<Rightarrow> int sload" where "Slice_loadUintBig n = lift_load (BitReader_loadUintBig n)"
definition Slice_preloadUint :: "int \<Rightarrow> slice \<Rightarrow> int res" where
  "Slice_preloadUint n = lift_preload (BitReader_preloadUint n)"
definition Slice_preloadUintBig :: "int \<Rightarrow> slice \<Rightarrow> int res" where
  "Slice_preloadUintBig n = lift_preload (BitReader_preloadUintBig n)"
definition Slice_loadMaybeUint :: "int \<Rightarrow> int option sload" where
  "Slice_loadMaybeUint n = load_maybe (Slice_loadUint n)"
definition Slice_loadMaybeUintBig :: "int \<Rightarrow> int option sload" where
  "Slice_loadMaybeUintBig n = load_maybe (Slice_loadUintBig n)"
definition Slice_loadInt :: "int \<Rightarrow> int sload" where "Slice_loadInt n = lift_load (BitReader_loadInt n)"
definition Slice_loadIntBig :: "int \<Rightarrow> int sload" where "Slice_loadIntBig n = lift_load (BitReader_loadIntBig n)"
definition Slice_preloadInt :: "int \<Rightarrow> slice \<Rightarrow> int res" where
  "Slice_preloadInt n = lift_preload (BitReader_preloadInt n)"
definition Slice_preloadIntBig :: "int \<Rightarrow> slice \<Rightarrow> int res" where
  "Slice_preloadIntBig n = lift_preload (BitReader_preloadIntBig n)"
definition Slice_loadMaybeInt :: "int \<Rightarrow> int option sload" where
  "Slice_loadMaybeInt n = load_maybe (Slice_loadInt n)"
definition Slice_loadMaybeIntBig :: "int \<Rightarrow> int option sload" where
  "Slice_loadMaybeIntBig n = load_maybe (Slice_loadIntBig n)"
definition Slice_loadVarUint :: "int \<Rightarrow> int sload" where "Slice_loadVarUint n = lift_load (BitReader_loadVarUint n)"
definition Slice_loadVarUintBig :: "int \<Rightarrow> int sload" where
  "Slice_loadVarUintBig n = lift_load (BitReader_loadVarUintBig n)"
definition Slice_preloadVarUint :: "int \<Rightarrow> slice \<Rightarrow> int res" where
  "Slice_preloadVarUint n = lift_preload (BitReader_preloadVarUint n)"
definition Slice_preloadVarUintBig :: "int \<Rightarrow> slice \<Rightarrow> int res" where
  "Slice_preloadVarUintBig n = lift_preload (BitReader_preloadVarUintBig n)"
definition Slice_loadVarInt :: "int \<Rightarrow> int sload" where "Slice_loadVarInt n = lift_load (BitReader_loadVarInt n)"
definition Slice_loadVarIntBig :: "int \<Rightarrow> int sload" where
  "Slice_loadVarIntBig n = lift_load (BitReader_loadVarIntBig n)"
definition Slice_preloadVarInt :: "int \<Rightarrow> slice \<Rightarrow> int res" where
  "Slice_preloadVarInt n = lift_preload (BitReader_preloadVarInt n)"
definition Slice_preloadVarIntBig :: "int \<Rightarrow> slice \<Rightarrow> int res" where
  "Slice_preloadVarIntBig n = lift_preload (BitReader_preloadVarIntBig n)"
definition Slice_loadCoins :: "int sload" where "Slice_loadCoins = lift_load BitReader_loadCoins"
definition Slice_preloadCoins :: "slice \<Rightarrow> int res" where "Slice_preloadCoins = lift_preload BitReader_preloadCoins"
definition Slice_loadMaybeCoins :: "int option sload" where "Slice_loadMaybeCoins = load_maybe Slice_loadCoins"
definition Slice_loadAddress :: "address sload" where "Slice_loadAddress = lift_load BitReader_loadAddress"
definition Slice_loadMaybeAddress :: "address option sload" where
  "Slice_loadMaybeAddress = lift_load BitReader_loadMaybeAddress"
definition Slice_loadExternalAddress :: "external_address sload" where
  "Slice_loadExternalAddress = lift_load BitReader_loadExternalAddress"
definition Slice_loadMaybeExternalAddress :: "external_address option sload" where
  "Slice_loadMaybeExternalAddress = lift_load BitReader_loadMaybeExternalAddress"
definition Slice_loadAddressAny :: "any_address option sload" where
  "Slice_loadAddressAny = lift_load BitReader_loadAddressAny"
definition Slice_loadBuffer :: "int \<Rightarrow> buffer sload" where "Slice_loadBuffer n = lift_load (BitReader_loadBuffer n)"
definition Slice_preloadBuffer :: "int \<Rightarrow> slice \<Rightarrow> buffer res" where
  "Slice_preloadBuffer n = lift_preload (BitReader_preloadBuffer n)"

definition Slice_loadRef :: "cell sload" where
  "Slice_loadRef s =
     (if sl_refsOffset s \<ge> length (sl_refs s) then Inl NoMoreReferences
      else Inr (sl_refs s ! sl_refsOffset s, s\<lparr>sl_refsOffset := sl_refsOffset s + 1\<rparr>))"

definition Slice_preloadRef :: "slice \<Rightarrow> cell res" where
  "Slice_preloadRef s =
     (if sl_refsOffset s \<ge> length (sl_refs s) then Inl NoMoreReferences
      else Inr (sl_refs s ! sl_refsOffset s))"

definition Slice_loadMaybeRef :: "cell option sload" where
  "Slice_loadMaybeRef = load_maybe Slice_loadRef"

definition Slice_preloadMaybeRef :: "slice \<Rightarrow> cell option res" where
  "Slice_preloadMaybeRef s =
     bindE (Slice_preloadBit s) (\<lambda>b.
       if b then bindE (Slice_preloadRef s) (\<lambda>c. Inr (Some c)) else Inr None)"

definition Slice_endParse :: "slice \<Rightarrow> unit res" where
  "Slice_endParse s =
     (if Slice_remainingBits s > 0 \<or> Slice_remainingRefs s > 0 then Inl SliceNotEmpty else Inr ())"

definition Slice_clone :: "bool \<Rightarrow> slice \<Rightarrow> slice" where
  "Slice_clone fromStart s =
     (if fromStart
      then new_Slice (BitReader_reset (BitReader_clone (sl_reader s))) (sl_refs s)
      else (new_Slice (sl_reader s) (sl_refs s))\<lparr>sl_refsOffset := sl_refsOffset s\<rparr>)"

section \<open>Builders\<close>

record builder =
  bl_bits :: bit_builder
  bl_refs :: "cell list"

definition new_Builder :: builder where \<comment> \<open>\<open>beginCell()\<close>; a BitBuilder is sized for 1023 bits\<close>
  "new_Builder = \<lparr>bl_bits = new_BitBuilder 1023, bl_refs = []\<rparr>"

definition Builder_bits :: "builder \<Rightarrow> int" where
  "Builder_bits b = int (bb_length (bl_bits b))"

definition Builder_refs :: "builder \<Rightarrow> int" where
  "Builder_refs b = int (length (bl_refs b))"

definition Builder_availableBits :: "builder \<Rightarrow> int" where
  "Builder_availableBits b = 1023 - Builder_bits b"

definition Builder_availableRefs :: "builder \<Rightarrow> int" where
  "Builder_availableRefs b = 4 - Builder_refs b"

definition lift_write :: "(bit_builder \<Rightarrow> bit_builder res) \<Rightarrow> builder \<Rightarrow> builder res" where
  "lift_write f b = bindE (f (bl_bits b)) (\<lambda>bits. Inr (b\<lparr>bl_bits := bits\<rparr>))"

definition Builder_storeBit :: "bitval \<Rightarrow> builder \<Rightarrow> builder res" where
  "Builder_storeBit v = lift_write (BitBuilder_writeBit v)"

definition store_maybe :: "('a \<Rightarrow> builder \<Rightarrow> builder res) \<Rightarrow> 'a option \<Rightarrow> builder \<Rightarrow> builder res" where
  "store_maybe f v b =
     (case v of Some x \<Rightarrow> bindE (Builder_storeBit (BitNum 1) b) (f x)
      | None \<Rightarrow> Builder_storeBit (BitNum 0) b)"

definition Builder_storeBits :: "bit_string \<Rightarrow> builder \<Rightarrow> builder res" where
  "Builder_storeBits src = lift_write (BitBuilder_writeBits src)"

definition Builder_storeBuffer :: "buffer \<Rightarrow> int option \<Rightarrow> builder \<Rightarrow> builder res" where
  "Builder_storeBuffer src bytes b =
     (if bytes \<noteq> None \<and> bytes \<noteq> Some (int (length src)) then Inl BufferLength
      else lift_write (BitBuilder_writeBuffer src) b)"

definition Builder_storeMaybeBuffer :: "buffer option \<Rightarrow> int option \<Rightarrow> builder \<Rightarrow> builder res" where
  "Builder_storeMaybeBuffer src bytes = store_maybe (\<lambda>w. Builder_storeBuffer w bytes) src"

definition Builder_storeUint :: "jsval \<Rightarrow> int \<Rightarrow> builder \<Rightarrow> builder res" where
  "Builder_storeUint v n = lift_write (BitBuilder_writeUint v n)"
definition Builder_storeMaybeUint :: "jsval option \<Rightarrow> int \<Rightarrow> builder \<Rightarrow> builder res" where
  "Builder_storeMaybeUint v n = store_maybe (\<lambda>v. Builder_storeUint v n) v"
definition Builder_storeInt :: "jsval \<Rightarrow> int \<Rightarrow> builder \<Rightarrow> builder res" where
  "Builder_storeInt v n = lift_write (BitBuilder_writeInt v n)"
definition Builder_storeMaybeInt :: "jsval option \<Rightarrow> int \<Rightarrow> builder \<Rightarrow> builder res" where
  "Builder_storeMaybeInt v n = store_maybe (\<lambda>v. Builder_storeInt v n) v"
definition Builder_storeVarUint :: "jsval \<Rightarrow> int \<Rightarrow> builder \<Rightarrow> builder res" where
  "Builder_storeVarUint v n = lift_write (BitBuilder_writeVarUint v n)"
definition Builder_storeMaybeVarUint :: "jsval option \<Rightarrow> int \<Rightarrow> builder \<Rightarrow> builder res" where
  "Builder_storeMaybeVarUint v n = store_maybe (\<lambda>v. Builder_storeVarUint v n) v"
definition Builder_storeVarInt :: "jsval \<Rightarrow> int \<Rightarrow> builder \<Rightarrow> builder res" where
  "Builder_storeVarInt v n = lift_write (BitBuilder_writeVarInt v n)"
definition Builder_storeMaybeVarInt :: "jsval option \<Rightarrow> int \<Rightarrow> builder \<Rightarrow> builder res" where
  "Builder_storeMaybeVarInt v n = store_maybe (\<lambda>v. Builder_storeVarInt v n) v"
definition Builder_storeCoins :: "jsval \<Rightarrow> builder \<Rightarrow> builder res" where
  "Builder_storeCoins v = lift_write (BitBuilder_writeCoins v)"
definition Builder_storeMaybeCoins :: "jsval option \<Rightarrow> builder \<Rightarrow> builder res" where
  "Builder_storeMaybeCoins = store_maybe Builder_storeCoins"
definition Builder_storeAddress :: "any_address option \<Rightarrow> builder \<Rightarrow> builder res" where
  "Builder_storeAddress a = lift_write (BitBuilder_writeAddress a)"

definition Builder_endCell :: "(buffer \<Rightarrow> buffer) \<Rightarrow> bool \<Rightarrow> builder \<Rightarrow> cell res" where
  "Builder_endCell sha exotic b =
     bindE (BitBuilder_build (bl_bits b)) (\<lambda>bits. new_Cell sha exotic bits (bl_refs b))"

text \<open>The argument of \<open>storeRef\<close> is a cell or a builder, which is finished first.\<close>

datatype cell_or_builder = ACell cell | ABuilder builder

fun Builder_storeRef :: "(buffer \<Rightarrow> buffer) \<Rightarrow> cell_or_builder \<Rightarrow> builder \<Rightarrow> builder res" where
  "Builder_storeRef sha x b =
     (if length (bl_refs b) \<ge> 4 then Inl TooManyReferences
      else case x of
          ACell c \<Rightarrow> Inr (b\<lparr>bl_refs := bl_refs b @ [c]\<rparr>)
        | ABuilder d \<Rightarrow> bindE (Builder_endCell sha False d) (\<lambda>c. Inr (b\<lparr>bl_refs := bl_refs b @ [c]\<rparr>)))"

declare Builder_storeRef.simps [simp del]

definition Builder_storeMaybeRef ::
    "(buffer \<Rightarrow> buffer) \<Rightarrow> cell_or_builder option \<Rightarrow> builder \<Rightarrow> builder res" where
  "Builder_storeMaybeRef sha = store_maybe (Builder_storeRef sha)"

text \<open>The loop of \<open>storeSlice\<close> runs over the references of the clone that are left.\<close>

definition Builder_storeSlice :: "(buffer \<Rightarrow> buffer) \<Rightarrow> slice \<Rightarrow> builder \<Rightarrow> builder res" where
  "Builder_storeSlice sha src b =
     (let c = Slice_clone False src
      in bindE (if Slice_remainingBits c > 0
                then bindE (Slice_loadBits (Slice_remainingBits c) c) (\<lambda>(bits, c).
                     bindE (Builder_storeBits bits b) (\<lambda>b. Inr (b, c)))
                else Inr (b, c)) (\<lambda>(b, c).
         foldE (\<lambda>r. Builder_storeRef sha (ACell r)) (drop (sl_refsOffset c) (sl_refs c)) b))"

definition Builder_storeMaybeSlice :: "(buffer \<Rightarrow> buffer) \<Rightarrow> slice option \<Rightarrow> builder \<Rightarrow> builder res" where
  "Builder_storeMaybeSlice sha = store_maybe (Builder_storeSlice sha)"

definition Builder_storeBuilder :: "(buffer \<Rightarrow> buffer) \<Rightarrow> builder \<Rightarrow> builder \<Rightarrow> builder res" where
  "Builder_storeBuilder sha src b =
     bindE (Builder_endCell sha False src) (\<lambda>c.
     bindE (Cell_beginParse c False) (\<lambda>s. Builder_storeSlice sha s b))"

definition Builder_storeMaybeBuilder :: "(buffer \<Rightarrow> buffer) \<Rightarrow> builder option \<Rightarrow> builder \<Rightarrow> builder res" where
  "Builder_storeMaybeBuilder sha = store_maybe (Builder_storeBuilder sha)"

text \<open>A writable is a function on builders (an object's \<open>writeTo\<close> or a closure).\<close>

definition Builder_storeWritable :: "(builder \<Rightarrow> builder res) \<Rightarrow> builder \<Rightarrow> builder res" where
  "Builder_storeWritable writer b = writer b"
definition Builder_storeMaybeWritable :: "(builder \<Rightarrow> builder res) option \<Rightarrow> builder \<Rightarrow> builder res" where
  "Builder_storeMaybeWritable = store_maybe Builder_storeWritable"
definition Builder_store :: "(builder \<Rightarrow> builder res) \<Rightarrow> builder \<Rightarrow> builder res" where
  "Builder_store = Builder_storeWritable"

definition Builder_asCell :: "(buffer \<Rightarrow> buffer) \<Rightarrow> builder \<Rightarrow> cell res" where
  "Builder_asCell sha = Builder_endCell sha False"

definition Builder_asSlice :: "(buffer \<Rightarrow> buffer) \<Rightarrow> builder \<Rightarrow> slice res" where
  "Builder_asSlice sha b = bindE (Builder_endCell sha False b) (\<lambda>c. Cell_beginParse c False)"

definition Slice_asCell :: "(buffer \<Rightarrow> buffer) \<Rightarrow> slice \<Rightarrow> cell res" where
  "Slice_asCell sha s = bindE (Builder_storeSlice sha s new_Builder) (Builder_endCell sha False)"

definition Slice_asBuilder :: "(buffer \<Rightarrow> buffer) \<Rightarrow> slice \<Rightarrow> builder res" where
  "Slice_asBuilder sha s = Builder_storeSlice sha s new_Builder"

definition Slice_toString :: "(buffer \<Rightarrow> buffer) \<Rightarrow> slice \<Rightarrow> string res" where
  "Slice_toString sha s = bindE (Slice_asCell sha s) (Cell_toString [])"

definition Cell_asBuilder :: "(buffer \<Rightarrow> buffer) \<Rightarrow> cell \<Rightarrow> builder res" where
  "Cell_asBuilder sha c = bindE (Cell_asSlice c) (\<lambda>s. Builder_storeSlice sha s new_Builder)"

section \<open>Strings\<close>

text \<open>
  Text in cells (ton-core/boc/utils/strings.ts): a snake of cells with the bytes of the text
  in the data and the tail in a reference. A string stands for its UTF-8 bytes here:
  \<open>Buffer.from(src)\<close> and \<open>toString()\<close> convert between them.
\<close>

function (sequential) strings_writeBuffer ::
    "(buffer \<Rightarrow> buffer) \<Rightarrow> buffer \<Rightarrow> builder \<Rightarrow> builder res" where
  "strings_writeBuffer sha src b =
     (if length src > 0
      then let bytes = Builder_availableBits b div 8
           in if int (length src) > bytes
              then let a = buf_subarray src 0 bytes; t = buf_subarray src bytes (int (length src))
                   in bindE (Builder_storeBuffer a None b) (\<lambda>b.
                      bindE (strings_writeBuffer sha t new_Builder) (\<lambda>bb.
                      bindE (Builder_endCell sha False bb) (\<lambda>c.
                      Builder_storeRef sha (ACell c) b)))
              else Builder_storeBuffer src None b
      else Inr b)"
  by pat_completeness auto
termination
proof (relation "measure (\<lambda>(sha, src, b). 2 * length src + (if Builder_availableBits b < 8 then 1 else 0))",
    goal_cases)
  case (2 sha src b bytes a t)
  have new: "Builder_availableBits new_Builder = 1023"
    by (simp add: Builder_availableBits_def Builder_bits_def new_Builder_def new_BitBuilder_def)
  show ?case
  proof (cases "Builder_availableBits b < 8")
    case True
    with 2 new show ?thesis by (simp add: buf_subarray_def Let_def)
  next
    case False
    then have "0 < bytes" using 2(2) by simp
    then have "0 < nat bytes" by simp
    with 2 new False show ?thesis by (auto simp: buf_subarray_def Let_def buf_index_def)
  qed
qed simp

declare strings_writeBuffer.simps [simp del]

definition strings_writeString :: "(buffer \<Rightarrow> buffer) \<Rightarrow> buffer \<Rightarrow> builder \<Rightarrow> builder res" where
  "strings_writeString = strings_writeBuffer"

definition strings_stringToCell :: "(buffer \<Rightarrow> buffer) \<Rightarrow> buffer \<Rightarrow> cell res" where
  "strings_stringToCell sha src = bindE (strings_writeBuffer sha src new_Builder) (Builder_endCell sha False)"

text \<open>The reader recurses into the reference: the recursion follows the tree of cells.\<close>

definition strings_readBytes :: "buffer sload" where
  "strings_readBytes s =
     (if js_rem (Slice_remainingBits s) 8 \<noteq> 0 then Inl InvalidString
      else if Slice_remainingRefs s \<noteq> 0 \<and> Slice_remainingRefs s \<noteq> 1 then Inl InvalidString
      else if Slice_remainingBits s = 0 then Inr ([], s)
      else Slice_loadBuffer (Slice_remainingBits s div 8) s)"

lemma size_list_member: "x \<in> set xs \<Longrightarrow> size x < size_list size xs"
  by (induction xs) auto

lemma loadRef_size:
  assumes "Slice_loadRef s = Inr (c, s')"
  shows "size_list size (cell_refs c) < size_list size (drop (sl_refsOffset s) (sl_refs s))"
proof -
  have "c \<in> set (drop (sl_refsOffset s) (sl_refs s))"
    using assms by (auto simp: Slice_loadRef_def in_set_conv_nth intro!: exI [of _ 0] split: if_splits)
  then have "size c < size_list size (drop (sl_refsOffset s) (sl_refs s))" by (rule size_list_member)
  moreover have "size_list size (cell_refs c) < size c" by (cases c) simp
  ultimately show ?thesis by linarith
qed

lemma readBytes_refs:
  "strings_readBytes s = Inr (w, s') \<Longrightarrow> sl_refs s' = sl_refs s \<and> sl_refsOffset s' = sl_refsOffset s"
  by (auto simp: strings_readBytes_def Slice_loadBuffer_def lift_load_def split: if_splits)

function strings_readBuffer :: "buffer sload" where
  "strings_readBuffer s =
     bindE (strings_readBytes s) (\<lambda>(res, s).
     if Slice_remainingRefs s = 1
     then bindE (Slice_loadRef s) (\<lambda>(c, s).
          bindE (Cell_beginParse c False) (\<lambda>cs.
          bindE (strings_readBuffer cs) (\<lambda>(tail, _). Inr (res @ tail, s))))
     else Inr (res, s))"
  by pat_completeness auto

termination
proof (relation "measure (\<lambda>s. size_list size (drop (sl_refsOffset s) (sl_refs s)))", goal_cases)
  case (2 s r w s1 r1 c s2 cs)
  then have "sl_refs s1 = sl_refs s \<and> sl_refsOffset s1 = sl_refsOffset s"
    using readBytes_refs by blast
  moreover have "sl_refs cs = cell_refs c" "sl_refsOffset cs = 0"
    using 2 by (auto simp: Cell_beginParse_def new_Slice_def split: if_splits)
  ultimately show ?case using 2 loadRef_size [of s1 c s2] by simp
qed simp

declare strings_readBuffer.simps [simp del]

definition strings_readString :: "buffer sload" where
  "strings_readString = strings_readBuffer"

definition Builder_storeStringTail :: "(buffer \<Rightarrow> buffer) \<Rightarrow> buffer \<Rightarrow> builder \<Rightarrow> builder res" where
  "Builder_storeStringTail sha src b = strings_writeString sha src b"
definition Builder_storeMaybeStringTail :: "(buffer \<Rightarrow> buffer) \<Rightarrow> buffer option \<Rightarrow> builder \<Rightarrow> builder res" where
  "Builder_storeMaybeStringTail sha = store_maybe (Builder_storeStringTail sha)"
definition Builder_storeStringRefTail :: "(buffer \<Rightarrow> buffer) \<Rightarrow> buffer \<Rightarrow> builder \<Rightarrow> builder res" where
  "Builder_storeStringRefTail sha src b =
     bindE (Builder_storeStringTail sha src new_Builder) (\<lambda>d. Builder_storeRef sha (ABuilder d) b)"
definition Builder_storeMaybeStringRefTail :: "(buffer \<Rightarrow> buffer) \<Rightarrow> buffer option \<Rightarrow> builder \<Rightarrow> builder res" where
  "Builder_storeMaybeStringRefTail sha = store_maybe (Builder_storeStringRefTail sha)"

definition Slice_loadStringTail :: "buffer sload" where
  "Slice_loadStringTail = strings_readString"
definition Slice_loadMaybeStringTail :: "buffer option sload" where
  "Slice_loadMaybeStringTail = load_maybe strings_readString"
definition Slice_loadStringRefTail :: "buffer sload" where
  "Slice_loadStringRefTail s =
     bindE (Slice_loadRef s) (\<lambda>(c, s).
     bindE (Cell_beginParse c False) (\<lambda>cs.
     bindE (strings_readString cs) (\<lambda>(str, _). Inr (str, s))))"
definition Slice_loadMaybeStringRefTail :: "buffer option sload" where
  "Slice_loadMaybeStringRefTail s =
     bindE (Slice_loadMaybeRef s) (\<lambda>(ref, s).
     case ref of
       Some c \<Rightarrow> bindE (Cell_beginParse c False) (\<lambda>cs.
                 bindE (strings_readString cs) (\<lambda>(str, _). Inr (Some str, s)))
     | None \<Rightarrow> Inr (None, s))"

end
