(* ===== verification/Cell_Codec.thy ===== *)
theory Cell_Codec
  imports Cell_Slice
begin

text \<open>
  The contract between a store of a builder and the load of a slice that undoes it: a value
  is written as some bits and some references, and the load consumes exactly those. Every
  codec of bits is one (with no references); options and pairs of codecs are codecs. From the
  contract follows that a finished cell gives the stored value back and leaves nothing.
\<close>

section \<open>Appending to a builder, consuming a slice\<close>

definition bl_fits :: "builder \<Rightarrow> nat \<Rightarrow> nat \<Rightarrow> bool" where
  "bl_fits b n k \<longleftrightarrow> fits (bl_bits b) n \<and> length (bl_refs b) + k \<le> 4"

definition stores :: "builder res \<Rightarrow> builder \<Rightarrow> bool list \<Rightarrow> cell list \<Rightarrow> bool" where
  "stores m b xs rs \<longleftrightarrow>
     (\<exists>b'. m = Inr b' \<and> appends (bl_bits b) (bl_bits b') xs \<and> bl_refs b' = bl_refs b @ rs)"

definition sl_ok :: "slice \<Rightarrow> bool" where
  "sl_ok s \<longleftrightarrow> rd_ok (sl_reader s) \<and> sl_refsOffset s \<le> length (sl_refs s)"

definition sl_bits :: "slice \<Rightarrow> bool list" where
  "sl_bits s = rd_rest (sl_reader s)"

definition sl_cells :: "slice \<Rightarrow> cell list" where
  "sl_cells s = drop (sl_refsOffset s) (sl_refs s)"

definition sl_move :: "nat \<Rightarrow> nat \<Rightarrow> slice \<Rightarrow> slice" where
  "sl_move n k s = s\<lparr>sl_reader := rd_move (int n) (sl_reader s), sl_refsOffset := sl_refsOffset s + k\<rparr>"

definition sreads :: "'a sload \<Rightarrow> slice \<Rightarrow> 'a \<Rightarrow> nat \<Rightarrow> nat \<Rightarrow> bool" where
  "sreads f s v n k \<longleftrightarrow> f s = Inr (v, sl_move n k s)"

lemma sl_move_move [simp]: "sl_move m j (sl_move n k s) = sl_move (n + m) (k + j) s"
  by (simp add: sl_move_def add.commute)

lemma sl_move_0 [simp]: "sl_move 0 0 s = s"
  by (simp add: sl_move_def)

lemma sl_rest_split:
  assumes "sl_ok s" "sl_bits s = xs @ ys" "sl_cells s = rs @ ts"
  shows "sl_ok (sl_move (length xs) (length rs) s)"
    "sl_bits (sl_move (length xs) (length rs) s) = ys"
    "sl_cells (sl_move (length xs) (length rs) s) = ts"
proof -
  note r = rd_rest_split [of "sl_reader s" xs ys] assms(1,2)
  have "length rs \<le> length (sl_refs s) - sl_refsOffset s"
    using arg_cong [OF assms(3), of length] by (simp add: sl_cells_def)
  then show "sl_ok (sl_move (length xs) (length rs) s)"
    using r by (auto simp: sl_ok_def sl_move_def sl_bits_def)
  show "sl_bits (sl_move (length xs) (length rs) s) = ys"
    using r by (simp add: sl_ok_def sl_move_def sl_bits_def)
  have "drop (length rs) (sl_cells s) = ts" using assms(3) by simp
  then show "sl_cells (sl_move (length xs) (length rs) s) = ts"
    by (simp add: sl_cells_def sl_move_def add.commute)
qed

lemma bl_fits_mono: "bl_fits b n k \<Longrightarrow> m \<le> n \<Longrightarrow> j \<le> k \<Longrightarrow> bl_fits b m j"
  using fits_mono by (auto simp: bl_fits_def)

lemma stores_refl: "bl_fits b n k \<Longrightarrow> stores (Inr b) b [] []"
  by (auto simp: stores_def bl_fits_def dest: fits_wf)

lemma stores_bind:
  assumes "bl_fits b (length xs + length ys) (length rs + length ts)"
    and "bl_fits b (length xs) (length rs) \<Longrightarrow> stores m b xs rs"
    and "\<And>b'. bl_fits b' (length ys) (length ts) \<Longrightarrow> stores (f b') b' ys ts"
  shows "stores (bindE m f) b (xs @ ys) (rs @ ts)"
proof -
  have "bl_fits b (length xs) (length rs)" using assms(1) by (rule bl_fits_mono) auto
  with assms(2) obtain b1 where b1: "m = Inr b1" "appends (bl_bits b) (bl_bits b1) xs"
    "bl_refs b1 = bl_refs b @ rs" by (auto simp: stores_def)
  then have "bl_fits b1 (length ys) (length ts)"
    using assms(1) fits_appends by (auto simp: bl_fits_def)
  with assms(3) obtain b2 where "f b1 = Inr b2" "appends (bl_bits b1) (bl_bits b2) ys"
    "bl_refs b2 = bl_refs b1 @ ts" by (auto simp: stores_def)
  with b1 show ?thesis by (auto simp: stores_def intro: appends_trans)
qed

lemma sreads_bind:
  assumes "sl_ok s" "sl_bits s = xs @ ys" "sl_cells s = rs @ ts"
    and "sreads f s v (length xs) (length rs)"
    and "\<And>s'. sl_ok s' \<Longrightarrow> sl_bits s' = ys \<Longrightarrow> sl_cells s' = ts \<Longrightarrow>
       g (v, s') = Inr (w, sl_move n k s')"
  shows "bindE (f s) g = Inr (w, sl_move (length xs + n) (length rs + k) s)"
  using assms(4) assms(5) [OF sl_rest_split [OF assms(1-3)]] by (simp add: sreads_def)

section \<open>Lifted operations\<close>

lemma lift_write_stores:
  assumes "writes (f (bl_bits b)) (bl_bits b) xs"
  shows "stores (lift_write f b) b xs []"
  using assms by (auto simp: writes_def stores_def lift_write_def)

lemma lift_load_reads:
  assumes "reads f (sl_reader s) v n"
  shows "sreads (lift_load f) s v n 0"
  using assms by (simp add: reads_def sreads_def lift_load_def sl_move_def)

lemma storeBit_stores:
  assumes "bl_fits b 1 k"
  shows "stores (Builder_storeBit v b) b [bitval_set v] []"
  unfolding Builder_storeBit_def using assms
  by (intro lift_write_stores writes_bit) (simp add: bl_fits_def)

lemma loadBit_reads:
  assumes "sl_ok s" "sl_bits s = x # ys"
  shows "sreads (lift_load BitReader_loadBit) s x 1 0"
  using assms loadBit_ok(1) [of "sl_reader s" x ys]
  by (intro lift_load_reads) (simp add: reads_def sl_ok_def sl_bits_def)

section \<open>Finishing and parsing a cell\<close>

lemma new_Builder_fits: "n \<le> 1023 \<Longrightarrow> k \<le> 4 \<Longrightarrow> bl_fits new_Builder n k"
  using wf_new_BitBuilder [of 1023] by (simp add: bl_fits_def fits_def new_Builder_def new_BitBuilder_def)

lemma new_Cell_total:
  assumes "sha_ok sha" "\<forall>r \<in> set refs. cell_ok r" "wf_bs bits" "length refs \<le> 4" "bs_length bits \<le> 1023"
  shows "\<exists>c. new_Cell sha False bits refs = Inr c \<and> cell_ok c \<and> cell_bits c = bits \<and>
    cell_refs c = refs \<and> cell_type c = Ordinary"
proof -
  obtain w where "wonderCalculator sha Ordinary bits refs = Inr w"
    using wonderCalculator_ok [OF assms(1-3,5), of Ordinary] by auto
  with assms(4,5) have n: "new_Cell sha False bits refs =
      Inr (Cell Ordinary bits refs (wd_mask w) (wd_hashes w) (wd_depths w))"
    by (simp add: new_Cell_def)
  with new_Cell_ok [OF assms(1-3) n] show ?thesis by simp
qed

lemma endCell_ok:
  assumes "sha_ok sha" "wf_bb (bl_bits b)" "bb_length (bl_bits b) \<le> 1023" "length (bl_refs b) \<le> 4"
    and "\<forall>r \<in> set (bl_refs b). cell_ok r"
  shows "\<exists>c. Builder_endCell sha False b = Inr c \<and> cell_ok c \<and> cell_type c = Ordinary \<and>
    bs_bits (cell_bits c) = bb_bits (bl_bits b) \<and> cell_refs c = bl_refs b"
proof -
  obtain s where s: "BitBuilder_build (bl_bits b) = Inr s" "bs_bits s = bb_bits (bl_bits b)" "wf_bs s"
    "bs_length s = bb_length (bl_bits b)"
    using build_ok [OF assms(2)] by blast
  with new_Cell_total [OF assms(1,5), of s] assms(3,4) show ?thesis
    by (auto simp: Builder_endCell_def)
qed

lemma beginParse_ok:
  assumes "cell_ok c" "cell_type c = Ordinary \<or> allow"
  shows "\<exists>s. Cell_beginParse c allow = Inr s \<and> sl_ok s \<and> sl_bits s = bs_bits (cell_bits c) \<and>
    sl_cells s = cell_refs c \<and> sl_refsOffset s = 0"
  using assms rd_ok_new [of "cell_bits c"] rd_rest_new [of "cell_bits c"]
  by (auto simp: Cell_beginParse_def Cell_isExotic_def new_Slice_def BitReader_clone_def sl_ok_def
      sl_bits_def sl_cells_def new_BitReader_def cell_ok_def)

lemma endParse_ok: "sl_ok s \<Longrightarrow> sl_bits s = [] \<Longrightarrow> sl_cells s = [] \<Longrightarrow> Slice_endParse s = Inr ()"
  using length_rd_rest [of "sl_reader s"]
  by (auto simp: Slice_endParse_def Slice_remainingBits_def Slice_remainingRefs_def sl_ok_def sl_bits_def sl_cells_def)

section \<open>The contract\<close>

locale cell_codec =
  fixes store :: "'v \<Rightarrow> builder \<Rightarrow> builder res"
    and load :: "'v sload"
    and enc :: "'v \<Rightarrow> bool list"
    and kids :: "'v \<Rightarrow> cell list"
    and valid :: "'v \<Rightarrow> bool"
  assumes store_ok: "valid v \<Longrightarrow> bl_fits b (length (enc v)) (length (kids v)) \<Longrightarrow>
      stores (store v b) b (enc v) (kids v)"
    and load_ok: "valid v \<Longrightarrow> sl_ok s \<Longrightarrow> sl_bits s = enc v @ ys \<Longrightarrow> sl_cells s = kids v @ ts \<Longrightarrow>
      sreads load s v (length (enc v)) (length (kids v))"
begin

text \<open>A value stored in a fresh builder is what parsing the finished cell returns, to its end.\<close>

lemma through_cell:
  assumes "sha_ok sha" "valid v" "length (enc v) \<le> 1023" "length (kids v) \<le> 4"
    and "\<forall>r \<in> set (kids v). cell_ok r"
  shows "\<exists>b c s s'. store v new_Builder = Inr b \<and> Builder_endCell sha False b = Inr c \<and>
    bs_bits (cell_bits c) = enc v \<and> cell_refs c = kids v \<and> cell_ok c \<and> cell_type c = Ordinary \<and>
    Cell_beginParse c False = Inr s \<and> load s = Inr (v, s') \<and> Slice_endParse s' = Inr ()"
proof -
  from store_ok [OF assms(2) new_Builder_fits [OF assms(3,4)]]
  obtain b where b: "store v new_Builder = Inr b" "appends (bl_bits new_Builder) (bl_bits b) (enc v)"
    "bl_refs b = kids v"
    by (auto simp: stores_def new_Builder_def)
  have bits: "wf_bb (bl_bits b)" "bb_bits (bl_bits b) = enc v"
    using b(2) wf_new_BitBuilder(2) [of 1023] by (auto simp: appends_def new_Builder_def)
  then have "bb_length (bl_bits b) \<le> 1023" using length_bb_bits [OF bits(1)] assms(3) by simp
  with endCell_ok [OF assms(1) bits(1)] assms(4,5) b(3)
  obtain c where c: "Builder_endCell sha False b = Inr c" "cell_ok c" "cell_type c = Ordinary"
    "bs_bits (cell_bits c) = enc v" "cell_refs c = kids v"
    using bits(2) by auto
  obtain s where s: "Cell_beginParse c False = Inr s" "sl_ok s" "sl_bits s = enc v @ []"
    "sl_cells s = kids v @ []"
    using beginParse_ok [OF c(2)] c(3-5) by force
  from load_ok [OF assms(2) s(2-4)] endParse_ok sl_rest_split [OF s(2-4)] b(1) c s(1) show ?thesis
    by (simp add: sreads_def)
qed

text \<open>An optional value.\<close>

lemma maybe:
  "cell_codec (store_maybe store) (load_maybe load)
     (\<lambda>x. case x of None \<Rightarrow> [False] | Some v \<Rightarrow> True # enc v)
     (\<lambda>x. case x of None \<Rightarrow> [] | Some v \<Rightarrow> kids v)
     (\<lambda>x. case x of None \<Rightarrow> True | Some v \<Rightarrow> valid v)"
proof (unfold_locales, goal_cases)
  case (1 x b)
  show ?case
  proof (cases x)
    case None
    with 1 storeBit_stores [of b 0 "BitNum 0"] show ?thesis by (simp add: store_maybe_def)
  next
    case (Some v)
    have "stores (bindE (Builder_storeBit (BitNum 1) b) (store v)) b ([True] @ enc v) ([] @ kids v)"
      using 1 Some storeBit_stores [of _ _ "BitNum 1"] store_ok by (intro stores_bind) auto
    with Some show ?thesis by (simp add: store_maybe_def)
  qed
next
  case (2 x s ys ts)
  show ?case
  proof (cases x)
    case None
    with 2 loadBit_reads [of s False ys] show ?thesis by (simp add: sreads_def load_maybe_def)
  next
    case (Some v)
    have "load_maybe load s = Inr (Some v, sl_move (length [True] + length (enc v)) (length ([]::cell list) + length (kids v)) s)"
      unfolding load_maybe_def
    proof (rule sreads_bind)
      show "sreads (lift_load BitReader_loadBit) s True (length [True]) (length [])"
        using loadBit_reads [of s True] 2 Some by simp
      fix s' assume "sl_ok s'" "sl_bits s' = enc v @ ys" "sl_cells s' = kids v @ ts"
      with load_ok [of v s'] 2(1) Some
      show "(case (True, s') of (b, s) \<Rightarrow> if b then bindE (load s) (\<lambda>(v, s). Inr (Some v, s)) else Inr (None, s)) =
          Inr (Some v, sl_move (length (enc v)) (length (kids v)) s')"
        by (simp add: sreads_def)
    qed (use 2 Some in auto)
    with Some show ?thesis by (simp add: sreads_def)
  qed
qed

end

text \<open>A codec of bits is a codec of cells without references.\<close>

sublocale bit_codec \<subseteq> cell: cell_codec "\<lambda>v. lift_write (put v)" "lift_load get" enc "\<lambda>_. []" valid
proof (unfold_locales, goal_cases)
  case (1 v b)
  then show ?case by (auto simp: bl_fits_def intro!: lift_write_stores put_ok)
next
  case (2 v s ys ts)
  then show ?case by (auto simp: sl_ok_def sl_bits_def intro!: lift_load_reads get_ok)
qed

text \<open>Two values in sequence.\<close>

lemma codec_pair:
  assumes c1: "cell_codec store1 load1 enc1 kids1 valid1" and c2: "cell_codec store2 load2 enc2 kids2 valid2"
  shows "cell_codec (\<lambda>(x, y) b. bindE (store1 x b) (store2 y))
     (\<lambda>s. bindE (load1 s) (\<lambda>(x, s). bindE (load2 s) (\<lambda>(y, s). Inr ((x, y), s))))
     (\<lambda>(x, y). enc1 x @ enc2 y) (\<lambda>(x, y). kids1 x @ kids2 y) (\<lambda>(x, y). valid1 x \<and> valid2 y)"
proof (unfold_locales, goal_cases)
  case (1 p b)
  then show ?case
    by (auto intro!: stores_bind cell_codec.store_ok [OF c1] cell_codec.store_ok [OF c2])
next
  case (2 p s ys ts)
  obtain x y where p: "p = (x, y)" by (cases p)
  have "bindE (load1 s) (\<lambda>(x, s). bindE (load2 s) (\<lambda>(y, s). Inr ((x, y), s))) =
      Inr ((x, y), sl_move (length (enc1 x) + length (enc2 y)) (length (kids1 x) + length (kids2 y)) s)"
  proof (rule sreads_bind)
    show "sl_ok s" "sl_bits s = enc1 x @ enc2 y @ ys" "sl_cells s = kids1 x @ kids2 y @ ts"
      using 2 p by simp_all
    then show "sreads load1 s x (length (enc1 x)) (length (kids1 x))"
      using 2 p by (auto intro: cell_codec.load_ok [OF c1])
    fix s' assume "sl_ok s'" "sl_bits s' = enc2 y @ ys" "sl_cells s' = kids2 y @ ts"
    with cell_codec.load_ok [OF c2, of y s'] 2(1) p
    show "(case (x, s') of (x, s) \<Rightarrow> bindE (load2 s) (\<lambda>(y, s). Inr ((x, y), s))) =
        Inr ((x, y), sl_move (length (enc2 y)) (length (kids2 y)) s')"
      by (simp add: sreads_def)
  qed
  with p show ?case by (simp add: sreads_def)
qed

end
