(* ===== verification/Store_Load.thy ===== *)
theory Store_Load
  imports Cell_Codec
begin

text \<open>
  The stores of Builder.ts and the loads of Slice.ts that undo them, as instances of the cell
  contract; the snake encoding of text and its inverse.
\<close>

section \<open>The codecs of builders and slices\<close>

interpretation s_bit: cell_codec "\<lambda>v. Builder_storeBit (BitBool v)" Slice_loadBit "\<lambda>v. [v]" "\<lambda>_. []" "\<lambda>_. True"
  unfolding Builder_storeBit_def Slice_loadBit_def by (rule bit_c.cell.cell_codec_axioms)

interpretation s_uint: cell_codec "\<lambda>v. Builder_storeUint (Big v) (int n)" "Slice_loadUintBig (int n)"
  "bits_be n" "\<lambda>_. []" "\<lambda>v. 0 \<le> v \<and> v < 2 ^ n" for n
  unfolding Builder_storeUint_def Slice_loadUintBig_def by (rule uint_c.cell.cell_codec_axioms)

interpretation s_int: cell_codec "\<lambda>v. Builder_storeInt (Big v) (int n)" "Slice_loadIntBig (int n)"
  "bits_be n" "\<lambda>_. []" "\<lambda>v. 0 < n \<and> int_range n v" for n
  unfolding Builder_storeInt_def Slice_loadIntBig_def by (rule int_c.cell.cell_codec_axioms)

interpretation s_var_uint: cell_codec "\<lambda>v. Builder_storeVarUint (Big v) (int n)" "Slice_loadVarUintBig (int n)"
  "enc_var_uint n" "\<lambda>_. []" "\<lambda>v. 0 \<le> v \<and> int (size_bytes v) < 2 ^ n" for n
  unfolding Builder_storeVarUint_def Slice_loadVarUintBig_def by (rule var_uint_c.cell.cell_codec_axioms)

interpretation s_var_int: cell_codec "\<lambda>v. Builder_storeVarInt (Big v) (int n)" "Slice_loadVarIntBig (int n)"
  "enc_var_int n" "\<lambda>_. []" "\<lambda>v. int (Suc (size_bytes v)) < 2 ^ n" for n
  unfolding Builder_storeVarInt_def Slice_loadVarIntBig_def by (rule var_int_c.cell.cell_codec_axioms)

interpretation s_coins: cell_codec "\<lambda>v. Builder_storeCoins (Big v)" Slice_loadCoins
  "enc_var_uint 4" "\<lambda>_. []" valid_coins
  unfolding Builder_storeCoins_def Slice_loadCoins_def by (rule coins_c.cell.cell_codec_axioms)

interpretation s_address: cell_codec "\<lambda>a. Builder_storeAddress (Some (Internal a))" Slice_loadAddress
  enc_std_address "\<lambda>_. []" valid_std
  unfolding Builder_storeAddress_def Slice_loadAddress_def by (rule address_c.cell.cell_codec_axioms)

interpretation s_any_address: cell_codec Builder_storeAddress Slice_loadAddressAny
  enc_address "\<lambda>_. []" valid_address
  unfolding Builder_storeAddress_def [abs_def] Slice_loadAddressAny_def
  by (rule any_address_c.cell.cell_codec_axioms)

lemma storeBuffer_lift: "Builder_storeBuffer w None = lift_write (BitBuilder_writeBuffer w)"
  by (rule ext) (simp add: Builder_storeBuffer_def)

interpretation s_buffer: cell_codec "\<lambda>w. Builder_storeBuffer w None" "Slice_loadBuffer (int n)"
  buf_bits "\<lambda>_. []" "\<lambda>w. length w = n" for n
  unfolding storeBuffer_lift Slice_loadBuffer_def by (rule buffer_c.cell.cell_codec_axioms)

lemma storeRef_stores:
  assumes "bl_fits b 0 1"
  shows "stores (Builder_storeRef sha (ACell c) b) b [] [c]"
  using assms by (auto simp: stores_def bl_fits_def fits_def Builder_storeRef.simps)

lemma loadRef_reads:
  assumes "sl_ok s" "sl_cells s = c # ts"
  shows "sreads Slice_loadRef s c 0 1"
proof -
  have "sl_refsOffset s < length (sl_refs s)"
    using arg_cong [OF assms(2), of length] by (simp add: sl_cells_def)
  moreover from this have "sl_refs s ! sl_refsOffset s = c"
    using assms(2) by (simp add: sl_cells_def Cons_nth_drop_Suc [symmetric])
  ultimately show ?thesis by (simp add: sreads_def Slice_loadRef_def sl_move_def)
qed

interpretation s_ref: cell_codec "\<lambda>c. Builder_storeRef sha (ACell c)" Slice_loadRef
  "\<lambda>_. []" "\<lambda>c. [c]" "\<lambda>_. True" for sha
proof (unfold_locales, goal_cases)
  case (1 v b)
  then show ?case using storeRef_stores by simp
next
  case (2 v s ys ts)
  then show ?case using loadRef_reads by simp
qed

text \<open>The optional stores are the \<open>maybe\<close> construction on them.\<close>

lemma store_maybe_map: "store_maybe (\<lambda>v. f (g v)) x = store_maybe f (map_option g x)"
  by (rule ext) (cases x; simp add: store_maybe_def)

interpretation s_maybe_uint: cell_codec "\<lambda>x. Builder_storeMaybeUint (map_option Big x) (int n)"
  "Slice_loadMaybeUintBig (int n)" "\<lambda>x. case x of None \<Rightarrow> [False] | Some v \<Rightarrow> True # bits_be n v"
  "\<lambda>x. case x of None \<Rightarrow> [] | Some v \<Rightarrow> []" "\<lambda>x. case x of None \<Rightarrow> True | Some v \<Rightarrow> 0 \<le> v \<and> v < 2 ^ n" for n
  using s_uint.maybe [of n]
  unfolding Builder_storeMaybeUint_def Slice_loadMaybeUintBig_def store_maybe_map [of "\<lambda>v. Builder_storeUint v (int n)" Big] .

interpretation s_maybe_coins: cell_codec "\<lambda>x. Builder_storeMaybeCoins (map_option Big x)"
  Slice_loadMaybeCoins "\<lambda>x. case x of None \<Rightarrow> [False] | Some v \<Rightarrow> True # enc_var_uint 4 v"
  "\<lambda>x. case x of None \<Rightarrow> [] | Some v \<Rightarrow> []" "\<lambda>x. case x of None \<Rightarrow> True | Some v \<Rightarrow> valid_coins v"
  using s_coins.maybe
  unfolding Builder_storeMaybeCoins_def Slice_loadMaybeCoins_def store_maybe_map [of Builder_storeCoins Big] .

interpretation s_maybe_ref: cell_codec "\<lambda>x. Builder_storeMaybeRef sha (map_option ACell x)"
  Slice_loadMaybeRef "\<lambda>x. case x of None \<Rightarrow> [False] | Some v \<Rightarrow> [True]"
  "\<lambda>x. case x of None \<Rightarrow> [] | Some v \<Rightarrow> [v]" "\<lambda>x. case x of None \<Rightarrow> True | Some v \<Rightarrow> True" for sha
  using s_ref.maybe [of sha]
  unfolding Builder_storeMaybeRef_def Slice_loadMaybeRef_def store_maybe_map [of "Builder_storeRef sha" ACell] .

section \<open>Copying slices\<close>

text \<open>\<open>storeSlice\<close> appends exactly the bits and references that are left in the slice.\<close>

lemma foldE_storeRef:
  assumes "bl_fits b 0 (length rs)"
  shows "stores (foldE (\<lambda>r. Builder_storeRef sha (ACell r)) rs b) b [] rs"
  using assms
proof (induction rs arbitrary: b)
  case Nil
  then show ?case by (simp add: stores_refl)
next
  case (Cons r rs)
  have "stores (bindE (Builder_storeRef sha (ACell r) b) (foldE (\<lambda>r. Builder_storeRef sha (ACell r)) rs)) b
      ([] @ []) ([r] @ rs)"
  proof (rule stores_bind)
    show "stores (Builder_storeRef sha (ACell r) b) b [] [r]" if "bl_fits b (length []) (length [r])"
      using that storeRef_stores by simp
    show "stores (foldE (\<lambda>r. Builder_storeRef sha (ACell r)) rs b') b' [] rs"
      if "bl_fits b' (length []) (length rs)" for b' using that Cons.IH by simp
  qed (use Cons.prems in simp)
  then show ?case by simp
qed

lemma storeSlice_ok:
  assumes "sl_ok s" "bl_fits b (length (sl_bits s)) (length (sl_cells s))"
  shows "stores (Builder_storeSlice sha s b) b (sl_bits s) (sl_cells s)"
proof -
  let ?c = "Slice_clone False s"
  have c: "sl_ok ?c" "sl_bits ?c = sl_bits s" "sl_cells ?c = sl_cells s"
    "sl_refs ?c = sl_refs s" "sl_refsOffset ?c = sl_refsOffset s"
    using assms(1) by (auto simp: Slice_clone_def new_Slice_def BitReader_clone_def new_BitReader_def
        sl_ok_def sl_bits_def sl_cells_def rd_ok_def rd_rest_def)
  have rem: "Slice_remainingBits ?c = int (length (sl_bits s))"
    using length_rd_rest [of "sl_reader ?c"] c by (simp add: Slice_remainingBits_def sl_ok_def sl_bits_def)
  have refs: "drop (sl_refsOffset ?c) (sl_refs ?c) = sl_cells s" using c by (simp add: sl_cells_def)
  let ?refs = "foldE (\<lambda>r. Builder_storeRef sha (ACell r)) (sl_cells s)"
  show ?thesis
  proof (cases "sl_bits s = []")
    case True
    then show ?thesis
      using assms(2) refs rem foldE_storeRef [of b "sl_cells s" sha] by (simp add: Builder_storeSlice_def Let_def)
  next
    case False
    from loadBits_ok [of "sl_reader ?c" "length (sl_bits s)"] c obtain t where t:
      "BitReader_loadBits (int (length (sl_bits s))) (sl_reader ?c) =
        Inr (t, rd_move (int (length (sl_bits s))) (sl_reader ?c))" "bs_bits t = sl_bits s"
      by (auto simp: sl_ok_def sl_bits_def)
    have "Builder_storeSlice sha s b = bindE (Builder_storeBits t b) ?refs"
      using False t rem refs
      by (simp add: Builder_storeSlice_def Let_def Slice_loadBits_def lift_load_def bindE_assoc)
    moreover have "stores (bindE (Builder_storeBits t b) ?refs) b (sl_bits s @ []) ([] @ sl_cells s)"
    proof (rule stores_bind)
      show "stores (Builder_storeBits t b) b (sl_bits s) []" if "bl_fits b (length (sl_bits s)) (length [])"
        using that t(2) writes_bits [of "bl_bits b" t] length_bs_bits [of t]
        by (auto simp: Builder_storeBits_def bl_fits_def intro!: lift_write_stores)
      show "stores (?refs b') b' [] (sl_cells s)" if "bl_fits b' (length []) (length (sl_cells s))" for b'
        using that foldE_storeRef by simp
    qed (use assms(2) in simp)
    ultimately show ?thesis by simp
  qed
qed

section \<open>Text\<close>

text \<open>\<open>snake t rs\<close>: the references \<open>rs\<close> hold the tail \<open>t\<close> of a text.\<close>

inductive snake :: "buffer \<Rightarrow> cell list \<Rightarrow> bool" where
  snake_end: "snake [] []"
| snake_more: "cell_ok c \<Longrightarrow> cell_type c = Ordinary \<Longrightarrow> bs_bits (cell_bits c) = buf_bits a \<Longrightarrow>
     snake t (cell_refs c) \<Longrightarrow> snake (a @ t) [c]"

lemma snake_refs: "snake t rs \<Longrightarrow> length rs \<le> 1 \<and> (\<forall>r \<in> set rs. cell_ok r)"
  by (induction rule: snake.induct) auto

lemma readBytes_ok:
  assumes "sl_ok s" "sl_bits s = buf_bits a" "length (sl_cells s) \<le> 1"
  shows "strings_readBytes s = Inr (a, sl_move (8 * length a) 0 s)"
proof -
  have rem: "Slice_remainingBits s = int (8 * length a)"
    using assms length_rd_rest [of "sl_reader s"] by (simp add: Slice_remainingBits_def sl_ok_def sl_bits_def)
  have refs: "Slice_remainingRefs s = int (length (sl_cells s))"
    using assms(1) by (simp add: Slice_remainingRefs_def sl_cells_def sl_ok_def of_nat_diff)
  show ?thesis
  proof (cases "a = []")
    case True
    with rem refs assms(3) show ?thesis by (auto simp: strings_readBytes_def js_rem_def le_Suc_eq)
  next
    case False
    from s_buffer.load_ok [of a "length a" s "[]" "sl_cells s"] assms
    have "Slice_loadBuffer (int (length a)) s = Inr (a, sl_move (8 * length a) 0 s)"
      by (simp add: sreads_def)
    with False rem refs assms(3) show ?thesis
      by (auto simp: strings_readBytes_def js_rem_nonneg le_Suc_eq)
  qed
qed

text \<open>Reading follows the snake to its end.\<close>

lemma readBuffer_snake:
  assumes "snake t rs" "sl_ok s" "sl_bits s = buf_bits a" "sl_cells s = rs"
  shows "strings_readBuffer s = Inr (a @ t, sl_move (8 * length a) (length rs) s)"
  using assms
proof (induction arbitrary: s a rule: snake.induct)
  case snake_end
  then have "Slice_remainingRefs (sl_move (8 * length a) 0 s) = 0"
    by (simp add: Slice_remainingRefs_def sl_move_def sl_cells_def sl_ok_def)
  with readBytes_ok [of s a] snake_end show ?case by (simp add: strings_readBuffer.simps [of s])
next
  case (snake_more c b t)
  let ?s = "sl_move (8 * length a) 0 s"
  have s1: "sl_ok ?s" "sl_cells ?s = [c]"
    using sl_rest_split [of s "buf_bits a" "[]" "[]" "[c]"] snake_more.prems by simp_all
  have ref: "Slice_loadRef ?s = Inr (c, sl_move (8 * length a) 1 s)"
    using loadRef_reads [OF s1] by (simp add: sreads_def)
  have rem: "Slice_remainingRefs ?s = 1"
  proof -
    have "length (sl_refs ?s) - sl_refsOffset ?s = 1"
      using arg_cong [OF s1(2), of length] by (simp add: sl_cells_def)
    then show ?thesis unfolding Slice_remainingRefs_def by linarith
  qed
  obtain cs where cs: "Cell_beginParse c False = Inr cs" "sl_ok cs" "sl_bits cs = buf_bits b"
    "sl_cells cs = cell_refs c"
    using beginParse_ok [of c False] snake_more.hyps by auto
  have bytes: "strings_readBytes s = Inr (a, ?s)"
    using readBytes_ok [of s a] snake_more.prems by simp
  show ?case
    unfolding strings_readBuffer.simps [of s] bytes
    using snake_more.IH [OF cs(2-4)] by (simp add: rem ref cs(1))
qed

lemma new_Builder_available: "Builder_availableBits new_Builder = 1023"
  by (simp add: Builder_availableBits_def Builder_bits_def new_Builder_def new_BitBuilder_def)

lemma new_Builder_facts:
  "bl_fits new_Builder 0 1" "bb_cap (bl_bits new_Builder) = 1024"
  "bb_length (bl_bits new_Builder) = 0" "wf_bb (bl_bits new_Builder)"
  using new_Builder_fits [of 0 1]
  by (simp_all add: new_Builder_def new_BitBuilder_def bb_cap_def bl_fits_def fits_def ceil8_def)

text \<open>Writing a text into a builder of at most 1023 bits appends a prefix of it and a snake.\<close>

lemma writeBuffer_snake:
  assumes "sha_ok sha" "bl_fits b 0 1" "bb_cap (bl_bits b) = 1024" "bb_length (bl_bits b) \<le> 1023"
  shows "\<exists>a t rs. src = a @ t \<and> snake t rs \<and> stores (strings_writeBuffer sha src b) b (buf_bits a) rs \<and>
    bb_length (bl_bits b) + 8 * length a \<le> 1023"
  using assms
proof (induction sha src b rule: strings_writeBuffer.induct)
  case (1 sha src b)
  note prems = 1(2-5)
  have fits: "bl_fits b (8 * k) 1" if "bb_length (bl_bits b) + 8 * k \<le> 1023" for k
    using prems(2,3) that by (simp add: bl_fits_def fits_def)
  have store: "stores (Builder_storeBuffer a None b) b (buf_bits a) []"
    if "bb_length (bl_bits b) + 8 * length a \<le> 1023" for a
    using s_buffer.store_ok [of a "length a" b] bl_fits_mono [OF fits [OF that]] by simp
  define k where "k = (1023 - bb_length (bl_bits b)) div 8"
  have avail: "Builder_availableBits b div 8 = int k"
    using prems(4) by (simp add: Builder_availableBits_def Builder_bits_def k_def zdiv_int of_nat_diff)
  have k: "bb_length (bl_bits b) + 8 * k \<le> 1023"
    using prems(4) unfolding k_def by linarith
  consider "src = []" | "src \<noteq> []" "length src \<le> k" | "k < length src" by linarith
  then show ?case
  proof cases
    case 1
    then show ?thesis
      using snake_end stores_refl [OF prems(2)] prems(4) by (auto simp: strings_writeBuffer.simps)
  next
    case 2
    then have eq: "strings_writeBuffer sha src b = Builder_storeBuffer src None b"
      using avail by (simp add: strings_writeBuffer.simps [of sha src b])
    have "bb_length (bl_bits b) + 8 * length src \<le> 1023" using 2 k by linarith
    with store [OF this] eq snake_end show ?thesis by (intro exI [of _ src] exI [of _ "[]"]) simp
  next
    case 3
    let ?a = "take k src" and ?t = "drop k src"
    have sub: "buf_subarray src 0 (int k) = ?a" "buf_subarray src (int k) (int (length src)) = ?t"
      using 3 buf_subarray_inside [of 0 k src] buf_subarray_inside [of k "length src" src] by simp_all
    have la: "length ?a = k" using 3 by simp
    note new = new_Builder_facts
    from store [of ?a] k la obtain b1 where b1: "Builder_storeBuffer ?a None b = Inr b1"
      by (auto simp: stores_def)
    have "\<exists>a t rs. ?t = a @ t \<and> snake t rs \<and>
        stores (strings_writeBuffer sha ?t new_Builder) new_Builder (buf_bits a) rs \<and>
        bb_length (bl_bits new_Builder) + 8 * length a \<le> 1023"
    proof (rule "1.IH" [of "int k" ?a ?t b1])
      show "0 < length src" "int k = Builder_availableBits b div 8" "int k < int (length src)"
        using 3 avail by auto
    qed (use sub b1 prems(1) new in auto)
    then obtain a' t' rs' bb where IH: "?t = a' @ t'" "snake t' rs'" "8 * length a' \<le> 1023"
      "strings_writeBuffer sha ?t new_Builder = Inr bb" "bl_refs bb = rs'"
      "appends (bl_bits new_Builder) (bl_bits bb) (buf_bits a')"
      unfolding new(3) by (auto simp: stores_def new_Builder_def)
    have bb: "wf_bb (bl_bits bb)" "bb_bits (bl_bits bb) = buf_bits a'" "bb_length (bl_bits bb) = 8 * length a'"
      using IH(6) appends_length [OF new(4) IH(6)] wf_new_BitBuilder(2) [of 1023] new(3)
      by (auto simp: appends_def new_Builder_def)
    obtain c where c: "Builder_endCell sha False bb = Inr c" "cell_ok c" "cell_type c = Ordinary"
      "bs_bits (cell_bits c) = buf_bits a'" "cell_refs c = rs'"
      using endCell_ok [OF prems(1) bb(1)] bb(2,3) IH(3,5) snake_refs [OF IH(2)] by force
    have snake: "snake ?t [c]"
      unfolding IH(1) using c IH(2) by (intro snake_more) auto
    have eq: "strings_writeBuffer sha src b = bindE (Builder_storeBuffer ?a None b) (Builder_storeRef sha (ACell c))"
      using 3 avail sub IH(4) c(1)
      by (cases "src = []") (simp_all add: strings_writeBuffer.simps [of sha src b] Let_def)
    have "stores (bindE (Builder_storeBuffer ?a None b) (Builder_storeRef sha (ACell c))) b (buf_bits ?a @ []) ([] @ [c])"
    proof (rule stores_bind)
      show "bl_fits b (length (buf_bits ?a) + length []) (length [] + length [c])"
        using fits [OF k] la by simp
      show "stores (Builder_storeRef sha (ACell c) b') b' [] [c]" if "bl_fits b' (length []) (length [c])" for b'
        using that storeRef_stores by simp
    qed (use store [of ?a] k la in simp)
    with eq snake k la show ?thesis
      by (intro exI [of _ ?a] exI [of _ ?t] exI [of _ "[c]"]) simp
  qed
qed

text \<open>Text written at the start of a cell is read back in full, whatever its length.\<close>

lemma string_roundtrip:
  assumes "sha_ok sha"
  shows "\<exists>c s s'. strings_stringToCell sha src = Inr c \<and> Cell_beginParse c False = Inr s \<and>
    strings_readString s = Inr (src, s') \<and> Slice_endParse s' = Inr ()"
proof -
  note new = new_Builder_facts
  obtain a t rs b where w: "src = a @ t" "snake t rs" "8 * length a \<le> 1023"
    "strings_writeBuffer sha src new_Builder = Inr b" "bl_refs b = rs"
    "appends (bl_bits new_Builder) (bl_bits b) (buf_bits a)"
    using writeBuffer_snake [OF assms new(1,2), of src] new(3) by (auto simp: stores_def new_Builder_def)
  have b: "wf_bb (bl_bits b)" "bb_bits (bl_bits b) = buf_bits a" "bb_length (bl_bits b) = 8 * length a"
    using w(6) appends_length [OF new(4) w(6)] wf_new_BitBuilder(2) [of 1023] new(3)
    by (auto simp: appends_def new_Builder_def)
  obtain c where c: "Builder_endCell sha False b = Inr c" "cell_ok c" "cell_type c = Ordinary"
    "bs_bits (cell_bits c) = buf_bits a" "cell_refs c = rs"
    using endCell_ok [OF assms b(1)] b(2,3) w(3,5) snake_refs [OF w(2)] by force
  obtain s where s: "Cell_beginParse c False = Inr s" "sl_ok s" "sl_bits s = buf_bits a" "sl_cells s = rs"
    using beginParse_ok [OF c(2), of False] c(3-5) by auto
  have "Slice_endParse (sl_move (8 * length a) (length rs) s) = Inr ()"
    using sl_rest_split [of s "buf_bits a" "[]" rs "[]"] s by (intro endParse_ok) simp_all
  with readBuffer_snake [OF w(2) s(2-4)] s(1) c(1) w(1,4) show ?thesis
    by (auto simp: strings_stringToCell_def strings_readString_def)
qed

end
