(* ===== verification/Codec_Steps.thy ===== *)
theory Codec_Steps
  imports Store_Load
begin

text \<open>
  Round trips of compound values. \<open>rt f g v n k\<close> says that the writer \<open>f\<close> succeeds wherever \<open>n\<close>
  bits and \<open>k\<close> references fit, takes no more than that, and that the reader \<open>g\<close> run on what it
  wrote, followed by anything, returns \<open>v\<close> and stops right behind. A sequence of writes against
  a sequence of reads is proved by one application of \<open>rt_bind\<close> per field; the collection
  \<open>rt_intros\<close> holds the rules of the fields.
\<close>

named_theorems rt_intros \<open>round trips of the single stores and loads\<close>

definition loads :: "'a sload \<Rightarrow> bool list \<Rightarrow> cell list \<Rightarrow> 'a \<Rightarrow> bool" where
  "loads g xs rs v \<longleftrightarrow> (\<forall>s ys ts. sl_ok s \<and> sl_bits s = xs @ ys \<and> sl_cells s = rs @ ts \<longrightarrow>
     g s = Inr (v, sl_move (length xs) (length rs) s))"

definition rt :: "(builder \<Rightarrow> builder res) \<Rightarrow> 'a sload \<Rightarrow> 'a \<Rightarrow> nat \<Rightarrow> nat \<Rightarrow> bool" where
  "rt f g v n k \<longleftrightarrow> (\<forall>b. bl_fits b n k \<longrightarrow>
     (\<exists>xs rs. length xs \<le> n \<and> length rs \<le> k \<and> (\<forall>r \<in> set rs. cell_ok r) \<and>
        stores (f b) b xs rs \<and> loads g xs rs v))"

text \<open>
  The last write and read of a cell: it may choose how much it writes, up to the 1023 bits and
  four references of a cell, and may read all that is left; \<open>P\<close> is what is known of the value.
\<close>

definition ends_ok :: "builder \<Rightarrow> nat \<Rightarrow> bool list \<Rightarrow> cell list \<Rightarrow> bool" where
  "ends_ok b n xs rs \<longleftrightarrow> bb_length (bl_bits b) + length xs \<le> max 1023 (bb_length (bl_bits b) + n) \<and>
     length (bl_refs b) + length rs \<le> 4 \<and> (\<forall>r \<in> set rs. cell_ok r)"

definition end_fits :: "builder \<Rightarrow> nat \<Rightarrow> nat \<Rightarrow> bool" where
  "end_fits b n k \<longleftrightarrow> bl_fits b n k \<and> 1023 \<le> bb_cap (bl_bits b)"

definition rt_end :: "(builder \<Rightarrow> builder res) \<Rightarrow> 'a sload \<Rightarrow> ('a \<Rightarrow> bool) \<Rightarrow> nat \<Rightarrow> nat \<Rightarrow> bool" where
  "rt_end f g P n k \<longleftrightarrow> (\<forall>b. end_fits b n k \<longrightarrow>
     (\<exists>xs rs. ends_ok b n xs rs \<and> stores (f b) b xs rs \<and>
        (\<forall>s. sl_ok s \<and> sl_bits s = xs \<and> sl_cells s = rs \<longrightarrow> (\<exists>v s'. g s = Inr (v, s') \<and> P v))))"

lemma loads_bind:
  assumes "loads g xs rs v" "loads (h v) ys ts w"
  shows "loads (\<lambda>s. bindE (g s) (\<lambda>(v, s). h v s)) (xs @ ys) (rs @ ts) w"
  unfolding loads_def
proof (intro allI impI, elim conjE)
  fix s zs us
  assume s: "sl_ok s" "sl_bits s = (xs @ ys) @ zs" "sl_cells s = (rs @ ts) @ us"
  then have "g s = Inr (v, sl_move (length xs) (length rs) s)"
    using assms(1) by (simp add: loads_def)
  moreover have "h v (sl_move (length xs) (length rs) s) =
      Inr (w, sl_move (length ys) (length ts) (sl_move (length xs) (length rs) s))"
    using assms(2) sl_rest_split [of s xs "ys @ zs" rs "ts @ us"] s by (simp add: loads_def)
  ultimately show "bindE (g s) (\<lambda>(v, s). h v s) =
      Inr (w, sl_move (length (xs @ ys)) (length (rs @ ts)) s)" by simp
qed

lemma stores_next:
  assumes "bl_fits b (n + m) (k + j)" "stores (f b) b xs rs" "length xs \<le> n" "length rs \<le> k"
  shows "\<exists>b'. f b = Inr b' \<and> bl_fits b' m j \<and> appends (bl_bits b) (bl_bits b') xs \<and> bl_refs b' = bl_refs b @ rs"
proof -
  obtain b' where b': "f b = Inr b'" "appends (bl_bits b) (bl_bits b') xs" "bl_refs b' = bl_refs b @ rs"
    using assms(2) by (auto simp: stores_def)
  have "bl_fits b (length xs + m) (length rs + j)"
    using assms(1) by (rule bl_fits_mono) (use assms(3,4) in auto)
  then have "bl_fits b' m j" using b' fits_appends by (auto simp: bl_fits_def)
  with b' show ?thesis by blast
qed

lemma stores_seq:
  assumes "f b = Inr b'" "appends (bl_bits b) (bl_bits b') xs" "bl_refs b' = bl_refs b @ rs"
    and "stores (g b') b' ys ts"
  shows "stores (bindE (f b) g) b (xs @ ys) (rs @ ts)"
  using assms by (auto simp: stores_def intro: appends_trans)

lemma rt_bind:
  assumes "rt f g v n k" "rt f' (h v) w m j"
  shows "rt (\<lambda>b. bindE (f b) f') (\<lambda>s. bindE (g s) (\<lambda>(v, s). h v s)) w (n + m) (k + j)"
  unfolding rt_def
proof (intro allI impI)
  fix b assume b: "bl_fits b (n + m) (k + j)"
  then have "bl_fits b n k" by (rule bl_fits_mono) auto
  with assms(1) obtain xs rs where x: "length xs \<le> n" "length rs \<le> k" "\<forall>r \<in> set rs. cell_ok r"
    "stores (f b) b xs rs" "loads g xs rs v" unfolding rt_def by blast
  obtain b' where b': "f b = Inr b'" "bl_fits b' m j" "appends (bl_bits b) (bl_bits b') xs"
    "bl_refs b' = bl_refs b @ rs" using stores_next [of b n m k j f, OF b x(4,1,2)] by blast
  with assms(2) obtain ys ts where y: "length ys \<le> m" "length ts \<le> j" "\<forall>r \<in> set ts. cell_ok r"
    "stores (f' b') b' ys ts" "loads (h v) ys ts w" unfolding rt_def by blast
  have "length (xs @ ys) \<le> n + m \<and> length (rs @ ts) \<le> k + j \<and> (\<forall>r \<in> set (rs @ ts). cell_ok r) \<and>
      stores (bindE (f b) f') b (xs @ ys) (rs @ ts) \<and>
      loads (\<lambda>s. bindE (g s) (\<lambda>(v, s). h v s)) (xs @ ys) (rs @ ts) w"
    using x y stores_seq [where f = f and g = f', OF b'(1,3,4) y(4)] loads_bind [of g xs rs v h ys ts w] by auto
  then show "\<exists>xs rs. length xs \<le> n + m \<and> length rs \<le> k + j \<and> (\<forall>r \<in> set rs. cell_ok r) \<and>
      stores (bindE (f b) f') b xs rs \<and> loads (\<lambda>s. bindE (g s) (\<lambda>(v, s). h v s)) xs rs w" by blast
qed

lemma appends_bb_length: "wf_bb b \<Longrightarrow> appends b b' xs \<Longrightarrow> bb_length b' = bb_length b + length xs"
  using length_bb_bits [of b] length_bb_bits [of b'] by (auto simp: appends_def)

lemma rt_end_bind:
  assumes "rt f g v n k" "rt_end f' (h v) P m j"
  shows "rt_end (\<lambda>b. bindE (f b) f') (\<lambda>s. bindE (g s) (\<lambda>(v, s). h v s)) P (n + m) (k + j)"
  unfolding rt_end_def
proof (intro allI impI)
  fix b assume fit: "end_fits b (n + m) (k + j)"
  then have b: "bl_fits b (n + m) (k + j)" by (simp add: end_fits_def)
  then have "bl_fits b n k" by (rule bl_fits_mono) auto
  with assms(1) obtain xs rs where x: "length xs \<le> n" "length rs \<le> k" "\<forall>r \<in> set rs. cell_ok r"
    "stores (f b) b xs rs" "loads g xs rs v" unfolding rt_def by blast
  obtain b' where b': "f b = Inr b'" "bl_fits b' m j" "appends (bl_bits b) (bl_bits b') xs"
    "bl_refs b' = bl_refs b @ rs" using stores_next [of b n m k j f, OF b x(4,1,2)] by blast
  then have "end_fits b' m j" using fit by (simp add: end_fits_def appends_def)
  with assms(2) obtain ys ts where y: "ends_ok b' m ys ts" "stores (f' b') b' ys ts"
    "\<forall>s. sl_ok s \<and> sl_bits s = ys \<and> sl_cells s = ts \<longrightarrow> (\<exists>v' s'. h v s = Inr (v', s') \<and> P v')"
    unfolding rt_end_def by blast
  have "bb_length (bl_bits b') = bb_length (bl_bits b) + length xs"
    using appends_bb_length [OF _ b'(3)] b by (simp add: bl_fits_def fits_def)
  then have ends: "ends_ok b (n + m) (xs @ ys) (rs @ ts)"
    using y(1) x(1,3) b'(4) by (auto simp: ends_ok_def)
  have "\<exists>w s'. bindE (g s) (\<lambda>(v, s). h v s) = Inr (w, s') \<and> P w"
    if s: "sl_ok s" "sl_bits s = xs @ ys" "sl_cells s = rs @ ts" for s
    using x(5) y(3) s sl_rest_split [OF s] by (simp add: loads_def)
  then show "\<exists>xs rs. ends_ok b (n + m) xs rs \<and> stores (bindE (f b) f') b xs rs \<and>
      (\<forall>s. sl_ok s \<and> sl_bits s = xs \<and> sl_cells s = rs \<longrightarrow>
        (\<exists>w s'. bindE (g s) (\<lambda>(v, s). h v s) = Inr (w, s') \<and> P w))"
    using ends stores_seq [where f = f and g = f', OF b'(1,3,4) y(2)]
    by (intro exI [of _ "xs @ ys"] exI [of _ "rs @ ts"]) auto
qed

lemma rtI:
  "(\<And>b. bl_fits b n k \<Longrightarrow> \<exists>xs rs. length xs \<le> n \<and> length rs \<le> k \<and> (\<forall>r \<in> set rs. cell_ok r) \<and>
     stores (f b) b xs rs \<and> loads g xs rs v) \<Longrightarrow> rt f g v n k"
  by (simp add: rt_def)

lemma rtE:
  assumes "rt f g v n k" "bl_fits b n k"
  obtains xs rs where "length xs \<le> n" "length rs \<le> k" "\<forall>r \<in> set rs. cell_ok r"
    "stores (f b) b xs rs" "loads g xs rs v"
  using assms unfolding rt_def by blast

lemma rt_le:
  assumes "rt f g v n k" "n \<le> m" "k \<le> j"
  shows "rt f g v m j"
proof (rule rtI)
  fix b assume "bl_fits b m j"
  then have "bl_fits b n k" by (rule bl_fits_mono) (use assms in auto)
  from rtE [OF assms(1) this] obtain xs rs where "length xs \<le> n" "length rs \<le> k" "\<forall>r \<in> set rs. cell_ok r"
    "stores (f b) b xs rs" "loads g xs rs v" .
  with assms(2,3) show "\<exists>xs rs. length xs \<le> m \<and> length rs \<le> j \<and> (\<forall>r \<in> set rs. cell_ok r) \<and>
     stores (f b) b xs rs \<and> loads g xs rs v" by (intro exI [of _ xs] exI [of _ rs]) simp
qed

lemma rt_end_le:
  assumes "rt_end f g P n k" "n \<le> m" "k \<le> j"
  shows "rt_end f g P m j"
  unfolding rt_end_def
proof (intro allI impI)
  fix b assume "end_fits b m j"
  then have "end_fits b n k" unfolding end_fits_def using bl_fits_mono assms(2,3) by blast
  with assms(1) obtain xs rs where "ends_ok b n xs rs" "stores (f b) b xs rs"
    "\<forall>s. sl_ok s \<and> sl_bits s = xs \<and> sl_cells s = rs \<longrightarrow> (\<exists>v s'. g s = Inr (v, s') \<and> P v)"
    unfolding rt_end_def by blast
  with assms(2) show "\<exists>xs rs. ends_ok b m xs rs \<and> stores (f b) b xs rs \<and>
     (\<forall>s. sl_ok s \<and> sl_bits s = xs \<and> sl_cells s = rs \<longrightarrow> (\<exists>v s'. g s = Inr (v, s') \<and> P v))"
    by (intro exI [of _ xs] exI [of _ rs]) (auto simp: ends_ok_def)
qed

lemma rt_return: "rt Inr (\<lambda>s. Inr (v, s)) v 0 0"
  unfolding rt_def by (auto simp: loads_def intro!: exI [of _ "[]"] stores_refl)

text \<open>A value that is put together at the end, without a write of its own.\<close>

lemma loads_map: "loads g xs rs v \<Longrightarrow> loads (\<lambda>s. bindE (g s) (\<lambda>(v, s). Inr (h v, s))) xs rs (h v)"
  by (auto simp: loads_def)

lemma rt_map: "rt f g v n k \<Longrightarrow> w = h v \<Longrightarrow> rt f (\<lambda>s. bindE (g s) (\<lambda>(v, s). Inr (h v, s))) w n k"
  by (rule rtI, erule (1) rtE) (blast intro: loads_map)

text \<open>Every codec of the cell contract gives a rule.\<close>

context cell_codec
begin

lemma rt_codec:
  assumes "valid v" "length (enc v) \<le> n" "length (kids v) \<le> k" "\<forall>r \<in> set (kids v). cell_ok r"
  shows "rt (store v) load v n k"
proof -
  have "loads load (enc v) (kids v) v"
    using load_ok [OF assms(1)] by (simp add: loads_def sreads_def)
  moreover have "bl_fits b (length (enc v)) (length (kids v))" if "bl_fits b n k" for b
    using that assms(2,3) by (rule bl_fits_mono)
  ultimately show ?thesis using assms store_ok [OF assms(1)] unfolding rt_def by blast
qed

end

text \<open>A whole cell: written into a fresh builder, finished, parsed and read to its end.\<close>

lemma new_Builder_cap: "1023 \<le> bb_cap (bl_bits new_Builder)"
  using wf_new_BitBuilder(3) [of 1023] by (simp add: new_Builder_def)

lemma rt_end_cell:
  assumes "rt_end f g P n k" "sha_ok sha" "n \<le> 1023" "k \<le> 4"
  shows "\<exists>b c s v s'. f new_Builder = Inr b \<and> Builder_endCell sha False b = Inr c \<and> cell_ok c \<and>
    cell_type c = Ordinary \<and> Cell_beginParse c False = Inr s \<and> g s = Inr (v, s') \<and> P v"
proof -
  obtain xs rs where x: "ends_ok new_Builder n xs rs" "stores (f new_Builder) new_Builder xs rs"
    "\<forall>s. sl_ok s \<and> sl_bits s = xs \<and> sl_cells s = rs \<longrightarrow> (\<exists>v s'. g s = Inr (v, s') \<and> P v)"
    using assms(1) new_Builder_fits [OF assms(3,4)] new_Builder_cap unfolding rt_end_def end_fits_def by blast
  then obtain b where b: "f new_Builder = Inr b" "appends (bl_bits new_Builder) (bl_bits b) xs"
    "bl_refs b = rs" by (auto simp: stores_def new_Builder_def)
  have bits: "wf_bb (bl_bits b)" "bb_bits (bl_bits b) = xs"
    using b(2) wf_new_BitBuilder(2) [of 1023] by (auto simp: appends_def new_Builder_def)
  have "bb_length (bl_bits new_Builder) = 0" "bl_refs new_Builder = []"
    by (simp_all add: new_Builder_def new_BitBuilder_def)
  with x(1) assms(3) have "bb_length (bl_bits b) \<le> 1023" "length rs \<le> 4" "\<forall>r \<in> set rs. cell_ok r"
    using length_bb_bits [OF bits(1)] bits(2) by (auto simp: ends_ok_def)
  with endCell_ok [OF assms(2) bits(1)] b(3) bits(2)
  obtain c where c: "Builder_endCell sha False b = Inr c" "cell_ok c" "cell_type c = Ordinary"
    "bs_bits (cell_bits c) = xs" "cell_refs c = rs" by auto
  obtain s where s: "Cell_beginParse c False = Inr s" "sl_ok s" "sl_bits s = xs" "sl_cells s = rs"
    using beginParse_ok [OF c(2)] c(3-5) by force
  with x(3) b(1) c show ?thesis by blast
qed

lemma bl_fits_ends: "bl_fits b n k \<Longrightarrow> length xs \<le> n \<Longrightarrow> length rs \<le> k \<Longrightarrow> \<forall>r \<in> set rs. cell_ok r \<Longrightarrow> ends_ok b n xs rs"
  by (auto simp: ends_ok_def bl_fits_def)

lemma rt_rt_end: "rt f g v n k \<Longrightarrow> rt_end f (\<lambda>s. bindE (g s) (\<lambda>(v, s). bindE (Slice_endParse s) (\<lambda>_. Inr (v, s)))) ((=) v) n k"
  unfolding rt_def rt_end_def
proof (intro allI impI)
  fix b
  assume "\<forall>b. bl_fits b n k \<longrightarrow> (\<exists>xs rs. length xs \<le> n \<and> length rs \<le> k \<and> (\<forall>r \<in> set rs. cell_ok r) \<and>
      stores (f b) b xs rs \<and> loads g xs rs v)" and "end_fits b n k"
  moreover from this have b: "bl_fits b n k" by (simp add: end_fits_def)
  ultimately obtain xs rs where x: "length xs \<le> n" "length rs \<le> k" "\<forall>r \<in> set rs. cell_ok r"
    "stores (f b) b xs rs" "loads g xs rs v" by blast
  have "Slice_endParse (sl_move (length xs) (length rs) s) = Inr () \<and> g s = Inr (v, sl_move (length xs) (length rs) s)"
    if s: "sl_ok s" "sl_bits s = xs" "sl_cells s = rs" for s
    using x(5) sl_rest_split [of s xs "[]" rs "[]"] s endParse_ok by (simp add: loads_def)
  with x bl_fits_ends [OF b x(1-3)] show "\<exists>xs rs. ends_ok b n xs rs \<and> stores (f b) b xs rs \<and>
     (\<forall>s. sl_ok s \<and> sl_bits s = xs \<and> sl_cells s = rs \<longrightarrow>
       (\<exists>w s'. bindE (g s) (\<lambda>(v, s). bindE (Slice_endParse s) (\<lambda>_. Inr (v, s))) = Inr (w, s') \<and> v = w))"
    by (intro exI [of _ xs] exI [of _ rs]) auto
qed

lemma rt_cell:
  assumes "rt f g v n k" "sha_ok sha" "n \<le> 1023" "k \<le> 4"
  shows "\<exists>b c s s'. f new_Builder = Inr b \<and> Builder_endCell sha False b = Inr c \<and> cell_ok c \<and>
    cell_type c = Ordinary \<and> Cell_beginParse c False = Inr s \<and> g s = Inr (v, s') \<and> Slice_endParse s' = Inr ()"
  using rt_end_cell [OF rt_rt_end [OF assms(1)] assms(2-4)] by fastforce

section \<open>Fields\<close>

text \<open>Numbers: \<open>storeUint\<close> of a Number is read by \<open>loadUint\<close>, which returns a Number.\<close>

interpretation s_num: cell_codec "\<lambda>v. Builder_storeUint (Num v) (int n)" "Slice_loadUint (int n)"
  "bits_be n" "\<lambda>_. []" "\<lambda>v. 0 \<le> v \<and> v < 2 ^ n \<and> v < 2 ^ 53" for n
proof (unfold_locales, goal_cases)
  case (1 v b)
  then show ?case unfolding Builder_storeUint_def
    by (auto simp: bl_fits_def intro!: lift_write_stores writes_uint)
next
  case (2 v s ys ts)
  then show ?case unfolding Slice_loadUint_def
    by (auto simp: sl_ok_def sl_bits_def reads_def intro!: lift_load_reads loadUint_ok)
qed

interpretation s_num_int: cell_codec "\<lambda>v. Builder_storeInt (Num v) (int n)" "Slice_loadInt (int n)"
  "bits_be n" "\<lambda>_. []" "\<lambda>v. 2 \<le> n \<and> int_range n v \<and> \<bar>v\<bar> < 2 ^ 53" for n
proof (unfold_locales, goal_cases)
  case (1 v b)
  then show ?case unfolding Builder_storeInt_def
    by (auto simp: bl_fits_def intro!: lift_write_stores writes_int)
next
  case (2 v s ys ts)
  then have "BitReader_loadIntBig (int n) (sl_reader s) = Inr (v, rd_move (int n) (sl_reader s))"
    by (intro loadIntBig_ok) (auto simp: sl_ok_def sl_bits_def)
  with 2 show ?case
    unfolding Slice_loadInt_def length_bits_be list.size
    by (intro lift_load_reads) (simp add: reads_def BitReader_loadInt_def BitReader_loadIntBig_def BitReader_preloadIntBig_def BitReader_preloadInt_def bindE_eq_Inr to_number_id)
qed

lemma rt_bit [rt_intros]: "rt (Builder_storeBit (BitBool v)) Slice_loadBit v 1 0"
  by (rule s_bit.rt_codec) auto

lemma rt_bit_num [rt_intros]:
  "rt (Builder_storeBit (BitNum 0)) Slice_loadBit False 1 0" "rt (Builder_storeBit (BitNum 1)) Slice_loadBit True 1 0"
proof -
  have "Builder_storeBit (BitNum 0) = Builder_storeBit (BitBool False)" "Builder_storeBit (BitNum 1) = Builder_storeBit (BitBool True)"
    by (auto simp: Builder_storeBit_def lift_write_def BitBuilder_writeBit_def Let_def fun_eq_iff)
  then show "rt (Builder_storeBit (BitNum 0)) Slice_loadBit False 1 0" "rt (Builder_storeBit (BitNum 1)) Slice_loadBit True 1 0"
    using rt_bit [of False] rt_bit [of True] by simp_all
qed

lemma rt_uint [rt_intros]:
  "0 \<le> v \<Longrightarrow> v < 2 ^ numeral n \<Longrightarrow> rt (Builder_storeUint (Big v) (numeral n)) (Slice_loadUintBig (numeral n)) v (numeral n) 0"
  using s_uint.rt_codec [of v "numeral n" "numeral n" 0] by simp

lemma rt_num [rt_intros]:
  "0 \<le> v \<Longrightarrow> v < 2 ^ numeral n \<Longrightarrow> v < 2 ^ 53 \<Longrightarrow>
    rt (Builder_storeUint (Num v) (numeral n)) (Slice_loadUint (numeral n)) v (numeral n) 0"
  using s_num.rt_codec [of v "numeral n" "numeral n" 0] by simp

lemma rt_int_num [rt_intros]:
  "int_range (numeral n) v \<Longrightarrow> 2 \<le> (numeral n :: nat) \<Longrightarrow> \<bar>v\<bar> < 2 ^ 53 \<Longrightarrow>
    rt (Builder_storeInt (Num v) (numeral n)) (Slice_loadInt (numeral n)) v (numeral n) 0"
  using s_num_int.rt_codec [of "numeral n" v "numeral n" 0] by simp

lemma rt_coins [rt_intros]:
  assumes "valid_coins v"
  shows "rt (Builder_storeCoins (Big v)) Slice_loadCoins v 124 0"
proof (rule s_coins.rt_codec)
  show "length (enc_var_uint 4 v) \<le> 124"
    using size_bytes_coins [OF assms] by (simp add: enc_var_uint_def)
qed (use assms in auto)

lemma enc_var_uint_le:
  assumes "size_bytes v < m"
  shows "length (enc_var_uint n v) \<le> n + 8 * (m - 1)"
proof -
  have "size_bytes v \<le> m - 1" using assms by linarith
  then have "8 * size_bytes v \<le> 8 * (m - 1)" by (rule mult_le_mono2)
  then show ?thesis by (simp add: enc_var_uint_def)
qed

lemma rt_var_uint_nat:
  assumes "0 \<le> v" "size_bytes v < 2 ^ n"
  shows "rt (Builder_storeVarUint (Big v) (int n)) (Slice_loadVarUintBig (int n)) v (n + 8 * (2 ^ n - 1)) 0"
proof (rule s_var_uint.rt_codec)
  show "length (enc_var_uint n v) \<le> n + 8 * (2 ^ n - 1)" using assms(2) by (rule enc_var_uint_le)
  have "int (size_bytes v) < int (2 ^ n)" using assms(2) by (simp only: of_nat_less_iff)
  then show "0 \<le> v \<and> int (size_bytes v) < 2 ^ n" using assms(1) by simp
qed simp_all

lemma rt_var_uint [rt_intros]:
  "0 \<le> v \<Longrightarrow> size_bytes v < 2 ^ numeral n \<Longrightarrow>
    rt (Builder_storeVarUint (Big v) (numeral n)) (Slice_loadVarUintBig (numeral n)) v
      (numeral n + 8 * (2 ^ numeral n - 1)) 0"
  using rt_var_uint_nat [of v "numeral n"] by simp

lemma rt_address [rt_intros]:
  "valid_std a \<Longrightarrow> rt (Builder_storeAddress (Some (Internal a))) Slice_loadAddress a 267 0"
  by (rule s_address.rt_codec) (auto simp: length_enc_std)

lemma rt_buffer [rt_intros]:
  "length w = numeral n \<Longrightarrow> rt (Builder_storeBuffer w None) (Slice_loadBuffer (numeral n)) w (8 * numeral n) 0"
  using s_buffer.rt_codec [of w "numeral n" "8 * numeral n" 0] by simp

lemma rt_ref [rt_intros]: "cell_ok c \<Longrightarrow> rt (Builder_storeRef sha (ACell c)) Slice_loadRef c 0 1"
  by (rule s_ref.rt_codec) auto

text \<open>An optional field; the code writes the bit of an absent or a present value in two ways.\<close>

lemma rt_maybe [rt_intros]:
  assumes "\<And>x. v = Some x \<Longrightarrow> rt (f x) g x n k"
  shows "rt (store_maybe f v) (load_maybe g) v (1 + n) k"
proof (cases v)
  case None
  have "rt (\<lambda>b. bindE (Builder_storeBit (BitNum 0) b) Inr)
      (\<lambda>s. bindE (Slice_loadBit s) (\<lambda>(b, s). if b then bindE (g s) (\<lambda>(v, s). Inr (Some v, s)) else Inr (None, s))) None (1 + 0) (0 + 0)"
    by (rule rt_bind [where v = False]) (use rt_bit_num rt_return in auto)
  moreover have "(\<lambda>b. bindE (Builder_storeBit (BitNum 0) b) Inr) = Builder_storeBit (BitNum 0)"
    by (rule ext) (simp add: bindE_def split: sum.splits)
  ultimately have "rt (store_maybe f v) (load_maybe g) v 1 0"
    using None by (simp add: store_maybe_def [abs_def] load_maybe_def [abs_def] Slice_loadBit_def)
  then show ?thesis by (rule rt_le) auto
next
  case (Some x)
  have "rt (\<lambda>b. bindE (Builder_storeBit (BitNum 1) b) (f x))
      (\<lambda>s. bindE (Slice_loadBit s) (\<lambda>(b, s). if b then bindE (g s) (\<lambda>(v, s). Inr (Some v, s)) else Inr (None, s)))
      (Some x) (1 + n) (0 + k)"
    by (rule rt_bind [where v = True]) (use rt_map [OF assms [OF Some], of "Some x" Some] rt_bit_num in auto)
  then show ?thesis
    using Some by (simp add: store_maybe_def [abs_def] load_maybe_def [abs_def] Slice_loadBit_def)
qed

lemma length_enc_any: "valid_address a \<Longrightarrow> length (enc_address a) \<le> 522"
  by (cases a rule: enc_address.cases) (auto simp: length_enc_std enc_ext_address_def valid_ext_def)

end
