(* ===== verification/Properties_Cells.thy ===== *)
theory Properties_Cells
  imports Topo_Sort Codec_Steps
begin

text \<open>
  The properties of cells: what the constructor guarantees, what hashes identify, what builders
  store and slices load, and the order in which the cells of a bag are laid out.
\<close>

section \<open>A digest for the witnesses\<close>

definition pad_hash :: "buffer \<Rightarrow> buffer" where
  "pad_hash w = take 32 (w @ replicate 32 0)"

lemma pad_hash_ok: "sha_ok pad_hash"
  by (simp add: sha_ok_def pad_hash_def min_def)

definition bytes_string :: "buffer \<Rightarrow> bit_string" where
  "bytes_string w = \<lparr>bs_data = w, bs_offset = 0, bs_length = 8 * length w\<rparr>"

lemma bytes_string_ok: "8 * length w < 2 ^ 31 \<Longrightarrow> wf_bs (bytes_string w)"
  by (auto simp: bytes_string_def wf_bs_def)

section \<open>The constructor\<close>

lemma resolved_mask:
  assumes "resolveExotic bits refs = Inr r"
  shows "\<exists>m p. wonder_mask (rs_type r) bits refs = Inr (m, p) \<and> rs_type r \<noteq> Ordinary"
  using assms
  by (auto simp: resolveExotic_def resolvePruned_def resolveLibrary_def resolveMerkleProof_def
      resolveMerkleUpdate_def split: if_splits)

lemma new_Cell_exotic_total:
  assumes "sha_ok sha" "\<forall>r \<in> set refs. cell_ok r" "wf_bs bits" "resolveExotic bits refs = Inr r"
  shows "\<exists>c. new_Cell sha True bits refs = Inr c"
proof -
  obtain m p where m: "wonder_mask (rs_type r) bits refs = Inr (m, p)" "rs_type r \<noteq> Ordinary"
    using resolved_mask [OF assms(4)] by blast
  with wonder_mask_result(2) [OF assms(2,3) m(1)] wonderCalculator_ok [OF assms(1-3) _ m(1)] assms(4)
  show ?thesis by (auto simp: new_Cell_def)
qed

text \<open>
  the constructor of \<open>Cell\<close> fails only where it checks its arguments: an ordinary cell is
  built exactly when it has at most four references and 1023 bits, an exotic one exactly
  when its content parses. The sanity checks of \<open>wonderCalculator\<close> never fire on cells the
  program can build.
\<close>

theorem new_Cell_succeeds:
  assumes "sha_ok sha" "\<forall>r \<in> set refs. built sha r" "wf_bs bits"
  shows "(\<exists>c. new_Cell sha exotic bits refs = Inr c) \<longleftrightarrow>
    (if exotic then \<exists>r. resolveExotic bits refs = Inr r else length refs \<le> 4 \<and> bs_length bits \<le> 1023)"
proof -
  have ok: "\<forall>r \<in> set refs. cell_ok r" using assms built_ok by blast
  show ?thesis
  proof (cases exotic)
    case True
    with new_Cell_exotic_total [OF assms(1) ok assms(3)] show ?thesis by (auto simp: new_Cell_def)
  next
    case False
    have "length refs \<le> 4 \<and> bs_length bits \<le> 1023" if "new_Cell sha False bits refs = Inr c" for c
      using that by (auto simp: new_Cell_def split: if_splits)
    with False new_Cell_total [OF assms(1) ok assms(3)] show ?thesis by auto
  qed
qed

theorem new_Cell_succeeds_witness:
  "(\<exists>c. new_Cell pad_hash False (bytes_string [1, 2]) [] = Inr c) \<and>
   (\<forall>c. new_Cell pad_hash False (bytes_string (replicate 128 0)) [] \<noteq> Inr c)"
  using new_Cell_succeeds [of pad_hash "[]" "bytes_string [1, 2]" False]
    new_Cell_succeeds [of pad_hash "[]" "bytes_string (replicate 128 0)" False]
    pad_hash_ok bytes_string_ok [of "[1, 2]"] bytes_string_ok [of "replicate 128 0"]
  by (simp add: bytes_string_def)

text \<open>
  C31: every cell the program can build carries four 32-byte hashes, four non-negative depths,
  a mask of three bits and at most 1023 bits, and at most four references unless it is a
  library cell; so do all cells below it.
\<close>

theorem built_cell_invariant:
  assumes "sha_ok sha" "built sha c" "a \<in> subcells c"
  shows "length (cell_hashes a) = 4 \<and> (\<forall>h \<in> set (cell_hashes a). length h = 32) \<and>
    length (cell_depths a) = 4 \<and> (\<forall>d \<in> set (cell_depths a). 0 \<le> d) \<and>
    0 \<le> LevelMask_value (cell_mask a) \<and> LevelMask_value (cell_mask a) < 8 \<and>
    0 \<le> Cell_level a \<and> Cell_level a \<le> 3 \<and> bs_length (cell_bits a) \<le> 1023 \<and>
    (cell_type a \<noteq> Library \<longrightarrow> length (cell_refs a) \<le> 4)"
proof -
  have "cell_ok a" using assms subcells_built built_ok by blast
  with wf_mask_level [of "cell_mask a"] show ?thesis
    by (auto simp: cell_ok_def wf_mask_def LevelMask_value_def Cell_level_def)
qed

theorem built_cell_invariant_witness:
  "\<exists>c. new_Cell pad_hash False (bytes_string [7]) [] = Inr c \<and> length (cell_hashes c) = 4"
proof -
  obtain c where c: "new_Cell pad_hash False (bytes_string [7]) [] = Inr c"
    using new_Cell_total [of pad_hash "[]" "bytes_string [7]"] pad_hash_ok bytes_string_ok [of "[7]"]
    by (auto simp: bytes_string_def)
  then have "built pad_hash c" by (intro built_new [of "[]"]) (simp_all add: bytes_string_ok)
  with c built_cell_invariant [OF pad_hash_ok, of c c] show ?thesis by simp
qed

text \<open>
  C30: the hash of an ordinary cell with ordinary descendants is, at every level, the digest of
  its representation (descriptors, padded bits, depths and hashes of the children), and its
  depth is the height of the tree.
\<close>

theorem plain_cell_hash:
  assumes "sha_ok sha" "plain sha c"
  shows "Cell_hash c l = sha (repr_of (int (length (cell_refs c))) (getBitsDescriptor (cell_bits c)) (cell_bits c)
      (map (\<lambda>r. Cell_depth r 3) (cell_refs c)) (map (\<lambda>r. Cell_hash r 3) (cell_refs c))) \<and>
    Cell_depth c l = (if cell_refs c = [] then 0 else 1 + Max (set (map (\<lambda>r. Cell_depth r 3) (cell_refs c))))"
  using plain_facts [OF assms] plain_ok_hash [of sha c l] by (simp add: repr_plain_def height_def)

lemma plain_leaf:
  assumes "wf_bs bits" "bs_length bits \<le> 1023"
  shows "\<exists>c. new_Cell pad_hash False bits [] = Inr c \<and> plain pad_hash c \<and> cell_bits c = bits \<and> cell_refs c = []"
proof -
  obtain c where c: "new_Cell pad_hash False bits [] = Inr c" "cell_bits c = bits" "cell_refs c = []"
    using new_Cell_total [of pad_hash "[]" bits] pad_hash_ok assms by auto
  with assms(1) show ?thesis by (auto intro: plain_new [of "[]"])
qed

theorem plain_cell_hash_witness:
  "\<exists>c. new_Cell pad_hash False (bytes_string [7]) [] = Inr c \<and> Cell_hash c 0 = pad_hash [0, 2, 7] \<and> Cell_depth c 0 = 0"
proof -
  obtain c where c: "new_Cell pad_hash False (bytes_string [7]) [] = Inr c" "plain pad_hash c"
    "cell_bits c = bytes_string [7]" "cell_refs c = []"
    using plain_leaf [of "bytes_string [7]"] bytes_string_ok [of "[7]"] by (auto simp: bytes_string_def)
  have "repr_of 0 (getBitsDescriptor (bytes_string [7])) (bytes_string [7]) [] [] = [0, 2, 7]"
    by code_simp
  with c plain_cell_hash [OF pad_hash_ok c(2), of 0] show ?thesis by simp
qed

text \<open>
  C26: ordinary cells with the same hash (the comparison of \<open>Cell.equals\<close>) are the same tree of
  bits, unless the digest collides on the representations of the cells at hand.
\<close>

theorem equal_cells_same_tree:
  assumes "sha_ok sha" "plain sha a" "plain sha b" "inj_on sha (reprs a \<union> reprs b)"
  shows "Cell_equals a b \<longleftrightarrow> cell_tree a = cell_tree b"
proof
  show "cell_tree a = cell_tree b" if "Cell_equals a b"
    using hash_determines_tree [OF assms] that by (simp add: Cell_equals_def)
  show "Cell_equals a b" if "cell_tree a = cell_tree b"
    using xtree_eqD(7) [OF plain_xtree [OF assms(1-3) that]] by (simp add: Cell_equals_def)
qed

theorem equal_cells_same_tree_witness:
  "\<exists>a b. new_Cell pad_hash False (bytes_string [6]) [] = Inr a \<and>
    new_Cell pad_hash False (bytes_string [7]) [] = Inr b \<and> \<not> Cell_equals a b"
proof -
  obtain a where a: "new_Cell pad_hash False (bytes_string [6]) [] = Inr a" "plain pad_hash a"
    "cell_bits a = bytes_string [6]" "cell_refs a = []"
    using plain_leaf [of "bytes_string [6]"] bytes_string_ok [of "[6]"] by (auto simp: bytes_string_def)
  obtain b where b: "new_Cell pad_hash False (bytes_string [7]) [] = Inr b" "plain pad_hash b"
    "cell_bits b = bytes_string [7]" "cell_refs b = []"
    using plain_leaf [of "bytes_string [7]"] bytes_string_ok [of "[7]"] by (auto simp: bytes_string_def)
  have r: "repr_of 0 (getBitsDescriptor (bytes_string [6])) (bytes_string [6]) [] [] = [0, 2, 6]"
    "repr_of 0 (getBitsDescriptor (bytes_string [7])) (bytes_string [7]) [] [] = [0, 2, 7]"
    "pad_hash [0, 2, 6] \<noteq> pad_hash [0, 2, 7]" "bs_bits (bytes_string [6]) \<noteq> bs_bits (bytes_string [7])"
    by code_simp+
  then have "inj_on pad_hash (reprs a \<union> reprs b)"
    using a b by (simp add: reprs_simp [of a] reprs_simp [of b] repr_plain_def)
  with equal_cells_same_tree [OF pad_hash_ok a(2) b(2)] a b r show ?thesis
    by (simp add: cell_tree_simp [of a] cell_tree_simp [of b])
qed

section \<open>Exotic cells\<close>

lemma get_list_consumes:
  assumes "\<And>r v r'. rd_ok r \<Longrightarrow> get r = Inr (v, r') \<Longrightarrow> rd_ok r' \<and> length (rd_rest r') + k = length (rd_rest r)"
    and "rd_ok r" "get_list get n r = Inr (vs, r')"
  shows "rd_ok r' \<and> length (rd_rest r') + n * k = length (rd_rest r)"
  using assms(2,3)
proof (induction n arbitrary: r vs)
  case (Suc n)
  then obtain v r1 ws where "get r = Inr (v, r1)" "get_list get n r1 = Inr (ws, r')" by auto
  with assms(1) [OF Suc.prems(1)] Suc.IH [of r1 ws] show ?case by simp
qed simp

lemma rd_move_rest: "rd_ok r \<Longrightarrow> n \<le> length (rd_rest r) \<Longrightarrow> rd_rest (rd_move (int n) r) = drop n (rd_rest r)"
  using rd_rest_split(2) [of r "take n (rd_rest r)" "drop n (rd_rest r)"] by (simp add: min_absorb2)

lemma loadBuffer_consumes:
  "rd_ok r \<Longrightarrow> BitReader_loadBuffer 32 r = Inr (w, r') \<Longrightarrow> rd_ok r' \<and> length (rd_rest r') + 256 = length (rd_rest r)"
  using loadBuffer_result [of r 32 w r'] rd_move_rest [of r 256] by auto

lemma loadUint_consumes:
  "rd_ok r \<Longrightarrow> BitReader_loadUint (int n) r = Inr (v, r') \<Longrightarrow>
    rd_ok r' \<and> rd_rest r' = drop n (rd_rest r) \<and> n \<le> length (rd_rest r) \<and> (n \<le> 53 \<longrightarrow> v = val_be (take n (rd_rest r)))"
  using loadUint_result [of r n v r'] rd_move_rest [of r n] by auto

lemma sparse_mask_table:
  "list_all (\<lambda>v. LevelMask_hashCount (LevelMask_apply (new_LevelMask v) (nat (LevelMask_level (new_LevelMask v) - 1))) <
     LevelMask_level (new_LevelMask v)) [2, 4, 5, 6]"
  by code_simp

lemma pruned_length:
  assumes "wf_bs bits" "bs_length bits \<noteq> 280" "exoticPruned bits refs = Inr p"
    and v: "v = val_be (take 8 (drop 8 (bs_bits bits)))"
  shows "LevelMask_level (new_LevelMask v) \<le>
    LevelMask_hashCount (LevelMask_apply (new_LevelMask v) (nat (LevelMask_level (new_LevelMask v) - 1)))"
proof -
  let ?m = "new_LevelMask v" and ?r = "new_BitReader bits 0"
  obtain t r1 where 1: "BitReader_loadUint 8 ?r = Inr (t, r1)"
    using assms(3) by (auto simp: exoticPruned_def)
  have r1: "rd_ok r1" "rd_rest r1 = drop 8 (bs_bits bits)"
    using loadUint_consumes [of ?r 8 t r1] 1 rd_ok_new [OF assms(1)] rd_rest_new [of bits] by auto
  from assms(2,3) 1 obtain u r2 hs r3 ds r4 where *: "BitReader_loadUint 8 r1 = Inr (u, r2)"
    "1 \<le> LevelMask_level (new_LevelMask u)"
    "int (bs_length bits) = 8 + 8 + LevelMask_hashCount (LevelMask_apply (new_LevelMask u)
        (nat (LevelMask_level (new_LevelMask u) - 1))) * (256 + 16)"
    "get_list (BitReader_loadBuffer 32) (nat (LevelMask_level (new_LevelMask u))) r2 = Inr (hs, r3)"
    "get_list (BitReader_loadUint 16) (nat (LevelMask_level (new_LevelMask u))) r3 = Inr (ds, r4)"
    by (auto simp: exoticPruned_def Let_def split: if_splits)
  have r2: "rd_ok r2" "rd_rest r2 = drop 8 (drop 8 (bs_bits bits))" "8 \<le> length (drop 8 (bs_bits bits))"
    "u = v"
    using loadUint_consumes [of r1 8 u r2] *(1) r1 v by auto
  let ?n = "nat (LevelMask_level ?m)"
  have 3: "rd_ok r3 \<and> length (rd_rest r3) + ?n * 256 = length (rd_rest r2)"
    by (rule get_list_consumes [OF loadBuffer_consumes r2(1)]) (use *(4) r2(4) in auto)
  have "rd_ok r4 \<and> length (rd_rest r4) + ?n * 16 = length (rd_rest r3)"
    by (rule get_list_consumes [where get = "BitReader_loadUint 16" and r = r3])
       (use *(5) r2(4) 3 loadUint_consumes [of _ 16] in auto)
  moreover have "length (rd_rest r2) + 16 = bs_length bits" using r2(2,3) by simp
  ultimately have "16 + ?n * 272 \<le> bs_length bits" using 3 by linarith
  with *(2,3) r2(4) show ?thesis by (simp add: algebra_simps)
qed

text \<open>
  \<open>exoticPruned\<close> reads as many hashes as the mask has levels, but the length it demands
  counts the levels that are set: a pruned branch whose mask skips a level is never accepted.
\<close>

theorem pruned_sparse_mask_rejected:
  assumes "wf_bs bits" "bs_length bits \<noteq> 280" "take 8 (drop 8 (bs_bits bits)) = bits_be 8 v" "v \<in> {2, 4, 5, 6}"
  shows "\<exists>e. exoticPruned bits refs = Inl e"
proof (cases "exoticPruned bits refs")
  case (Inr p)
  have "v = val_be (take 8 (drop 8 (bs_bits bits)))"
    using assms(3,4) val_be_bits_be_id [of v 8] by force
  from pruned_length [OF assms(1,2) Inr this] sparse_mask_table assms(4) show ?thesis by auto
qed simp

theorem pruned_sparse_mask_rejected_witness:
  "\<exists>e. exoticPruned (bytes_string ([1, 2] @ replicate 34 0)) [] = Inl e"
proof (rule pruned_sparse_mask_rejected [where v = 2])
  show "take 8 (drop 8 (bs_bits (bytes_string ([1, 2] @ replicate 34 0)))) = bits_be 8 2" by code_simp
qed (simp_all add: bytes_string_ok, simp add: bytes_string_def)

text \<open>
  \<open>exoticLibrary\<close> and the constructor check no references: a library cell is built with any
  number of them, past the four a reference count can encode.
\<close>

theorem library_cell_any_refs:
  assumes "sha_ok sha" "\<forall>r \<in> set refs. built sha r" "wf_bs bits" "bs_length bits = 264"
    and "take 8 (bs_bits bits) = bits_be 8 2"
  shows "\<exists>c. new_Cell sha True bits refs = Inr c \<and> cell_type c = Library \<and> cell_refs c = refs"
proof -
  have ok: "\<forall>r \<in> set refs. cell_ok r" using assms(1,2) built_ok by blast
  have v: "val_be (take 8 (bs_bits bits)) = 2" using assms(5) val_be_bits_be_id [of 2 8] by simp
  let ?r = "new_BitReader bits 0"
  have r: "rd_ok ?r" "rd_rest ?r = bs_bits bits" using rd_ok_new rd_rest_new assms(3) by simp_all
  have big: "BitReader_loadUintBig 8 ?r = Inr (2, rd_move 8 ?r)" "BitReader_preloadUint_at 8 0 ?r = Inr 2"
    using loadUintBig_total [OF r(1), of 8] preloadUint_ok [OF r(1), of 0 8] r(2) v assms(4)
    by (simp_all add: new_BitReader_def)
  have load: "BitReader_loadUint 8 ?r = Inr (2, rd_move 8 ?r)"
    using big(1) by (simp add: BitReader_loadUint_def to_number_id)
  then have lib: "exoticLibrary bits refs = Inr ()" using assms(4) by (simp add: exoticLibrary_def)
  have "BitReader_preloadUint 8 ?r = Inr 2"
    using big(2) by (simp add: BitReader_preloadUint_def BitReader_preloadUintBig_def new_BitReader_def to_number_id)
  with lib have re: "resolveExotic bits refs =
      Inr \<lparr>rs_type = Library, rs_depths = [], rs_hashes = [], rs_mask = new_LevelMask 0\<rparr>"
    by (simp add: resolveExotic_def resolveLibrary_def)
  with new_Cell_exotic_total [OF assms(1) ok assms(3)] show ?thesis by (auto simp: new_Cell_def)
qed

theorem library_cell_any_refs_witness:
  "\<exists>c d. new_Cell pad_hash False (bytes_string []) [] = Inr d \<and>
    new_Cell pad_hash True (bytes_string (2 # replicate 32 0)) [d, d, d, d, d] = Inr c \<and> length (cell_refs c) = 5"
proof -
  obtain d where d: "new_Cell pad_hash False (bytes_string []) [] = Inr d" "plain pad_hash d"
    using plain_leaf [of "bytes_string []"] bytes_string_ok [of "[]"] by (auto simp: bytes_string_def)
  have "take 8 (bs_bits (bytes_string (2 # replicate 32 0))) = bits_be 8 2" by code_simp
  moreover have "bs_length (bytes_string (2 # replicate 32 0)) = 264" by (simp add: bytes_string_def)
  ultimately obtain c where "new_Cell pad_hash True (bytes_string (2 # replicate 32 0)) [d, d, d, d, d] = Inr c"
    "cell_refs c = [d, d, d, d, d]"
    using library_cell_any_refs [OF pad_hash_ok, of "[d, d, d, d, d]" "bytes_string (2 # replicate 32 0)"]
      plain_built [OF d(2)] bytes_string_ok [of "2 # replicate 32 0"] by auto
  with d(1) show ?thesis by auto
qed

section \<open>Storing and loading\<close>

lemma length_enc_coins: "valid_coins v \<Longrightarrow> length (enc_var_uint 4 v) \<le> 124"
  using size_bytes_coins [of v] by (simp add: length_enc_var_uint)

text \<open>
  an address, an amount of coins and an optional reference stored one after the other are
  what the slice of the finished cell gives back in the same order, and nothing is left.
\<close>

theorem cell_fields_roundtrip:
  assumes "sha_ok sha" "valid_address a" "valid_coins v" "\<forall>c \<in> set_option r. built sha c"
  shows "\<exists>b b1 b2 c s s1 s2 s3. Builder_storeAddress a new_Builder = Inr b \<and> Builder_storeCoins (Big v) b = Inr b1 \<and>
    Builder_storeMaybeRef sha (map_option ACell r) b1 = Inr b2 \<and> Builder_endCell sha False b2 = Inr c \<and>
    Cell_beginParse c False = Inr s \<and> Slice_loadAddressAny s = Inr (a, s1) \<and> Slice_loadCoins s1 = Inr (v, s2) \<and>
    Slice_loadMaybeRef s2 = Inr (r, s3) \<and> Slice_endParse s3 = Inr ()"
proof -
  note pair = codec_pair [OF s_any_address.cell_codec_axioms
      codec_pair [OF s_coins.cell_codec_axioms s_maybe_ref.cell_codec_axioms [of sha]]]
  note through = cell_codec.through_cell [OF pair assms(1), of "(a, v, r)", unfolded prod.case append_Nil]
  have 1: "length (enc_address a @ enc_var_uint 4 v @ (case r of None \<Rightarrow> [False] | Some v \<Rightarrow> [True])) \<le> 1023"
    using length_enc_any [OF assms(2)] length_enc_coins [OF assms(3)] by (cases r) simp_all
  have 2: "length (case r of None \<Rightarrow> [] | Some v \<Rightarrow> [v]) \<le> 4"
    "\<forall>c \<in> set (case r of None \<Rightarrow> [] | Some v \<Rightarrow> [v]). cell_ok c"
    "valid_address a \<and> valid_coins v \<and> (case r of None \<Rightarrow> True | Some v \<Rightarrow> True)"
    using assms built_ok by (cases r; simp)+
  obtain b2 c s s3 where put: "bindE (Builder_storeAddress a new_Builder) (\<lambda>b. bindE (Builder_storeCoins (Big v) b)
      (Builder_storeMaybeRef sha (map_option ACell r))) = Inr b2"
    and get: "bindE (Slice_loadAddressAny s) (\<lambda>(x, s). bindE (bindE (Slice_loadCoins s)
      (\<lambda>(y, s). bindE (Slice_loadMaybeRef s) (\<lambda>(z, s). Inr ((y, z), s)))) (\<lambda>(y, s). Inr ((x, y), s))) =
      Inr ((a, v, r), s3)"
    and cell: "Builder_endCell sha False b2 = Inr c" "Cell_beginParse c False = Inr s" "Slice_endParse s3 = Inr ()"
    using through [OF 2(3) 1 2(1,2)] by (elim exE conjE) (rule that)
  obtain b b1 where "Builder_storeAddress a new_Builder = Inr b" "Builder_storeCoins (Big v) b = Inr b1"
    "Builder_storeMaybeRef sha (map_option ACell r) b1 = Inr b2" using put by auto
  moreover obtain s1 s2 where "Slice_loadAddressAny s = Inr (a, s1)" "Slice_loadCoins s1 = Inr (v, s2)"
    "Slice_loadMaybeRef s2 = Inr (r, s3)" using get by auto
  ultimately show ?thesis using cell by blast
qed

theorem cell_fields_roundtrip_witness:
  "\<exists>b b1 b2 c s s1 s2 s3. Builder_storeAddress (Some (Internal \<lparr>workChain = 0, addr_hash = replicate 32 1\<rparr>)) new_Builder = Inr b \<and>
    Builder_storeCoins (Big 1000000000) b = Inr b1 \<and>
    Builder_storeMaybeRef pad_hash (map_option ACell None) b1 = Inr b2 \<and> Builder_endCell pad_hash False b2 = Inr c \<and>
    Cell_beginParse c False = Inr s \<and>
    Slice_loadAddressAny s = Inr (Some (Internal \<lparr>workChain = 0, addr_hash = replicate 32 1\<rparr>), s1) \<and>
    Slice_loadCoins s1 = Inr (1000000000, s2) \<and>
    Slice_loadMaybeRef s2 = Inr (None, s3) \<and> Slice_endParse s3 = Inr ()"
  by (rule cell_fields_roundtrip) (simp_all add: pad_hash_ok valid_std_def valid_coins_def int_range_def)

text \<open>
  text of any length stored by \<open>stringToCell\<close> (over as many cells as it takes) is read back
  in full by \<open>readString\<close>.
\<close>

theorem text_roundtrip:
  assumes "sha_ok sha"
  shows "\<exists>c s s'. strings_stringToCell sha src = Inr c \<and> Cell_beginParse c False = Inr s \<and>
    strings_readString s = Inr (src, s') \<and> Slice_endParse s' = Inr ()"
  using assms by (rule string_roundtrip)

theorem text_roundtrip_witness:
  "\<exists>c s s'. strings_stringToCell pad_hash (replicate 200 65) = Inr c \<and> Cell_beginParse c False = Inr s \<and>
    strings_readString s = Inr (replicate 200 65, s') \<and> Slice_endParse s' = Inr ()"
  by (rule text_roundtrip [OF pad_hash_ok])

section \<open>Laying out a bag of cells\<close>

text \<open>
  C1: \<open>topologicalSort\<close> returns for every cell whose hashes identify its subcells: the root comes
  first, every entry is a cell below the root, no hash occurs twice, and each reference is the
  index of a later entry with the hash of the referenced cell.
\<close>

theorem topological_order:
  assumes "collision_free root"
  shows "\<exists>es. topologicalSort root = Inr es \<and> es \<noteq> [] \<and> Cell_hash (fst (es ! 0)) 3 = Cell_hash root 3 \<and>
    distinct (map (\<lambda>e. Cell_hash (fst e) 3) es) \<and>
    list_all (\<lambda>i. let c = fst (es ! i); js = snd (es ! i)
       in c \<in> subcells root \<and> length js = length (cell_refs c) \<and>
          list_all (\<lambda>k. int i < js ! k \<and> js ! k < int (length es) \<and>
            Cell_hash (fst (es ! nat (js ! k))) 3 = Cell_hash (cell_refs c ! k) 3) [0..<length js])
      [0..<length es]"
  using topologicalSort_ok [OF assms]
  by (auto simp: topo_ok_def entry_ok_def Let_def list_all_iff)

theorem topological_order_witness:
  "\<exists>c es. new_Cell pad_hash False (bytes_string [7]) [] = Inr c \<and> topologicalSort c = Inr es \<and> es \<noteq> []"
proof -
  obtain c where c: "new_Cell pad_hash False (bytes_string [7]) [] = Inr c" "plain pad_hash c" "cell_refs c = []"
    using plain_leaf [of "bytes_string [7]"] bytes_string_ok [of "[7]"] by (auto simp: bytes_string_def)
  then have "collision_free c" by (simp add: collision_free_def subcells_simp [of c])
  with topological_order [of c] c(1) show ?thesis by blast
qed

text \<open>
  C33: the sort returns on every cell, hash collisions and cycles of hashes included: the nested
  loops are never cut short, so what comes out is a list or an error of the code.
\<close>

theorem topologicalSort_terminates: "topologicalSort root \<noteq> Inl OutOfFuel"
  by (rule topologicalSort_fuel)

end
