(* ===== verification/Boc_Roundtrip.thy ===== *)
theory Boc_Roundtrip
  imports Boc_Cells
begin

text \<open>
  Reading what was written: the header, the cells in sequence, the order in which they are
  built, and from these that a bag of cells gives back the tree it was made from.
\<close>

section \<open>The cells in sequence\<close>

lemma writeCells_ok:
  assumes "\<forall>e \<in> set es. raw_ok sz e" "fits b (length (concat (map (enc_cell sz) es)))"
  shows "writes (foldE (\<lambda>(c, refs). writeCellToBuilder c refs (int sz)) es b) b (concat (map (enc_cell sz) es))"
proof (rule writes_foldE [OF _ assms(2)])
  fix e b assume "e \<in> set es" "fits b (length (enc_cell sz e))"
  with writeCell_ok [of sz e b] assms(1)
  show "writes ((case e of (c, refs) \<Rightarrow> writeCellToBuilder c refs (int sz)) b) b (enc_cell sz e)"
    by (simp add: case_prod_beta)
qed

lemma readCells_ok:
  assumes "\<forall>e \<in> set es. raw_ok sz e" "8 * sz \<le> 53" "rd_ok r" "rd_rest r = concat (map (enc_cell sz) es) @ ys"
  shows "\<exists>xs r'. get_list (readCell (int sz)) (length es) r = Inr (xs, r') \<and> list_all2 raw_matches es xs"
  using assms(1,3,4)
proof (induction es arbitrary: r)
  case (Cons e es)
  let ?r = "rd_move (int (length (enc_cell sz e))) r"
  obtain x where x: "readCell (int sz) r = Inr (x, ?r)" "raw_matches e x"
    using readCell_ok [of sz e r] Cons.prems assms(2) by auto
  have "rd_ok ?r" "rd_rest ?r = concat (map (enc_cell sz) es) @ ys"
    using rd_rest_split [of r "enc_cell sz e"] Cons.prems by simp_all
  with Cons.IH [of ?r] Cons.prems(1) x show ?case by fastforce
qed simp

text \<open>The index holds the partial sums of the sizes, which are the lengths of the encodings.\<close>

lemma enc_cell_size:
  assumes "raw_ok sz e"
  shows "int (length (enc_cell sz e)) = 8 * calcCellSize (fst e) (int sz)" "0 \<le> calcCellSize (fst e) (int sz)"
proof -
  have "length (concat (map (bits_be (8 * sz)) js)) = 8 * sz * length js" for js
    by (induction js) simp_all
  then have l: "length (enc_cell sz e) = 16 + 8 * ((bs_length (cell_bits (fst e)) + 7) div 8) + 8 * sz * length (cell_refs (fst e))"
    using assms length_padded_bytes [of "cell_bits (fst e)"] by (simp add: enc_cell_def raw_ok_def)
  show "int (length (enc_cell sz e)) = 8 * calcCellSize (fst e) (int sz)" "0 \<le> calcCellSize (fst e) (int sz)"
    unfolding l by (simp_all add: calcCellSize_def ceil8_nat algebra_simps)
qed

lemma boc_index_ok:
  assumes "\<forall>e \<in> set es. raw_ok sz e"
  shows "8 * fst (boc_index es (int sz)) = int (length (concat (map (enc_cell sz) es))) \<and>
    length (snd (boc_index es (int sz))) = length es \<and>
    (\<forall>x \<in> set (snd (boc_index es (int sz))). 0 \<le> x \<and> x \<le> fst (boc_index es (int sz)))"
  using assms
proof (induction es rule: rev_induct)
  case Nil
  show ?case by (simp add: boc_index_def)
next
  case (snoc e es)
  let ?i = "boc_index es (int sz)" and ?s = "calcCellSize (fst e) (int sz)"
  have s: "boc_index (es @ [e]) (int sz) = (fst ?i + ?s, snd ?i @ [fst ?i + ?s])"
    by (simp add: boc_index_def case_prod_beta Let_def)
  have ok: "raw_ok sz e" "\<forall>e \<in> set es. raw_ok sz e" using snoc.prems by simp_all
  note IH = snoc.IH [OF ok(2)] and size = enc_cell_size [OF ok(1)]
  have "0 \<le> fst ?i" using IH by linarith
  then have "\<forall>x \<in> set (snd ?i @ [fst ?i + ?s]). 0 \<le> x \<and> x \<le> fst ?i + ?s"
    using IH size(2) by fastforce
  moreover have "8 * (fst ?i + ?s) = int (length (concat (map (enc_cell sz) (es @ [e]))))"
    using IH size(1) by simp
  ultimately show ?case using IH unfolding s by simp
qed

section \<open>Building the cells\<close>

text \<open>Everything from index \<open>k\<close> on is built, and built as the cell it stands for.\<close>

definition built_from :: "(cell \<times> int list) list \<Rightarrow> nat \<Rightarrow> cell option list \<Rightarrow> bool" where
  "built_from es k res \<longleftrightarrow> length res = length es \<and>
     (\<forall>i < length es. if i < k then res ! i = None
        else \<exists>d. res ! i = Some d \<and> xtree d = xtree (fst (es ! i)) \<and> cell_ok d)"

lemma built_cell_args:
  assumes "sha_ok sha" "built sha c"
  shows "new_Cell sha (cell_type c \<noteq> Ordinary) (cell_bits c) (cell_refs c) = Inr c \<and>
    (\<forall>r \<in> set (cell_refs c). cell_ok r) \<and> wf_bs (cell_bits c)"
  using assms(2)
proof (cases rule: built.cases)
  case (built_new refs bits exotic)
  have ok: "\<forall>r \<in> set refs. cell_ok r" using built_new(1) built_ok assms(1) by blast
  from new_Cell_ok [OF assms(1) ok built_new(2,3)] have c: "cell_ok c" "cell_bits c = bits" "cell_refs c = refs"
    by blast+
  have "exotic = (cell_type c \<noteq> Ordinary)"
    using built_new(3) by (auto simp: new_Cell_def dest: resolveExotic_type split: if_splits)
  with built_new c ok show ?thesis by simp
qed

lemma mapE_nth:
  assumes "length xs = length ys" "\<And>i. i < length xs \<Longrightarrow> f (xs ! i) = Inr (ys ! i)"
  shows "mapE f xs = Inr ys"
  using assms
proof (induction xs arbitrary: ys)
  case (Cons x xs)
  then obtain z zs where ys: "ys = z # zs" "length xs = length zs" by (cases ys) auto
  from Cons.prems(2) [of 0] have "f x = Inr z" using ys by simp
  moreover have "mapE f xs = Inr zs"
  proof (rule Cons.IH [OF ys(2)])
    fix i assume "i < length xs"
    with Cons.prems(2) [of "Suc i"] ys show "f (xs ! i) = Inr (zs ! i)" by simp
  qed
  ultimately show ?case using ys by simp
qed simp

lemma boc_build_step:
  assumes "sha_ok sha" "collision_free root" "built sha root" "topo_ok root es"
    and "list_all2 raw_matches es xs" "built_from es (Suc k) res" "k < length es"
  shows "\<exists>res'. boc_build sha xs k res = Inr res' \<and> built_from es k res'"
proof -
  let ?c = "fst (es ! k)" and ?js = "snd (es ! k)" and ?x = "xs ! k"
  have e: "?c \<in> subcells root" "length ?js = length (cell_refs ?c)"
    "\<forall>m < length ?js. int k < ?js ! m \<and> ?js ! m < int (length es) \<and>
       Cell_hash (fst (es ! nat (?js ! m))) 3 = Cell_hash (cell_refs ?c ! m) 3"
    using assms(4,7) by (auto simp: topo_ok_def entry_ok_def Let_def)
  have x: "bs_bits (rc_bits ?x) = bs_bits (cell_bits ?c)" "wf_bs (rc_bits ?x)" "rc_refs ?x = ?js"
    "rc_exotic ?x = (cell_type ?c \<noteq> Ordinary)"
    using list_all2_nthD [OF assms(5,7)] by (auto simp: raw_matches_def)
  have "built sha ?c" using subcells_built [OF e(1) assms(1,3)] .
  from built_cell_args [OF assms(1) this] have args: "new_Cell sha (cell_type ?c \<noteq> Ordinary) (cell_bits ?c) (cell_refs ?c) = Inr ?c"
    "\<forall>r \<in> set (cell_refs ?c). cell_ok r" "wf_bs (cell_bits ?c)" by blast+
  let ?rs = "map (\<lambda>j. the (res ! nat j)) ?js"
  have r: "boc_result res (?js ! m) = Inr (?rs ! m) \<and> xtree (?rs ! m) = xtree (cell_refs ?c ! m) \<and> cell_ok (?rs ! m)"
    if m: "m < length ?js" for m
  proof -
    let ?j = "nat (?js ! m)"
    have j: "int k < ?js ! m" "?js ! m < int (length es)"
      "Cell_hash (fst (es ! ?j)) 3 = Cell_hash (cell_refs ?c ! m) 3" using e(3) m by blast+
    then have "?j < length es" "\<not> ?j < Suc k" by linarith+
    with assms(6) obtain d where d: "res ! ?j = Some d" "xtree d = xtree (fst (es ! ?j))" "cell_ok d"
      "length res = length es" unfolding built_from_def by meson
    have "fst (es ! ?j) \<in> subcells root" using assms(4) \<open>?j < length es\<close> by (auto simp: topo_ok_def entry_ok_def Let_def)
    moreover have "cell_refs ?c ! m \<in> subcells root" using subcells_ref [OF e(1)] e(2) m by simp
    ultimately have "xtree (fst (es ! ?j)) = xtree (cell_refs ?c ! m)"
      using assms(2) j(3) unfolding collision_free_def by blast
    with d j m show ?thesis by (simp add: boc_result_def)
  qed
  have "mapE (boc_result res) ?js = Inr ?rs" by (rule mapE_nth) (use r in simp_all)
  moreover have "map xtree (cell_refs ?c) = map xtree ?rs"
    using e(2) r by (intro nth_equalityI) simp_all
  moreover have "\<forall>c \<in> set ?rs. cell_ok c"
    using r by (metis in_set_conv_nth length_map)
  ultimately obtain d where d: "mapE (boc_result res) (rc_refs ?x) = Inr ?rs"
    "new_Cell sha (rc_exotic ?x) (rc_bits ?x) ?rs = Inr d" "xtree d = xtree ?c" "cell_ok d"
    using new_Cell_cong [OF assms(1) args(3) x(2) x(1) [symmetric] _ args(2) _ args(1), of ?rs] x(3,4) by auto
  have "res ! k = None" "length res = length es" using assms(6,7) by (auto simp: built_from_def)
  with d have "boc_build sha xs k res = Inr (res[k := Some d])" by (simp add: boc_build_def)
  moreover have "built_from es k (res[k := Some d])"
    using assms(6,7) d(3,4) unfolding built_from_def by (auto simp: nth_list_update not_less less_Suc_eq_le)
  ultimately show ?thesis by blast
qed

lemma boc_build_all:
  assumes "sha_ok sha" "collision_free root" "built sha root" "topo_ok root es" "list_all2 raw_matches es xs"
  shows "\<exists>res. foldE (boc_build sha xs) (rev [0..<length xs]) (replicate (length xs) None) = Inr res \<and> built_from es 0 res"
proof -
  let ?n = "length es"
  have n: "length xs = ?n" using list_all2_lengthD [OF assms(5)] by simp
  have "\<exists>res. foldE (boc_build sha xs) (rev [k..<?n]) (replicate ?n None) = Inr res \<and> built_from es k res"
    if "k \<le> ?n" for k using that
  proof (induction "?n - k" arbitrary: k)
    case 0
    then show ?case by (simp add: built_from_def)
  next
    case (Suc m)
    then have k: "k < ?n" "m = ?n - Suc k" "Suc k \<le> ?n" by linarith+
    from Suc.hyps(1) [OF k(2,3)] obtain res where
      res: "foldE (boc_build sha xs) (rev [Suc k..<?n]) (replicate ?n None) = Inr res" "built_from es (Suc k) res"
      by blast
    from boc_build_step [OF assms res(2) k(1)] res(1) k(1) show ?case
      by (auto simp: upt_conv_Cons foldE_append)
  qed
  from this [of 0] n show ?thesis by simp
qed

section \<open>The header\<close>

definition boc_header :: "nat \<Rightarrow> bool \<Rightarrow> bool \<Rightarrow> nat \<Rightarrow> nat \<Rightarrow> int \<Rightarrow> bool list" where
  "boc_header n idx crc sz off tot =
     bits_be 32 0xb5ee9c72 @ [idx] @ [crc] @ [False] @ bits_be 2 0 @ bits_be 3 (int sz) @ bits_be 8 (int off) @
     bits_be (8 * sz) (int n) @ bits_be (8 * sz) 1 @ bits_be (8 * sz) 0 @ bits_be (8 * off) tot @ bits_be (8 * sz) 0"

definition boc_body :: "(cell \<times> int list) list \<Rightarrow> bool \<Rightarrow> bool \<Rightarrow> nat \<Rightarrow> nat \<Rightarrow> int \<Rightarrow> int list \<Rightarrow> bool list" where
  "boc_body es idx crc sz off tot index =
     boc_header (length es) idx crc sz off tot @
     (if idx then concat (map (bits_be (8 * off)) index) else []) @ concat (map (enc_cell sz) es)"

text \<open>The writes of \<open>serializeBoc\<close> before the checksum.\<close>

definition boc_write ::
    "(cell \<times> int list) list \<Rightarrow> bool \<Rightarrow> bool \<Rightarrow> int \<Rightarrow> int \<Rightarrow> int \<Rightarrow> int list \<Rightarrow> bit_builder \<Rightarrow> bit_builder res" where
  "boc_write es idx crc sz off tot index b =
     bindE (BitBuilder_writeUint (Num 0xb5ee9c72) 32 b) (\<lambda>b.
     bindE (BitBuilder_writeBit (BitBool idx) b) (\<lambda>b.
     bindE (BitBuilder_writeBit (BitBool crc) b) (\<lambda>b.
     bindE (BitBuilder_writeBit (BitBool False) b) (\<lambda>b.
     bindE (BitBuilder_writeUint (Num 0) 2 b) (\<lambda>b.
     bindE (BitBuilder_writeUint (Num sz) 3 b) (\<lambda>b.
     bindE (BitBuilder_writeUint (Num off) 8 b) (\<lambda>b.
     bindE (BitBuilder_writeUint (Num (int (length es))) (sz * 8) b) (\<lambda>b.
     bindE (BitBuilder_writeUint (Num 1) (sz * 8) b) (\<lambda>b.
     bindE (BitBuilder_writeUint (Num 0) (sz * 8) b) (\<lambda>b.
     bindE (BitBuilder_writeUint (Num tot) (off * 8) b) (\<lambda>b.
     bindE (BitBuilder_writeUint (Num 0) (sz * 8) b) (\<lambda>b.
     bindE (if idx then foldE (\<lambda>i b. BitBuilder_writeUint (Num i) (off * 8) b) index b else Inr b) (\<lambda>b.
     foldE (\<lambda>(c, refs) b. writeCellToBuilder c refs sz b) es b)))))))))))))"

lemma writes_uint8:
  assumes "fits b (8 * k)" "0 \<le> v" "v < 2 ^ (8 * k)"
  shows "writes (BitBuilder_writeUint (Num v) (int k * 8) b) b (bits_be (8 * k) v)"
  using writes_uint [of "Num v" v b "8 * k"] assms by (simp add: mult.commute)

lemma writes_index:
  assumes "\<forall>x \<in> set index. 0 \<le> x \<and> x < 2 ^ (8 * off)" "fits b (length (concat (map (bits_be (8 * off)) index)))"
  shows "writes (foldE (\<lambda>i b. BitBuilder_writeUint (Num i) (int off * 8) b) index b) b
     (concat (map (bits_be (8 * off)) index))"
  using assms(1) by (intro writes_foldE [OF _ assms(2)] writes_uint8) auto

lemma boc_write_ok:
  assumes "\<forall>e \<in> set es. raw_ok sz e" "0 < sz" "sz < 8" "off < 256" "int (length es) < 2 ^ (8 * sz)"
    and "0 \<le> tot" "tot < 2 ^ (8 * off)" "\<forall>x \<in> set index. 0 \<le> x \<and> x < 2 ^ (8 * off)"
    and "fits b (length (boc_body es idx crc sz off tot index))"
  shows "writes (boc_write es idx crc (int sz) (int off) tot index b) b (boc_body es idx crc sz off tot index)"
proof -
  have one: "(1::int) < 2 ^ (8 * sz)" using assms(2) by (intro one_less_power) auto
  have bit: "writes (BitBuilder_writeBit (BitBool v) b) b [v]" if "fits b (length [v])" for v b
    using writes_bit [of b "BitBool v"] that by simp
  have idx: "writes (if idx then foldE (\<lambda>i b. BitBuilder_writeUint (Num i) (int off * 8) b) index b else Inr b) b
      (if idx then concat (map (bits_be (8 * off)) index) else [])"
    if "fits b (length (if idx then concat (map (bits_be (8 * off)) index) else []))" for b
    using that writes_index [OF assms(8)] writes_refl [OF fits_wf [OF that]] by (cases idx) simp_all
  have uint: "writes (BitBuilder_writeUint (Num v) (int k * 8) b) b (bits_be (8 * k) v)"
    if "fits b (length (bits_be (8 * k) v))" "0 \<le> v" "v < 2 ^ (8 * k)" for v k b
    using that writes_uint8 by simp
  have num: "writes (BitBuilder_writeUint (Num v) (numeral k) b) b (bits_be (numeral k) v)"
    if "fits b (length (bits_be (numeral k) v))" "0 \<le> v" "v < 2 ^ numeral k" for v k b
    using that by (intro writes_uint_numeral) auto
  show ?thesis
    unfolding boc_write_def boc_body_def boc_header_def append_assoc
    apply (rule writes_bindI, use assms(9) in \<open>simp add: boc_body_def boc_header_def\<close>, erule num, simp, simp)
    apply (rule writes_bindI, simp, erule bit)+
    apply (rule writes_bindI, simp, erule num, simp, simp)
    apply (rule writes_bindI, simp, erule num, simp, use assms(3) in simp)
    apply (rule writes_bindI, simp, erule num, simp, use assms(4) in simp)
    apply (rule writes_bindI, simp, erule uint, simp, use assms(5) in simp)
    apply (rule writes_bindI, simp, erule uint, simp, use one in simp)
    apply (rule writes_bindI, simp, erule uint, simp, simp)
    apply (rule writes_bindI, simp, erule uint, use assms(6,7) in simp, use assms(7) in simp)
    apply (rule writes_bindI, simp, erule uint, simp, simp)
    apply (rule writes_bindI, simp, erule idx)
    apply (erule writeCells_ok [OF assms(1)])
    done
qed

lemma length_concat_bits: "length (concat (map (bits_be n) vs)) = n * length vs"
  by (induction vs) simp_all

lemma length_boc_body:
  "length (boc_body es idx crc sz off tot index) = 8 * (6 + 4 * sz + off) +
     (if idx then 8 * off * length index else 0) + length (concat (map (enc_cell sz) es))"
  by (simp add: boc_body_def boc_header_def length_concat_bits)

definition boc_crc :: "bool \<Rightarrow> bool list \<Rightarrow> buffer" where
  "boc_crc crc body = (if crc then crc32c (bytes_of_bits body) else [])"

lemma boc_finish:
  assumes "wf_bb b" "bb_bits b = body" "length body mod 8 = 0" "bb_cap b = length body + (if crc then 32 else 0)"
    and "m = int (bb_cap b)"
  shows "\<exists>src. bindE (if crc then bindE (BitBuilder_getBuffer b) (\<lambda>buf. BitBuilder_writeBuffer (crc32c buf) b) else Inr b)
      (\<lambda>b. bindE (BitBuilder_getBuffer b) (\<lambda>res. if int (length res) \<noteq> m div 8 then Inl InternalError else Inr res)) = Inr src \<and>
    buf_bits src = body @ buf_bits (boc_crc crc body)"
proof -
  have len: "bb_length b = length body" using assms(1,2) length_bb_bits [of b] by simp
  obtain w where w: "BitBuilder_getBuffer b = Inr w" "buf_bits w = body" "8 * length w = bb_length b"
    using getBuffer_ok [OF assms(1)] assms(2,3) len by auto
  show ?thesis
  proof (cases crc)
    case False
    have "int (length w) = m div 8" using w(3) assms(4,5) len False by simp
    with w False show ?thesis by (simp add: boc_crc_def)
  next
    case True
    have "fits b (8 * length (crc32c w))" using assms(1,4) len True by (simp add: fits_def length_crc32c)
    from writes_buffer [OF this] obtain c where c: "BitBuilder_writeBuffer (crc32c w) b = Inr c"
      "appends b c (buf_bits (crc32c w))" by (auto simp: writes_def)
    then have wf: "wf_bb c" "bb_bits c = body @ buf_bits (crc32c w)" "bb_cap c = bb_cap b"
      using assms(2) by (auto simp: appends_def)
    then have clen: "bb_length c = length body + 32" using length_bb_bits [of c] by (simp add: length_crc32c)
    obtain v where v: "BitBuilder_getBuffer c = Inr v" "buf_bits v = bb_bits c" "8 * length v = bb_length c"
      using getBuffer_ok [OF wf(1)] clen assms(3) by auto
    have "int (length v) = m div 8" using v(3) clen assms(4,5) True by simp
    moreover have "bytes_of_bits body = w" using w(2) bytes_of_bits_buf_bits by blast
    ultimately show ?thesis using True w(1) c(1) v(1,2) wf(2) by (simp add: boc_crc_def)
  qed
qed

section \<open>Writing a bag\<close>

text \<open>The sizes of the numbers of a bag, and the bound under which it can be written.\<close>

definition boc_sz :: "(cell \<times> int list) list \<Rightarrow> nat" where
  "boc_sz es = nbytes (int (length es))"

definition boc_tot :: "(cell \<times> int list) list \<Rightarrow> int" where
  "boc_tot es = fst (boc_index es (int (boc_sz es)))"

definition boc_bits :: "(cell \<times> int list) list \<Rightarrow> bool \<Rightarrow> bool \<Rightarrow> bool list" where
  "boc_bits es idx crc = boc_body es idx crc (boc_sz es) (nbytes (boc_tot es)) (boc_tot es)
     (snd (boc_index es (int (boc_sz es))))"

definition boc_fits :: "(cell \<times> int list) list \<Rightarrow> bool \<Rightarrow> bool \<Rightarrow> bool" where
  "boc_fits es idx crc \<longleftrightarrow> (\<forall>e \<in> set es. raw_ok (boc_sz es) e) \<and> length (boc_bits es idx crc) + 32 < 2 ^ 31 - 8"

lemma boc_fits_sizes:
  assumes "boc_fits es idx crc"
  shows "0 < boc_sz es" "boc_sz es \<le> 4" "0 < nbytes (boc_tot es)" "nbytes (boc_tot es) \<le> 4"
    "int (length es) < 2 ^ (8 * boc_sz es)" "0 \<le> boc_tot es" "boc_tot es < 2 ^ (8 * nbytes (boc_tot es))"
    "length (boc_bits es idx crc) = 8 * (6 + 4 * boc_sz es + nbytes (boc_tot es)) +
       (if idx then 8 * nbytes (boc_tot es) * length es else 0) + nat (8 * boc_tot es)"
    "\<forall>x \<in> set (snd (boc_index es (int (boc_sz es)))). 0 \<le> x \<and> x < 2 ^ (8 * nbytes (boc_tot es))"
proof -
  let ?sz = "boc_sz es" and ?T = "boc_tot es"
  have ok: "\<forall>e \<in> set es. raw_ok ?sz e" "length (boc_bits es idx crc) + 32 < 2 ^ 31 - 8"
    using assms by (auto simp: boc_fits_def)
  note i = boc_index_ok [OF ok(1)]
  then have T: "8 * ?T = int (length (concat (map (enc_cell ?sz) es)))" by (simp add: boc_tot_def)
  then show T0: "0 \<le> ?T" by linarith
  have len: "length (boc_bits es idx crc) = 8 * (6 + 4 * ?sz + nbytes ?T) +
       (if idx then 8 * nbytes ?T * length es else 0) + length (concat (map (enc_cell ?sz) es))"
    using i by (simp add: boc_bits_def length_boc_body)
  also have "length (concat (map (enc_cell ?sz) es)) = nat (8 * ?T)" unfolding T by simp
  finally show "length (boc_bits es idx crc) = 8 * (6 + 4 * ?sz + nbytes ?T) +
       (if idx then 8 * nbytes ?T * length es else 0) + nat (8 * ?T)" .
  have "16 * length xs \<le> length (concat (map (enc_cell z) xs))" for z xs
    by (induction xs) (simp_all add: enc_cell_def)
  from this [of es ?sz] len ok(2) have n: "int (length es) < 2 ^ 32" by simp
  have "?T < 2 ^ 32" using len ok(2) T by simp
  then show "nbytes ?T \<le> 4" using nbytes_le [OF T0, of 4] by simp
  show "?sz \<le> 4" using nbytes_le [of "int (length es)" 4] n by (simp add: boc_sz_def)
  show "0 < ?sz" "0 < nbytes ?T" by (simp_all add: boc_sz_def nbytes_pos)
  show "int (length es) < 2 ^ (8 * ?sz)" using nbytes_bound [of "int (length es)"] by (simp add: boc_sz_def)
  show "?T < 2 ^ (8 * nbytes ?T)" by (rule nbytes_bound [OF T0])
  then show "\<forall>x \<in> set (snd (boc_index es (int ?sz))). 0 \<le> x \<and> x < 2 ^ (8 * nbytes ?T)"
    using i unfolding boc_tot_def by fastforce
qed

lemma mult8_next: "a mod 8 = 0 \<Longrightarrow> b mod 8 = 0 \<Longrightarrow> a \<le> b \<Longrightarrow> b < a + 8 \<Longrightarrow> b = (a::nat)"
  by presburger

lemma serializeBoc_ok:
  assumes "topologicalSort root = Inr es" "boc_fits es idx crc"
  shows "\<exists>src. serializeBoc root idx crc = Inr src \<and>
    buf_bits src = boc_bits es idx crc @ buf_bits (boc_crc crc (boc_bits es idx crc))"
proof -
  let ?sz = "boc_sz es" and ?T = "boc_tot es" and ?i = "snd (boc_index es (int (boc_sz es)))"
  let ?off = "nbytes ?T" and ?body = "boc_bits es idx crc"
  note s = boc_fits_sizes [OF assms(2)]
  obtain ix where i: "boc_index es (int ?sz) = (?T, ix)" "ix = ?i" by (simp add: boc_tot_def)
  obtain k l where k: "bitsForNumber (Num (int (length es))) ''uint'' = Inr k" "max (ceil8 k) 1 = int ?sz"
    and l: "bitsForNumber (Num ?T) ''uint'' = Inr l" "max (ceil8 l) 1 = int ?off"
    using bitsForNumber_uint [of "int (length es)"] bitsForNumber_uint [OF s(6)] by (auto simp: boc_sz_def)
  define m where "m = (4 + 1 + 1 + 3 * int ?sz + int ?off + 1 * int ?sz +
      (if idx then int (length es) * int ?off else 0) + ?T + (if crc then 4 else 0)) * 8"
  have m: "m = int (length ?body + (if crc then 32 else 0))"
    using s(6) unfolding s(8) m_def by (cases idx; cases crc) (simp_all add: algebra_simps)
  then have nm: "nat m = length ?body + (if crc then 32 else 0)" by simp
  have "nat m \<le> length ?body + 32" by (simp add: nm)
  then have small: "nat m < 2 ^ 31 - 8" using assms(2) by (simp add: boc_fits_def)
  note new = wf_new_BitBuilder [OF small]
  have "nat m mod 8 = 0" unfolding nm s(8) by (auto simp: nat_mult_distrib)
  moreover have "bb_cap (new_BitBuilder (nat m)) mod 8 = 0" by (simp add: bb_cap_def)
  ultimately have cap: "bb_cap (new_BitBuilder (nat m)) = nat m" using new(3,4) by (rule mult8_next)
  have "fits (new_BitBuilder (nat m)) (length ?body)"
    using new(1) cap nm by (simp add: fits_def new_BitBuilder_def)
  then have "writes (boc_write es idx crc (int ?sz) (int ?off) ?T ix (new_BitBuilder (nat m))) (new_BitBuilder (nat m)) ?body"
    unfolding boc_bits_def i(2) using assms(2) s by (intro boc_write_ok) (auto simp: boc_fits_def)
  then obtain b where b: "boc_write es idx crc (int ?sz) (int ?off) ?T ix (new_BitBuilder (nat m)) = Inr b"
    "wf_bb b" "bb_bits b = ?body" "bb_cap b = nat m"
    using new(2) cap by (auto simp: writes_def appends_def)
  have "length ?body mod 8 = 0" unfolding s(8) using s(6) by (auto simp: nat_mult_distrib)
  from boc_finish [OF b(2,3) this, of crc m] b(4) nm m obtain src where src:
    "bindE (if crc then bindE (BitBuilder_getBuffer b) (\<lambda>buf. BitBuilder_writeBuffer (crc32c buf) b) else Inr b)
      (\<lambda>b. bindE (BitBuilder_getBuffer b) (\<lambda>res. if int (length res) \<noteq> m div 8 then Inl InternalError else Inr res)) = Inr src"
    "buf_bits src = ?body @ buf_bits (boc_crc crc ?body)" by auto
  have "serializeBoc root idx crc = bindE (boc_write es idx crc (int ?sz) (int ?off) ?T ix (new_BitBuilder (nat m)))
     (\<lambda>b. bindE (if crc then bindE (BitBuilder_getBuffer b) (\<lambda>buf. BitBuilder_writeBuffer (crc32c buf) b) else Inr b)
      (\<lambda>b. bindE (BitBuilder_getBuffer b) (\<lambda>res. if int (length res) \<noteq> m div 8 then Inl InternalError else Inr res)))"
    unfolding serializeBoc_def assms(1) bindE_simps Let_def k(1,2) i(1) prod.case l(1,2) m_def [symmetric]
      boc_write_def bindE_assoc ..
  with b(1) src show ?thesis by simp
qed

section \<open>Parsing a bag\<close>

lemma loadUint_bytes:
  assumes "rd_ok r" "rd_rest r = bits_be (8 * k) v @ ys" "0 \<le> v" "v < 2 ^ (8 * k)" "k \<le> 6"
  shows "\<exists>r'. BitReader_loadUint (int k * 8) r = Inr (v, r') \<and> rd_ok r' \<and> rd_rest r' = ys"
  using loadUint_next [OF assms(1-4)] assms(5) by (auto simp: mult.commute)

lemma loadUint_const:
  assumes "rd_ok r" "rd_rest r = bits_be (numeral k) v @ ys" "0 \<le> v" "v < 2 ^ numeral k" "numeral k \<le> (53::nat)"
  shows "\<exists>r'. BitReader_loadUint (numeral k) r = Inr (v, r') \<and> rd_ok r' \<and> rd_rest r' = ys"
  using loadUint_next [OF assms] by auto

lemma loadUint_flag:
  assumes "rd_ok r" "rd_rest r = [b] @ ys"
  shows "\<exists>r'. BitReader_loadUint 1 r = Inr (of_bool b, r') \<and> rd_ok r' \<and> rd_rest r' = ys"
  using loadUint_next [OF assms(1), of 1 "of_bool b"] assms(2) by (auto simp: bits_be_def)

lemma loadBuffer_next:
  assumes "rd_ok r" "rd_rest r = xs @ ys" "int (length xs) = 8 * n"
  shows "\<exists>r'. BitReader_loadBuffer n r = Inr (bytes_of_bits xs, r') \<and> rd_ok r' \<and> rd_rest r' = ys"
proof -
  have n: "length xs = 8 * nat n" "n = int (nat n)" using assms(3) by linarith+
  have w: "buf_bits (bytes_of_bits xs) = xs" using n(1) by (intro buf_bits_bytes_of_bits) simp
  moreover have "length (bytes_of_bits xs) = nat n" using n(1) by simp
  ultimately have "BitReader_loadBuffer n r = Inr (bytes_of_bits xs, rd_move (int (length xs)) r)"
    using loadBuffer_ok [OF assms(1), of "bytes_of_bits xs" ys] assms(2) n by simp
  with rd_rest_split [OF assms(1,2)] show ?thesis by blast
qed

lemma check_crc_ok:
  assumes "rd_ok r" "rd_rest r = buf_bits (crc32c w)" "src = w @ crc32c w"
  shows "check_crc src r = Inr ()"
proof -
  have "BitReader_loadBuffer 4 r = Inr (crc32c w, rd_move 32 r)"
    using loadBuffer_ok [OF assms(1), of "crc32c w" "[]"] assms(2) by (simp add: length_crc32c)
  moreover have "buf_subarray src 0 (int (length src) - 4) = w"
    using buf_subarray_inside [of 0 "length w" src] assms(3) by (simp add: length_crc32c)
  ultimately show ?thesis by (simp add: check_crc_def)
qed

lemma int_mult8: "8 * t = int n \<Longrightarrow> n mod 8 = 0"
  by presburger

lemma parseBoc_ok:
  assumes "boc_fits es idx crc" "buf_bits src = boc_bits es idx crc @ buf_bits (boc_crc crc (boc_bits es idx crc))"
  shows "\<exists>boc. parseBoc src = Inr boc \<and> bc_size boc = int (boc_sz es) \<and> bc_cells boc = int (length es) \<and>
    bc_root boc = [0] \<and> buf_bits (bc_cellData boc) = concat (map (enc_cell (boc_sz es)) es)"
proof -
  let ?sz = "boc_sz es" and ?T = "boc_tot es" and ?i = "snd (boc_index es (int (boc_sz es)))"
  let ?off = "nbytes ?T" and ?body = "boc_bits es idx crc" and ?n = "int (length es)"
  define tail where "tail = buf_bits (boc_crc crc ?body)"
  let ?cells = "concat (map (enc_cell ?sz) es)"
    and ?index = "if idx then concat (map (bits_be (8 * ?off)) ?i) else []"
  note s = boc_fits_sizes [OF assms(1)]
  have ok: "\<forall>e \<in> set es. raw_ok ?sz e" using assms(1) by (simp add: boc_fits_def)
  have idx_len: "length ?i = length es" "8 * ?T = int (length ?cells)"
    using boc_index_ok [OF ok] by (simp_all add: boc_tot_def)
  have sz: "1 < (2::int) ^ (8 * ?sz)" "?sz \<le> 6" "?off \<le> 6" using s(1-4) by (simp_all add: one_less_power)
  have crc_len: "length (boc_crc crc ?body) \<le> 4" by (simp add: boc_crc_def length_crc32c)
  have src_len: "8 * length src = length ?body + 8 * length (boc_crc crc ?body)"
    using arg_cong [OF assms(2), of length] by simp
  then have small: "8 * length src < 2 ^ 31" using assms(1) crc_len by (simp add: boc_fits_def)
  let ?s = "\<lparr>bs_data = src, bs_offset = 0, bs_length = 8 * length src\<rparr>"
  have new: "new_BitString src 0 (int (length src) * 8) = Inr ?s" by (simp add: new_BitString_def nat_mult_distrib mult.commute)
  have r0: "rd_ok (new_BitReader ?s 0)" "rd_rest (new_BitReader ?s 0) = ?body @ tail"
    using rd_ok_new [of ?s] rd_rest_new [of ?s] bs_bits_whole [OF small] small assms(2) by (auto simp: wf_bs_def tail_def)
  note rest = r0(2) [unfolded boc_bits_def [of es] boc_body_def boc_header_def append_assoc]
  obtain r1 where 1: "BitReader_loadUint 32 (new_BitReader ?s 0) = Inr (0xb5ee9c72, r1)" "rd_ok r1"
    "rd_rest r1 = [idx] @ [crc] @ [False] @ bits_be 2 0 @ bits_be 3 (int ?sz) @ bits_be 8 (int ?off) @
      bits_be (8 * ?sz) ?n @ bits_be (8 * ?sz) 1 @ bits_be (8 * ?sz) 0 @ bits_be (8 * ?off) ?T @ bits_be (8 * ?sz) 0 @
      ?index @ ?cells @ tail"
    using loadUint_const [OF r0(1) rest] by auto
  obtain r2 where 2: "BitReader_loadUint 1 r1 = Inr (of_bool idx, r2)" "rd_ok r2"
    "rd_rest r2 = [crc] @ [False] @ bits_be 2 0 @ bits_be 3 (int ?sz) @ bits_be 8 (int ?off) @
      bits_be (8 * ?sz) ?n @ bits_be (8 * ?sz) 1 @ bits_be (8 * ?sz) 0 @ bits_be (8 * ?off) ?T @ bits_be (8 * ?sz) 0 @
      ?index @ ?cells @ tail"
    using loadUint_flag [OF 1(2,3)] by blast
  obtain r3 where 3: "BitReader_loadUint 1 r2 = Inr (of_bool crc, r3)" "rd_ok r3"
    "rd_rest r3 = [False] @ bits_be 2 0 @ bits_be 3 (int ?sz) @ bits_be 8 (int ?off) @
      bits_be (8 * ?sz) ?n @ bits_be (8 * ?sz) 1 @ bits_be (8 * ?sz) 0 @ bits_be (8 * ?off) ?T @ bits_be (8 * ?sz) 0 @
      ?index @ ?cells @ tail"
    using loadUint_flag [OF 2(2,3)] by blast
  obtain r4 where 4: "BitReader_loadUint 1 r3 = Inr (of_bool False, r4)" "rd_ok r4"
    "rd_rest r4 = bits_be 2 0 @ bits_be 3 (int ?sz) @ bits_be 8 (int ?off) @
      bits_be (8 * ?sz) ?n @ bits_be (8 * ?sz) 1 @ bits_be (8 * ?sz) 0 @ bits_be (8 * ?off) ?T @ bits_be (8 * ?sz) 0 @
      ?index @ ?cells @ tail"
    using loadUint_flag [OF 3(2,3)] by blast
  obtain r5 where 5: "BitReader_loadUint 2 r4 = Inr (0, r5)" "rd_ok r5"
    "rd_rest r5 = bits_be 3 (int ?sz) @ bits_be 8 (int ?off) @
      bits_be (8 * ?sz) ?n @ bits_be (8 * ?sz) 1 @ bits_be (8 * ?sz) 0 @ bits_be (8 * ?off) ?T @ bits_be (8 * ?sz) 0 @
      ?index @ ?cells @ tail"
    using loadUint_const [OF 4(2,3)] by auto
  obtain r6 where 6: "BitReader_loadUint 3 r5 = Inr (int ?sz, r6)" "rd_ok r6"
    "rd_rest r6 = bits_be 8 (int ?off) @
      bits_be (8 * ?sz) ?n @ bits_be (8 * ?sz) 1 @ bits_be (8 * ?sz) 0 @ bits_be (8 * ?off) ?T @ bits_be (8 * ?sz) 0 @
      ?index @ ?cells @ tail"
    using loadUint_const [OF 5(2,3)] s(2) by auto
  obtain r7 where 7: "BitReader_loadUint 8 r6 = Inr (int ?off, r7)" "rd_ok r7"
    "rd_rest r7 = bits_be (8 * ?sz) ?n @ bits_be (8 * ?sz) 1 @ bits_be (8 * ?sz) 0 @ bits_be (8 * ?off) ?T @
      bits_be (8 * ?sz) 0 @ ?index @ ?cells @ tail"
    using loadUint_const [OF 6(2,3)] s(4) by auto
  obtain r8 where 8: "BitReader_loadUint (int ?sz * 8) r7 = Inr (?n, r8)" "rd_ok r8"
    "rd_rest r8 = bits_be (8 * ?sz) 1 @ bits_be (8 * ?sz) 0 @ bits_be (8 * ?off) ?T @ bits_be (8 * ?sz) 0 @
      ?index @ ?cells @ tail"
    using loadUint_bytes [OF 7(2,3) _ s(5) sz(2)] by auto
  obtain r9 where 9: "BitReader_loadUint (int ?sz * 8) r8 = Inr (1, r9)" "rd_ok r9"
    "rd_rest r9 = bits_be (8 * ?sz) 0 @ bits_be (8 * ?off) ?T @ bits_be (8 * ?sz) 0 @ ?index @ ?cells @ tail"
    using loadUint_bytes [OF 8(2,3) _ sz(1,2)] by auto
  obtain r10 where 10: "BitReader_loadUint (int ?sz * 8) r9 = Inr (0, r10)" "rd_ok r10"
    "rd_rest r10 = bits_be (8 * ?off) ?T @ bits_be (8 * ?sz) 0 @ ?index @ ?cells @ tail"
    using loadUint_bytes [OF 9(2,3) _ _ sz(2)] by auto
  obtain r11 where 11: "BitReader_loadUint (int ?off * 8) r10 = Inr (?T, r11)" "rd_ok r11"
    "rd_rest r11 = bits_be (8 * ?sz) 0 @ ?index @ ?cells @ tail"
    using loadUint_bytes [OF 10(2,3) s(6,7) sz(3)] by auto
  obtain r12 where 12: "BitReader_loadUint (int ?sz * 8) r11 = Inr (0, r12)" "rd_ok r12"
    "rd_rest r12 = ?index @ ?cells @ tail"
    using loadUint_bytes [OF 11(2,3) _ _ sz(2)] by auto
  obtain ix r13 where 13: "(if of_bool idx \<noteq> (0::int)
        then bindE (BitReader_loadBuffer (?n * int ?off) r12) (\<lambda>(i, reader). Inr (Some i, reader))
        else Inr (None, r12)) = Inr (ix, r13)" "rd_ok r13" "rd_rest r13 = ?cells @ tail"
  proof (cases idx)
    case True
    have "int (length (concat (map (bits_be (8 * ?off)) ?i))) = 8 * (?n * int ?off)"
      using idx_len(1) by (simp add: length_concat_bits)
    with loadBuffer_next [OF 12(2), of "concat (map (bits_be (8 * ?off)) ?i)" "?cells @ tail"] 12(3) True that
    show ?thesis by force
  next
    case False
    with 12 that show ?thesis by simp
  qed
  obtain r14 where 14: "BitReader_loadBuffer ?T r13 = Inr (bytes_of_bits ?cells, r14)" "rd_ok r14" "rd_rest r14 = tail"
    using loadBuffer_next [OF 13(2,3)] idx_len(2) by force
  have crc: "(if of_bool crc \<noteq> (0::int) then check_crc src r14 else Inr ()) = Inr ()"
  proof (cases crc)
    case True
    have "length ?body mod 8 = 0" unfolding s(8) using s(6) by (auto simp: nat_mult_distrib)
    then have "buf_bits src = buf_bits (bytes_of_bits ?body @ boc_crc crc ?body)"
      using assms(2) buf_bits_bytes_of_bits by simp
    then have "src = bytes_of_bits ?body @ boc_crc crc ?body" by (rule buf_bits_inj)
    with True 14(2,3) show ?thesis by (simp add: check_crc_ok boc_crc_def tail_def)
  qed simp
  have root: "get_list (BitReader_loadUint (int ?sz * 8)) (nat 1) r11 = Inr ([0], r12)"
    using 12(1) by simp
  have "length ?cells mod 8 = 0" by (rule int_mult8 [OF idx_len(2)])
  then have data: "buf_bits (bytes_of_bits ?cells) = ?cells" by (rule buf_bits_bytes_of_bits)
  have "parseBoc src = Inr \<lparr>bc_size = int ?sz, bc_offBytes = int ?off, bc_cells = ?n, bc_roots = 1, bc_absent = 0,
      bc_totalCellSize = ?T, bc_index = ix, bc_cellData = bytes_of_bits ?cells, bc_root = [0]\<rparr>"
    unfolding parseBoc_def new bindE_simps 1(1) prod.case parseBoc_generic_def
      2(1) 3(1) 4(1) 5(1) 6(1) 7(1) 8(1) 9(1) 10(1) 11(1) root 13(1) 14(1) crc by simp
  with data show ?thesis by simp
qed

section \<open>The round trip\<close>

lemma bag_roundtrip:
  assumes "sha_ok sha" "built sha root" "collision_free root" "topo_ok root es"
    and "topologicalSort root = Inr es" "boc_fits es idx crc"
  shows "\<exists>src root'. serializeBoc root idx crc = Inr src \<and> deserializeBoc sha src = Inr [root'] \<and>
    xtree root' = xtree root \<and> cell_ok root'"
proof -
  obtain src where src: "serializeBoc root idx crc = Inr src"
    "buf_bits src = boc_bits es idx crc @ buf_bits (boc_crc crc (boc_bits es idx crc))"
    using serializeBoc_ok [OF assms(5,6)] by blast
  obtain boc where boc: "parseBoc src = Inr boc" "bc_size boc = int (boc_sz es)" "bc_cells boc = int (length es)"
    "bc_root boc = [0]" "buf_bits (bc_cellData boc) = concat (map (enc_cell (boc_sz es)) es)"
    using parseBoc_ok [OF assms(6) src(2)] by blast
  note s = boc_fits_sizes [OF assms(6)]
  have ok: "\<forall>e \<in> set es. raw_ok (boc_sz es) e" using assms(6) by (simp add: boc_fits_def)
  let ?w = "bc_cellData boc"
  let ?s = "\<lparr>bs_data = ?w, bs_offset = 0, bs_length = 8 * length ?w\<rparr>"
  have "8 * length ?w \<le> length (boc_bits es idx crc)"
    using arg_cong [OF boc(5), of length] by (simp add: boc_bits_def length_boc_body)
  then have small: "8 * length ?w < 2 ^ 31" using assms(6) by (simp add: boc_fits_def)
  have new: "new_BitString ?w 0 (int (length ?w) * 8) = Inr ?s" by (simp add: new_BitString_def nat_mult_distrib mult.commute)
  have r: "rd_ok (new_BitReader ?s 0)" "rd_rest (new_BitReader ?s 0) = concat (map (enc_cell (boc_sz es)) es) @ []"
    using rd_ok_new [of ?s] rd_rest_new [of ?s] bs_bits_whole [OF small] small boc(5) by (auto simp: wf_bs_def)
  obtain xs r' where xs: "get_list (readCell (int (boc_sz es))) (length es) (new_BitReader ?s 0) = Inr (xs, r')"
    "list_all2 raw_matches es xs"
    using readCells_ok [OF ok _ r] s(2) by auto
  obtain res where res: "foldE (boc_build sha xs) (rev [0..<length xs]) (replicate (length xs) None) = Inr res"
    "built_from es 0 res"
    using boc_build_all [OF assms(1,3,2,4) xs(2)] by blast
  have "0 < length es" using assms(4) by (auto simp: topo_ok_def)
  then obtain d where d: "res ! 0 = Some d" "xtree d = xtree (fst (es ! 0))" "cell_ok d" "length res = length es"
    using res(2) unfolding built_from_def by (metis not_less_zero)
  have "fst (es ! 0) \<in> subcells root" "Cell_hash (fst (es ! 0)) 3 = Cell_hash root 3"
    using assms(4) \<open>0 < length es\<close> by (auto simp: topo_ok_def entry_ok_def Let_def)
  then have "xtree (fst (es ! 0)) = xtree root" using assms(3) subcells_self [of root] unfolding collision_free_def by blast
  moreover have "deserializeBoc sha src = Inr [d]"
    unfolding deserializeBoc_def boc(1-4) bindE_simps new nat_int xs(1) prod.case res(1)
    using d(1,4) \<open>0 < length es\<close> by (simp add: boc_result_def)
  ultimately show ?thesis using src(1) d(2,3) by auto
qed

text \<open>
  The sort of a tree of at most \<open>2 ^ 20\<close> distinct cells is small enough to be written: each
  cell takes at most 142 bytes, and its index entry four.
\<close>

lemma topo_raw_ok:
  assumes "sha_ok sha" "built sha root" "topo_ok root es" "\<forall>c \<in> subcells root. length (cell_refs c) \<le> 4"
    and "int (length es) \<le> 2 ^ (8 * sz)" "e \<in> set es"
  shows "raw_ok sz e"
proof -
  obtain i where i: "i < length es" "e = es ! i" using assms(6) by (auto simp: in_set_conv_nth)
  with assms(3) have e: "fst e \<in> subcells root" "length (snd e) = length (cell_refs (fst e))"
    "\<forall>k < length (snd e). int i < snd e ! k \<and> snd e ! k < int (length es)"
    by (auto simp: topo_ok_def entry_ok_def Let_def)
  have "\<forall>j \<in> set (snd e). 0 \<le> j \<and> j < 2 ^ (8 * sz)"
  proof
    fix j assume "j \<in> set (snd e)"
    then obtain k where "k < length (snd e)" "j = snd e ! k" by (auto simp: in_set_conv_nth)
    with e(3) have "int i < j" "j < int (length es)" by blast+
    with assms(5) show "0 \<le> j \<and> j < 2 ^ (8 * sz)" by linarith
  qed
  with e(1,2) assms(4) built_ok [OF subcells_built [OF e(1) assms(1,2)] assms(1)] show ?thesis
    by (simp add: raw_ok_def)
qed

lemma finite_subcells: "finite (subcells c)"
proof (induction c rule: measure_induct_rule [of size])
  case (less c)
  then show ?case using cell_size_refs by (auto simp: subcells_simp [of c])
qed

lemma topo_length:
  assumes "topo_ok root es"
  shows "length es \<le> card (subcells root)"
proof -
  have "distinct (map fst es)"
    using assms distinct_map [of "\<lambda>c. Cell_hash c 3" "map fst es"] by (simp add: topo_ok_def comp_def)
  moreover have "set (map fst es) \<subseteq> subcells root"
    using assms by (fastforce simp: topo_ok_def entry_ok_def Let_def in_set_conv_nth)
  ultimately have "length (map fst es) \<le> card (subcells root)"
    by (metis card_mono distinct_card finite_subcells)
  then show ?thesis by simp
qed

lemma enc_cell_bound:
  assumes "raw_ok sz e" "sz \<le> 3"
  shows "length (enc_cell sz e) \<le> 1136"
proof -
  have b: "bs_length (cell_bits (fst e)) \<le> 1023" "length (cell_refs (fst e)) \<le> 4"
    using assms(1) by (auto simp: raw_ok_def cell_ok_def)
  have "(bs_length (cell_bits (fst e)) + 7) div 8 \<le> 128" using b(1) by linarith
  moreover have "length (cell_refs (fst e)) * sz \<le> 4 * 3" using b(2) assms(2) by (intro mult_mono) auto
  then have "int (length (cell_refs (fst e))) * int sz \<le> 12" by (metis of_nat_le_iff of_nat_mult of_nat_numeral mult_numeral_1 numeral_times_numeral semiring_norm)
  ultimately have "int (length (enc_cell sz e)) \<le> 1136"
    unfolding enc_cell_size(1) [OF assms(1)] by (simp add: calcCellSize_def ceil8_nat)
  then show ?thesis by simp
qed

lemma boc_fits_small:
  assumes "sha_ok sha" "built sha root" "topo_ok root es" "\<forall>c \<in> subcells root. length (cell_refs c) \<le> 4"
    and "card (subcells root) \<le> 2 ^ 20"
  shows "boc_fits es idx crc"
proof -
  let ?n = "length es" and ?sz = "boc_sz es" and ?off = "nbytes (boc_tot es)"
  have n: "?n \<le> 2 ^ 20" using topo_length [OF assms(3)] assms(5) by simp
  have sz: "?sz \<le> 3" using nbytes_le [of "int ?n" 3] n by (simp add: boc_sz_def)
  have ok: "raw_ok ?sz e" if "e \<in> set es" for e
    using topo_raw_ok [OF assms(1-4) _ that, of ?sz] nbytes_bound [of "int ?n"] by (simp add: boc_sz_def)
  have "length (concat (map (enc_cell ?sz) xs)) \<le> 1136 * length xs" if "set xs \<subseteq> set es" for xs
    using that
  proof (induction xs)
    case (Cons x xs)
    with enc_cell_bound [OF ok [of x] sz] show ?case by simp
  qed simp
  from this [of es] n have cells: "length (concat (map (enc_cell ?sz) es)) \<le> 1136 * 2 ^ 20" by simp
  note i = boc_index_ok [of es ?sz]
  have T: "8 * boc_tot es = int (length (concat (map (enc_cell ?sz) es)))" using i ok by (simp add: boc_tot_def)
  then have "0 \<le> boc_tot es" "boc_tot es < 2 ^ 32" using cells by simp_all
  then have off: "?off \<le> 4" using nbytes_le [of "boc_tot es" 4] by simp
  have "?off * ?n \<le> 4 * 2 ^ 20" using off n by (intro mult_mono) auto
  then have "length (boc_bits es idx crc) \<le> 8 * (6 + 4 * 3 + 4) + 8 * (4 * 2 ^ 20) + 1136 * 2 ^ 20"
    using cells sz off i ok unfolding boc_bits_def length_boc_body by auto
  with ok show ?thesis by (simp add: boc_fits_def)
qed

end
