(* ===== verification/Boc_Safety.thy ===== *)
theory Boc_Safety
  imports Boc Padded_Bits
begin

text \<open>
  Reading a bag of cells from bytes that nobody has checked: every read keeps the reader inside its
  bits, and every cell that comes out was built by the constructor from well-formed parts.
\<close>

text \<open>What a load keeps when it returns: the reader stays in its bits, and the value satisfies \<open>P\<close>.\<close>

definition keeps :: "'a load \<Rightarrow> ('a \<Rightarrow> bool) \<Rightarrow> bool" where
  "keeps f P \<longleftrightarrow> (\<forall>r v r'. rd_ok r \<longrightarrow> f r = Inr (v, r') \<longrightarrow> rd_ok r' \<and> P v)"

lemma keepsD: "keeps f P \<Longrightarrow> f r = Inr (v, r') \<Longrightarrow> rd_ok r \<Longrightarrow> rd_ok r' \<and> P v"
  by (simp add: keeps_def)

lemma keeps_bind:
  assumes "keeps f P" "\<And>v. P v \<Longrightarrow> keeps (g v) Q"
  shows "keeps (\<lambda>r. bindE (f r) (\<lambda>(v, r). g v r)) Q"
  unfolding keeps_def
proof (intro allI impI)
  fix r w r'' assume r: "rd_ok r" "bindE (f r) (\<lambda>(v, r). g v r) = Inr (w, r'')"
  obtain v r' where v: "f r = Inr (v, r')" "g v r' = Inr (w, r'')" using r(2) by (auto simp: bindE_eq_Inr)
  have "rd_ok r'" "P v" using keepsD [OF assms(1) v(1) r(1)] by blast+
  then show "rd_ok r'' \<and> Q w" using keepsD [OF assms(2) v(2)] by blast
qed

lemma keeps_return: "P v \<Longrightarrow> keeps (\<lambda>r. Inr (v, r)) P"
  by (simp add: keeps_def)

lemma keeps_le: "keeps f P \<Longrightarrow> (\<And>v. P v \<Longrightarrow> Q v) \<Longrightarrow> keeps f Q"
  by (auto simp: keeps_def)

lemma keeps_if: "(b \<Longrightarrow> keeps f P) \<Longrightarrow> (\<not> b \<Longrightarrow> keeps g P) \<Longrightarrow> keeps (\<lambda>r. if b then f r else g r) P"
  by (auto simp: keeps_def)

lemma keeps_uint:
  assumes "0 \<le> n"
  shows "keeps (BitReader_loadUint n) (\<lambda>v. 0 \<le> v)"
  unfolding keeps_def
proof (intro allI impI)
  fix r v r' assume r: "rd_ok r" "BitReader_loadUint n r = Inr (v, r')"
  obtain k where k: "n = int k" using assms nonneg_int_cases by blast
  have "k \<le> length (rd_rest r)"
    using loadUintBig_short [OF r(1), of k] r(2) k by (force simp: BitReader_loadUint_def)
  then show "rd_ok r' \<and> 0 \<le> v"
    using loadUintBig_total [OF r(1), of k] r(2) k rd_ok_move [OF r(1), of k]
    by (auto simp: BitReader_loadUint_def to_number_nonneg)
qed

lemma keeps_buffer:
  assumes "0 \<le> n"
  shows "keeps (BitReader_loadBuffer n) (\<lambda>w. 8 * length w < 2 ^ 31)"
  unfolding keeps_def
proof (intro allI impI)
  fix r w r' assume r: "rd_ok r" "BitReader_loadBuffer n r = Inr (w, r')"
  obtain k where k: "n = int k" using assms nonneg_int_cases by blast
  obtain x where "BitString_subbuffer (rd_bits r) (rd_offset r) (n * 8) = Inr x"
    using r(2) by (auto simp: BitReader_loadBuffer_def BitReader_preloadBuffer_at_def bindE_eq_Inr)
  then have "rd_offset r + n * 8 \<le> int (bs_length (rd_bits r))"
    by (auto simp: BitString_subbuffer_def split: if_splits)
  then have le: "8 * k \<le> length (rd_rest r)"
    using length_rd_rest [OF r(1)] k by (simp add: BitReader_remaining_def)
  then show "rd_ok r' \<and> 8 * length w < 2 ^ 31"
    using preloadBuffer_total [OF r(1), of 0 k] r(2) k rd_ok_move [OF r(1) le] rd_rest_bound [OF r(1)]
    by (auto simp: BitReader_loadBuffer_def mult.commute)
qed

lemma substring_inside:
  assumes "rd_ok r" "BitString_substring (rd_bits r) (rd_offset r) n = Inr s" "0 \<le> m" "m + rd_offset r \<le> int (bs_length (rd_bits r))"
  shows "rd_ok (rd_move m r) \<and> wf_bs s"
  using assms by (auto simp: BitString_substring_def new_BitString_def BitString_EMPTY_def rd_ok_def wf_bs_def split: if_splits)

lemma keeps_bits:
  assumes "0 < n"
  shows "keeps (BitReader_loadBits n) wf_bs"
  unfolding keeps_def
proof (intro allI impI)
  fix r s r' assume r: "rd_ok r" "BitReader_loadBits n r = Inr (s, r')"
  then have "BitString_substring (rd_bits r) (rd_offset r) n = Inr s" "r' = rd_move n r"
    by (auto simp: BitReader_loadBits_def bindE_eq_Inr)
  moreover from this have "n + rd_offset r \<le> int (bs_length (rd_bits r))"
    using assms by (auto simp: BitString_substring_def split: if_splits)
  ultimately show "rd_ok r' \<and> wf_bs s" using substring_inside [OF r(1), of n s n] assms by simp
qed

lemma keeps_padded:
  assumes "0 < n"
  shows "keeps (BitReader_loadPaddedBits n) wf_bs"
  unfolding keeps_def
proof (intro allI impI)
  fix r s r' assume r: "rd_ok r" "BitReader_loadPaddedBits n r = Inr (s, r')"
  obtain len where len: "loadPaddedBits_loop r n = Inr len" "BitString_substring (rd_bits r) (rd_offset r) len = Inr s"
    "r' = rd_move n r" using r(2) by (auto simp: BitReader_loadPaddedBits_def bindE_eq_Inr split: if_splits)
  have "rd_offset r + n - 1 < int (bs_length (rd_bits r))"
    using len(1) by (subst (asm) loadPaddedBits_loop.simps) (auto simp: BitString_at_def bindE_eq_Inr split: if_splits)
  then show "rd_ok r' \<and> wf_bs s" using substring_inside [OF r(1) len(2), of n] len(3) assms by simp
qed

lemma keeps_list: "keeps f P \<Longrightarrow> keeps (get_list f n) (\<lambda>vs. \<forall>v \<in> set vs. P v)"
proof (induction n)
  case (Suc n)
  have "keeps (\<lambda>r. bindE (f r) (\<lambda>(v, r). bindE (get_list f n r) (\<lambda>(vs, r). Inr (v # vs, r)))) (\<lambda>vs. \<forall>v \<in> set vs. P v)"
    by (rule keeps_bind [OF Suc.prems], rule keeps_bind [OF Suc.IH [OF Suc.prems]], rule keeps_return) simp
  then show ?case by (simp add: keeps_def)
qed (simp add: keeps_def)

lemma keeps_skip:
  assumes "keeps g P"
  shows "keeps (\<lambda>r. bindE (BitReader_skip n r) g) P"
  unfolding keeps_def
proof (intro allI impI)
  fix r v r' assume r: "rd_ok r" "bindE (BitReader_skip n r) g = Inr (v, r')"
  then have n: "0 \<le> n" "rd_offset r + n \<le> int (bs_length (rd_bits r))" "g (rd_move n r) = Inr (v, r')"
    by (auto simp: BitReader_skip_def split: if_splits)
  then have "rd_ok (rd_move n r)" using r(1) by (simp add: rd_ok_def)
  with keepsD [OF assms n(3)] show "rd_ok r' \<and> P v" by simp
qed

lemma keeps_cell_bits:
  "keeps (\<lambda>r. if 0 < n then if padded then BitReader_loadPaddedBits (n * 8) r else BitReader_loadBits (n * 8) r
     else Inr (BitString_EMPTY, r)) wf_bs"
  by (rule keeps_if, rule keeps_if, rule keeps_padded, simp, rule keeps_bits, simp, rule keeps_return, simp)

lemma keeps_readCell: "0 \<le> n \<Longrightarrow> keeps (readCell n) (\<lambda>c. wf_bs (rc_bits c))"
  unfolding readCell_def [abs_def] Let_def
  by (rule keeps_bind [OF keeps_uint], simp, rule keeps_bind [OF keeps_uint], simp,
      rule keeps_skip, rule keeps_skip, rule keeps_bind [OF keeps_cell_bits],
      rule keeps_bind [OF keeps_list [OF keeps_uint]], simp, rule keeps_return, simp)

section \<open>The layouts\<close>

definition boc_ok :: "boc \<Rightarrow> bool" where
  "boc_ok b \<longleftrightarrow> 0 \<le> bc_size b \<and> 8 * length (bc_cellData b) < 2 ^ 31"

lemma keeps_indexed: "keeps parseBoc_indexed boc_ok"
  unfolding parseBoc_indexed_def [abs_def]
  by ((rule keeps_bind [OF keeps_uint], simp)+, (rule keeps_bind [OF keeps_buffer], simp)+, rule keeps_return)
    (simp add: boc_ok_def)

text \<open>The generic layout ends with a check instead of a reader.\<close>

definition ends_in :: "(bit_reader \<Rightarrow> 'a res) \<Rightarrow> ('a \<Rightarrow> bool) \<Rightarrow> bool" where
  "ends_in f P \<longleftrightarrow> (\<forall>r v. rd_ok r \<longrightarrow> f r = Inr v \<longrightarrow> P v)"

lemma ends_in_bind:
  assumes "keeps f P" "\<And>v. P v \<Longrightarrow> ends_in (g v) Q"
  shows "ends_in (\<lambda>r. bindE (f r) (\<lambda>(v, r). g v r)) Q"
  unfolding ends_in_def
proof (intro allI impI)
  fix r w assume r: "rd_ok r" "bindE (f r) (\<lambda>(v, r). g v r) = Inr w"
  obtain v r' where v: "f r = Inr (v, r')" "g v r' = Inr w" using r(2) by (auto simp: bindE_eq_Inr)
  have "rd_ok r'" "P v" using keepsD [OF assms(1) v(1) r(1)] by blast+
  then show "Q w" using assms(2) v(2) unfolding ends_in_def by blast
qed

lemma generic_ok: "ends_in (parseBoc_generic src) boc_ok"
proof -
  have index: "keeps (\<lambda>r. if i then bindE (BitReader_loadBuffer n r) (\<lambda>(i, r). Inr (Some i, r)) else Inr (None, r)) (\<lambda>_. True)"
    if "0 \<le> n" for i n
    by (intro keeps_if keeps_bind [OF keeps_buffer [OF that]] keeps_return) simp_all
  show ?thesis
    unfolding parseBoc_generic_def [abs_def]
    by ((rule ends_in_bind [OF keeps_uint], simp)+, rule ends_in_bind [OF keeps_list [OF keeps_uint]], simp,
        rule ends_in_bind [OF index], simp, rule ends_in_bind [OF keeps_buffer], simp)
      (auto simp: ends_in_def bindE_eq_Inr boc_ok_def)
qed

lemma parseBoc_boc_ok:
  assumes "8 * length src < 2 ^ 31" "parseBoc src = Inr b"
  shows "boc_ok b"
proof -
  let ?s = "\<lparr>bs_data = src, bs_offset = 0, bs_length = 8 * length src\<rparr>"
  have s: "new_BitString src 0 (int (length src) * 8) = Inr ?s" by (simp add: new_BitString_def)
  have "rd_ok (new_BitReader ?s 0)" using assms(1) by (intro rd_ok_new) (simp add: wf_bs_def)
  moreover obtain magic r where r: "BitReader_loadUint 32 (new_BitReader ?s 0) = Inr (magic, r)"
    using assms(2) s by (auto simp: parseBoc_def bindE_eq_Inr)
  ultimately have r1: "rd_ok r" using keepsD [OF keeps_uint r] by simp
  then show ?thesis
    using assms(2) s r generic_ok r1 keepsD [OF keeps_indexed _ r1]
    by (auto simp: parseBoc_def ends_in_def bindE_eq_Inr split: if_splits)
qed

section \<open>The cells\<close>

lemma boc_result_some: "boc_result results j = Inr c \<Longrightarrow> Some c \<in> set results"
  by (auto simp: boc_result_def nat_less_iff split: if_splits option.splits) (metis nth_mem nat_less_iff not_less)

lemma mapE_results: "mapE (boc_result results) js = Inr cs \<Longrightarrow> \<forall>c \<in> set cs. Some c \<in> set results"
  by (induction js arbitrary: cs) (auto simp: bindE_eq_Inr dest: boc_result_some)

lemma boc_build_built:
  assumes "\<forall>c. Some c \<in> set results \<longrightarrow> built sha c" "wf_bs (rc_bits (cells ! i))" "boc_build sha cells i results = Inr results'"
  shows "\<forall>c. Some c \<in> set results' \<longrightarrow> built sha c"
proof -
  obtain refs c where c: "mapE (boc_result results) (rc_refs (cells ! i)) = Inr refs"
    "new_Cell sha (rc_exotic (cells ! i)) (rc_bits (cells ! i)) refs = Inr c" "results' = results[i := Some c]"
    using assms(3) by (auto simp: boc_build_def bindE_eq_Inr split: if_splits)
  have "\<forall>r \<in> set refs. built sha r" using mapE_results [OF c(1)] assms(1) by blast
  then have "built sha c" using built_new assms(2) c(2) by blast
  then show ?thesis using assms(1) c(3) set_update_subset_insert [of results i "Some c"] by auto
qed

lemma boc_builds_built:
  assumes "foldE (boc_build sha cells) is results = Inr results'" "\<forall>c. Some c \<in> set results \<longrightarrow> built sha c"
    and "\<forall>i \<in> set is. wf_bs (rc_bits (cells ! i))"
  shows "\<forall>c. Some c \<in> set results' \<longrightarrow> built sha c"
  using assms
proof (induction "is" arbitrary: results)
  case (Cons i "is")
  then obtain u where u: "boc_build sha cells i results = Inr u" "foldE (boc_build sha cells) is u = Inr results'"
    by (auto simp: bindE_eq_Inr)
  with Cons.IH [OF u(2)] boc_build_built [OF Cons.prems(2) _ u(1)] Cons.prems(3) show ?case by simp
qed simp

theorem deserializeBoc_built:
  assumes "8 * length src < 2 ^ 31" "deserializeBoc sha src = Inr cs"
  shows "\<forall>c \<in> set cs. built sha c"
proof -
  obtain b where b: "parseBoc src = Inr b" "boc_ok b"
    using assms parseBoc_boc_ok by (auto simp: deserializeBoc_def bindE_eq_Inr)
  let ?s = "\<lparr>bs_data = bc_cellData b, bs_offset = 0, bs_length = 8 * length (bc_cellData b)\<rparr>"
  have s: "new_BitString (bc_cellData b) 0 (int (length (bc_cellData b)) * 8) = Inr ?s" by (simp add: new_BitString_def)
  have rd: "rd_ok (new_BitReader ?s 0)" using b(2) by (intro rd_ok_new) (simp add: wf_bs_def boc_ok_def)
  obtain cells r results where c: "get_list (readCell (bc_size b)) (nat (bc_cells b)) (new_BitReader ?s 0) = Inr (cells, r)"
    "foldE (boc_build sha cells) (rev [0..<length cells]) (replicate (length cells) None) = Inr results"
    "mapE (boc_result results) (bc_root b) = Inr cs"
    using assms(2) b(1) s by (auto simp: deserializeBoc_def bindE_eq_Inr)
  have "\<forall>c \<in> set cells. wf_bs (rc_bits c)"
    using keepsD [OF keeps_list [OF keeps_readCell] c(1) rd] b(2) by (simp add: boc_ok_def)
  then have "\<forall>i \<in> set (rev [0..<length cells]). wf_bs (rc_bits (cells ! i))" by simp
  from boc_builds_built [OF c(2) _ this] mapE_results [OF c(3)] show ?thesis by auto
qed

end
