(* ===== verification/Dict_Tree.thy ===== *)
theory Dict_Tree
  imports Cell_Slice
begin

text \<open>
  The binary tree behind a dictionary and its serialised form (ton-core/dict/serializeDict.ts,
  utils/findCommonPrefix.ts): keys are strings of binary digits, an edge carries the common
  prefix of the keys below it, and a label is written in the shortest of three ways. A
  JavaScript \<open>Map\<close> is a list of pairs in the order of insertion.
\<close>

section \<open>Building the tree\<close>

definition pad :: "string \<Rightarrow> nat \<Rightarrow> string" where
  "pad src sz = replicate (sz - length src) (CHR ''0'') @ src"

text \<open>\<open>s.indexOf(r, startPos) === startPos\<close>\<close>

definition prefix_at :: "string \<Rightarrow> string \<Rightarrow> nat \<Rightarrow> bool" where
  "prefix_at r s startPos \<longleftrightarrow> startPos \<le> length s \<and> take (length r) (drop startPos s) = r"

text \<open>The inner loop: the candidate is shortened until it is a prefix of \<open>s\<close>; the empty string stays.\<close>

function fcp_shrink :: "nat \<Rightarrow> string \<Rightarrow> string \<Rightarrow> string" where
  "fcp_shrink startPos s r =
     (if prefix_at r s startPos then r
      else let r' = butlast r in if r' = [] then r' else fcp_shrink startPos s r')"
  by pat_completeness auto
termination
proof (relation "measure (\<lambda>(p, s, r). length r)", goal_cases)
  case (2 p s r r')
  then show ?case by (cases r) auto
qed simp

declare fcp_shrink.simps [simp del]

definition findCommonPrefix :: "string list \<Rightarrow> nat \<Rightarrow> string" where
  "findCommonPrefix src startPos =
     (case src of [] \<Rightarrow> []
      | s # ss \<Rightarrow> fold (fcp_shrink startPos) ss (drop startPos s))"

type_synonym 'v smap = "(string \<times> 'v) list"

definition removePrefixMap :: "'v smap \<Rightarrow> nat \<Rightarrow> 'v smap" where
  "removePrefixMap src len =
     (if len = 0 then src
      else foldl (\<lambda>res (k, d). AList.update (drop len k) d res) [] src)"

definition left_key :: "nat \<Rightarrow> string \<Rightarrow> bool" where \<comment> \<open>\<open>k[prefixLen] === '0'\<close>\<close>
  "left_key prefixLen k \<longleftrightarrow> prefixLen < length k \<and> k ! prefixLen = CHR ''0''"

definition forkMap :: "'v smap \<Rightarrow> nat \<Rightarrow> ('v smap \<times> 'v smap) res" where
  "forkMap src prefixLen =
     (if src = [] then Inl Inconsistency
      else case foldl (\<lambda>(l, r) (k, d). if left_key prefixLen k then (AList.update k d l, r)
                                      else (l, AList.update k d r)) ([], []) src of
        (l, r) \<Rightarrow> if l = [] then Inl Inconsistency else if r = [] then Inl Inconsistency else Inr (l, r))"

datatype 'v dict_node = Leaf 'v | Fork "'v dict_edge" "'v dict_edge"
  and 'v dict_edge = Edge (edge_label: string) (edge_node: "'v dict_node")

lemma length_update_le: "length (AList.update k v xs) \<le> Suc (length xs)"
  by (induction xs) auto

lemma forkMap_length:
  assumes "forkMap src p = Inr (l, r)"
  shows "length l < length src" "length r < length src"
proof -
  let ?f = "\<lambda>(l, r) (k, d). if left_key p k then (AList.update k d l, r) else (l, AList.update k d r)"
  have "length (fst (foldl ?f (a, b) xs)) + length (snd (foldl ?f (a, b) xs)) \<le> length a + length b + length xs"
    for a b xs
  proof (induction xs arbitrary: a b)
    case (Cons x xs)
    obtain k d where x: "x = (k, d)" by (cases x)
    show ?case
      using Cons.IH [of "AList.update k d a" b] Cons.IH [of a "AList.update k d b"]
        length_update_le [of k d a] length_update_le [of k d b] x by (auto simp: split_beta)
  qed simp
  from this [of "[]" "[]" src] assms have "length l + length r \<le> length src" "l \<noteq> []" "r \<noteq> []"
    by (auto simp: forkMap_def split: prod.splits if_splits)
  then show "length l < length src" "length r < length src"
    by (simp_all flip: length_greater_0_conv)
qed

function buildNode :: "'v smap \<Rightarrow> nat \<Rightarrow> 'v dict_node res"
  and buildEdge :: "'v smap \<Rightarrow> nat \<Rightarrow> 'v dict_edge res" where
  "buildNode src prefixLen =
     (if src = [] then Inl Inconsistency
      else if length src = 1 then Inr (Leaf (snd (hd src)))
      else bindE (forkMap src prefixLen) (\<lambda>(l, r).
           bindE (buildEdge l (prefixLen + 1)) (\<lambda>el.
           bindE (buildEdge r (prefixLen + 1)) (\<lambda>er. Inr (Fork el er)))))"
| "buildEdge src prefixLen =
     (if src = [] then Inl Inconsistency
      else let label = findCommonPrefix (map fst src) prefixLen
           in bindE (buildNode src (length label + prefixLen)) (\<lambda>node. Inr (Edge label node)))"
  by pat_completeness auto
termination
proof (relation "measure (case_sum (\<lambda>(src, p). 2 * length src) (\<lambda>(src, p). 2 * length src + 1))", goal_cases)
  case (2 src p _ l r)
  then show ?case using forkMap_length [of src p l r] by simp
next
  case (3 src p _ l r)
  then show ?case using forkMap_length [of src p l r] by simp
qed simp_all

declare buildNode.simps [simp del] buildEdge.simps [simp del]

definition buildTree :: "(int \<times> 'v) list \<Rightarrow> nat \<Rightarrow> 'v dict_edge res" where
  "buildTree src keyLength =
     buildEdge (foldl (\<lambda>converted (k, v). AList.update (pad (to_string_radix 2 k) keyLength) v converted) [] src) 0"

section \<open>Labels\<close>

text \<open>
  \<open>Math.ceil(Math.log2(n + 1))\<close>: exact for the key lengths that occur; the logarithm of 0 is
  \<open>-Infinity\<close> and that of a negative number NaN.
\<close>

datatype js_len = Len nat | NegInf | NaN

definition log2_ceil :: "int \<Rightarrow> js_len" where
  "log2_ceil n = (if n + 1 < 0 then NaN else if n + 1 = 0 then NegInf else Len (bit_length (nat n)))"

text \<open>\<open>storeUint(v, len)\<close>: a width that is no safe integer is refused.\<close>

definition store_len :: "int \<Rightarrow> js_len \<Rightarrow> builder \<Rightarrow> builder res" where
  "store_len v len b =
     (case len of Len n \<Rightarrow> Builder_storeUint (Num v) (int n) b | _ \<Rightarrow> Inl InvalidBitLength)"

definition store_digits :: "string \<Rightarrow> builder \<Rightarrow> builder res" where
  "store_digits src to =
     (if length src > 0
      then bindE (parse_bin src) (\<lambda>v. Builder_storeUint (Big v) (int (length src)) to)
      else Inr to)"

definition writeLabelShort :: "string \<Rightarrow> builder \<Rightarrow> builder res" where
  "writeLabelShort src to =
     bindE (Builder_storeBit (BitNum 0) to) (\<lambda>to.
     bindE (foldE (\<lambda>_. Builder_storeBit (BitNum 1)) [0..<length src] to) (\<lambda>to.
     bindE (Builder_storeBit (BitNum 0) to) (store_digits src)))"

definition labelShortLength :: "string \<Rightarrow> nat" where
  "labelShortLength src = 1 + length src + 1 + length src"

definition writeLabelLong :: "string \<Rightarrow> int \<Rightarrow> builder \<Rightarrow> builder res" where
  "writeLabelLong src keyLength to =
     bindE (Builder_storeBit (BitNum 1) to) (\<lambda>to.
     bindE (Builder_storeBit (BitNum 0) to) (\<lambda>to.
     bindE (store_len (int (length src)) (log2_ceil keyLength) to) (store_digits src)))"

definition labelLongLength :: "string \<Rightarrow> int \<Rightarrow> js_len" where
  "labelLongLength src keyLength =
     (case log2_ceil keyLength of Len n \<Rightarrow> Len (1 + 1 + n + length src) | NegInf \<Rightarrow> NegInf | NaN \<Rightarrow> NaN)"

definition writeLabelSame :: "bitval \<Rightarrow> int \<Rightarrow> int \<Rightarrow> builder \<Rightarrow> builder res" where
  "writeLabelSame v len keyLength to =
     bindE (Builder_storeBit (BitNum 1) to) (\<lambda>to.
     bindE (Builder_storeBit (BitNum 1) to) (\<lambda>to.
     bindE (Builder_storeBit v to) (store_len len (log2_ceil keyLength))))"

definition labelSameLength :: "int \<Rightarrow> js_len" where
  "labelSameLength keyLength =
     (case log2_ceil keyLength of Len n \<Rightarrow> Len (1 + 1 + 1 + n) | NegInf \<Rightarrow> NegInf | NaN \<Rightarrow> NaN)"

definition isSame :: "string \<Rightarrow> bool" where
  "isSame src \<longleftrightarrow>
     (if length src = 0 \<or> length src = 1 then True
      else list_all (\<lambda>i. src ! i = src ! 0) [1..<length src])"

datatype label_kind = Short | Long | Same

definition len_less :: "js_len \<Rightarrow> js_len \<Rightarrow> bool" where \<comment> \<open>\<open><\<close> on these numbers; NaN is not less than anything\<close>
  "len_less a b \<longleftrightarrow> (case (a, b) of (Len m, Len n) \<Rightarrow> m < n | (NegInf, Len n) \<Rightarrow> True | _ \<Rightarrow> False)"

definition detectLabelType :: "string \<Rightarrow> int \<Rightarrow> label_kind" where
  "detectLabelType src keyLength =
     (let kind = Short; kindLength = Len (labelShortLength src);
          longLength = labelLongLength src keyLength;
          (kind, kindLength) = (if len_less longLength kindLength then (Long, longLength) else (kind, kindLength))
      in if isSame src \<and> len_less (labelSameLength keyLength) kindLength then Same else kind)"

definition writeLabel :: "string \<Rightarrow> int \<Rightarrow> builder \<Rightarrow> builder res" where
  "writeLabel src keyLength to =
     (case detectLabelType src keyLength of
        Short \<Rightarrow> writeLabelShort src to
      | Long \<Rightarrow> writeLabelLong src keyLength to
      | Same \<Rightarrow> writeLabelSame (BitBool (src \<noteq> [] \<and> hd src = CHR ''1'')) (int (length src)) keyLength to)"

section \<open>Writing the tree\<close>

fun writeNode :: "(buffer \<Rightarrow> buffer) \<Rightarrow> 'v dict_node \<Rightarrow> int \<Rightarrow> ('v \<Rightarrow> builder \<Rightarrow> builder res) \<Rightarrow> builder \<Rightarrow> builder res"
  and writeEdge :: "(buffer \<Rightarrow> buffer) \<Rightarrow> 'v dict_edge \<Rightarrow> int \<Rightarrow> ('v \<Rightarrow> builder \<Rightarrow> builder res) \<Rightarrow> builder \<Rightarrow> builder res" where
  "writeNode sha (Leaf v) keyLength serializer to = serializer v to"
| "writeNode sha (Fork l r) keyLength serializer to =
     bindE (writeEdge sha l (keyLength - 1) serializer new_Builder) (\<lambda>leftCell.
     bindE (writeEdge sha r (keyLength - 1) serializer new_Builder) (\<lambda>rightCell.
     bindE (Builder_storeRef sha (ABuilder leftCell) to) (\<lambda>to.
     Builder_storeRef sha (ABuilder rightCell) to)))"
| "writeEdge sha (Edge label node) keyLength serializer to =
     bindE (writeLabel label keyLength to) (\<lambda>to.
     writeNode sha node (keyLength - int (length label)) serializer to)"

definition serializeDict ::
    "(buffer \<Rightarrow> buffer) \<Rightarrow> (int \<times> 'v) list \<Rightarrow> int \<Rightarrow> ('v \<Rightarrow> builder \<Rightarrow> builder res) \<Rightarrow> builder \<Rightarrow> builder res" where
  "serializeDict sha src keyLength serializer to =
     bindE (buildTree src (nat keyLength)) (\<lambda>tree. writeEdge sha tree keyLength serializer to)"

section \<open>Reading the tree\<close>

text \<open>
  \<open>loadUint(len)\<close>: for a width that is no number the loop of the reader runs zero times. The
  reader is then left without a position; the code that follows such a load only takes
  references from the slice.
\<close>

definition load_len :: "js_len \<Rightarrow> int sload" where
  "load_len len s = (case len of Len n \<Rightarrow> Slice_loadUint (int n) s | _ \<Rightarrow> Inr (0, s))"

definition slice_left :: "slice \<Rightarrow> nat" where
  "slice_left s = nat (int (bs_length (rd_bits (sl_reader s))) - rd_offset (sl_reader s))"

lemma loadBit_left:
  "Slice_loadBit s = Inr (b, s') \<Longrightarrow> slice_left s' < slice_left s \<and> sl_refs s' = sl_refs s \<and> sl_refsOffset s' = sl_refsOffset s"
  by (auto simp: Slice_loadBit_def lift_load_def BitReader_loadBit_def BitString_at_def slice_left_def split: if_splits)

function readUnary :: "int \<Rightarrow> int sload" where
  "readUnary res s = bindE (Slice_loadBit s) (\<lambda>(b, s). if b then readUnary (res + 1) s else Inr (res, s))"
  by pat_completeness auto
termination
  by (relation "measure (\<lambda>(res, s). slice_left s)") (auto dest: loadBit_left)

declare readUnary.simps [simp del]

definition readUnaryLength :: "int sload" where
  "readUnaryLength = readUnary 0"

definition bit_digit :: "bool \<Rightarrow> string" where
  "bit_digit b = (if b then ''1'' else ''0'')"

definition load_digits :: "int \<Rightarrow> string \<Rightarrow> string sload" where
  "load_digits n pp s =
     foldE (\<lambda>_ (pp, s). bindE (Slice_loadBit s) (\<lambda>(b, s). Inr (pp @ bit_digit b, s))) [0..<nat n] (pp, s)"

text \<open>The label at the head of an edge: its digits appended to the prefix, and its length.\<close>

definition readLabel :: "string \<Rightarrow> int \<Rightarrow> (string \<times> int) sload" where
  "readLabel prefix n s =
     bindE (Slice_loadBit s) (\<lambda>(lb0, s).
     if \<not> lb0
     then bindE (readUnaryLength s) (\<lambda>(prefixLength, s).
          bindE (load_digits prefixLength prefix s) (\<lambda>(pp, s). Inr ((pp, prefixLength), s)))
     else bindE (Slice_loadBit s) (\<lambda>(lb1, s).
       if \<not> lb1
       then bindE (load_len (log2_ceil n) s) (\<lambda>(prefixLength, s).
            bindE (load_digits prefixLength prefix s) (\<lambda>(pp, s). Inr ((pp, prefixLength), s)))
       else bindE (Slice_loadBit s) (\<lambda>(bit, s).
            bindE (load_len (log2_ceil n) s) (\<lambda>(prefixLength, s).
            Inr ((prefix @ concat (replicate (nat prefixLength) (bit_digit bit)), prefixLength), s)))))"

lemma readUnary_refs:
  "readUnary res s = Inr (n, s') \<Longrightarrow> sl_refs s' = sl_refs s \<and> sl_refsOffset s' = sl_refsOffset s"
proof (induction res s rule: readUnary.induct)
  case (1 res s)
  from 1(2) obtain b t where t: "Slice_loadBit s = Inr (b, t)"
    "(if b then readUnary (res + 1) t else Inr (res, t)) = Inr (n, s')"
    by (subst (asm) readUnary.simps) auto
  with loadBit_left [OF t(1)] 1(1) [OF t(1) refl] show ?case by (cases b) auto
qed

lemma load_digits_refs:
  assumes "load_digits n pp s = Inr (qq, s')"
  shows "sl_refs s' = sl_refs s \<and> sl_refsOffset s' = sl_refsOffset s"
proof -
  have "\<And>x u v. sl_refs (snd u) = sl_refs s \<and> sl_refsOffset (snd u) = sl_refsOffset s \<Longrightarrow>
      (\<lambda>_ (pp, s). bindE (Slice_loadBit s) (\<lambda>(b, s). Inr (pp @ bit_digit b, s))) x u = Inr v \<Longrightarrow>
      sl_refs (snd v) = sl_refs s \<and> sl_refsOffset (snd v) = sl_refsOffset s"
    by (auto dest!: loadBit_left split: prod.splits)
  from foldE_invariant [OF assms [unfolded load_digits_def],
      of "\<lambda>u. sl_refs (snd u) = sl_refs s \<and> sl_refsOffset (snd u) = sl_refsOffset s", OF _ this]
  show ?thesis by simp
qed

lemma load_len_refs: "load_len len s = Inr (n, s') \<Longrightarrow> sl_refs s' = sl_refs s \<and> sl_refsOffset s' = sl_refsOffset s"
  by (auto simp: load_len_def Slice_loadUint_def lift_load_def split: js_len.splits)

lemma readLabel_refs:
  "readLabel prefix n s = Inr (p, s') \<Longrightarrow> sl_refs s' = sl_refs s \<and> sl_refsOffset s' = sl_refsOffset s"
  unfolding readLabel_def readUnaryLength_def
  by (auto dest!: loadBit_left readUnary_refs load_digits_refs load_len_refs split: if_splits)

section \<open>Reading a dictionary\<close>

text \<open>
  Reading a serialised dictionary (ton-core/dict/parseDict.ts). The recursion of \<open>doParse\<close>
  follows the references of the cells it is given, so it ends on every input; a child that is
  exotic (a pruned branch of a proof) is skipped. The result is the \<open>Map\<close> in insertion order,
  and the slice where the caller's reading went on.
\<close>

lemma beginParse_refs:
  "Cell_beginParse c b = Inr s \<Longrightarrow> sl_refs s = cell_refs c \<and> sl_refsOffset s = 0"
  by (auto simp: Cell_beginParse_def new_Slice_def split: if_splits)

abbreviation refs_size :: "slice \<Rightarrow> nat" where
  "refs_size s \<equiv> size_list size (drop (sl_refsOffset s) (sl_refs s))"

lemma loadRef_parse_size:
  "Slice_loadRef s = Inr (c, s') \<Longrightarrow> Cell_beginParse c b = Inr cs \<Longrightarrow> refs_size cs < refs_size s"
  using loadRef_size [of s c s'] beginParse_refs [of c b cs] by simp

lemma size_list_drop_le: "size_list size (drop (n + m) xs) \<le> size_list size (drop n (xs :: cell list))"
proof (induction m arbitrary: n)
  case (Suc m)
  have "size_list size (drop (Suc (n + m)) xs) \<le> size_list size (drop (n + m) xs)"
    by (cases "drop (n + m) xs") (simp_all add: drop_Suc tl_drop [symmetric])
  with Suc [of n] show ?case by simp
qed simp

lemma loadRef_refs_size: "Slice_loadRef s = Inr (c, s') \<Longrightarrow> refs_size s' \<le> refs_size s"
  using size_list_drop_le [of "sl_refsOffset s" 1] by (auto simp: Slice_loadRef_def split: if_splits)

lemma readLabel_refs_size: "readLabel p n s = Inr (v, s') \<Longrightarrow> refs_size s' = refs_size s"
  using readLabel_refs [of p n s v s'] by simp

lemma label_left_size:
  "readLabel p n s = Inr (v, t) \<Longrightarrow> Slice_loadRef t = Inr (c, t') \<Longrightarrow> Cell_beginParse c b = Inr cs \<Longrightarrow>
   refs_size cs < refs_size s"
  using loadRef_parse_size [of t c t' b cs] readLabel_refs_size [of p n s v t] by simp

lemma label_right_size:
  "readLabel p n s = Inr (v, t) \<Longrightarrow> Slice_loadRef t = Inr (d, t') \<Longrightarrow> Slice_loadRef t' = Inr (c, t'') \<Longrightarrow>
   Cell_beginParse c b = Inr cs \<Longrightarrow> refs_size cs < refs_size s"
  using loadRef_parse_size [of t' c t'' b cs] loadRef_refs_size [of t d t'] readLabel_refs_size [of p n s v t]
  by simp

lemma loadUint_size: "Slice_loadUint n s = Inr (v, s') \<Longrightarrow> refs_size s' = refs_size s"
  by (auto simp: Slice_loadUint_def lift_load_def)

function doParse :: "string \<Rightarrow> slice \<Rightarrow> int \<Rightarrow> (int \<times> 'v) list \<Rightarrow> 'v sload \<Rightarrow> ((int \<times> 'v) list \<times> slice) res" where
  "doParse prefix s n res extractor =
     bindE (readLabel prefix n s) (\<lambda>(label, s). case label of (pp, prefixLength) \<Rightarrow>
     if n - prefixLength = 0
     then bindE (parse_bin pp) (\<lambda>k. bindE (extractor s) (\<lambda>(v, s). Inr (AList.update k v res, s)))
     else bindE (Slice_loadRef s) (\<lambda>(left, s').
          bindE (Slice_loadRef s') (\<lambda>(right, s'').
          bindE (if \<not> Cell_isExotic left
                 then bindE (Cell_beginParse left False) (\<lambda>l.
                      doParse (pp @ ''0'') l (n - prefixLength - 1) res extractor)
                 else Inr (res, s'')) (\<lambda>(res, _).
          bindE (if \<not> Cell_isExotic right
                 then bindE (Cell_beginParse right False) (\<lambda>r.
                      doParse (pp @ ''1'') r (n - prefixLength - 1) res extractor)
                 else Inr (res, s'')) (\<lambda>(res, _). Inr (res, s''))))))"
  by pat_completeness auto
termination
proof (relation "measure (\<lambda>(p, s, n, res, e). refs_size s)", goal_cases)
  case 2
  then show ?case by clarsimp (rule label_left_size)
next
  case 3
  then show ?case by clarsimp (rule label_right_size)
qed simp

declare doParse.simps [simp del]

definition parseDict :: "slice option \<Rightarrow> int \<Rightarrow> 'v sload \<Rightarrow> ((int \<times> 'v) list \<times> slice option) res" where
  "parseDict sc keySize extractor =
     (case sc of
        Some s \<Rightarrow> bindE (doParse [] s keySize [] extractor) (\<lambda>(res, s). Inr (res, Some s))
      | None \<Rightarrow> Inr ([], None))"

end
