(* ===== verification/Dict_Build.thy ===== *)
theory Dict_Build
  imports Dict_Tree "HOL-Library.Sublist"
begin

text \<open>
  The tree that \<open>buildTree\<close> makes: \<open>findCommonPrefix\<close> is the longest common prefix of the keys
  from a position on, the two 'Internal inconsistency' branches are never taken on distinct keys
  of one length, and the leaves of the tree, in order, are the entries of the map sorted by key.
\<close>

section \<open>The longest common prefix\<close>

lemma fcp_shrink_lcp:
  assumes "p \<le> length s"
  shows "fcp_shrink p s r = longest_common_prefix r (drop p s)"
proof (induction r rule: rev_induct)
  case Nil
  then show ?case by (subst fcp_shrink.simps) (simp add: prefix_at_def assms)
next
  case (snoc x xs)
  have at: "prefix_at (xs @ [x]) s p \<longleftrightarrow> prefix (xs @ [x]) (drop p s)"
    using assms by (metis prefix_at_def prefix_def take_is_prefix append_eq_conv_conj)
  show ?case
  proof (cases "prefix (xs @ [x]) (drop p s)")
    case True
    then have "prefix (xs @ [x]) (longest_common_prefix (xs @ [x]) (drop p s))"
      by (simp add: longest_common_prefix_max_prefix)
    then have "longest_common_prefix (xs @ [x]) (drop p s) = xs @ [x]"
      by (meson longest_common_prefix_prefix1 prefix_order.antisym)
    with True at show ?thesis by (subst fcp_shrink.simps) simp
  next
    case False
    have "longest_common_prefix (xs @ [x]) (drop p s) = longest_common_prefix xs (drop p s)"
    proof (rule prefix_order.antisym)
      have "prefix (longest_common_prefix (xs @ [x]) (drop p s)) xs"
        using False longest_common_prefix_prefix1 [of "xs @ [x]" "drop p s"]
          longest_common_prefix_prefix2 [of "xs @ [x]" "drop p s"] by (metis prefix_snoc)
      then show "prefix (longest_common_prefix (xs @ [x]) (drop p s)) (longest_common_prefix xs (drop p s))"
        by (simp add: longest_common_prefix_max_prefix longest_common_prefix_prefix2)
      show "prefix (longest_common_prefix xs (drop p s)) (longest_common_prefix (xs @ [x]) (drop p s))"
        by (meson longest_common_prefix_max_prefix longest_common_prefix_prefix1
            longest_common_prefix_prefix2 prefix_order.trans prefixI)
    qed
    then show ?thesis using False at snoc
      by (subst fcp_shrink.simps) (auto simp: Let_def)
  qed
qed

lemma findCommonPrefix_lcp:
  assumes "src \<noteq> []" "\<forall>s \<in> set src. p \<le> length s"
  shows "findCommonPrefix src p = Longest_common_prefix (drop p ` set src)"
proof -
  have ex: "prefix (fold (fcp_shrink p) ss r) r \<and>
      (\<forall>s \<in> set ss. prefix (fold (fcp_shrink p) ss r) (drop p s)) \<and>
      (\<forall>q. prefix q r \<and> (\<forall>s \<in> set ss. prefix q (drop p s)) \<longrightarrow> prefix q (fold (fcp_shrink p) ss r))"
    if "\<forall>s \<in> set ss. p \<le> length s" for ss r
    using that
  proof (induction ss arbitrary: r)
    case (Cons s ss)
    let ?r = "longest_common_prefix r (drop p s)"
    have r: "fcp_shrink p s r = ?r" using Cons.prems fcp_shrink_lcp by simp
    with Cons.IH [of ?r] Cons.prems show ?case
      using longest_common_prefix_prefix1 [of r "drop p s"] longest_common_prefix_prefix2 [of r "drop p s"]
        longest_common_prefix_max_prefix prefix_order.trans by (simp add: r) blast
  qed simp
  obtain s ss where src: "src = s # ss" using assms(1) by (cases src) auto
  from ex [of ss "drop p s"] assms(2) src show ?thesis
    unfolding findCommonPrefix_def
    by (intro Longest_common_prefix_eq [symmetric]) (auto dest: prefix_length_le)
qed

section \<open>The entries of a tree\<close>

abbreviation is_bin :: "string \<Rightarrow> bool" where
  "is_bin s \<equiv> set s \<subseteq> {CHR ''0'', CHR ''1''}"

primrec node_entries :: "string \<Rightarrow> 'v dict_node \<Rightarrow> (string \<times> 'v) list"
  and edge_entries :: "string \<Rightarrow> 'v dict_edge \<Rightarrow> (string \<times> 'v) list" where
  "node_entries pre (Leaf v) = [(pre, v)]"
| "node_entries pre (Fork l r) = edge_entries (pre @ ''0'') l @ edge_entries (pre @ ''1'') r"
| "edge_entries pre (Edge label node) = node_entries (pre @ label) node"

text \<open>A tree for keys of \<open>n\<close> digits.\<close>

primrec wf_node :: "'v dict_node \<Rightarrow> nat \<Rightarrow> bool" and wf_edge :: "'v dict_edge \<Rightarrow> nat \<Rightarrow> bool" where
  "wf_node (Leaf v) n \<longleftrightarrow> n = 0"
| "wf_node (Fork l r) n \<longleftrightarrow> 0 < n \<and> wf_edge l (n - 1) \<and> wf_edge r (n - 1)"
| "wf_edge (Edge label node) n \<longleftrightarrow> is_bin label \<and> length label \<le> n \<and> wf_node node (n - length label)"

lemma entries_prefix:
  "(k, v) \<in> set (node_entries pre nd) \<Longrightarrow> prefix pre k"
  "(k, v) \<in> set (edge_entries pre e) \<Longrightarrow> prefix pre k"
  by (induction nd and e arbitrary: pre and pre)
     (force dest: append_prefixD)+

lemma entries_nonempty:
  fixes nd :: "'v dict_node" and e :: "'v dict_edge"
  shows "node_entries pre nd \<noteq> []" "edge_entries pre e \<noteq> []"
  by (induction nd and e arbitrary: pre and pre) auto

lemma entries_distinct:
  fixes nd :: "'v dict_node" and e :: "'v dict_edge"
  shows "distinct (map fst (node_entries pre nd))" "distinct (map fst (edge_entries pre e))"
proof (induction nd and e arbitrary: pre and pre)
  case (Fork l r)
  have "False" if "(k, v) \<in> set (edge_entries (pre @ ''0'') l)" "(k, w) \<in> set (edge_entries (pre @ ''1'') r)" for k v w
    using entries_prefix(2) [OF that(1)] entries_prefix(2) [OF that(2)] by (auto simp: prefix_def)
  with Fork show ?case by (fastforce simp: distinct_append)
qed auto

section \<open>The map splits\<close>

lemma update_new: "k \<notin> fst ` set xs \<Longrightarrow> AList.update k v xs = xs @ [(k, v)]"
  by (induction xs) auto

lemma fold_update_distinct:
  assumes "distinct (map fst xs @ map fst ys)"
  shows "foldl (\<lambda>res (k, v). AList.update k v res) xs ys = xs @ ys"
  using assms
proof (induction ys arbitrary: xs)
  case (Cons y ys)
  obtain k v where y: "y = (k, v)" by (cases y)
  with Cons.prems have "k \<notin> fst ` set xs" by auto
  then show ?case using Cons.IH [of "xs @ [(k, v)]"] Cons.prems y by (simp add: update_new)
qed simp

lemma fork_fold:
  assumes "distinct (map fst (ls @ xs))" "distinct (map fst (rs @ xs))"
  shows "foldl (\<lambda>(l, r) (k, d). if left_key p k then (AList.update k d l, r) else (l, AList.update k d r)) (ls, rs) xs =
    (ls @ filter (\<lambda>e. left_key p (fst e)) xs, rs @ filter (\<lambda>e. \<not> left_key p (fst e)) xs)"
  using assms
proof (induction xs arbitrary: ls rs)
  case (Cons x xs)
  obtain k d where x: "x = (k, d)" by (cases x)
  with Cons.prems have "k \<notin> fst ` set ls" "k \<notin> fst ` set rs" by auto
  then show ?case
    using Cons.IH [of "ls @ [(k, d)]" rs] Cons.IH [of ls "rs @ [(k, d)]"] Cons.prems x
    by (auto simp: update_new)
qed simp

lemma forkMap_ok:
  assumes "distinct (map fst src)" "filter (\<lambda>e. left_key p (fst e)) src \<noteq> []"
    and "filter (\<lambda>e. \<not> left_key p (fst e)) src \<noteq> []"
  shows "forkMap src p = Inr (filter (\<lambda>e. left_key p (fst e)) src, filter (\<lambda>e. \<not> left_key p (fst e)) src)"
  using fork_fold [of "[]" src "[]" p] assms by (auto simp: forkMap_def)

section \<open>Building\<close>

text \<open>The keys below a position: \<open>n\<close> digits, the first \<open>p\<close> of them \<open>pre\<close>.\<close>

definition keys_ok :: "string \<Rightarrow> nat \<Rightarrow> (string \<times> 'v) list \<Rightarrow> bool" where
  "keys_ok pre n src \<longleftrightarrow> src \<noteq> [] \<and> distinct (map fst src) \<and>
     (\<forall>(k, v) \<in> set src. is_bin k \<and> length k = n \<and> prefix pre k)"

lemma keys_okD:
  "keys_ok pre n src \<Longrightarrow> (k, v) \<in> set src \<Longrightarrow> is_bin k \<and> length k = n \<and> prefix pre k"
  by (auto simp: keys_ok_def)

lemma distinct_keys_same:
  assumes "distinct (map fst src)" "\<forall>e \<in> set src. fst e = k"
  shows "length src \<le> 1"
  using assms by (cases src; cases "tl src") auto

lemma bin_digit_cases: "is_bin k \<Longrightarrow> i < length k \<Longrightarrow> k ! i = CHR ''0'' \<or> k ! i = CHR ''1''"
  using nth_mem by blast

lemma bin_prefix_digit:
  assumes "is_bin k" "prefix pre k" "length pre < length k"
  shows "left_key (length pre) k \<Longrightarrow> prefix (pre @ ''0'') k" "\<not> left_key (length pre) k \<Longrightarrow> prefix (pre @ ''1'') k"
proof -
  obtain z where z: "k = pre @ z" using assms(2) by (auto simp: prefix_def)
  with assms(3) obtain d ds where "z = d # ds" by (cases z) auto
  with z have k: "k = pre @ d # ds" by simp
  show "left_key (length pre) k \<Longrightarrow> prefix (pre @ ''0'') k" "\<not> left_key (length pre) k \<Longrightarrow> prefix (pre @ ''1'') k"
    using assms(1) k by (auto simp: left_key_def prefix_def)
qed

lemma build_tree_ok:
  "keys_ok pre n src \<Longrightarrow> length pre = p \<Longrightarrow> p \<le> n \<Longrightarrow>
    (length src = 1 \<longrightarrow> p = n) \<Longrightarrow> (length src \<noteq> 1 \<longrightarrow> (\<exists>a \<in> set src. \<exists>b \<in> set src. left_key p (fst a) \<and> \<not> left_key p (fst b))) \<Longrightarrow>
    \<exists>nd. buildNode src p = Inr nd \<and> set (node_entries pre nd) = set src \<and> wf_node nd (n - p)"
  "keys_ok pre n src \<Longrightarrow> length pre = p \<Longrightarrow> p \<le> n \<Longrightarrow>
    \<exists>e. buildEdge src p = Inr e \<and> set (edge_entries pre e) = set src \<and> wf_edge e (n - p)"
proof (induction src p and src p arbitrary: pre and pre rule: buildNode_buildEdge.induct)
  case (1 src p)
  show ?case
  proof (cases "length src = 1")
    case True
    then obtain k v where src: "src = [(k, v)]" by (cases src) auto
    with "1.prems" True have "k = pre" by (auto simp: keys_ok_def prefix_def)
    with src "1.prems" True show ?thesis by (subst buildNode.simps) simp
  next
    case False
    let ?l = "filter (\<lambda>e. left_key p (fst e)) src" and ?r = "filter (\<lambda>e. \<not> left_key p (fst e)) src"
    have ne: "src \<noteq> []" and d: "distinct (map fst src)" using "1.prems"(1) by (auto simp: keys_ok_def)
    have lr: "?l \<noteq> []" "?r \<noteq> []" using "1.prems"(5) False by (auto simp: filter_empty_conv)
    note f = forkMap_ok [OF d lr]
    obtain a where "a \<in> set src" "left_key p (fst a)" using "1.prems"(5) False by blast
    then have pn: "p < n" using keys_okD [OF "1.prems"(1), of "fst a" "snd a"] by (auto simp: left_key_def)
    have kl: "keys_ok (pre @ ''0'') n ?l" and kr: "keys_ok (pre @ ''1'') n ?r"
      using "1.prems"(1,2) pn lr bin_prefix_digit [of _ pre]
      by (auto simp: keys_ok_def distinct_map inj_on_def)
    from "1.IH"(1) [OF ne False f refl, of "pre @ ''0''"] kl "1.prems"(2) pn obtain el where
      el: "buildEdge ?l (p + 1) = Inr el" "set (edge_entries (pre @ ''0'') el) = set ?l" "wf_edge el (n - (p + 1))"
      by auto
    from "1.IH"(2) [OF ne False f refl el(1), of "pre @ ''1''"] kr "1.prems"(2) pn obtain er where
      er: "buildEdge ?r (p + 1) = Inr er" "set (edge_entries (pre @ ''1'') er) = set ?r" "wf_edge er (n - (p + 1))"
      by auto
    have "buildNode src p = Inr (Fork el er)"
      using ne False f el(1) er(1) by (subst buildNode.simps) simp
    then show ?thesis using el er pn by auto
  qed
next
  case (2 src p)
  define label where "label = findCommonPrefix (map fst src) p"
  define K where "K = drop p ` set (map fst src)"
  have ne: "src \<noteq> []" and d: "distinct (map fst src)" using "2.prems"(1) by (auto simp: keys_ok_def)
  have len: "\<forall>s \<in> set (map fst src). p \<le> length s" using "2.prems" by (auto simp: keys_ok_def)
  have lab: "label = Longest_common_prefix K"
    unfolding label_def K_def by (rule findCommonPrefix_lcp) (use ne len in auto)
  have Kne: "K \<noteq> {}" using ne by (auto simp: K_def)
  have pre: "is_bin k \<and> length k = n \<and> prefix (pre @ label) k" if "(k, v) \<in> set src" for k v
  proof -
    have k: "is_bin k" "length k = n" "prefix pre k" using keys_okD [OF "2.prems"(1) that] by auto
    then obtain z where z: "k = pre @ z" by (auto simp: prefix_def)
    then have "drop p k = z" using "2.prems"(2) by simp
    moreover have "drop p k \<in> K" using that by (force simp: K_def)
    ultimately have "prefix label z" unfolding lab by (simp add: Longest_common_prefix_prefix)
    with k z show ?thesis by simp
  qed
  then have "case e of (k, v) \<Rightarrow> is_bin k \<and> length k = n \<and> prefix (pre @ label) k" if "e \<in> set src" for e
    using that by (cases e) blast
  then have ko: "keys_ok (pre @ label) n src" using ne d by (simp add: keys_ok_def)
  obtain k0 v0 where k0: "(k0, v0) \<in> set src" using ne by (cases src) auto
  have plen: "p + length label \<le> n" using pre [OF k0] "2.prems"(2) by (auto dest: prefix_length_le)
  have bin: "is_bin label" using pre [OF k0] by (auto simp: prefix_def)
  have one: "length label + p = n" if l: "length src = 1"
  proof -
    from l k0 have "src = [(k0, v0)]" by (cases src) auto
    then have "label = drop p k0" by (simp add: findCommonPrefix_def label_def)
    with pre [OF k0] "2.prems"(2,3) show ?thesis by simp
  qed
  have two: "\<exists>a \<in> set src. \<exists>b \<in> set src. left_key (length label + p) (fst a) \<and> \<not> left_key (length label + p) (fst b)"
    if l: "length src \<noteq> 1"
  proof (rule ccontr)
    let ?q = "length label + p"
    assume "\<not> ?thesis"
    then have same: "(\<forall>e \<in> set src. left_key ?q (fst e)) \<or> (\<forall>e \<in> set src. \<not> left_key ?q (fst e))" by blast
    have lt: "p + length label < n"
    proof (rule ccontr)
      assume "\<not> p + length label < n"
      then have "fst e = pre @ label" if "e \<in> set src" for e
        using pre [of "fst e" "snd e"] that "2.prems"(2) plen by (auto simp: prefix_def)
      then have "length src \<le> 1" using distinct_keys_same [OF d] by blast
      with l ne show False by (cases src) auto
    qed
    define c where "c = (if left_key ?q k0 then ''0'' else ''1'')"
    have "prefix (pre @ label @ c) k" if e: "(k, v) \<in> set src" for k v
      using bin_prefix_digit [of k "pre @ label"] pre [OF e] lt "2.prems"(2) same k0 e
      by (fastforce simp: c_def add.commute)
    then have "prefix (label @ c) z" if z: "z \<in> K" for z
    proof -
      from z obtain k v where k: "(k, v) \<in> set src" "z = drop p k" by (auto simp: K_def)
      with \<open>\<And>k v. (k, v) \<in> set src \<Longrightarrow> prefix (pre @ label @ c) k\<close> [of k v] "2.prems"(2)
      show ?thesis by (auto simp: prefix_def)
    qed
    then have "length (label @ c) \<le> length (Longest_common_prefix K)"
      using Longest_common_prefix_longest [OF Kne] by blast
    moreover have "length c = 1" by (simp add: c_def)
    ultimately show False using lab by simp
  qed
  from "2.IH" [OF ne label_def, of "pre @ label"] ko one two plen "2.prems"(2) obtain nd where
    nd: "buildNode src (length label + p) = Inr nd" "set (node_entries (pre @ label) nd) = set src"
    "wf_node nd (n - (length label + p))"
    by (auto simp: add.commute)
  have "buildEdge src p = Inr (Edge label nd)" using nd(1) ne by (subst buildEdge.simps) (simp add: label_def)
  moreover have "wf_edge (Edge label nd) (n - p)" using nd(3) bin plen by (simp add: add.commute)
  ultimately show ?case using nd(2) by auto
qed

text \<open>A key of \<open>n\<close> digits, padded with zeros in front.\<close>

definition key_digits :: "nat \<Rightarrow> int \<Rightarrow> string" where
  "key_digits n k = map bin_digit (bits_be n k)"

lemma bits_be_zero: "bits_be n 0 = replicate n False"
  by (rule nth_equalityI) auto

lemma pad_digits:
  assumes "0 \<le> k" "k < 2 ^ n" "0 < n"
  shows "pad (to_string_radix 2 k) n = key_digits n k"
proof (cases "k = 0")
  case True
  obtain m where "n = Suc m" using assms(3) by (cases n) auto
  with True show ?thesis
    by (simp add: to_string_2_zero pad_def key_digits_def bits_be_zero bin_digit_def replicate_append_same)
next
  case False
  let ?l = "bit_length (nat k)"
  have l: "?l \<le> n" using assms by (intro bit_length_le) (simp add: nat_less_iff)
  have "k < 2 ^ ?l" using assms(1) bit_length_upper [of "nat k"] by (simp add: nat_less_iff)
  then have "bits_be n k = replicate (n - ?l) False @ bits_be ?l k"
    using bits_be_add [of "n - ?l" ?l k] l assms(1) by (simp add: bits_be_zero)
  moreover have "to_string_radix 2 k = map bin_digit (bits_be ?l k)"
    using False assms(1) by (simp add: to_string_radix_def nat_radix_2)
  ultimately show ?thesis by (simp add: pad_def key_digits_def bin_digit_def)
qed

lemma key_digits_facts:
  "is_bin (key_digits n k)" "length (key_digits n k) = n"
  by (auto simp: key_digits_def bin_digit_def)

lemma key_digits_inj:
  "key_digits n j = key_digits n k \<Longrightarrow> 0 \<le> j \<Longrightarrow> j < 2 ^ n \<Longrightarrow> 0 \<le> k \<Longrightarrow> k < 2 ^ n \<Longrightarrow> j = k"
  using bits_be_inj [of n j k] by (auto simp: key_digits_def inj_map_eq_map inj_on_def)

definition int_keys_ok :: "nat \<Rightarrow> (int \<times> 'v) list \<Rightarrow> bool" where
  "int_keys_ok n src \<longleftrightarrow> 0 < n \<and> src \<noteq> [] \<and> distinct (map fst src) \<and> (\<forall>k \<in> fst ` set src. 0 \<le> k \<and> k < 2 ^ n)"

lemma converted_ok:
  assumes "int_keys_ok n src"
  shows "foldl (\<lambda>converted (k, v). AList.update (pad (to_string_radix 2 k) n) v converted) [] src =
      map (\<lambda>(k, v). (key_digits n k, v)) src"
    and "keys_ok [] n (map (\<lambda>(k, v). (key_digits n k, v)) src)"
proof -
  let ?g = "\<lambda>(k, v). (key_digits n k, v)"
  have d: "distinct (map fst (map ?g src))"
  proof -
    have "inj_on (key_digits n) (fst ` set src)"
      using assms unfolding int_keys_ok_def by (blast intro: inj_onI key_digits_inj)
    then have "distinct (map (key_digits n) (map fst src))"
      using assms by (simp only: distinct_map int_keys_ok_def set_map)
    then show ?thesis by (simp add: comp_def split_beta)
  qed
  show "keys_ok [] n (map ?g src)"
    using assms d key_digits_facts by (auto simp: keys_ok_def int_keys_ok_def)
  have "foldl (\<lambda>converted (k, v). AList.update (pad (to_string_radix 2 k) n) v converted) acc xs =
      foldl (\<lambda>res (k, v). AList.update k v res) acc (map ?g xs)" if "set xs \<subseteq> set src" for acc xs
    using that
  proof (induction xs arbitrary: acc)
    case (Cons x xs)
    obtain k v where x: "x = (k, v)" by (cases x)
    with Cons.prems assms have "0 \<le> k" "k < 2 ^ n" "0 < n" by (force simp: int_keys_ok_def)+
    with Cons x show ?case by (simp add: pad_digits)
  qed simp
  from this [of src "[]"] fold_update_distinct [of "[]" "map ?g src"] d
  show "foldl (\<lambda>converted (k, v). AList.update (pad (to_string_radix 2 k) n) v converted) [] src = map ?g src"
    by simp
qed

lemma buildTree_ok:
  assumes "int_keys_ok n src"
  shows "\<exists>e. buildTree src n = Inr e \<and> wf_edge e n \<and>
    set (edge_entries [] e) = (\<lambda>(k, v). (key_digits n k, v)) ` set src"
  using build_tree_ok(2) [OF converted_ok(2) [OF assms], of 0] converted_ok(1) [OF assms]
  by (auto simp: buildTree_def)

end
