(* ===== verification/Dict_Labels.thy ===== *)
theory Dict_Labels
  imports Dict_Build Codec_Steps
begin

text \<open>
  Labels of edges: whatever form \<open>detectLabelType\<close> picks, \<open>readLabel\<close> reads what \<open>writeLabel\<close>
  wrote, and the form picked is never longer than another one that could be used.
\<close>

lemma log2_ceil_nat: "log2_ceil (int n) = Len (bit_length n)"
  by (simp add: log2_ceil_def)

lemma bit_digit_conv: "bit_digit b = [bin_digit b]"
  by (simp add: bit_digit_def bin_digit_def)

text \<open>Digits and their bits.\<close>

definition digit_bits :: "string \<Rightarrow> bool list" where
  "digit_bits src = map (\<lambda>c. c = CHR ''1'') src"

lemma length_digit_bits [simp]: "length (digit_bits src) = length src"
  by (simp add: digit_bits_def)

lemma bin_digit_bits: "is_bin src \<Longrightarrow> map bin_digit (digit_bits src) = src"
  by (induction src) (auto simp: digit_bits_def bin_digit_def)

lemma digit_bits_bin: "digit_bits (map bin_digit bs) = bs"
  by (simp add: digit_bits_def comp_def)

lemma store_digits_ok:
  assumes "is_bin src" "bl_fits b (length src) 0"
  shows "stores (store_digits src b) b (digit_bits src) []"
proof (cases "src = []")
  case True
  then show ?thesis using assms(2) by (simp add: store_digits_def digit_bits_def stores_refl)
next
  case False
  let ?v = "val_be (digit_bits src)"
  have "parse_bin src = Inr ?v" using False assms(1) by (simp add: parse_bin_def digit_bits_def)
  moreover have "bits_be (length src) ?v = digit_bits src"
    using bits_be_val_be [of "digit_bits src"] by simp
  moreover have "?v < 2 ^ length src" using val_be_less [of "digit_bits src"] by simp
  ultimately show ?thesis
    using False assms(2) s_uint.store_ok [of ?v "length src" b] by (simp add: store_digits_def)
qed

lemma load_digits_ok:
  assumes "sl_ok s" "sl_bits s = bs @ ys" "sl_cells s = ts"
  shows "load_digits (int (length bs)) pp s = Inr (pp @ map bin_digit bs, sl_move (length bs) 0 s)"
proof -
  let ?f = "\<lambda>_ (pp, s). bindE (Slice_loadBit s) (\<lambda>(b, s). Inr (pp @ bit_digit b, s))"
  have "foldE ?f is (pp, s) = Inr (pp @ map bin_digit bs, sl_move (length bs) 0 s)"
    if "length is = length bs" "sl_ok s" "sl_bits s = bs @ ys" "sl_cells s = ts" for "is" :: "nat list" and bs pp s
    using that
  proof (induction "is" arbitrary: bs pp s)
    case (Cons i "is")
    then obtain x xs where bs: "bs = x # xs" by (cases bs) auto
    with Cons.prems have l: "Slice_loadBit s = Inr (x, sl_move 1 0 s)"
      using loadBit_reads [of s x "xs @ ys"] by (simp add: sreads_def Slice_loadBit_def)
    from sl_rest_split [of s "[x]" "xs @ ys" "[]" ts] Cons.prems bs
    have "sl_ok (sl_move 1 0 s)" "sl_bits (sl_move 1 0 s) = xs @ ys" "sl_cells (sl_move 1 0 s) = ts" by auto
    with Cons.IH [of xs "sl_move 1 0 s" "pp @ bit_digit x"] Cons.prems(1) bs l
    show ?case by (simp add: bit_digit_conv)
  qed simp
  from this [of "[0..<length bs]" bs s pp] assms show ?thesis by (simp add: load_digits_def)
qed

lemma rt_digits:
  assumes "is_bin src"
  shows "rt (store_digits src) (load_digits (int (length src)) pp) (pp @ src) (length src) 0"
proof (rule rtI)
  fix b assume "bl_fits b (length src) 0"
  moreover have "loads (load_digits (int (length src)) pp) (digit_bits src) [] (pp @ src)"
    using load_digits_ok [of _ "digit_bits src"] bin_digit_bits [OF assms] by (auto simp: loads_def)
  ultimately show "\<exists>xs rs. length xs \<le> length src \<and> length rs \<le> 0 \<and> (\<forall>r \<in> set rs. cell_ok r) \<and>
      stores (store_digits src b) b xs rs \<and> loads (load_digits (int (length src)) pp) xs rs (pp @ src)"
    using store_digits_ok [OF assms] by (intro exI [of _ "digit_bits src"] exI [of _ "[]"]) simp
qed

section \<open>Unary lengths\<close>

lemma store_ones:
  assumes "bl_fits b (length is) 0"
  shows "stores (foldE (\<lambda>_. Builder_storeBit (BitNum 1)) is b) b (replicate (length is) True) []"
  using assms
proof (induction "is" arbitrary: b)
  case Nil
  then show ?case by (simp add: stores_refl)
next
  case (Cons i "is")
  have "stores (bindE (Builder_storeBit (BitNum 1) b) (foldE (\<lambda>_. Builder_storeBit (BitNum 1)) is)) b
      ([True] @ replicate (length is) True) ([] @ [])"
  proof (rule stores_bind)
    show "stores (Builder_storeBit (BitNum 1) b) b [True] []" if "bl_fits b (length [True]) (length [])"
      using that storeBit_stores [of b 0 "BitNum 1"] by simp
  qed (use Cons in auto)
  then show ?case by simp
qed

lemma readUnary_ok:
  "sl_ok s \<Longrightarrow> sl_bits s = replicate l True @ False # ys \<Longrightarrow> sl_cells s = ts \<Longrightarrow>
    readUnary n s = Inr (n + int l, sl_move (l + 1) 0 s)"
proof (induction l arbitrary: s n)
  case 0
  then show ?case using loadBit_reads [of s False ys]
    by (subst readUnary.simps) (simp add: sreads_def Slice_loadBit_def)
next
  case (Suc l)
  have l: "Slice_loadBit s = Inr (True, sl_move 1 0 s)"
    using Suc.prems loadBit_reads [of s True] by (simp add: sreads_def Slice_loadBit_def)
  from sl_rest_split [of s "[True]" "replicate l True @ False # ys" "[]" ts] Suc.prems
  have "sl_ok (sl_move 1 0 s)" "sl_bits (sl_move 1 0 s) = replicate l True @ False # ys"
    "sl_cells (sl_move 1 0 s) = ts" by auto
  with Suc.IH [of "sl_move 1 0 s" "n + 1"] l show ?case by (subst readUnary.simps) simp
qed

lemma rt_unary:
  "rt (\<lambda>b. bindE (foldE (\<lambda>_. Builder_storeBit (BitNum 1)) [0..<l] b) (Builder_storeBit (BitNum 0)))
     readUnaryLength (int l) (l + 1) 0"
proof (rule rtI)
  fix b assume b: "bl_fits b (l + 1) 0"
  have "stores (bindE (foldE (\<lambda>_. Builder_storeBit (BitNum 1)) [0..<l] b) (Builder_storeBit (BitNum 0))) b
      (replicate l True @ [False]) ([] @ [])"
  proof (rule stores_bind)
    show "stores (foldE (\<lambda>_. Builder_storeBit (BitNum 1)) [0..<l] b) b (replicate l True) []"
      if "bl_fits b (length (replicate l True)) (length [])"
      using that store_ones [of b "[0..<l]"] by simp
    show "stores (Builder_storeBit (BitNum 0) b') b' [False] []" if "bl_fits b' (length [False]) (length [])" for b'
      using that storeBit_stores [of b' 0 "BitNum 0"] by simp
  qed (use b in simp)
  moreover have "loads readUnaryLength (replicate l True @ [False]) [] (int l)"
    using readUnary_ok [where n = 0] by (auto simp: loads_def readUnaryLength_def)
  ultimately show "\<exists>xs rs. length xs \<le> l + 1 \<and> length rs \<le> 0 \<and> (\<forall>r \<in> set rs. cell_ok r) \<and>
      stores (bindE (foldE (\<lambda>_. Builder_storeBit (BitNum 1)) [0..<l] b) (Builder_storeBit (BitNum 0))) b xs rs \<and>
      loads readUnaryLength xs rs (int l)"
    by (intro exI [of _ "replicate l True @ [False]"] exI [of _ "[]"]) simp
qed

section \<open>The three forms\<close>

text \<open>Behind a bit that decides which reader goes on.\<close>

lemma rt_bit0:
  "rt f' (h False) w m j \<Longrightarrow> Suc m \<le> N \<Longrightarrow>
    rt (\<lambda>b. bindE (Builder_storeBit (BitNum 0) b) f') (\<lambda>s. bindE (Slice_loadBit s) (\<lambda>(v, s). h v s)) w N j"
  by (rule rt_le [OF rt_bind [OF rt_bit_num(1)]]) auto

lemma rt_bit1:
  "rt f' (h True) w m j \<Longrightarrow> Suc m \<le> N \<Longrightarrow>
    rt (\<lambda>b. bindE (Builder_storeBit (BitNum 1) b) f') (\<lambda>s. bindE (Slice_loadBit s) (\<lambda>(v, s). h v s)) w N j"
  by (rule rt_le [OF rt_bind [OF rt_bit_num(2)]]) auto

abbreviation label_rest :: "string \<Rightarrow> int \<Rightarrow> (string \<times> int) sload" where
  "label_rest pre n \<equiv> (\<lambda>s. bindE (Slice_loadBit s) (\<lambda>(lb1, s).
       if \<not> lb1
       then bindE (load_len (log2_ceil n) s) (\<lambda>(prefixLength, s).
            bindE (load_digits prefixLength pre s) (\<lambda>(pp, s). Inr ((pp, prefixLength), s)))
       else bindE (Slice_loadBit s) (\<lambda>(bit, s).
            bindE (load_len (log2_ceil n) s) (\<lambda>(prefixLength, s).
            Inr ((pre @ concat (replicate (nat prefixLength) (bit_digit bit)), prefixLength), s)))))"

lemma int_less_power: "l < 2 ^ k \<Longrightarrow> int l < 2 ^ k"
  by (metis of_nat_less_iff of_nat_numeral of_nat_power)

lemma rt_label_len:
  assumes "l \<le> n" "n < 2 ^ 53"
  shows "rt (store_len (int l) (log2_ceil (int n))) (load_len (log2_ceil (int n))) (int l) (bit_length n) 0"
proof -
  have "n < 2 ^ bit_length n" by (rule bit_length_upper)
  with assms(1) have "l < 2 ^ bit_length n" by linarith
  then have "int l < 2 ^ bit_length n" by (rule int_less_power)
  moreover have "l < 2 ^ 53" using assms by (rule le_less_trans)
  then have "int l < 2 ^ 53" by (rule int_less_power)
  ultimately have "rt (Builder_storeUint (Num (int l)) (int (bit_length n))) (Slice_loadUint (int (bit_length n)))
      (int l) (bit_length n) 0" by (intro s_num.rt_codec) auto
  then show ?thesis by (simp add: log2_ceil_nat store_len_def [abs_def] load_len_def [abs_def])
qed

lemma rt_label_short:
  assumes "is_bin src"
  shows "rt (writeLabelShort src) (readLabel pre n) (pre @ src, int (length src)) (labelShortLength src) 0"
proof -
  have "rt (\<lambda>b. bindE (bindE (foldE (\<lambda>_. Builder_storeBit (BitNum 1)) [0..<length src] b) (Builder_storeBit (BitNum 0)))
        (store_digits src))
      (\<lambda>s. bindE (readUnaryLength s) (\<lambda>(l, s). bindE (load_digits l pre s) (\<lambda>(pp, s). Inr ((pp, l), s))))
      (pre @ src, int (length src)) ((length src + 1) + length src) (0 + 0)"
    by (rule rt_bind [OF rt_unary]) (rule rt_map [OF rt_digits [OF assms]], rule refl)
  then have "rt (\<lambda>b. bindE (foldE (\<lambda>_. Builder_storeBit (BitNum 1)) [0..<length src] b) (\<lambda>b.
        bindE (Builder_storeBit (BitNum 0) b) (store_digits src)))
      (\<lambda>s. bindE (readUnaryLength s) (\<lambda>(l, s). bindE (load_digits l pre s) (\<lambda>(pp, s). Inr ((pp, l), s))))
      (pre @ src, int (length src)) ((length src + 1) + length src) (0 + 0)"
    by (simp add: bindE_assoc)
  then show ?thesis
    unfolding writeLabelShort_def readLabel_def
    by (intro rt_bit0 [where m = "length src + 1 + length src"]) (simp_all add: labelShortLength_def)
qed

lemma rt_label_long:
  assumes "is_bin src" "length src \<le> n" "n < 2 ^ 53"
  shows "rt (writeLabelLong src (int n)) (readLabel pre (int n)) (pre @ src, int (length src))
    (2 + bit_length n + length src) 0"
proof -
  have "rt (\<lambda>b. bindE (store_len (int (length src)) (log2_ceil (int n)) b) (store_digits src))
      (\<lambda>s. bindE (load_len (log2_ceil (int n)) s) (\<lambda>(l, s). bindE (load_digits l pre s) (\<lambda>(pp, s). Inr ((pp, l), s))))
      (pre @ src, int (length src)) (bit_length n + length src) (0 + 0)"
    by (rule rt_bind [OF rt_label_len [OF assms(2,3)]]) (rule rt_map [OF rt_digits [OF assms(1)]], rule refl)
  then have "rt (\<lambda>b. bindE (Builder_storeBit (BitNum 0) b) (\<lambda>b.
        bindE (store_len (int (length src)) (log2_ceil (int n)) b) (store_digits src)))
      (label_rest pre (int n))
      (pre @ src, int (length src)) (1 + (bit_length n + length src)) 0"
    by (intro rt_bit0 [where m = "bit_length n + length src"]) simp_all
  then show ?thesis
    unfolding writeLabelLong_def readLabel_def
    by (intro rt_bit1 [where m = "1 + (bit_length n + length src)"]) simp_all
qed

lemma concat_replicate_single: "concat (replicate n [x]) = replicate n x"
  by (induction n) auto

lemma rt_label_same:
  assumes "l \<le> n" "n < 2 ^ 53"
  shows "rt (writeLabelSame (BitBool v) (int l) (int n)) (readLabel pre (int n))
    (pre @ replicate l (bin_digit v), int l) (3 + bit_length n) 0"
proof -
  have "rt (store_len (int l) (log2_ceil (int n)))
      (\<lambda>s. bindE (load_len (log2_ceil (int n)) s) (\<lambda>(l, s).
        Inr ((pre @ concat (replicate (nat l) (bit_digit v)), l), s)))
      (pre @ replicate l (bin_digit v), int l) (bit_length n) 0"
    by (rule rt_map [OF rt_label_len [OF assms]]) (simp add: bit_digit_conv concat_replicate_single)
  then have "rt (\<lambda>b. bindE (Builder_storeBit (BitNum 1) b) (\<lambda>b.
        bindE (Builder_storeBit (BitBool v) b) (store_len (int l) (log2_ceil (int n)))))
      (label_rest pre (int n))
      (pre @ replicate l (bin_digit v), int l) (1 + (1 + bit_length n)) 0"
    using rt_bind [OF rt_bit, of "store_len (int l) (log2_ceil (int n))" _ v] by (intro rt_bit1 [where m = "1 + bit_length n"]) simp_all
  then show ?thesis
    unfolding writeLabelSame_def readLabel_def
    by (intro rt_bit1 [where m = "1 + (1 + bit_length n)"]) simp_all
qed

section \<open>The form that is picked\<close>

text \<open>The bits of the label in the form picked; never more than in the long form.\<close>

definition label_length :: "string \<Rightarrow> nat \<Rightarrow> nat" where
  "label_length src n =
     (case detectLabelType src (int n) of
        Short \<Rightarrow> labelShortLength src
      | Long \<Rightarrow> 2 + bit_length n + length src
      | Same \<Rightarrow> 3 + bit_length n)"

lemma label_length_least:
  "label_length src n \<le> labelShortLength src"
  "label_length src n \<le> 2 + bit_length n + length src"
  "isSame src \<Longrightarrow> label_length src n \<le> 3 + bit_length n"
  by (auto simp: label_length_def detectLabelType_def labelLongLength_def labelSameLength_def log2_ceil_nat
      len_less_def Let_def)

lemma isSame_replicate:
  assumes "isSame src" "is_bin src"
  shows "replicate (length src) (bin_digit (src \<noteq> [] \<and> hd src = CHR ''1'')) = src"
proof (cases src)
  case (Cons c cs)
  have "src ! i = c" if "i < length src" for i
  proof (cases "i = 0")
    case False
    with that have "i \<in> set [1..<length src]" "length src \<noteq> 1" "src \<noteq> []" by auto
    with assms(1) show ?thesis unfolding isSame_def list_all_iff Cons by (metis length_0_conv nth_Cons_0)
  qed (simp add: Cons)
  then have "replicate (length src) c = src" by (intro nth_equalityI) simp_all
  moreover have "bin_digit (src \<noteq> [] \<and> hd src = CHR ''1'') = c"
    using assms(2) Cons by (auto simp: bin_digit_def)
  ultimately show ?thesis by (simp only:)
qed simp

lemma rt_label:
  assumes "is_bin src" "length src \<le> n" "n < 2 ^ 53"
  shows "rt (writeLabel src (int n)) (readLabel pre (int n)) (pre @ src, int (length src)) (label_length src n) 0"
proof (cases "detectLabelType src (int n)")
  case Short
  then show ?thesis
    using rt_label_short [OF assms(1)] by (simp add: writeLabel_def [abs_def] label_length_def)
next
  case Long
  then show ?thesis
    using rt_label_long [OF assms] by (simp add: writeLabel_def [abs_def] label_length_def)
next
  case Same
  then have "isSame src" by (auto simp: detectLabelType_def Let_def split: if_splits)
  note same = isSame_replicate [OF this assms(1)]
  from rt_label_same [OF assms(2,3), of "src \<noteq> [] \<and> hd src = CHR ''1''"] Same show ?thesis
    unfolding same by (simp add: writeLabel_def [abs_def] label_length_def)
qed

end
