(* ===== verification/Dict_Roundtrip.thy ===== *)
theory Dict_Roundtrip
  imports Dict_Labels
begin

text \<open>
  A dictionary that is serialised and parsed again: the tree that \<open>buildTree\<close> makes is written
  edge by edge, every edge into a cell of its own, and \<open>doParse\<close> reads the entries back in
  ascending order of the keys. The bound is that a cell holds the longest label and a value.
\<close>

lemma rt_child:
  assumes "rt f g v n k" "sha_ok sha" "n \<le> 1023" "k \<le> 4"
  obtains b c s s' where "f new_Builder = Inr b" "cell_ok c" "\<not> Cell_isExotic c" "Cell_beginParse c False = Inr s"
    "g s = Inr (v, s')" "\<And>to. bl_fits to 0 1 \<Longrightarrow> stores (Builder_storeRef sha (ABuilder b) to) to [] [c]"
proof -
  obtain b c s s' where b: "f new_Builder = Inr b" "Builder_endCell sha False b = Inr c" "cell_ok c"
    "cell_type c = Ordinary" "Cell_beginParse c False = Inr s" "g s = Inr (v, s')"
    using rt_cell [OF assms] by blast
  moreover have "stores (Builder_storeRef sha (ABuilder b) to) to [] [c]" if "bl_fits to 0 1" for to
    using that b(2) by (auto simp: stores_def bl_fits_def fits_def Builder_storeRef.simps)
  ultimately show thesis using that by (simp add: Cell_isExotic_def)
qed

section \<open>Values of keys\<close>

definition key_value :: "string \<Rightarrow> int" where
  "key_value k = val_be (digit_bits k)"

lemma key_value_digits: "0 \<le> k \<Longrightarrow> k < 2 ^ n \<Longrightarrow> key_value (key_digits n k) = k"
  by (simp add: key_value_def key_digits_def digit_bits_bin val_be_bits_be_id)

lemma parse_bin_key: "is_bin k \<Longrightarrow> k \<noteq> [] \<Longrightarrow> parse_bin k = Inr (key_value k)"
  by (simp add: parse_bin_def key_value_def digit_bits_def)

lemma entries_keys:
  fixes nd :: "'v dict_node" and e :: "'v dict_edge"
  shows "wf_node nd n \<Longrightarrow> is_bin pre \<Longrightarrow> (k, v) \<in> set (node_entries pre nd) \<Longrightarrow> is_bin k \<and> length k = length pre + n"
    "wf_edge e n \<Longrightarrow> is_bin pre \<Longrightarrow> (k, v) \<in> set (edge_entries pre e) \<Longrightarrow> is_bin k \<and> length k = length pre + n"
proof (induction nd and e arbitrary: pre n and pre n)
  case (Fork l r)
  then show ?case
    using Fork.IH(1) [of "n - 1" "pre @ ''0''"] Fork.IH(2) [of "n - 1" "pre @ ''1''"] by auto
next
  case (Edge label nd)
  then show ?case using Edge.IH [of "n - length label" "pre @ label"] by auto
qed auto

lemma key_value_append: "key_value (pre @ z) = key_value pre * 2 ^ length z + key_value z"
  by (simp add: key_value_def digit_bits_def val_be_append)

lemma key_value_bounds: "0 \<le> key_value z" "key_value z < 2 ^ length z"
  using val_be_less [of "digit_bits z"] by (simp_all add: key_value_def)

lemma key_value_range:
  assumes "prefix pre k" "length k = length pre + n"
  shows "key_value pre * 2 ^ n \<le> key_value k" "key_value k < (key_value pre + 1) * 2 ^ n"
proof -
  obtain z where z: "k = pre @ z" using assms(1) by (auto simp: prefix_def)
  with assms(2) have "length z = n" by simp
  with z key_value_bounds [of z]
  show "key_value pre * 2 ^ n \<le> key_value k" "key_value k < (key_value pre + 1) * 2 ^ n"
    by (simp_all add: key_value_append algebra_simps)
qed

lemma entries_ascending:
  fixes nd :: "'v dict_node" and e :: "'v dict_edge"
  shows "wf_node nd n \<Longrightarrow> is_bin pre \<Longrightarrow> sorted_wrt (<) (map (key_value \<circ> fst) (node_entries pre nd))"
    "wf_edge e n \<Longrightarrow> is_bin pre \<Longrightarrow> sorted_wrt (<) (map (key_value \<circ> fst) (edge_entries pre e))"
proof (induction nd and e arbitrary: pre n and pre n)
  case (Fork l r)
  have "key_value j < key_value k"
    if j: "(j, v) \<in> set (edge_entries (pre @ ''0'') l)" and k: "(k, w) \<in> set (edge_entries (pre @ ''1'') r)" for j k v w
  proof -
    have "key_value j < (key_value (pre @ ''0'') + 1) * 2 ^ (n - 1)"
      using entries_prefix(2) [OF j] entries_keys(2) [OF _ _ j, of "n - 1"] Fork.prems
      by (intro key_value_range) auto
    moreover have "key_value (pre @ ''1'') * 2 ^ (n - 1) \<le> key_value k"
      using entries_prefix(2) [OF k] entries_keys(2) [OF _ _ k, of "n - 1"] Fork.prems
      by (intro key_value_range) auto
    moreover have "key_value (pre @ ''0'') + 1 = key_value (pre @ ''1'')"
      by (simp add: key_value_append) (simp add: key_value_def digit_bits_def val_be_def)
    ultimately show ?thesis by simp
  qed
  moreover have "sorted_wrt (<) (map (key_value \<circ> fst) (edge_entries (pre @ ''0'') l))"
    "sorted_wrt (<) (map (key_value \<circ> fst) (edge_entries (pre @ ''1'') r))"
    using Fork.IH(1) [of "n - 1" "pre @ ''0''"] Fork.IH(2) [of "n - 1" "pre @ ''1''"] Fork.prems by (simp_all add: comp_def)
  ultimately show ?case by (auto simp: sorted_wrt_append comp_def)
next
  case (Edge label nd)
  then show ?case using Edge.IH [of "n - length label" "pre @ label"] by auto
qed auto

section \<open>Edges\<close>

text \<open>What \<open>doParse\<close> does behind the label.\<close>

definition parse_node :: "string \<Rightarrow> slice \<Rightarrow> int \<Rightarrow> (int \<times> 'v) list \<Rightarrow> 'v sload \<Rightarrow> ((int \<times> 'v) list \<times> slice) res" where
  "parse_node pp s m res extractor =
     (if m = 0
     then bindE (parse_bin pp) (\<lambda>k. bindE (extractor s) (\<lambda>(v, s). Inr (AList.update k v res, s)))
     else bindE (Slice_loadRef s) (\<lambda>(left, s').
          bindE (Slice_loadRef s') (\<lambda>(right, s'').
          bindE (if \<not> Cell_isExotic left
                 then bindE (Cell_beginParse left False) (\<lambda>l.
                      doParse (pp @ ''0'') l (m - 1) res extractor)
                 else Inr (res, s'')) (\<lambda>(res, _).
          bindE (if \<not> Cell_isExotic right
                 then bindE (Cell_beginParse right False) (\<lambda>r.
                      doParse (pp @ ''1'') r (m - 1) res extractor)
                 else Inr (res, s'')) (\<lambda>(res, _). Inr (res, s''))))))"

lemma doParse_node:
  "doParse pre s n res ext =
     bindE (readLabel pre n s) (\<lambda>(label, s). case label of (pp, l) \<Rightarrow> parse_node pp s (n - l) res ext)"
  by (subst doParse.simps) (simp add: parse_node_def)

abbreviation add_entries :: "(int \<times> 'v) list \<Rightarrow> (string \<times> 'v) list \<Rightarrow> (int \<times> 'v) list" where
  "add_entries \<equiv> foldl (\<lambda>res (k, v). AList.update (key_value k) v res)"

lemma rt_fork:
  assumes "sha_ok sha" "B \<le> 1023" "K \<le> 4" "0 < m"
    and l: "rt (writeEdge sha l (int (m - 1)) ser) (\<lambda>s. doParse (pp @ ''0'') s (int (m - 1)) res ext) res1 B K"
    and r: "rt (writeEdge sha r (int (m - 1)) ser) (\<lambda>s. doParse (pp @ ''1'') s (int (m - 1)) res1 ext) res2 B K"
  shows "rt (writeNode sha (Fork l r) (int m) ser) (\<lambda>s. parse_node pp s (int m) res ext) res2 0 2"
proof (rule rtI)
  fix b assume b: "bl_fits b 0 2"
  have m: "int (m - 1) = int m - 1" using assms(4) by simp
  obtain b1 c1 s1 s1' where 1: "writeEdge sha l (int m - 1) ser new_Builder = Inr b1" "cell_ok c1" "\<not> Cell_isExotic c1"
    "Cell_beginParse c1 False = Inr s1" "doParse (pp @ ''0'') s1 (int m - 1) res ext = Inr (res1, s1')"
    "\<And>to. bl_fits to 0 1 \<Longrightarrow> stores (Builder_storeRef sha (ABuilder b1) to) to [] [c1]"
    using rt_child [OF l assms(1-3)] m by metis
  obtain b2 c2 s2 s2' where 2: "writeEdge sha r (int m - 1) ser new_Builder = Inr b2" "cell_ok c2" "\<not> Cell_isExotic c2"
    "Cell_beginParse c2 False = Inr s2" "doParse (pp @ ''1'') s2 (int m - 1) res1 ext = Inr (res2, s2')"
    "\<And>to. bl_fits to 0 1 \<Longrightarrow> stores (Builder_storeRef sha (ABuilder b2) to) to [] [c2]"
    using rt_child [OF r assms(1-3)] m by metis
  have "stores (bindE (Builder_storeRef sha (ABuilder b1) b) (Builder_storeRef sha (ABuilder b2))) b ([] @ []) ([c1] @ [c2])"
    by (rule stores_bind) (use b 1(6) 2(6) in \<open>simp_all add: numeral_2_eq_2\<close>)
  then have st: "stores (writeNode sha (Fork l r) (int m) ser b) b [] [c1, c2]" using 1(1) 2(1) by simp
  have "parse_node pp s (int m) res ext = Inr (res2, sl_move 0 2 s)"
    if s: "sl_ok s" "sl_bits s = ys" "sl_cells s = [c1, c2] @ ts" for s ys ts
  proof -
    have "Slice_loadRef s = Inr (c1, sl_move 0 1 s)" using loadRef_reads [of s c1 "c2 # ts"] s by (simp add: sreads_def)
    moreover have "Slice_loadRef (sl_move 0 1 s) = Inr (c2, sl_move 0 2 s)"
      using loadRef_reads [of "sl_move 0 1 s" c2 ts] sl_rest_split [of s "[]" ys "[c1]" "c2 # ts"] s
      by (simp add: sreads_def numeral_2_eq_2)
    ultimately show ?thesis using 1(3-5) 2(3-5) assms(4) by (simp add: parse_node_def)
  qed
  then have "loads (\<lambda>s. parse_node pp s (int m) res ext) [] [c1, c2] res2"
    unfolding loads_def by (simp add: numeral_2_eq_2)
  with st 1(2) 2(2) show "\<exists>xs rs. length xs \<le> 0 \<and> length rs \<le> 2 \<and> (\<forall>r \<in> set rs. cell_ok r) \<and>
      stores (writeNode sha (Fork l r) (int m) ser b) b xs rs \<and>
      loads (\<lambda>s. parse_node pp s (int m) res ext) xs rs res2"
    by (intro exI [of _ "[]"] exI [of _ "[c1, c2]"]) simp
qed

lemma rt_tree:
  fixes nd :: "'v dict_node" and e :: "'v dict_edge"
  assumes sha: "sha_ok sha" and fit: "2 + bit_length N + N + vb \<le> 1023" "vk \<le> 4"
  shows "wf_node nd m \<Longrightarrow> m \<le> N \<Longrightarrow> is_bin pre \<Longrightarrow> pre \<noteq> [] \<or> 0 < m \<Longrightarrow>
      (\<forall>(k, v) \<in> set (node_entries pre nd). rt (ser v) ext v vb vk) \<Longrightarrow>
      rt (writeNode sha nd (int m) ser) (\<lambda>s. parse_node pre s (int m) res ext)
        (add_entries res (node_entries pre nd)) vb (max 2 vk)"
    "wf_edge e m \<Longrightarrow> m \<le> N \<Longrightarrow> is_bin pre \<Longrightarrow> pre \<noteq> [] \<or> 0 < m \<Longrightarrow>
      (\<forall>(k, v) \<in> set (edge_entries pre e). rt (ser v) ext v vb vk) \<Longrightarrow>
      rt (writeEdge sha e (int m) ser) (\<lambda>s. doParse pre s (int m) res ext)
        (add_entries res (edge_entries pre e)) (2 + bit_length N + N + vb) (max 2 vk)"
proof (induction nd and e arbitrary: pre m res and pre m res)
  case (Leaf v)
  then have m: "m = 0" "parse_bin pre = Inr (key_value pre)" using parse_bin_key by auto
  have "rt (ser v) (\<lambda>s. bindE (ext s) (\<lambda>(v, s). Inr (AList.update (key_value pre) v res, s)))
      (AList.update (key_value pre) v res) vb vk"
    by (rule rt_map) (use Leaf in auto)
  then have "rt (ser v) (\<lambda>s. parse_node pre s (int m) res ext) (AList.update (key_value pre) v res) vb vk"
    using m by (simp add: parse_node_def)
  then show ?case by (auto intro: rt_le)
next
  case (Fork l r)
  have m: "0 < m" "m - 1 \<le> N" "wf_edge l (m - 1)" "wf_edge r (m - 1)" using Fork.prems by auto
  have bin: "is_bin (pre @ ''0'')" "is_bin (pre @ ''1'')" using Fork.prems by auto
  have "rt (writeNode sha (Fork l r) (int m) ser) (\<lambda>s. parse_node pre s (int m) res ext)
      (add_entries (add_entries res (edge_entries (pre @ ''0'') l)) (edge_entries (pre @ ''1'') r)) 0 2"
    by (rule rt_fork [OF sha fit(1) _ m(1) Fork.IH(1) Fork.IH(2)])
      (use Fork.prems m bin fit(2) in auto)
  then have "rt (writeNode sha (Fork l r) (int m) ser) (\<lambda>s. parse_node pre s (int m) res ext)
      (add_entries (add_entries res (edge_entries (pre @ ''0'') l)) (edge_entries (pre @ ''1'') r)) vb (max 2 vk)"
    by (rule rt_le) auto
  then show ?case by (simp only: node_entries.simps foldl_append)
next
  case (Edge label nd)
  have w: "is_bin label" "length label \<le> m" "wf_node nd (m - length label)" "m - length label \<le> N"
    "is_bin (pre @ label)" "m < 2 ^ 53" using Edge.prems fit by auto
  have ne: "pre @ label \<noteq> [] \<or> 0 < m - length label" using Edge.prems(4) by auto
  have im: "int (m - length label) = int m - int (length label)" using w(2) by simp
  have "bit_length m \<le> bit_length N"
    using bit_length_le [of m "bit_length N"] bit_length_upper [of N] Edge.prems(2) by simp
  then have len: "label_length label m + vb \<le> 2 + bit_length N + N + vb"
    using label_length_least(2) [of label m] w(2) Edge.prems(2) by linarith
  have "rt (writeNode sha nd (int m - int (length label)) ser)
      (\<lambda>s. parse_node (pre @ label) s (int m - int (length label)) res ext)
      (add_entries res (node_entries (pre @ label) nd)) vb (max 2 vk)"
    using Edge.IH [OF w(3,4,5) ne, of res] Edge.prems(5) unfolding im by simp
  then have "rt (\<lambda>b. bindE (writeLabel label (int m) b) (writeNode sha nd (int m - int (length label)) ser))
      (\<lambda>s. bindE (readLabel pre (int m) s) (\<lambda>(lab, s). case lab of (pp, l) \<Rightarrow> parse_node pp s (int m - l) res ext))
      (add_entries res (node_entries (pre @ label) nd)) (label_length label m + vb) (0 + max 2 vk)"
    by (intro rt_bind [OF rt_label [OF w(1,2,6)]]) simp
  then show ?case
    unfolding writeEdge.simps doParse_node edge_entries.simps
    by (rule rt_le) (use len in simp_all)
qed

section \<open>Whole dictionaries\<close>

lemma sort_key_unique:
  fixes xs ys :: "(int \<times> 'v) list"
  assumes "sorted_wrt (<) (map fst xs)" "set xs = set ys" "distinct (map fst ys)"
  shows "xs = sort_key fst ys"
proof (rule map_sorted_distinct_set_unique [where f = fst])
  show "inj_on fst (set xs \<union> set (sort_key fst ys))" using assms(2,3) by (simp add: distinct_map)
  show "distinct (map fst xs)" "sorted (map fst xs)" using assms(1) strict_sorted_iff by blast+
  show "distinct (map fst (sort_key fst ys))" using assms(3) by (simp add: distinct_map)
qed (use assms in simp_all)

lemma rt_dict:
  assumes "sha_ok sha" "int_keys_ok n src" "2 + bit_length n + n + vb \<le> 1023" "vk \<le> 4"
    and "\<forall>(k, v) \<in> set src. rt (ser v) ext v vb vk"
  shows "rt (serializeDict sha src (int n) ser) (\<lambda>s. doParse [] s (int n) [] ext) (sort_key fst src)
    (2 + bit_length n + n + vb) (max 2 vk)"
proof -
  obtain e where e: "buildTree src n = Inr e" "wf_edge e n"
    "set (edge_entries [] e) = (\<lambda>(k, v). (key_digits n k, v)) ` set src"
    using buildTree_ok [OF assms(2)] by blast
  have n: "0 < n" using assms(2) by (simp add: int_keys_ok_def)
  define es where "es = map (\<lambda>(k, v). (key_value k, v)) (edge_entries [] e)"
  have es: "sorted_wrt (<) (map fst es)"
    using entries_ascending(2) [OF e(2), of "[]"] by (simp add: es_def comp_def split_beta)
  have "(\<lambda>(k, v). (key_value (key_digits n k), v)) x = x" if "x \<in> set src" for x
  proof -
    have "0 \<le> fst x" "fst x < 2 ^ n" using that assms(2) unfolding int_keys_ok_def by blast+
    then show ?thesis using key_value_digits [of "fst x" n] by (cases x) simp
  qed
  then have "(\<lambda>(k, v). (key_value (key_digits n k), v)) ` set src = (\<lambda>x. x) ` set src" by (rule image_cong [OF refl])
  moreover have "set es = (\<lambda>(k, v). (key_value (key_digits n k), v)) ` set src"
    unfolding es_def set_map e(3) image_image by (rule image_cong) auto
  ultimately have "set es = set src" by simp
  then have sorted: "es = sort_key fst src"
    using es assms(2) by (intro sort_key_unique) (simp_all add: int_keys_ok_def)
  have "add_entries [] (edge_entries [] e) = foldl (\<lambda>res (k, v). AList.update k v res) [] es"
    unfolding es_def foldl_map by (simp add: split_beta')
  also have "\<dots> = es"
    using es strict_sorted_iff fold_update_distinct [of "[]" es] by (simp add: strict_sorted_iff)
  finally have "add_entries [] (edge_entries [] e) = es" .
  then have entries: "add_entries [] (edge_entries [] e) = sort_key fst src" using sorted by simp
  have "\<forall>(k, v) \<in> set (edge_entries [] e). rt (ser v) ext v vb vk" using assms(5) e(3) by auto
  with rt_tree(2) [OF assms(1,3,4) e(2), of "[]" ser ext "[]"] n
  have "rt (writeEdge sha e (int n) ser) (\<lambda>s. doParse [] s (int n) [] ext) (sort_key fst src)
    (2 + bit_length n + n + vb) (max 2 vk)" unfolding entries by simp
  then show ?thesis using e(1) by (simp add: serializeDict_def [abs_def])
qed

end
