(* ===== verification/Dictionary.thy ===== *)
theory Dictionary
  imports Dict_Tree Ton_Address
begin

text \<open>
  \<open>Dictionary\<close> (ton-core/dict/Dictionary.ts): a \<open>Map\<close> from internal key strings to values
  (dict/utils/internalKeySerializer.ts), with the codecs that turn keys into numbers and values
  into bits. The methods \<open>storeDict\<close> and \<open>loadDict\<close> of Builder and Slice are here too.
\<close>

section \<open>Internal keys\<close>

text \<open>A number that is no integer, NaN for instance, is \<open>KVal NonInt\<close>.\<close>

datatype dict_key = KVal jsval | KAddr address | KBuf buffer | KBits bit_string

definition serializeInternalKey :: "dict_key \<Rightarrow> string res" where
  "serializeInternalKey k =
     (case k of
        KVal (Num n) \<Rightarrow> if \<not> is_safe_integer n then Inl InvalidKey else Inr (''n:'' @ to_string_radix 10 n)
      | KVal NonInt \<Rightarrow> Inl InvalidKey
      | KVal (Big n) \<Rightarrow> Inr (''b:'' @ to_string_radix 10 n)
      | KAddr a \<Rightarrow> Inr (''a:'' @ Address_toString None None None a)
      | KBuf w \<Rightarrow> Inr (''f:'' @ hex_of_buffer w)
      | KBits bs \<Rightarrow> bindE (BitString_toString bs) (\<lambda>t. Inr (''B:'' @ t)))"

definition deserializeBitsKey :: "string \<Rightarrow> bit_string res" where
  "deserializeBitsKey v =
     (let lastDash = (v \<noteq> [] \<and> last v = CHR ''_'');
          isPadded = (lastDash \<or> length v mod 2 \<noteq> 0)
      in if isPadded
         then let charLen = (if lastDash then length v - 1 else length v);
                  padded = take charLen v @ ''0''
              in if \<not> lastDash \<and> odd charLen
                 then new_BitString (hex_decode padded) 0 (int charLen * 4)
                 else paddedBufferToBits (hex_decode padded)
         else new_BitString (hex_decode v) 0 (int (length v) * 4))"

definition deserializeInternalKey :: "string \<Rightarrow> dict_key res" where
  "deserializeInternalKey s =
     (let k = take 2 s; v = drop 2 s
      in if k = ''n:'' then Inr (KVal (case js_parseInt v of Some n \<Rightarrow> Num n | None \<Rightarrow> NonInt))
         else if k = ''b:'' then bindE (js_BigInt v) (\<lambda>n. Inr (KVal (Big n)))
         else if k = ''a:'' then bindE (Address_parse v) (\<lambda>a. Inr (KAddr a))
         else if k = ''f:'' then Inr (KBuf (hex_decode v))
         else if k = ''B:'' then bindE (deserializeBitsKey v) (\<lambda>bs. Inr (KBits bs))
         else Inl InvalidKey)"

section \<open>Dictionaries\<close>

record dict_key_type =
  dk_bits :: int
  dk_serialize :: "dict_key \<Rightarrow> int res"
  dk_parse :: "int \<Rightarrow> dict_key res"

record 'v dict_value_type =
  dv_serialize :: "'v \<Rightarrow> builder \<Rightarrow> builder res"
  dv_parse :: "'v sload"

record 'v dictionary =
  d_key :: "dict_key_type option"
  d_value :: "'v dict_value_type option"
  d_map :: "(string \<times> 'v) list"

definition Dictionary_empty :: "dict_key_type option \<Rightarrow> 'v dict_value_type option \<Rightarrow> 'v dictionary" where
  "Dictionary_empty key value =
     (if \<not> Option.is_none key \<and> \<not> Option.is_none value
      then \<lparr>d_key = key, d_value = value, d_map = []\<rparr>
      else \<lparr>d_key = None, d_value = None, d_map = []\<rparr>)"

text \<open>The slice is \<open>None\<close> for the \<open>null\<close> argument.\<close>

definition Dictionary_loadDirect ::
    "dict_key_type \<Rightarrow> 'v dict_value_type \<Rightarrow> slice option \<Rightarrow> ('v dictionary \<times> slice option) res" where
  "Dictionary_loadDirect key value sc =
     (case sc of
        None \<Rightarrow> Inr (Dictionary_empty (Some key) (Some value), None)
      | Some sl \<Rightarrow>
          bindE (parseDict (Some sl) (dk_bits key) (dv_parse value)) (\<lambda>(values, sl).
          bindE (foldE (\<lambda>(k, v) prepare.
                   bindE (dk_parse key k) (\<lambda>dk.
                   bindE (serializeInternalKey dk) (\<lambda>ik. Inr (AList.update ik v prepare)))) values [])
            (\<lambda>prepare. Inr (\<lparr>d_key = Some key, d_value = Some value, d_map = prepare\<rparr>, sl))))"

definition Dictionary_loadDirect_cell :: "dict_key_type \<Rightarrow> 'v dict_value_type \<Rightarrow> cell \<Rightarrow> 'v dictionary res" where
  "Dictionary_loadDirect_cell key value c =
     bindE (Cell_beginParse c False) (\<lambda>sl.
     bindE (Dictionary_loadDirect key value (Some sl)) (\<lambda>(d, _). Inr d))"

definition Dictionary_load :: "dict_key_type \<Rightarrow> 'v dict_value_type \<Rightarrow> 'v dictionary sload" where
  "Dictionary_load key value sl =
     bindE (Slice_loadMaybeRef sl) (\<lambda>(cell, sl).
     case cell of
       Some c \<Rightarrow> if \<not> Cell_isExotic c
                 then bindE (Cell_beginParse c False) (\<lambda>s.
                      bindE (Dictionary_loadDirect key value (Some s)) (\<lambda>(d, _). Inr (d, sl)))
                 else Inr (Dictionary_empty (Some key) (Some value), sl)
     | None \<Rightarrow> Inr (Dictionary_empty (Some key) (Some value), sl))"

definition Dictionary_load_cell :: "dict_key_type \<Rightarrow> 'v dict_value_type \<Rightarrow> cell \<Rightarrow> 'v dictionary res" where
  "Dictionary_load_cell key value c =
     (if Cell_isExotic c then Inr (Dictionary_empty (Some key) (Some value))
      else bindE (Cell_beginParse c False) (\<lambda>sl.
           bindE (Dictionary_load key value sl) (\<lambda>(d, _). Inr d)))"

definition Dictionary_size :: "'v dictionary \<Rightarrow> nat" where
  "Dictionary_size d = length (d_map d)"

definition Dictionary_get :: "dict_key \<Rightarrow> 'v dictionary \<Rightarrow> 'v option res" where
  "Dictionary_get key d = bindE (serializeInternalKey key) (\<lambda>k. Inr (map_of (d_map d) k))"

definition Dictionary_has :: "dict_key \<Rightarrow> 'v dictionary \<Rightarrow> bool res" where
  "Dictionary_has key d = bindE (serializeInternalKey key) (\<lambda>k. Inr (k \<in> fst ` set (d_map d)))"

definition Dictionary_set :: "dict_key \<Rightarrow> 'v \<Rightarrow> 'v dictionary \<Rightarrow> 'v dictionary res" where
  "Dictionary_set key v d =
     bindE (serializeInternalKey key) (\<lambda>k. Inr (d\<lparr>d_map := AList.update k v (d_map d)\<rparr>))"

definition Dictionary_delete :: "dict_key \<Rightarrow> 'v dictionary \<Rightarrow> (bool \<times> 'v dictionary) res" where
  "Dictionary_delete key d =
     bindE (serializeInternalKey key) (\<lambda>k.
     Inr (k \<in> fst ` set (d_map d), d\<lparr>d_map := AList.delete k (d_map d)\<rparr>))"

definition Dictionary_clear :: "'v dictionary \<Rightarrow> 'v dictionary" where
  "Dictionary_clear d = d\<lparr>d_map := []\<rparr>"

definition Dictionary_keys :: "'v dictionary \<Rightarrow> dict_key list res" where
  "Dictionary_keys d = mapE (\<lambda>(k, _). deserializeInternalKey k) (d_map d)"

definition Dictionary_values :: "'v dictionary \<Rightarrow> 'v list" where
  "Dictionary_values d = map snd (d_map d)"

definition Dictionary_entries :: "'v dictionary \<Rightarrow> (dict_key \<times> 'v) list res" where \<comment> \<open>the iterator, run to its end\<close>
  "Dictionary_entries d = mapE (\<lambda>(k, v). bindE (deserializeInternalKey k) (\<lambda>key. Inr (key, v))) (d_map d)"

subsection \<open>Storing\<close>

text \<open>An argument that is given takes precedence over the codec of the dictionary.\<close>

definition resolve :: "'c option \<Rightarrow> 'c option \<Rightarrow> 'c res" where
  "resolve arg own =
     (case (case arg of Some c \<Rightarrow> Some c | None \<Rightarrow> own) of Some c \<Rightarrow> Inr c | None \<Rightarrow> Inl NoSerializer)"

definition prepare_keys :: "dict_key_type \<Rightarrow> (string \<times> 'v) list \<Rightarrow> (int \<times> 'v) list res" where
  "prepare_keys key m =
     foldE (\<lambda>(k, v) prepared.
         bindE (deserializeInternalKey k) (\<lambda>dk.
         bindE (dk_serialize key dk) (\<lambda>n. Inr (AList.update n v prepared)))) m []"

definition Dictionary_store ::
    "(buffer \<Rightarrow> buffer) \<Rightarrow> 'v dictionary \<Rightarrow> dict_key_type option \<Rightarrow> 'v dict_value_type option \<Rightarrow> builder \<Rightarrow> builder res" where
  "Dictionary_store sha d key value builder =
     (if Dictionary_size d = 0 then Builder_storeBit (BitNum 0) builder
      else bindE (resolve key (d_key d)) (\<lambda>resolvedKey.
           bindE (resolve value (d_value d)) (\<lambda>resolvedValue.
           bindE (prepare_keys resolvedKey (d_map d)) (\<lambda>prepared.
           bindE (Builder_storeBit (BitNum 1) builder) (\<lambda>builder.
           bindE (serializeDict sha prepared (dk_bits resolvedKey) (dv_serialize resolvedValue) new_Builder) (\<lambda>dd.
           bindE (Builder_endCell sha False dd) (\<lambda>c. Builder_storeRef sha (ACell c) builder)))))))"

definition Dictionary_storeDirect ::
    "(buffer \<Rightarrow> buffer) \<Rightarrow> 'v dictionary \<Rightarrow> dict_key_type option \<Rightarrow> 'v dict_value_type option \<Rightarrow> builder \<Rightarrow> builder res" where
  "Dictionary_storeDirect sha d key value builder =
     (if Dictionary_size d = 0 then Inl EmptyDirect
      else bindE (resolve key (d_key d)) (\<lambda>resolvedKey.
           bindE (resolve value (d_value d)) (\<lambda>resolvedValue.
           bindE (prepare_keys resolvedKey (d_map d)) (\<lambda>prepared.
           serializeDict sha prepared (dk_bits resolvedKey) (dv_serialize resolvedValue) builder))))"

definition Builder_storeDict ::
    "(buffer \<Rightarrow> buffer) \<Rightarrow> 'v dictionary option \<Rightarrow> dict_key_type option \<Rightarrow> 'v dict_value_type option \<Rightarrow> builder \<Rightarrow> builder res" where
  "Builder_storeDict sha dict key value b =
     (case dict of Some d \<Rightarrow> Dictionary_store sha d key value b | None \<Rightarrow> Builder_storeBit (BitNum 0) b)"

definition Builder_storeDictDirect ::
    "(buffer \<Rightarrow> buffer) \<Rightarrow> 'v dictionary \<Rightarrow> dict_key_type option \<Rightarrow> 'v dict_value_type option \<Rightarrow> builder \<Rightarrow> builder res" where
  "Builder_storeDictDirect sha dict key value b = Dictionary_storeDirect sha dict key value b"

definition Slice_loadDict :: "dict_key_type \<Rightarrow> 'v dict_value_type \<Rightarrow> 'v dictionary sload" where
  "Slice_loadDict key value s = Dictionary_load key value s"

definition Slice_loadDictDirect :: "dict_key_type \<Rightarrow> 'v dict_value_type \<Rightarrow> 'v dictionary sload" where
  "Slice_loadDictDirect key value s =
     bindE (Dictionary_loadDirect key value (Some s)) (\<lambda>(d, s'). Inr (d, case s' of Some t \<Rightarrow> t | None \<Rightarrow> s))"

end
