(* ===== verification/Dict_Codecs.thy ===== *)
theory Dict_Codecs
  imports Dictionary
begin

text \<open>
  The codecs of dictionary keys and values (the functions \<open>createAddressKey\<close> to
  \<open>createBitStringValue\<close> of ton-core/dict/Dictionary.ts, offered as \<open>Dictionary.Keys\<close> and
  \<open>Dictionary.Values\<close>). A key is turned into a number, and back, by writing it into a cell and
  reading the cell.
\<close>

definition through_cell ::
    "(buffer \<Rightarrow> buffer) \<Rightarrow> (builder \<Rightarrow> builder res) \<Rightarrow> (slice \<Rightarrow> 'a res) \<Rightarrow> 'a res" where
  "through_cell sha store load =
     bindE (store new_Builder) (\<lambda>b.
     bindE (Builder_endCell sha False b) (\<lambda>c.
     bindE (Cell_beginParse c False) load))"

definition dropS :: "'a sload \<Rightarrow> slice \<Rightarrow> 'a res" where \<comment> \<open>the slice is not used again\<close>
  "dropS f s = bindE (f s) (\<lambda>(v, _). Inr v)"

section \<open>Keys\<close>

definition createAddressKey :: "(buffer \<Rightarrow> buffer) \<Rightarrow> dict_key_type" where
  "createAddressKey sha =
     \<lparr>dk_bits = 267,
      dk_serialize = (\<lambda>src. case src of
          KAddr a \<Rightarrow> through_cell sha (Builder_storeAddress (Some (Internal a))) (Slice_preloadUintBig 267)
        | _ \<Rightarrow> Inl InvalidKey),
      dk_parse = (\<lambda>src. bindE (through_cell sha (Builder_storeUint (Big src) 267) (dropS Slice_loadAddress))
                         (\<lambda>a. Inr (KAddr a)))\<rparr>"

definition createBigIntKey :: "(buffer \<Rightarrow> buffer) \<Rightarrow> int \<Rightarrow> dict_key_type" where
  "createBigIntKey sha bits =
     \<lparr>dk_bits = bits,
      dk_serialize = (\<lambda>src. case src of
          KVal (Big n) \<Rightarrow> through_cell sha (Builder_storeInt (Big n) bits) (dropS (Slice_loadUintBig bits))
        | _ \<Rightarrow> Inl InvalidKey),
      dk_parse = (\<lambda>src. bindE (through_cell sha (Builder_storeUint (Big src) bits) (dropS (Slice_loadIntBig bits)))
                         (\<lambda>n. Inr (KVal (Big n))))\<rparr>"

definition createIntKey :: "(buffer \<Rightarrow> buffer) \<Rightarrow> int \<Rightarrow> dict_key_type" where
  "createIntKey sha bits =
     \<lparr>dk_bits = bits,
      dk_serialize = (\<lambda>src. case src of
          KVal (Num n) \<Rightarrow>
            if \<not> is_safe_integer n then Inl InvalidKey
            else through_cell sha (Builder_storeInt (Num n) bits) (dropS (Slice_loadUintBig bits))
        | _ \<Rightarrow> Inl InvalidKey),
      dk_parse = (\<lambda>src. bindE (through_cell sha (Builder_storeUint (Big src) bits) (dropS (Slice_loadInt bits)))
                         (\<lambda>n. Inr (KVal (Num n))))\<rparr>"

definition createBigUintKey :: "(buffer \<Rightarrow> buffer) \<Rightarrow> int \<Rightarrow> dict_key_type" where
  "createBigUintKey sha bits =
     \<lparr>dk_bits = bits,
      dk_serialize = (\<lambda>src. case src of
          KVal (Big n) \<Rightarrow>
            if n < 0 then Inl InvalidKey
            else through_cell sha (Builder_storeUint (Big n) bits) (dropS (Slice_loadUintBig bits))
        | _ \<Rightarrow> Inl InvalidKey),
      dk_parse = (\<lambda>src. bindE (through_cell sha (Builder_storeUint (Big src) bits) (dropS (Slice_loadUintBig bits)))
                         (\<lambda>n. Inr (KVal (Big n))))\<rparr>"

definition createUintKey :: "(buffer \<Rightarrow> buffer) \<Rightarrow> int \<Rightarrow> dict_key_type" where
  "createUintKey sha bits =
     \<lparr>dk_bits = bits,
      dk_serialize = (\<lambda>src. case src of
          KVal (Num n) \<Rightarrow>
            if \<not> is_safe_integer n then Inl InvalidKey
            else if n < 0 then Inl InvalidKey
            else through_cell sha (Builder_storeUint (Num n) bits) (dropS (Slice_loadUintBig bits))
        | _ \<Rightarrow> Inl InvalidKey),
      dk_parse = (\<lambda>src. bindE (through_cell sha (Builder_storeUint (Big src) bits) (dropS (Slice_loadUint bits)))
                         (\<lambda>n. Inr (KVal (Num n))))\<rparr>"

definition createBufferKey :: "(buffer \<Rightarrow> buffer) \<Rightarrow> int \<Rightarrow> dict_key_type" where
  "createBufferKey sha bytes =
     \<lparr>dk_bits = bytes * 8,
      dk_serialize = (\<lambda>src. case src of
          KBuf w \<Rightarrow> through_cell sha (Builder_storeBuffer w None) (dropS (Slice_loadUintBig (bytes * 8)))
        | _ \<Rightarrow> Inl InvalidKey),
      dk_parse = (\<lambda>src. bindE (through_cell sha (Builder_storeUint (Big src) (bytes * 8)) (dropS (Slice_loadBuffer bytes)))
                         (\<lambda>w. Inr (KBuf w)))\<rparr>"

definition createBitStringKey :: "(buffer \<Rightarrow> buffer) \<Rightarrow> int \<Rightarrow> dict_key_type" where
  "createBitStringKey sha bits =
     \<lparr>dk_bits = bits,
      dk_serialize = (\<lambda>src. case src of
          KBits bs \<Rightarrow> through_cell sha (Builder_storeBits bs) (dropS (Slice_loadUintBig bits))
        | _ \<Rightarrow> Inl InvalidKey),
      dk_parse = (\<lambda>src. bindE (through_cell sha (Builder_storeUint (Big src) bits) (dropS (Slice_loadBits bits)))
                         (\<lambda>bs. Inr (KBits bs)))\<rparr>"

section \<open>Values\<close>

text \<open>
  The values read by an integer codec are Numbers or BigInts, as the reader returns them; the
  values given to it may be either.
\<close>

definition mapS :: "('a \<Rightarrow> 'b) \<Rightarrow> 'a sload \<Rightarrow> 'b sload" where
  "mapS g f s = bindE (f s) (\<lambda>(v, s). Inr (g v, s))"

definition createIntValue :: "int \<Rightarrow> jsval dict_value_type" where
  "createIntValue bits =
     \<lparr>dv_serialize = (\<lambda>src. Builder_storeInt src bits), dv_parse = mapS Num (Slice_loadInt bits)\<rparr>"

definition createBigIntValue :: "int \<Rightarrow> jsval dict_value_type" where
  "createBigIntValue bits =
     \<lparr>dv_serialize = (\<lambda>src. Builder_storeInt src bits), dv_parse = mapS Big (Slice_loadIntBig bits)\<rparr>"

definition createBigVarIntValue :: "int \<Rightarrow> jsval dict_value_type" where
  "createBigVarIntValue bits =
     \<lparr>dv_serialize = (\<lambda>src. Builder_storeVarInt src bits), dv_parse = mapS Big (Slice_loadVarIntBig bits)\<rparr>"

definition createBigVarUintValue :: "int \<Rightarrow> jsval dict_value_type" where
  "createBigVarUintValue bits =
     \<lparr>dv_serialize = (\<lambda>src. Builder_storeVarUint src bits), dv_parse = mapS Big (Slice_loadVarUintBig bits)\<rparr>"

definition createUintValue :: "int \<Rightarrow> jsval dict_value_type" where
  "createUintValue bits =
     \<lparr>dv_serialize = (\<lambda>src. Builder_storeUint src bits), dv_parse = mapS Num (Slice_loadUint bits)\<rparr>"

definition createBigUintValue :: "int \<Rightarrow> jsval dict_value_type" where
  "createBigUintValue bits =
     \<lparr>dv_serialize = (\<lambda>src. Builder_storeUint src bits), dv_parse = mapS Big (Slice_loadUintBig bits)\<rparr>"

definition createBooleanValue :: "bool dict_value_type" where
  "createBooleanValue =
     \<lparr>dv_serialize = (\<lambda>src. Builder_storeBit (BitBool src)), dv_parse = Slice_loadBit\<rparr>"

definition createAddressValue :: "address dict_value_type" where
  "createAddressValue =
     \<lparr>dv_serialize = (\<lambda>src. Builder_storeAddress (Some (Internal src))), dv_parse = Slice_loadAddress\<rparr>"

definition createCellValue :: "(buffer \<Rightarrow> buffer) \<Rightarrow> cell dict_value_type" where
  "createCellValue sha =
     \<lparr>dv_serialize = (\<lambda>src. Builder_storeRef sha (ACell src)), dv_parse = Slice_loadRef\<rparr>"

definition createDictionaryValue ::
    "(buffer \<Rightarrow> buffer) \<Rightarrow> dict_key_type \<Rightarrow> 'v dict_value_type \<Rightarrow> 'v dictionary dict_value_type" where
  "createDictionaryValue sha key value =
     \<lparr>dv_serialize = (\<lambda>src. Dictionary_store sha src None None), dv_parse = Dictionary_load key value\<rparr>"

definition createBufferValue :: "int \<Rightarrow> buffer dict_value_type" where
  "createBufferValue n =
     \<lparr>dv_serialize = (\<lambda>src b. if int (length src) \<noteq> n then Inl InvalidSize else Builder_storeBuffer src None b),
      dv_parse = Slice_loadBuffer n\<rparr>"

definition createBitStringValue :: "int \<Rightarrow> bit_string dict_value_type" where
  "createBitStringValue bits =
     \<lparr>dv_serialize = (\<lambda>src b. if int (bs_length src) \<noteq> bits then Inl InvalidSize else Builder_storeBits src b),
      dv_parse = Slice_loadBits bits\<rparr>"

end
