(* ===== verification/Dictionary_Roundtrip.thy ===== *)
theory Dictionary_Roundtrip
  imports Dict_Roundtrip Dict_Codecs Address_Roundtrip
begin

text \<open>
  A \<open>Dictionary\<close> that is stored and loaded again. The contract of a key codec is a locale; it
  holds for the keys of the code that are used in messages (numbers of a fixed width) and for
  addresses. A dictionary is determined by its entries in ascending order of the keys.
\<close>

lemma bindE_Inr [simp]: "bindE m Inr = m"
  by (simp add: bindE_def split: sum.splits)

section \<open>The contract of a key codec\<close>

locale dict_key_codec =
  fixes key :: dict_key_type
    and n :: nat
    and num :: "'k \<Rightarrow> int" \<comment> \<open>the number whose digits are the key in the tree\<close>
    and inj :: "'k \<Rightarrow> dict_key"
    and text_of :: "'k \<Rightarrow> string"
    and valid :: "'k \<Rightarrow> bool"
  assumes bits: "dk_bits key = int n"
    and range: "valid k \<Longrightarrow> 0 < n \<and> 0 \<le> num k \<and> num k < 2 ^ n"
    and num_inj: "valid k \<Longrightarrow> valid l \<Longrightarrow> num k = num l \<Longrightarrow> k = l"
    and serialize: "valid k \<Longrightarrow> dk_serialize key (inj k) = Inr (num k)"
    and parse: "valid k \<Longrightarrow> dk_parse key (num k) = Inr (inj k)"
    and to_text: "valid k \<Longrightarrow> serializeInternalKey (inj k) = Inr (text_of k)"
    and of_text: "valid k \<Longrightarrow> deserializeInternalKey (text_of k) = Inr (inj k)"
begin

text \<open>The dictionary of a list of entries.\<close>

definition dict_of :: "'v dict_value_type \<Rightarrow> ('k \<times> 'v) list \<Rightarrow> 'v dictionary" where
  "dict_of vt es = \<lparr>d_key = Some key, d_value = Some vt, d_map = map (\<lambda>(k, v). (text_of k, v)) es\<rparr>"

definition entries_ok :: "('k \<times> 'v) list \<Rightarrow> bool" where
  "entries_ok es \<longleftrightarrow> (\<forall>(k, v) \<in> set es. valid k) \<and> sorted_wrt (<) (map (num \<circ> fst) es)"

abbreviation nums :: "('k \<times> 'v) list \<Rightarrow> (int \<times> 'v) list" where
  "nums es \<equiv> map (\<lambda>(k, v). (num k, v)) es"

lemma text_of_inj: "valid k \<Longrightarrow> valid l \<Longrightarrow> text_of k = text_of l \<Longrightarrow> k = l"
  by (metis num_inj of_text serialize sum.inject(2))

lemma entries_okD: "entries_ok es \<Longrightarrow> (k, v) \<in> set es \<Longrightarrow> valid k"
  by (auto simp: entries_ok_def)

lemma nums_facts:
  assumes "entries_ok es"
  shows "sorted_wrt (<) (map fst (nums es))" "distinct (map fst (nums es))" "sort_key fst (nums es) = nums es"
proof -
  show s: "sorted_wrt (<) (map fst (nums es))"
    using assms by (simp add: entries_ok_def comp_def split_beta)
  then show d: "distinct (map fst (nums es))" by (simp add: strict_sorted_iff)
  show "sort_key fst (nums es) = nums es" using sort_key_unique [OF s refl d] by simp
qed

lemma int_keys_nums:
  assumes "entries_ok es" "es \<noteq> []"
  shows "int_keys_ok n (nums es)"
proof -
  have "0 < n \<and> 0 \<le> k \<and> k < 2 ^ n" if "k \<in> fst ` set (nums es)" for k
    using that range entries_okD [OF assms(1)] by auto
  moreover obtain k where "k \<in> fst ` set (nums es)" using assms(2) by (cases es) auto
  ultimately show ?thesis using nums_facts(2) [OF assms(1)] assms(2) unfolding int_keys_ok_def by auto
qed

lemma prepare_nums:
  assumes "entries_ok es"
  shows "prepare_keys key (d_map (dict_of vt es)) = Inr (nums es)"
proof -
  let ?f = "\<lambda>(k, v) prepared. bindE (deserializeInternalKey k) (\<lambda>dk.
      bindE (dk_serialize key dk) (\<lambda>n. Inr (AList.update n v prepared)))"
  have "foldE ?f (map (\<lambda>(k, v). (text_of k, v)) xs) acc = Inr (foldl (\<lambda>res (k, v). AList.update k v res) acc (nums xs))"
    if "set xs \<subseteq> set es" for xs acc
    using that
  proof (induction xs arbitrary: acc)
    case (Cons x xs)
    obtain k v where x: "x = (k, v)" by (cases x)
    with Cons.prems have "valid k" using entries_okD [OF assms] by auto
    with Cons x show ?case by (simp add: of_text serialize)
  qed simp
  from this [of es "[]"] fold_update_distinct [of "[]" "nums es"] nums_facts(2) [OF assms]
  show ?thesis by (simp add: prepare_keys_def dict_of_def)
qed

lemma restore_nums:
  assumes "entries_ok es"
  shows "foldE (\<lambda>(k, v) prepare. bindE (dk_parse key k) (\<lambda>dk.
      bindE (serializeInternalKey dk) (\<lambda>ik. Inr (AList.update ik v prepare)))) (nums es) [] =
    Inr (map (\<lambda>(k, v). (text_of k, v)) es)"
proof -
  let ?f = "\<lambda>(k, v) prepare. bindE (dk_parse key k) (\<lambda>dk.
      bindE (serializeInternalKey dk) (\<lambda>ik. Inr (AList.update ik v prepare)))"
  have "foldE ?f (nums xs) acc = Inr (foldl (\<lambda>res (k, v). AList.update k v res) acc (map (\<lambda>(k, v). (text_of k, v)) xs))"
    if "set xs \<subseteq> set es" for xs acc
    using that
  proof (induction xs arbitrary: acc)
    case (Cons x xs)
    obtain k v where x: "x = (k, v)" by (cases x)
    with Cons.prems have "valid k" using entries_okD [OF assms] by auto
    with Cons x show ?case by (simp add: parse to_text)
  qed simp
  moreover have "distinct (map fst (map (\<lambda>(k, v). (text_of k, v)) es))"
  proof -
    have "distinct (map fst es)"
      using nums_facts(2) [OF assms] by (simp add: distinct_map comp_def split_beta) (auto simp: inj_on_def distinct_map)
    moreover have "inj_on text_of (fst ` set es)" using entries_okD [OF assms] text_of_inj by (intro inj_onI) auto
    ultimately have "distinct (map text_of (map fst es))" by (simp only: distinct_map set_map)
    then show ?thesis by (simp add: comp_def split_beta)
  qed
  ultimately show ?thesis using fold_update_distinct [of "[]" "map (\<lambda>(k, v). (text_of k, v)) es"] by simp
qed

text \<open>Stored in a cell of its own behind a bit, or as a bit when it is empty.\<close>

lemma loadDirect_nums:
  assumes "entries_ok es" "doParse [] s (int n) [] (dv_parse vt) = Inr (nums es, s')"
  shows "Dictionary_loadDirect key vt (Some s) = Inr (dict_of vt es, Some s')"
  using assms(2) restore_nums [OF assms(1)]
  by (simp add: Dictionary_loadDirect_def parseDict_def bits dict_of_def)

lemma rt_Dictionary:
  assumes "sha_ok sha" "entries_ok es" "2 + bit_length n + n + vb \<le> 1023" "vk \<le> 4"
    and "\<forall>(k, v) \<in> set es. rt (dv_serialize vt v) (dv_parse vt) v vb vk"
  shows "rt (Dictionary_store sha (dict_of vt es) None None) (Dictionary_load key vt) (dict_of vt es) 1 1"
proof (cases "es = []")
  case True
  have "rt (\<lambda>b. bindE (Builder_storeBit (BitNum 0) b) Inr)
      (\<lambda>s. bindE (load_maybe Slice_loadRef s) (\<lambda>(cell, sl). case cell of
         Some c \<Rightarrow> if \<not> Cell_isExotic c
                 then bindE (Cell_beginParse c False) (\<lambda>s.
                      bindE (Dictionary_loadDirect key vt (Some s)) (\<lambda>(d, _). Inr (d, sl)))
                 else Inr (Dictionary_empty (Some key) (Some vt), sl)
       | None \<Rightarrow> Inr (Dictionary_empty (Some key) (Some vt), sl))) (dict_of vt []) (1 + 0) (1 + 0)"
  proof (rule rt_bind [where v = None])
    show "rt (Builder_storeBit (BitNum 0)) (load_maybe Slice_loadRef) None 1 1"
      using rt_maybe [of None "\<lambda>_. Inr" Slice_loadRef 0 1] by (simp add: store_maybe_def [abs_def])
    show "rt Inr (\<lambda>s. case None of
         Some c \<Rightarrow> if \<not> Cell_isExotic c
                 then bindE (Cell_beginParse c False) (\<lambda>s'.
                      bindE (Dictionary_loadDirect key vt (Some s')) (\<lambda>(d, _). Inr (d, s)))
                 else Inr (Dictionary_empty (Some key) (Some vt), s)
       | None \<Rightarrow> Inr (Dictionary_empty (Some key) (Some vt), s)) (dict_of vt []) 0 0"
      using rt_return [of "dict_of vt []"] by (simp add: Dictionary_empty_def dict_of_def)
  qed
  moreover have "Dictionary_store sha (dict_of vt []) None None = (\<lambda>b. bindE (Builder_storeBit (BitNum 0) b) Inr)"
    by (rule ext) (simp add: Dictionary_store_def Dictionary_size_def dict_of_def bindE_def split: sum.splits)
  ultimately show ?thesis using True unfolding Dictionary_load_def Slice_loadMaybeRef_def by simp
next
  case False
  have k: "2 + bit_length n + n + vb \<le> 1023" "max 2 vk \<le> 4" using assms(3,4) by auto
  have "\<forall>(k, v) \<in> set (nums es). rt (dv_serialize vt v) (dv_parse vt) v vb vk" using assms(5) by auto
  from rt_dict [OF assms(1) int_keys_nums [OF assms(2) False] assms(3,4) this] nums_facts(3) [OF assms(2)]
  have d: "rt (serializeDict sha (nums es) (int n) (dv_serialize vt)) (\<lambda>s. doParse [] s (int n) [] (dv_parse vt))
    (nums es) (2 + bit_length n + n + vb) (max 2 vk)" by simp
  obtain b1 c s1 s' where 1: "serializeDict sha (nums es) (int n) (dv_serialize vt) new_Builder = Inr b1"
    "Builder_endCell sha False b1 = Inr c" "cell_ok c" "cell_type c = Ordinary" "Cell_beginParse c False = Inr s1"
    "doParse [] s1 (int n) [] (dv_parse vt) = Inr (nums es, s')"
    using rt_cell [OF d assms(1) k] by blast
  have store: "Dictionary_store sha (dict_of vt es) None None =
      (\<lambda>b. bindE (Builder_storeBit (BitNum 1) b) (Builder_storeRef sha (ACell c)))"
    using False prepare_nums [OF assms(2), of vt] 1(1,2)
    by (intro ext) (simp add: Dictionary_store_def Dictionary_size_def resolve_def dict_of_def bits)
  have "rt (\<lambda>b. bindE (bindE (Builder_storeBit (BitNum 1) b) (Builder_storeRef sha (ACell c))) Inr)
      (Dictionary_load key vt) (dict_of vt es) (1 + 0) (1 + 0)"
    unfolding Dictionary_load_def Slice_loadMaybeRef_def
  proof (rule rt_bind [where v = "Some c"])
    show "rt (\<lambda>b. bindE (Builder_storeBit (BitNum 1) b) (Builder_storeRef sha (ACell c))) (load_maybe Slice_loadRef) (Some c) 1 1"
      using rt_maybe [of "Some c" "\<lambda>c. Builder_storeRef sha (ACell c)" Slice_loadRef 0 1] rt_ref [OF 1(3)]
      by (simp add: store_maybe_def [abs_def])
    show "rt Inr (\<lambda>s. case Some c of
         Some c \<Rightarrow> if \<not> Cell_isExotic c
                 then bindE (Cell_beginParse c False) (\<lambda>s'.
                      bindE (Dictionary_loadDirect key vt (Some s')) (\<lambda>(d, _). Inr (d, s)))
                 else Inr (Dictionary_empty (Some key) (Some vt), s)
       | None \<Rightarrow> Inr (Dictionary_empty (Some key) (Some vt), s)) (dict_of vt es) 0 0"
      using rt_return [of "dict_of vt es"] 1(4,5) loadDirect_nums [OF assms(2) 1(6)]
      by (simp add: Cell_isExotic_def)
  qed
  then show ?thesis unfolding store by simp
qed

end

section \<open>Key codecs\<close>

text \<open>A value that goes through a cell, written by one codec and read by another.\<close>

lemma through_cell_rt:
  assumes "rt f g v n k" "sha_ok sha" "n \<le> 1023" "k \<le> 4"
  shows "through_cell sha f (dropS g) = Inr v"
  using rt_cell [OF assms] by (auto simp: through_cell_def dropS_def)

lemma rt_bits:
  assumes "length xs = n" "\<And>b. bl_fits b n 0 \<Longrightarrow> stores (f b) b xs []"
    and "\<And>s ys ts. sl_ok s \<Longrightarrow> sl_bits s = xs @ ys \<Longrightarrow> sl_cells s = ts \<Longrightarrow> sreads g s v n 0"
  shows "rt f g v n 0"
  by (rule rtI) (use assms in \<open>force simp: loads_def sreads_def intro!: exI [of _ xs]\<close>)

lemma storeUint_stores:
  "to_bigint x = Inr v \<Longrightarrow> 0 \<le> v \<Longrightarrow> v < 2 ^ n \<Longrightarrow> bl_fits b n 0 \<Longrightarrow>
    stores (Builder_storeUint x (int n) b) b (bits_be n v) []"
  unfolding Builder_storeUint_def by (intro lift_write_stores writes_uint) (auto simp: bl_fits_def)

lemma rt_num_uint:
  assumes "to_bigint x = Inr v" "0 \<le> v" "v < 2 ^ n"
  shows "rt (Builder_storeUint x (int n)) (Slice_loadUintBig (int n)) v n 0"
  by (rule rt_bits [of "bits_be n v"])
    (use assms storeUint_stores s_uint.load_ok [of v n] in simp_all)

lemma rt_uint_num:
  assumes "0 \<le> v" "v < 2 ^ n" "v < 2 ^ 53"
  shows "rt (Builder_storeUint (Big v) (int n)) (Slice_loadUint (int n)) v n 0"
  by (rule rt_bits [of "bits_be n v"])
    (use assms storeUint_stores [of "Big v"] s_num.load_ok [of v n] in simp_all)

interpretation big_uint_key: dict_key_codec "createBigUintKey sha (int n)" n "\<lambda>k. k" "\<lambda>k. KVal (Big k)"
  "\<lambda>k. ''b:'' @ to_string_radix 10 k" "\<lambda>k. sha_ok sha \<and> 0 < n \<and> n \<le> 1023 \<and> 0 \<le> k \<and> k < 2 ^ n" for sha n
proof (unfold_locales, goal_cases)
  case (4 k)
  then show ?case using through_cell_rt [OF rt_num_uint [of "Big k" k n]] by (simp add: createBigUintKey_def)
next
  case (5 k)
  then show ?case using through_cell_rt [OF rt_num_uint [of "Big k" k n]] by (simp add: createBigUintKey_def)
qed (simp_all add: createBigUintKey_def serializeInternalKey_def deserializeInternalKey_def BigInt_decimal)

interpretation uint_key: dict_key_codec "createUintKey sha (int n)" n "\<lambda>k. k" "\<lambda>k. KVal (Num k)"
  "\<lambda>k. ''n:'' @ to_string_radix 10 k" "\<lambda>k. sha_ok sha \<and> 0 < n \<and> n \<le> 1023 \<and> 0 \<le> k \<and> k < 2 ^ n \<and> k < 2 ^ 53" for sha n
proof (unfold_locales, goal_cases)
  case (4 k)
  then show ?case using through_cell_rt [OF rt_num_uint [of "Num k" k n]] by (simp add: createUintKey_def is_safe_integer_def)
next
  case (5 k)
  then show ?case using through_cell_rt [OF rt_uint_num [of k n]] by (simp add: createUintKey_def)
qed (simp_all add: createUintKey_def serializeInternalKey_def deserializeInternalKey_def parseInt_decimal is_safe_integer_def)

text \<open>
  An address is written with its 267 bits and kept under its friendly text, so the key is
  recovered when the workchain fits both forms.
\<close>

abbreviation address_number :: "address \<Rightarrow> int" where
  "address_number a \<equiv> val_be (enc_std_address a)"

lemma address_bits: "valid_std a \<Longrightarrow> bits_be 267 (address_number a) = enc_std_address a"
  using bits_be_val_be [of "enc_std_address a"] length_enc_std [of a] by simp

lemma address_number_bounds: "valid_std a \<Longrightarrow> 0 \<le> address_number a \<and> address_number a < 2 ^ 267"
  using val_be_less [of "enc_std_address a"] length_enc_std [of a] by simp

lemma preload_drop: "Slice_preloadUintBig n = dropS (Slice_loadUintBig n)"
  by (rule ext) (auto simp: Slice_preloadUintBig_def dropS_def Slice_loadUintBig_def lift_load_def lift_preload_def
      BitReader_loadUintBig_def bindE_def split: sum.splits)

lemma rt_address_number:
  assumes "valid_std a"
  shows "rt (Builder_storeAddress (Some (Internal a))) (Slice_loadUintBig 267) (address_number a) 267 0"
    "rt (Builder_storeUint (Big (address_number a)) 267) Slice_loadAddress a 267 0"
proof -
  note facts = address_bits [OF assms] address_number_bounds [OF assms] length_enc_std [OF assms]
  show "rt (Builder_storeAddress (Some (Internal a))) (Slice_loadUintBig 267) (address_number a) 267 0"
    by (rule rt_bits [of "enc_std_address a"])
      (use assms facts s_address.store_ok [of a] s_uint.load_ok [of "address_number a" 267] in simp_all)
  show "rt (Builder_storeUint (Big (address_number a)) 267) Slice_loadAddress a 267 0"
    by (rule rt_bits [of "enc_std_address a"])
      (use assms facts s_address.load_ok [of a] s_uint.store_ok [of "address_number a" 267] in simp_all)
qed

lemma loadAddress_inj:
  assumes "sha_ok (sha :: buffer \<Rightarrow> buffer)" "valid_std a" "valid_std b" "address_number a = address_number b"
  shows "a = b"
proof -
  have read: "through_cell sha (Builder_storeUint (Big (address_number c)) 267) (dropS Slice_loadAddress) = Inr c"
    if "valid_std c" for c
    by (rule through_cell_rt [OF rt_address_number(2) [OF that] assms(1)]) simp_all
  from read [OF assms(2)] have "Inr a = (Inr b :: address res)" unfolding assms(4) read [OF assms(3)] by (rule sym)
  then show ?thesis by simp
qed

interpretation address_key: dict_key_codec "createAddressKey sha" 267 address_number KAddr
  "\<lambda>a. ''a:'' @ Address_toString None None None a" "\<lambda>a. sha_ok sha \<and> friendly_ok a \<and> valid_std a" for sha
proof (unfold_locales, goal_cases)
  case (2 a)
  then show ?case using address_number_bounds [of a] zero_less_numeral by blast
next
  case (3 a b)
  then show ?case using loadAddress_inj by blast
next
  case (4 a)
  then show ?case
    using through_cell_rt [OF rt_address_number(1)] by (simp add: createAddressKey_def preload_drop)
next
  case (5 a)
  then show ?case
    using through_cell_rt [OF rt_address_number(2)] by (simp add: createAddressKey_def)
next
  case (7 a)
  then show ?case by (simp add: deserializeInternalKey_def Address_parse_toString)
qed (simp_all add: createAddressKey_def serializeInternalKey_def)

end
