(* ===== verification/Properties_Boc.thy ===== *)
theory Properties_Boc
  imports Boc_Roundtrip Boc_Safety Properties_Cells Dictionary_Roundtrip
begin

text \<open>The properties of bags of cells.\<close>

text \<open>
  C2: a tree of cells written by \<open>Cell.toBoc\<close>, with or without index and checksum, is read back
  by \<open>Cell.fromBoc\<close> as a single root with the same tree: types, bits, masks, hashes, depths and
  references. The hypotheses are that the digest identifies the cells of the tree, that every
  cell has at most four references (library cells may have more) and that there are at most
  \<open>2 ^ 20\<close> distinct cells.
\<close>

theorem bag_of_cells_roundtrip:
  assumes "sha_ok sha" "built sha root" "collision_free root"
    and "\<forall>c \<in> subcells root. length (cell_refs c) \<le> 4" "card (subcells root) \<le> 2 ^ 20"
  shows "\<exists>src root'. Cell_toBoc idx crc32 root = Inr src \<and> Cell_fromBoc sha src = Inr [root'] \<and>
    xtree root' = xtree root"
proof -
  obtain es where es: "topologicalSort root = Inr es" "topo_ok root es"
    using topologicalSort_ok [OF assms(3)] by blast
  from bag_roundtrip [OF assms(1-3) es(2,1) boc_fits_small [OF assms(1,2) es(2) assms(4,5)]]
  show ?thesis unfolding Cell_toBoc_def Cell_fromBoc_def by blast
qed

theorem bag_of_cells_roundtrip_witness:
  "\<exists>a root src root'. new_Cell pad_hash False (bytes_string [1, 2, 3]) [] = Inr a \<and>
    new_Cell pad_hash False (bytes_string [9]) [a, a] = Inr root \<and>
    Cell_toBoc None None root = Inr src \<and> Cell_fromBoc pad_hash src = Inr [root'] \<and> xtree root' = xtree root"
proof -
  obtain a where a: "new_Cell pad_hash False (bytes_string [1, 2, 3]) [] = Inr a" "plain pad_hash a"
    "cell_bits a = bytes_string [1, 2, 3]" "cell_refs a = []"
    using plain_leaf [of "bytes_string [1, 2, 3]"] bytes_string_ok [of "[1, 2, 3]"] by (auto simp: bytes_string_def)
  have ok: "\<forall>r \<in> set [a, a]. cell_ok r" "\<forall>r \<in> set [a, a]. plain pad_hash r" "\<forall>r \<in> set [a, a]. plain_ok pad_hash r"
    using plain_facts [OF pad_hash_ok a(2)] a(2) by simp_all
  obtain c where c: "new_Cell pad_hash False (bytes_string [9]) [a, a] = Inr c" "cell_refs c = [a, a]"
    "plain_ok pad_hash c" "cell_bits c = bytes_string [9]"
    using new_Cell_plain [OF pad_hash_ok ok(1,3), of "bytes_string [9]"] bytes_string_ok [of "[9]"]
    by (auto simp: bytes_string_def)
  have p: "plain pad_hash c" using plain_new [OF ok(2) _ c(1)] bytes_string_ok [of "[9]"] by simp
  have sub: "subcells c = {c, a}" by (simp add: subcells_simp [of c] subcells_simp [of a] c(2) a(4))
  have rep: "repr_plain c \<noteq> [] \<and> hd (repr_plain c) = 2" "repr_plain a \<noteq> [] \<and> hd (repr_plain a) = 0"
    by (simp_all add: repr_plain_def repr_of_def c(2) a(4))
  have "Cell_hash c 3 \<noteq> Cell_hash a 3"
  proof -
    have "hd (pad_hash (repr_plain c)) = 2" "hd (pad_hash (repr_plain a)) = 0"
      using rep by (cases "repr_plain c"; simp add: pad_hash_def; cases "repr_plain a"; simp add: pad_hash_def)+
    then show ?thesis
      using plain_ok_hash(1) [OF c(3)] plain_ok_hash(1) [of pad_hash a] plain_facts [OF pad_hash_ok a(2)] by auto
  qed
  then have "collision_free c" unfolding collision_free_def sub by auto
  moreover have "\<forall>r \<in> subcells c. length (cell_refs r) \<le> 4" "card (subcells c) \<le> 2 ^ 20"
    unfolding sub using c(2) a(4) by (auto simp: card_insert_if)
  ultimately show ?thesis
    using bag_of_cells_roundtrip [OF pad_hash_ok plain_built [OF p], of None None] a(1) c(1) by blast
qed

text \<open>
  C12: whatever bytes \<open>Cell.fromBoc\<close> is given, if it returns then every root was made by the
  constructor from well-formed bits and cells so made: hashes, depths and masks agree with the
  content in the whole tree below.
\<close>

theorem fromBoc_safe:
  assumes "8 * length src < 2 ^ 31" "Cell_fromBoc sha src = Inr cs" "sha_ok sha"
  shows "\<forall>c \<in> set cs. built sha c \<and> (\<forall>d \<in> subcells c. cell_ok d)"
proof
  fix c assume "c \<in> set cs"
  then have c: "built sha c" using deserializeBoc_built assms(1,2) unfolding Cell_fromBoc_def by blast
  then show "built sha c \<and> (\<forall>d \<in> subcells c. cell_ok d)"
    using subcells_built [OF _ assms(3) c] built_ok [OF _ assms(3)] by blast
qed

theorem fromBoc_safe_witness:
  "\<exists>src cs c. Cell_fromBoc pad_hash src = Inr cs \<and> cs \<noteq> [] \<and> (\<forall>c \<in> set cs. built pad_hash c)"
proof -
  obtain a where a: "plain pad_hash a" "cell_refs a = []"
    using plain_leaf [of "bytes_string [7]"] bytes_string_ok [of "[7]"] by (auto simp: bytes_string_def)
  have b: "built pad_hash a" and sub: "subcells a = {a}" and "collision_free a"
    using plain_built [OF a(1)] a(2) by (simp_all add: subcells_simp [of a] collision_free_def)
  obtain es where es: "topologicalSort a = Inr es" "topo_ok a es" using topologicalSort_ok [OF \<open>collision_free a\<close>] by blast
  have fits: "boc_fits es False False"
    by (rule boc_fits_small [OF pad_hash_ok b es(2)]) (simp_all add: sub a(2))
  obtain src where src: "serializeBoc a False False = Inr src"
    "buf_bits src = boc_bits es False False @ buf_bits (boc_crc False (boc_bits es False False))"
    using serializeBoc_ok [OF es(1) fits] by blast
  have "8 * length src < 2 ^ 31" using arg_cong [OF src(2), of length] fits by (simp add: boc_fits_def boc_crc_def)
  moreover obtain c where "Cell_fromBoc pad_hash src = Inr [c]"
    using bag_roundtrip [OF pad_hash_ok b \<open>collision_free a\<close> es(2,1) fits] src(1) by (auto simp: Cell_fromBoc_def)
  ultimately show ?thesis using fromBoc_safe [OF _ _ pad_hash_ok, of src "[c]"] by blast
qed

section \<open>Dictionaries\<close>

text \<open>
  The properties of dictionaries: the prefix and the label of an edge, the tree that is built,
  and the round trips of the serialised tree and of the \<open>Dictionary\<close> object.
\<close>

section \<open>The tree\<close>

text \<open>
  \<open>findCommonPrefix\<close>, which shortens a candidate against one key after another, returns the
  longest common prefix of all keys from the position on.
\<close>

theorem findCommonPrefix_longest:
  assumes "src \<noteq> []" "\<forall>s \<in> set src. p \<le> length s"
  shows "(\<forall>s \<in> set src. prefix (findCommonPrefix src p) (drop p s)) \<and>
    (\<forall>q. (\<forall>s \<in> set src. prefix q (drop p s)) \<longrightarrow> length q \<le> length (findCommonPrefix src p))"
proof -
  have ne: "drop p ` set src \<noteq> {}" using assms(1) by simp
  show ?thesis
    unfolding findCommonPrefix_lcp [OF assms]
    using Longest_common_prefix_prefix [of _ "drop p ` set src"] Longest_common_prefix_longest [OF ne] by blast
qed

theorem findCommonPrefix_longest_witness:
  "prefix (findCommonPrefix [''0101'', ''0110''] 1) (drop 1 ''0101'')"
  using findCommonPrefix_longest [of "[''0101'', ''0110'']" 1] by simp

text \<open>
  C25: \<open>buildTree\<close> fails on no set of distinct keys of the given width; the tree it returns maps
  the digits of a number exactly to what the given map has for that number.
\<close>

theorem buildTree_refines_map:
  assumes "int_keys_ok n src" "0 \<le> k" "k < 2 ^ n"
  shows "\<exists>e. buildTree src n = Inr e \<and> wf_edge e n \<and>
    map_of (edge_entries [] e) (key_digits n k) = map_of src k"
proof -
  obtain e where e: "buildTree src n = Inr e" "wf_edge e n"
    "set (edge_entries [] e) = (\<lambda>(k, v). (key_digits n k, v)) ` set src"
    using buildTree_ok [OF assms(1)] by blast
  have d: "distinct (map fst src)" "distinct (map fst (edge_entries [] e))"
    using assms(1) entries_distinct(2) by (auto simp: int_keys_ok_def)
  have "(key_digits n k, v) \<in> set (edge_entries [] e) \<longleftrightarrow> (k, v) \<in> set src" for v
  proof
    assume "(key_digits n k, v) \<in> set (edge_entries [] e)"
    then obtain j where j: "(j, v) \<in> set src" "key_digits n k = key_digits n j" using e(3) by auto
    then have "0 \<le> j \<and> j < 2 ^ n" using assms(1) unfolding int_keys_ok_def by force
    with key_digits_inj [OF j(2)] assms(2,3) j(1) show "(k, v) \<in> set src" by simp
  next
    assume "(k, v) \<in> set src"
    then show "(key_digits n k, v) \<in> set (edge_entries [] e)" using e(3) by force
  qed
  then have "map_of (edge_entries [] e) (key_digits n k) = Some v \<longleftrightarrow> map_of src k = Some v" for v
    using map_of_eq_Some_iff [OF d(1)] map_of_eq_Some_iff [OF d(2)] by simp
  then have "map_of (edge_entries [] e) (key_digits n k) = map_of src k"
    by (metis not_Some_eq)
  with e show ?thesis by blast
qed

theorem buildTree_refines_map_witness:
  "\<exists>e. buildTree [(5, True), (1, False)] 8 = Inr e \<and> wf_edge e 8 \<and>
    map_of (edge_entries [] e) (key_digits 8 1) = Some False"
  using buildTree_refines_map [of 8 "[(5, True), (1, False)]" 1] by (simp add: int_keys_ok_def)

section \<open>Labels\<close>

text \<open>
  whatever form \<open>detectLabelType\<close> picks for the label of an edge, \<open>readLabel\<close> reads the label
  that \<open>writeLabel\<close> wrote, and no other form of the same label would have taken fewer bits.
\<close>

theorem label_roundtrip:
  assumes "sha_ok sha" "is_bin src" "length src \<le> n" "2 + bit_length n + n \<le> 1023"
  shows "\<exists>b c s s'. writeLabel src (int n) new_Builder = Inr b \<and>
    Builder_bits b \<le> int (labelShortLength src) \<and> Builder_bits b \<le> int (2 + bit_length n + length src) \<and>
    (isSame src \<longrightarrow> Builder_bits b \<le> int (3 + bit_length n)) \<and>
    Builder_endCell sha False b = Inr c \<and> Cell_beginParse c False = Inr s \<and>
    readLabel pre (int n) s = Inr ((pre @ src, int (length src)), s') \<and> Slice_endParse s' = Inr ()"
proof -
  let ?l = "label_length src n"
  have l: "?l \<le> 1023" using label_length_least(2) [of src n] assms(3,4) by simp
  have r: "rt (writeLabel src (int n)) (readLabel pre (int n)) (pre @ src, int (length src)) ?l 0"
    by (rule rt_label) (use assms in auto)
  obtain b c s s' where b: "writeLabel src (int n) new_Builder = Inr b" "Builder_endCell sha False b = Inr c"
    "Cell_beginParse c False = Inr s" "readLabel pre (int n) s = Inr ((pre @ src, int (length src)), s')"
    "Slice_endParse s' = Inr ()"
    using rt_cell [OF r assms(1) l] by auto
  obtain xs rs where x: "length xs \<le> ?l" "stores (writeLabel src (int n) new_Builder) new_Builder xs rs"
    using rtE [OF r new_Builder_fits [OF l]] by (metis zero_le)
  then have "bb_bits (bl_bits b) = xs" "wf_bb (bl_bits b)"
    using b(1) new_Builder_facts by (auto simp: stores_def appends_def bb_bits_def)
  then have "Builder_bits b \<le> int ?l" using x(1) length_bb_bits [of "bl_bits b"] by (simp add: Builder_bits_def)
  then show ?thesis using b label_length_least [of src n] by (intro exI conjI) auto
qed

theorem label_roundtrip_witness:
  "\<exists>b c s s'. writeLabel ''0000'' 4 new_Builder = Inr b \<and>
    Builder_bits b \<le> int (labelShortLength ''0000'') \<and> Builder_bits b \<le> int (2 + bit_length 4 + length ''0000'') \<and>
    (isSame ''0000'' \<longrightarrow> Builder_bits b \<le> int (3 + bit_length 4)) \<and>
    Builder_endCell pad_hash False b = Inr c \<and> Cell_beginParse c False = Inr s \<and>
    readLabel [] 4 s = Inr (([] @ ''0000'', int (length ''0000'')), s') \<and> Slice_endParse s' = Inr ()"
proof -
  have "bit_length 4 \<le> 3" by (rule bit_length_le) simp
  then show ?thesis using label_roundtrip [OF pad_hash_ok, of "''0000''" 4 "[]"] by simp
qed

section \<open>Round trips\<close>

text \<open>
  C21: a map from numbers of \<open>n\<close> bits to values is serialised without error, and parsing the cell
  gives all its entries back, in ascending order of the keys. Of the values it is assumed only
  that their own writer and reader fit each other, that each takes at most \<open>vb\<close> bits
  and \<open>vk\<close> references, and that the longest label and a value fit a cell.
\<close>

theorem serializeDict_parseDict:
  assumes "sha_ok sha" "int_keys_ok n src" "2 + bit_length n + n + vb \<le> 1023" "vk \<le> 4"
    and "\<forall>(k, v) \<in> set src. rt (ser v) ext v vb vk"
  shows "\<exists>b c s s'. serializeDict sha src (int n) ser new_Builder = Inr b \<and> Builder_endCell sha False b = Inr c \<and>
    Cell_beginParse c False = Inr s \<and> parseDict (Some s) (int n) ext = Inr (sort_key fst src, Some s') \<and>
    Slice_endParse s' = Inr ()"
proof -
  have "max 2 vk \<le> 4" using assms(4) by simp
  from rt_cell [OF rt_dict [OF assms] assms(1,3) this] show ?thesis by (auto simp: parseDict_def)
qed

theorem serializeDict_parseDict_witness:
  "\<exists>b c s s'. serializeDict pad_hash [(7, 1), (2, 9)] (int 8) (\<lambda>v. Builder_storeUint (Big v) 16) new_Builder = Inr b \<and>
    Builder_endCell pad_hash False b = Inr c \<and> Cell_beginParse c False = Inr s \<and>
    parseDict (Some s) (int 8) (Slice_loadUintBig 16) = Inr (sort_key fst [(7, 1), (2, 9)], Some s') \<and>
    Slice_endParse s' = Inr ()"
proof (rule serializeDict_parseDict [OF pad_hash_ok, where vb = 16 and vk = 0])
  have "bit_length 8 \<le> 4" by (rule bit_length_le) simp
  then show "2 + bit_length 8 + 8 + 16 \<le> 1023" by simp
  show "\<forall>(k, v) \<in> set [(7 :: int, 1), (2, 9)]. rt (Builder_storeUint (Big v) 16) (Slice_loadUintBig 16) v 16 0"
    using rt_uint [of _ "num.Bit0 (num.Bit0 (num.Bit0 (num.Bit0 num.One)))"] by simp
qed (simp_all add: int_keys_ok_def)



end
