(* ===== verification/Merkle_Proof.thy ===== *)
theory Merkle_Proof
  imports Dictionary
begin

text \<open>
  Merkle proofs of dictionaries (ton-core/dict/generateMerkleProof.ts,
  generateMerkleUpdate.ts, and \<open>convertToMerkleProof\<close> of boc/cell/exoticMerkleProof.ts): the
  sub-dictionaries that hold none of the keys are replaced by pruned branches.
\<close>

definition convertToPrunedBranch :: "(buffer \<Rightarrow> buffer) \<Rightarrow> cell \<Rightarrow> cell res" where
  "convertToPrunedBranch sha c =
     bindE (Builder_storeUint (Num 1) 8 new_Builder) (\<lambda>b.
     bindE (Builder_storeUint (Num 1) 8 b) (\<lambda>b.
     bindE (Builder_storeBuffer (Cell_hash c 0) None b) (\<lambda>b.
     bindE (Builder_storeUint (Num (Cell_depth c 0)) 16 b) (\<lambda>b.
     Builder_endCell sha True b))))"

definition convertToMerkleProof :: "(buffer \<Rightarrow> buffer) \<Rightarrow> cell \<Rightarrow> cell res" where
  "convertToMerkleProof sha c =
     bindE (Builder_storeUint (Num 3) 8 new_Builder) (\<lambda>b.
     bindE (Builder_storeBuffer (Cell_hash c 0) None b) (\<lambda>b.
     bindE (Builder_storeUint (Num (Cell_depth c 0)) 16 b) (\<lambda>b.
     bindE (Builder_storeRef sha (ACell c) b) (\<lambda>b.
     Builder_endCell sha True b))))"

text \<open>\<open>pp + '0' === key.slice(0, pp.length + 1)\<close>\<close>

definition keys_below :: "string \<Rightarrow> string list \<Rightarrow> string list" where
  "keys_below p = filter (\<lambda>key. p = take (length p) key)"

text \<open>A finished cell keeps the references of its builder; so \<open>asCell\<close> keeps those that are left.\<close>

lemma new_Cell_refs: "new_Cell sha exotic bits refs = Inr c \<Longrightarrow> cell_refs c = refs"
  by (auto simp: new_Cell_def split: if_splits)

lemma storeRefs_refs:
  "foldE (\<lambda>r. Builder_storeRef sha (ACell r)) rs b = Inr b' \<Longrightarrow> bl_refs b' = bl_refs b @ rs"
  by (induction rs arbitrary: b) (auto simp: Builder_storeRef.simps split: if_splits)

lemma storeSlice_refs:
  "Builder_storeSlice sha s b = Inr b' \<Longrightarrow> bl_refs b' = bl_refs b @ drop (sl_refsOffset s) (sl_refs s)"
  by (auto simp: Builder_storeSlice_def Let_def Slice_clone_def new_Slice_def Slice_loadBits_def
      Builder_storeBits_def lift_load_def lift_write_def dest!: storeRefs_refs split: if_splits)

lemma asCell_refs: "Slice_asCell sha s = Inr c \<Longrightarrow> cell_refs c = drop (sl_refsOffset s) (sl_refs s)"
  by (auto simp: Slice_asCell_def Builder_endCell_def new_Builder_def dest!: new_Cell_refs storeSlice_refs)

lemma asCell_left_size:
  assumes "Slice_asCell sha s = Inr c" and "Cell_beginParse c b = Inr t" and "Slice_loadRef t = Inr (l, t')"
    and "Cell_beginParse l d = Inr ls"
  shows "refs_size ls < refs_size s"
  using loadRef_parse_size [OF assms(3,4)] beginParse_refs [OF assms(2)] asCell_refs [OF assms(1)] by simp

lemma asCell_right_size:
  assumes "Slice_asCell sha s = Inr c" and "Cell_beginParse c b = Inr t" and "Slice_loadRef t = Inr (l, t')"
    and "Slice_loadRef t' = Inr (r, t'')" and "Cell_beginParse r d = Inr rs"
  shows "refs_size rs < refs_size s"
  using loadRef_parse_size [OF assms(4,5)] loadRef_refs_size [OF assms(3)]
    beginParse_refs [OF assms(2)] asCell_refs [OF assms(1)] by simp

function doGenerateMerkleProof ::
    "(buffer \<Rightarrow> buffer) \<Rightarrow> string \<Rightarrow> slice \<Rightarrow> int \<Rightarrow> string list \<Rightarrow> cell res" where
  "doGenerateMerkleProof sha prefix s n keys =
     bindE (Slice_asCell sha s) (\<lambda>originalCell.
     if keys = [] then convertToPrunedBranch sha originalCell
     else bindE (readLabel prefix n s) (\<lambda>(label, _). case label of (pp, prefixLength) \<Rightarrow>
       if n - prefixLength = 0 then Inr originalCell
       else bindE (Cell_beginParse originalCell False) (\<lambda>sl.
            bindE (Slice_loadRef sl) (\<lambda>(left, sl').
            bindE (Slice_loadRef sl') (\<lambda>(right, sl'').
            bindE (if \<not> Cell_isExotic left
                   then bindE (Cell_beginParse left False) (\<lambda>l.
                        doGenerateMerkleProof sha (pp @ ''0'') l (n - prefixLength - 1) (keys_below (pp @ ''0'') keys))
                   else Inr left) (\<lambda>newLeft.
            bindE (if \<not> Cell_isExotic right
                   then bindE (Cell_beginParse right False) (\<lambda>r.
                        doGenerateMerkleProof sha (pp @ ''1'') r (n - prefixLength - 1) (keys_below (pp @ ''1'') keys))
                   else Inr right) (\<lambda>newRight.
            bindE (Builder_storeSlice sha sl'' new_Builder) (\<lambda>b.
            bindE (Builder_storeRef sha (ACell newLeft) b) (\<lambda>b.
            bindE (Builder_storeRef sha (ACell newRight) b) (Builder_endCell sha False)))))))))) "
  by pat_completeness auto
termination
proof (relation "measure (\<lambda>(sha, p, s, n, keys). refs_size s)", goal_cases)
  case 2
  then show ?case by clarsimp (rule asCell_left_size)
next
  case 3
  then show ?case by clarsimp (rule asCell_right_size)
qed simp

declare doGenerateMerkleProof.simps [simp del]

definition padStart :: "string \<Rightarrow> int \<Rightarrow> string" where \<comment> \<open>\<open>padStart(n, '0')\<close>\<close>
  "padStart s n = replicate (nat n - length s) (CHR ''0'') @ s"

definition generateMerkleProofDirect ::
    "(buffer \<Rightarrow> buffer) \<Rightarrow> 'v dictionary \<Rightarrow> dict_key list \<Rightarrow> dict_key_type option \<Rightarrow> cell res" where
  "generateMerkleProofDirect sha dict keys keyObject =
     bindE (foldE (\<lambda>key _. bindE (Dictionary_has key dict) (\<lambda>h. if \<not> h then Inl MissingKey else Inr ())) keys ()) (\<lambda>_.
     bindE (Builder_storeDictDirect sha dict None None new_Builder) (\<lambda>b.
     bindE (Builder_asSlice sha b) (\<lambda>s.
     bindE (case keyObject of Some k \<Rightarrow> Inr k | None \<Rightarrow> Inl TypeErr) (\<lambda>keyObject.
     bindE (mapE (\<lambda>key. bindE (dk_serialize keyObject key) (\<lambda>n.
              Inr (padStart (to_string_radix 2 n) (dk_bits keyObject)))) keys) (\<lambda>keys.
     doGenerateMerkleProof sha [] s (dk_bits keyObject) keys)))))"

definition generateMerkleProof ::
    "(buffer \<Rightarrow> buffer) \<Rightarrow> 'v dictionary \<Rightarrow> dict_key list \<Rightarrow> dict_key_type option \<Rightarrow> cell res" where
  "generateMerkleProof sha dict keys keyObject =
     bindE (generateMerkleProofDirect sha dict keys keyObject) (convertToMerkleProof sha)"

definition convertToMerkleUpdate :: "(buffer \<Rightarrow> buffer) \<Rightarrow> cell \<Rightarrow> cell \<Rightarrow> cell res" where
  "convertToMerkleUpdate sha c1 c2 =
     bindE (Builder_storeUint (Num 4) 8 new_Builder) (\<lambda>b.
     bindE (Builder_storeBuffer (Cell_hash c1 0) None b) (\<lambda>b.
     bindE (Builder_storeBuffer (Cell_hash c2 0) None b) (\<lambda>b.
     bindE (Builder_storeUint (Num (Cell_depth c1 0)) 16 b) (\<lambda>b.
     bindE (Builder_storeUint (Num (Cell_depth c2 0)) 16 b) (\<lambda>b.
     bindE (Builder_storeRef sha (ACell c1) b) (\<lambda>b.
     bindE (Builder_storeRef sha (ACell c2) b) (\<lambda>b.
     Builder_endCell sha True b)))))))"

text \<open>The dictionary is changed by the call: it is returned with the new value.\<close>

definition generateMerkleUpdate ::
    "(buffer \<Rightarrow> buffer) \<Rightarrow> 'v dictionary \<Rightarrow> dict_key \<Rightarrow> dict_key_type option \<Rightarrow> 'v \<Rightarrow> (cell \<times> 'v dictionary) res" where
  "generateMerkleUpdate sha dict key keyObject newValue =
     bindE (generateMerkleProof sha dict [key] keyObject) (\<lambda>oldProof.
     bindE (Dictionary_set key newValue dict) (\<lambda>dict.
     bindE (generateMerkleProof sha dict [key] keyObject) (\<lambda>newProof.
     bindE (convertToMerkleUpdate sha (cell_refs oldProof ! 0) (cell_refs newProof ! 0)) (\<lambda>c. Inr (c, dict)))))"

text \<open>The methods of \<open>Dictionary\<close>: they use the key codec of the dictionary, if it has one (\<open>this._key!\<close>).\<close>

definition Dictionary_generateMerkleProof :: "(buffer \<Rightarrow> buffer) \<Rightarrow> 'v dictionary \<Rightarrow> dict_key list \<Rightarrow> cell res" where
  "Dictionary_generateMerkleProof sha d keys =
     generateMerkleProof sha d keys (d_key d)"

definition Dictionary_generateMerkleProofDirect :: "(buffer \<Rightarrow> buffer) \<Rightarrow> 'v dictionary \<Rightarrow> dict_key list \<Rightarrow> cell res" where
  "Dictionary_generateMerkleProofDirect sha d keys =
     generateMerkleProofDirect sha d keys (d_key d)"

definition Dictionary_generateMerkleUpdate ::
    "(buffer \<Rightarrow> buffer) \<Rightarrow> 'v dictionary \<Rightarrow> dict_key \<Rightarrow> 'v \<Rightarrow> (cell \<times> 'v dictionary) res" where
  "Dictionary_generateMerkleUpdate sha d key newValue =
     generateMerkleUpdate sha d key (d_key d) newValue"

end
