(* ===== verification/Ton_Messages.thy ===== *)
theory Ton_Messages
  imports Dict_Codecs Node_Text
begin

text \<open>
  Messages (ton-core/types/): what a wallet sends. An interface of the code is a record, a union
  a datatype, an optional field an option; a field of type \<open>number\<close> or \<open>bigint\<close> is an \<open>int\<close>
  and is given to the writers as the kind of value it is. \<open>storeX(v)\<close> returns a function on
  builders; \<open>builder.store\<close> applies it.
\<close>

section \<open>Parts of messages\<close>

record tick_tock =
  tt_tick :: bool
  tt_tock :: bool

definition loadTickTock :: "tick_tock sload" where
  "loadTickTock s =
     bindE (Slice_loadBit s) (\<lambda>(tick, s).
     bindE (Slice_loadBit s) (\<lambda>(tock, s). Inr (\<lparr>tt_tick = tick, tt_tock = tock\<rparr>, s)))"

definition storeTickTock :: "tick_tock \<Rightarrow> builder \<Rightarrow> builder res" where
  "storeTickTock src b =
     bindE (Builder_storeBit (BitBool (tt_tick src)) b) (Builder_storeBit (BitBool (tt_tock src)))"

record simple_library =
  lib_public :: bool
  lib_root :: cell

definition loadSimpleLibrary :: "simple_library sload" where
  "loadSimpleLibrary s =
     bindE (Slice_loadBit s) (\<lambda>(pub, s).
     bindE (Slice_loadRef s) (\<lambda>(root, s). Inr (\<lparr>lib_public = pub, lib_root = root\<rparr>, s)))"

definition storeSimpleLibrary :: "(buffer \<Rightarrow> buffer) \<Rightarrow> simple_library \<Rightarrow> builder \<Rightarrow> builder res" where
  "storeSimpleLibrary sha src b =
     bindE (Builder_storeBit (BitBool (lib_public src)) b) (Builder_storeRef sha (ACell (lib_root src)))"

definition SimpleLibraryValue :: "(buffer \<Rightarrow> buffer) \<Rightarrow> simple_library dict_value_type" where
  "SimpleLibraryValue sha = \<lparr>dv_serialize = storeSimpleLibrary sha, dv_parse = loadSimpleLibrary\<rparr>"

record state_init =
  si_splitDepth :: "int option"
  si_special :: "tick_tock option"
  si_code :: "cell option"
  si_data :: "cell option"
  si_libraries :: "simple_library dictionary option"

definition loadStateInit :: "(buffer \<Rightarrow> buffer) \<Rightarrow> state_init sload" where
  "loadStateInit sha s =
     bindE (load_maybe (Slice_loadUint 5) s) (\<lambda>(splitDepth, s).
     bindE (load_maybe loadTickTock s) (\<lambda>(special, s).
     bindE (Slice_loadMaybeRef s) (\<lambda>(code, s).
     bindE (Slice_loadMaybeRef s) (\<lambda>(data, s).
     bindE (Slice_loadDict (createBigUintKey sha 256) (SimpleLibraryValue sha) s) (\<lambda>(libraries, s).
     Inr (\<lparr>si_splitDepth = splitDepth, si_special = special, si_code = code, si_data = data,
           si_libraries = (if Dictionary_size libraries = 0 then None else Some libraries)\<rparr>, s))))))"

definition storeStateInit :: "(buffer \<Rightarrow> buffer) \<Rightarrow> state_init \<Rightarrow> builder \<Rightarrow> builder res" where
  "storeStateInit sha src b =
     bindE (case si_splitDepth src of
              Some d \<Rightarrow> bindE (Builder_storeBit (BitBool True) b) (Builder_storeUint (Num d) 5)
            | None \<Rightarrow> Builder_storeBit (BitBool False) b) (\<lambda>b.
     bindE (case si_special src of
              Some t \<Rightarrow> bindE (Builder_storeBit (BitBool True) b) (Builder_store (storeTickTock t))
            | None \<Rightarrow> Builder_storeBit (BitBool False) b) (\<lambda>b.
     bindE (Builder_storeMaybeRef sha (map_option ACell (si_code src)) b) (\<lambda>b.
     bindE (Builder_storeMaybeRef sha (map_option ACell (si_data src)) b) (\<lambda>b.
     Builder_storeDict sha (si_libraries src) None None b))))"

record currency_collection =
  cc_other :: "jsval dictionary option"
  cc_coins :: int

definition loadCurrencyCollection :: "(buffer \<Rightarrow> buffer) \<Rightarrow> currency_collection sload" where
  "loadCurrencyCollection sha s =
     bindE (Slice_loadCoins s) (\<lambda>(coins, s).
     bindE (Slice_loadDict (createUintKey sha 32) (createBigVarUintValue 5) s) (\<lambda>(other, s).
     Inr (if Dictionary_size other = 0 then \<lparr>cc_other = None, cc_coins = coins\<rparr>
          else \<lparr>cc_other = Some other, cc_coins = coins\<rparr>, s)))"

definition storeCurrencyCollection :: "(buffer \<Rightarrow> buffer) \<Rightarrow> currency_collection \<Rightarrow> builder \<Rightarrow> builder res" where
  "storeCurrencyCollection sha c b =
     bindE (Builder_storeCoins (Big (cc_coins c)) b) (\<lambda>b.
     case cc_other c of
       Some d \<Rightarrow> Builder_storeDict sha (Some d) None None b
     | None \<Rightarrow> Builder_storeBit (BitNum 0) b)"

section \<open>The information in front of a message\<close>

record info_internal =
  ii_ihrDisabled :: bool
  ii_bounce :: bool
  ii_bounced :: bool
  ii_src :: address
  ii_dest :: address
  ii_value :: currency_collection
  ii_ihrFee :: int
  ii_forwardFee :: int
  ii_createdLt :: int
  ii_createdAt :: int

record info_external_in =
  ei_src :: "external_address option"
  ei_dest :: address
  ei_importFee :: int

record info_external_out =
  eo_src :: address
  eo_dest :: "external_address option"
  eo_createdLt :: int
  eo_createdAt :: int

datatype common_message_info =
    CInternal info_internal
  | CExternalIn info_external_in
  | CExternalOut info_external_out

definition loadCommonMessageInfo :: "(buffer \<Rightarrow> buffer) \<Rightarrow> common_message_info sload" where
  "loadCommonMessageInfo sha s =
     bindE (Slice_loadBit s) (\<lambda>(ext, s).
     if \<not> ext
     then bindE (Slice_loadBit s) (\<lambda>(ihrDisabled, s).
          bindE (Slice_loadBit s) (\<lambda>(bounce, s).
          bindE (Slice_loadBit s) (\<lambda>(bounced, s).
          bindE (Slice_loadAddress s) (\<lambda>(src, s).
          bindE (Slice_loadAddress s) (\<lambda>(dest, s).
          bindE (loadCurrencyCollection sha s) (\<lambda>(v, s).
          bindE (Slice_loadCoins s) (\<lambda>(ihrFee, s).
          bindE (Slice_loadCoins s) (\<lambda>(forwardFee, s).
          bindE (Slice_loadUintBig 64 s) (\<lambda>(createdLt, s).
          bindE (Slice_loadUint 32 s) (\<lambda>(createdAt, s).
          Inr (CInternal \<lparr>ii_ihrDisabled = ihrDisabled, ii_bounce = bounce, ii_bounced = bounced,
                 ii_src = src, ii_dest = dest, ii_value = v, ii_ihrFee = ihrFee,
                 ii_forwardFee = forwardFee, ii_createdLt = createdLt, ii_createdAt = createdAt\<rparr>, s)))))))))))
     else bindE (Slice_loadBit s) (\<lambda>(out, s).
       if \<not> out
       then bindE (Slice_loadMaybeExternalAddress s) (\<lambda>(src, s).
            bindE (Slice_loadAddress s) (\<lambda>(dest, s).
            bindE (Slice_loadCoins s) (\<lambda>(importFee, s).
            Inr (CExternalIn \<lparr>ei_src = src, ei_dest = dest, ei_importFee = importFee\<rparr>, s))))
       else bindE (Slice_loadAddress s) (\<lambda>(src, s).
            bindE (Slice_loadMaybeExternalAddress s) (\<lambda>(dest, s).
            bindE (Slice_loadUintBig 64 s) (\<lambda>(createdLt, s).
            bindE (Slice_loadUint 32 s) (\<lambda>(createdAt, s).
            Inr (CExternalOut \<lparr>eo_src = src, eo_dest = dest, eo_createdLt = createdLt,
                   eo_createdAt = createdAt\<rparr>, s)))))))"

definition storeCommonMessageInfo :: "(buffer \<Rightarrow> buffer) \<Rightarrow> common_message_info \<Rightarrow> builder \<Rightarrow> builder res" where
  "storeCommonMessageInfo sha source b =
     (case source of
        CInternal i \<Rightarrow>
          bindE (Builder_storeBit (BitNum 0) b) (\<lambda>b.
          bindE (Builder_storeBit (BitBool (ii_ihrDisabled i)) b) (\<lambda>b.
          bindE (Builder_storeBit (BitBool (ii_bounce i)) b) (\<lambda>b.
          bindE (Builder_storeBit (BitBool (ii_bounced i)) b) (\<lambda>b.
          bindE (Builder_storeAddress (Some (Internal (ii_src i))) b) (\<lambda>b.
          bindE (Builder_storeAddress (Some (Internal (ii_dest i))) b) (\<lambda>b.
          bindE (Builder_store (storeCurrencyCollection sha (ii_value i)) b) (\<lambda>b.
          bindE (Builder_storeCoins (Big (ii_ihrFee i)) b) (\<lambda>b.
          bindE (Builder_storeCoins (Big (ii_forwardFee i)) b) (\<lambda>b.
          bindE (Builder_storeUint (Big (ii_createdLt i)) 64 b)
            (Builder_storeUint (Num (ii_createdAt i)) 32))))))))))
      | CExternalIn e \<Rightarrow>
          bindE (Builder_storeBit (BitNum 1) b) (\<lambda>b.
          bindE (Builder_storeBit (BitNum 0) b) (\<lambda>b.
          bindE (Builder_storeAddress (map_option External (ei_src e)) b) (\<lambda>b.
          bindE (Builder_storeAddress (Some (Internal (ei_dest e))) b)
            (Builder_storeCoins (Big (ei_importFee e))))))
      | CExternalOut e \<Rightarrow>
          bindE (Builder_storeBit (BitNum 1) b) (\<lambda>b.
          bindE (Builder_storeBit (BitNum 1) b) (\<lambda>b.
          bindE (Builder_storeAddress (Some (Internal (eo_src e))) b) (\<lambda>b.
          bindE (Builder_storeAddress (map_option External (eo_dest e)) b) (\<lambda>b.
          bindE (Builder_storeUint (Big (eo_createdLt e)) 64 b)
            (Builder_storeUint (Num (eo_createdAt e)) 32))))))"

text \<open>The relaxed form, in which the source address may be missing.\<close>

record relaxed_internal =
  ri_ihrDisabled :: bool
  ri_bounce :: bool
  ri_bounced :: bool
  ri_src :: "address option"
  ri_dest :: address
  ri_value :: currency_collection
  ri_ihrFee :: int
  ri_forwardFee :: int
  ri_createdLt :: int
  ri_createdAt :: int

record relaxed_external_out =
  ro_src :: "address option"
  ro_dest :: "external_address option"
  ro_createdLt :: int
  ro_createdAt :: int

datatype common_message_info_relaxed =
    RInternal relaxed_internal
  | RExternalOut relaxed_external_out

definition loadCommonMessageInfoRelaxed :: "(buffer \<Rightarrow> buffer) \<Rightarrow> common_message_info_relaxed sload" where
  "loadCommonMessageInfoRelaxed sha s =
     bindE (Slice_loadBit s) (\<lambda>(ext, s).
     if \<not> ext
     then bindE (Slice_loadBit s) (\<lambda>(ihrDisabled, s).
          bindE (Slice_loadBit s) (\<lambda>(bounce, s).
          bindE (Slice_loadBit s) (\<lambda>(bounced, s).
          bindE (Slice_loadMaybeAddress s) (\<lambda>(src, s).
          bindE (Slice_loadAddress s) (\<lambda>(dest, s).
          bindE (loadCurrencyCollection sha s) (\<lambda>(v, s).
          bindE (Slice_loadCoins s) (\<lambda>(ihrFee, s).
          bindE (Slice_loadCoins s) (\<lambda>(forwardFee, s).
          bindE (Slice_loadUintBig 64 s) (\<lambda>(createdLt, s).
          bindE (Slice_loadUint 32 s) (\<lambda>(createdAt, s).
          Inr (RInternal \<lparr>ri_ihrDisabled = ihrDisabled, ri_bounce = bounce, ri_bounced = bounced,
                 ri_src = src, ri_dest = dest, ri_value = v, ri_ihrFee = ihrFee,
                 ri_forwardFee = forwardFee, ri_createdLt = createdLt, ri_createdAt = createdAt\<rparr>, s)))))))))))
     else bindE (Slice_loadBit s) (\<lambda>(out, s).
       if \<not> out then Inl InvalidData
       else bindE (Slice_loadMaybeAddress s) (\<lambda>(src, s).
            bindE (Slice_loadMaybeExternalAddress s) (\<lambda>(dest, s).
            bindE (Slice_loadUintBig 64 s) (\<lambda>(createdLt, s).
            bindE (Slice_loadUint 32 s) (\<lambda>(createdAt, s).
            Inr (RExternalOut \<lparr>ro_src = src, ro_dest = dest, ro_createdLt = createdLt,
                   ro_createdAt = createdAt\<rparr>, s)))))))"

definition storeCommonMessageInfoRelaxed ::
    "(buffer \<Rightarrow> buffer) \<Rightarrow> common_message_info_relaxed \<Rightarrow> builder \<Rightarrow> builder res" where
  "storeCommonMessageInfoRelaxed sha source b =
     (case source of
        RInternal i \<Rightarrow>
          bindE (Builder_storeBit (BitNum 0) b) (\<lambda>b.
          bindE (Builder_storeBit (BitBool (ri_ihrDisabled i)) b) (\<lambda>b.
          bindE (Builder_storeBit (BitBool (ri_bounce i)) b) (\<lambda>b.
          bindE (Builder_storeBit (BitBool (ri_bounced i)) b) (\<lambda>b.
          bindE (Builder_storeAddress (map_option Internal (ri_src i)) b) (\<lambda>b.
          bindE (Builder_storeAddress (Some (Internal (ri_dest i))) b) (\<lambda>b.
          bindE (Builder_store (storeCurrencyCollection sha (ri_value i)) b) (\<lambda>b.
          bindE (Builder_storeCoins (Big (ri_ihrFee i)) b) (\<lambda>b.
          bindE (Builder_storeCoins (Big (ri_forwardFee i)) b) (\<lambda>b.
          bindE (Builder_storeUint (Big (ri_createdLt i)) 64 b)
            (Builder_storeUint (Num (ri_createdAt i)) 32))))))))))
      | RExternalOut e \<Rightarrow>
          bindE (Builder_storeBit (BitNum 1) b) (\<lambda>b.
          bindE (Builder_storeBit (BitNum 1) b) (\<lambda>b.
          bindE (Builder_storeAddress (map_option Internal (ro_src e)) b) (\<lambda>b.
          bindE (Builder_storeAddress (map_option External (ro_dest e)) b) (\<lambda>b.
          bindE (Builder_storeUint (Big (ro_createdLt e)) 64 b)
            (Builder_storeUint (Num (ro_createdAt e)) 32))))))"

section \<open>Messages\<close>

record message =
  msg_info :: common_message_info
  msg_init :: "state_init option"
  msg_body :: cell

record message_relaxed =
  mr_info :: common_message_info_relaxed
  mr_init :: "state_init option"
  mr_body :: cell

text \<open>The part that follows the information is the same for both kinds.\<close>

definition load_init :: "(buffer \<Rightarrow> buffer) \<Rightarrow> state_init option sload" where
  "load_init sha s =
     bindE (Slice_loadBit s) (\<lambda>(has, s).
     if has
     then bindE (Slice_loadBit s) (\<lambda>(inRef, s).
          if \<not> inRef
          then bindE (loadStateInit sha s) (\<lambda>(i, s). Inr (Some i, s))
          else bindE (Slice_loadRef s) (\<lambda>(c, s).
               bindE (Cell_beginParse c False) (\<lambda>t.
               bindE (loadStateInit sha t) (\<lambda>(i, _). Inr (Some i, s)))))
     else Inr (None, s))"

definition load_body :: "(buffer \<Rightarrow> buffer) \<Rightarrow> cell sload" where
  "load_body sha s =
     bindE (Slice_loadBit s) (\<lambda>(inRef, s).
     if inRef then Slice_loadRef s else bindE (Slice_asCell sha s) (\<lambda>c. Inr (c, s)))"

definition loadMessage :: "(buffer \<Rightarrow> buffer) \<Rightarrow> message sload" where
  "loadMessage sha s =
     bindE (loadCommonMessageInfo sha s) (\<lambda>(info, s).
     bindE (load_init sha s) (\<lambda>(i, s).
     bindE (load_body sha s) (\<lambda>(body, s).
     Inr (\<lparr>msg_info = info, msg_init = i, msg_body = body\<rparr>, s))))"

definition loadMessageRelaxed :: "(buffer \<Rightarrow> buffer) \<Rightarrow> message_relaxed sload" where
  "loadMessageRelaxed sha s =
     bindE (loadCommonMessageInfoRelaxed sha s) (\<lambda>(info, s).
     bindE (load_init sha s) (\<lambda>(i, s).
     bindE (load_body sha s) (\<lambda>(body, s).
     Inr (\<lparr>mr_info = info, mr_init = i, mr_body = body\<rparr>, s))))"

definition store_init ::
    "(buffer \<Rightarrow> buffer) \<Rightarrow> (builder \<Rightarrow> builder \<Rightarrow> bool) \<Rightarrow> state_init option \<Rightarrow> builder \<Rightarrow> builder res" where
  "store_init sha needRef i b =
     (case i of
        Some init \<Rightarrow>
          bindE (Builder_storeBit (BitBool True) b) (\<lambda>b.
          bindE (Builder_store (storeStateInit sha init) new_Builder) (\<lambda>initCell.
          if needRef b initCell
          then bindE (Builder_storeBit (BitBool True) b) (Builder_storeRef sha (ABuilder initCell))
          else bindE (Builder_storeBit (BitBool False) b) (Builder_storeBuilder sha initCell)))
      | None \<Rightarrow> Builder_storeBit (BitBool False) b)"

definition store_body :: "(buffer \<Rightarrow> buffer) \<Rightarrow> bool \<Rightarrow> cell \<Rightarrow> builder \<Rightarrow> builder res" where
  "store_body sha needRef body b =
     (if needRef
      then bindE (Builder_storeBit (BitBool True) b) (Builder_storeRef sha (ACell body))
      else bindE (Builder_storeBit (BitBool False) b) (\<lambda>b.
           bindE (Cell_asBuilder sha body) (\<lambda>d. Builder_storeBuilder sha d b)))"

text \<open>The option \<open>forceRef\<close> is a truth value; a missing option counts as false.\<close>

definition storeMessage :: "(buffer \<Rightarrow> buffer) \<Rightarrow> message \<Rightarrow> bool \<Rightarrow> builder \<Rightarrow> builder res" where
  "storeMessage sha message forceRef b =
     bindE (Builder_store (storeCommonMessageInfo sha (msg_info message)) b) (\<lambda>b.
     bindE (store_init sha
              (\<lambda>b initCell. forceRef \<or>
                 Builder_availableBits b - 2 < Builder_bits initCell + int (bs_length (cell_bits (msg_body message))))
              (msg_init message) b) (\<lambda>b.
     store_body sha
       (forceRef \<or> Builder_availableBits b - 1 < int (bs_length (cell_bits (msg_body message))) \<or>
          Builder_refs b + int (length (cell_refs (msg_body message))) > 4)
       (msg_body message) b))"

definition MessageValue :: "(buffer \<Rightarrow> buffer) \<Rightarrow> message dict_value_type" where
  "MessageValue sha =
     \<lparr>dv_serialize = (\<lambda>src b. bindE (Builder_store (storeMessage sha src False) new_Builder) (\<lambda>d.
                         Builder_storeRef sha (ABuilder d) b)),
      dv_parse = (\<lambda>s. bindE (Slice_loadRef s) (\<lambda>(c, s).
                    bindE (Cell_beginParse c False) (\<lambda>t.
                    bindE (loadMessage sha t) (\<lambda>(m, _). Inr (m, s)))))\<rparr>"

definition storeMessageRelaxed :: "(buffer \<Rightarrow> buffer) \<Rightarrow> message_relaxed \<Rightarrow> bool \<Rightarrow> builder \<Rightarrow> builder res" where
  "storeMessageRelaxed sha message forceRef b =
     bindE (Builder_store (storeCommonMessageInfoRelaxed sha (mr_info message)) b) (\<lambda>b.
     bindE (store_init sha
              (\<lambda>b initCell. forceRef \<or> \<not> Builder_availableBits b - 2 \<ge> Builder_bits initCell)
              (mr_init message) b) (\<lambda>b.
     store_body sha
       (forceRef \<or>
        \<not> (Builder_availableBits b - 1 \<ge> int (bs_length (cell_bits (mr_body message))) \<and>
           Builder_refs b + int (length (cell_refs (mr_body message))) \<le> 4 \<and>
           \<not> Cell_isExotic (mr_body message)))
       (mr_body message) b))"

end
