(* ===== verification/Ton_Transactions.thy ===== *)
theory Ton_Transactions
  imports Ton_Messages
begin

text \<open>
  Transactions (ton-core/types/): the phases of a transaction, its description and the
  transaction itself. A description may hold the transaction that prepared it, so the two types
  and their readers and writers are mutually recursive; the reader follows the references.
\<close>

section \<open>Enumerations\<close>

datatype account_status = Uninitialized | Frozen | Active | NonExisting

definition loadAccountStatus :: "account_status sload" where
  "loadAccountStatus s =
     bindE (Slice_loadUint 2 s) (\<lambda>(status, s).
     if status = 0 then Inr (Uninitialized, s)
     else if status = 1 then Inr (Frozen, s)
     else if status = 2 then Inr (Active, s)
     else if status = 3 then Inr (NonExisting, s)
     else Inl InvalidData)"

definition storeAccountStatus :: "account_status \<Rightarrow> builder \<Rightarrow> builder res" where
  "storeAccountStatus src b =
     (case src of
        Uninitialized \<Rightarrow> Builder_storeUint (Num 0) 2 b
      | Frozen \<Rightarrow> Builder_storeUint (Num 1) 2 b
      | Active \<Rightarrow> Builder_storeUint (Num 2) 2 b
      | NonExisting \<Rightarrow> Builder_storeUint (Num 3) 2 b)"

datatype account_status_change = Unchanged | ToFrozen | Deleted

definition loadAccountStatusChange :: "account_status_change sload" where
  "loadAccountStatusChange s =
     bindE (Slice_loadBit s) (\<lambda>(b, s).
     if \<not> b then Inr (Unchanged, s)
     else bindE (Slice_loadBit s) (\<lambda>(b, s). Inr (if b then Deleted else ToFrozen, s)))"

definition storeAccountStatusChange :: "account_status_change \<Rightarrow> builder \<Rightarrow> builder res" where
  "storeAccountStatusChange src b =
     (case src of
        Unchanged \<Rightarrow> Builder_storeBit (BitNum 0) b
      | ToFrozen \<Rightarrow> bindE (Builder_storeBit (BitNum 1) b) (Builder_storeBit (BitNum 0))
      | Deleted \<Rightarrow> bindE (Builder_storeBit (BitNum 1) b) (Builder_storeBit (BitNum 1)))"

datatype compute_skip_reason = NoState | BadState | NoGas

definition loadComputeSkipReason :: "compute_skip_reason sload" where
  "loadComputeSkipReason s =
     bindE (Slice_loadUint 2 s) (\<lambda>(reason, s).
     if reason = 0 then Inr (NoState, s)
     else if reason = 1 then Inr (BadState, s)
     else if reason = 2 then Inr (NoGas, s)
     else Inl InvalidData)"

definition storeComputeSkipReason :: "compute_skip_reason \<Rightarrow> builder \<Rightarrow> builder res" where
  "storeComputeSkipReason src b =
     (case src of
        NoState \<Rightarrow> Builder_storeUint (Num 0) 2 b
      | BadState \<Rightarrow> Builder_storeUint (Num 1) 2 b
      | NoGas \<Rightarrow> Builder_storeUint (Num 2) 2 b)"

section \<open>Small records\<close>

record hash_update =
  hu_oldHash :: buffer
  hu_newHash :: buffer

definition loadHashUpdate :: "hash_update sload" where
  "loadHashUpdate s =
     bindE (Slice_loadUint 8 s) (\<lambda>(tag, s).
     if tag \<noteq> 0x72 then Inl InvalidData
     else bindE (Slice_loadBuffer 32 s) (\<lambda>(oldHash, s).
          bindE (Slice_loadBuffer 32 s) (\<lambda>(newHash, s).
          Inr (\<lparr>hu_oldHash = oldHash, hu_newHash = newHash\<rparr>, s))))"

definition storeHashUpdate :: "hash_update \<Rightarrow> builder \<Rightarrow> builder res" where
  "storeHashUpdate src b =
     bindE (Builder_storeUint (Num 0x72) 8 b) (\<lambda>b.
     bindE (Builder_storeBuffer (hu_oldHash src) None b) (Builder_storeBuffer (hu_newHash src) None))"

record split_merge_info =
  sm_currentShardPrefixLength :: int
  sm_accountSplitDepth :: int
  sm_thisAddress :: int
  sm_siblingAddress :: int

definition loadSplitMergeInfo :: "split_merge_info sload" where
  "loadSplitMergeInfo s =
     bindE (Slice_loadUint 6 s) (\<lambda>(p, s).
     bindE (Slice_loadUint 6 s) (\<lambda>(d, s).
     bindE (Slice_loadUintBig 256 s) (\<lambda>(this, s).
     bindE (Slice_loadUintBig 256 s) (\<lambda>(sibling, s).
     Inr (\<lparr>sm_currentShardPrefixLength = p, sm_accountSplitDepth = d, sm_thisAddress = this,
           sm_siblingAddress = sibling\<rparr>, s)))))"

definition storeSplitMergeInfo :: "split_merge_info \<Rightarrow> builder \<Rightarrow> builder res" where
  "storeSplitMergeInfo src b =
     bindE (Builder_storeUint (Num (sm_currentShardPrefixLength src)) 6 b) (\<lambda>b.
     bindE (Builder_storeUint (Num (sm_accountSplitDepth src)) 6 b) (\<lambda>b.
     bindE (Builder_storeUint (Big (sm_thisAddress src)) 256 b)
       (Builder_storeUint (Big (sm_siblingAddress src)) 256)))"

record storage_used =
  su_cells :: int
  su_bits :: int
  su_publicCells :: int

definition loadStorageUsed :: "storage_used sload" where
  "loadStorageUsed s =
     bindE (Slice_loadVarUintBig 3 s) (\<lambda>(cells, s).
     bindE (Slice_loadVarUintBig 3 s) (\<lambda>(bits, s).
     bindE (Slice_loadVarUintBig 3 s) (\<lambda>(pub, s).
     Inr (\<lparr>su_cells = cells, su_bits = bits, su_publicCells = pub\<rparr>, s))))"

definition storeStorageUsed :: "storage_used \<Rightarrow> builder \<Rightarrow> builder res" where
  "storeStorageUsed src b =
     bindE (Builder_storeVarUint (Big (su_cells src)) 3 b) (\<lambda>b.
     bindE (Builder_storeVarUint (Big (su_bits src)) 3 b)
       (Builder_storeVarUint (Big (su_publicCells src)) 3))"

record storage_used_short =
  ss_cells :: int
  ss_bits :: int

definition loadStorageUsedShort :: "storage_used_short sload" where
  "loadStorageUsedShort s =
     bindE (Slice_loadVarUintBig 3 s) (\<lambda>(cells, s).
     bindE (Slice_loadVarUintBig 3 s) (\<lambda>(bits, s).
     Inr (\<lparr>ss_cells = cells, ss_bits = bits\<rparr>, s)))"

definition storeStorageUsedShort :: "storage_used_short \<Rightarrow> builder \<Rightarrow> builder res" where
  "storeStorageUsedShort src b =
     bindE (Builder_storeVarUint (Big (ss_cells src)) 3 b) (Builder_storeVarUint (Big (ss_bits src)) 3)"

section \<open>Phases\<close>

text \<open>An optional amount: a bit, then the coins.\<close>

definition store_opt :: "('a \<Rightarrow> builder \<Rightarrow> builder res) \<Rightarrow> 'a option \<Rightarrow> builder \<Rightarrow> builder res" where
  "store_opt f v b =
     (case v of Some x \<Rightarrow> bindE (Builder_storeBit (BitBool True) b) (f x)
      | None \<Rightarrow> Builder_storeBit (BitBool False) b)"

record storage_phase =
  sp_storageFeesCollected :: int
  sp_storageFeesDue :: "int option"
  sp_statusChange :: account_status_change

definition loadTransactionStoragePhase :: "storage_phase sload" where
  "loadTransactionStoragePhase s =
     bindE (Slice_loadCoins s) (\<lambda>(collected, s).
     bindE (load_maybe Slice_loadCoins s) (\<lambda>(due, s).
     bindE (loadAccountStatusChange s) (\<lambda>(change, s).
     Inr (\<lparr>sp_storageFeesCollected = collected, sp_storageFeesDue = due, sp_statusChange = change\<rparr>, s))))"

definition storeTransactionsStoragePhase :: "storage_phase \<Rightarrow> builder \<Rightarrow> builder res" where
  "storeTransactionsStoragePhase src b =
     bindE (Builder_storeCoins (Big (sp_storageFeesCollected src)) b) (\<lambda>b.
     bindE (store_opt (\<lambda>v. Builder_storeCoins (Big v)) (sp_storageFeesDue src) b)
       (Builder_store (storeAccountStatusChange (sp_statusChange src))))"

record credit_phase =
  cp_dueFeesColelcted :: "int option"
  cp_credit :: currency_collection

definition loadTransactionCreditPhase :: "(buffer \<Rightarrow> buffer) \<Rightarrow> credit_phase sload" where
  "loadTransactionCreditPhase sha s =
     bindE (load_maybe Slice_loadCoins s) (\<lambda>(due, s).
     bindE (loadCurrencyCollection sha s) (\<lambda>(credit, s).
     Inr (\<lparr>cp_dueFeesColelcted = due, cp_credit = credit\<rparr>, s)))"

definition storeTransactionCreditPhase :: "(buffer \<Rightarrow> buffer) \<Rightarrow> credit_phase \<Rightarrow> builder \<Rightarrow> builder res" where
  "storeTransactionCreditPhase sha src b =
     bindE (store_opt (\<lambda>v. Builder_storeCoins (Big v)) (cp_dueFeesColelcted src) b)
       (Builder_store (storeCurrencyCollection sha (cp_credit src)))"

record compute_vm =
  cv_success :: bool
  cv_messageStateUsed :: bool
  cv_accountActivated :: bool
  cv_gasFees :: int
  cv_gasUsed :: int
  cv_gasLimit :: int
  cv_gasCredit :: "int option"
  cv_mode :: int
  cv_exitCode :: int
  cv_exitArg :: "int option"
  cv_vmSteps :: int
  cv_vmInitStateHash :: int
  cv_vmFinalStateHash :: int

datatype compute_phase = Skipped compute_skip_reason | Vm compute_vm

definition loadTransactionComputePhase :: "compute_phase sload" where
  "loadTransactionComputePhase s =
     bindE (Slice_loadBit s) (\<lambda>(vm, s).
     if \<not> vm then bindE (loadComputeSkipReason s) (\<lambda>(reason, s). Inr (Skipped reason, s))
     else bindE (Slice_loadBit s) (\<lambda>(success, s).
       bindE (Slice_loadBit s) (\<lambda>(messageStateUsed, s).
       bindE (Slice_loadBit s) (\<lambda>(accountActivated, s).
       bindE (Slice_loadCoins s) (\<lambda>(gasFees, s).
       bindE (Slice_loadRef s) (\<lambda>(c, s).
       bindE (Cell_beginParse c False) (\<lambda>t.
       bindE (Slice_loadVarUintBig 3 t) (\<lambda>(gasUsed, t).
       bindE (Slice_loadVarUintBig 3 t) (\<lambda>(gasLimit, t).
       bindE (load_maybe (Slice_loadVarUintBig 2) t) (\<lambda>(gasCredit, t).
       bindE (Slice_loadUint 8 t) (\<lambda>(mode, t).
       bindE (Slice_loadInt 32 t) (\<lambda>(exitCode, t).
       bindE (load_maybe (Slice_loadInt 32) t) (\<lambda>(exitArg, t).
       bindE (Slice_loadUint 32 t) (\<lambda>(vmSteps, t).
       bindE (Slice_loadUintBig 256 t) (\<lambda>(vmInitStateHash, t).
       bindE (Slice_loadUintBig 256 t) (\<lambda>(vmFinalStateHash, t).
       Inr (Vm \<lparr>cv_success = success, cv_messageStateUsed = messageStateUsed,
               cv_accountActivated = accountActivated, cv_gasFees = gasFees, cv_gasUsed = gasUsed,
               cv_gasLimit = gasLimit, cv_gasCredit = gasCredit, cv_mode = mode, cv_exitCode = exitCode,
               cv_exitArg = exitArg, cv_vmSteps = vmSteps, cv_vmInitStateHash = vmInitStateHash,
               cv_vmFinalStateHash = vmFinalStateHash\<rparr>, s)))))))))))))))))"

definition storeTransactionComputePhase :: "(buffer \<Rightarrow> buffer) \<Rightarrow> compute_phase \<Rightarrow> builder \<Rightarrow> builder res" where
  "storeTransactionComputePhase sha src b =
     (case src of
        Skipped reason \<Rightarrow>
          bindE (Builder_storeBit (BitNum 0) b) (Builder_store (storeComputeSkipReason reason))
      | Vm v \<Rightarrow>
          bindE (Builder_storeBit (BitNum 1) b) (\<lambda>b.
          bindE (Builder_storeBit (BitBool (cv_success v)) b) (\<lambda>b.
          bindE (Builder_storeBit (BitBool (cv_messageStateUsed v)) b) (\<lambda>b.
          bindE (Builder_storeBit (BitBool (cv_accountActivated v)) b) (\<lambda>b.
          bindE (Builder_storeCoins (Big (cv_gasFees v)) b) (\<lambda>b.
          bindE (Builder_storeVarUint (Big (cv_gasUsed v)) 3 new_Builder) (\<lambda>d.
          bindE (Builder_storeVarUint (Big (cv_gasLimit v)) 3 d) (\<lambda>d.
          bindE (store_maybe (\<lambda>g. Builder_storeVarUint (Big g) 2) (cv_gasCredit v) d) (\<lambda>d.
          bindE (Builder_storeUint (Num (cv_mode v)) 8 d) (\<lambda>d.
          bindE (Builder_storeInt (Num (cv_exitCode v)) 32 d) (\<lambda>d.
          bindE (store_maybe (\<lambda>a. Builder_storeInt (Num a) 32) (cv_exitArg v) d) (\<lambda>d.
          bindE (Builder_storeUint (Num (cv_vmSteps v)) 32 d) (\<lambda>d.
          bindE (Builder_storeUint (Big (cv_vmInitStateHash v)) 256 d) (\<lambda>d.
          bindE (Builder_storeUint (Big (cv_vmFinalStateHash v)) 256 d) (\<lambda>d.
          bindE (Builder_endCell sha False d) (\<lambda>c.
          Builder_storeRef sha (ACell c) b))))))))))))))))"

record action_phase =
  ap_success :: bool
  ap_valid :: bool
  ap_noFunds :: bool
  ap_statusChange :: account_status_change
  ap_totalFwdFees :: "int option"
  ap_totalActionFees :: "int option"
  ap_resultCode :: int
  ap_resultArg :: "int option"
  ap_totalActions :: int
  ap_specActions :: int
  ap_skippedActions :: int
  ap_messagesCreated :: int
  ap_actionListHash :: int
  ap_totalMessageSize :: storage_used_short

definition loadTransactionActionPhase :: "action_phase sload" where
  "loadTransactionActionPhase s =
     bindE (Slice_loadBit s) (\<lambda>(success, s).
     bindE (Slice_loadBit s) (\<lambda>(valid, s).
     bindE (Slice_loadBit s) (\<lambda>(noFunds, s).
     bindE (loadAccountStatusChange s) (\<lambda>(statusChange, s).
     bindE (load_maybe Slice_loadCoins s) (\<lambda>(totalFwdFees, s).
     bindE (load_maybe Slice_loadCoins s) (\<lambda>(totalActionFees, s).
     bindE (Slice_loadInt 32 s) (\<lambda>(resultCode, s).
     bindE (load_maybe (Slice_loadInt 32) s) (\<lambda>(resultArg, s).
     bindE (Slice_loadUint 16 s) (\<lambda>(totalActions, s).
     bindE (Slice_loadUint 16 s) (\<lambda>(specActions, s).
     bindE (Slice_loadUint 16 s) (\<lambda>(skippedActions, s).
     bindE (Slice_loadUint 16 s) (\<lambda>(messagesCreated, s).
     bindE (Slice_loadUintBig 256 s) (\<lambda>(actionListHash, s).
     bindE (loadStorageUsedShort s) (\<lambda>(totalMessageSize, s).
     Inr (\<lparr>ap_success = success, ap_valid = valid, ap_noFunds = noFunds, ap_statusChange = statusChange,
           ap_totalFwdFees = totalFwdFees, ap_totalActionFees = totalActionFees, ap_resultCode = resultCode,
           ap_resultArg = resultArg, ap_totalActions = totalActions, ap_specActions = specActions,
           ap_skippedActions = skippedActions, ap_messagesCreated = messagesCreated,
           ap_actionListHash = actionListHash, ap_totalMessageSize = totalMessageSize\<rparr>, s)))))))))))))))"

definition storeTransactionActionPhase :: "action_phase \<Rightarrow> builder \<Rightarrow> builder res" where
  "storeTransactionActionPhase src b =
     bindE (Builder_storeBit (BitBool (ap_success src)) b) (\<lambda>b.
     bindE (Builder_storeBit (BitBool (ap_valid src)) b) (\<lambda>b.
     bindE (Builder_storeBit (BitBool (ap_noFunds src)) b) (\<lambda>b.
     bindE (Builder_store (storeAccountStatusChange (ap_statusChange src)) b) (\<lambda>b.
     bindE (Builder_storeMaybeCoins (map_option Big (ap_totalFwdFees src)) b) (\<lambda>b.
     bindE (Builder_storeMaybeCoins (map_option Big (ap_totalActionFees src)) b) (\<lambda>b.
     bindE (Builder_storeInt (Num (ap_resultCode src)) 32 b) (\<lambda>b.
     bindE (Builder_storeMaybeInt (map_option Num (ap_resultArg src)) 32 b) (\<lambda>b.
     bindE (Builder_storeUint (Num (ap_totalActions src)) 16 b) (\<lambda>b.
     bindE (Builder_storeUint (Num (ap_specActions src)) 16 b) (\<lambda>b.
     bindE (Builder_storeUint (Num (ap_skippedActions src)) 16 b) (\<lambda>b.
     bindE (Builder_storeUint (Num (ap_messagesCreated src)) 16 b) (\<lambda>b.
     bindE (Builder_storeUint (Big (ap_actionListHash src)) 256 b)
       (Builder_store (storeStorageUsedShort (ap_totalMessageSize src)))))))))))))))"

datatype bounce_phase =
    NegativeFunds
  | NoFunds storage_used_short int
  | BounceOk storage_used_short int int

definition loadTransactionBouncePhase :: "bounce_phase sload" where
  "loadTransactionBouncePhase s =
     bindE (Slice_loadBit s) (\<lambda>(b, s).
     if b
     then bindE (loadStorageUsedShort s) (\<lambda>(messageSize, s).
          bindE (Slice_loadCoins s) (\<lambda>(messageFees, s).
          bindE (Slice_loadCoins s) (\<lambda>(forwardFees, s). Inr (BounceOk messageSize messageFees forwardFees, s))))
     else bindE (Slice_loadBit s) (\<lambda>(b, s).
       if b
       then bindE (loadStorageUsedShort s) (\<lambda>(messageSize, s).
            bindE (Slice_loadCoins s) (\<lambda>(required, s). Inr (NoFunds messageSize required, s)))
       else Inr (NegativeFunds, s)))"

definition storeTransactionBouncePhase :: "bounce_phase \<Rightarrow> builder \<Rightarrow> builder res" where
  "storeTransactionBouncePhase src b =
     (case src of
        BounceOk messageSize messageFees forwardFees \<Rightarrow>
          bindE (Builder_storeBit (BitBool True) b) (\<lambda>b.
          bindE (Builder_store (storeStorageUsedShort messageSize) b) (\<lambda>b.
          bindE (Builder_storeCoins (Big messageFees) b) (Builder_storeCoins (Big forwardFees))))
      | NegativeFunds \<Rightarrow>
          bindE (Builder_storeBit (BitBool False) b) (Builder_storeBit (BitBool False))
      | NoFunds messageSize required \<Rightarrow>
          bindE (Builder_storeBit (BitBool False) b) (\<lambda>b.
          bindE (Builder_storeBit (BitBool True) b) (\<lambda>b.
          bindE (Builder_store (storeStorageUsedShort messageSize) b) (Builder_storeCoins (Big required)))))"

end
