(* ===== verification/Ton_Accounts.thy ===== *)
theory Ton_Accounts
  imports Ton_Transactions
begin

text \<open>
  Transactions with their descriptions, accounts, the state of a shard and the list of actions
  of a contract (ton-core/types/).
\<close>

section \<open>Transactions\<close>

datatype tx_description =
    DGeneric bool "storage_phase option" "credit_phase option" compute_phase "action_phase option"
      "bounce_phase option" bool bool \<comment> \<open>creditFirst, phases, aborted, destroyed\<close>
  | DStorage storage_phase
  | DTickTock bool storage_phase compute_phase "action_phase option" bool bool
  | DSplitPrepare split_merge_info "storage_phase option" compute_phase "action_phase option" bool bool
  | DSplitInstall split_merge_info transaction bool
  | DMergePrepare split_merge_info storage_phase bool
  | DMergeInstall split_merge_info transaction "storage_phase option" "credit_phase option" compute_phase
      "action_phase option" bool bool
and transaction =
    Transaction
      (tx_address: int) (tx_lt: int) (tx_prevTransactionHash: int) (tx_prevTransactionLt: int)
      (tx_now: int) (tx_outMessagesCount: int) (tx_oldStatus: account_status) (tx_endStatus: account_status)
      (tx_inMessage: "message option") (tx_outMessages: "message dictionary")
      (tx_totalFees: currency_collection) (tx_stateUpdate: hash_update)
      (tx_description: tx_description) (tx_raw: cell)

definition Transaction_hash :: "transaction \<Rightarrow> buffer" where \<comment> \<open>\<open>raw.hash()\<close>, of the highest level\<close>
  "Transaction_hash t = Cell_hash (tx_raw t) 3"

subsection \<open>Writing\<close>

definition store_action :: "(buffer \<Rightarrow> buffer) \<Rightarrow> action_phase option \<Rightarrow> builder \<Rightarrow> builder res" where
  "store_action sha a b =
     (case a of
        Some p \<Rightarrow> bindE (Builder_storeBit (BitBool True) b) (\<lambda>b.
                 bindE (Builder_store (storeTransactionActionPhase p) new_Builder) (\<lambda>d.
                 Builder_storeRef sha (ABuilder d) b))
      | None \<Rightarrow> Builder_storeBit (BitBool False) b)"

definition store_messages :: "(buffer \<Rightarrow> buffer) \<Rightarrow> message option \<Rightarrow> message dictionary \<Rightarrow> builder res" where
  "store_messages sha inMessage outMessages =
     bindE (case inMessage of
              Some m \<Rightarrow> bindE (Builder_storeBit (BitBool True) new_Builder) (\<lambda>b.
                       bindE (Builder_store (storeMessage sha m False) new_Builder) (\<lambda>d.
                       Builder_storeRef sha (ABuilder d) b))
            | None \<Rightarrow> Builder_storeBit (BitBool False) new_Builder) (\<lambda>b.
     Builder_storeDict sha (Some outMessages) None None b)"

fun storeTransactionDescription :: "(buffer \<Rightarrow> buffer) \<Rightarrow> tx_description \<Rightarrow> builder \<Rightarrow> builder res"
  and storeTransaction :: "(buffer \<Rightarrow> buffer) \<Rightarrow> transaction \<Rightarrow> builder \<Rightarrow> builder res" where
  "storeTransactionDescription sha (DGeneric creditFirst storage credit compute action bounce aborted destroyed) b =
     bindE (Builder_storeUint (Num 0) 4 b) (\<lambda>b.
     bindE (Builder_storeBit (BitBool creditFirst) b) (\<lambda>b.
     bindE (store_opt storeTransactionsStoragePhase storage b) (\<lambda>b.
     bindE (store_opt (storeTransactionCreditPhase sha) credit b) (\<lambda>b.
     bindE (Builder_store (storeTransactionComputePhase sha compute) b) (\<lambda>b.
     bindE (store_action sha action b) (\<lambda>b.
     bindE (Builder_storeBit (BitBool aborted) b) (\<lambda>b.
     bindE (store_opt storeTransactionBouncePhase bounce b)
       (Builder_storeBit (BitBool destroyed)))))))))"
| "storeTransactionDescription sha (DStorage storage) b =
     bindE (Builder_storeUint (Num 1) 4 b) (Builder_store (storeTransactionsStoragePhase storage))"
| "storeTransactionDescription sha (DTickTock isTock storage compute action aborted destroyed) b =
     bindE (Builder_storeUint (Num (if isTock then 3 else 2)) 4 b) (\<lambda>b.
     bindE (Builder_store (storeTransactionsStoragePhase storage) b) (\<lambda>b.
     bindE (Builder_store (storeTransactionComputePhase sha compute) b) (\<lambda>b.
     bindE (store_action sha action b) (\<lambda>b.
     bindE (Builder_storeBit (BitBool aborted) b) (Builder_storeBit (BitBool destroyed))))))"
| "storeTransactionDescription sha (DSplitPrepare info storage compute action aborted destroyed) b =
     bindE (Builder_storeUint (Num 4) 4 b) (\<lambda>b.
     bindE (Builder_store (storeSplitMergeInfo info) b) (\<lambda>b.
     bindE (store_opt storeTransactionsStoragePhase storage b) (\<lambda>b.
     bindE (Builder_store (storeTransactionComputePhase sha compute) b) (\<lambda>b.
     bindE (store_opt storeTransactionActionPhase action b) (\<lambda>b.
     bindE (Builder_storeBit (BitBool aborted) b) (Builder_storeBit (BitBool destroyed)))))))"
| "storeTransactionDescription sha (DSplitInstall info prepare installed) b =
     bindE (Builder_storeUint (Num 5) 4 b) (\<lambda>b.
     bindE (Builder_store (storeSplitMergeInfo info) b) (\<lambda>b.
     bindE (storeTransaction sha prepare new_Builder) (\<lambda>d.
     bindE (Builder_storeRef sha (ABuilder d) b) (Builder_storeBit (BitBool installed)))))"
| "storeTransactionDescription sha (DMergePrepare info storage aborted) b = Inl InvalidData"
| "storeTransactionDescription sha (DMergeInstall info prepare storage credit compute action aborted destroyed) b =
     Inl InvalidData"
| "storeTransaction sha (Transaction address lt prevHash prevLt now count oldStatus endStatus inMessage outMessages
       totalFees stateUpdate description raw) b =
     bindE (Builder_storeUint (Num 7) 4 b) (\<lambda>b.
     bindE (Builder_storeUint (Big address) 256 b) (\<lambda>b.
     bindE (Builder_storeUint (Big lt) 64 b) (\<lambda>b.
     bindE (Builder_storeUint (Big prevHash) 256 b) (\<lambda>b.
     bindE (Builder_storeUint (Big prevLt) 64 b) (\<lambda>b.
     bindE (Builder_storeUint (Num now) 32 b) (\<lambda>b.
     bindE (Builder_storeUint (Num count) 15 b) (\<lambda>b.
     bindE (Builder_store (storeAccountStatus oldStatus) b) (\<lambda>b.
     bindE (Builder_store (storeAccountStatus endStatus) b) (\<lambda>b.
     bindE (store_messages sha inMessage outMessages) (\<lambda>d.
     bindE (Builder_storeRef sha (ABuilder d) b) (\<lambda>b.
     bindE (Builder_store (storeCurrencyCollection sha totalFees) b) (\<lambda>b.
     bindE (Builder_store (storeHashUpdate stateUpdate) new_Builder) (\<lambda>d.
     bindE (Builder_storeRef sha (ABuilder d) b) (\<lambda>b.
     bindE (storeTransactionDescription sha description new_Builder) (\<lambda>d.
     Builder_storeRef sha (ABuilder d) b)))))))))))))))"

subsection \<open>Reading\<close>

definition load_action :: "action_phase option sload" where
  "load_action s =
     bindE (Slice_loadBit s) (\<lambda>(b, s).
     if b then bindE (Slice_loadRef s) (\<lambda>(c, s).
               bindE (Cell_beginParse c False) (\<lambda>t.
               bindE (loadTransactionActionPhase t) (\<lambda>(p, _). Inr (Some p, s))))
     else Inr (None, s))"

text \<open>What comes before the description in a transaction, and the slice of the description.\<close>

definition loadTransaction_head ::
    "(buffer \<Rightarrow> buffer) \<Rightarrow> slice \<Rightarrow> ((tx_description \<Rightarrow> transaction) \<times> slice \<times> slice) res" where
  "loadTransaction_head sha s =
     bindE (Slice_asCell sha s) (\<lambda>raw.
     bindE (Slice_loadUint 4 s) (\<lambda>(tag, s).
     if tag \<noteq> 7 then Inl InvalidData
     else bindE (Slice_loadUintBig 256 s) (\<lambda>(address, s).
          bindE (Slice_loadUintBig 64 s) (\<lambda>(lt, s).
          bindE (Slice_loadUintBig 256 s) (\<lambda>(prevHash, s).
          bindE (Slice_loadUintBig 64 s) (\<lambda>(prevLt, s).
          bindE (Slice_loadUint 32 s) (\<lambda>(now, s).
          bindE (Slice_loadUint 15 s) (\<lambda>(count, s).
          bindE (loadAccountStatus s) (\<lambda>(oldStatus, s).
          bindE (loadAccountStatus s) (\<lambda>(endStatus, s).
          bindE (Slice_loadRef s) (\<lambda>(msgRef, s).
          bindE (Cell_beginParse msgRef False) (\<lambda>ms.
          bindE (Slice_loadBit ms) (\<lambda>(b, ms).
          bindE (if b
                 then bindE (Slice_loadRef ms) (\<lambda>(c, ms).
                      bindE (Cell_beginParse c False) (\<lambda>t.
                      bindE (loadMessage sha t) (\<lambda>(m, _). Inr (Some m, ms))))
                 else Inr (None, ms)) (\<lambda>(inMessage, ms).
          bindE (Slice_loadDict (createUintKey sha 15) (MessageValue sha) ms) (\<lambda>(outMessages, ms).
          bindE (Slice_endParse ms) (\<lambda>_.
          bindE (loadCurrencyCollection sha s) (\<lambda>(totalFees, s).
          bindE (Slice_loadRef s) (\<lambda>(c, s).
          bindE (Cell_beginParse c False) (\<lambda>t.
          bindE (loadHashUpdate t) (\<lambda>(stateUpdate, _).
          bindE (Slice_loadRef s) (\<lambda>(c, s).
          bindE (Cell_beginParse c False) (\<lambda>t.
          Inr (\<lambda>description. Transaction address lt prevHash prevLt now count oldStatus endStatus inMessage
                  outMessages totalFees stateUpdate description raw, t, s)))))))))))))))))))))))"

text \<open>The loads keep the references or take some of them.\<close>

lemma lift_load_size: "lift_load f s = Inr (v, s') \<Longrightarrow> refs_size s' = refs_size s"
  by (auto simp: lift_load_def)

lemma loadBit_size: "Slice_loadBit s = Inr (v, s') \<Longrightarrow> refs_size s' = refs_size s"
  by (simp add: Slice_loadBit_def lift_load_size)

lemma loadUintBig_size: "Slice_loadUintBig n s = Inr (v, s') \<Longrightarrow> refs_size s' = refs_size s"
  by (simp add: Slice_loadUintBig_def lift_load_size)

lemma loadCoins_size: "Slice_loadCoins s = Inr (v, s') \<Longrightarrow> refs_size s' = refs_size s"
  by (simp add: Slice_loadCoins_def lift_load_size)

lemma loadMaybeRef_size: "Slice_loadMaybeRef s = Inr (v, s') \<Longrightarrow> refs_size s' \<le> refs_size s"
  by (auto simp: Slice_loadMaybeRef_def load_maybe_def dest!: lift_load_size loadRef_refs_size split: if_splits)

lemma loadDict_size: "Slice_loadDict k w s = Inr (v, s') \<Longrightarrow> refs_size s' \<le> refs_size s"
  by (auto simp: Slice_loadDict_def Dictionary_load_def dest!: loadMaybeRef_size split: option.splits if_splits)

lemma loadCurrencyCollection_size: "loadCurrencyCollection sha s = Inr (v, s') \<Longrightarrow> refs_size s' \<le> refs_size s"
  by (auto simp: loadCurrencyCollection_def dest!: loadCoins_size loadDict_size)

lemma loadAccountStatus_size: "loadAccountStatus s = Inr (v, s') \<Longrightarrow> refs_size s' = refs_size s"
  by (auto simp: loadAccountStatus_def dest!: loadUint_size split: if_splits)

lemma loadSplitMergeInfo_size: "loadSplitMergeInfo s = Inr (v, s') \<Longrightarrow> refs_size s' = refs_size s"
  by (auto simp: loadSplitMergeInfo_def dest!: loadUint_size loadUintBig_size)

lemma loadRef_size_both:
  "Slice_loadRef s = Inr (c, s') \<Longrightarrow> size_list size (cell_refs c) < refs_size s \<and> refs_size s' \<le> refs_size s"
  using loadRef_size loadRef_refs_size by blast

lemma beginParse_size: "Cell_beginParse c b = Inr t \<Longrightarrow> refs_size t = size_list size (cell_refs c)"
  using beginParse_refs [of c b t] by simp

lemmas load_sizes = loadUint_size loadUintBig_size loadAccountStatus_size loadCurrencyCollection_size
  loadSplitMergeInfo_size loadRef_size_both beginParse_size

lemma loadTransaction_head_size: "loadTransaction_head sha s = Inr (f, t, s') \<Longrightarrow> refs_size t < refs_size s"
  unfolding loadTransaction_head_def by (auto split: if_splits dest!: load_sizes)

function loadTransactionDescription :: "(buffer \<Rightarrow> buffer) \<Rightarrow> tx_description sload"
  and loadTransaction :: "(buffer \<Rightarrow> buffer) \<Rightarrow> transaction sload" where
  "loadTransactionDescription sha s =
     bindE (Slice_loadUint 4 s) (\<lambda>(type, s).
     if type = 0
     then bindE (Slice_loadBit s) (\<lambda>(creditFirst, s).
          bindE (load_maybe loadTransactionStoragePhase s) (\<lambda>(storage, s).
          bindE (load_maybe (loadTransactionCreditPhase sha) s) (\<lambda>(credit, s).
          bindE (loadTransactionComputePhase s) (\<lambda>(compute, s).
          bindE (load_action s) (\<lambda>(action, s).
          bindE (Slice_loadBit s) (\<lambda>(aborted, s).
          bindE (load_maybe loadTransactionBouncePhase s) (\<lambda>(bounce, s).
          bindE (Slice_loadBit s) (\<lambda>(destroyed, s).
          Inr (DGeneric creditFirst storage credit compute action bounce aborted destroyed, s)))))))))
     else if type = 1
     then bindE (loadTransactionStoragePhase s) (\<lambda>(storage, s). Inr (DStorage storage, s))
     else if type = 2 \<or> type = 3
     then bindE (loadTransactionStoragePhase s) (\<lambda>(storage, s).
          bindE (loadTransactionComputePhase s) (\<lambda>(compute, s).
          bindE (load_action s) (\<lambda>(action, s).
          bindE (Slice_loadBit s) (\<lambda>(aborted, s).
          bindE (Slice_loadBit s) (\<lambda>(destroyed, s).
          Inr (DTickTock (type = 3) storage compute action aborted destroyed, s))))))
     else if type = 4
     then bindE (loadSplitMergeInfo s) (\<lambda>(info, s).
          bindE (load_maybe loadTransactionStoragePhase s) (\<lambda>(storage, s).
          bindE (loadTransactionComputePhase s) (\<lambda>(compute, s).
          bindE (load_action s) (\<lambda>(action, s).
          bindE (Slice_loadBit s) (\<lambda>(aborted, s).
          bindE (Slice_loadBit s) (\<lambda>(destroyed, s).
          Inr (DSplitPrepare info storage compute action aborted destroyed, s)))))))
     else if type = 5
     then bindE (loadSplitMergeInfo s) (\<lambda>(info, s).
          bindE (Slice_loadRef s) (\<lambda>(c, s).
          bindE (Cell_beginParse c False) (\<lambda>t.
          bindE (loadTransaction sha t) (\<lambda>(prepare, _).
          bindE (Slice_loadBit s) (\<lambda>(installed, s).
          Inr (DSplitInstall info prepare installed, s))))))
     else Inl InvalidData)"
| "loadTransaction sha s =
     bindE (loadTransaction_head sha s) (\<lambda>(f, t). case t of (d, s) \<Rightarrow>
     bindE (loadTransactionDescription sha d) (\<lambda>(description, _). Inr (f description, s)))"
  by pat_completeness auto
termination
  by (relation "measure (case_sum (\<lambda>(sha, s). refs_size s) (\<lambda>(sha, s). refs_size s))")
    (auto dest!: load_sizes loadTransaction_head_size)

declare loadTransactionDescription.simps [simp del] loadTransaction.simps [simp del]

end
