(* ===== verification/Ton_Shards.thy ===== *)
theory Ton_Shards
  imports Ton_Accounts
begin

text \<open>
  Accounts, the state of a shard, the list of output actions and the functions that make the
  messages of a wallet (ton-core/types/).
\<close>

section \<open>Accounts\<close>

datatype account_state = AUninit | AActive state_init | AFrozen int

definition loadAccountState :: "(buffer \<Rightarrow> buffer) \<Rightarrow> account_state sload" where
  "loadAccountState sha s =
     bindE (Slice_loadBit s) (\<lambda>(b, s).
     if b then bindE (loadStateInit sha s) (\<lambda>(i, s). Inr (AActive i, s))
     else bindE (Slice_loadBit s) (\<lambda>(b, s).
       if b then bindE (Slice_loadUintBig 256 s) (\<lambda>(h, s). Inr (AFrozen h, s))
       else Inr (AUninit, s)))"

definition storeAccountState :: "(buffer \<Rightarrow> buffer) \<Rightarrow> account_state \<Rightarrow> builder \<Rightarrow> builder res" where
  "storeAccountState sha src b =
     (case src of
        AActive i \<Rightarrow> bindE (Builder_storeBit (BitBool True) b) (Builder_store (storeStateInit sha i))
      | AFrozen h \<Rightarrow>
          bindE (Builder_storeBit (BitBool False) b) (\<lambda>b.
          bindE (Builder_storeBit (BitBool True) b) (Builder_storeUint (Big h) 256))
      | AUninit \<Rightarrow> bindE (Builder_storeBit (BitBool False) b) (Builder_storeBit (BitBool False)))"

record storage_info =
  st_used :: storage_used
  st_lastPaid :: int
  st_duePayment :: "int option"

definition loadStorageInfo :: "storage_info sload" where
  "loadStorageInfo s =
     bindE (loadStorageUsed s) (\<lambda>(used, s).
     bindE (Slice_loadUint 32 s) (\<lambda>(lastPaid, s).
     bindE (Slice_loadMaybeCoins s) (\<lambda>(due, s).
     Inr (\<lparr>st_used = used, st_lastPaid = lastPaid, st_duePayment = due\<rparr>, s))))"

definition storeStorageInfo :: "storage_info \<Rightarrow> builder \<Rightarrow> builder res" where
  "storeStorageInfo src b =
     bindE (Builder_store (storeStorageUsed (st_used src)) b) (\<lambda>b.
     bindE (Builder_storeUint (Num (st_lastPaid src)) 32 b)
       (Builder_storeMaybeCoins (map_option Big (st_duePayment src))))"

record account_storage =
  as_lastTransLt :: int
  as_balance :: currency_collection
  as_state :: account_state

definition loadAccountStorage :: "(buffer \<Rightarrow> buffer) \<Rightarrow> account_storage sload" where
  "loadAccountStorage sha s =
     bindE (Slice_loadUintBig 64 s) (\<lambda>(lt, s).
     bindE (loadCurrencyCollection sha s) (\<lambda>(balance, s).
     bindE (loadAccountState sha s) (\<lambda>(state, s).
     Inr (\<lparr>as_lastTransLt = lt, as_balance = balance, as_state = state\<rparr>, s))))"

definition storeAccountStorage :: "(buffer \<Rightarrow> buffer) \<Rightarrow> account_storage \<Rightarrow> builder \<Rightarrow> builder res" where
  "storeAccountStorage sha src b =
     bindE (Builder_storeUint (Big (as_lastTransLt src)) 64 b) (\<lambda>b.
     bindE (Builder_store (storeCurrencyCollection sha (as_balance src)) b)
       (Builder_store (storeAccountState sha (as_state src))))"

record account =
  acc_addr :: address
  acc_storageStats :: storage_info
  acc_storage :: account_storage

definition loadAccount :: "(buffer \<Rightarrow> buffer) \<Rightarrow> account sload" where
  "loadAccount sha s =
     bindE (Slice_loadAddress s) (\<lambda>(addr, s).
     bindE (loadStorageInfo s) (\<lambda>(stats, s).
     bindE (loadAccountStorage sha s) (\<lambda>(storage, s).
     Inr (\<lparr>acc_addr = addr, acc_storageStats = stats, acc_storage = storage\<rparr>, s))))"

definition storeAccount :: "(buffer \<Rightarrow> buffer) \<Rightarrow> account \<Rightarrow> builder \<Rightarrow> builder res" where
  "storeAccount sha src b =
     bindE (Builder_storeAddress (Some (Internal (acc_addr src))) b) (\<lambda>b.
     bindE (Builder_store (storeStorageInfo (acc_storageStats src)) b)
       (Builder_store (storeAccountStorage sha (acc_storage src))))"

section \<open>Shards\<close>

record depth_balance_info =
  db_splitDepth :: int
  db_balance :: currency_collection

definition loadDepthBalanceInfo :: "(buffer \<Rightarrow> buffer) \<Rightarrow> depth_balance_info sload" where
  "loadDepthBalanceInfo sha s =
     bindE (Slice_loadUint 5 s) (\<lambda>(d, s).
     bindE (loadCurrencyCollection sha s) (\<lambda>(balance, s).
     Inr (\<lparr>db_splitDepth = d, db_balance = balance\<rparr>, s)))"

definition storeDepthBalanceInfo :: "(buffer \<Rightarrow> buffer) \<Rightarrow> depth_balance_info \<Rightarrow> builder \<Rightarrow> builder res" where
  "storeDepthBalanceInfo sha src b =
     bindE (Builder_storeUint (Num (db_splitDepth src)) 5 b)
       (Builder_store (storeCurrencyCollection sha (db_balance src)))"

record shard_ident =
  sh_shardPrefixBits :: int
  sh_workchainId :: int
  sh_shardPrefix :: int

definition loadShardIdent :: "shard_ident sload" where
  "loadShardIdent s =
     bindE (Slice_loadUint 2 s) (\<lambda>(tag, s).
     if tag \<noteq> 0 then Inl InvalidData
     else bindE (Slice_loadUint 6 s) (\<lambda>(bits, s).
          bindE (Slice_loadInt 32 s) (\<lambda>(wc, s).
          bindE (Slice_loadUintBig 64 s) (\<lambda>(prefix, s).
          Inr (\<lparr>sh_shardPrefixBits = bits, sh_workchainId = wc, sh_shardPrefix = prefix\<rparr>, s)))))"

definition storeShardIdent :: "shard_ident \<Rightarrow> builder \<Rightarrow> builder res" where
  "storeShardIdent src b =
     bindE (Builder_storeUint (Num 0) 2 b) (\<lambda>b.
     bindE (Builder_storeUint (Num (sh_shardPrefixBits src)) 6 b) (\<lambda>b.
     bindE (Builder_storeInt (Num (sh_workchainId src)) 32 b)
       (Builder_storeUint (Big (sh_shardPrefix src)) 64)))"

record shard_account =
  sa_account :: "account option"
  sa_lastTransactionHash :: int
  sa_lastTransactionLt :: int

definition loadShardAccount :: "(buffer \<Rightarrow> buffer) \<Rightarrow> shard_account sload" where
  "loadShardAccount sha s =
     bindE (Slice_loadRef s) (\<lambda>(accountRef, s).
     bindE (if \<not> Cell_isExotic accountRef
            then bindE (Cell_beginParse accountRef False) (\<lambda>t.
                 bindE (Slice_loadBit t) (\<lambda>(b, t).
                 if b then bindE (loadAccount sha t) (\<lambda>(a, _). Inr (Some a)) else Inr None))
            else Inr None) (\<lambda>acc.
     bindE (Slice_loadUintBig 256 s) (\<lambda>(h, s).
     bindE (Slice_loadUintBig 64 s) (\<lambda>(lt, s).
     Inr (\<lparr>sa_account = acc, sa_lastTransactionHash = h, sa_lastTransactionLt = lt\<rparr>, s)))))"

definition storeShardAccount :: "(buffer \<Rightarrow> buffer) \<Rightarrow> shard_account \<Rightarrow> builder \<Rightarrow> builder res" where
  "storeShardAccount sha src b =
     bindE (case sa_account src of
              Some a \<Rightarrow> bindE (Builder_storeBit (BitBool True) new_Builder) (Builder_store (storeAccount sha a))
            | None \<Rightarrow> Builder_storeBit (BitBool False) new_Builder) (\<lambda>d.
     bindE (Builder_storeRef sha (ABuilder d) b) (\<lambda>b.
     bindE (Builder_storeUint (Big (sa_lastTransactionHash src)) 256 b)
       (Builder_storeUint (Big (sa_lastTransactionLt src)) 64)))"

record shard_account_ref =
  sr_shardAccount :: shard_account
  sr_depthBalanceInfo :: depth_balance_info

definition ShardAccountRefValue :: "(buffer \<Rightarrow> buffer) \<Rightarrow> shard_account_ref dict_value_type" where
  "ShardAccountRefValue sha =
     \<lparr>dv_serialize = (\<lambda>src b.
        bindE (Builder_store (storeDepthBalanceInfo sha (sr_depthBalanceInfo src)) b)
          (Builder_store (storeShardAccount sha (sr_shardAccount src)))),
      dv_parse = (\<lambda>s.
        bindE (loadDepthBalanceInfo sha s) (\<lambda>(d, s).
        bindE (loadShardAccount sha s) (\<lambda>(a, s).
        Inr (\<lparr>sr_shardAccount = a, sr_depthBalanceInfo = d\<rparr>, s))))\<rparr>"

definition loadShardAccounts :: "(buffer \<Rightarrow> buffer) \<Rightarrow> shard_account_ref dictionary sload" where
  "loadShardAccounts sha = Dictionary_load (createBigUintKey sha 256) (ShardAccountRefValue sha)"

definition storeShardAccounts :: "(buffer \<Rightarrow> buffer) \<Rightarrow> shard_account_ref dictionary \<Rightarrow> builder \<Rightarrow> builder res" where
  "storeShardAccounts sha src b = Builder_storeDict sha (Some src) None None b"

record masterchain_state_extra =
  mx_configAddress :: int
  mx_config :: "cell dictionary"
  mx_globalBalance :: currency_collection

definition loadMasterchainStateExtra :: "(buffer \<Rightarrow> buffer) \<Rightarrow> masterchain_state_extra sload" where
  "loadMasterchainStateExtra sha s =
     bindE (Slice_loadUint 16 s) (\<lambda>(tag, s).
     if tag \<noteq> 0xcc26 then Inl InvalidData
     else bindE (Slice_loadBit s) (\<lambda>(b, s).
          bindE (if b then bindE (Slice_loadRef s) (\<lambda>(_, s). Inr s) else Inr s) (\<lambda>s.
          bindE (Slice_loadUintBig 256 s) (\<lambda>(configAddress, s).
          bindE (Dictionary_load (createIntKey sha 32) (createCellValue sha) s) (\<lambda>(config, s).
          bindE (loadCurrencyCollection sha s) (\<lambda>(globalBalance, s).
          Inr (\<lparr>mx_configAddress = configAddress, mx_config = config, mx_globalBalance = globalBalance\<rparr>, s)))))))"

record shard_state_unsplit =
  su_globalId :: int
  su_shardId :: shard_ident
  su_seqno :: int
  su_vertSeqNo :: int
  su_genUtime :: int
  su_genLt :: int
  su_minRefMcSeqno :: int
  su_beforeSplit :: bool
  su_accounts :: "shard_account_ref dictionary option"
  su_extras :: "masterchain_state_extra option"

definition loadShardStateUnsplit :: "(buffer \<Rightarrow> buffer) \<Rightarrow> shard_state_unsplit sload" where
  "loadShardStateUnsplit sha s =
     bindE (Slice_loadUint 32 s) (\<lambda>(tag, s).
     if tag \<noteq> 0x9023afe2 then Inl InvalidData
     else bindE (Slice_loadInt 32 s) (\<lambda>(globalId, s).
          bindE (loadShardIdent s) (\<lambda>(shardId, s).
          bindE (Slice_loadUint 32 s) (\<lambda>(seqno, s).
          bindE (Slice_loadUint 32 s) (\<lambda>(vertSeqNo, s).
          bindE (Slice_loadUint 32 s) (\<lambda>(genUtime, s).
          bindE (Slice_loadUintBig 64 s) (\<lambda>(genLt, s).
          bindE (Slice_loadUint 32 s) (\<lambda>(minRefMcSeqno, s).
          bindE (Slice_loadRef s) (\<lambda>(_, s).
          bindE (Slice_loadBit s) (\<lambda>(beforeSplit, s).
          bindE (Slice_loadRef s) (\<lambda>(shardAccountsRef, s).
          bindE (if \<not> Cell_isExotic shardAccountsRef
                 then bindE (Cell_beginParse shardAccountsRef False) (\<lambda>t.
                      bindE (loadShardAccounts sha t) (\<lambda>(a, _). Inr (Some a)))
                 else Inr None) (\<lambda>accounts.
          bindE (Slice_loadRef s) (\<lambda>(_, s).
          bindE (Slice_loadBit s) (\<lambda>(mcStateExtra, s).
          bindE (if mcStateExtra
                 then bindE (Slice_loadRef s) (\<lambda>(c, s).
                      if \<not> Cell_isExotic c
                      then bindE (Cell_beginParse c False) (\<lambda>t.
                           bindE (loadMasterchainStateExtra sha t) (\<lambda>(x, _). Inr (Some x, s)))
                      else Inr (None, s))
                 else Inr (None, s)) (\<lambda>(extras, s).
          Inr (\<lparr>su_globalId = globalId, su_shardId = shardId, su_seqno = seqno, su_vertSeqNo = vertSeqNo,
                su_genUtime = genUtime, su_genLt = genLt, su_minRefMcSeqno = minRefMcSeqno,
                su_beforeSplit = beforeSplit, su_accounts = accounts, su_extras = extras\<rparr>, s))))))))))))))))"

section \<open>Output actions\<close>

datatype out_action = SendMsg int message_relaxed | SetCode cell

definition outActionSendMsgTag :: int where "outActionSendMsgTag = 0x0ec3c86d"
definition outActionSetCodeTag :: int where "outActionSetCodeTag = 0xad4de08e"

definition storeOutActionSendMsg :: "(buffer \<Rightarrow> buffer) \<Rightarrow> int \<Rightarrow> message_relaxed \<Rightarrow> builder \<Rightarrow> builder res" where
  "storeOutActionSendMsg sha mode outMsg b =
     bindE (Builder_storeUint (Num outActionSendMsgTag) 32 b) (\<lambda>b.
     bindE (Builder_storeUint (Num mode) 8 b) (\<lambda>b.
     bindE (Builder_store (storeMessageRelaxed sha outMsg False) new_Builder) (\<lambda>d.
     bindE (Builder_endCell sha False d) (\<lambda>c. Builder_storeRef sha (ACell c) b))))"

definition storeOutActionSetCode :: "(buffer \<Rightarrow> buffer) \<Rightarrow> cell \<Rightarrow> builder \<Rightarrow> builder res" where
  "storeOutActionSetCode sha newCode b =
     bindE (Builder_storeUint (Num outActionSetCodeTag) 32 b) (Builder_storeRef sha (ACell newCode))"

definition storeOutAction :: "(buffer \<Rightarrow> buffer) \<Rightarrow> out_action \<Rightarrow> builder \<Rightarrow> builder res" where
  "storeOutAction sha action =
     (case action of
        SendMsg mode outMsg \<Rightarrow> storeOutActionSendMsg sha mode outMsg
      | SetCode newCode \<Rightarrow> storeOutActionSetCode sha newCode)"

definition loadOutAction :: "(buffer \<Rightarrow> buffer) \<Rightarrow> out_action sload" where
  "loadOutAction sha s =
     bindE (Slice_loadUint 32 s) (\<lambda>(tag, s).
     if tag = outActionSendMsgTag
     then bindE (Slice_loadUint 8 s) (\<lambda>(mode, s).
          bindE (Slice_loadRef s) (\<lambda>(c, s).
          bindE (Cell_beginParse c False) (\<lambda>t.
          bindE (loadMessageRelaxed sha t) (\<lambda>(outMsg, _). Inr (SendMsg mode outMsg, s)))))
     else if tag = outActionSetCodeTag
     then bindE (Slice_loadRef s) (\<lambda>(newCode, s). Inr (SetCode newCode, s))
     else Inl InvalidData)"

definition storeOutList_cell :: "(buffer \<Rightarrow> buffer) \<Rightarrow> out_action list \<Rightarrow> cell res" where
  "storeOutList_cell sha actions =
     bindE (Builder_endCell sha False new_Builder) (\<lambda>start.
     foldE (\<lambda>action cell.
         bindE (Builder_storeRef sha (ACell cell) new_Builder) (\<lambda>b.
         bindE (Builder_store (storeOutAction sha action) b) (Builder_endCell sha False))) actions start)"

definition storeOutList :: "(buffer \<Rightarrow> buffer) \<Rightarrow> out_action list \<Rightarrow> builder \<Rightarrow> builder res" where
  "storeOutList sha actions b =
     bindE (storeOutList_cell sha actions) (\<lambda>c.
     bindE (Cell_beginParse c False) (\<lambda>s. Builder_storeSlice sha s b))"

function loadOutList :: "(buffer \<Rightarrow> buffer) \<Rightarrow> out_action list sload" where
  "loadOutList sha s =
     (if Slice_remainingRefs s = 0 then Inr ([], s)
      else bindE (Slice_loadRef s) (\<lambda>(nextCell, s).
           bindE (loadOutAction sha s) (\<lambda>(action, s).
           bindE (Cell_beginParse nextCell False) (\<lambda>t.
           bindE (loadOutList sha t) (\<lambda>(rest, _). Inr (rest @ [action], s))))))"
  by pat_completeness auto
termination
  by (relation "measure (\<lambda>(sha, s). refs_size s)") (auto dest!: load_sizes)

declare loadOutList.simps [simp del]

section \<open>The messages of a wallet\<close>

datatype address_or_text = AAddress address | AText string

definition resolve_address :: "address_or_text \<Rightarrow> address res" where
  "resolve_address a = (case a of AAddress x \<Rightarrow> Inr x | AText t \<Rightarrow> Address_parse t)"

datatype amount = ABig int | ADecimal string

definition resolve_amount :: "amount \<Rightarrow> int res" where
  "resolve_amount v = (case v of ABig n \<Rightarrow> Inr n | ADecimal t \<Rightarrow> toNano t)"

datatype body = BCell cell | BText buffer

definition comment_cell :: "(buffer \<Rightarrow> buffer) \<Rightarrow> buffer \<Rightarrow> cell res" where
  "comment_cell sha src =
     bindE (Builder_storeUint (Num 0) 32 new_Builder) (\<lambda>b.
     bindE (Builder_storeStringTail sha src b) (Builder_endCell sha False))"

definition internal_message ::
    "(buffer \<Rightarrow> buffer) \<Rightarrow> address_or_text \<Rightarrow> amount \<Rightarrow> bool option \<Rightarrow> state_init option \<Rightarrow> body option \<Rightarrow>
     message_relaxed res" where
  "internal_message sha to v bounce init body =
     bindE (resolve_address to) (\<lambda>dest.
     bindE (resolve_amount v) (\<lambda>coins.
     bindE (case body of
              Some (BText t) \<Rightarrow> comment_cell sha t
            | Some (BCell c) \<Rightarrow> Inr c
            | None \<Rightarrow> Cell_EMPTY sha) (\<lambda>body.
     Inr \<lparr>mr_info = RInternal \<lparr>ri_ihrDisabled = True,
            ri_bounce = (case bounce of Some b \<Rightarrow> b | None \<Rightarrow> True), ri_bounced = False, ri_src = None,
            ri_dest = dest, ri_value = \<lparr>cc_other = None, cc_coins = coins\<rparr>, ri_ihrFee = 0,
            ri_forwardFee = 0, ri_createdLt = 0, ri_createdAt = 0\<rparr>,
          mr_init = init, mr_body = body\<rparr>)))"

definition external_message ::
    "(buffer \<Rightarrow> buffer) \<Rightarrow> address_or_text \<Rightarrow> state_init option \<Rightarrow> cell option \<Rightarrow> message res" where
  "external_message sha to init body =
     bindE (resolve_address to) (\<lambda>dest.
     bindE (case body of Some c \<Rightarrow> Inr c | None \<Rightarrow> Cell_EMPTY sha) (\<lambda>body.
     Inr \<lparr>msg_info = CExternalIn \<lparr>ei_src = None, ei_dest = dest, ei_importFee = 0\<rparr>,
          msg_init = init, msg_body = body\<rparr>))"

end
