(* ===== verification/Message_Roundtrip.thy ===== *)
theory Message_Roundtrip
  imports Dictionary_Roundtrip Boc_Roundtrip Merkle_Proof Ton_Shards
begin

text \<open>
  Messages and their parts, stored and loaded again. The rules of \<open>Codec_Steps\<close> carry the
  proofs: a record is a sequence of fields.
\<close>

lemmas store_apply = Builder_store_def Builder_storeWritable_def

section \<open>Parts\<close>

lemma rt_tickTock [rt_intros]: "rt (storeTickTock v) loadTickTock v 2 0"
  unfolding storeTickTock_def [abs_def] loadTickTock_def [abs_def]
  by (rule rt_le, (rule rt_bind rt_map rt_intros | assumption | simp)+)

lemma rt_simpleLibrary [rt_intros]: "cell_ok (lib_root v) \<Longrightarrow> rt (storeSimpleLibrary sha v) loadSimpleLibrary v 1 1"
  unfolding storeSimpleLibrary_def [abs_def] loadSimpleLibrary_def [abs_def]
  by (rule rt_le, (rule rt_bind rt_map rt_intros | assumption | simp)+)

text \<open>Optional fields of which the code writes the bit as a truth value.\<close>

lemma storeBit_bool: "Builder_storeBit (BitBool False) = Builder_storeBit (BitNum 0)"
  "Builder_storeBit (BitBool True) = Builder_storeBit (BitNum 1)"
  by (auto simp: Builder_storeBit_def lift_write_def BitBuilder_writeBit_def Let_def fun_eq_iff)

lemma store_opt_maybe: "store_opt f v = store_maybe f v"
  by (rule ext) (simp add: store_opt_def store_maybe_def storeBit_bool split: option.split)

lemma rt_maybe_ref [rt_intros]:
  assumes "\<forall>c \<in> set_option v. cell_ok c"
  shows "rt (Builder_storeMaybeRef sha (map_option ACell v)) Slice_loadMaybeRef v 1 1"
proof -
  have "rt (store_maybe (\<lambda>c. Builder_storeRef sha (ACell c)) v) (load_maybe Slice_loadRef) v (1 + 0) 1"
    using assms by (intro rt_maybe rt_ref) simp
  then show ?thesis by (simp add: Builder_storeMaybeRef_def Slice_loadMaybeRef_def store_maybe_map)
qed

text \<open>The references of an optional cell, exactly.\<close>

lemma rt_maybe_ref_exact:
  assumes "\<forall>c \<in> set_option v. cell_ok c" "k = (case v of None \<Rightarrow> 0 | Some _ \<Rightarrow> 1)"
  shows "rt (Builder_storeMaybeRef sha (map_option ACell v)) Slice_loadMaybeRef v 1 k"
proof (cases v)
  case None
  have "rt (store_maybe (\<lambda>c. Builder_storeRef sha (ACell c)) v) (load_maybe Slice_loadRef) v (1 + 0) 0"
    by (rule rt_maybe) (simp add: None)
  then show ?thesis
    using None assms(2) by (simp add: Builder_storeMaybeRef_def Slice_loadMaybeRef_def store_maybe_def [abs_def])
next
  case (Some c)
  then show ?thesis using rt_maybe_ref [OF assms(1)] assms(2) by simp
qed

section \<open>Currencies\<close>

text \<open>
  Extra currencies are a dictionary from 32-bit numbers to amounts of up to 31 bytes; a missing
  dictionary is loaded as a missing one, so an empty one is not a canonical value.
\<close>

definition valid_extra :: "(buffer \<Rightarrow> buffer) \<Rightarrow> jsval dictionary \<Rightarrow> (int \<times> int) list \<Rightarrow> bool" where
  "valid_extra sha d es \<longleftrightarrow>
     d = uint_key.dict_of sha 32 (createBigVarUintValue 5) (map (\<lambda>(k, v). (k, Big v)) es) \<and> es \<noteq> [] \<and>
     sorted_wrt (<) (map fst es) \<and>
     (\<forall>(k, v) \<in> set es. 0 \<le> k \<and> k < 2 ^ 32 \<and> 0 \<le> v \<and> size_bytes v < 32)"

definition valid_currency :: "(buffer \<Rightarrow> buffer) \<Rightarrow> currency_collection \<Rightarrow> bool" where
  "valid_currency sha c \<longleftrightarrow> valid_coins (cc_coins c) \<and> (\<forall>d \<in> set_option (cc_other c). \<exists>es. valid_extra sha d es)"

abbreviation option_refs :: "'a option \<Rightarrow> nat" where
  "option_refs x \<equiv> (case x of None \<Rightarrow> 0 | Some _ \<Rightarrow> 1)"

lemma rt_varuint_value:
  assumes "0 \<le> v" "size_bytes v < 32"
  shows "rt (dv_serialize (createBigVarUintValue 5) (Big v)) (dv_parse (createBigVarUintValue 5)) (Big v) 253 0"
proof -
  have "rt (Builder_storeVarUint (Big v) 5) (Slice_loadVarUintBig 5) v 253 0"
    using rt_var_uint_nat [of v 5] assms by simp
  then show ?thesis
    using rt_map [of "Builder_storeVarUint (Big v) 5" "Slice_loadVarUintBig 5" v 253 0 "Big v" Big]
    by (simp add: createBigVarUintValue_def mapS_def [abs_def])
qed

lemma rt_extra:
  assumes "sha_ok sha" "valid_extra sha d es"
  shows "rt (Builder_storeDict sha (Some d) None None)
    (Slice_loadDict (createUintKey sha 32) (createBigVarUintValue 5)) d 1 1" "Dictionary_size d \<noteq> 0"
proof -
  let ?es = "map (\<lambda>(k, v). (k, Big v)) es"
  have ok: "uint_key.entries_ok sha 32 ?es"
    using assms unfolding valid_extra_def uint_key.entries_ok_def by (auto simp: comp_def split_beta)
  have "\<forall>(k, v) \<in> set ?es. rt (dv_serialize (createBigVarUintValue 5) v) (dv_parse (createBigVarUintValue 5)) v 253 0"
    using assms(2) rt_varuint_value by (auto simp: valid_extra_def)
  moreover have "bit_length 32 \<le> 6" by (rule bit_length_le) simp
  ultimately show "rt (Builder_storeDict sha (Some d) None None)
      (Slice_loadDict (createUintKey sha 32) (createBigVarUintValue 5)) d 1 1"
    using uint_key.rt_Dictionary [OF assms(1) ok, of 253 0 "createBigVarUintValue 5"] assms(2)
    by (simp add: Builder_storeDict_def [abs_def] Slice_loadDict_def [abs_def] valid_extra_def)
  show "Dictionary_size d \<noteq> 0"
    using assms(2) unfolding valid_extra_def uint_key.dict_of_def Dictionary_size_def by auto
qed

lemma rt_no_dict:
  "rt (Builder_storeBit (BitNum 0)) (Slice_loadDict key vt) (Dictionary_empty (Some key) (Some vt)) 1 0"
proof -
  have "rt (\<lambda>b. bindE (Builder_storeBit (BitNum 0) b) Inr) (load_maybe Slice_loadRef) None 1 0"
    unfolding load_maybe_def [abs_def]
    using rt_bit0 [of Inr "\<lambda>b s. if b then bindE (Slice_loadRef s) (\<lambda>(v, s). Inr (Some v, s)) else Inr (None, s)" None 0 0 1]
      rt_return [of "None :: cell option"]
    by (simp add: Slice_loadBit_def)
  then have "rt (Builder_storeBit (BitNum 0)) (load_maybe Slice_loadRef) None 1 0" by simp
  from rt_bind [OF this, of Inr "\<lambda>cell sl. case cell of
       Some c \<Rightarrow> if \<not> Cell_isExotic c
                 then bindE (Cell_beginParse c False) (\<lambda>s.
                      bindE (Dictionary_loadDirect key vt (Some s)) (\<lambda>(d, _). Inr (d, sl)))
                 else Inr (Dictionary_empty (Some key) (Some vt), sl)
     | None \<Rightarrow> Inr (Dictionary_empty (Some key) (Some vt), sl)" "Dictionary_empty (Some key) (Some vt)" 0 0]
  show ?thesis using rt_return [of "Dictionary_empty (Some key) (Some vt)"]
    by (simp add: Slice_loadDict_def [abs_def] Dictionary_load_def [abs_def] Slice_loadMaybeRef_def)
qed

lemma rt_currency_with:
  assumes "sha_ok sha" "\<forall>d \<in> set_option (cc_other c). \<exists>es. valid_extra sha d es"
    and coins: "rt (Builder_storeCoins (Big (cc_coins c))) Slice_loadCoins (cc_coins c) n 0"
  shows "rt (storeCurrencyCollection sha c) (loadCurrencyCollection sha) c (n + 1) (option_refs (cc_other c))"
proof (cases "cc_other c")
  case None
  have "rt (\<lambda>b. bindE (Builder_storeCoins (Big (cc_coins c)) b) (Builder_storeBit (BitNum 0)))
      (loadCurrencyCollection sha) c (n + 1) (0 + 0)"
    unfolding loadCurrencyCollection_def [abs_def] using None
    by (intro rt_bind [OF coins] rt_map [OF rt_no_dict])
      (cases c, auto simp: Dictionary_size_def Dictionary_empty_def)
  then show ?thesis using None by (simp add: storeCurrencyCollection_def [abs_def])
next
  case (Some d)
  with assms(2) obtain es where es: "valid_extra sha d es" by auto
  have "rt (\<lambda>b. bindE (Builder_storeCoins (Big (cc_coins c)) b) (Builder_storeDict sha (Some d) None None))
      (loadCurrencyCollection sha) c (n + 1) (0 + 1)"
    unfolding loadCurrencyCollection_def [abs_def] using Some rt_extra(2) [OF assms(1) es]
    by (intro rt_bind [OF coins] rt_map [OF rt_extra(1) [OF assms(1) es]]) (cases c, auto)
  then show ?thesis using Some by (simp add: storeCurrencyCollection_def [abs_def])
qed

lemma rt_currency [rt_intros]:
  "sha_ok sha \<Longrightarrow> valid_currency sha c \<Longrightarrow>
    rt (storeCurrencyCollection sha c) (loadCurrencyCollection sha) c 125 (option_refs (cc_other c))"
  using rt_currency_with [of sha c 124] rt_coins by (simp add: valid_currency_def)

section \<open>The information in front of a message\<close>

lemma rt_any_external [rt_intros]:
  assumes "\<forall>e \<in> set_option a. valid_ext e"
  shows "rt (Builder_storeAddress (map_option External a)) Slice_loadMaybeExternalAddress a 522 0"
proof (rule rt_le [OF rt_bits [of "enc_address (map_option External a)" _]])
  have v: "valid_address (map_option External a)" using assms by (cases a) auto
  show "stores (Builder_storeAddress (map_option External a) b) b (enc_address (map_option External a)) []"
    if "bl_fits b (length (enc_address (map_option External a))) 0" for b
    using s_any_address.store_ok [OF v] that by simp
  show "sreads Slice_loadMaybeExternalAddress s a (length (enc_address (map_option External a))) 0"
    if "sl_ok s" "sl_bits s = enc_address (map_option External a) @ ys" for s ys
    using that loadMaybeExternalAddress_ok [of "sl_reader s" a ys] v assms
    unfolding Slice_loadMaybeExternalAddress_def
    by (intro lift_load_reads) (simp add: sl_ok_def sl_bits_def reads_def)
  show "length (enc_address (map_option External a)) \<le> 522" using length_enc_any [OF v] .
qed simp_all

lemma rt_any_internal [rt_intros]:
  assumes "\<forall>e \<in> set_option a. valid_std e"
  shows "rt (Builder_storeAddress (map_option Internal a)) Slice_loadMaybeAddress a 267 0"
proof (rule rt_le [OF rt_bits [of "enc_address (map_option Internal a)" _]])
  have v: "valid_address (map_option Internal a)" using assms by (cases a) auto
  show "stores (Builder_storeAddress (map_option Internal a) b) b (enc_address (map_option Internal a)) []"
    if "bl_fits b (length (enc_address (map_option Internal a))) 0" for b
    using s_any_address.store_ok [OF v] that by simp
  show "sreads Slice_loadMaybeAddress s a (length (enc_address (map_option Internal a))) 0"
    if "sl_ok s" "sl_bits s = enc_address (map_option Internal a) @ ys" for s ys
    using that loadMaybeAddress_ok [of "sl_reader s" a ys] v assms
    unfolding Slice_loadMaybeAddress_def
    by (intro lift_load_reads) (simp add: sl_ok_def sl_bits_def reads_def)
  show "length (enc_address (map_option Internal a)) \<le> 267"
    using assms by (cases a) (simp_all add: length_enc_std)
qed simp_all

definition valid_internal :: "(buffer \<Rightarrow> buffer) \<Rightarrow> info_internal \<Rightarrow> bool" where
  "valid_internal sha i \<longleftrightarrow> valid_std (ii_src i) \<and> valid_std (ii_dest i) \<and> valid_currency sha (ii_value i) \<and>
     valid_coins (ii_ihrFee i) \<and> valid_coins (ii_forwardFee i) \<and> 0 \<le> ii_createdLt i \<and> ii_createdLt i < 2 ^ 64 \<and>
     0 \<le> ii_createdAt i \<and> ii_createdAt i < 2 ^ 32"

fun valid_info :: "(buffer \<Rightarrow> buffer) \<Rightarrow> common_message_info \<Rightarrow> bool" where
  "valid_info sha (CInternal i) \<longleftrightarrow> valid_internal sha i"
| "valid_info sha (CExternalIn e) \<longleftrightarrow> (\<forall>s \<in> set_option (ei_src e). valid_ext s) \<and> valid_std (ei_dest e) \<and>
     valid_coins (ei_importFee e)"
| "valid_info sha (CExternalOut e) \<longleftrightarrow> valid_std (eo_src e) \<and> (\<forall>d \<in> set_option (eo_dest e). valid_ext d) \<and>
     0 \<le> eo_createdLt e \<and> eo_createdLt e < 2 ^ 64 \<and> 0 \<le> eo_createdAt e \<and> eo_createdAt e < 2 ^ 32"

text \<open>The references that the information takes: one for extra currencies.\<close>

fun info_refs :: "common_message_info \<Rightarrow> nat" where
  "info_refs (CInternal i) = option_refs (cc_other (ii_value i))"
| "info_refs _ = 0"

lemma rt_info_internal:
  assumes "sha_ok sha" "valid_internal sha i"
  shows "rt (storeCommonMessageInfo sha (CInternal i)) (loadCommonMessageInfo sha) (CInternal i) 1008
    (option_refs (cc_other (ii_value i)))"
proof -
  note v = assms(2) [unfolded valid_internal_def]
  show ?thesis
    unfolding storeCommonMessageInfo_def loadCommonMessageInfo_def [abs_def] common_message_info.case store_apply
    by (rule rt_le, rule rt_bind [OF rt_bit_num(1)], simp only: not_False_eq_True if_True,
        (rule rt_bind rt_map rt_intros assms | use v in simp)+)
qed

lemma rt_info_external_in:
  assumes "\<forall>s \<in> set_option (ei_src e). valid_ext s" "valid_std (ei_dest e)" "valid_coins (ei_importFee e)"
  shows "rt (storeCommonMessageInfo sha (CExternalIn e)) (loadCommonMessageInfo sha) (CExternalIn e) 1008 0"
  unfolding storeCommonMessageInfo_def loadCommonMessageInfo_def [abs_def] common_message_info.case store_apply
  by (rule rt_le, rule rt_bind [OF rt_bit_num(2)], simp only: not_True_eq_False if_False,
      rule rt_bind [OF rt_bit_num(1)], simp only: not_False_eq_True if_True,
      (rule rt_bind rt_map rt_intros assms | simp)+)

lemma rt_info_external_out:
  assumes "valid_std (eo_src e)" "\<forall>d \<in> set_option (eo_dest e). valid_ext d"
    and "0 \<le> eo_createdLt e" "eo_createdLt e < 2 ^ 64" "0 \<le> eo_createdAt e" "eo_createdAt e < 2 ^ 32"
  shows "rt (storeCommonMessageInfo sha (CExternalOut e)) (loadCommonMessageInfo sha) (CExternalOut e) 1008 0"
  unfolding storeCommonMessageInfo_def loadCommonMessageInfo_def [abs_def] common_message_info.case store_apply
  by (rule rt_le, rule rt_bind [OF rt_bit_num(2)], simp only: not_True_eq_False if_False,
      rule rt_bind [OF rt_bit_num(2)], simp only: not_True_eq_False if_False,
      (rule rt_bind rt_map rt_intros assms | use assms in simp)+)

lemma rt_info:
  assumes "sha_ok sha" "valid_info sha info"
  shows "rt (storeCommonMessageInfo sha info) (loadCommonMessageInfo sha) info 1008 (info_refs info)"
  using assms rt_info_internal rt_info_external_in rt_info_external_out by (cases info) auto

section \<open>The state of a new account\<close>

definition valid_libraries ::
    "(buffer \<Rightarrow> buffer) \<Rightarrow> simple_library dictionary \<Rightarrow> (int \<times> simple_library) list \<Rightarrow> bool" where
  "valid_libraries sha d es \<longleftrightarrow>
     d = big_uint_key.dict_of sha 256 (SimpleLibraryValue sha) es \<and> es \<noteq> [] \<and> sorted_wrt (<) (map fst es) \<and>
     (\<forall>(k, v) \<in> set es. 0 \<le> k \<and> k < 2 ^ 256 \<and> cell_ok (lib_root v))"

definition valid_init :: "(buffer \<Rightarrow> buffer) \<Rightarrow> state_init \<Rightarrow> bool" where
  "valid_init sha i \<longleftrightarrow> (\<forall>d \<in> set_option (si_splitDepth i). 0 \<le> d \<and> d < 32) \<and>
     (\<forall>c \<in> set_option (si_code i). cell_ok c) \<and> (\<forall>c \<in> set_option (si_data i). cell_ok c) \<and>
     (\<forall>d \<in> set_option (si_libraries i). \<exists>es. valid_libraries sha d es)"

definition init_refs :: "state_init \<Rightarrow> nat" where
  "init_refs i = option_refs (si_code i) + option_refs (si_data i) + option_refs (si_libraries i)"

lemma rt_libraries:
  assumes "sha_ok sha" "valid_libraries sha d es"
  shows "rt (Builder_storeDict sha (Some d) None None)
    (Slice_loadDict (createBigUintKey sha 256) (SimpleLibraryValue sha)) d 1 1" "Dictionary_size d \<noteq> 0"
proof -
  have ok: "big_uint_key.entries_ok sha 256 es"
    using assms unfolding valid_libraries_def big_uint_key.entries_ok_def by (auto simp: comp_def split_beta)
  have "\<forall>(k, v) \<in> set es. rt (dv_serialize (SimpleLibraryValue sha) v) (dv_parse (SimpleLibraryValue sha)) v 1 1"
    using assms(2) rt_simpleLibrary by (auto simp: valid_libraries_def SimpleLibraryValue_def)
  moreover have "bit_length 256 \<le> 9" by (rule bit_length_le) simp
  ultimately show "rt (Builder_storeDict sha (Some d) None None)
      (Slice_loadDict (createBigUintKey sha 256) (SimpleLibraryValue sha)) d 1 1"
    using big_uint_key.rt_Dictionary [OF assms(1) ok, of 1 1 "SimpleLibraryValue sha"] assms(2)
    by (simp add: Builder_storeDict_def [abs_def] Slice_loadDict_def [abs_def] valid_libraries_def)
  show "Dictionary_size d \<noteq> 0"
    using assms(2) unfolding valid_libraries_def big_uint_key.dict_of_def Dictionary_size_def by auto
qed

lemma rt_library_field:
  assumes "sha_ok sha" "\<forall>d \<in> set_option l. \<exists>es. valid_libraries sha d es"
    and "w = h (case l of None \<Rightarrow> Dictionary_empty (Some (createBigUintKey sha 256)) (Some (SimpleLibraryValue sha)) | Some d \<Rightarrow> d)"
  shows "rt (Builder_storeDict sha l None None)
    (\<lambda>s. bindE (Slice_loadDict (createBigUintKey sha 256) (SimpleLibraryValue sha) s) (\<lambda>(d, s). Inr (h d, s))) w 1 (option_refs l)"
proof (cases l)
  case None
  have "rt (Builder_storeBit (BitNum 0))
      (\<lambda>s. bindE (Slice_loadDict (createBigUintKey sha 256) (SimpleLibraryValue sha) s) (\<lambda>(d, s). Inr (h d, s))) w 1 0"
    by (rule rt_map [OF rt_no_dict]) (use assms(3) None in simp)
  then show ?thesis using None by (simp add: Builder_storeDict_def [abs_def])
next
  case (Some d)
  with assms(2) obtain es where "valid_libraries sha d es" by auto
  then have "rt (Builder_storeDict sha (Some d) None None)
      (\<lambda>s. bindE (Slice_loadDict (createBigUintKey sha 256) (SimpleLibraryValue sha) s) (\<lambda>(d, s). Inr (h d, s))) w 1 1"
    by (rule rt_map [OF rt_libraries(1) [OF assms(1)]]) (use assms(3) Some in simp)
  then show ?thesis using Some by simp
qed

lemma library_size:
  assumes "sha_ok sha" "\<forall>d \<in> set_option l. \<exists>es. valid_libraries sha d es"
    and "d = (case l of None \<Rightarrow> Dictionary_empty key vt | Some d \<Rightarrow> d)"
  shows "(if Dictionary_size d = 0 then None else Some d) = l"
  using assms rt_libraries(2) [OF assms(1)] by (cases l) (auto simp: Dictionary_size_def Dictionary_empty_def)

lemma rt_stateInit:
  assumes "sha_ok sha" "valid_init sha i"
  shows "rt (storeStateInit sha i) (loadStateInit sha) i 12 (init_refs i)"
proof -
  note v = assms(2) [unfolded valid_init_def]
  have f: "(case si_splitDepth i of
        Some d \<Rightarrow> bindE (Builder_storeBit (BitBool True) b) (Builder_storeUint (Num d) 5)
      | None \<Rightarrow> Builder_storeBit (BitBool False) b) = store_maybe (\<lambda>d. Builder_storeUint (Num d) 5) (si_splitDepth i) b"
    "(case si_special i of
        Some t \<Rightarrow> bindE (Builder_storeBit (BitBool True) b) (Builder_store (storeTickTock t))
      | None \<Rightarrow> Builder_storeBit (BitBool False) b) = store_maybe storeTickTock (si_special i) b" for b
    by (simp_all add: store_maybe_def storeBit_bool store_apply [abs_def] split: option.split)
  show ?thesis
    unfolding storeStateInit_def [abs_def] loadStateInit_def [abs_def] f
    by (rule rt_le, (rule rt_bind rt_maybe rt_num rt_tickTock rt_maybe_ref_exact refl
          rt_library_field [OF assms(1)] | use v library_size [OF assms(1)] in \<open>simp add: init_refs_def\<close>)+)
qed

section \<open>The two places of the initial state\<close>

text \<open>A builder in a reference, and a builder appended in place.\<close>

lemma rt_in_ref:
  assumes "rt f g v n k" "sha_ok sha" "n \<le> 1023" "k \<le> 4" "f new_Builder = Inr d" "w = h v"
  shows "rt (Builder_storeRef sha (ABuilder d))
    (\<lambda>s. bindE (Slice_loadRef s) (\<lambda>(c, s). bindE (Cell_beginParse c False) (\<lambda>t.
       bindE (g t) (\<lambda>(x, _). Inr (h x, s))))) w 0 1"
proof -
  obtain c s s' where c: "Builder_endCell sha False d = Inr c" "cell_ok c" "Cell_beginParse c False = Inr s"
    "g s = Inr (v, s')" using rt_cell [OF assms(1-4)] assms(5) by auto
  have "rt (\<lambda>b. bindE (Builder_storeRef sha (ACell c) b) Inr)
    (\<lambda>s. bindE (Slice_loadRef s) (\<lambda>(c, s). bindE (Cell_beginParse c False) (\<lambda>t.
       bindE (g t) (\<lambda>(x, _). Inr (h x, s))))) w (0 + 0) (1 + 0)"
    by (rule rt_bind [OF rt_ref [OF c(2)]]) (use c assms(6) rt_return in simp)
  moreover have "Builder_storeRef sha (ABuilder d) = Builder_storeRef sha (ACell c)"
    using c(1) by (simp add: fun_eq_iff Builder_storeRef.simps)
  ultimately show ?thesis by simp
qed

lemma rt_in_place:
  assumes "rt f g v n k" "sha_ok sha" "n \<le> 1023" "k \<le> 4" "f new_Builder = Inr d"
  shows "rt (Builder_storeBuilder sha d) g v n k"
proof (rule rtI)
  fix b assume b: "bl_fits b n k"
  obtain xs rs where x: "length xs \<le> n" "length rs \<le> k" "\<forall>r \<in> set rs. cell_ok r"
    "stores (f new_Builder) new_Builder xs rs" "loads g xs rs v"
    using rtE [OF assms(1) new_Builder_fits [OF assms(3,4)]] .
  have d: "wf_bb (bl_bits d)" "bb_bits (bl_bits d) = xs" "bl_refs d = rs"
    using x(4) assms(5) wf_new_BitBuilder(2) [of 1023] by (auto simp: stores_def appends_def new_Builder_def)
  obtain c where c: "Builder_endCell sha False d = Inr c" "cell_ok c" "cell_type c = Ordinary"
    "bs_bits (cell_bits c) = xs" "cell_refs c = rs"
    using endCell_ok [OF assms(2) d(1)] d length_bb_bits [OF d(1)] x(1-3) assms(3,4) by auto
  obtain s where s: "Cell_beginParse c False = Inr s" "sl_ok s" "sl_bits s = xs" "sl_cells s = rs"
    using beginParse_ok [OF c(2)] c(3-5) by force
  have "bl_fits b (length (sl_bits s)) (length (sl_cells s))"
    by (rule bl_fits_mono [OF b]) (use s x in auto)
  from storeSlice_ok [OF s(2) this] have "stores (Builder_storeBuilder sha d b) b xs rs"
    using c(1) s by (simp add: Builder_storeBuilder_def)
  with x show "\<exists>xs rs. length xs \<le> n \<and> length rs \<le> k \<and> (\<forall>r \<in> set rs. cell_ok r) \<and>
      stores (Builder_storeBuilder sha d b) b xs rs \<and> loads g xs rs v" by blast
qed

lemma rt_choice:
  assumes "rt f g v n k" "rt f' g v n k"
  shows "rt (\<lambda>b. if c b then f b else f' b) g v n k"
  using assms unfolding rt_def by simp

text \<open>The references of a message's initial state: its own in place, or one for its cell.\<close>

definition place_refs :: "state_init option \<Rightarrow> nat" where
  "place_refs i = (case i of None \<Rightarrow> 0 | Some x \<Rightarrow> max 1 (init_refs x))"

text \<open>What follows the bit of a present initial state.\<close>

definition load_place :: "(buffer \<Rightarrow> buffer) \<Rightarrow> state_init option sload" where
  "load_place sha s = bindE (Slice_loadBit s) (\<lambda>(inRef, s).
          if \<not> inRef
          then bindE (loadStateInit sha s) (\<lambda>(i, s). Inr (Some i, s))
          else bindE (Slice_loadRef s) (\<lambda>(c, s).
               bindE (Cell_beginParse c False) (\<lambda>t.
               bindE (loadStateInit sha t) (\<lambda>(i, _). Inr (Some i, s)))))"

lemma rt_places:
  assumes "sha_ok sha" "valid_init sha x"
  shows "\<exists>d. storeStateInit sha x new_Builder = Inr d \<and>
    rt (\<lambda>b. bindE (Builder_storeBit (BitBool True) b) (Builder_storeRef sha (ABuilder d))) (load_place sha) (Some x) 13 1 \<and>
    rt (\<lambda>b. bindE (Builder_storeBit (BitBool False) b) (Builder_storeBuilder sha d)) (load_place sha) (Some x) 13 (init_refs x)"
proof -
  have rt_x: "rt (storeStateInit sha x) (loadStateInit sha) x 12 (init_refs x)"
    using rt_stateInit assms by simp
  have refs: "init_refs x \<le> 3" by (auto simp: init_refs_def split: option.split)
  then have k: "init_refs x \<le> 4" by simp
  have n: "12 \<le> (1023::nat)" by simp
  obtain d where d: "storeStateInit sha x new_Builder = Inr d" using rt_cell [OF rt_x assms(1) n k] by auto
  have "rt (\<lambda>b. bindE (Builder_storeBit (BitBool True) b) (Builder_storeRef sha (ABuilder d))) (load_place sha) (Some x) (1 + 0) (0 + 1)"
    unfolding load_place_def [abs_def]
    by (rule rt_bind [OF rt_bit]) (use rt_in_ref [OF rt_x assms(1) n k d, of "Some x" Some] in simp)
  moreover have "rt (\<lambda>b. bindE (Builder_storeBit (BitBool False) b) (Builder_storeBuilder sha d)) (load_place sha) (Some x)
      (1 + 12) (0 + init_refs x)"
    unfolding load_place_def [abs_def]
    by (rule rt_bind [OF rt_bit]) (use rt_map [OF rt_in_place [OF rt_x assms(1) n k d], of "Some x" Some] in simp)
  ultimately show ?thesis using d rt_le [of _ "load_place sha" "Some x" 1 1 13 1] by auto
qed

lemma load_init_place: "load_init sha = (\<lambda>s. bindE (Slice_loadBit s) (\<lambda>(has, s). if has then load_place sha s else Inr (None, s)))"
  unfolding load_init_def [abs_def] load_place_def ..

lemma rt_no_init: "rt (store_init sha needRef None) (load_init sha) None 1 0"
proof -
  have "rt (\<lambda>b. bindE (Builder_storeBit (BitBool False) b) Inr) (load_init sha) None (1 + 0) (0 + 0)"
    unfolding load_init_def [abs_def] by (rule rt_bind [OF rt_bit]) (simp add: rt_return)
  then show ?thesis by (simp add: store_init_def [abs_def])
qed

lemma rt_some_init:
  assumes "storeStateInit sha x new_Builder = Inr d"
    and "rt (\<lambda>b. if needRef b d
      then bindE (Builder_storeBit (BitBool True) b) (Builder_storeRef sha (ABuilder d))
      else bindE (Builder_storeBit (BitBool False) b) (Builder_storeBuilder sha d)) (load_place sha) (Some x) n k"
  shows "rt (store_init sha needRef (Some x)) (load_init sha) (Some x) (1 + n) (0 + k)"
proof -
  have "rt (\<lambda>b. bindE (Builder_storeBit (BitBool True) b) (\<lambda>b. if needRef b d
      then bindE (Builder_storeBit (BitBool True) b) (Builder_storeRef sha (ABuilder d))
      else bindE (Builder_storeBit (BitBool False) b) (Builder_storeBuilder sha d)))
      (load_init sha) (Some x) (1 + n) (0 + k)"
    unfolding load_init_place by (rule rt_bind [OF rt_bit]) (use assms(2) in simp)
  then show ?thesis using assms(1) by (simp add: store_init_def [abs_def] store_apply [abs_def])
qed

lemma rt_init:
  assumes "sha_ok sha" "\<forall>x \<in> set_option i. valid_init sha x"
  shows "rt (store_init sha needRef i) (load_init sha) i 14 (place_refs i)"
proof (cases i)
  case None
  then show ?thesis using rt_le [OF rt_no_init, of 14 "place_refs i"] by simp
next
  case (Some x)
  obtain d where d: "storeStateInit sha x new_Builder = Inr d"
    "rt (\<lambda>b. bindE (Builder_storeBit (BitBool True) b) (Builder_storeRef sha (ABuilder d))) (load_place sha) (Some x) 13 1"
    "rt (\<lambda>b. bindE (Builder_storeBit (BitBool False) b) (Builder_storeBuilder sha d)) (load_place sha) (Some x) 13 (init_refs x)"
    using rt_places [OF assms(1), of x] assms(2) Some by auto
  have "rt (\<lambda>b. if needRef b d
      then bindE (Builder_storeBit (BitBool True) b) (Builder_storeRef sha (ABuilder d))
      else bindE (Builder_storeBit (BitBool False) b) (Builder_storeBuilder sha d)) (load_place sha) (Some x) 13 (max 1 (init_refs x))"
    by (rule rt_choice [OF rt_le [OF d(2)] rt_le [OF d(3)]]) simp_all
  from rt_some_init [where needRef = needRef, OF d(1) this] show ?thesis using Some by (simp add: place_refs_def)
qed

text \<open>With the option to use references, one is enough.\<close>

lemma rt_init_forced:
  assumes "sha_ok sha" "\<forall>x \<in> set_option i. valid_init sha x"
  shows "rt (store_init sha (\<lambda>_ _. True) i) (load_init sha) i 14 (option_refs i)"
proof (cases i)
  case None
  then show ?thesis using rt_le [OF rt_no_init, of 14 0] by simp
next
  case (Some x)
  obtain d where d: "storeStateInit sha x new_Builder = Inr d"
    "rt (\<lambda>b. bindE (Builder_storeBit (BitBool True) b) (Builder_storeRef sha (ABuilder d))) (load_place sha) (Some x) 13 1"
    using rt_places [OF assms(1), of x] assms(2) Some by auto
  then show ?thesis using rt_some_init [OF d(1), of "\<lambda>_ _. True" 13 1] Some by simp
qed

section \<open>The body and the message\<close>

text \<open>
  A body in place is read back as a new cell of the same bits and references; it is the same tree
  with the same hashes when the body was made by the code's own constructor.
\<close>

definition made :: "(buffer \<Rightarrow> buffer) \<Rightarrow> cell \<Rightarrow> bool" where
  "made sha c \<longleftrightarrow> cell_ok c \<and> (\<forall>r \<in> set (cell_refs c). cell_ok r) \<and> wf_bs (cell_bits c) \<and>
     new_Cell sha (cell_type c \<noteq> Ordinary) (cell_bits c) (cell_refs c) = Inr c"

lemma madeD: "made sha c \<Longrightarrow> cell_ok c"
  "made sha c \<Longrightarrow> new_Cell sha (cell_type c \<noteq> Ordinary) (cell_bits c) (cell_refs c) = Inr c \<and>
    (\<forall>r \<in> set (cell_refs c). cell_ok r) \<and> wf_bs (cell_bits c)"
  by (simp_all add: made_def)

lemma built_made: "sha_ok sha \<Longrightarrow> built sha c \<Longrightarrow> made sha c"
  using built_cell_args [of sha c] built_ok [of sha c] by (simp add: made_def)

lemma endCell_made:
  assumes "sha_ok sha" "wf_bb (bl_bits b)" "\<forall>r \<in> set (bl_refs b). cell_ok r" "Builder_endCell sha False b = Inr c"
  shows "made sha c"
proof -
  obtain s where s: "BitBuilder_build (bl_bits b) = Inr s" "wf_bs s" "new_Cell sha False s (bl_refs b) = Inr c"
    using assms(4) build_ok [OF assms(2)] by (auto simp: Builder_endCell_def)
  have "cell_type c = Ordinary" using s(3) by (auto simp: new_Cell_def dest: resolveExotic_type split: if_splits)
  with new_Cell_ok [OF assms(1,3) s(2,3)] s(2,3) assms(3) show ?thesis by (auto simp: made_def)
qed

lemma endCell_same:
  assumes "sha_ok sha" "made sha body" "cell_type body = Ordinary"
    and "wf_bb (bl_bits d)" "bb_bits (bl_bits d) = bs_bits (cell_bits body)" "bl_refs d = cell_refs body"
  shows "\<exists>c. Builder_endCell sha False d = Inr c \<and> xtree c = xtree body \<and> cell_ok c"
proof -
  have body: "cell_ok body" using assms(2) by (rule madeD)
  note args = madeD [OF assms(2)]
  have "bb_length (bl_bits d) \<le> 1023" using length_bb_bits [OF assms(4)] assms(5) body by (simp add: cell_ok_def)
  with build_ok [OF assms(4)] obtain b where b: "BitBuilder_build (bl_bits d) = Inr b"
    "bs_bits b = bs_bits (cell_bits body)" "wf_bs b" using assms(5) by auto
  have "new_Cell sha False (cell_bits body) (cell_refs body) = Inr body" using args assms(3) by simp
  from new_Cell_cong [OF assms(1) _ b(3) b(2) [symmetric] refl _ _ this] args b(1) assms(6) show ?thesis
    by (auto simp: Builder_endCell_def)
qed

lemma asCell_same:
  assumes "sha_ok sha" "made sha body" "cell_type body = Ordinary"
    and "sl_ok s" "sl_bits s = bs_bits (cell_bits body)" "sl_cells s = cell_refs body"
  shows "\<exists>c. Slice_asCell sha s = Inr c \<and> xtree c = xtree body \<and> cell_ok c"
proof -
  have body: "cell_ok body" using assms(2) by (rule madeD)
  have small: "length (sl_bits s) \<le> 1023" "length (sl_cells s) \<le> 4"
    using body assms(3,5,6) by (auto simp: cell_ok_def)
  from storeSlice_ok [OF assms(4) new_Builder_fits [OF small]] obtain d where
    d: "Builder_storeSlice sha s new_Builder = Inr d" "bb_bits (bl_bits d) = bs_bits (cell_bits body)"
    "bl_refs d = cell_refs body" "wf_bb (bl_bits d)"
    using assms(5,6) wf_new_BitBuilder(2) [of 1023] by (auto simp: stores_def appends_def new_Builder_def)
  from endCell_same [OF assms(1-3) d(4,2,3)] d(1) show ?thesis by (simp add: Slice_asCell_def)
qed

text \<open>The body in place: the bits and references of the cell, appended.\<close>

lemma inline_body:
  assumes "sha_ok sha" "made sha body" "cell_type body = Ordinary"
    and "bl_fits b (length (bs_bits (cell_bits body))) (length (cell_refs body))"
  shows "stores (bindE (Cell_asBuilder sha body) (\<lambda>d. Builder_storeBuilder sha d b)) b
    (bs_bits (cell_bits body)) (cell_refs body)"
proof -
  have body: "cell_ok body" using assms(2) by (rule madeD)
  obtain s where s: "Cell_beginParse body False = Inr s" "sl_ok s" "sl_bits s = bs_bits (cell_bits body)"
    "sl_cells s = cell_refs body" using beginParse_ok [OF body, of False] assms(3) by auto
  obtain c where c: "Slice_asCell sha s = Inr c" "xtree c = xtree body" "cell_ok c"
    using asCell_same [OF assms(1-3) s(2-4)] by blast
  then obtain d where d: "Builder_storeSlice sha s new_Builder = Inr d" "Builder_endCell sha False d = Inr c"
    by (auto simp: Slice_asCell_def bindE_eq_Inr)
  have refs: "cell_refs c = cell_refs body"
    using asCell_refs [OF c(1)] s(4) by (simp add: sl_cells_def)
  obtain t where t: "Cell_beginParse c False = Inr t" "sl_ok t" "sl_bits t = bs_bits (cell_bits body)"
    "sl_cells t = cell_refs body" using beginParse_ok [OF c(3), of False] assms(3) xtree_eqD [OF c(2)] refs by auto
  from storeSlice_ok [OF t(2), of b sha] assms(4) t(1,3,4) s(1) d show ?thesis
    by (simp add: Cell_asBuilder_def Cell_asSlice_def Builder_storeBuilder_def)
qed

lemma rt_body:
  assumes "sha_ok sha" "made sha body"
    and "\<And>b. \<not> nr b \<Longrightarrow> Builder_availableBits b - 1 \<ge> int (bs_length (cell_bits body)) \<and>
      Builder_refs b + int (length (cell_refs body)) \<le> 4 \<and> cell_type body = Ordinary"
  shows "rt_end (\<lambda>b. store_body sha (nr b) body b) (load_body sha) (\<lambda>c. xtree c = xtree body) 1 1"
  unfolding rt_end_def
proof (intro allI impI)
  fix b assume "end_fits b 1 1"
  then have b: "bl_fits b 1 1" and cap: "1023 \<le> bb_cap (bl_bits b)" by (simp_all add: end_fits_def)
  then have b1: "bl_fits b 1 0" using bl_fits_mono by blast
  have body: "cell_ok body" using assms(2) by (rule madeD)
  show "\<exists>xs rs. ends_ok b 1 xs rs \<and> stores (store_body sha (nr b) body b) b xs rs \<and>
     (\<forall>s. sl_ok s \<and> sl_bits s = xs \<and> sl_cells s = rs \<longrightarrow>
       (\<exists>v s'. load_body sha s = Inr (v, s') \<and> xtree v = xtree body))"
  proof (cases "nr b")
    case True
    have "rt (\<lambda>b. bindE (Builder_storeBit (BitBool True) b) (Builder_storeRef sha (ACell body))) (load_body sha) body (1 + 0) (0 + 1)"
      unfolding load_body_def [abs_def] by (rule rt_bind [OF rt_bit]) (use rt_ref [OF body] in simp)
    then have "rt (store_body sha True body) (load_body sha) body 1 1" by (simp add: store_body_def [abs_def])
    from rtE [OF this b] obtain xs rs where x: "length xs \<le> 1" "length rs \<le> 1" "\<forall>r \<in> set rs. cell_ok r"
      "stores (store_body sha True body b) b xs rs" "loads (load_body sha) xs rs body" .
    have "load_body sha s = Inr (body, sl_move (length xs) (length rs) s)"
      if s: "sl_ok s" "sl_bits s = xs" "sl_cells s = rs" for s
      using x(5) s by (simp add: loads_def)
    with x True bl_fits_ends [OF b x(1-3)] show ?thesis by (intro exI [of _ xs] exI [of _ rs]) auto
  next
    case False
    note fit = assms(3) [OF False]
    obtain b' where b': "Builder_storeBit (BitBool False) b = Inr b'" "appends (bl_bits b) (bl_bits b') [False]"
      "bl_refs b' = bl_refs b"
      using s_bit.store_ok [where v = False and b = b] b1 by (auto simp: stores_def)
    have len: "bb_length (bl_bits b') = bb_length (bl_bits b) + 1"
      using appends_bb_length [OF _ b'(2)] b by (simp add: bl_fits_def fits_def)
    have "bl_fits b' (length (bs_bits (cell_bits body))) (length (cell_refs body))"
      using fit len b' cap by (auto simp: bl_fits_def fits_def appends_def Builder_availableBits_def Builder_bits_def Builder_refs_def)
    from inline_body [OF assms(1,2) _ this] fit
    have "stores (store_body sha False body b) b ([False] @ bs_bits (cell_bits body)) ([] @ cell_refs body)"
      using stores_seq [where f = "Builder_storeBit (BitBool False)" and rs = "[]" and
          g = "\<lambda>b. bindE (Cell_asBuilder sha body) (\<lambda>d. Builder_storeBuilder sha d b)", OF b'(1,2)] b'(3)
      by (simp add: store_body_def)
    moreover have "ends_ok b 1 ([False] @ bs_bits (cell_bits body)) ([] @ cell_refs body)"
      using fit madeD [OF assms(2)]
      by (auto simp: ends_ok_def Builder_availableBits_def Builder_bits_def Builder_refs_def)
    moreover have "\<exists>v s'. load_body sha s = Inr (v, s') \<and> xtree v = xtree body"
      if s: "sl_ok s" "sl_bits s = [False] @ bs_bits (cell_bits body)" "sl_cells s = [] @ cell_refs body" for s
    proof -
      have "Slice_loadBit s = Inr (False, sl_move 1 0 s)"
        using s_bit.load_ok [where v = False and s = s] s by (simp add: sreads_def)
      then show ?thesis
        using asCell_same [OF assms(1,2) _ sl_rest_split [OF s, simplified]] fit by (auto simp: load_body_def)
    qed
    ultimately show ?thesis using False by (intro exI [of _ "[False] @ bs_bits (cell_bits body)"] exI [of _ "[] @ cell_refs body"]) simp
  qed
qed

lemma rt_end_map:
  assumes "rt_end f g P n k" "\<And>v. P v \<Longrightarrow> Q (h v)"
  shows "rt_end f (\<lambda>s. bindE (g s) (\<lambda>(v, s). Inr (h v, s))) Q n k"
  unfolding rt_end_def
proof (intro allI impI)
  fix b assume "end_fits b n k"
  with assms(1) obtain xs rs where x: "ends_ok b n xs rs" "stores (f b) b xs rs"
    "\<forall>s. sl_ok s \<and> sl_bits s = xs \<and> sl_cells s = rs \<longrightarrow> (\<exists>v s'. g s = Inr (v, s') \<and> P v)"
    unfolding rt_end_def by blast
  have "\<exists>w s'. bindE (g s) (\<lambda>(v, s). Inr (h v, s)) = Inr (w, s') \<and> Q w"
    if s: "sl_ok s" "sl_bits s = xs" "sl_cells s = rs" for s
    using x(3) s assms(2) by fastforce
  with x show "\<exists>xs rs. ends_ok b n xs rs \<and> stores (f b) b xs rs \<and> (\<forall>s. sl_ok s \<and> sl_bits s = xs \<and> sl_cells s = rs \<longrightarrow>
      (\<exists>w s'. bindE (g s) (\<lambda>(v, s). Inr (h v, s)) = Inr (w, s') \<and> Q w))" by blast
qed

text \<open>What loading gives back of a message: all of it, the body as the same tree with the same hashes.\<close>

definition same_message :: "message \<Rightarrow> message \<Rightarrow> bool" where
  "same_message m m' \<longleftrightarrow> msg_info m' = msg_info m \<and> msg_init m' = msg_init m \<and>
     xtree (msg_body m') = xtree (msg_body m)"

definition valid_message :: "(buffer \<Rightarrow> buffer) \<Rightarrow> message \<Rightarrow> bool" where
  "valid_message sha m \<longleftrightarrow> valid_info sha (msg_info m) \<and> (\<forall>i \<in> set_option (msg_init m). valid_init sha i) \<and>
     made sha (msg_body m) \<and> info_refs (msg_info m) + place_refs (msg_init m) \<le> 3"

lemma rt_message:
  assumes "sha_ok sha" "valid_message sha m" "cell_type (msg_body m) = Ordinary \<or> force"
  shows "rt_end (storeMessage sha m force) (loadMessage sha) (same_message m) 1023
    (info_refs (msg_info m) + place_refs (msg_init m) + 1)"
proof -
  note v = assms(2) [unfolded valid_message_def]
  have body: "rt_end (\<lambda>b. store_body sha
       (force \<or> Builder_availableBits b - 1 < int (bs_length (cell_bits (msg_body m))) \<or>
          Builder_refs b + int (length (cell_refs (msg_body m))) > 4) (msg_body m) b)
     (load_body sha) (\<lambda>c. xtree c = xtree (msg_body m)) 1 1"
    by (rule rt_body [OF assms(1)]) (use v assms(3) in auto)
  have "rt_end (storeMessage sha m force) (loadMessage sha) (same_message m) (1008 + (14 + 1))
      (info_refs (msg_info m) + (place_refs (msg_init m) + 1))"
    unfolding storeMessage_def [abs_def] loadMessage_def [abs_def] store_apply
    by (rule rt_end_bind [OF rt_info], use assms v in simp, use v in simp,
        rule rt_end_bind [OF rt_init], use assms in simp, use v in simp,
        rule rt_end_map [OF body]) (simp add: same_message_def)
  then show ?thesis by simp
qed

section \<open>The relaxed form\<close>

fun valid_info_relaxed :: "(buffer \<Rightarrow> buffer) \<Rightarrow> common_message_info_relaxed \<Rightarrow> bool" where
  "valid_info_relaxed sha (RInternal i) \<longleftrightarrow> (\<forall>a \<in> set_option (ri_src i). valid_std a) \<and> valid_std (ri_dest i) \<and>
     valid_currency sha (ri_value i) \<and> valid_coins (ri_ihrFee i) \<and> valid_coins (ri_forwardFee i) \<and>
     0 \<le> ri_createdLt i \<and> ri_createdLt i < 2 ^ 64 \<and> 0 \<le> ri_createdAt i \<and> ri_createdAt i < 2 ^ 32"
| "valid_info_relaxed sha (RExternalOut e) \<longleftrightarrow> (\<forall>a \<in> set_option (ro_src e). valid_std a) \<and>
     (\<forall>d \<in> set_option (ro_dest e). valid_ext d) \<and>
     0 \<le> ro_createdLt e \<and> ro_createdLt e < 2 ^ 64 \<and> 0 \<le> ro_createdAt e \<and> ro_createdAt e < 2 ^ 32"

fun info_refs_relaxed :: "common_message_info_relaxed \<Rightarrow> nat" where
  "info_refs_relaxed (RInternal i) = option_refs (cc_other (ri_value i))"
| "info_refs_relaxed (RExternalOut _) = 0"

lemma rt_info_relaxed:
  assumes "sha_ok sha" "valid_info_relaxed sha info"
  shows "rt (storeCommonMessageInfoRelaxed sha info) (loadCommonMessageInfoRelaxed sha) info 1008 (info_refs_relaxed info)"
proof (cases info)
  case (RInternal i)
  note v = assms(2) [unfolded RInternal valid_info_relaxed.simps]
  show ?thesis
    unfolding RInternal info_refs_relaxed.simps storeCommonMessageInfoRelaxed_def loadCommonMessageInfoRelaxed_def [abs_def]
      common_message_info_relaxed.case store_apply
    by (rule rt_le, rule rt_bind [OF rt_bit_num(1)], simp only: not_False_eq_True if_True,
        (rule rt_bind rt_map rt_intros assms | use v in simp)+)
next
  case (RExternalOut e)
  note v = assms(2) [unfolded RExternalOut valid_info_relaxed.simps]
  show ?thesis
    unfolding RExternalOut info_refs_relaxed.simps storeCommonMessageInfoRelaxed_def loadCommonMessageInfoRelaxed_def [abs_def]
      common_message_info_relaxed.case store_apply
    by (rule rt_le, rule rt_bind [OF rt_bit_num(2)], simp only: not_True_eq_False if_False,
        rule rt_bind [OF rt_bit_num(2)], simp only: not_True_eq_False if_False,
        (rule rt_bind rt_map rt_intros assms | use v in simp)+)
qed

definition same_message_relaxed :: "message_relaxed \<Rightarrow> message_relaxed \<Rightarrow> bool" where
  "same_message_relaxed m m' \<longleftrightarrow> mr_info m' = mr_info m \<and> mr_init m' = mr_init m \<and>
     xtree (mr_body m') = xtree (mr_body m)"

definition valid_message_relaxed :: "(buffer \<Rightarrow> buffer) \<Rightarrow> message_relaxed \<Rightarrow> bool" where
  "valid_message_relaxed sha m \<longleftrightarrow> valid_info_relaxed sha (mr_info m) \<and>
     (\<forall>i \<in> set_option (mr_init m). valid_init sha i) \<and>
     made sha (mr_body m) \<and> info_refs_relaxed (mr_info m) + place_refs (mr_init m) \<le> 3"

text \<open>An exotic body goes to a reference here, so no condition on its type is left.\<close>

lemma rt_message_relaxed:
  assumes "sha_ok sha" "valid_message_relaxed sha m"
  shows "rt_end (storeMessageRelaxed sha m force) (loadMessageRelaxed sha) (same_message_relaxed m) 1023
    (info_refs_relaxed (mr_info m) + place_refs (mr_init m) + 1)"
proof -
  note v = assms(2) [unfolded valid_message_relaxed_def]
  have body: "rt_end (\<lambda>b. store_body sha
       (force \<or>
        \<not> (Builder_availableBits b - 1 \<ge> int (bs_length (cell_bits (mr_body m))) \<and>
           Builder_refs b + int (length (cell_refs (mr_body m))) \<le> 4 \<and>
           \<not> Cell_isExotic (mr_body m))) (mr_body m) b)
     (load_body sha) (\<lambda>c. xtree c = xtree (mr_body m)) 1 1"
    by (rule rt_body [OF assms(1)]) (use v in \<open>auto simp: Cell_isExotic_def\<close>)
  have "rt_end (storeMessageRelaxed sha m force) (loadMessageRelaxed sha) (same_message_relaxed m) (1008 + (14 + 1))
      (info_refs_relaxed (mr_info m) + (place_refs (mr_init m) + 1))"
    unfolding storeMessageRelaxed_def [abs_def] loadMessageRelaxed_def [abs_def] store_apply
    by (rule rt_end_bind [OF rt_info_relaxed], use assms v in simp, use v in simp,
        rule rt_end_bind [OF rt_init], use assms in simp, use v in simp,
        rule rt_end_map [OF body]) (simp add: same_message_relaxed_def)
  then show ?thesis by simp
qed

end
