(* ===== verification/Message_Refs.thy ===== *)
theory Message_Refs
  imports Message_Roundtrip
begin

text \<open>
  How many references a store adds, and a message that \<open>storeMessage\<close> cannot place: the decision to
  put the initial state in place looks at the bits only, so its references may leave none for the
  body.
\<close>

named_theorems adds_intros \<open>references added by the single stores\<close>

definition adds :: "(builder \<Rightarrow> builder res) \<Rightarrow> nat \<Rightarrow> bool" where
  "adds f k \<longleftrightarrow> (\<forall>b b'. f b = Inr b' \<longrightarrow> length (bl_refs b') = length (bl_refs b) + k)"

lemma addsD: "adds f k \<Longrightarrow> f b = Inr b' \<Longrightarrow> length (bl_refs b') = length (bl_refs b) + k"
  by (simp add: adds_def)

lemma adds_bind: "adds f k \<Longrightarrow> adds g j \<Longrightarrow> adds (\<lambda>b. bindE (f b) g) (k + j)"
  by (fastforce simp: adds_def bindE_eq_Inr)

lemma adds_lift: "adds (lift_write w) 0"
  by (auto simp: adds_def lift_write_def bindE_eq_Inr)

lemma adds_writes [adds_intros]:
  "adds (Builder_storeBit v) 0" "adds (Builder_storeUint x n) 0" "adds (Builder_storeCoins x) 0"
  "adds (Builder_storeAddress a) 0"
  by (simp_all add: Builder_storeBit_def Builder_storeUint_def Builder_storeCoins_def Builder_storeAddress_def adds_lift)

lemma adds_ref [adds_intros]: "adds (Builder_storeRef sha x) 1"
  by (auto simp: adds_def Builder_storeRef.simps bindE_eq_Inr split: if_splits cell_or_builder.splits)

lemma adds_maybe: "(\<And>x. v = Some x \<Longrightarrow> adds (f x) k) \<Longrightarrow> (v = None \<Longrightarrow> k = 0) \<Longrightarrow> adds (store_maybe f v) k"
  using adds_bind [OF adds_writes(1), of "f (the v)" k "BitNum 1"] adds_writes(1) [of "BitNum 0"]
  by (cases v) (auto simp: store_maybe_def [abs_def])

lemma adds_maybe_ref [adds_intros]: "adds (Builder_storeMaybeRef sha (map_option ACell v)) (option_refs v)"
  unfolding Builder_storeMaybeRef_def by (cases v) (auto intro!: adds_maybe simp: adds_ref [simplified])

lemma adds_dict:
  assumes "Dictionary_size d \<noteq> 0"
  shows "adds (Builder_storeDict sha (Some d) None None) 1"
  unfolding adds_def
proof (intro allI impI)
  fix b b'
  assume "Builder_storeDict sha (Some d) None None b = Inr b'"
  then obtain b1 c where "Builder_storeBit (BitNum 1) b = Inr b1" "Builder_storeRef sha (ACell c) b1 = Inr b'"
    using assms by (auto simp: Builder_storeDict_def Dictionary_store_def bindE_eq_Inr)
  then show "length (bl_refs b') = length (bl_refs b) + 1"
    using addsD [OF adds_writes(1)] addsD [OF adds_ref] by simp
qed

lemma adds_currency:
  assumes "sha_ok sha" "valid_currency sha c"
  shows "adds (storeCurrencyCollection sha c) (option_refs (cc_other c))"
proof (cases "cc_other c")
  case None
  then show ?thesis
    using adds_bind [OF adds_writes(3) adds_writes(1), of "Big (cc_coins c)" "BitNum 0"]
    by (simp add: storeCurrencyCollection_def [abs_def])
next
  case (Some d)
  with assms have "Dictionary_size d \<noteq> 0" using rt_extra(2) [OF assms(1)] by (auto simp: valid_currency_def)
  from adds_bind [OF adds_writes(3) adds_dict [OF this], of "Big (cc_coins c)"] Some show ?thesis
    by (simp add: storeCurrencyCollection_def [abs_def])
qed

lemma adds_internal:
  assumes "sha_ok sha" "valid_internal sha i"
  shows "adds (storeCommonMessageInfo sha (CInternal i)) (option_refs (cc_other (ii_value i)))"
proof -
  have c: "adds (storeCurrencyCollection sha (ii_value i)) (option_refs (cc_other (ii_value i)))"
    using adds_currency assms by (simp add: valid_internal_def)
  have "adds (storeCommonMessageInfo sha (CInternal i))
      (0 + (0 + (0 + (0 + (0 + (0 + (option_refs (cc_other (ii_value i)) + (0 + (0 + (0 + 0))))))))))"
    unfolding storeCommonMessageInfo_def common_message_info.case store_apply
    by (intro adds_bind adds_writes c)
  then show ?thesis by simp
qed

lemma adds_stateInit:
  assumes "sha_ok sha" "valid_init sha x"
  shows "adds (storeStateInit sha x) (init_refs x)"
proof -
  have l: "adds (Builder_storeDict sha (si_libraries x) None None) (option_refs (si_libraries x))"
  proof (cases "si_libraries x")
    case None
    then show ?thesis using adds_writes(1) by (simp add: Builder_storeDict_def [abs_def])
  next
    case (Some d)
    with assms have "Dictionary_size d \<noteq> 0" using rt_libraries(2) [OF assms(1)] by (auto simp: valid_init_def)
    with Some show ?thesis using adds_dict by simp
  qed
  have d: "adds (\<lambda>b. case si_splitDepth x of
              Some d \<Rightarrow> bindE (Builder_storeBit (BitBool True) b) (Builder_storeUint (Num d) 5)
            | None \<Rightarrow> Builder_storeBit (BitBool False) b) 0"
    using adds_bind [OF adds_writes(1,2)] adds_writes(1) by (cases "si_splitDepth x") auto
  have t: "adds (\<lambda>b. case si_special x of
              Some t \<Rightarrow> bindE (Builder_storeBit (BitBool True) b) (Builder_store (storeTickTock t))
            | None \<Rightarrow> Builder_storeBit (BitBool False) b) 0"
    using adds_bind [OF adds_writes(1) adds_bind [OF adds_writes(1,1)]] adds_writes(1)
    by (cases "si_special x") (auto simp: store_apply [abs_def] storeTickTock_def [abs_def])
  have "adds (storeStateInit sha x) (0 + (0 + (option_refs (si_code x) + (option_refs (si_data x) + option_refs (si_libraries x)))))"
    unfolding storeStateInit_def [abs_def] by (intro adds_bind adds_maybe_ref d t l)
  then show ?thesis by (simp add: init_refs_def add.assoc)
qed

section \<open>Information of a usual size\<close>

text \<open>Amounts below \<open>2\<^sup>6\<^sup>4\<close> nano take at most eight bytes, which leaves room behind the information.\<close>

definition small_amounts :: "info_internal \<Rightarrow> bool" where
  "small_amounts i \<longleftrightarrow> cc_coins (ii_value i) < 2 ^ 64 \<and> ii_ihrFee i < 2 ^ 64 \<and> ii_forwardFee i < 2 ^ 64"

lemma rt_coins_small:
  assumes "valid_coins v" "v < 2 ^ 64"
  shows "rt (Builder_storeCoins (Big v)) Slice_loadCoins v 68 0"
proof (rule s_coins.rt_codec)
  have "\<bar>v\<bar> < 2 ^ (8 * 8)" using assms by (simp add: valid_coins_def)
  then have "size_bytes v \<le> 8" by (rule size_bytes_le)
  then show "length (enc_var_uint 4 v) \<le> 68" by (simp add: enc_var_uint_def)
qed (use assms in auto)

lemma rt_currency_small:
  assumes "sha_ok sha" "valid_currency sha c" "cc_coins c < 2 ^ 64"
  shows "rt (storeCurrencyCollection sha c) (loadCurrencyCollection sha) c 69 (option_refs (cc_other c))"
  using rt_currency_with [of sha c 68] rt_coins_small assms by (simp add: valid_currency_def)

lemma rt_internal_small:
  assumes "sha_ok sha" "valid_internal sha i" "small_amounts i"
  shows "rt (storeCommonMessageInfo sha (CInternal i)) (loadCommonMessageInfo sha) (CInternal i) 840
    (option_refs (cc_other (ii_value i)))"
proof -
  note v = assms(2) [unfolded valid_internal_def] assms(3) [unfolded small_amounts_def]
  show ?thesis
    unfolding storeCommonMessageInfo_def loadCommonMessageInfo_def [abs_def] common_message_info.case store_apply
    by (rule rt_le, rule rt_bind [OF rt_bit_num(1)], simp only: not_False_eq_True if_True,
        (rule rt_bind rt_map rt_bit rt_coins_small rt_currency_small rt_uint rt_num rt_address assms | use v in simp)+)
qed

section \<open>No reference left for the body\<close>

lemma endCell_refs: "Builder_endCell sha ex d = Inr c \<Longrightarrow> cell_refs c = bl_refs d"
  by (auto simp: Builder_endCell_def bindE_eq_Inr dest: new_Cell_refs)

lemma storeBuilder_adds: "Builder_storeBuilder sha d b = Inr b' \<Longrightarrow> bl_refs b' = bl_refs b @ bl_refs d"
  by (auto simp: Builder_storeBuilder_def bindE_eq_Inr Cell_beginParse_def new_Slice_def
      dest!: storeSlice_refs endCell_refs split: if_splits)

lemma new_Builder_empty [simp]: "bl_refs new_Builder = []" "bb_length (bl_bits new_Builder) = 0"
  by (simp_all add: new_Builder_def new_BitBuilder_def)

lemma rt_grows:
  assumes "rt f g v n k" "bl_fits b n k"
  shows "\<exists>b'. f b = Inr b' \<and> wf_bb (bl_bits b') \<and> bb_cap (bl_bits b') = bb_cap (bl_bits b) \<and>
    bb_length (bl_bits b') \<le> bb_length (bl_bits b) + n"
proof -
  obtain xs rs where x: "length xs \<le> n" "stores (f b) b xs rs" using rtE [OF assms] by blast
  then obtain b' where b': "f b = Inr b'" "appends (bl_bits b) (bl_bits b') xs" by (auto simp: stores_def)
  have "wf_bb (bl_bits b)" using assms(2) by (simp add: bl_fits_def fits_def)
  from appends_bb_length [OF this b'(2)] b' x(1) show ?thesis by (auto simp: appends_def)
qed

lemma adds_init_place:
  assumes "sha_ok sha" "valid_init sha x"
  shows "adds (store_init sha (\<lambda>_ _. False) (Some x)) (init_refs x)"
  unfolding adds_def
proof (intro allI impI)
  fix b b' assume "store_init sha (\<lambda>_ _. False) (Some x) b = Inr b'"
  then obtain b1 b2 d where "Builder_storeBit (BitBool True) b = Inr b1" "storeStateInit sha x new_Builder = Inr d"
    "Builder_storeBit (BitBool False) b1 = Inr b2" "Builder_storeBuilder sha d b2 = Inr b'"
    by (auto simp: store_init_def bindE_eq_Inr store_apply)
  then show "length (bl_refs b') = length (bl_refs b) + init_refs x"
    using addsD [OF adds_writes(1)] addsD [OF adds_stateInit [OF assms]] by (simp add: storeBuilder_adds)
qed

text \<open>With enough bits left the initial state goes in place, whatever its references.\<close>

lemma init_in_place:
  assumes "sha_ok sha" "valid_init sha x" "bl_fits b 14 (max 1 (init_refs x))"
    and "\<And>b' d. bb_length (bl_bits b') = bb_length (bl_bits b) + 1 \<Longrightarrow> bb_length (bl_bits d) \<le> 12 \<Longrightarrow> \<not> needRef b' d"
  shows "\<exists>b'. store_init sha needRef (Some x) b = Inr b' \<and>
    length (bl_refs b') = length (bl_refs b) + init_refs x \<and> bb_length (bl_bits b') \<le> bb_length (bl_bits b) + 14 \<and>
    wf_bb (bl_bits b') \<and> bb_cap (bl_bits b') = bb_cap (bl_bits b)"
proof -
  have "rt (store_init sha (\<lambda>_ _. False) (Some x)) (load_init sha) (Some x) 14 (max 1 (init_refs x))"
    using rt_init [OF assms(1), of "Some x"] assms(2) by (simp add: place_refs_def)
  from rt_grows [OF this assms(3)] obtain b' where
    b': "store_init sha (\<lambda>_ _. False) (Some x) b = Inr b'" "wf_bb (bl_bits b')" "bb_cap (bl_bits b') = bb_cap (bl_bits b)"
    "bb_length (bl_bits b') \<le> bb_length (bl_bits b) + 14" by blast
  have "bl_fits b 1 0" by (rule bl_fits_mono [OF assms(3)]) auto
  then obtain b1 where b1: "Builder_storeBit (BitBool True) b = Inr b1" "bb_length (bl_bits b1) = bb_length (bl_bits b) + 1"
    using s_bit.store_ok [where v = True and b = b] appends_bb_length [of "bl_bits b"]
    by (fastforce simp: stores_def bl_fits_def fits_def)
  have refs: "init_refs x \<le> 4" by (auto simp: init_refs_def split: option.split)
  obtain d where d: "storeStateInit sha x new_Builder = Inr d" "bb_length (bl_bits d) \<le> 12"
    using rt_grows [OF rt_stateInit [OF assms(1,2)] new_Builder_fits [OF _ refs]] by auto
  have "store_init sha needRef (Some x) b = store_init sha (\<lambda>_ _. False) (Some x) b"
    using b1 d assms(4) [OF b1(2) d(2)] by (simp add: store_init_def store_apply)
  then show ?thesis using b' addsD [OF adds_init_place [OF assms(1,2)] b'(1)] by simp
qed

lemma body_overflow:
  assumes "length (bl_refs b) = 4" "nr" "bl_fits b 1 0"
  shows "store_body sha nr body b = Inl TooManyReferences"
proof -
  obtain b1 where "Builder_storeBit (BitBool True) b = Inr b1" "bl_refs b1 = bl_refs b"
    using s_bit.store_ok [where v = True and b = b] assms(3) by (auto simp: stores_def)
  then show ?thesis using assms(1,2) by (simp add: store_body_def Builder_storeRef.simps)
qed

lemma message_overflow:
  assumes "sha_ok sha" "msg_info m = CInternal i" "valid_internal sha i" "small_amounts i" "cc_other (ii_value i) \<noteq> None"
    and "msg_init m = Some x" "valid_init sha x" "init_refs x = 3"
    and "cell_refs (msg_body m) \<noteq> []" "bs_length (cell_bits (msg_body m)) \<le> 168"
  shows "storeMessage sha m False new_Builder = Inl TooManyReferences"
proof -
  have one: "option_refs (cc_other (ii_value i)) = 1" using assms(5) by auto
  have "bl_fits new_Builder 840 1" by (rule new_Builder_fits) simp_all
  from rt_grows [OF rt_internal_small [OF assms(1,3,4), unfolded one] this] obtain b1 where
    b1: "storeCommonMessageInfo sha (CInternal i) new_Builder = Inr b1" "bb_length (bl_bits b1) \<le> 840"
    "wf_bb (bl_bits b1)" "1023 \<le> bb_cap (bl_bits b1)" using new_Builder_cap by auto
  have r1: "length (bl_refs b1) = 1" using addsD [OF adds_internal [OF assms(1,3)] b1(1)] one by simp
  have "bl_fits b1 14 (max 1 (init_refs x))" using b1 r1 assms(8) by (simp add: bl_fits_def fits_def)
  let ?nr = "\<lambda>b initCell. False \<or> Builder_availableBits b - 2 < Builder_bits initCell +
        int (bs_length (cell_bits (msg_body m)))"
  obtain b2 where b2: "store_init sha ?nr (Some x) b1 = Inr b2"
    "length (bl_refs b2) = 4" "bb_length (bl_bits b2) \<le> bb_length (bl_bits b1) + 14" "wf_bb (bl_bits b2)"
    "1023 \<le> bb_cap (bl_bits b2)"
  proof -
    have "\<exists>b'. store_init sha ?nr (Some x) b1 = Inr b' \<and>
      length (bl_refs b') = length (bl_refs b1) + init_refs x \<and> bb_length (bl_bits b') \<le> bb_length (bl_bits b1) + 14 \<and>
      wf_bb (bl_bits b') \<and> bb_cap (bl_bits b') = bb_cap (bl_bits b1)"
      by (rule init_in_place [OF assms(1,7) \<open>bl_fits b1 14 _\<close>])
        (use b1(2) assms(10) in \<open>simp add: Builder_availableBits_def Builder_bits_def\<close>)
    then show ?thesis using b1(4) r1 assms(8) that by auto
  qed
  have "bl_fits b2 1 0" using b1(2) b2(2-5) by (simp add: bl_fits_def fits_def)
  have "Builder_refs b2 + int (length (cell_refs (msg_body m))) > 4"
    using b2(2) assms(9) by (simp add: Builder_refs_def)
  then have nr: "False \<or> Builder_availableBits b2 - 1 < int (bs_length (cell_bits (msg_body m))) \<or>
      Builder_refs b2 + int (length (cell_refs (msg_body m))) > 4" by blast
  have "storeMessage sha m False new_Builder = store_body sha (False \<or> Builder_availableBits b2 - 1 < int (bs_length (cell_bits (msg_body m))) \<or>
      Builder_refs b2 + int (length (cell_refs (msg_body m))) > 4) (msg_body m) b2"
    by (simp only: storeMessage_def store_apply assms(2,6) b1(1) b2(1) bindE_simps)
  then show ?thesis using body_overflow [OF b2(2) nr \<open>bl_fits b2 1 0\<close>] by simp
qed

lemma message_forced:
  assumes "sha_ok sha" "valid_info sha (msg_info m)" "\<forall>x \<in> set_option (msg_init m). valid_init sha x" "cell_ok (msg_body m)"
  shows "\<exists>b. storeMessage sha m True new_Builder = Inr b"
proof -
  have body: "rt (\<lambda>b. bindE (Builder_storeBit (BitBool True) b) (Builder_storeRef sha (ACell (msg_body m)))) (load_body sha) (msg_body m) (1 + 0) (0 + 1)"
    unfolding load_body_def [abs_def] by (rule rt_bind [OF rt_bit]) (use rt_ref [OF assms(4)] in simp)
  have "rt (storeMessage sha m True) (loadMessage sha) m (1008 + (14 + (1 + 0))) (info_refs (msg_info m) + (option_refs (msg_init m) + (0 + 1)))"
    unfolding storeMessage_def [abs_def] loadMessage_def [abs_def] store_apply store_body_def [abs_def] if_True simp_thms
    by (rule rt_bind [OF rt_info], use assms in simp, use assms in simp,
        rule rt_bind [OF rt_init_forced], use assms in simp, use assms in simp,
        rule rt_map [OF body]) simp
  moreover have "info_refs (msg_info m) \<le> 1" by (cases "msg_info m") (auto split: option.split)
  then have "info_refs (msg_info m) + (option_refs (msg_init m) + (0 + 1)) \<le> 4" by (auto split: option.split)
  ultimately show ?thesis using rt_grows [OF _ new_Builder_fits] by fastforce
qed

section \<open>Lists of output actions\<close>

text \<open>
  The list of output actions (ton-core/types/OutList.ts): every action is a cell that refers to
  the cell of the actions before it. Loading walks the chain back and gives the actions in the
  order in which they were stored.
\<close>

fun same_action :: "out_action \<Rightarrow> out_action \<Rightarrow> bool" where
  "same_action (SendMsg n m) (SendMsg n' m') \<longleftrightarrow> n = n' \<and> same_message_relaxed m m'"
| "same_action (SetCode c) (SetCode c') \<longleftrightarrow> c = c'"
| "same_action _ _ \<longleftrightarrow> False"

fun valid_action :: "(buffer \<Rightarrow> buffer) \<Rightarrow> out_action \<Rightarrow> bool" where
  "valid_action sha (SendMsg n m) \<longleftrightarrow> 0 \<le> n \<and> n < 256 \<and> valid_message_relaxed sha m"
| "valid_action sha (SetCode c) \<longleftrightarrow> cell_ok c"

text \<open>A message in a cell of its own.\<close>

lemma message_cell:
  assumes "sha_ok sha" "valid_message_relaxed sha m"
  shows "\<exists>b c s m' s'. storeMessageRelaxed sha m force new_Builder = Inr b \<and> Builder_endCell sha False b = Inr c \<and>
    cell_ok c \<and> cell_type c = Ordinary \<and> Cell_beginParse c False = Inr s \<and>
    loadMessageRelaxed sha s = Inr (m', s') \<and> same_message_relaxed m m'"
  by (rule rt_end_cell [OF rt_message_relaxed [OF assms] assms(1)])
    (use assms(2) in \<open>auto simp: valid_message_relaxed_def\<close>)

lemma rt_action:
  assumes "sha_ok sha" "valid_action sha a"
  shows "\<exists>a'. same_action a a' \<and> rt (storeOutAction sha a) (loadOutAction sha) a' 40 1"
proof (cases a)
  case (SendMsg n m)
  obtain b c s m' s' where m: "storeMessageRelaxed sha m False new_Builder = Inr b" "Builder_endCell sha False b = Inr c"
    "cell_ok c" "Cell_beginParse c False = Inr s" "loadMessageRelaxed sha s = Inr (m', s')" "same_message_relaxed m m'"
    using message_cell [OF assms(1), of m False] assms(2) SendMsg by auto
  have ref: "rt (\<lambda>b. bindE (Builder_storeRef sha (ACell c) b) Inr)
      (\<lambda>s. bindE (Slice_loadRef s) (\<lambda>(c, s). bindE (Cell_beginParse c False) (\<lambda>t.
         bindE (loadMessageRelaxed sha t) (\<lambda>(outMsg, _). Inr (SendMsg n outMsg, s))))) (SendMsg n m') (0 + 0) (1 + 0)"
    by (rule rt_bind [OF rt_ref [OF m(3)]]) (use m rt_return in simp)
  have mode: "rt (\<lambda>b. bindE (Builder_storeUint (Num n) 8 b) (\<lambda>b. bindE (Builder_storeRef sha (ACell c) b) Inr))
      (\<lambda>s. bindE (Slice_loadUint 8 s) (\<lambda>(mode, s). bindE (Slice_loadRef s) (\<lambda>(c, s).
         bindE (Cell_beginParse c False) (\<lambda>t.
         bindE (loadMessageRelaxed sha t) (\<lambda>(outMsg, _). Inr (SendMsg mode outMsg, s))))))
      (SendMsg n m') (8 + (0 + 0)) (0 + (1 + 0))"
    by (rule rt_bind [OF rt_num]) (use assms(2) SendMsg ref in simp_all)
  have "rt (\<lambda>b. bindE (Builder_storeUint (Num outActionSendMsgTag) 32 b) (\<lambda>b.
      bindE (Builder_storeUint (Num n) 8 b) (\<lambda>b. bindE (Builder_storeRef sha (ACell c) b) Inr)))
      (loadOutAction sha) (SendMsg n m') (32 + (8 + (0 + 0))) (0 + (0 + (1 + 0)))"
    unfolding loadOutAction_def [abs_def]
    by (rule rt_bind [OF rt_num]) (use mode in \<open>simp_all add: outActionSendMsgTag_def\<close>)
  then have "rt (storeOutAction sha a) (loadOutAction sha) (SendMsg n m') 40 1"
    using SendMsg m(1,2) by (simp add: storeOutAction_def [abs_def] storeOutActionSendMsg_def [abs_def] store_apply)
  then show ?thesis using SendMsg m(6) by (intro exI [of _ "SendMsg n m'"]) simp
next
  case (SetCode c)
  have code: "rt (Builder_storeRef sha (ACell c)) (\<lambda>s. bindE (Slice_loadRef s) (\<lambda>(c, s). Inr (SetCode c, s)))
      (SetCode c) 0 1"
    by (rule rt_map [OF rt_ref]) (use assms(2) SetCode in simp_all)
  have "rt (\<lambda>b. bindE (Builder_storeUint (Num outActionSetCodeTag) 32 b) (Builder_storeRef sha (ACell c)))
      (loadOutAction sha) (SetCode c) (32 + 0) (0 + 1)"
    unfolding loadOutAction_def [abs_def]
    by (rule rt_bind [OF rt_num]) (use code in \<open>simp_all add: outActionSendMsgTag_def outActionSetCodeTag_def\<close>)
  then have "rt (storeOutAction sha a) (loadOutAction sha) (SetCode c) 32 1"
    using SetCode by (simp add: storeOutAction_def [abs_def] storeOutActionSetCode_def [abs_def])
  from rt_le [OF this, of 40 1] show ?thesis using SetCode by (intro exI [of _ "SetCode c"]) simp
qed

text \<open>One more action on top of the chain.\<close>

lemma rt_link:
  assumes "sha_ok sha" "cell_ok c" "cell_type c = Ordinary" "rt (storeOutAction sha a) (loadOutAction sha) a' 40 1"
  shows "\<exists>b b' d. Builder_storeRef sha (ACell c) new_Builder = Inr b \<and> storeOutAction sha a b = Inr b' \<and>
    Builder_endCell sha False b' = Inr d \<and> cell_ok d \<and> cell_type d = Ordinary \<and>
    (\<forall>r \<in> set (cell_refs d). cell_ok r) \<and>
    (\<forall>s. sl_ok s \<and> sl_bits s = bs_bits (cell_bits d) \<and> sl_cells s = cell_refs d \<longrightarrow>
       Slice_remainingRefs s \<noteq> 0 \<and>
       (\<exists>s1 s2. Slice_loadRef s = Inr (c, s1) \<and> loadOutAction sha s1 = Inr (a', s2)))"
proof -
  let ?g = "\<lambda>s. bindE (Slice_loadRef s) (\<lambda>(c, s). bindE (loadOutAction sha s) (\<lambda>(a, s). Inr ((c, a), s)))"
  have "rt (\<lambda>b. bindE (Builder_storeRef sha (ACell c) b) (storeOutAction sha a)) ?g (c, a') (0 + 40) (1 + 1)"
    by (rule rt_bind [OF rt_ref [OF assms(2)]]) (use rt_map [OF assms(4), of "(c, a')" "Pair c"] in simp)
  moreover have "bl_fits new_Builder (0 + 40) (1 + 1)" by (rule new_Builder_fits) simp_all
  ultimately obtain xs rs where x: "length xs \<le> 0 + 40" "length rs \<le> 1 + 1" "\<forall>r \<in> set rs. cell_ok r"
    "stores (bindE (Builder_storeRef sha (ACell c) new_Builder) (storeOutAction sha a)) new_Builder xs rs"
    "loads ?g xs rs (c, a')" by (rule rtE)
  then obtain b b' where b: "Builder_storeRef sha (ACell c) new_Builder = Inr b" "storeOutAction sha a b = Inr b'"
    "wf_bb (bl_bits b')" "bb_bits (bl_bits b') = xs" "bl_refs b' = rs"
    using wf_new_BitBuilder(2) [of 1023] by (auto simp: stores_def appends_def bindE_eq_Inr new_Builder_def)
  obtain d where d: "Builder_endCell sha False b' = Inr d" "cell_ok d" "cell_type d = Ordinary"
    "bs_bits (cell_bits d) = xs" "cell_refs d = rs"
    using endCell_ok [OF assms(1) b(3)] b(4,5) length_bb_bits [OF b(3)] x(1-3) by auto
  have "Slice_remainingRefs s \<noteq> 0 \<and> (\<exists>s1 s2. Slice_loadRef s = Inr (c, s1) \<and> loadOutAction sha s1 = Inr (a', s2))"
    if s: "sl_ok s" "sl_bits s = xs" "sl_cells s = rs" for s
  proof -
    have "?g s = Inr ((c, a'), sl_move (length xs) (length rs) s)" using x(5) s by (simp add: loads_def)
    then obtain s1 s2 where g: "Slice_loadRef s = Inr (c, s1)" "loadOutAction sha s1 = Inr (a', s2)"
      by (auto simp: bindE_eq_Inr)
    moreover have "Slice_remainingRefs s \<noteq> 0"
      using g(1) s(1) by (auto simp: Slice_loadRef_def Slice_remainingRefs_def sl_ok_def split: if_splits)
    ultimately show ?thesis by blast
  qed
  with b d x(3) show ?thesis by (intro exI [of _ b] exI [of _ b'] exI [of _ d]) simp
qed

lemma storeOutList_snoc:
  assumes "storeOutList_cell sha as = Inr c" "Builder_storeRef sha (ACell c) new_Builder = Inr b"
    and "storeOutAction sha a b = Inr b'" "Builder_endCell sha False b' = Inr d"
  shows "storeOutList_cell sha (as @ [a]) = Inr d"
  using assms by (auto simp: storeOutList_cell_def foldE_append store_apply bindE_eq_Inr)

lemma out_list_cell:
  assumes "sha_ok sha" "\<forall>a \<in> set as. valid_action sha a"
  shows "\<exists>c as'. storeOutList_cell sha as = Inr c \<and> cell_ok c \<and> cell_type c = Ordinary \<and> list_all2 same_action as as' \<and>
    (\<forall>r \<in> set (cell_refs c). cell_ok r) \<and>
    (\<forall>s. sl_ok s \<and> sl_bits s = bs_bits (cell_bits c) \<and> sl_cells s = cell_refs c \<longrightarrow>
       (\<exists>s'. loadOutList sha s = Inr (as', s')))"
  using assms(2)
proof (induction as rule: rev_induct)
  case Nil
  have "bl_fits new_Builder 0 0" by (rule new_Builder_fits) simp_all
  then obtain c where c: "Builder_endCell sha False new_Builder = Inr c" "cell_ok c" "cell_type c = Ordinary" "cell_refs c = []"
    using endCell_ok [OF assms(1), of new_Builder]
    by (auto simp: new_Builder_def bl_fits_def fits_def new_BitBuilder_def)
  then show ?case
    by (auto simp: storeOutList_cell_def loadOutList.simps Slice_remainingRefs_def sl_cells_def sl_ok_def)
next
  case (snoc a as)
  then obtain c as' where c: "storeOutList_cell sha as = Inr c" "cell_ok c" "cell_type c = Ordinary" "list_all2 same_action as as'"
    "\<forall>r \<in> set (cell_refs c). cell_ok r" "\<forall>s. sl_ok s \<and> sl_bits s = bs_bits (cell_bits c) \<and> sl_cells s = cell_refs c \<longrightarrow> (\<exists>s'. loadOutList sha s = Inr (as', s'))"
    by auto
  obtain a' where a: "same_action a a'" "rt (storeOutAction sha a) (loadOutAction sha) a' 40 1"
    using rt_action [OF assms(1)] snoc.prems by auto
  obtain b b' d where d: "Builder_storeRef sha (ACell c) new_Builder = Inr b" "storeOutAction sha a b = Inr b'"
    "Builder_endCell sha False b' = Inr d" "cell_ok d" "cell_type d = Ordinary" "\<forall>r \<in> set (cell_refs d). cell_ok r"
    "\<forall>s. sl_ok s \<and> sl_bits s = bs_bits (cell_bits d) \<and> sl_cells s = cell_refs d \<longrightarrow> Slice_remainingRefs s \<noteq> 0 \<and>
       (\<exists>s1 s2. Slice_loadRef s = Inr (c, s1) \<and> loadOutAction sha s1 = Inr (a', s2))"
    using rt_link [OF assms(1) c(2,3) a(2)] by blast
  obtain t where t: "Cell_beginParse c False = Inr t" "sl_ok t" "sl_bits t = bs_bits (cell_bits c)" "sl_cells t = cell_refs c"
    using beginParse_ok [OF c(2), of False] c(3) by auto
  obtain t' where t': "loadOutList sha t = Inr (as', t')" using c(6) t by blast
  have "loadOutList sha s = Inr (as' @ [a'], s2)"
    if "Slice_remainingRefs s \<noteq> 0" "Slice_loadRef s = Inr (c, s1)" "loadOutAction sha s1 = Inr (a', s2)" for s s1 s2
    by (subst loadOutList.simps) (use that t(1) t' in simp)
  with d(7) have "\<forall>s. sl_ok s \<and> sl_bits s = bs_bits (cell_bits d) \<and> sl_cells s = cell_refs d \<longrightarrow>
      (\<exists>s'. loadOutList sha s = Inr (as' @ [a'], s'))" by blast
  moreover have "list_all2 same_action (as @ [a]) (as' @ [a'])" using c(4) a(1) by (simp add: list_all2_appendI)
  moreover have "storeOutList_cell sha (as @ [a]) = Inr d" using storeOutList_snoc [OF c(1) d(1-3)] .
  ultimately show ?case using d(4-6) by blast
qed

lemma out_list_through:
  assumes "sha_ok sha" "\<forall>a \<in> set as. valid_action sha a"
  shows "\<exists>b c s s' as'. storeOutList sha as new_Builder = Inr b \<and> Builder_endCell sha False b = Inr c \<and>
    Cell_beginParse c False = Inr s \<and> loadOutList sha s = Inr (as', s') \<and> list_all2 same_action as as'"
proof -
  obtain c as' where c: "storeOutList_cell sha as = Inr c" "cell_ok c" "cell_type c = Ordinary" "list_all2 same_action as as'"
    "\<forall>r \<in> set (cell_refs c). cell_ok r" "\<forall>s. sl_ok s \<and> sl_bits s = bs_bits (cell_bits c) \<and> sl_cells s = cell_refs c \<longrightarrow> (\<exists>s'. loadOutList sha s = Inr (as', s'))"
    using out_list_cell [OF assms] by blast
  obtain t where t: "Cell_beginParse c False = Inr t" "sl_ok t" "sl_bits t = bs_bits (cell_bits c)" "sl_cells t = cell_refs c"
    using beginParse_ok [OF c(2), of False] c(3) by auto
  have "length (sl_bits t) \<le> 1023" "length (sl_cells t) \<le> 4"
    using c(2,3) t(3,4) by (auto simp: cell_ok_def)
  from storeSlice_ok [OF t(2) new_Builder_fits [OF this], of sha] obtain b where
    b: "storeOutList sha as new_Builder = Inr b" "wf_bb (bl_bits b)" "bb_bits (bl_bits b) = bs_bits (cell_bits c)"
    "bl_refs b = cell_refs c"
    using c(1) t wf_new_BitBuilder(2) [of 1023]
    by (auto simp: storeOutList_def stores_def appends_def new_Builder_def)
  obtain d where d: "Builder_endCell sha False b = Inr d" "cell_ok d" "cell_type d = Ordinary"
    "bs_bits (cell_bits d) = bs_bits (cell_bits c)" "cell_refs d = cell_refs c"
    using endCell_ok [OF assms(1) b(2)] b(3,4) length_bb_bits [OF b(2)] c(2,3,5) by (auto simp: cell_ok_def)
  obtain s where s: "Cell_beginParse d False = Inr s" "sl_ok s" "sl_bits s = bs_bits (cell_bits c)" "sl_cells s = cell_refs c"
    using beginParse_ok [OF d(2), of False] d by auto
  then show ?thesis using b(1) d(1) c(4,6) by blast
qed

end
