(* ===== verification/Ton_Tuple.thy ===== *)
theory Ton_Tuple
  imports Dict_Tree
begin

text \<open>
  Tuples of the virtual machine (ton-core/tuple/): the items, their serialisation on a stack of
  cells (tuple.ts), the builder of a list of items (builder.ts) and the reader that takes typed
  items from its front (reader.ts).
\<close>

datatype tuple_item =
    TNull
  | TInt int
  | TNaN
  | TCell cell
  | TSlice cell
  | TBuilder cell
  | TTuple "tuple_item list"

section \<open>Serialisation\<close>

text \<open>
  The items of a tuple are chained: the loop keeps a \<open>head\<close> and a \<open>tail\<close> cell, \<open>null\<close> at
  first, swaps them and puts the two into one cell from the third item on.
\<close>

fun serializeTupleItem :: "(buffer \<Rightarrow> buffer) \<Rightarrow> tuple_item \<Rightarrow> builder \<Rightarrow> builder res"
  and serializeTupleLoop ::
    "(buffer \<Rightarrow> buffer) \<Rightarrow> tuple_item list \<Rightarrow> nat \<Rightarrow> cell option \<Rightarrow> cell option \<Rightarrow> (cell option \<times> cell option) res" where
  "serializeTupleItem sha TNull b = Builder_storeUint (Num 0) 8 b"
| "serializeTupleItem sha (TInt v) b =
     (if v \<le> 9223372036854775807 \<and> v \<ge> -9223372036854775808
      then bindE (Builder_storeUint (Num 1) 8 b) (Builder_storeInt (Big v) 64)
      else bindE (Builder_storeUint (Num 0x0100) 15 b) (Builder_storeInt (Big v) 257))"
| "serializeTupleItem sha TNaN b = Builder_storeInt (Num 0x02ff) 16 b"
| "serializeTupleItem sha (TCell c) b = bindE (Builder_storeUint (Num 3) 8 b) (Builder_storeRef sha (ACell c))"
| "serializeTupleItem sha (TSlice c) b =
     bindE (Builder_storeUint (Num 4) 8 b) (\<lambda>b.
     bindE (Builder_storeUint (Num 0) 10 b) (\<lambda>b.
     bindE (Builder_storeUint (Num (int (bs_length (cell_bits c)))) 10 b) (\<lambda>b.
     bindE (Builder_storeUint (Num 0) 3 b) (\<lambda>b.
     bindE (Builder_storeUint (Num (int (length (cell_refs c)))) 3 b)
       (Builder_storeRef sha (ACell c))))))"
| "serializeTupleItem sha (TBuilder c) b = bindE (Builder_storeUint (Num 5) 8 b) (Builder_storeRef sha (ACell c))"
| "serializeTupleItem sha (TTuple items) b =
     bindE (serializeTupleLoop sha items 0 None None) (\<lambda>(head, tail).
     bindE (Builder_storeUint (Num 7) 8 b) (\<lambda>b.
     bindE (Builder_storeUint (Num (int (length items))) 16 b) (\<lambda>b.
     bindE (case head of Some c \<Rightarrow> Builder_storeRef sha (ACell c) b | None \<Rightarrow> Inr b) (\<lambda>b.
     case tail of Some c \<Rightarrow> Builder_storeRef sha (ACell c) b | None \<Rightarrow> Inr b))))"
| "serializeTupleLoop sha [] i head tail = Inr (head, tail)"
| "serializeTupleLoop sha (x # xs) i head tail =
     (let s = head; head = tail; tail = s
      in bindE (if i > 1
                then (case (tail, head) of
                        (Some t, Some h) \<Rightarrow>
                          bindE (Builder_storeRef sha (ACell t) new_Builder) (\<lambda>b.
                          bindE (Builder_storeRef sha (ACell h) b) (\<lambda>b.
                          bindE (Builder_endCell sha False b) (\<lambda>c. Inr (Some c))))
                      | _ \<Rightarrow> Inl TypeErr)
                else Inr head) (\<lambda>head.
         bindE (serializeTupleItem sha x new_Builder) (\<lambda>bc.
         bindE (Builder_endCell sha False bc) (\<lambda>c.
         serializeTupleLoop sha xs (i + 1) head (Some c)))))"

definition load_parse :: "slice sload" where \<comment> \<open>\<open>s.loadRef().beginParse()\<close>\<close>
  "load_parse s = bindE (Slice_loadRef s) (\<lambda>(c, s). bindE (Cell_beginParse c False) (\<lambda>t. Inr (t, s)))"

lemma load_parse_size: "load_parse s = Inr (t, s') \<Longrightarrow> refs_size t < refs_size s \<and> refs_size s' \<le> refs_size s"
  by (auto simp: load_parse_def intro: loadRef_parse_size loadRef_refs_size)

text \<open>The copy of the slice that kind 4 describes, with the references it names.\<close>

definition copy_slice :: "(buffer \<Rightarrow> buffer) \<Rightarrow> int \<Rightarrow> int \<Rightarrow> int \<Rightarrow> int \<Rightarrow> slice \<Rightarrow> cell res" where
  "copy_slice sha startBits endBits startRefs endRefs rs =
     bindE (Slice_skip startBits rs) (\<lambda>rs.
     bindE (Slice_loadBits (endBits - startBits) rs) (\<lambda>(dt, rs).
     bindE (Builder_storeBits dt new_Builder) (\<lambda>b.
     bindE (if startRefs < endRefs
            then bindE (foldE (\<lambda>_ rs. bindE (Slice_loadRef rs) (\<lambda>(_, rs). Inr rs)) [0..<nat startRefs] rs) (\<lambda>rs.
                 bindE (foldE (\<lambda>_ (b, rs).
                          bindE (Slice_loadRef rs) (\<lambda>(c, rs).
                          bindE (Builder_storeRef sha (ACell c) b) (\<lambda>b. Inr (b, rs))))
                        [0..<nat (endRefs - startRefs)] (b, rs)) (\<lambda>(b, _). Inr b))
            else Inr b) (Builder_endCell sha False))))"

text \<open>\<open>parseTupleLoop n\<close> is the loop of kind 7 with \<open>n\<close> rounds to go, and the last item after it.\<close>

function (sequential) parseStackItem :: "(buffer \<Rightarrow> buffer) \<Rightarrow> slice \<Rightarrow> (tuple_item \<times> slice) res"
  and parseTupleLoop :: "(buffer \<Rightarrow> buffer) \<Rightarrow> nat \<Rightarrow> slice \<Rightarrow> tuple_item list \<Rightarrow> tuple_item list res" where
  "parseStackItem sha cs =
     bindE (Slice_loadUint 8 cs) (\<lambda>(kind, cs).
     if kind = 0 then Inr (TNull, cs)
     else if kind = 1 then bindE (Slice_loadIntBig 64 cs) (\<lambda>(v, cs). Inr (TInt v, cs))
     else if kind = 2
     then bindE (Slice_loadUint 7 cs) (\<lambda>(z, cs).
          if z = 0 then bindE (Slice_loadIntBig 257 cs) (\<lambda>(v, cs). Inr (TInt v, cs))
          else bindE (Slice_loadBit cs) (\<lambda>(_, cs). Inr (TNaN, cs)))
     else if kind = 3 then bindE (Slice_loadRef cs) (\<lambda>(c, cs). Inr (TCell c, cs))
     else if kind = 4
     then bindE (Slice_loadUint 10 cs) (\<lambda>(startBits, cs).
          bindE (Slice_loadUint 10 cs) (\<lambda>(endBits, cs).
          bindE (Slice_loadUint 3 cs) (\<lambda>(startRefs, cs).
          bindE (Slice_loadUint 3 cs) (\<lambda>(endRefs, cs).
          bindE (load_parse cs) (\<lambda>(rs, cs).
          bindE (copy_slice sha startBits endBits startRefs endRefs rs) (\<lambda>c. Inr (TSlice c, cs)))))))
     else if kind = 5 then bindE (Slice_loadRef cs) (\<lambda>(c, cs). Inr (TBuilder c, cs))
     else if kind = 7
     then bindE (Slice_loadUint 16 cs) (\<lambda>(len, cs).
          if len > 1
          then bindE (load_parse cs) (\<lambda>(head, cs).
               bindE (load_parse cs) (\<lambda>(tail, cs).
               bindE (parseStackItem sha tail) (\<lambda>(item, _).
               bindE (parseTupleLoop sha (nat (len - 2)) head [item]) (\<lambda>items. Inr (TTuple items, cs)))))
          else if len = 1
          then bindE (load_parse cs) (\<lambda>(only, cs).
               bindE (parseStackItem sha only) (\<lambda>(item, _). Inr (TTuple [item], cs)))
          else Inr (TTuple [], cs))
     else Inl InvalidData)"
| "parseTupleLoop sha 0 head items = bindE (parseStackItem sha head) (\<lambda>(item, _). Inr (item # items))"
| "parseTupleLoop sha (Suc n) ohead items =
     bindE (load_parse ohead) (\<lambda>(head, ohead).
     bindE (load_parse ohead) (\<lambda>(tail, _).
     bindE (parseStackItem sha tail) (\<lambda>(item, _).
     parseTupleLoop sha n head (item # items))))"
  by pat_completeness auto
termination
proof (relation "measure (case_sum (\<lambda>(sha, s). 2 * refs_size s) (\<lambda>(sha, n, s, items). 2 * refs_size s + 1))", goal_cases)
qed (auto dest!: loadUint_size load_parse_size)

declare parseStackItem.simps [simp del] parseTupleLoop.simps [simp del]

fun serializeTupleTail :: "(buffer \<Rightarrow> buffer) \<Rightarrow> tuple_item list \<Rightarrow> builder \<Rightarrow> builder res" where
  "serializeTupleTail sha src b =
     (if src = [] then Inr b
      else bindE (serializeTupleTail sha (butlast src) new_Builder) (\<lambda>tail.
           bindE (Builder_endCell sha False tail) (\<lambda>c.
           bindE (Builder_storeRef sha (ACell c) b) (serializeTupleItem sha (last src)))))"

declare serializeTupleTail.simps [simp del]

definition serializeTuple :: "(buffer \<Rightarrow> buffer) \<Rightarrow> tuple_item list \<Rightarrow> cell res" where
  "serializeTuple sha src =
     bindE (Builder_storeUint (Num (int (length src))) 24 new_Builder) (\<lambda>b.
     bindE (serializeTupleTail sha src b) (Builder_endCell sha False))"

fun parseTuple_loop :: "(buffer \<Rightarrow> buffer) \<Rightarrow> nat \<Rightarrow> slice \<Rightarrow> tuple_item list \<Rightarrow> tuple_item list res" where
  "parseTuple_loop sha 0 cs res = Inr res"
| "parseTuple_loop sha (Suc n) cs res =
     bindE (Slice_loadRef cs) (\<lambda>(next, cs).
     bindE (parseStackItem sha cs) (\<lambda>(item, _).
     bindE (Cell_beginParse next False) (\<lambda>cs.
     parseTuple_loop sha n cs (item # res))))"

definition parseTuple :: "(buffer \<Rightarrow> buffer) \<Rightarrow> cell \<Rightarrow> tuple_item list res" where
  "parseTuple sha src =
     bindE (Cell_beginParse src False) (\<lambda>cs.
     bindE (Slice_loadUint 24 cs) (\<lambda>(n, cs). parseTuple_loop sha (nat n) cs []))"

section \<open>The tuple builder\<close>

text \<open>The state is the list of items; an argument that is missing is written as \<open>null\<close>.\<close>

datatype cell_or_slice = CsCell cell | CsSlice slice

definition tb_write :: "('a \<Rightarrow> tuple_item res) \<Rightarrow> 'a option \<Rightarrow> tuple_item list \<Rightarrow> tuple_item list res" where
  "tb_write f v t =
     (case v of None \<Rightarrow> Inr (t @ [TNull]) | Some x \<Rightarrow> bindE (f x) (\<lambda>item. Inr (t @ [item])))"

definition cs_cell :: "(buffer \<Rightarrow> buffer) \<Rightarrow> cell_or_slice \<Rightarrow> cell res" where
  "cs_cell sha v = (case v of CsCell c \<Rightarrow> Inr c | CsSlice s \<Rightarrow> Slice_asCell sha s)"

definition TupleBuilder_writeNumber :: "jsval option \<Rightarrow> tuple_item list \<Rightarrow> tuple_item list res" where
  "TupleBuilder_writeNumber = tb_write (\<lambda>v. bindE (to_bigint v) (\<lambda>n. Inr (TInt n)))"

definition TupleBuilder_writeBoolean :: "bool option \<Rightarrow> tuple_item list \<Rightarrow> tuple_item list res" where
  "TupleBuilder_writeBoolean = tb_write (\<lambda>v. Inr (TInt (if v then - 1 else 0)))"

definition TupleBuilder_writeBuffer :: "(buffer \<Rightarrow> buffer) \<Rightarrow> buffer option \<Rightarrow> tuple_item list \<Rightarrow> tuple_item list res" where
  "TupleBuilder_writeBuffer sha = tb_write (\<lambda>v.
     bindE (Builder_storeBuffer v None new_Builder) (\<lambda>b.
     bindE (Builder_endCell sha False b) (\<lambda>c. Inr (TSlice c))))"

definition TupleBuilder_writeString :: "(buffer \<Rightarrow> buffer) \<Rightarrow> buffer option \<Rightarrow> tuple_item list \<Rightarrow> tuple_item list res" where
  "TupleBuilder_writeString sha = tb_write (\<lambda>v.
     bindE (Builder_storeStringTail sha v new_Builder) (\<lambda>b.
     bindE (Builder_endCell sha False b) (\<lambda>c. Inr (TSlice c))))"

definition TupleBuilder_writeCell :: "(buffer \<Rightarrow> buffer) \<Rightarrow> cell_or_slice option \<Rightarrow> tuple_item list \<Rightarrow> tuple_item list res" where
  "TupleBuilder_writeCell sha = tb_write (\<lambda>v. bindE (cs_cell sha v) (\<lambda>c. Inr (TCell c)))"

definition TupleBuilder_writeSlice :: "(buffer \<Rightarrow> buffer) \<Rightarrow> cell_or_slice option \<Rightarrow> tuple_item list \<Rightarrow> tuple_item list res" where
  "TupleBuilder_writeSlice sha = tb_write (\<lambda>v. bindE (cs_cell sha v) (\<lambda>c. Inr (TSlice c)))"

definition TupleBuilder_writeBuilder :: "(buffer \<Rightarrow> buffer) \<Rightarrow> cell_or_slice option \<Rightarrow> tuple_item list \<Rightarrow> tuple_item list res" where
  "TupleBuilder_writeBuilder sha = tb_write (\<lambda>v. bindE (cs_cell sha v) (\<lambda>c. Inr (TBuilder c)))"

definition TupleBuilder_writeTuple :: "tuple_item list option \<Rightarrow> tuple_item list \<Rightarrow> tuple_item list res" where
  "TupleBuilder_writeTuple = tb_write (\<lambda>v. Inr (TTuple v))"

definition TupleBuilder_writeAddress :: "(buffer \<Rightarrow> buffer) \<Rightarrow> address option \<Rightarrow> tuple_item list \<Rightarrow> tuple_item list res" where
  "TupleBuilder_writeAddress sha = tb_write (\<lambda>v.
     bindE (Builder_storeAddress (Some (Internal v)) new_Builder) (\<lambda>b.
     bindE (Builder_endCell sha False b) (\<lambda>c. Inr (TSlice c))))"

definition TupleBuilder_build :: "tuple_item list \<Rightarrow> tuple_item list" where
  "TupleBuilder_build t = t"

section \<open>The tuple reader\<close>

text \<open>The state is the list of the items that are left.\<close>

type_synonym 'a tload = "tuple_item list \<Rightarrow> ('a \<times> tuple_item list) res"

definition TupleReader_remaining :: "tuple_item list \<Rightarrow> nat" where
  "TupleReader_remaining items = length items"

definition TupleReader_peek :: "tuple_item list \<Rightarrow> tuple_item res" where
  "TupleReader_peek items = (if items = [] then Inl EndOfTuple else Inr (hd items))"

definition TupleReader_pop :: "tuple_item tload" where
  "TupleReader_pop items = (if items = [] then Inl EndOfTuple else Inr (hd items, tl items))"

definition TupleReader_skip :: "nat \<Rightarrow> tuple_item list \<Rightarrow> tuple_item list res" where
  "TupleReader_skip num items = foldE (\<lambda>_ items. bindE (TupleReader_pop items) (\<lambda>(_, items). Inr items)) [0..<num] items"

definition item_int :: "tuple_item \<Rightarrow> int res" where
  "item_int x = (case x of TInt v \<Rightarrow> Inr v | _ \<Rightarrow> Inl WrongItem)"

definition item_cell :: "tuple_item \<Rightarrow> cell res" where
  "item_cell x = (case x of TCell c \<Rightarrow> Inr c | TSlice c \<Rightarrow> Inr c | TBuilder c \<Rightarrow> Inr c | _ \<Rightarrow> Inl WrongItem)"

definition item_tuple :: "tuple_item \<Rightarrow> tuple_item list res" where
  "item_tuple x = (case x of TTuple items \<Rightarrow> Inr items | _ \<Rightarrow> Inl WrongItem)"

definition pop_as :: "(tuple_item \<Rightarrow> 'a res) \<Rightarrow> 'a tload" where
  "pop_as f items = bindE (TupleReader_pop items) (\<lambda>(x, items). bindE (f x) (\<lambda>v. Inr (v, items)))"

definition pop_opt :: "(tuple_item \<Rightarrow> 'a res) \<Rightarrow> 'a option tload" where
  "pop_opt f items =
     bindE (TupleReader_pop items) (\<lambda>(x, items).
     if x = TNull then Inr (None, items) else bindE (f x) (\<lambda>v. Inr (Some v, items)))"

definition TupleReader_readBigNumber :: "int tload" where "TupleReader_readBigNumber = pop_as item_int"
definition TupleReader_readBigNumberOpt :: "int option tload" where "TupleReader_readBigNumberOpt = pop_opt item_int"

definition TupleReader_readNumber :: "int tload" where
  "TupleReader_readNumber items = bindE (TupleReader_readBigNumber items) (\<lambda>(v, items). Inr (to_number v, items))"
definition TupleReader_readNumberOpt :: "int option tload" where
  "TupleReader_readNumberOpt items =
     bindE (TupleReader_readBigNumberOpt items) (\<lambda>(v, items). Inr (map_option to_number v, items))"

definition TupleReader_readBoolean :: "bool tload" where
  "TupleReader_readBoolean items = bindE (TupleReader_readNumber items) (\<lambda>(v, items). Inr (v \<noteq> 0, items))"
definition TupleReader_readBooleanOpt :: "bool option tload" where
  "TupleReader_readBooleanOpt items =
     bindE (TupleReader_readNumberOpt items) (\<lambda>(v, items). Inr (map_option (\<lambda>n. n \<noteq> 0) v, items))"

definition TupleReader_readCell :: "cell tload" where "TupleReader_readCell = pop_as item_cell"
definition TupleReader_readCellOpt :: "cell option tload" where "TupleReader_readCellOpt = pop_opt item_cell"

text \<open>Read a cell, then a value from the beginning of it.\<close>

definition read_in_cell :: "'a sload \<Rightarrow> 'a tload" where
  "read_in_cell f items =
     bindE (TupleReader_readCell items) (\<lambda>(c, items).
     bindE (Cell_beginParse c False) (\<lambda>s.
     bindE (f s) (\<lambda>(v, _). Inr (v, items))))"

definition TupleReader_readAddress :: "address tload" where
  "TupleReader_readAddress = read_in_cell Slice_loadAddress"
definition TupleReader_readAddressOpt :: "address option tload" where
  "TupleReader_readAddressOpt items =
     bindE (TupleReader_readCellOpt items) (\<lambda>(r, items).
     case r of
       Some c \<Rightarrow> bindE (Cell_beginParse c False) (\<lambda>s.
                 bindE (Slice_loadMaybeAddress s) (\<lambda>(a, _). Inr (a, items)))
     | None \<Rightarrow> Inr (None, items))"

definition TupleReader_readTuple :: "tuple_item list tload" where "TupleReader_readTuple = pop_as item_tuple"
definition TupleReader_readTupleOpt :: "tuple_item list option tload" where "TupleReader_readTupleOpt = pop_opt item_tuple"

text \<open>The reader that is walked first is the one whose items are left at the end.\<close>

fun readLispList_loop :: "tuple_item list \<Rightarrow> tuple_item list tload" where
  "readLispList_loop res [] = Inl EndOfTuple"
| "readLispList_loop res (head # TNull # rest) = Inr (res @ [head], rest)"
| "readLispList_loop res (head # TTuple items # rest) =
     bindE (readLispList_loop (res @ [head]) items) (\<lambda>(res, _). Inr (res, rest))"
| "readLispList_loop res (head # _) = Inl WrongItem"

definition TupleReader_readLispListDirect :: "tuple_item list tload" where
  "TupleReader_readLispListDirect items =
     (if items = [TNull] then Inr ([], items) else readLispList_loop [] items)"

definition TupleReader_readLispList :: "tuple_item list tload" where
  "TupleReader_readLispList items =
     bindE (TupleReader_readTupleOpt items) (\<lambda>(r, items).
     case r of None \<Rightarrow> Inr ([], items)
     | Some t \<Rightarrow> bindE (readLispList_loop [] t) (\<lambda>(res, _). Inr (res, items)))"

definition load_whole_buffer :: "buffer sload" where
  "load_whole_buffer s =
     (if Slice_remainingRefs s \<noteq> 0 then Inl WrongItem
      else if js_rem (Slice_remainingBits s) 8 \<noteq> 0 then Inl WrongItem
      else Slice_loadBuffer (Slice_remainingBits s div 8) s)"

definition TupleReader_readBuffer :: "buffer tload" where
  "TupleReader_readBuffer = read_in_cell load_whole_buffer"

text \<open>A \<open>null\<close> that \<open>readBufferOpt\<close> or \<open>readStringOpt\<close> finds is only looked at: it stays in front.\<close>

definition TupleReader_readBufferOpt :: "buffer option tload" where
  "TupleReader_readBufferOpt items =
     bindE (TupleReader_peek items) (\<lambda>popped.
     if popped = TNull then Inr (None, items)
     else bindE (TupleReader_readBuffer items) (\<lambda>(w, items). Inr (Some w, items)))"

definition TupleReader_readString :: "buffer tload" where
  "TupleReader_readString = read_in_cell Slice_loadStringTail"

definition TupleReader_readStringOpt :: "buffer option tload" where
  "TupleReader_readStringOpt items =
     bindE (TupleReader_peek items) (\<lambda>popped.
     if popped = TNull then Inr (None, items)
     else bindE (TupleReader_readString items) (\<lambda>(w, items). Inr (Some w, items)))"

end
