(* ===== verification/Tuple_Roundtrip.thy ===== *)
theory Tuple_Roundtrip
  imports Message_Roundtrip Ton_Tuple
begin

text \<open>
  The items of a tuple stored and loaded again. The items of a nested tuple hang in a chain of
  cells; the chain is described by an inductive predicate that the loop of the writer builds up and
  the loop of the reader takes apart.
\<close>

text \<open>A slice comes back as a new cell, the same tree with the same hashes.\<close>

inductive same_item :: "tuple_item \<Rightarrow> tuple_item \<Rightarrow> bool" where
  same_null: "same_item TNull TNull"
| same_int: "same_item (TInt v) (TInt v)"
| same_nan: "same_item TNaN TNaN"
| same_cell: "same_item (TCell c) (TCell c)"
| same_slice: "xtree c = xtree d \<Longrightarrow> same_item (TSlice c) (TSlice d)"
| same_builder: "same_item (TBuilder c) (TBuilder c)"
| same_tuple: "list_all2 same_item xs ys \<Longrightarrow> same_item (TTuple xs) (TTuple ys)"

fun valid_item :: "(buffer \<Rightarrow> buffer) \<Rightarrow> tuple_item \<Rightarrow> bool" where
  "valid_item sha TNull \<longleftrightarrow> True"
| "valid_item sha (TInt v) \<longleftrightarrow> int_range 257 v"
| "valid_item sha TNaN \<longleftrightarrow> True"
| "valid_item sha (TCell c) \<longleftrightarrow> cell_ok c"
| "valid_item sha (TSlice c) \<longleftrightarrow> made sha c \<and> cell_type c = Ordinary"
| "valid_item sha (TBuilder c) \<longleftrightarrow> cell_ok c"
| "valid_item sha (TTuple xs) \<longleftrightarrow> length xs < 2 ^ 16 \<and> (\<forall>x \<in> set xs. valid_item sha x)"

section \<open>The copy of a slice\<close>

lemma copy_refs:
  assumes "sl_ok s" "length (sl_cells s) = k" "bl_fits b 0 k" "length xs = k"
  shows "\<exists>b' s'. foldE (\<lambda>_ (b, rs). bindE (Slice_loadRef rs) (\<lambda>(c, rs).
       bindE (Builder_storeRef sha (ACell c) b) (\<lambda>b. Inr (b, rs)))) xs (b, s) = Inr (b', s') \<and>
     bl_bits b' = bl_bits b \<and> bl_refs b' = bl_refs b @ sl_cells s"
  using assms
proof (induction xs arbitrary: s b k)
  case Nil
  then show ?case by simp
next
  case (Cons x xs)
  obtain r rs where s: "sl_cells s = r # rs" using Cons.prems by (cases "sl_cells s") auto
  have l: "Slice_loadRef s = Inr (r, sl_move 0 1 s)" using loadRef_reads [OF Cons.prems(1) s] by (simp add: sreads_def)
  have m: "sl_ok (sl_move 0 1 s)" "sl_cells (sl_move 0 1 s) = rs"
    using sl_rest_split [of s "[]" _ "[r]" rs] Cons.prems(1) s by auto
  obtain b1 where b1: "Builder_storeRef sha (ACell r) b = Inr b1" "bl_bits b1 = bl_bits b" "bl_refs b1 = bl_refs b @ [r]"
    using that [of "b\<lparr>bl_refs := bl_refs b @ [r]\<rparr>"] Cons.prems by (auto simp: Builder_storeRef.simps bl_fits_def)
  have "bl_fits b1 0 (length rs)" using Cons.prems b1 s by (auto simp: bl_fits_def)
  from Cons.IH [OF m(1) _ this] Cons.prems(4) m(2) s l b1 Cons.prems(2) show ?case by auto
qed

lemma copy_slice_same:
  assumes "sha_ok sha" "made sha c" "cell_type c = Ordinary" "Cell_beginParse c False = Inr s"
  shows "\<exists>d. copy_slice sha 0 (int (bs_length (cell_bits c))) 0 (int (length (cell_refs c))) s = Inr d \<and> xtree d = xtree c"
proof -
  have ok: "cell_ok c" using assms(2) by (rule madeD)
  have s: "sl_ok s" "sl_bits s = bs_bits (cell_bits c)" "sl_cells s = cell_refs c"
    using beginParse_ok [OF ok, of False] assms(3,4) by auto
  have skip: "Slice_skip 0 s = Inr s"
    using s(1) by (simp add: Slice_skip_def BitReader_skip_def sl_ok_def rd_ok_def rd_move_def)
  let ?n = "bs_length (cell_bits c)"
  from loadBits_ok [of "sl_reader s" ?n] s obtain t where t: "Slice_loadBits (int ?n) s = Inr (t, sl_move ?n 0 s)"
    "bs_bits t = bs_bits (cell_bits c)"
    by (auto simp: sl_ok_def sl_bits_def Slice_loadBits_def lift_load_def sl_move_def)
  have m: "sl_ok (sl_move ?n 0 s)" "sl_cells (sl_move ?n 0 s) = cell_refs c"
    using sl_rest_split [of s "bs_bits (cell_bits c)" "[]" "[]" "cell_refs c"] s by auto
  have "bl_fits new_Builder ?n (length (cell_refs c))"
    using ok assms(3) by (intro new_Builder_fits) (auto simp: cell_ok_def)
  then have fit: "fits (bl_bits new_Builder) ?n" "length (cell_refs c) \<le> 4" by (simp_all add: bl_fits_def)
  then have "stores (Builder_storeBits t new_Builder) new_Builder (bs_bits (cell_bits c)) []"
    using writes_bits [of "bl_bits new_Builder" t] t(2) length_bs_bits [of t] length_bs_bits [of "cell_bits c"]
    by (auto simp: Builder_storeBits_def intro!: lift_write_stores)
  then obtain b where b: "Builder_storeBits t new_Builder = Inr b" "wf_bb (bl_bits b)"
    "bb_bits (bl_bits b) = bs_bits (cell_bits c)" "bl_refs b = []"
    using wf_new_BitBuilder(2) [of 1023] by (auto simp: stores_def appends_def new_Builder_def)
  then have "bl_fits b 0 (length (cell_refs c))" using fit(2) by (auto simp: bl_fits_def fits_def wf_bb_def)
  from copy_refs [OF m(1) _ this, of "[0..<length (cell_refs c)]" sha] m(2) b(4) obtain b' s' where
    b': "foldE (\<lambda>_ (b, rs). bindE (Slice_loadRef rs) (\<lambda>(c, rs).
       bindE (Builder_storeRef sha (ACell c) b) (\<lambda>b. Inr (b, rs)))) [0..<length (cell_refs c)] (b, sl_move ?n 0 s) = Inr (b', s')"
    "bl_bits b' = bl_bits b" "bl_refs b' = cell_refs c" by auto
  obtain d where d: "Builder_endCell sha False b' = Inr d" "xtree d = xtree c"
    using endCell_same [OF assms(1-3), of b'] b'(2,3) b by auto
  show ?thesis
  proof (cases "cell_refs c = []")
    case True
    then have "b' = b" using b'(2,3) b(4) by simp
    then show ?thesis using True skip t(1) b(1) d by (simp add: copy_slice_def)
  next
    case False
    then show ?thesis using skip t(1) b(1) b'(1) d by (simp add: copy_slice_def)
  qed
qed

section \<open>The chain of a nested tuple\<close>

definition item_in :: "(buffer \<Rightarrow> buffer) \<Rightarrow> cell \<Rightarrow> tuple_item \<Rightarrow> bool" where
  "item_in sha c v \<longleftrightarrow> cell_ok c \<and> (\<exists>s s'. Cell_beginParse c False = Inr s \<and> parseStackItem sha s = Inr (v, s'))"

inductive chain :: "(buffer \<Rightarrow> buffer) \<Rightarrow> cell \<Rightarrow> tuple_item list \<Rightarrow> bool" for sha where
  chain_first: "item_in sha c x \<Longrightarrow> chain sha c [x]"
| chain_more: "chain sha t xs \<Longrightarrow> item_in sha h x \<Longrightarrow> cell_ok c \<Longrightarrow> cell_type c = Ordinary \<Longrightarrow>
     cell_refs c = [t, h] \<Longrightarrow> chain sha c (xs @ [x])"

lemma chain_nonempty: "chain sha c xs \<Longrightarrow> xs \<noteq> [] \<and> cell_ok c"
  by (induction rule: chain.induct) (auto simp: item_in_def)

lemma chain_parses: "chain sha c xs \<Longrightarrow> \<exists>s. Cell_beginParse c False = Inr s \<and>
    (\<forall>items. parseTupleLoop sha (length xs - 1) s items = Inr (xs @ items))"
proof (induction rule: chain.induct)
  case (chain_first c x)
  then show ?case by (auto simp: item_in_def parseTupleLoop.simps)
next
  case (chain_more t xs h x c)
  obtain s where s: "Cell_beginParse c False = Inr s" "sl_ok s" "sl_cells s = [t, h]"
    using beginParse_ok [OF chain_more.hyps(3), of False] chain_more.hyps(4,5) by auto
  obtain ts where ts: "Cell_beginParse t False = Inr ts"
    "\<forall>items. parseTupleLoop sha (length xs - 1) ts items = Inr (xs @ items)" using chain_more.IH by blast
  obtain hs hs' where hs: "Cell_beginParse h False = Inr hs" "parseStackItem sha hs = Inr (x, hs')"
    using chain_more.hyps(2) by (auto simp: item_in_def)
  have s1: "load_parse s = Inr (ts, sl_move 0 1 s)"
    using loadRef_reads [OF s(2,3)] ts(1) by (simp add: load_parse_def sreads_def)
  have s2: "sl_ok (sl_move 0 1 s)" "sl_cells (sl_move 0 1 s) = [h]"
    using sl_rest_split [of s "[]" _ "[t]" "[h]"] s by auto
  have s3: "load_parse (sl_move 0 1 s) = Inr (hs, sl_move 0 2 s)"
    using loadRef_reads [OF s2] hs(1) by (simp add: load_parse_def sreads_def numeral_2_eq_2)
  have len: "length (xs @ [x]) - 1 = Suc (length xs - 1)"
    using chain_nonempty [OF chain_more.hyps(1)] by (cases xs) simp_all
  have "parseTupleLoop sha (length (xs @ [x]) - 1) s items = Inr ((xs @ [x]) @ items)" for items
    unfolding len parseTupleLoop.simps using s1 s3 hs(2) ts(2) by simp
  with s(1) show ?case by blast
qed

text \<open>Where the loop of the writer stands after some items.\<close>

fun places :: "(buffer \<Rightarrow> buffer) \<Rightarrow> tuple_item list \<Rightarrow> cell option \<Rightarrow> cell option \<Rightarrow> bool" where
  "places sha [] head tail \<longleftrightarrow> head = None \<and> tail = None"
| "places sha [x] head tail \<longleftrightarrow> head = None \<and> (\<exists>t. tail = Some t \<and> item_in sha t x)"
| "places sha xs head tail \<longleftrightarrow> (\<exists>h t. head = Some h \<and> tail = Some t \<and> chain sha h (butlast xs) \<and> item_in sha t (last xs))"

lemma pair_cell:
  assumes "sha_ok sha" "cell_ok a" "cell_ok b"
  shows "\<exists>d e c. Builder_storeRef sha (ACell a) new_Builder = Inr d \<and> Builder_storeRef sha (ACell b) d = Inr e \<and>
    Builder_endCell sha False e = Inr c \<and> cell_ok c \<and> cell_type c = Ordinary \<and> cell_refs c = [a, b]"
proof -
  let ?d = "new_Builder\<lparr>bl_refs := [a]\<rparr>" and ?e = "new_Builder\<lparr>bl_refs := [a, b]\<rparr>"
  have "bl_fits new_Builder 0 2" by (rule new_Builder_fits) simp_all
  then have "wf_bb (bl_bits ?e)" "bb_length (bl_bits ?e) \<le> 1023"
    by (simp_all add: bl_fits_def fits_def new_Builder_def new_BitBuilder_def)
  then obtain c where "Builder_endCell sha False ?e = Inr c" "cell_ok c" "cell_type c = Ordinary" "cell_refs c = [a, b]"
    using endCell_ok [OF assms(1), of ?e] assms(2,3) by auto
  moreover have "Builder_storeRef sha (ACell a) new_Builder = Inr ?d" "Builder_storeRef sha (ACell b) ?d = Inr ?e"
    by (simp_all add: Builder_storeRef.simps new_Builder_def)
  ultimately show ?thesis by blast
qed

lemma places_long:
  "Suc 0 < length xs \<Longrightarrow> places sha xs head tail \<longleftrightarrow>
     (\<exists>h t. head = Some h \<and> tail = Some t \<and> chain sha h (butlast xs) \<and> item_in sha t (last xs))"
  by (cases xs rule: remdups_adj.cases) auto

lemma places_step:
  assumes "sha_ok sha" "places sha xs head tail" "item_in sha c y"
  shows "\<exists>head'. (if length xs > 1
                then (case (head, tail) of
                        (Some t, Some h) \<Rightarrow>
                          bindE (Builder_storeRef sha (ACell t) new_Builder) (\<lambda>b.
                          bindE (Builder_storeRef sha (ACell h) b) (\<lambda>b.
                          bindE (Builder_endCell sha False b) (\<lambda>c. Inr (Some c))))
                      | _ \<Rightarrow> Inl TypeErr)
                else Inr tail) = Inr head' \<and> places sha (xs @ [y]) head' (Some c)"
proof (cases "1 < length xs")
  case True
  then obtain h t where h: "head = Some h" "tail = Some t" "chain sha h (butlast xs)" "item_in sha t (last xs)"
    using assms(2) places_long [of xs sha head tail] by auto
  obtain d e p where p: "Builder_storeRef sha (ACell h) new_Builder = Inr d" "Builder_storeRef sha (ACell t) d = Inr e"
    "Builder_endCell sha False e = Inr p" "cell_ok p" "cell_type p = Ordinary" "cell_refs p = [h, t]"
    using pair_cell [OF assms(1)] chain_nonempty [OF h(3)] h(4) unfolding item_in_def by blast
  have "xs \<noteq> []" using True by auto
  then have "chain sha p xs" using chain_more [OF h(3,4) p(4-6)] by simp
  then have "places sha (xs @ [y]) (Some p) (Some c)"
    using places_long [of "xs @ [y]" sha "Some p" "Some c"] \<open>xs \<noteq> []\<close> assms(3) by simp
  with True h(1,2) p(1-3) show ?thesis by simp
next
  case False
  with assms(2,3) show ?thesis by (cases xs) (auto intro: chain_first)
qed

text \<open>An item whose writer and reader agree gives a cell that holds it.\<close>

lemma item_cell_in:
  assumes "sha_ok sha" "rt (serializeTupleItem sha x) (parseStackItem sha) x' 272 2"
  shows "\<exists>b c. serializeTupleItem sha x new_Builder = Inr b \<and> Builder_endCell sha False b = Inr c \<and> item_in sha c x'"
  using rt_cell [OF assms(2,1)] by (auto simp: item_in_def)

lemma loop_places:
  assumes "sha_ok sha" "\<forall>y \<in> set ys. \<exists>y'. same_item y y' \<and> rt (serializeTupleItem sha y) (parseStackItem sha) y' 272 2"
    and "places sha xs head tail" "i = length xs"
  shows "\<exists>h t ys'. serializeTupleLoop sha ys i head tail = Inr (h, t) \<and> list_all2 same_item ys ys' \<and> places sha (xs @ ys') h t"
  using assms(2-4)
proof (induction ys arbitrary: xs head tail i)
  case Nil
  then show ?case by auto
next
  case (Cons y ys)
  obtain y' where y: "same_item y y'" "rt (serializeTupleItem sha y) (parseStackItem sha) y' 272 2" using Cons.prems(1) by auto
  obtain b c where c: "serializeTupleItem sha y new_Builder = Inr b" "Builder_endCell sha False b = Inr c" "item_in sha c y'"
    using item_cell_in [OF assms(1) y(2)] by blast
  have "\<exists>head'. (if i > 1
                then (case (head, tail) of
                        (Some t, Some h) \<Rightarrow>
                          bindE (Builder_storeRef sha (ACell t) new_Builder) (\<lambda>b.
                          bindE (Builder_storeRef sha (ACell h) b) (\<lambda>b.
                          bindE (Builder_endCell sha False b) (\<lambda>c. Inr (Some c))))
                      | _ \<Rightarrow> Inl TypeErr)
                else Inr tail) = Inr head' \<and> places sha (xs @ [y']) head' (Some c)"
    unfolding Cons.prems(3) by (rule places_step [OF assms(1) Cons.prems(2) c(3)])
  then obtain head' where h: "(if i > 1
                then (case (head, tail) of
                        (Some t, Some h) \<Rightarrow>
                          bindE (Builder_storeRef sha (ACell t) new_Builder) (\<lambda>b.
                          bindE (Builder_storeRef sha (ACell h) b) (\<lambda>b.
                          bindE (Builder_endCell sha False b) (\<lambda>c. Inr (Some c))))
                      | _ \<Rightarrow> Inl TypeErr)
                else Inr tail) = Inr head'" "places sha (xs @ [y']) head' (Some c)" by blast
  have step: "serializeTupleLoop sha (y # ys) i head tail = serializeTupleLoop sha ys (i + 1) head' (Some c)"
    unfolding serializeTupleLoop.simps Let_def h(1) using c(1,2) by simp
  from Cons.IH [OF _ h(2), of "i + 1"] Cons.prems obtain h2 t2 ys' where
    "serializeTupleLoop sha ys (i + 1) head' (Some c) = Inr (h2, t2)" "list_all2 same_item ys ys'"
    "places sha ((xs @ [y']) @ ys') h2 t2" by auto
  with step y(1) show ?case by (intro exI [of _ h2] exI [of _ t2] exI [of _ "y' # ys'"]) simp
qed

section \<open>Items\<close>

lemma rt_load_parse:
  assumes "cell_ok c" "Cell_beginParse c False = Inr t"
  shows "rt (Builder_storeRef sha (ACell c)) load_parse t 0 1"
proof -
  have "rt (\<lambda>b. bindE (Builder_storeRef sha (ACell c) b) Inr) load_parse t (0 + 0) (1 + 0)"
    unfolding load_parse_def [abs_def] by (rule rt_bind [OF rt_ref [OF assms(1)]]) (use assms(2) rt_return in simp)
  then show ?thesis by simp
qed

text \<open>Every kind of item begins with its number in eight bits.\<close>

lemma rt_kind:
  assumes "rt f (\<lambda>s. h s) v n k"
    and "\<And>s. parseStackItem sha s = bindE (Slice_loadUint 8 s) (\<lambda>(kind, s). g kind s)" "g kind = h"
    and "0 \<le> kind" "kind < 256"
  shows "rt (\<lambda>b. bindE (Builder_storeUint (Num kind) 8 b) f) (parseStackItem sha) v (8 + n) (0 + k)"
proof -
  have "parseStackItem sha = (\<lambda>s. bindE (Slice_loadUint 8 s) (\<lambda>(kind, s). g kind s))" using assms(2) by (rule ext)
  moreover have "rt (\<lambda>b. bindE (Builder_storeUint (Num kind) 8 b) f)
      (\<lambda>s. bindE (Slice_loadUint 8 s) (\<lambda>(kind, s). g kind s)) v (8 + n) (0 + k)"
    by (rule rt_bind [OF rt_num]) (use assms in simp_all)
  ultimately show ?thesis by simp
qed

text \<open>The kinds one by one.\<close>

lemma rt_null: "rt (serializeTupleItem sha TNull) (parseStackItem sha) TNull 8 0"
proof -
  have "rt Inr (\<lambda>s. Inr (TNull, s)) TNull 0 0" by (rule rt_return)
  from rt_kind [OF this parseStackItem.simps, of 0] show ?thesis
    unfolding serializeTupleItem.simps [abs_def] by simp
qed

lemma rt_cell_item: "cell_ok c \<Longrightarrow> rt (serializeTupleItem sha (TCell c)) (parseStackItem sha) (TCell c) 8 1"
  unfolding serializeTupleItem.simps [abs_def]
  using rt_kind [OF rt_map [OF rt_ref, of c "TCell c" TCell] parseStackItem.simps, of 3] by simp

lemma rt_builder_item: "cell_ok c \<Longrightarrow> rt (serializeTupleItem sha (TBuilder c)) (parseStackItem sha) (TBuilder c) 8 1"
  unfolding serializeTupleItem.simps [abs_def]
  using rt_kind [OF rt_map [OF rt_ref, of c "TBuilder c" TBuilder] parseStackItem.simps, of 5] by simp

lemma rt_small_int:
  assumes "int_range 64 v"
  shows "rt (\<lambda>b. bindE (Builder_storeUint (Num 1) 8 b) (Builder_storeInt (Big v) 64)) (parseStackItem sha) (TInt v) 72 0"
proof -
  have "rt (Builder_storeInt (Big v) 64) (Slice_loadIntBig 64) v 64 0"
    using s_int.rt_codec [of 64 v 64 0] assms by simp
  from rt_kind [OF rt_map [OF this, of "TInt v" TInt] parseStackItem.simps, of 1] show ?thesis by simp
qed

text \<open>Kind 2 is told apart by the seven bits behind it, which the writer joins with the kind.\<close>

lemma loads_num: "0 \<le> v \<Longrightarrow> v < 2 ^ n \<Longrightarrow> v < 2 ^ 53 \<Longrightarrow> loads (Slice_loadUint (int n)) (bits_be n v) [] v"
  using s_num.load_ok [of v n] by (simp add: loads_def sreads_def)

lemma rt_stores_loads:
  assumes "\<And>b. bl_fits b n k \<Longrightarrow> stores (f b) b xs rs" "loads g xs rs v" "length xs = n" "length rs = k"
    and "\<forall>r \<in> set rs. cell_ok r"
  shows "rt f g v n k"
  by (rule rtI) (use assms in blast)

lemma loads_kind:
  assumes "loads h xs rs v" "\<And>s. parseStackItem sha s = bindE (Slice_loadUint 8 s) (\<lambda>(kind, s). g kind s)"
    and "g kind = h" "0 \<le> kind" "kind < 256"
  shows "loads (parseStackItem sha) (bits_be 8 kind @ xs) rs v"
proof -
  have 1: "loads (Slice_loadUint 8) (bits_be 8 kind) [] kind" using loads_num [of kind 8] assms by simp
  have "parseStackItem sha = (\<lambda>s. bindE (Slice_loadUint 8 s) (\<lambda>(kind, s). g kind s))" using assms(2) by (rule ext)
  then show ?thesis using loads_bind [where h = g, OF 1, of xs rs v] assms(1,3) by simp
qed

definition load_kind_2 :: "tuple_item sload" where
  "load_kind_2 s = bindE (Slice_loadUint 7 s) (\<lambda>(z, cs).
          if z = 0 then bindE (Slice_loadIntBig 257 cs) (\<lambda>(v, cs). Inr (TInt v, cs))
          else bindE (Slice_loadBit cs) (\<lambda>(_, cs). Inr (TNaN, cs)))"

lemma loads_kind_2: "loads load_kind_2 xs rs v \<Longrightarrow> loads (parseStackItem sha) (bits_be 8 2 @ xs) rs v"
  by (rule loads_kind [OF _ parseStackItem.simps]) (simp_all add: load_kind_2_def [abs_def])

lemma rt_big_int:
  assumes "int_range 257 v"
  shows "rt (\<lambda>b. bindE (Builder_storeUint (Num 256) 15 b) (Builder_storeInt (Big v) 257)) (parseStackItem sha) (TInt v) 272 0"
proof (rule rt_stores_loads [of _ _ _ "bits_be 15 256 @ bits_be 257 v" "[] @ []"])
  fix b assume b: "bl_fits b 272 0"
  show "stores (bindE (Builder_storeUint (Num 256) 15 b) (Builder_storeInt (Big v) 257)) b (bits_be 15 256 @ bits_be 257 v) ([] @ [])"
  proof (rule stores_bind)
    show "stores (Builder_storeUint (Num 256) 15 b) b (bits_be 15 256) []" if "bl_fits b (length (bits_be 15 256)) (length [])"
      using s_num.store_ok [where n = 15 and v = 256 and b = b] that by simp
    show "stores (Builder_storeInt (Big v) 257 b') b' (bits_be 257 v) []" if "bl_fits b' (length (bits_be 257 v)) (length [])" for b'
      using s_int.store_ok [where n = 257 and v = v and b = b'] that assms by simp
  qed (use b in simp)
next
  have 7: "loads (Slice_loadUint 7) (bits_be 7 0) [] 0" using loads_num [of 0 7] by simp
  have "loads (Slice_loadIntBig 257) (bits_be 257 v) [] v"
    using s_int.load_ok [where n = 257 and v = v] assms by (simp add: loads_def sreads_def)
  from loads_bind [where h = "\<lambda>z cs. if z = 0 then bindE (Slice_loadIntBig 257 cs) (\<lambda>(v, cs). Inr (TInt v, cs))
          else bindE (Slice_loadBit cs) (\<lambda>(_, cs). Inr (TNaN, cs))", OF 7, of "bits_be 257 v" "[]" "TInt v"]
    loads_map [OF this, of TInt]
  have "loads load_kind_2 (bits_be 7 0 @ bits_be 257 v) [] (TInt v)" by (simp add: load_kind_2_def [abs_def])
  from loads_kind_2 [OF this] show "loads (parseStackItem sha) (bits_be 15 256 @ bits_be 257 v) ([] @ []) (TInt v)"
    using bits_be_add [of 8 7 256] bits_be_mod [of 7 256] by simp
qed simp_all

lemma rt_nan: "rt (serializeTupleItem sha TNaN) (parseStackItem sha) TNaN 16 0"
proof (rule rt_stores_loads [of _ _ _ "bits_be 16 767" "[]"])
  show "stores (serializeTupleItem sha TNaN b) b (bits_be 16 767) []" if "bl_fits b 16 0" for b
    using s_num_int.store_ok [where n = 16 and v = 767 and b = b] that by (simp add: int_range_def)
next
  have 7: "loads (Slice_loadUint 7) (bits_be 7 127) [] 127" using loads_num [of 127 7] by simp
  have "loads Slice_loadBit [True] [] True"
    using s_bit.load_ok [where v = True] by (simp add: loads_def sreads_def)
  from loads_bind [where h = "\<lambda>z cs. if z = 0 then bindE (Slice_loadIntBig 257 cs) (\<lambda>(v, cs). Inr (TInt v, cs))
          else bindE (Slice_loadBit cs) (\<lambda>(_, cs). Inr (TNaN, cs))", OF 7, of "[True]" "[]" TNaN]
    loads_map [OF this, of "\<lambda>_. TNaN"]
  have "loads load_kind_2 (bits_be 7 127 @ [True]) [] TNaN" by (simp add: load_kind_2_def [abs_def])
  from loads_kind_2 [OF this] show "loads (parseStackItem sha) (bits_be 16 767) [] TNaN"
    using bits_be_add [of 8 8 767] bits_be_Suc [of 7 255] bits_be_mod [of 8 767] by simp
qed simp_all

lemma rt_int_item:
  assumes "int_range 257 v"
  shows "rt (serializeTupleItem sha (TInt v)) (parseStackItem sha) (TInt v) 272 0"
proof (cases "v \<le> 9223372036854775807 \<and> v \<ge> -9223372036854775808")
  case True
  then have "int_range 64 v" by (simp add: int_range_def)
  from rt_le [OF rt_small_int [OF this], of 272 0] True show ?thesis
    unfolding serializeTupleItem.simps [abs_def] by simp
next
  case False
  then show ?thesis using rt_big_int [OF assms] unfolding serializeTupleItem.simps [abs_def] by (simp only: if_False)
qed

lemma rt_slice_item:
  assumes "sha_ok sha" "made sha c" "cell_type c = Ordinary"
  shows "\<exists>d. xtree c = xtree d \<and> rt (serializeTupleItem sha (TSlice c)) (parseStackItem sha) (TSlice d) 34 1"
proof -
  have ok: "cell_ok c" using assms(2) by (rule madeD)
  obtain t where t: "Cell_beginParse c False = Inr t" using beginParse_ok [OF ok, of False] assms(3) by auto
  obtain d where d: "copy_slice sha 0 (int (bs_length (cell_bits c))) 0 (int (length (cell_refs c))) t = Inr d" "xtree d = xtree c"
    using copy_slice_same [OF assms t] by blast
  have len: "int (bs_length (cell_bits c)) < 2 ^ 10" "int (length (cell_refs c)) < 2 ^ 3"
    using ok assms(3) by (auto simp: cell_ok_def)
  have ref: "rt (\<lambda>b. bindE (Builder_storeRef sha (ACell c) b) Inr)
      (\<lambda>cs. bindE (load_parse cs) (\<lambda>(rs, cs). bindE (copy_slice sha 0 (int (bs_length (cell_bits c))) 0
         (int (length (cell_refs c))) rs) (\<lambda>c. Inr (TSlice c, cs)))) (TSlice d) (0 + 0) (1 + 0)"
    by (rule rt_bind [OF rt_load_parse [OF ok t]]) (use d(1) rt_return in simp)
  have "rt (\<lambda>b. bindE (Builder_storeUint (Num 0) 10 b) (\<lambda>b.
     bindE (Builder_storeUint (Num (int (bs_length (cell_bits c)))) 10 b) (\<lambda>b.
     bindE (Builder_storeUint (Num 0) 3 b) (\<lambda>b.
     bindE (Builder_storeUint (Num (int (length (cell_refs c)))) 3 b) (\<lambda>b. bindE (Builder_storeRef sha (ACell c) b) Inr)))))
     (\<lambda>cs. bindE (Slice_loadUint 10 cs) (\<lambda>(startBits, cs).
          bindE (Slice_loadUint 10 cs) (\<lambda>(endBits, cs).
          bindE (Slice_loadUint 3 cs) (\<lambda>(startRefs, cs).
          bindE (Slice_loadUint 3 cs) (\<lambda>(endRefs, cs).
          bindE (load_parse cs) (\<lambda>(rs, cs).
          bindE (copy_slice sha startBits endBits startRefs endRefs rs) (\<lambda>c. Inr (TSlice c, cs))))))))
     (TSlice d) (10 + (10 + (3 + (3 + (0 + 0))))) (0 + (0 + (0 + (0 + (1 + 0)))))"
    by (rule rt_bind [OF rt_num] ref | use len in simp; fail)+
  from rt_kind [OF this parseStackItem.simps, of 4] d(2) show ?thesis
    unfolding serializeTupleItem.simps [abs_def] by (intro exI [of _ d]) simp
qed

text \<open>The references of a nested tuple.\<close>

definition store_places :: "(buffer \<Rightarrow> buffer) \<Rightarrow> cell option \<Rightarrow> cell option \<Rightarrow> builder \<Rightarrow> builder res" where
  "store_places sha head tail b =
     bindE (case head of Some c \<Rightarrow> Builder_storeRef sha (ACell c) b | None \<Rightarrow> Inr b) (\<lambda>b.
     case tail of Some c \<Rightarrow> Builder_storeRef sha (ACell c) b | None \<Rightarrow> Inr b)"

definition load_places :: "(buffer \<Rightarrow> buffer) \<Rightarrow> int \<Rightarrow> tuple_item sload" where
  "load_places sha len cs =
     (if len > 1
      then bindE (load_parse cs) (\<lambda>(head, cs).
           bindE (load_parse cs) (\<lambda>(tail, cs).
           bindE (parseStackItem sha tail) (\<lambda>(item, _).
           bindE (parseTupleLoop sha (nat (len - 2)) head [item]) (\<lambda>items. Inr (TTuple items, cs)))))
      else if len = 1
      then bindE (load_parse cs) (\<lambda>(only, cs).
           bindE (parseStackItem sha only) (\<lambda>(item, _). Inr (TTuple [item], cs)))
      else Inr (TTuple [], cs))"

lemma rt_places_long:
  assumes "chain sha h (butlast ys)" "item_in sha t (last ys)" "1 < length ys"
  shows "rt (store_places sha (Some h) (Some t)) (load_places sha (int (length ys))) (TTuple ys) 0 2"
proof -
  obtain hs where hs: "Cell_beginParse h False = Inr hs"
    "\<forall>items. parseTupleLoop sha (length (butlast ys) - 1) hs items = Inr (butlast ys @ items)"
    using chain_parses [OF assms(1)] by blast
  obtain ts ts' where ts: "Cell_beginParse t False = Inr ts" "parseStackItem sha ts = Inr (last ys, ts')" "cell_ok t"
    using assms(2) by (auto simp: item_in_def)
  have h: "cell_ok h" using chain_nonempty [OF assms(1)] by blast
  have n: "nat (int (length ys) - 2) = length (butlast ys) - 1" using assms(3) by simp
  have ys: "butlast ys @ [last ys] = ys" using assms(3) by (intro append_butlast_last_id) auto
  have tail: "rt (\<lambda>b. bindE (Builder_storeRef sha (ACell t) b) Inr)
    (\<lambda>cs. bindE (load_parse cs) (\<lambda>(tail, cs). bindE (parseStackItem sha tail) (\<lambda>(item, _).
       bindE (parseTupleLoop sha (nat (int (length ys) - 2)) hs [item]) (\<lambda>items. Inr (TTuple items, cs))))) (TTuple ys) (0 + 0) (1 + 0)"
    by (rule rt_bind [OF rt_load_parse [OF ts(3,1)]]) (unfold n, use ts(2) hs(2) ys rt_return in simp)
  have "rt (\<lambda>b. bindE (Builder_storeRef sha (ACell h) b) (\<lambda>b. bindE (Builder_storeRef sha (ACell t) b) Inr))
    (\<lambda>cs. bindE (load_parse cs) (\<lambda>(head, cs).
           bindE (load_parse cs) (\<lambda>(tail, cs).
           bindE (parseStackItem sha tail) (\<lambda>(item, _).
           bindE (parseTupleLoop sha (nat (int (length ys) - 2)) head [item]) (\<lambda>items. Inr (TTuple items, cs))))))
    (TTuple ys) (0 + (0 + 0)) (1 + (1 + 0))"
    by (rule rt_bind [OF rt_load_parse [OF h hs(1)]]) (use tail in simp)
  then show ?thesis using assms(3) by (simp add: store_places_def [abs_def] load_places_def [abs_def] numeral_2_eq_2)
qed

lemma rt_places_items:
  assumes "places sha ys head tail"
  shows "rt (store_places sha head tail) (load_places sha (int (length ys))) (TTuple ys) 0 2"
proof (cases ys rule: remdups_adj.cases)
  case 1
  have "rt Inr (\<lambda>s. Inr (TTuple [], s)) (TTuple []) 0 0" by (rule rt_return)
  then have "rt Inr (\<lambda>s. Inr (TTuple [], s)) (TTuple []) 0 2" by (rule rt_le) simp_all
  with 1 assms show ?thesis by (simp add: store_places_def [abs_def] load_places_def [abs_def])
next
  case (2 x)
  with assms obtain t s s' where t: "head = None" "tail = Some t" "cell_ok t" "Cell_beginParse t False = Inr s"
    "parseStackItem sha s = Inr (x, s')" by (auto simp: item_in_def)
  have "rt (\<lambda>b. bindE (Builder_storeRef sha (ACell t) b) Inr)
    (\<lambda>cs. bindE (load_parse cs) (\<lambda>(only, cs).
               bindE (parseStackItem sha only) (\<lambda>(item, _). Inr (TTuple [item], cs)))) (TTuple [x]) (0 + 0) (1 + 0)"
    by (rule rt_bind [OF rt_load_parse [OF t(3,4)]]) (use t(5) rt_return in simp)
  then have "rt (\<lambda>b. bindE (Builder_storeRef sha (ACell t) b) Inr)
    (\<lambda>cs. bindE (load_parse cs) (\<lambda>(only, cs).
               bindE (parseStackItem sha only) (\<lambda>(item, _). Inr (TTuple [item], cs)))) (TTuple [x]) 0 2"
    by (rule rt_le) simp_all
  with 2 t(1,2) show ?thesis by (simp add: store_places_def [abs_def] load_places_def [abs_def])
next
  case (3 x y zs)
  with assms obtain h t where "head = Some h" "tail = Some t" "chain sha h (butlast ys)" "item_in sha t (last ys)" by auto
  with rt_places_long [of sha h ys t] 3 show ?thesis by simp
qed

lemma rt_tuple_item:
  assumes "sha_ok sha" "length xs < 2 ^ 16"
    and "\<forall>y \<in> set xs. \<exists>y'. same_item y y' \<and> rt (serializeTupleItem sha y) (parseStackItem sha) y' 272 2"
  shows "\<exists>ys. list_all2 same_item xs ys \<and> rt (serializeTupleItem sha (TTuple xs)) (parseStackItem sha) (TTuple ys) 24 2"
proof -
  have "places sha [] None None" by simp
  from loop_places [OF assms(1,3) this, of 0] obtain head tail ys where
    l: "serializeTupleLoop sha xs 0 None None = Inr (head, tail)" "list_all2 same_item xs ys" "places sha ys head tail" by auto
  have len: "length ys = length xs" using l(2) by (simp add: list_all2_lengthD)
  have "rt (\<lambda>b. bindE (Builder_storeUint (Num (int (length xs))) 16 b) (store_places sha head tail))
      (\<lambda>cs. bindE (Slice_loadUint 16 cs) (\<lambda>(len, cs). load_places sha len cs)) (TTuple ys) (16 + 0) (0 + 2)"
    by (rule rt_bind [OF rt_num]) (use rt_places_items [OF l(3)] len assms(2) in simp_all)
  from rt_kind [where kind = 7 and sha = sha, OF this [unfolded load_places_def] parseStackItem.simps] l(1,2) show ?thesis
    unfolding serializeTupleItem.simps [abs_def] store_places_def [abs_def]
    by (intro exI [of _ ys]) (simp add: numeral_2_eq_2)
qed

lemma rt_item:
  assumes "sha_ok sha" "valid_item sha v"
  shows "\<exists>w. same_item v w \<and> rt (serializeTupleItem sha v) (parseStackItem sha) w 272 2"
  using assms(2)
proof (induction v)
  case TNull
  show ?case by (intro exI [of _ TNull] conjI same_null rt_le [OF rt_null]) simp_all
next
  case (TInt v)
  then show ?case by (intro exI [of _ "TInt v"] conjI same_int rt_le [OF rt_int_item]) simp_all
next
  case TNaN
  show ?case by (intro exI [of _ TNaN] conjI same_nan rt_le [OF rt_nan]) simp_all
next
  case (TCell c)
  then show ?case by (intro exI [of _ "TCell c"] conjI same_cell rt_le [OF rt_cell_item]) simp_all
next
  case (TSlice c)
  then obtain d where "xtree c = xtree d" "rt (serializeTupleItem sha (TSlice c)) (parseStackItem sha) (TSlice d) 34 1"
    using rt_slice_item [OF assms(1), of c] by auto
  then show ?case by (intro exI [of _ "TSlice d"] conjI same_slice) (assumption, erule rt_le, simp_all)
next
  case (TBuilder c)
  then show ?case by (intro exI [of _ "TBuilder c"] conjI same_builder rt_le [OF rt_builder_item]) simp_all
next
  case (TTuple xs)
  then obtain ys where "list_all2 same_item xs ys" "rt (serializeTupleItem sha (TTuple xs)) (parseStackItem sha) (TTuple ys) 24 2"
    using rt_tuple_item [OF assms(1), of xs] by auto
  then show ?case by (intro exI [of _ "TTuple ys"] conjI same_tuple) (assumption, erule rt_le, simp_all)
qed

section \<open>The stack of items\<close>

text \<open>The cell of a list of items refers to the cell of all but the last.\<close>

lemma rt_then:
  assumes "rt f g v n k" "\<And>s. \<exists>w s'. h v s = Inr (w, s') \<and> P w"
  shows "rt_end f (\<lambda>s. bindE (g s) (\<lambda>(v, s). h v s)) P n k"
  unfolding rt_end_def
proof (intro allI impI)
  fix b assume "end_fits b n k"
  then have b: "bl_fits b n k" by (simp add: end_fits_def)
  from rtE [OF assms(1) this] obtain xs rs where x: "length xs \<le> n" "length rs \<le> k" "\<forall>r \<in> set rs. cell_ok r"
    "stores (f b) b xs rs" "loads g xs rs v" .
  have "\<exists>w s'. bindE (g s) (\<lambda>(v, s). h v s) = Inr (w, s') \<and> P w" if "sl_ok s" "sl_bits s = xs" "sl_cells s = rs" for s
    using x(5) that assms(2) by (simp add: loads_def)
  with x bl_fits_ends [OF b x(1-3)] show "\<exists>xs rs. ends_ok b n xs rs \<and> stores (f b) b xs rs \<and>
     (\<forall>s. sl_ok s \<and> sl_bits s = xs \<and> sl_cells s = rs \<longrightarrow> (\<exists>w s'. bindE (g s) (\<lambda>(v, s). h v s) = Inr (w, s') \<and> P w))"
    by blast
qed

definition stack_ok :: "(buffer \<Rightarrow> buffer) \<Rightarrow> slice \<Rightarrow> tuple_item list \<Rightarrow> tuple_item list \<Rightarrow> bool" where
  "stack_ok sha s0 xs ys \<longleftrightarrow> (\<forall>items. rt_end (serializeTupleTail sha xs)
    (\<lambda>s. bindE (parseTuple_loop sha (length xs) s items) (\<lambda>v. Inr (v, s0))) ((=) (ys @ items)) 272 3)"

lemma stack_snoc:
  assumes "sha_ok sha" "stack_ok sha s0 xs ys" "rt (serializeTupleItem sha x) (parseStackItem sha) y 272 2"
  shows "stack_ok sha s0 (xs @ [x]) (ys @ [y])"
  unfolding stack_ok_def
proof
  fix items
  obtain b c s where c: "serializeTupleTail sha xs new_Builder = Inr b" "Builder_endCell sha False b = Inr c" "cell_ok c"
    "Cell_beginParse c False = Inr s" "parseTuple_loop sha (length xs) s (y # items) = Inr (ys @ y # items)"
    using rt_end_cell [OF assms(2) [unfolded stack_ok_def, rule_format, of "y # items"] assms(1)]
    by (auto simp: bindE_eq_Inr)
  have item: "rt_end (serializeTupleItem sha x) (\<lambda>s. bindE (parseStackItem sha s) (\<lambda>(item, _).
       bindE (Cell_beginParse c False) (\<lambda>cs. bindE (parseTuple_loop sha (length xs) cs (item # items)) (\<lambda>v. Inr (v, s0)))))
       ((=) ((ys @ [y]) @ items)) 272 2"
    by (rule rt_then [OF assms(3)]) (use c(4,5) in simp)
  have "rt_end (\<lambda>b. bindE (Builder_storeRef sha (ACell c) b) (serializeTupleItem sha x))
      (\<lambda>s. bindE (Slice_loadRef s) (\<lambda>(next, s). bindE (parseStackItem sha s) (\<lambda>(item, _).
       bindE (Cell_beginParse next False) (\<lambda>cs. bindE (parseTuple_loop sha (length xs) cs (item # items)) (\<lambda>v. Inr (v, s0))))))
      ((=) ((ys @ [y]) @ items)) (0 + 272) (1 + 2)"
    by (rule rt_end_bind [OF rt_ref [OF c(3)]]) (use item in simp)
  moreover have "serializeTupleTail sha (xs @ [x]) = (\<lambda>b. bindE (Builder_storeRef sha (ACell c) b) (serializeTupleItem sha x))"
    by (rule ext, subst serializeTupleTail.simps) (use c(1,2) in simp)
  moreover have "(\<lambda>s. bindE (parseTuple_loop sha (length (xs @ [x])) s items) (\<lambda>v. Inr (v, s0))) =
      (\<lambda>s. bindE (Slice_loadRef s) (\<lambda>(next, s). bindE (parseStackItem sha s) (\<lambda>(item, _).
       bindE (Cell_beginParse next False) (\<lambda>cs. bindE (parseTuple_loop sha (length xs) cs (item # items)) (\<lambda>v. Inr (v, s0))))))"
    by (rule ext) (simp add: bindE_assoc case_prod_unfold)
  ultimately show "rt_end (serializeTupleTail sha (xs @ [x]))
      (\<lambda>s. bindE (parseTuple_loop sha (length (xs @ [x])) s items) (\<lambda>v. Inr (v, s0))) ((=) ((ys @ [y]) @ items)) 272 3"
    by (simp add: numeral_3_eq_3)
qed

lemma stack_items:
  assumes "sha_ok sha" "\<forall>x \<in> set xs. valid_item sha x"
  shows "\<exists>ys. list_all2 same_item xs ys \<and> stack_ok sha s0 xs ys"
  using assms(2)
proof (induction xs rule: rev_induct)
  case Nil
  have "rt Inr (\<lambda>s. Inr ((), s)) () 0 0" by (rule rt_return)
  then have "rt_end Inr (\<lambda>s. bindE (Inr ((), s)) (\<lambda>(_, s). Inr (items, s0))) ((=) items) 0 0" for items
    by (rule rt_then) simp
  from rt_end_le [OF this, of 272 3] have "rt_end Inr (\<lambda>s. Inr (items, s0)) ((=) items) 272 3" for items by simp
  then show ?case by (auto simp: stack_ok_def serializeTupleTail.simps [abs_def])
next
  case (snoc x xs)
  then obtain ys where ys: "list_all2 same_item xs ys" "stack_ok sha s0 xs ys" by auto
  obtain y where y: "same_item x y" "rt (serializeTupleItem sha x) (parseStackItem sha) y 272 2"
    using rt_item [OF assms(1), of x] snoc.prems by auto
  from stack_snoc [OF assms(1) ys(2) y(2)] ys(1) y(1) show ?case
    by (intro exI [of _ "ys @ [y]"]) (simp add: list_all2_appendI)
qed

lemma tuple_through:
  assumes "sha_ok sha" "length xs < 2 ^ 24" "\<forall>x \<in> set xs. valid_item sha x"
  shows "\<exists>c ys. serializeTuple sha xs = Inr c \<and> cell_ok c \<and> parseTuple sha c = Inr ys \<and> list_all2 same_item xs ys"
proof -
  let ?s0 = "new_Slice (new_BitReader BitString_EMPTY 0) []"
  obtain ys where ys: "list_all2 same_item xs ys" "stack_ok sha ?s0 xs ys" using stack_items [OF assms(1,3)] by blast
  have "rt_end (\<lambda>b. bindE (Builder_storeUint (Num (int (length xs))) 24 b) (serializeTupleTail sha xs))
      (\<lambda>s. bindE (Slice_loadUint 24 s) (\<lambda>(n, s). bindE (parseTuple_loop sha (nat n) s []) (\<lambda>v. Inr (v, ?s0))))
      ((=) ys) (24 + 272) (0 + 3)"
    by (rule rt_end_bind [OF rt_num]) (use assms(2) ys(2) [unfolded stack_ok_def, rule_format, of "[]"] in simp_all)
  from rt_end_cell [OF this assms(1)] obtain b c s where
    "bindE (Builder_storeUint (Num (int (length xs))) 24 new_Builder) (serializeTupleTail sha xs) = Inr b"
    "Builder_endCell sha False b = Inr c" "cell_ok c" "Cell_beginParse c False = Inr s"
    "bindE (Slice_loadUint 24 s) (\<lambda>(n, s). bindE (parseTuple_loop sha (nat n) s []) (\<lambda>v. Inr (v, ?s0))) = Inr (ys, ?s0)"
    by (auto simp: bindE_eq_Inr)
  then show ?thesis using ys(1)
    by (intro exI [of _ c] exI [of _ ys]) (auto simp: serializeTuple_def parseTuple_def bindE_eq_Inr)
qed

end
