(* ===== verification/Ton_Wallets.thy ===== *)
theory Ton_Wallets
  imports Ton_Shards Boc Node_Text
begin

text \<open>
  The wallets of coin-ton (ton/wallets/) and the address of a contract
  (ton-core/address/contractAddress.ts). A wallet is its two cells and the address that follows from
  them; a transfer is a cell with the messages, the signature of its hash in front, and the whole in
  an external message to the wallet. Time and signatures come from outside: \<open>now\<close> is
  \<open>Date.now()\<close> in milliseconds, \<open>detached data key\<close> is \<open>nacl.sign.detached\<close> of tweetnacl (which
  throws on a key of the wrong size), \<open>eddsa secret data\<close> the signature of the vendored elliptic
  library.
\<close>

section \<open>The address of a contract\<close>

definition contractAddress :: "(buffer \<Rightarrow> buffer) \<Rightarrow> int \<Rightarrow> state_init \<Rightarrow> address res" where
  "contractAddress sha workchain init =
     bindE (Builder_store (storeStateInit sha init) new_Builder) (\<lambda>b.
     bindE (Builder_endCell sha False b) (\<lambda>c. new_Address workchain (Cell_hash c 3)))"

section \<open>Signatures of cells (ton-core/crypto/safeSign.ts)\<close>

text \<open>\<open>verify data signature key\<close> is \<open>nacl.sign.detached.verify\<close>; the seed is given by its bytes.\<close>

definition createSafeSignHash :: "(buffer \<Rightarrow> buffer) \<Rightarrow> cell \<Rightarrow> buffer \<Rightarrow> buffer res" where
  "createSafeSignHash sha c seedData =
     (if length seedData > 64 then Inl InvalidSize
      else if length seedData < 8 then Inl InvalidSize
      else Inr (sha ([0xff, 0xff] @ seedData @ Cell_hash c 3)))"

definition safeSign ::
    "(buffer \<Rightarrow> buffer) \<Rightarrow> (buffer \<Rightarrow> buffer \<Rightarrow> buffer res) \<Rightarrow> cell \<Rightarrow> buffer \<Rightarrow> buffer \<Rightarrow> buffer res" where
  "safeSign sha detached c secretKey seed = bindE (createSafeSignHash sha c seed) (\<lambda>h. detached h secretKey)"

definition safeSignVerify ::
    "(buffer \<Rightarrow> buffer) \<Rightarrow> (buffer \<Rightarrow> buffer \<Rightarrow> buffer \<Rightarrow> bool res) \<Rightarrow> cell \<Rightarrow> buffer \<Rightarrow> buffer \<Rightarrow> buffer \<Rightarrow> bool res" where
  "safeSignVerify sha verify c signature publicKey seed =
     bindE (createSafeSignHash sha c seed) (\<lambda>h. verify h signature publicKey)"

section \<open>The signed body of a transfer\<close>

text \<open>\<open>secretKey.slice(0, 32)\<close> of a key that has the public key behind it.\<close>

definition ed25519_sign :: "(buffer \<Rightarrow> buffer \<Rightarrow> buffer) \<Rightarrow> buffer \<Rightarrow> buffer \<Rightarrow> buffer res" where
  "ed25519_sign eddsa message secretKey =
     Inr (eddsa (if length secretKey = 64 then take 32 secretKey else secretKey) message)"

text \<open>
  The time until which a transfer is valid: 32 ones for the first one, and the timeout or the
  current time and \<open>extra\<close> seconds; \<open>timeout || default\<close> takes zero for a missing value.
\<close>

definition store_timeout :: "int \<Rightarrow> int \<Rightarrow> int \<Rightarrow> int option \<Rightarrow> builder \<Rightarrow> builder res" where
  "store_timeout now extra seqno timeout b =
     (if seqno = 0 then foldE (\<lambda>_. Builder_storeBit (BitNum 1)) [0..<32] b
      else Builder_storeUint (Num (if timeout = None \<or> timeout = Some 0 then now div 1000 + extra else the timeout)) 32 b)"

definition store_transfer_message ::
    "(buffer \<Rightarrow> buffer) \<Rightarrow> int \<Rightarrow> message_relaxed \<Rightarrow> builder \<Rightarrow> builder res" where
  "store_transfer_message sha sendMode m b =
     bindE (Builder_storeUint (Num sendMode) 8 b) (\<lambda>b.
     bindE (Builder_store (storeMessageRelaxed sha m False) new_Builder) (\<lambda>d.
     Builder_storeRef sha (ABuilder d) b))"

text \<open>The signature of the hash of the message, and the message behind it.\<close>

definition sign_transfer ::
    "(buffer \<Rightarrow> buffer) \<Rightarrow> (buffer \<Rightarrow> buffer res) \<Rightarrow> builder \<Rightarrow> cell res" where
  "sign_transfer sha sign signingMessage =
     bindE (Builder_endCell sha False signingMessage) (\<lambda>c.
     bindE (sign (Cell_hash c 3)) (\<lambda>signature.
     bindE (Builder_storeBuffer signature None new_Builder) (\<lambda>b.
     bindE (Builder_storeBuilder sha signingMessage b) (Builder_endCell sha False))))"

definition createWalletTransferV1 ::
    "(buffer \<Rightarrow> buffer) \<Rightarrow> (buffer \<Rightarrow> buffer \<Rightarrow> buffer res) \<Rightarrow> int \<Rightarrow> int \<Rightarrow> message_relaxed option \<Rightarrow> buffer \<Rightarrow> cell res" where
  "createWalletTransferV1 sha detached seqno sendMode message secretKey =
     bindE (Builder_storeUint (Num seqno) 32 new_Builder) (\<lambda>b.
     bindE (case message of Some m \<Rightarrow> store_transfer_message sha sendMode m b | None \<Rightarrow> Inr b) (\<lambda>b.
     sign_transfer sha (\<lambda>h. detached h secretKey) b))"

definition createWalletTransferV2 ::
    "(buffer \<Rightarrow> buffer) \<Rightarrow> (buffer \<Rightarrow> buffer \<Rightarrow> buffer res) \<Rightarrow> int \<Rightarrow> int \<Rightarrow> int \<Rightarrow> message_relaxed list \<Rightarrow> buffer \<Rightarrow>
     int option \<Rightarrow> cell res" where
  "createWalletTransferV2 sha detached now seqno sendMode messages secretKey timeout =
     (if length messages > 4 then Inl TooManyMessages
      else bindE (Builder_storeUint (Num seqno) 32 new_Builder) (\<lambda>b.
           bindE (store_timeout now 60 seqno timeout b) (\<lambda>b.
           bindE (foldE (store_transfer_message sha sendMode) messages b) (\<lambda>b.
           sign_transfer sha (\<lambda>h. detached h secretKey) b))))"

text \<open>The parts that are common to the third version and to the wallets built on it.\<close>

definition transferV3_message ::
    "(buffer \<Rightarrow> buffer) \<Rightarrow> int \<Rightarrow> int \<Rightarrow> int \<Rightarrow> int \<Rightarrow> int \<Rightarrow> message_relaxed list \<Rightarrow> int option \<Rightarrow> builder res" where
  "transferV3_message sha now extra seqno sendMode walletId messages timeout =
     (if length messages > 4 then Inl TooManyMessages
      else bindE (Builder_storeUint (Num walletId) 32 new_Builder) (\<lambda>b.
           bindE (store_timeout now extra seqno timeout b) (\<lambda>b.
           bindE (Builder_storeUint (Num seqno) 32 b) (\<lambda>b.
           foldE (store_transfer_message sha sendMode) messages b))))"

definition createWalletTransferV3 ::
    "(buffer \<Rightarrow> buffer) \<Rightarrow> (buffer \<Rightarrow> buffer \<Rightarrow> buffer res) \<Rightarrow> int \<Rightarrow> int \<Rightarrow> int \<Rightarrow> int \<Rightarrow> message_relaxed list \<Rightarrow> buffer \<Rightarrow>
     int option \<Rightarrow> cell res" where
  "createWalletTransferV3 sha detached now seqno sendMode walletId messages secretKey timeout =
     bindE (transferV3_message sha now 60 seqno sendMode walletId messages timeout) (\<lambda>b.
     sign_transfer sha (\<lambda>h. detached h secretKey) b)"

definition createWalletTransferV4 ::
    "(buffer \<Rightarrow> buffer) \<Rightarrow> (buffer \<Rightarrow> buffer \<Rightarrow> buffer res) \<Rightarrow> int \<Rightarrow> int \<Rightarrow> int \<Rightarrow> int \<Rightarrow> message_relaxed list \<Rightarrow> buffer \<Rightarrow>
     int option \<Rightarrow> cell res" where
  "createWalletTransferV4 sha detached now seqno sendMode walletId messages secretKey timeout =
     (if length messages > 4 then Inl TooManyMessages
      else bindE (Builder_storeUint (Num walletId) 32 new_Builder) (\<lambda>b.
           bindE (store_timeout now 600 seqno timeout b) (\<lambda>b.
           bindE (Builder_storeUint (Num seqno) 32 b) (\<lambda>b.
           bindE (Builder_storeUint (Num 0) 8 b) (\<lambda>b.
           bindE (foldE (store_transfer_message sha sendMode) messages b) (\<lambda>b.
           sign_transfer sha (\<lambda>h. detached h secretKey) b))))))"

section \<open>Wallets\<close>

record wallet =
  w_workchain :: int
  w_publicKey :: buffer
  w_address :: address
  w_walletId :: int
  w_code :: cell
  w_data :: cell

text \<open>\<open>{code, data}\<close> as the initial state of an account.\<close>

definition code_data :: "cell \<Rightarrow> cell \<Rightarrow> state_init" where
  "code_data code data = \<lparr>si_splitDepth = None, si_special = None, si_code = Some code, si_data = Some data,
     si_libraries = None\<rparr>"

definition wallet_init :: "wallet \<Rightarrow> state_init" where
  "wallet_init w = code_data (w_code w) (w_data w)"

text \<open>\<open>Cell.fromBoc(Buffer.from(text, 'base64'))[0]\<close>\<close>

definition code_cell :: "(buffer \<Rightarrow> buffer) \<Rightarrow> string \<Rightarrow> cell res" where
  "code_cell sha text =
     bindE (Cell_fromBoc sha (base64_decode text)) (\<lambda>cs. case cs of c # _ \<Rightarrow> Inr c | [] \<Rightarrow> Inl TypeErr)"

definition SendMode_default :: int where \<comment> \<open>\<open>PAY_GAS_SEPARATELY + IGNORE_ERRORS\<close>\<close>
  "SendMode_default = 1 + 2"

definition Wallet_external ::
    "(buffer \<Rightarrow> buffer) \<Rightarrow> wallet \<Rightarrow> int \<Rightarrow> cell \<Rightarrow> cell res" where
  "Wallet_external sha w seqno body =
     bindE (external_message sha (AAddress (w_address w)) (if seqno = 0 then Some (wallet_init w) else None) (Some body)) (\<lambda>m.
     bindE (Builder_store (storeMessage sha m False) new_Builder) (Builder_endCell sha False))"

subsection \<open>Version 4\<close>

definition WalletContractV4_code :: string where
  "WalletContractV4_code = ''te6ccgECFAEAAtQAART/APSkE/S88sgLAQIBIAIDAgFIBAUE+PKDCNcYINMf0x/THwL4I7vyZO1E0NMf0x/T//QE0VFDuvKh'' @
     ''UVG68qIF+QFUEGT5EPKj+AAkpMjLH1JAyx9SMMv/UhD0AMntVPgPAdMHIcAAn2xRkyDXSpbTB9QC+wDoMOAhwAHjACHAAuMA'' @
     ''AcADkTDjDQOkyMsfEssfy/8QERITAubQAdDTAyFxsJJfBOAi10nBIJJfBOAC0x8hghBwbHVnvSKCEGRzdHK9sJJfBeAD+kAw'' @
     ''IPpEAcjKB8v/ydDtRNCBAUDXIfQEMFyBAQj0Cm+hMbOSXwfgBdM/yCWCEHBsdWe6kjgw4w0DghBkc3RyupJfBuMNBgcCASAI'' @
     ''CQB4AfoA9AQw+CdvIjBQCqEhvvLgUIIQcGx1Z4MesXCAGFAEywUmzxZY+gIZ9ADLaRfLH1Jgyz8gyYBA+wAGAIpQBIEBCPRZ'' @
     ''MO1E0IEBQNcgyAHPFvQAye1UAXKwjiOCEGRzdHKDHrFwgBhQBcsFUAPPFiP6AhPLassfyz/JgED7AJJfA+ICASAKCwBZvSQr'' @
     ''b2omhAgKBrkPoCGEcNQICEekk30pkQzmkD6f+YN4EoAbeBAUiYcVnzGEAgFYDA0AEbjJftRNDXCx+AA9sp37UTQgQFA1yH0B'' @
     ''DACyMoHy//J0AGBAQj0Cm+hMYAIBIA4PABmtznaiaEAga5Drhf/AABmvHfaiaEAQa5DrhY/AAG7SB/oA1NQi+QAFyMoHFcv/'' @
     ''ydB3dIAYyMsFywIizxZQBfoCFMtrEszMyXP7AMhAFIEBCPRR8qcCAHCBAQjXGPoA0z/IVCBHgQEI9FHyp4IQbm90ZXB0gBjI'' @
     ''ywXLAlAGzxZQBPoCFMtqEssfyz/Jc/sAAgBsgQEI1xj6ANM/MFIkgQEI9Fnyp4IQZHN0cnB0gBjIywXLAlAFzxZQA/oCE8tq'' @
     ''yx8Syz/Jc/sAAAr0AMntVA==''"

definition WalletContractV4_create ::
    "(buffer \<Rightarrow> buffer) \<Rightarrow> int \<Rightarrow> buffer \<Rightarrow> int option \<Rightarrow> wallet res" where
  "WalletContractV4_create sha workchain publicKey walletId =
     (let walletId = (case walletId of Some i \<Rightarrow> i | None \<Rightarrow> 698983191 + workchain)
      in bindE (code_cell sha WalletContractV4_code) (\<lambda>code.
         bindE (Builder_storeUint (Num 0) 32 new_Builder) (\<lambda>b.
         bindE (Builder_storeUint (Num walletId) 32 b) (\<lambda>b.
         bindE (Builder_storeBuffer publicKey None b) (\<lambda>b.
         bindE (Builder_storeBit (BitNum 0) b) (\<lambda>b.
         bindE (Builder_endCell sha False b) (\<lambda>data.
         bindE (contractAddress sha workchain (code_data code data)) (\<lambda>address.
         Inr \<lparr>w_workchain = workchain, w_publicKey = publicKey, w_address = address, w_walletId = walletId,
              w_code = code, w_data = data\<rparr>))))))))"

text \<open>Without a secret key the body is signed with a fake one and returned as it is.\<close>

definition WalletContractV4_createTransfer ::
    "(buffer \<Rightarrow> buffer) \<Rightarrow> (buffer \<Rightarrow> buffer \<Rightarrow> buffer res) \<Rightarrow> int \<Rightarrow> wallet \<Rightarrow> int \<Rightarrow> buffer \<Rightarrow> message_relaxed list \<Rightarrow>
     int option \<Rightarrow> int option \<Rightarrow> cell res" where
  "WalletContractV4_createTransfer sha detached now w seqno secretKey messages sendMode timeout =
     (let mode = (case sendMode of Some m \<Rightarrow> m | None \<Rightarrow> SendMode_default);
          isForSimulate = (secretKey = []);
          key = (if isForSimulate then buf_alloc 64 else secretKey)
      in bindE (createWalletTransferV4 sha detached now seqno mode (w_walletId w) messages key timeout) (\<lambda>body.
         if isForSimulate then Inr body else Wallet_external sha w seqno body))"

subsection \<open>Version 3, revision 2\<close>

definition WalletContractV3R2_code :: string where
  "WalletContractV3R2_code = ''te6cckEBAQEAcQAA3v8AIN0gggFMl7ohggEznLqxn3Gw7UTQ0x/THzHXC//jBOCk8mCDCNcYINMf0x/TH/gjE7vyY+1E0NMf'' @
     ''0x/T/9FRMrryoVFEuvKiBPkBVBBV+RDyo/gAkyDXSpbTB9QC+wDo0QGkyMsfyx/L/8ntVBC9ba0=''"

text \<open>The data of a wallet of version 3 has no dictionary of plugins.\<close>

definition walletV3_create :: "(buffer \<Rightarrow> buffer) \<Rightarrow> string \<Rightarrow> int \<Rightarrow> buffer \<Rightarrow> int \<Rightarrow> wallet res" where
  "walletV3_create sha text workchain publicKey walletId =
     bindE (code_cell sha text) (\<lambda>code.
     bindE (Builder_storeUint (Num 0) 32 new_Builder) (\<lambda>b.
     bindE (Builder_storeUint (Num walletId) 32 b) (\<lambda>b.
     bindE (Builder_storeBuffer publicKey None b) (\<lambda>b.
     bindE (Builder_endCell sha False b) (\<lambda>data.
     bindE (contractAddress sha workchain (code_data code data)) (\<lambda>address.
     Inr \<lparr>w_workchain = workchain, w_publicKey = publicKey, w_address = address, w_walletId = walletId,
          w_code = code, w_data = data\<rparr>))))))"

definition WalletContractV3R2_create ::
    "(buffer \<Rightarrow> buffer) \<Rightarrow> int \<Rightarrow> buffer \<Rightarrow> int option \<Rightarrow> wallet res" where
  "WalletContractV3R2_create sha workchain publicKey walletId =
     walletV3_create sha WalletContractV3R2_code workchain publicKey
       (case walletId of Some i \<Rightarrow> i | None \<Rightarrow> 698983191 + workchain)"

definition WalletContractV3R2_createWalletTransferV3 ::
    "(buffer \<Rightarrow> buffer) \<Rightarrow> (buffer \<Rightarrow> buffer \<Rightarrow> buffer) \<Rightarrow> int \<Rightarrow> int \<Rightarrow> int \<Rightarrow> int \<Rightarrow> message_relaxed list \<Rightarrow> buffer \<Rightarrow>
     int option \<Rightarrow> cell res" where
  "WalletContractV3R2_createWalletTransferV3 sha eddsa now seqno sendMode walletId messages secretKey timeout =
     bindE (transferV3_message sha now 600 seqno sendMode walletId messages timeout) (\<lambda>b.
     sign_transfer sha (\<lambda>h. ed25519_sign eddsa h secretKey) b)"

definition WalletContractV3R2_createTransfer ::
    "(buffer \<Rightarrow> buffer) \<Rightarrow> (buffer \<Rightarrow> buffer \<Rightarrow> buffer) \<Rightarrow> int \<Rightarrow> wallet \<Rightarrow> int \<Rightarrow> int option \<Rightarrow> buffer \<Rightarrow>
     message_relaxed list \<Rightarrow> int option \<Rightarrow> cell res" where
  "WalletContractV3R2_createTransfer sha eddsa now w seqno sendMode secretKey messages timeout =
     bindE (WalletContractV3R2_createWalletTransferV3 sha eddsa now seqno
              (case sendMode of Some m \<Rightarrow> m | None \<Rightarrow> SendMode_default) (w_walletId w) messages secretKey timeout) (\<lambda>body.
     Wallet_external sha w seqno body)"

subsection \<open>The wallet of Venom\<close>

definition VenomWalletV3_code :: string where
  "VenomWalletV3_code = ''te6ccgEBAQEAcQAA3v8AIN0gggFMl7ohggEznLqxn3Gw7UTQ0x/THzHXC//jBOCk8mCDCNcYINMf0x/TH/gjE7vyY+1E0NMf'' @
     ''0x/T/9FRMrryoVFEuvKiBPkBVBBV+RDyo/gAkyDXSpbTB9QC+wDo0QGkyMsfyx/L/8ntVA==''"

definition VenomWalletV3_create ::
    "(buffer \<Rightarrow> buffer) \<Rightarrow> int \<Rightarrow> buffer \<Rightarrow> int option \<Rightarrow> wallet res" where
  "VenomWalletV3_create sha workchain publicKey walletId =
     walletV3_create sha VenomWalletV3_code workchain publicKey
       (case walletId of Some i \<Rightarrow> i | None \<Rightarrow> 1269378442 + workchain)"

text \<open>\<open>buf.writeInt32BE\<close> throws on a value out of range, and on a missing one.\<close>

definition writeInt32BE :: "int option \<Rightarrow> buffer res" where
  "writeInt32BE v =
     (case v of None \<Rightarrow> Inl TypeErr
      | Some v \<Rightarrow> if - (2 ^ 31) \<le> v \<and> v < 2 ^ 31 then Inr (bytes_of_bits (bits_be 32 v)) else Inl ValueOutOfRange)"

text \<open>The hash that is signed has the identifier of the network in front.\<close>

definition VenomWalletV3_createWalletTransferV3Venom ::
    "(buffer \<Rightarrow> buffer) \<Rightarrow> (buffer \<Rightarrow> buffer \<Rightarrow> buffer) \<Rightarrow> int \<Rightarrow> int \<Rightarrow> int \<Rightarrow> int \<Rightarrow> int option \<Rightarrow> message_relaxed list \<Rightarrow>
     buffer \<Rightarrow> int option \<Rightarrow> cell res" where
  "VenomWalletV3_createWalletTransferV3Venom sha eddsa now seqno sendMode walletId globalId messages secretKey timeout =
     bindE (transferV3_message sha now 600 seqno sendMode walletId messages timeout) (\<lambda>b.
     bindE (writeInt32BE globalId) (\<lambda>buf.
     sign_transfer sha (\<lambda>h. ed25519_sign eddsa (take 36 (buf @ h)) secretKey) b))"

definition VenomWalletV3_createTransfer ::
    "(buffer \<Rightarrow> buffer) \<Rightarrow> (buffer \<Rightarrow> buffer \<Rightarrow> buffer) \<Rightarrow> int \<Rightarrow> wallet \<Rightarrow> int \<Rightarrow> int option \<Rightarrow> buffer \<Rightarrow>
     message_relaxed list \<Rightarrow> int option \<Rightarrow> int option \<Rightarrow> cell res" where
  "VenomWalletV3_createTransfer sha eddsa now w seqno sendMode secretKey messages timeout globalId =
     bindE (VenomWalletV3_createWalletTransferV3Venom sha eddsa now seqno
              (case sendMode of Some m \<Rightarrow> m | None \<Rightarrow> SendMode_default) (w_walletId w) globalId messages secretKey timeout) (\<lambda>body.
     Wallet_external sha w seqno body)"

end
