(* ===== verification/Wallet_Transfer.thy ===== *)
theory Wallet_Transfer
  imports Ton_Wallets Message_Roundtrip Message_Refs
begin

text \<open>
  The transfer of a wallet of version 4: the signed body, bit by bit, and the external message
  around it.
\<close>

section \<open>The messages\<close>

text \<open>A cell that holds a message: loading it gives the message.\<close>

definition message_cell :: "(buffer \<Rightarrow> buffer) \<Rightarrow> message_relaxed \<Rightarrow> cell \<Rightarrow> bool" where
  "message_cell sha m c \<longleftrightarrow> cell_ok c \<and> cell_type c = Ordinary \<and>
     (\<exists>s m' s'. Cell_beginParse c False = Inr s \<and> loadMessageRelaxed sha s = Inr (m', s') \<and> same_message_relaxed m m')"

lemma transfer_message:
  assumes "sha_ok sha" "valid_message_relaxed sha m" "0 \<le> mode" "mode < 2 ^ 8" "bl_fits b 8 1"
  shows "\<exists>c. message_cell sha m c \<and> stores (store_transfer_message sha mode m b) b (bits_be 8 mode) [c]"
proof -
  have k: "info_refs_relaxed (mr_info m) + place_refs (mr_init m) + 1 \<le> 4"
    using assms(2) by (simp add: valid_message_relaxed_def)
  from rt_end_cell [OF rt_message_relaxed [OF assms(1,2), of False] assms(1) order_refl k]
  obtain d c s m' s' where d: "storeMessageRelaxed sha m False new_Builder = Inr d" "Builder_endCell sha False d = Inr c"
    "cell_ok c" "cell_type c = Ordinary" "Cell_beginParse c False = Inr s" "loadMessageRelaxed sha s = Inr (m', s')"
    "same_message_relaxed m m'" by blast
  have eq: "Builder_storeRef sha (ABuilder d) = Builder_storeRef sha (ACell c)"
    using d(2) by (simp add: fun_eq_iff Builder_storeRef.simps)
  have "stores (bindE (Builder_storeUint (Num mode) 8 b) (Builder_storeRef sha (ACell c))) b (bits_be 8 mode @ []) ([] @ [c])"
    by (rule stores_bind) (use s_num.store_ok [of mode 8 b] storeRef_stores assms in \<open>simp_all add: bl_fits_def\<close>)
  then have "stores (store_transfer_message sha mode m b) b (bits_be 8 mode) [c]"
    using d(1) eq by (simp add: store_transfer_message_def store_apply)
  moreover have "message_cell sha m c" using d by (auto simp: message_cell_def)
  ultimately show ?thesis by blast
qed

lemma transfer_messages:
  assumes "sha_ok sha" "\<forall>m \<in> set ms. valid_message_relaxed sha m" "0 \<le> mode" "mode < 2 ^ 8"
    and "bl_fits b (8 * length ms) (length ms)"
  shows "\<exists>cs. list_all2 (message_cell sha) ms cs \<and>
    stores (foldE (store_transfer_message sha mode) ms b) b (concat (replicate (length ms) (bits_be 8 mode))) cs"
  using assms(2,5)
proof (induction ms arbitrary: b)
  case Nil
  then show ?case using stores_refl by (intro exI [of _ "[]"]) simp
next
  case (Cons m ms)
  have f: "bl_fits b (8 + 8 * length ms) (1 + length ms)" using Cons.prems(2) by simp
  then have "bl_fits b 8 1" by (rule bl_fits_mono) auto
  from transfer_message [OF assms(1) _ assms(3,4) this, of m] Cons.prems(1)
  obtain c where c: "message_cell sha m c" "stores (store_transfer_message sha mode m b) b (bits_be 8 mode) [c]" by auto
  from stores_next [where f = "store_transfer_message sha mode m" and b = b, OF f c(2)] obtain b' where b': "store_transfer_message sha mode m b = Inr b'"
    "bl_fits b' (8 * length ms) (length ms)" "appends (bl_bits b) (bl_bits b') (bits_be 8 mode)"
    "bl_refs b' = bl_refs b @ [c]" by auto
  from Cons.IH [OF _ b'(2)] Cons.prems(1) obtain cs where cs: "list_all2 (message_cell sha) ms cs"
    "stores (foldE (store_transfer_message sha mode) ms b') b' (concat (replicate (length ms) (bits_be 8 mode))) cs" by auto
  from stores_seq [where f = "store_transfer_message sha mode m" and g = "foldE (store_transfer_message sha mode) ms", OF b'(1,3,4) cs(2)] c(1) cs(1)
  show ?case by (intro exI [of _ "c # cs"]) simp
qed

section \<open>The time until which a transfer is valid\<close>

definition timeout_bits :: "int \<Rightarrow> int \<Rightarrow> int \<Rightarrow> int option \<Rightarrow> bool list" where
  "timeout_bits now extra seqno timeout =
     (if seqno = 0 then replicate 32 True
      else bits_be 32 (case timeout of Some t \<Rightarrow> if t = 0 then now div 1000 + extra else t | None \<Rightarrow> now div 1000 + extra))"

definition timeout_ok :: "int \<Rightarrow> int \<Rightarrow> int option \<Rightarrow> bool" where
  "timeout_ok now extra timeout \<longleftrightarrow> 0 \<le> now \<and> 0 \<le> extra \<and> now div 1000 + extra < 2 ^ 32 \<and> (\<forall>t \<in> set_option timeout. 0 \<le> t \<and> t < 2 ^ 32)"

lemma length_timeout_bits [simp]: "length (timeout_bits now extra seqno timeout) = 32"
  by (simp add: timeout_bits_def)

lemma ones_stored:
  "bl_fits b (length js) 0 \<Longrightarrow> stores (foldE (\<lambda>_. Builder_storeBit (BitNum 1)) js b) b (replicate (length js) True) []"
proof (induction js arbitrary: b)
  case Nil
  then show ?case using stores_refl by simp
next
  case (Cons j js)
  have "stores (bindE (Builder_storeBit (BitNum 1) b) (foldE (\<lambda>_. Builder_storeBit (BitNum 1)) js)) b
      ([True] @ replicate (length js) True) ([] @ [])"
    by (rule stores_bind) (use Cons storeBit_stores [of b 0 "BitNum 1"] in simp_all)
  then show ?case by simp
qed

lemma timeout_stored:
  assumes "bl_fits b 32 0" "timeout_ok now extra timeout"
  shows "stores (store_timeout now extra seqno timeout b) b (timeout_bits now extra seqno timeout) []"
proof (cases "seqno = 0")
  case True
  then show ?thesis using ones_stored [of b "[0..<32]"] assms(1) by (simp add: store_timeout_def timeout_bits_def)
next
  case False
  let ?t = "case timeout of Some t \<Rightarrow> if t = 0 then now div 1000 + extra else t | None \<Rightarrow> now div 1000 + extra"
  have t: "0 \<le> ?t" "?t < 2 ^ 32" using assms(2) by (auto simp: timeout_ok_def split: option.split)
  have "stores (Builder_storeUint (Num ?t) (int 32) b) b (bits_be 32 ?t) []"
    using t assms(1) by (intro s_num.store_ok) auto
  moreover have "store_timeout now extra seqno timeout b = Builder_storeUint (Num ?t) 32 b"
    using False by (auto simp: store_timeout_def split: option.split)
  ultimately show ?thesis using False by (simp add: timeout_bits_def)
qed

section \<open>The signature\<close>

lemma new_stores:
  assumes "stores (Inr d) new_Builder xs rs"
  shows "wf_bb (bl_bits d)" "bb_bits (bl_bits d) = xs" "bl_refs d = rs" "bb_length (bl_bits d) = length xs"
proof -
  show w: "wf_bb (bl_bits d)" "bb_bits (bl_bits d) = xs" "bl_refs d = rs"
    using assms wf_new_BitBuilder(2) [of 1023] by (auto simp: stores_def appends_def new_Builder_def)
  show "bb_length (bl_bits d) = length xs" using length_bb_bits [OF w(1)] w(2) by simp
qed

lemma end_stored:
  assumes "sha_ok sha" "stores (Inr d) new_Builder xs rs" "length xs \<le> 1023" "length rs \<le> 4" "\<forall>r \<in> set rs. cell_ok r"
  shows "\<exists>c. Builder_endCell sha False d = Inr c \<and> made sha c \<and> cell_type c = Ordinary \<and>
    bs_bits (cell_bits c) = xs \<and> cell_refs c = rs"
proof -
  note d = new_stores [OF assms(2)]
  obtain c where c: "Builder_endCell sha False d = Inr c" "cell_type c = Ordinary" "bs_bits (cell_bits c) = xs" "cell_refs c = rs"
    using endCell_ok [OF assms(1) d(1)] d assms(3-5) by auto
  with endCell_made [OF assms(1) d(1) _ c(1)] d(3) assms(5) show ?thesis by auto
qed

lemma storeBuilder_stored:
  assumes "sha_ok sha" "stores (Inr d) new_Builder xs rs" "length xs \<le> 1023" "length rs \<le> 4" "\<forall>r \<in> set rs. cell_ok r"
    and "bl_fits b (length xs) (length rs)"
  shows "stores (Builder_storeBuilder sha d b) b xs rs"
proof -
  obtain c where c: "Builder_endCell sha False d = Inr c" "made sha c" "cell_type c = Ordinary"
    "bs_bits (cell_bits c) = xs" "cell_refs c = rs" using end_stored [OF assms(1-5)] by blast
  obtain s where s: "Cell_beginParse c False = Inr s" "sl_ok s" "sl_bits s = xs" "sl_cells s = rs"
    using beginParse_ok [OF madeD(1) [OF c(2)], of False] c(3-5) by auto
  from storeSlice_ok [OF s(2), of b sha] assms(6) c(1) s show ?thesis by (simp add: Builder_storeBuilder_def)
qed

lemma sign_transfer_ok:
  assumes "sha_ok sha" "stores (Inr d) new_Builder xs rs" "length xs \<le> 511" "length rs \<le> 4" "\<forall>r \<in> set rs. cell_ok r"
    and sign: "\<And>h. length h = 32 \<Longrightarrow> \<exists>g. sign h = Inr g \<and> length g = 64"
  shows "\<exists>c g body. Builder_endCell sha False d = Inr c \<and> bs_bits (cell_bits c) = xs \<and> cell_refs c = rs \<and>
    sign (Cell_hash c 3) = Inr g \<and> sign_transfer sha sign d = Inr body \<and> made sha body \<and> cell_type body = Ordinary \<and>
    bs_bits (cell_bits body) = buf_bits g @ xs \<and> cell_refs body = rs"
proof -
  have "length xs \<le> 1023" using assms(3) by simp
  from end_stored [OF assms(1,2) this assms(4,5)] obtain c where c: "Builder_endCell sha False d = Inr c" "made sha c"
    "cell_type c = Ordinary" "bs_bits (cell_bits c) = xs" "cell_refs c = rs" by blast
  have "length (Cell_hash c 3) = 32" using madeD(1) [OF c(2)] by (rule cell_ok_hash)
  from sign [OF this] obtain g where g: "sign (Cell_hash c 3) = Inr g" "length g = 64" by blast
  have "bl_fits new_Builder (length (buf_bits g) + length xs) (length [] + length rs)"
    by (rule new_Builder_fits) (use assms(3,4) g(2) in auto)
  then have "stores (bindE (Builder_storeBuffer g None new_Builder) (Builder_storeBuilder sha d)) new_Builder
      (buf_bits g @ xs) ([] @ rs)"
    by (rule stores_bind) (use s_buffer.store_ok g(2) storeBuilder_stored [OF assms(1,2) _ assms(4,5)] assms(3) in auto)
  then obtain b where b: "bindE (Builder_storeBuffer g None new_Builder) (Builder_storeBuilder sha d) = Inr b"
    "stores (Inr b) new_Builder (buf_bits g @ xs) rs" by (auto simp: stores_def)
  have "length (buf_bits g @ xs) \<le> 1023" using assms(3) g(2) by simp
  from end_stored [OF assms(1) b(2) this assms(4,5)] obtain body where
    "Builder_endCell sha False b = Inr body" "made sha body" "cell_type body = Ordinary"
    "bs_bits (cell_bits body) = buf_bits g @ xs" "cell_refs body = rs" by blast
  moreover from this(1) have "sign_transfer sha sign d = Inr body"
    using c(1) g(1) b(1) by (simp add: sign_transfer_def bindE_assoc [symmetric])
  ultimately show ?thesis using c g(1) by blast
qed

section \<open>The body of version 4\<close>

definition transferV4_bits :: "int \<Rightarrow> int \<Rightarrow> int \<Rightarrow> int \<Rightarrow> nat \<Rightarrow> int option \<Rightarrow> bool list" where
  "transferV4_bits now seqno sendMode walletId n timeout =
     bits_be 32 walletId @ timeout_bits now 600 seqno timeout @ bits_be 32 seqno @ bits_be 8 0 @
     concat (replicate n (bits_be 8 sendMode))"

lemma length_mode_bits: "length (concat (replicate n (bits_be 8 v))) = 8 * n"
  by (induction n) simp_all

lemma message_cells_ok: "list_all2 (message_cell sha) ms cs \<Longrightarrow> \<forall>c \<in> set cs. cell_ok c"
  by (induction rule: list_all2_induct) (auto simp: message_cell_def)

theorem transferV4_body:
  assumes "sha_ok sha" "length ms \<le> 4" "\<forall>m \<in> set ms. valid_message_relaxed sha m"
    and "0 \<le> sendMode" "sendMode < 2 ^ 8" "0 \<le> seqno" "seqno < 2 ^ 32" "0 \<le> walletId" "walletId < 2 ^ 32"
    and "timeout_ok now 600 timeout" and sign: "\<And>h. length h = 32 \<Longrightarrow> \<exists>g. detached h key = Inr g \<and> length g = 64"
  shows "\<exists>c g body. bs_bits (cell_bits c) = transferV4_bits now seqno sendMode walletId (length ms) timeout \<and>
    cell_refs c = cell_refs body \<and> made sha c \<and> detached (Cell_hash c 3) key = Inr g \<and>
    createWalletTransferV4 sha detached now seqno sendMode walletId ms key timeout = Inr body \<and>
    made sha body \<and> cell_type body = Ordinary \<and>
    bs_bits (cell_bits body) = buf_bits g @ bs_bits (cell_bits c) \<and> list_all2 (message_cell sha) ms (cell_refs body)"
proof -
  let ?n = "length ms"
  let ?head = "\<lambda>b. bindE (Builder_storeUint (Num walletId) 32 b) (\<lambda>b.
           bindE (store_timeout now 600 seqno timeout b) (\<lambda>b.
           bindE (Builder_storeUint (Num seqno) 32 b) (Builder_storeUint (Num 0) 8)))"
  have head: "stores (?head b) b (bits_be 32 walletId @ timeout_bits now 600 seqno timeout @ bits_be 32 seqno @ bits_be 8 0) ([] @ [] @ [] @ [])"
    if "bl_fits b 104 0" for b
    by (intro stores_bind) (use that bl_fits_mono [OF that] timeout_stored assms(6-10) s_num.store_ok [of walletId 32]
      s_num.store_ok [of seqno 32] s_num.store_ok [of 0 8] in auto)
  obtain b where b: "?head new_Builder = Inr b" "bl_fits b (8 * ?n) ?n"
    "appends (bl_bits new_Builder) (bl_bits b) (bits_be 32 walletId @ timeout_bits now 600 seqno timeout @ bits_be 32 seqno @ bits_be 8 0)"
    "bl_refs b = bl_refs new_Builder @ []"
    using stores_next [where f = ?head, OF new_Builder_fits [of "104 + 8 * ?n" "0 + ?n"] head [OF new_Builder_fits [of 104 0]]] assms(2)
    by auto
  obtain cs where cs: "list_all2 (message_cell sha) ms cs"
    "stores (foldE (store_transfer_message sha sendMode) ms b) b (concat (replicate ?n (bits_be 8 sendMode))) cs"
    using transfer_messages [OF assms(1,3-5) b(2)] by blast
  from stores_seq [where f = ?head and g = "foldE (store_transfer_message sha sendMode) ms", OF b(1,3,4) cs(2)]
  have "stores (bindE (?head new_Builder) (foldE (store_transfer_message sha sendMode) ms)) new_Builder
      (transferV4_bits now seqno sendMode walletId ?n timeout) cs" by (simp add: transferV4_bits_def)
  then obtain d where d: "bindE (?head new_Builder) (foldE (store_transfer_message sha sendMode) ms) = Inr d"
    "stores (Inr d) new_Builder (transferV4_bits now seqno sendMode walletId ?n timeout) cs"
    by (auto simp: stores_def)
  have "length (transferV4_bits now seqno sendMode walletId ?n timeout) \<le> 511" "length cs \<le> 4"
    using assms(2) list_all2_lengthD [OF cs(1)] by (simp_all add: transferV4_bits_def length_mode_bits)
  from sign_transfer_ok [OF assms(1) d(2) this message_cells_ok [OF cs(1)], of "\<lambda>h. detached h key"] sign
  obtain c g body where c: "Builder_endCell sha False d = Inr c" 
    "bs_bits (cell_bits c) = transferV4_bits now seqno sendMode walletId ?n timeout" "cell_refs c = cs"
    "detached (Cell_hash c 3) key = Inr g" "sign_transfer sha (\<lambda>h. detached h key) d = Inr body"
    "made sha body" "cell_type body = Ordinary"
    "bs_bits (cell_bits body) = buf_bits g @ transferV4_bits now seqno sendMode walletId ?n timeout" "cell_refs body = cs" by blast
  have "made sha c" using endCell_made [OF assms(1) _ _ c(1)] new_stores [OF d(2)] message_cells_ok [OF cs(1)] by simp
  moreover have "createWalletTransferV4 sha detached now seqno sendMode walletId ms key timeout = Inr body"
    using assms(2) d(1) c(5) by (simp add: createWalletTransferV4_def bindE_eq_Inr) blast
  ultimately show ?thesis using c cs(1) by (intro exI [of _ c] exI [of _ g] exI [of _ body]) simp
qed

end
