(* ===== verification/Ton_Api.thy ===== *)
theory Ton_Api
  imports Ton_Wallets Node_Text
begin

text \<open>
  The programming interface of coin-ton (api/): keys and addresses (address.ts), payloads of NFT
  transfers (nfts.ts) and signed transactions (transaction.ts), with the helpers of crypto-lib that
  they use. A text of JavaScript is the list of the bytes of its UTF-8 form. \<open>public\<close> is the
  public key of a secret in the vendored elliptic library, \<open>rand\<close> the eight random bytes of a
  query identifier.
\<close>

definition text_bytes :: "string \<Rightarrow> buffer" where \<comment> \<open>\<open>Buffer.from(text)\<close>\<close>
  "text_bytes s = map (\<lambda>c. word_of_nat (code_of c)) s"

section \<open>Keys (crypto-lib)\<close>

definition starts_with :: "string \<Rightarrow> string \<Rightarrow> bool" where
  "starts_with s p \<longleftrightarrow> take (length p) s = p"

definition base_fromHex :: "string \<Rightarrow> buffer" where
  "base_fromHex data = hex_decode (if starts_with data ''0x'' then drop 2 data else data)"

definition base_toHex :: "buffer \<Rightarrow> string" where
  "base_toHex data = to_lower (hex_of_buffer data)"

definition validateHexString :: "string \<Rightarrow> bool" where
  "validateHexString v \<longleftrightarrow>
     (let h = (if starts_with (to_lower v) ''0x'' then to_lower (drop 2 v) else to_lower v)
      in v \<noteq> [] \<and> h \<noteq> [] \<and> length h mod 2 = 0 \<and> list_all (\<lambda>c. hex_val c \<noteq> None) h)"

definition ed25519_fromSeed :: "(buffer \<Rightarrow> buffer) \<Rightarrow> buffer \<Rightarrow> buffer \<times> buffer" where \<comment> \<open>public and secret key\<close>
  "ed25519_fromSeed public seed = (let pk = public seed in (pk, seed @ pk))"

section \<open>Addresses (api/address.ts)\<close>

definition checkSeed :: "string \<Rightarrow> unit res" where
  "checkSeed seed =
     (if \<not> validateHexString seed then Inl InvalidKey
      else let buf = base_fromHex (to_lower seed)
           in if length buf \<noteq> 32 \<or> list_all (\<lambda>b. b = 0) buf then Inl InvalidKey else Inr ())"

definition getPubKeyBySeed :: "(buffer \<Rightarrow> buffer) \<Rightarrow> string \<Rightarrow> string res" where
  "getPubKeyBySeed public seed =
     bindE (checkSeed seed) (\<lambda>_. Inr (base_toHex (fst (ed25519_fromSeed public (base_fromHex seed)))))"

definition getAddressBySeed :: "(buffer \<Rightarrow> buffer) \<Rightarrow> (buffer \<Rightarrow> buffer) \<Rightarrow> string \<Rightarrow> string res" where
  "getAddressBySeed sha public seed =
     bindE (checkSeed seed) (\<lambda>_.
     bindE (WalletContractV4_create sha 0 (fst (ed25519_fromSeed public (base_fromHex seed))) None) (\<lambda>wallet.
     Inr (Address_toString None (Some False) None (w_address wallet))))"

definition getVenomAddressBySeed :: "(buffer \<Rightarrow> buffer) \<Rightarrow> (buffer \<Rightarrow> buffer) \<Rightarrow> string \<Rightarrow> string res" where
  "getVenomAddressBySeed sha public seed =
     bindE (VenomWalletV3_create sha 0 (fst (ed25519_fromSeed public (base_fromHex seed))) None) (\<lambda>wallet.
     Inr (Address_toRawString (w_address wallet)))"

text \<open>The answer of \<open>parseAddress\<close>: not valid, raw, or user-friendly with its flags.\<close>

datatype parsed_address = NotValid | ParsedRaw address | ParsedFriendly parsed_friendly

definition parseAddress :: "string \<Rightarrow> parsed_address" where
  "parseAddress address =
     (if Address_isRaw address
      then (case Address_parseRaw address of Inr a \<Rightarrow> ParsedRaw a | Inl _ \<Rightarrow> NotValid)
      else if Address_isFriendly address
      then (case Address_parseFriendly address of
              Inr p \<Rightarrow> if pf_isTestOnly p then NotValid else ParsedFriendly p
            | Inl _ \<Rightarrow> NotValid)
      else NotValid)"

text \<open>\<open>parseAddress(text).isBounceable\<close> is undefined for a raw or refused address.\<close>

definition parsed_isBounceable :: "parsed_address \<Rightarrow> bool option" where
  "parsed_isBounceable p = (case p of ParsedFriendly f \<Rightarrow> Some (pf_isBounceable f) | _ \<Rightarrow> None)"

definition validateAddress :: "string \<Rightarrow> address option" where \<comment> \<open>\<open>None\<close> is \<open>false\<close>\<close>
  "validateAddress address = (case Address_parse address of Inr a \<Rightarrow> Some a | Inl _ \<Rightarrow> None)"

record converted_address =
  ca_raw :: string
  ca_bounceable :: string
  ca_unbounceable :: string

definition convertAddress :: "string \<Rightarrow> converted_address option" where \<comment> \<open>\<open>None\<close>: the answer is not valid\<close>
  "convertAddress address =
     (let convert = (\<lambda>a. Some \<lparr>ca_raw = Address_toRawString a,
            ca_bounceable = Address_toString (Some True) (Some True) None a,
            ca_unbounceable = Address_toString (Some True) (Some False) None a\<rparr>)
      in case parseAddress address of
           NotValid \<Rightarrow> None
         | ParsedRaw a \<Rightarrow> convert a
         | ParsedFriendly p \<Rightarrow> convert (pf_address p))"

definition toBase64Address :: "address_or_text \<Rightarrow> bool option \<Rightarrow> bool \<Rightarrow> string res" where
  "toBase64Address address isBounceable testnet =
     bindE (resolve_address address) (\<lambda>a.
     Inr (Address_toString (Some True) (Some (case isBounceable of Some b \<Rightarrow> b | None \<Rightarrow> True)) (Some testnet) a))"

section \<open>Payloads of NFT transfers (api/nfts.ts)\<close>

definition bigintRandom :: "buffer \<Rightarrow> int" where
  "bigintRandom bytes = foldl (\<lambda>v b. v * 2 ^ 8 + uint b) 0 bytes"

definition commentToBytes :: "buffer \<Rightarrow> buffer" where
  "commentToBytes comment = replicate 4 0 @ comment"

text \<open>
  \<open>packBytesAsSnake\<close> works on builder objects that are shared: \<open>sn_builders\<close> holds them in the
  order of their creation (the first is \<open>mainBuilder\<close>), \<open>sn_prev\<close> and \<open>sn_cur\<close> are the places of
  \<open>prevBuilder\<close> and \<open>currentBuilder\<close>. \<open>storeRef\<close> of a builder takes the cell of its present state.
\<close>

record snake_state =
  sn_builders :: "builder list"
  sn_prev :: "nat option"
  sn_cur :: nat

definition snake_link :: "(buffer \<Rightarrow> buffer) \<Rightarrow> snake_state \<Rightarrow> snake_state res" where
  "snake_link sha st = \<comment> \<open>\<open>prevBuilder?.storeRef(currentBuilder)\<close>\<close>
     (case sn_prev st of
        None \<Rightarrow> Inr st
      | Some p \<Rightarrow> bindE (Builder_storeRef sha (ABuilder (sn_builders st ! sn_cur st)) (sn_builders st ! p)) (\<lambda>b.
                  Inr (st\<lparr>sn_builders := (sn_builders st)[p := b]\<rparr>)))"

definition snake_byte :: "(buffer \<Rightarrow> buffer) \<Rightarrow> nat \<Rightarrow> nat \<times> byte \<Rightarrow> snake_state \<Rightarrow> snake_state res" where
  "snake_byte sha n entry st =
     (case entry of (i, byte) \<Rightarrow>
        bindE (if Builder_availableBits (sn_builders st ! sn_cur st) < 8
               then bindE (snake_link sha st) (\<lambda>st.
                    Inr \<lparr>sn_builders = sn_builders st @ [new_Builder], sn_prev = Some (sn_cur st),
                         sn_cur = length (sn_builders st)\<rparr>)
               else Inr st) (\<lambda>st.
        bindE (Builder_storeUint (Num (uint byte)) 8 (sn_builders st ! sn_cur st)) (\<lambda>b.
        let st = st\<lparr>sn_builders := (sn_builders st)[sn_cur st := b]\<rparr>
        in if i = n - 1 then snake_link sha st else Inr st)))"

datatype packed = PBytes buffer | PCell cell

definition packBytesAsSnake :: "(buffer \<Rightarrow> buffer) \<Rightarrow> buffer \<Rightarrow> int \<Rightarrow> packed res" where
  "packBytesAsSnake sha bytes maxBytes =
     (if int (length bytes) \<le> maxBytes then Inr (PBytes bytes)
      else bindE (foldE (snake_byte sha (length bytes)) (enumerate 0 bytes)
                    \<lparr>sn_builders = [new_Builder], sn_prev = None, sn_cur = 0\<rparr>) (\<lambda>st.
           bindE (Builder_endCell sha False (sn_builders st ! 0)) (\<lambda>c. Inr (PCell c))))"

datatype nft_payload = NText string | NCell cell

definition buildNftTransferPayload ::
    "(buffer \<Rightarrow> buffer) \<Rightarrow> buffer \<Rightarrow> string \<Rightarrow> string \<Rightarrow> nft_payload option \<Rightarrow> int \<Rightarrow> cell res" where
  "buildNftTransferPayload sha rand fromAddress toAddress payload forwardAmount =
     bindE (Builder_storeUint (Num 0x5fcc3d14) 32 new_Builder) (\<lambda>b.
     bindE (Builder_storeUint (Big (bigintRandom rand)) 64 b) (\<lambda>b.
     bindE (Address_parse toAddress) (\<lambda>to.
     bindE (Builder_storeAddress (Some (Internal to)) b) (\<lambda>b.
     bindE (Address_parse fromAddress) (\<lambda>from.
     bindE (Builder_storeAddress (Some (Internal from)) b) (\<lambda>b.
     bindE (Builder_storeBit (BitBool False) b) (\<lambda>b.
     bindE (Builder_storeCoins (Big forwardAmount) b) (\<lambda>b.
     bindE (case payload of
              None \<Rightarrow> Inr None
            | Some (NCell c) \<Rightarrow> Inr (Some (PCell c))
            | Some (NText t) \<Rightarrow>
                if t = [] then Inr None
                else bindE (packBytesAsSnake sha (commentToBytes (text_bytes t)) (Builder_availableBits b div 8))
                       (\<lambda>p. Inr (Some p))) (\<lambda>forwardPayload.
     bindE (case forwardPayload of
              Some (PBytes w) \<Rightarrow> bindE (Builder_storeBit (BitNum 0) b) (Builder_storeBuffer w None)
            | Some (PCell c) \<Rightarrow> Builder_storeMaybeRef sha (Some (ACell c)) b
            | None \<Rightarrow> Builder_storeMaybeRef sha None b) (Builder_endCell sha False))))))))))"

definition NFT_TRANSFER_TONCOIN_AMOUNT :: int where "NFT_TRANSFER_TONCOIN_AMOUNT = 100000000"
definition NFT_TRANSFER_TONCOIN_FORWARD_AMOUNT :: int where "NFT_TRANSFER_TONCOIN_FORWARD_AMOUNT = 1"
definition NOTCOIN_FORWARD_TON_AMOUNT :: int where "NOTCOIN_FORWARD_TON_AMOUNT = 30000000"
definition NOTCOIN_VOUCHERS_ADDRESS :: string where
  "NOTCOIN_VOUCHERS_ADDRESS = ''EQDmkj65Ab_m0aZaW8IpKw4kYqIgITw_HRstYEkVQ6NIYCyW''"
definition TRANSFER_TIMEOUT_SEC :: int where "TRANSFER_TIMEOUT_SEC = 600"

definition NOTCOIN_EXCHANGERS :: "string list" where
  "NOTCOIN_EXCHANGERS = [
     ''EQAPZauWVPUcm2hUJT9n36pxznEhl46rEn1bzBXN0RY_yiy2'',
     ''EQASgm0Qv3h2H2mF0W06ikPqYq2ctT3dyXMJH_svbEKKB3iZ'',
     ''EQArlmP-RhVIG2yAFGZyPZfM3m0YccxmpvoRi6sgRzWnAA0s'',
     ''EQA6pL-spYqZp1Ck6o3rpY45Cl-bvLMW_j3qdVejOkUWpLnm'',
     ''EQBJ_ehYjumQKbXfWUue1KHKXdTm1GuYJB0Fj2ST_DwORvpd'',
     ''EQBRmYSjxh9xlZpUqEmGjF5UjukI9v_Cm2kCTu4CoBn3XkOD'',
     ''EQBkiqncd7AFT5_23H-RoA2Vynk-Nzq_dLoeMVRthAU9RF0p'',
     ''EQB_OzTHXbztABe0QHgr4PtAV8T64LR6aDunXgaAoihOdxwO'',
     ''EQCL-x5kLg6tKVNGryItTuj6tG3FH5mhUEu0xRqQc-kbEmbe'',
     ''EQCZh2yJ46RaQH3AYmjEA8SMMXi77Oein4-3lvqkHseIAhD-'',
     ''EQChKo5IK3iNqUHUGDB9gtzjCjMTPtmsFqekuCA2MdreVEyu'',
     ''EQC6DNCBv076TIliRMfOt20RpbS7rNKDfSky3WrFEapFt8AH'',
     ''EQDE_XFZOYae_rl3ZMsgBCtRSmYhl8B4y2BZEP7oiGBDhlgy'',
     ''EQDddqpGA2ePXQF47A2DSL3GF6ZzIVmimfM2d16cdymy2noT'',
     ''EQDv0hNNAamhYltCh3pTJrq3oRB9RW2ZhEYkTP6fhj5BtZNu'',
     ''EQD2mP7zgO7-imUJhqYry3i07aJ_SR53DaokMupfAAobt0Xw'']"

definition buildNotcoinVoucherExchange ::
    "(buffer \<Rightarrow> buffer) \<Rightarrow> buffer \<Rightarrow> string \<Rightarrow> string \<Rightarrow> int \<Rightarrow> cell res" where
  "buildNotcoinVoucherExchange sha rand fromAddress nftAddress nftIndex =
     bindE (Address_parse nftAddress) (\<lambda>a.
     let first4Bits = drop_bit 4 (uint (addr_hash a ! 0));
         toAddress = NOTCOIN_EXCHANGERS ! nat first4Bits
     in bindE (Builder_storeUint (Num 0x5fec6642) 32 new_Builder) (\<lambda>b.
        bindE (Builder_storeUint (Num nftIndex) 64 b) (\<lambda>b.
        bindE (Builder_endCell sha False b) (\<lambda>payload.
        buildNftTransferPayload sha rand fromAddress toAddress (Some (NCell payload)) NOTCOIN_FORWARD_TON_AMOUNT))))"

end
