(* ===== verification/Snake_Pack.thy ===== *)
theory Snake_Pack
  imports Ton_Api Codec_Steps
begin

text \<open>
  What \<open>packBytesAsSnake\<close> builds. \<open>storeRef\<close> takes the cell of a builder as it is at that moment,
  so a builder that is already in its predecessor does not bring along what it gets later: the
  finished cell holds the first two pieces of 127 bytes and nothing behind them.
\<close>

definition chunk :: "buffer \<Rightarrow> nat \<Rightarrow> buffer" where
  "chunk xs j = take 127 (drop (127 * j) xs)"

definition holds :: "builder \<Rightarrow> buffer \<Rightarrow> cell list \<Rightarrow> bool" where
  "holds b w rs \<longleftrightarrow> wf_bb (bl_bits b) \<and> bb_cap (bl_bits b) = bb_cap (bl_bits new_Builder) \<and>
     bb_bits (bl_bits b) = buf_bits w \<and> bl_refs b = rs"

definition leaf :: "cell \<Rightarrow> buffer \<Rightarrow> bool" where
  "leaf d w \<longleftrightarrow> cell_ok d \<and> cell_type d = Ordinary \<and> bs_bits (cell_bits d) = buf_bits w \<and> cell_refs d = []"

text \<open>After some bytes, in the \<open>c\<close>-th builder and before the last link: what is in the builders that
  can still reach the result.\<close>

definition snake_inv :: "buffer \<Rightarrow> nat \<Rightarrow> snake_state \<Rightarrow> bool" where
  "snake_inv xs c st \<longleftrightarrow>
     127 * c \<le> length xs \<and> length xs \<le> 127 * c + 127 \<and> sn_cur st = c \<and> length (sn_builders st) = Suc c \<and>
     sn_prev st = (if c = 0 then None else Some (c - 1)) \<and>
     holds (sn_builders st ! c) (chunk xs c) [] \<and>
     (0 < c \<longrightarrow> holds (sn_builders st ! (c - 1)) (chunk xs (c - 1)) []) \<and>
     (2 \<le> c \<longrightarrow> (\<exists>d. holds (sn_builders st ! 0) (chunk xs 0) [d] \<and> leaf d (chunk xs 1)))"

lemma holds_new: "holds new_Builder [] []"
  using wf_new_BitBuilder(1,2) [of 1023] by (simp add: holds_def new_Builder_def)

lemma holds_bits: "holds b w rs \<Longrightarrow> bb_length (bl_bits b) = 8 * length w"
  using length_bb_bits [of "bl_bits b"] by (simp add: holds_def)

lemma store_byte:
  assumes "holds b w rs" "length w < 127"
  shows "\<exists>b'. Builder_storeUint (Num (uint x)) 8 b = Inr b' \<and> holds b' (w @ [x]) rs"
proof -
  have "fits (bl_bits b) 8"
    using assms holds_bits [OF assms(1)] new_Builder_cap by (simp add: holds_def fits_def)
  then have "stores (Builder_storeUint (Num (uint x)) 8 b) b (bits_be 8 (uint x)) []"
    using writes_uint [of "Num (uint x)" "uint x" "bl_bits b" 8] uint_bounded [of x]
    unfolding Builder_storeUint_def by (intro lift_write_stores) auto
  then obtain b' where b': "Builder_storeUint (Num (uint x)) 8 b = Inr b'" "appends (bl_bits b) (bl_bits b') (bits_be 8 (uint x))"
    "bl_refs b' = bl_refs b" by (auto simp: stores_def)
  then show ?thesis using assms(1) by (auto simp: holds_def appends_def buf_bits_def byte_bits_def)
qed

lemma finish_leaf:
  assumes "sha_ok sha" "holds b w []" "length w \<le> 127"
  shows "\<exists>d. Builder_endCell sha False b = Inr d \<and> leaf d w"
proof -
  have "bb_length (bl_bits b) \<le> 1023" using holds_bits [OF assms(2)] assms(3) by simp
  then obtain d where "Builder_endCell sha False b = Inr d" "cell_ok d" "cell_type d = Ordinary"
    "bs_bits (cell_bits d) = bb_bits (bl_bits b)" "cell_refs d = bl_refs b"
    using endCell_ok [OF assms(1), of b] assms(2) by (auto simp: holds_def)
  then show ?thesis using assms(2) by (auto simp: leaf_def holds_def)
qed

text \<open>Linking the current builder below the one before it.\<close>

lemma link_step:
  assumes "sha_ok sha" "sn_prev st = Some p" "holds (sn_builders st ! sn_cur st) w []" "length w \<le> 127"
    and "holds (sn_builders st ! p) v []" "p < length (sn_builders st)"
  shows "\<exists>d. leaf d w \<and> (\<exists>b. holds b v [d] \<and> snake_link sha st = Inr (st\<lparr>sn_builders := (sn_builders st)[p := b]\<rparr>))"
proof -
  obtain d where d: "Builder_endCell sha False (sn_builders st ! sn_cur st) = Inr d" "leaf d w"
    using finish_leaf [OF assms(1,3,4)] by blast
  have "bl_refs (sn_builders st ! p) = []" using assms(5) by (simp add: holds_def)
  then have "Builder_storeRef sha (ABuilder (sn_builders st ! sn_cur st)) (sn_builders st ! p) =
      Inr ((sn_builders st ! p)\<lparr>bl_refs := [d]\<rparr>)" using d(1) by (simp add: Builder_storeRef.simps)
  moreover have "holds ((sn_builders st ! p)\<lparr>bl_refs := [d]\<rparr>) v [d]" using assms(5) by (simp add: holds_def)
  ultimately show ?thesis using d(2) assms(2) by (auto simp: snake_link_def)
qed

lemma chunk_snoc: "length xs < 127 * j + 127 \<Longrightarrow> 127 * j \<le> length xs \<Longrightarrow> chunk (xs @ [x]) j = chunk xs j @ [x]"
  by (simp add: chunk_def)

lemma chunk_before: "127 * j + 127 \<le> length xs \<Longrightarrow> chunk (xs @ [x]) j = chunk xs j"
  by (simp add: chunk_def)

lemma length_chunk: "length (chunk xs j) = min 127 (length xs - 127 * j)"
  by (simp add: chunk_def)

text \<open>One more byte, without the link at the end.\<close>

definition snake_room :: "(buffer \<Rightarrow> buffer) \<Rightarrow> snake_state \<Rightarrow> snake_state res" where
  "snake_room sha st =
     (if Builder_availableBits (sn_builders st ! sn_cur st) < 8
      then bindE (snake_link sha st) (\<lambda>st.
           Inr \<lparr>sn_builders = sn_builders st @ [new_Builder], sn_prev = Some (sn_cur st),
                sn_cur = length (sn_builders st)\<rparr>)
      else Inr st)"

definition snake_put :: "byte \<Rightarrow> snake_state \<Rightarrow> snake_state res" where
  "snake_put byte st =
     bindE (Builder_storeUint (Num (uint byte)) 8 (sn_builders st ! sn_cur st)) (\<lambda>b.
     Inr (st\<lparr>sn_builders := (sn_builders st)[sn_cur st := b]\<rparr>))"

lemma snake_byte_parts:
  "snake_byte sha n (i, x) st = bindE (snake_room sha st) (\<lambda>st. bindE (snake_put x st) (\<lambda>st.
     if i = n - 1 then snake_link sha st else Inr st))"
  by (simp add: snake_byte_def snake_room_def snake_put_def Let_def bindE_assoc)

lemma put_last:
  assumes "snake_inv xs c st" "length xs < 127 * c + 127"
  shows "\<exists>st'. snake_put x st = Inr st' \<and> snake_inv (xs @ [x]) c st'"
proof -
  have l: "127 * c \<le> length xs" "length (chunk xs c) < 127" "chunk (xs @ [x]) c = chunk xs c @ [x]"
    using assms by (auto simp: snake_inv_def length_chunk chunk_snoc)
  have h: "holds (sn_builders st ! c) (chunk xs c) []" "sn_cur st = c" "length (sn_builders st) = Suc c"
    using assms(1) by (auto simp: snake_inv_def)
  obtain b where b: "Builder_storeUint (Num (uint x)) 8 (sn_builders st ! c) = Inr b" "holds b (chunk xs c @ [x]) []"
    using store_byte [OF h(1) l(2)] by blast
  have old: "j < c \<Longrightarrow> chunk (xs @ [x]) j = chunk xs j" for j
    using l(1) by (intro chunk_before) linarith
  have "snake_inv (xs @ [x]) c (st\<lparr>sn_builders := (sn_builders st)[c := b]\<rparr>)"
    using assms b(2) h l(3) old [of "c - 1"] old [of 0] old [of 1] unfolding snake_inv_def by auto
  then show ?thesis using b(1) h(2) by (simp add: snake_put_def)
qed

lemma link_at:
  assumes "sha_ok sha" "snake_inv xs c st" "c \<noteq> 0"
  shows "\<exists>d b. leaf d (chunk xs c) \<and> holds b (chunk xs (c - 1)) [d] \<and>
      snake_link sha st = Inr (st\<lparr>sn_builders := (sn_builders st)[c - 1 := b]\<rparr>)"
  using link_step [OF assms(1), of st "c - 1" "chunk xs c" "chunk xs (c - 1)"] assms(2,3)
  unfolding snake_inv_def by (auto simp: length_chunk)

lemma room_new:
  assumes "sha_ok sha" "snake_inv xs c st" "length xs = 127 * c + 127"
  shows "\<exists>st'. snake_room sha st = Inr st' \<and> snake_inv xs (Suc c) st'"
proof -
  note inv = assms(2) [unfolded snake_inv_def]
  have full: "Builder_availableBits (sn_builders st ! c) < 8"
    using holds_bits [of "sn_builders st ! c" "chunk xs c" "[]"] inv assms(3) new_Builder_cap
    by (simp add: holds_def Builder_availableBits_def Builder_bits_def length_chunk)
  have chunks: "chunk xs (Suc c) = []" using assms(3) by (simp add: chunk_def)
  show ?thesis
  proof (cases "c = 0")
    case True
    then show ?thesis using inv full chunks assms(3) holds_new
      by (simp add: snake_room_def snake_link_def snake_inv_def nth_append)
  next
    case False
    obtain d b where db: "leaf d (chunk xs c)" "holds b (chunk xs (c - 1)) [d]"
      "snake_link sha st = Inr (st\<lparr>sn_builders := (sn_builders st)[c - 1 := b]\<rparr>)"
      using link_at [OF assms(1,2) False] by (elim exE conjE) (rule that)
    then show ?thesis using inv full chunks assms(3) holds_new False
      by (cases "c = 1") (auto simp: snake_room_def snake_inv_def nth_append)
  qed
qed

lemma room_old:
  assumes "snake_inv xs c st" "length xs < 127 * c + 127"
  shows "snake_room sha st = Inr st"
  using holds_bits [of "sn_builders st ! c" "chunk xs c" "[]"] assms new_Builder_cap
  by (simp add: holds_def snake_inv_def snake_room_def Builder_availableBits_def Builder_bits_def length_chunk)

lemma byte_step:
  assumes "sha_ok sha" "snake_inv xs c st"
  shows "\<exists>c' st'. bindE (snake_room sha st) (snake_put x) = Inr st' \<and> snake_inv (xs @ [x]) c' st'"
proof (cases "length xs = 127 * c + 127")
  case True
  then obtain st' where "snake_room sha st = Inr st'" "snake_inv xs (Suc c) st'" using room_new [OF assms] by blast
  then show ?thesis using put_last [of xs "Suc c" st' x] True by fastforce
next
  case False
  then have "length xs < 127 * c + 127" using assms(2) by (simp add: snake_inv_def)
  then show ?thesis using room_old [OF assms(2)] put_last [OF assms(2)] by fastforce
qed

lemma bytes_steps:
  assumes "sha_ok sha" "length xs < n"
  shows "\<exists>c st. foldE (snake_byte sha n) (enumerate 0 xs) \<lparr>sn_builders = [new_Builder], sn_prev = None, sn_cur = 0\<rparr> = Inr st \<and>
      snake_inv xs c st"
  using assms(2)
proof (induction xs rule: rev_induct)
  case Nil
  show ?case using holds_new by (intro exI [of _ 0]) (simp add: snake_inv_def chunk_def)
next
  case (snoc x xs)
  then obtain c st where st: "foldE (snake_byte sha n) (enumerate 0 xs)
      \<lparr>sn_builders = [new_Builder], sn_prev = None, sn_cur = 0\<rparr> = Inr st" "snake_inv xs c st" by auto
  then obtain c' st' where "bindE (snake_room sha st) (snake_put x) = Inr st'" "snake_inv (xs @ [x]) c' st'"
    using byte_step [OF assms(1) st(2), of x] by (elim exE conjE) (rule that)
  moreover from this(1) have "snake_byte sha n (length xs, x) st = Inr st'"
    using snoc.prems by (auto simp: snake_byte_parts bindE_def split: sum.splits)
  ultimately show ?case using st(1) by (auto simp: enumerate_append_eq foldE_append)
qed

text \<open>The last link, and the cell that comes out.\<close>

lemma link_last:
  assumes "sha_ok sha" "snake_inv xs c st"
  shows "\<exists>st' rs. snake_link sha st = Inr st' \<and> holds (sn_builders st' ! 0) (chunk xs 0) rs \<and>
      (if length xs \<le> 127 then chunk xs 1 = [] \<and> (\<forall>d \<in> set rs. leaf d []) \<and> length rs \<le> 1
       else \<exists>d. rs = [d] \<and> leaf d (chunk xs 1))"
proof (cases "c = 0")
  case True
  then show ?thesis using assms(2) by (auto simp: snake_inv_def snake_link_def chunk_def)
next
  case False
  note inv = assms(2) [unfolded snake_inv_def]
  obtain d b where db: "leaf d (chunk xs c)" "holds b (chunk xs (c - 1)) [d]"
    "snake_link sha st = Inr (st\<lparr>sn_builders := (sn_builders st)[c - 1 := b]\<rparr>)"
    using link_at [OF assms False] by (elim exE conjE) (rule that)
  show ?thesis
  proof (cases "c = 1")
    case True
    then show ?thesis using db inv by (auto simp: chunk_def)
  next
    case False
    then have "2 \<le> c" using \<open>c \<noteq> 0\<close> by simp
    then show ?thesis using db inv by auto
  qed
qed

theorem snake_cells:
  assumes "sha_ok sha" "maxBytes < int (length bytes)" "bytes \<noteq> []"
  shows "\<exists>c rs. packBytesAsSnake sha bytes maxBytes = Inr (PCell c) \<and> cell_ok c \<and> cell_type c = Ordinary \<and>
      bs_bits (cell_bits c) = buf_bits (chunk bytes 0) \<and> cell_refs c = rs \<and>
      (if length bytes \<le> 127 then chunk bytes 1 = [] \<and> (\<forall>d \<in> set rs. leaf d []) \<and> length rs \<le> 1
       else \<exists>d. rs = [d] \<and> leaf d (chunk bytes 1))"
proof -
  obtain ys y where ys: "bytes = ys @ [y]" using assms(3) by (metis rev_exhaust)
  let ?s0 = "\<lparr>sn_builders = [new_Builder], sn_prev = None, sn_cur = 0\<rparr>"
  obtain c st where st: "foldE (snake_byte sha (length bytes)) (enumerate 0 ys) ?s0 = Inr st" "snake_inv ys c st"
    using bytes_steps [OF assms(1), of ys "length bytes"] ys by auto
  obtain c' st' where put: "bindE (snake_room sha st) (snake_put y) = Inr st'" "snake_inv bytes c' st'"
    using byte_step [OF assms(1) st(2), of y] ys by auto
  obtain st'' rs where l: "snake_link sha st' = Inr st''" "holds (sn_builders st'' ! 0) (chunk bytes 0) rs"
    "if length bytes \<le> 127 then chunk bytes 1 = [] \<and> (\<forall>d \<in> set rs. leaf d []) \<and> length rs \<le> 1
       else \<exists>d. rs = [d] \<and> leaf d (chunk bytes 1)"
    using link_last [OF assms(1) put(2)] by blast
  have "snake_byte sha (length bytes) (length ys, y) st = Inr st''"
    using put(1) l(1) ys by (auto simp: snake_byte_parts bindE_def split: sum.splits)
  then have f: "foldE (snake_byte sha (length bytes)) (enumerate 0 bytes) ?s0 = Inr st''"
    using st(1) by (simp add: ys enumerate_append_eq foldE_append)
  have "bb_length (bl_bits (sn_builders st'' ! 0)) \<le> 1023" "length rs \<le> 1" "\<forall>r \<in> set rs. cell_ok r"
    using holds_bits [OF l(2)] l(3) by (auto simp: length_chunk leaf_def split: if_splits)
  then obtain d where "Builder_endCell sha False (sn_builders st'' ! 0) = Inr d" "cell_ok d" "cell_type d = Ordinary"
    "bs_bits (cell_bits d) = buf_bits (chunk bytes 0)" "cell_refs d = rs"
    using endCell_ok [OF assms(1), of "sn_builders st'' ! 0"] l(2) by (auto simp: holds_def)
  then show ?thesis using f l(3) assms(2) by (intro exI [of _ d] exI [of _ rs]) (simp add: packBytesAsSnake_def)
qed

end
