(* ===== verification/Ton_Wallet_Class.thy ===== *)
theory Ton_Wallet_Class
  imports Ton_Api
begin

text \<open>
  Signed transactions (api/transaction.ts) and the methods of the wallet class (TonWallet.ts). A
  rejected promise is an error of the result. \<open>sha\<close>, \<open>public\<close>, \<open>detached\<close>, \<open>eddsa\<close>, \<open>now\<close> and
  \<open>rand\<close> come from outside; they are gathered in one record.
\<close>

record platform =
  sha256 :: "buffer \<Rightarrow> buffer"
  eddsa_public :: "buffer \<Rightarrow> buffer"
  eddsa_sign :: "buffer \<Rightarrow> buffer \<Rightarrow> buffer"
  nacl_detached :: "buffer \<Rightarrow> buffer \<Rightarrow> buffer res"
  date_now :: int

definition truthy :: "string option \<Rightarrow> bool" where \<comment> \<open>neither undefined nor empty\<close>
  "truthy t \<longleftrightarrow> t \<noteq> None \<and> t \<noteq> Some []"

definition or_text :: "string option \<Rightarrow> string \<Rightarrow> string" where \<comment> \<open>\<open>t || d\<close>\<close>
  "or_text t d = (if truthy t then the t else d)"

definition Cell_fromBase64 :: "(buffer \<Rightarrow> buffer) \<Rightarrow> string \<Rightarrow> cell res" where
  "Cell_fromBase64 sha src =
     bindE (Cell_fromBoc sha (base64_decode src)) (\<lambda>parsed. if length parsed \<noteq> 1 then Inl ManyRoots else Inr (hd parsed))"

definition boc_base64 :: "cell \<Rightarrow> string res" where
  "boc_base64 c = bindE (Cell_toBoc None None c) (\<lambda>b. Inr (base64_encode b))"

text \<open>
  The keys of a transaction: from the seed, or only the given public key when there is no seed.
  \<open>base.fromHex(undefined)\<close> throws. The first component is the secret key, empty without a seed.
\<close>

definition transfer_keys :: "platform \<Rightarrow> string \<Rightarrow> string option \<Rightarrow> (buffer \<times> buffer) res" where
  "transfer_keys p seed publicKey =
     (if seed \<noteq> []
      then (case ed25519_fromSeed (eddsa_public p) (base_fromHex seed) of (pk, sk) \<Rightarrow> Inr (sk, pk))
      else case publicKey of None \<Rightarrow> Inl TypeErr | Some k \<Rightarrow> Inr ([], base_fromHex k))"

section \<open>Transactions (api/transaction.ts)\<close>

record tx_data =
  tx_to :: string
  tx_amount :: string
  tx_seqno :: int
  tx_toIsInit :: bool
  tx_memo :: "string option"
  tx_globalId :: "int option"
  tx_sendMode :: "int option"
  tx_expireAt :: "int option"
  tx_publicKey :: "string option"

definition memo_body :: "string option \<Rightarrow> body option" where
  "memo_body memo = map_option (\<lambda>t. BText (text_bytes t)) memo"

definition transfer :: "platform \<Rightarrow> tx_data \<Rightarrow> string \<Rightarrow> string res" where
  "transfer p tx seed =
     bindE (transfer_keys p seed (tx_publicKey tx)) (\<lambda>(secretK, publicK).
     bindE (WalletContractV4_create (sha256 p) 0 publicK None) (\<lambda>wallet.
     bindE (js_BigInt (tx_amount tx)) (\<lambda>amount.
     bindE (internal_message (sha256 p) (AText (tx_to tx)) (ABig amount) (Some False) None (memo_body (tx_memo tx))) (\<lambda>m.
     bindE (WalletContractV4_createTransfer (sha256 p) (nacl_detached p) (date_now p) wallet (tx_seqno tx) secretK [m]
              (tx_sendMode tx) (tx_expireAt tx)) boc_base64))))"

definition venomTransfer :: "platform \<Rightarrow> tx_data \<Rightarrow> string \<Rightarrow> (string \<times> string) res" where \<comment> \<open>id and body\<close>
  "venomTransfer p tx seed =
     (case ed25519_fromSeed (eddsa_public p) (base_fromHex seed) of (publicKey, secretKey) \<Rightarrow>
      bindE (VenomWalletV3_create (sha256 p) 0 publicKey None) (\<lambda>wallet.
      bindE (js_BigInt (tx_amount tx)) (\<lambda>amount.
      bindE (internal_message (sha256 p) (AText (tx_to tx)) (ABig amount) (Some (tx_toIsInit tx)) None (memo_body (tx_memo tx))) (\<lambda>m.
      bindE (VenomWalletV3_createTransfer (sha256 p) (eddsa_sign p) (date_now p) wallet (tx_seqno tx) (tx_sendMode tx)
               secretKey [m] (tx_expireAt tx) (tx_globalId tx)) (\<lambda>signed.
      bindE (boc_base64 signed) (\<lambda>body. Inr (base64_encode (Cell_hash signed 3), body)))))))"

record jetton_tx_data =
  jt_to :: string
  jt_fromJettonAccount :: string
  jt_amount :: string
  jt_decimal :: int
  jt_seqno :: int
  jt_memo :: "string option"
  jt_messageAttachedTons :: "string option"
  jt_invokeNotificationFee :: "string option"
  jt_sendMode :: "int option"
  jt_expireAt :: "int option"
  jt_queryId :: "string option"
  jt_publicKey :: "string option"
  jt_customPayload :: "string option"
  jt_stateInit :: "string option"

text \<open>\<open>{code: stateInit.refs[0], data: stateInit.refs[1]}\<close>, where a missing reference is undefined.\<close>

definition init_of_cell :: "cell \<Rightarrow> state_init" where
  "init_of_cell c = \<lparr>si_splitDepth = None, si_special = None,
     si_code = (if length (cell_refs c) > 0 then Some (cell_refs c ! 0) else None),
     si_data = (if length (cell_refs c) > 1 then Some (cell_refs c ! 1) else None), si_libraries = None\<rparr>"

definition optional_cell :: "(buffer \<Rightarrow> buffer) \<Rightarrow> string option \<Rightarrow> cell option res" where
  "optional_cell sha t = (if truthy t then bindE (Cell_fromBase64 sha (the t)) (\<lambda>c. Inr (Some c)) else Inr None)"

definition jettonTransfer_payload ::
    "platform \<Rightarrow> buffer \<Rightarrow> jetton_tx_data \<Rightarrow> address \<Rightarrow> address \<Rightarrow> cell res" where
  "jettonTransfer_payload p rand tx toAddr responseAddr =
     (if jt_decimal tx < 0 then Inl InvalidNumber
      else bindE (js_BigInt (jt_amount tx)) (\<lambda>jettonAmount.
      if jettonAmount < 0 then Inl InvalidAmount
      else bindE (if truthy (jt_queryId tx) then js_BigInt (the (jt_queryId tx)) else Inr (bigintRandom rand)) (\<lambda>queryId.
      bindE (optional_cell (sha256 p) (jt_customPayload tx)) (\<lambda>customPayload.
      bindE (Builder_storeUint (Num 0x0f8a7ea5) 32 new_Builder) (\<lambda>b.
      bindE (Builder_storeUint (Big queryId) 64 b) (\<lambda>b.
      bindE (js_BigInt (jt_amount tx)) (\<lambda>amount.
      bindE (Builder_storeCoins (Big amount) b) (\<lambda>b.
      bindE (Builder_storeAddress (Some (Internal toAddr)) b) (\<lambda>b.
      bindE (Builder_storeAddress (Some (Internal responseAddr)) b) (\<lambda>b.
      bindE (Builder_storeMaybeRef (sha256 p) (map_option ACell customPayload) b) (\<lambda>b.
      bindE (js_BigInt (or_text (jt_invokeNotificationFee tx) ''1'')) (\<lambda>fee.
      bindE (Builder_storeCoins (Big fee) b) (\<lambda>b.
      if truthy (jt_memo tx)
      then bindE (comment_cell (sha256 p) (text_bytes (the (jt_memo tx)))) (\<lambda>forwardPayload.
           bindE (Builder_storeBit (BitBool True) b) (\<lambda>b.
           bindE (Builder_storeRef (sha256 p) (ACell forwardPayload) b) (Builder_endCell (sha256 p) False)))
      else bindE (Builder_storeBit (BitBool False) b) (Builder_endCell (sha256 p) False))))))))))))))"

definition jettonTransfer :: "platform \<Rightarrow> buffer \<Rightarrow> jetton_tx_data \<Rightarrow> string \<Rightarrow> string res" where
  "jettonTransfer p rand tx seed =
     bindE (transfer_keys p seed (jt_publicKey tx)) (\<lambda>(secretK, publicK).
     bindE (WalletContractV4_create (sha256 p) 0 publicK None) (\<lambda>wallet.
     bindE (Address_parse (jt_to tx)) (\<lambda>toAddr.
     bindE (Address_parse (jt_fromJettonAccount tx)) (\<lambda>fromJettonWallet.
     bindE (jettonTransfer_payload p rand tx toAddr (w_address wallet)) (\<lambda>transferPayload.
     bindE (optional_cell (sha256 p) (jt_stateInit tx)) (\<lambda>stateInit.
     bindE (js_BigInt (or_text (jt_messageAttachedTons tx) ''50000000'')) (\<lambda>v.
     bindE (internal_message (sha256 p) (AAddress fromJettonWallet) (ABig v) (Some False) (map_option init_of_cell stateInit)
              (Some (BCell transferPayload))) (\<lambda>m.
     bindE (WalletContractV4_createTransfer (sha256 p) (nacl_detached p) (date_now p) wallet (jt_seqno tx) secretK [m]
              (jt_sendMode tx) (jt_expireAt tx)) boc_base64))))))))"

text \<open>
  One of several messages. A payload is a cell or a text, and a text is taken for a bag of cells in
  base64 when it can be one, or must be one; a byte array as payload is not modelled.
\<close>

datatype ton_payload = PayText string | PayCell cell

record ton_transfer_params =
  tt_toAddress :: string
  tt_amount :: int
  tt_payload :: "ton_payload option"
  tt_stateInit :: "cell option"
  tt_isBase64Payload :: bool

definition prepare_message :: "(buffer \<Rightarrow> buffer) \<Rightarrow> ton_transfer_params \<Rightarrow> message_relaxed res" where
  "prepare_message sha m =
     bindE (case tt_payload m of
              Some (PayText t) \<Rightarrow>
                if tt_isBase64Payload m then bindE (Cell_fromBase64 sha t) (\<lambda>c. Inr (Some (BCell c)))
                else (case Cell_fromBase64 sha t of Inr c \<Rightarrow> Inr (Some (BCell c)) | Inl _ \<Rightarrow> Inr (Some (BText (text_bytes t))))
            | Some (PayCell c) \<Rightarrow> Inr (Some (BCell c))
            | None \<Rightarrow> Inr None) (\<lambda>payload.
     internal_message sha (AText (tt_toAddress m)) (ABig (tt_amount m)) (parsed_isBounceable (parseAddress (tt_toAddress m)))
       (map_option init_of_cell (tt_stateInit m)) payload)"

definition toExternalMessage :: "(buffer \<Rightarrow> buffer) \<Rightarrow> wallet \<Rightarrow> int \<Rightarrow> cell \<Rightarrow> cell res" where
  "toExternalMessage sha contract seqno body =
     bindE (external_message sha (AAddress (w_address contract))
              (if seqno = 0 then Some (wallet_init contract) else None) (Some body)) (\<lambda>m.
     bindE (Builder_storeWritable (storeMessage sha m False) new_Builder) (Builder_endCell sha False))"

text \<open>The two cells that \<open>signMultiTransaction\<close> returns as texts: the transaction and its external message.\<close>

definition multi_cells ::
    "platform \<Rightarrow> wallet \<Rightarrow> buffer \<Rightarrow> message_relaxed list \<Rightarrow> int \<Rightarrow> int \<Rightarrow> (cell \<times> cell) res" where
  "multi_cells p wallet secretK messages seqno expireAt =
     bindE (WalletContractV4_createTransfer (sha256 p) (nacl_detached p) (date_now p) wallet seqno secretK messages
              (Some SendMode_default) (Some expireAt)) (\<lambda>transaction.
     bindE (toExternalMessage (sha256 p) wallet seqno transaction) (\<lambda>ext. Inr (transaction, ext)))"

record signed_multi =
  sm_seqno :: int
  sm_transaction :: string
  sm_externalMessage :: string

text \<open>\<open>Math.round\<close> rounds a half up.\<close>

definition round_ms :: "int \<Rightarrow> int" where
  "round_ms ms = (ms + 500) div 1000"

definition signMultiTransaction ::
    "platform \<Rightarrow> string \<Rightarrow> ton_transfer_params list \<Rightarrow> int \<Rightarrow> int option \<Rightarrow> int option \<Rightarrow> string option \<Rightarrow> signed_multi res" where
  "signMultiTransaction p privateKey messages seqno expireAt workchain publicKey =
     (let expireAt = (if expireAt = None \<or> expireAt = Some 0 then round_ms (date_now p) + TRANSFER_TIMEOUT_SEC else the expireAt)
      in bindE (mapE (prepare_message (sha256 p)) messages) (\<lambda>preparedMessages.
         bindE (transfer_keys p privateKey publicKey) (\<lambda>(secretK, publicK).
         bindE (WalletContractV4_create (sha256 p) (if workchain = Some 1 then 1 else 0) publicK None) (\<lambda>wallet.
         bindE (multi_cells p wallet secretK preparedMessages seqno expireAt) (\<lambda>(transaction, ext).
         bindE (boc_base64 transaction) (\<lambda>tx.
         bindE (boc_base64 ext) (\<lambda>externalMsg.
         Inr \<lparr>sm_seqno = seqno, sm_transaction = tx, sm_externalMessage = externalMsg\<rparr>)))))))"

section \<open>The wallet class (TonWallet.ts)\<close>

text \<open>A \<open>catch\<close> that rejects with an error of its own.\<close>

definition rejectE :: "js_error \<Rightarrow> 'a res \<Rightarrow> 'a res" where
  "rejectE e m = (case m of Inl _ \<Rightarrow> Inl e | Inr x \<Rightarrow> Inr x)"

record new_address =
  na_address :: string
  na_publicKey :: string

definition TonWallet_getNewAddress :: "platform \<Rightarrow> string \<Rightarrow> new_address res" where
  "TonWallet_getNewAddress p privateKey =
     rejectE NewAddressError
       (if \<not> validateHexString privateKey then Inl NewAddressError
        else bindE (getAddressBySeed (sha256 p) (eddsa_public p) (to_lower privateKey)) (\<lambda>a.
             bindE (getPubKeyBySeed (eddsa_public p) (to_lower privateKey)) (\<lambda>k.
             Inr \<lparr>na_address = a, na_publicKey = k\<rparr>)))"

definition VenomWallet_getNewAddress :: "platform \<Rightarrow> string \<Rightarrow> new_address res" where
  "VenomWallet_getNewAddress p privateKey =
     rejectE NewAddressError
       (bindE (getVenomAddressBySeed (sha256 p) (eddsa_public p) privateKey) (\<lambda>a.
        bindE (getPubKeyBySeed (eddsa_public p) privateKey) (\<lambda>k.
        Inr \<lparr>na_address = a, na_publicKey = k\<rparr>)))"

definition TonWallet_validPrivateKey :: "string \<Rightarrow> bool" where
  "TonWallet_validPrivateKey privateKey = (case checkSeed privateKey of Inr _ \<Rightarrow> True | Inl _ \<Rightarrow> False)"

definition TonWallet_validAddress :: "string \<Rightarrow> parsed_address" where
  "TonWallet_validAddress address = parseAddress address"

definition TonWallet_convertAddress :: "string \<Rightarrow> converted_address option" where
  "TonWallet_convertAddress address = convertAddress address"

text \<open>The data of \<open>signTransaction\<close> by its \<open>type\<close>; any other type resolves to undefined (the
  public key of such data is kept, since a simulation looks at it first).\<close>

datatype sign_data = TransferData tx_data | JettonData jetton_tx_data | OtherData "string option"

definition TonWallet_signTransaction :: "platform \<Rightarrow> buffer \<Rightarrow> string \<Rightarrow> sign_data \<Rightarrow> string option res" where
  "TonWallet_signTransaction p rand privateKey data =
     rejectE SignTxError
       (case data of
          TransferData tx \<Rightarrow> bindE (transfer p tx privateKey) (\<lambda>boc. Inr (Some boc))
        | JettonData tx \<Rightarrow> bindE (jettonTransfer p rand tx privateKey) (\<lambda>boc. Inr (Some boc))
        | OtherData _ \<Rightarrow> Inr None)"

definition TonWallet_signJettonTransaction :: "platform \<Rightarrow> buffer \<Rightarrow> string \<Rightarrow> jetton_tx_data \<Rightarrow> string res" where
  "TonWallet_signJettonTransaction p rand privateKey tx = rejectE SignTxError (jettonTransfer p rand tx privateKey)"

definition VenomWallet_signTransaction :: "platform \<Rightarrow> string \<Rightarrow> tx_data \<Rightarrow> (string \<times> string) res" where
  "VenomWallet_signTransaction p privateKey tx = rejectE SignTxError (venomTransfer p tx privateKey)"

record wallet_information =
  wi_initCode :: string
  wi_initData :: string
  wi_walletStateInit :: string
  wi_walletAddress :: string

definition TonWallet_getWalletInformation ::
    "platform \<Rightarrow> int \<Rightarrow> string option \<Rightarrow> string option \<Rightarrow> string option \<Rightarrow> wallet_information res" where
  "TonWallet_getWalletInformation p wc publicKey privateKey walletVersion =
     (let chain = (if wc = 1 then 1 else 0)
      in bindE (if truthy publicKey then Inr (base_fromHex (the publicKey))
                else case privateKey of
                  Some k \<Rightarrow> Inr (fst (ed25519_fromSeed (eddsa_public p) (base_fromHex k)))
                | None \<Rightarrow> Inl TypeErr) (\<lambda>pub.
         bindE (if \<not> truthy walletVersion \<or> the walletVersion = ''v4r2'' \<or> the walletVersion = ''v4R2''
                then WalletContractV4_create (sha256 p) chain pub None else Inl TypeErr) (\<lambda>wallet.
         bindE (boc_base64 (w_code wallet)) (\<lambda>initCode.
         bindE (boc_base64 (w_data wallet)) (\<lambda>initData.
         bindE (Builder_storeWritable (storeStateInit (sha256 p) (wallet_init wallet)) new_Builder) (\<lambda>b.
         bindE (Builder_endCell (sha256 p) False b) (\<lambda>c.
         bindE (boc_base64 c) (\<lambda>walletStateInit.
         Inr \<lparr>wi_initCode = initCode, wi_initData = initData, wi_walletStateInit = walletStateInit,
              wi_walletAddress = Address_toString None (Some False) None (w_address wallet)\<rparr>))))))))"

text \<open>The public key of a simulation; the private key is dropped, so the transaction gets a fake signature.\<close>

definition simulation_key :: "platform \<Rightarrow> string \<Rightarrow> string option \<Rightarrow> string res" where
  "simulation_key p privateKey publicKey =
     (if privateKey \<noteq> []
      then let publicKeyHex = base_toHex (fst (ed25519_fromSeed (eddsa_public p) (base_fromHex privateKey)))
           in if truthy publicKey then if the publicKey \<noteq> publicKeyHex then Inl KeyMismatch else Inr (the publicKey)
              else Inr publicKeyHex
      else if truthy publicKey then Inr (the publicKey) else Inl InvalidKey)"

text \<open>Of a type that is neither a transfer nor a jetton transfer the result has no property \<open>boc\<close>.\<close>

definition TonWallet_getTransactionBodyForSimulate :: "platform \<Rightarrow> buffer \<Rightarrow> string \<Rightarrow> sign_data \<Rightarrow> string res" where
  "TonWallet_getTransactionBodyForSimulate p rand privateKey data =
     bindE (case data of
              TransferData tx \<Rightarrow> bindE (simulation_key p privateKey (tx_publicKey tx)) (\<lambda>k.
                Inr (TransferData (tx\<lparr>tx_publicKey := Some k\<rparr>)))
            | JettonData tx \<Rightarrow> bindE (simulation_key p privateKey (jt_publicKey tx)) (\<lambda>k.
                Inr (JettonData (tx\<lparr>jt_publicKey := Some k\<rparr>)))
            | OtherData publicKey \<Rightarrow> bindE (simulation_key p privateKey publicKey) (\<lambda>k. Inr (OtherData (Some k)))) (\<lambda>data.
     bindE (TonWallet_signTransaction p rand [] data) (\<lambda>r. case r of Some boc \<Rightarrow> Inr boc | None \<Rightarrow> Inl TypeErr))"

definition TonWallet_calcTxHash :: "platform \<Rightarrow> string \<Rightarrow> string res" where
  "TonWallet_calcTxHash p data =
     rejectE CalcTxHashError (bindE (Cell_fromBase64 (sha256 p) data) (\<lambda>c. Inr (base_toHex (Cell_hash c 3))))"

subsection \<open>Proofs of ownership\<close>

record ton_proof =
  tp_timestamp :: int
  tp_domain :: string
  tp_payload :: string

definition int_bytes_le :: "nat \<Rightarrow> int \<Rightarrow> buffer res" where \<comment> \<open>\<open>writeInt32LE\<close>, \<open>writeBigInt64LE\<close>\<close>
  "int_bytes_le n v =
     (if - (2 ^ (8 * n - 1)) \<le> v \<and> v < 2 ^ (8 * n - 1) then Inr (rev (bytes_of_bits (bits_be (8 * n) v))) else Inl ValueOutOfRange)"

text \<open>The message of a proof, and what is signed: its hash behind a salt and the name of the action.\<close>

definition proof_message :: "string \<Rightarrow> ton_proof \<Rightarrow> address \<Rightarrow> buffer res" where
  "proof_message tonProofItem pr address =
     bindE (int_bytes_le 8 (tp_timestamp pr)) (\<lambda>timestampBuffer.
     let domainBuffer = text_bytes (tp_domain pr)
     in bindE (int_bytes_le 4 (int (length domainBuffer))) (\<lambda>domainLengthBuffer.
        bindE (writeInt32BE (Some (workChain address))) (\<lambda>addressWorkchainBuffer.
        Inr (text_bytes tonProofItem @ (addressWorkchainBuffer @ addr_hash address) @ domainLengthBuffer @ domainBuffer @
             timestampBuffer @ text_bytes (tp_payload pr)))))"

text \<open>The two lengths are written before the address is parsed, so their errors come first.\<close>

definition TonWallet_signTonProof ::
    "platform \<Rightarrow> string \<Rightarrow> string \<Rightarrow> string \<Rightarrow> string \<Rightarrow> string \<Rightarrow> ton_proof \<Rightarrow> string res" where
  "TonWallet_signTonProof p privateKey walletAddress tonProofItem messageAction messageSalt pr =
     bindE (int_bytes_le 8 (tp_timestamp pr)) (\<lambda>_.
     bindE (int_bytes_le 4 (int (length (text_bytes (tp_domain pr))))) (\<lambda>_.
     bindE (Address_parse walletAddress) (\<lambda>address.
     bindE (proof_message tonProofItem pr address) (\<lambda>messageBuffer.
     let bufferToSign = hex_decode messageSalt @ text_bytes messageAction @ sha256 p messageBuffer
     in case ed25519_fromSeed (eddsa_public p) (base_fromHex privateKey) of (_, secretKey) \<Rightarrow>
        bindE (nacl_detached p (sha256 p bufferToSign) secretKey) (\<lambda>signature. Inr (base64_encode signature))))))"

subsection \<open>Several messages\<close>

record payload_message =
  pm_address :: string
  pm_amount :: string
  pm_payload :: "string option"
  pm_stateInit :: "string option"
  pm_isBase64Payload :: bool

record transaction_payload =
  tl_valid_until :: "int option"
  tl_messages :: "payload_message list"
  tl_seqno :: int
  tl_network :: "string option"
  tl_publicKey :: "string option"

definition payload_params :: "(buffer \<Rightarrow> buffer) \<Rightarrow> payload_message \<Rightarrow> ton_transfer_params res" where
  "payload_params sha m =
     bindE (js_BigInt (pm_amount m)) (\<lambda>amount.
     bindE (optional_cell sha (pm_stateInit m)) (\<lambda>stateInit.
     Inr \<lparr>tt_toAddress = pm_address m, tt_amount = amount, tt_payload = map_option PayText (pm_payload m),
          tt_stateInit = stateInit, tt_isBase64Payload = pm_isBase64Payload m\<rparr>))"

definition TonWallet_signMultiTransaction :: "platform \<Rightarrow> string \<Rightarrow> transaction_payload \<Rightarrow> signed_multi res" where
  "TonWallet_signMultiTransaction p privateKey txPayload =
     (if length (tl_messages txPayload) > 4 then Inl TooManyMessages
      else let given = tl_valid_until txPayload;
               validUntil = (case given of
                   Some v \<Rightarrow> Some (if v > 10 ^ 10 then round_ms v else v)
                 | None \<Rightarrow> None)
           in if validUntil \<noteq> None \<and> validUntil \<noteq> Some 0 \<and> the validUntil * 1000 < date_now p then Inl Expired
              else bindE (mapE (payload_params (sha256 p)) (tl_messages txPayload)) (\<lambda>params.
                   let network = (if tl_network txPayload = Some ''1'' \<or> tl_network txPayload = Some ''testnet'' then 1 else 0)
                   in signMultiTransaction p privateKey params (tl_seqno txPayload) validUntil (Some network)
                        (tl_publicKey txPayload)))"

definition TonWallet_simulateMultiTransaction :: "platform \<Rightarrow> string \<Rightarrow> transaction_payload \<Rightarrow> signed_multi res" where
  "TonWallet_simulateMultiTransaction p privateKey txPayload =
     bindE (simulation_key p privateKey (tl_publicKey txPayload)) (\<lambda>k.
     TonWallet_signMultiTransaction p [] (txPayload\<lparr>tl_publicKey := Some k\<rparr>))"

subsection \<open>NFT transfers\<close>

record api_nft =
  nft_index :: int
  nft_collectionAddress :: "string option"

record nft_params =
  np_fromNFTAddress :: string
  np_nftAddresses :: "string list"
  np_toAddress :: string
  np_comment :: "string option"
  np_nfts :: "api_nft list"
  np_seqno :: int
  np_expireAt :: "int option"
  np_workchain :: "int option"

text \<open>Each payload takes eight random bytes of its own.\<close>

definition nft_message :: "(buffer \<Rightarrow> buffer) \<Rightarrow> (nat \<Rightarrow> buffer) \<Rightarrow> nft_params \<Rightarrow> nat \<times> string \<Rightarrow> ton_transfer_params res" where
  "nft_message sha rand data entry =
     (case entry of (index, nftAddress) \<Rightarrow>
        let nft = (if index < length (np_nfts data) then Some (np_nfts data ! index) else None);
            isNotcoinBurn = (case nft of Some n \<Rightarrow> nft_collectionAddress n = Some NOTCOIN_VOUCHERS_ADDRESS | None \<Rightarrow> False)
        in bindE (if isNotcoinBurn
                  then buildNotcoinVoucherExchange sha (rand index) (np_fromNFTAddress data) nftAddress (nft_index (the nft))
                  else buildNftTransferPayload sha (rand index) (np_fromNFTAddress data) (np_toAddress data)
                         (map_option NText (np_comment data)) NFT_TRANSFER_TONCOIN_FORWARD_AMOUNT) (\<lambda>payload.
           Inr \<lparr>tt_toAddress = nftAddress, tt_amount = NFT_TRANSFER_TONCOIN_AMOUNT, tt_payload = Some (PayCell payload),
                tt_stateInit = None, tt_isBase64Payload = False\<rparr>))"

definition TonWallet_signMultiTransactionForNFT ::
    "platform \<Rightarrow> (nat \<Rightarrow> buffer) \<Rightarrow> string \<Rightarrow> nft_params \<Rightarrow> signed_multi res" where
  "TonWallet_signMultiTransactionForNFT p rand privateKey data =
     bindE (mapE (nft_message (sha256 p) rand data) (enumerate 0 (np_nftAddresses data))) (\<lambda>messages.
     signMultiTransaction p privateKey messages (np_seqno data) (np_expireAt data) (np_workchain data) None)"

definition TonWallet_buildNotcoinVoucherExchange :: "platform \<Rightarrow> buffer \<Rightarrow> string \<Rightarrow> string \<Rightarrow> int \<Rightarrow> string res" where
  "TonWallet_buildNotcoinVoucherExchange p rand fromNFTAddress nftAddress nftIndex =
     bindE (buildNotcoinVoucherExchange (sha256 p) rand fromNFTAddress nftAddress nftIndex) boc_base64"

text \<open>The second argument of the builder is the receiver: here it is the address of the NFT itself.\<close>

definition TonWallet_buildNftTransferPayload :: "platform \<Rightarrow> buffer \<Rightarrow> string \<Rightarrow> string \<Rightarrow> string \<Rightarrow> string res" where
  "TonWallet_buildNftTransferPayload p rand fromNFTAddress nftAddress comment =
     bindE (buildNftTransferPayload (sha256 p) rand fromNFTAddress nftAddress (Some (NText comment))
              NFT_TRANSFER_TONCOIN_FORWARD_AMOUNT) boc_base64"

end
