(* ===== verification/Properties_Messages.thy ===== *)
theory Properties_Messages
  imports Message_Refs Tuple_Roundtrip Properties_Cells Wallet_Transfer Snake_Pack Ton_Wallet_Class
begin

text \<open>Properties of messages, output actions and tuples.\<close>

section \<open>Messages\<close>

text \<open>
  C3: a message with fields in their ranges, stored with \<open>storeMessage\<close> in a cell and loaded with
  \<open>loadMessage\<close>, comes back whole: information and initial state are equal, the body is the same
  tree of bits with the same hashes, wherever the writer put them. The references of the information
  and of the initial state must leave one for the body.
\<close>

theorem message_roundtrip:
  assumes "sha_ok sha" "valid_message sha m" "cell_type (msg_body m) = Ordinary \<or> force"
  shows "\<exists>b c s m' s'. storeMessage sha m force new_Builder = Inr b \<and> Builder_endCell sha False b = Inr c \<and>
    Cell_beginParse c False = Inr s \<and> loadMessage sha s = Inr (m', s') \<and>
    msg_info m' = msg_info m \<and> msg_init m' = msg_init m \<and> xtree (msg_body m') = xtree (msg_body m)"
proof -
  have "info_refs (msg_info m) + place_refs (msg_init m) + 1 \<le> 4" using assms(2) by (simp add: valid_message_def)
  from rt_end_cell [OF rt_message [OF assms] assms(1) order_refl this] show ?thesis
    by (fastforce simp: same_message_def)
qed

text \<open>Concrete cells for the witnesses.\<close>

lemma leaf_cell: "\<exists>c. new_Cell pad_hash False (bytes_string [7]) [] = Inr c \<and> built pad_hash c \<and> made pad_hash c \<and> cell_ok c \<and>
    cell_type c = Ordinary \<and> cell_bits c = bytes_string [7] \<and> cell_refs c = []"
proof -
  obtain c where c: "new_Cell pad_hash False (bytes_string [7]) [] = Inr c" "plain pad_hash c"
    "cell_bits c = bytes_string [7]" "cell_refs c = []"
    using plain_leaf [of "bytes_string [7]"] bytes_string_ok [of "[7]"] by (auto simp: bytes_string_def)
  then show ?thesis using plain_built [OF c(2)] built_made [OF pad_hash_ok plain_built [OF c(2)]] madeD(1) plain_facts [OF pad_hash_ok c(2)]
    by (auto simp: plain_ok_def)
qed

theorem message_roundtrip_witness:
  "\<exists>c b d s m' s'. new_Cell pad_hash False (bytes_string [7]) [] = Inr c \<and>
    storeMessage pad_hash \<lparr>msg_info = CExternalIn \<lparr>ei_src = None, ei_dest = \<lparr>workChain = 0, addr_hash = replicate 32 1\<rparr>,
        ei_importFee = 5\<rparr>, msg_init = None, msg_body = c\<rparr> False new_Builder = Inr b \<and>
    Builder_endCell pad_hash False b = Inr d \<and> Cell_beginParse d False = Inr s \<and>
    loadMessage pad_hash s = Inr (m', s') \<and> xtree (msg_body m') = xtree c"
proof -
  obtain c where c: "new_Cell pad_hash False (bytes_string [7]) [] = Inr c" "made pad_hash c" "cell_type c = Ordinary"
    using leaf_cell by blast
  let ?m = "\<lparr>msg_info = CExternalIn \<lparr>ei_src = None, ei_dest = \<lparr>workChain = 0, addr_hash = replicate 32 1\<rparr>,
        ei_importFee = 5\<rparr>, msg_init = None, msg_body = c\<rparr>"
  have "valid_message pad_hash ?m"
    using c(2) by (simp add: valid_message_def place_refs_def valid_std_def valid_coins_def int_range_def)
  from message_roundtrip [OF pad_hash_ok this, of False] c(1,3) show ?thesis by auto
qed

text \<open>
  C8: the output actions of a contract stored with \<open>storeOutList\<close> are loaded by \<open>loadOutList\<close> in
  the same order, with the same modes and codes, and with messages that agree as above; exotic
  bodies are included, since the relaxed writer puts them into a reference.
\<close>

theorem out_list_roundtrip:
  assumes "sha_ok sha" "\<forall>a \<in> set as. valid_action sha a"
  shows "\<exists>b c s s' as'. storeOutList sha as new_Builder = Inr b \<and> Builder_endCell sha False b = Inr c \<and>
    Cell_beginParse c False = Inr s \<and> loadOutList sha s = Inr (as', s') \<and> list_all2 same_action as as'"
  by (rule out_list_through [OF assms])

theorem out_list_roundtrip_witness:
  "\<exists>code b c s s' as'. new_Cell pad_hash False (bytes_string [7]) [] = Inr code \<and>
    storeOutList pad_hash [SetCode code,
      SendMsg 3 \<lparr>mr_info = RInternal \<lparr>ri_ihrDisabled = True, ri_bounce = True, ri_bounced = False, ri_src = None,
          ri_dest = \<lparr>workChain = 0, addr_hash = replicate 32 1\<rparr>, ri_value = \<lparr>cc_other = None, cc_coins = 1000\<rparr>,
          ri_ihrFee = 0, ri_forwardFee = 0, ri_createdLt = 0, ri_createdAt = 0\<rparr>,
        mr_init = None, mr_body = code\<rparr>] new_Builder = Inr b \<and>
    Builder_endCell pad_hash False b = Inr c \<and> Cell_beginParse c False = Inr s \<and>
    loadOutList pad_hash s = Inr (as', s') \<and> length as' = 2 \<and> hd as' = SetCode code"
proof -
  obtain code where c: "new_Cell pad_hash False (bytes_string [7]) [] = Inr code" "made pad_hash code" "cell_ok code"
    using leaf_cell by blast
  let ?m = "\<lparr>mr_info = RInternal \<lparr>ri_ihrDisabled = True, ri_bounce = True, ri_bounced = False, ri_src = None,
          ri_dest = \<lparr>workChain = 0, addr_hash = replicate 32 1\<rparr>, ri_value = \<lparr>cc_other = None, cc_coins = 1000\<rparr>,
          ri_ihrFee = 0, ri_forwardFee = 0, ri_createdLt = 0, ri_createdAt = 0\<rparr>,
        mr_init = None, mr_body = code\<rparr>"
  have "valid_message_relaxed pad_hash ?m"
    using c(2) by (simp add: valid_message_relaxed_def place_refs_def valid_std_def valid_coins_def int_range_def valid_currency_def)
  then have "\<forall>a \<in> set [SetCode code, SendMsg 3 ?m]. valid_action pad_hash a" using c(3) by simp
  from out_list_roundtrip [OF pad_hash_ok this] obtain b d s s' as' where r:
    "storeOutList pad_hash [SetCode code, SendMsg 3 ?m] new_Builder = Inr b" "Builder_endCell pad_hash False b = Inr d"
    "Cell_beginParse d False = Inr s" "loadOutList pad_hash s = Inr (as', s')"
    "list_all2 same_action [SetCode code, SendMsg 3 ?m] as'" by blast
  then have "length as' = 2" by (auto dest: list_all2_lengthD)
  moreover have "hd as' = SetCode code" using r(5) by (cases as'; cases "hd as'") auto
  ultimately show ?thesis using c(1) r(1-4) by blast
qed

text \<open>
  C20: \<open>storeMessage\<close> puts an initial state in place when its bits and those of the body fit, and
  does not count references. A message with extra currencies, code, data and libraries and a short
  body with a reference then fails, although the same message can be stored: with \<open>forceRef\<close> it is.
\<close>

theorem storeMessage_uncounted_references:
  assumes "sha_ok sha" "msg_info m = CInternal i" "valid_internal sha i" "small_amounts i" "cc_other (ii_value i) \<noteq> None"
    and "msg_init m = Some x" "valid_init sha x" "si_code x \<noteq> None" "si_data x \<noteq> None" "si_libraries x \<noteq> None"
    and "made sha (msg_body m)" "cell_refs (msg_body m) \<noteq> []" "bs_length (cell_bits (msg_body m)) \<le> 168"
  shows "storeMessage sha m False new_Builder = Inl TooManyReferences \<and>
    (\<exists>b. storeMessage sha m True new_Builder = Inr b)"
proof
  have "init_refs x = 3" using assms(8-10) by (auto simp: init_refs_def)
  from message_overflow [OF assms(1-7) this assms(12,13)] show "storeMessage sha m False new_Builder = Inl TooManyReferences" .
  show "\<exists>b. storeMessage sha m True new_Builder = Inr b"
    by (rule message_forced) (use assms madeD(1) in auto)
qed

theorem storeMessage_uncounted_references_witness:
  "\<exists>m. storeMessage pad_hash m False new_Builder = Inl TooManyReferences \<and>
    (\<exists>b. storeMessage pad_hash m True new_Builder = Inr b)"
proof -
  obtain c where c: "built pad_hash c" "cell_ok c" using leaf_cell by blast
  have b: "wf_bs (bytes_string [9])" "bs_length (bytes_string [9]) = 8" using bytes_string_ok [of "[9]"] by (simp_all add: bytes_string_def)
  obtain d where d: "new_Cell pad_hash False (bytes_string [9]) [c] = Inr d"
    using new_Cell_total [of pad_hash "[c]" "bytes_string [9]"] pad_hash_ok b c(2) by auto
  then have d: "made pad_hash d" "cell_refs d = [c]" "cell_bits d = bytes_string [9]"
    using built_made [OF pad_hash_ok built_new [of "[c]" pad_hash "bytes_string [9]" False d]] b c new_Cell_ok [OF pad_hash_ok _ b(1) d] by auto
  let ?other = "uint_key.dict_of pad_hash 32 (createBigVarUintValue 5) [(1, Big 5)]"
  let ?libs = "big_uint_key.dict_of pad_hash 256 (SimpleLibraryValue pad_hash) [(1, \<lparr>lib_public = True, lib_root = c\<rparr>)]"
  let ?a = "\<lparr>workChain = 0, addr_hash = replicate 32 1\<rparr>"
  let ?i = "\<lparr>ii_ihrDisabled = True, ii_bounce = True, ii_bounced = False, ii_src = ?a, ii_dest = ?a,
    ii_value = \<lparr>cc_other = Some ?other, cc_coins = 1000\<rparr>, ii_ihrFee = 0, ii_forwardFee = 0, ii_createdLt = 0, ii_createdAt = 0\<rparr>"
  let ?x = "\<lparr>si_splitDepth = None, si_special = None, si_code = Some c, si_data = Some c, si_libraries = Some ?libs\<rparr>"
  have "size_bytes 5 < 32" using size_bytes_le [of 5 1] by simp
  then have "valid_extra pad_hash ?other [(1, 5)]" by (simp add: valid_extra_def)
  then have "valid_currency pad_hash (ii_value ?i)" by (auto simp: valid_currency_def valid_coins_def)
  then have i: "valid_internal pad_hash ?i" by (simp add: valid_internal_def valid_std_def int_range_def valid_coins_def)
  have "valid_libraries pad_hash ?libs [(1, \<lparr>lib_public = True, lib_root = c\<rparr>)]" using c by (simp add: valid_libraries_def)
  then have x: "valid_init pad_hash ?x" using c by (auto simp: valid_init_def)
  show ?thesis
    using storeMessage_uncounted_references [of pad_hash "\<lparr>msg_info = CInternal ?i, msg_init = Some ?x, msg_body = d\<rparr>" ?i ?x]
      pad_hash_ok i x d b(2) by (auto simp: small_amounts_def)
qed

section \<open>Tuples\<close>

text \<open>
  C9: a list of tuple items (nested tuples included) serialised by \<open>serializeTuple\<close> is parsed back
  by \<open>parseTuple\<close>: every integer of 257 bits, NaN, null, cell and builder is equal, and a slice is
  a new cell with the same tree and hashes.
\<close>

theorem tuple_roundtrip:
  assumes "sha_ok sha" "length xs < 2 ^ 24" "\<forall>x \<in> set xs. valid_item sha x"
  shows "\<exists>c ys. serializeTuple sha xs = Inr c \<and> parseTuple sha c = Inr ys \<and> list_all2 same_item xs ys"
  using tuple_through [OF assms] by blast

theorem tuple_roundtrip_witness:
  "\<exists>c ys. serializeTuple pad_hash [TInt (-5), TTuple [TNull, TNaN, TTuple [TInt (2 ^ 200)]]] = Inr c \<and>
    parseTuple pad_hash c = Inr ys \<and>
    list_all2 same_item [TInt (-5), TTuple [TNull, TNaN, TTuple [TInt (2 ^ 200)]]] ys"
  by (rule tuple_roundtrip [OF pad_hash_ok]) (simp_all add: int_range_def)

section \<open>Wallets\<close>

text \<open>Properties of the wallets and of the functions around them.\<close>

section \<open>Transfers of version 4\<close>




text \<open>
  C10: \<open>WalletContractV4.createTransfer\<close> with a secret key gives a cell that \<open>loadMessage\<close> reads as an
  external message to the wallet, without a fee, with the initial state of the wallet exactly when
  the sequence number is zero, and with the signed body as its body.
\<close>

theorem createTransfer_external:
  assumes "sha_ok sha" "length ms \<le> 4" "\<forall>m \<in> set ms. valid_message_relaxed sha m"
    and "0 \<le> sendMode" "sendMode < 2 ^ 8" "0 \<le> seqno" "seqno < 2 ^ 32"
    and "timeout_ok now 600 timeout" "\<forall>h. length h = 32 \<longrightarrow> (\<exists>g. detached h key = Inr g \<and> length g = 64)"
    and "valid_std (w_address w)" "cell_ok (w_code w)" "cell_ok (w_data w)" "0 \<le> w_walletId w" "w_walletId w < 2 ^ 32" "key \<noteq> []"
  shows "\<exists>body c s m s'. createWalletTransferV4 sha detached now seqno sendMode (w_walletId w) ms key timeout = Inr body \<and>
    WalletContractV4_createTransfer sha detached now w seqno key ms (Some sendMode) timeout = Inr c \<and>
    Cell_beginParse c False = Inr s \<and> loadMessage sha s = Inr (m, s') \<and>
    msg_info m = CExternalIn \<lparr>ei_src = None, ei_dest = w_address w, ei_importFee = 0\<rparr> \<and>
    msg_init m = (if seqno = 0 then Some (wallet_init w) else None) \<and> xtree (msg_body m) = xtree body"
proof -
  obtain body where body: "createWalletTransferV4 sha detached now seqno sendMode (w_walletId w) ms key timeout = Inr body"
    "made sha body" "cell_type body = Ordinary"
    using transferV4_body [of sha ms sendMode seqno "w_walletId w" now timeout detached key] assms by blast
  let ?m = "\<lparr>msg_info = CExternalIn \<lparr>ei_src = None, ei_dest = w_address w, ei_importFee = 0\<rparr>,
    msg_init = (if seqno = 0 then Some (wallet_init w) else None), msg_body = body\<rparr>"
  have v: "valid_message sha ?m"
    using assms(10-12) body(2) by (simp add: valid_message_def place_refs_def init_refs_def valid_init_def wallet_init_def
      code_data_def valid_coins_def)
  have "info_refs (msg_info ?m) + place_refs (msg_init ?m) + 1 \<le> 4" using v by (simp add: valid_message_def)
  from rt_end_cell [OF rt_message [OF assms(1) v, of False] assms(1) order_refl this] body(3)
  obtain b c s m s' where r: "storeMessage sha ?m False new_Builder = Inr b" "Builder_endCell sha False b = Inr c"
    "Cell_beginParse c False = Inr s" "loadMessage sha s = Inr (m, s')" "same_message ?m m" by auto
  have "WalletContractV4_createTransfer sha detached now w seqno key ms (Some sendMode) timeout = Inr c"
    using body(1) r(1,2) assms(15)
    by (simp add: WalletContractV4_createTransfer_def Wallet_external_def external_message_def resolve_address_def store_apply)
  then show ?thesis using body(1) r(3-5) by (intro exI [of _ body] exI [of _ c] exI [of _ s] exI [of _ m] exI [of _ s']) (simp add: same_message_def)
qed

theorem createTransfer_external_witness:
  "\<exists>w c s m s'. WalletContractV4_createTransfer pad_hash (\<lambda>h key. Inr (replicate 64 9)) 0 w 0 [1] [] (Some 3) None = Inr c \<and>
    Cell_beginParse c False = Inr s \<and> loadMessage pad_hash s = Inr (m, s') \<and> msg_init m = Some (wallet_init w)"
proof -
  obtain d where d: "cell_ok d" using leaf_cell by blast
  let ?w = "\<lparr>w_workchain = 0, w_publicKey = replicate 32 2, w_address = \<lparr>workChain = 0, addr_hash = replicate 32 1\<rparr>,
    w_walletId = 698983191, w_code = d, w_data = d\<rparr>"
  from createTransfer_external [OF pad_hash_ok, of "[]" 3 0 0 None "\<lambda>h key. Inr (replicate 64 9)" "[1]" ?w] d
  show ?thesis by (fastforce simp: timeout_ok_def valid_std_def int_range_def)
qed

section \<open>Bytes over several cells\<close>

text \<open>
  C32: the cell that \<open>packBytesAsSnake\<close> makes of bytes that do not fit in place carries the first
  254 of them only: reading it along its references gives \<open>take 254 bytes\<close>, whatever the length.
\<close>

theorem packBytesAsSnake_truncates:
  assumes "sha_ok sha" "maxBytes < int (length bytes)" "bytes \<noteq> []"
  shows "\<exists>c s s'. packBytesAsSnake sha bytes maxBytes = Inr (PCell c) \<and> Cell_beginParse c False = Inr s \<and>
    strings_readBuffer s = Inr (take 254 bytes, s')"
proof -
  obtain c where c: "packBytesAsSnake sha bytes maxBytes = Inr (PCell c)" "cell_ok c" "cell_type c = Ordinary"
    "bs_bits (cell_bits c) = buf_bits (chunk bytes 0)"
    "if length bytes \<le> 127 then chunk bytes 1 = [] \<and> (\<forall>d \<in> set (cell_refs c). leaf d []) \<and> length (cell_refs c) \<le> 1
       else \<exists>d. cell_refs c = [d] \<and> leaf d (chunk bytes 1)"
    using snake_cells [OF assms] by blast
  have "snake (chunk bytes 1) (cell_refs c)"
  proof (cases "cell_refs c")
    case Nil
    then show ?thesis using c(5) snake.snake_end by (simp split: if_splits)
  next
    case (Cons d rs)
    then have "rs = []" "leaf d (chunk bytes 1)" using c(5) by (auto split: if_splits)
    then show ?thesis using snake.snake_more [of d "chunk bytes 1" "[]"] snake.snake_end Cons by (simp add: leaf_def)
  qed
  moreover obtain s where s: "Cell_beginParse c False = Inr s" "sl_ok s" "sl_bits s = buf_bits (chunk bytes 0)" "sl_cells s = cell_refs c"
    using beginParse_ok [OF c(2), of False] c(3,4) by auto
  ultimately have "\<exists>s'. strings_readBuffer s = Inr (chunk bytes 0 @ chunk bytes 1, s')"
    using readBuffer_snake [of "chunk bytes 1" "cell_refs c" s "chunk bytes 0"] by blast
  moreover have "chunk bytes 0 @ chunk bytes 1 = take 254 bytes"
    using take_add [of 127 127 bytes] by (simp add: chunk_def)
  ultimately show ?thesis using c(1) s(1) by auto
qed

theorem packBytesAsSnake_truncates_witness:
  "\<exists>c s s'. packBytesAsSnake pad_hash (replicate 300 7) 10 = Inr (PCell c) \<and> Cell_beginParse c False = Inr s \<and>
    strings_readBuffer s = Inr (replicate 254 7, s')"
  using packBytesAsSnake_truncates [OF pad_hash_ok, of 10 "replicate 300 7"] by simp

end
