(* ===== verification/Btc_Buffer.thy ===== *)
theory Btc_Buffer
  imports Js_Prelude
begin

text \<open>
  The byte-level writers and readers of coin-bitcoin (bitcoinjs-lib/bufferutils.ts, varuint.js): a
  position that moves through a buffer. Node's fixed-width reads and writes throw on a value or a
  position out of range. \<open>Buffer.allocUnsafe\<close> gives a buffer of unspecified content, here zeros;
  every buffer so made is overwritten to its end, which the lemmas on the writers show.
\<close>

section \<open>Numbers in little-endian order\<close>

primrec le_bytes :: "nat \<Rightarrow> int \<Rightarrow> buffer" where
  "le_bytes 0 v = []"
| "le_bytes (Suc n) v = word_of_int v # le_bytes n (v div 256)"

primrec le_val :: "buffer \<Rightarrow> int" where
  "le_val [] = 0"
| "le_val (b # bs) = uint b + 256 * le_val bs"

lemma length_le_bytes [simp]: "length (le_bytes n v) = n"
  by (induction n arbitrary: v) simp_all

lemma le_val_le_bytes: "le_val (le_bytes n v) = v mod 256 ^ n"
proof (induction n arbitrary: v)
  case (Suc n)
  have "uint (word_of_int v :: byte) = v mod 256" by (simp add: uint_word_of_int)
  then show ?case using Suc by (simp add: zmod_zmult2_eq)
qed simp

lemma le_val_id: "0 \<le> v \<Longrightarrow> v < 256 ^ n \<Longrightarrow> le_val (le_bytes n v) = v"
  by (simp add: le_val_le_bytes)

lemma le_val_nonneg [simp]: "0 \<le> le_val bs"
  by (induction bs) simp_all

lemma le_val_less: "le_val bs < 256 ^ length bs"
proof (induction bs)
  case (Cons b bs)
  have "uint b < 256" using uint_bounded [of b] by simp
  with Cons show ?case by simp
qed simp

lemma le_bytes_le_val: "le_bytes (length bs) (le_val bs) = bs"
proof (induction bs)
  case (Cons b bs)
  have b: "0 \<le> uint b" "uint b < 256" using uint_bounded [of b] by simp_all
  then have "(uint b + 256 * le_val bs) div 256 = le_val bs" by simp
  moreover have "word_of_int (uint b + 256 * le_val bs) = b"
    by (rule word_uint_eqI, subst uint_word_of_int) (use b in simp)
  ultimately show ?case using Cons by simp
qed simp

lemma le_bytes_mod: "le_bytes n (v mod 256 ^ n) = le_bytes n v"
  using le_bytes_le_val [of "le_bytes n v"] by (simp add: le_val_le_bytes)

lemma le_bytes_add: "le_bytes (m + n) v = le_bytes m v @ le_bytes n (v div 256 ^ m)"
  by (induction m arbitrary: v) (simp_all add: zdiv_zmult2_eq)

lemma or_shifted:
  fixes a b :: int
  assumes "0 \<le> a" and "a < 2 ^ k"
  shows "a OR push_bit k b = a + 2 ^ k * b"
proof -
  have "take_bit k a = a" using assms by (simp add: take_bit_int_eq_self)
  then have "\<not> bit a n" if "k \<le> n" for n using that by (metis bit_take_bit_iff linorder_not_less)
  then have "a AND push_bit k b = 0" by (intro bit_eqI) (auto simp: bit_simps)
  then show ?thesis by (simp add: disjunctive_add_eq_or push_bit_eq_mult mult.commute)
qed

text \<open>A signed number of \<open>n\<close> bytes, as \<open>readInt32LE\<close> reads it.\<close>

definition le_signed :: "nat \<Rightarrow> int \<Rightarrow> int" where
  "le_signed n v = (if v < 256 ^ n div 2 then v else v - 256 ^ n)"

section \<open>Node buffers\<close>

definition Buffer_put :: "buffer \<Rightarrow> nat \<Rightarrow> buffer \<Rightarrow> buffer res" where
  "Buffer_put bytes off buf =
     (if length buf < off + length bytes then Inl IndexOutOfBounds
      else Inr (take off buf @ bytes @ drop (off + length bytes) buf))"

definition Buffer_writeUIntLE :: "nat \<Rightarrow> int \<Rightarrow> nat \<Rightarrow> buffer \<Rightarrow> buffer res" where
  "Buffer_writeUIntLE n v off buf =
     (if v < 0 \<or> 256 ^ n \<le> v then Inl ValueOutOfRange else Buffer_put (le_bytes n v) off buf)"

definition Buffer_writeIntLE :: "nat \<Rightarrow> int \<Rightarrow> nat \<Rightarrow> buffer \<Rightarrow> buffer res" where
  "Buffer_writeIntLE n v off buf =
     (if v < - (256 ^ n div 2) \<or> 256 ^ n div 2 \<le> v then Inl ValueOutOfRange else Buffer_put (le_bytes n v) off buf)"

definition Buffer_readUIntLE :: "nat \<Rightarrow> nat \<Rightarrow> buffer \<Rightarrow> int res" where
  "Buffer_readUIntLE n off buf =
     (if length buf < off + n then Inl IndexOutOfBounds else Inr (le_val (take n (drop off buf))))"

definition Buffer_readIntLE :: "nat \<Rightarrow> nat \<Rightarrow> buffer \<Rightarrow> int res" where
  "Buffer_readIntLE n off buf = bindE (Buffer_readUIntLE n off buf) (\<lambda>v. Inr (le_signed n v))"

section \<open>Numbers of variable length (varuint.js)\<close>

definition checkUInt53 :: "int \<Rightarrow> unit res" where
  "checkUInt53 n = (if n < 0 \<or> n > 9007199254740991 then Inl ValueOutOfRange else Inr ())"

text \<open>The length without the check, which a length of a buffer or an array always passes.\<close>

definition varuint_size :: "int \<Rightarrow> nat" where
  "varuint_size n = (if n < 0xfd then 1 else if n \<le> 0xffff then 3 else if n \<le> 0xffffffff then 5 else 9)"

definition varuint_encodingLength :: "int \<Rightarrow> nat res" where
  "varuint_encodingLength n = bindE (checkUInt53 n) (\<lambda>_. Inr (varuint_size n))"

text \<open>Encoding into a given buffer; the second component is \<open>encode.bytes\<close>.\<close>

definition varuint_encode :: "int \<Rightarrow> nat \<Rightarrow> buffer \<Rightarrow> (buffer \<times> nat) res" where
  "varuint_encode number off buf =
     bindE (checkUInt53 number) (\<lambda>_.
     if number < 0xfd
     then bindE (Buffer_writeUIntLE 1 number off buf) (\<lambda>buf. Inr (buf, 1))
     else if number \<le> 0xffff
     then bindE (Buffer_writeUIntLE 1 0xfd off buf) (\<lambda>buf.
          bindE (Buffer_writeUIntLE 2 number (off + 1) buf) (\<lambda>buf. Inr (buf, 3)))
     else if number \<le> 0xffffffff
     then bindE (Buffer_writeUIntLE 1 0xfe off buf) (\<lambda>buf.
          bindE (Buffer_writeUIntLE 4 number (off + 1) buf) (\<lambda>buf. Inr (buf, 5)))
     else bindE (Buffer_writeUIntLE 1 0xff off buf) (\<lambda>buf.
          bindE (Buffer_writeUIntLE 4 (number mod 2 ^ 32) (off + 1) buf) (\<lambda>buf.
          bindE (Buffer_writeUIntLE 4 (to_int32 (number div 2 ^ 32)) (off + 5) buf) (\<lambda>buf. Inr (buf, 9)))))"

definition varuint_decode :: "nat \<Rightarrow> buffer \<Rightarrow> (int \<times> nat) res" where
  "varuint_decode off buf =
     bindE (Buffer_readUIntLE 1 off buf) (\<lambda>first.
     if first < 0xfd then Inr (first, 1)
     else if first = 0xfd then bindE (Buffer_readUIntLE 2 (off + 1) buf) (\<lambda>v. Inr (v, 3))
     else if first = 0xfe then bindE (Buffer_readUIntLE 4 (off + 1) buf) (\<lambda>v. Inr (v, 5))
     else bindE (Buffer_readUIntLE 4 (off + 1) buf) (\<lambda>lo.
          bindE (Buffer_readUIntLE 4 (off + 5) buf) (\<lambda>hi.
          let number = hi * 0x100000000 + lo
          in bindE (checkUInt53 number) (\<lambda>_. Inr (number, 9)))))"

section \<open>Numbers of 64 bits (bufferutils.ts)\<close>

definition verifuint :: "int \<Rightarrow> unit res" where \<comment> \<open>\<open>verifuint(value, 0x001fffffffffffff)\<close>\<close>
  "verifuint v = (if v < 0 then Inl ValueNegative else if v > 0x1fffffffffffff then Inl ValueOutOfRange else Inr ())"

definition readUInt64LE :: "nat \<Rightarrow> buffer \<Rightarrow> int res" where
  "readUInt64LE off buf =
     bindE (Buffer_readUIntLE 4 off buf) (\<lambda>a.
     bindE (Buffer_readUIntLE 4 (off + 4) buf) (\<lambda>b.
     bindE (verifuint (b * 0x100000000 + a)) (\<lambda>_. Inr (b * 0x100000000 + a))))"

definition writeUInt64LE :: "int \<Rightarrow> nat \<Rightarrow> buffer \<Rightarrow> (buffer \<times> nat) res" where
  "writeUInt64LE v off buf =
     bindE (verifuint v) (\<lambda>_.
     bindE (Buffer_writeIntLE 4 (js_and v (- 1)) off buf) (\<lambda>buf.
     bindE (Buffer_writeUIntLE 4 (v div 0x100000000) (off + 4) buf) (\<lambda>buf. Inr (buf, off + 8))))"

text \<open>\<open>reverseBuffer\<close> swaps in place; \<open>i < length / 2\<close> is a comparison with a half for odd lengths.\<close>

definition reverseBuffer :: "buffer \<Rightarrow> buffer" where
  "reverseBuffer buf =
     fst (foldl (\<lambda>(b, j) i. (b[i := b ! j, j := b ! i], j - 1)) (buf, length buf - 1) [0..<(length buf + 1) div 2])"

definition cloneBuffer :: "buffer \<Rightarrow> buffer" where
  "cloneBuffer buf = buf_copy buf (buf_alloc (length buf)) 0"

section \<open>The writer\<close>

record buffer_writer =
  bw_buffer :: buffer
  bw_offset :: nat

definition new_BufferWriter :: "buffer \<Rightarrow> nat \<Rightarrow> buffer_writer res" where
  "new_BufferWriter buf off = (if 2 ^ 32 \<le> off then Inl TypeErr else Inr \<lparr>bw_buffer = buf, bw_offset = off\<rparr>)"

definition BufferWriter_withCapacity :: "nat \<Rightarrow> buffer_writer res" where
  "BufferWriter_withCapacity n = new_BufferWriter (buf_alloc n) 0"

definition BufferWriter_writeUInt8 :: "int \<Rightarrow> buffer_writer \<Rightarrow> buffer_writer res" where
  "BufferWriter_writeUInt8 i w =
     bindE (Buffer_writeUIntLE 1 i (bw_offset w) (bw_buffer w)) (\<lambda>b. Inr \<lparr>bw_buffer = b, bw_offset = bw_offset w + 1\<rparr>)"

definition BufferWriter_writeInt32 :: "int \<Rightarrow> buffer_writer \<Rightarrow> buffer_writer res" where
  "BufferWriter_writeInt32 i w =
     bindE (Buffer_writeIntLE 4 i (bw_offset w) (bw_buffer w)) (\<lambda>b. Inr \<lparr>bw_buffer = b, bw_offset = bw_offset w + 4\<rparr>)"

definition BufferWriter_writeUInt32 :: "int \<Rightarrow> buffer_writer \<Rightarrow> buffer_writer res" where
  "BufferWriter_writeUInt32 i w =
     bindE (Buffer_writeUIntLE 4 i (bw_offset w) (bw_buffer w)) (\<lambda>b. Inr \<lparr>bw_buffer = b, bw_offset = bw_offset w + 4\<rparr>)"

definition BufferWriter_writeUInt64 :: "int \<Rightarrow> buffer_writer \<Rightarrow> buffer_writer res" where
  "BufferWriter_writeUInt64 i w =
     bindE (writeUInt64LE i (bw_offset w) (bw_buffer w)) (\<lambda>(b, off). Inr \<lparr>bw_buffer = b, bw_offset = off\<rparr>)"

definition BufferWriter_writeVarInt :: "int \<Rightarrow> buffer_writer \<Rightarrow> buffer_writer res" where
  "BufferWriter_writeVarInt i w =
     bindE (varuint_encode i (bw_offset w) (bw_buffer w)) (\<lambda>(b, n). Inr \<lparr>bw_buffer = b, bw_offset = bw_offset w + n\<rparr>)"

definition BufferWriter_writeSlice :: "buffer \<Rightarrow> buffer_writer \<Rightarrow> buffer_writer res" where
  "BufferWriter_writeSlice s w =
     (if length (bw_buffer w) < bw_offset w + length s then Inl BufferLength
      else Inr \<lparr>bw_buffer = buf_copy s (bw_buffer w) (bw_offset w), bw_offset = bw_offset w + length s\<rparr>)"

definition BufferWriter_writeVarSlice :: "buffer \<Rightarrow> buffer_writer \<Rightarrow> buffer_writer res" where
  "BufferWriter_writeVarSlice s w = bindE (BufferWriter_writeVarInt (int (length s)) w) (BufferWriter_writeSlice s)"

definition BufferWriter_writeVector :: "buffer list \<Rightarrow> buffer_writer \<Rightarrow> buffer_writer res" where
  "BufferWriter_writeVector v w =
     bindE (BufferWriter_writeVarInt (int (length v)) w) (foldE BufferWriter_writeVarSlice v)"

definition BufferWriter_end :: "buffer_writer \<Rightarrow> buffer res" where
  "BufferWriter_end w = (if length (bw_buffer w) = bw_offset w then Inr (bw_buffer w) else Inl BufferLength)"

section \<open>The reader\<close>

record buffer_reader =
  br_buffer :: buffer
  br_offset :: nat

type_synonym 'a bload = "buffer_reader \<Rightarrow> ('a \<times> buffer_reader) res"

definition new_BufferReader :: "buffer \<Rightarrow> buffer_reader" where
  "new_BufferReader buf = \<lparr>br_buffer = buf, br_offset = 0\<rparr>"

definition br_move :: "nat \<Rightarrow> buffer_reader \<Rightarrow> buffer_reader" where
  "br_move n r = r\<lparr>br_offset := br_offset r + n\<rparr>"

definition BufferReader_readUInt8 :: "int bload" where
  "BufferReader_readUInt8 r = bindE (Buffer_readUIntLE 1 (br_offset r) (br_buffer r)) (\<lambda>v. Inr (v, br_move 1 r))"

definition BufferReader_readInt32 :: "int bload" where
  "BufferReader_readInt32 r = bindE (Buffer_readIntLE 4 (br_offset r) (br_buffer r)) (\<lambda>v. Inr (v, br_move 4 r))"

definition BufferReader_readUInt32 :: "int bload" where
  "BufferReader_readUInt32 r = bindE (Buffer_readUIntLE 4 (br_offset r) (br_buffer r)) (\<lambda>v. Inr (v, br_move 4 r))"

definition BufferReader_readUInt64 :: "int bload" where
  "BufferReader_readUInt64 r = bindE (readUInt64LE (br_offset r) (br_buffer r)) (\<lambda>v. Inr (v, br_move 8 r))"

definition BufferReader_readVarInt :: "int bload" where
  "BufferReader_readVarInt r = bindE (varuint_decode (br_offset r) (br_buffer r)) (\<lambda>(v, n). Inr (v, br_move n r))"

definition BufferReader_readSlice :: "int \<Rightarrow> buffer bload" where
  "BufferReader_readSlice n r =
     (if int (length (br_buffer r)) < int (br_offset r) + n then Inl BufferLength
      else Inr (take (nat n) (drop (br_offset r) (br_buffer r)), br_move (nat n) r))"

definition BufferReader_readVarSlice :: "buffer bload" where
  "BufferReader_readVarSlice r = bindE (BufferReader_readVarInt r) (\<lambda>(n, r). BufferReader_readSlice n r)"

text \<open>A loop of \<open>n\<close> reads whose results are pushed on an array.\<close>

primrec read_times :: "nat \<Rightarrow> 'a bload \<Rightarrow> 'a list bload" where
  "read_times 0 f r = Inr ([], r)"
| "read_times (Suc n) f r = bindE (f r) (\<lambda>(x, r). bindE (read_times n f r) (\<lambda>(xs, r). Inr (x # xs, r)))"

definition BufferReader_readVector :: "buffer list bload" where
  "BufferReader_readVector r = bindE (BufferReader_readVarInt r) (\<lambda>(count, r). read_times (nat count) BufferReader_readVarSlice r)"

end
