(* ===== verification/Btc_Script.thy ===== *)
theory Btc_Script
  imports Btc_Buffer Node_Text
begin

text \<open>
  Scripts of coin-bitcoin (bitcoinjs-lib/script.ts with ops.ts, push_data.ts, script_number.ts,
  bip66.ts and script_signature.ts): compiling and decompiling, numbers on the stack, and
  signatures in DER form.
\<close>

section \<open>Operations (ops.ts)\<close>

definition OPS :: "(string \<times> int) list" where
  "OPS = [
     (''OP_FALSE'', 0), (''OP_0'', 0), (''OP_DATA_1'', 1), (''OP_PUSHDATA1'', 76), (''OP_PUSHDATA2'', 77),
     (''OP_PUSHDATA4'', 78), (''OP_1NEGATE'', 79), (''OP_RESERVED'', 80), (''OP_TRUE'', 81), (''OP_1'', 81),
     (''OP_2'', 82), (''OP_3'', 83), (''OP_4'', 84), (''OP_5'', 85), (''OP_6'', 86), (''OP_7'', 87),
     (''OP_8'', 88), (''OP_9'', 89), (''OP_10'', 90), (''OP_11'', 91), (''OP_12'', 92), (''OP_13'', 93),
     (''OP_14'', 94), (''OP_15'', 95), (''OP_16'', 96), (''OP_NOP'', 97), (''OP_VER'', 98), (''OP_IF'', 99),
     (''OP_NOTIF'', 100), (''OP_VERIF'', 101), (''OP_VERNOTIF'', 102), (''OP_ELSE'', 103), (''OP_ENDIF'', 104),
     (''OP_VERIFY'', 105), (''OP_RETURN'', 106), (''OP_TOALTSTACK'', 107), (''OP_FROMALTSTACK'', 108),
     (''OP_2DROP'', 109), (''OP_2DUP'', 110), (''OP_3DUP'', 111), (''OP_2OVER'', 112), (''OP_2ROT'', 113),
     (''OP_2SWAP'', 114), (''OP_IFDUP'', 115), (''OP_DEPTH'', 116), (''OP_DROP'', 117), (''OP_DUP'', 118),
     (''OP_NIP'', 119), (''OP_OVER'', 120), (''OP_PICK'', 121), (''OP_ROLL'', 122), (''OP_ROT'', 123),
     (''OP_SWAP'', 124), (''OP_TUCK'', 125), (''OP_CAT'', 126), (''OP_SUBSTR'', 127), (''OP_LEFT'', 128),
     (''OP_RIGHT'', 129), (''OP_SIZE'', 130), (''OP_INVERT'', 131), (''OP_AND'', 132), (''OP_OR'', 133),
     (''OP_XOR'', 134), (''OP_EQUAL'', 135), (''OP_EQUALVERIFY'', 136), (''OP_RESERVED1'', 137),
     (''OP_RESERVED2'', 138), (''OP_1ADD'', 139), (''OP_1SUB'', 140), (''OP_2MUL'', 141), (''OP_2DIV'', 142),
     (''OP_NEGATE'', 143), (''OP_ABS'', 144), (''OP_NOT'', 145), (''OP_0NOTEQUAL'', 146), (''OP_ADD'', 147),
     (''OP_SUB'', 148), (''OP_MUL'', 149), (''OP_DIV'', 150), (''OP_MOD'', 151), (''OP_LSHIFT'', 152),
     (''OP_RSHIFT'', 153), (''OP_BOOLAND'', 154), (''OP_BOOLOR'', 155), (''OP_NUMEQUAL'', 156),
     (''OP_NUMEQUALVERIFY'', 157), (''OP_NUMNOTEQUAL'', 158), (''OP_LESSTHAN'', 159), (''OP_GREATERTHAN'', 160),
     (''OP_LESSTHANOREQUAL'', 161), (''OP_GREATERTHANOREQUAL'', 162), (''OP_MIN'', 163), (''OP_MAX'', 164),
     (''OP_WITHIN'', 165), (''OP_RIPEMD160'', 166), (''OP_SHA1'', 167), (''OP_SHA256'', 168),
     (''OP_HASH160'', 169), (''OP_HASH256'', 170), (''OP_CODESEPARATOR'', 171), (''OP_CHECKSIG'', 172),
     (''OP_CHECKSIGVERIFY'', 173), (''OP_CHECKMULTISIG'', 174), (''OP_CHECKMULTISIGVERIFY'', 175),
     (''OP_NOP1'', 176), (''OP_NOP2'', 177), (''OP_CHECKLOCKTIMEVERIFY'', 177), (''OP_NOP3'', 178),
     (''OP_CHECKSEQUENCEVERIFY'', 178), (''OP_NOP4'', 179), (''OP_NOP5'', 180), (''OP_NOP6'', 181),
     (''OP_NOP7'', 182), (''OP_NOP8'', 183), (''OP_NOP9'', 184), (''OP_NOP10'', 185), (''OP_CHECKSIGADD'', 186),
     (''OP_PUBKEYHASH'', 253), (''OP_PUBKEY'', 254), (''OP_INVALIDOPCODE'', 255)]"

definition OP_code :: "string \<Rightarrow> int option" where \<comment> \<open>\<open>OPS[name]\<close>\<close>
  "OP_code name = map_of OPS name"

text \<open>The inverse is filled in the order of the table, so of two names the later one stays.\<close>

definition REVERSE_OPS :: "int \<Rightarrow> string option" where
  "REVERSE_OPS code = map_of (rev (map (\<lambda>(n, c). (c, n)) OPS)) code"

definition OP_INT_BASE :: int where "OP_INT_BASE = 80"

section \<open>Pushes of data (push\_data.ts)\<close>

definition pushdata_encodingLength :: "int \<Rightarrow> nat" where
  "pushdata_encodingLength i = (if i < 76 then 1 else if i \<le> 0xff then 2 else if i \<le> 0xffff then 3 else 5)"

definition pushdata_encode :: "int \<Rightarrow> nat \<Rightarrow> buffer \<Rightarrow> (buffer \<times> nat) res" where
  "pushdata_encode num off buf =
     (let sz = pushdata_encodingLength num
      in bindE (if sz = 1 then Buffer_writeUIntLE 1 num off buf
                else if sz = 2
                then bindE (Buffer_writeUIntLE 1 76 off buf) (Buffer_writeUIntLE 1 num (off + 1))
                else if sz = 3
                then bindE (Buffer_writeUIntLE 1 77 off buf) (Buffer_writeUIntLE 2 num (off + 1))
                else bindE (Buffer_writeUIntLE 1 78 off buf) (Buffer_writeUIntLE 4 num (off + 1))) (\<lambda>buf.
         Inr (buf, sz)))"

text \<open>Opcode, number and size, or \<open>null\<close>.\<close>

definition pushdata_decode :: "nat \<Rightarrow> buffer \<Rightarrow> (int \<times> int \<times> nat) option res" where
  "pushdata_decode off buf =
     bindE (Buffer_readUIntLE 1 off buf) (\<lambda>opcode.
     if opcode < 76 then Inr (Some (opcode, opcode, 1))
     else if opcode = 76
     then if off + 2 > length buf then Inr None
          else bindE (Buffer_readUIntLE 1 (off + 1) buf) (\<lambda>n. Inr (Some (opcode, n, 2)))
     else if opcode = 77
     then if off + 3 > length buf then Inr None
          else bindE (Buffer_readUIntLE 2 (off + 1) buf) (\<lambda>n. Inr (Some (opcode, n, 3)))
     else if off + 5 > length buf then Inr None
     else if opcode \<noteq> 78 then Inl InvalidData
     else bindE (Buffer_readUIntLE 4 (off + 1) buf) (\<lambda>n. Inr (Some (opcode, n, 5))))"

section \<open>Numbers on the stack (script\_number.ts)\<close>

definition scriptNumber_decode :: "buffer \<Rightarrow> int option \<Rightarrow> bool option \<Rightarrow> int res" where
  "scriptNumber_decode buf maxLength minimal =
     (let maxLength = (case maxLength of Some m \<Rightarrow> if m = 0 then 4 else m | None \<Rightarrow> 4);
          minimal = (case minimal of Some m \<Rightarrow> m | None \<Rightarrow> True);
          n = length buf
      in if n = 0 then Inr 0
         else if int n > maxLength then Inl InvalidSize
         else if minimal \<and> js_and (uint (buf ! (n - 1))) 0x7f = 0 \<and> (n \<le> 1 \<or> js_and (uint (buf ! (n - 2))) 0x80 = 0)
         then Inl InvalidNumber
         else if n = 5
         then bindE (Buffer_readUIntLE 4 0 buf) (\<lambda>a.
              bindE (Buffer_readUIntLE 1 4 buf) (\<lambda>b.
              if js_and b 0x80 \<noteq> 0 then Inr (- (js_and b (NOT 0x80) * 0x100000000 + a))
              else Inr (b * 0x100000000 + a)))
         else let result = foldl (\<lambda>r i. js_or r (js_shl (uint (buf ! i)) (8 * i mod 32))) 0 [0..<n]
              in if js_and (uint (buf ! (n - 1))) 0x80 \<noteq> 0
                 then Inr (- js_and result (NOT (js_shl 0x80 (8 * (n - 1) mod 32))))
                 else Inr result)"

definition scriptNumSize :: "int \<Rightarrow> nat" where
  "scriptNumSize i =
     (if i > 0x7fffffff then 5 else if i > 0x7fffff then 4 else if i > 0x7fff then 3 else if i > 0x7f then 2
      else if i > 0 then 1 else 0)"

definition scriptNumber_encode :: "int \<Rightarrow> buffer" where
  "scriptNumber_encode number =
     (let sz = scriptNumSize \<bar>number\<bar>;
          buf = fst (foldl (\<lambda>(buf, v) i. (buf_set buf (int i) (js_and v 0xff), js_shr v 8)) (buf_alloc sz, \<bar>number\<bar>) [0..<sz]);
          top = uint (buf_get buf (int sz - 1))
      in if js_and top 0x80 \<noteq> 0 then buf_set buf (int sz - 1) (if number < 0 then 0x80 else 0)
         else if number < 0 then buf_set buf (int sz - 1) (js_or top 0x80)
         else buf)"

section \<open>Signatures in DER form (bip66.ts)\<close>

text \<open>A byte of a buffer as a Number; where the code reads past the end, no comparison depends on it.\<close>

abbreviation byte_at :: "buffer \<Rightarrow> nat \<Rightarrow> int" where
  "byte_at b i \<equiv> uint (buf_get b (int i))"

definition bip66_check :: "buffer \<Rightarrow> bool" where
  "bip66_check b =
     (if length b < 8 then False
      else if length b > 72 then False
      else if byte_at b 0 \<noteq> 0x30 then False
      else if byte_at b 1 \<noteq> int (length b) - 2 then False
      else if byte_at b 2 \<noteq> 0x02 then False
      else let lenR = nat (byte_at b 3)
      in if lenR = 0 then False
      else if 5 + lenR \<ge> length b then False
      else if byte_at b (4 + lenR) \<noteq> 0x02 then False
      else let lenS = nat (byte_at b (5 + lenR))
      in if lenS = 0 then False
      else if 6 + lenR + lenS \<noteq> length b then False
      else if js_and (byte_at b 4) 0x80 \<noteq> 0 then False
      else if lenR > 1 \<and> byte_at b 4 = 0 \<and> js_and (byte_at b 5) 0x80 = 0 then False
      else if js_and (byte_at b (lenR + 6)) 0x80 \<noteq> 0 then False
      else if lenS > 1 \<and> byte_at b (lenR + 6) = 0 \<and> js_and (byte_at b (lenR + 7)) 0x80 = 0 then False
      else True)"

definition bip66_decode :: "buffer \<Rightarrow> (buffer \<times> buffer) res" where
  "bip66_decode b =
     (if length b < 8 then Inl InvalidSize
      else if length b > 72 then Inl InvalidSize
      else if byte_at b 0 \<noteq> 0x30 then Inl InvalidData
      else if byte_at b 1 \<noteq> int (length b) - 2 then Inl InvalidSize
      else if byte_at b 2 \<noteq> 0x02 then Inl InvalidData
      else let lenR = nat (byte_at b 3)
      in if lenR = 0 then Inl InvalidSize
      else if 5 + lenR \<ge> length b then Inl InvalidSize
      else if byte_at b (4 + lenR) \<noteq> 0x02 then Inl InvalidData
      else let lenS = nat (byte_at b (5 + lenR))
      in if lenS = 0 then Inl InvalidSize
      else if 6 + lenR + lenS \<noteq> length b then Inl InvalidSize
      else if js_and (byte_at b 4) 0x80 \<noteq> 0 then Inl ValueNegative
      else if lenR > 1 \<and> byte_at b 4 = 0 \<and> js_and (byte_at b 5) 0x80 = 0 then Inl InvalidPadding
      else if js_and (byte_at b (lenR + 6)) 0x80 \<noteq> 0 then Inl ValueNegative
      else if lenS > 1 \<and> byte_at b (lenR + 6) = 0 \<and> js_and (byte_at b (lenR + 7)) 0x80 = 0 then Inl InvalidPadding
      else Inr (buf_subarray b 4 (int (4 + lenR)), buf_subarray b (int (6 + lenR)) (int (length b))))"

definition bip66_encode :: "buffer \<Rightarrow> buffer \<Rightarrow> buffer res" where
  "bip66_encode r s =
     (let lenR = length r; lenS = length s
      in if lenR = 0 then Inl InvalidSize
      else if lenS = 0 then Inl InvalidSize
      else if lenR > 33 then Inl InvalidSize
      else if lenS > 33 then Inl InvalidSize
      else if js_and (byte_at r 0) 0x80 \<noteq> 0 then Inl ValueNegative
      else if js_and (byte_at s 0) 0x80 \<noteq> 0 then Inl ValueNegative
      else if lenR > 1 \<and> byte_at r 0 = 0 \<and> js_and (byte_at r 1) 0x80 = 0 then Inl InvalidPadding
      else if lenS > 1 \<and> byte_at s 0 = 0 \<and> js_and (byte_at s 1) 0x80 = 0 then Inl InvalidPadding
      else let n = 6 + lenR + lenS;
               sig = buf_alloc n;
               sig = buf_set sig 0 0x30;
               sig = buf_set sig 1 (int n - 2);
               sig = buf_set sig 2 0x02;
               sig = buf_set sig 3 (int lenR);
               sig = buf_copy r sig 4;
               sig = buf_set sig (int (4 + lenR)) 0x02;
               sig = buf_set sig (int (5 + lenR)) (int lenS)
           in Inr (buf_copy s sig (6 + lenR)))"

section \<open>Signatures with a hash type (script\_signature.ts)\<close>

definition toDER :: "buffer \<Rightarrow> buffer" where
  "toDER x =
     (let x = dropWhile (\<lambda>b. b = 0) x
      in if x = [] then [0]
         else if js_and (byte_at x 0) 0x80 \<noteq> 0 then take (1 + length x) ([0] @ x)
         else x)"

definition fromDER :: "buffer \<Rightarrow> buffer" where
  "fromDER x =
     (let x = (if x \<noteq> [] \<and> x ! 0 = 0 then drop 1 x else x)
      in buf_copy x (buf_alloc 32) (32 - length x))"

text \<open>\<open>Buffer.concat(list, n)\<close> cuts off or fills up with zeros.\<close>

definition Buffer_concat :: "buffer list \<Rightarrow> nat \<Rightarrow> buffer" where
  "Buffer_concat bs n = take n (concat bs) @ replicate (n - length (concat bs)) 0"

definition scriptSignature_decode :: "buffer \<Rightarrow> (buffer \<times> int) res" where
  "scriptSignature_decode b =
     (if b = [] then Inl IndexOutOfBounds
      else let hashType = uint (last b); hashTypeMod = js_and hashType (NOT 0xc0)
      in if hashTypeMod \<le> 0 \<or> hashTypeMod \<ge> 4 then Inl InvalidData
      else bindE (bip66_decode (butlast b)) (\<lambda>(r, s).
           Inr (Buffer_concat [fromDER r, fromDER s] 64, hashType)))"

definition scriptSignature_encode :: "buffer \<Rightarrow> int \<Rightarrow> buffer res" where
  "scriptSignature_encode signature hashType =
     (if length signature \<noteq> 64 \<or> hashType < 0 \<or> 255 < hashType then Inl TypeErr
      else let hashTypeMod = js_and hashType (NOT 0xc0)
      in if hashTypeMod \<le> 0 \<or> hashTypeMod \<ge> 4 then Inl InvalidData
      else let r = toDER (take 32 signature); s = toDER (take 32 (drop 32 signature))
      in bindE (bip66_encode r s) (\<lambda>der. Inr (der @ [word_of_int hashType])))"

section \<open>Scripts (script.ts)\<close>

datatype script_chunk = Op int | Data buffer

definition isOPInt :: "int \<Rightarrow> bool" where
  "isOPInt v \<longleftrightarrow> v = 0 \<or> (81 \<le> v \<and> v \<le> 96) \<or> v = 79"

definition isPushOnlyChunk :: "script_chunk \<Rightarrow> bool" where
  "isPushOnlyChunk c = (case c of Data _ \<Rightarrow> True | Op v \<Rightarrow> isOPInt v)"

definition isPushOnly :: "script_chunk list \<Rightarrow> bool" where
  "isPushOnly cs = list_all isPushOnlyChunk cs"

definition asMinimalOP :: "buffer \<Rightarrow> int option" where
  "asMinimalOP b =
     (if length b = 0 then Some 0
      else if length b \<noteq> 1 then None
      else if 1 \<le> uint (b ! 0) \<and> uint (b ! 0) \<le> 16 then Some (OP_INT_BASE + uint (b ! 0))
      else if uint (b ! 0) = 0x81 then Some 79
      else None)"

definition compile_size :: "script_chunk list \<Rightarrow> nat" where
  "compile_size chunks =
     foldl (\<lambda>accum c. case c of
         Data b \<Rightarrow> if length b = 1 \<and> asMinimalOP b \<noteq> None then accum + 1
                   else accum + pushdata_encodingLength (int (length b)) + length b
       | Op _ \<Rightarrow> accum + 1) 0 chunks"

definition compile_chunk :: "script_chunk \<Rightarrow> buffer \<times> nat \<Rightarrow> (buffer \<times> nat) res" where
  "compile_chunk c st =
     (case st of (buf, off) \<Rightarrow>
      case c of
        Data b \<Rightarrow>
          (case asMinimalOP b of
             Some opcode \<Rightarrow> bindE (Buffer_writeUIntLE 1 opcode off buf) (\<lambda>buf. Inr (buf, off + 1))
           | None \<Rightarrow> bindE (pushdata_encode (int (length b)) off buf) (\<lambda>(buf, n).
                     Inr (buf_copy b buf (off + n), off + n + length b)))
      | Op v \<Rightarrow> bindE (Buffer_writeUIntLE 1 v off buf) (\<lambda>buf. Inr (buf, off + 1)))"

definition script_compile :: "script_chunk list \<Rightarrow> buffer res" where
  "script_compile chunks =
     bindE (foldE compile_chunk chunks (buf_alloc (compile_size chunks), 0)) (\<lambda>(buf, off).
     if off \<noteq> length buf then Inl InvalidData else Inr buf)"

text \<open>The loop of \<open>decompile\<close> from a position on; \<open>None\<close> is \<open>null\<close>.\<close>

lemma pushdata_decode_size: "pushdata_decode off buf = Inr (Some (c, n, sz)) \<Longrightarrow> 0 < sz"
  by (auto simp: pushdata_decode_def split: if_splits)

function decompile_loop :: "buffer \<Rightarrow> nat \<Rightarrow> script_chunk list \<Rightarrow> script_chunk list option res" where
  "decompile_loop buf i chunks =
     (if length buf \<le> i then Inr (Some chunks)
      else let opcode = uint (buf ! i)
           in if opcode > 0 \<and> opcode \<le> 78
              then bindE (pushdata_decode i buf) (\<lambda>d. case d of
                     None \<Rightarrow> Inr None
                   | Some (_, n, sz) \<Rightarrow>
                       let i = i + sz
                       in if int i + n > int (length buf) then Inr None
                          else let data = take (nat n) (drop i buf)
                               in decompile_loop buf (i + nat n)
                                    (chunks @ [case asMinimalOP data of Some op \<Rightarrow> Op op | None \<Rightarrow> Data data]))
              else decompile_loop buf (i + 1) (chunks @ [Op opcode]))"
  by pat_completeness auto
termination
  by (relation "measure (\<lambda>(buf, i, _). length buf - i)") (auto dest!: pushdata_decode_size)

declare decompile_loop.simps [simp del]

definition script_decompile :: "buffer \<Rightarrow> script_chunk list option res" where
  "script_decompile buf = decompile_loop buf 0 []"

text \<open>\<open>join(' ')\<close>; an operation without a name is \<open>undefined\<close>, which is joined as an empty text.\<close>

fun join_texts :: "string \<Rightarrow> string list \<Rightarrow> string" where
  "join_texts sep [] = []"
| "join_texts sep [t] = t"
| "join_texts sep (t # ts) = t @ sep @ join_texts sep ts"

definition chunk_text :: "script_chunk \<Rightarrow> string" where
  "chunk_text c =
     (let named = (\<lambda>v. case REVERSE_OPS v of Some n \<Rightarrow> n | None \<Rightarrow> [])
      in case c of
           Data b \<Rightarrow> (case asMinimalOP b of None \<Rightarrow> to_lower (hex_of_buffer b) | Some op \<Rightarrow> named op)
         | Op v \<Rightarrow> named v)"

definition script_toASM :: "script_chunk list \<Rightarrow> string" where
  "script_toASM chunks = join_texts '' '' (map chunk_text chunks)"

definition script_toASM_buffer :: "buffer \<Rightarrow> string res" where
  "script_toASM_buffer buf =
     bindE (script_decompile buf) (\<lambda>d. case d of None \<Rightarrow> Inl TypeErr | Some chunks \<Rightarrow> Inr (script_toASM chunks))"

text \<open>\<open>is_hex\<close> is the check \<open>types.Hex\<close> of the package typeforce.\<close>

definition script_fromASM :: "(string \<Rightarrow> bool) \<Rightarrow> string \<Rightarrow> buffer res" where
  "script_fromASM is_hex asm =
     bindE (mapE (\<lambda>t. case OP_code t of
                Some c \<Rightarrow> Inr (Op c)
              | None \<Rightarrow> if is_hex t then Inr (Data (hex_decode t)) else Inl TypeErr) (js_split (CHR '' '') asm))
       script_compile"

definition script_toStack :: "script_chunk list \<Rightarrow> buffer list res" where
  "script_toStack chunks =
     (if \<not> isPushOnly chunks then Inl TypeErr
      else Inr (map (\<lambda>c. case c of
             Data b \<Rightarrow> b
           | Op v \<Rightarrow> if v = 0 then [] else scriptNumber_encode (v - OP_INT_BASE)) chunks))"

definition script_toStack_buffer :: "buffer \<Rightarrow> buffer list res" where
  "script_toStack_buffer buf =
     bindE (script_decompile buf) (\<lambda>d. case d of None \<Rightarrow> Inl TypeErr | Some chunks \<Rightarrow> script_toStack chunks)"

text \<open>Points of the curve by their form (types.ts); \<open>compare\<close> orders by bytes and then by length.\<close>

fun buf_less :: "buffer \<Rightarrow> buffer \<Rightarrow> bool" where \<comment> \<open>\<open>a.compare(b) < 0\<close>\<close>
  "buf_less [] b = (b \<noteq> [])"
| "buf_less (x # a) [] = False"
| "buf_less (x # a) (y # b) = (x < y \<or> x = y \<and> buf_less a b)"

definition EC_P :: buffer where
  "EC_P = replicate 27 0xff @ [0xfe, 0xff, 0xff, 0xfc, 0x2f]"

definition isPoint :: "buffer \<Rightarrow> bool" where
  "isPoint p =
     (if length p < 33 then False
      else let t = p ! 0; x = take 32 (drop 1 p)
      in if x = replicate 32 0 then False
      else if \<not> buf_less x EC_P then False
      else if (t = 0x02 \<or> t = 0x03) \<and> length p = 33 then True
      else let y = drop 33 p
      in if y = replicate 32 0 then False
      else if \<not> buf_less y EC_P then False
      else t = 0x04 \<and> length p = 65)"

definition isCanonicalPubKey :: "buffer \<Rightarrow> bool" where
  "isCanonicalPubKey buf = isPoint buf"

definition isDefinedHashType :: "int \<Rightarrow> bool" where
  "isDefinedHashType hashType =
     (let hashTypeMod = hashType;
          hashTypeMod = (if js_and hashTypeMod 0x80 \<noteq> 0 then js_and hashTypeMod (NOT 0x80) else hashTypeMod);
          hashTypeMod = (if js_and hashTypeMod 0x40 \<noteq> 0 then js_and hashTypeMod (NOT 0x40) else hashTypeMod)
      in hashTypeMod > 0 \<and> hashTypeMod < 4)"

text \<open>Of an empty buffer the last byte is undefined, which is no hash type.\<close>

definition isCanonicalScriptSignature :: "buffer \<Rightarrow> bool" where
  "isCanonicalScriptSignature buf \<longleftrightarrow> buf \<noteq> [] \<and> isDefinedHashType (uint (last buf)) \<and> bip66_check (butlast buf)"

end
