(* ===== verification/Btc_Transaction.thy ===== *)
theory Btc_Transaction
  imports Btc_Script
begin

text \<open>
  Transactions of coin-bitcoin (bitcoinjs-lib/transaction.ts, crypto.ts): the two serialisations,
  their sizes, and the hashes that are signed. The digests SHA-256 (\<open>sha\<close>) and RIPEMD-160 come from
  outside. The type checks of the package typeforce are written as far as a value of the model can
  fail them: 32-bit indexes and amounts of at most 21e14 satoshis.
\<close>

section \<open>Hashes (crypto.ts)\<close>

definition hash160 :: "(buffer \<Rightarrow> buffer) \<Rightarrow> (buffer \<Rightarrow> buffer) \<Rightarrow> buffer \<Rightarrow> buffer" where
  "hash160 ripemd sha b = ripemd (sha b)"

definition hash256 :: "(buffer \<Rightarrow> buffer) \<Rightarrow> buffer \<Rightarrow> buffer" where
  "hash256 sha b = sha (sha b)"

text \<open>The prefix of a tag is the hash of its text, twice.\<close>

definition taggedHash :: "(buffer \<Rightarrow> buffer) \<Rightarrow> buffer \<Rightarrow> buffer \<Rightarrow> buffer" where
  "taggedHash sha tag data = sha ((sha tag @ sha tag) @ data)"

section \<open>Transactions\<close>

record btc_input =
  bi_hash :: buffer
  bi_index :: int
  bi_script :: buffer
  bi_sequence :: int
  bi_witness :: "buffer list"

text \<open>The blank output, which has a \<open>valueBuffer\<close> and no value, occurs in copies for signing only.\<close>

datatype btc_output = Output (bo_script: buffer) (bo_value: int) | BlankOutput

record btc_tx =
  bt_version :: int
  bt_locktime :: int
  bt_ins :: "btc_input list"
  bt_outs :: "btc_output list"

definition new_Transaction :: btc_tx where
  "new_Transaction = \<lparr>bt_version = 1, bt_locktime = 0, bt_ins = [], bt_outs = []\<rparr>"

definition output_script :: "btc_output \<Rightarrow> buffer" where
  "output_script out = (case out of Output s _ \<Rightarrow> s | BlankOutput \<Rightarrow> [])"

definition varSliceSize :: "buffer \<Rightarrow> nat" where
  "varSliceSize s = varuint_size (int (length s)) + length s"

definition vectorSize :: "buffer list \<Rightarrow> nat" where
  "vectorSize v = varuint_size (int (length v)) + foldl (\<lambda>sum witness. sum + varSliceSize witness) 0 v"

definition Transaction_isCoinbaseHash :: "buffer \<Rightarrow> bool res" where
  "Transaction_isCoinbaseHash b = (if length b \<noteq> 32 then Inl TypeErr else Inr (list_all (\<lambda>x. x = 0) b))"

definition Transaction_isCoinbase :: "btc_tx \<Rightarrow> bool res" where
  "Transaction_isCoinbase tx =
     (case bt_ins tx of [i] \<Rightarrow> Transaction_isCoinbaseHash (bi_hash i) | _ \<Rightarrow> Inr False)"

definition is_UInt32 :: "int \<Rightarrow> bool" where
  "is_UInt32 v \<longleftrightarrow> 0 \<le> v \<and> v < 2 ^ 32"

definition Satoshi :: "int \<Rightarrow> bool" where
  "Satoshi v \<longleftrightarrow> 0 \<le> v \<and> v \<le> 2100000000000000"

definition Transaction_addInput :: "buffer \<Rightarrow> int \<Rightarrow> int option \<Rightarrow> buffer option \<Rightarrow> btc_tx \<Rightarrow> (nat \<times> btc_tx) res" where
  "Transaction_addInput hash index sequence scriptSig tx =
     (if length hash \<noteq> 32 \<or> \<not> is_UInt32 index \<or> (\<exists>s \<in> set_option sequence. \<not> is_UInt32 s) then Inl TypeErr
      else let i = \<lparr>bi_hash = hash, bi_index = index, bi_script = (case scriptSig of Some s \<Rightarrow> s | None \<Rightarrow> []),
                    bi_sequence = (case sequence of Some s \<Rightarrow> s | None \<Rightarrow> 0xffffffff), bi_witness = []\<rparr>
           in Inr (length (bt_ins tx), tx\<lparr>bt_ins := bt_ins tx @ [i]\<rparr>))"

definition Transaction_addOutput :: "buffer \<Rightarrow> int \<Rightarrow> btc_tx \<Rightarrow> (nat \<times> btc_tx) res" where
  "Transaction_addOutput scriptPubKey v tx =
     (if \<not> Satoshi v then Inl TypeErr
      else Inr (length (bt_outs tx), tx\<lparr>bt_outs := bt_outs tx @ [Output scriptPubKey v]\<rparr>))"

definition Transaction_hasWitnesses :: "btc_tx \<Rightarrow> bool" where
  "Transaction_hasWitnesses tx = list_ex (\<lambda>x. length (bi_witness x) \<noteq> 0) (bt_ins tx)"

section \<open>Sizes\<close>

definition Transaction_byteLength :: "bool \<Rightarrow> btc_tx \<Rightarrow> nat" where
  "Transaction_byteLength allow_witness tx =
     (let hasWitnesses = allow_witness \<and> Transaction_hasWitnesses tx
      in (if hasWitnesses then 10 else 8) + varuint_size (int (length (bt_ins tx))) +
         varuint_size (int (length (bt_outs tx))) +
         foldl (\<lambda>sum input. sum + 40 + varSliceSize (bi_script input)) 0 (bt_ins tx) +
         foldl (\<lambda>sum output. sum + 8 + varSliceSize (output_script output)) 0 (bt_outs tx) +
         (if hasWitnesses then foldl (\<lambda>sum input. sum + vectorSize (bi_witness input)) 0 (bt_ins tx) else 0))"

definition Transaction_weight :: "btc_tx \<Rightarrow> nat" where
  "Transaction_weight tx = Transaction_byteLength False tx * 3 + Transaction_byteLength True tx"

definition Transaction_virtualSize :: "btc_tx \<Rightarrow> nat" where \<comment> \<open>\<open>Math.ceil(weight / 4)\<close>\<close>
  "Transaction_virtualSize tx = (Transaction_weight tx + 3) div 4"

definition Transaction_dogeByteLength :: "btc_tx \<Rightarrow> nat" where
  "Transaction_dogeByteLength tx =
     4 + 9 + 9 + 4 +
     foldl (\<lambda>sum input. let l = 32 + 4 + 4 + varSliceSize (bi_script input) in sum + 32 + 4 + l) 0 (bt_ins tx) +
     foldl (\<lambda>sum output. sum + 9 + length (output_script output)) 0 (bt_outs tx)"

section \<open>Serialisation\<close>

definition write_input :: "btc_input \<Rightarrow> buffer_writer \<Rightarrow> buffer_writer res" where
  "write_input txIn w =
     bindE (BufferWriter_writeSlice (bi_hash txIn) w) (\<lambda>w.
     bindE (BufferWriter_writeUInt32 (bi_index txIn) w) (\<lambda>w.
     bindE (BufferWriter_writeVarSlice (bi_script txIn) w) (BufferWriter_writeUInt32 (bi_sequence txIn))))"

definition write_output :: "btc_output \<Rightarrow> buffer_writer \<Rightarrow> buffer_writer res" where
  "write_output txOut w =
     bindE (case txOut of Output _ v \<Rightarrow> BufferWriter_writeUInt64 v w
            | BlankOutput \<Rightarrow> BufferWriter_writeSlice (replicate 8 0xff) w)
       (BufferWriter_writeVarSlice (output_script txOut))"

text \<open>The private \<open>__toBuffer\<close>, into a given buffer; the answer is the buffer and the end.\<close>

definition Transaction_into :: "buffer \<Rightarrow> nat \<Rightarrow> bool \<Rightarrow> btc_tx \<Rightarrow> buffer_writer res" where
  "Transaction_into buf off allow_witness tx =
     bindE (new_BufferWriter buf off) (\<lambda>w.
     bindE (BufferWriter_writeInt32 (bt_version tx) w) (\<lambda>w.
     let hasWitnesses = allow_witness \<and> Transaction_hasWitnesses tx
     in bindE (if hasWitnesses then bindE (BufferWriter_writeUInt8 0 w) (BufferWriter_writeUInt8 1) else Inr w) (\<lambda>w.
        bindE (BufferWriter_writeVarInt (int (length (bt_ins tx))) w) (\<lambda>w.
        bindE (foldE write_input (bt_ins tx) w) (\<lambda>w.
        bindE (BufferWriter_writeVarInt (int (length (bt_outs tx))) w) (\<lambda>w.
        bindE (foldE write_output (bt_outs tx) w) (\<lambda>w.
        bindE (if hasWitnesses then foldE (\<lambda>input. BufferWriter_writeVector (bi_witness input)) (bt_ins tx) w else Inr w) (\<lambda>w.
        BufferWriter_writeUInt32 (bt_locktime tx) w))))))))"

text \<open>A buffer is sliced only when a first offset is given.\<close>

definition Transaction___toBuffer :: "buffer option \<Rightarrow> nat option \<Rightarrow> bool \<Rightarrow> btc_tx \<Rightarrow> buffer res" where
  "Transaction___toBuffer buf initialOffset allow_witness tx =
     (let buf = (case buf of Some b \<Rightarrow> b | None \<Rightarrow> buf_alloc (Transaction_byteLength allow_witness tx));
          off = (case initialOffset of Some i \<Rightarrow> i | None \<Rightarrow> 0)
      in bindE (Transaction_into buf off allow_witness tx) (\<lambda>w.
         Inr (if initialOffset \<noteq> None then take (bw_offset w - off) (drop off (bw_buffer w)) else bw_buffer w)))"

definition Transaction_toBuffer :: "buffer option \<Rightarrow> nat option \<Rightarrow> btc_tx \<Rightarrow> buffer res" where
  "Transaction_toBuffer buf initialOffset tx = Transaction___toBuffer buf initialOffset True tx"

definition Transaction_toHex :: "btc_tx \<Rightarrow> string res" where
  "Transaction_toHex tx = bindE (Transaction_toBuffer None None tx) (\<lambda>b. Inr (to_lower (hex_of_buffer b)))"

definition Transaction_getHash :: "(buffer \<Rightarrow> buffer) \<Rightarrow> bool \<Rightarrow> btc_tx \<Rightarrow> buffer res" where
  "Transaction_getHash sha forWitness tx =
     bindE (if forWitness then Transaction_isCoinbase tx else Inr False) (\<lambda>coinbase.
     if coinbase then Inr (buf_alloc 32)
     else bindE (Transaction___toBuffer None None forWitness tx) (\<lambda>b. Inr (hash256 sha b)))"

definition Transaction_getId :: "(buffer \<Rightarrow> buffer) \<Rightarrow> btc_tx \<Rightarrow> string res" where
  "Transaction_getId sha tx =
     bindE (Transaction_getHash sha False tx) (\<lambda>h. Inr (to_lower (hex_of_buffer (reverseBuffer h))))"

definition Transaction_setInputScript :: "nat \<Rightarrow> buffer \<Rightarrow> btc_tx \<Rightarrow> btc_tx res" where
  "Transaction_setInputScript index scriptSig tx =
     (if length (bt_ins tx) \<le> index then Inl TypeErr
      else Inr (tx\<lparr>bt_ins := (bt_ins tx)[index := (bt_ins tx ! index)\<lparr>bi_script := scriptSig\<rparr>]\<rparr>))"

definition Transaction_setWitness :: "nat \<Rightarrow> buffer list \<Rightarrow> btc_tx \<Rightarrow> btc_tx res" where
  "Transaction_setWitness index witness tx =
     (if length (bt_ins tx) \<le> index then Inl TypeErr
      else Inr (tx\<lparr>bt_ins := (bt_ins tx)[index := (bt_ins tx ! index)\<lparr>bi_witness := witness\<rparr>]\<rparr>))"

section \<open>Parsing\<close>

definition read_input :: "btc_input bload" where
  "read_input r =
     bindE (BufferReader_readSlice 32 r) (\<lambda>(hash, r).
     bindE (BufferReader_readUInt32 r) (\<lambda>(index, r).
     bindE (BufferReader_readVarSlice r) (\<lambda>(script, r).
     bindE (BufferReader_readUInt32 r) (\<lambda>(sequence, r).
     Inr (\<lparr>bi_hash = hash, bi_index = index, bi_script = script, bi_sequence = sequence, bi_witness = []\<rparr>, r)))))"

definition read_output :: "btc_output bload" where
  "read_output r =
     bindE (BufferReader_readUInt64 r) (\<lambda>(v, r).
     bindE (BufferReader_readVarSlice r) (\<lambda>(script, r). Inr (Output script v, r)))"

definition Transaction_fromBuffer :: "buffer \<Rightarrow> bool \<Rightarrow> btc_tx res" where
  "Transaction_fromBuffer buf no_strict =
     bindE (BufferReader_readInt32 (new_BufferReader buf)) (\<lambda>(version, r0).
     bindE (BufferReader_readUInt8 r0) (\<lambda>(marker, r).
     bindE (BufferReader_readUInt8 r) (\<lambda>(flag, r).
     let hasWitnesses = (marker = 0 \<and> flag = 1);
         r = (if hasWitnesses then r else r\<lparr>br_offset := br_offset r - 2\<rparr>)
     in bindE (BufferReader_readVarInt r) (\<lambda>(vinLen, r).
        bindE (read_times (nat vinLen) read_input r) (\<lambda>(ins, r).
        bindE (BufferReader_readVarInt r) (\<lambda>(voutLen, r).
        bindE (read_times (nat voutLen) read_output r) (\<lambda>(outs, r).
        bindE (if hasWitnesses
               then bindE (read_times (nat vinLen) BufferReader_readVector r) (\<lambda>(ws, r).
                    let ins = map (\<lambda>(i, w). i\<lparr>bi_witness := w\<rparr>) (zip ins ws)
                    in if \<not> list_ex (\<lambda>x. length (bi_witness x) \<noteq> 0) ins then Inl InvalidData else Inr (ins, r))
               else Inr (ins, r)) (\<lambda>(ins, r).
        bindE (BufferReader_readUInt32 r) (\<lambda>(locktime, r).
        let tx = \<lparr>bt_version = version, bt_locktime = locktime, bt_ins = ins, bt_outs = outs\<rparr>
        in if no_strict then Inr tx
           else if br_offset r \<noteq> length buf then Inl InvalidData else Inr tx)))))))))"

definition Transaction_fromHex :: "string \<Rightarrow> btc_tx res" where
  "Transaction_fromHex hex = Transaction_fromBuffer (hex_decode hex) False"

end
