(* ===== verification/Btc_Sighash.thy ===== *)
theory Btc_Sighash
  imports Btc_Transaction
begin

text \<open>
  The hashes that sign an input of a transaction (bitcoinjs-lib/transaction.ts): the original
  scheme, the one of version 0 witnesses (BIP 143, also of Bitcoin Cash) and the one of version 1
  witnesses (BIP 341). Each writes the parts it commits to into a buffer of a computed size.
\<close>

definition SIGHASH_ANYONECANPAY :: int where "SIGHASH_ANYONECANPAY = 0x80"
definition SIGHASH_NONE :: int where "SIGHASH_NONE = 2"
definition SIGHASH_SINGLE :: int where "SIGHASH_SINGLE = 3"

text \<open>The constant that the original scheme signs when an index is out of range.\<close>

definition ONE :: buffer where
  "ONE = replicate 31 0 @ [1]"

section \<open>The original scheme\<close>

text \<open>The changes that a hash type makes to the copy of the transaction.\<close>

definition zero_sequences :: "nat \<Rightarrow> btc_input list \<Rightarrow> btc_input list" where
  "zero_sequences inIndex ins =
     map (\<lambda>(i, input). if i = inIndex then input else input\<lparr>bi_sequence := 0\<rparr>) (enumerate 0 ins)"

definition sighash_copy :: "nat \<Rightarrow> buffer \<Rightarrow> int \<Rightarrow> btc_tx \<Rightarrow> btc_tx" where
  "sighash_copy inIndex ourScript hashType tx =
     (let tx = (if js_and hashType 0x1f = SIGHASH_NONE
                then tx\<lparr>bt_outs := [], bt_ins := zero_sequences inIndex (bt_ins tx)\<rparr>
                else if js_and hashType 0x1f = SIGHASH_SINGLE
                then tx\<lparr>bt_outs := replicate inIndex BlankOutput @ take 1 (drop inIndex (bt_outs tx)),
                        bt_ins := zero_sequences inIndex (bt_ins tx)\<rparr>
                else tx)
      in if js_and hashType SIGHASH_ANYONECANPAY \<noteq> 0
         then tx\<lparr>bt_ins := [(bt_ins tx ! inIndex)\<lparr>bi_script := ourScript\<rparr>]\<rparr>
         else tx\<lparr>bt_ins := (map (\<lambda>input. input\<lparr>bi_script := []\<rparr>) (bt_ins tx))
                   [inIndex := (bt_ins tx ! inIndex)\<lparr>bi_script := ourScript\<rparr>]\<rparr>)"

definition Transaction_hashForSignature ::
    "(buffer \<Rightarrow> buffer) \<Rightarrow> nat \<Rightarrow> buffer \<Rightarrow> int \<Rightarrow> btc_tx \<Rightarrow> buffer res" where
  "Transaction_hashForSignature sha inIndex prevOutScript hashType tx =
     (if \<not> is_UInt32 (int inIndex) then Inl TypeErr
      else if inIndex \<ge> length (bt_ins tx) then Inr ONE
      else bindE (script_decompile prevOutScript) (\<lambda>d. case d of
             None \<Rightarrow> Inl TypeErr
           | Some chunks \<Rightarrow>
               bindE (script_compile (filter (\<lambda>x. x \<noteq> Op 171) chunks)) (\<lambda>ourScript.
               if js_and hashType 0x1f = SIGHASH_SINGLE \<and> inIndex \<ge> length (bt_outs tx) then Inr ONE
               else let txTmp = sighash_copy inIndex ourScript hashType tx;
                        n = Transaction_byteLength False txTmp + 4
                    in bindE (Buffer_writeIntLE 4 hashType (n - 4) (buf_alloc n)) (\<lambda>buf.
                       bindE (Transaction_into buf 0 False txTmp) (\<lambda>w. Inr (hash256 sha (bw_buffer w)))))))"

section \<open>Version 0 witnesses\<close>

definition write_outpoint :: "btc_input \<Rightarrow> buffer_writer \<Rightarrow> buffer_writer res" where
  "write_outpoint txIn w = bindE (BufferWriter_writeSlice (bi_hash txIn) w) (BufferWriter_writeUInt32 (bi_index txIn))"

text \<open>\<open>writeUInt64\<close> of the undefined value of a blank output throws.\<close>

definition write_out :: "btc_output \<Rightarrow> buffer_writer \<Rightarrow> buffer_writer res" where
  "write_out out w =
     (case out of
        Output script v \<Rightarrow> bindE (BufferWriter_writeUInt64 v w) (BufferWriter_writeVarSlice script)
      | BlankOutput \<Rightarrow> Inl TypeErr)"

text \<open>What is written into a buffer of the given size, whether or not it is full at the end.\<close>

definition written :: "nat \<Rightarrow> (buffer_writer \<Rightarrow> buffer_writer res) \<Rightarrow> buffer res" where
  "written n f = bindE (new_BufferWriter (buf_alloc n) 0) (\<lambda>w. bindE (f w) (\<lambda>w. Inr (bw_buffer w)))"

definition outs_size :: "btc_output list \<Rightarrow> nat" where
  "outs_size outs = foldl (\<lambda>sum output. sum + 8 + varSliceSize (output_script output)) 0 outs"

definition prevouts_bytes :: "btc_tx \<Rightarrow> buffer res" where
  "prevouts_bytes tx = written (36 * length (bt_ins tx)) (foldE write_outpoint (bt_ins tx))"

definition sequences_bytes :: "btc_tx \<Rightarrow> buffer res" where
  "sequences_bytes tx =
     written (4 * length (bt_ins tx)) (foldE (\<lambda>txIn. BufferWriter_writeUInt32 (bi_sequence txIn)) (bt_ins tx))"

definition outs_bytes :: "btc_output list \<Rightarrow> buffer res" where
  "outs_bytes outs = written (outs_size outs) (foldE write_out outs)"

definition hash_prevouts_v0 :: "(buffer \<Rightarrow> buffer) \<Rightarrow> int \<Rightarrow> btc_tx \<Rightarrow> buffer res" where
  "hash_prevouts_v0 sha hashType tx =
     (if js_and hashType SIGHASH_ANYONECANPAY = 0
      then bindE (prevouts_bytes tx) (\<lambda>b. Inr (hash256 sha b)) else Inr (replicate 32 0))"

definition hash_sequence_v0 :: "(buffer \<Rightarrow> buffer) \<Rightarrow> int \<Rightarrow> btc_tx \<Rightarrow> buffer res" where
  "hash_sequence_v0 sha hashType tx =
     (if js_and hashType SIGHASH_ANYONECANPAY = 0 \<and> js_and hashType 0x1f \<noteq> SIGHASH_SINGLE \<and> js_and hashType 0x1f \<noteq> SIGHASH_NONE
      then bindE (sequences_bytes tx) (\<lambda>b. Inr (hash256 sha b)) else Inr (replicate 32 0))"

definition hash_outputs_v0 :: "(buffer \<Rightarrow> buffer) \<Rightarrow> nat \<Rightarrow> int \<Rightarrow> btc_tx \<Rightarrow> buffer res" where
  "hash_outputs_v0 sha inIndex hashType tx =
     (if js_and hashType 0x1f \<noteq> SIGHASH_SINGLE \<and> js_and hashType 0x1f \<noteq> SIGHASH_NONE
      then bindE (outs_bytes (bt_outs tx)) (\<lambda>b. Inr (hash256 sha b))
      else if js_and hashType 0x1f = SIGHASH_SINGLE \<and> inIndex < length (bt_outs tx)
      then bindE (outs_bytes [bt_outs tx ! inIndex]) (\<lambda>b. Inr (hash256 sha b))
      else Inr (replicate 32 0))"

text \<open>
  The common part of \<open>hashForWitnessV0\<close> and \<open>hashForWitness\<close>, which differ in how the script
  is written. An input that is not there is \<open>undefined\<close>.
\<close>

definition witness_preimage_v0 ::
    "(buffer \<Rightarrow> buffer) \<Rightarrow> nat \<Rightarrow> nat \<Rightarrow> (buffer_writer \<Rightarrow> buffer_writer res) \<Rightarrow> int \<Rightarrow> int \<Rightarrow> btc_tx \<Rightarrow> buffer res" where
  "witness_preimage_v0 sha inIndex n write_script v hashType tx =
     bindE (hash_prevouts_v0 sha hashType tx) (\<lambda>hashPrevouts.
     bindE (hash_sequence_v0 sha hashType tx) (\<lambda>hashSequence.
     bindE (hash_outputs_v0 sha inIndex hashType tx) (\<lambda>hashOutputs.
     written n (\<lambda>w.
       bindE (BufferWriter_writeInt32 (bt_version tx) w) (\<lambda>w.
       bindE (BufferWriter_writeSlice hashPrevouts w) (\<lambda>w.
       bindE (BufferWriter_writeSlice hashSequence w) (\<lambda>w.
       if inIndex \<ge> length (bt_ins tx) then Inl TypeErr
       else let input = bt_ins tx ! inIndex
       in bindE (BufferWriter_writeSlice (bi_hash input) w) (\<lambda>w.
          bindE (BufferWriter_writeUInt32 (bi_index input) w) (\<lambda>w.
          bindE (write_script w) (\<lambda>w.
          bindE (BufferWriter_writeUInt64 v w) (\<lambda>w.
          bindE (BufferWriter_writeUInt32 (bi_sequence input) w) (\<lambda>w.
          bindE (BufferWriter_writeSlice hashOutputs w) (\<lambda>w.
          bindE (BufferWriter_writeUInt32 (bt_locktime tx) w) (BufferWriter_writeUInt32 hashType))))))))))))))"

definition Transaction_hashForWitnessV0 ::
    "(buffer \<Rightarrow> buffer) \<Rightarrow> nat \<Rightarrow> buffer \<Rightarrow> int \<Rightarrow> int \<Rightarrow> btc_tx \<Rightarrow> buffer res" where
  "Transaction_hashForWitnessV0 sha inIndex prevOutScript v hashType tx =
     (if \<not> is_UInt32 (int inIndex) \<or> \<not> Satoshi v \<or> \<not> is_UInt32 hashType then Inl TypeErr
      else bindE (witness_preimage_v0 sha inIndex (156 + varSliceSize prevOutScript) (BufferWriter_writeVarSlice prevOutScript)
                    v hashType tx) (\<lambda>b. Inr (hash256 sha b)))"

text \<open>The script given to \<open>hashForWitness\<close> has its length in front already.\<close>

definition Transaction_hashForWitness ::
    "(buffer \<Rightarrow> buffer) \<Rightarrow> nat \<Rightarrow> buffer \<Rightarrow> int \<Rightarrow> int \<Rightarrow> btc_tx \<Rightarrow> buffer res" where
  "Transaction_hashForWitness sha inIndex prevOutScript v hashType tx =
     (if \<not> is_UInt32 (int inIndex) \<or> \<not> Satoshi v \<or> \<not> is_UInt32 hashType then Inl TypeErr
      else bindE (witness_preimage_v0 sha inIndex (156 + length prevOutScript) (BufferWriter_writeSlice prevOutScript)
                    v hashType tx) (\<lambda>b. Inr (hash256 sha b)))"

definition Transaction_hashForCashSignature ::
    "(buffer \<Rightarrow> buffer) \<Rightarrow> nat \<Rightarrow> buffer \<Rightarrow> int option \<Rightarrow> int \<Rightarrow> btc_tx \<Rightarrow> buffer res" where
  "Transaction_hashForCashSignature sha inIndex prevOutScript inAmount hashType tx =
     (if js_and hashType 0x40 \<noteq> 0
      then (case inAmount of None \<Rightarrow> Inl InvalidAmount
            | Some v \<Rightarrow> Transaction_hashForWitnessV0 sha inIndex prevOutScript v hashType tx)
      else Transaction_hashForSignature sha inIndex prevOutScript hashType tx)"

section \<open>Version 1 witnesses\<close>

text \<open>A buffer of the given size that must be full at the end.\<close>

definition written_full :: "nat \<Rightarrow> (buffer_writer \<Rightarrow> buffer_writer res) \<Rightarrow> buffer res" where
  "written_full n f = bindE (BufferWriter_withCapacity n) (\<lambda>w. bindE (f w) BufferWriter_end)"

definition v1_outputs :: "(buffer \<Rightarrow> buffer) \<Rightarrow> nat \<Rightarrow> bool \<Rightarrow> bool \<Rightarrow> btc_tx \<Rightarrow> buffer res" where
  "v1_outputs sha inIndex isNone isSingle tx =
     (if \<not> (isNone \<or> isSingle)
      then if bt_outs tx = [] then Inl TypeErr \<comment> \<open>\<open>reduce\<close> of an empty array without a first value\<close>
           else bindE (written_full (outs_size (bt_outs tx)) (foldE write_out (bt_outs tx))) (\<lambda>b. Inr (sha b))
      else if isSingle \<and> inIndex < length (bt_outs tx)
      then bindE (written_full (outs_size [bt_outs tx ! inIndex]) (write_out (bt_outs tx ! inIndex))) (\<lambda>b. Inr (sha b))
      else Inr [])"

definition Transaction_hashForWitnessV1 ::
    "(buffer \<Rightarrow> buffer) \<Rightarrow> buffer \<Rightarrow> nat \<Rightarrow> buffer list \<Rightarrow> int list \<Rightarrow> int \<Rightarrow> buffer option \<Rightarrow> buffer option \<Rightarrow> btc_tx \<Rightarrow>
     buffer res" where \<comment> \<open>the second argument is the text \<open>TapSighash\<close>\<close>
  "Transaction_hashForWitnessV1 sha tag inIndex prevOutScripts values hashType leafHash annex tx =
     (if \<not> is_UInt32 (int inIndex) \<or> (\<exists>v \<in> set values. \<not> Satoshi v) \<or> \<not> is_UInt32 hashType then Inl TypeErr
      else if length values \<noteq> length (bt_ins tx) \<or> length prevOutScripts \<noteq> length (bt_ins tx) then Inl InvalidSize
      else
      let outputType = (if hashType = 0 then 1 else js_and hashType 3);
          inputType = js_and hashType SIGHASH_ANYONECANPAY;
          isAnyoneCanPay = (inputType = SIGHASH_ANYONECANPAY);
          isNone = (outputType = SIGHASH_NONE);
          isSingle = (outputType = SIGHASH_SINGLE);
          ins = bt_ins tx
      in bindE (if isAnyoneCanPay then Inr ([], [], [], [])
                else bindE (written_full (36 * length ins) (foldE write_outpoint ins)) (\<lambda>a.
                     bindE (written_full (8 * length ins) (foldE BufferWriter_writeUInt64 values)) (\<lambda>b.
                     bindE (if prevOutScripts = [] then Inl TypeErr
                            else written_full (sum_list (map varSliceSize prevOutScripts))
                                   (foldE BufferWriter_writeVarSlice prevOutScripts)) (\<lambda>c.
                     bindE (written_full (4 * length ins) (foldE (\<lambda>txIn. BufferWriter_writeUInt32 (bi_sequence txIn)) ins)) (\<lambda>d.
                     Inr (sha a, sha b, sha c, sha d))))))
           (\<lambda>(hashPrevouts, hashAmounts, hashScriptPubKeys, hashSequences).
         bindE (v1_outputs sha inIndex isNone isSingle tx) (\<lambda>hashOutputs.
         let spendType = (if leafHash \<noteq> None then 2 else 0) + (if annex \<noteq> None then 1 else 0);
             sigMsgSize = 174 - (if isAnyoneCanPay then 49 else 0) - (if isNone then 32 else 0) +
               (if annex \<noteq> None then 32 else 0) + (if leafHash \<noteq> None then 37 else 0)
         in bindE (written_full sigMsgSize (\<lambda>w.
              bindE (BufferWriter_writeUInt8 hashType w) (\<lambda>w.
              bindE (BufferWriter_writeInt32 (bt_version tx) w) (\<lambda>w.
              bindE (BufferWriter_writeUInt32 (bt_locktime tx) w) (\<lambda>w.
              bindE (BufferWriter_writeSlice hashPrevouts w) (\<lambda>w.
              bindE (BufferWriter_writeSlice hashAmounts w) (\<lambda>w.
              bindE (BufferWriter_writeSlice hashScriptPubKeys w) (\<lambda>w.
              bindE (BufferWriter_writeSlice hashSequences w) (\<lambda>w.
              bindE (if \<not> (isNone \<or> isSingle) then BufferWriter_writeSlice hashOutputs w else Inr w) (\<lambda>w.
              bindE (BufferWriter_writeUInt8 spendType w) (\<lambda>w.
              bindE (if isAnyoneCanPay
                     then if inIndex \<ge> length ins then Inl TypeErr
                          else let input = ins ! inIndex
                          in bindE (BufferWriter_writeSlice (bi_hash input) w) (\<lambda>w.
                             bindE (BufferWriter_writeUInt32 (bi_index input) w) (\<lambda>w.
                             bindE (BufferWriter_writeUInt64 (values ! inIndex) w) (\<lambda>w.
                             bindE (BufferWriter_writeVarSlice (prevOutScripts ! inIndex) w)
                               (BufferWriter_writeUInt32 (bi_sequence input)))))
                     else BufferWriter_writeUInt32 (int inIndex) w) (\<lambda>w.
              bindE (case annex of
                       Some a \<Rightarrow> bindE (written_full (varSliceSize a) (BufferWriter_writeVarSlice a)) (\<lambda>b.
                                 BufferWriter_writeSlice (sha b) w)
                     | None \<Rightarrow> Inr w) (\<lambda>w.
              bindE (if isSingle then BufferWriter_writeSlice hashOutputs w else Inr w) (\<lambda>w.
              case leafHash of
                Some h \<Rightarrow> bindE (BufferWriter_writeSlice h w) (\<lambda>w.
                          bindE (BufferWriter_writeUInt8 0 w) (BufferWriter_writeUInt32 0xffffffff))
              | None \<Rightarrow> Inr w)))))))))))))) (\<lambda>msg.
            Inr (taggedHash sha tag ([0] @ msg))))))"

end
