(* ===== verification/Btc_Codec.thy ===== *)
theory Btc_Codec
  imports Btc_Buffer
begin

text \<open>
  What the writers of bitcoinjs-lib/bufferutils.ts append and what the readers take back. \<open>appends f bs\<close>
  says that the writer step \<open>f\<close> succeeds where there is room and overwrites exactly the bytes at its
  offset by \<open>bs\<close>; \<open>parses f bs v\<close> says that the reader step \<open>f\<close> at the bytes \<open>bs\<close> gives \<open>v\<close> and moves
  behind them, whatever follows. Both are closed under sequencing and loops.
\<close>

named_theorems append_intros \<open>what the writer steps append\<close>
named_theorems parse_intros \<open>what the reader steps parse\<close>

section \<open>Writing\<close>

definition bw_put :: "buffer \<Rightarrow> buffer_writer \<Rightarrow> buffer_writer" where
  "bw_put bs w =
     \<lparr>bw_buffer = take (bw_offset w) (bw_buffer w) @ bs @ drop (bw_offset w + length bs) (bw_buffer w),
      bw_offset = bw_offset w + length bs\<rparr>"

definition appends :: "(buffer_writer \<Rightarrow> buffer_writer res) \<Rightarrow> buffer \<Rightarrow> bool" where
  "appends f bs \<longleftrightarrow> (\<forall>w. bw_offset w + length bs \<le> length (bw_buffer w) \<longrightarrow> f w = Inr (bw_put bs w))"

lemma appendsD: "appends f bs \<Longrightarrow> bw_offset w + length bs \<le> length (bw_buffer w) \<Longrightarrow> f w = Inr (bw_put bs w)"
  by (simp add: appends_def)

lemma bw_put_facts [simp]:
  "bw_offset (bw_put bs w) = bw_offset w + length bs"
  "bw_offset w + length bs \<le> length (bw_buffer w) \<Longrightarrow> length (bw_buffer (bw_put bs w)) = length (bw_buffer w)"
  by (simp_all add: bw_put_def)

lemma foldl_sum: "foldl (\<lambda>sum x. sum + f x) n xs = n + (\<Sum>x\<leftarrow>xs. f x)" for n :: nat
  by (induction xs arbitrary: n) (simp_all add: add.assoc)

lemma bw_put_put:
  "bw_offset w + length (as @ bs) \<le> length (bw_buffer w) \<Longrightarrow> bw_put bs (bw_put as w) = bw_put (as @ bs) w"
  by (simp add: bw_put_def ac_simps)

lemma appends_bind [append_intros]:
  assumes "appends f as" and "appends g bs"
  shows "appends (\<lambda>w. bindE (f w) g) (as @ bs)"
  unfolding appends_def
  by (auto simp: appendsD [OF assms(1)] appendsD [OF assms(2)] bw_put_put)

lemma appends_skip [append_intros]: "appends (\<lambda>w. Inr w) []"
  by (simp add: appends_def bw_put_def)

lemma appends_if [append_intros]:
  "(b \<Longrightarrow> appends f as) \<Longrightarrow> (\<not> b \<Longrightarrow> appends g bs) \<Longrightarrow>
   appends (\<lambda>w. if b then f w else g w) (if b then as else bs)"
  by (cases b) simp_all

lemma appends_fold [append_intros]:
  "(\<And>x. x \<in> set xs \<Longrightarrow> appends (f x) (h x)) \<Longrightarrow> appends (foldE f xs) (concat (map h xs))"
proof (induction xs)
  case Nil
  then show ?case by (simp add: appends_def bw_put_def)
next
  case (Cons x xs)
  have "foldE f (x # xs) = (\<lambda>w. bindE (f x w) (foldE f xs))" by auto
  then show ?case using appends_bind [of "f x" "h x" "foldE f xs" "concat (map h xs)"] Cons by simp
qed

lemma Buffer_put_ok:
  "off + length bs \<le> length b \<Longrightarrow> Buffer_put bs off b = Inr (take off b @ bs @ drop (off + length bs) b)"
  by (simp add: Buffer_put_def)

text \<open>A put as a whole, and one after another at the place behind it.\<close>

lemma Buffer_put_put:
  assumes "off' = off + length as" and "off + length as + length bs \<le> length b"
  shows "bindE (Buffer_put as off b) (Buffer_put bs off') = Buffer_put (as @ bs) off b"
  using assms by (simp add: Buffer_put_def ac_simps)

lemma bw_put_eq:
  "Buffer_put bs (bw_offset w) (bw_buffer w) = Inr b \<Longrightarrow> \<lparr>bw_buffer = b, bw_offset = bw_offset w + length bs\<rparr> = bw_put bs w"
  by (auto simp: Buffer_put_def bw_put_def split: if_splits)

lemma appends_writeUInt8 [append_intros]:
  "0 \<le> v \<Longrightarrow> v < 256 \<Longrightarrow> appends (BufferWriter_writeUInt8 v) (le_bytes 1 v)"
  by (simp add: appends_def BufferWriter_writeUInt8_def Buffer_writeUIntLE_def Buffer_put_def bw_put_def)

lemma appends_writeUInt32 [append_intros]:
  "0 \<le> v \<Longrightarrow> v < 2 ^ 32 \<Longrightarrow> appends (BufferWriter_writeUInt32 v) (le_bytes 4 v)"
  by (simp add: appends_def BufferWriter_writeUInt32_def Buffer_writeUIntLE_def Buffer_put_def bw_put_def)

lemma appends_writeInt32 [append_intros]:
  "- (2 ^ 31) \<le> v \<Longrightarrow> v < 2 ^ 31 \<Longrightarrow> appends (BufferWriter_writeInt32 v) (le_bytes 4 v)"
  by (simp add: appends_def BufferWriter_writeInt32_def Buffer_writeIntLE_def Buffer_put_def bw_put_def)

lemma js_and_neg1: "js_and v (- 1) = to_int32 v"
  by (simp add: js_and_def to_int32_def)

lemma to_int32_bounds: "- (2 ^ 31) \<le> to_int32 v" "to_int32 v < 2 ^ 31"
  unfolding to_int32_def by simp_all

lemma to_int32_mod: "to_int32 v mod 2 ^ 32 = v mod 2 ^ 32"
  unfolding to_int32_def by (simp add: mod_diff_left_eq)

lemma le_bytes_cong: "v mod 256 ^ n = w mod 256 ^ n \<Longrightarrow> le_bytes n v = le_bytes n w"
  using le_bytes_mod [of n v] le_bytes_mod [of n w] by simp

lemma le_bytes_to_int32: "le_bytes 4 (to_int32 v) = le_bytes 4 v"
  using to_int32_mod [of v] by (intro le_bytes_cong) simp

lemma writeUInt64LE_put:
  assumes v: "0 \<le> v" "v < 2 ^ 53" and off: "off + 8 \<le> length b"
  shows "writeUInt64LE v off b = Inr (take off b @ le_bytes 8 v @ drop (off + 8) b, off + 8)"
proof -
  have "v div 0x100000000 < 0x100000000" "0 \<le> v div 0x100000000" using v by simp_all
  moreover have "le_bytes 8 v = le_bytes 4 v @ le_bytes 4 (v div 0x100000000)"
    using le_bytes_add [of 4 4 v] by simp
  moreover have "- 2147483648 \<le> to_int32 v" "to_int32 v < 2147483648" using to_int32_bounds [of v] by simp_all
  ultimately show ?thesis using v off
    by (simp add: writeUInt64LE_def verifuint_def js_and_neg1 Buffer_writeIntLE_def Buffer_writeUIntLE_def
        Buffer_put_def le_bytes_to_int32 add.commute)
qed

lemma appends_writeUInt64 [append_intros]:
  "0 \<le> v \<Longrightarrow> v < 2 ^ 53 \<Longrightarrow> appends (BufferWriter_writeUInt64 v) (le_bytes 8 v)"
  unfolding appends_def BufferWriter_writeUInt64_def
  by (auto simp: writeUInt64LE_put bw_put_def)

lemma appends_writeSlice [append_intros]: "appends (BufferWriter_writeSlice s) s"
  by (auto simp: appends_def BufferWriter_writeSlice_def bw_put_def buf_copy_def)

text \<open>Numbers of variable length.\<close>

definition varuint_bytes :: "int \<Rightarrow> buffer" where
  "varuint_bytes n =
     (if n < 0xfd then le_bytes 1 n else if n \<le> 0xffff then 0xfd # le_bytes 2 n
      else if n \<le> 0xffffffff then 0xfe # le_bytes 4 n else 0xff # le_bytes 8 n)"

lemma length_varuint_bytes [simp]: "length (varuint_bytes n) = varuint_size n"
  by (simp add: varuint_bytes_def varuint_size_def)

lemma varuint_encode_put:
  assumes v: "0 \<le> v" "v < 2 ^ 53" and off: "off + varuint_size v \<le> length b"
  shows "varuint_encode v off b =
    Inr (take off b @ varuint_bytes v @ drop (off + varuint_size v) b, varuint_size v)"
proof -
  have d: "0 \<le> v div 4294967296" "v div 4294967296 < 2097152" using v by simp_all
  then have t: "to_int32 (v div 4294967296) = v div 4294967296" by (intro to_int32_id) simp_all
  have m: "le_bytes 4 (v mod 4294967296) = le_bytes 4 v" using le_bytes_mod [of 4 v] by simp
  have e: "le_bytes 8 v = le_bytes 4 v @ le_bytes 4 (v div 4294967296)" using le_bytes_add [of 4 4 v] by simp
  have one: "le_bytes 1 x = [word_of_int x]" for x by simp
  consider "v < 253" | "253 \<le> v" "v \<le> 65535" | "65535 < v" "v \<le> 4294967295" | "4294967295 < v" by linarith
  then show ?thesis
  proof cases
    case 1
    then show ?thesis using v off
      by (simp add: varuint_encode_def checkUInt53_def varuint_size_def varuint_bytes_def Buffer_writeUIntLE_def Buffer_put_def)
  next
    case 2
    then show ?thesis using v off
      by (simp add: varuint_encode_def checkUInt53_def varuint_size_def varuint_bytes_def Buffer_writeUIntLE_def Buffer_put_def
          eval_nat_numeral)
  next
    case 3
    then show ?thesis using v off
      by (auto simp: varuint_encode_def checkUInt53_def varuint_size_def varuint_bytes_def Buffer_writeUIntLE_def Buffer_put_def
          add.commute)
  next
    case 4
    then show ?thesis using v off d
      by (auto simp: varuint_encode_def checkUInt53_def varuint_size_def varuint_bytes_def Buffer_writeUIntLE_def Buffer_put_def
          t m e add.commute)
  qed
qed

lemma appends_writeVarInt [append_intros]:
  "0 \<le> v \<Longrightarrow> v < 2 ^ 53 \<Longrightarrow> appends (BufferWriter_writeVarInt v) (varuint_bytes v)"
  unfolding appends_def BufferWriter_writeVarInt_def
  by (auto simp: varuint_encode_put bw_put_def)

definition slice_ok :: "buffer \<Rightarrow> bool" where \<comment> \<open>a length that a Number holds\<close>
  "slice_ok s \<longleftrightarrow> length s < 2 ^ 53"

definition var_slice :: "buffer \<Rightarrow> buffer" where
  "var_slice s = varuint_bytes (int (length s)) @ s"

definition vector_bytes :: "buffer list \<Rightarrow> buffer" where
  "vector_bytes v = varuint_bytes (int (length v)) @ concat (map var_slice v)"

definition vector_ok :: "buffer list \<Rightarrow> bool" where
  "vector_ok v \<longleftrightarrow> length v < 2 ^ 53 \<and> list_all slice_ok v"

lemma int_less_53: "n < 2 ^ 53 \<Longrightarrow> int n < 2 ^ 53"
  by (metis of_nat_less_iff of_nat_numeral of_nat_power)

lemma appends_writeVarSlice [append_intros]:
  "slice_ok s \<Longrightarrow> appends (BufferWriter_writeVarSlice s) (var_slice s)"
  unfolding var_slice_def BufferWriter_writeVarSlice_def [abs_def]
  by (intro append_intros int_less_53) (simp_all add: slice_ok_def)

lemma appends_writeVector [append_intros]:
  "vector_ok v \<Longrightarrow> appends (BufferWriter_writeVector v) (vector_bytes v)"
  unfolding vector_bytes_def BufferWriter_writeVector_def [abs_def]
  by (intro append_intros int_less_53) (auto simp: vector_ok_def list_all_iff)

text \<open>A buffer of exactly the size of what is appended comes out as those bytes.\<close>

lemma new_writer_appends:
  assumes f: "appends f bs" and n: "n = length bs"
  shows "bindE (new_BufferWriter (buf_alloc n) 0) f = Inr \<lparr>bw_buffer = bs, bw_offset = length bs\<rparr>"
proof -
  have w: "new_BufferWriter (buf_alloc n) 0 = Inr \<lparr>bw_buffer = buf_alloc n, bw_offset = 0\<rparr>"
    by (simp add: new_BufferWriter_def)
  have "f \<lparr>bw_buffer = buf_alloc n, bw_offset = 0\<rparr> = Inr (bw_put bs \<lparr>bw_buffer = buf_alloc n, bw_offset = 0\<rparr>)"
    by (rule appendsD [OF f]) (simp add: n)
  then show ?thesis unfolding w by (simp add: bw_put_def n)
qed

section \<open>Reading\<close>

definition at_bytes :: "buffer \<Rightarrow> buffer_reader \<Rightarrow> bool" where
  "at_bytes bs r \<longleftrightarrow> br_offset r \<le> length (br_buffer r) \<and> (\<exists>rest. drop (br_offset r) (br_buffer r) = bs @ rest)"

definition parses :: "'a bload \<Rightarrow> buffer \<Rightarrow> 'a \<Rightarrow> bool" where
  "parses f bs v \<longleftrightarrow> (\<forall>r. at_bytes bs r \<longrightarrow> f r = Inr (v, br_move (length bs) r))"

lemma parsesD: "parses f bs v \<Longrightarrow> at_bytes bs r \<Longrightarrow> f r = Inr (v, br_move (length bs) r)"
  by (auto simp: parses_def)

lemma parsesI:
  assumes "\<And>r rest. br_offset r + length bs \<le> length (br_buffer r) \<Longrightarrow>
    drop (br_offset r) (br_buffer r) = bs @ rest \<Longrightarrow> f r = Inr (v, br_move (length bs) r)"
  shows "parses f bs v"
  unfolding parses_def at_bytes_def
proof (intro allI impI, elim conjE exE)
  fix r :: buffer_reader and rest
  assume o: "br_offset r \<le> length (br_buffer r)" and d: "drop (br_offset r) (br_buffer r) = bs @ rest"
  have "length (br_buffer r) - br_offset r = length bs + length rest" using arg_cong [OF d, of length] by simp
  with o show "f r = Inr (v, br_move (length bs) r)" by (intro assms [OF _ d]) linarith
qed

lemma br_move_facts [simp]:
  "br_offset (br_move n r) = br_offset r + n" "br_buffer (br_move n r) = br_buffer r"
  "br_move 0 r = r" "br_move m (br_move n r) = br_move (n + m) r"
  by (simp_all add: br_move_def)

lemma drop_moved: "drop i b = as @ rest \<Longrightarrow> drop (i + length as) b = rest"
proof -
  assume "drop i b = as @ rest"
  then have "drop (length as) (drop i b) = rest" by simp
  then show ?thesis by (simp add: add.commute)
qed

lemma at_bytes_append: "at_bytes (as @ bs) r \<longleftrightarrow> at_bytes as r \<and> at_bytes bs (br_move (length as) r)"
proof
  assume "at_bytes (as @ bs) r"
  then obtain rest where o: "br_offset r \<le> length (br_buffer r)"
    and d: "drop (br_offset r) (br_buffer r) = as @ (bs @ rest)" by (auto simp: at_bytes_def)
  have "length (br_buffer r) - br_offset r = length as + length (bs @ rest)" using arg_cong [OF d, of length] by simp
  then have "br_offset r + length as \<le> length (br_buffer r)" using o by linarith
  then show "at_bytes as r \<and> at_bytes bs (br_move (length as) r)"
    using o d drop_moved [OF d] by (auto simp: at_bytes_def)
next
  assume a: "at_bytes as r \<and> at_bytes bs (br_move (length as) r)"
  then obtain rest where d: "drop (br_offset r) (br_buffer r) = as @ rest" by (auto simp: at_bytes_def)
  then show "at_bytes (as @ bs) r" using a drop_moved [OF d] by (auto simp: at_bytes_def)
qed

lemma parses_bind:
  assumes "parses f as x" and "parses (g x) bs y"
  shows "parses (\<lambda>r. bindE (f r) (\<lambda>(v, r :: buffer_reader). g v r)) (as @ bs) y"
  using parsesD [OF assms(1)] parsesD [OF assms(2)] by (auto simp: parses_def at_bytes_append)

lemma parses_return: "parses (\<lambda>r. Inr (v, r)) [] v"
  by (simp add: parses_def)

lemma parses_if: "(b \<Longrightarrow> parses f bs v) \<Longrightarrow> (\<not> b \<Longrightarrow> parses g bs v) \<Longrightarrow> parses (\<lambda>r. if b then f r else g r) bs v"
  by (cases b) simp_all

lemma parses_times:
  assumes "\<And>x. x \<in> set xs \<Longrightarrow> parses f (h x) (k x)" and "n = length xs"
  shows "parses (read_times n f) (concat (map h xs)) (map k xs)"
  unfolding assms(2) using assms(1)
proof (induction xs)
  case (Cons x xs)
  have r: "parses (\<lambda>r. bindE (read_times (length xs) f r) (\<lambda>(xs, r). Inr (k x # xs, r)))
      (concat (map h xs) @ []) (k x # map k xs)"
    by (rule parses_bind [where x = "map k xs"]) (use Cons in \<open>simp_all add: parses_return\<close>)
  have "parses (\<lambda>r. bindE (f r) (\<lambda>(x, r). bindE (read_times (length xs) f r) (\<lambda>(xs, r). Inr (x # xs, r))))
      (h x @ concat (map h xs) @ []) (k x # map k xs)"
    by (rule parses_bind [where x = "k x"]) (use Cons r in simp_all)
  then show ?case by (simp add: parses_def)
qed (simp add: parses_def)

lemma readUIntLE_at:
  assumes "drop i b = le_bytes n v @ rest" and "0 \<le> v" and "v < 256 ^ n" and "0 < n"
  shows "Buffer_readUIntLE n i b = Inr v"
proof -
  have "length b - i = n + length rest" using arg_cong [OF assms(1), of length] by simp
  then have "i + n \<le> length b" using assms(4) by linarith
  then show ?thesis using assms by (simp add: Buffer_readUIntLE_def le_val_id)
qed

text \<open>The readers of fixed width.\<close>

lemma parses_readUInt8 [parse_intros]:
  "0 \<le> v \<Longrightarrow> v < 256 \<Longrightarrow> parses BufferReader_readUInt8 (le_bytes 1 v) v"
  by (rule parsesI) (simp add: BufferReader_readUInt8_def readUIntLE_at del: le_bytes.simps One_nat_def)

lemma parses_readUInt32 [parse_intros]:
  "0 \<le> v \<Longrightarrow> v < 2 ^ 32 \<Longrightarrow> parses BufferReader_readUInt32 (le_bytes 4 v) v"
  by (rule parsesI) (simp add: BufferReader_readUInt32_def readUIntLE_at)

lemma le_signed_mod:
  "- (2 ^ 31) \<le> v \<Longrightarrow> v < 2 ^ 31 \<Longrightarrow> le_signed 4 (v mod 2 ^ 32) = v"
proof (cases "v < 0")
  case True
  assume "- (2 ^ 31) \<le> v"
  with True have "(v + 2 ^ 32) mod 2 ^ 32 = v + 2 ^ 32" by (intro mod_pos_pos_trivial) simp_all
  then have "v mod 2 ^ 32 = v + 2 ^ 32" by simp
  with \<open>- (2 ^ 31) \<le> v\<close> True show ?thesis by (simp add: le_signed_def)
qed (simp add: le_signed_def)

lemma parses_readInt32 [parse_intros]:
  assumes "- (2 ^ 31) \<le> v" and "v < 2 ^ 31"
  shows "parses BufferReader_readInt32 (le_bytes 4 v) v"
proof (rule parsesI)
  fix r :: buffer_reader and rest
  assume r: "drop (br_offset r) (br_buffer r) = le_bytes 4 v @ rest"
  have "le_bytes 4 v = le_bytes 4 (v mod 2 ^ 32)" using le_bytes_mod [of 4 v] by simp
  with r have "Buffer_readUIntLE 4 (br_offset r) (br_buffer r) = Inr (v mod 2 ^ 32)"
    by (intro readUIntLE_at) simp_all
  then show "BufferReader_readInt32 r = Inr (v, br_move (length (le_bytes 4 v)) r)"
    using le_signed_mod [OF assms] by (simp add: BufferReader_readInt32_def Buffer_readIntLE_def)
qed

lemma readUIntLE_two:
  assumes "drop i b = le_bytes 8 v @ rest" and "0 \<le> v" and "v < 2 ^ 53"
  shows "Buffer_readUIntLE 4 i b = Inr (v mod 4294967296)" "Buffer_readUIntLE 4 (i + 4) b = Inr (v div 4294967296)"
proof -
  have d: "0 \<le> v div 4294967296" "v div 4294967296 < 4294967296" using assms by simp_all
  have "le_bytes 8 v = le_bytes 4 (v mod 4294967296) @ le_bytes 4 (v div 4294967296)"
    using le_bytes_add [of 4 4 v] le_bytes_mod [of 4 v] by simp
  with assms(1) have e: "drop i b = le_bytes 4 (v mod 4294967296) @ le_bytes 4 (v div 4294967296) @ rest" by simp
  then show "Buffer_readUIntLE 4 i b = Inr (v mod 4294967296)" by (intro readUIntLE_at) simp_all
  have "drop (i + 4) b = le_bytes 4 (v div 4294967296) @ rest" using drop_moved [OF e] by simp
  then show "Buffer_readUIntLE 4 (i + 4) b = Inr (v div 4294967296)" using d by (intro readUIntLE_at) simp_all
qed

lemma div_mod_word: "v div 4294967296 * 4294967296 + v mod 4294967296 = (v :: int)"
  by (rule div_mult_mod_eq)

lemma parses_readUInt64 [parse_intros]:
  assumes "0 \<le> v" and "v < 2 ^ 53"
  shows "parses BufferReader_readUInt64 (le_bytes 8 v) v"
proof (rule parsesI)
  fix r :: buffer_reader and rest
  assume "drop (br_offset r) (br_buffer r) = le_bytes 8 v @ rest"
  from readUIntLE_two [OF this assms]
  show "BufferReader_readUInt64 r = Inr (v, br_move (length (le_bytes 8 v)) r)"
    using assms by (simp add: BufferReader_readUInt64_def readUInt64LE_def div_mod_word verifuint_def)
qed

lemma varuint_decode_at:
  assumes b: "drop i b = varuint_bytes v @ rest" and v: "0 \<le> v" "v < 2 ^ 53"
  shows "varuint_decode i b = Inr (v, varuint_size v)"
proof -
  have first: "Buffer_readUIntLE 1 i b = Inr c" if "drop i b = word_of_int c # rest" "0 \<le> c" "c < 256" for c rest
    using that by (intro readUIntLE_at [where rest = rest]) simp_all
  have more: "Buffer_readUIntLE n (i + 1) b = Inr v"
    if "drop i b = c # le_bytes n v @ rest" "v < 256 ^ n" "0 < n" for c n
    using drop_moved [of i b "[c]" "le_bytes n v @ rest"] that v by (intro readUIntLE_at [where rest = rest]) simp_all
  consider "v < 253" | "253 \<le> v" "v \<le> 65535" | "65535 < v" "v \<le> 4294967295" | "4294967295 < v" by linarith
  then show ?thesis
  proof cases
    case 1
    then show ?thesis using first [of v rest] b v by (simp add: varuint_decode_def varuint_bytes_def varuint_size_def)
  next
    case 2
    then show ?thesis using first [of 253] more [of _ 2] b v
      by (simp add: varuint_decode_def varuint_bytes_def varuint_size_def)
  next
    case 3
    then show ?thesis using first [of 254] more [of _ 4] b v
      by (simp add: varuint_decode_def varuint_bytes_def varuint_size_def)
  next
    case 4
    then have e: "drop (i + 1) b = le_bytes 8 v @ rest"
      using drop_moved [of i b "[0xff]" "le_bytes 8 v @ rest"] b by (simp add: varuint_bytes_def)
    show ?thesis using 4 first [of 255] b v readUIntLE_two [OF e v, unfolded add.assoc]
      by (simp add: varuint_decode_def varuint_bytes_def varuint_size_def div_mod_word checkUInt53_def add.assoc)
  qed
qed

lemma parses_readVarInt [parse_intros]:
  "0 \<le> v \<Longrightarrow> v < 2 ^ 53 \<Longrightarrow> parses BufferReader_readVarInt (varuint_bytes v) v"
  by (rule parsesI) (simp add: BufferReader_readVarInt_def varuint_decode_at)

lemma parses_readSlice [parse_intros]: "n = int (length s) \<Longrightarrow> parses (BufferReader_readSlice n) s s"
  by (rule parsesI) (simp add: BufferReader_readSlice_def)

lemma parses_readVarSlice [parse_intros]:
  assumes "slice_ok s" shows "parses BufferReader_readVarSlice (var_slice s) s"
  unfolding var_slice_def BufferReader_readVarSlice_def [abs_def]
  by (rule parses_bind, rule parse_intros) (use assms in \<open>simp_all add: slice_ok_def int_less_53 parse_intros\<close>)

section \<open>Values on the wire\<close>

text \<open>
  A kind of value with a writer and a reader: what the writer appends is what the reader parses. Then
  the loops over arrays of such values agree as well.
\<close>

locale wire =
  fixes put :: "'a \<Rightarrow> buffer_writer \<Rightarrow> buffer_writer res" and get :: "'a bload"
    and bytes :: "'a \<Rightarrow> buffer" and ok :: "'a \<Rightarrow> bool"
  assumes writes: "ok x \<Longrightarrow> appends (put x) (bytes x)"
    and reads: "ok x \<Longrightarrow> parses get (bytes x) x"
begin

lemma writes_all: "list_all ok xs \<Longrightarrow> appends (foldE put xs) (concat (map bytes xs))"
  by (rule appends_fold) (simp add: list_all_iff writes)

lemma reads_all:
  assumes "list_all ok xs" and "n = length xs"
  shows "parses (read_times n get) (concat (map bytes xs)) xs"
proof -
  have "parses (read_times n get) (concat (map bytes xs)) (map (\<lambda>x. x) xs)"
    by (rule parses_times) (use assms in \<open>simp_all add: list_all_iff reads\<close>)
  then show ?thesis by simp
qed

end

interpretation slice_wire: wire BufferWriter_writeVarSlice BufferReader_readVarSlice var_slice slice_ok
  by unfold_locales (auto intro: append_intros parse_intros)

lemma parses_readVector [parse_intros]:
  assumes "vector_ok v" shows "parses BufferReader_readVector (vector_bytes v) v"
proof -
  have "parses (read_times (nat (int (length v))) BufferReader_readVarSlice) (concat (map var_slice v)) v"
    by (rule slice_wire.reads_all) (use assms in \<open>simp_all add: vector_ok_def\<close>)
  then show ?thesis
    unfolding vector_bytes_def BufferReader_readVector_def [abs_def]
    by (intro parses_bind [where x = "int (length v)"] parse_intros)
      (use assms in \<open>simp_all add: vector_ok_def int_less_53\<close>)
qed

interpretation vector_wire: wire BufferWriter_writeVector BufferReader_readVector vector_bytes vector_ok
  by unfold_locales (auto intro: append_intros parse_intros)

end
