(* ===== verification/Btc_Tx_Codec.thy ===== *)
theory Btc_Tx_Codec
  imports Btc_Transaction Btc_Codec
begin

text \<open>
  The serialised transaction as a reference definition, a concatenation of bytes (\<open>tx_bytes\<close>), with
  the proofs that \<open>byteLength\<close> is its length, that the writer of transaction.ts produces it and that
  the parser takes it back.
\<close>

section \<open>The bytes of a transaction\<close>

definition input_bytes :: "btc_input \<Rightarrow> buffer" where
  "input_bytes i = bi_hash i @ le_bytes 4 (bi_index i) @ var_slice (bi_script i) @ le_bytes 4 (bi_sequence i)"

definition output_bytes :: "btc_output \<Rightarrow> buffer" where
  "output_bytes out = (case out of Output s v \<Rightarrow> le_bytes 8 v @ var_slice s | BlankOutput \<Rightarrow> replicate 8 0xff @ var_slice [])"

definition tx_bytes :: "bool \<Rightarrow> btc_tx \<Rightarrow> buffer" where
  "tx_bytes allow_witness tx =
     (let w = allow_witness \<and> Transaction_hasWitnesses tx
      in le_bytes 4 (bt_version tx) @ (if w then [0, 1] else []) @
         varuint_bytes (int (length (bt_ins tx))) @ concat (map input_bytes (bt_ins tx)) @
         varuint_bytes (int (length (bt_outs tx))) @ concat (map output_bytes (bt_outs tx)) @
         (if w then concat (map (\<lambda>i. vector_bytes (bi_witness i)) (bt_ins tx)) else []) @
         le_bytes 4 (bt_locktime tx))"

text \<open>The values that the fields of a transaction hold: 32-byte hashes, 32-bit numbers, amounts below 2^53.\<close>

definition input_ok :: "btc_input \<Rightarrow> bool" where
  "input_ok i \<longleftrightarrow> length (bi_hash i) = 32 \<and> is_UInt32 (bi_index i) \<and> slice_ok (bi_script i) \<and>
     is_UInt32 (bi_sequence i) \<and> vector_ok (bi_witness i)"

definition output_ok :: "btc_output \<Rightarrow> bool" where
  "output_ok out \<longleftrightarrow> (case out of Output s v \<Rightarrow> slice_ok s \<and> 0 \<le> v \<and> v < 2 ^ 53 | BlankOutput \<Rightarrow> True)"

definition tx_ok :: "btc_tx \<Rightarrow> bool" where
  "tx_ok tx \<longleftrightarrow> - (2 ^ 31) \<le> bt_version tx \<and> bt_version tx < 2 ^ 31 \<and> is_UInt32 (bt_locktime tx) \<and>
     length (bt_ins tx) < 2 ^ 53 \<and> length (bt_outs tx) < 2 ^ 53 \<and>
     list_all input_ok (bt_ins tx) \<and> list_all output_ok (bt_outs tx)"

section \<open>The sizes\<close>

lemma length_var_slice: "length (var_slice s) = varSliceSize s"
  by (simp add: var_slice_def varSliceSize_def)

lemma length_vector_bytes: "length (vector_bytes v) = vectorSize v"
  by (simp add: vector_bytes_def vectorSize_def foldl_sum length_concat length_var_slice o_def)

lemma length_input_bytes: "input_ok i \<Longrightarrow> length (input_bytes i) = 40 + varSliceSize (bi_script i)"
  by (simp add: input_bytes_def input_ok_def length_var_slice)

lemma length_output_bytes: "length (output_bytes out) = 8 + varSliceSize (output_script out)"
  by (simp add: output_bytes_def output_script_def length_var_slice split: btc_output.split)

lemma byteLength_tx_bytes:
  assumes "list_all input_ok (bt_ins tx)"
  shows "Transaction_byteLength allow_witness tx = length (tx_bytes allow_witness tx)"
proof -
  have "(\<Sum>i\<leftarrow>bt_ins tx. length (input_bytes i)) = (\<Sum>i\<leftarrow>bt_ins tx. 40 + varSliceSize (bi_script i))"
    by (rule arg_cong [where f = sum_list], rule map_cong)
      (use assms in \<open>simp_all add: list_all_iff length_input_bytes\<close>)
  then show ?thesis
    by (simp add: Transaction_byteLength_def tx_bytes_def Let_def length_concat o_def add.assoc
        length_output_bytes length_vector_bytes foldl_sum)
qed

section \<open>The writer\<close>

lemma appends_write_input [append_intros]:
  assumes "input_ok i" shows "appends (write_input i) (input_bytes i)"
  unfolding write_input_def [abs_def] input_bytes_def
  by (intro append_intros) (use assms in \<open>simp_all add: input_ok_def is_UInt32_def\<close>)

lemma appends_write_output [append_intros]:
  assumes "output_ok out" shows "appends (write_output out) (output_bytes out)"
proof (cases out)
  case (Output s v)
  then show ?thesis using assms
    unfolding write_output_def [abs_def] output_bytes_def
    by (simp add: output_script_def output_ok_def append_intros)
next
  case BlankOutput
  have "appends (\<lambda>w. bindE (BufferWriter_writeSlice (replicate 8 0xff) w) (BufferWriter_writeVarSlice []))
      (replicate 8 0xff @ var_slice [])" by (intro append_intros) (simp add: slice_ok_def)
  then show ?thesis using BlankOutput
    by (simp add: write_output_def [abs_def] output_bytes_def output_script_def)
qed

definition write_tx :: "bool \<Rightarrow> btc_tx \<Rightarrow> buffer_writer \<Rightarrow> buffer_writer res" where
  "write_tx hasWitnesses tx w =
     bindE (BufferWriter_writeInt32 (bt_version tx) w) (\<lambda>w.
     bindE (if hasWitnesses then bindE (BufferWriter_writeUInt8 0 w) (BufferWriter_writeUInt8 1) else Inr w) (\<lambda>w.
     bindE (BufferWriter_writeVarInt (int (length (bt_ins tx))) w) (\<lambda>w.
     bindE (foldE write_input (bt_ins tx) w) (\<lambda>w.
     bindE (BufferWriter_writeVarInt (int (length (bt_outs tx))) w) (\<lambda>w.
     bindE (foldE write_output (bt_outs tx) w) (\<lambda>w.
     bindE (if hasWitnesses then foldE (\<lambda>input. BufferWriter_writeVector (bi_witness input)) (bt_ins tx) w else Inr w) (\<lambda>w.
     BufferWriter_writeUInt32 (bt_locktime tx) w)))))))"

lemma Transaction_into_write_tx:
  "Transaction_into buf off aw tx =
     bindE (new_BufferWriter buf off) (write_tx (aw \<and> Transaction_hasWitnesses tx) tx)"
  unfolding Transaction_into_def write_tx_def [abs_def] Let_def ..

lemma appends_marker: "appends (\<lambda>w. bindE (BufferWriter_writeUInt8 0 w) (BufferWriter_writeUInt8 1)) [0, 1]"
proof -
  have "appends (\<lambda>w. bindE (BufferWriter_writeUInt8 0 w) (BufferWriter_writeUInt8 1)) (le_bytes 1 0 @ le_bytes 1 1)"
    by (intro append_intros) simp_all
  then show ?thesis by simp
qed

lemma appends_write_tx:
  assumes "tx_ok tx"
  shows "appends (write_tx (aw \<and> Transaction_hasWitnesses tx) tx) (tx_bytes aw tx)"
  unfolding write_tx_def [abs_def] tx_bytes_def Let_def
  by (intro append_intros appends_marker int_less_53)
    (use assms in \<open>auto simp: tx_ok_def is_UInt32_def list_all_iff input_ok_def\<close>)

theorem Transaction_into_bytes:
  assumes "tx_ok tx" and "off < 2 ^ 32" and "off + length (tx_bytes aw tx) \<le> length buf"
  shows "Transaction_into buf off aw tx = Inr (bw_put (tx_bytes aw tx) \<lparr>bw_buffer = buf, bw_offset = off\<rparr>)"
  unfolding Transaction_into_write_tx
  using appendsD [OF appends_write_tx [OF assms(1)], of "\<lparr>bw_buffer = buf, bw_offset = off\<rparr>" aw] assms
  by (simp add: new_BufferWriter_def)

theorem toBuffer_bytes:
  assumes "tx_ok tx"
  shows "Transaction___toBuffer None None aw tx = Inr (tx_bytes aw tx)"
proof -
  have "Transaction_byteLength aw tx = length (tx_bytes aw tx)"
    using assms by (intro byteLength_tx_bytes) (simp add: tx_ok_def)
  then show ?thesis
    unfolding Transaction___toBuffer_def Transaction_into_write_tx Let_def
    by (simp add: new_writer_appends [OF appends_write_tx [OF assms]])
qed

section \<open>The parser\<close>

lemma parses_read_input:
  assumes "input_ok i"
  shows "parses read_input (input_bytes i) (i\<lparr>bi_witness := []\<rparr>)"
proof -
  let ?i = "i\<lparr>bi_witness := []\<rparr>"
  have i: "\<lparr>bi_hash = bi_hash i, bi_index = bi_index i, bi_script = bi_script i, bi_sequence = bi_sequence i,
      bi_witness = []\<rparr> = ?i" by simp
  note ok = assms [unfolded input_ok_def is_UInt32_def]
  have "parses read_input (bi_hash i @ le_bytes 4 (bi_index i) @ var_slice (bi_script i) @ le_bytes 4 (bi_sequence i) @ []) ?i"
    unfolding read_input_def [abs_def]
    apply (rule parses_bind [where x = "bi_hash i"], rule parse_intros, use ok in simp)
    apply (rule parses_bind [where x = "bi_index i"], rule parse_intros, use ok in simp, use ok in simp)
    apply (rule parses_bind [where x = "bi_script i"], rule parse_intros, use ok in simp)
    apply (rule parses_bind [where x = "bi_sequence i"], rule parse_intros, use ok in simp, use ok in simp)
    unfolding i by (rule parses_return)
  then show ?thesis by (simp add: input_bytes_def)
qed

lemma parses_read_output:
  assumes "output_ok (Output s v)"
  shows "parses read_output (output_bytes (Output s v)) (Output s v)"
proof -
  note ok = assms [unfolded output_ok_def btc_output.case]
  have "parses read_output (le_bytes 8 v @ var_slice s @ []) (Output s v)"
    unfolding read_output_def [abs_def]
    apply (rule parses_bind [where x = v], rule parse_intros, use ok in simp, use ok in simp)
    apply (rule parses_bind [where x = s], rule parse_intros, use ok in simp)
    by (rule parses_return)
  then show ?thesis by (simp add: output_bytes_def)
qed

text \<open>The parser behind its decision on the marker.\<close>

definition read_witnesses :: "nat \<Rightarrow> btc_input list \<Rightarrow> btc_input list bload" where
  "read_witnesses n ins r =
     bindE (read_times n BufferReader_readVector r) (\<lambda>(ws, r).
     let ins = map (\<lambda>(i, w). i\<lparr>bi_witness := w\<rparr>) (zip ins ws)
     in if \<not> list_ex (\<lambda>x. length (bi_witness x) \<noteq> 0) ins then Inl InvalidData else Inr (ins, r))"

definition read_body :: "bool \<Rightarrow> int \<Rightarrow> btc_tx bload" where
  "read_body hasWitnesses version r =
     bindE (BufferReader_readVarInt r) (\<lambda>(vinLen, r).
     bindE (read_times (nat vinLen) read_input r) (\<lambda>(ins, r).
     bindE (BufferReader_readVarInt r) (\<lambda>(voutLen, r).
     bindE (read_times (nat voutLen) read_output r) (\<lambda>(outs, r).
     bindE (if hasWitnesses then read_witnesses (nat vinLen) ins r else Inr (ins, r)) (\<lambda>(ins, r).
     bindE (BufferReader_readUInt32 r) (\<lambda>(locktime, r).
     Inr (\<lparr>bt_version = version, bt_locktime = locktime, bt_ins = ins, bt_outs = outs\<rparr>, r)))))))"

lemma fromBuffer_body:
  "Transaction_fromBuffer buf ns =
     bindE (BufferReader_readInt32 (new_BufferReader buf)) (\<lambda>(version, r0).
     bindE (BufferReader_readUInt8 r0) (\<lambda>(marker, r).
     bindE (BufferReader_readUInt8 r) (\<lambda>(flag, r).
     bindE (if marker = 0 \<and> flag = 1 then read_body True version r
            else read_body False version (r\<lparr>br_offset := br_offset r - 2\<rparr>)) (\<lambda>(tx, r).
     if ns \<or> br_offset r = length buf then Inr tx else Inl InvalidData))))"
  unfolding Transaction_fromBuffer_def read_body_def read_witnesses_def
  by (auto simp: split_def bindE_assoc Let_def intro!: bindE_cong)

definition no_blank :: "btc_tx \<Rightarrow> bool" where
  "no_blank tx \<longleftrightarrow> BlankOutput \<notin> set (bt_outs tx)"

definition strip_witness :: "btc_input \<Rightarrow> btc_input" where
  "strip_witness i = i\<lparr>bi_witness := []\<rparr>"

lemma zip_witness: "map (\<lambda>(i, w). i\<lparr>bi_witness := w\<rparr>) (zip (map strip_witness ins) (map bi_witness ins)) = ins"
  by (induction ins) (simp_all add: strip_witness_def)

lemma parses_witnesses:
  assumes "list_all input_ok ins" and "list_ex (\<lambda>x. length (bi_witness x) \<noteq> 0) ins"
  shows "parses (read_witnesses (length ins) (map strip_witness ins)) (concat (map (\<lambda>i. vector_bytes (bi_witness i)) ins)) ins"
proof -
  have "parses (read_witnesses (length ins) (map strip_witness ins))
      (concat (map (\<lambda>i. vector_bytes (bi_witness i)) ins) @ []) ins"
    unfolding read_witnesses_def [abs_def] Let_def
    apply (rule parses_bind [where x = "map bi_witness ins"], rule parses_times)
      apply (rule parse_intros, use assms in \<open>simp add: list_all_iff input_ok_def\<close>, rule refl)
    by (use assms in \<open>simp only: zip_witness not_True_eq_False if_False\<close>) (rule parses_return)
  then show ?thesis by simp
qed

interpretation output_wire: wire write_output read_output output_bytes "\<lambda>out. output_ok out \<and> out \<noteq> BlankOutput"
proof unfold_locales
  fix out assume ok: "output_ok out \<and> out \<noteq> BlankOutput"
  then show "appends (write_output out) (output_bytes out)" by (intro append_intros) simp
  from ok show "parses read_output (output_bytes out) out" using parses_read_output by (cases out) auto
qed

lemma parses_outputs:
  assumes "list_all output_ok outs" and "BlankOutput \<notin> set outs" and "n = length outs"
  shows "parses (read_times n read_output) (concat (map output_bytes outs)) outs"
  by (rule output_wire.reads_all) (use assms in \<open>auto simp: list_all_iff\<close>)

definition body_bytes :: "bool \<Rightarrow> btc_tx \<Rightarrow> buffer" where
  "body_bytes w tx =
     varuint_bytes (int (length (bt_ins tx))) @ concat (map input_bytes (bt_ins tx)) @
     varuint_bytes (int (length (bt_outs tx))) @ concat (map output_bytes (bt_outs tx)) @
     (if w then concat (map (\<lambda>i. vector_bytes (bi_witness i)) (bt_ins tx)) else []) @
     le_bytes 4 (bt_locktime tx)"

lemma tx_bytes_body:
  "tx_bytes aw tx = le_bytes 4 (bt_version tx) @
     (if aw \<and> Transaction_hasWitnesses tx then [0, 1] @ body_bytes True tx else body_bytes False tx)"
  by (simp add: tx_bytes_def body_bytes_def Let_def)

lemma parses_body:
  assumes ok: "tx_ok tx" "no_blank tx" and w: "w \<longleftrightarrow> Transaction_hasWitnesses tx"
  shows "parses (read_body w (bt_version tx)) (body_bytes w tx) tx"
proof -
  have ins: "parses (read_times (nat (int (length (bt_ins tx)))) read_input) (concat (map input_bytes (bt_ins tx)))
      (map strip_witness (bt_ins tx))"
    using ok parses_times [of "bt_ins tx" read_input input_bytes strip_witness "length (bt_ins tx)"] parses_read_input
    by (simp add: tx_ok_def list_all_iff strip_witness_def)
  have outs: "parses (read_times (nat (int (length (bt_outs tx)))) read_output) (concat (map output_bytes (bt_outs tx)))
      (bt_outs tx)"
    using ok by (intro parses_outputs) (simp_all add: tx_ok_def no_blank_def)
  have strip: "map strip_witness (bt_ins tx) = bt_ins tx" if "\<not> Transaction_hasWitnesses tx"
    using that by (intro map_idI) (auto simp: Transaction_hasWitnesses_def list_ex_iff strip_witness_def)
  have ws: "parses (\<lambda>r. if w then read_witnesses (nat (int (length (bt_ins tx)))) (map strip_witness (bt_ins tx)) r
        else Inr (map strip_witness (bt_ins tx), r))
      (if w then concat (map (\<lambda>i. vector_bytes (bi_witness i)) (bt_ins tx)) else []) (bt_ins tx)"
  proof (cases w)
    case True
    then show ?thesis using ok w parses_witnesses [of "bt_ins tx"]
      by (simp add: tx_ok_def Transaction_hasWitnesses_def)
  next
    case False
    then show ?thesis using w strip by (simp add: parses_return)
  qed
  have "parses (read_body w (bt_version tx)) (varuint_bytes (int (length (bt_ins tx))) @
      concat (map input_bytes (bt_ins tx)) @ varuint_bytes (int (length (bt_outs tx))) @
      concat (map output_bytes (bt_outs tx)) @
      (if w then concat (map (\<lambda>i. vector_bytes (bi_witness i)) (bt_ins tx)) else []) @
      le_bytes 4 (bt_locktime tx) @ [])
      \<lparr>bt_version = bt_version tx, bt_locktime = bt_locktime tx, bt_ins = bt_ins tx, bt_outs = bt_outs tx\<rparr>"
    unfolding read_body_def [abs_def]
    apply (rule parses_bind [where x = "int (length (bt_ins tx))"], rule parse_intros)
      apply simp
     apply (use ok in \<open>simp add: tx_ok_def\<close>)
    apply (rule parses_bind [OF ins])
    apply (rule parses_bind [where x = "int (length (bt_outs tx))"], rule parse_intros)
      apply simp
     apply (use ok in \<open>simp add: tx_ok_def\<close>)
    apply (rule parses_bind [OF outs])
    apply (rule parses_bind [OF ws])
    apply (rule parses_bind [where x = "bt_locktime tx"], rule parse_intros)
      apply (use ok in \<open>simp add: tx_ok_def is_UInt32_def\<close>)
     apply (use ok in \<open>simp add: tx_ok_def is_UInt32_def\<close>)
    by (rule parses_return)
  moreover have "\<lparr>bt_version = bt_version tx, bt_locktime = bt_locktime tx, bt_ins = bt_ins tx, bt_outs = bt_outs tx\<rparr> = tx"
    by simp
  ultimately show ?thesis by (simp only: body_bytes_def append_Nil2)
qed

text \<open>The first byte of a length is the length itself when it is short.\<close>

lemma varuint_bytes_first:
  fixes n :: int
  assumes "0 \<le> n"
  obtains c bs where "varuint_bytes n = c # bs" and "uint c = n \<or> 253 \<le> uint c \<and> 253 \<le> n"
proof (cases "n < 253")
  case True
  then show ?thesis using that [of "word_of_int n" "[]"] assms by (simp add: varuint_bytes_def uint_word_of_int)
next
  case False
  show ?thesis
  proof (cases "n \<le> 65535")
    case True
    with False show ?thesis using that [of 253 "le_bytes 2 n"] by (simp add: varuint_bytes_def)
  next
    case big: False
    show ?thesis
    proof (cases "n \<le> 4294967295")
      case True
      with big show ?thesis using that [of 254 "le_bytes 4 n"] by (simp add: varuint_bytes_def)
    next
      case False
      then show ?thesis using that [of 255 "le_bytes 8 n"] by (simp add: varuint_bytes_def)
    qed
  qed
qed

text \<open>Without a witness the bytes behind the version are not taken for the marker and the flag.\<close>

lemma body_bytes_first:
  assumes "bt_ins tx \<noteq> [] \<or> length (bt_outs tx) \<noteq> 1"
  obtains a b rest where "body_bytes w tx = a # b # rest" and "\<not> (uint a = 0 \<and> uint b = 1)"
proof -
  obtain c bs where c: "varuint_bytes (int (length (bt_ins tx))) = c # bs"
    "uint c = int (length (bt_ins tx)) \<or> 253 \<le> uint c \<and> 253 \<le> int (length (bt_ins tx))"
    using varuint_bytes_first [of "int (length (bt_ins tx))"] by (metis of_nat_0_le_iff)
  obtain d ds where d: "varuint_bytes (int (length (bt_outs tx))) = d # ds"
    "uint d = int (length (bt_outs tx)) \<or> 253 \<le> uint d \<and> 253 \<le> int (length (bt_outs tx))"
    using varuint_bytes_first [of "int (length (bt_outs tx))"] by (metis of_nat_0_le_iff)
  show thesis
  proof (cases "bt_ins tx = []")
    case True
    then have "bs = []" using c(1) by (simp add: varuint_bytes_def)
    then have "body_bytes w tx = c # d # ds @ concat (map output_bytes (bt_outs tx)) @ le_bytes 4 (bt_locktime tx)"
      using True c(1) d(1) by (simp add: body_bytes_def)
    then show thesis using True assms d(2) by (intro that) auto
  next
    case False
    let ?m = "bs @ concat (map input_bytes (bt_ins tx)) @ d # ds @ concat (map output_bytes (bt_outs tx)) @
        (if w then concat (map (\<lambda>i. vector_bytes (bi_witness i)) (bt_ins tx)) else []) @ le_bytes 4 (bt_locktime tx)"
    have "?m \<noteq> []" by simp
    then obtain a rest where "?m = a # rest" by (meson list.exhaust)
    then have "body_bytes w tx = c # a # rest" using c(1) d(1) by (simp add: body_bytes_def)
    moreover have "uint c \<noteq> 0" using c(2) False by auto
    ultimately show thesis by (intro that) auto
  qed
qed

lemma readUInt8_at:
  "br_offset r < length (br_buffer r) \<Longrightarrow>
   BufferReader_readUInt8 r = Inr (uint (br_buffer r ! br_offset r), br_move 1 r)"
  by (simp add: BufferReader_readUInt8_def Buffer_readUIntLE_def Suc_le_eq take_Suc_conv_app_nth)

lemma readUInt8_bytes:
  assumes "at_bytes (a # bs) r"
  shows "BufferReader_readUInt8 r = Inr (uint a, br_move 1 r)" and "at_bytes bs (br_move 1 r)"
proof -
  have p: "parses BufferReader_readUInt8 (le_bytes 1 (uint a)) (uint a)"
    using uint_bounded [of a] by (intro parses_readUInt8) simp_all
  have "at_bytes [a] r" and m: "at_bytes bs (br_move 1 r)" using assms at_bytes_append [of "[a]" bs r] by simp_all
  then show "BufferReader_readUInt8 r = Inr (uint a, br_move 1 r)" using parsesD [OF p, of r] by simp
  show "at_bytes bs (br_move 1 r)" by (rule m)
qed

theorem fromBuffer_tx_bytes:
  assumes ok: "tx_ok tx" "no_blank tx" and ins: "bt_ins tx \<noteq> [] \<or> length (bt_outs tx) \<noteq> 1"
  shows "Transaction_fromBuffer (tx_bytes True tx @ extra) ns = (if ns \<or> extra = [] then Inr tx else Inl InvalidData)"
proof -
  let ?w = "Transaction_hasWitnesses tx" and ?r = "new_BufferReader (tx_bytes True tx @ extra)"
  let ?v = "le_bytes 4 (bt_version tx)"
  have start: "at_bytes (tx_bytes True tx) ?r" by (auto simp: at_bytes_def new_BufferReader_def)
  have version: "BufferReader_readInt32 ?r = Inr (bt_version tx, br_move 4 ?r)"
  proof -
    have "parses BufferReader_readInt32 ?v (bt_version tx)" using ok by (intro parse_intros) (simp_all add: tx_ok_def)
    moreover have "at_bytes ?v ?r" using start unfolding tx_bytes_body at_bytes_append by simp
    ultimately show ?thesis using parsesD by fastforce
  qed
  show ?thesis
  proof (cases ?w)
    case True
    then have b: "tx_bytes True tx = ?v @ [0, 1] @ body_bytes True tx" by (simp add: tx_bytes_body)
    with start have m: "at_bytes (0 # 1 # body_bytes True tx) (br_move 4 ?r)" by (simp add: at_bytes_append)
    note m1 = readUInt8_bytes [OF m] and m2 = readUInt8_bytes [OF readUInt8_bytes(2) [OF m]]
    have "read_body True (bt_version tx) (br_move 1 (br_move 1 (br_move 4 ?r))) =
        Inr (tx, br_move (length (body_bytes True tx)) (br_move 1 (br_move 1 (br_move 4 ?r))))"
      by (rule parsesD [OF parses_body m2(2)]) (use ok True in simp_all)
    note body = this
    have "Transaction_fromBuffer (tx_bytes True tx @ extra) ns =
        (if ns \<or> br_offset (br_move (length (body_bytes True tx)) (br_move 1 (br_move 1 (br_move 4 ?r)))) =
            length (tx_bytes True tx @ extra) then Inr tx else Inl InvalidData)"
      by (simp only: fromBuffer_body version m1(1) m2(1) body bindE_simps split unsigned_0 unsigned_1 simp_thms if_True)
    then show ?thesis by (simp add: new_BufferReader_def b)
  next
    case False
    then have b: "tx_bytes True tx = ?v @ body_bytes False tx" by (simp add: tx_bytes_body)
    obtain x y rest where xy: "body_bytes False tx = x # y # rest" "\<not> (uint x = 0 \<and> uint y = 1)"
      by (rule body_bytes_first [OF ins])
    with start b have m: "at_bytes (x # y # rest) (br_move 4 ?r)" by (simp add: at_bytes_append)
    note m1 = readUInt8_bytes [OF m] and m2 = readUInt8_bytes [OF readUInt8_bytes(2) [OF m]]
    have rewound: "(br_move 1 (br_move 1 (br_move 4 ?r)))\<lparr>br_offset := br_offset (br_move 1 (br_move 1 (br_move 4 ?r))) - 2\<rparr> =
        br_move 4 ?r" by (simp add: br_move_def)
    have "read_body False (bt_version tx) (br_move 4 ?r) =
        Inr (tx, br_move (length (body_bytes False tx)) (br_move 4 ?r))"
      by (rule parsesD [OF parses_body]) (use ok False m xy in simp_all)
    note body = this
    have "Transaction_fromBuffer (tx_bytes True tx @ extra) ns =
        (if ns \<or> br_offset (br_move (length (body_bytes False tx)) (br_move 4 ?r)) =
            length (tx_bytes True tx @ extra) then Inr tx else Inl InvalidData)"
      by (simp only: fromBuffer_body version m1(1) m2(1) rewound body bindE_simps split xy(2) if_False)
    then show ?thesis by (simp add: new_BufferReader_def b)
  qed
qed

end
