(* ===== verification/Btc_Script_Codec.thy ===== *)
theory Btc_Script_Codec
  imports Btc_Script Btc_Codec
begin

text \<open>
  Compiling and decompiling scripts. \<open>chunk_bytes\<close> is the reference encoding of a chunk; the compiler
  writes the concatenation into a buffer of the computed size, and the decompiler gives the chunks
  back with every push in its minimal form.
\<close>

section \<open>The bytes of a chunk\<close>

definition push_bytes :: "int \<Rightarrow> buffer" where
  "push_bytes n =
     (if n < 76 then le_bytes 1 n else if n \<le> 0xff then 76 # le_bytes 1 n
      else if n \<le> 0xffff then 77 # le_bytes 2 n else 78 # le_bytes 4 n)"

definition chunk_bytes :: "script_chunk \<Rightarrow> buffer" where
  "chunk_bytes c =
     (case c of
        Op v \<Rightarrow> [word_of_int v]
      | Data b \<Rightarrow> (case asMinimalOP b of Some v \<Rightarrow> [word_of_int v] | None \<Rightarrow> push_bytes (int (length b)) @ b))"

definition chunk_ok :: "script_chunk \<Rightarrow> bool" where
  "chunk_ok c = (case c of Op v \<Rightarrow> 0 \<le> v \<and> v < 256 | Data b \<Rightarrow> length b < 2 ^ 32)"

lemma length_push_bytes: "length (push_bytes n) = pushdata_encodingLength n"
  by (simp add: push_bytes_def pushdata_encodingLength_def)

lemma asMinimalOP_range: "asMinimalOP b = Some v \<Longrightarrow> v = 0 \<or> v = 79 \<or> 81 \<le> v \<and> v \<le> 96"
  by (auto simp: asMinimalOP_def OP_INT_BASE_def split: if_splits)

lemma asMinimalOP_length: "asMinimalOP b = Some v \<Longrightarrow> length b \<le> 1"
  by (auto simp: asMinimalOP_def split: if_splits)

section \<open>Compiling\<close>

lemma compile_size_bytes: "compile_size chunks = length (concat (map chunk_bytes chunks))"
proof -
  let ?f = "\<lambda>accum c. case c of
      Data b \<Rightarrow> if length b = 1 \<and> asMinimalOP b \<noteq> None then accum + 1
        else accum + pushdata_encodingLength (int (length b)) + length b
    | Op _ \<Rightarrow> accum + 1"
  have one: "?f n c = n + length (chunk_bytes c)" for n c
  proof (cases c)
    case (Data b)
    show ?thesis
    proof (cases "asMinimalOP b")
      case None
      then show ?thesis using Data by (simp add: chunk_bytes_def length_push_bytes)
    next
      case (Some v)
      then have "length b = 0 \<or> length b = 1" using asMinimalOP_length [OF Some] by linarith
      then show ?thesis using Data Some by (auto simp: chunk_bytes_def pushdata_encodingLength_def)
    qed
  qed (simp add: chunk_bytes_def)
  have "?f = (\<lambda>n c. n + length (chunk_bytes c))" by (intro ext) (rule one)
  then show ?thesis by (simp add: compile_size_def foldl_sum length_concat o_def)
qed

lemma Buffer_writeUIntLE_put:
  "0 \<le> v \<Longrightarrow> v < 256 ^ n \<Longrightarrow> Buffer_writeUIntLE n v off b = Buffer_put (le_bytes n v) off b"
  by (simp add: Buffer_writeUIntLE_def)

lemma put_two:
  assumes "0 \<le> c" "c < 256" "0 \<le> v" "v < 256 ^ n" and "off + 1 + n \<le> length b"
  shows "bindE (Buffer_writeUIntLE 1 c off b) (Buffer_writeUIntLE n v (off + 1)) =
    Buffer_put (word_of_int c # le_bytes n v) off b"
proof -
  have w: "Buffer_writeUIntLE n v (off + 1) = Buffer_put (le_bytes n v) (off + 1)"
    by (rule ext) (use assms in \<open>simp add: Buffer_writeUIntLE_put\<close>)
  have c: "Buffer_writeUIntLE 1 c off b = Buffer_put [word_of_int c] off b"
    using assms by (simp add: Buffer_writeUIntLE_put)
  show ?thesis unfolding w c
    using Buffer_put_put [of "off + 1" off "[word_of_int c]" "le_bytes n v" b] assms by simp
qed

lemma pushdata_encode_put:
  assumes n: "0 \<le> n" "n < 2 ^ 32" and off: "off + pushdata_encodingLength n \<le> length b"
  shows "pushdata_encode n off b =
    bindE (Buffer_put (push_bytes n) off b) (\<lambda>b. Inr (b, pushdata_encodingLength n))"
proof -
  consider "n < 76" | "76 \<le> n" "n \<le> 255" | "255 < n" "n \<le> 65535" | "65535 < n" by linarith
  then show ?thesis
  proof cases
    case 1
    then show ?thesis using n by (simp add: pushdata_encode_def pushdata_encodingLength_def push_bytes_def Buffer_writeUIntLE_def)
  next
    case 2
    then show ?thesis using put_two [of 76 n 1 off b] n off
      by (simp add: pushdata_encode_def pushdata_encodingLength_def push_bytes_def)
  next
    case 3
    then show ?thesis using put_two [of 77 n 2 off b] n off
      by (simp add: pushdata_encode_def pushdata_encodingLength_def push_bytes_def)
  next
    case 4
    then show ?thesis using put_two [of 78 n 4 off b] n off
      by (simp add: pushdata_encode_def pushdata_encodingLength_def push_bytes_def)
  qed
qed

text \<open>A chunk is put at the position, which moves behind it.\<close>

lemma compile_chunk_put:
  assumes ok: "chunk_ok c" and off: "off + length (chunk_bytes c) \<le> length buf"
  shows "compile_chunk c (buf, off) =
    Inr (take off buf @ chunk_bytes c @ drop (off + length (chunk_bytes c)) buf, off + length (chunk_bytes c))"
proof (cases c)
  case (Op v)
  then show ?thesis using assms
    by (simp add: compile_chunk_def chunk_bytes_def chunk_ok_def Buffer_writeUIntLE_put Buffer_put_ok)
next
  case (Data b)
  show ?thesis
  proof (cases "asMinimalOP b")
    case None
    have n: "int (length b) < 2 ^ 32" using ok Data by (simp add: chunk_ok_def)
    have "pushdata_encode (int (length b)) off buf = Inr (take off buf @ push_bytes (int (length b)) @
        drop (off + pushdata_encodingLength (int (length b))) buf, pushdata_encodingLength (int (length b)))"
      using pushdata_encode_put [OF _ n, of off buf] off Data None
      by (simp add: chunk_bytes_def length_push_bytes Buffer_put_ok)
    then show ?thesis using off Data None
      by (simp add: compile_chunk_def chunk_bytes_def length_push_bytes buf_copy_def ac_simps)
  next
    case (Some v)
    then show ?thesis using off Data asMinimalOP_range [OF Some]
      by (auto simp: compile_chunk_def chunk_bytes_def Buffer_writeUIntLE_put Buffer_put_ok)
  qed
qed

lemma compile_chunks_put:
  assumes "list_all chunk_ok cs" and "off + length (concat (map chunk_bytes cs)) \<le> length buf"
  shows "foldE compile_chunk cs (buf, off) =
    Inr (take off buf @ concat (map chunk_bytes cs) @ drop (off + length (concat (map chunk_bytes cs))) buf,
      off + length (concat (map chunk_bytes cs)))"
  using assms
proof (induction cs arbitrary: buf off)
  case (Cons c cs)
  then show ?case by (simp add: compile_chunk_put add.assoc add.commute)
qed simp

theorem script_compile_bytes:
  assumes "list_all chunk_ok cs"
  shows "script_compile cs = Inr (concat (map chunk_bytes cs))"
  using compile_chunks_put [OF assms, of 0 "buf_alloc (compile_size cs)"]
  by (simp add: script_compile_def compile_size_bytes)

section \<open>Decompiling\<close>

definition minimal_chunk :: "script_chunk \<Rightarrow> script_chunk" where
  "minimal_chunk c = (case c of Op v \<Rightarrow> Op v | Data b \<Rightarrow> (case asMinimalOP b of Some v \<Rightarrow> Op v | None \<Rightarrow> Data b))"

text \<open>An operation that the decompiler does not take for a push.\<close>

definition plain_op :: "script_chunk \<Rightarrow> bool" where
  "plain_op c = (case c of Op v \<Rightarrow> v = 0 \<or> 78 < v | Data _ \<Rightarrow> True)"

lemma nth_at: "drop i b = x # rest \<Longrightarrow> b ! i = x \<and> i < length b"
  by (metis drop_eq_Nil linorder_not_less list.discI nth_via_drop)

lemma pushdata_decode_at:
  assumes b: "drop i b = push_bytes n @ rest" and n: "0 \<le> n" "n < 2 ^ 32"
  shows "\<exists>c. pushdata_decode i b = Inr (Some (c, n, pushdata_encodingLength n))"
proof -
  have len: "length b - i = pushdata_encodingLength n + length rest"
    using arg_cong [OF b, of length] by (simp add: length_push_bytes)
  have first: "Buffer_readUIntLE 1 i b = Inr c" if "drop i b = word_of_int c # rest" "0 \<le> c" "c < 256" for c rest
    using that by (intro readUIntLE_at [where rest = rest]) simp_all
  have more: "Buffer_readUIntLE k (i + 1) b = Inr n"
    if "drop i b = c # le_bytes k n @ rest" "n < 256 ^ k" "0 < k" for c k
    using drop_moved [of i b "[c]" "le_bytes k n @ rest"] that n by (intro readUIntLE_at [where rest = rest]) simp_all
  consider "n < 76" | "76 \<le> n" "n \<le> 255" | "255 < n" "n \<le> 65535" | "65535 < n" by linarith
  then show ?thesis
  proof cases
    case 1
    then show ?thesis using first [of n rest] b n
      by (simp add: pushdata_decode_def push_bytes_def pushdata_encodingLength_def)
  next
    case 2
    then show ?thesis using first [of 76] more [of _ 1] b n len
      by (simp add: pushdata_decode_def push_bytes_def pushdata_encodingLength_def)
  next
    case 3
    then show ?thesis using first [of 77] more [of _ 2] b n len
      by (simp add: pushdata_decode_def push_bytes_def pushdata_encodingLength_def)
  next
    case 4
    then show ?thesis using first [of 78] more [of _ 4] b n len
      by (simp add: pushdata_decode_def push_bytes_def pushdata_encodingLength_def)
  qed
qed

lemma push_bytes_first:
  assumes "0 < n" and "n < 2 ^ 32"
  obtains x bs where "push_bytes n = x # bs" and "0 < uint x" and "uint x \<le> 78"
proof (cases "n < 76")
  case True
  then show ?thesis using that [of "word_of_int n" "[]"] assms by (simp add: push_bytes_def uint_word_of_int)
next
  case False
  then have "push_bytes n = 76 # le_bytes 1 n \<or> push_bytes n = 77 # le_bytes 2 n \<or> push_bytes n = 78 # le_bytes 4 n"
    by (simp add: push_bytes_def)
  then show ?thesis by (elim disjE) (rule that, assumption, simp_all)+
qed

lemma decompile_op:
  assumes "drop i b = word_of_int v # rest" and "v = 0 \<or> 78 < v" and "v < 256"
  shows "decompile_loop b i cs = decompile_loop b (i + 1) (cs @ [Op v])"
proof -
  have "b ! i = word_of_int v" "i < length b" using nth_at [OF assms(1)] by simp_all
  moreover have "uint (word_of_int v :: byte) = v" using assms by (auto simp: uint_word_of_int)
  ultimately show ?thesis using assms(2) by (subst decompile_loop.simps) auto
qed

lemma decompile_chunk:
  assumes b: "drop i b = chunk_bytes c @ rest" and ok: "chunk_ok c" "plain_op c"
  shows "decompile_loop b i cs = decompile_loop b (i + length (chunk_bytes c)) (cs @ [minimal_chunk c])"
proof (cases c)
  case (Op v)
  then show ?thesis using decompile_op [of i b v rest cs] b ok
    by (simp add: chunk_bytes_def minimal_chunk_def chunk_ok_def plain_op_def)
next
  case (Data d)
  show ?thesis
  proof (cases "asMinimalOP d")
    case (Some v)
    then show ?thesis using decompile_op [of i b v rest cs] b Data asMinimalOP_range [OF Some]
      by (auto simp: chunk_bytes_def minimal_chunk_def)
  next
    case None
    let ?n = "int (length d)"
    have n: "0 < ?n" "?n < 2 ^ 32" using None ok Data by (auto simp: asMinimalOP_def chunk_ok_def)
    have b': "drop i b = push_bytes ?n @ d @ rest" using b Data None by (simp add: chunk_bytes_def)
    obtain x bs where x: "push_bytes ?n = x # bs" "0 < uint x" "uint x \<le> 78" by (rule push_bytes_first [OF n])
    have at: "b ! i = x" "i < length b" using nth_at [of i b x] b' x(1) by simp_all
    obtain k where dec: "pushdata_decode i b = Inr (Some (k, ?n, pushdata_encodingLength ?n))"
      using pushdata_decode_at [OF b'] n by auto
    have d: "drop (i + pushdata_encodingLength ?n) b = d @ rest"
      using drop_moved [OF b'] by (simp add: length_push_bytes)
    have "length b - (i + pushdata_encodingLength ?n) = length d + length rest"
      using arg_cong [OF d, of length] by simp
    moreover have "0 < length d" using n by simp
    ultimately have "\<not> length b < i + pushdata_encodingLength ?n + length d" by linarith
    moreover have "length (chunk_bytes c) = pushdata_encodingLength ?n + length d"
      using Data None by (simp add: chunk_bytes_def length_push_bytes)
    ultimately show ?thesis using at x(2,3) dec d Data None
      by (subst decompile_loop.simps) (simp add: minimal_chunk_def add.assoc)
  qed
qed

theorem decompile_chunks:
  assumes "list_all chunk_ok cs" and "list_all plain_op cs" and "drop i b = concat (map chunk_bytes cs)"
  shows "decompile_loop b i acc = Inr (Some (acc @ map minimal_chunk cs))"
  using assms
proof (induction cs arbitrary: i acc)
  case Nil
  then show ?case by (subst decompile_loop.simps) simp
next
  case (Cons c cs)
  have "drop (i + length (chunk_bytes c)) b = concat (map chunk_bytes cs)"
    using drop_moved [of i b "chunk_bytes c" "concat (map chunk_bytes cs)"] Cons.prems by simp
  then show ?case using decompile_chunk [of i b c "concat (map chunk_bytes cs)" acc] Cons by simp
qed

text \<open>What the decompiler returns compiles, and compiled scripts are read back as they are.\<close>

lemma decompile_loop_chunks:
  assumes "decompile_loop b i acc = Inr (Some cs)" and "length b < 2 ^ 32"
    and "list_all chunk_ok acc" and "list_all plain_op acc" and "map minimal_chunk acc = acc"
  shows "list_all chunk_ok cs \<and> list_all plain_op cs \<and> map minimal_chunk cs = cs"
  using assms
proof (induction b i acc rule: decompile_loop.induct)
  case (1 b i acc)
  let ?op = "uint (b ! i)"
  show ?case
  proof (cases "length b \<le> i")
    case True
    then show ?thesis using "1.prems" by (simp add: decompile_loop.simps [of b i])
  next
    case False
    show ?thesis
    proof (cases "?op > 0 \<and> ?op \<le> 78")
      case True
      then obtain d where d: "pushdata_decode i b = Inr d"
        and d': "(case d of None \<Rightarrow> Inr None | Some (_, n, sz) \<Rightarrow>
            let i = i + sz in if int i + n > int (length b) then Inr None
              else let data = take (nat n) (drop i b) in decompile_loop b (i + nat n)
                (acc @ [case asMinimalOP data of Some op \<Rightarrow> Op op | None \<Rightarrow> Data data])) = Inr (Some cs)"
        using "1.prems"(1) False unfolding decompile_loop.simps [of b i acc]
        by (auto simp del: of_nat_add)
      from d' obtain c n sz where s: "d = Some (c, n, sz)"
        and le: "\<not> int (i + sz) + n > int (length b)"
        and rec: "decompile_loop b (i + sz + nat n) (acc @ [case asMinimalOP (take (nat n) (drop (i + sz) b)) of
            Some op \<Rightarrow> Op op | None \<Rightarrow> Data (take (nat n) (drop (i + sz) b))]) = Inr (Some cs)"
        by (auto simp: Let_def split: option.splits if_splits)
      let ?data = "take (nat n) (drop (i + sz) b)"
      let ?c = "case asMinimalOP ?data of Some op \<Rightarrow> Op op | None \<Rightarrow> Data ?data"
      have "length ?data < 2 ^ 32" using "1.prems"(2) by simp
      then have c: "chunk_ok ?c \<and> plain_op ?c \<and> minimal_chunk ?c = ?c"
        using asMinimalOP_range [of ?data]
        by (auto simp: chunk_ok_def plain_op_def minimal_chunk_def split: option.splits)
      show ?thesis
        by (rule "1.IH"(1) [OF False refl True d s refl refl refl le refl rec])
          (use c "1.prems" in simp_all)
    next
      case notpush: False
      then have rec: "decompile_loop b (i + 1) (acc @ [Op ?op]) = Inr (Some cs)"
        using "1.prems"(1) False unfolding decompile_loop.simps [of b i acc] by auto
      have c: "chunk_ok (Op ?op) \<and> plain_op (Op ?op) \<and> minimal_chunk (Op ?op) = Op ?op"
        using notpush uint_bounded [of "b ! i"] uint_ge_0 [of "b ! i"]
        by (auto simp: chunk_ok_def plain_op_def minimal_chunk_def)
      show ?thesis
        by (rule "1.IH"(2) [OF False refl notpush rec]) (use c "1.prems" in simp_all)
    qed
  qed
qed

end
