(* ===== verification/Btc_Sighash_Codec.thy ===== *)
theory Btc_Sighash_Codec
  imports Btc_Sighash Btc_Tx_Codec Btc_Script_Codec Cell_Hash
begin

text \<open>
  What the signing hashes of transaction.ts commit to: the message of each scheme as a concatenation
  of bytes (\<open>legacy_message\<close>, \<open>bip143_message\<close>, \<open>bip341_message\<close>), and the proofs that the code hashes it.
\<close>

section \<open>Full buffers\<close>

lemma written_bytes: "appends f bs \<Longrightarrow> n = length bs \<Longrightarrow> written n f = Inr bs"
  using new_writer_appends [of f bs n]
  by (auto simp: written_def new_BufferWriter_def)

lemma written_full_bytes: "appends f bs \<Longrightarrow> n = length bs \<Longrightarrow> written_full n f = Inr bs"
  using new_writer_appends [of f bs n]
  by (auto simp: written_full_def BufferWriter_withCapacity_def new_BufferWriter_def BufferWriter_end_def)

section \<open>The parts\<close>

definition outpoint_bytes :: "btc_input \<Rightarrow> buffer" where
  "outpoint_bytes i = bi_hash i @ le_bytes 4 (bi_index i)"

lemma appends_outpoint [append_intros]:
  assumes "input_ok i" shows "appends (write_outpoint i) (outpoint_bytes i)"
  unfolding write_outpoint_def [abs_def] outpoint_bytes_def
  by (intro append_intros) (use assms in \<open>simp_all add: input_ok_def is_UInt32_def\<close>)

lemma length_outpoint: "input_ok i \<Longrightarrow> length (outpoint_bytes i) = 36"
  by (simp add: outpoint_bytes_def input_ok_def)

lemma appends_out [append_intros]:
  assumes "output_ok out" and "out \<noteq> BlankOutput" shows "appends (write_out out) (output_bytes out)"
proof (cases out)
  case (Output s v)
  then have "write_out out = (\<lambda>w. bindE (BufferWriter_writeUInt64 v w) (BufferWriter_writeVarSlice s))"
    by (simp add: write_out_def [abs_def])
  then show ?thesis using Output assms by (simp add: output_bytes_def output_ok_def append_intros)
qed (use assms in simp)

lemma appends_sequence:
  "input_ok i \<Longrightarrow> appends (BufferWriter_writeUInt32 (bi_sequence i)) (le_bytes 4 (bi_sequence i))"
  by (intro append_intros) (simp_all add: input_ok_def is_UInt32_def)

lemma outs_size_bytes: "outs_size outs = length (concat (map output_bytes outs))"
  by (simp add: outs_size_def foldl_sum length_concat o_def length_output_bytes add.assoc)

lemma sum_list_const: "(\<And>x. x \<in> set xs \<Longrightarrow> f x = c) \<Longrightarrow> (\<Sum>x\<leftarrow>xs. f x) = c * length xs" for c :: nat
  by (induction xs) simp_all

lemma prevouts_size: "list_all input_ok ins \<Longrightarrow> 36 * length ins = length (concat (map outpoint_bytes ins))"
  by (simp add: length_concat o_def list_all_iff length_outpoint sum_list_const)

lemma sequences_size: "4 * length ins = length (concat (map (\<lambda>i. le_bytes 4 (bi_sequence i)) ins))"
  by (simp add: length_concat o_def sum_list_const)

lemma prevouts_written:
  "list_all input_ok ins \<Longrightarrow> written (36 * length ins) (foldE write_outpoint ins) = Inr (concat (map outpoint_bytes ins))"
  "list_all input_ok ins \<Longrightarrow> written_full (36 * length ins) (foldE write_outpoint ins) = Inr (concat (map outpoint_bytes ins))"
  by (rule written_bytes written_full_bytes, rule appends_fold, rule appends_outpoint, simp add: list_all_iff,
      rule prevouts_size, assumption)+

lemma sequences_written:
  assumes "list_all input_ok ins"
  shows "written (4 * length ins) (foldE (\<lambda>txIn. BufferWriter_writeUInt32 (bi_sequence txIn)) ins) =
      Inr (concat (map (\<lambda>i. le_bytes 4 (bi_sequence i)) ins))"
    and "written_full (4 * length ins) (foldE (\<lambda>txIn. BufferWriter_writeUInt32 (bi_sequence txIn)) ins) =
      Inr (concat (map (\<lambda>i. le_bytes 4 (bi_sequence i)) ins))"
  by (rule written_bytes written_full_bytes, rule appends_fold, rule appends_sequence,
      use assms in \<open>simp add: list_all_iff\<close>, rule sequences_size)+

lemma outs_written:
  assumes "list_all output_ok outs" and "BlankOutput \<notin> set outs"
  shows "written (outs_size outs) (foldE write_out outs) = Inr (concat (map output_bytes outs))"
    and "written_full (outs_size outs) (foldE write_out outs) = Inr (concat (map output_bytes outs))"
  by (rule written_bytes written_full_bytes, rule appends_fold, rule appends_out,
      use assms in \<open>force simp: list_all_iff\<close>, use assms in force, rule outs_size_bytes)+

section \<open>Version 0 witnesses\<close>

definition ht_anyone :: "int \<Rightarrow> bool" where "ht_anyone hashType \<longleftrightarrow> js_and hashType SIGHASH_ANYONECANPAY \<noteq> 0"
definition ht_single :: "int \<Rightarrow> bool" where "ht_single hashType \<longleftrightarrow> js_and hashType 0x1f = SIGHASH_SINGLE"
definition ht_none :: "int \<Rightarrow> bool" where "ht_none hashType \<longleftrightarrow> js_and hashType 0x1f = SIGHASH_NONE"

text \<open>The message of BIP 143; \<open>code\<close> is the script with its length in front.\<close>

definition bip143_message :: "(buffer \<Rightarrow> buffer) \<Rightarrow> nat \<Rightarrow> buffer \<Rightarrow> int \<Rightarrow> int \<Rightarrow> btc_tx \<Rightarrow> buffer" where
  "bip143_message sha i code v hashType tx =
     (let zeros = replicate 32 0; input = bt_ins tx ! i; hash = (\<lambda>bs. sha (sha bs)) in
      le_bytes 4 (bt_version tx) @
      (if ht_anyone hashType then zeros else hash (concat (map outpoint_bytes (bt_ins tx)))) @
      (if ht_anyone hashType \<or> ht_single hashType \<or> ht_none hashType then zeros
       else hash (concat (map (\<lambda>i. le_bytes 4 (bi_sequence i)) (bt_ins tx)))) @
      outpoint_bytes input @ code @ le_bytes 8 v @ le_bytes 4 (bi_sequence input) @
      (if \<not> ht_single hashType \<and> \<not> ht_none hashType then hash (concat (map output_bytes (bt_outs tx)))
       else if ht_single hashType \<and> i < length (bt_outs tx) then hash (output_bytes (bt_outs tx ! i)) else zeros) @
      le_bytes 4 (bt_locktime tx) @ le_bytes 4 hashType)"

lemma ht_single_not_none: "ht_single hashType \<Longrightarrow> \<not> ht_none hashType"
  by (simp add: ht_single_def ht_none_def SIGHASH_SINGLE_def SIGHASH_NONE_def)

lemma output_at:
  assumes "tx_ok tx" "no_blank tx" "i < length (bt_outs tx)"
  shows "output_ok (bt_outs tx ! i)" "bt_outs tx ! i \<noteq> BlankOutput"
  using assms nth_mem [of i "bt_outs tx"]
  by (auto simp: tx_ok_def no_blank_def list_all_iff simp del: nth_mem)

lemma hashes_v0:
  assumes ok: "tx_ok tx" "no_blank tx"
  shows "hash_prevouts_v0 sha hashType tx =
      Inr (if ht_anyone hashType then replicate 32 0 else sha (sha (concat (map outpoint_bytes (bt_ins tx)))))"
    and "hash_sequence_v0 sha hashType tx =
      Inr (if ht_anyone hashType \<or> ht_single hashType \<or> ht_none hashType then replicate 32 0
        else sha (sha (concat (map (\<lambda>i. le_bytes 4 (bi_sequence i)) (bt_ins tx)))))"
    and "hash_outputs_v0 sha i hashType tx =
      Inr (if \<not> ht_single hashType \<and> \<not> ht_none hashType then sha (sha (concat (map output_bytes (bt_outs tx))))
       else if ht_single hashType \<and> i < length (bt_outs tx) then sha (sha (output_bytes (bt_outs tx ! i))) else replicate 32 0)"
  subgoal
    using ok prevouts_written(1) [of "bt_ins tx"]
    by (auto simp: hash_prevouts_v0_def prevouts_bytes_def ht_anyone_def hash256_def tx_ok_def)
  subgoal
    using ok sequences_written(1) [of "bt_ins tx"]
    by (auto simp: hash_sequence_v0_def sequences_bytes_def ht_anyone_def ht_single_def ht_none_def hash256_def tx_ok_def)
  subgoal
    using ok outs_written(1) [of "bt_outs tx"] outs_written(1) [of "[bt_outs tx ! i]"] output_at [OF ok, of i]
    by (auto simp: hash_outputs_v0_def outs_bytes_def ht_single_def ht_none_def hash256_def tx_ok_def no_blank_def)
  done

theorem witness_preimage_message:
  assumes ok: "tx_ok tx" "no_blank tx" and i: "i < length (bt_ins tx)" and ht: "is_UInt32 hashType"
    and v: "0 \<le> v" "v < 2 ^ 53" and sha: "sha_ok sha" and code: "appends f code" and n: "n = 156 + length code"
  shows "witness_preimage_v0 sha i n f v hashType tx = Inr (bip143_message sha i code v hashType tx)"
proof -
  have input: "input_ok (bt_ins tx ! i)" using ok i by (simp add: tx_ok_def list_all_length)
  have l32: "length (sha b) = 32" for b using sha by (simp add: sha_ok_def)
  have at: "(i \<ge> length (bt_ins tx)) = False" using i by simp
  show ?thesis
    unfolding witness_preimage_v0_def hashes_v0 [OF ok] bindE_simps
    apply (rule written_bytes)
    subgoal
      unfolding at if_False Let_def bip143_message_def outpoint_bytes_def append_assoc
      by (intro append_intros code) (use input ok ht v in \<open>simp_all add: input_ok_def is_UInt32_def tx_ok_def\<close>)
    subgoal using n by (simp add: bip143_message_def Let_def l32 length_outpoint [OF input])
    done
qed

section \<open>The original scheme\<close>

text \<open>The script without its separators, every push minimal.\<close>

definition signed_script :: "script_chunk list \<Rightarrow> buffer" where
  "signed_script chunks = concat (map chunk_bytes (filter (\<lambda>x. x \<noteq> Op 171) chunks))"

lemma signed_script_compiled:
  assumes "script_decompile s = Inr (Some chunks)" and "length s < 2 ^ 32"
  shows "script_compile (filter (\<lambda>x. x \<noteq> Op 171) chunks) = Inr (signed_script chunks)"
proof -
  have "list_all chunk_ok chunks" using decompile_loop_chunks [of s 0 "[]" chunks] assms by (simp add: script_decompile_def)
  then have "list_all chunk_ok (filter (\<lambda>x. x \<noteq> Op 171) chunks)" by (simp add: list_all_iff)
  then show ?thesis unfolding signed_script_def by (rule script_compile_bytes)
qed

lemma input_ok_sequence: "input_ok i \<Longrightarrow> input_ok (i\<lparr>bi_sequence := 0\<rparr>)"
  and input_ok_script: "input_ok i \<Longrightarrow> slice_ok s \<Longrightarrow> input_ok (i\<lparr>bi_script := s\<rparr>)"
  by (simp_all add: input_ok_def is_UInt32_def)

lemma zero_sequences_ok: "list_all input_ok ins \<Longrightarrow> list_all input_ok (zero_sequences k ins)"
  by (auto simp: list_all_iff zero_sequences_def enumerate_eq_zip input_ok_sequence dest: set_zip_rightD)

lemma length_zero_sequences [simp]: "length (zero_sequences k ins) = length ins"
  by (simp add: zero_sequences_def)

lemma blank_ok [simp]: "output_ok BlankOutput" by (simp add: output_ok_def)

lemma sighash_copy_ok:
  assumes ok: "tx_ok tx" and i: "i < length (bt_ins tx)" and s: "slice_ok s"
  shows "tx_ok (sighash_copy i s ht tx)"
proof -
  have ok': "list_all input_ok (bt_ins tx)" "list_all output_ok (bt_outs tx)" "length (bt_ins tx) < 2 ^ 53"
    "length (bt_outs tx) < 2 ^ 53" using ok by (simp_all add: tx_ok_def)
  define a where "a = (if js_and ht 0x1f = SIGHASH_NONE then tx\<lparr>bt_outs := [], bt_ins := zero_sequences i (bt_ins tx)\<rparr>
    else if js_and ht 0x1f = SIGHASH_SINGLE
    then tx\<lparr>bt_outs := replicate i BlankOutput @ take 1 (drop i (bt_outs tx)), bt_ins := zero_sequences i (bt_ins tx)\<rparr>
    else tx)"
  have "list_all output_ok (replicate i BlankOutput @ take 1 (drop i (bt_outs tx)))"
    using ok'(2) by (auto simp: list_all_iff dest: in_set_takeD in_set_dropD)
  moreover have "length (replicate i BlankOutput @ take 1 (drop i (bt_outs tx))) < 2 ^ 53" using i ok' by (auto simp: min_def)
  ultimately have a: "tx_ok a" "length (bt_ins a) = length (bt_ins tx)"
    using ok ok' zero_sequences_ok [OF ok'(1), of i] unfolding a_def by (auto simp: tx_ok_def)
  have at: "input_ok ((bt_ins a ! i)\<lparr>bi_script := s\<rparr>)"
    using a i s by (intro input_ok_script) (simp_all add: tx_ok_def list_all_length)
  have blank: "list_all input_ok (map (\<lambda>input. input\<lparr>bi_script := []\<rparr>) (bt_ins a))"
    using a(1) by (auto simp: tx_ok_def list_all_iff slice_ok_def intro!: input_ok_script)
  have set: "list_all input_ok ((map (\<lambda>input. input\<lparr>bi_script := []\<rparr>) (bt_ins a)) [i := (bt_ins a ! i)\<lparr>bi_script := s\<rparr>])"
    using blank at set_update_subset_insert [of "map (\<lambda>input. input\<lparr>bi_script := []\<rparr>) (bt_ins a)" i]
    by (auto simp: list_all_iff)
  show ?thesis
    unfolding sighash_copy_def Let_def a_def [symmetric] using a at set by (simp add: tx_ok_def)
qed

text \<open>The message: the changed copy without witnesses, and the hash type behind it.\<close>

definition legacy_message :: "nat \<Rightarrow> buffer \<Rightarrow> int \<Rightarrow> btc_tx \<Rightarrow> buffer" where
  "legacy_message i ourScript hashType tx =
     tx_bytes False (sighash_copy i ourScript hashType tx) @ le_bytes 4 hashType"

lemma Transaction_into_legacy:
  assumes ok: "tx_ok t" and ht: "- (2 ^ 31) \<le> hashType" "hashType < 2 ^ 31"
  shows "bindE (Buffer_writeIntLE 4 hashType (Transaction_byteLength False t) (buf_alloc (Transaction_byteLength False t + 4)))
      (\<lambda>buf. bindE (Transaction_into buf 0 False t) (\<lambda>w. Inr (hash256 sha (bw_buffer w)))) =
    Inr (hash256 sha (tx_bytes False t @ le_bytes 4 hashType))"
proof -
  have n: "Transaction_byteLength False t = length (tx_bytes False t)"
    using ok by (intro byteLength_tx_bytes) (simp add: tx_ok_def)
  let ?b = "take (length (tx_bytes False t)) (buf_alloc (length (tx_bytes False t) + 4)) @ le_bytes 4 hashType"
  have "Buffer_writeIntLE 4 hashType (length (tx_bytes False t)) (buf_alloc (length (tx_bytes False t) + 4)) = Inr ?b"
    using ht by (simp add: Buffer_writeIntLE_def Buffer_put_def)
  moreover have "Transaction_into ?b 0 False t = Inr (bw_put (tx_bytes False t) \<lparr>bw_buffer = ?b, bw_offset = 0\<rparr>)"
    by (rule Transaction_into_bytes [OF ok]) simp_all
  moreover have "bw_buffer (bw_put (tx_bytes False t) \<lparr>bw_buffer = ?b, bw_offset = 0\<rparr>) = tx_bytes False t @ le_bytes 4 hashType"
    by (simp add: bw_put_def)
  ultimately show ?thesis unfolding n by simp
qed

lemma hashForSignature_message:
  assumes ok: "tx_ok tx" and ht: "- (2 ^ 31) \<le> hashType" "hashType < 2 ^ 31"
    and i: "i < length (bt_ins tx)" "int i < 2 ^ 32" and single: "ht_single hashType \<Longrightarrow> i < length (bt_outs tx)"
    and s: "script_decompile s = Inr (Some chunks)" "length s < 2 ^ 32" "slice_ok (signed_script chunks)"
  shows "Transaction_hashForSignature sha i s hashType tx =
    Inr (hash256 sha (legacy_message i (signed_script chunks) hashType tx))"
proof -
  let ?t = "sighash_copy i (signed_script chunks) hashType tx"
  have t: "tx_ok ?t" by (rule sighash_copy_ok [OF ok i(1) s(3)])
  have g: "(\<not> is_UInt32 (int i)) = False" "(i \<ge> length (bt_ins tx)) = False"
    "(js_and hashType 0x1f = SIGHASH_SINGLE \<and> i \<ge> length (bt_outs tx)) = False"
    using i single by (auto simp: is_UInt32_def ht_single_def)
  show ?thesis
    unfolding Transaction_hashForSignature_def g if_False s(1) bindE_simps option.case signed_script_compiled [OF s(1,2)]
      Let_def add_diff_cancel_right' Transaction_into_legacy [OF t ht] legacy_message_def ..
qed

section \<open>Version 1 witnesses\<close>

text \<open>
  The message of BIP 341, behind the epoch byte: the parts of all inputs are hashed unless only
  this one is signed, in which case its own parts are written in full.
\<close>

definition bip341_message ::
    "(buffer \<Rightarrow> buffer) \<Rightarrow> nat \<Rightarrow> buffer list \<Rightarrow> int list \<Rightarrow> int \<Rightarrow> buffer option \<Rightarrow> buffer option \<Rightarrow> btc_tx \<Rightarrow> buffer" where
  "bip341_message sha i scripts amounts hashType leafHash annex tx =
     (let outputType = (if hashType = 0 then 1 else js_and hashType 3);
          anyone = (js_and hashType SIGHASH_ANYONECANPAY = SIGHASH_ANYONECANPAY);
          none = (outputType = SIGHASH_NONE); single = (outputType = SIGHASH_SINGLE);
          input = bt_ins tx ! i
      in le_bytes 1 hashType @ le_bytes 4 (bt_version tx) @ le_bytes 4 (bt_locktime tx) @
         (if anyone then []
          else sha (concat (map outpoint_bytes (bt_ins tx))) @ sha (concat (map (le_bytes 8) amounts)) @
               sha (concat (map var_slice scripts)) @ sha (concat (map (\<lambda>i. le_bytes 4 (bi_sequence i)) (bt_ins tx)))) @
         (if \<not> (none \<or> single) then sha (concat (map output_bytes (bt_outs tx))) else []) @
         le_bytes 1 ((if leafHash \<noteq> None then 2 else 0) + (if annex \<noteq> None then 1 else 0)) @
         (if anyone
          then outpoint_bytes input @ le_bytes 8 (amounts ! i) @ var_slice (scripts ! i) @ le_bytes 4 (bi_sequence input)
          else le_bytes 4 (int i)) @
         (case annex of Some a \<Rightarrow> sha (var_slice a) | None \<Rightarrow> []) @
         (if single then sha (output_bytes (bt_outs tx ! i)) else []) @
         (case leafHash of Some h \<Rightarrow> h @ le_bytes 1 0 @ le_bytes 4 0xffffffff | None \<Rightarrow> []))"

lemma v1_outputs_bytes:
  assumes ok: "tx_ok tx" "no_blank tx" and outs: "\<not> (none \<or> single) \<Longrightarrow> bt_outs tx \<noteq> []"
    and i: "single \<Longrightarrow> i < length (bt_outs tx)"
  shows "v1_outputs sha i none single tx =
    Inr (if \<not> (none \<or> single) then sha (concat (map output_bytes (bt_outs tx)))
         else if single then sha (output_bytes (bt_outs tx ! i)) else [])"
proof -
  have "single \<Longrightarrow> written_full (outs_size [bt_outs tx ! i]) (write_out (bt_outs tx ! i)) = Inr (output_bytes (bt_outs tx ! i))"
    by (rule written_full_bytes, rule appends_out) (use output_at [OF ok] i in \<open>simp_all add: outs_size_bytes\<close>)
  then show ?thesis using ok outs i outs_written(2) [of "bt_outs tx"]
    by (auto simp: v1_outputs_def tx_ok_def no_blank_def)
qed

lemma appends_some:
  "(\<And>a. x = Some a \<Longrightarrow> appends (f a) (g a)) \<Longrightarrow> (x = None \<Longrightarrow> appends h bs) \<Longrightarrow>
   appends (\<lambda>w. case x of Some a \<Rightarrow> f a w | None \<Rightarrow> h w) (case x of Some a \<Rightarrow> g a | None \<Rightarrow> bs)"
  by (cases x) simp_all

text \<open>The conditions under which the message exists.\<close>

definition v1_ok :: "nat \<Rightarrow> buffer list \<Rightarrow> int list \<Rightarrow> int \<Rightarrow> buffer option \<Rightarrow> buffer option \<Rightarrow> btc_tx \<Rightarrow> bool" where
  "v1_ok i scripts amounts hashType leafHash annex tx \<longleftrightarrow>
     tx_ok tx \<and> no_blank tx \<and> i < length (bt_ins tx) \<and> int i < 2 ^ 32 \<and>
     length scripts = length (bt_ins tx) \<and> length amounts = length (bt_ins tx) \<and>
     list_all slice_ok scripts \<and> list_all Satoshi amounts \<and> 0 \<le> hashType \<and> hashType < 256 \<and>
     (let outputType = (if hashType = 0 then 1 else js_and hashType 3) in
      (outputType \<noteq> SIGHASH_NONE \<and> outputType \<noteq> SIGHASH_SINGLE \<longrightarrow> bt_outs tx \<noteq> []) \<and>
      (outputType = SIGHASH_SINGLE \<longrightarrow> i < length (bt_outs tx))) \<and>
     (js_and hashType SIGHASH_ANYONECANPAY = SIGHASH_ANYONECANPAY \<longrightarrow> length (scripts ! i) = 34) \<and>
     (\<forall>h \<in> set_option leafHash. length h = 32) \<and> (\<forall>a \<in> set_option annex. slice_ok a)"

lemma amounts_written:
  assumes "list_all Satoshi amounts" and "n = length amounts"
  shows "written_full (8 * n) (foldE BufferWriter_writeUInt64 amounts) = Inr (concat (map (le_bytes 8) amounts))"
  by (rule written_full_bytes, rule appends_fold, rule append_intros)
    (use assms in \<open>auto simp: list_all_iff Satoshi_def length_concat o_def sum_list_const\<close>)

lemma scripts_written:
  assumes "list_all slice_ok scripts"
  shows "written_full (sum_list (map varSliceSize scripts)) (foldE BufferWriter_writeVarSlice scripts) =
    Inr (concat (map var_slice scripts))"
  by (rule written_full_bytes, rule appends_fold, rule append_intros)
    (use assms in \<open>auto simp: list_all_iff length_concat o_def length_var_slice\<close>)

lemma v1_inputs:
  assumes "v1_ok i scripts amounts hashType leafHash annex tx"
  shows "(if acp then Inr ([], [], [], [])
      else bindE (written_full (36 * length (bt_ins tx)) (foldE write_outpoint (bt_ins tx))) (\<lambda>a.
           bindE (written_full (8 * length (bt_ins tx)) (foldE BufferWriter_writeUInt64 amounts)) (\<lambda>b.
           bindE (if scripts = [] then Inl TypeErr
                  else written_full (sum_list (map varSliceSize scripts)) (foldE BufferWriter_writeVarSlice scripts)) (\<lambda>c.
           bindE (written_full (4 * length (bt_ins tx))
               (foldE (\<lambda>txIn. BufferWriter_writeUInt32 (bi_sequence txIn)) (bt_ins tx))) (\<lambda>d.
           Inr (sha a, sha b, sha c, sha d)))))) =
    Inr (if acp then ([], [], [], [])
      else (sha (concat (map outpoint_bytes (bt_ins tx))), sha (concat (map (le_bytes 8) amounts)),
            sha (concat (map var_slice scripts)), sha (concat (map (\<lambda>i. le_bytes 4 (bi_sequence i)) (bt_ins tx)))))"
proof -
  have "scripts \<noteq> []" "list_all input_ok (bt_ins tx)" "list_all Satoshi amounts" "length (bt_ins tx) = length amounts"
    "list_all slice_ok scripts"
    using assms by (auto simp: v1_ok_def tx_ok_def)
  then show ?thesis
    using prevouts_written(2) [of "bt_ins tx"] sequences_written(2) [of "bt_ins tx"] amounts_written [of amounts]
      scripts_written [of scripts] by simp
qed

lemma v1_input_appended:
  assumes ok: "v1_ok i scripts amounts hashType leafHash annex tx"
  shows "appends (\<lambda>w. if acp
      then if i \<ge> length (bt_ins tx) then Inl TypeErr
           else let input = bt_ins tx ! i
           in bindE (BufferWriter_writeSlice (bi_hash input) w) (\<lambda>w.
              bindE (BufferWriter_writeUInt32 (bi_index input) w) (\<lambda>w.
              bindE (BufferWriter_writeUInt64 (amounts ! i) w) (\<lambda>w.
              bindE (BufferWriter_writeVarSlice (scripts ! i) w)
                (BufferWriter_writeUInt32 (bi_sequence input)))))
      else BufferWriter_writeUInt32 (int i) w)
    (if acp
     then outpoint_bytes (bt_ins tx ! i) @ le_bytes 8 (amounts ! i) @ var_slice (scripts ! i) @
       le_bytes 4 (bi_sequence (bt_ins tx ! i))
     else le_bytes 4 (int i))"
proof -
  have at: "(i \<ge> length (bt_ins tx)) = False" using ok by (simp add: v1_ok_def)
  have "input_ok (bt_ins tx ! i)" "Satoshi (amounts ! i)" "slice_ok (scripts ! i)" "int i < 2 ^ 32"
    using ok by (simp_all add: v1_ok_def tx_ok_def list_all_length)
  then show ?thesis
    unfolding at if_False Let_def outpoint_bytes_def append_assoc
    by (intro append_intros) (simp_all add: input_ok_def is_UInt32_def Satoshi_def)
qed

lemma v1_annex_appended:
  assumes ok: "v1_ok i scripts amounts hashType leafHash annex tx"
  shows "appends (\<lambda>w. case annex of
        Some a \<Rightarrow> bindE (written_full (varSliceSize a) (BufferWriter_writeVarSlice a)) (\<lambda>b. BufferWriter_writeSlice (sha b) w)
      | None \<Rightarrow> Inr w) (case annex of Some a \<Rightarrow> sha (var_slice a) | None \<Rightarrow> [])"
proof (rule appends_some)
  fix a assume "annex = Some a"
  then have "slice_ok a" using ok by (simp add: v1_ok_def)
  then have "written_full (varSliceSize a) (BufferWriter_writeVarSlice a) = Inr (var_slice a)"
    by (intro written_full_bytes append_intros) (simp_all add: length_var_slice)
  then show "appends (\<lambda>w. bindE (written_full (varSliceSize a) (BufferWriter_writeVarSlice a))
      (\<lambda>b. BufferWriter_writeSlice (sha b) w)) (sha (var_slice a))"
    by (simp add: append_intros)
qed (rule append_intros)

lemma v1_leaf_appended:
  "appends (\<lambda>w. case leafHash of
      Some h \<Rightarrow> bindE (BufferWriter_writeSlice h w) (\<lambda>w.
                bindE (BufferWriter_writeUInt8 0 w) (BufferWriter_writeUInt32 0xffffffff))
    | None \<Rightarrow> Inr w)
   (case leafHash of Some h \<Rightarrow> h @ le_bytes 1 0 @ le_bytes 4 0xffffffff | None \<Rightarrow> [])"
  by (rule appends_some; intro append_intros; simp)

lemma if_prod: "(if b then (w, x, y, z) else (w', x', y', z')) = (if b then w else w', if b then x else x', if b then y else y', if b then z else z')"
  by simp

theorem hashForWitnessV1_message:
  assumes ok: "v1_ok i scripts amounts hashType leafHash annex tx" and sha: "sha_ok sha"
  shows "Transaction_hashForWitnessV1 sha tag i scripts amounts hashType leafHash annex tx =
    Inr (taggedHash sha tag ([0] @ bip341_message sha i scripts amounts hashType leafHash annex tx))"
proof -
  have l32: "length (sha b) = 32" for b using sha by (simp add: sha_ok_def)
  define ot where "ot = (if hashType = 0 then 1 else js_and hashType 3)"
  define acp where "acp = (js_and hashType SIGHASH_ANYONECANPAY = SIGHASH_ANYONECANPAY)"
  note o = ok [unfolded v1_ok_def Let_def, folded ot_def acp_def]
  have tx: "tx_ok tx" "no_blank tx" using o by simp_all
  have input: "input_ok (bt_ins tx ! i)" "length (scripts ! i) = 34" if acp
    using o that by (simp_all add: tx_ok_def list_all_length)
  have guards: "(\<not> is_UInt32 (int i) \<or> (\<exists>v \<in> set amounts. \<not> Satoshi v) \<or> \<not> is_UInt32 hashType) = False"
    "(length amounts \<noteq> length (bt_ins tx) \<or> length scripts \<noteq> length (bt_ins tx)) = False"
    using o by (auto simp: is_UInt32_def list_all_iff)
  have outs: "v1_outputs sha i (ot = SIGHASH_NONE) (ot = SIGHASH_SINGLE) tx =
      Inr (if \<not> (ot = SIGHASH_NONE \<or> ot = SIGHASH_SINGLE) then sha (concat (map output_bytes (bt_outs tx)))
           else if ot = SIGHASH_SINGLE then sha (output_bytes (bt_outs tx ! i)) else [])"
    by (rule v1_outputs_bytes [OF tx]) (use o in auto)
  have size: "174 - (if acp then 49 else 0) - (if ot = SIGHASH_NONE then 32 else 0) +
      (if annex \<noteq> None then 32 else 0) + (if leafHash \<noteq> None then 37 else 0) =
      length (bip341_message sha i scripts amounts hashType leafHash annex tx)"
    using input o
    by (auto simp: bip341_message_def Let_def l32 length_outpoint length_var_slice varSliceSize_def varuint_size_def
        SIGHASH_NONE_def SIGHASH_SINGLE_def simp flip: ot_def acp_def split: option.split)
  have message: "bip341_message sha i scripts amounts hashType leafHash annex tx =
      le_bytes 1 hashType @ le_bytes 4 (bt_version tx) @ le_bytes 4 (bt_locktime tx) @
      (if acp then [] else sha (concat (map outpoint_bytes (bt_ins tx)))) @
      (if acp then [] else sha (concat (map (le_bytes 8) amounts))) @
      (if acp then [] else sha (concat (map var_slice scripts))) @
      (if acp then [] else sha (concat (map (\<lambda>i. le_bytes 4 (bi_sequence i)) (bt_ins tx)))) @
      (if \<not> (ot = SIGHASH_NONE \<or> ot = SIGHASH_SINGLE)
       then if \<not> (ot = SIGHASH_NONE \<or> ot = SIGHASH_SINGLE) then sha (concat (map output_bytes (bt_outs tx)))
            else if ot = SIGHASH_SINGLE then sha (output_bytes (bt_outs tx ! i)) else []
       else []) @
      le_bytes 1 ((if leafHash \<noteq> None then 2 else 0) + (if annex \<noteq> None then 1 else 0)) @
      (if acp
       then outpoint_bytes (bt_ins tx ! i) @ le_bytes 8 (amounts ! i) @ var_slice (scripts ! i) @
         le_bytes 4 (bi_sequence (bt_ins tx ! i))
       else le_bytes 4 (int i)) @
      (case annex of Some a \<Rightarrow> sha (var_slice a) | None \<Rightarrow> []) @
      (if ot = SIGHASH_SINGLE
       then if \<not> (ot = SIGHASH_NONE \<or> ot = SIGHASH_SINGLE) then sha (concat (map output_bytes (bt_outs tx)))
            else if ot = SIGHASH_SINGLE then sha (output_bytes (bt_outs tx ! i)) else []
       else []) @
      (case leafHash of Some h \<Rightarrow> h @ le_bytes 1 0 @ le_bytes 4 0xffffffff | None \<Rightarrow> [])"
    unfolding bip341_message_def Let_def ot_def [symmetric] acp_def [symmetric]
    by (cases acp) (simp_all del: le_bytes.simps)
  show ?thesis
    unfolding Transaction_hashForWitnessV1_def guards if_False Let_def ot_def [symmetric] acp_def [symmetric]
      v1_inputs [OF ok] bindE_simps if_prod split outs
    apply (subst written_full_bytes [where bs = "bip341_message sha i scripts amounts hashType leafHash annex tx"])
    subgoal
      unfolding message
      by (intro v1_input_appended [OF ok, unfolded Let_def] v1_annex_appended [OF ok] v1_leaf_appended append_intros)
        (use o in \<open>auto simp: tx_ok_def is_UInt32_def\<close>)
    subgoal by (rule size)
    subgoal by simp
    done
qed

end
