(* ===== verification/Btc_Der.thy ===== *)
theory Btc_Der
  imports Btc_Script
begin

text \<open>
  Signatures: the DER form of bip66.ts as a concatenation of bytes, its reader as the inverse of its
  writer, and the 64-byte form with a hash type of script\_signature.ts.
\<close>

section \<open>The DER form\<close>

definition der_bytes :: "buffer \<Rightarrow> buffer \<Rightarrow> buffer" where
  "der_bytes r s =
     [0x30, word_of_int (4 + int (length r) + int (length s)), 2, word_of_int (int (length r))] @ r @
     [2, word_of_int (int (length s))] @ s"

text \<open>A number in the form DER asks for: not empty, not negative, no zero that is not needed.\<close>

definition der_int :: "buffer \<Rightarrow> bool" where
  "der_int x \<longleftrightarrow> x \<noteq> [] \<and> js_and (uint (x ! 0)) 0x80 = 0 \<and>
     \<not> (length x > 1 \<and> uint (x ! 0) = 0 \<and> js_and (uint (x ! 1)) 0x80 = 0)"

lemma buf_set_nth: "i < length b \<Longrightarrow> buf_set b (int i) v = b[i := word_of_int v]"
  by (simp add: buf_set_def)

lemma buf_get_nth: "i < length b \<Longrightarrow> buf_get b (int i) = b ! i"
  by (simp add: buf_get_def)

lemma encode_buffer:
  assumes n: "n = 6 + length r + length s"
  shows "(let sig = buf_alloc n; sig = buf_set sig 0 0x30; sig = buf_set sig 1 (int n - 2); sig = buf_set sig 2 0x02;
      sig = buf_set sig 3 (int (length r)); sig = buf_copy r sig 4; sig = buf_set sig (int (4 + length r)) 0x02;
      sig = buf_set sig (int (5 + length r)) (int (length s))
    in buf_copy s sig (6 + length r)) = der_bytes r s"
proof -
  have a: "buf_alloc n = 0 # 0 # 0 # 0 # replicate (length r) 0 @ 0 # 0 # replicate (length s) 0"
  proof -
    have "n = 4 + (length r + (2 + length s))" using n by simp
    then show ?thesis by (simp only: buf_alloc_def replicate_add) (simp add: numeral_eq_Suc)
  qed
  have head: "buf_set (buf_set (buf_set (buf_set (buf_alloc n) 0 0x30) 1 (int n - 2)) 2 0x02) 3 (int (length r)) =
      [0x30, word_of_int (int n - 2), 2, word_of_int (int (length r))] @ replicate (length r) 0 @ 0 # 0 # replicate (length s) 0"
    unfolding a by (simp add: buf_set_def numeral_eq_Suc)
  show ?thesis unfolding Let_def head
    by (simp add: buf_copy_def buf_set_def der_bytes_def n numeral_eq_Suc list_update_append nat_add_distrib
        algebra_simps)
qed

lemma bip66_encode_bytes:
  "bip66_encode r s = Inr b \<longleftrightarrow> der_int r \<and> der_int s \<and> length r \<le> 33 \<and> length s \<le> 33 \<and> b = der_bytes r s"
  unfolding bip66_encode_def Let_def encode_buffer [unfolded Let_def, OF refl]
  by (auto simp: der_int_def buf_get_def)

text \<open>The reader takes exactly such bytes with numbers of that form.\<close>

lemma der_bytes_nth:
  fixes r s :: buffer and i :: nat
  defines "b \<equiv> der_bytes r s"
  shows "length b = 6 + length r + length s" "b ! 0 = 0x30" "b ! 1 = word_of_int (4 + int (length r) + int (length s))"
    "b ! 2 = 2" "b ! 3 = word_of_int (int (length r))" "b ! (4 + length r) = 2"
    "b ! (5 + length r) = word_of_int (int (length s))"
    "i < length r \<Longrightarrow> b ! (4 + i) = r ! i" "i < length s \<Longrightarrow> b ! (6 + length r + i) = s ! i"
    "take (length r) (drop 4 b) = r" "drop (6 + length r) b = s"
  by (simp_all add: b_def der_bytes_def nth_append numeral_eq_Suc)

lemma uint_of_length: "n < 256 \<Longrightarrow> uint (word_of_int (int n) :: byte) = int n"
  by (simp add: unsigned_of_nat take_bit_nat_eq_self)

lemma bip66_decode_bytes:
  assumes r: "der_int r" "length r \<le> 33" and s: "der_int s" "length s \<le> 33"
  shows "bip66_decode (der_bytes r s) = Inr (r, s)" and "bip66_check (der_bytes r s)"
proof -
  let ?b = "der_bytes r s"
  note nth = der_bytes_nth [where r = r and s = s]
  have len: "length ?b = 6 + length r + length s" by (rule nth(1))
  have pos: "0 < length r" "0 < length s" using r s by (simp_all add: der_int_def)
  have two: "2 \<le> length r + length s" using pos by linarith
  have at: "byte_at ?b i = uint (?b ! i)" if "i < 6 + length r + length s" for i
    using that len by (simp add: buf_get_nth)
  have u: "uint (?b ! 1) = int (length ?b) - 2"
    using r s uint_of_length [of "4 + length r + length s"] unfolding nth(3) len by simp
  have l: "uint (?b ! 3) = int (length r)" "uint (?b ! (5 + length r)) = int (length s)"
    using r s uint_of_length unfolding nth(5,7) by simp_all
  have r0: "uint (?b ! 4) = uint (r ! 0)" using nth(8) [where i = 0] pos by simp
  have r1: "uint (?b ! 5) = uint (r ! 1)" if "1 < length r" using nth(8) [where i = 1] that by simp
  have s0: "uint (?b ! (length r + 6)) = uint (s ! 0)" using nth(9) [where i = 0] pos by (simp add: add.commute)
  have s1: "uint (?b ! (length r + 7)) = uint (s ! 1)" if "1 < length s"
    using nth(9) [where i = 1] that by (simp add: add.commute)
  have z: "uint (?b ! 0) = 0x30" "uint (?b ! 2) = 2" "uint (?b ! (4 + length r)) = 2" using nth(2,4,6) by simp_all
  have sub: "buf_subarray ?b 4 (int (4 + length r)) = r" "buf_subarray ?b (int (6 + length r)) (int (length ?b)) = s"
    using buf_subarray_inside [of 4 "4 + length r" ?b] buf_subarray_inside [of "6 + length r" "length ?b" ?b] nth(10,11) len
    by simp_all
  have bs: "byte_at ?b 0 = 0x30" "byte_at ?b 1 = int (length ?b) - 2" "byte_at ?b 2 = 2" "byte_at ?b 3 = int (length r)"
    "byte_at ?b (4 + length r) = 2" "byte_at ?b (5 + length r) = int (length s)" "byte_at ?b 4 = uint (r ! 0)"
    "byte_at ?b (length r + 6) = uint (s ! 0)"
    "1 < length r \<Longrightarrow> byte_at ?b 5 = uint (r ! 1)" "1 < length s \<Longrightarrow> byte_at ?b (length r + 7) = uint (s ! 1)"
    using at [of 0] at [of 1] at [of 2] at [of 3] at [of 4] at [of 5] at [of "4 + length r"] at [of "5 + length r"]
      at [of "length r + 6"] at [of "length r + 7"] z u l r0 r1 s0 s1 pos by simp_all
  show "bip66_decode ?b = Inr (r, s)"
    unfolding bip66_decode_def Let_def bs(1-4) nat_int bs(5,6) sub bs(7,8)
    using bs(9,10) r s pos two len by (auto simp: der_int_def)
  show "bip66_check ?b"
    unfolding bip66_check_def Let_def bs(1-4) nat_int bs(5,6) bs(7,8)
    using bs(9,10) r s pos two len by (auto simp: der_int_def)
qed

text \<open>The check accepts exactly what the reader accepts.\<close>

lemma bip66_check_decode: "bip66_check b \<longleftrightarrow> (\<exists>r s. bip66_decode b = Inr (r, s))"
  unfolding bip66_check_def bip66_decode_def Let_def by simp

section \<open>Numbers of 32 bytes\<close>

lemma high_bit: "js_and (uint (b :: byte)) 0x80 \<noteq> 0 \<longleftrightarrow> 128 \<le> uint b"
proof -
  have b: "0 \<le> uint b" "uint b < 256" using uint_bounded [of b] by simp_all
  then have "js_and (uint b) 0x80 = uint b AND 2 ^ 7" by (simp add: js_and_def to_int32_def)
  also have "\<dots> \<noteq> 0 \<longleftrightarrow> odd (uint b div 128)" 
    using and_exp_eq_0_iff_not_bit [of "uint b" 7] by (simp add: bit_iff_odd)
  also have "\<dots> \<longleftrightarrow> 128 \<le> uint b" using b by presburger
  finally show ?thesis .
qed

lemma toDER_der_int: "der_int (toDER x)"
proof (cases "dropWhile (\<lambda>b. b = 0) x")
  case Nil
  then show ?thesis by (simp add: toDER_def der_int_def js_and_def to_int32_def)
next
  case (Cons b bs)
  then have "b \<noteq> 0" using hd_dropWhile [of "\<lambda>b. b = 0" x] by auto
  then have "uint b \<noteq> 0" by (simp add: uint_0_iff)
  moreover have "js_and 0 128 = 0" by (simp add: js_and_def to_int32_def)
  ultimately show ?thesis using Cons by (auto simp: toDER_def der_int_def buf_get_def Let_def)
qed

lemma length_dropWhile_bound: "length (dropWhile P x) \<le> length x"
  by (induction x) simp_all

lemma toDER_length: "length (toDER x) \<le> max 1 (length x + 1)"
  using length_dropWhile_bound [of "\<lambda>b. b = 0" x] by (auto simp: toDER_def Let_def)

lemma dropWhile_zeros: "x = replicate (length x - length (dropWhile (\<lambda>b. b = 0) x)) 0 @ dropWhile (\<lambda>b. b = (0 :: byte)) x"
proof -
  let ?t = "takeWhile (\<lambda>b. b = 0) x" and ?d = "dropWhile (\<lambda>b. b = 0) x"
  have t: "?t @ ?d = x" by simp
  have "length ?t + length ?d = length x" by (simp only: takeWhile_dropWhile_id flip: length_append)
  then have "length x - length ?d = length ?t" by linarith
  moreover have "replicate (length ?t) 0 = ?t" by (rule replicate_length_same) (auto dest: set_takeWhileD)
  ultimately show ?thesis by (simp only: t)
qed

lemma fromDER_toDER:
  assumes "length x = 32"
  shows "fromDER (toDER x) = x"
proof -
  let ?y = "dropWhile (\<lambda>b. b = 0) x"
  have le: "length ?y \<le> 32" using length_dropWhile_bound [of "\<lambda>b. b = 0" x] assms by simp
  have y: "(let d = toDER x in if d \<noteq> [] \<and> d ! 0 = 0 then drop 1 d else d) = ?y"
  proof (cases ?y)
    case Nil
    then show ?thesis unfolding toDER_def Nil by simp
  next
    case (Cons b bs)
    then have "b \<noteq> 0" using hd_dropWhile [of "\<lambda>b. b = 0" x] by auto
    then show ?thesis using Cons by (auto simp: toDER_def Let_def)
  qed
  have "fromDER (toDER x) = buf_copy ?y (buf_alloc 32) (32 - length ?y)"
    unfolding fromDER_def using y by (simp only: Let_def)
  also have "\<dots> = replicate (32 - length ?y) 0 @ ?y"
    using le by (simp add: buf_copy_def buf_alloc_def)
  also have "\<dots> = x" using dropWhile_zeros [of x] unfolding assms by (rule sym)
  finally show ?thesis .
qed

section \<open>Signatures with a hash type\<close>

theorem scriptSignature_roundtrip:
  assumes sig: "length sig = 64" and ht: "0 \<le> ht" "ht \<le> 255" "0 < js_and ht (NOT 0xc0)" "js_and ht (NOT 0xc0) < 4"
  shows "\<exists>b. scriptSignature_encode sig ht = Inr b \<and> scriptSignature_decode b = Inr (sig, ht) \<and> bip66_check (butlast b)"
proof -
  let ?r = "take 32 sig" and ?s = "take 32 (drop 32 sig)"
  have l: "length ?r = 32" "length ?s = 32" using sig by simp_all
  have len: "length (toDER ?r) \<le> 33" "length (toDER ?s) \<le> 33"
    using toDER_length [of ?r] toDER_length [of ?s] l by simp_all
  let ?d = "der_bytes (toDER ?r) (toDER ?s)"
  have e: "bip66_encode (toDER ?r) (toDER ?s) = Inr ?d"
    using len by (simp add: bip66_encode_bytes toDER_der_int)
  have d: "bip66_decode ?d = Inr (toDER ?r, toDER ?s)" "bip66_check ?d"
    by (rule bip66_decode_bytes; simp add: toDER_der_int len)+
  have u: "uint (word_of_int ht :: byte) = ht" using ht by (simp add: uint_word_of_int)
  have rs: "?r @ ?s = sig" using sig by (metis append_take_drop_id length_drop numeral_Bit0 diff_add_inverse take_all order_refl)
  have enc: "scriptSignature_encode sig ht = Inr (?d @ [word_of_int ht])"
    using sig ht e by (simp add: scriptSignature_encode_def Let_def)
  have dec: "scriptSignature_decode (?d @ [word_of_int ht]) = Inr (sig, ht)"
    using ht d u by (simp add: scriptSignature_decode_def Let_def fromDER_toDER l Buffer_concat_def rs sig)
  from enc dec d(2) show ?thesis by simp
qed

end
