(* ===== verification/Btc_Number.thy ===== *)
theory Btc_Number
  imports Btc_Der Btc_Codec
begin

text \<open>
  Numbers on the stack (bitcoinjs-lib/script\_number.ts) as magnitude and sign: the encoder in closed
  form for magnitudes below 2^32, and the decoder as its inverse.
\<close>

unbundle bit_operations_syntax

section \<open>32-bit operations\<close>

lemma to_int32_signed: "to_int32 x = signed_take_bit 31 x"
  by (simp add: to_int32_def signed_take_bit_eq_take_bit_shift take_bit_eq_mod)

lemma js_and_signed: "js_and a b = signed_take_bit 31 (a AND b)"
  by (rule bit_eqI) (simp add: js_and_def to_int32_signed bit_simps)

lemma js_or_signed: "js_or a b = signed_take_bit 31 (a OR b)"
  by (rule bit_eqI) (simp add: js_or_def to_int32_signed bit_simps)

lemma to_int32_idem [simp]: "to_int32 (to_int32 x) = to_int32 x"
  by (simp add: to_int32_signed)

lemma js_and_mask: "k \<le> 31 \<Longrightarrow> js_and v (2 ^ k - 1) = v mod 2 ^ k"
  by (rule bit_eqI) (auto simp: js_and_signed bit_simps simp flip: mask_eq_exp_minus_1 take_bit_eq_mod)

lemma js_and_byte: "js_and v 255 = v mod 256"
  using js_and_mask [of 8 v] by simp

lemma nth_le_bytes: "i < n \<Longrightarrow> le_bytes n v ! i = word_of_int (v div 256 ^ i)"
proof (induction n arbitrary: v i)
  case (Suc n)
  then show ?case by (cases i) (simp_all add: zdiv_zmult2_eq)
qed simp

lemma le_bytes_Suc: "le_bytes (Suc n) v = le_bytes n v @ [word_of_int (v div 256 ^ n)]"
  using le_bytes_add [of n 1 v] by simp

section \<open>Encoding\<close>

lemma div_step: "v div 256 ^ Suc k = v div 256 ^ k div (256 :: int)"
  unfolding power_Suc2 by (simp add: zdiv_zmult2_eq)

lemma div_int32:
  fixes v :: int
  assumes "- (2 ^ 31) \<le> v" and "v < 2 ^ 31"
  shows "- (2 ^ 31) \<le> v div 256 ^ k \<and> v div 256 ^ k < 2 ^ 31"
proof (induction k)
  case (Suc k)
  then show ?case unfolding div_step by simp linarith
qed (use assms in simp)

lemma encode_loop:
  fixes v :: int
  assumes "k \<le> sz" and v: "- (2 ^ 31) \<le> v" "v < 2 ^ 31"
  shows "foldl (\<lambda>(buf, v) i. (buf_set buf (int i) (js_and v 0xff), js_shr v 8)) (buf_alloc sz, v) [0..<k] =
    (le_bytes k v @ replicate (sz - k) 0, v div 256 ^ k)"
  using assms(1)
proof (induction k)
  case (Suc k)
  have "js_shr (v div 256 ^ k) 8 = v div 256 ^ Suc k"
    using div_int32 [OF v, of k] unfolding div_step by (simp add: js_shr_def drop_bit_eq_div to_int32_id)
  moreover have "sz - k = Suc (sz - Suc k)" using Suc.prems by simp
  moreover have "word_of_int (v div 256 ^ k mod 256) = (word_of_int (v div 256 ^ k) :: byte)"
    by (rule word_uint_eqI) (simp add: uint_word_of_int)
  ultimately show ?case using Suc
    by (simp add: js_and_byte buf_set_def le_bytes_Suc list_update_append del: le_bytes.simps(2) power_Suc)
qed (simp add: buf_alloc_def)

text \<open>The loop takes a Number through its low 32 bits.\<close>

lemma encode_buffer_bytes:
  "fst (foldl (\<lambda>(buf, v) i. (buf_set buf (int i) (js_and v 0xff), js_shr v 8)) (buf_alloc sz, v) [0..<sz]) =
    le_bytes sz (to_int32 v)"
proof -
  let ?f = "\<lambda>(buf, v) i. (buf_set buf (int i) (js_and v 0xff), js_shr v 8)"
  have f: "?f (b, v) i = ?f (b, to_int32 v) i" for b i by (simp add: js_and_def js_shr_def)
  have "fst (foldl ?f (buf_alloc sz, v) [0..<sz]) = fst (foldl ?f (buf_alloc sz, to_int32 v) [0..<sz])"
    by (cases "[0..<sz]") (simp_all only: foldl.simps f fst_conv)
  then show ?thesis using encode_loop [of sz sz "to_int32 v"] to_int32_bounds [of v] by simp
qed

text \<open>The size leaves room for the sign.\<close>

lemma scriptNumSize_bound:
  assumes "0 < v" and "v < 2 ^ 32"
  obtains k where "scriptNumSize v = Suc k" and "v < 128 * 256 ^ k" and "128 * 256 ^ k \<le> 256 * v" and "k \<le> 4"
proof -
  consider "v \<le> 127" | "127 < v" "v \<le> 32767" | "32767 < v" "v \<le> 8388607" | "8388607 < v" "v \<le> 2147483647" | "2147483647 < v"
    by linarith
  then show thesis using assms
    by cases (rule that [of 0] that [of 1] that [of 2] that [of 3] that [of 4]; simp add: scriptNumSize_def)+
qed

definition script_num :: "int \<Rightarrow> buffer" where
  "script_num n =
     (if n = 0 then []
      else let sz = scriptNumSize \<bar>n\<bar> in le_bytes sz (\<bar>n\<bar> + (if n < 0 then 128 * 256 ^ (sz - 1) else 0)))"

lemma script_num_parts:
  "le_bytes (Suc k) (v + 128 * 256 ^ k) = le_bytes k v @ [word_of_int (v div 256 ^ k + 128)]"
proof -
  have "le_bytes k (v + 128 * 256 ^ k) = le_bytes k v" by (rule le_bytes_cong) simp
  then show ?thesis unfolding le_bytes_Suc by simp
qed

lemma or_high_bit: "0 \<le> t \<Longrightarrow> t < 128 \<Longrightarrow> js_or t 0x80 = t + 128"
proof -
  assume t: "0 \<le> t" "t < 128"
  have "\<not> bit t 7" using t by (simp add: bit_iff_odd)
  then have "t AND 2 ^ 7 = 0" by (simp only: and_exp_eq_0_iff_not_bit not_False_eq_True)
  then have "t OR 2 ^ 7 = t + 2 ^ 7" by (rule disjunctive_add_eq_or [symmetric])
  then show ?thesis using t by (simp add: js_or_def to_int32_id)
qed

lemma int_div_less:
  assumes "v < c * 256 ^ k" shows "v div 256 ^ k < (c :: int)"
proof (rule ccontr)
  assume "\<not> v div 256 ^ k < c"
  then have "256 ^ k * c \<le> 256 ^ k * (v div 256 ^ k)" by (intro mult_left_mono) simp_all
  also have "\<dots> = v - v mod 256 ^ k" by (simp add: minus_mod_eq_mult_div)
  also have "\<dots> \<le> v" by simp
  finally show False using assms by (simp add: mult.commute)
qed

text \<open>The sign goes into the highest bit of the last byte.\<close>

lemma encode_finish:
  assumes "le_bytes (scriptNumSize \<bar>n\<bar>) (to_int32 \<bar>n\<bar>) = xs @ [w]"
  shows "scriptNumber_encode n =
    xs @ [if js_and (uint w) 0x80 \<noteq> 0 then (if n < 0 then 0x80 else 0)
          else if n < 0 then word_of_int (js_or (uint w) 0x80) else w]"
proof -
  have sz: "scriptNumSize \<bar>n\<bar> = Suc (length xs)" using arg_cong [OF assms, of length] by simp
  have b: "fst (foldl (\<lambda>(buf, v) i. (buf_set buf (int i) (js_and v 0xff), js_shr v 8)) (buf_alloc (Suc (length xs)), \<bar>n\<bar>)
      [0..<Suc (length xs)]) = xs @ [w]"
    unfolding encode_buffer_bytes using assms sz by simp
  show ?thesis unfolding scriptNumber_encode_def Let_def sz b
    by (simp add: buf_get_def buf_set_def nth_append list_update_append)
qed

lemma encode_small:
  assumes n: "\<bar>n\<bar> = v" "0 < v" "v < 2 ^ 31"
  shows "scriptNumber_encode n = script_num n"
proof -
  obtain k where k: "scriptNumSize v = Suc k" "v < 128 * 256 ^ k"
    by (rule scriptNumSize_bound [of v]) (use n in simp_all)
  let ?t = "v div 256 ^ k"
  have t: "0 \<le> ?t" "?t < 128"
    using int_div_less [OF k(2)] n by (simp_all add: pos_imp_zdiv_nonneg_iff)
  have b: "le_bytes (Suc k) (to_int32 v) = le_bytes k v @ [word_of_int ?t]"
    using n by (simp add: to_int32_id le_bytes_Suc del: le_bytes.simps)
  have u: "uint (word_of_int ?t :: byte) = ?t" using t by (simp add: uint_word_of_int)
  have h: "js_and ?t 0x80 = 0" using high_bit [of "word_of_int ?t"] t unfolding u by simp
  have e: "scriptNumber_encode n = le_bytes k v @ [if n < 0 then word_of_int (?t + 128) else word_of_int ?t]"
    using encode_finish [of n, unfolded n(1) k(1), OF b] unfolding u h or_high_bit [OF t] by simp
  have "n \<noteq> 0" using n by auto
  then have "script_num n = le_bytes (Suc k) (if n < 0 then v + 128 * 256 ^ k else v)"
    unfolding script_num_def Let_def n(1) k(1) by (cases "n < 0") (simp_all del: le_bytes.simps)
  then show ?thesis unfolding e using script_num_parts [of k v] le_bytes_Suc [of k v] by (simp split: if_split)
qed

lemma encode_large:
  assumes n: "\<bar>n\<bar> = v" "2 ^ 31 \<le> v" "v < 2 ^ 32"
  shows "scriptNumber_encode n = script_num n"
proof -
  have k: "scriptNumSize v = Suc 4" using n by (simp add: scriptNumSize_def)
  have "(v - 2 ^ 31 + 2 ^ 32) mod 2 ^ 32 = (v - 2 ^ 31) mod 2 ^ 32" by (rule mod_add_self2)
  also have "\<dots> = v - 2 ^ 31" using n by (intro mod_pos_pos_trivial) simp_all
  finally have "to_int32 v = v - 2 ^ 32" by (simp add: to_int32_def add.commute)
  moreover have "(v - 2 ^ 32) div 256 ^ 4 = - 1" using n by simp
  moreover have "le_bytes 4 (v - 2 ^ 32) = le_bytes 4 v" by (rule le_bytes_cong) simp
  ultimately have b: "le_bytes (Suc 4) (to_int32 v) = le_bytes 4 v @ [- 1]"
    unfolding le_bytes_Suc by simp
  have t: "v div 256 ^ 4 = 0" using n by simp
  have u: "uint (- 1 :: byte) = 255" by (simp add: unsigned_minus_1_eq_mask mask_eq_exp_minus_1)
  have h: "js_and 255 0x80 \<noteq> 0" using high_bit [of "- 1"] unfolding u by simp
  have e: "scriptNumber_encode n = le_bytes 4 v @ [if n < 0 then 0x80 else 0]"
    using encode_finish [of n, unfolded n(1) k, OF b] h unfolding u by (simp only: if_True not_False_eq_True)
  have "n \<noteq> 0" using n by auto
  then have "script_num n = le_bytes (Suc 4) (if n < 0 then v + 128 * 256 ^ 4 else v)"
    unfolding script_num_def Let_def n(1) k by (cases "n < 0") (simp_all del: le_bytes.simps)
  then show ?thesis unfolding e using t script_num_parts [of 4 v] le_bytes_Suc [of 4 v] by (simp del: le_bytes.simps)
qed

theorem scriptNumber_encode_script_num:
  assumes "\<bar>n\<bar> < 2 ^ 32"
  shows "scriptNumber_encode n = script_num n"
proof -
  consider "n = 0" | "0 < \<bar>n\<bar>" "\<bar>n\<bar> < 2 ^ 31" | "2 ^ 31 \<le> \<bar>n\<bar>" by linarith
  then show ?thesis
  proof cases
    case 1
    then show ?thesis by (simp add: scriptNumber_encode_def scriptNumSize_def script_num_def buf_get_def buf_alloc_def
        js_and_def to_int32_def)
  qed (use assms encode_small encode_large in blast)+
qed

section \<open>Decoding\<close>

lemma le_val_snoc: "le_val (bs @ [b]) = le_val bs + 256 ^ length bs * uint b"
  by (induction bs) (simp_all add: algebra_simps)

text \<open>The loop collects the bytes in 32 bits.\<close>

lemma decode_loop:
  assumes "k \<le> length b" and "k \<le> 4"
  shows "foldl (\<lambda>r i. js_or r (js_shl (uint (b ! i)) (8 * i mod 32))) 0 [0..<k] = to_int32 (le_val (take k b))"
  using assms
proof (induction k)
  case (Suc k)
  have k: "8 * k mod 32 = 8 * k" using Suc.prems by simp
  have v: "le_val (take (Suc k) b) = le_val (take k b) + 256 ^ k * uint (b ! k)"
    using Suc.prems by (simp add: take_Suc_conv_app_nth le_val_snoc)
  have p: "(256 :: int) ^ k = 2 ^ (8 * k)" by (simp add: power_mult)
  have "le_val (take k b) < 256 ^ k" using le_val_less [of "take k b"] Suc.prems by simp
  then have o: "le_val (take k b) OR push_bit (8 * k) (uint (b ! k)) = le_val (take (Suc k) b)"
    unfolding v p by (intro or_shifted) simp_all
  have s: "signed_take_bit 31 (push_bit m (signed_take_bit 31 x)) = signed_take_bit 31 (push_bit m x)" for m and x :: int
    by (cases "m = 0", simp, rule bit_eqI) (auto simp: bit_simps min_def)
  have "js_or (to_int32 a) (js_shl c m) = to_int32 (a OR push_bit m c)" for a c m
    by (rule bit_eqI) (simp add: js_or_signed js_shl_def to_int32_signed bit_simps s)
  then show ?case using Suc o by (simp add: k)
qed (simp add: to_int32_def)

lemma and_not_bit:
  fixes a :: int
  assumes "0 \<le> a" and "a < 2 ^ m"
  shows "(a + 2 ^ m) AND NOT (2 ^ m) = a"
proof -
  have "take_bit m a = a" using assms by (simp add: take_bit_int_eq_self)
  then have "\<not> bit a m" by (metis bit_take_bit_iff less_irrefl)
  then have "(a OR 2 ^ m) AND NOT (2 ^ m) = a" by (intro bit_eqI) (auto simp: bit_simps)
  then show ?thesis using or_shifted [OF assms, of 1] by (simp add: push_bit_eq_mult)
qed

lemma js_and_not:
  assumes "0 \<le> v" and "v < 2 ^ m" and "m \<le> 31"
  shows "js_and (to_int32 (v + 2 ^ m)) (NOT (to_int32 (2 ^ m))) = v"
proof -
  have "(2 :: int) ^ m \<le> 2 ^ 31" using assms by (intro power_increasing) simp_all
  then have v: "to_int32 v = v" using assms by (intro to_int32_id) simp_all
  have "js_and (to_int32 a) (NOT (to_int32 b)) = to_int32 (a AND NOT b)" for a b
    by (rule bit_eqI) (simp add: js_and_signed to_int32_signed bit_simps)
  then show ?thesis using v and_not_bit [OF assms(1,2)] by simp
qed

theorem scriptNumber_decode_script_num:
  assumes n: "\<bar>n\<bar> < 2 ^ 32" and m: "max_length = Some m \<and> int (length (script_num n)) \<le> m \<or> max_length = None \<and> length (script_num n) \<le> 4"
  shows "scriptNumber_decode (script_num n) max_length minimal = Inr n"
proof (cases "n = 0")
  case True
  then show ?thesis by (simp add: script_num_def scriptNumber_decode_def Let_def)
next
  case False
  define v where "v = \<bar>n\<bar>"
  then have v0: "0 < v" "v < 2 ^ 32" using n False by simp_all
  obtain k where k: "scriptNumSize v = Suc k" "v < 128 * 256 ^ k" "128 * 256 ^ k \<le> 256 * v" "k \<le> 4"
    by (rule scriptNumSize_bound [OF v0])
  let ?t = "v div 256 ^ k" and ?s = "if n < 0 then 128 else 0 :: int"
  have t: "0 \<le> ?t" "?t < 128" using int_div_less [OF k(2)] v0 by (simp_all add: pos_imp_zdiv_nonneg_iff)
  have b: "script_num n = le_bytes k v @ [word_of_int (?t + ?s)]"
    using False script_num_parts [of k v] le_bytes_Suc [of k v]
    unfolding script_num_def Let_def v_def [symmetric] k(1) by (simp del: le_bytes.simps)
  define bb :: buffer where "bb = le_bytes k v @ [word_of_int (?t + ?s)]"
  note b = b [folded bb_def]
  have "uint (word_of_int (?t + ?s) :: byte) = ?t + ?s" by (subst uint_word_of_int) (use t in simp)
  then have top: "uint (bb ! k) = ?t + ?s"
    unfolding bb_def by (simp only: nth_append length_le_bytes nth_Cons_0 less_irrefl if_False diff_self_eq_0)
  have lenb: "length bb = Suc k" by (simp add: bb_def)
  have lv: "le_val bb = v mod 256 ^ k + 256 ^ k * uint (bb ! k)"
    unfolding bb_def by (simp add: le_val_snoc le_val_le_bytes nth_append del: le_bytes.simps)
  have init: "take k bb = le_bytes k v" "i < k \<Longrightarrow> bb ! i = word_of_int (v div 256 ^ i)" for i
    unfolding bb_def by (simp_all add: nth_append nth_le_bytes del: le_bytes.simps)
  have low: "js_and (?t + ?s) 0x7f = ?t"
    using js_and_mask [of 7 "?t + ?s"] t by simp
  have high: "js_and (?t + ?s) 0x80 \<noteq> 0 \<longleftrightarrow> n < 0"
    using high_bit [of "bb ! k"] t unfolding top by auto
  have min: "\<not> (js_and (uint (bb ! k)) 0x7f = 0 \<and> (Suc k \<le> 1 \<or> js_and (uint (bb ! (k - 1))) 0x80 = 0))"
  proof (cases "?t = 0")
    case True
    then have "k \<noteq> 0" using v0 by (cases k) simp_all
    then obtain j where j: "k = Suc j" by (cases k) simp_all
    have "uint (bb ! j) = v div 256 ^ j mod 256" using j by (simp add: init(2) uint_word_of_int)
    moreover have "v < 256 * 256 ^ j"
    proof -
      have e: "v mod 256 ^ k = v" using True by (metis add_0 div_mult_mod_eq mult_zero_left)
      have "v < 256 ^ k" using pos_mod_bound [of "256 ^ k" v] unfolding e by simp
      then show ?thesis using j by simp
    qed
    then have "v div 256 ^ j < 256" by (rule int_div_less)
    moreover have "128 \<le> v div 256 ^ j" using zdiv_mono1 [of "128 * 256 ^ j" v "256 ^ j"] k(3) j by simp
    ultimately have "128 \<le> uint (bb ! j)" by simp
    then show ?thesis using high_bit [of "bb ! j"] j by simp
  next
    case False
    then show ?thesis unfolding top low by simp
  qed
  have len: "\<not> int (Suc k) > (case max_length of Some m \<Rightarrow> if m = 0 then 4 else m | None \<Rightarrow> 4)"
    using m lenb unfolding b by auto
  have nv: "(if n < 0 then - v else v) = n" unfolding v_def by simp
  have neg: "js_and (uint (bb ! k)) 0x80 \<noteq> 0 \<longleftrightarrow> n < 0" unfolding top by (rule high)
  show ?thesis
  proof (cases "k = 4")
    case True
    have a: "Buffer_readUIntLE 4 0 bb = Inr (v mod 256 ^ 4)"
      using True init(1) lenb by (simp add: Buffer_readUIntLE_def le_val_le_bytes del: le_bytes.simps)
    have "Buffer_readUIntLE 1 4 bb = Inr (uint (bb ! k))"
      using True lenb Cons_nth_drop_Suc [of 4 bb, symmetric] by (simp add: Buffer_readUIntLE_def)
    then have c: "Buffer_readUIntLE 1 4 bb = Inr (?t + ?s)" unfolding top .
    have "js_and (?t + 128) (NOT 0x80) = ?t" using js_and_not [of ?t 7] t by (simp add: to_int32_id)
    moreover have "- (v div 4294967296 * 4294967296) - v mod 4294967296 = - v" using div_mod_word [of v] by linarith
    moreover have "n < 0 \<Longrightarrow> js_and (?t + 128) 0x80 \<noteq> 0" "\<not> n < 0 \<Longrightarrow> js_and ?t 0x80 = 0"
      using high by auto
    ultimately show ?thesis
      using min len neg nv True unfolding b scriptNumber_decode_def Let_def
      by (cases "n < 0") (simp_all add: a c [unfolded One_nat_def] lenb)
  next
    case False
    then have k4: "k < 4" using k(4) by simp
    let ?w = "v + (if n < 0 then 128 * 256 ^ k else 0)"
    have "le_val bb = ?w"
    proof -
      have "le_val bb = v mod 256 ^ k + 256 ^ k * (?t + ?s)"
        unfolding lv top ..
      also have "\<dots> = ?w" by (simp add: distrib_left)
      finally show ?thesis .
    qed
    then have loop: "foldl (\<lambda>r i. js_or r (js_shl (uint (bb ! i)) (8 * i mod 32))) 0 [0..<Suc k] = to_int32 ?w"
      using decode_loop [of "Suc k" bb] k4 lenb by (simp del: upt_Suc)
    have p: "128 * 256 ^ k = (2 :: int) ^ (8 * k + 7)" by (simp add: power_add power_mult)
    have shl: "js_shl 0x80 (8 * k mod 32) = to_int32 (2 ^ (8 * k + 7))"
      using k4 by (simp add: js_shl_def to_int32_id push_bit_eq_mult power_add power_mult mult.commute)
    have v31: "v < 2 ^ 31"
    proof -
      have "(2 :: int) ^ (8 * k + 7) \<le> 2 ^ 31" using k4 by (intro power_increasing) simp_all
      then show ?thesis using k(2) p by simp
    qed
    have "js_and (to_int32 (v + 128 * 256 ^ k)) (NOT (js_shl 0x80 (8 * k mod 32))) = v"
      unfolding shl p by (rule js_and_not) (use v0 k(2) k4 p in simp_all)
    moreover have "to_int32 v = v" using v0 v31 by (simp add: to_int32_id)
    ultimately show ?thesis
      using min len neg nv False unfolding b scriptNumber_decode_def Let_def
      by (simp add: loop lenb del: upt_Suc split: if_splits)
  qed
qed

end
