(* ===== verification/Properties_Btc.thy ===== *)
theory Properties_Btc
  imports Btc_Sighash_Codec Btc_Number Properties_Cells
begin

text \<open>Properties of the scripts, the signatures and the transactions of coin-bitcoin.\<close>

section \<open>Transactions\<close>

text \<open>A transaction with one input and one output, the output to a 34-byte script.\<close>

abbreviation small_tx :: "buffer list \<Rightarrow> btc_tx" where
  "small_tx witness \<equiv>
     \<lparr>bt_version = 2, bt_locktime = 5,
      bt_ins = [\<lparr>bi_hash = replicate 32 7, bi_index = 1, bi_script = [], bi_sequence = 0xfffffffd, bi_witness = witness\<rparr>],
      bt_outs = [Output ([0x51, 32] @ replicate 32 9) 1000]\<rparr>"

lemma small_tx_ok: "vector_ok witness \<Longrightarrow> tx_ok (small_tx witness) \<and> no_blank (small_tx witness)"
  by (simp add: tx_ok_def no_blank_def input_ok_def output_ok_def is_UInt32_def slice_ok_def)

lemma small_witness_ok: "vector_ok [[1, 2], []]"
  by (simp add: vector_ok_def slice_ok_def)

text \<open>
  C4: \<open>toBuffer\<close> writes a transaction, with its witnesses if it has any, into exactly
  \<open>byteLength\<close> bytes, and \<open>fromBuffer\<close> reads those bytes back as the same transaction; bytes
  behind them are an error unless they are asked to be ignored. A transaction without inputs and
  with one output is left out: its bytes are taken for the marker of witnesses.
\<close>

theorem transaction_roundtrip:
  assumes "tx_ok tx" "no_blank tx" and "bt_ins tx \<noteq> [] \<or> length (bt_outs tx) \<noteq> 1"
  shows "\<exists>b. Transaction_toBuffer None None tx = Inr b \<and> length b = Transaction_byteLength True tx \<and>
    Transaction_fromBuffer (b @ extra) no_strict = (if no_strict \<or> extra = [] then Inr tx else Inl InvalidData)"
proof -
  have "Transaction_byteLength True tx = length (tx_bytes True tx)"
    using assms by (intro byteLength_tx_bytes) (simp add: tx_ok_def)
  then show ?thesis
    using toBuffer_bytes [OF assms(1), of True] fromBuffer_tx_bytes [OF assms] by (simp add: Transaction_toBuffer_def)
qed

theorem transaction_roundtrip_witness:
  "\<exists>b. Transaction_toBuffer None None (small_tx [[1, 2], []]) = Inr b \<and>
    Transaction_fromBuffer (b @ []) False = Inr (small_tx [[1, 2], []])"
  using transaction_roundtrip [of "small_tx [[1, 2], []]" "[]" False] small_tx_ok [OF small_witness_ok] by auto

section \<open>Signing\<close>

text \<open>
  C15: \<open>hashForWitnessV0\<close> is the double SHA-256 of the message of BIP 143 for the input and the
  amount, whatever the hash type selects.
\<close>

theorem hashForWitnessV0_bip143:
  assumes "tx_ok tx" "no_blank tx" "sha_ok sha" "slice_ok script" "Satoshi v" "is_UInt32 hashType"
    and "inIndex < length (bt_ins tx)" "int inIndex < 2 ^ 32"
  shows "Transaction_hashForWitnessV0 sha inIndex script v hashType tx =
    Inr (sha (sha (bip143_message sha inIndex (var_slice script) v hashType tx)))"
proof -
  have "appends (BufferWriter_writeVarSlice script) (var_slice script)" using assms by (intro append_intros)
  then have "witness_preimage_v0 sha inIndex (156 + varSliceSize script) (BufferWriter_writeVarSlice script) v hashType tx =
      Inr (bip143_message sha inIndex (var_slice script) v hashType tx)"
    using assms by (intro witness_preimage_message) (simp_all add: Satoshi_def length_var_slice)
  then show ?thesis using assms
    by (simp add: Transaction_hashForWitnessV0_def hash256_def is_UInt32_def)
qed

theorem hashForWitnessV0_bip143_witness:
  "Transaction_hashForWitnessV0 pad_hash 0 [0x51] 5000 1 (small_tx []) =
    Inr (pad_hash (pad_hash (bip143_message pad_hash 0 (var_slice [0x51]) 5000 1 (small_tx []))))"
  using hashForWitnessV0_bip143 [of "small_tx []" pad_hash "[0x51]" 5000 1 0] small_tx_ok [of "[]"] pad_hash_ok
  by (simp add: vector_ok_def slice_ok_def Satoshi_def is_UInt32_def)

text \<open>
  C5: \<open>hashForWitnessV1\<close> with an output for the index where one is signed, and a 34-byte script
  where only one input is signed, is the tagged hash of the message of BIP 341 behind the epoch
  byte, with the extensions for a leaf and an annex.
\<close>

theorem hashForWitnessV1_bip341:
  assumes "v1_ok inIndex scripts amounts hashType leafHash annex tx" and "sha_ok sha"
  shows "Transaction_hashForWitnessV1 sha tag inIndex scripts amounts hashType leafHash annex tx =
    Inr (sha (sha tag @ sha tag @ [0] @ bip341_message sha inIndex scripts amounts hashType leafHash annex tx))"
  using hashForWitnessV1_message [OF assms] by (simp add: taggedHash_def)

theorem hashForWitnessV1_bip341_witness:
  "Transaction_hashForWitnessV1 pad_hash [84] 0 [[0x51]] [1000] 0 None None (small_tx []) =
    Inr (pad_hash (pad_hash [84] @ pad_hash [84] @ [0] @ bip341_message pad_hash 0 [[0x51]] [1000] 0 None None (small_tx [])))"
  by (rule hashForWitnessV1_bip341 [OF _ pad_hash_ok])
    (use small_tx_ok [of "[]"] in \<open>simp add: v1_ok_def vector_ok_def slice_ok_def Satoshi_def SIGHASH_NONE_def
      SIGHASH_SINGLE_def SIGHASH_ANYONECANPAY_def js_and_def to_int32_def\<close>)



section \<open>Scripts\<close>

text \<open>
  C17: Chunks (operations that are no pushes, and data) compile to a script that \<open>decompile\<close> reads as
  the same chunks, with the data that an operation of its own pushes replaced by that operation.
\<close>

theorem script_roundtrip:
  assumes "list_all chunk_ok chunks" and "list_all plain_op chunks"
  shows "bindE (script_compile chunks) script_decompile = Inr (Some (map minimal_chunk chunks))"
  using decompile_chunks [OF assms, of 0 "concat (map chunk_bytes chunks)" "[]"] script_compile_bytes [OF assms(1)]
  by (simp add: script_decompile_def)

theorem script_roundtrip_witness:
  "bindE (script_compile [Op 118, Data [1], Data [1, 2], Op 172]) script_decompile =
    Inr (Some (map minimal_chunk [Op 118, Data [1], Data [1, 2], Op 172]))"
  by (rule script_roundtrip) (simp_all add: chunk_ok_def plain_op_def)

lemma pushdata_decode_total:
  assumes "i < length b" and "uint (b ! i) \<le> 78"
  shows "\<exists>d. pushdata_decode i b = Inr d"
proof -
  have "Buffer_readUIntLE 1 i b = Inr (uint (b ! i))"
    using assms Cons_nth_drop_Suc [OF assms(1), symmetric] by (simp add: Buffer_readUIntLE_def)
  then show ?thesis using assms by (auto simp: pushdata_decode_def Buffer_readUIntLE_def)
qed

lemma decompile_loop_total: "\<exists>d. decompile_loop b i acc = Inr d"
proof (induction b i acc rule: decompile_loop.induct)
  case (1 b i acc)
  show ?case
  proof (cases "length b \<le> i \<or> \<not> (0 < uint (b ! i) \<and> uint (b ! i) \<le> 78)")
    case True
    then show ?thesis using "1.IH"(2) by (subst decompile_loop.simps) auto
  next
    case False
    then obtain d where d: "pushdata_decode i b = Inr d" using pushdata_decode_total [of i b] by auto
    show ?thesis using False d "1.IH"(1) [OF _ refl _ d]
      by (subst decompile_loop.simps) (auto simp: Let_def split: option.split simp del: of_nat_add)
  qed
qed

text \<open>
  C18: \<open>decompile\<close> never throws, whatever the bytes; what it returns compiles, to a script that
  decompiles to the same chunks.
\<close>

theorem decompile_stable:
  assumes "length script < 2 ^ 32"
  shows "\<exists>d. script_decompile script = Inr d \<and>
    (\<forall>chunks. d = Some chunks \<longrightarrow> bindE (script_compile chunks) script_decompile = Inr (Some chunks))"
proof -
  obtain d where d: "script_decompile script = Inr d"
    using decompile_loop_total [of script 0 "[]"] by (auto simp: script_decompile_def)
  have "bindE (script_compile chunks) script_decompile = Inr (Some chunks)" if "d = Some chunks" for chunks
  proof -
    have "list_all chunk_ok chunks \<and> list_all plain_op chunks \<and> map minimal_chunk chunks = chunks"
      using decompile_loop_chunks [of script 0 "[]" chunks] assms d that by (simp add: script_decompile_def)
    then show ?thesis
      using decompile_chunks [of chunks 0 "concat (map chunk_bytes chunks)" "[]"] script_compile_bytes [of chunks]
      by (simp add: script_decompile_def)
  qed
  with d show ?thesis by blast
qed

theorem decompile_stable_witness:
  "\<exists>d. script_decompile [1, 5, 0x76] = Inr d \<and>
    (case d of Some chunks \<Rightarrow> bindE (script_compile chunks) script_decompile = Inr (Some chunks) | None \<Rightarrow> True)"
  using decompile_stable [of "[1, 5, 0x76]"] by (auto split: option.split)

section \<open>Numbers and signatures\<close>

text \<open>
  C37: A number between -2^32 and 2^32 is encoded to the number \<open>decode\<close> gives back with the limit of
  five bytes, and below 2^31 with the limit of four bytes that it has by default.
\<close>

theorem script_number_roundtrip:
  assumes "\<bar>n\<bar> < 2 ^ 32"
  shows "scriptNumber_decode (scriptNumber_encode n) (Some 5) minimal = Inr n \<and>
    (\<bar>n\<bar> < 2 ^ 31 \<longrightarrow> scriptNumber_decode (scriptNumber_encode n) None minimal = Inr n)"
proof -
  have "length (script_num n) \<le> 5 \<and> (\<bar>n\<bar> < 2 ^ 31 \<longrightarrow> length (script_num n) \<le> 4)"
    by (simp add: script_num_def scriptNumSize_def)
  then show ?thesis
    using scriptNumber_decode_script_num [of n "Some 5" 5 minimal] scriptNumber_decode_script_num [of n None 4 minimal]
      scriptNumber_encode_script_num [OF assms] assms by simp
qed

theorem script_number_roundtrip_witness:
  "scriptNumber_decode (scriptNumber_encode (- 1000)) None None = Inr (- 1000)"
  using script_number_roundtrip [of "- 1000" None] by simp

text \<open>
  From 2^31 on only the low 32 bits of a number are encoded: numbers that differ by 2^32 have
  the same encoding.
\<close>

theorem script_number_loses_bits:
  assumes "2 ^ 31 \<le> n"
  shows "scriptNumber_encode (n + 2 ^ 32) = scriptNumber_encode n"
proof -
  have "(n + 2 ^ 31 + 2 ^ 32) mod 2 ^ 32 = (n + 2 ^ 31) mod 2 ^ 32" by (rule mod_add_self2)
  then have "to_int32 (n + 2 ^ 32) = to_int32 n" by (simp add: to_int32_def)
  moreover have "scriptNumSize n = 5" "scriptNumSize (n + 2 ^ 32) = 5" using assms by (simp_all add: scriptNumSize_def)
  ultimately show ?thesis
    unfolding scriptNumber_encode_def Let_def encode_buffer_bytes using assms by simp
qed

theorem script_number_loses_bits_witness: "scriptNumber_encode (2 ^ 31 + 2 ^ 32) = scriptNumber_encode (2 ^ 31)"
  by (rule script_number_loses_bits) simp



text \<open>
  C36: \<open>bip66.check\<close> accepts exactly the bytes \<open>decode\<close> reads, and \<open>decode\<close> gives back both numbers of
  every signature that \<open>encode\<close> accepts.
\<close>

theorem bip66_strict_der:
  "(bip66_check b \<longleftrightarrow> (\<exists>r s. bip66_decode b = Inr (r, s))) \<and>
    (case bip66_encode r s of Inr b \<Rightarrow> bip66_decode b = Inr (r, s) | Inl _ \<Rightarrow> True)"
  using bip66_check_decode [of b] bip66_encode_bytes [of r s] bip66_decode_bytes [of r s]
  by (auto split: sum.split)

end
