(* ===== verification/Aptos_Bcs.thy ===== *)
theory Aptos_Bcs
  imports Btc_Buffer Node_Text
begin

text \<open>
  The serializer and deserializer of coin-aptos (v2/bcs/serializer.ts, deserializer.ts): a buffer that
  doubles when it is full with the offset behind the last byte, and a buffer that is read from an
  offset. Texts are encoded and decoded as by \<open>TextEncoder\<close> and \<open>TextDecoder\<close>.
\<close>

section \<open>UTF-8\<close>

text \<open>
  A string is the list of the bytes of its UTF-8 form, so encoding is the identity on bytes. Decoding
  replaces each malformed sequence by U+FFFD and drops a byte order mark at the start: \<open>n\<close> is the number
  of continuation bytes still needed, the next one being between \<open>lo\<close> and \<open>hi\<close>, and \<open>seen\<close> the
  bytes of the sequence so far.
\<close>

definition text_encode :: "string \<Rightarrow> buffer" where
  "text_encode s = map (\<lambda>c. word_of_nat (code_of c)) s"

definition byte_chars :: "buffer \<Rightarrow> string" where
  "byte_chars bs = map (\<lambda>b. char_of (unat b)) bs"

definition utf8_start :: "nat \<Rightarrow> (nat \<times> nat \<times> nat) option" where
  "utf8_start b =
     (if 0xC2 \<le> b \<and> b \<le> 0xDF then Some (1, 0x80, 0xBF)
      else if 0xE0 \<le> b \<and> b \<le> 0xEF
        then Some (2, if b = 0xE0 then 0xA0 else 0x80, if b = 0xED then 0x9F else 0xBF)
      else if 0xF0 \<le> b \<and> b \<le> 0xF4
        then Some (3, if b = 0xF0 then 0x90 else 0x80, if b = 0xF4 then 0x8F else 0xBF)
      else None)"

definition replacement :: buffer where
  "replacement = [0xEF, 0xBF, 0xBD]"

definition utf8_first :: "byte \<Rightarrow> buffer \<times> nat \<times> nat \<times> nat \<times> buffer" where
  \<comment> \<open>what a byte that starts a sequence puts out, and the state behind it\<close>
  "utf8_first b =
     (if unat b < 0x80 then ([b], 0, 0x80, 0xBF, [])
      else case utf8_start (unat b) of
        None \<Rightarrow> (replacement, 0, 0x80, 0xBF, [])
      | Some (n, lo, hi) \<Rightarrow> ([], n, lo, hi, [b]))"

primrec utf8_decode :: "nat \<Rightarrow> nat \<Rightarrow> nat \<Rightarrow> buffer \<Rightarrow> buffer \<Rightarrow> buffer" where
  "utf8_decode n lo hi seen [] = (if n = 0 then [] else replacement)"
| "utf8_decode n lo hi seen (b # bs) =
     (if n = 0 then (case utf8_first b of (out, n, lo, hi, seen) \<Rightarrow> out @ utf8_decode n lo hi seen bs)
      else if unat b < lo \<or> hi < unat b
        then (case utf8_first b of (out, n, lo, hi, seen) \<Rightarrow> replacement @ out @ utf8_decode n lo hi seen bs)
      else if n = 1 then (seen @ [b]) @ utf8_decode 0 0x80 0xBF [] bs
      else utf8_decode (n - 1) 0x80 0xBF (seen @ [b]) bs)"

definition text_decode :: "buffer \<Rightarrow> string" where
  "text_decode bs =
     byte_chars (utf8_decode 0 0x80 0xBF [] (if take 3 bs = [0xEF, 0xBB, 0xBF] then drop 3 bs else bs))"

section \<open>Serializer\<close>

record serializer =
  sr_buffer :: buffer
  sr_offset :: nat

type_synonym put = "serializer \<Rightarrow> serializer res"

definition new_Serializer :: "int \<Rightarrow> serializer res" where
  "new_Serializer len =
     (if len \<le> 0 then Inl LengthOutOfBounds else Inr \<lparr>sr_buffer = buf_alloc (nat len), sr_offset = 0\<rparr>)"

text \<open>
  The loop does not end on an empty buffer, which no serializer has: \<open>OutOfFuel\<close> stands for that.
\<close>

function ensureBufferWillHandleSize :: "nat \<Rightarrow> put" where
  "ensureBufferWillHandleSize bytes s =
     (if length (sr_buffer s) < sr_offset s + bytes
      then if sr_buffer s = [] then Inl OutOfFuel
           else ensureBufferWillHandleSize bytes
                  (s\<lparr>sr_buffer := buf_copy (sr_buffer s) (buf_alloc (length (sr_buffer s) * 2)) 0\<rparr>)
      else Inr s)"
  by pat_completeness auto

termination
  by (relation "measure (\<lambda>(bytes, s). sr_offset s + bytes - length (sr_buffer s))")
    (auto simp: buf_copy_def buf_alloc_def intro!: diff_less_mono2)

declare ensureBufferWillHandleSize.simps [simp del]

definition Serializer_appendToBuffer :: "buffer \<Rightarrow> put" where
  "Serializer_appendToBuffer values s =
     bindE (ensureBufferWillHandleSize (length values) s) (\<lambda>s.
     Inr (s\<lparr>sr_buffer := buf_copy values (sr_buffer s) (sr_offset s), sr_offset := sr_offset s + length values\<rparr>))"

text \<open>\<open>setUint16\<close> and \<open>setUint32\<close> of a \<open>DataView\<close> at the offset.\<close>

definition Serializer_serializeWithFunction :: "nat \<Rightarrow> int \<Rightarrow> put" where
  "Serializer_serializeWithFunction bytesLength value s =
     bindE (ensureBufferWillHandleSize bytesLength s) (\<lambda>s.
     bindE (Buffer_put (le_bytes bytesLength value) (sr_offset s) (sr_buffer s)) (\<lambda>b.
     Inr (s\<lparr>sr_buffer := b, sr_offset := sr_offset s + bytesLength\<rparr>)))"

definition MAX_U8_NUMBER :: int where "MAX_U8_NUMBER = 255"
definition MAX_U16_NUMBER :: int where "MAX_U16_NUMBER = 65535"
definition MAX_U32_NUMBER :: int where "MAX_U32_NUMBER = 4294967295"
definition MAX_U64_BIG_INT :: int where "MAX_U64_BIG_INT = 18446744073709551615"
definition MAX_U128_BIG_INT :: int where "MAX_U128_BIG_INT = 340282366920938463463374607431768211455"
definition MAX_U256_BIG_INT :: int where
  "MAX_U256_BIG_INT = 115792089237316195423570985008687907853269984665640564039457584007913129639935"

definition validateNumberInRange :: "int \<Rightarrow> int \<Rightarrow> int \<Rightarrow> unit res" where
  "validateNumberInRange value minValue maxValue =
     (if value > maxValue \<or> value < minValue then Inl ValueOutOfRange else Inr ())"

definition checkNumberRange :: "int \<Rightarrow> int \<Rightarrow> (int \<Rightarrow> put) \<Rightarrow> int \<Rightarrow> put" where \<comment> \<open>the decorator\<close>
  "checkNumberRange minValue maxValue childFunction value s =
     bindE (validateNumberInRange value minValue maxValue) (\<lambda>_. childFunction value s)"

definition Serializer_serializeBool :: "bool \<Rightarrow> put" where
  "Serializer_serializeBool value = Serializer_appendToBuffer [if value then 1 else 0]"

definition Serializer_serializeU8 :: "int \<Rightarrow> put" where
  "Serializer_serializeU8 = checkNumberRange 0 MAX_U8_NUMBER (\<lambda>value. Serializer_appendToBuffer [word_of_int value])"

definition Serializer_serializeU16 :: "int \<Rightarrow> put" where
  "Serializer_serializeU16 = checkNumberRange 0 MAX_U16_NUMBER (Serializer_serializeWithFunction 2)"

definition Serializer_serializeU32 :: "int \<Rightarrow> put" where
  "Serializer_serializeU32 = checkNumberRange 0 MAX_U32_NUMBER (Serializer_serializeWithFunction 4)"

definition Serializer_serializeU64 :: "int \<Rightarrow> put" where
  "Serializer_serializeU64 = checkNumberRange 0 MAX_U64_BIG_INT (\<lambda>value s.
     let low = value AND MAX_U32_NUMBER; high = drop_bit 32 value
     in bindE (Serializer_serializeU32 low s) (Serializer_serializeU32 high))"

definition Serializer_serializeU128 :: "int \<Rightarrow> put" where
  "Serializer_serializeU128 = checkNumberRange 0 MAX_U128_BIG_INT (\<lambda>value s.
     let low = value AND MAX_U64_BIG_INT; high = drop_bit 64 value
     in bindE (Serializer_serializeU64 low s) (Serializer_serializeU64 high))"

definition Serializer_serializeU256 :: "int \<Rightarrow> put" where
  "Serializer_serializeU256 = checkNumberRange 0 MAX_U256_BIG_INT (\<lambda>value s.
     let low = value AND MAX_U128_BIG_INT; high = drop_bit 128 value
     in bindE (Serializer_serializeU128 low s) (Serializer_serializeU128 high))"

definition js_ushr :: "int \<Rightarrow> nat \<Rightarrow> int" where \<comment> \<open>\<open>>>>\<close> on a Number\<close>
  "js_ushr v k = drop_bit k (v mod 2 ^ 32)"

function uleb_array :: "int \<Rightarrow> int list" where
  "uleb_array value =
     (if js_ushr value 7 \<noteq> 0 then js_or (js_and value 0x7f) 0x80 # uleb_array (js_ushr value 7) else [value])"
  by pat_completeness auto

termination
proof (relation "measure (\<lambda>v. nat (v mod 2 ^ 32))")
  fix v :: int
  define m where "m = v mod 2 ^ 32"
  assume "js_ushr v 7 \<noteq> 0"
  then have m: "0 \<le> m" "m < 2 ^ 32" "m div 128 \<noteq> 0" by (simp_all add: js_ushr_def drop_bit_eq_div m_def)
  then have "m div 128 < m" by (intro int_div_less_self) (cases "m = 0", simp_all)
  then have "m div 128 mod 2 ^ 32 = m div 128" using m by (intro mod_pos_pos_trivial) simp_all
  with \<open>m div 128 < m\<close> show "(js_ushr v 7, v) \<in> measure (\<lambda>v. nat (v mod 2 ^ 32))"
    using m unfolding in_measure js_ushr_def drop_bit_eq_div m_def [symmetric] by simp
qed simp

declare uleb_array.simps [simp del]

definition Serializer_serializeU32AsUleb128 :: "int \<Rightarrow> put" where
  "Serializer_serializeU32AsUleb128 =
     checkNumberRange 0 MAX_U32_NUMBER (\<lambda>val. Serializer_appendToBuffer (map word_of_int (uleb_array val)))"

definition Serializer_serializeBytes :: "buffer \<Rightarrow> put" where
  "Serializer_serializeBytes value s =
     bindE (Serializer_serializeU32AsUleb128 (int (length value)) s) (Serializer_appendToBuffer value)"

definition Serializer_serializeFixedBytes :: "buffer \<Rightarrow> put" where
  "Serializer_serializeFixedBytes value = Serializer_appendToBuffer value"

definition Serializer_serializeStr :: "string \<Rightarrow> put" where
  "Serializer_serializeStr value = Serializer_serializeBytes (text_encode value)"

definition Serializer_toUint8Array :: "serializer \<Rightarrow> buffer" where
  "Serializer_toUint8Array s = take (sr_offset s) (sr_buffer s)"

definition Serializer_serializeVector :: "('a \<Rightarrow> put) \<Rightarrow> 'a list \<Rightarrow> put" where
  "Serializer_serializeVector serialize values s =
     bindE (Serializer_serializeU32AsUleb128 (int (length values)) s) (foldE serialize values)"

text \<open>The element's method is only called on the elements of the array.\<close>

lemma Serializer_serializeVector_cong [fundef_cong]:
  assumes "vs = vs'" and "s = s'" and "\<And>v s. v \<in> set vs' \<Longrightarrow> f v s = g v s"
  shows "Serializer_serializeVector f vs s = Serializer_serializeVector g vs' s'"
proof -
  have "foldE f vs' = foldE g vs'" by (rule ext, rule foldE_cong) (auto simp: assms)
  then show ?thesis by (simp add: assms(1,2) Serializer_serializeVector_def)
qed

definition bcsToBytes :: "put \<Rightarrow> buffer res" where \<comment> \<open>of an object with the given method \<open>serialize\<close>\<close>
  "bcsToBytes serialize =
     bindE (new_Serializer 64) (\<lambda>s. bindE (serialize s) (\<lambda>s. Inr (Serializer_toUint8Array s)))"

section \<open>Deserializer\<close>

record deserializer =
  ds_buffer :: buffer
  ds_offset :: nat

type_synonym 'a get = "deserializer \<Rightarrow> ('a \<times> deserializer) res"

definition new_Deserializer :: "buffer \<Rightarrow> deserializer" where
  "new_Deserializer data = \<lparr>ds_buffer = data, ds_offset = 0\<rparr>"

definition Deserializer_read :: "nat \<Rightarrow> buffer get" where
  "Deserializer_read len d =
     (if ds_offset d + len > length (ds_buffer d) then Inl IndexOutOfBounds
      else Inr (take len (drop (ds_offset d) (ds_buffer d)), d\<lparr>ds_offset := ds_offset d + len\<rparr>))"

definition Deserializer_deserializeU8 :: "int get" where
  "Deserializer_deserializeU8 d = bindE (Deserializer_read 1 d) (\<lambda>(b, d). Inr (le_val b, d))"

definition Deserializer_deserializeU16 :: "int get" where
  "Deserializer_deserializeU16 d = bindE (Deserializer_read 2 d) (\<lambda>(b, d). Inr (le_val b, d))"

definition Deserializer_deserializeU32 :: "int get" where
  "Deserializer_deserializeU32 d = bindE (Deserializer_read 4 d) (\<lambda>(b, d). Inr (le_val b, d))"

definition Deserializer_deserializeU64 :: "int get" where
  "Deserializer_deserializeU64 d =
     bindE (Deserializer_deserializeU32 d) (\<lambda>(low, d).
     bindE (Deserializer_deserializeU32 d) (\<lambda>(high, d). Inr (push_bit 32 high OR low, d)))"

definition Deserializer_deserializeU128 :: "int get" where
  "Deserializer_deserializeU128 d =
     bindE (Deserializer_deserializeU64 d) (\<lambda>(low, d).
     bindE (Deserializer_deserializeU64 d) (\<lambda>(high, d). Inr (push_bit 64 high OR low, d)))"

definition Deserializer_deserializeU256 :: "int get" where
  "Deserializer_deserializeU256 d =
     bindE (Deserializer_deserializeU128 d) (\<lambda>(low, d).
     bindE (Deserializer_deserializeU128 d) (\<lambda>(high, d). Inr (push_bit 128 high OR low, d)))"

definition Deserializer_deserializeBool :: "bool get" where
  "Deserializer_deserializeBool d =
     bindE (Deserializer_read 1 d) (\<lambda>(b, d).
     let v = le_val b in if v \<noteq> 1 \<and> v \<noteq> 0 then Inl InvalidData else Inr (v = 1, d))"

lemma deserializeU8_less:
  "Deserializer_deserializeU8 d = Inr (b, d') \<Longrightarrow>
   length (ds_buffer d') - ds_offset d' < length (ds_buffer d) - ds_offset d"
  by (auto simp: Deserializer_deserializeU8_def Deserializer_read_def split: if_splits)

function uleb_loop :: "int \<Rightarrow> nat \<Rightarrow> int get" where
  "uleb_loop value shift d =
     (if value < MAX_U32_NUMBER
      then bindE (Deserializer_deserializeU8 d) (\<lambda>p.
           let byte = fst p; value = value OR push_bit shift (byte AND 0x7f)
           in if byte AND 0x80 = 0 then Inr (value, snd p) else uleb_loop value (shift + 7) (snd p))
      else Inr (value, d))"
  by pat_completeness auto

termination
  by (relation "measure (\<lambda>(value, shift, d). length (ds_buffer d) - ds_offset d)")
    (auto dest: deserializeU8_less)

declare uleb_loop.simps [simp del]

definition Deserializer_deserializeUleb128AsU32 :: "int get" where
  "Deserializer_deserializeUleb128AsU32 d =
     bindE (uleb_loop 0 0 d) (\<lambda>(value, d). if value > MAX_U32_NUMBER then Inl ValueOutOfRange else Inr (value, d))"

definition Deserializer_deserializeBytes :: "buffer get" where
  "Deserializer_deserializeBytes d =
     bindE (Deserializer_deserializeUleb128AsU32 d) (\<lambda>(len, d). Deserializer_read (nat len) d)"

definition Deserializer_deserializeFixedBytes :: "nat \<Rightarrow> buffer get" where
  "Deserializer_deserializeFixedBytes len = Deserializer_read len"

definition Deserializer_deserializeStr :: "string get" where
  "Deserializer_deserializeStr d =
     bindE (Deserializer_deserializeBytes d) (\<lambda>(value, d). Inr (text_decode value, d))"

text \<open>A loop of \<open>n\<close> reads whose results are pushed on an array.\<close>

primrec get_times :: "nat \<Rightarrow> 'a get \<Rightarrow> 'a list get" where
  "get_times 0 f d = Inr ([], d)"
| "get_times (Suc n) f d = bindE (f d) (\<lambda>(x, d). bindE (get_times n f d) (\<lambda>(xs, d). Inr (x # xs, d)))"

definition Deserializer_deserializeVector :: "'a get \<Rightarrow> 'a list get" where
  "Deserializer_deserializeVector cls d =
     bindE (Deserializer_deserializeUleb128AsU32 d) (\<lambda>(len, d). get_times (nat len) cls d)"

end
