(* ===== verification/Aptos_Bcs_Codec.thy ===== *)
theory Aptos_Bcs_Codec
  imports Aptos_Bcs Btc_Number
begin

text \<open>
  What the serializer of coin-aptos adds to its bytes and what the deserializer takes from its own:
  \<open>emits f bs\<close> says that the step \<open>f\<close> succeeds on every serializer, however full its buffer is, and adds
  the bytes \<open>bs\<close> to those it holds; \<open>consumes f bs v\<close> that the step \<open>f\<close> in front of the bytes \<open>bs\<close> gives
  \<open>v\<close> and leaves what follows. The locale \<open>bcs\<close> is the contract of a class with both methods.
\<close>

named_theorems emit_intros \<open>what the steps of a serializer add\<close>
named_theorems consume_intros \<open>what the steps of a deserializer take\<close>

section \<open>The buffer that grows\<close>

definition wf_sr :: "serializer \<Rightarrow> bool" where
  "wf_sr s \<longleftrightarrow> sr_buffer s \<noteq> [] \<and> sr_offset s \<le> length (sr_buffer s)"

lemma ensure_ok:
  "wf_sr s \<Longrightarrow> \<exists>s'. ensureBufferWillHandleSize n s = Inr s' \<and> wf_sr s' \<and> sr_offset s' = sr_offset s \<and>
     sr_offset s + n \<le> length (sr_buffer s') \<and> Serializer_toUint8Array s' = Serializer_toUint8Array s"
proof (induction n s rule: ensureBufferWillHandleSize.induct)
  case (1 n s)
  show ?case
  proof (cases "length (sr_buffer s) < sr_offset s + n")
    case True
    let ?t = "s\<lparr>sr_buffer := buf_copy (sr_buffer s) (buf_alloc (length (sr_buffer s) * 2)) 0\<rparr>"
    have b: "sr_buffer ?t = sr_buffer s @ buf_alloc (length (sr_buffer s))"
      by (simp add: buf_copy_def buf_alloc_def drop_replicate)
    have "wf_sr ?t" "Serializer_toUint8Array ?t = Serializer_toUint8Array s"
      using 1(2) unfolding wf_sr_def Serializer_toUint8Array_def b by simp_all
    moreover have "ensureBufferWillHandleSize n s = ensureBufferWillHandleSize n ?t"
      using True 1(2) by (subst ensureBufferWillHandleSize.simps) (simp add: wf_sr_def)
    ultimately show ?thesis using 1(1) [OF True] 1(2) by (simp add: wf_sr_def)
  next
    case False
    then show ?thesis using 1(2) by (subst ensureBufferWillHandleSize.simps) simp
  qed
qed

definition emits :: "put \<Rightarrow> buffer \<Rightarrow> bool" where
  "emits f bs \<longleftrightarrow> (\<forall>s. wf_sr s \<longrightarrow>
     (\<exists>s'. f s = Inr s' \<and> wf_sr s' \<and> Serializer_toUint8Array s' = Serializer_toUint8Array s @ bs))"

lemma emitsE:
  assumes "emits f bs" and "wf_sr s"
  obtains s' where "f s = Inr s'" "wf_sr s'" "Serializer_toUint8Array s' = Serializer_toUint8Array s @ bs"
  using assms by (auto simp: emits_def)

lemma emits_put [emit_intros]: "emits (Serializer_appendToBuffer bs) bs"
  unfolding emits_def
proof (intro allI impI)
  fix s assume "wf_sr s"
  then obtain t where "ensureBufferWillHandleSize (length bs) s = Inr t" "wf_sr t" "sr_offset t = sr_offset s"
    "sr_offset s + length bs \<le> length (sr_buffer t)" "Serializer_toUint8Array t = Serializer_toUint8Array s"
    using ensure_ok by blast
  then show "\<exists>s'. Serializer_appendToBuffer bs s = Inr s' \<and> wf_sr s' \<and>
      Serializer_toUint8Array s' = Serializer_toUint8Array s @ bs"
    using \<open>wf_sr s\<close> by (auto simp: Serializer_appendToBuffer_def wf_sr_def buf_copy_def Serializer_toUint8Array_def)
qed

lemma with_function_append: "Serializer_serializeWithFunction n v = Serializer_appendToBuffer (le_bytes n v)"
proof (rule ext)
  fix s
  have "sr_offset t + n \<le> length (sr_buffer t)" if "ensureBufferWillHandleSize n s = Inr t" for t
    using that by (induction n s rule: ensureBufferWillHandleSize.induct)
      (subst (asm) (2) ensureBufferWillHandleSize.simps, auto split: if_splits)
  then show "Serializer_serializeWithFunction n v s = Serializer_appendToBuffer (le_bytes n v) s"
    by (auto simp: Serializer_serializeWithFunction_def Serializer_appendToBuffer_def Buffer_put_def buf_copy_def
        intro!: bindE_cong)
qed

lemma emits_bind [emit_intros]:
  assumes "emits f as" and "emits g bs"
  shows "emits (\<lambda>s. bindE (f s) g) (as @ bs)"
  unfolding emits_def
proof (intro allI impI)
  fix s assume "wf_sr s"
  with assms(1) obtain t where t: "f s = Inr t" "wf_sr t" "Serializer_toUint8Array t = Serializer_toUint8Array s @ as"
    by (rule emitsE)
  from assms(2) t(2) obtain u where "g t = Inr u" "wf_sr u" "Serializer_toUint8Array u = Serializer_toUint8Array t @ bs"
    by (rule emitsE)
  with t show "\<exists>s'. bindE (f s) g = Inr s' \<and> wf_sr s' \<and> Serializer_toUint8Array s' = Serializer_toUint8Array s @ as @ bs"
    by simp
qed

lemma emits_skip: "emits Inr []"
  by (simp add: emits_def)

lemma emits_fold: "(\<And>x. x \<in> set xs \<Longrightarrow> emits (f x) (h x)) \<Longrightarrow> emits (foldE f xs) (concat (map h xs))"
proof (induction xs)
  case (Cons x xs)
  have "foldE f (x # xs) = (\<lambda>s. bindE (f x s) (foldE f xs))" by auto
  then show ?case using emits_bind [of "f x" "h x" "foldE f xs" "concat (map h xs)"] Cons by simp
qed (simp add: emits_def)

lemma emits_range:
  "emits (f v) bs \<Longrightarrow> lo \<le> v \<Longrightarrow> v \<le> hi \<Longrightarrow> emits (checkNumberRange lo hi f v) bs"
  by (simp add: checkNumberRange_def [abs_def] validateNumberInRange_def emits_def)

lemma emits_to_bytes: "emits f bs \<Longrightarrow> bcsToBytes f = Inr bs"
proof -
  let ?s = "\<lparr>sr_buffer = buf_alloc 64, sr_offset = 0\<rparr>"
  assume "emits f bs"
  moreover have "wf_sr ?s" by (simp add: wf_sr_def buf_alloc_def)
  ultimately obtain t where "f ?s = Inr t" "Serializer_toUint8Array t = Serializer_toUint8Array ?s @ bs" by (rule emitsE)
  then show ?thesis by (simp add: bcsToBytes_def new_Serializer_def Serializer_toUint8Array_def)
qed

section \<open>The bytes that are read\<close>

definition ds_at :: "deserializer \<Rightarrow> buffer \<Rightarrow> bool" where
  "ds_at d bs \<longleftrightarrow> ds_offset d \<le> length (ds_buffer d) \<and> drop (ds_offset d) (ds_buffer d) = bs"

definition consumes :: "'a get \<Rightarrow> buffer \<Rightarrow> 'a \<Rightarrow> bool" where
  "consumes f bs v \<longleftrightarrow> (\<forall>d rest. ds_at d (bs @ rest) \<longrightarrow> (\<exists>d'. f d = Inr (v, d') \<and> ds_at d' rest))"

lemma consumesE:
  assumes "consumes f bs v" and "ds_at d (bs @ rest)"
  obtains d' where "f d = Inr (v, d')" "ds_at d' rest"
  using assms by (auto simp: consumes_def)

lemma ds_at_new: "ds_at (new_Deserializer bs) bs"
  by (simp add: ds_at_def new_Deserializer_def)

lemma consumes_read [consume_intros]: "length bs = n \<Longrightarrow> consumes (Deserializer_read n) bs bs"
  unfolding consumes_def
proof (intro allI impI)
  fix d rest assume n: "length bs = n" and "ds_at d (bs @ rest)"
  then have o: "ds_offset d \<le> length (ds_buffer d)" and d: "drop (ds_offset d) (ds_buffer d) = bs @ rest"
    by (simp_all add: ds_at_def)
  have "length (ds_buffer d) - ds_offset d = n + length rest" using arg_cong [OF d, of length] n by simp
  with o have "ds_offset d + n \<le> length (ds_buffer d)" by linarith
  moreover have "drop (ds_offset d + n) (ds_buffer d) = rest"
    using arg_cong [OF d, of "drop n"] n by (simp add: add.commute)
  ultimately show "\<exists>d'. Deserializer_read n d = Inr (bs, d') \<and> ds_at d' rest"
    using d n by (simp add: Deserializer_read_def ds_at_def)
qed

lemma consumes_bind:
  assumes "consumes f as x" and "consumes (g x) bs y"
  shows "consumes (\<lambda>d. bindE (f d) (\<lambda>(v, d :: deserializer). g v d)) (as @ bs) y"
  unfolding consumes_def
proof (intro allI impI)
  fix d rest assume "ds_at d ((as @ bs) @ rest)"
  then have "ds_at d (as @ (bs @ rest))" by simp
  with assms(1) obtain e where e: "f d = Inr (x, e)" "ds_at e (bs @ rest)" by (rule consumesE)
  from assms(2) e(2) obtain e' where "g x e = Inr (y, e')" "ds_at e' rest" by (rule consumesE)
  with e(1) show "\<exists>d'. bindE (f d) (\<lambda>(v, d). g v d) = Inr (y, d') \<and> ds_at d' rest" by simp
qed

lemma consumes_return: "consumes (\<lambda>d. Inr (v, d)) [] v"
  by (simp add: consumes_def)

lemma consumes_then:
  assumes "consumes f bs x" and "\<And>d. g x d = Inr (y, d)"
  shows "consumes (\<lambda>d. bindE (f d) (\<lambda>(v, d :: deserializer). g v d)) bs y"
  using consumes_bind [of f bs x g "[]" y] consumes_return [of y] assms by (simp add: consumes_def)

lemma consumes_map:
  assumes "consumes f bs x" and "h x = y"
  shows "consumes (\<lambda>d. bindE (f d) (\<lambda>(v, d :: deserializer). Inr (h v, d))) bs y"
  by (rule consumes_then [OF assms(1)]) (simp add: assms(2))

lemma consumes_times:
  assumes "\<And>x. x \<in> set xs \<Longrightarrow> consumes f (h x) (k x)" and "n = length xs"
  shows "consumes (get_times n f) (concat (map h xs)) (map k xs)"
  using assms
proof (induction xs arbitrary: n)
  case Nil
  then show ?case by (simp add: consumes_def)
next
  case (Cons x xs)
  have r: "consumes (\<lambda>d. bindE (get_times (length xs) f d) (\<lambda>(xs, d). Inr (k x # xs, d))) (concat (map h xs)) (k x # map k xs)"
    by (rule consumes_map [where x = "map k xs"]) (use Cons in simp_all)
  have "consumes (\<lambda>d. bindE (f d) (\<lambda>(x, d). bindE (get_times (length xs) f d) (\<lambda>(xs, d). Inr (x # xs, d))))
      (h x @ concat (map h xs)) (k x # map k xs)"
    by (rule consumes_bind [where x = "k x"]) (use Cons r in simp_all)
  then show ?case using Cons(3) by (simp add: consumes_def)
qed

text \<open>What is read back is determined by the bytes, and so is what follows it.\<close>

lemma consumes_prefix_free:
  assumes "consumes f as x" and "consumes f bs y" and "as @ r = bs @ t"
  shows "x = y \<and> r = t"
proof -
  have at: "ds_at (new_Deserializer (as @ r)) (as @ r)" by (rule ds_at_new)
  obtain d where d: "f (new_Deserializer (as @ r)) = Inr (x, d)" "ds_at d r" using consumesE [OF assms(1) at] .
  obtain e where "f (new_Deserializer (as @ r)) = Inr (y, e)" "ds_at e t"
    using consumesE [OF assms(2), of "new_Deserializer (as @ r)" t] at assms(3) by auto
  with d show ?thesis by (auto simp: ds_at_def)
qed

section \<open>Numbers\<close>

lemma emits_bool [emit_intros]: "emits (Serializer_serializeBool b) [if b then 1 else 0]"
  unfolding Serializer_serializeBool_def by (rule emits_put)

lemma emits_u8 [emit_intros]: "0 \<le> v \<Longrightarrow> v < 2 ^ 8 \<Longrightarrow> emits (Serializer_serializeU8 v) (le_bytes 1 v)"
  unfolding Serializer_serializeU8_def
  by (rule emits_range) (use emits_put [of "[word_of_int v]"] in \<open>simp_all add: MAX_U8_NUMBER_def\<close>)

lemma emits_u16 [emit_intros]: "0 \<le> v \<Longrightarrow> v < 2 ^ 16 \<Longrightarrow> emits (Serializer_serializeU16 v) (le_bytes 2 v)"
  unfolding Serializer_serializeU16_def with_function_append
  by (rule emits_range) (simp_all add: MAX_U16_NUMBER_def emits_put)

lemma emits_u32 [emit_intros]: "0 \<le> v \<Longrightarrow> v < 2 ^ 32 \<Longrightarrow> emits (Serializer_serializeU32 v) (le_bytes 4 v)"
  unfolding Serializer_serializeU32_def with_function_append
  by (rule emits_range) (simp_all add: MAX_U32_NUMBER_def emits_put)

text \<open>A number of \<open>2 * k\<close> bits and its two halves.\<close>

lemma halves:
  fixes v :: int
  assumes v: "0 \<le> v" "v < 2 ^ (2 * k)" and k: "k = 8 * n"
  shows "v div 2 ^ k < 2 ^ k" "le_bytes (2 * n) v = le_bytes n (v mod 2 ^ k) @ le_bytes n (v div 2 ^ k)"
proof -
  have p: "(256 :: int) ^ n = 2 ^ k" unfolding k power_mult by simp
  have "v div 2 ^ k div 2 ^ k = v div 2 ^ (2 * k)" by (simp add: mult_2 power_add zdiv_zmult2_eq)
  also have "\<dots> = 0" using v by (rule div_pos_pos_trivial)
  finally show "v div 2 ^ k < 2 ^ k" using zero_less_power [of "2 :: int" k] unfolding zdiv_eq_0_iff by linarith
  show "le_bytes (2 * n) v = le_bytes n (v mod 2 ^ k) @ le_bytes n (v div 2 ^ k)"
    unfolding mult_2 le_bytes_add using le_bytes_mod [of n v] by (simp add: p)
qed

lemma emits_halves:
  fixes v :: int
  assumes f: "\<And>x. 0 \<le> x \<Longrightarrow> x < 2 ^ k \<Longrightarrow> emits (f x) (le_bytes n x)" and k: "k = 8 * n"
    and v: "0 \<le> v" "v < 2 ^ (2 * k)" and m: "m = mask k"
  shows "emits (\<lambda>s. bindE (f (v AND m) s) (f (drop_bit k v))) (le_bytes (2 * n) v)"
proof -
  have "v AND m = v mod 2 ^ k" by (simp add: m take_bit_eq_mod flip: take_bit_eq_mask)
  then show ?thesis unfolding halves(2) [OF v k] drop_bit_eq_div
    using v halves(1) [OF v k] by (intro emits_bind f) (simp_all add: pos_imp_zdiv_nonneg_iff f)
qed

lemma max_masks: "MAX_U32_NUMBER = mask 32" "MAX_U64_BIG_INT = mask 64" "MAX_U128_BIG_INT = mask 128"
  by (simp_all add: MAX_U32_NUMBER_def MAX_U64_BIG_INT_def MAX_U128_BIG_INT_def mask_eq_exp_minus_1)

lemma emits_u64 [emit_intros]:
  assumes "0 \<le> v" and "v < 2 ^ 64"
  shows "emits (Serializer_serializeU64 v) (le_bytes 8 v)"
proof -
  have "emits (\<lambda>s. bindE (Serializer_serializeU32 (v AND MAX_U32_NUMBER) s) (Serializer_serializeU32 (drop_bit 32 v))) (le_bytes (2 * 4) v)"
    by (rule emits_halves [where k = 32, OF emits_u32]) (use assms in \<open>simp_all add: max_masks\<close>)
  then show ?thesis unfolding Serializer_serializeU64_def Let_def
    by (intro emits_range) (use assms in \<open>simp_all add: MAX_U64_BIG_INT_def\<close>)
qed

lemma emits_u128 [emit_intros]:
  assumes "0 \<le> v" and "v < 2 ^ 128"
  shows "emits (Serializer_serializeU128 v) (le_bytes 16 v)"
proof -
  have "emits (\<lambda>s. bindE (Serializer_serializeU64 (v AND MAX_U64_BIG_INT) s) (Serializer_serializeU64 (drop_bit 64 v))) (le_bytes (2 * 8) v)"
    by (rule emits_halves [where k = 64, OF emits_u64]) (use assms in \<open>simp_all add: max_masks\<close>)
  then show ?thesis unfolding Serializer_serializeU128_def Let_def
    by (intro emits_range) (use assms in \<open>simp_all add: MAX_U128_BIG_INT_def\<close>)
qed

lemma emits_u256 [emit_intros]:
  assumes "0 \<le> v" and "v < 2 ^ 256"
  shows "emits (Serializer_serializeU256 v) (le_bytes 32 v)"
proof -
  have "emits (\<lambda>s. bindE (Serializer_serializeU128 (v AND MAX_U128_BIG_INT) s) (Serializer_serializeU128 (drop_bit 128 v))) (le_bytes (2 * 16) v)"
    by (rule emits_halves [where k = 128, OF emits_u128]) (use assms in \<open>simp_all add: max_masks\<close>)
  then show ?thesis unfolding Serializer_serializeU256_def Let_def
    by (intro emits_range) (use assms in \<open>simp_all add: MAX_U256_BIG_INT_def\<close>)
qed

lemma consumes_le:
  assumes "0 \<le> v" and "v < 256 ^ n"
  shows "consumes (\<lambda>d. bindE (Deserializer_read n d) (\<lambda>(b, d). Inr (le_val b, d))) (le_bytes n v) v"
  by (rule consumes_map, rule consumes_read) (simp_all add: le_val_id assms)

lemma consumes_u8 [consume_intros]: "0 \<le> v \<Longrightarrow> v < 2 ^ 8 \<Longrightarrow> consumes Deserializer_deserializeU8 (le_bytes 1 v) v"
  using consumes_le [of v 1] by (simp add: Deserializer_deserializeU8_def [abs_def])

lemma consumes_u16 [consume_intros]: "0 \<le> v \<Longrightarrow> v < 2 ^ 16 \<Longrightarrow> consumes Deserializer_deserializeU16 (le_bytes 2 v) v"
  using consumes_le [of v 2] unfolding Deserializer_deserializeU16_def [abs_def] by simp

lemma consumes_u32 [consume_intros]: "0 \<le> v \<Longrightarrow> v < 2 ^ 32 \<Longrightarrow> consumes Deserializer_deserializeU32 (le_bytes 4 v) v"
  using consumes_le [of v 4] unfolding Deserializer_deserializeU32_def [abs_def] by simp

lemma consumes_bool [consume_intros]: "consumes Deserializer_deserializeBool [if b then 1 else 0] b"
proof -
  have "consumes (\<lambda>d. let v = le_val [if b then 1 else 0] in if v \<noteq> 1 \<and> v \<noteq> 0 then Inl InvalidData else Inr (v = 1, d)) [] b"
    by (simp add: consumes_return)
  then show ?thesis unfolding Deserializer_deserializeBool_def [abs_def]
    using consumes_bind [of "Deserializer_read 1" "[if b then 1 else 0]"] consumes_read [of "[if b then 1 else 0]" 1]
    by fastforce
qed

lemma consumes_halves:
  fixes v :: int
  assumes f: "\<And>x. 0 \<le> x \<Longrightarrow> x < 2 ^ k \<Longrightarrow> consumes f (le_bytes n x) x" and k: "k = 8 * n"
    and v: "0 \<le> v" "v < 2 ^ (2 * k)"
  shows "consumes (\<lambda>d. bindE (f d) (\<lambda>(low, d). bindE (f d) (\<lambda>(high, d). Inr (push_bit k high OR low, d)))) (le_bytes (2 * n) v) v"
proof -
  note h = halves [OF v k]
  have "push_bit k (v div 2 ^ k) OR (v mod 2 ^ k) = v"
    using or_shifted [of "v mod 2 ^ k" k "v div 2 ^ k"] by (simp add: or.commute mod_mult_div_eq)
  then show ?thesis unfolding h(2)
    by (intro consumes_bind [where x = "v mod 2 ^ k"] consumes_map [where x = "v div 2 ^ k"] f) (use h(1) v in \<open>simp_all add: pos_imp_zdiv_nonneg_iff\<close>)
qed

lemma consumes_u64 [consume_intros]:
  assumes "0 \<le> v" and "v < 2 ^ 64"
  shows "consumes Deserializer_deserializeU64 (le_bytes 8 v) v"
proof -
  have "consumes Deserializer_deserializeU64 (le_bytes (2 * 4) v) v"
    unfolding Deserializer_deserializeU64_def [abs_def]
    by (rule consumes_halves [where k = 32, OF consumes_u32]) (use assms in simp_all)
  then show ?thesis by simp
qed

lemma consumes_u128 [consume_intros]:
  assumes "0 \<le> v" and "v < 2 ^ 128"
  shows "consumes Deserializer_deserializeU128 (le_bytes 16 v) v"
proof -
  have "consumes Deserializer_deserializeU128 (le_bytes (2 * 8) v) v"
    unfolding Deserializer_deserializeU128_def [abs_def]
    by (rule consumes_halves [where k = 64, OF consumes_u64]) (use assms in simp_all)
  then show ?thesis by simp
qed

lemma consumes_u256 [consume_intros]:
  assumes "0 \<le> v" and "v < 2 ^ 256"
  shows "consumes Deserializer_deserializeU256 (le_bytes 32 v) v"
proof -
  have "consumes Deserializer_deserializeU256 (le_bytes (2 * 16) v) v"
    unfolding Deserializer_deserializeU256_def [abs_def]
    by (rule consumes_halves [where k = 128, OF consumes_u128]) (use assms in simp_all)
  then show ?thesis by simp
qed

section \<open>Lengths and tags\<close>

text \<open>Seven bits in a byte, the low ones first, with the high bit set on all but the last.\<close>

fun uleb_bytes :: "nat \<Rightarrow> buffer" where
  "uleb_bytes n = (if n < 128 then [word_of_nat n] else word_of_nat (n mod 128 + 128) # uleb_bytes (n div 128))"

declare uleb_bytes.simps [simp del]

lemma uleb_array_bytes: "n < 2 ^ 32 \<Longrightarrow> map word_of_int (uleb_array (int n)) = uleb_bytes n"
proof (induction n rule: uleb_bytes.induct)
  case (1 n)
  have u: "js_ushr (int n) 7 = int (n div 128)" using 1(2) by (simp add: js_ushr_def drop_bit_eq_div zdiv_int)
  have a: "js_and (int n) 0x7f = int (n mod 128)" using js_and_mask [of 7 "int n"] by (simp add: zmod_int)
  have "js_or (int (n mod 128)) 0x80 = int (n mod 128 + 128)"
  proof -
    have "int (n mod 128) OR push_bit 7 1 = int (n mod 128) + 2 ^ 7 * 1" by (rule or_shifted) simp_all
    then show ?thesis by (simp add: js_or_def to_int32_id push_bit_eq_mult)
  qed
  then show ?case using 1 u a
    by (subst uleb_array.simps, subst uleb_bytes.simps) (auto simp: div_eq_0_iff)
qed

lemma length_uleb_bytes: "0 < length (uleb_bytes n)"
  by (subst uleb_bytes.simps) simp

lemma emits_uleb [emit_intros]:
  "n < 2 ^ 32 \<Longrightarrow> emits (Serializer_serializeU32AsUleb128 (int n)) (uleb_bytes n)"
  unfolding Serializer_serializeU32AsUleb128_def
  by (rule emits_range) (simp_all add: MAX_U32_NUMBER_def uleb_array_bytes emits_put)

lemma consumes_uleb_loop:
  assumes "acc < 2 ^ k" and "acc < 2 ^ 32 - 1" and "acc + n * 2 ^ k < 2 ^ 32"
  shows "consumes (uleb_loop (int acc) k) (uleb_bytes n) (int (acc + n * 2 ^ k))"
  using assms
proof (induction n arbitrary: acc k rule: uleb_bytes.induct)
  case (1 n)
  show ?case
    unfolding consumes_def
  proof (intro allI impI)
    fix d rest
    assume d: "ds_at d (uleb_bytes n @ rest)"
    define m where "m = n mod 128"
    have m: "m < 128" "n = m + n div 128 * 128" unfolding m_def by simp_all
    let ?b = "if n < 128 then m else m + 128"
    have b: "uleb_bytes n = le_bytes 1 (int ?b) @ (if n < 128 then [] else uleb_bytes (n div 128))"
      by (subst uleb_bytes.simps) (simp add: m_def)
    from d obtain e where e: "Deserializer_deserializeU8 d = Inr (int ?b, e)"
      "ds_at e ((if n < 128 then [] else uleb_bytes (n div 128)) @ rest)"
      unfolding b append_assoc using m(1) by (elim consumesE [OF consumes_u8, rotated 2]) auto
    have v: "int acc OR push_bit k (int ?b AND 0x7f) = int (acc + m * 2 ^ k)"
    proof -
      have "x AND 0x7f = x mod 2 ^ 7" for x :: int
        unfolding take_bit_eq_mod [symmetric] take_bit_eq_mask by (simp add: mask_eq_exp_minus_1)
      then have "int ?b AND 0x7f = int ?b mod 2 ^ 7" .
      then have "int ?b AND 0x7f = int m" using m(1) by (auto simp: zmod_int)
      then show ?thesis using or_shifted [of "int acc" k "int m"] 1(2) by (simp add: mult.commute)
    qed
    have t: "int ?b AND 0x80 = 0 \<longleftrightarrow> n < 128"
    proof -
      have "(int ?b AND 0x80 = 0) = (\<not> bit (int ?b) 7)"
        using and_exp_eq_0_iff_not_bit [of "int ?b" 7] by simp
      also have "\<dots> = even (int ?b div 128)" by (simp add: bit_iff_odd)
      finally show ?thesis using m(1) div_pos_pos_trivial [of "int m" 128] by (auto simp: div_add_self2)
    qed
    have l: "uleb_loop (int acc) k d =
        (if n < 128 then Inr (int (acc + m * 2 ^ k), e) else uleb_loop (int (acc + m * 2 ^ k)) (k + 7) e)"
      unfolding uleb_loop.simps [of "int acc" k d] e(1) bindE_simps Let_def fst_conv snd_conv v t
      using 1(3) by (simp add: MAX_U32_NUMBER_def)
    show "\<exists>d'. uleb_loop (int acc) k d = Inr (int (acc + n * 2 ^ k), d') \<and> ds_at d' rest"
    proof (cases "n < 128")
      case True
      then show ?thesis using l e(2) by (simp add: m_def)
    next
      case False
      let ?acc = "acc + m * 2 ^ k"
      have s: "?acc + n div 128 * 2 ^ (k + 7) = acc + n * 2 ^ k"
        by (subst (2) m(2)) (simp add: algebra_simps power_add)
      have "(m + 1) * 2 ^ k \<le> 128 * 2 ^ k" by (rule mult_le_mono1) (use m(1) in simp)
      then have "?acc < 128 * 2 ^ k" unfolding add_mult_distrib using 1(2) by linarith
      then have a: "?acc < 2 ^ (k + 7)" by (simp add: power_add)
      have "1 * 2 ^ (k + 7) \<le> n div 128 * 2 ^ (k + 7)" using False by (intro mult_le_mono1) auto
      then have "?acc + 1 \<le> acc + n * 2 ^ k" using s one_le_power [of "2 :: nat" "k + 7"] by linarith
      then have b: "?acc < 2 ^ 32 - 1" using 1(4) by linarith
      have "consumes (uleb_loop (int ?acc) (k + 7)) (uleb_bytes (n div 128)) (int (acc + n * 2 ^ k))"
        using 1(1) [OF False a b] 1(4) s by simp
      then show ?thesis using False l e(2) by (auto elim: consumesE)
    qed
  qed
qed

lemma consumes_uleb [consume_intros]:
  assumes "n < 2 ^ 32"
  shows "consumes Deserializer_deserializeUleb128AsU32 (uleb_bytes n) (int n)"
proof -
  have "consumes (\<lambda>d. if int n > MAX_U32_NUMBER then Inl ValueOutOfRange else Inr (int n, d)) [] (int n)"
    using assms by (simp add: MAX_U32_NUMBER_def consumes_return)
  moreover have "consumes (uleb_loop 0 0) (uleb_bytes n) (int n)"
    using consumes_uleb_loop [of 0 0 n] assms by simp
  ultimately show ?thesis unfolding Deserializer_deserializeUleb128AsU32_def [abs_def]
    using consumes_bind [of "uleb_loop 0 0" "uleb_bytes n" "int n" _ "[]" "int n"] by simp
qed

definition len_bytes :: "buffer \<Rightarrow> buffer" where
  "len_bytes b = uleb_bytes (length b) @ b"

definition vec_bytes :: "('a \<Rightarrow> buffer) \<Rightarrow> 'a list \<Rightarrow> buffer" where
  "vec_bytes bytes vs = uleb_bytes (length vs) @ concat (map bytes vs)"

lemma emits_bytes [emit_intros]: "length b < 2 ^ 32 \<Longrightarrow> emits (Serializer_serializeBytes b) (len_bytes b)"
  unfolding Serializer_serializeBytes_def [abs_def] len_bytes_def by (intro emit_intros)

lemma consumes_bytes [consume_intros]:
  "length b < 2 ^ 32 \<Longrightarrow> consumes Deserializer_deserializeBytes (len_bytes b) b"
  unfolding Deserializer_deserializeBytes_def [abs_def] len_bytes_def
  by (rule consumes_bind [where x = "int (length b)"]) (simp_all add: consume_intros)

section \<open>Texts\<close>

definition utf8_ok :: "string \<Rightarrow> bool" where \<comment> \<open>well-formed, without a byte order mark in front\<close>
  "utf8_ok s \<longleftrightarrow> text_decode (text_encode s) = s"

definition str_ok :: "string \<Rightarrow> bool" where
  "str_ok s \<longleftrightarrow> length s < 2 ^ 32 \<and> utf8_ok s"

definition str_bytes :: "string \<Rightarrow> buffer" where
  "str_bytes s = len_bytes (text_encode s)"

lemma length_text_encode [simp]: "length (text_encode s) = length s"
  by (simp add: text_encode_def)

lemma byte_chars_encode: "byte_chars (text_encode s) = s"
  by (induction s) (simp_all add: byte_chars_def text_encode_def code_of_def unat_of_nat)

lemma ascii_utf8_ok: "list_all (\<lambda>c. code_of c < 128) s \<Longrightarrow> utf8_ok s"
proof -
  assume s: "list_all (\<lambda>c. code_of c < 128) s"
  then have u: "unat (word_of_nat (code_of c) :: byte) = code_of c" "code_of c < 128" if "c \<in> set s" for c
    using that by (auto simp: list_all_iff unat_of_nat)
  have "utf8_decode 0 0x80 0xBF [] (text_encode s) = text_encode s"
    using u by (induction s) (simp_all add: text_encode_def utf8_first_def)
  moreover have "take 3 (text_encode s) \<noteq> [0xEF, 0xBB, 0xBF]"
  proof
    assume "take 3 (text_encode s) = [0xEF, 0xBB, 0xBF]"
    then obtain c r where "s = c # r" "(word_of_nat (code_of c) :: byte) = 0xEF" by (cases s) (auto simp: text_encode_def)
    then show False using u [of c] by simp
  qed
  ultimately show ?thesis by (simp add: utf8_ok_def text_decode_def byte_chars_encode)
qed

lemma emits_str [emit_intros]: "str_ok s \<Longrightarrow> emits (Serializer_serializeStr s) (str_bytes s)"
  by (simp add: Serializer_serializeStr_def str_bytes_def str_ok_def emits_bytes)

lemma consumes_str [consume_intros]: "str_ok s \<Longrightarrow> consumes Deserializer_deserializeStr (str_bytes s) s"
  unfolding Deserializer_deserializeStr_def [abs_def] str_bytes_def
  by (rule consumes_map, rule consumes_bytes) (simp_all add: str_ok_def utf8_ok_def)

text \<open>An array of objects, behind their number.\<close>

definition vec_ok :: "('a \<Rightarrow> bool) \<Rightarrow> 'a list \<Rightarrow> bool" where
  "vec_ok ok vs \<longleftrightarrow> length vs < 2 ^ 32 \<and> list_all ok vs"

lemma emits_array:
  assumes "length vs < 2 ^ 32" and "\<And>v. v \<in> set vs \<Longrightarrow> emits (ser v) (bytes v)"
  shows "emits (Serializer_serializeVector ser vs) (vec_bytes bytes vs)"
  unfolding Serializer_serializeVector_def [abs_def] vec_bytes_def
  by (intro emits_bind emits_uleb emits_fold assms)

lemma consumes_array:
  assumes "length vs < 2 ^ 32" and "\<And>v. v \<in> set vs \<Longrightarrow> consumes de (bytes v) (seen v)"
  shows "consumes (Deserializer_deserializeVector de) (vec_bytes bytes vs) (map seen vs)"
  unfolding Deserializer_deserializeVector_def [abs_def] vec_bytes_def
  by (rule consumes_bind [where x = "int (length vs)"], rule consumes_uleb [OF assms(1)], rule consumes_times)
    (simp_all add: assms)

section \<open>The contract of a serializable class\<close>

text \<open>
  A class with the method \<open>serialize\<close> and the static method \<open>deserialize\<close>: for the objects that are \<open>ok\<close>,
  \<open>serialize\<close> adds their \<open>bytes\<close>, from which \<open>deserialize\<close> makes the object \<open>seen v\<close>.
\<close>

locale bcs =
  fixes ser :: "'a \<Rightarrow> put" and de :: "'b get"
    and bytes :: "'a \<Rightarrow> buffer" and seen :: "'a \<Rightarrow> 'b" and ok :: "'a \<Rightarrow> bool"
  assumes emits_value: "ok v \<Longrightarrow> emits (ser v) (bytes v)"
    and consumes_value: "ok v \<Longrightarrow> consumes de (bytes v) (seen v)"
begin

lemma to_bytes: "ok v \<Longrightarrow> bcsToBytes (ser v) = Inr (bytes v)"
  by (rule emits_to_bytes, rule emits_value)

lemma round_trip: "ok v \<Longrightarrow> \<exists>d. de (new_Deserializer (bytes v @ rest)) = Inr (seen v, d) \<and> ds_at d rest"
  using consumesE [OF consumes_value ds_at_new] by metis

lemma prefix_free: "ok v \<Longrightarrow> ok w \<Longrightarrow> bytes v @ r = bytes w @ t \<Longrightarrow> seen v = seen w \<and> r = t"
  by (rule consumes_prefix_free [OF consumes_value consumes_value])

lemma emits_vector: "vec_ok ok vs \<Longrightarrow> emits (Serializer_serializeVector ser vs) (vec_bytes bytes vs)"
  by (rule emits_array) (auto simp: vec_ok_def list_all_iff intro: emits_value)

lemma consumes_vector: "vec_ok ok vs \<Longrightarrow> consumes (Deserializer_deserializeVector de) (vec_bytes bytes vs) (map seen vs)"
  by (rule consumes_array) (auto simp: vec_ok_def list_all_iff intro: consumes_value)

end

interpretation u8_bcs: bcs Serializer_serializeU8 Deserializer_deserializeU8 "le_bytes 1" "\<lambda>v. v" "\<lambda>v. 0 \<le> v \<and> v < 2 ^ 8"
  by unfold_locales (blast intro: emits_u8 consumes_u8)+

interpretation u64_bcs: bcs Serializer_serializeU64 Deserializer_deserializeU64 "le_bytes 8" "\<lambda>v. v" "\<lambda>v. 0 \<le> v \<and> v < 2 ^ 64"
  by unfold_locales (blast intro: emits_u64 consumes_u64)+

interpretation str_bcs: bcs Serializer_serializeStr Deserializer_deserializeStr str_bytes "\<lambda>v. v" str_ok
  by unfold_locales (blast intro: emits_str consumes_str)+

end
