(* ===== verification/Aptos_Core.thy ===== *)
theory Aptos_Core
  imports Aptos_Bcs
begin

text \<open>
  Addresses, hexadecimal texts, authentication keys, public keys and signatures of coin-aptos
  (v2/core). An object that only wraps its bytes is those bytes. \<open>h2b\<close> and \<open>b2h\<close> are \<open>hexToBytes\<close>
  (\<open>None\<close> where it throws) and \<open>bytesToHex\<close> of @noble/hashes, \<open>sha3\<close> is SHA3-256, and the functions
  \<open>ed\<close> and \<open>secp\<close> verify a signature of a message by a key (@noble/curves).
\<close>

section \<open>Hexadecimal texts (hex.ts)\<close>

definition thrown :: "'e \<Rightarrow> 'r + 'a \<Rightarrow> 'e + 'a" where \<comment> \<open>an error of one type as one of another\<close>
  "thrown e m = (case m of Inl _ \<Rightarrow> Inl e | Inr v \<Rightarrow> Inr v)"

lemma thrown_simps [simp]: "thrown e (Inr v) = Inr v" "thrown e (Inl r) = Inl e"
  by (simp_all add: thrown_def)

datatype hex_reason = HexTooShort | HexInvalidLength | HexInvalidChars

datatype hex_input = HexText string | HexBytes buffer

definition without_0x :: "string \<Rightarrow> string" where
  "without_0x s = (if take 2 s = ''0x'' then drop 2 s else s)"

definition Hex_fromHexString :: "(string \<Rightarrow> buffer option) \<Rightarrow> string \<Rightarrow> hex_reason + buffer" where
  "Hex_fromHexString h2b str =
     (let input = without_0x str
      in if input = [] then Inl HexTooShort
         else if length input mod 2 \<noteq> 0 then Inl HexInvalidLength
         else case h2b input of None \<Rightarrow> Inl HexInvalidChars | Some b \<Rightarrow> Inr b)"

definition Hex_fromHexInput :: "(string \<Rightarrow> buffer option) \<Rightarrow> hex_input \<Rightarrow> hex_reason + buffer" where
  "Hex_fromHexInput h2b hexInput =
     (case hexInput of HexBytes b \<Rightarrow> Inr b | HexText s \<Rightarrow> Hex_fromHexString h2b s)"

definition Hex_toString :: "(buffer \<Rightarrow> string) \<Rightarrow> buffer \<Rightarrow> string" where
  "Hex_toString b2h data = ''0x'' @ b2h data"

definition Hex_isValid :: "(string \<Rightarrow> buffer option) \<Rightarrow> string \<Rightarrow> hex_reason option" where \<comment> \<open>\<open>None\<close>: valid\<close>
  "Hex_isValid h2b str = (case Hex_fromHexString h2b str of Inl r \<Rightarrow> Some r | Inr _ \<Rightarrow> None)"

definition bytes_equal :: "buffer \<Rightarrow> buffer \<Rightarrow> bool" where \<comment> \<open>\<open>equals\<close> of \<open>Hex\<close> and \<open>AccountAddress\<close>\<close>
  "bytes_equal a b = (if length a \<noteq> length b then False else list_all2 (=) a b)"

section \<open>Addresses (accountAddress.ts)\<close>

datatype address_reason =
    IncorrectNumberOfBytes | InvalidHexChars | TooShort | TooLong | LeadingZeroXRequired
  | LongFormRequiredUnlessSpecial | InvalidPaddingZeroes

type_synonym account_address = buffer

definition new_AccountAddress :: "buffer \<Rightarrow> address_reason + account_address" where
  "new_AccountAddress input = (if length input \<noteq> 32 then Inl IncorrectNumberOfBytes else Inr input)"

definition AccountAddress_isSpecial :: "account_address \<Rightarrow> bool" where
  "AccountAddress_isSpecial a \<longleftrightarrow> list_all (\<lambda>b. b = 0) (butlast a) \<and> uint (last a) < 16"

definition AccountAddress_toStringWithoutPrefix :: "(buffer \<Rightarrow> string) \<Rightarrow> account_address \<Rightarrow> string" where
  "AccountAddress_toStringWithoutPrefix b2h a =
     (let hex = b2h a in if AccountAddress_isSpecial a then [last hex] else hex)"

definition AccountAddress_toString :: "(buffer \<Rightarrow> string) \<Rightarrow> account_address \<Rightarrow> string" where
  "AccountAddress_toString b2h a = ''0x'' @ AccountAddress_toStringWithoutPrefix b2h a"

definition AccountAddress_toStringLong :: "(buffer \<Rightarrow> string) \<Rightarrow> account_address \<Rightarrow> string" where
  "AccountAddress_toStringLong b2h a = ''0x'' @ b2h a"

definition AccountAddress_serialize :: "account_address \<Rightarrow> put" where
  "AccountAddress_serialize a = Serializer_serializeFixedBytes a"

definition AccountAddress_deserialize :: "account_address get" where
  "AccountAddress_deserialize d =
     bindE (Deserializer_deserializeFixedBytes 32 d) (\<lambda>(bytes, d).
     bindE (thrown InvalidSize (new_AccountAddress bytes)) (\<lambda>a. Inr (a, d)))"

definition str_padStart :: "nat \<Rightarrow> char \<Rightarrow> string \<Rightarrow> string" where
  "str_padStart n c s = replicate (n - length s) c @ s"

definition AccountAddress_fromString :: "(string \<Rightarrow> buffer option) \<Rightarrow> string \<Rightarrow> address_reason + account_address" where
  "AccountAddress_fromString h2b input =
     (let parsedInput = without_0x input
      in if length parsedInput = 0 then Inl TooShort
         else if length parsedInput > 64 then Inl TooLong
         else case h2b (str_padStart 64 (CHR ''0'') parsedInput) of
                None \<Rightarrow> Inl InvalidHexChars
              | Some addressBytes \<Rightarrow> new_AccountAddress addressBytes)"

definition AccountAddress_fromStringStrict ::
    "(string \<Rightarrow> buffer option) \<Rightarrow> string \<Rightarrow> address_reason + account_address" where
  "AccountAddress_fromStringStrict h2b input =
     (if take 2 input \<noteq> ''0x'' then Inl LeadingZeroXRequired
      else bindE (AccountAddress_fromString h2b input) (\<lambda>address.
        if length input \<noteq> 66
        then if \<not> AccountAddress_isSpecial address then Inl LongFormRequiredUnlessSpecial
             else if length input \<noteq> 3 then Inl InvalidPaddingZeroes
             else Inr address
        else Inr address))"

definition AccountAddress_from :: "(string \<Rightarrow> buffer option) \<Rightarrow> bool \<Rightarrow> hex_input \<Rightarrow> address_reason + account_address" where
  \<comment> \<open>\<open>from\<close>, and \<open>fromStrict\<close> where the flag is set, of what is no address already\<close>
  "AccountAddress_from h2b strict input =
     (case input of
        HexBytes b \<Rightarrow> new_AccountAddress b
      | HexText s \<Rightarrow> if strict then AccountAddress_fromStringStrict h2b s else AccountAddress_fromString h2b s)"

definition AccountAddress_isValid :: "(string \<Rightarrow> buffer option) \<Rightarrow> bool \<Rightarrow> hex_input \<Rightarrow> address_reason option" where
  "AccountAddress_isValid h2b strict input =
     (case AccountAddress_from h2b strict input of Inl r \<Rightarrow> Some r | Inr _ \<Rightarrow> None)"

definition address_ONE :: account_address where
  "address_ONE = replicate 31 0 @ [1]"

definition createObjectAddress :: "(buffer \<Rightarrow> buffer) \<Rightarrow> account_address \<Rightarrow> buffer \<Rightarrow> address_reason + account_address" where
  \<comment> \<open>of the bytes of the seed\<close>
  "createObjectAddress sha3 creatorAddress seedBytes = new_AccountAddress (sha3 (creatorAddress @ seedBytes @ [254]))"

definition createResourceAddress :: "(buffer \<Rightarrow> buffer) \<Rightarrow> account_address \<Rightarrow> buffer \<Rightarrow> address_reason + account_address" where
  "createResourceAddress sha3 creatorAddress seedBytes = new_AccountAddress (sha3 (creatorAddress @ seedBytes @ [255]))"

definition createTokenAddress ::
    "(buffer \<Rightarrow> buffer) \<Rightarrow> account_address \<Rightarrow> string \<Rightarrow> string \<Rightarrow> address_reason + account_address" where
  "createTokenAddress sha3 creatorAddress collectionName tokenName =
     createObjectAddress sha3 creatorAddress (text_encode (collectionName @ ''::'' @ tokenName))"

section \<open>Authentication keys (authenticationKey.ts)\<close>

definition sized :: "nat \<Rightarrow> buffer \<Rightarrow> buffer res" where \<comment> \<open>the check of the constructors of keys\<close>
  "sized n b = (if length b \<noteq> n then Inl InvalidSize else Inr b)"

definition AuthenticationKey_serialize :: "buffer \<Rightarrow> put" where
  "AuthenticationKey_serialize data = Serializer_serializeFixedBytes data"

definition AuthenticationKey_deserialize :: "buffer get" where
  "AuthenticationKey_deserialize d =
     bindE (Deserializer_deserializeFixedBytes 32 d) (\<lambda>(bytes, d). bindE (sized 32 bytes) (\<lambda>k. Inr (k, d)))"

definition AuthenticationKey_fromSchemeAndBytes :: "(buffer \<Rightarrow> buffer) \<Rightarrow> byte \<Rightarrow> buffer \<Rightarrow> buffer res" where
  "AuthenticationKey_fromSchemeAndBytes sha3 scheme inputBytes = sized 32 (sha3 (inputBytes @ [scheme]))"

definition AuthenticationKey_derivedAddress :: "buffer \<Rightarrow> address_reason + account_address" where
  "AuthenticationKey_derivedAddress data = new_AccountAddress data"

section \<open>Keys of one scheme (ed25519.ts, secp256k1.ts)\<close>

text \<open>Each class checks the length of its bytes and writes them behind their length.\<close>

definition sized_serialize :: "buffer \<Rightarrow> put" where
  "sized_serialize b = Serializer_serializeBytes b"

definition sized_deserialize :: "nat \<Rightarrow> buffer get" where
  "sized_deserialize n d = bindE (Deserializer_deserializeBytes d) (\<lambda>(bytes, d). bindE (sized n bytes) (\<lambda>k. Inr (k, d)))"

definition new_Ed25519PublicKey :: "buffer \<Rightarrow> buffer res" where "new_Ed25519PublicKey = sized 32"
definition new_Ed25519PrivateKey :: "buffer \<Rightarrow> buffer res" where "new_Ed25519PrivateKey = sized 32"
definition new_Ed25519Signature :: "buffer \<Rightarrow> buffer res" where "new_Ed25519Signature = sized 64"
definition new_Secp256k1PublicKey :: "buffer \<Rightarrow> buffer res" where "new_Secp256k1PublicKey = sized 65"
definition new_Secp256k1PrivateKey :: "buffer \<Rightarrow> buffer res" where "new_Secp256k1PrivateKey = sized 32"
definition new_Secp256k1Signature :: "buffer \<Rightarrow> buffer res" where "new_Secp256k1Signature = sized 64"

text \<open>The order of the base point in little-endian order, the bound of the second half of a signature.\<close>

definition ed_L :: "buffer" where
  "ed_L = [0xed, 0xd3, 0xf5, 0x5c, 0x1a, 0x63, 0x12, 0x58, 0xd6, 0x9c, 0xf7, 0xa2, 0xde, 0xf9, 0xde, 0x14, 0x00, 0x00, 0x00,
    0x00, 0x00, 0x00, 0x00, 0x00, 0x00, 0x00, 0x00, 0x00, 0x00, 0x00, 0x00, 0x10]"

text \<open>The loop from the last byte of \<open>s\<close> down; \<open>L\<close> has as many bytes as a signature has behind its 32nd.\<close>

primrec canonical_loop :: "nat \<Rightarrow> buffer \<Rightarrow> buffer \<Rightarrow> bool" where
  "canonical_loop 0 s L = False"
| "canonical_loop (Suc i) s L =
     (if uint (s ! i) < uint (L ! i) then True
      else if uint (s ! i) > uint (L ! i) then False else canonical_loop i s L)"

definition Ed25519Signature_isCanonicalSignature :: "buffer \<Rightarrow> bool" where
  "Ed25519Signature_isCanonicalSignature sig = (let s = drop 32 sig in canonical_loop (length s) s ed_L)"

definition Ed25519PublicKey_verifySignature ::
    "(buffer \<Rightarrow> buffer \<Rightarrow> buffer \<Rightarrow> bool) \<Rightarrow> buffer \<Rightarrow> buffer \<Rightarrow> buffer \<Rightarrow> bool" where
  "Ed25519PublicKey_verifySignature ed key message signature =
     (if \<not> Ed25519Signature_isCanonicalSignature signature then False else ed signature message key)"

definition Secp256k1PublicKey_verifySignature ::
    "(buffer \<Rightarrow> buffer) \<Rightarrow> (buffer \<Rightarrow> buffer \<Rightarrow> buffer \<Rightarrow> bool) \<Rightarrow> buffer \<Rightarrow> buffer \<Rightarrow> buffer \<Rightarrow> bool" where
  "Secp256k1PublicKey_verifySignature sha3 secp key message signature = secp signature (sha3 message) key"

definition Ed25519PublicKey_authKey :: "(buffer \<Rightarrow> buffer) \<Rightarrow> buffer \<Rightarrow> buffer res" where
  "Ed25519PublicKey_authKey sha3 key = AuthenticationKey_fromSchemeAndBytes sha3 0 key"

section \<open>Keys and signatures of either scheme (singleKey.ts)\<close>

datatype any_public_key = AnyEd25519Key buffer | AnySecp256k1Key buffer

datatype any_signature = AnyEd25519Signature buffer | AnySecp256k1Signature buffer

definition AnyPublicKey_serialize :: "any_public_key \<Rightarrow> put" where
  "AnyPublicKey_serialize k s =
     (case k of
        AnyEd25519Key b \<Rightarrow> bindE (Serializer_serializeU32AsUleb128 0 s) (sized_serialize b)
      | AnySecp256k1Key b \<Rightarrow> bindE (Serializer_serializeU32AsUleb128 1 s) (sized_serialize b))"

definition AnyPublicKey_deserialize :: "any_public_key get" where
  "AnyPublicKey_deserialize d =
     bindE (Deserializer_deserializeUleb128AsU32 d) (\<lambda>(variantIndex, d).
     if variantIndex = 0 then bindE (sized_deserialize 32 d) (\<lambda>(b, d). Inr (AnyEd25519Key b, d))
     else if variantIndex = 1 then bindE (sized_deserialize 65 d) (\<lambda>(b, d). Inr (AnySecp256k1Key b, d))
     else Inl InvalidData)"

definition AnySignature_serialize :: "any_signature \<Rightarrow> put" where
  "AnySignature_serialize k s =
     (case k of
        AnyEd25519Signature b \<Rightarrow> bindE (Serializer_serializeU32AsUleb128 0 s) (sized_serialize b)
      | AnySecp256k1Signature b \<Rightarrow> bindE (Serializer_serializeU32AsUleb128 1 s) (sized_serialize b))"

definition AnySignature_deserialize :: "any_signature get" where
  "AnySignature_deserialize d =
     bindE (Deserializer_deserializeUleb128AsU32 d) (\<lambda>(variantIndex, d).
     if variantIndex = 0 then bindE (sized_deserialize 64 d) (\<lambda>(b, d). Inr (AnyEd25519Signature b, d))
     else if variantIndex = 1 then bindE (sized_deserialize 64 d) (\<lambda>(b, d). Inr (AnySecp256k1Signature b, d))
     else Inl InvalidData)"

definition AnyPublicKey_authKey :: "(buffer \<Rightarrow> buffer) \<Rightarrow> any_public_key \<Rightarrow> buffer res" where
  "AnyPublicKey_authKey sha3 k =
     bindE (bcsToBytes (AnyPublicKey_serialize k)) (AuthenticationKey_fromSchemeAndBytes sha3 2)"

definition AnyPublicKey_verifySignature ::
    "(buffer \<Rightarrow> buffer) \<Rightarrow> (buffer \<Rightarrow> buffer \<Rightarrow> buffer \<Rightarrow> bool) \<Rightarrow> (buffer \<Rightarrow> buffer \<Rightarrow> buffer \<Rightarrow> bool) \<Rightarrow>
     any_public_key \<Rightarrow> buffer \<Rightarrow> any_signature \<Rightarrow> bool" where
  "AnyPublicKey_verifySignature sha3 ed secp k message signature =
     (case (k, signature) of
        (AnyEd25519Key b, AnyEd25519Signature g) \<Rightarrow> Ed25519PublicKey_verifySignature ed b message g
      | (AnySecp256k1Key b, AnySecp256k1Signature g) \<Rightarrow> Secp256k1PublicKey_verifySignature sha3 secp b message g
      | _ \<Rightarrow> False)"

end
