(* ===== verification/Aptos_Type_Tag.thy ===== *)
theory Aptos_Type_Tag
  imports Aptos_Core
begin

text \<open>
  The type tags of coin-aptos (v2/transactions/typeTag): their bytes, their text, and the parser of the
  text, which keeps the types of the open argument lists on a stack. A text is ASCII.
\<close>

section \<open>Type tags (typeTag/index.ts)\<close>

datatype type_tag =
    TypeTagBool | TypeTagU8 | TypeTagU16 | TypeTagU32 | TypeTagU64 | TypeTagU128 | TypeTagU256
  | TypeTagAddress | TypeTagSigner
  | TypeTagReference type_tag
  | TypeTagGeneric int
  | TypeTagVector type_tag
  | TypeTagStruct struct_tag
and struct_tag =
    StructTag (st_address: account_address) (st_moduleName: string) (st_name: string) (st_typeArgs: "type_tag list")

definition new_TypeTagGeneric :: "int \<Rightarrow> type_tag res" where
  "new_TypeTagGeneric value = (if value < 0 then Inl ValueNegative else Inr (TypeTagGeneric value))"

definition Identifier_serialize :: "string \<Rightarrow> put" where
  "Identifier_serialize identifier = Serializer_serializeStr identifier"

definition Identifier_deserialize :: "string get" where
  "Identifier_deserialize = Deserializer_deserializeStr"

fun TypeTag_serialize :: "type_tag \<Rightarrow> put"
  and StructTag_serialize :: "struct_tag \<Rightarrow> put" where
  "TypeTag_serialize TypeTagBool s = Serializer_serializeU32AsUleb128 0 s"
| "TypeTag_serialize TypeTagU8 s = Serializer_serializeU32AsUleb128 1 s"
| "TypeTag_serialize TypeTagU64 s = Serializer_serializeU32AsUleb128 2 s"
| "TypeTag_serialize TypeTagU128 s = Serializer_serializeU32AsUleb128 3 s"
| "TypeTag_serialize TypeTagAddress s = Serializer_serializeU32AsUleb128 4 s"
| "TypeTag_serialize TypeTagSigner s = Serializer_serializeU32AsUleb128 5 s"
| "TypeTag_serialize (TypeTagVector t) s = bindE (Serializer_serializeU32AsUleb128 6 s) (TypeTag_serialize t)"
| "TypeTag_serialize (TypeTagStruct t) s = bindE (Serializer_serializeU32AsUleb128 7 s) (StructTag_serialize t)"
| "TypeTag_serialize TypeTagU16 s = Serializer_serializeU32AsUleb128 8 s"
| "TypeTag_serialize TypeTagU32 s = Serializer_serializeU32AsUleb128 9 s"
| "TypeTag_serialize TypeTagU256 s = Serializer_serializeU32AsUleb128 10 s"
| "TypeTag_serialize (TypeTagReference t) s = Serializer_serializeU32AsUleb128 254 s"
| "TypeTag_serialize (TypeTagGeneric n) s = bindE (Serializer_serializeU32AsUleb128 255 s) (Serializer_serializeU32 n)"
| "StructTag_serialize (StructTag a m n args) s =
     bindE (AccountAddress_serialize a s) (\<lambda>s.
     bindE (Identifier_serialize m s) (\<lambda>s.
     bindE (Identifier_serialize n s) (\<lambda>s.
     Serializer_serializeVector TypeTag_serialize args s)))"

definition StructTag_deserialize_with :: "type_tag get \<Rightarrow> struct_tag get" where
  "StructTag_deserialize_with tag d =
     bindE (AccountAddress_deserialize d) (\<lambda>(address, d).
     bindE (Identifier_deserialize d) (\<lambda>(moduleName, d).
     bindE (Identifier_deserialize d) (\<lambda>(name, d).
     bindE (Deserializer_deserializeVector tag d) (\<lambda>(typeArgs, d).
     Inr (StructTag address moduleName name typeArgs, d)))))"

definition TypeTag_load :: "type_tag get \<Rightarrow> int \<Rightarrow> type_tag get" where \<comment> \<open>the \<open>switch\<close>, and \<open>load\<close> of the classes\<close>
  "TypeTag_load tag index d =
     (if index = 0 then Inr (TypeTagBool, d)
      else if index = 1 then Inr (TypeTagU8, d)
      else if index = 2 then Inr (TypeTagU64, d)
      else if index = 3 then Inr (TypeTagU128, d)
      else if index = 4 then Inr (TypeTagAddress, d)
      else if index = 5 then Inr (TypeTagSigner, d)
      else if index = 6 then bindE (tag d) (\<lambda>(t, d). Inr (TypeTagVector t, d))
      else if index = 7 then bindE (StructTag_deserialize_with tag d) (\<lambda>(t, d). Inr (TypeTagStruct t, d))
      else if index = 8 then Inr (TypeTagU16, d)
      else if index = 9 then Inr (TypeTagU32, d)
      else if index = 10 then Inr (TypeTagU256, d)
      else if index = 255
        then bindE (Deserializer_deserializeU32 d) (\<lambda>(n, d). bindE (new_TypeTagGeneric n) (\<lambda>t. Inr (t, d)))
      else Inl InvalidData)"

text \<open>
  \<open>TypeTag.deserialize\<close> calls itself for the parts of a tag. The fuel bounds the depth of the calls; the
  bytes that are left are enough, as every call takes one before the next.
\<close>

primrec TypeTag_deserialize_fuel :: "nat \<Rightarrow> type_tag get" where
  "TypeTag_deserialize_fuel 0 d = Inl OutOfFuel"
| "TypeTag_deserialize_fuel (Suc fuel) d =
     bindE (Deserializer_deserializeUleb128AsU32 d) (\<lambda>(index, d). TypeTag_load (TypeTag_deserialize_fuel fuel) index d)"

definition TypeTag_deserialize :: "type_tag get" where
  "TypeTag_deserialize d = TypeTag_deserialize_fuel (length (ds_buffer d) - ds_offset d + 1) d"

definition StructTag_deserialize :: "struct_tag get" where
  "StructTag_deserialize = StructTag_deserialize_with TypeTag_deserialize"

definition join_args :: "string list \<Rightarrow> string" where \<comment> \<open>\<open>join(\", \")\<close>\<close>
  "join_args ss = (case ss of [] \<Rightarrow> [] | t # ts \<Rightarrow> t @ concat (map (\<lambda>u. '', '' @ u) ts))"

primrec TypeTag_toString :: "(buffer \<Rightarrow> string) \<Rightarrow> type_tag \<Rightarrow> string"
  and StructTag_toString :: "(buffer \<Rightarrow> string) \<Rightarrow> struct_tag \<Rightarrow> string" where
  "TypeTag_toString b2h TypeTagBool = ''bool''"
| "TypeTag_toString b2h TypeTagU8 = ''u8''"
| "TypeTag_toString b2h TypeTagU16 = ''u16''"
| "TypeTag_toString b2h TypeTagU32 = ''u32''"
| "TypeTag_toString b2h TypeTagU64 = ''u64''"
| "TypeTag_toString b2h TypeTagU128 = ''u128''"
| "TypeTag_toString b2h TypeTagU256 = ''u256''"
| "TypeTag_toString b2h TypeTagAddress = ''address''"
| "TypeTag_toString b2h TypeTagSigner = ''signer''"
| "TypeTag_toString b2h (TypeTagReference t) = ''&'' @ TypeTag_toString b2h t"
| "TypeTag_toString b2h (TypeTagGeneric n) = ''T'' @ to_string_radix 10 n"
| "TypeTag_toString b2h (TypeTagVector t) = ''vector<'' @ TypeTag_toString b2h t @ ''>''"
| "TypeTag_toString b2h (TypeTagStruct t) = StructTag_toString b2h t"
| "StructTag_toString b2h (StructTag a m n args) =
     AccountAddress_toString b2h a @ ''::'' @ m @ ''::'' @ n @
     (if length args > 0 then ''<'' @ join_args (map (TypeTag_toString b2h) args) @ ''>'' else [])"

definition TypeTagStruct_isTypeTag :: "struct_tag \<Rightarrow> account_address \<Rightarrow> string \<Rightarrow> string \<Rightarrow> bool" where
  "TypeTagStruct_isTypeTag t address moduleName structName \<longleftrightarrow>
     st_moduleName t = moduleName \<and> st_name t = structName \<and> bytes_equal (st_address t) address"

definition aptosCoinStructTag :: struct_tag where
  "aptosCoinStructTag = StructTag address_ONE ''aptos_coin'' ''AptosCoin'' []"

definition stringStructTag :: struct_tag where
  "stringStructTag = StructTag address_ONE ''string'' ''String'' []"

definition optionStructTag :: "type_tag \<Rightarrow> struct_tag" where
  "optionStructTag typeArg = StructTag address_ONE ''option'' ''Option'' [typeArg]"

definition objectStructTag :: "type_tag \<Rightarrow> struct_tag" where
  "objectStructTag typeArg = StructTag address_ONE ''object'' ''Object'' [typeArg]"

section \<open>The parser (typeTag/parser.ts)\<close>

datatype parser_error =
    InvalidTypeTag | UnexpectedGenericType | UnexpectedTypeArgumentClose | UnexpectedWhitespaceCharacter
  | UnexpectedComma | TypeArgumentCountMismatch | MissingTypeArgumentClose | UnexpectedPrimitiveTypeArguments
  | UnexpectedVectorTypeArgumentCount | UnexpectedStructFormat | InvalidModuleNameCharacter
  | InvalidStructNameCharacter
  | BadAddress address_reason \<comment> \<open>of \<open>AccountAddress.fromString\<close>\<close>

definition isValidIdentifier :: "string \<Rightarrow> bool" where
  "isValidIdentifier str \<longleftrightarrow> str \<noteq> [] \<and> list_all (\<lambda>c. let k = code_of c in
     k = 95 \<or> (97 \<le> k \<and> k \<le> 122) \<or> (65 \<le> k \<and> k \<le> 90) \<or> is_digit c) str"

definition isValidWhitespaceCharacter :: "char \<Rightarrow> bool" where \<comment> \<open>\<open>\\s\<close> in ASCII\<close>
  "isValidWhitespaceCharacter c \<longleftrightarrow> code_of c \<in> {9, 10, 11, 12, 13, 32}"

definition isGeneric :: "string \<Rightarrow> bool" where
  "isGeneric str \<longleftrightarrow> take 1 str = ''T'' \<and> drop 1 str \<noteq> [] \<and> list_all is_digit (drop 1 str)"

fun split_colons :: "string \<Rightarrow> string list" where \<comment> \<open>\<open>split(\"::\")\<close>\<close>
  "split_colons [] = [[]]"
| "split_colons [c] = [[c]]"
| "split_colons (c # d # s) =
     (if c = CHR '':'' \<and> d = CHR '':'' then [] # split_colons s
      else case split_colons (d # s) of p # ps \<Rightarrow> (c # p) # ps | [] \<Rightarrow> [[c]])"

definition primitive_tag :: "string \<Rightarrow> type_tag option" where
  "primitive_tag str =
     (if str = ''&signer'' then Some (TypeTagReference TypeTagSigner)
      else if str = ''signer'' then Some TypeTagSigner
      else if str = ''bool'' then Some TypeTagBool
      else if str = ''address'' then Some TypeTagAddress
      else if str = ''u8'' then Some TypeTagU8
      else if str = ''u16'' then Some TypeTagU16
      else if str = ''u32'' then Some TypeTagU32
      else if str = ''u64'' then Some TypeTagU64
      else if str = ''u128'' then Some TypeTagU128
      else if str = ''u256'' then Some TypeTagU256
      else None)"

definition parseTypeTagInner ::
    "(string \<Rightarrow> buffer option) \<Rightarrow> string \<Rightarrow> type_tag list \<Rightarrow> bool \<Rightarrow> parser_error + type_tag" where
  "parseTypeTagInner h2b str types allowGenerics =
     (case primitive_tag str of
        Some t \<Rightarrow> if length types > 0 then Inl UnexpectedPrimitiveTypeArguments else Inr t
      | None \<Rightarrow>
          if str = ''vector''
          then if length types \<noteq> 1 then Inl UnexpectedVectorTypeArgumentCount else Inr (TypeTagVector (types ! 0))
          else if isGeneric str
          then if allowGenerics then Inr (TypeTagGeneric (to_number (int (digits_val 10 (drop 1 str)))))
               else Inl UnexpectedGenericType
          else if CHR '':'' \<notin> set str then Inl InvalidTypeTag
          else let structParts = split_colons str in
            if length structParts \<noteq> 3 then Inl UnexpectedStructFormat
            else if \<not> isValidIdentifier (structParts ! 1) then Inl InvalidModuleNameCharacter
            else if \<not> isValidIdentifier (structParts ! 2) then Inl InvalidStructNameCharacter
            else case AccountAddress_fromString h2b (structParts ! 0) of
                   Inl r \<Rightarrow> Inl (BadAddress r)
                 | Inr a \<Rightarrow> Inr (TypeTagStruct (StructTag a (structParts ! 1) (structParts ! 2) types)))"

text \<open>
  The state of the loop; \<open>cur\<close> is the text that is left. A stack entry has the number of types expected,
  the text and the types of the outer level.
\<close>

record tag_parser =
  tp_saved :: "(nat \<times> string \<times> type_tag list) list"
  tp_innerTypes :: "type_tag list"
  tp_curTypes :: "type_tag list"
  tp_currentStr :: string
  tp_expectedTypes :: nat

definition new_tag_parser :: tag_parser where
  "new_tag_parser =
     \<lparr>tp_saved = [], tp_innerTypes = [], tp_curTypes = [], tp_currentStr = [], tp_expectedTypes = 1\<rparr>"

definition push_tag :: "(string \<Rightarrow> buffer option) \<Rightarrow> bool \<Rightarrow> tag_parser \<Rightarrow> parser_error + tag_parser" where
  "push_tag h2b allowGenerics st =
     bindE (parseTypeTagInner h2b (tp_currentStr st) (tp_innerTypes st) allowGenerics) (\<lambda>newType.
     Inr (st\<lparr>tp_curTypes := tp_curTypes st @ [newType]\<rparr>))"

definition parse_open :: "tag_parser \<Rightarrow> tag_parser" where \<comment> \<open>at \<open><\<close>\<close>
  "parse_open st =
     st\<lparr>tp_saved := (tp_expectedTypes st, tp_currentStr st, tp_curTypes st) # tp_saved st,
        tp_currentStr := [], tp_curTypes := [], tp_expectedTypes := 1\<rparr>"

definition parse_close :: "(string \<Rightarrow> buffer option) \<Rightarrow> bool \<Rightarrow> tag_parser \<Rightarrow> parser_error + tag_parser" where \<comment> \<open>at \<open>>\<close>\<close>
  "parse_close h2b allowGenerics st =
     bindE (if tp_currentStr st \<noteq> [] then push_tag h2b allowGenerics st else Inr st) (\<lambda>st.
     case tp_saved st of
       [] \<Rightarrow> Inl UnexpectedTypeArgumentClose
     | (savedExpectedTypes, savedStr, savedTypes) # saved \<Rightarrow>
         if tp_expectedTypes st \<noteq> length (tp_curTypes st) then Inl TypeArgumentCountMismatch
         else Inr (st\<lparr>tp_saved := saved, tp_innerTypes := tp_curTypes st, tp_curTypes := savedTypes,
                tp_currentStr := savedStr, tp_expectedTypes := savedExpectedTypes\<rparr>))"

definition parse_comma :: "(string \<Rightarrow> buffer option) \<Rightarrow> bool \<Rightarrow> tag_parser \<Rightarrow> parser_error + tag_parser" where
  "parse_comma h2b allowGenerics st =
     (if length (tp_currentStr st) \<noteq> 0
      then bindE (push_tag h2b allowGenerics st) (\<lambda>st.
           Inr (st\<lparr>tp_innerTypes := [], tp_currentStr := [], tp_expectedTypes := tp_expectedTypes st + 1\<rparr>))
      else Inr st)"

definition parse_space :: "(string \<Rightarrow> buffer option) \<Rightarrow> bool \<Rightarrow> tag_parser \<Rightarrow> parser_error + tag_parser \<times> bool" where
  \<comment> \<open>and whether a type was parsed\<close>
  "parse_space h2b allowGenerics st =
     (if length (tp_currentStr st) \<noteq> 0
      then bindE (push_tag h2b allowGenerics st) (\<lambda>st. Inr (st\<lparr>tp_innerTypes := [], tp_currentStr := []\<rparr>, True))
      else Inr (st, False))"

function parse_loop :: "(string \<Rightarrow> buffer option) \<Rightarrow> bool \<Rightarrow> tag_parser \<Rightarrow> string \<Rightarrow> parser_error + tag_parser" where
  "parse_loop h2b allowGenerics st [] = Inr st"
| "parse_loop h2b allowGenerics st (c # cs) =
     (if c = CHR ''<'' then parse_loop h2b allowGenerics (parse_open st) cs
      else if c = CHR ''>''
        then bindE (parse_close h2b allowGenerics st) (\<lambda>st. parse_loop h2b allowGenerics st cs)
      else if c = CHR '',''
        then bindE (parse_comma h2b allowGenerics st) (\<lambda>st. parse_loop h2b allowGenerics st cs)
      else if isValidWhitespaceCharacter c
        then bindE (parse_space h2b allowGenerics st) (\<lambda>p.
             let rest = dropWhile isValidWhitespaceCharacter cs
             in if rest \<noteq> [] \<and> snd p \<and> hd rest \<noteq> CHR '','' \<and> hd rest \<noteq> CHR ''>''
                then Inl UnexpectedWhitespaceCharacter
                else parse_loop h2b allowGenerics (fst p) rest)
      else parse_loop h2b allowGenerics (st\<lparr>tp_currentStr := tp_currentStr st @ [c]\<rparr>) cs)"
  by pat_completeness auto

termination
  by (relation "measure (\<lambda>(h2b, g, st, cs). length cs)") (auto simp: le_imp_less_Suc length_dropWhile_le)

definition parseTypeTag :: "(string \<Rightarrow> buffer option) \<Rightarrow> string \<Rightarrow> bool \<Rightarrow> parser_error + type_tag" where
  "parseTypeTag h2b typeStr allowGenerics =
     bindE (parse_loop h2b allowGenerics new_tag_parser typeStr) (\<lambda>st.
     if length (tp_saved st) > 0 then Inl MissingTypeArgumentClose
     else if length (tp_curTypes st) = 0
       then parseTypeTagInner h2b (tp_currentStr st) (tp_innerTypes st) allowGenerics
     else if length (tp_curTypes st) = 1
       then if tp_currentStr st = [] then Inr (tp_curTypes st ! 0) else Inl UnexpectedComma
     else Inl UnexpectedWhitespaceCharacter)"

end
