(* ===== verification/Aptos_Tag_Codec.thy ===== *)
theory Aptos_Tag_Codec
  imports Aptos_Bcs_Codec Aptos_Type_Tag
begin

text \<open>
  Addresses and type tags of coin-aptos as bytes: what is written is what is read, and reading a type
  tag ends on every input, as every call of \<open>TypeTag.deserialize\<close> takes a byte before the next.
\<close>

section \<open>Addresses\<close>

definition address_ok :: "account_address \<Rightarrow> bool" where
  "address_ok a \<longleftrightarrow> length a = 32"

lemma emits_address [emit_intros]: "emits (AccountAddress_serialize a) a"
  unfolding AccountAddress_serialize_def [abs_def] Serializer_serializeFixedBytes_def by (rule emits_put)

lemma consumes_checked:
  assumes "consumes f bs x" and "g x = Inr y"
  shows "consumes (\<lambda>d. bindE (f d) (\<lambda>(v, d :: deserializer). bindE (g v) (\<lambda>w. Inr (w, d)))) bs y"
  by (rule consumes_then [OF assms(1)]) (simp add: assms(2))

lemma consumes_address [consume_intros]: "address_ok a \<Longrightarrow> consumes AccountAddress_deserialize a a"
  unfolding AccountAddress_deserialize_def [abs_def] Deserializer_deserializeFixedBytes_def
  by (rule consumes_checked, rule consumes_read) (simp_all add: address_ok_def new_AccountAddress_def)

interpretation address_bcs: bcs AccountAddress_serialize AccountAddress_deserialize "\<lambda>a. a" "\<lambda>a. a" address_ok
  by unfold_locales (simp_all add: emits_address consumes_address)

section \<open>Type tags\<close>

primrec tag_bytes :: "type_tag \<Rightarrow> buffer" and struct_bytes :: "struct_tag \<Rightarrow> buffer" where
  "tag_bytes TypeTagBool = [0]"
| "tag_bytes TypeTagU8 = [1]"
| "tag_bytes TypeTagU64 = [2]"
| "tag_bytes TypeTagU128 = [3]"
| "tag_bytes TypeTagAddress = [4]"
| "tag_bytes TypeTagSigner = [5]"
| "tag_bytes (TypeTagVector t) = 6 # tag_bytes t"
| "tag_bytes (TypeTagStruct t) = 7 # struct_bytes t"
| "tag_bytes TypeTagU16 = [8]"
| "tag_bytes TypeTagU32 = [9]"
| "tag_bytes TypeTagU256 = [10]"
| "tag_bytes (TypeTagReference t) = [254, 1]"
| "tag_bytes (TypeTagGeneric n) = [255, 1] @ le_bytes 4 n"
| "struct_bytes (StructTag a m n args) = a @ str_bytes m @ str_bytes n @ uleb_bytes (length args) @ concat (map tag_bytes args)"

primrec tag_ok :: "type_tag \<Rightarrow> bool" and struct_ok :: "struct_tag \<Rightarrow> bool" where
  "tag_ok TypeTagBool = True"
| "tag_ok TypeTagU8 = True"
| "tag_ok TypeTagU64 = True"
| "tag_ok TypeTagU128 = True"
| "tag_ok TypeTagAddress = True"
| "tag_ok TypeTagSigner = True"
| "tag_ok (TypeTagVector t) = tag_ok t"
| "tag_ok (TypeTagStruct t) = struct_ok t"
| "tag_ok TypeTagU16 = True"
| "tag_ok TypeTagU32 = True"
| "tag_ok TypeTagU256 = True"
| "tag_ok (TypeTagReference t) = False"
| "tag_ok (TypeTagGeneric n) = (0 \<le> n \<and> n < 2 ^ 32)"
| "struct_ok (StructTag a m n args) =
     (address_ok a \<and> str_ok m \<and> str_ok n \<and> length args < 2 ^ 32 \<and> list_all (\<lambda>b. b) (map tag_ok args))"

lemma uleb_small: "n < 128 \<Longrightarrow> uleb_bytes n = [word_of_nat n]"
  by (subst uleb_bytes.simps) simp

lemma emits_tag_number: "n < 128 \<Longrightarrow> emits (Serializer_serializeU32AsUleb128 (int n)) [word_of_nat n]"
  using emits_uleb [of n] by (simp add: uleb_small)

lemma emits_two:
  "emits (Serializer_serializeU32AsUleb128 255) [255, 1]" "emits (Serializer_serializeU32AsUleb128 254) [254, 1]"
  using emits_uleb [of 255] emits_uleb [of 254] by (simp_all add: uleb_bytes.simps)

lemma emits_tagged: "n < 128 \<Longrightarrow> emits f bs \<Longrightarrow> emits (\<lambda>s. bindE (Serializer_serializeU32AsUleb128 (int n) s) f) (word_of_nat n # bs)"
  using emits_bind [OF emits_tag_number] by fastforce

lemma tag_serialize_abs:
  "TypeTag_serialize (TypeTagVector t) = (\<lambda>s. bindE (Serializer_serializeU32AsUleb128 6 s) (TypeTag_serialize t))"
  "TypeTag_serialize (TypeTagStruct st) = (\<lambda>s. bindE (Serializer_serializeU32AsUleb128 7 s) (StructTag_serialize st))"
  "TypeTag_serialize (TypeTagGeneric n) = (\<lambda>s. bindE (Serializer_serializeU32AsUleb128 255 s) (Serializer_serializeU32 n))"
  "StructTag_serialize (StructTag a m k args) =
     (\<lambda>s. bindE (AccountAddress_serialize a s) (\<lambda>s. bindE (Serializer_serializeStr m s) (\<lambda>s.
        bindE (Serializer_serializeStr k s) (Serializer_serializeVector TypeTag_serialize args))))"
  by (rule ext, simp add: Identifier_serialize_def)+

lemma emits_type_tag:
  "tag_ok t \<Longrightarrow> emits (TypeTag_serialize t) (tag_bytes t)"
  "struct_ok st \<Longrightarrow> emits (StructTag_serialize st) (struct_bytes st)"
proof (induction t and st)
  case (TypeTagVector t)
  then show ?case using emits_tagged [of 6] by (simp add: tag_serialize_abs)
next
  case (TypeTagStruct st)
  then show ?case using emits_tagged [of 7] by (simp add: tag_serialize_abs)
next
  case (TypeTagGeneric n)
  then show ?case using emits_bind [OF emits_two(1) emits_u32] by (simp add: tag_serialize_abs)
next
  case (StructTag a m k args)
  have "emits (Serializer_serializeVector TypeTag_serialize args) (vec_bytes tag_bytes args)"
    using StructTag by (intro emits_array) (auto simp: list_all_iff)
  then show ?case using StructTag.prems
    by (auto simp: tag_serialize_abs vec_bytes_def intro!: emits_bind emits_address emits_str)
qed (use emits_tag_number [of 0] emits_tag_number [of 1] emits_tag_number [of 2] emits_tag_number [of 3]
  emits_tag_number [of 4] emits_tag_number [of 5] emits_tag_number [of 8] emits_tag_number [of 9]
  emits_tag_number [of 10] in \<open>simp_all add: emits_def\<close>)

text \<open>The depth of the calls.\<close>

primrec tag_depth :: "type_tag \<Rightarrow> nat" and struct_depth :: "struct_tag \<Rightarrow> nat" where
  "tag_depth TypeTagBool = 1"
| "tag_depth TypeTagU8 = 1"
| "tag_depth TypeTagU64 = 1"
| "tag_depth TypeTagU128 = 1"
| "tag_depth TypeTagAddress = 1"
| "tag_depth TypeTagSigner = 1"
| "tag_depth (TypeTagVector t) = tag_depth t + 1"
| "tag_depth (TypeTagStruct t) = struct_depth t + 1"
| "tag_depth TypeTagU16 = 1"
| "tag_depth TypeTagU32 = 1"
| "tag_depth TypeTagU256 = 1"
| "tag_depth (TypeTagReference t) = 1"
| "tag_depth (TypeTagGeneric n) = 1"
| "struct_depth (StructTag a m n args) = sum_list (map tag_depth args)"

lemma tag_depth_bytes: "tag_depth t \<le> length (tag_bytes t)" "struct_depth st \<le> length (struct_bytes st)"
proof (induction t and st)
  case (StructTag a m n args)
  have "sum_list (map tag_depth args) \<le> (\<Sum>t\<leftarrow>args. length (tag_bytes t))"
    using StructTag by (intro sum_list_mono) auto
  then show ?case by (simp add: length_concat comp_def)
qed simp_all

lemma consumes_tagged:
  assumes "n < 2 ^ 32" and "consumes (g (int n)) bs y"
  shows "consumes (\<lambda>d. bindE (Deserializer_deserializeUleb128AsU32 d) (\<lambda>(index, d :: deserializer). g index d))
    (uleb_bytes n @ bs) y"
  by (rule consumes_bind, rule consumes_uleb) (rule assms)+

lemma fuel_abs:
  "TypeTag_deserialize_fuel (Suc fuel) =
    (\<lambda>d. bindE (Deserializer_deserializeUleb128AsU32 d) (\<lambda>(index, d). TypeTag_load (TypeTag_deserialize_fuel fuel) index d))"
  by (rule ext) simp

declare TypeTag_deserialize_fuel.simps(2) [simp del]

lemma consumes_load:
  assumes "n < 128" and "consumes (TypeTag_load (TypeTag_deserialize_fuel fuel) (int n)) bs t"
  shows "consumes (TypeTag_deserialize_fuel (Suc fuel)) (word_of_nat n # bs) t"
  using consumes_tagged [of n "TypeTag_load (TypeTag_deserialize_fuel fuel)" bs t] assms
  by (simp add: fuel_abs uleb_small)

lemma load_abs:
  "TypeTag_load tag 6 = (\<lambda>d. bindE (tag d) (\<lambda>(t, d). Inr (TypeTagVector t, d)))"
  "TypeTag_load tag 7 = (\<lambda>d. bindE (StructTag_deserialize_with tag d) (\<lambda>(t, d). Inr (TypeTagStruct t, d)))"
  "TypeTag_load tag 255 =
    (\<lambda>d. bindE (Deserializer_deserializeU32 d) (\<lambda>(n, d). bindE (new_TypeTagGeneric n) (\<lambda>t. Inr (t, d))))"
  by (rule ext, simp add: TypeTag_load_def)+

lemma consumes_leaf:
  assumes "0 < fuel"
  shows
    "consumes (TypeTag_deserialize_fuel fuel) [0] TypeTagBool"
    "consumes (TypeTag_deserialize_fuel fuel) [1] TypeTagU8"
    "consumes (TypeTag_deserialize_fuel fuel) [2] TypeTagU64"
    "consumes (TypeTag_deserialize_fuel fuel) [3] TypeTagU128"
    "consumes (TypeTag_deserialize_fuel fuel) [4] TypeTagAddress"
    "consumes (TypeTag_deserialize_fuel fuel) [5] TypeTagSigner"
    "consumes (TypeTag_deserialize_fuel fuel) [8] TypeTagU16"
    "consumes (TypeTag_deserialize_fuel fuel) [9] TypeTagU32"
    "consumes (TypeTag_deserialize_fuel fuel) [10] TypeTagU256"
proof -
  obtain f where f: "fuel = Suc f" using assms by (cases fuel) auto
  have leaf: "consumes (TypeTag_deserialize_fuel fuel) [word_of_nat n] t"
    if "n < 128" and "\<And>d. TypeTag_load (TypeTag_deserialize_fuel f) (int n) d = Inr (t, d)" for n t
    using consumes_load [of n f "[]" t] that by (simp add: f consumes_def)
  show
    "consumes (TypeTag_deserialize_fuel fuel) [0] TypeTagBool"
    "consumes (TypeTag_deserialize_fuel fuel) [1] TypeTagU8"
    "consumes (TypeTag_deserialize_fuel fuel) [2] TypeTagU64"
    "consumes (TypeTag_deserialize_fuel fuel) [3] TypeTagU128"
    "consumes (TypeTag_deserialize_fuel fuel) [4] TypeTagAddress"
    "consumes (TypeTag_deserialize_fuel fuel) [5] TypeTagSigner"
    "consumes (TypeTag_deserialize_fuel fuel) [8] TypeTagU16"
    "consumes (TypeTag_deserialize_fuel fuel) [9] TypeTagU32"
    "consumes (TypeTag_deserialize_fuel fuel) [10] TypeTagU256"
    using leaf [of 0 TypeTagBool] leaf [of 1 TypeTagU8] leaf [of 2 TypeTagU64] leaf [of 3 TypeTagU128] leaf [of 4 TypeTagAddress] leaf [of 5 TypeTagSigner] leaf [of 8 TypeTagU16] leaf [of 9 TypeTagU32] leaf [of 10 TypeTagU256]
    by (simp_all add: TypeTag_load_def)
qed

lemma consumes_struct:
  assumes "address_ok a" "str_ok m" "str_ok k" "consumes de bs args"
  shows "consumes (\<lambda>d. bindE (AccountAddress_deserialize d) (\<lambda>(address, d). bindE (Deserializer_deserializeStr d) (\<lambda>(moduleName, d).
      bindE (Deserializer_deserializeStr d) (\<lambda>(name, d). bindE (de d) (\<lambda>(typeArgs, d :: deserializer).
      Inr (StructTag address moduleName name typeArgs, d))))))
    (a @ str_bytes m @ str_bytes k @ bs) (StructTag a m k args)"
  by (rule consumes_bind, rule consumes_address, rule assms, rule consumes_bind, rule consumes_str, rule assms,
      rule consumes_bind, rule consumes_str, rule assms, rule consumes_map, rule assms, rule refl)

lemma consumes_type_tag_fuel:
  "tag_ok t \<Longrightarrow> tag_depth t \<le> fuel \<Longrightarrow> consumes (TypeTag_deserialize_fuel fuel) (tag_bytes t) t"
  "struct_ok st \<Longrightarrow> struct_depth st \<le> fuel \<Longrightarrow>
    consumes (StructTag_deserialize_with (TypeTag_deserialize_fuel fuel)) (struct_bytes st) st"
proof (induction t and st arbitrary: fuel and fuel)
  case (TypeTagVector t)
  then obtain f where f: "fuel = Suc f" "tag_depth t \<le> f" by (cases fuel) auto
  have "consumes (TypeTag_load (TypeTag_deserialize_fuel f) (int 6)) (tag_bytes t) (TypeTagVector t)"
    using TypeTagVector f by (auto simp: load_abs intro!: consumes_map)
  then show ?case using consumes_load [of 6 f] f by simp
next
  case (TypeTagStruct st)
  then obtain f where f: "fuel = Suc f" "struct_depth st \<le> f" by (cases fuel) auto
  have "consumes (TypeTag_load (TypeTag_deserialize_fuel f) (int 7)) (struct_bytes st) (TypeTagStruct st)"
    using TypeTagStruct f by (auto simp: load_abs intro!: consumes_map)
  then show ?case using consumes_load [of 7 f] f by simp
next
  case (TypeTagGeneric n)
  then obtain f where f: "fuel = Suc f" by (cases fuel) auto
  have "consumes (TypeTag_load (TypeTag_deserialize_fuel f) (int 255)) (le_bytes 4 n) (TypeTagGeneric n)"
    using TypeTagGeneric by (auto simp: load_abs new_TypeTagGeneric_def intro!: consumes_checked consumes_u32)
  then show ?case using consumes_tagged [of 255 "TypeTag_load (TypeTag_deserialize_fuel f)"] f
    by (simp add: fuel_abs uleb_bytes.simps)
next
  case (StructTag a m k args)
  have "tag_depth t \<le> fuel" if "t \<in> set args" for t
    using that StructTag.prems(2) member_le_sum_list [of "tag_depth t" "map tag_depth args"] by simp
  then have "consumes (Deserializer_deserializeVector (TypeTag_deserialize_fuel fuel)) (vec_bytes tag_bytes args) args"
    using StructTag consumes_array [of args "TypeTag_deserialize_fuel fuel" tag_bytes "\<lambda>t. t"]
    by (auto simp: list_all_iff)
  moreover have "address_ok a" "str_ok m" "str_ok k" using StructTag.prems by auto
  ultimately show ?case
    unfolding StructTag_deserialize_with_def [abs_def] Identifier_deserialize_def struct_bytes.simps vec_bytes_def [symmetric]
    by (intro consumes_struct)
qed (simp_all add: consumes_leaf)

lemma consumes_type_tag [consume_intros]: "tag_ok t \<Longrightarrow> consumes TypeTag_deserialize (tag_bytes t) t"
  unfolding consumes_def
proof (intro allI impI)
  fix d rest assume t: "tag_ok t" and d: "ds_at d (tag_bytes t @ rest)"
  have "length (ds_buffer d) - ds_offset d = length (tag_bytes t) + length rest"
    using d by (auto simp: ds_at_def dest: arg_cong [of _ _ length])
  then have "tag_depth t \<le> length (ds_buffer d) - ds_offset d + 1" using tag_depth_bytes(1) [of t] by linarith
  from consumes_type_tag_fuel(1) [OF t this] d
  show "\<exists>d'. TypeTag_deserialize d = Inr (t, d') \<and> ds_at d' rest"
    unfolding TypeTag_deserialize_def by (rule consumesE) blast
qed

interpretation tag_bcs: bcs TypeTag_serialize TypeTag_deserialize tag_bytes "\<lambda>t. t" tag_ok
  by unfold_locales (simp_all add: emits_type_tag consumes_type_tag)

section \<open>Reading ends\<close>

definition ds_left :: "deserializer \<Rightarrow> nat" where
  "ds_left d = length (ds_buffer d) - ds_offset d"

definition safe :: "nat \<Rightarrow> 'a get \<Rightarrow> bool" where
  \<comment> \<open>with at most \<open>n\<close> bytes left the fuel is not used up, and none are put back\<close>
  "safe n f \<longleftrightarrow> (\<forall>d. ds_left d \<le> n \<longrightarrow>
     f d \<noteq> Inl OutOfFuel \<and> (\<forall>v d'. f d = Inr (v, d') \<longrightarrow> ds_left d' \<le> ds_left d))"

lemma safe_bind:
  assumes "safe n f" and "\<And>v. safe n (g v)"
  shows "safe n (\<lambda>d. bindE (f d) (\<lambda>(v, d :: deserializer). g v d))"
  unfolding safe_def
proof (intro allI impI)
  fix d assume d: "ds_left d \<le> n"
  show "bindE (f d) (\<lambda>(v, d). g v d) \<noteq> Inl OutOfFuel \<and>
      (\<forall>v d'. bindE (f d) (\<lambda>(v, d). g v d) = Inr (v, d') \<longrightarrow> ds_left d' \<le> ds_left d)"
  proof (cases "f d")
    case (Inl e)
    then show ?thesis using assms(1) d by (auto simp: safe_def)
  next
    case (Inr p)
    obtain v e where p: "p = (v, e)" by (cases p)
    have "ds_left e \<le> ds_left d" using assms(1) d Inr p by (auto simp: safe_def)
    moreover from this have "g v e \<noteq> Inl OutOfFuel \<and> (\<forall>w d'. g v e = Inr (w, d') \<longrightarrow> ds_left d' \<le> ds_left e)"
      using assms(2) [of v] d order.trans unfolding safe_def by blast
    ultimately show ?thesis by (auto simp: Inr p intro: order.trans)
  qed
qed

lemma safe_return: "safe n (\<lambda>d. Inr (v, d))"
  by (simp add: safe_def)

lemma safe_error: "e \<noteq> OutOfFuel \<Longrightarrow> safe n (\<lambda>d. Inl e)"
  by (simp add: safe_def)

lemma safe_checked: "(\<And>e. r = Inl e \<Longrightarrow> e \<noteq> OutOfFuel) \<Longrightarrow> safe n (\<lambda>d. bindE r (\<lambda>v. Inr (v, d)))"
  by (cases r) (auto simp: safe_def)

lemma safe_if: "(b \<Longrightarrow> safe n f) \<Longrightarrow> (\<not> b \<Longrightarrow> safe n g) \<Longrightarrow> safe n (\<lambda>d. if b then f d else g d)"
  by (cases b) simp_all

lemma safe_read: "safe n (Deserializer_read k)"
  by (auto simp: safe_def Deserializer_read_def ds_left_def)

lemma safe_times: "safe n f \<Longrightarrow> safe n (get_times k f)"
proof (induction k)
  case (Suc k)
  then have "safe n (\<lambda>d. bindE (f d) (\<lambda>(x, d). bindE (get_times k f d) (\<lambda>(xs, d). Inr (x # xs, d))))"
    by (intro safe_bind safe_return)
  then show ?case by (simp add: safe_def)
qed (simp add: safe_def)

lemma u8_left: "Deserializer_deserializeU8 d \<noteq> Inl OutOfFuel \<and>
  (\<forall>b d'. Deserializer_deserializeU8 d = Inr (b, d') \<longrightarrow> ds_left d' < ds_left d)"
  by (auto simp: Deserializer_deserializeU8_def Deserializer_read_def ds_left_def split: if_splits)

lemma uleb_loop_left:
  "uleb_loop v k d \<noteq> Inl OutOfFuel \<and> (\<forall>n d'. uleb_loop v k d = Inr (n, d') \<longrightarrow>
     ds_left d' \<le> ds_left d \<and> (v < MAX_U32_NUMBER \<longrightarrow> ds_left d' < ds_left d))"
proof (induction v k d rule: uleb_loop.induct)
  case (1 v k d)
  show ?case
  proof (cases "v < MAX_U32_NUMBER")
    case False
    then show ?thesis by (subst (1 2) uleb_loop.simps) simp
  next
    case True
    show ?thesis
    proof (cases "Deserializer_deserializeU8 d")
      case (Inl e)
      then show ?thesis using True u8_left [of d] by (subst (1 2) uleb_loop.simps) auto
    next
      case (Inr p)
      then have l: "ds_left (snd p) < ds_left d" using u8_left [of d] by (metis prod.collapse)
      show ?thesis using 1 [OF True Inr refl refl] True l
        by (subst (1 2) uleb_loop.simps) (auto simp: Inr Let_def)
    qed
  qed
qed

lemma uleb_left: "Deserializer_deserializeUleb128AsU32 d \<noteq> Inl OutOfFuel \<and>
  (\<forall>n d'. Deserializer_deserializeUleb128AsU32 d = Inr (n, d') \<longrightarrow> ds_left d' < ds_left d)"
  using uleb_loop_left [of 0 0 d]
  by (cases "uleb_loop 0 0 d") (auto simp: Deserializer_deserializeUleb128AsU32_def MAX_U32_NUMBER_def split: if_splits)

lemma safe_uleb: "safe n Deserializer_deserializeUleb128AsU32"
  using uleb_left unfolding safe_def by (meson less_imp_le)

lemma safe_bytes: "safe n Deserializer_deserializeBytes"
  unfolding Deserializer_deserializeBytes_def [abs_def] by (intro safe_bind safe_uleb safe_read)

lemma safe_str: "safe n Deserializer_deserializeStr"
  unfolding Deserializer_deserializeStr_def [abs_def] by (intro safe_bind safe_bytes safe_return)

lemma safe_u32: "safe n Deserializer_deserializeU32"
  unfolding Deserializer_deserializeU32_def [abs_def] by (intro safe_bind safe_read safe_return)

lemma safe_address: "safe n AccountAddress_deserialize"
  unfolding AccountAddress_deserialize_def [abs_def] Deserializer_deserializeFixedBytes_def
  by (intro safe_bind safe_read safe_checked) (auto simp: thrown_def split: sum.splits)

lemma safe_vector: "safe n f \<Longrightarrow> safe n (Deserializer_deserializeVector f)"
  unfolding Deserializer_deserializeVector_def [abs_def] by (intro safe_bind safe_uleb safe_times)

lemma safe_struct: "safe n f \<Longrightarrow> safe n (StructTag_deserialize_with f)"
  unfolding StructTag_deserialize_with_def [abs_def] Identifier_deserialize_def
  by (intro safe_bind safe_address safe_str safe_vector safe_return)

lemma safe_load: "safe n f \<Longrightarrow> safe n (TypeTag_load f index)"
  unfolding TypeTag_load_def [abs_def]
  by (intro safe_if safe_bind safe_return safe_struct safe_u32 safe_checked safe_error)
    (auto simp: new_TypeTagGeneric_def split: if_splits)

lemma type_tag_fuel: "n < fuel \<Longrightarrow> safe n (TypeTag_deserialize_fuel fuel)"
proof (induction fuel arbitrary: n)
  case (Suc fuel)
  show ?case
    unfolding safe_def
  proof (intro allI impI)
    fix d assume d: "ds_left d \<le> n"
    show "TypeTag_deserialize_fuel (Suc fuel) d \<noteq> Inl OutOfFuel \<and>
        (\<forall>v d'. TypeTag_deserialize_fuel (Suc fuel) d = Inr (v, d') \<longrightarrow> ds_left d' \<le> ds_left d)"
    proof (cases "Deserializer_deserializeUleb128AsU32 d")
      case (Inl e)
      then show ?thesis using uleb_left [of d] by (simp add: fuel_abs)
    next
      case (Inr p)
      then have l: "ds_left (snd p) < ds_left d" using uleb_left [of d] by (metis prod.collapse)
      then have "safe (ds_left (snd p)) (TypeTag_load (TypeTag_deserialize_fuel fuel) (fst p))"
        using Suc.prems d by (intro safe_load Suc.IH) simp
      then show ?thesis using l by (auto simp: fuel_abs Inr safe_def split: prod.splits)
    qed
  qed
qed simp

end
