(* ===== verification/Aptos_Tag_Text.thy ===== *)
theory Aptos_Tag_Text
  imports Aptos_Tag_Codec Address_Roundtrip
begin

text \<open>
  The texts of addresses and type tags of coin-aptos are read back: \<open>AccountAddress.fromString\<close> takes
  the long and the short form, and \<open>parseTypeTag\<close> the text of a type tag with arguments at any depth.
  The parser is followed level by level: the text of a tag leaves its name in \<open>currentStr\<close> and its
  arguments in \<open>innerTypes\<close>, from which the next delimiter makes the tag.
\<close>

section \<open>Addresses\<close>

text \<open>What @noble/hashes documents: two lower-case digits for a byte, and their inverse.\<close>

definition noble_hex :: "(buffer \<Rightarrow> string) \<Rightarrow> (string \<Rightarrow> buffer option) \<Rightarrow> bool" where
  "noble_hex b2h h2b \<longleftrightarrow> (\<forall>b. b2h b = hex_of_buffer b \<and> h2b (hex_of_buffer b) = Some b)"

lemma noble_hexD: "noble_hex b2h h2b \<Longrightarrow> b2h b = hex_of_buffer b" "noble_hex b2h h2b \<Longrightarrow> h2b (hex_of_buffer b) = Some b"
  by (simp_all add: noble_hex_def)

lemma noble_hex_instance: "noble_hex hex_of_buffer (\<lambda>s. Some (hex_decode s))"
  by (simp add: noble_hex_def hex_decode_encode)

text \<open>The hexadecimal form of a special address is a digit behind 63 zeros.\<close>

lemma special_form:
  assumes "address_ok a" and "AccountAddress_isSpecial a"
  shows "hex_of_buffer a = replicate 63 (CHR ''0'') @ [last (hex_of_buffer a)]"
proof -
  have n: "length a = 32" using assms by (simp add: address_ok_def)
  then have "butlast a = replicate 31 0"
    using assms(2) by (intro replicate_eqI) (auto simp: AccountAddress_isSpecial_def list_all_iff)
  then have a: "a = replicate 31 0 @ [last a]"
    using append_butlast_last_id [of a] n by (metis length_0_conv zero_neq_numeral)
  have "uint (last a) < 16" using assms(2) unfolding AccountAddress_isSpecial_def by blast
  then have "unat (last a) < 16" using uint_nat [of "last a"] by linarith
  then have l: "hex_of_byte (last a) = [CHR ''0'', digit_char (unat (last a))]"
    by (simp add: hex_of_byte_def digit_char_def char_of_def bit_0)
  have z: "hex_of_byte 0 = [CHR ''0'', CHR ''0'']" by (simp add: hex_of_byte_def digit_char_def char_of_def bit_0)
  have "hex_of_buffer (replicate k 0) = replicate (2 * k) (CHR ''0'')" for k
    by (induction k) (simp_all add: hex_of_buffer_def z)
  then have "hex_of_buffer a = replicate 62 (CHR ''0'') @ hex_of_byte (last a)"
    by (subst a) (simp add: hex_of_buffer_def)
  then show ?thesis unfolding l by (simp add: numeral_eq_Suc replicate_app_Cons_same)
qed

lemma address_text:
  assumes "address_ok a" and n: "noble_hex b2h h2b"
  shows "AccountAddress_fromString h2b (AccountAddress_toString b2h a) = Inr a"
    and "AccountAddress_fromStringStrict h2b (AccountAddress_toString b2h a) = Inr a"
    and "AccountAddress_fromStringStrict h2b (AccountAddress_toStringLong b2h a) = Inr a"
proof -
  have h: "length (hex_of_buffer a) = 64" using assms(1) by (simp add: length_hex address_ok_def)
  have long: "AccountAddress_fromString h2b (''0x'' @ hex_of_buffer a) = Inr a"
    using assms(1) h by (simp add: AccountAddress_fromString_def without_0x_def str_padStart_def noble_hexD(2) [OF n]
        new_AccountAddress_def address_ok_def Let_def flip: length_0_conv)
  have short: "AccountAddress_fromString h2b (''0x'' @ [last (hex_of_buffer a)]) = Inr a" if "AccountAddress_isSpecial a"
    using assms(1) special_form [OF assms(1) that]
    by (simp add: AccountAddress_fromString_def without_0x_def str_padStart_def noble_hexD(2) [OF n]
        new_AccountAddress_def address_ok_def flip: special_form [OF assms(1) that])
  show "AccountAddress_fromString h2b (AccountAddress_toString b2h a) = Inr a"
    using long short by (auto simp: AccountAddress_toString_def AccountAddress_toStringWithoutPrefix_def Let_def noble_hexD(1) [OF n])
  then show "AccountAddress_fromStringStrict h2b (AccountAddress_toString b2h a) = Inr a"
    using h by (auto simp: AccountAddress_fromStringStrict_def AccountAddress_toString_def
        AccountAddress_toStringWithoutPrefix_def Let_def noble_hexD(1) [OF n])
  show "AccountAddress_fromStringStrict h2b (AccountAddress_toStringLong b2h a) = Inr a"
    using long h by (simp add: AccountAddress_fromStringStrict_def AccountAddress_toStringLong_def noble_hexD(1) [OF n])
qed

section \<open>Names and arguments\<close>

primrec tag_text_ok :: "bool \<Rightarrow> type_tag \<Rightarrow> bool" and struct_text_ok :: "bool \<Rightarrow> struct_tag \<Rightarrow> bool" where
  "tag_text_ok g TypeTagBool = True"
| "tag_text_ok g TypeTagU8 = True"
| "tag_text_ok g TypeTagU16 = True"
| "tag_text_ok g TypeTagU32 = True"
| "tag_text_ok g TypeTagU64 = True"
| "tag_text_ok g TypeTagU128 = True"
| "tag_text_ok g TypeTagU256 = True"
| "tag_text_ok g TypeTagAddress = True"
| "tag_text_ok g TypeTagSigner = True"
| "tag_text_ok g (TypeTagReference t) = (t = TypeTagSigner)"
| "tag_text_ok g (TypeTagGeneric n) = (g \<and> 0 \<le> n \<and> n < 2 ^ 53)"
| "tag_text_ok g (TypeTagVector t) = tag_text_ok g t"
| "tag_text_ok g (TypeTagStruct st) = struct_text_ok g st"
| "struct_text_ok g (StructTag a m n args) =
     (address_ok a \<and> isValidIdentifier m \<and> isValidIdentifier n \<and> list_all (\<lambda>b. b) (map (tag_text_ok g) args))"

fun tag_args :: "type_tag \<Rightarrow> type_tag list" where
  "tag_args (TypeTagVector t) = [t]"
| "tag_args (TypeTagStruct st) = st_typeArgs st"
| "tag_args _ = []"

fun tag_head :: "(buffer \<Rightarrow> string) \<Rightarrow> type_tag \<Rightarrow> string" where
  "tag_head b2h (TypeTagVector t) = ''vector''"
| "tag_head b2h (TypeTagStruct st) =
     AccountAddress_toString b2h (st_address st) @ ''::'' @ st_moduleName st @ ''::'' @ st_name st"
| "tag_head b2h t = TypeTag_toString b2h t"

lemma tag_text_parts:
  "TypeTag_toString b2h t = tag_head b2h t @
    (if tag_args t = [] then [] else ''<'' @ join_args (map (TypeTag_toString b2h) (tag_args t)) @ ''>'')"
proof (cases t)
  case (TypeTagStruct st)
  then show ?thesis by (cases st) simp
qed (simp_all add: join_args_def)

definition plain_char :: "char \<Rightarrow> bool" where
  "plain_char c \<longleftrightarrow> c \<noteq> CHR ''<'' \<and> c \<noteq> CHR ''>'' \<and> c \<noteq> CHR '','' \<and> \<not> isValidWhitespaceCharacter c"

lemma plain_code: "38 < code_of c \<Longrightarrow> code_of c \<notin> {44, 60, 62} \<Longrightarrow> plain_char c"
  by (auto simp: plain_char_def isValidWhitespaceCharacter_def code_of_def)

lemma plain_digit: "is_digit c \<Longrightarrow> plain_char c"
  by (rule plain_code) (auto simp: is_digit_def)

lemma plain_identifier: "isValidIdentifier s \<Longrightarrow> list_all plain_char s"
  unfolding isValidIdentifier_def list_all_iff Let_def using plain_code plain_digit by fastforce

lemma plain_hex: "list_all plain_char (hex_of_buffer a)" "CHR '':'' \<notin> set (hex_of_buffer a)"
proof -
  have "plain_char (digit_char d)" if "d < 16" for d
    using that by (intro plain_code) (auto simp: digit_char_def code_of_def)
  then show "list_all plain_char (hex_of_buffer a)" using hex_digits unfolding list_all_iff by metis
  show "CHR '':'' \<notin> set (hex_of_buffer a)" using hex_digits hex_char_facts(1) by metis
qed

lemma address_chars:
  assumes "address_ok a" and "noble_hex b2h h2b"
  shows "list_all plain_char (AccountAddress_toString b2h a)" "CHR '':'' \<notin> set (AccountAddress_toString b2h a)"
proof -
  have "hex_of_buffer a \<noteq> []" using length_hex [of a] assms(1) by (auto simp: address_ok_def)
  then have l: "last (hex_of_buffer a) \<in> set (hex_of_buffer a)" by (rule last_in_set)
  have "plain_char (CHR ''0'')" "plain_char (CHR ''x'')"
    by (simp_all add: plain_char_def isValidWhitespaceCharacter_def code_of_def)
  then show "list_all plain_char (AccountAddress_toString b2h a)" "CHR '':'' \<notin> set (AccountAddress_toString b2h a)"
    using plain_hex [of a] l
    by (auto simp: AccountAddress_toString_def AccountAddress_toStringWithoutPrefix_def Let_def noble_hexD [OF assms(2)] list_all_iff)
qed

lemma split_colons_none: "CHR '':'' \<notin> set x \<Longrightarrow> split_colons x = [x]"
proof (induction x rule: split_colons.induct)
  case (3 c d s)
  then show ?case by auto
qed simp_all

lemma split_colons_first: "CHR '':'' \<notin> set x \<Longrightarrow> split_colons (x @ ''::'' @ s) = x # split_colons s"
proof (induction x rule: split_colons.induct)
  case (2 c)
  then show ?case by (cases s) auto
next
  case (3 c d s)
  then show ?case by auto
qed simp

lemma identifier_colon: "isValidIdentifier s \<Longrightarrow> CHR '':'' \<notin> set s"
  by (auto simp: isValidIdentifier_def list_all_iff Let_def code_of_def is_digit_def)

lemma colon_no_word: "CHR '':'' \<in> set s \<Longrightarrow> primitive_tag s = None \<and> s \<noteq> ''vector'' \<and> \<not> isGeneric s"
proof -
  assume c: "CHR '':'' \<in> set s"
  then have ne: "s \<noteq> w" if "CHR '':'' \<notin> set w" for w using that by blast
  have "primitive_tag s = None" by (simp add: primitive_tag_def ne)
  moreover have "\<not> isGeneric s"
  proof
    assume g: "isGeneric s"
    then obtain r where "s = CHR ''T'' # r" "list_all is_digit r" by (cases s) (auto simp: isGeneric_def)
    then show False using c by (auto simp: list_all_iff is_digit_def code_of_def)
  qed
  moreover have "s \<noteq> ''vector''" by (rule ne) simp
  ultimately show ?thesis by blast
qed

lemma parse_inner_head:
  assumes t: "tag_text_ok g t" and n: "noble_hex b2h h2b"
  shows "parseTypeTagInner h2b (tag_head b2h t) (tag_args t) g = Inr t"
proof (cases t)
  case (TypeTagStruct st)
  obtain a m k args where st: "st = StructTag a m k args" by (cases st)
  have ok: "address_ok a" "isValidIdentifier m" "isValidIdentifier k" using t TypeTagStruct st by auto
  let ?x = "AccountAddress_toString b2h a"
  have "split_colons (?x @ ''::'' @ m @ ''::'' @ k) = [?x, m, k]"
    using split_colons_first [OF address_chars(2) [OF ok(1) n]] split_colons_first [OF identifier_colon [OF ok(2)]]
      split_colons_none [OF identifier_colon [OF ok(3)]] by simp
  moreover have "CHR '':'' \<in> set (?x @ ''::'' @ m @ ''::'' @ k)" by simp
  note c = this colon_no_word [OF this]
  ultimately show ?thesis using ok c address_text(1) [OF ok(1) n] TypeTagStruct st
    by (simp add: parseTypeTagInner_def)
next
  case (TypeTagGeneric v)
  let ?d = "nat_radix 10 (nat v)"
  have v: "g" "0 \<le> v" "v < 2 ^ 53" using t TypeTagGeneric by auto
  have d: "?d \<noteq> []" "list_all is_digit ?d" "digits_val 10 ?d = nat v" using nat_radix_10 by (auto simp: list_all_iff)
  have "primitive_tag (CHR ''T'' # ?d) = None" by (simp add: primitive_tag_def)
  moreover have "isGeneric (CHR ''T'' # ?d)" using d by (simp add: isGeneric_def)
  moreover have "to_number v = v" using v by (intro to_number_id) simp
  ultimately show ?thesis using v d TypeTagGeneric by (simp add: parseTypeTagInner_def to_string_radix_def)
qed (use t in \<open>simp_all add: parseTypeTagInner_def primitive_tag_def\<close>)

lemma head_plain:
  assumes t: "tag_text_ok g t" and n: "noble_hex b2h h2b"
  shows "list_all plain_char (tag_head b2h t) \<and> tag_head b2h t \<noteq> []"
proof (cases t)
  case (TypeTagStruct st)
  then show ?thesis using t address_chars [OF _ n] plain_identifier
    by (cases st) (auto simp: plain_char_def isValidWhitespaceCharacter_def code_of_def)
next
  case (TypeTagGeneric v)
  then show ?thesis using t nat_radix_10(2) plain_digit
    by (auto simp: to_string_radix_def list_all_iff plain_char_def isValidWhitespaceCharacter_def code_of_def)
qed (use t in \<open>auto simp: plain_char_def isValidWhitespaceCharacter_def code_of_def\<close>)

section \<open>The loop of the parser\<close>

lemma loop_plain:
  "list_all plain_char w \<Longrightarrow> parse_loop h2b g st (w @ rest) = parse_loop h2b g (st\<lparr>tp_currentStr := tp_currentStr st @ w\<rparr>) rest"
proof (induction w arbitrary: st)
  case (Cons c w)
  then have "parse_loop h2b g st (c # w @ rest) = parse_loop h2b g (st\<lparr>tp_currentStr := tp_currentStr st @ [c]\<rparr>) (w @ rest)"
    by (auto simp: plain_char_def)
  then show ?case using Cons by simp
qed simp

definition tag_done :: "(buffer \<Rightarrow> string) \<Rightarrow> type_tag \<Rightarrow> tag_parser \<Rightarrow> tag_parser" where
  \<comment> \<open>the text of the tag has been read, up to its last argument\<close>
  "tag_done b2h t st = st\<lparr>tp_currentStr := tag_head b2h t, tp_innerTypes := tag_args t\<rparr>"

definition reads_tag :: "(buffer \<Rightarrow> string) \<Rightarrow> (string \<Rightarrow> buffer option) \<Rightarrow> bool \<Rightarrow> type_tag \<Rightarrow> bool" where
  "reads_tag b2h h2b g t \<longleftrightarrow> (\<forall>st rest. tp_innerTypes st = [] \<and> tp_currentStr st = [] \<longrightarrow>
     parse_loop h2b g st (TypeTag_toString b2h t @ rest) = parse_loop h2b g (tag_done b2h t st) rest)"

lemma reads_tagD:
  "reads_tag b2h h2b g t \<Longrightarrow> tp_innerTypes st = [] \<Longrightarrow> tp_currentStr st = [] \<Longrightarrow>
   parse_loop h2b g st (TypeTag_toString b2h t @ rest) = parse_loop h2b g (tag_done b2h t st) rest"
  by (simp add: reads_tag_def)

lemma push_done:
  assumes "tag_text_ok g t" and "noble_hex b2h h2b"
  shows "push_tag h2b g (tag_done b2h t st) = Inr ((tag_done b2h t st)\<lparr>tp_curTypes := tp_curTypes st @ [t]\<rparr>)"
  by (simp add: push_tag_def tag_done_def parse_inner_head [OF assms])

lemma loop_args:
  assumes n: "noble_hex b2h h2b"
  shows "\<forall>u \<in> set (t # ts). tag_text_ok g u \<and> reads_tag b2h h2b g u \<Longrightarrow>
    tp_innerTypes st = [] \<Longrightarrow> tp_currentStr st = [] \<Longrightarrow> tp_expectedTypes st = length (tp_curTypes st) + 1 \<Longrightarrow>
    tp_saved st = (e, s, c) # saved \<Longrightarrow>
    parse_loop h2b g st (join_args (map (TypeTag_toString b2h) (t # ts)) @ ''>'' @ rest) =
    parse_loop h2b g (st\<lparr>tp_saved := saved, tp_innerTypes := tp_curTypes st @ t # ts, tp_curTypes := c,
      tp_currentStr := s, tp_expectedTypes := e\<rparr>) rest"
proof (induction ts arbitrary: t st)
  case Nil
  then show ?case using push_done [OF _ n, of g t st] head_plain [OF _ n, of g t]
    by (simp add: join_args_def reads_tag_def parse_close_def tag_done_def)
next
  case (Cons u us)
  have t: "tag_text_ok g t" "reads_tag b2h h2b g t" using Cons.prems(1) by auto
  let ?st = "st\<lparr>tp_curTypes := tp_curTypes st @ [t], tp_expectedTypes := tp_expectedTypes st + 1\<rparr>"
  let ?more = "join_args (map (TypeTag_toString b2h) (u # us)) @ ''>'' @ rest"
  have "tag_head b2h u \<noteq> [] \<and> list_all plain_char (tag_head b2h u)" using head_plain [OF _ n] Cons.prems(1) by auto
  then have first: "dropWhile isValidWhitespaceCharacter ?more = ?more"
    by (cases "tag_head b2h u") (auto simp: join_args_def tag_text_parts [of b2h u] plain_char_def)
  have "parse_loop h2b g st (join_args (map (TypeTag_toString b2h) (t # u # us)) @ ''>'' @ rest) =
      parse_loop h2b g st (TypeTag_toString b2h t @ '', '' @ ?more)"
    by (simp add: join_args_def)
  also have "\<dots> = parse_loop h2b g (tag_done b2h t st) ('', '' @ ?more)"
    using t(2) Cons.prems(2,3) by (rule reads_tagD)
  also have "\<dots> = parse_loop h2b g ?st ('' '' @ ?more)"
  proof -
    have "parse_comma h2b g (tag_done b2h t st) = Inr ?st"
      using push_done [OF t(1) n, of st] head_plain [OF t(1) n] Cons.prems(2,3)
      by (cases st) (simp add: parse_comma_def tag_done_def)
    then show ?thesis by simp
  qed
  also have "\<dots> = parse_loop h2b g ?st ?more"
  proof -
    have "isValidWhitespaceCharacter (CHR '' '')" by (simp add: isValidWhitespaceCharacter_def code_of_def)
    then show ?thesis using Cons.prems(3) first by (simp add: parse_space_def Let_def)
  qed
  also have "\<dots> = parse_loop h2b g (?st\<lparr>tp_saved := saved, tp_innerTypes := tp_curTypes ?st @ u # us, tp_curTypes := c,
      tp_currentStr := s, tp_expectedTypes := e\<rparr>) rest"
    by (rule Cons.IH) (use Cons.prems in simp_all)
  finally show ?case by simp
qed

lemma reads_from_args:
  assumes n: "noble_hex b2h h2b" and t: "tag_text_ok g t"
    and args: "\<forall>u \<in> set (tag_args t). tag_text_ok g u \<and> reads_tag b2h h2b g u"
  shows "reads_tag b2h h2b g t"
  unfolding reads_tag_def
proof (intro allI impI)
  fix st :: tag_parser and rest
  assume st: "tp_innerTypes st = [] \<and> tp_currentStr st = []"
  let ?h = "st\<lparr>tp_currentStr := tag_head b2h t\<rparr>"
  let ?tail = "if tag_args t = [] then [] else ''<'' @ join_args (map (TypeTag_toString b2h) (tag_args t)) @ ''>''"
  have "parse_loop h2b g st (TypeTag_toString b2h t @ rest) = parse_loop h2b g ?h (?tail @ rest)"
    using loop_plain [of "tag_head b2h t" h2b g st] head_plain [OF t n] st by (simp add: tag_text_parts [of b2h t])
  also have "\<dots> = parse_loop h2b g (tag_done b2h t st) rest"
  proof (cases "tag_args t")
    case Nil
    then show ?thesis using st by (cases st) (simp add: tag_done_def)
  next
    case (Cons u us)
    have "parse_loop h2b g (parse_open ?h) (join_args (map (TypeTag_toString b2h) (u # us)) @ ''>'' @ rest) =
        parse_loop h2b g ((parse_open ?h)\<lparr>tp_saved := tp_saved st, tp_innerTypes := tp_curTypes (parse_open ?h) @ u # us,
          tp_curTypes := tp_curTypes st, tp_currentStr := tag_head b2h t, tp_expectedTypes := tp_expectedTypes st\<rparr>) rest"
      by (rule loop_args [OF n]) (use args st Cons in \<open>simp_all add: parse_open_def\<close>)
    then show ?thesis using Cons by (cases st) (simp add: parse_open_def tag_done_def)
  qed
  finally show "parse_loop h2b g st (TypeTag_toString b2h t @ rest) = parse_loop h2b g (tag_done b2h t st) rest" .
qed

lemma reads_type_tag:
  assumes n: "noble_hex b2h h2b"
  shows "tag_text_ok g t \<Longrightarrow> reads_tag b2h h2b g t"
    and "struct_text_ok g st \<Longrightarrow> \<forall>u \<in> set (st_typeArgs st). tag_text_ok g u \<and> reads_tag b2h h2b g u"
proof (induction t and st)
  case (StructTag a m k args)
  then show ?case by (auto simp: list_all_iff)
qed (rule reads_from_args [OF n]; simp)+

lemma parseTypeTag_text:
  assumes t: "tag_text_ok g t" and n: "noble_hex b2h h2b"
  shows "parseTypeTag h2b (TypeTag_toString b2h t) g = Inr t"
proof -
  have "parse_loop h2b g new_tag_parser (TypeTag_toString b2h t @ []) = parse_loop h2b g (tag_done b2h t new_tag_parser) []"
    using reads_type_tag(1) [OF n t] by (rule reads_tagD) (simp_all add: new_tag_parser_def)
  then show ?thesis using parse_inner_head [OF t n]
    by (simp add: parseTypeTag_def tag_done_def new_tag_parser_def)
qed

end
