(* ===== verification/Aptos_Multi.thy ===== *)
theory Aptos_Multi
  imports Aptos_Core
begin

text \<open>
  Keys and signatures of several signers of coin-aptos (v2/core/crypto/multiEd25519.ts, multiKey.ts):
  the signers are the bits of a bitmap of four bytes, the first signer the high bit of the first byte.
\<close>

section \<open>The bitmap\<close>

text \<open>
  The bits are indexes of keys, natural numbers. \<open>set_bit_at\<close> is the end of the three loops, which
  differ in their checks: a check gets the position, the bits before it and the bit.
\<close>

definition set_bitmap :: "nat \<Rightarrow> buffer \<Rightarrow> buffer" where
  "set_bitmap b bitmap =
     (let byteOffset = b div 8 in
      if byteOffset < length bitmap
      then bitmap[byteOffset := word_of_int (js_or (uint (bitmap ! byteOffset)) (js_shr 128 (b mod 8)))] else bitmap)"

definition create_bitmap :: "(nat \<Rightarrow> nat list \<Rightarrow> nat \<Rightarrow> unit res) \<Rightarrow> nat list \<Rightarrow> buffer res" where
  "create_bitmap check bits =
     foldE (\<lambda>i bitmap. bindE (check i (take i bits) (bits ! i)) (\<lambda>_. Inr (set_bitmap (bits ! i) bitmap)))
       [0..<length bits] [0, 0, 0, 0]"

definition MultiEd25519Signature_createBitmap :: "nat list \<Rightarrow> buffer res" where
  "MultiEd25519Signature_createBitmap bits =
     create_bitmap (\<lambda>index before b.
       if b \<ge> 32 then Inl IndexOutOfBounds
       else if b \<in> set before then Inl InvalidData
       else if index > 0 \<and> b \<le> before ! (index - 1) then Inl InvalidData else Inr ()) bits"

definition MultiKeySignature_createBitmap :: "nat list \<Rightarrow> buffer res" where
  "MultiKeySignature_createBitmap bits =
     create_bitmap (\<lambda>index before b.
       if b \<ge> 32 then Inl IndexOutOfBounds else if b \<in> set before then Inl InvalidData else Inr ()) bits"

definition MultiKey_createBitmap :: "any_public_key list \<Rightarrow> nat list \<Rightarrow> buffer res" where
  "MultiKey_createBitmap publicKeys bits =
     create_bitmap (\<lambda>idx before b.
       if idx + 1 > length publicKeys then Inl IndexOutOfBounds
       else if b \<in> set before then Inl InvalidData else Inr ()) bits"

text \<open>The indexes of the bits that are set, as \<open>verifySignature\<close> collects them.\<close>

definition bitmap_indices :: "buffer \<Rightarrow> nat list" where
  "bitmap_indices bitmap =
     concat (map (\<lambda>i. concat (map (\<lambda>j.
       if js_and (uint (bitmap ! i)) (js_shl 1 (7 - j)) \<noteq> 0 then [i * 8 + j] else []) [0..<8])) [0..<4])"

definition bitCount :: "int \<Rightarrow> int" where
  "bitCount byte =
     (let n = byte - js_and (js_shr byte 1) 0x55555555;
          n = js_and n 0x33333333 + js_and (js_shr n 2) 0x33333333
      in js_shr (js_and (n + js_shr n 4) 0xf0f0f0f * 0x1010101) 24)"

section \<open>Several Ed25519 keys (multiEd25519.ts)\<close>

record multi_ed25519_key =
  mp_keys :: "buffer list"
  mp_threshold :: int

record multi_ed25519_signature =
  ms_signatures :: "buffer list"
  ms_bitmap :: buffer

definition new_MultiEd25519PublicKey :: "buffer list \<Rightarrow> int \<Rightarrow> multi_ed25519_key res" where
  "new_MultiEd25519PublicKey publicKeys threshold =
     (if length publicKeys > 32 \<or> length publicKeys < 2 then Inl LengthOutOfBounds
      else if threshold < 1 \<or> threshold > int (length publicKeys) then Inl ValueOutOfRange
      else Inr \<lparr>mp_keys = publicKeys, mp_threshold = threshold\<rparr>)"

definition set_blocks :: "nat \<Rightarrow> buffer list \<Rightarrow> buffer \<Rightarrow> buffer" where \<comment> \<open>the loop of \<open>bytes.set(k, i * n)\<close>\<close>
  "set_blocks n blocks bytes = foldl (\<lambda>bytes i. buf_copy (blocks ! i) bytes (i * n)) bytes [0..<length blocks]"

definition MultiEd25519PublicKey_toUint8Array :: "multi_ed25519_key \<Rightarrow> buffer" where
  "MultiEd25519PublicKey_toUint8Array k =
     (let bytes = set_blocks 32 (mp_keys k) (buf_alloc (length (mp_keys k) * 32 + 1))
      in bytes[length (mp_keys k) * 32 := word_of_int (mp_threshold k)])"

definition MultiEd25519PublicKey_serialize :: "multi_ed25519_key \<Rightarrow> put" where
  "MultiEd25519PublicKey_serialize k = Serializer_serializeBytes (MultiEd25519PublicKey_toUint8Array k)"

text \<open>The blocks of \<open>n\<close> bytes from the positions below the limit; the last one may be shorter, or reach beyond it.\<close>

definition sub_blocks :: "nat \<Rightarrow> nat \<Rightarrow> buffer \<Rightarrow> buffer list" where
  "sub_blocks n limit bytes = map (\<lambda>k. take n (drop (k * n) bytes)) [0..<(limit + n - 1) div n]"

definition MultiEd25519PublicKey_deserialize :: "multi_ed25519_key get" where
  \<comment> \<open>without bytes there is no threshold, but no keys either, which the constructor refuses first\<close>
  "MultiEd25519PublicKey_deserialize d =
     bindE (Deserializer_deserializeBytes d) (\<lambda>(bytes, d).
     let threshold = (if bytes = [] then 0 else uint (last bytes))
     in bindE (mapE new_Ed25519PublicKey (sub_blocks 32 (length bytes - 1) bytes)) (\<lambda>keys.
     bindE (new_MultiEd25519PublicKey keys threshold) (\<lambda>k. Inr (k, d))))"

datatype bitmap_input = BitmapBytes buffer | BitmapBits "nat list"

definition new_MultiEd25519Signature :: "buffer list \<Rightarrow> bitmap_input \<Rightarrow> multi_ed25519_signature res" where
  "new_MultiEd25519Signature signatures bitmap =
     (if length signatures > 32 then Inl LengthOutOfBounds
      else bindE (case bitmap of
             BitmapBits bits \<Rightarrow> MultiEd25519Signature_createBitmap bits
           | BitmapBytes b \<Rightarrow> if length b \<noteq> 4 then Inl InvalidSize else Inr b) (\<lambda>bitmap.
           Inr \<lparr>ms_signatures = signatures, ms_bitmap = bitmap\<rparr>))"

definition MultiEd25519Signature_toUint8Array :: "multi_ed25519_signature \<Rightarrow> buffer" where
  "MultiEd25519Signature_toUint8Array g =
     buf_copy (ms_bitmap g) (set_blocks 64 (ms_signatures g) (buf_alloc (length (ms_signatures g) * 64 + 4)))
       (length (ms_signatures g) * 64)"

definition MultiEd25519Signature_serialize :: "multi_ed25519_signature \<Rightarrow> put" where
  "MultiEd25519Signature_serialize g = Serializer_serializeBytes (MultiEd25519Signature_toUint8Array g)"

definition subarray_from :: "int \<Rightarrow> buffer \<Rightarrow> buffer" where \<comment> \<open>\<open>bytes.subarray(begin)\<close>: a negative begin counts from the end\<close>
  "subarray_from begin bytes = drop (nat (if begin < 0 then begin + int (length bytes) else begin)) bytes"

definition MultiEd25519Signature_deserialize :: "multi_ed25519_signature get" where
  "MultiEd25519Signature_deserialize d =
     bindE (Deserializer_deserializeBytes d) (\<lambda>(bytes, d).
     let bitmap = subarray_from (int (length bytes) - 4) bytes
     in bindE (mapE new_Ed25519Signature (sub_blocks 64 (length bytes - length bitmap) bytes)) (\<lambda>signatures.
     bindE (new_MultiEd25519Signature signatures (BitmapBytes bitmap)) (\<lambda>g. Inr (g, d))))"

text \<open>The loop over the indexes stops at the first signature that is wrong; an index without a key is a TypeError.\<close>

fun verify_each :: "('k \<Rightarrow> 's \<Rightarrow> bool) \<Rightarrow> 'k list \<Rightarrow> (nat \<times> 's) list \<Rightarrow> bool res" where
  "verify_each verify keys [] = Inr True"
| "verify_each verify keys ((i, g) # gs) =
     (if i \<ge> length keys then Inl TypeErr
      else if \<not> verify (keys ! i) g then Inr False else verify_each verify keys gs)"

definition MultiEd25519PublicKey_verifySignature ::
    "(buffer \<Rightarrow> buffer \<Rightarrow> buffer \<Rightarrow> bool) \<Rightarrow> multi_ed25519_key \<Rightarrow> buffer \<Rightarrow> multi_ed25519_signature \<Rightarrow> bool res" where
  "MultiEd25519PublicKey_verifySignature ed k message signature =
     (let indices = bitmap_indices (ms_bitmap signature)
      in if length indices \<noteq> length (ms_signatures signature) then Inl InvalidData
         else if int (length indices) < mp_threshold k then Inl ValueOutOfRange
         else verify_each (\<lambda>key g. Ed25519PublicKey_verifySignature ed key message g) (mp_keys k)
                (zip indices (ms_signatures signature)))"

definition MultiEd25519PublicKey_authKey :: "(buffer \<Rightarrow> buffer) \<Rightarrow> multi_ed25519_key \<Rightarrow> buffer res" where
  "MultiEd25519PublicKey_authKey sha3 k =
     AuthenticationKey_fromSchemeAndBytes sha3 1 (MultiEd25519PublicKey_toUint8Array k)"

section \<open>Several keys of any scheme (multiKey.ts)\<close>

record multi_key =
  mk_keys :: "any_public_key list"
  mk_required :: int

record multi_key_signature =
  mg_signatures :: "any_signature list"
  mg_bitmap :: buffer

definition new_MultiKey :: "any_public_key list \<Rightarrow> int \<Rightarrow> multi_key res" where
  "new_MultiKey publicKeys signaturesRequired =
     (if signaturesRequired < 1 then Inl ValueOutOfRange
      else if int (length publicKeys) < signaturesRequired then Inl LengthOutOfBounds
      else Inr \<lparr>mk_keys = publicKeys, mk_required = signaturesRequired\<rparr>)"

definition MultiKey_serialize :: "multi_key \<Rightarrow> put" where
  "MultiKey_serialize k s =
     bindE (Serializer_serializeVector AnyPublicKey_serialize (mk_keys k) s) (Serializer_serializeU8 (mk_required k))"

definition MultiKey_deserialize :: "multi_key get" where
  "MultiKey_deserialize d =
     bindE (Deserializer_deserializeVector AnyPublicKey_deserialize d) (\<lambda>(keys, d).
     bindE (Deserializer_deserializeU8 d) (\<lambda>(signaturesRequired, d).
     bindE (new_MultiKey keys signaturesRequired) (\<lambda>k. Inr (k, d))))"

definition MultiKey_authKey :: "(buffer \<Rightarrow> buffer) \<Rightarrow> multi_key \<Rightarrow> buffer res" where
  "MultiKey_authKey sha3 k = bindE (bcsToBytes (MultiKey_serialize k)) (AuthenticationKey_fromSchemeAndBytes sha3 3)"

text \<open>Keys are compared by their texts, which are the hexadecimal forms of their bytes.\<close>

definition AnyPublicKey_toString :: "(buffer \<Rightarrow> string) \<Rightarrow> any_public_key \<Rightarrow> string res" where
  "AnyPublicKey_toString b2h k = bindE (bcsToBytes (AnyPublicKey_serialize k)) (\<lambda>b. Inr (Hex_toString b2h b))"

fun find_key :: "(buffer \<Rightarrow> string) \<Rightarrow> any_public_key list \<Rightarrow> any_public_key \<Rightarrow> nat \<Rightarrow> nat res" where
  "find_key b2h [] key i = Inl InvalidKey"
| "find_key b2h (k # ks) key i =
     bindE (AnyPublicKey_toString b2h k) (\<lambda>a. bindE (AnyPublicKey_toString b2h key) (\<lambda>b.
     if a = b then Inr i else find_key b2h ks key (i + 1)))"

definition MultiKey_getIndex :: "(buffer \<Rightarrow> string) \<Rightarrow> multi_key \<Rightarrow> any_public_key \<Rightarrow> nat res" where
  "MultiKey_getIndex b2h k key = find_key b2h (mk_keys k) key 0"

definition new_MultiKeySignature :: "any_signature list \<Rightarrow> bitmap_input \<Rightarrow> multi_key_signature res" where
  "new_MultiKeySignature signatures bitmap =
     (if length signatures > 32 then Inl LengthOutOfBounds
      else bindE (case bitmap of
             BitmapBits bits \<Rightarrow> MultiKeySignature_createBitmap bits
           | BitmapBytes b \<Rightarrow> if length b \<noteq> 4 then Inl InvalidSize else Inr b) (\<lambda>bitmap.
           let nSignatures = foldl (\<lambda>acc byte. acc + bitCount (uint byte)) 0 bitmap
           in if nSignatures \<noteq> int (length signatures) then Inl InvalidData
              else Inr \<lparr>mg_signatures = signatures, mg_bitmap = bitmap\<rparr>))"

definition MultiKeySignature_serialize :: "multi_key_signature \<Rightarrow> put" where
  "MultiKeySignature_serialize g s =
     bindE (Serializer_serializeVector AnySignature_serialize (mg_signatures g) s) (Serializer_serializeBytes (mg_bitmap g))"

definition MultiKeySignature_deserialize :: "multi_key_signature get" where
  "MultiKeySignature_deserialize d =
     bindE (Deserializer_deserializeVector AnySignature_deserialize d) (\<lambda>(signatures, d).
     bindE (Deserializer_deserializeBytes d) (\<lambda>(bitmap, d).
     bindE (new_MultiKeySignature signatures (BitmapBytes bitmap)) (\<lambda>g. Inr (g, d))))"

end
