(* ===== verification/Aptos_Key_Codec.thy ===== *)
theory Aptos_Key_Codec
  imports Aptos_Tag_Codec Aptos_Multi
begin

text \<open>Public keys and signatures of coin-aptos as bytes: what is written is what is read.\<close>

lemmas emits_tags [emit_intros] =
  emits_uleb [of 0, simplified] emits_uleb [of 1, simplified] emits_uleb [of 2, simplified] emits_uleb [of 3, simplified]
  emits_uleb [of 4, simplified] emits_uleb [of 5, simplified] emits_uleb [of 6, simplified] emits_uleb [of 7, simplified]
  emits_uleb [of 8, simplified]

section \<open>Keys of one scheme\<close>

lemma emits_sized [emit_intros]: "length b = n \<Longrightarrow> n < 2 ^ 32 \<Longrightarrow> emits (sized_serialize b) (len_bytes b)"
  unfolding sized_serialize_def [abs_def] by (rule emits_bytes) simp

lemma consumes_sized [consume_intros]: "length b = n \<Longrightarrow> n < 2 ^ 32 \<Longrightarrow> consumes (sized_deserialize n) (len_bytes b) b"
  unfolding sized_deserialize_def [abs_def]
  by (rule consumes_checked, rule consumes_bytes) (simp_all add: sized_def)

section \<open>Keys of either scheme\<close>

fun any_key_bytes :: "any_public_key \<Rightarrow> buffer" where
  "any_key_bytes (AnyEd25519Key b) = uleb_bytes 0 @ len_bytes b"
| "any_key_bytes (AnySecp256k1Key b) = uleb_bytes 1 @ len_bytes b"

fun any_key_ok :: "any_public_key \<Rightarrow> bool" where
  "any_key_ok (AnyEd25519Key b) \<longleftrightarrow> length b = 32"
| "any_key_ok (AnySecp256k1Key b) \<longleftrightarrow> length b = 65"

fun any_signature_bytes :: "any_signature \<Rightarrow> buffer" where
  "any_signature_bytes (AnyEd25519Signature b) = uleb_bytes 0 @ len_bytes b"
| "any_signature_bytes (AnySecp256k1Signature b) = uleb_bytes 1 @ len_bytes b"

fun any_signature_ok :: "any_signature \<Rightarrow> bool" where
  "any_signature_ok (AnyEd25519Signature b) \<longleftrightarrow> length b = 64"
| "any_signature_ok (AnySecp256k1Signature b) \<longleftrightarrow> length b = 64"

interpretation any_key_bcs: bcs AnyPublicKey_serialize AnyPublicKey_deserialize any_key_bytes "\<lambda>k. k" any_key_ok
proof
  fix k assume k: "any_key_ok k"
  then show "emits (AnyPublicKey_serialize k) (any_key_bytes k)"
    unfolding AnyPublicKey_serialize_def [abs_def] by (cases k) (auto intro!: emit_intros)
  show "consumes AnyPublicKey_deserialize (any_key_bytes k) k"
    unfolding AnyPublicKey_deserialize_def [abs_def] using k
    by (cases k) (auto intro!: consumes_tagged consumes_map [OF _ refl] consumes_sized)
qed

interpretation any_signature_bcs: bcs AnySignature_serialize AnySignature_deserialize any_signature_bytes "\<lambda>k. k" any_signature_ok
proof
  fix k assume k: "any_signature_ok k"
  then show "emits (AnySignature_serialize k) (any_signature_bytes k)"
    unfolding AnySignature_serialize_def [abs_def] by (cases k) (auto intro!: emit_intros)
  show "consumes AnySignature_deserialize (any_signature_bytes k) k"
    unfolding AnySignature_deserialize_def [abs_def] using k
    by (cases k) (auto intro!: consumes_tagged consumes_map [OF _ refl] consumes_sized)
qed

section \<open>Several Ed25519 keys\<close>

lemma set_blocks_concat:
  assumes "\<forall>b \<in> set blocks. length b = n"
  shows "set_blocks n blocks (buf_alloc (length blocks * n + k)) = concat blocks @ buf_alloc k"
proof -
  have "foldl (\<lambda>bytes i. buf_copy (blocks ! i) bytes (i * n)) (buf_alloc (length blocks * n + k)) [0..<m] =
      concat (take m blocks) @ buf_alloc ((length blocks - m) * n + k)" if "m \<le> length blocks" for m
    using that
  proof (induction m)
    case (Suc m)
    let ?c = "concat (take m blocks)"
    have b: "length (blocks ! m) = n" using assms Suc.prems by simp
    have "\<forall>b \<in> set (take m blocks). length b = n" using assms set_take_subset by fastforce
    then have c: "length ?c = m * n" using Suc.prems by (simp add: length_concat map_idI sum_list_triv cong: map_cong)
    have r: "(length blocks - m) * n + k = n + ((length blocks - Suc m) * n + k)"
      using Suc.prems by (simp add: Suc_diff_Suc flip: mult_Suc)
    have "buf_copy (blocks ! m) (?c @ buf_alloc ((length blocks - m) * n + k)) (m * n) =
        (?c @ blocks ! m) @ buf_alloc ((length blocks - Suc m) * n + k)"
      unfolding r using b c by (simp add: buf_copy_def buf_alloc_def)
    also have "?c @ blocks ! m = concat (take (Suc m) blocks)" using Suc.prems by (simp add: take_Suc_conv_app_nth)
    finally show ?case using Suc by simp
  qed simp
  from this [of "length blocks"] show ?thesis by (simp add: set_blocks_def)
qed

lemma sub_blocks_concat:
  assumes "\<forall>b \<in> set blocks. length b = n" and "0 < n"
  shows "sub_blocks n (length blocks * n) (concat blocks @ rest) = blocks"
proof -
  have "(length blocks * n + n - 1) div n = length blocks"
  proof -
    have "length blocks * n + n - 1 = (n - 1) + length blocks * n" using assms(2) by simp
    moreover have "((n - 1) + length blocks * n) div n = (n - 1) div n + length blocks"
      using assms(2) div_mult_self1 [of n "n - 1" "length blocks"] by (simp add: add.commute)
    ultimately show ?thesis using assms(2) by simp
  qed
  moreover have "take n (drop (i * n) (concat blocks @ rest)) = blocks ! i" if "i < length blocks" for i
    using that assms(1)
  proof (induction blocks arbitrary: i)
    case (Cons b bs)
    then show ?case by (cases i) (auto simp: drop_drop [symmetric] simp del: drop_drop)
  qed simp
  ultimately show ?thesis by (auto simp: sub_blocks_def intro!: nth_equalityI)
qed

lemma mapE_sized: "\<forall>b \<in> set bs. length b = n \<Longrightarrow> mapE (sized n) bs = Inr bs"
  by (induction bs) (simp_all add: sized_def)

definition multi_key_ok :: "multi_ed25519_key \<Rightarrow> bool" where
  "multi_key_ok k \<longleftrightarrow> new_MultiEd25519PublicKey (mp_keys k) (mp_threshold k) = Inr k \<and> (\<forall>b \<in> set (mp_keys k). length b = 32)"

definition multi_key_bytes :: "multi_ed25519_key \<Rightarrow> buffer" where
  "multi_key_bytes k = concat (mp_keys k) @ [word_of_int (mp_threshold k)]"

lemma multi_key_toUint8Array: "multi_key_ok k \<Longrightarrow> MultiEd25519PublicKey_toUint8Array k = multi_key_bytes k"
proof -
  assume k: "multi_key_ok k"
  then have b: "\<forall>b \<in> set (mp_keys k). length b = 32" by (simp add: multi_key_ok_def)
  then have "length (concat (mp_keys k)) = length (mp_keys k) * 32" by (simp add: length_concat map_idI sum_list_triv cong: map_cong)
  then show ?thesis using set_blocks_concat [OF b, of 1]
    by (simp add: MultiEd25519PublicKey_toUint8Array_def multi_key_bytes_def buf_alloc_def list_update_append)
qed

lemma multi_key_size: "multi_key_ok k \<Longrightarrow> length (multi_key_bytes k) = length (mp_keys k) * 32 + 1 \<and> length (mp_keys k) \<le> 32"
  by (simp add: multi_key_ok_def multi_key_bytes_def new_MultiEd25519PublicKey_def length_concat map_idI sum_list_triv
      cong: map_cong split: if_splits)

interpretation multi_key_bcs:
  bcs MultiEd25519PublicKey_serialize MultiEd25519PublicKey_deserialize "\<lambda>k. len_bytes (multi_key_bytes k)" "\<lambda>k. k" multi_key_ok
proof
  fix k assume k: "multi_key_ok k"
  note n = multi_key_size [OF k]
  show "emits (MultiEd25519PublicKey_serialize k) (len_bytes (multi_key_bytes k))"
    unfolding MultiEd25519PublicKey_serialize_def [abs_def] multi_key_toUint8Array [OF k] using n by (intro emits_bytes) simp
  have b: "\<forall>b \<in> set (mp_keys k). length b = 32" and new: "new_MultiEd25519PublicKey (mp_keys k) (mp_threshold k) = Inr k"
    using k by (simp_all add: multi_key_ok_def)
  have "0 \<le> mp_threshold k" "mp_threshold k < 256"
    using new n by (auto simp: new_MultiEd25519PublicKey_def split: if_splits)
  then have "uint (word_of_int (mp_threshold k) :: byte) = mp_threshold k" by (simp add: uint_word_of_int)
  then have "consumes (\<lambda>d. let threshold = (if multi_key_bytes k = [] then 0 else uint (last (multi_key_bytes k)))
      in bindE (mapE new_Ed25519PublicKey (sub_blocks 32 (length (multi_key_bytes k) - 1) (multi_key_bytes k))) (\<lambda>keys.
        bindE (new_MultiEd25519PublicKey keys threshold) (\<lambda>k. Inr (k, d)))) [] k"
    using n b sub_blocks_concat [OF b] mapE_sized [OF b] new
    by (simp add: multi_key_bytes_def new_Ed25519PublicKey_def consumes_return)
  then show "consumes MultiEd25519PublicKey_deserialize (len_bytes (multi_key_bytes k)) k"
    unfolding MultiEd25519PublicKey_deserialize_def [abs_def]
    using consumes_bind [OF consumes_bytes [of "multi_key_bytes k"]] n by fastforce
qed

definition multi_signature_ok :: "multi_ed25519_signature \<Rightarrow> bool" where
  "multi_signature_ok g \<longleftrightarrow> new_MultiEd25519Signature (ms_signatures g) (BitmapBytes (ms_bitmap g)) = Inr g \<and>
     (\<forall>b \<in> set (ms_signatures g). length b = 64)"

definition multi_signature_bytes :: "multi_ed25519_signature \<Rightarrow> buffer" where
  "multi_signature_bytes g = concat (ms_signatures g) @ ms_bitmap g"

lemma multi_signature_facts:
  assumes "multi_signature_ok g"
  shows "length (ms_signatures g) \<le> 32" "length (ms_bitmap g) = 4" "length (concat (ms_signatures g)) = length (ms_signatures g) * 64"
  using assms by (auto simp: multi_signature_ok_def new_MultiEd25519Signature_def length_concat map_idI sum_list_triv
      cong: map_cong split: if_splits)

lemma multi_signature_toUint8Array:
  assumes g: "multi_signature_ok g"
  shows "MultiEd25519Signature_toUint8Array g = multi_signature_bytes g"
proof -
  have b: "\<forall>b \<in> set (ms_signatures g). length b = 64" using g by (simp add: multi_signature_ok_def)
  show ?thesis using set_blocks_concat [OF b, of 4] multi_signature_facts [OF g]
    by (simp add: MultiEd25519Signature_toUint8Array_def multi_signature_bytes_def buf_copy_def buf_alloc_def)
qed

interpretation multi_signature_bcs:
  bcs MultiEd25519Signature_serialize MultiEd25519Signature_deserialize
    "\<lambda>g. len_bytes (multi_signature_bytes g)" "\<lambda>g. g" multi_signature_ok
proof
  fix g assume g: "multi_signature_ok g"
  note n = multi_signature_facts [OF g]
  show "emits (MultiEd25519Signature_serialize g) (len_bytes (multi_signature_bytes g))"
    unfolding MultiEd25519Signature_serialize_def [abs_def] multi_signature_toUint8Array [OF g]
    using n by (intro emits_bytes) (simp add: multi_signature_bytes_def)
  have b: "\<forall>b \<in> set (ms_signatures g). length b = 64"
    and new: "new_MultiEd25519Signature (ms_signatures g) (BitmapBytes (ms_bitmap g)) = Inr g"
    using g by (simp_all add: multi_signature_ok_def)
  have "consumes (\<lambda>d. let bytes = multi_signature_bytes g; bitmap = subarray_from (int (length bytes) - 4) bytes
      in bindE (mapE new_Ed25519Signature (sub_blocks 64 (length bytes - length bitmap) bytes)) (\<lambda>signatures.
        bindE (new_MultiEd25519Signature signatures (BitmapBytes bitmap)) (\<lambda>g. Inr (g, d)))) [] g"
    using n b sub_blocks_concat [OF b] mapE_sized [OF b] new
    by (simp add: multi_signature_bytes_def new_Ed25519Signature_def consumes_return Let_def subarray_from_def nat_mult_distrib)
  then show "consumes MultiEd25519Signature_deserialize (len_bytes (multi_signature_bytes g)) g"
    unfolding MultiEd25519Signature_deserialize_def [abs_def]
    using consumes_bind [OF consumes_bytes [of "multi_signature_bytes g"]] n
    by (fastforce simp: Let_def multi_signature_bytes_def)
qed

section \<open>Several keys of either scheme\<close>

definition multi_any_key_ok :: "multi_key \<Rightarrow> bool" where
  "multi_any_key_ok k \<longleftrightarrow> new_MultiKey (mk_keys k) (mk_required k) = Inr k \<and> vec_ok any_key_ok (mk_keys k) \<and> mk_required k < 256"

definition multi_any_key_bytes :: "multi_key \<Rightarrow> buffer" where
  "multi_any_key_bytes k = vec_bytes any_key_bytes (mk_keys k) @ le_bytes 1 (mk_required k)"

interpretation multi_any_key_bcs: bcs MultiKey_serialize MultiKey_deserialize multi_any_key_bytes "\<lambda>k. k" multi_any_key_ok
proof
  fix k assume k: "multi_any_key_ok k"
  then have new: "new_MultiKey (mk_keys k) (mk_required k) = Inr k" and vs: "vec_ok any_key_ok (mk_keys k)"
    and r: "0 \<le> mk_required k" "mk_required k < 2 ^ 8"
    by (auto simp: multi_any_key_ok_def new_MultiKey_def split: if_splits)
  show "emits (MultiKey_serialize k) (multi_any_key_bytes k)"
    unfolding MultiKey_serialize_def [abs_def] multi_any_key_bytes_def
    by (intro emits_bind any_key_bcs.emits_vector vs emits_u8 r)
  have "consumes (Deserializer_deserializeVector AnyPublicKey_deserialize) (vec_bytes any_key_bytes (mk_keys k)) (mk_keys k)"
    using any_key_bcs.consumes_vector [OF vs] by simp
  then show "consumes MultiKey_deserialize (multi_any_key_bytes k) k"
    unfolding MultiKey_deserialize_def [abs_def] multi_any_key_bytes_def
    by (rule consumes_bind) (rule consumes_checked, rule consumes_u8 [OF r], rule new)
qed

definition multi_any_signature_ok :: "multi_key_signature \<Rightarrow> bool" where
  "multi_any_signature_ok g \<longleftrightarrow> new_MultiKeySignature (mg_signatures g) (BitmapBytes (mg_bitmap g)) = Inr g \<and>
     list_all any_signature_ok (mg_signatures g)"

definition multi_any_signature_bytes :: "multi_key_signature \<Rightarrow> buffer" where
  "multi_any_signature_bytes g = vec_bytes any_signature_bytes (mg_signatures g) @ len_bytes (mg_bitmap g)"

interpretation multi_any_signature_bcs:
  bcs MultiKeySignature_serialize MultiKeySignature_deserialize multi_any_signature_bytes "\<lambda>g. g" multi_any_signature_ok
proof
  fix g assume g: "multi_any_signature_ok g"
  then have new: "new_MultiKeySignature (mg_signatures g) (BitmapBytes (mg_bitmap g)) = Inr g"
    by (simp add: multi_any_signature_ok_def)
  then have "length (mg_signatures g) \<le> 32" "length (mg_bitmap g) = 4"
    by (auto simp: new_MultiKeySignature_def bindE_eq_Inr split: if_splits)
  then have vs: "vec_ok any_signature_ok (mg_signatures g)" and b: "length (mg_bitmap g) < 2 ^ 32"
    using g by (simp_all add: multi_any_signature_ok_def vec_ok_def)
  show "emits (MultiKeySignature_serialize g) (multi_any_signature_bytes g)"
    unfolding MultiKeySignature_serialize_def [abs_def] multi_any_signature_bytes_def
    by (intro emits_bind any_signature_bcs.emits_vector vs emits_bytes b)
  have "consumes (Deserializer_deserializeVector AnySignature_deserialize)
      (vec_bytes any_signature_bytes (mg_signatures g)) (mg_signatures g)"
    using any_signature_bcs.consumes_vector [OF vs] by simp
  then show "consumes MultiKeySignature_deserialize (multi_any_signature_bytes g) g"
    unfolding MultiKeySignature_deserialize_def [abs_def] multi_any_signature_bytes_def
    by (rule consumes_bind) (rule consumes_checked, rule consumes_bytes [OF b], rule new)
qed

end
