(* ===== verification/Aptos_Move.thy ===== *)
theory Aptos_Move
  imports Aptos_Core
begin

text \<open>
  The values of Move that a transaction carries as arguments (coin-aptos, v2/bcs/serializable):
  numbers, texts, vectors, options and bytes that are serialized already. A value is written plainly,
  as the argument of an entry function (behind the length of its bytes) or as the argument of a script
  (behind the tag of its type).
\<close>

datatype move_value =
    MBool bool
  | MU8 int | MU16 int | MU32 int | MU64 int | MU128 int | MU256 int
  | MAddress account_address
  | MString string
  | MVector "move_value list"
  | MOption "move_value option"
  | MFixedBytes buffer
  | MEntryFunctionBytes buffer

section \<open>Constructors\<close>

definition new_U8 :: "int \<Rightarrow> move_value res" where
  "new_U8 value = bindE (validateNumberInRange value 0 MAX_U8_NUMBER) (\<lambda>_. Inr (MU8 value))"

definition new_U16 :: "int \<Rightarrow> move_value res" where
  "new_U16 value = bindE (validateNumberInRange value 0 MAX_U16_NUMBER) (\<lambda>_. Inr (MU16 value))"

definition new_U32 :: "int \<Rightarrow> move_value res" where
  "new_U32 value = bindE (validateNumberInRange value 0 MAX_U32_NUMBER) (\<lambda>_. Inr (MU32 value))"

definition new_U64 :: "int \<Rightarrow> move_value res" where
  "new_U64 value = bindE (validateNumberInRange value 0 MAX_U64_BIG_INT) (\<lambda>_. Inr (MU64 value))"

definition new_U128 :: "int \<Rightarrow> move_value res" where
  "new_U128 value = bindE (validateNumberInRange value 0 MAX_U128_BIG_INT) (\<lambda>_. Inr (MU128 value))"

definition new_U256 :: "int \<Rightarrow> move_value res" where
  "new_U256 value = bindE (validateNumberInRange value 0 MAX_U256_BIG_INT) (\<lambda>_. Inr (MU256 value))"

text \<open>The three kinds of argument of \<open>MoveVector.U8\<close>: an array of numbers, a text and a \<open>Uint8Array\<close>.\<close>

datatype u8_input = U8Array "int list" | U8Text string | U8Bytes buffer

definition MoveVector_U8 :: "(string \<Rightarrow> buffer option) \<Rightarrow> u8_input \<Rightarrow> move_value res" where
  "MoveVector_U8 h2b values =
     bindE (case values of
       U8Array ns \<Rightarrow> if ns = [] then Inl InvalidData else Inr ns \<comment> \<open>\<open>typeof values[0]\<close> is no number\<close>
     | U8Text s \<Rightarrow> bindE (thrown InvalidString (Hex_fromHexInput h2b (HexText s))) (\<lambda>b. Inr (map uint b))
     | U8Bytes b \<Rightarrow> Inr (map uint b)) (\<lambda>numbers.
     bindE (mapE new_U8 numbers) (\<lambda>vs. Inr (MVector vs)))"

definition MoveVector_of :: "('a \<Rightarrow> move_value res) \<Rightarrow> 'a list \<Rightarrow> move_value res" where
  \<comment> \<open>\<open>MoveVector.U16\<close> to \<open>MoveVector.MoveString\<close>\<close>
  "MoveVector_of new_T values = bindE (mapE new_T values) (\<lambda>vs. Inr (MVector vs))"

definition MoveOption_of :: "('a \<Rightarrow> move_value res) \<Rightarrow> 'a option \<Rightarrow> move_value res" where
  \<comment> \<open>\<open>MoveOption.U8\<close> to \<open>MoveOption.MoveString\<close>\<close>
  "MoveOption_of new_T value =
     (case value of None \<Rightarrow> Inr (MOption None) | Some x \<Rightarrow> bindE (new_T x) (\<lambda>v. Inr (MOption (Some v))))"

definition MoveOption_unwrap :: "move_value option \<Rightarrow> move_value res" where
  "MoveOption_unwrap v = (case v of None \<Rightarrow> Inl InvalidData | Some x \<Rightarrow> Inr x)"

section \<open>Serializing\<close>

fun move_serialize :: "move_value \<Rightarrow> put" where
  "move_serialize (MBool b) s = Serializer_serializeBool b s"
| "move_serialize (MU8 v) s = Serializer_serializeU8 v s"
| "move_serialize (MU16 v) s = Serializer_serializeU16 v s"
| "move_serialize (MU32 v) s = Serializer_serializeU32 v s"
| "move_serialize (MU64 v) s = Serializer_serializeU64 v s"
| "move_serialize (MU128 v) s = Serializer_serializeU128 v s"
| "move_serialize (MU256 v) s = Serializer_serializeU256 v s"
| "move_serialize (MAddress a) s = AccountAddress_serialize a s"
| "move_serialize (MString t) s = Serializer_serializeStr t s"
| "move_serialize (MVector vs) s = Serializer_serializeVector move_serialize vs s"
| "move_serialize (MOption None) s = Serializer_serializeVector move_serialize [] s"
| "move_serialize (MOption (Some v)) s = Serializer_serializeVector move_serialize [v] s"
| "move_serialize (MFixedBytes b) s = Serializer_serializeFixedBytes b s"
| "move_serialize (MEntryFunctionBytes b) s = Serializer_serializeFixedBytes b s"

definition move_serializeForEntryFunction :: "move_value \<Rightarrow> put" where
  "move_serializeForEntryFunction v s =
     (case v of
        MFixedBytes b \<Rightarrow> move_serialize v s
      | MEntryFunctionBytes b \<Rightarrow>
          bindE (Serializer_serializeU32AsUleb128 (int (length b)) s) (move_serialize v)
      | _ \<Rightarrow> bindE (bcsToBytes (move_serialize v)) (\<lambda>bcsBytes. Serializer_serializeBytes bcsBytes s))"

text \<open>
  \<open>MoveVector.serializeForScriptFunction\<close> looks at the first element only; for a text, the bytes of
  its serialisation from the second on become a vector of numbers. Options and the bytes of an entry
  function have no such method.
\<close>

definition is_U8 :: "move_value \<Rightarrow> bool" where
  "is_U8 v \<longleftrightarrow> (case v of MU8 _ \<Rightarrow> True | _ \<Rightarrow> False)"

definition serialize_u8_vector :: "move_value list \<Rightarrow> put" where
  "serialize_u8_vector vs s =
     (if vs \<noteq> [] \<and> \<not> is_U8 (hd vs) then Inl InvalidData
      else bindE (Serializer_serializeU32AsUleb128 4 s) (move_serialize (MVector vs)))"

definition move_serializeForScriptFunction :: "move_value \<Rightarrow> put" where
  "move_serializeForScriptFunction v s =
     (let tagged = (\<lambda>tag. bindE (Serializer_serializeU32AsUleb128 tag s) (move_serialize v)) in
      case v of
        MBool _ \<Rightarrow> tagged 5
      | MU8 _ \<Rightarrow> tagged 0
      | MU16 _ \<Rightarrow> tagged 6
      | MU32 _ \<Rightarrow> tagged 7
      | MU64 _ \<Rightarrow> tagged 1
      | MU128 _ \<Rightarrow> tagged 2
      | MU256 _ \<Rightarrow> tagged 8
      | MAddress _ \<Rightarrow> tagged 3
      | MString _ \<Rightarrow>
          bindE (bcsToBytes (move_serialize v)) (\<lambda>b.
          bindE (MoveVector_U8 (\<lambda>_. None) (U8Bytes (drop 1 b))) (\<lambda>w.
          case w of MVector vs \<Rightarrow> serialize_u8_vector vs s | _ \<Rightarrow> Inl TypeErr))
      | MVector vs \<Rightarrow> serialize_u8_vector vs s
      | MFixedBytes _ \<Rightarrow> move_serialize v s
      | MOption _ \<Rightarrow> Inl TypeErr
      | MEntryFunctionBytes _ \<Rightarrow> Inl TypeErr)"

section \<open>Deserializing\<close>

text \<open>The class that is asked for; those of vectors and options take the class of their elements.\<close>

datatype move_class =
    CBool | CU8 | CU16 | CU32 | CU64 | CU128 | CU256 | CAddress | CString
  | CVector move_class | COption move_class | CFixedBytes nat

fun move_deserialize :: "move_class \<Rightarrow> move_value get" where
  "move_deserialize CBool d = bindE (Deserializer_deserializeBool d) (\<lambda>(b, d). Inr (MBool b, d))"
| "move_deserialize CU8 d = bindE (Deserializer_deserializeU8 d) (\<lambda>(v, d). bindE (new_U8 v) (\<lambda>v. Inr (v, d)))"
| "move_deserialize CU16 d = bindE (Deserializer_deserializeU16 d) (\<lambda>(v, d). bindE (new_U16 v) (\<lambda>v. Inr (v, d)))"
| "move_deserialize CU32 d = bindE (Deserializer_deserializeU32 d) (\<lambda>(v, d). bindE (new_U32 v) (\<lambda>v. Inr (v, d)))"
| "move_deserialize CU64 d = bindE (Deserializer_deserializeU64 d) (\<lambda>(v, d). bindE (new_U64 v) (\<lambda>v. Inr (v, d)))"
| "move_deserialize CU128 d = bindE (Deserializer_deserializeU128 d) (\<lambda>(v, d). bindE (new_U128 v) (\<lambda>v. Inr (v, d)))"
| "move_deserialize CU256 d = bindE (Deserializer_deserializeU256 d) (\<lambda>(v, d). bindE (new_U256 v) (\<lambda>v. Inr (v, d)))"
| "move_deserialize CAddress d = bindE (AccountAddress_deserialize d) (\<lambda>(a, d). Inr (MAddress a, d))"
| "move_deserialize CString d = bindE (Deserializer_deserializeStr d) (\<lambda>(t, d). Inr (MString t, d))"
| "move_deserialize (CVector c) d =
     bindE (Deserializer_deserializeUleb128AsU32 d) (\<lambda>(len, d).
     bindE (get_times (nat len) (move_deserialize c) d) (\<lambda>(vs, d). Inr (MVector vs, d)))"
| "move_deserialize (COption c) d = \<comment> \<open>the first element of a vector\<close>
     bindE (Deserializer_deserializeUleb128AsU32 d) (\<lambda>(len, d).
     bindE (get_times (nat len) (move_deserialize c) d) (\<lambda>(vs, d).
     Inr (MOption (case vs of [] \<Rightarrow> None | v # _ \<Rightarrow> Some v), d)))"
| "move_deserialize (CFixedBytes n) d = bindE (Deserializer_deserializeFixedBytes n d) (\<lambda>(b, d). Inr (MFixedBytes b, d))"

definition script_argument_class :: "int \<Rightarrow> move_class option" where \<comment> \<open>the \<open>switch\<close> over the tag\<close>
  "script_argument_class index =
     (if index = 0 then Some CU8
      else if index = 1 then Some CU64
      else if index = 2 then Some CU128
      else if index = 3 then Some CAddress
      else if index = 4 then Some (CVector CU8)
      else if index = 5 then Some CBool
      else if index = 6 then Some CU16
      else if index = 7 then Some CU32
      else if index = 8 then Some CU256
      else None)"

definition deserializeFromScriptArgument :: "move_value get" where
  "deserializeFromScriptArgument d =
     bindE (Deserializer_deserializeUleb128AsU32 d) (\<lambda>(index, d).
     case script_argument_class index of None \<Rightarrow> Inl InvalidData | Some c \<Rightarrow> move_deserialize c d)"

definition EntryFunctionBytes_deserialize :: "nat \<Rightarrow> move_value get" where
  "EntryFunctionBytes_deserialize len d =
     bindE (move_deserialize (CFixedBytes len) d) (\<lambda>(v, d).
     case v of MFixedBytes b \<Rightarrow> Inr (MEntryFunctionBytes b, d) | _ \<Rightarrow> Inl TypeErr)"

end
