(* ===== verification/Aptos_Transaction.thy ===== *)
theory Aptos_Transaction
  imports Aptos_Move Aptos_Type_Tag
begin

text \<open>
  The transactions of coin-aptos (v2/transactions/instances) and the message that is signed for one
  (transactionBuilder/signingMessage.ts).
\<close>

section \<open>Modules and payloads (moduleId.ts, transactionPayload.ts)\<close>

record module_id =
  mi_address :: account_address
  mi_name :: string

record entry_function =
  ef_module_name :: module_id
  ef_function_name :: string
  ef_type_args :: "type_tag list"
  ef_args :: "move_value list"

record script =
  sc_bytecode :: buffer
  sc_type_args :: "type_tag list"
  sc_args :: "move_value list"

record multi_sig =
  mu_multisig_address :: account_address
  mu_transaction_payload :: "entry_function option" \<comment> \<open>of the \<open>MultiSigTransactionPayload\<close>\<close>

datatype aptos_payload =
    TransactionPayloadScript script
  | TransactionPayloadEntryFunction entry_function
  | TransactionPayloadMultiSig multi_sig

definition ModuleId_fromStr :: "(string \<Rightarrow> buffer option) \<Rightarrow> string \<Rightarrow> module_id res" where
  "ModuleId_fromStr h2b moduleId =
     (let parts = split_colons moduleId
      in if length parts \<noteq> 2 then Inl InvalidData
         else bindE (thrown InvalidAddress (AccountAddress_fromString h2b (parts ! 0))) (\<lambda>a.
              Inr \<lparr>mi_address = a, mi_name = parts ! 1\<rparr>))"

definition ModuleId_serialize :: "module_id \<Rightarrow> put" where
  "ModuleId_serialize m s = bindE (AccountAddress_serialize (mi_address m) s) (Identifier_serialize (mi_name m))"

definition ModuleId_deserialize :: "module_id get" where
  "ModuleId_deserialize d =
     bindE (AccountAddress_deserialize d) (\<lambda>(address, d).
     bindE (Identifier_deserialize d) (\<lambda>(name, d). Inr (\<lparr>mi_address = address, mi_name = name\<rparr>, d)))"

definition EntryFunction_build ::
    "(string \<Rightarrow> buffer option) \<Rightarrow> string \<Rightarrow> string \<Rightarrow> type_tag list \<Rightarrow> move_value list \<Rightarrow> entry_function res" where
  "EntryFunction_build h2b module_id function_name type_args args =
     bindE (ModuleId_fromStr h2b module_id) (\<lambda>m.
     Inr \<lparr>ef_module_name = m, ef_function_name = function_name, ef_type_args = type_args, ef_args = args\<rparr>)"

definition EntryFunction_serialize :: "entry_function \<Rightarrow> put" where
  "EntryFunction_serialize f s =
     bindE (ModuleId_serialize (ef_module_name f) s) (\<lambda>s.
     bindE (Identifier_serialize (ef_function_name f) s) (\<lambda>s.
     bindE (Serializer_serializeVector TypeTag_serialize (ef_type_args f) s) (\<lambda>s.
     bindE (Serializer_serializeU32AsUleb128 (int (length (ef_args f))) s)
       (foldE move_serializeForEntryFunction (ef_args f)))))"

definition deserialize_entry_arg :: "move_value get" where \<comment> \<open>the body of the loop over the arguments\<close>
  "deserialize_entry_arg d =
     bindE (Deserializer_deserializeUleb128AsU32 d) (\<lambda>(fixedBytesLength, d).
     EntryFunctionBytes_deserialize (nat fixedBytesLength) d)"

definition EntryFunction_deserialize :: "entry_function get" where
  "EntryFunction_deserialize d =
     bindE (ModuleId_deserialize d) (\<lambda>(module_name, d).
     bindE (Identifier_deserialize d) (\<lambda>(function_name, d).
     bindE (Deserializer_deserializeVector TypeTag_deserialize d) (\<lambda>(type_args, d).
     bindE (Deserializer_deserializeUleb128AsU32 d) (\<lambda>(len, d).
     bindE (get_times (nat len) deserialize_entry_arg d) (\<lambda>(args, d).
     Inr (\<lparr>ef_module_name = module_name, ef_function_name = function_name, ef_type_args = type_args,
       ef_args = args\<rparr>, d))))))"

definition Script_serialize :: "script \<Rightarrow> put" where
  "Script_serialize f s =
     bindE (Serializer_serializeBytes (sc_bytecode f) s) (\<lambda>s.
     bindE (Serializer_serializeVector TypeTag_serialize (sc_type_args f) s) (\<lambda>s.
     bindE (Serializer_serializeU32AsUleb128 (int (length (sc_args f))) s)
       (foldE move_serializeForScriptFunction (sc_args f))))"

definition Script_deserialize :: "script get" where
  "Script_deserialize d =
     bindE (Deserializer_deserializeBytes d) (\<lambda>(bytecode, d).
     bindE (Deserializer_deserializeVector TypeTag_deserialize d) (\<lambda>(type_args, d).
     bindE (Deserializer_deserializeUleb128AsU32 d) (\<lambda>(len, d).
     bindE (get_times (nat len) deserializeFromScriptArgument d) (\<lambda>(args, d).
     Inr (\<lparr>sc_bytecode = bytecode, sc_type_args = type_args, sc_args = args\<rparr>, d)))))"

text \<open>A flag, and the value if it is there; the classes with an optional part write and read it so.\<close>

definition serialize_optional :: "('a \<Rightarrow> put) \<Rightarrow> 'a option \<Rightarrow> put" where
  "serialize_optional ser v s =
     (case v of None \<Rightarrow> Serializer_serializeBool False s
      | Some x \<Rightarrow> bindE (Serializer_serializeBool True s) (ser x))"

definition deserialize_optional :: "'a get \<Rightarrow> 'a option get" where
  "deserialize_optional de d =
     bindE (Deserializer_deserializeBool d) (\<lambda>(present, d).
     if present then bindE (de d) (\<lambda>(x, d). Inr (Some x, d)) else Inr (None, d))"

definition MultiSigTransactionPayload_serialize :: "entry_function \<Rightarrow> put" where
  "MultiSigTransactionPayload_serialize f s =
     bindE (Serializer_serializeU32AsUleb128 0 s) (EntryFunction_serialize f)"

definition MultiSigTransactionPayload_deserialize :: "entry_function get" where \<comment> \<open>whatever the tag\<close>
  "MultiSigTransactionPayload_deserialize d =
     bindE (Deserializer_deserializeUleb128AsU32 d) (\<lambda>(_, d). EntryFunction_deserialize d)"

definition MultiSig_serialize :: "multi_sig \<Rightarrow> put" where
  "MultiSig_serialize m s =
     bindE (AccountAddress_serialize (mu_multisig_address m) s)
       (serialize_optional MultiSigTransactionPayload_serialize (mu_transaction_payload m))"

definition MultiSig_deserialize :: "multi_sig get" where
  "MultiSig_deserialize d =
     bindE (AccountAddress_deserialize d) (\<lambda>(multisig_address, d).
     bindE (deserialize_optional MultiSigTransactionPayload_deserialize d) (\<lambda>(payload, d).
     Inr (\<lparr>mu_multisig_address = multisig_address, mu_transaction_payload = payload\<rparr>, d)))"

definition TransactionPayload_serialize :: "aptos_payload \<Rightarrow> put" where
  "TransactionPayload_serialize p s =
     (case p of
        TransactionPayloadScript x \<Rightarrow> bindE (Serializer_serializeU32AsUleb128 0 s) (Script_serialize x)
      | TransactionPayloadEntryFunction x \<Rightarrow> bindE (Serializer_serializeU32AsUleb128 2 s) (EntryFunction_serialize x)
      | TransactionPayloadMultiSig x \<Rightarrow> bindE (Serializer_serializeU32AsUleb128 3 s) (MultiSig_serialize x))"

definition TransactionPayload_deserialize :: "aptos_payload get" where
  "TransactionPayload_deserialize d =
     bindE (Deserializer_deserializeUleb128AsU32 d) (\<lambda>(index, d).
     if index = 0 then bindE (Script_deserialize d) (\<lambda>(x, d). Inr (TransactionPayloadScript x, d))
     else if index = 2 then bindE (EntryFunction_deserialize d) (\<lambda>(x, d). Inr (TransactionPayloadEntryFunction x, d))
     else if index = 3 then bindE (MultiSig_deserialize d) (\<lambda>(x, d). Inr (TransactionPayloadMultiSig x, d))
     else Inl InvalidData)"

section \<open>Raw transactions (rawTransaction.ts, chainId.ts)\<close>

record raw_transaction =
  rt_sender :: account_address
  rt_sequence_number :: int
  rt_payload :: aptos_payload
  rt_max_gas_amount :: int
  rt_gas_unit_price :: int
  rt_expiration_timestamp_secs :: int
  rt_chain_id :: int

definition RawTransaction_serialize :: "raw_transaction \<Rightarrow> put" where
  "RawTransaction_serialize t s =
     bindE (AccountAddress_serialize (rt_sender t) s) (\<lambda>s.
     bindE (Serializer_serializeU64 (rt_sequence_number t) s) (\<lambda>s.
     bindE (TransactionPayload_serialize (rt_payload t) s) (\<lambda>s.
     bindE (Serializer_serializeU64 (rt_max_gas_amount t) s) (\<lambda>s.
     bindE (Serializer_serializeU64 (rt_gas_unit_price t) s) (\<lambda>s.
     bindE (Serializer_serializeU64 (rt_expiration_timestamp_secs t) s) (\<lambda>s.
     Serializer_serializeU8 (rt_chain_id t) s))))))"

definition RawTransaction_deserialize :: "raw_transaction get" where
  "RawTransaction_deserialize d =
     bindE (AccountAddress_deserialize d) (\<lambda>(sender, d).
     bindE (Deserializer_deserializeU64 d) (\<lambda>(sequence_number, d).
     bindE (TransactionPayload_deserialize d) (\<lambda>(payload, d).
     bindE (Deserializer_deserializeU64 d) (\<lambda>(max_gas_amount, d).
     bindE (Deserializer_deserializeU64 d) (\<lambda>(gas_unit_price, d).
     bindE (Deserializer_deserializeU64 d) (\<lambda>(expiration_timestamp_secs, d).
     bindE (Deserializer_deserializeU8 d) (\<lambda>(chain_id, d).
     Inr (\<lparr>rt_sender = sender, rt_sequence_number = sequence_number, rt_payload = payload,
       rt_max_gas_amount = max_gas_amount, rt_gas_unit_price = gas_unit_price,
       rt_expiration_timestamp_secs = expiration_timestamp_secs, rt_chain_id = chain_id\<rparr>, d))))))))"

datatype raw_transaction_with_data =
    MultiAgentRawTransaction raw_transaction "account_address list"
  | FeePayerRawTransaction raw_transaction "account_address list" account_address

definition RawTransactionWithData_serialize :: "raw_transaction_with_data \<Rightarrow> put" where
  "RawTransactionWithData_serialize t s =
     (case t of
        MultiAgentRawTransaction raw_txn secondary \<Rightarrow>
          bindE (Serializer_serializeU32AsUleb128 0 s) (\<lambda>s.
          bindE (RawTransaction_serialize raw_txn s) (\<lambda>s.
          Serializer_serializeVector AccountAddress_serialize secondary s))
      | FeePayerRawTransaction raw_txn secondary fee_payer \<Rightarrow>
          bindE (Serializer_serializeU32AsUleb128 1 s) (\<lambda>s.
          bindE (RawTransaction_serialize raw_txn s) (\<lambda>s.
          bindE (Serializer_serializeVector AccountAddress_serialize secondary s) (\<lambda>s.
          AccountAddress_serialize fee_payer s))))"

definition RawTransactionWithData_deserialize :: "raw_transaction_with_data get" where
  "RawTransactionWithData_deserialize d =
     bindE (Deserializer_deserializeUleb128AsU32 d) (\<lambda>(index, d).
     if index = 0
     then bindE (RawTransaction_deserialize d) (\<lambda>(rawTxn, d).
          bindE (Deserializer_deserializeVector AccountAddress_deserialize d) (\<lambda>(secondary, d).
          Inr (MultiAgentRawTransaction rawTxn secondary, d)))
     else if index = 1
     then bindE (RawTransaction_deserialize d) (\<lambda>(rawTxn, d).
          bindE (Deserializer_deserializeVector AccountAddress_deserialize d) (\<lambda>(secondary, d).
          bindE (AccountAddress_deserialize d) (\<lambda>(feePayer, d).
          Inr (FeePayerRawTransaction rawTxn secondary feePayer, d))))
     else Inl InvalidData)"

section \<open>Transactions to be signed (simpleTransaction.ts, multiAgentTransaction.ts)\<close>

text \<open>
  A \<open>SimpleTransaction\<close> has no secondary signers at all, a \<open>MultiAgentTransaction\<close> a list of them, which
  may be empty.
\<close>

record any_raw_transaction =
  ar_rawTransaction :: raw_transaction
  ar_secondarySignerAddresses :: "account_address list option"
  ar_feePayerAddress :: "account_address option"

definition SimpleTransaction_serialize :: "any_raw_transaction \<Rightarrow> put" where
  "SimpleTransaction_serialize t s =
     bindE (RawTransaction_serialize (ar_rawTransaction t) s)
       (serialize_optional AccountAddress_serialize (ar_feePayerAddress t))"

definition SimpleTransaction_deserialize :: "any_raw_transaction get" where
  "SimpleTransaction_deserialize d =
     bindE (RawTransaction_deserialize d) (\<lambda>(rawTransaction, d).
     bindE (deserialize_optional AccountAddress_deserialize d) (\<lambda>(feePayerAddress, d).
     Inr (\<lparr>ar_rawTransaction = rawTransaction, ar_secondarySignerAddresses = None,
       ar_feePayerAddress = feePayerAddress\<rparr>, d)))"

definition MultiAgentTransaction_serialize :: "any_raw_transaction \<Rightarrow> put" where
  "MultiAgentTransaction_serialize t s =
     bindE (RawTransaction_serialize (ar_rawTransaction t) s) (\<lambda>s.
     case ar_secondarySignerAddresses t of
       None \<Rightarrow> Inl TypeErr
     | Some secondary \<Rightarrow> bindE (Serializer_serializeVector AccountAddress_serialize secondary s)
         (serialize_optional AccountAddress_serialize (ar_feePayerAddress t)))"

definition MultiAgentTransaction_deserialize :: "any_raw_transaction get" where
  "MultiAgentTransaction_deserialize d =
     bindE (RawTransaction_deserialize d) (\<lambda>(rawTransaction, d).
     bindE (Deserializer_deserializeVector AccountAddress_deserialize d) (\<lambda>(secondary, d).
     bindE (deserialize_optional AccountAddress_deserialize d) (\<lambda>(feePayerAddress, d).
     Inr (\<lparr>ar_rawTransaction = rawTransaction, ar_secondarySignerAddresses = Some secondary,
       ar_feePayerAddress = feePayerAddress\<rparr>, d))))"

section \<open>The message that is signed (signingMessage.ts)\<close>

datatype any_raw_instance = RawInstance raw_transaction | WithDataInstance raw_transaction_with_data

definition deriveTransactionType :: "any_raw_transaction \<Rightarrow> any_raw_instance" where
  "deriveTransactionType t =
     (case ar_feePayerAddress t of
        Some feePayer \<Rightarrow>
          WithDataInstance (FeePayerRawTransaction (ar_rawTransaction t)
            (case ar_secondarySignerAddresses t of None \<Rightarrow> [] | Some secondary \<Rightarrow> secondary) feePayer)
      | None \<Rightarrow> (case ar_secondarySignerAddresses t of
            Some secondary \<Rightarrow> WithDataInstance (MultiAgentRawTransaction (ar_rawTransaction t) secondary)
          | None \<Rightarrow> RawInstance (ar_rawTransaction t)))"

definition instance_serialize :: "any_raw_instance \<Rightarrow> put" where \<comment> \<open>the method of the class it has\<close>
  "instance_serialize t =
     (case t of RawInstance r \<Rightarrow> RawTransaction_serialize r | WithDataInstance r \<Rightarrow> RawTransactionWithData_serialize r)"

definition generateSigningMessage :: "(buffer \<Rightarrow> buffer) \<Rightarrow> buffer \<Rightarrow> string \<Rightarrow> buffer res" where
  "generateSigningMessage sha3 bytes domainSeparator =
     (if take 7 domainSeparator \<noteq> ''APTOS::'' then Inl InvalidData
      else let prefix = sha3 (text_encode domainSeparator);
               mergedArray = buf_alloc (length prefix + length bytes);
               mergedArray = buf_copy prefix mergedArray 0
           in Inr (buf_copy bytes mergedArray (length prefix)))"

definition RAW_TRANSACTION_SALT :: string where
  "RAW_TRANSACTION_SALT = ''APTOS::RawTransaction''"

definition RAW_TRANSACTION_WITH_DATA_SALT :: string where
  "RAW_TRANSACTION_WITH_DATA_SALT = ''APTOS::RawTransactionWithData''"

definition generateSigningMessageForSerializable :: "(buffer \<Rightarrow> buffer) \<Rightarrow> string \<Rightarrow> put \<Rightarrow> buffer res" where
  \<comment> \<open>of an object of the class with the given name and method \<open>serialize\<close>\<close>
  "generateSigningMessageForSerializable sha3 className serialize =
     bindE (bcsToBytes serialize) (\<lambda>b. generateSigningMessage sha3 b (''APTOS::'' @ className))"

definition generateSigningMessageForTransaction :: "(buffer \<Rightarrow> buffer) \<Rightarrow> any_raw_transaction \<Rightarrow> buffer res" where
  "generateSigningMessageForTransaction sha3 t =
     (let rawTxn = deriveTransactionType t;
          salt = (if ar_feePayerAddress t \<noteq> None then RAW_TRANSACTION_WITH_DATA_SALT
                  else if ar_secondarySignerAddresses t \<noteq> None then RAW_TRANSACTION_WITH_DATA_SALT
                  else RAW_TRANSACTION_SALT)
      in bindE (bcsToBytes (instance_serialize rawTxn)) (\<lambda>b. generateSigningMessage sha3 b salt))"

section \<open>Proofs of a change of keys (rotationProofChallenge.ts)\<close>

record rotation_proof =
  rp_originator :: account_address
  rp_currentAuthKey :: account_address
  rp_newPublicKey :: move_value
  rp_sequenceNumber :: move_value

definition new_RotationProofChallenge ::
    "int \<Rightarrow> account_address \<Rightarrow> account_address \<Rightarrow> buffer \<Rightarrow> rotation_proof res" where
  \<comment> \<open>the key is given by its bytes\<close>
  "new_RotationProofChallenge sequenceNumber originator currentAuthKey newPublicKey =
     bindE (new_U64 sequenceNumber) (\<lambda>n.
     bindE (MoveVector_U8 (\<lambda>_. None) (U8Bytes newPublicKey)) (\<lambda>k.
     Inr \<lparr>rp_originator = originator, rp_currentAuthKey = currentAuthKey, rp_newPublicKey = k, rp_sequenceNumber = n\<rparr>))"

definition RotationProofChallenge_serialize :: "rotation_proof \<Rightarrow> put" where
  "RotationProofChallenge_serialize p s =
     bindE (AccountAddress_serialize address_ONE s) (\<lambda>s.
     bindE (move_serialize (MString ''account'') s) (\<lambda>s.
     bindE (move_serialize (MString ''RotationProofChallenge'') s) (\<lambda>s.
     bindE (move_serialize (rp_sequenceNumber p) s) (\<lambda>s.
     bindE (AccountAddress_serialize (rp_originator p) s) (\<lambda>s.
     bindE (AccountAddress_serialize (rp_currentAuthKey p) s) (\<lambda>s.
     move_serialize (rp_newPublicKey p) s))))))"

end
