(* ===== verification/Aptos_Authenticator.thy ===== *)
theory Aptos_Authenticator
  imports Aptos_Transaction Aptos_Multi
begin

text \<open>
  The authenticators of coin-aptos (v2/transactions/authenticator), signed transactions
  (signedTransaction.ts) and how they are put together and hashed (transactionBuilder.ts).
\<close>

section \<open>Authenticators of an account (account.ts)\<close>

datatype account_authenticator =
    AccountAuthenticatorEd25519 buffer buffer
  | AccountAuthenticatorMultiEd25519 multi_ed25519_key multi_ed25519_signature
  | AccountAuthenticatorSingleKey any_public_key any_signature
  | AccountAuthenticatorMultiKey multi_key multi_key_signature

definition serialize_pair :: "('a \<Rightarrow> put) \<Rightarrow> ('b \<Rightarrow> put) \<Rightarrow> int \<Rightarrow> 'a \<Rightarrow> 'b \<Rightarrow> put" where
  \<comment> \<open>the tag, the key and the signature, in every class of authenticators by a key\<close>
  "serialize_pair f g tag x y s =
     bindE (Serializer_serializeU32AsUleb128 tag s) (\<lambda>s. bindE (f x s) (\<lambda>s. g y s))"

definition load_pair :: "'a get \<Rightarrow> 'b get \<Rightarrow> ('a \<Rightarrow> 'b \<Rightarrow> 'c) \<Rightarrow> 'c get" where
  "load_pair f g both d = bindE (f d) (\<lambda>(x, d). bindE (g d) (\<lambda>(y, d). Inr (both x y, d)))"

definition AccountAuthenticator_serialize :: "account_authenticator \<Rightarrow> put" where
  "AccountAuthenticator_serialize a =
     (case a of
        AccountAuthenticatorEd25519 k g \<Rightarrow> serialize_pair sized_serialize sized_serialize 0 k g
      | AccountAuthenticatorMultiEd25519 k g \<Rightarrow>
          serialize_pair MultiEd25519PublicKey_serialize MultiEd25519Signature_serialize 1 k g
      | AccountAuthenticatorSingleKey k g \<Rightarrow> serialize_pair AnyPublicKey_serialize AnySignature_serialize 2 k g
      | AccountAuthenticatorMultiKey k g \<Rightarrow> serialize_pair MultiKey_serialize MultiKeySignature_serialize 3 k g)"

definition AccountAuthenticator_deserialize :: "account_authenticator get" where
  "AccountAuthenticator_deserialize d =
     bindE (Deserializer_deserializeUleb128AsU32 d) (\<lambda>(index, d).
     if index = 0 then load_pair (sized_deserialize 32) (sized_deserialize 64) AccountAuthenticatorEd25519 d
     else if index = 1
       then load_pair MultiEd25519PublicKey_deserialize MultiEd25519Signature_deserialize AccountAuthenticatorMultiEd25519 d
     else if index = 2 then load_pair AnyPublicKey_deserialize AnySignature_deserialize AccountAuthenticatorSingleKey d
     else if index = 3 then load_pair MultiKey_deserialize MultiKeySignature_deserialize AccountAuthenticatorMultiKey d
     else Inl InvalidData)"

section \<open>Authenticators of a transaction (transaction.ts)\<close>

datatype transaction_authenticator =
    TransactionAuthenticatorEd25519 buffer buffer
  | TransactionAuthenticatorMultiEd25519 multi_ed25519_key multi_ed25519_signature
  | TransactionAuthenticatorMultiAgent account_authenticator "account_address list" "account_authenticator list"
  | TransactionAuthenticatorFeePayer account_authenticator "account_address list" "account_authenticator list"
      account_address account_authenticator
  | TransactionAuthenticatorSingleSender account_authenticator

definition serialize_agents :: "account_authenticator \<Rightarrow> account_address list \<Rightarrow> account_authenticator list \<Rightarrow> put" where
  \<comment> \<open>the sender and the secondary signers, of both kinds of authenticators that have them\<close>
  "serialize_agents sender addresses signers s =
     bindE (AccountAuthenticator_serialize sender s) (\<lambda>s.
     bindE (Serializer_serializeVector AccountAddress_serialize addresses s) (\<lambda>s.
     Serializer_serializeVector AccountAuthenticator_serialize signers s))"

definition load_agents :: "(account_authenticator \<times> account_address list \<times> account_authenticator list) get" where
  "load_agents d =
     bindE (AccountAuthenticator_deserialize d) (\<lambda>(sender, d).
     bindE (Deserializer_deserializeVector AccountAddress_deserialize d) (\<lambda>(addresses, d).
     bindE (Deserializer_deserializeVector AccountAuthenticator_deserialize d) (\<lambda>(signers, d).
     Inr ((sender, addresses, signers), d))))"

definition TransactionAuthenticator_serialize :: "transaction_authenticator \<Rightarrow> put" where
  "TransactionAuthenticator_serialize a s =
     (case a of
        TransactionAuthenticatorEd25519 k g \<Rightarrow> serialize_pair sized_serialize sized_serialize 0 k g s
      | TransactionAuthenticatorMultiEd25519 k g \<Rightarrow>
          serialize_pair MultiEd25519PublicKey_serialize MultiEd25519Signature_serialize 1 k g s
      | TransactionAuthenticatorMultiAgent sender addresses signers \<Rightarrow>
          bindE (Serializer_serializeU32AsUleb128 2 s) (\<lambda>s. serialize_agents sender addresses signers s)
      | TransactionAuthenticatorFeePayer sender addresses signers address authenticator \<Rightarrow>
          bindE (Serializer_serializeU32AsUleb128 3 s) (\<lambda>s.
          bindE (serialize_agents sender addresses signers s) (\<lambda>s.
          bindE (AccountAddress_serialize address s) (\<lambda>s. AccountAuthenticator_serialize authenticator s)))
      | TransactionAuthenticatorSingleSender sender \<Rightarrow>
          bindE (Serializer_serializeU32AsUleb128 4 s) (\<lambda>s. AccountAuthenticator_serialize sender s))"

definition TransactionAuthenticator_deserialize :: "transaction_authenticator get" where
  "TransactionAuthenticator_deserialize d =
     bindE (Deserializer_deserializeUleb128AsU32 d) (\<lambda>(index, d).
     if index = 0 then load_pair (sized_deserialize 32) (sized_deserialize 64) TransactionAuthenticatorEd25519 d
     else if index = 1
       then load_pair MultiEd25519PublicKey_deserialize MultiEd25519Signature_deserialize TransactionAuthenticatorMultiEd25519 d
     else if index = 2
       then bindE (load_agents d) (\<lambda>((sender, addresses, signers), d).
            Inr (TransactionAuthenticatorMultiAgent sender addresses signers, d))
     else if index = 3
       then bindE (load_agents d) (\<lambda>((sender, addresses, signers), d).
            bindE (AccountAddress_deserialize d) (\<lambda>(address, d).
            bindE (AccountAuthenticator_deserialize d) (\<lambda>(authenticator, d).
            Inr (TransactionAuthenticatorFeePayer sender addresses signers address authenticator, d))))
     else if index = 4
       then bindE (AccountAuthenticator_deserialize d) (\<lambda>(sender, d). Inr (TransactionAuthenticatorSingleSender sender, d))
     else Inl InvalidData)"

section \<open>Signed transactions\<close>

record signed_transaction =
  sg_raw_txn :: raw_transaction
  sg_authenticator :: transaction_authenticator

definition SignedTransaction_serialize :: "signed_transaction \<Rightarrow> put" where
  "SignedTransaction_serialize t s =
     bindE (RawTransaction_serialize (sg_raw_txn t) s) (\<lambda>s. TransactionAuthenticator_serialize (sg_authenticator t) s)"

definition SignedTransaction_deserialize :: "signed_transaction get" where
  "SignedTransaction_deserialize d =
     bindE (RawTransaction_deserialize d) (\<lambda>(raw_txn, d).
     bindE (TransactionAuthenticator_deserialize d) (\<lambda>(authenticator, d).
     Inr (\<lparr>sg_raw_txn = raw_txn, sg_authenticator = authenticator\<rparr>, d)))"

definition transaction_authenticator_for ::
    "any_raw_transaction \<Rightarrow> account_authenticator \<Rightarrow> account_authenticator option \<Rightarrow> account_authenticator list option \<Rightarrow>
     transaction_authenticator res" where
  \<comment> \<open>the choice in \<open>generateSignedTransaction\<close>\<close>
  "transaction_authenticator_for t senderAuthenticator feePayerAuthenticator additionalSignersAuthenticators =
     (case ar_feePayerAddress t of
        Some feePayerAddress \<Rightarrow>
          (case feePayerAuthenticator of
             None \<Rightarrow> Inl InvalidData
           | Some authenticator \<Rightarrow>
               Inr (TransactionAuthenticatorFeePayer senderAuthenticator
                 (case ar_secondarySignerAddresses t of None \<Rightarrow> [] | Some l \<Rightarrow> l)
                 (case additionalSignersAuthenticators of None \<Rightarrow> [] | Some l \<Rightarrow> l) feePayerAddress authenticator))
      | None \<Rightarrow> (case ar_secondarySignerAddresses t of
          Some secondary \<Rightarrow>
            (case additionalSignersAuthenticators of
               None \<Rightarrow> Inl InvalidData
             | Some l \<Rightarrow> Inr (TransactionAuthenticatorMultiAgent senderAuthenticator secondary l))
        | None \<Rightarrow> (case senderAuthenticator of
              AccountAuthenticatorEd25519 k g \<Rightarrow> Inr (TransactionAuthenticatorEd25519 k g)
            | _ \<Rightarrow> Inr (TransactionAuthenticatorSingleSender senderAuthenticator))))"

text \<open>The sender's authenticator is written and read back first (utils/normalizeBundle.ts).\<close>

definition normalizeBundle :: "'a get \<Rightarrow> ('a \<Rightarrow> put) \<Rightarrow> 'a \<Rightarrow> 'a res" where
  "normalizeBundle deserialize serialize v =
     bindE (bcsToBytes (serialize v)) (\<lambda>serializedBytes.
     bindE (deserialize (new_Deserializer serializedBytes)) (\<lambda>(v, _). Inr v))"

definition generateSignedTransaction ::
    "any_raw_transaction \<Rightarrow> account_authenticator \<Rightarrow> account_authenticator option \<Rightarrow> account_authenticator list option \<Rightarrow>
     buffer res" where
  "generateSignedTransaction t sender feePayerAuthenticator additionalSignersAuthenticators =
     bindE (normalizeBundle AccountAuthenticator_deserialize AccountAuthenticator_serialize sender) (\<lambda>senderAuthenticator.
     bindE (transaction_authenticator_for t senderAuthenticator feePayerAuthenticator additionalSignersAuthenticators)
       (\<lambda>txnAuthenticator.
     bcsToBytes (SignedTransaction_serialize
       \<lparr>sg_raw_txn = ar_rawTransaction t, sg_authenticator = txnAuthenticator\<rparr>)))"

text \<open>Hashing the values one after another is hashing the bytes of all of them.\<close>

definition hashValues :: "(buffer \<Rightarrow> buffer) \<Rightarrow> buffer list \<Rightarrow> buffer" where
  "hashValues sha3 input = sha3 (concat input)"

definition TRANSACTION_PREFIX :: "(buffer \<Rightarrow> buffer) \<Rightarrow> buffer" where
  "TRANSACTION_PREFIX sha3 = hashValues sha3 [text_encode ''APTOS::Transaction'']"

definition generateUserTransactionHash ::
    "(buffer \<Rightarrow> buffer) \<Rightarrow> (buffer \<Rightarrow> string) \<Rightarrow> any_raw_transaction \<Rightarrow> account_authenticator \<Rightarrow>
     account_authenticator option \<Rightarrow> account_authenticator list option \<Rightarrow> string res" where
  "generateUserTransactionHash sha3 b2h t senderAuthenticator feePayerAuthenticator additionalSignersAuthenticators =
     bindE (generateSignedTransaction t senderAuthenticator feePayerAuthenticator additionalSignersAuthenticators)
       (\<lambda>signedTransaction.
     Inr (Hex_toString b2h (hashValues sha3 [TRANSACTION_PREFIX sha3, [0], signedTransaction])))"

definition getAuthenticatorForSimulation :: "any_public_key + buffer \<Rightarrow> account_authenticator res" where
  \<comment> \<open>of an \<open>AnyPublicKey\<close>, or of another key by its bytes\<close>
  "getAuthenticatorForSimulation publicKey =
     (case publicKey of
        Inl (AnyEd25519Key k) \<Rightarrow>
          Inr (AccountAuthenticatorSingleKey (AnyEd25519Key k) (AnyEd25519Signature (buf_alloc 64)))
      | Inl (AnySecp256k1Key k) \<Rightarrow>
          Inr (AccountAuthenticatorSingleKey (AnySecp256k1Key k) (AnySecp256k1Signature (buf_alloc 64)))
      | Inr bytes \<Rightarrow> bindE (new_Ed25519PublicKey bytes) (\<lambda>k. Inr (AccountAuthenticatorEd25519 k (buf_alloc 64))))"

definition generateSignedTransactionForSimulation ::
    "any_raw_transaction \<Rightarrow> any_public_key + buffer \<Rightarrow> (any_public_key + buffer) list option \<Rightarrow>
     (any_public_key + buffer) option \<Rightarrow> buffer res" where
  "generateSignedTransactionForSimulation t signerPublicKey secondarySignersPublicKeys feePayerPublicKey =
     bindE (getAuthenticatorForSimulation signerPublicKey) (\<lambda>accountAuthenticator.
     bindE (case ar_feePayerAddress t of
         Some feePayerAddress \<Rightarrow>
           bindE (case secondarySignersPublicKeys of None \<Rightarrow> Inr [] | Some ks \<Rightarrow> mapE getAuthenticatorForSimulation ks)
             (\<lambda>secondary.
           bindE (case feePayerPublicKey of None \<Rightarrow> Inl TypeErr | Some k \<Rightarrow> getAuthenticatorForSimulation k)
             (\<lambda>feePayerAuthenticator.
           Inr (TransactionAuthenticatorFeePayer accountAuthenticator
             (case ar_secondarySignerAddresses t of None \<Rightarrow> [] | Some l \<Rightarrow> l) secondary
             feePayerAddress feePayerAuthenticator)))
       | None \<Rightarrow> (case ar_secondarySignerAddresses t of
           Some addresses \<Rightarrow>
             bindE (case secondarySignersPublicKeys of
                 None \<Rightarrow> Inl TypeErr | Some ks \<Rightarrow> mapE getAuthenticatorForSimulation ks) (\<lambda>secondary.
             Inr (TransactionAuthenticatorMultiAgent accountAuthenticator addresses secondary))
         | None \<Rightarrow> (case accountAuthenticator of
               AccountAuthenticatorEd25519 k g \<Rightarrow> Inr (TransactionAuthenticatorEd25519 k g)
             | AccountAuthenticatorSingleKey _ _ \<Rightarrow> Inr (TransactionAuthenticatorSingleSender accountAuthenticator)
             | _ \<Rightarrow> Inl InvalidKey))) (\<lambda>transactionAuthenticator.
     bcsToBytes (SignedTransaction_serialize
       \<lparr>sg_raw_txn = ar_rawTransaction t, sg_authenticator = transactionAuthenticator\<rparr>)))"

end
