(* ===== verification/Aptos_Tx_Codec.thy ===== *)
theory Aptos_Tx_Codec
  imports Aptos_Key_Codec Aptos_Authenticator
begin

text \<open>
  Transactions of coin-aptos as bytes. The arguments of an entry function come back as bytes, those of
  a script without the difference between a text and a vector of numbers; what comes back is \<open>entry_seen\<close>
  and \<open>script_seen\<close>, and from there \<open>payload_seen\<close> and \<open>raw_seen\<close>. Everything else comes back as it was.
\<close>

section \<open>Arguments\<close>

fun move_bytes :: "move_value \<Rightarrow> buffer" where
  "move_bytes (MBool b) = [if b then 1 else 0]"
| "move_bytes (MU8 v) = le_bytes 1 v"
| "move_bytes (MU16 v) = le_bytes 2 v"
| "move_bytes (MU32 v) = le_bytes 4 v"
| "move_bytes (MU64 v) = le_bytes 8 v"
| "move_bytes (MU128 v) = le_bytes 16 v"
| "move_bytes (MU256 v) = le_bytes 32 v"
| "move_bytes (MAddress a) = a"
| "move_bytes (MString t) = str_bytes t"
| "move_bytes (MVector vs) = uleb_bytes (length vs) @ concat (map move_bytes vs)"
| "move_bytes (MOption None) = uleb_bytes 0"
| "move_bytes (MOption (Some v)) = uleb_bytes 1 @ move_bytes v"
| "move_bytes (MFixedBytes b) = b"
| "move_bytes (MEntryFunctionBytes b) = b"

fun move_ok :: "move_value \<Rightarrow> bool" where
  "move_ok (MU8 v) \<longleftrightarrow> 0 \<le> v \<and> v < 2 ^ 8"
| "move_ok (MU16 v) \<longleftrightarrow> 0 \<le> v \<and> v < 2 ^ 16"
| "move_ok (MU32 v) \<longleftrightarrow> 0 \<le> v \<and> v < 2 ^ 32"
| "move_ok (MU64 v) \<longleftrightarrow> 0 \<le> v \<and> v < 2 ^ 64"
| "move_ok (MU128 v) \<longleftrightarrow> 0 \<le> v \<and> v < 2 ^ 128"
| "move_ok (MU256 v) \<longleftrightarrow> 0 \<le> v \<and> v < 2 ^ 256"
| "move_ok (MAddress a) \<longleftrightarrow> address_ok a"
| "move_ok (MString t) \<longleftrightarrow> str_ok t"
| "move_ok (MVector vs) \<longleftrightarrow> length vs < 2 ^ 32 \<and> (\<forall>v \<in> set vs. move_ok v)"
| "move_ok (MOption (Some v)) \<longleftrightarrow> move_ok v"
| "move_ok _ \<longleftrightarrow> True"

lemma move_serialize_abs:
  "move_serialize (MBool b) = Serializer_serializeBool b"
  "move_serialize (MU8 v) = Serializer_serializeU8 v"
  "move_serialize (MU16 v) = Serializer_serializeU16 v"
  "move_serialize (MU32 v) = Serializer_serializeU32 v"
  "move_serialize (MU64 v) = Serializer_serializeU64 v"
  "move_serialize (MU128 v) = Serializer_serializeU128 v"
  "move_serialize (MU256 v) = Serializer_serializeU256 v"
  "move_serialize (MAddress a) = AccountAddress_serialize a"
  "move_serialize (MString t) = Serializer_serializeStr t"
  "move_serialize (MVector vs) = Serializer_serializeVector move_serialize vs"
  "move_serialize (MOption None) = Serializer_serializeVector move_serialize []"
  "move_serialize (MOption (Some w)) = Serializer_serializeVector move_serialize [w]"
  "move_serialize (MFixedBytes c) = Serializer_appendToBuffer c"
  "move_serialize (MEntryFunctionBytes c) = Serializer_appendToBuffer c"
  by (rule ext, simp add: Serializer_serializeFixedBytes_def)+

lemma emits_move: "move_ok v \<Longrightarrow> emits (move_serialize v) (move_bytes v)"
proof (induction v)
  case (MBool b)
  then show ?case using emits_bool [of b] by (simp add: move_serialize_abs)
next
  case (MU8 v)
  then show ?case using emits_u8 [of v] by (simp add: move_serialize_abs)
next
  case (MVector vs)
  then show ?case using emits_array [of vs move_serialize move_bytes] by (simp add: move_serialize_abs vec_bytes_def)
next
  case (MOption x)
  then show ?case
    using emits_array [of "[]" move_serialize move_bytes] emits_array [of "[v]" move_serialize move_bytes for v]
    by (cases x) (simp_all add: move_serialize_abs vec_bytes_def)
qed (auto simp: move_serialize_abs intro!: emit_intros)

text \<open>A value is read back by its class, whatever the class of its elements.\<close>

primrec has_class :: "move_class \<Rightarrow> move_value \<Rightarrow> bool" where
  "has_class CBool v = (case v of MBool _ \<Rightarrow> True | _ \<Rightarrow> False)"
| "has_class CU8 v = (case v of MU8 _ \<Rightarrow> True | _ \<Rightarrow> False)"
| "has_class CU16 v = (case v of MU16 _ \<Rightarrow> True | _ \<Rightarrow> False)"
| "has_class CU32 v = (case v of MU32 _ \<Rightarrow> True | _ \<Rightarrow> False)"
| "has_class CU64 v = (case v of MU64 _ \<Rightarrow> True | _ \<Rightarrow> False)"
| "has_class CU128 v = (case v of MU128 _ \<Rightarrow> True | _ \<Rightarrow> False)"
| "has_class CU256 v = (case v of MU256 _ \<Rightarrow> True | _ \<Rightarrow> False)"
| "has_class CAddress v = (case v of MAddress _ \<Rightarrow> True | _ \<Rightarrow> False)"
| "has_class CString v = (case v of MString _ \<Rightarrow> True | _ \<Rightarrow> False)"
| "has_class (CVector c) v = (case v of MVector vs \<Rightarrow> \<forall>v \<in> set vs. has_class c v | _ \<Rightarrow> False)"
| "has_class (COption c) v = (case v of MOption x \<Rightarrow> \<forall>w. x = Some w \<longrightarrow> has_class c w | _ \<Rightarrow> False)"
| "has_class (CFixedBytes n) v = (case v of MFixedBytes b \<Rightarrow> length b = n | _ \<Rightarrow> False)"

lemma move_deserialize_abs:
  "move_deserialize CBool = (\<lambda>d. bindE (Deserializer_deserializeBool d) (\<lambda>(b, d). Inr (MBool b, d)))"
  "move_deserialize CU8 = (\<lambda>d. bindE (Deserializer_deserializeU8 d) (\<lambda>(v, d). bindE (new_U8 v) (\<lambda>v. Inr (v, d))))"
  "move_deserialize CU16 = (\<lambda>d. bindE (Deserializer_deserializeU16 d) (\<lambda>(v, d). bindE (new_U16 v) (\<lambda>v. Inr (v, d))))"
  "move_deserialize CU32 = (\<lambda>d. bindE (Deserializer_deserializeU32 d) (\<lambda>(v, d). bindE (new_U32 v) (\<lambda>v. Inr (v, d))))"
  "move_deserialize CU64 = (\<lambda>d. bindE (Deserializer_deserializeU64 d) (\<lambda>(v, d). bindE (new_U64 v) (\<lambda>v. Inr (v, d))))"
  "move_deserialize CU128 = (\<lambda>d. bindE (Deserializer_deserializeU128 d) (\<lambda>(v, d). bindE (new_U128 v) (\<lambda>v. Inr (v, d))))"
  "move_deserialize CU256 = (\<lambda>d. bindE (Deserializer_deserializeU256 d) (\<lambda>(v, d). bindE (new_U256 v) (\<lambda>v. Inr (v, d))))"
  "move_deserialize CAddress = (\<lambda>d. bindE (AccountAddress_deserialize d) (\<lambda>(a, d). Inr (MAddress a, d)))"
  "move_deserialize CString = (\<lambda>d. bindE (Deserializer_deserializeStr d) (\<lambda>(t, d). Inr (MString t, d)))"
  "move_deserialize (CVector c) = (\<lambda>d. bindE (Deserializer_deserializeVector (move_deserialize c) d) (\<lambda>(vs, d). Inr (MVector vs, d)))"
  "move_deserialize (COption c) = (\<lambda>d. bindE (Deserializer_deserializeVector (move_deserialize c) d) (\<lambda>(vs, d).
     Inr (MOption (case vs of [] \<Rightarrow> None | v # _ \<Rightarrow> Some v), d)))"
  "move_deserialize (CFixedBytes n) = (\<lambda>d. bindE (Deserializer_read n d) (\<lambda>(b, d). Inr (MFixedBytes b, d)))"
  by (rule ext, simp add: Deserializer_deserializeVector_def Deserializer_deserializeFixedBytes_def bindE_assoc case_prod_unfold)+

lemma consumes_move: "has_class c v \<Longrightarrow> move_ok v \<Longrightarrow> consumes (move_deserialize c) (move_bytes v) v"
proof (induction c arbitrary: v)
  case CBool
  then obtain b where v: "v = MBool b" by (cases v) auto
  show ?case unfolding move_deserialize_abs v move_bytes.simps by (rule consumes_map, rule consumes_bool, rule refl)
next
  case CU8
  then obtain n where v: "v = MU8 n" "0 \<le> n" "n < 2 ^ 8" by (cases v) auto
  then have "new_U8 n = Inr (MU8 n)" by (simp add: new_U8_def validateNumberInRange_def MAX_U8_NUMBER_def)
  then show ?case unfolding move_deserialize_abs v(1) move_bytes.simps
    by (intro consumes_checked [OF consumes_u8 [OF v(2,3)]])
next
  case (CVector c)
  then obtain vs where v: "v = MVector vs" "\<forall>v \<in> set vs. has_class c v" by (cases v) auto
  then have "consumes (Deserializer_deserializeVector (move_deserialize c)) (move_bytes v) vs"
    using CVector consumes_array [of vs "move_deserialize c" move_bytes "\<lambda>v. v"] by (simp add: vec_bytes_def)
  then show ?case unfolding move_deserialize_abs by (rule consumes_map) (simp add: v)
next
  case (COption c)
  then obtain x where v: "v = MOption x" "\<forall>w. x = Some w \<longrightarrow> has_class c w" by (cases v) auto
  let ?vs = "case x of None \<Rightarrow> [] | Some w \<Rightarrow> [w]"
  have "consumes (Deserializer_deserializeVector (move_deserialize c)) (move_bytes v) ?vs"
    using COption v consumes_array [of ?vs "move_deserialize c" move_bytes "\<lambda>v. v"]
    by (cases x) (simp_all add: vec_bytes_def)
  then show ?case unfolding move_deserialize_abs by (rule consumes_map) (cases x, simp_all add: v)
next
  case (CFixedBytes n)
  then show ?case by (cases v) (auto simp: move_deserialize_abs intro!: consumes_map [OF _ refl] consumes_read)
qed (case_tac v; auto simp: move_deserialize_abs new_U16_def new_U32_def new_U64_def new_U128_def new_U256_def
    validateNumberInRange_def MAX_U16_NUMBER_def MAX_U32_NUMBER_def MAX_U64_BIG_INT_def
    MAX_U128_BIG_INT_def MAX_U256_BIG_INT_def
    simp del: le_bytes.simps intro!: consumes_checked consumes_map [OF _ refl] consume_intros)+

definition entry_arg_ok :: "move_value \<Rightarrow> bool" where
  \<comment> \<open>an argument of an entry function; \<open>FixedBytes\<close> are written without a length\<close>
  "entry_arg_ok v \<longleftrightarrow> move_ok v \<and> length (move_bytes v) < 2 ^ 32 \<and> (case v of MFixedBytes _ \<Rightarrow> False | _ \<Rightarrow> True)"

definition entry_seen :: "move_value \<Rightarrow> move_value" where
  "entry_seen v = MEntryFunctionBytes (move_bytes v)"

lemma emits_entry_arg: "entry_arg_ok v \<Longrightarrow> emits (move_serializeForEntryFunction v) (len_bytes (move_bytes v))"
proof -
  assume v: "entry_arg_ok v"
  then have "bcsToBytes (move_serialize v) = Inr (move_bytes v)" and n: "length (move_bytes v) < 2 ^ 32"
    by (auto simp: entry_arg_ok_def intro: emits_to_bytes emits_move)
  then have "emits (\<lambda>s. bindE (bcsToBytes (move_serialize v)) (\<lambda>b. Serializer_serializeBytes b s)) (len_bytes (move_bytes v))"
    by (simp add: emits_bytes)
  moreover have "emits (\<lambda>s. bindE (Serializer_serializeU32AsUleb128 (int (length (move_bytes v))) s) (move_serialize v))
      (len_bytes (move_bytes v))"
    unfolding len_bytes_def using v n by (intro emits_bind emits_uleb emits_move) (auto simp: entry_arg_ok_def)
  ultimately show ?thesis using v
    by (cases v) (simp_all add: move_serializeForEntryFunction_def [abs_def] entry_arg_ok_def)
qed

lemma consumes_entry_arg: "length b < 2 ^ 32 \<Longrightarrow> consumes deserialize_entry_arg (len_bytes b) (MEntryFunctionBytes b)"
proof -
  assume n: "length b < 2 ^ 32"
  have "consumes (move_deserialize (CFixedBytes (length b))) b (MFixedBytes b)"
    using consumes_map [OF consumes_read [of b "length b"], of MFixedBytes]
    by (simp add: Deserializer_deserializeFixedBytes_def consumes_def)
  then have "consumes (EntryFunctionBytes_deserialize (length b)) b (MEntryFunctionBytes b)"
    unfolding EntryFunctionBytes_deserialize_def [abs_def] by (rule consumes_then) simp
  then show ?thesis unfolding deserialize_entry_arg_def [abs_def] len_bytes_def
    using n by (intro consumes_tagged) simp_all
qed

text \<open>The arguments of a script: a tag and the bytes, where a text is a vector of its bytes.\<close>

definition u8_values :: "buffer \<Rightarrow> move_value list" where
  "u8_values b = map (\<lambda>x. MU8 (uint x)) b"

fun script_tag :: "move_value \<Rightarrow> nat" where
  "script_tag (MU8 _) = 0"
| "script_tag (MU64 _) = 1"
| "script_tag (MU128 _) = 2"
| "script_tag (MAddress _) = 3"
| "script_tag (MVector _) = 4"
| "script_tag (MString _) = 4"
| "script_tag (MBool _) = 5"
| "script_tag (MU16 _) = 6"
| "script_tag (MU32 _) = 7"
| "script_tag (MU256 _) = 8"
| "script_tag _ = 9"

definition script_ok :: "move_value \<Rightarrow> bool" where
  "script_ok v \<longleftrightarrow> move_ok v \<and> script_tag v < 9 \<and>
     (case v of MVector vs \<Rightarrow> list_all is_U8 vs | MString t \<Rightarrow> length t < 128 | _ \<Rightarrow> True)"

definition script_seen :: "move_value \<Rightarrow> move_value" where
  "script_seen v = (case v of MString t \<Rightarrow> MVector (u8_values (text_encode t)) | _ \<Rightarrow> v)"

lemma mapE_new_U8: "mapE new_U8 (map uint b) = Inr (u8_values (b :: buffer))"
proof (induction b)
  case (Cons x b)
  have "0 \<le> uint x" "uint x \<le> 255" using uint_bounded [of x] by simp_all
  then show ?case using Cons by (simp add: new_U8_def validateNumberInRange_def MAX_U8_NUMBER_def u8_values_def)
qed (simp add: u8_values_def)

lemma byte_bound: "uint (x :: byte) < 256"
  using uint_bounded [of x] by simp

lemma u8_values_bytes: "concat (map move_bytes (u8_values b)) = b" "move_ok (MVector (u8_values b)) \<longleftrightarrow> length b < 2 ^ 32"
  using byte_bound by (auto simp: u8_values_def comp_def)

lemma u8_values_vector: "list_all is_U8 vs \<Longrightarrow> \<forall>v \<in> set vs. move_ok v \<Longrightarrow> \<exists>b. vs = u8_values b"
proof (induction vs)
  case (Cons v vs)
  then obtain n b where "v = MU8 n" "0 \<le> n" "n < 2 ^ 8" "vs = u8_values b"
    by (cases v) (auto simp: is_U8_def)
  then have "v # vs = u8_values (word_of_int n # b)" by (simp add: u8_values_def uint_word_of_int)
  then show ?case by blast
qed (simp add: u8_values_def)

lemma emits_u8_vector: "length b < 2 ^ 32 \<Longrightarrow> emits (serialize_u8_vector (u8_values b)) (uleb_bytes 4 @ len_bytes b)"
proof -
  assume n: "length b < 2 ^ 32"
  have "u8_values b = [] \<or> is_U8 (hd (u8_values b))" by (cases b) (simp_all add: u8_values_def is_U8_def)
  moreover have "emits (\<lambda>s. bindE (Serializer_serializeU32AsUleb128 4 s) (move_serialize (MVector (u8_values b))))
      (uleb_bytes 4 @ move_bytes (MVector (u8_values b)))"
    using n by (intro emits_bind emits_tags emits_move) (simp only: u8_values_bytes)
  ultimately show ?thesis unfolding serialize_u8_vector_def [abs_def]
    by (auto simp: u8_values_bytes len_bytes_def) (auto simp: u8_values_def)
qed

text \<open>A text as the argument of a script: everything behind the first byte of its serialisation.\<close>

lemma script_text:
  assumes "str_ok t"
  shows "move_serializeForScriptFunction (MString t) = serialize_u8_vector (u8_values (drop 1 (str_bytes t)))"
proof (rule ext)
  fix s
  have "bcsToBytes (move_serialize (MString t)) = Inr (str_bytes t)"
    unfolding move_serialize_abs by (intro emits_to_bytes emits_str assms)
  then show "move_serializeForScriptFunction (MString t) s = serialize_u8_vector (u8_values (drop 1 (str_bytes t))) s"
    by (simp add: move_serializeForScriptFunction_def MoveVector_U8_def mapE_new_U8)
qed

definition script_bytes :: "move_value \<Rightarrow> buffer" where
  "script_bytes v = uleb_bytes (script_tag v) @ move_bytes v"

lemma emits_script_arg: "script_ok v \<Longrightarrow> emits (move_serializeForScriptFunction v) (script_bytes v)"
proof (cases v)
  case (MVector vs)
  assume v: "script_ok v"
  then obtain b where b: "vs = u8_values b" "length b < 2 ^ 32"
    using u8_values_vector [of vs] MVector by (auto simp: script_ok_def) (auto simp: u8_values_def)
  have "move_serializeForScriptFunction v = serialize_u8_vector vs"
    by (rule ext) (simp add: MVector move_serializeForScriptFunction_def)
  moreover have "script_bytes v = uleb_bytes 4 @ len_bytes b"
    using MVector b(1) by (simp add: script_bytes_def len_bytes_def u8_values_bytes) (simp add: u8_values_def)
  ultimately show ?thesis using emits_u8_vector [OF b(2)] b(1) by simp
next
  case (MString t)
  assume v: "script_ok v"
  then have t: "str_ok t" "length t < 128" using MString by (simp_all add: script_ok_def)
  then have "drop 1 (str_bytes t) = text_encode t" by (simp add: str_bytes_def len_bytes_def uleb_small)
  then show ?thesis using emits_u8_vector [of "text_encode t"] script_text [OF t(1)] t MString
    by (simp add: script_bytes_def str_bytes_def)
next
  case (MAddress a)
  moreover assume "script_ok v"
  ultimately show ?thesis using emits_bind [OF emits_tags(4) emits_move [of v]]
    by (simp add: script_ok_def script_bytes_def move_serializeForScriptFunction_def [abs_def])
qed (use emits_bind [OF emits_tags(1) emits_move [of v]] emits_bind [OF emits_tags(2) emits_move [of v]]
    emits_bind [OF emits_tags(3) emits_move [of v]] emits_bind [OF emits_tags(6) emits_move [of v]]
    emits_bind [OF emits_tags(7) emits_move [of v]] emits_bind [OF emits_tags(8) emits_move [of v]]
    emits_bind [OF emits_tags(9) emits_move [of v]]
  in \<open>simp_all add: script_ok_def script_bytes_def move_serializeForScriptFunction_def [abs_def]\<close>)

lemma script_seen_facts:
  assumes "script_ok v"
  shows "\<exists>c. script_argument_class (int (script_tag v)) = Some c \<and> has_class c (script_seen v)"
    and "move_ok (script_seen v)" and "move_bytes (script_seen v) = move_bytes v"
proof -
  show "\<exists>c. script_argument_class (int (script_tag v)) = Some c \<and> has_class c (script_seen v)"
    using assms by (cases v) (auto simp: script_ok_def script_argument_class_def script_seen_def u8_values_def
        list_all_iff is_U8_def split: move_value.splits)
  show "move_ok (script_seen v)"
  proof (cases v)
    case (MString t)
    then have "length (text_encode t) < 2 ^ 32" using assms by (simp add: script_ok_def)
    then have "move_ok (MVector (u8_values (text_encode t)))" by (simp only: u8_values_bytes)
    then show ?thesis by (simp add: script_seen_def MString)
  qed (use assms in \<open>simp_all add: script_ok_def script_seen_def\<close>)
  show "move_bytes (script_seen v) = move_bytes v"
    by (cases v) (simp_all add: script_seen_def u8_values_bytes str_bytes_def len_bytes_def, simp_all add: u8_values_def)
qed

lemma consumes_script_arg: "script_ok v \<Longrightarrow> consumes deserializeFromScriptArgument (script_bytes v) (script_seen v)"
proof -
  assume v: "script_ok v"
  note f = script_seen_facts [OF v]
  obtain c where c: "script_argument_class (int (script_tag v)) = Some c" "has_class c (script_seen v)" using f(1) by blast
  have "script_tag v < 2 ^ 32" using v by (simp add: script_ok_def)
  then show ?thesis unfolding deserializeFromScriptArgument_def [abs_def] script_bytes_def
    using consumes_move [OF c(2) f(2)] by (intro consumes_tagged) (simp_all add: c(1) f(3))
qed

section \<open>Payloads\<close>

definition module_ok :: "module_id \<Rightarrow> bool" where
  "module_ok m \<longleftrightarrow> address_ok (mi_address m) \<and> str_ok (mi_name m)"

definition module_bytes :: "module_id \<Rightarrow> buffer" where
  "module_bytes m = mi_address m @ str_bytes (mi_name m)"

interpretation module_bcs: bcs ModuleId_serialize ModuleId_deserialize module_bytes "\<lambda>m. m" module_ok
proof
  fix m assume "module_ok m"
  then have m: "address_ok (mi_address m)" "str_ok (mi_name m)" by (simp_all add: module_ok_def)
  show "emits (ModuleId_serialize m) (module_bytes m)"
    unfolding ModuleId_serialize_def [abs_def] Identifier_serialize_def [abs_def] module_bytes_def
    by (intro emits_bind emits_address emits_str m)
  show "consumes ModuleId_deserialize (module_bytes m) m"
    unfolding ModuleId_deserialize_def [abs_def] Identifier_deserialize_def [abs_def] module_bytes_def
    by (rule consumes_bind, rule consumes_address [OF m(1)], rule consumes_map, rule consumes_str [OF m(2)]) simp
qed

definition entry_function_ok :: "entry_function \<Rightarrow> bool" where
  "entry_function_ok f \<longleftrightarrow> module_ok (ef_module_name f) \<and> str_ok (ef_function_name f) \<and>
     vec_ok tag_ok (ef_type_args f) \<and> vec_ok entry_arg_ok (ef_args f)"

definition entry_function_bytes :: "entry_function \<Rightarrow> buffer" where
  "entry_function_bytes f = module_bytes (ef_module_name f) @ str_bytes (ef_function_name f) @
     vec_bytes tag_bytes (ef_type_args f) @ vec_bytes (\<lambda>v. len_bytes (move_bytes v)) (ef_args f)"

definition entry_function_seen :: "entry_function \<Rightarrow> entry_function" where
  "entry_function_seen f = f\<lparr>ef_args := map entry_seen (ef_args f)\<rparr>"

interpretation entry_arg_bcs:
  bcs move_serializeForEntryFunction deserialize_entry_arg "\<lambda>v. len_bytes (move_bytes v)" entry_seen entry_arg_ok
  by unfold_locales (simp_all add: emits_entry_arg entry_seen_def consumes_entry_arg entry_arg_ok_def)

interpretation script_arg_bcs:
  bcs move_serializeForScriptFunction deserializeFromScriptArgument script_bytes script_seen script_ok
  by unfold_locales (simp_all add: emits_script_arg consumes_script_arg)

lemma times_vector:
  "(\<lambda>d. bindE (Deserializer_deserializeUleb128AsU32 d) (\<lambda>(len, d). bindE (get_times (nat len) f d) g)) =
   (\<lambda>d. bindE (Deserializer_deserializeVector f d) g)"
  by (simp add: Deserializer_deserializeVector_def bindE_assoc case_prod_unfold)

interpretation entry_function_bcs:
  bcs EntryFunction_serialize EntryFunction_deserialize entry_function_bytes entry_function_seen entry_function_ok
proof
  fix f assume f: "entry_function_ok f"
  then have m: "module_ok (ef_module_name f)" and n: "str_ok (ef_function_name f)"
    and t: "vec_ok tag_ok (ef_type_args f)" and a: "vec_ok entry_arg_ok (ef_args f)"
    by (simp_all add: entry_function_ok_def)
  show "emits (EntryFunction_serialize f) (entry_function_bytes f)"
    unfolding EntryFunction_serialize_def [abs_def] Identifier_serialize_def [abs_def] entry_function_bytes_def
      Serializer_serializeVector_def [of move_serializeForEntryFunction, symmetric]
    by (intro emits_bind module_bcs.emits_value m emits_str n tag_bcs.emits_vector t entry_arg_bcs.emits_vector a)
  show "consumes EntryFunction_deserialize (entry_function_bytes f) (entry_function_seen f)"
    unfolding EntryFunction_deserialize_def [abs_def] Identifier_deserialize_def [abs_def] entry_function_bytes_def times_vector
    by (rule consumes_bind, rule module_bcs.consumes_value [OF m], rule consumes_bind, rule consumes_str [OF n],
        rule consumes_bind, rule tag_bcs.consumes_vector [OF t], rule consumes_map, rule entry_arg_bcs.consumes_vector [OF a])
      (simp add: entry_function_seen_def)
qed

definition script_code_ok :: "script \<Rightarrow> bool" where
  "script_code_ok f \<longleftrightarrow> length (sc_bytecode f) < 2 ^ 32 \<and> vec_ok tag_ok (sc_type_args f) \<and> vec_ok script_ok (sc_args f)"

definition script_code_bytes :: "script \<Rightarrow> buffer" where
  "script_code_bytes f = len_bytes (sc_bytecode f) @ vec_bytes tag_bytes (sc_type_args f) @ vec_bytes script_bytes (sc_args f)"

definition script_code_seen :: "script \<Rightarrow> script" where
  "script_code_seen f = f\<lparr>sc_args := map script_seen (sc_args f)\<rparr>"

interpretation script_code_bcs: bcs Script_serialize Script_deserialize script_code_bytes script_code_seen script_code_ok
proof
  fix f assume f: "script_code_ok f"
  then have b: "length (sc_bytecode f) < 2 ^ 32" and t: "vec_ok tag_ok (sc_type_args f)" and a: "vec_ok script_ok (sc_args f)"
    by (simp_all add: script_code_ok_def)
  show "emits (Script_serialize f) (script_code_bytes f)"
    unfolding Script_serialize_def [abs_def] script_code_bytes_def
      Serializer_serializeVector_def [of move_serializeForScriptFunction, symmetric]
    by (intro emits_bind emits_bytes b tag_bcs.emits_vector t script_arg_bcs.emits_vector a)
  show "consumes Script_deserialize (script_code_bytes f) (script_code_seen f)"
    unfolding Script_deserialize_def [abs_def] script_code_bytes_def times_vector
    by (rule consumes_bind, rule consumes_bytes [OF b], rule consumes_bind, rule tag_bcs.consumes_vector [OF t],
        rule consumes_map, rule script_arg_bcs.consumes_vector [OF a]) (simp add: script_code_seen_def)
qed

text \<open>An optional part, for any class.\<close>

definition opt_bytes :: "('a \<Rightarrow> buffer) \<Rightarrow> 'a option \<Rightarrow> buffer" where
  "opt_bytes bytes x = (case x of None \<Rightarrow> [0] | Some v \<Rightarrow> [1] @ bytes v)"

context bcs
begin

lemma emits_optional: "pred_option ok x \<Longrightarrow> emits (serialize_optional ser x) (opt_bytes bytes x)"
  using emits_bool [of False] emits_bind [OF emits_bool [of True] emits_value]
  by (cases x) (simp_all add: serialize_optional_def [abs_def] opt_bytes_def)

lemma consumes_optional: "pred_option ok x \<Longrightarrow> consumes (deserialize_optional de) (opt_bytes bytes x) (map_option seen x)"
proof (cases x)
  case None
  then show ?thesis unfolding deserialize_optional_def [abs_def]
    by (simp add: opt_bytes_def) (rule consumes_then [OF consumes_bool [of False, simplified]], simp)
next
  case (Some v)
  assume "pred_option ok x"
  then have "consumes (\<lambda>d. bindE (de d) (\<lambda>(x, d). Inr (Some x, d))) (bytes v) (Some (seen v))"
    using Some by (intro consumes_map [OF _ refl] consumes_value) simp
  then show ?thesis unfolding deserialize_optional_def [abs_def] opt_bytes_def Some option.case option.map
    by - (rule consumes_bind, rule consumes_bool [of True, simplified], simp)
qed

end

interpretation multi_payload_bcs:
  bcs MultiSigTransactionPayload_serialize MultiSigTransactionPayload_deserialize
    "\<lambda>f. uleb_bytes 0 @ entry_function_bytes f" entry_function_seen entry_function_ok
proof
  fix f assume f: "entry_function_ok f"
  show "emits (MultiSigTransactionPayload_serialize f) (uleb_bytes 0 @ entry_function_bytes f)"
    unfolding MultiSigTransactionPayload_serialize_def [abs_def]
    by (intro emits_bind emits_tags entry_function_bcs.emits_value f)
  show "consumes MultiSigTransactionPayload_deserialize (uleb_bytes 0 @ entry_function_bytes f) (entry_function_seen f)"
    unfolding MultiSigTransactionPayload_deserialize_def [abs_def]
    using entry_function_bcs.consumes_value [OF f] by (intro consumes_tagged) simp_all
qed

definition multi_sig_ok :: "multi_sig \<Rightarrow> bool" where
  "multi_sig_ok m \<longleftrightarrow> address_ok (mu_multisig_address m) \<and> pred_option entry_function_ok (mu_transaction_payload m)"

fun payload_ok :: "aptos_payload \<Rightarrow> bool" where
  "payload_ok (TransactionPayloadScript x) \<longleftrightarrow> script_code_ok x"
| "payload_ok (TransactionPayloadEntryFunction x) \<longleftrightarrow> entry_function_ok x"
| "payload_ok (TransactionPayloadMultiSig x) \<longleftrightarrow> multi_sig_ok x"

fun payload_bytes :: "aptos_payload \<Rightarrow> buffer" where
  "payload_bytes (TransactionPayloadScript x) = uleb_bytes 0 @ script_code_bytes x"
| "payload_bytes (TransactionPayloadEntryFunction x) = uleb_bytes 2 @ entry_function_bytes x"
| "payload_bytes (TransactionPayloadMultiSig x) = uleb_bytes 3 @ mu_multisig_address x @
     opt_bytes (\<lambda>f. uleb_bytes 0 @ entry_function_bytes f) (mu_transaction_payload x)"

fun payload_seen :: "aptos_payload \<Rightarrow> aptos_payload" where
  "payload_seen (TransactionPayloadScript x) = TransactionPayloadScript (script_code_seen x)"
| "payload_seen (TransactionPayloadEntryFunction x) = TransactionPayloadEntryFunction (entry_function_seen x)"
| "payload_seen (TransactionPayloadMultiSig x) =
     TransactionPayloadMultiSig (x\<lparr>mu_transaction_payload := map_option entry_function_seen (mu_transaction_payload x)\<rparr>)"

lemma multi_sig_steps:
  assumes "multi_sig_ok m"
  shows "emits (MultiSig_serialize m) (mu_multisig_address m @ opt_bytes (\<lambda>f. uleb_bytes 0 @ entry_function_bytes f) (mu_transaction_payload m))"
    and "consumes MultiSig_deserialize (mu_multisig_address m @ opt_bytes (\<lambda>f. uleb_bytes 0 @ entry_function_bytes f) (mu_transaction_payload m))
      (m\<lparr>mu_transaction_payload := map_option entry_function_seen (mu_transaction_payload m)\<rparr>)"
proof -
  have a: "address_ok (mu_multisig_address m)" and p: "pred_option entry_function_ok (mu_transaction_payload m)"
    using assms by (simp_all add: multi_sig_ok_def)
  show "emits (MultiSig_serialize m) (mu_multisig_address m @ opt_bytes (\<lambda>f. uleb_bytes 0 @ entry_function_bytes f) (mu_transaction_payload m))"
    unfolding MultiSig_serialize_def [abs_def] by (intro emits_bind emits_address multi_payload_bcs.emits_optional p)
  show "consumes MultiSig_deserialize (mu_multisig_address m @ opt_bytes (\<lambda>f. uleb_bytes 0 @ entry_function_bytes f) (mu_transaction_payload m))
      (m\<lparr>mu_transaction_payload := map_option entry_function_seen (mu_transaction_payload m)\<rparr>)"
    unfolding MultiSig_deserialize_def [abs_def]
    by (rule consumes_bind, rule consumes_address [OF a], rule consumes_map, rule multi_payload_bcs.consumes_optional [OF p]) simp
qed

interpretation payload_bcs: bcs TransactionPayload_serialize TransactionPayload_deserialize payload_bytes payload_seen payload_ok
proof
  fix p assume p: "payload_ok p"
  then show "emits (TransactionPayload_serialize p) (payload_bytes p)"
    unfolding TransactionPayload_serialize_def [abs_def]
    by (cases p) (auto intro!: emits_bind emits_tags script_code_bcs.emits_value entry_function_bcs.emits_value multi_sig_steps)
  show "consumes TransactionPayload_deserialize (payload_bytes p) (payload_seen p)"
    unfolding TransactionPayload_deserialize_def [abs_def] using p
    by (cases p) (auto intro!: consumes_tagged consumes_map [OF _ refl] script_code_bcs.consumes_value
        entry_function_bcs.consumes_value multi_sig_steps)
qed

section \<open>Raw transactions\<close>

definition raw_txn_ok :: "raw_transaction \<Rightarrow> bool" where
  "raw_txn_ok t \<longleftrightarrow> address_ok (rt_sender t) \<and> payload_ok (rt_payload t) \<and>
     list_all (\<lambda>v. 0 \<le> v \<and> v < 2 ^ 64)
       [rt_sequence_number t, rt_max_gas_amount t, rt_gas_unit_price t, rt_expiration_timestamp_secs t] \<and>
     0 \<le> rt_chain_id t \<and> rt_chain_id t < 2 ^ 8"

definition raw_bytes :: "raw_transaction \<Rightarrow> buffer" where
  "raw_bytes t = rt_sender t @ le_bytes 8 (rt_sequence_number t) @ payload_bytes (rt_payload t) @
     le_bytes 8 (rt_max_gas_amount t) @ le_bytes 8 (rt_gas_unit_price t) @
     le_bytes 8 (rt_expiration_timestamp_secs t) @ le_bytes 1 (rt_chain_id t)"

definition raw_seen :: "raw_transaction \<Rightarrow> raw_transaction" where
  "raw_seen t = t\<lparr>rt_payload := payload_seen (rt_payload t)\<rparr>"

interpretation raw_bcs: bcs RawTransaction_serialize RawTransaction_deserialize raw_bytes raw_seen raw_txn_ok
proof
  fix t assume "raw_txn_ok t"
  then have a: "address_ok (rt_sender t)" and p: "payload_ok (rt_payload t)"
    and n: "0 \<le> rt_sequence_number t" "rt_sequence_number t < 2 ^ 64" "0 \<le> rt_max_gas_amount t" "rt_max_gas_amount t < 2 ^ 64"
      "0 \<le> rt_gas_unit_price t" "rt_gas_unit_price t < 2 ^ 64"
      "0 \<le> rt_expiration_timestamp_secs t" "rt_expiration_timestamp_secs t < 2 ^ 64"
      "0 \<le> rt_chain_id t" "rt_chain_id t < 2 ^ 8"
    by (simp_all add: raw_txn_ok_def)
  show "emits (RawTransaction_serialize t) (raw_bytes t)"
    unfolding RawTransaction_serialize_def [abs_def] raw_bytes_def
    by (intro emits_bind emits_address emits_u64 payload_bcs.emits_value p emits_u8 n)
  show "consumes RawTransaction_deserialize (raw_bytes t) (raw_seen t)"
    unfolding RawTransaction_deserialize_def [abs_def] raw_bytes_def
    by (rule consumes_bind, rule consumes_address [OF a], rule consumes_bind, rule consumes_u64 [OF n(1,2)],
        rule consumes_bind, rule payload_bcs.consumes_value [OF p], rule consumes_bind, rule consumes_u64 [OF n(3,4)],
        rule consumes_bind, rule consumes_u64 [OF n(5,6)], rule consumes_bind, rule consumes_u64 [OF n(7,8)],
        rule consumes_map, rule consumes_u8 [OF n(9,10)]) (simp add: raw_seen_def)
qed

definition secondary_ok :: "account_address list \<Rightarrow> bool" where
  "secondary_ok l \<longleftrightarrow> vec_ok address_ok l"

definition secondary_bytes :: "account_address list \<Rightarrow> buffer" where
  "secondary_bytes l = vec_bytes (\<lambda>a. a) l"

interpretation secondary_bcs: bcs "Serializer_serializeVector AccountAddress_serialize"
    "Deserializer_deserializeVector AccountAddress_deserialize" secondary_bytes "\<lambda>l. l" secondary_ok
  using address_bcs.emits_vector address_bcs.consumes_vector
  by unfold_locales (simp_all add: secondary_ok_def secondary_bytes_def)

fun with_data_ok :: "raw_transaction_with_data \<Rightarrow> bool" where
  "with_data_ok (MultiAgentRawTransaction t l) \<longleftrightarrow> raw_txn_ok t \<and> secondary_ok l"
| "with_data_ok (FeePayerRawTransaction t l a) \<longleftrightarrow> raw_txn_ok t \<and> secondary_ok l \<and> address_ok a"

fun with_data_bytes :: "raw_transaction_with_data \<Rightarrow> buffer" where
  "with_data_bytes (MultiAgentRawTransaction t l) = uleb_bytes 0 @ raw_bytes t @ secondary_bytes l"
| "with_data_bytes (FeePayerRawTransaction t l a) = uleb_bytes 1 @ raw_bytes t @ secondary_bytes l @ a"

fun with_data_seen :: "raw_transaction_with_data \<Rightarrow> raw_transaction_with_data" where
  "with_data_seen (MultiAgentRawTransaction t l) = MultiAgentRawTransaction (raw_seen t) l"
| "with_data_seen (FeePayerRawTransaction t l a) = FeePayerRawTransaction (raw_seen t) l a"

interpretation with_data_bcs:
  bcs RawTransactionWithData_serialize RawTransactionWithData_deserialize with_data_bytes with_data_seen with_data_ok
proof
  fix t assume t: "with_data_ok t"
  show "emits (RawTransactionWithData_serialize t) (with_data_bytes t)"
    unfolding RawTransactionWithData_serialize_def [abs_def] using t
    by (cases t) (auto intro!: emits_bind emits_tags raw_bcs.emits_value secondary_bcs.emits_value emits_address)
  show "consumes RawTransactionWithData_deserialize (with_data_bytes t) (with_data_seen t)"
  proof (cases t)
    case (MultiAgentRawTransaction r l)
    then have ok: "raw_txn_ok r" "secondary_ok l" using t by simp_all
    have "consumes (\<lambda>d. bindE (RawTransaction_deserialize d) (\<lambda>(rawTxn, d).
        bindE (Deserializer_deserializeVector AccountAddress_deserialize d) (\<lambda>(secondary, d).
        Inr (MultiAgentRawTransaction rawTxn secondary, d)))) (raw_bytes r @ secondary_bytes l) (with_data_seen t)"
      by (rule consumes_bind, rule raw_bcs.consumes_value [OF ok(1)], rule consumes_map,
          rule secondary_bcs.consumes_value [OF ok(2)]) (simp add: MultiAgentRawTransaction)
    then show ?thesis unfolding RawTransactionWithData_deserialize_def [abs_def] MultiAgentRawTransaction
      by (auto intro!: consumes_tagged)
  next
    case (FeePayerRawTransaction r l a)
    then have ok: "raw_txn_ok r" "secondary_ok l" "address_ok a" using t by simp_all
    have "consumes (\<lambda>d. bindE (RawTransaction_deserialize d) (\<lambda>(rawTxn, d).
        bindE (Deserializer_deserializeVector AccountAddress_deserialize d) (\<lambda>(secondary, d).
        bindE (AccountAddress_deserialize d) (\<lambda>(feePayer, d).
        Inr (FeePayerRawTransaction rawTxn secondary feePayer, d))))) (raw_bytes r @ secondary_bytes l @ a) (with_data_seen t)"
      by (rule consumes_bind, rule raw_bcs.consumes_value [OF ok(1)], rule consumes_bind,
          rule secondary_bcs.consumes_value [OF ok(2)], rule consumes_map, rule consumes_address [OF ok(3)])
        (simp add: FeePayerRawTransaction)
    then show ?thesis unfolding RawTransactionWithData_deserialize_def [abs_def] FeePayerRawTransaction
      by (auto intro!: consumes_tagged)
  qed
qed

definition any_raw_ok :: "any_raw_transaction \<Rightarrow> bool" where
  "any_raw_ok t \<longleftrightarrow> raw_txn_ok (ar_rawTransaction t) \<and> pred_option secondary_ok (ar_secondarySignerAddresses t) \<and>
     pred_option address_ok (ar_feePayerAddress t)"

definition any_raw_seen :: "any_raw_transaction \<Rightarrow> any_raw_transaction" where
  "any_raw_seen t = t\<lparr>ar_rawTransaction := raw_seen (ar_rawTransaction t)\<rparr>"

interpretation simple_bcs: bcs SimpleTransaction_serialize SimpleTransaction_deserialize
    "\<lambda>t. raw_bytes (ar_rawTransaction t) @ opt_bytes (\<lambda>a. a) (ar_feePayerAddress t)" any_raw_seen
    "\<lambda>t. any_raw_ok t \<and> ar_secondarySignerAddresses t = None"
proof
  fix t assume t: "any_raw_ok t \<and> ar_secondarySignerAddresses t = None"
  then have r: "raw_txn_ok (ar_rawTransaction t)" and f: "pred_option address_ok (ar_feePayerAddress t)"
    by (simp_all add: any_raw_ok_def)
  show "emits (SimpleTransaction_serialize t) (raw_bytes (ar_rawTransaction t) @ opt_bytes (\<lambda>a. a) (ar_feePayerAddress t))"
    unfolding SimpleTransaction_serialize_def [abs_def]
    by (intro emits_bind raw_bcs.emits_value r address_bcs.emits_optional f)
  show "consumes SimpleTransaction_deserialize (raw_bytes (ar_rawTransaction t) @ opt_bytes (\<lambda>a. a) (ar_feePayerAddress t))
      (any_raw_seen t)"
    unfolding SimpleTransaction_deserialize_def [abs_def]
    by (rule consumes_bind, rule raw_bcs.consumes_value [OF r], rule consumes_map, rule address_bcs.consumes_optional [OF f])
      (use t in \<open>simp add: any_raw_seen_def option.map_ident\<close>)
qed

interpretation multi_agent_bcs: bcs MultiAgentTransaction_serialize MultiAgentTransaction_deserialize
    "\<lambda>t. raw_bytes (ar_rawTransaction t) @ secondary_bytes (the (ar_secondarySignerAddresses t)) @
       opt_bytes (\<lambda>a. a) (ar_feePayerAddress t)" any_raw_seen
    "\<lambda>t. any_raw_ok t \<and> ar_secondarySignerAddresses t \<noteq> None"
proof
  fix t assume t: "any_raw_ok t \<and> ar_secondarySignerAddresses t \<noteq> None"
  then obtain l where l: "ar_secondarySignerAddresses t = Some l" "secondary_ok l"
    and r: "raw_txn_ok (ar_rawTransaction t)" and f: "pred_option address_ok (ar_feePayerAddress t)"
    by (auto simp: any_raw_ok_def)
  show "emits (MultiAgentTransaction_serialize t) (raw_bytes (ar_rawTransaction t) @
      secondary_bytes (the (ar_secondarySignerAddresses t)) @ opt_bytes (\<lambda>a. a) (ar_feePayerAddress t))"
    unfolding MultiAgentTransaction_serialize_def [abs_def] l(1) option.case option.sel
    by (intro emits_bind raw_bcs.emits_value r secondary_bcs.emits_value l(2) address_bcs.emits_optional f)
  show "consumes MultiAgentTransaction_deserialize (raw_bytes (ar_rawTransaction t) @
      secondary_bytes (the (ar_secondarySignerAddresses t)) @ opt_bytes (\<lambda>a. a) (ar_feePayerAddress t)) (any_raw_seen t)"
    unfolding MultiAgentTransaction_deserialize_def [abs_def] l(1) option.sel
    by (rule consumes_bind, rule raw_bcs.consumes_value [OF r], rule consumes_bind, rule secondary_bcs.consumes_value [OF l(2)],
        rule consumes_map, rule address_bcs.consumes_optional [OF f])
      (simp add: any_raw_seen_def option.map_ident flip: l(1))
qed

section \<open>Authenticators and signed transactions\<close>

fun account_ok :: "account_authenticator \<Rightarrow> bool" where
  "account_ok (AccountAuthenticatorEd25519 k g) \<longleftrightarrow> length k = 32 \<and> length g = 64"
| "account_ok (AccountAuthenticatorMultiEd25519 k g) \<longleftrightarrow> multi_key_ok k \<and> multi_signature_ok g"
| "account_ok (AccountAuthenticatorSingleKey k g) \<longleftrightarrow> any_key_ok k \<and> any_signature_ok g"
| "account_ok (AccountAuthenticatorMultiKey k g) \<longleftrightarrow> multi_any_key_ok k \<and> multi_any_signature_ok g"

fun account_bytes :: "account_authenticator \<Rightarrow> buffer" where
  "account_bytes (AccountAuthenticatorEd25519 k g) = uleb_bytes 0 @ len_bytes k @ len_bytes g"
| "account_bytes (AccountAuthenticatorMultiEd25519 k g) =
     uleb_bytes 1 @ len_bytes (multi_key_bytes k) @ len_bytes (multi_signature_bytes g)"
| "account_bytes (AccountAuthenticatorSingleKey k g) = uleb_bytes 2 @ any_key_bytes k @ any_signature_bytes g"
| "account_bytes (AccountAuthenticatorMultiKey k g) = uleb_bytes 3 @ multi_any_key_bytes k @ multi_any_signature_bytes g"

lemma emits_pair:
  "emits (Serializer_serializeU32AsUleb128 n) ns \<Longrightarrow> emits (f x) as \<Longrightarrow> emits (g y) bs \<Longrightarrow>
   emits (serialize_pair f g n x y) (ns @ as @ bs)"
  unfolding serialize_pair_def [abs_def] by (intro emits_bind)

lemma consumes_pair:
  "consumes f as x \<Longrightarrow> consumes g bs y \<Longrightarrow> consumes (load_pair f g both) (as @ bs) (both x y)"
  unfolding load_pair_def [abs_def] by (rule consumes_bind, assumption, rule consumes_map, assumption, rule refl)

lemmas pair_parts =
  emits_sized consumes_sized multi_key_bcs.emits_value multi_key_bcs.consumes_value multi_signature_bcs.emits_value
  multi_signature_bcs.consumes_value any_key_bcs.emits_value any_key_bcs.consumes_value any_signature_bcs.emits_value
  any_signature_bcs.consumes_value multi_any_key_bcs.emits_value multi_any_key_bcs.consumes_value
  multi_any_signature_bcs.emits_value multi_any_signature_bcs.consumes_value

interpretation account_bcs:
  bcs AccountAuthenticator_serialize AccountAuthenticator_deserialize account_bytes "\<lambda>a. a" account_ok
proof
  fix a assume a: "account_ok a"
  show "emits (AccountAuthenticator_serialize a) (account_bytes a)"
    unfolding AccountAuthenticator_serialize_def using a
    by (cases a) (auto intro!: emits_pair emits_tags pair_parts)
  show "consumes AccountAuthenticator_deserialize (account_bytes a) a"
    unfolding AccountAuthenticator_deserialize_def [abs_def] using a
    by (cases a) (auto intro!: consumes_tagged consumes_pair pair_parts)
qed

definition agents_ok :: "account_authenticator \<Rightarrow> account_address list \<Rightarrow> account_authenticator list \<Rightarrow> bool" where
  "agents_ok sender addresses signers \<longleftrightarrow> account_ok sender \<and> secondary_ok addresses \<and> vec_ok account_ok signers"

definition agents_bytes :: "account_authenticator \<Rightarrow> account_address list \<Rightarrow> account_authenticator list \<Rightarrow> buffer" where
  "agents_bytes sender addresses signers = account_bytes sender @ secondary_bytes addresses @ vec_bytes account_bytes signers"

lemma agents_steps:
  assumes "agents_ok sender addresses signers"
  shows "emits (serialize_agents sender addresses signers) (agents_bytes sender addresses signers)"
    and "consumes load_agents (agents_bytes sender addresses signers) (sender, addresses, signers)"
proof -
  have ok: "account_ok sender" "secondary_ok addresses" "vec_ok account_ok signers" using assms by (simp_all add: agents_ok_def)
  show "emits (serialize_agents sender addresses signers) (agents_bytes sender addresses signers)"
    unfolding serialize_agents_def [abs_def] agents_bytes_def
    by (intro emits_bind account_bcs.emits_value secondary_bcs.emits_value account_bcs.emits_vector ok)
  show "consumes load_agents (agents_bytes sender addresses signers) (sender, addresses, signers)"
    unfolding load_agents_def [abs_def] agents_bytes_def
    by (rule consumes_bind, rule account_bcs.consumes_value [OF ok(1)], rule consumes_bind,
        rule secondary_bcs.consumes_value [OF ok(2)], rule consumes_map, rule account_bcs.consumes_vector [OF ok(3)]) simp
qed

fun authenticator_ok :: "transaction_authenticator \<Rightarrow> bool" where
  "authenticator_ok (TransactionAuthenticatorEd25519 k g) \<longleftrightarrow> length k = 32 \<and> length g = 64"
| "authenticator_ok (TransactionAuthenticatorMultiEd25519 k g) \<longleftrightarrow> multi_key_ok k \<and> multi_signature_ok g"
| "authenticator_ok (TransactionAuthenticatorMultiAgent a l s) \<longleftrightarrow> agents_ok a l s"
| "authenticator_ok (TransactionAuthenticatorFeePayer a l s p f) \<longleftrightarrow> agents_ok a l s \<and> address_ok p \<and> account_ok f"
| "authenticator_ok (TransactionAuthenticatorSingleSender a) \<longleftrightarrow> account_ok a"

fun authenticator_bytes :: "transaction_authenticator \<Rightarrow> buffer" where
  "authenticator_bytes (TransactionAuthenticatorEd25519 k g) = uleb_bytes 0 @ len_bytes k @ len_bytes g"
| "authenticator_bytes (TransactionAuthenticatorMultiEd25519 k g) =
     uleb_bytes 1 @ len_bytes (multi_key_bytes k) @ len_bytes (multi_signature_bytes g)"
| "authenticator_bytes (TransactionAuthenticatorMultiAgent a l s) = uleb_bytes 2 @ agents_bytes a l s"
| "authenticator_bytes (TransactionAuthenticatorFeePayer a l s p f) = uleb_bytes 3 @ agents_bytes a l s @ p @ account_bytes f"
| "authenticator_bytes (TransactionAuthenticatorSingleSender a) = uleb_bytes 4 @ account_bytes a"

lemma consumes_fee_payer:
  assumes "agents_ok a l s" and "address_ok p" and "account_ok f"
  shows "consumes (\<lambda>d. bindE (load_agents d) (\<lambda>((sender, addresses, signers), d).
      bindE (AccountAddress_deserialize d) (\<lambda>(address, d).
      bindE (AccountAuthenticator_deserialize d) (\<lambda>(authenticator, d :: deserializer).
      Inr (TransactionAuthenticatorFeePayer sender addresses signers address authenticator, d)))))
    (agents_bytes a l s @ p @ account_bytes f) (TransactionAuthenticatorFeePayer a l s p f)"
  by (rule consumes_bind, rule agents_steps(2) [OF assms(1)], unfold prod.case, rule consumes_bind,
      rule consumes_address [OF assms(2)], rule consumes_map, rule account_bcs.consumes_value [OF assms(3)]) simp

interpretation authenticator_bcs:
  bcs TransactionAuthenticator_serialize TransactionAuthenticator_deserialize authenticator_bytes "\<lambda>a. a" authenticator_ok
proof
  fix a assume a: "authenticator_ok a"
  show "emits (TransactionAuthenticator_serialize a) (authenticator_bytes a)"
    unfolding TransactionAuthenticator_serialize_def [abs_def] using a
    by (cases a) (auto intro!: emits_pair emits_bind emits_tags pair_parts agents_steps emits_address account_bcs.emits_value)
  show "consumes TransactionAuthenticator_deserialize (authenticator_bytes a) a"
    unfolding TransactionAuthenticator_deserialize_def [abs_def] using a
    by (cases a) (auto intro!: consumes_tagged consumes_pair pair_parts consumes_fee_payer consumes_map [OF _ refl]
        consumes_then [OF agents_steps(2)] account_bcs.consumes_value)
qed

definition signed_ok :: "signed_transaction \<Rightarrow> bool" where
  "signed_ok t \<longleftrightarrow> raw_txn_ok (sg_raw_txn t) \<and> authenticator_ok (sg_authenticator t)"

definition signed_bytes :: "signed_transaction \<Rightarrow> buffer" where
  "signed_bytes t = raw_bytes (sg_raw_txn t) @ authenticator_bytes (sg_authenticator t)"

definition signed_seen :: "signed_transaction \<Rightarrow> signed_transaction" where
  "signed_seen t = t\<lparr>sg_raw_txn := raw_seen (sg_raw_txn t)\<rparr>"

interpretation signed_bcs: bcs SignedTransaction_serialize SignedTransaction_deserialize signed_bytes signed_seen signed_ok
proof
  fix t assume "signed_ok t"
  then have r: "raw_txn_ok (sg_raw_txn t)" and a: "authenticator_ok (sg_authenticator t)" by (simp_all add: signed_ok_def)
  show "emits (SignedTransaction_serialize t) (signed_bytes t)"
    unfolding SignedTransaction_serialize_def [abs_def] signed_bytes_def
    by (intro emits_bind raw_bcs.emits_value r authenticator_bcs.emits_value a)
  show "consumes SignedTransaction_deserialize (signed_bytes t) (signed_seen t)"
    unfolding SignedTransaction_deserialize_def [abs_def] signed_bytes_def
    by (rule consumes_bind, rule raw_bcs.consumes_value [OF r], rule consumes_map, rule authenticator_bcs.consumes_value [OF a])
      (simp add: signed_seen_def)
qed

section \<open>What is signed and what is sent\<close>

text \<open>The sender's authenticator survives being written and read.\<close>

lemma normalize_account:
  "account_ok a \<Longrightarrow> normalizeBundle AccountAuthenticator_deserialize AccountAuthenticator_serialize a = Inr a"
  using account_bcs.round_trip [of a "[]"] by (auto simp: normalizeBundle_def account_bcs.to_bytes)

lemma generateSignedTransaction_bytes:
  assumes "account_ok sender" and "transaction_authenticator_for t sender fee additional = Inr a"
    and "raw_txn_ok (ar_rawTransaction t)" and "authenticator_ok a"
  shows "generateSignedTransaction t sender fee additional =
    Inr (signed_bytes \<lparr>sg_raw_txn = ar_rawTransaction t, sg_authenticator = a\<rparr>)"
  using assms by (simp add: generateSignedTransaction_def normalize_account signed_bcs.to_bytes signed_ok_def)

lemma signing_message:
  "take 7 salt = ''APTOS::'' \<Longrightarrow> generateSigningMessage sha3 b salt = Inr (sha3 (text_encode salt) @ b)"
  by (simp add: generateSigningMessage_def Let_def buf_copy_def buf_alloc_def)

fun instance_ok :: "any_raw_instance \<Rightarrow> bool" where
  "instance_ok (RawInstance r) = raw_txn_ok r"
| "instance_ok (WithDataInstance r) = with_data_ok r"

fun instance_seen :: "any_raw_instance \<Rightarrow> any_raw_instance" where
  "instance_seen (RawInstance r) = RawInstance (raw_seen r)"
| "instance_seen (WithDataInstance r) = WithDataInstance (with_data_seen r)"

fun instance_bytes :: "any_raw_instance \<Rightarrow> buffer" where
  "instance_bytes (RawInstance r) = raw_bytes r"
| "instance_bytes (WithDataInstance r) = with_data_bytes r"

lemma instance_to_bytes: "instance_ok i \<Longrightarrow> bcsToBytes (instance_serialize i) = Inr (instance_bytes i)"
  by (cases i) (simp_all add: instance_serialize_def raw_bcs.to_bytes with_data_bcs.to_bytes)

definition secondary_signers :: "any_raw_transaction \<Rightarrow> account_address list" where
  "secondary_signers t = (case ar_secondarySignerAddresses t of None \<Rightarrow> [] | Some l \<Rightarrow> l)"

lemma derive_ok: "any_raw_ok t \<Longrightarrow> instance_ok (deriveTransactionType t)"
  by (auto simp: any_raw_ok_def deriveTransactionType_def secondary_ok_def vec_ok_def split: option.splits)

lemma derive_determines:
  assumes "instance_seen (deriveTransactionType t) = instance_seen (deriveTransactionType u)"
  shows "raw_seen (ar_rawTransaction t) = raw_seen (ar_rawTransaction u)"
    and "ar_feePayerAddress t = ar_feePayerAddress u"
    and "ar_feePayerAddress t = None \<Longrightarrow> ar_secondarySignerAddresses t = ar_secondarySignerAddresses u"
    and "secondary_signers t = secondary_signers u"
  using assms by (auto simp: deriveTransactionType_def secondary_signers_def split: option.splits)

definition instance_salt :: "any_raw_instance \<Rightarrow> string" where
  "instance_salt i = (case i of RawInstance _ \<Rightarrow> RAW_TRANSACTION_SALT | WithDataInstance _ \<Rightarrow> RAW_TRANSACTION_WITH_DATA_SALT)"

lemma instance_bytes_seen:
  assumes "instance_ok i" and "instance_ok j" and "instance_salt i = instance_salt j" and "instance_bytes i = instance_bytes j"
  shows "instance_seen i = instance_seen j"
proof (cases i)
  case (RawInstance r)
  with assms(3) obtain q where j: "j = RawInstance q"
    by (cases j) (simp_all add: instance_salt_def RAW_TRANSACTION_SALT_def RAW_TRANSACTION_WITH_DATA_SALT_def)
  have "raw_txn_ok r" "raw_txn_ok q" "raw_bytes r @ [] = raw_bytes q @ []" using assms RawInstance j by simp_all
  then have "raw_seen r = raw_seen q \<and> ([] :: buffer) = []" by (rule raw_bcs.prefix_free)
  then show ?thesis by (simp add: RawInstance j)
next
  case (WithDataInstance r)
  with assms(3) obtain q where j: "j = WithDataInstance q"
    by (cases j) (simp_all add: instance_salt_def RAW_TRANSACTION_SALT_def RAW_TRANSACTION_WITH_DATA_SALT_def)
  have "with_data_ok r" "with_data_ok q" "with_data_bytes r @ [] = with_data_bytes q @ []"
    using assms WithDataInstance j by simp_all
  then have "with_data_seen r = with_data_seen q \<and> ([] :: buffer) = []" by (rule with_data_bcs.prefix_free)
  then show ?thesis by (simp add: WithDataInstance j)
qed

lemma transaction_authenticator_ok:
  assumes "any_raw_ok t" and "account_ok sender" and "pred_option account_ok fee" and "pred_option (vec_ok account_ok) additional"
    and "ar_feePayerAddress t \<noteq> None \<longrightarrow> fee \<noteq> None"
    and "ar_feePayerAddress t = None \<and> ar_secondarySignerAddresses t \<noteq> None \<longrightarrow> additional \<noteq> None"
  shows "\<exists>a. transaction_authenticator_for t sender fee additional = Inr a \<and> authenticator_ok a"
proof (cases "ar_feePayerAddress t")
  case None
  then show ?thesis using assms
    by (cases "ar_secondarySignerAddresses t"; cases sender)
      (auto simp: transaction_authenticator_for_def any_raw_ok_def agents_ok_def)
next
  case (Some f)
  then show ?thesis using assms
    by (cases "ar_secondarySignerAddresses t"; cases additional)
      (auto simp: transaction_authenticator_for_def any_raw_ok_def agents_ok_def secondary_ok_def vec_ok_def)
qed

lemma signing_message_for_transaction:
  assumes "any_raw_ok t"
  shows "generateSigningMessageForTransaction sha3 t =
    Inr (sha3 (text_encode (instance_salt (deriveTransactionType t))) @ instance_bytes (deriveTransactionType t))"
proof -
  have "bcsToBytes (instance_serialize (deriveTransactionType t)) = Inr (instance_bytes (deriveTransactionType t))"
    using assms by (intro instance_to_bytes derive_ok)
  then show ?thesis
    by (auto simp: generateSigningMessageForTransaction_def instance_salt_def deriveTransactionType_def signing_message
        RAW_TRANSACTION_SALT_def RAW_TRANSACTION_WITH_DATA_SALT_def split: option.splits)
qed

end
