(* ===== verification/Aptos_Signing.thy ===== *)
theory Aptos_Signing
  imports Aptos_Multi Btc_Number Aptos_Tx_Codec
begin

text \<open>
  The bitmap of signers of coin-aptos as a set: \<open>is_set bm p\<close> says that the bit of the signer \<open>p\<close> is set.
  What \<open>createBitmap\<close> makes of a list of signers is what \<open>verifySignature\<close> takes apart.
\<close>

definition is_set :: "buffer \<Rightarrow> nat \<Rightarrow> bool" where
  "is_set bm p \<longleftrightarrow> bit (bm ! (p div 8)) (7 - p mod 8)"

section \<open>Setting bits\<close>

lemma bit_128: "bit (128 :: int) n \<longleftrightarrow> n = 7"
  using bit_exp_iff [of 7 n, where 'a = int] by simp

lemma bit_js_shr_128: "k < 8 \<Longrightarrow> bit (js_shr 128 k) n \<longleftrightarrow> n + k = 7"
proof -
  have "to_int32 128 = 128" by (rule to_int32_id) simp_all
  then show "bit (js_shr 128 k) n \<longleftrightarrow> n + k = 7" by (simp add: js_shr_def bit_drop_bit_eq bit_128 add.commute)
qed

lemma is_set_set_bitmap:
  assumes "length bm = 4" and "p < 32"
  shows "is_set (set_bitmap b bm) p \<longleftrightarrow> is_set bm p \<or> p = b"
proof (cases "b div 8 < 4")
  case False
  then have "32 \<le> b" by linarith
  then show ?thesis using False assms by (auto simp: set_bitmap_def Let_def is_set_def)
next
  case True
  have p: "p div 8 < 4" using assms(2) by simp
  let ?w = "bm ! (b div 8)"
  have w: "bit (word_of_int (js_or (uint ?w) (js_shr 128 (b mod 8))) :: byte) (7 - p mod 8) \<longleftrightarrow>
      bit ?w (7 - p mod 8) \<or> p mod 8 = b mod 8"
  proof -
    define m where "m = 7 - p mod 8"
    have m: "m < 8" unfolding m_def by linarith
    have "p mod 8 < 8" "b mod 8 < 8" by simp_all
    then have "bit (js_shr 128 (b mod 8)) m \<longleftrightarrow> p mod 8 = b mod 8"
      using bit_js_shr_128 [of "b mod 8" m] by (auto simp: m_def)
    then show ?thesis using m unfolding m_def [symmetric] by (simp add: js_or_signed bit_simps)
  qed
  show ?thesis
  proof (cases "p div 8 = b div 8")
    case eq: True
    moreover have "p = b \<longleftrightarrow> p mod 8 = b mod 8" using eq by (metis mult_div_mod_eq)
    ultimately show ?thesis using w True assms(1) by (simp add: set_bitmap_def Let_def is_set_def)
  next
    case neq: False
    moreover from neq have "p \<noteq> b" by auto
    ultimately show ?thesis using True assms(1) by (simp add: set_bitmap_def Let_def is_set_def)
  qed
qed

lemma length_set_bitmap [simp]: "length (set_bitmap b bm) = length bm"
  by (simp add: set_bitmap_def Let_def)

lemma foldl_set_bitmap:
  assumes "length bm = 4"
  shows "length (foldl (\<lambda>bm b. set_bitmap b bm) bm bits) = 4"
    and "p < 32 \<Longrightarrow> is_set (foldl (\<lambda>bm b. set_bitmap b bm) bm bits) p \<longleftrightarrow> is_set bm p \<or> p \<in> set bits"
proof (induction bits rule: rev_induct)
  case (snoc b bits)
  { case 1 show ?case using snoc by simp }
  { case 2 then show ?case using snoc by (auto simp: is_set_set_bitmap) }
qed (simp_all add: assms)

lemma create_bitmap_loop:
  "foldE (\<lambda>i bm. bindE (check i (take i bits) (bits ! i)) (\<lambda>_. Inr (set_bitmap (bits ! i) bm))) [0..<m] bm = Inr r \<longleftrightarrow>
   (\<forall>i < m. check i (take i bits) (bits ! i) = Inr ()) \<and> r = foldl (\<lambda>bm b. set_bitmap b bm) bm (take m bits)"
  if "m \<le> length bits"
  using that
proof (induction m arbitrary: r)
  case (Suc m)
  then show ?case
    by (auto simp: foldE_append bindE_eq_Inr take_Suc_conv_app_nth less_Suc_eq)
qed auto

lemma create_bitmap_iff:
  "create_bitmap check bits = Inr bm \<longleftrightarrow>
   (\<forall>i < length bits. check i (take i bits) (bits ! i) = Inr ()) \<and> bm = foldl (\<lambda>bm b. set_bitmap b bm) [0, 0, 0, 0] bits"
  unfolding create_bitmap_def by (subst create_bitmap_loop) simp_all

lemma zero_bitmap: "p < 32 \<Longrightarrow> \<not> is_set [0, 0, 0, 0] p"
  by (auto simp: is_set_def nth_Cons split: nat.splits)

section \<open>Reading bits\<close>

lemma concat_filter: "concat (map (\<lambda>x. if P x then [x] else []) xs) = filter P xs"
  by (induction xs) simp_all

lemma js_shl_bit: "k < 8 \<Longrightarrow> js_shl 1 k = 2 ^ k"
proof -
  assume "k < 8"
  define x :: int where "x = 2 ^ k"
  have "x \<le> 128" "0 \<le> x" using \<open>k < 8\<close> power_increasing [of k 7 "2 :: int"] by (simp_all add: x_def)
  then have "to_int32 x = x" by - (rule to_int32_id, simp_all)
  moreover have "to_int32 1 = 1" by (rule to_int32_id) simp_all
  ultimately show ?thesis by (simp add: js_shl_def push_bit_eq_mult x_def)
qed

lemma and_bit_set: "k < 8 \<Longrightarrow> js_and (uint (w :: byte)) (js_shl 1 k) \<noteq> 0 \<longleftrightarrow> bit w k"
proof -
  assume k: "k < 8"
  then have "js_and (uint w) (js_shl 1 k) = signed_take_bit 31 (uint w AND 2 ^ k)" by (simp add: js_and_signed js_shl_bit)
  also have "\<dots> = uint w AND 2 ^ k"
  proof -
    define x where "x = uint w AND 2 ^ k"
    have "0 \<le> x" "x \<le> uint w" by (simp_all add: x_def)
    moreover have "uint w < 256" using uint_bounded [of w] by simp
    ultimately show ?thesis unfolding x_def [symmetric] by - (rule signed_take_bit_int_eq_self, simp_all)
  qed
  finally show ?thesis using k by (simp add: and_exp_eq_0_iff_not_bit bit_uint_iff)
qed

lemma bitmap_indices_filter: "bitmap_indices bm = filter (is_set bm) [0..<32]"
proof -
  have s: "js_and (uint (bm ! i)) (js_shl 1 (7 - j)) \<noteq> 0 \<longleftrightarrow> is_set bm (i * 8 + j)" if "j < 8" for i j
    using that and_bit_set [of "7 - j" "bm ! i"] by (simp add: is_set_def)
  have "bitmap_indices bm = concat (map (\<lambda>i. concat (map (\<lambda>j. if is_set bm (i * 8 + j) then [i * 8 + j] else []) [0..<8])) [0..<4])"
    unfolding bitmap_indices_def using s by (intro arg_cong [where f = concat] map_cong refl) auto
  also have "\<dots> = concat (map (\<lambda>i. filter (is_set bm) (map (\<lambda>j. i * 8 + j) [0..<8])) [0..<4])"
    by (intro arg_cong [where f = concat] map_cong refl)
      (simp add: comp_def flip: concat_filter)
  also have "\<dots> = filter (is_set bm) (concat (map (\<lambda>i. map (\<lambda>j. i * 8 + j) [0..<8]) [0..<4]))"
    by (simp add: filter_concat comp_def)
  also have "concat (map (\<lambda>i. map (\<lambda>j. i * 8 + j) [0..<8]) [0..<4]) = [0..<32]"
    by (simp add: upt_rec)
  finally show ?thesis .
qed

text \<open>The signers come back in ascending order.\<close>

lemma indices_of_bitmap:
  assumes "distinct bits" and "\<forall>b \<in> set bits. b < 32"
  shows "bitmap_indices (foldl (\<lambda>bm b. set_bitmap b bm) [0, 0, 0, 0] bits) = sort bits"
proof -
  let ?bm = "foldl (\<lambda>bm b. set_bitmap b bm) [0, 0, 0, 0] bits"
  have "set (filter (is_set ?bm) [0..<32]) = set bits"
    using assms(2) foldl_set_bitmap(2) [of "[0, 0, 0, 0]" _ bits] zero_bitmap by auto
  then show ?thesis unfolding bitmap_indices_filter
    using assms(1) by (intro sorted_distinct_set_unique) (simp_all add: sorted_wrt_filter)
qed

section \<open>Sequences and signatures\<close>

text \<open>
  Values one after another in one serializer, the bound of canonical Ed25519 signatures as a number, and
  the signatures of several keys with the bitmap that \<open>createBitmap\<close> makes.
\<close>

section \<open>Sequences of values\<close>

fun read_values :: "move_class list \<Rightarrow> move_value list get" where
  "read_values [] d = Inr ([], d)"
| "read_values (c # cs) d =
     bindE (move_deserialize c d) (\<lambda>(v, d). bindE (read_values cs d) (\<lambda>(vs, d). Inr (v # vs, d)))"

lemma emits_sequence: "list_all move_ok vs \<Longrightarrow> emits (foldE move_serialize vs) (concat (map move_bytes vs))"
  by (intro emits_fold emits_move) (simp add: list_all_iff)

lemma consumes_sequence:
  "list_all2 has_class cs vs \<Longrightarrow> list_all move_ok vs \<Longrightarrow> consumes (read_values cs) (concat (map move_bytes vs)) vs"
proof (induction cs vs rule: list_all2_induct)
  case Nil
  then show ?case by (simp add: consumes_def)
next
  case (Cons c cs v vs)
  have "read_values (c # cs) = (\<lambda>d. bindE (move_deserialize c d) (\<lambda>(v, d). bindE (read_values cs d) (\<lambda>(vs, d). Inr (v # vs, d))))"
    by (rule ext) simp
  moreover have "consumes (move_deserialize c) (move_bytes v) v" using Cons by (intro consumes_move) simp_all
  moreover have "consumes (\<lambda>d. bindE (read_values cs d) (\<lambda>(vs, d). Inr (v # vs, d))) (concat (map move_bytes vs)) (v # vs)"
    using Cons by (intro consumes_map [OF _ refl]) simp
  ultimately show ?case by (simp add: consumes_bind)
qed

lemma new_serializer_ok: "0 < n \<Longrightarrow> \<exists>s. new_Serializer n = Inr s \<and> wf_sr s \<and> Serializer_toUint8Array s = []"
  by (simp add: new_Serializer_def wf_sr_def buf_alloc_def Serializer_toUint8Array_def)

section \<open>Canonical signatures\<close>

lemma canonical_loop_less:
  "i \<le> length s \<Longrightarrow> i \<le> length L \<Longrightarrow> canonical_loop i s L \<longleftrightarrow> le_val (take i s) < le_val (take i L)"
proof (induction i)
  case (Suc i)
  define a b where "a = le_val (take i s)" and "b = le_val (take i L)"
  define x y where "x = uint (s ! i)" and "y = uint (L ! i)"
  define n where "n = (256 :: int) ^ i"
  have v: "le_val (take (Suc i) s) = a + n * x" "le_val (take (Suc i) L) = b + n * y"
    using Suc.prems by (simp_all add: take_Suc_conv_app_nth le_val_snoc a_def b_def x_def y_def n_def)
  have ab: "0 \<le> a" "a < n" "0 \<le> b" "b < n"
    using le_val_less [of "take i s"] le_val_less [of "take i L"] Suc.prems by (simp_all add: a_def b_def n_def)
  have less: "c + n * u < d + n * w" if "u < w" "c < n" "0 \<le> d" for c d u w :: int
  proof -
    have "n * (u + 1) \<le> n * w" using that by (intro mult_left_mono) (simp_all add: n_def)
    then show ?thesis using that by (simp add: algebra_simps)
  qed
  have "canonical_loop (Suc i) s L \<longleftrightarrow> (if x < y then True else if x > y then False else a < b)"
    using Suc by (simp add: a_def b_def x_def y_def)
  then show ?case unfolding v using less [of x y a b] less [of y x b a] ab by (cases x y rule: linorder_cases) auto
qed simp

lemma length_ed_L: "length ed_L = 32"
  by (simp add: ed_L_def)

lemma ed_L_value: "le_val ed_L = 2 ^ 252 + 27742317777372353535851937790883648493"
  by (simp add: ed_L_def)

section \<open>Signatures of several keys\<close>

lemma ed_bitmap_iff:
  "MultiEd25519Signature_createBitmap bits = Inr bm \<longleftrightarrow>
   sorted_wrt (<) bits \<and> list_all (\<lambda>b. b < 32) bits \<and> bm = foldl (\<lambda>bm b. set_bitmap b bm) [0, 0, 0, 0] bits"
proof -
  let ?check = "\<lambda>index before b :: nat. if b \<ge> 32 then Inl IndexOutOfBounds else if b \<in> set before then Inl InvalidData
      else if index > 0 \<and> b \<le> before ! (index - 1) then Inl InvalidData else Inr ()"
  have "(\<forall>i < length bits. ?check i (take i bits) (bits ! i) = Inr ()) \<longleftrightarrow> sorted_wrt (<) bits \<and> list_all (\<lambda>b. b < 32) bits"
    (is "?ok \<longleftrightarrow> _")
  proof
    assume ok: ?ok
    have "bits ! i < 32" if "i < length bits" for i using ok that by (auto split: if_splits)
    moreover have "bits ! i < bits ! Suc i" if "Suc i < length bits" for i
      using ok [rule_format, OF that] that by (auto split: if_splits)
    ultimately show "sorted_wrt (<) bits \<and> list_all (\<lambda>b. b < 32) bits"
      by (auto simp: list_all_length sorted_wrt_iff_nth_Suc_transp)
  next
    assume s: "sorted_wrt (<) bits \<and> list_all (\<lambda>b. b < 32) bits"
    show ?ok
    proof (intro allI impI)
      fix i assume i: "i < length bits"
      have less: "bits ! j < bits ! i" if "j < i" for j using s i that by (simp add: sorted_wrt_iff_nth_less)
      then have "bits ! i \<notin> set (take i bits)" using i by (auto simp: in_set_conv_nth) (metis less_irrefl)
      moreover have "bits ! i < 32" using s i by (simp add: list_all_length)
      moreover have "\<not> (i > 0 \<and> bits ! i \<le> take i bits ! (i - 1))" using less [of "i - 1"] by auto
      ultimately show "?check i (take i bits) (bits ! i) = Inr ()" by simp
    qed
  qed
  then show ?thesis unfolding MultiEd25519Signature_createBitmap_def create_bitmap_iff by simp
qed

lemma ed_bitmap_indices:
  assumes "MultiEd25519Signature_createBitmap bits = Inr bm"
  shows "bitmap_indices bm = bits"
proof -
  have s: "sorted_wrt (<) bits" "list_all (\<lambda>b. b < 32) bits" "bm = foldl (\<lambda>bm b. set_bitmap b bm) [0, 0, 0, 0] bits"
    using assms by (simp_all add: ed_bitmap_iff)
  then have "distinct bits" "sorted bits" using strict_sorted_iff by auto
  then show ?thesis using indices_of_bitmap [of bits] s by (simp add: list_all_iff sorted_sort_id)
qed

lemma verify_each_all:
  "list_all (\<lambda>b. b < length keys) bits \<Longrightarrow> length gs = length bits \<Longrightarrow>
   verify_each verify keys (zip bits gs) = Inr (list_all2 (\<lambda>b g. verify (keys ! b) g) bits gs)"
  by (induction bits arbitrary: gs) (auto simp: length_Suc_conv)

end
