(* ===== verification/Properties_Aptos.thy ===== *)
theory Properties_Aptos
  imports Aptos_Tag_Text Aptos_Signing
begin

text \<open>Properties of the serializer, the type tags, the keys and the transactions of coin-aptos.\<close>

section \<open>Serializer and deserializer\<close>



section \<open>Type tags\<close>

text \<open>
  C28: \<open>TypeTag.deserialize\<close> ends on any bytes: the depth of its recursion never reaches the number of
  bytes that are left, and no bytes are put back.
\<close>

theorem TypeTag_deserialize_ends:
  "case TypeTag_deserialize d of Inl e \<Rightarrow> e \<noteq> OutOfFuel | Inr (t, d') \<Rightarrow> ds_left d' \<le> ds_left d"
proof -
  have "safe (ds_left d) (TypeTag_deserialize_fuel (ds_left d + 1))" by (rule type_tag_fuel) simp
  then show ?thesis by (auto simp: safe_def TypeTag_deserialize_def ds_left_def split: sum.splits)
qed

text \<open>
  C14: The text of a type tag parses to the tag: structs with any arguments, vectors, primitives, a
  reference to a signer, and generic numbers where they are allowed.
\<close>

theorem type_tag_text_roundtrip:
  assumes "tag_text_ok g t" and "noble_hex b2h h2b"
  shows "parseTypeTag h2b (TypeTag_toString b2h t) g = Inr t"
  using assms by (rule parseTypeTag_text)

theorem type_tag_text_roundtrip_witness:
  "parseTypeTag (\<lambda>s. Some (hex_decode s))
     (TypeTag_toString hex_of_buffer (TypeTagVector (TypeTagStruct (StructTag address_ONE ''pair'' ''Pair'' [TypeTagU8, TypeTagGeneric 0])))) True =
   Inr (TypeTagVector (TypeTagStruct (StructTag address_ONE ''pair'' ''Pair'' [TypeTagU8, TypeTagGeneric 0])))"
  by (rule type_tag_text_roundtrip [OF _ noble_hex_instance])
    (simp add: address_ok_def address_ONE_def isValidIdentifier_def code_of_def is_digit_def)

text \<open>
  A type tag without references survives its bytes, and the bytes of one tag are no prefix of
  the bytes of another.
\<close>

theorem type_tag_bytes_roundtrip:
  assumes "tag_ok t"
  shows "\<exists>b d. bcsToBytes (TypeTag_serialize t) = Inr b \<and>
    TypeTag_deserialize (new_Deserializer (b @ rest)) = Inr (t, d) \<and> ds_at d rest"
  using tag_bcs.to_bytes [OF assms] tag_bcs.round_trip [OF assms] by blast

theorem type_tag_bytes_roundtrip_witness:
  "\<exists>b d. bcsToBytes (TypeTag_serialize (TypeTagVector (TypeTagGeneric 3))) = Inr b \<and>
    TypeTag_deserialize (new_Deserializer (b @ [7])) = Inr (TypeTagVector (TypeTagGeneric 3), d) \<and> ds_at d [7]"
  using type_tag_bytes_roundtrip [of "TypeTagVector (TypeTagGeneric 3)" "[7]"] by simp

text \<open>
  C39: The parser keeps adding to the name behind the bracket that closes the arguments: a text with the
  arguments in the middle of the name is taken for the one with the arguments at its end.
\<close>

theorem parser_joins_name_around_arguments:
  assumes "list_all plain_char a" and "list_all plain_char b" and "list_all plain_char c"
  shows "parseTypeTag h2b (a @ ''<'' @ c @ ''>'' @ b) g = parseTypeTag h2b (a @ b @ ''<'' @ c @ ''>'') g"
proof -
  have l: "parse_loop h2b g st w = Inr (st\<lparr>tp_currentStr := tp_currentStr st @ w\<rparr>)" if "list_all plain_char w" for st w
    using loop_plain [OF that, of h2b g st "[]"] by simp
  show ?thesis
    by (simp add: parseTypeTag_def new_tag_parser_def loop_plain [OF assms(1)] loop_plain [OF assms(2)] loop_plain [OF assms(3)]
        l [OF assms(1)] l [OF assms(2)] parse_open_def parse_close_def push_tag_def bindE_assoc)
qed

theorem parser_joins_name_around_arguments_witness:
  "parseTypeTag (\<lambda>_. None) (''vec'' @ ''<'' @ ''u8'' @ ''>'' @ ''tor'') False = Inr (TypeTagVector TypeTagU8)"
proof -
  have "list_all plain_char ''vec''" "list_all plain_char ''tor''" "list_all plain_char ''u8''" by code_simp+
  moreover have "parseTypeTag (\<lambda>_. None) (''vec'' @ ''tor'' @ ''<'' @ ''u8'' @ ''>'') False = Inr (TypeTagVector TypeTagU8)"
    by code_simp
  ultimately show ?thesis by (simp only: parser_joins_name_around_arguments)
qed

section \<open>Keys and signatures\<close>

text \<open>
  C29: A signature of Ed25519 is canonical exactly when its second half, as a little-endian number, is
  less than the order of the group, which the loop over the bytes from the last one down decides.
\<close>

theorem canonical_signature_bound:
  assumes "length sig = 64"
  shows "Ed25519Signature_isCanonicalSignature sig \<longleftrightarrow> le_val (drop 32 sig) < 2 ^ 252 + 27742317777372353535851937790883648493"
  using assms canonical_loop_less [of 32 "drop 32 sig" ed_L] ed_L_value
  by (simp add: Ed25519Signature_isCanonicalSignature_def length_ed_L)

theorem canonical_signature_bound_witness:
  "Ed25519Signature_isCanonicalSignature (replicate 64 1) \<longleftrightarrow>
    le_val (replicate 32 1) < 2 ^ 252 + 27742317777372353535851937790883648493"
  using canonical_signature_bound [of "replicate 64 1"] by simp



text \<open>
  C38: \<open>MultiEd25519PublicKey.deserialize\<close> does not ask for a byte behind the keys: of the bytes of two
  keys alone the last byte is read as the threshold too, while it is still part of the second key.
\<close>

theorem multi_key_without_threshold:
  assumes "length a = 32" and "length b = 32" and "1 \<le> uint (last b)" and "uint (last b) \<le> 2"
  shows "\<exists>d. MultiEd25519PublicKey_deserialize (new_Deserializer (len_bytes (a @ b) @ rest)) =
    Inr (\<lparr>mp_keys = [a, b], mp_threshold = uint (last b)\<rparr>, d) \<and> ds_at d rest"
proof -
  have "consumes Deserializer_deserializeBytes (len_bytes (a @ b)) (a @ b)" using assms by (intro consumes_bytes) simp
  then obtain d where "Deserializer_deserializeBytes (new_Deserializer (len_bytes (a @ b) @ rest)) = Inr (a @ b, d)" "ds_at d rest"
    using ds_at_new by (rule consumesE)
  moreover have "sub_blocks 32 63 (a @ b) = [a, b]" using assms by (simp add: sub_blocks_def upt_rec)
  moreover have "b \<noteq> []" using assms(2) by auto
  ultimately show ?thesis using assms
    by (simp add: MultiEd25519PublicKey_deserialize_def new_MultiEd25519PublicKey_def new_Ed25519PublicKey_def sized_def)
qed

theorem multi_key_without_threshold_witness:
  "\<exists>d. MultiEd25519PublicKey_deserialize (new_Deserializer (len_bytes (replicate 32 5 @ replicate 32 2) @ [8])) =
    Inr (\<lparr>mp_keys = [replicate 32 5, replicate 32 2], mp_threshold = 2\<rparr>, d) \<and> ds_at d [8]"
  using multi_key_without_threshold [of "replicate 32 5" "replicate 32 2" "[8]"] by (simp add: last_replicate)

section \<open>Transactions\<close>

text \<open>A transaction that calls \<open>0x1::coin::transfer\<close> with the given argument.\<close>

abbreviation small_call :: "move_value \<Rightarrow> any_raw_transaction" where
  "small_call v \<equiv>
     \<lparr>ar_rawTransaction =
        \<lparr>rt_sender = address_ONE, rt_sequence_number = 7,
         rt_payload = TransactionPayloadEntryFunction
           \<lparr>ef_module_name = \<lparr>mi_address = address_ONE, mi_name = ''coin''\<rparr>, ef_function_name = ''transfer'',
            ef_type_args = [TypeTagU64], ef_args = [v]\<rparr>,
         rt_max_gas_amount = 2000, rt_gas_unit_price = 100, rt_expiration_timestamp_secs = 9, rt_chain_id = 1\<rparr>,
      ar_secondarySignerAddresses = None, ar_feePayerAddress = None\<rparr>"

definition salt_hash :: "buffer \<Rightarrow> buffer" where \<comment> \<open>a digest of 32 bytes\<close>
  "salt_hash b = take 32 (b @ replicate 32 0)"

lemma small_call_ok: "entry_arg_ok v \<Longrightarrow> any_raw_ok (small_call v)"
proof -
  assume v: "entry_arg_ok v"
  have "str_ok ''coin''" "str_ok ''transfer''" unfolding str_ok_def by (auto intro!: ascii_utf8_ok simp: code_of_def)
  moreover have "address_ok address_ONE" by (simp add: address_ok_def address_ONE_def)
  ultimately show ?thesis using v
    by (simp add: any_raw_ok_def raw_txn_ok_def entry_function_ok_def module_ok_def vec_ok_def)
qed

lemma small_arguments_ok: "entry_arg_ok (MU8 5)" "entry_arg_ok (MEntryFunctionBytes [5])"
  by (simp_all add: entry_arg_ok_def)

text \<open>
  C6: What is signed for a transaction determines it: with a digest of fixed length that tells the two
  salts apart, transactions with the same signing message have the same fee payer, the same secondary
  signers and the same raw transaction, as far as its bytes can say; without a fee payer they are also
  both of a single signer or both of several.
\<close>

theorem signing_message_determines_transaction:
  assumes "any_raw_ok t" and "any_raw_ok u"
    and "\<forall>b. length (sha3 b) = 32" and "sha3 (text_encode RAW_TRANSACTION_SALT) \<noteq> sha3 (text_encode RAW_TRANSACTION_WITH_DATA_SALT)"
    and "generateSigningMessageForTransaction sha3 t = generateSigningMessageForTransaction sha3 u"
  shows "raw_seen (ar_rawTransaction t) = raw_seen (ar_rawTransaction u) \<and>
    ar_feePayerAddress t = ar_feePayerAddress u \<and> secondary_signers t = secondary_signers u \<and>
    (ar_feePayerAddress t = None \<longrightarrow> ar_secondarySignerAddresses t = ar_secondarySignerAddresses u)"
proof -
  define i j where "i = deriveTransactionType t" and "j = deriveTransactionType u"
  have ok: "instance_ok i" "instance_ok j" using assms(1,2) by (simp_all add: i_def j_def derive_ok)
  have "sha3 (text_encode (instance_salt i)) @ instance_bytes i = sha3 (text_encode (instance_salt j)) @ instance_bytes j"
    using assms(5) unfolding signing_message_for_transaction [OF assms(1)] signing_message_for_transaction [OF assms(2)] i_def j_def
    by simp
  then have "sha3 (text_encode (instance_salt i)) = sha3 (text_encode (instance_salt j))" "instance_bytes i = instance_bytes j"
    using assms(3) by (simp_all add: append_eq_append_conv)
  then have "instance_seen i = instance_seen j" using ok assms(4)
    by (intro instance_bytes_seen) (auto simp: instance_salt_def split: any_raw_instance.splits)
  then show ?thesis using derive_determines [of t u] by (simp add: i_def j_def)
qed

text \<open>An argument and its bytes: different objects that are the same on the wire.\<close>

theorem signing_message_determines_transaction_witness:
  "raw_seen (ar_rawTransaction (small_call (MU8 5))) = raw_seen (ar_rawTransaction (small_call (MEntryFunctionBytes [5])))"
proof (rule signing_message_determines_transaction [where ?sha3.0 = salt_hash, THEN conjunct1])
  show "any_raw_ok (small_call (MU8 5))" "any_raw_ok (small_call (MEntryFunctionBytes [5]))"
    using small_arguments_ok by (blast intro: small_call_ok)+
  then show "generateSigningMessageForTransaction salt_hash (small_call (MU8 5)) =
      generateSigningMessageForTransaction salt_hash (small_call (MEntryFunctionBytes [5]))"
    unfolding signing_message_for_transaction [OF small_call_ok [OF small_arguments_ok(1)]]
      signing_message_for_transaction [OF small_call_ok [OF small_arguments_ok(2)]]
    by (simp add: deriveTransactionType_def instance_salt_def raw_bytes_def entry_function_bytes_def vec_bytes_def)
  show "salt_hash (text_encode RAW_TRANSACTION_SALT) \<noteq> salt_hash (text_encode RAW_TRANSACTION_WITH_DATA_SALT)"
    by code_simp
qed (simp add: salt_hash_def min_def)

text \<open>
  C7: \<open>generateSignedTransaction\<close> of a transaction with the authenticators that its kind needs gives bytes
  that \<open>SignedTransaction.deserialize\<close> reads completely, as the raw transaction and the authenticator
  chosen for the kind.
\<close>

theorem signed_transaction_roundtrip:
  assumes "any_raw_ok t" and "account_ok sender" and "pred_option account_ok fee" and "pred_option (vec_ok account_ok) additional"
    and "ar_feePayerAddress t \<noteq> None \<longrightarrow> fee \<noteq> None"
    and "ar_feePayerAddress t = None \<and> ar_secondarySignerAddresses t \<noteq> None \<longrightarrow> additional \<noteq> None"
  shows "\<exists>b a d. generateSignedTransaction t sender fee additional = Inr b \<and>
    transaction_authenticator_for t sender fee additional = Inr a \<and>
    SignedTransaction_deserialize (new_Deserializer b) =
      Inr (\<lparr>sg_raw_txn = raw_seen (ar_rawTransaction t), sg_authenticator = a\<rparr>, d) \<and> ds_at d []"
proof -
  obtain a where a: "transaction_authenticator_for t sender fee additional = Inr a" "authenticator_ok a"
    using transaction_authenticator_ok [OF assms] by blast
  have r: "raw_txn_ok (ar_rawTransaction t)" using assms(1) by (simp add: any_raw_ok_def)
  then have "signed_ok \<lparr>sg_raw_txn = ar_rawTransaction t, sg_authenticator = a\<rparr>" using a(2) by (simp add: signed_ok_def)
  from signed_bcs.round_trip [OF this, of "[]"] show ?thesis
    using generateSignedTransaction_bytes [OF assms(2) a(1) r a(2)] a(1) by (auto simp: signed_seen_def)
qed

theorem signed_transaction_roundtrip_witness:
  "\<exists>b a d. generateSignedTransaction (small_call (MU8 5)) (AccountAuthenticatorEd25519 (replicate 32 1) (replicate 64 2)) None None = Inr b \<and>
    transaction_authenticator_for (small_call (MU8 5)) (AccountAuthenticatorEd25519 (replicate 32 1) (replicate 64 2)) None None = Inr a \<and>
    SignedTransaction_deserialize (new_Deserializer b) =
      Inr (\<lparr>sg_raw_txn = raw_seen (ar_rawTransaction (small_call (MU8 5))), sg_authenticator = a\<rparr>, d) \<and> ds_at d []"
  by (rule signed_transaction_roundtrip [OF small_call_ok [OF small_arguments_ok(1)]]) simp_all

text \<open>
  C40: A text of 128 bytes or more as the argument of a script carries a byte of its own length in front: the
  model of \<open>MoveString.serializeForScriptFunction\<close> drops one byte of the length prefix, which has two.
\<close>

theorem script_text_keeps_length_byte:
  assumes "utf8_ok t" and "128 \<le> length t" and "length t < 2 ^ 14"
  shows "bcsToBytes (move_serializeForScriptFunction (MString t)) =
    Inr (uleb_bytes 4 @ len_bytes (word_of_nat (length t div 128) # text_encode t))"
proof -
  have "uleb_bytes (length t) = [word_of_nat (length t mod 128 + 128), word_of_nat (length t div 128)]"
    using assms(2,3) by (simp add: uleb_bytes.simps [of "length t"] uleb_bytes.simps [of "length t div 128"] less_mult_imp_div_less)
  then have d: "drop 1 (str_bytes t) = word_of_nat (length t div 128) # text_encode t" by (simp add: str_bytes_def len_bytes_def)
  have "str_ok t" using assms by (simp add: str_ok_def)
  then show ?thesis unfolding script_text [OF \<open>str_ok t\<close>] d using assms(3) by (intro emits_to_bytes emits_u8_vector) simp
qed

theorem script_text_keeps_length_byte_witness:
  "bcsToBytes (move_serializeForScriptFunction (MString (replicate 300 CHR ''a''))) =
    Inr (uleb_bytes 4 @ len_bytes (2 # text_encode (replicate 300 CHR ''a'')))"
proof -
  have "utf8_ok (replicate 300 CHR ''a'')" by (rule ascii_utf8_ok) (simp add: code_of_def list_all_iff)
  then show ?thesis using script_text_keeps_length_byte [of "replicate 300 CHR ''a''"] by simp
qed

end
