(* ===== verification/Spec2Isabelle.thy ===== *)
theory Spec2Isabelle
  imports Properties_Bits Properties_Cells Properties_Boc Properties_Messages Properties_Btc Properties_Aptos
begin

text \<open>
  A verification library for three parts of js-wallet-sdk:
    \<^item> TON: the cell library \<open>packages/coin-ton/src/ton-core\<close>, the wallets
      \<open>packages/coin-ton/src/ton/wallets\<close>, and the programming interface on top of them
      (\<open>packages/coin-ton/src/api\<close>, \<open>TonWallet.ts\<close>);
    \<^item> Bitcoin: the scripts and transactions of \<open>packages/coin-bitcoin/src/bitcoinjs-lib\<close>;
    \<^item> Aptos: the serialisation, the type tags, the keys and the transactions of
      \<open>packages/coin-aptos/src/v2\<close>.

  TON: the parts and how they interact. A transaction is a tree of cells. A cell holds at most 1023
  bits and four references; its hash covers its bits and the hashes of its references. Bits are
  written by a \<open>BitBuilder\<close> and read by a \<open>BitReader\<close> over a \<open>BitString\<close>; a \<open>Builder\<close> adds
  references to the former, a \<open>Slice\<close> to the latter, and \<open>endCell\<close> and \<open>beginParse\<close> go between
  builders, cells and slices. Dictionaries, tuples, messages, transactions and accounts are
  written through builders and read through slices. A bag of cells (\<open>toBoc\<close>, \<open>fromBoc\<close>) is the
  byte form of a tree of cells. A wallet signs the hash of a cell with its messages and puts both
  into an external message, whose bag of cells in base64 is what the interface returns.

  Bitcoin: a \<open>BufferWriter\<close> and a \<open>BufferReader\<close> move an offset through a Buffer; \<open>Transaction\<close> is
  written and read through them. A script is a list of chunks (operations and data) that is compiled
  to bytes and decompiled; numbers in it have a form of their own, signatures the DER form behind
  their hash type. The three \<open>hashFor...\<close> methods hash a message made of the transaction, the spent
  outputs and the hash type, which is what a signature signs.

  Aptos: a \<open>Serializer\<close> writes into a buffer that doubles when it is full, a \<open>Deserializer\<close> reads
  from an offset. Type tags, Move values, payloads, raw transactions, keys, signatures and
  authenticators are classes with a method \<open>serialize\<close> and a static \<open>deserialize\<close> on top of them. The
  signing message of a transaction is a digest of a salt and the bytes of the raw transaction with the
  signers; \<open>generateSignedTransaction\<close> puts the raw transaction and the authenticators together.
  The parser makes a type tag of its text with a stack of the open argument lists.

  Conventions of the model. A name \<open>Class_method\<close> is the method of that class, any other name is
  the function of that name. An object that the code mutates is a value that goes in and comes
  out. A throw is \<open>Inl e\<close> with \<open>e\<close> of the type \<open>js_error\<close>; as the callers abandon an object when a
  method on it throws, only the error is kept. A parameter \<open>bigint | number\<close> is a \<open>jsval\<close>; Numbers
  are integers, and a BigInt that becomes a Number is rounded to 53 bits. Shifts of Numbers work on
  32 bits. A Buffer is a list of 8-bit words, a string the list of the bytes of its UTF-8 form.

  Theories with models, and what they model:
    \<^item> \<open>Js_Prelude\<close>: the parts of JavaScript the code relies on, errors, bits of numbers and bytes
    \<^item> \<open>Bit_String\<close>, \<open>Bit_Builder\<close>, \<open>Bit_Reader\<close>, \<open>Padded_Bits\<close>: \<open>boc/BitString.ts\<close>,
      \<open>boc/BitBuilder.ts\<close>, \<open>boc/BitReader.ts\<close>, \<open>boc/utils/paddedBits.ts\<close>
    \<^item> \<open>Level_Mask\<close>, \<open>Cell_Repr\<close>, \<open>Cell_Hash\<close>: \<open>boc/cell/\<close> (level masks, descriptors, exotic cells,
      \<open>wonderCalculator\<close>) and the constructor of \<open>boc/Cell.ts\<close>
    \<^item> \<open>Cell_Slice\<close>, \<open>Ton_Cell\<close>: \<open>boc/Builder.ts\<close>, \<open>boc/Slice.ts\<close>, \<open>boc/utils/strings.ts\<close>, the rest
      of \<open>boc/Cell.ts\<close>
    \<^item> \<open>Topo_Sort\<close>, \<open>Crc32c\<close>, \<open>Boc\<close>: the order of a bag of cells, its checksum, \<open>serialization.ts\<close>
    \<^item> \<open>Node_Text\<close>: texts and numbers of the platform (base64, hexadecimal, \<open>parseInt\<close>, \<open>BigInt\<close>), and
      the amounts of \<open>utils/convert.ts\<close>
    \<^item> \<open>Ton_Address\<close>: \<open>address/\<close>, \<open>utils/\<close> (CRC-16, base32)
    \<^item> \<open>Dict_Tree\<close>, \<open>Dictionary\<close>, \<open>Dict_Codecs\<close>, \<open>Merkle_Proof\<close>: \<open>dict/\<close>
    \<^item> \<open>Ton_Tuple\<close>: \<open>tuple/\<close>; \<open>Ton_Messages\<close>, \<open>Ton_Transactions\<close>, \<open>Ton_Accounts\<close>, \<open>Ton_Shards\<close>: \<open>types/\<close>
    \<^item> \<open>Ton_Wallets\<close>: \<open>address/contractAddress.ts\<close>, \<open>crypto/safeSign.ts\<close>, \<open>ton/wallets/\<close>
    \<^item> \<open>Ton_Api\<close>, \<open>Ton_Wallet_Class\<close>: \<open>api/\<close>, \<open>TonWallet.ts\<close> and the helpers of crypto-lib they use
    \<^item> \<open>Btc_Buffer\<close>: Buffers of Node and \<open>bufferutils.ts\<close>, \<open>varuint\<close>; \<open>Btc_Script\<close>: \<open>script.ts\<close>,
      \<open>push_data.ts\<close>, \<open>script_number.ts\<close>, \<open>script_signature.ts\<close>, \<open>bip66.ts\<close>
    \<^item> \<open>Btc_Transaction\<close>, \<open>Btc_Sighash\<close>: \<open>transaction.ts\<close> without and with the hashes that are signed
    \<^item> \<open>Aptos_Bcs\<close>: \<open>bcs/serializer.ts\<close>, \<open>bcs/deserializer.ts\<close>, \<open>bcs/consts.ts\<close>; \<open>Aptos_Move\<close>:
      \<open>bcs/serializable/\<close>
    \<^item> \<open>Aptos_Core\<close>, \<open>Aptos_Multi\<close>: \<open>core/\<close> (addresses, authentication keys, keys and signatures of one
      signer and of several)
    \<^item> \<open>Aptos_Type_Tag\<close>: \<open>transactions/typeTag/\<close>; \<open>Aptos_Transaction\<close>: \<open>transactions/instances/\<close>,
      \<open>transactionBuilder/signingMessage.ts\<close>; \<open>Aptos_Authenticator\<close>: \<open>transactions/authenticator/\<close> and
      the signed transactions of \<open>transactionBuilder/transactionBuilder.ts\<close>

  Theories with lemmas, and what each group shows:
    \<^item> \<open>Bit_Writers\<close>, \<open>Bit_Codec\<close>: every write appends the bits of a reference encoding, every load
      inverts it; the locale \<open>bit_codec\<close> is this contract, interpreted for every kind of field
    \<^item> \<open>Cell_Codec\<close>, \<open>Store_Load\<close>, \<open>Codec_Steps\<close>: the same contract for builders and slices
      (locale \<open>cell_codec\<close>) and the rules with which the round trip of a record is put together
    \<^item> \<open>Cell_Tree\<close>, \<open>Cell_Congruence\<close>: cells as trees; what the constructor makes depends on the
      contents of the arguments only
    \<^item> \<open>Boc_Cells\<close>, \<open>Boc_Roundtrip\<close>, \<open>Boc_Safety\<close>: writing and reading a bag of cells; reading bytes
      nobody has checked
    \<^item> \<open>Dict_Build\<close>, \<open>Dict_Labels\<close>, \<open>Dict_Roundtrip\<close>, \<open>Dictionary_Roundtrip\<close>: the tree of a
      dictionary as a map, its labels, its serialisation, its keys (locale \<open>dict_key_codec\<close>)
    \<^item> \<open>Text_Roundtrip\<close>, \<open>Crc16\<close>, \<open>Address_Roundtrip\<close>: texts of numbers and addresses, checksums
    \<^item> \<open>Message_Roundtrip\<close>, \<open>Message_Refs\<close>, \<open>Tuple_Roundtrip\<close>: messages, the
      references they need, output actions, tuples
    \<^item> \<open>Wallet_Transfer\<close>, \<open>Snake_Pack\<close>: the signed body of a transfer, bytes over several cells
    \<^item> \<open>Btc_Codec\<close>, \<open>Btc_Tx_Codec\<close>: \<open>appends\<close> and \<open>parses\<close>, what a step of a writer adds and a step of a
      reader takes (locale \<open>wire\<close>), up to the bytes of a transaction
    \<^item> \<open>Btc_Script_Codec\<close>, \<open>Btc_Der\<close>, \<open>Btc_Number\<close>: chunks, DER integers, script numbers
    \<^item> \<open>Btc_Sighash_Codec\<close>: the messages of BIP 143, BIP 341 and of the original hash
    \<^item> \<open>Aptos_Bcs_Codec\<close>: \<open>emits\<close> and \<open>consumes\<close>, the same for the serializer, and the contract of a
      serializable class (locale \<open>bcs\<close>), with interpretations in the theories of the classes:
      \<open>Aptos_Tag_Codec\<close> (also: reading a tag ends), \<open>Aptos_Key_Codec\<close>, \<open>Aptos_Tx_Codec\<close>
    \<^item> \<open>Aptos_Tag_Text\<close>: the parser inverts \<open>toString\<close>; \<open>Aptos_Signing\<close>: bitmaps of signers, canonical
      signatures, sequences of values
    \<^item> the theories \<open>Properties_...\<close>: the properties, each with a concrete instance

  Parameters. The digest \<open>sha\<close> is a function from bytes to 32 bytes (\<open>sha_ok\<close>); where equal hashes
  have to mean equal cells, this is a hypothesis about the cells at hand (\<open>collision_free\<close>). So is
  \<open>sha3\<close> for Aptos. Signatures (\<open>detached\<close> of tweetnacl, \<open>eddsa\<close> and \<open>public\<close> of the elliptic
  library), their verification by @noble/curves (\<open>ed\<close>, \<open>secp\<close>), the hexadecimal forms of @noble/hashes
  (\<open>h2b\<close>, \<open>b2h\<close>; \<open>noble_hex\<close> says that they are inverse and lower case), the clock \<open>now\<close> and random bytes
  \<open>rand\<close> are arguments.

  Conditions of the lemmas. A Bitcoin transaction is \<open>tx_ok\<close> when its numbers are in the ranges of
  their fields (amounts below \<open>2 ^ 53\<close>, the others below \<open>2 ^ 32\<close>) and \<open>no_blank\<close> when it has no output
  that only a legacy hash makes; \<open>v1_ok\<close> are the conditions on the arguments of \<open>hashForWitnessV1\<close>. The
  predicates \<open>..._ok\<close> of the Aptos theories say that numbers are in their ranges, keys have their
  lengths, texts are well-formed UTF-8 and lists have less than \<open>2 ^ 32\<close> elements; \<open>..._seen\<close> is what
  is read back where it differs from what was written (arguments of functions become bytes).

  Bounds and fuel. Buffers have less than \<open>2 ^ 28\<close> bytes where bit positions are computed with
  32-bit shifts (\<open>wf_bs\<close>). Two definitions have fuel. The topological sort has as much as there are
  hashes left, and one; \<open>topologicalSort_terminates\<close> shows that it is never used up. \<open>TypeTag.deserialize\<close>
  of Aptos has as much as there are bytes left, and one; \<open>TypeTag_deserialize_ends\<close> shows the same for
  any bytes. \<open>ensureBufferWillHandleSize\<close> returns \<open>OutOfFuel\<close> for an empty buffer, where the loop of the
  code does not end; the constructor allows none, and \<open>wf_sr\<close> is kept by every operation. The other loops
  recur on a measure that decreases: bits or bytes left, references of cells, the length of a list.

  Not modelled. TON: the branch of \<open>toNano\<close> that formats a Number with \<open>toLocaleString\<close>. Contracts,
  providers and senders (\<open>ton-core/contract/\<close>, \<open>getBalance\<close>, \<open>getSeqno\<close>, \<open>send\<close>), which pass calls to a
  network client. Random keys, mnemonics and \<open>signCommonMsg\<close>, which call packages. Bitcoin: addresses,
  payments, PSBT, inscriptions and the wallet classes. Aptos: version 1 of the library, texts that are not
  ASCII in the parser of type tags, random and derived keys, the builder that asks the network for the ABI
  of a function, accounts and the wallet class. The stack limit of JavaScript. The other coins of the
  repository.
\<close>

end
